(* ===== verification/Xtl_Prelude.thy ===== *)
theory Xtl_Prelude
  imports Main "HOL-Library.Word" "HOL-Library.Signed_Division"
begin

text \<open>
  Shared vocabulary of the development: the widths of XTL's integer typedefs
  (\<^verbatim>\<open>Types.hpp\<close>), the exception-and-state shape every stateful C++ method is
  translated to, and the generic lemmas on lists, words and loops that the component
  theories use.

  A C++ method that may throw and that changes an object of type \<open>'s\<close> is a function
  \<open>'s \<Rightarrow> ('e + 'a) \<times> 's\<close>: \<open>Inl e\<close> is the thrown exception, \<open>Inr a\<close> the returned
  value, and the second component is the object afterwards, in both cases (a C++
  exception does not undo the changes made before it was thrown).
\<close>

section \<open>Integer types\<close>

type_synonym UINT_8 = "8 word"
type_synonym UINT_16 = "16 word"
type_synonym UINT_32 = "32 word"
type_synonym UINT_64 = "64 word"

text \<open>Signed typedefs are the same words, read with \<open>sint\<close>.\<close>

type_synonym INT_32 = "32 word"
type_synonym INT_64 = "64 word"

section \<open>Methods that may throw\<close>

type_synonym ('s, 'e, 'a) mth = "'s \<Rightarrow> ('e + 'a) \<times> 's"

definition returnM :: "'a \<Rightarrow> ('s, 'e, 'a) mth" where
  "returnM a s = (Inr a, s)"

definition throwM :: "'e \<Rightarrow> ('s, 'e, 'a) mth" where
  "throwM e s = (Inl e, s)"

definition bindM :: "('s, 'e, 'a) mth \<Rightarrow> ('a \<Rightarrow> ('s, 'e, 'b) mth) \<Rightarrow> ('s, 'e, 'b) mth" where
  "bindM m k s = (case m s of (Inl e, s') \<Rightarrow> (Inl e, s') | (Inr a, s') \<Rightarrow> k a s')"

text \<open>\<open>catchM m h\<close> is \<^verbatim>\<open>try { m } catch (e) { h(e) }\<close>: the handler runs in the state
  at the throw.\<close>

definition catchM :: "('s, 'e, 'a) mth \<Rightarrow> ('e \<Rightarrow> ('s, 'e, 'a) mth) \<Rightarrow> ('s, 'e, 'a) mth" where
  "catchM m h s = (case m s of (Inl e, s') \<Rightarrow> h e s' | (Inr a, s') \<Rightarrow> (Inr a, s'))"

named_theorems mth_simps \<open>unfolding of the combinators\<close>

lemmas mth_defs [mth_simps] = returnM_def throwM_def bindM_def catchM_def

lemma bindM_cong [fundef_cong]:
  assumes "m s = m' s'" "\<And>a t. m' s' = (Inr a, t) \<Longrightarrow> k a t = k' a t"
  shows "bindM m k s = bindM m' k' s'"
  using assms by (auto simp: bindM_def split: prod.splits sum.splits)

lemma bindM_Inr_iff:
  "bindM m k s = (Inr b, t) \<longleftrightarrow> (\<exists>a u. m s = (Inr a, u) \<and> k a u = (Inr b, t))"
  by (auto simp: bindM_def split: prod.splits sum.splits)

lemma bindM_Inl_iff:
  "bindM m k s = (Inl e, t) \<longleftrightarrow>
     m s = (Inl e, t) \<or> (\<exists>a u. m s = (Inr a, u) \<and> k a u = (Inl e, t))"
  by (auto simp: bindM_def split: prod.splits sum.splits)

lemma bindM_step: "m s = (Inr a, t) \<Longrightarrow> bindM m k s = k a t"
  by (simp add: bindM_def)

lemma bindM_Inl: "m w = (Inl e, w') \<Longrightarrow> bindM m k w = (Inl e, w')"
  by (simp add: bindM_def)

lemma bindM_ends: "\<exists>t. m s = (Inr a, t) \<Longrightarrow> (\<And>t. \<exists>r. k a t = (e, r)) \<Longrightarrow> \<exists>r. bindM m k s = (e, r)"
  by (auto simp: bindM_def)

lemma bindM_return [simp]: "bindM (returnM a) k s = k a s"
  by (simp add: bindM_def returnM_def)

lemma bindM_throw [simp]: "bindM (throwM e) k s = (Inl e, s)"
  by (simp add: bindM_def throwM_def)

text \<open>A loop over a range of indices; it stops at the first exception.\<close>

fun forM :: "'x list \<Rightarrow> ('x \<Rightarrow> ('s, 'e, unit) mth) \<Rightarrow> ('s, 'e, unit) mth" where
  "forM [] f = returnM ()"
| "forM (x # xs) f = bindM (f x) (\<lambda>_. forM xs f)"

text \<open>Contracts: from a state of \<open>P\<close> the method returns into \<open>Q\<close> or throws into \<open>E\<close>.\<close>

definition triple :: "('s \<Rightarrow> bool) \<Rightarrow> ('s, 'e, 'a) mth \<Rightarrow> ('a \<Rightarrow> 's \<Rightarrow> bool) \<Rightarrow> ('e \<Rightarrow> 's \<Rightarrow> bool) \<Rightarrow> bool" where
  "triple P m Q E \<longleftrightarrow> (\<forall>s. P s \<longrightarrow> (case m s of (Inr a, t) \<Rightarrow> Q a t | (Inl e, t) \<Rightarrow> E e t))"

named_theorems triple_rules \<open>the rules of the contracts, applied backwards\<close>

lemma tripleI: "(\<And>s. P s \<Longrightarrow> case m s of (Inr a, t) \<Rightarrow> Q a t | (Inl e, t) \<Rightarrow> E e t) \<Longrightarrow> triple P m Q E"
  by (simp add: triple_def)

lemma triple_Inr: "triple P m Q E \<Longrightarrow> P s \<Longrightarrow> m s = (Inr a, t) \<Longrightarrow> Q a t"
  by (fastforce simp: triple_def)

lemma triple_Inl: "triple P m Q E \<Longrightarrow> P s \<Longrightarrow> m s = (Inl e, t) \<Longrightarrow> E e t"
  by (fastforce simp: triple_def)

lemma triple_weaken:
  assumes "triple P' m Q' E'" "\<And>s. P s \<Longrightarrow> P' s" "\<And>a s. Q' a s \<Longrightarrow> Q a s" "\<And>e s. E' e s \<Longrightarrow> E e s"
  shows "triple P m Q E"
  using assms by (fastforce simp: triple_def split: prod.splits sum.splits)

lemma triple_return [triple_rules]: "(\<And>s. P s \<Longrightarrow> Q a s) \<Longrightarrow> triple P (returnM a) Q E"
  by (simp add: triple_def returnM_def)

lemma triple_throw [triple_rules]: "(\<And>s. P s \<Longrightarrow> E e s) \<Longrightarrow> triple P (throwM e) Q E"
  by (simp add: triple_def throwM_def)

lemma triple_bind [triple_rules]:
  assumes "triple P m R E" "\<And>a. triple (R a) (k a) Q E"
  shows "triple P (bindM m k) Q E"
  using assms by (fastforce simp: triple_def bindM_def split: prod.splits sum.splits)

lemma triple_if [triple_rules]:
  "triple (\<lambda>s. P s \<and> b) m Q E \<Longrightarrow> triple (\<lambda>s. P s \<and> \<not> b) n Q E \<Longrightarrow> triple P (if b then m else n) Q E"
  by (simp add: triple_def)

lemma triple_forM:
  assumes "\<And>x. x \<in> set xs \<Longrightarrow> triple I (f x) (\<lambda>_. I) E"
  shows "triple I (forM xs f) (\<lambda>_. I) E"
  using assms
proof (induction xs)
  case (Cons x xs)
  then have "triple I (f x) (\<lambda>_. I) E" "triple I (forM xs f) (\<lambda>_. I) E" by simp_all
  then show ?case by (simp add: triple_bind)
qed (simp add: triple_return)

lemma forM_append: "forM (xs @ ys) f = bindM (forM xs f) (\<lambda>_. forM ys f)"
proof
  show "forM (xs @ ys) f s = bindM (forM xs f) (\<lambda>_. forM ys f) s" for s
    by (induction xs arbitrary: s) (auto simp: bindM_def returnM_def split: prod.splits sum.splits)
qed

section \<open>Lists\<close>

lemma drop_eq_nth_Cons: "i < length xs \<Longrightarrow> drop i xs = xs ! i # drop (Suc i) xs"
  by (simp add: Cons_nth_drop_Suc)

lemma take_Suc_append_nth: "i < length xs \<Longrightarrow> take (Suc i) xs = take i xs @ [xs ! i]"
  by (simp add: take_Suc_conv_app_nth)

lemma takeWhile_eq_take_first:
  assumes "i \<le> length xs" "\<And>j. j < i \<Longrightarrow> P (xs ! j)" "i = length xs \<or> \<not> P (xs ! i)"
  shows "takeWhile P xs = take i xs"
  using assms takeWhile_eq_take_P_nth [of i xs P] by auto

text \<open>\<^verbatim>\<open>std::vector::resize\<close>\<close>

definition resize :: "nat \<Rightarrow> 'x \<Rightarrow> 'x list \<Rightarrow> 'x list" where
  "resize n d xs = take n xs @ replicate (n - length xs) d"

lemma resize_length [simp]: "length (resize n d xs) = n"
  by (simp add: resize_def)

lemma nth_resize: "i < n \<Longrightarrow> resize n d xs ! i = (if i < length xs then xs ! i else d)"
  by (auto simp: resize_def nth_append)

text \<open>A loop over a list whose body may fail stops at the first failure.\<close>

fun fold_option :: "('x \<Rightarrow> 's \<Rightarrow> 's option) \<Rightarrow> 'x list \<Rightarrow> 's \<Rightarrow> 's option" where
  "fold_option f [] s = Some s"
| "fold_option f (x # xs) s = (case f x s of None \<Rightarrow> None | Some t \<Rightarrow> fold_option f xs t)"

lemma fold_option_append:
  "fold_option f (xs @ ys) s = (case fold_option f xs s of None \<Rightarrow> None | Some t \<Rightarrow> fold_option f ys t)"
  by (induction xs arbitrary: s) (auto split: option.split)

section \<open>Words\<close>

lemma word_eq_bits: "a = b \<longleftrightarrow> (\<forall>i. bit a i = bit b i)" for a b :: "'a::len word"
  by (auto intro: bit_word_eqI)

section \<open>Characters\<close>

text \<open>\<^verbatim>\<open>char\<close> is signed: \<open>char_index\<close> is its value as \<^verbatim>\<open>unsigned char\<close>, \<open>char_int\<close> its
  value in \<^verbatim>\<open>int\<close> arithmetic and \<open>char_wrap\<close> the conversion back.\<close>

definition char_index :: "char \<Rightarrow> nat" where "char_index c = of_char c"

definition char_int :: "char \<Rightarrow> int" where
  "char_int c = (if char_index c < 128 then int (char_index c) else int (char_index c) - 256)"

definition char_wrap :: "int \<Rightarrow> char" where
  "char_wrap k = char_of (nat (k mod 256))"

lemma char_index_less: "char_index c < 256"
  by (simp add: char_index_def)

lemma char_wrap_int [simp]: "char_wrap (char_int c) = c"
proof -
  have "nat (char_int c mod 256) = char_index c"
    using char_index_less [of c] by (auto simp: char_int_def mod_pos_pos_trivial)
  then show ?thesis by (simp add: char_wrap_def char_index_def)
qed

lemma char_int_wrap: "- 128 \<le> k \<Longrightarrow> k < 128 \<Longrightarrow> char_int (char_wrap k) = k"
proof -
  assume k: "- 128 \<le> k" "k < 128"
  have "char_index (char_wrap k) = nat (k mod 256)"
    by (simp add: char_wrap_def char_index_def)
  moreover have "k mod 256 = (if k < 0 then k + 256 else k)"
    using k mod_add_self2 [of k 256] by (auto intro: mod_pos_pos_trivial simp del: mod_add_self2)
  ultimately show ?thesis using k by (auto simp: char_int_def)
qed

lemma char_int_eq_iff: "char_int c = char_int d \<longleftrightarrow> c = d"
  by (metis char_wrap_int)

lemma char_index_eq_iff: "char_index c = char_index d \<longleftrightarrow> c = d"
  by (simp add: char_index_def)

section \<open>Floating point\<close>

text \<open>The machine operations on \<^verbatim>\<open>double\<close> the code performs; their values are not modelled, every
  definition that uses them takes them as an argument.\<close>

record 'f double_ops =
  d_of_uint :: "UINT_64 \<Rightarrow> 'f"
  d_of_int :: "int \<Rightarrow> 'f"
  d_add :: "'f \<Rightarrow> 'f \<Rightarrow> 'f"
  d_mul :: "'f \<Rightarrow> 'f \<Rightarrow> 'f"
  d_div :: "'f \<Rightarrow> 'f \<Rightarrow> 'f"
  d_neg :: "'f \<Rightarrow> 'f"
  d_pow :: "'f \<Rightarrow> 'f \<Rightarrow> 'f"
  d_to_int :: "'f \<Rightarrow> INT_64"
  d_print :: "'f \<Rightarrow> string"

end
