(* ===== verification/Bit_Utils.thy ===== *)
theory Bit_Utils
  imports Xtl_Prelude
begin

unbundle bit_operations_syntax

text \<open>
  \<^verbatim>\<open>utils/BitUtils.hpp\<close> and \<^verbatim>\<open>utils/BitUtils.cpp\<close>: counting and finding the one bits
  of an unsigned integer byte by byte through lookup tables, and the masks with one bit set
  or cleared. The template parameter \<open>T\<close> is a word whose width is a multiple of 8;
  \<open>reinterpret_cast<const UINT_8 *>(&value) + i\<close> is byte \<open>i\<close> of a little-endian
  machine, the library's target.
\<close>

section \<open>The lookup tables\<close>

definition ONES_COUNT :: "nat list" where
  "ONES_COUNT = [
    0, 1, 1, 2, 1, 2, 2, 3, 1, 2, 2, 3, 2, 3, 3, 4,
    1, 2, 2, 3, 2, 3, 3, 4, 2, 3, 3, 4, 3, 4, 4, 5,
    1, 2, 2, 3, 2, 3, 3, 4, 2, 3, 3, 4, 3, 4, 4, 5,
    2, 3, 3, 4, 3, 4, 4, 5, 3, 4, 4, 5, 4, 5, 5, 6,
    1, 2, 2, 3, 2, 3, 3, 4, 2, 3, 3, 4, 3, 4, 4, 5,
    2, 3, 3, 4, 3, 4, 4, 5, 3, 4, 4, 5, 4, 5, 5, 6,
    2, 3, 3, 4, 3, 4, 4, 5, 3, 4, 4, 5, 4, 5, 5, 6,
    3, 4, 4, 5, 4, 5, 5, 6, 4, 5, 5, 6, 5, 6, 6, 7,
    1, 2, 2, 3, 2, 3, 3, 4, 2, 3, 3, 4, 3, 4, 4, 5,
    2, 3, 3, 4, 3, 4, 4, 5, 3, 4, 4, 5, 4, 5, 5, 6,
    2, 3, 3, 4, 3, 4, 4, 5, 3, 4, 4, 5, 4, 5, 5, 6,
    3, 4, 4, 5, 4, 5, 5, 6, 4, 5, 5, 6, 5, 6, 6, 7,
    2, 3, 3, 4, 3, 4, 4, 5, 3, 4, 4, 5, 4, 5, 5, 6,
    3, 4, 4, 5, 4, 5, 5, 6, 4, 5, 5, 6, 5, 6, 6, 7,
    3, 4, 4, 5, 4, 5, 5, 6, 4, 5, 5, 6, 5, 6, 6, 7,
    4, 5, 5, 6, 5, 6, 6, 7, 5, 6, 6, 7, 6, 7, 7, 8]"

definition LEAST_ONE :: "int list" where
  "LEAST_ONE = [
    -1, 0, 1, 0, 2, 0, 1, 0, 3, 0, 1, 0, 2, 0, 1, 0,
     4, 0, 1, 0, 2, 0, 1, 0, 3, 0, 1, 0, 2, 0, 1, 0,
     5, 0, 1, 0, 2, 0, 1, 0, 3, 0, 1, 0, 2, 0, 1, 0,
     4, 0, 1, 0, 2, 0, 1, 0, 3, 0, 1, 0, 2, 0, 1, 0,
     6, 0, 1, 0, 2, 0, 1, 0, 3, 0, 1, 0, 2, 0, 1, 0,
     4, 0, 1, 0, 2, 0, 1, 0, 3, 0, 1, 0, 2, 0, 1, 0,
     5, 0, 1, 0, 2, 0, 1, 0, 3, 0, 1, 0, 2, 0, 1, 0,
     4, 0, 1, 0, 2, 0, 1, 0, 3, 0, 1, 0, 2, 0, 1, 0,
     7, 0, 1, 0, 2, 0, 1, 0, 3, 0, 1, 0, 2, 0, 1, 0,
     4, 0, 1, 0, 2, 0, 1, 0, 3, 0, 1, 0, 2, 0, 1, 0,
     5, 0, 1, 0, 2, 0, 1, 0, 3, 0, 1, 0, 2, 0, 1, 0,
     4, 0, 1, 0, 2, 0, 1, 0, 3, 0, 1, 0, 2, 0, 1, 0,
     6, 0, 1, 0, 2, 0, 1, 0, 3, 0, 1, 0, 2, 0, 1, 0,
     4, 0, 1, 0, 2, 0, 1, 0, 3, 0, 1, 0, 2, 0, 1, 0,
     5, 0, 1, 0, 2, 0, 1, 0, 3, 0, 1, 0, 2, 0, 1, 0,
     4, 0, 1, 0, 2, 0, 1, 0, 3, 0, 1, 0, 2, 0, 1, 0]"

definition GREATEST_ONE :: "int list" where
  "GREATEST_ONE = [
    -1, 0, 1, 1, 2, 2, 2, 2, 3, 3, 3, 3, 3, 3, 3, 3,
     4, 4, 4, 4, 4, 4, 4, 4, 4, 4, 4, 4, 4, 4, 4, 4,
     5, 5, 5, 5, 5, 5, 5, 5, 5, 5, 5, 5, 5, 5, 5, 5,
     5, 5, 5, 5, 5, 5, 5, 5, 5, 5, 5, 5, 5, 5, 5, 5,
     6, 6, 6, 6, 6, 6, 6, 6, 6, 6, 6, 6, 6, 6, 6, 6,
     6, 6, 6, 6, 6, 6, 6, 6, 6, 6, 6, 6, 6, 6, 6, 6,
     6, 6, 6, 6, 6, 6, 6, 6, 6, 6, 6, 6, 6, 6, 6, 6,
     6, 6, 6, 6, 6, 6, 6, 6, 6, 6, 6, 6, 6, 6, 6, 6,
     7, 7, 7, 7, 7, 7, 7, 7, 7, 7, 7, 7, 7, 7, 7, 7,
     7, 7, 7, 7, 7, 7, 7, 7, 7, 7, 7, 7, 7, 7, 7, 7,
     7, 7, 7, 7, 7, 7, 7, 7, 7, 7, 7, 7, 7, 7, 7, 7,
     7, 7, 7, 7, 7, 7, 7, 7, 7, 7, 7, 7, 7, 7, 7, 7,
     7, 7, 7, 7, 7, 7, 7, 7, 7, 7, 7, 7, 7, 7, 7, 7,
     7, 7, 7, 7, 7, 7, 7, 7, 7, 7, 7, 7, 7, 7, 7, 7,
     7, 7, 7, 7, 7, 7, 7, 7, 7, 7, 7, 7, 7, 7, 7, 7,
     7, 7, 7, 7, 7, 7, 7, 7, 7, 7, 7, 7, 7, 7, 7, 7]"

definition NumberOfOneBits8 :: "UINT_8 \<Rightarrow> nat" where
  "NumberOfOneBits8 value = ONES_COUNT ! unat value"

definition LeastOneBit8 :: "UINT_8 \<Rightarrow> int" where
  "LeastOneBit8 value = LEAST_ONE ! unat value"

definition GreatestOneBit8 :: "UINT_8 \<Rightarrow> int" where
  "GreatestOneBit8 value = GREATEST_ONE ! unat value"

section \<open>The templates\<close>

definition sizeof :: "'a::len word \<Rightarrow> nat" where
  "sizeof (v :: 'a word) = LENGTH('a) div 8"

definition byte_at :: "'a::len word \<Rightarrow> nat \<Rightarrow> UINT_8" where
  "byte_at v i = ucast (drop_bit (8 * i) v)"

definition NumberOfOneBits :: "'a::len word \<Rightarrow> nat" where
  "NumberOfOneBits value =
     fold (\<lambda>i count. count + NumberOfOneBits8 (byte_at value i)) [0..<sizeof value] 0"

definition NumberOfZeroBits :: "'a::len word \<Rightarrow> nat" where
  "NumberOfZeroBits value = push_bit 3 (sizeof value) - NumberOfOneBits value"

text \<open>The pointer loops: \<open>is\<close> is the sequence of byte offsets \<open>p - begin\<close> they visit.\<close>

fun LeastOneBit_loop :: "'a::len word \<Rightarrow> nat list \<Rightarrow> int" where
  "LeastOneBit_loop value [] = -1"
| "LeastOneBit_loop value (p # ps) =
     (if byte_at value p \<noteq> 0 then push_bit 3 (int p) + LeastOneBit8 (byte_at value p)
      else LeastOneBit_loop value ps)"

definition LeastOneBit :: "'a::len word \<Rightarrow> int" where
  "LeastOneBit value = LeastOneBit_loop value [0..<sizeof value]"

fun GreatestOneBit_loop :: "'a::len word \<Rightarrow> nat list \<Rightarrow> int" where
  "GreatestOneBit_loop value [] = -1"
| "GreatestOneBit_loop value (p # ps) =
     (if byte_at value p \<noteq> 0 then push_bit 3 (int p) + GreatestOneBit8 (byte_at value p)
      else GreatestOneBit_loop value ps)"

definition GreatestOneBit :: "'a::len word \<Rightarrow> int" where
  "GreatestOneBit value = GreatestOneBit_loop value (rev [0..<sizeof value])"

text \<open>The mask tables. Reading past their end is undefined in C++: \<open>None\<close>.\<close>

definition OnlyOneBits :: "'a::len itself \<Rightarrow> 'a word list" where
  "OnlyOneBits _ = map (\<lambda>i. push_bit i 1) [0..<LENGTH('a)]"

definition OnlyZeroBits :: "'a::len itself \<Rightarrow> 'a word list" where
  "OnlyZeroBits _ = map (\<lambda>i. NOT (OnlyOneBits TYPE('a) ! i)) [0..<LENGTH('a)]"

definition OnlyOneBit :: "nat \<Rightarrow> 'a::len word option" where
  "OnlyOneBit bitIndex =
     (if bitIndex < LENGTH('a) then Some (OnlyOneBits TYPE('a) ! bitIndex) else None)"

definition OnlyZeroBit :: "nat \<Rightarrow> 'a::len word option" where
  "OnlyZeroBit bitIndex =
     (if bitIndex < LENGTH('a) then Some (OnlyZeroBits TYPE('a) ! bitIndex) else None)"

definition BitString :: "'a::len word \<Rightarrow> string" where
  "BitString value =
     map (\<lambda>i. ''01'' ! unat (drop_bit i value AND 1)) [0..<push_bit 3 (sizeof value)]"

section \<open>The tables are right\<close>

text \<open>Each table of 256 entries is its lower half followed by a function of it, so one
  induction over the doublings checks all entries.\<close>

lemma bit_less_exp: "bit n i \<Longrightarrow> n < 2 ^ k \<Longrightarrow> i < k" for n :: nat
  by (metis bit_take_bit_iff take_bit_nat_eq_self)

lemma bit_exp_add: "m < 2 ^ k \<Longrightarrow> bit (2 ^ k + m) i \<longleftrightarrow> i = k \<or> bit m i" for m :: nat
proof -
  assume m: "m < 2 ^ k"
  have "2 ^ k + m = 2 ^ k OR m"
    by (rule disjunctive_add) (auto simp: bit_exp_iff dest: bit_less_exp [OF _ m])
  then show ?thesis by (auto simp: bit_or_iff bit_exp_iff)
qed

definition tabulates :: "nat \<Rightarrow> 'a list \<Rightarrow> (nat \<Rightarrow> 'a \<Rightarrow> bool) \<Rightarrow> bool" where
  "tabulates k t P \<longleftrightarrow> length t = 2 ^ k \<and> (\<forall>n < 2 ^ k. P n (t ! n))"

lemma tabulates_append:
  assumes "tabulates k t P" "length u = 2 ^ k"
    "\<And>m. m < 2 ^ k \<Longrightarrow> P m (t ! m) \<Longrightarrow> P (2 ^ k + m) (u ! m)"
  shows "tabulates (Suc k) (t @ u) P"
  unfolding tabulates_def
proof (intro conjI allI impI)
  show "length (t @ u) = 2 ^ Suc k" using assms by (simp add: tabulates_def)
next
  fix n :: nat assume n: "n < 2 ^ Suc k"
  show "P n ((t @ u) ! n)"
  proof (cases "n < 2 ^ k")
    case True
    with assms(1) show ?thesis by (simp add: tabulates_def nth_append)
  next
    case False
    define m where "m = n - 2 ^ k"
    with False n have "n = 2 ^ k + m" "m < 2 ^ k" by auto
    with assms show ?thesis by (simp add: tabulates_def nth_append)
  qed
qed

definition popcount_is :: "nat \<Rightarrow> nat \<Rightarrow> bool" where
  "popcount_is n c \<longleftrightarrow> c = card {i. bit n i}"

definition least_is :: "nat \<Rightarrow> int \<Rightarrow> bool" where
  "least_is n b \<longleftrightarrow> (if n = 0 then b = -1 else 0 \<le> b \<and> bit n (nat b) \<and> (\<forall>j < nat b. \<not> bit n j))"

definition greatest_is :: "nat \<Rightarrow> int \<Rightarrow> bool" where
  "greatest_is n b \<longleftrightarrow> (if n = 0 then b = -1 else 0 \<le> b \<and> bit n (nat b) \<and> (\<forall>j > nat b. \<not> bit n j))"

lemma finite_bits: "finite {i. bit (n::nat) i}"
  by (rule finite_subset [of _ "{..<n}"]) (auto dest: bit_less_exp [OF _ less_exp])

fun doubling :: "(nat \<Rightarrow> 'a list \<Rightarrow> 'a list) \<Rightarrow> 'a list \<Rightarrow> nat \<Rightarrow> 'a list" where
  "doubling f t 0 = t"
| "doubling f t (Suc k) = doubling f t k @ f k (doubling f t k)"

lemma ONES_COUNT_doubling: "ONES_COUNT = doubling (\<lambda>_ t. map Suc t) [0] 8"
  by (simp add: ONES_COUNT_def eval_nat_numeral)

lemma LEAST_ONE_doubling: "LEAST_ONE = doubling (\<lambda>k t. int k # tl t) [-1] 8"
  by (simp add: LEAST_ONE_def eval_nat_numeral)

lemma GREATEST_ONE_doubling: "GREATEST_ONE = doubling (\<lambda>k t. replicate (2 ^ k) (int k)) [-1] 8"
  by (simp add: GREATEST_ONE_def eval_nat_numeral)

lemma ones_tabulates: "tabulates k (doubling (\<lambda>_ t. map Suc t) [0] k) popcount_is"
proof (induction k)
  case 0 show ?case by (simp add: tabulates_def popcount_is_def bot_fun_def)
next
  case (Suc k)
  let ?t = "doubling (\<lambda>_ t. map Suc t) [0] k"
  have len: "length ?t = 2 ^ k" using Suc by (simp add: tabulates_def)
  show ?case
    unfolding doubling.simps
  proof (rule tabulates_append [OF Suc])
    fix m :: nat assume m: "m < 2 ^ k" "popcount_is m (?t ! m)"
    have "{i. bit (2 ^ k + m) i} = insert k {i. bit m i}" using m by (auto simp: bit_exp_add)
    moreover have "k \<notin> {i. bit m i}" using bit_less_exp [OF _ m(1)] by auto
    ultimately show "popcount_is (2 ^ k + m) (map Suc ?t ! m)"
      using m len by (simp add: popcount_is_def finite_bits)
  qed (simp add: len)
qed

lemma least_tabulates: "tabulates k (doubling (\<lambda>k t. int k # tl t) [-1] k) least_is"
proof (induction k)
  case 0 show ?case by (simp add: tabulates_def least_is_def)
next
  case (Suc k)
  let ?t = "doubling (\<lambda>k t. int k # tl t) [-1] k"
  have len: "length ?t = 2 ^ k" using Suc by (simp add: tabulates_def)
  show ?case
    unfolding doubling.simps
  proof (rule tabulates_append [OF Suc])
    fix m :: nat assume m: "m < 2 ^ k" "least_is m (?t ! m)"
    show "least_is (2 ^ k + m) ((int k # tl ?t) ! m)"
    proof (cases m)
      case 0
      then show ?thesis by (auto simp: least_is_def bit_exp_iff)
    next
      case (Suc m')
      then have "(int k # tl ?t) ! m = ?t ! m" using m(1) len by (simp add: nth_tl)
      moreover have "j < k" if "bit m j" for j using bit_less_exp [OF that m(1)] .
      moreover have "bit (2 ^ k + m) j \<longleftrightarrow> j = k \<or> bit m j" for j
        using m(1) by (rule bit_exp_add)
      ultimately show ?thesis using m Suc
        by (auto simp: least_is_def simp del: power_Suc) (metis less_asym)
    qed
  qed (simp add: len)
qed

lemma greatest_tabulates: "tabulates k (doubling (\<lambda>k t. replicate (2 ^ k) (int k)) [-1] k) greatest_is"
proof (induction k)
  case 0 show ?case by (simp add: tabulates_def greatest_is_def)
next
  case (Suc k)
  let ?t = "doubling (\<lambda>k t. replicate (2 ^ k) (int k)) [-1] k"
  show ?case
    unfolding doubling.simps
  proof (rule tabulates_append [OF Suc])
    fix m :: nat assume m: "m < 2 ^ k" "greatest_is m (?t ! m)"
    show "greatest_is (2 ^ k + m) (replicate (2 ^ k) (int k) ! m)"
      using m bit_less_exp [OF _ m(1)]
      by (auto simp: greatest_is_def bit_exp_add) (metis less_asym)
  qed simp
qed

lemma tabulates_UINT_8: "tabulates 8 t P \<Longrightarrow> P (unat v) (t ! unat v)" for v :: UINT_8
proof -
  have "unat v < 2 ^ LENGTH(8)" by (rule unsigned_less)
  then show "tabulates 8 t P \<Longrightarrow> P (unat v) (t ! unat v)" by (simp add: tabulates_def)
qed

lemma bit_unat_eq: "bit (unat (v :: 'a::len word)) i \<longleftrightarrow> bit v i"
  by (auto simp: bit_unsigned_iff dest: bit_imp_le_length)

lemma tables_tabulate:
  "tabulates 8 ONES_COUNT popcount_is" "tabulates 8 LEAST_ONE least_is"
  "tabulates 8 GREATEST_ONE greatest_is"
  by (simp_all only: ONES_COUNT_doubling LEAST_ONE_doubling GREATEST_ONE_doubling
      ones_tabulates least_tabulates greatest_tabulates)

lemma NumberOfOneBits8_card: "NumberOfOneBits8 v = card {i. bit v i}"
  using tabulates_UINT_8 [OF tables_tabulate(1), of v]
  by (simp add: NumberOfOneBits8_def popcount_is_def bit_unat_eq)

lemma LeastOneBit8_spec:
  assumes "v \<noteq> 0"
  shows "0 \<le> LeastOneBit8 v" "bit v (nat (LeastOneBit8 v))"
    "j < nat (LeastOneBit8 v) \<Longrightarrow> \<not> bit v j"
  using tabulates_UINT_8 [OF tables_tabulate(2), of v] assms
  by (simp_all add: LeastOneBit8_def least_is_def bit_unat_eq unat_eq_0)

lemma GreatestOneBit8_spec:
  assumes "v \<noteq> 0"
  shows "0 \<le> GreatestOneBit8 v" "bit v (nat (GreatestOneBit8 v))"
    "nat (GreatestOneBit8 v) < j \<Longrightarrow> \<not> bit v j"
  using tabulates_UINT_8 [OF tables_tabulate(3), of v] assms
  by (simp_all add: GreatestOneBit8_def greatest_is_def bit_unat_eq unat_eq_0)

section \<open>The templates count and find the bits of the whole value\<close>

lemma bit_byte_at: "bit (byte_at v p) j \<longleftrightarrow> j < 8 \<and> bit v (8 * p + j)"
  by (simp add: byte_at_def bit_ucast_iff bit_drop_bit_eq)

lemma byte_at_eq_0: "byte_at v p = 0 \<longleftrightarrow> (\<forall>j < 8. \<not> bit v (8 * p + j))"
  by (auto simp: bit_eq_iff bit_byte_at)

lemma card_byte_at: "card {i. bit (byte_at v p) i} = card {i. bit v i \<and> 8 * p \<le> i \<and> i < 8 * p + 8}"
proof -
  have "{i. bit v i \<and> 8 * p \<le> i \<and> i < 8 * p + 8} = (+) (8 * p) ` {i. bit (byte_at v p) i}"
    by (auto simp: bit_byte_at image_iff le_iff_add)
  then show ?thesis by (simp add: card_image)
qed

lemma NumberOfOneBits_loop:
  "fold (\<lambda>i count. count + NumberOfOneBits8 (byte_at v i)) [0..<n] 0 = card {i. bit v i \<and> i < 8 * n}"
proof (induction n)
  case (Suc n)
  have "{i. bit v i \<and> i < 8 * Suc n} =
      {i. bit v i \<and> i < 8 * n} \<union> {i. bit v i \<and> 8 * n \<le> i \<and> i < 8 * n + 8}" by auto
  moreover have "card \<dots> = card {i. bit v i \<and> i < 8 * n} + card {i. bit v i \<and> 8 * n \<le> i \<and> i < 8 * n + 8}"
    by (rule card_Un_disjoint) auto
  ultimately show ?case using Suc by (simp add: NumberOfOneBits8_card card_byte_at)
qed simp

lemma bit_imp_byte: "8 dvd LENGTH('a) \<Longrightarrow> bit v i \<Longrightarrow> i < 8 * sizeof v" for v :: "'a::len word"
  by (auto simp: sizeof_def dest: bit_imp_le_length)

lemma NumberOfOneBits_card:
  "8 dvd LENGTH('a) \<Longrightarrow> NumberOfOneBits v = card {i. bit v i}" for v :: "'a::len word"
  unfolding NumberOfOneBits_def NumberOfOneBits_loop
  by (rule arg_cong [where f = card]) (auto dest: bit_imp_byte)

lemma LeastOneBit_loop_spec:
  "(LeastOneBit_loop v [k..<n] = -1 \<and> (\<forall>i. 8 * k \<le> i \<and> i < 8 * n \<longrightarrow> \<not> bit v i)) \<or>
   (0 \<le> LeastOneBit_loop v [k..<n] \<and> bit v (nat (LeastOneBit_loop v [k..<n])) \<and>
    (\<forall>j < nat (LeastOneBit_loop v [k..<n]). 8 * k \<le> j \<longrightarrow> \<not> bit v j))"
proof (induction "n - k" arbitrary: k)
  case 0
  then show ?case by auto
next
  case (Suc m)
  then have upt: "[k..<n] = k # [Suc k..<n]" by (simp add: upt_conv_Cons)
  show ?case
  proof (cases "byte_at v k = 0")
    case True
    then have none: "\<not> bit v i" if "8 * k \<le> i" "i < 8 * Suc k" for i
      using that byte_at_eq_0 [of v k] by (metis add.commute le_add_diff_inverse less_diff_conv2 mult_Suc_right)
    have IH: "(LeastOneBit_loop v [Suc k..<n] = -1 \<and> (\<forall>i. 8 * Suc k \<le> i \<and> i < 8 * n \<longrightarrow> \<not> bit v i)) \<or>
      (0 \<le> LeastOneBit_loop v [Suc k..<n] \<and> bit v (nat (LeastOneBit_loop v [Suc k..<n])) \<and>
      (\<forall>j < nat (LeastOneBit_loop v [Suc k..<n]). 8 * Suc k \<le> j \<longrightarrow> \<not> bit v j))"
      using Suc by (intro Suc.hyps(1)) simp
    then show ?thesis unfolding upt using True none by (simp, meson not_le)
  next
    case False
    let ?b = "LeastOneBit8 (byte_at v k)"
    have b: "0 \<le> ?b" "bit v (8 * k + nat ?b)" using LeastOneBit8_spec [OF False] by (auto simp: bit_byte_at)
    have "\<not> bit v j" if "8 * k \<le> j" "j < 8 * k + nat ?b" for j
    proof -
      from that obtain i where i: "j = 8 * k + i" "i < nat ?b" using le_Suc_ex by auto
      have "nat ?b < 8" using LeastOneBit8_spec(2) [OF False] by (simp add: bit_byte_at)
      then show ?thesis using LeastOneBit8_spec(3) [OF False i(2)] i by (simp add: bit_byte_at)
    qed
    moreover have "nat (int k * 8 + ?b) = 8 * k + nat ?b" using b(1) by simp
    ultimately show ?thesis unfolding upt using False b by (simp add: push_bit_eq_mult)
  qed
qed

lemma GreatestOneBit_loop_spec:
  "(GreatestOneBit_loop v (rev [0..<n]) = -1 \<and> (\<forall>i < 8 * n. \<not> bit v i)) \<or>
   (0 \<le> GreatestOneBit_loop v (rev [0..<n]) \<and> bit v (nat (GreatestOneBit_loop v (rev [0..<n]))) \<and>
    (\<forall>j > nat (GreatestOneBit_loop v (rev [0..<n])). j < 8 * n \<longrightarrow> \<not> bit v j))"
proof (induction n)
  case (Suc n)
  show ?case
  proof (cases "byte_at v n = 0")
    case True
    then have none: "\<not> bit v i" if "8 * n \<le> i" "i < 8 * Suc n" for i
      using that byte_at_eq_0 [of v n] by (metis add.commute le_add_diff_inverse less_diff_conv2 mult_Suc_right)
    show ?thesis using Suc True none by (simp, meson not_le)
  next
    case False
    let ?b = "GreatestOneBit8 (byte_at v n)"
    have b: "0 \<le> ?b" "bit v (8 * n + nat ?b)" using GreatestOneBit8_spec [OF False] by (auto simp: bit_byte_at)
    have "\<not> bit v j" if "j < 8 * Suc n" "8 * n + nat ?b < j" for j
    proof -
      from that obtain i where i: "j = 8 * n + i" "nat ?b < i" "i < 8"
        using le_Suc_ex [of "8 * n" j] by auto
      then show ?thesis using GreatestOneBit8_spec(3) [OF False i(2)] by (simp add: bit_byte_at)
    qed
    moreover have "nat (int n * 8 + ?b) = 8 * n + nat ?b" using b(1) by simp
    ultimately show ?thesis using False b by (simp add: push_bit_eq_mult)
  qed
qed simp

lemma bits_eq_empty: "{i. bit v i} = {} \<longleftrightarrow> v = 0" for v :: "'a::len word"
  by (auto simp: bit_eq_iff dest: bit_imp_le_length)

lemma finite_word_bits [simp]: "finite {i. bit v i}" for v :: "'a::len word"
  by (rule finite_subset [of _ "{..<LENGTH('a)}"]) (auto dest: bit_imp_le_length)

lemma LeastOneBit_Min:
  "8 dvd LENGTH('a) \<Longrightarrow> LeastOneBit v = (if v = 0 then -1 else int (Min {i. bit v i}))"
  for v :: "'a::len word"
proof -
  assume w: "8 dvd LENGTH('a)"
  let ?r = "LeastOneBit v"
  have "?r = -1 \<and> v = 0 \<or> 0 \<le> ?r \<and> bit v (nat ?r) \<and> (\<forall>j < nat ?r. \<not> bit v j)"
    using LeastOneBit_loop_spec [of v 0 "sizeof v"]
    by (auto simp: LeastOneBit_def bit_eq_iff dest: bit_imp_byte [OF w])
  then show ?thesis
  proof (elim disjE conjE)
    assume r: "0 \<le> ?r" "bit v (nat ?r)" and o: "\<forall>j < nat ?r. \<not> bit v j"
    have "Min {i. bit v i} = nat ?r"
      by (rule Min_eqI) (use r o in \<open>auto simp: not_less [symmetric]\<close>)
    then show ?thesis using r by auto
  qed simp
qed

lemma GreatestOneBit_Max:
  "8 dvd LENGTH('a) \<Longrightarrow> GreatestOneBit v = (if v = 0 then -1 else int (Max {i. bit v i}))"
  for v :: "'a::len word"
proof -
  assume w: "8 dvd LENGTH('a)"
  let ?r = "GreatestOneBit v"
  have "?r = -1 \<and> v = 0 \<or> 0 \<le> ?r \<and> bit v (nat ?r) \<and> (\<forall>j > nat ?r. \<not> bit v j)"
    using GreatestOneBit_loop_spec [of v "sizeof v"]
    by (auto simp: GreatestOneBit_def bit_eq_iff dest: bit_imp_byte [OF w])
  then show ?thesis
  proof (elim disjE conjE)
    assume r: "0 \<le> ?r" "bit v (nat ?r)" and o: "\<forall>j > nat ?r. \<not> bit v j"
    have "Max {i. bit v i} = nat ?r"
      by (rule Max_eqI) (use r o in \<open>auto simp: not_less [symmetric]\<close>)
    then show ?thesis using r by auto
  qed simp
qed

lemma OnlyOneBit_eq: "OnlyOneBit i = (if i < LENGTH('a) then Some (push_bit i 1 :: 'a::len word) else None)"
  by (simp add: OnlyOneBit_def OnlyOneBits_def)

lemma OnlyZeroBit_eq:
  "OnlyZeroBit i = (if i < LENGTH('a) then Some (NOT (push_bit i 1) :: 'a::len word) else None)"
  by (simp add: OnlyZeroBit_def OnlyZeroBits_def OnlyOneBits_def)

end
