(* ===== verification/Bit_Set.thy ===== *)
theory Bit_Set
  imports Bit_Utils
begin

unbundle bit_operations_syntax

text \<open>
  \<^verbatim>\<open>BitSet.hpp\<close>: a set of bit indices below \<open>CAPACITY\<close> packed into one unsigned
  integer, with its two iterators. A bit index past the mask tables is undefined in C++; the
  operations that index the tables return \<open>None\<close> there.
\<close>

section \<open>The class\<close>

record 'w BitSet =
  bs_bits :: 'w

definition CAPACITY :: "'a::len word BitSet \<Rightarrow> nat" where
  "CAPACITY (b :: 'a word BitSet) = push_bit 3 (sizeof (bs_bits b))"

definition BitSet_empty :: "'a::len word BitSet" where
  "BitSet_empty = \<lparr>bs_bits = 0\<rparr>"

definition BitSet_setAll :: "bool \<Rightarrow> 'a::len word BitSet" where
  "BitSet_setAll setAll = \<lparr>bs_bits = (if setAll then NOT 0 else 0)\<rparr>"

definition BitSet_of_bits :: "'a::len word \<Rightarrow> 'a word BitSet" where
  "BitSet_of_bits bits = \<lparr>bs_bits = bits\<rparr>"

definition BitSet_eq :: "'a::len word BitSet \<Rightarrow> 'a word BitSet \<Rightarrow> bool" where
  "BitSet_eq b other \<longleftrightarrow> bs_bits b = bs_bits other"

definition BitSet_neq :: "'a::len word BitSet \<Rightarrow> 'a word BitSet \<Rightarrow> bool" where
  "BitSet_neq b other \<longleftrightarrow> bs_bits b \<noteq> bs_bits other"

definition Assign :: "'a::len word \<Rightarrow> 'a word BitSet \<Rightarrow> 'a word BitSet" where
  "Assign bits b = b\<lparr>bs_bits := bits\<rparr>"

definition IsEmpty :: "'a::len word BitSet \<Rightarrow> bool" where
  "IsEmpty b \<longleftrightarrow> bs_bits b = 0"

definition Clear :: "'a::len word BitSet \<Rightarrow> 'a word BitSet" where
  "Clear b = b\<lparr>bs_bits := 0\<rparr>"

definition Add :: "nat \<Rightarrow> 'a::len word BitSet \<Rightarrow> 'a word BitSet option" where
  "Add i b = map_option (\<lambda>m. b\<lparr>bs_bits := bs_bits b OR m\<rparr>) (OnlyOneBit i)"

definition Remove :: "nat \<Rightarrow> 'a::len word BitSet \<Rightarrow> 'a word BitSet option" where
  "Remove i b = map_option (\<lambda>m. b\<lparr>bs_bits := bs_bits b AND m\<rparr>) (OnlyZeroBit i)"

definition Includes :: "nat \<Rightarrow> 'a::len word BitSet \<Rightarrow> bool option" where
  "Includes i b = map_option (\<lambda>m. bs_bits b AND m \<noteq> 0) (OnlyOneBit i)"

definition Contains :: "nat \<Rightarrow> 'a::len word BitSet \<Rightarrow> bool option" where
  "Contains i b = Includes i b"

definition BitSet_at :: "'a::len word BitSet \<Rightarrow> nat \<Rightarrow> nat option" where
  "BitSet_at b i = map_option (\<lambda>c. if c then 1 else 0) (Includes i b)"

definition Size :: "'a::len word BitSet \<Rightarrow> nat" where
  "Size b = NumberOfOneBits (bs_bits b)"

definition Index :: "nat \<Rightarrow> 'a::len word BitSet \<Rightarrow> nat option" where
  "Index i b = map_option (\<lambda>m. NumberOfOneBits (bs_bits b AND (m - 1))) (OnlyOneBit i)"

definition MinBit :: "'a::len word BitSet \<Rightarrow> int" where
  "MinBit b = LeastOneBit (bs_bits b)"

definition MaxBit :: "'a::len word BitSet \<Rightarrow> int" where
  "MaxBit b = GreatestOneBit (bs_bits b)"

definition BitSet_ToString :: "'a::len word BitSet \<Rightarrow> string option" where
  "BitSet_ToString b =
     those (map (\<lambda>i. map_option (\<lambda>d. char_of (48 + d)) (BitSet_at b i)) [0..<CAPACITY b])"

text \<open>\<open>Items\<close> writes the members to consecutive slots of \<open>c\<close>; the model returns the
  list of written values, whose length is the returned count.\<close>

fun Items_loop :: "nat list \<Rightarrow> 'a::len word BitSet \<Rightarrow> nat list \<Rightarrow> nat list" where
  "Items_loop [] b c = c"
| "Items_loop (i # is) b c = Items_loop is b (if Includes i b = Some True then c @ [i] else c)"

definition Items :: "'a::len word BitSet \<Rightarrow> nat list" where
  "Items b = Items_loop [0..<CAPACITY b] b []"

section \<open>\<open>ConstIterator\<close>\<close>

record 'w ConstIterator =
  ci_set :: "'w BitSet"
  ci_current :: int

function ConstIterator_FindNextBit :: "'a::len word BitSet \<Rightarrow> int \<Rightarrow> int" where
  "ConstIterator_FindNextBit s current =
     (if current < int (CAPACITY s)
      then if Includes (nat current) s = Some True then current
           else ConstIterator_FindNextBit s (current + 1)
      else -1)"
  by pat_completeness auto
termination by (relation "measure (\<lambda>(s, c). nat (int (CAPACITY s) - c))") auto

declare ConstIterator_FindNextBit.simps [simp del]

definition ConstIterator_new :: "'a::len word BitSet \<Rightarrow> 'a word ConstIterator" where
  "ConstIterator_new s = \<lparr>ci_set = s, ci_current = ConstIterator_FindNextBit s 0\<rparr>"

definition ConstIterator_Reset :: "'a::len word ConstIterator \<Rightarrow> 'a word ConstIterator" where
  "ConstIterator_Reset it = it\<lparr>ci_current := ConstIterator_FindNextBit (ci_set it) 0\<rparr>"

definition ConstIterator_AtEnd :: "'a::len word ConstIterator \<Rightarrow> bool" where
  "ConstIterator_AtEnd it \<longleftrightarrow> ci_current it = -1"

definition ConstIterator_Advance :: "'a::len word ConstIterator \<Rightarrow> 'a word ConstIterator" where
  "ConstIterator_Advance it =
     (if ConstIterator_AtEnd it then it
      else it\<lparr>ci_current := ConstIterator_FindNextBit (ci_set it) (ci_current it + 1)\<rparr>)"

section \<open>\<open>const_iterator\<close> and \<open>ForEach\<close>\<close>

record 'w const_iterator =
  it_bitSet :: "'w BitSet"
  it_currentBit :: nat

function const_iterator_FindNextBit :: "'a::len word BitSet \<Rightarrow> nat \<Rightarrow> nat" where
  "const_iterator_FindNextBit s cur =
     (if cur < CAPACITY s
      then if Includes cur s = Some True then cur
           else const_iterator_FindNextBit s (Suc cur)
      else CAPACITY s)"
  by pat_completeness auto
termination by (relation "measure (\<lambda>(s, c). CAPACITY s - c)") auto

declare const_iterator_FindNextBit.simps [simp del]

definition const_iterator_new :: "'a::len word BitSet \<Rightarrow> nat \<Rightarrow> 'a word const_iterator" where
  "const_iterator_new s bitFrom = \<lparr>it_bitSet = s, it_currentBit = const_iterator_FindNextBit s bitFrom\<rparr>"

definition const_iterator_inc :: "'a::len word const_iterator \<Rightarrow> 'a word const_iterator" where
  "const_iterator_inc it =
     (if it_currentBit it < CAPACITY (it_bitSet it)
      then it\<lparr>it_currentBit := const_iterator_FindNextBit (it_bitSet it) (Suc (it_currentBit it))\<rparr>
      else it)"

text \<open>The postfix form returns (a reference to) the old value and advances the iterator.\<close>

definition const_iterator_postinc :: "'a::len word const_iterator \<Rightarrow> 'a word const_iterator \<times> 'a word const_iterator" where
  "const_iterator_postinc it = (it, const_iterator_inc it)"

definition const_iterator_eq :: "'a::len word const_iterator \<Rightarrow> 'a word const_iterator \<Rightarrow> bool" where
  "const_iterator_eq it other \<longleftrightarrow> it_currentBit it = it_currentBit other"

definition const_iterator_neq :: "'a::len word const_iterator \<Rightarrow> 'a word const_iterator \<Rightarrow> bool" where
  "const_iterator_neq it other \<longleftrightarrow> it_currentBit it \<noteq> it_currentBit other"

definition BitSet_begin :: "'a::len word BitSet \<Rightarrow> 'a word const_iterator" where
  "BitSet_begin b = const_iterator_new b 0"

definition BitSet_end :: "'a::len word BitSet \<Rightarrow> 'a word const_iterator" where
  "BitSet_end b = const_iterator_new b (CAPACITY b)"

text \<open>The functor's effect is a function on the state \<open>'s\<close> it works on.\<close>

partial_function (option) ForEach_loop ::
  "(nat \<Rightarrow> 's \<Rightarrow> 's) \<Rightarrow> 'a::len word const_iterator \<Rightarrow> 'a word const_iterator \<Rightarrow> 's \<Rightarrow> 's option" where
  "ForEach_loop func theEnd itr s =
     (if const_iterator_neq itr theEnd
      then ForEach_loop func theEnd (const_iterator_inc itr) (func (it_currentBit itr) s)
      else Some s)"

definition ForEach :: "(nat \<Rightarrow> 's \<Rightarrow> 's) \<Rightarrow> 'a::len word BitSet \<Rightarrow> 's \<Rightarrow> 's option" where
  "ForEach func b s = ForEach_loop func (BitSet_end b) (BitSet_begin b) s"

section \<open>The abstract set\<close>

definition members :: "'a::len word BitSet \<Rightarrow> nat set" where
  "members b = {i. bit (bs_bits b) i}"

lemma finite_members [simp, intro]: "finite (members b)"
  by (simp add: members_def)

lemma members_less: "i \<in> members b \<Longrightarrow> i < LENGTH('a)" for b :: "'a::len word BitSet"
  by (auto simp: members_def dest: bit_imp_le_length)

lemma CAPACITY_eq: "8 dvd LENGTH('a) \<Longrightarrow> CAPACITY b = LENGTH('a)" for b :: "'a::len word BitSet"
  by (auto simp: CAPACITY_def sizeof_def push_bit_eq_mult dvd_div_mult_self)

lemma members_empty [simp]: "members BitSet_empty = {}"
  by (simp add: members_def BitSet_empty_def)

lemma members_setAll: "members (BitSet_setAll f :: 'a::len word BitSet) = (if f then {..<LENGTH('a)} else {})"
  by (auto simp: members_def BitSet_setAll_def bit_simps dest: bit_imp_le_length)

lemma BitSet_eq_iff: "BitSet_eq b c \<longleftrightarrow> members b = members c"
  by (auto simp: BitSet_eq_def members_def word_eq_bits)

lemma Add_members:
  "i < LENGTH('a) \<Longrightarrow> \<exists>c. Add i b = Some c \<and> members c = insert i (members b)" for b :: "'a::len word BitSet"
  by (auto simp: Add_def OnlyOneBit_eq members_def bit_simps)

lemma Remove_members:
  "i < LENGTH('a) \<Longrightarrow> \<exists>c. Remove i b = Some c \<and> members c = members b - {i}" for b :: "'a::len word BitSet"
  by (auto simp: Remove_def OnlyZeroBit_eq members_def bit_simps dest: bit_imp_le_length)

lemma Includes_members:
  "i < LENGTH('a) \<Longrightarrow> Includes i b = Some (i \<in> members b)" for b :: "'a::len word BitSet"
  by (simp add: Includes_def OnlyOneBit_eq members_def push_bit_of_1 and_exp_eq_0_iff_not_bit)

lemma past_capacity_None:
  "LENGTH('a) \<le> i \<Longrightarrow> Add i b = None \<and> Remove i b = None \<and> Includes i b = None" for b :: "'a::len word BitSet"
  by (simp add: Add_def Remove_def Includes_def OnlyOneBit_eq OnlyZeroBit_eq)

lemma Includes_Some_True: "Includes i b = Some True \<longleftrightarrow> i \<in> members b"
  using Includes_members [of i b] past_capacity_None [of i b] members_less [of i b]
  by (cases "i < LENGTH('a)") auto

lemma Size_card: "8 dvd LENGTH('a) \<Longrightarrow> Size b = card (members b)" for b :: "'a::len word BitSet"
  by (simp add: Size_def members_def NumberOfOneBits_card)

lemma IsEmpty_members: "IsEmpty b \<longleftrightarrow> members b = {}"
  by (simp only: IsEmpty_def members_def bits_eq_empty)

section \<open>Sets of indices as an interface\<close>

text \<open>The operations a client of an index set calls, and the laws it relies on.\<close>

locale index_set =
  fixes empty :: 's
    and add :: "nat \<Rightarrow> 's \<Rightarrow> 's option"
    and remove :: "nat \<Rightarrow> 's \<Rightarrow> 's option"
    and contains :: "nat \<Rightarrow> 's \<Rightarrow> bool option"
    and abs :: "'s \<Rightarrow> nat set"
    and cap :: nat
  assumes abs_empty: "abs empty = {}"
    and abs_less: "i \<in> abs s \<Longrightarrow> i < cap"
    and add_Some: "i < cap \<Longrightarrow> \<exists>t. add i s = Some t \<and> abs t = insert i (abs s)"
    and remove_Some: "i < cap \<Longrightarrow> \<exists>t. remove i s = Some t \<and> abs t = abs s - {i}"
    and contains_Some: "i < cap \<Longrightarrow> contains i s = Some (i \<in> abs s)"
    and past_None: "cap \<le> i \<Longrightarrow> add i s = None \<and> remove i s = None \<and> contains i s = None"
begin

lemma add_all: "set xs \<subseteq> {..<cap} \<Longrightarrow> \<exists>t. fold_option add xs s = Some t \<and> abs t = abs s \<union> set xs"
proof (induction xs arbitrary: s)
  case (Cons x xs)
  then obtain u where "add x s = Some u" "abs u = insert x (abs s)" using add_Some [of x s] by auto
  with Cons show ?case by fastforce
qed simp

lemma remove_all: "set xs \<subseteq> {..<cap} \<Longrightarrow> \<exists>t. fold_option remove xs s = Some t \<and> abs t = abs s - set xs"
proof (induction xs arbitrary: s)
  case (Cons x xs)
  then obtain u where u: "remove x s = Some u" "abs u = abs s - {x}" using remove_Some [of x s] by auto
  obtain t where "fold_option remove xs u = Some t" "abs t = abs u - set xs" using Cons by fastforce
  with u show ?case by auto
qed simp

lemma add_all_None: "\<not> set xs \<subseteq> {..<cap} \<Longrightarrow> fold_option add xs s = None"
proof (induction xs arbitrary: s)
  case (Cons x xs)
  then show ?case using past_None [of x s]
    by (cases "x < cap") (auto simp: not_less split: option.split)
qed simp

lemma history:
  assumes "set xs \<subseteq> {..<cap}" "set ys \<subseteq> {..<cap}"
  obtains b c where "fold_option add xs empty = Some b" "fold_option remove ys b = Some c"
    "abs c = set xs - set ys"
proof -
  obtain b where b: "fold_option add xs empty = Some b" "abs b = set xs"
    using add_all [OF assms(1), of empty] by (auto simp: abs_empty)
  then show thesis using remove_all [OF assms(2), of b] that by auto
qed

end

text \<open>An index set that also counts its members.\<close>

locale counted_index_set = index_set +
  fixes size :: "'a \<Rightarrow> nat"
  assumes size_card: "size s = card (abs s)"
begin

lemma size_history:
  assumes "set xs \<subseteq> {..<cap}" "fold_option add xs empty = Some b"
  shows "size b = length (remdups xs)"
  using add_all [OF assms(1), of empty] assms(2) by (simp add: size_card abs_empty length_remdups_card_conv)

end

lemma index_set_BitSet:
  "index_set (BitSet_empty :: 'a::len word BitSet) Add Remove Includes members LENGTH('a)"
  by unfold_locales
    (simp_all add: members_less Add_members Remove_members Includes_members past_capacity_None)

interpretation bs: index_set "BitSet_empty :: 'a::len word BitSet" Add Remove Includes members "LENGTH('a)"
  by (rule index_set_BitSet)

text \<open>The four typedefs of the header.\<close>

type_synonym BitSet8 = "8 word BitSet"
type_synonym BitSet16 = "16 word BitSet"
type_synonym BitSet32 = "32 word BitSet"
type_synonym BitSet64 = "64 word BitSet"

interpretation bs8: counted_index_set "BitSet_empty :: BitSet8" Add Remove Includes members "LENGTH(8)" Size
  by unfold_locales (simp add: Size_card)

interpretation bs16: counted_index_set "BitSet_empty :: BitSet16" Add Remove Includes members "LENGTH(16)" Size
  by unfold_locales (simp add: Size_card)

interpretation bs32: counted_index_set "BitSet_empty :: BitSet32" Add Remove Includes members "LENGTH(32)" Size
  by unfold_locales (simp add: Size_card)

interpretation bs64: counted_index_set "BitSet_empty :: BitSet64" Add Remove Includes members "LENGTH(64)" Size
  by unfold_locales (simp add: Size_card)

section \<open>Enumeration\<close>

definition members_from :: "'a::len word BitSet \<Rightarrow> nat \<Rightarrow> nat list" where
  "members_from b k = filter (\<lambda>i. i \<in> members b) [k..<CAPACITY b]"

lemma members_from_Cons:
  "k < CAPACITY b \<Longrightarrow>
     members_from b k = (if k \<in> members b then k # members_from b (Suc k) else members_from b (Suc k))"
  by (simp add: members_from_def upt_conv_Cons)

lemma members_from_ge [simp]: "CAPACITY b \<le> k \<Longrightarrow> members_from b k = []"
  by (simp add: members_from_def)

lemma members_from_0:
  "8 dvd LENGTH('a) \<Longrightarrow> members_from b 0 = sorted_list_of_set (members b)" for b :: "'a::len word BitSet"
proof -
  assume "8 dvd LENGTH('a)"
  then have "set (members_from b 0) = members b"
    by (auto simp: members_from_def CAPACITY_eq members_less)
  moreover have "sorted_wrt (<) (members_from b 0)"
    unfolding members_from_def by (rule sorted_wrt_filter) simp
  ultimately show ?thesis
    by (metis finite_members sorted_list_of_set.idem_if_sorted_distinct strict_sorted_iff)
qed

lemma FindNextBit_disj:
  "members_from b k = [] \<and> const_iterator_FindNextBit b k = CAPACITY b \<or>
   (\<exists>i. members_from b k = i # members_from b (Suc i) \<and> const_iterator_FindNextBit b k = i \<and>
      i < CAPACITY b \<and> i \<in> members b)"
proof (induction b k rule: const_iterator_FindNextBit.induct)
  case (1 b k)
  then show ?case
    by (cases "k < CAPACITY b"; cases "k \<in> members b")
      (auto simp: const_iterator_FindNextBit.simps [of b k] members_from_Cons Includes_Some_True)
qed

lemma FindNextBit_cases:
  obtains "members_from b k = []" "const_iterator_FindNextBit b k = CAPACITY b"
  | i where "members_from b k = i # members_from b (Suc i)" "const_iterator_FindNextBit b k = i"
      "i < CAPACITY b" "i \<in> members b"
  using FindNextBit_disj by blast

lemma ForEach_loop_fold:
  "ForEach_loop func (BitSet_end b) (const_iterator_new b k) s = Some (fold func (members_from b k) s)"
proof (induction "CAPACITY b - k" arbitrary: k s rule: less_induct)
  case less
  show ?case
  proof (cases rule: FindNextBit_cases [of b k])
    case 1
    then show ?thesis
      by (simp add: ForEach_loop.simps const_iterator_neq_def BitSet_end_def const_iterator_new_def
          const_iterator_FindNextBit.simps [of b "CAPACITY b"])
  next
    case (2 i)
    have "k < CAPACITY b" using 2(1) members_from_ge [of b k] by (cases "k < CAPACITY b") auto
    moreover have "k \<le> i" using 2(1) by (metis (no_types, lifting) atLeastLessThan_iff
          filter_is_subset list.set_intros(1) members_from_def set_upt subset_iff)
    ultimately have "CAPACITY b - Suc i < CAPACITY b - k" by simp
    note IH = less.hyps [OF this, of "func i s"]
    have "const_iterator_inc (const_iterator_new b k) = const_iterator_new b (Suc i)"
      using 2 by (simp add: const_iterator_inc_def const_iterator_new_def)
    then show ?thesis
      using 2 IH by (subst ForEach_loop.simps)
        (simp add: const_iterator_neq_def BitSet_end_def const_iterator_new_def
          const_iterator_FindNextBit.simps [of b "CAPACITY b"])
  qed
qed

lemma Items_loop_filter: "Items_loop is b c = c @ filter (\<lambda>i. i \<in> members b) is"
  by (induction "is" arbitrary: c) (simp_all add: Includes_Some_True)

lemma ConstIterator_FindNextBit_eq:
  "0 \<le> c \<Longrightarrow> ConstIterator_FindNextBit b c =
     (case members_from b (nat c) of [] \<Rightarrow> -1 | i # _ \<Rightarrow> int i)"
proof (induction b c rule: ConstIterator_FindNextBit.induct)
  case (1 b c)
  show ?case
  proof (cases "c < int (CAPACITY b)")
    case True
    with "1.prems" have n: "nat c < CAPACITY b" "nat (c + 1) = Suc (nat c)" by auto
    then show ?thesis using 1 True
      by (simp add: ConstIterator_FindNextBit.simps [of b c] Includes_Some_True members_from_Cons)
  next
    case False
    then show ?thesis using "1.prems" by (simp add: ConstIterator_FindNextBit.simps [of b c])
  qed
qed

text \<open>The members a \<open>ConstIterator\<close> has still to deliver, its own position included.\<close>

definition ConstIterator_rest :: "'a::len word ConstIterator \<Rightarrow> nat list" where
  "ConstIterator_rest it =
     (if ConstIterator_AtEnd it then [] else members_from (ci_set it) (nat (ci_current it)))"

lemma FindNextBit_rest:
  "0 \<le> c \<Longrightarrow> ConstIterator_rest \<lparr>ci_set = b, ci_current = ConstIterator_FindNextBit b c\<rparr> = members_from b (nat c)"
  using ConstIterator_FindNextBit_eq [of c b]
  by (cases rule: FindNextBit_cases [of b "nat c"])
    (auto simp: ConstIterator_rest_def ConstIterator_AtEnd_def members_from_Cons)

definition ConstIterator_ok :: "'a::len word ConstIterator \<Rightarrow> bool" where
  "ConstIterator_ok it \<longleftrightarrow> ConstIterator_AtEnd it \<or>
     0 \<le> ci_current it \<and> nat (ci_current it) < CAPACITY (ci_set it) \<and> nat (ci_current it) \<in> members (ci_set it)"

lemma ConstIterator_ok_Find:
  "0 \<le> c \<Longrightarrow> ConstIterator_ok \<lparr>ci_set = b, ci_current = ConstIterator_FindNextBit b c\<rparr>"
  using ConstIterator_FindNextBit_eq [of c b]
  by (cases rule: FindNextBit_cases [of b "nat c"]) (auto simp: ConstIterator_ok_def ConstIterator_AtEnd_def)

lemma ConstIterator_rest_Cons:
  assumes "ConstIterator_ok it" "\<not> ConstIterator_AtEnd it"
  shows "ConstIterator_rest it = nat (ci_current it) # ConstIterator_rest (ConstIterator_Advance it)"
    "ConstIterator_ok (ConstIterator_Advance it)"
proof -
  have c: "0 \<le> ci_current it" "nat (ci_current it) < CAPACITY (ci_set it)"
    "nat (ci_current it) \<in> members (ci_set it)" using assms by (auto simp: ConstIterator_ok_def)
  have adv: "ConstIterator_Advance it =
      \<lparr>ci_set = ci_set it, ci_current = ConstIterator_FindNextBit (ci_set it) (ci_current it + 1)\<rparr>"
    using assms(2) by (cases it) (simp add: ConstIterator_Advance_def)
  have "nat (ci_current it + 1) = Suc (nat (ci_current it))" using c(1) by simp
  then show "ConstIterator_rest it = nat (ci_current it) # ConstIterator_rest (ConstIterator_Advance it)"
    using assms(2) c FindNextBit_rest [of "ci_current it + 1" "ci_set it"]
    by (simp add: adv) (simp add: ConstIterator_rest_def members_from_Cons)
  show "ConstIterator_ok (ConstIterator_Advance it)"
    unfolding adv by (rule ConstIterator_ok_Find) (use c in simp)
qed

lemma ConstIterator_walk:
  "ConstIterator_ok it \<Longrightarrow>
     ConstIterator_ok ((ConstIterator_Advance ^^ k) it) \<and>
     ConstIterator_rest ((ConstIterator_Advance ^^ k) it) = drop k (ConstIterator_rest it)"
proof (induction k)
  case (Suc k)
  let ?it = "(ConstIterator_Advance ^^ k) it"
  show ?case
  proof (cases "ConstIterator_AtEnd ?it")
    case True
    then have "ConstIterator_Advance ?it = ?it" by (simp add: ConstIterator_Advance_def)
    with True Suc show ?thesis by (simp add: ConstIterator_rest_def split: if_splits)
  next
    case False
    with Suc ConstIterator_rest_Cons [of ?it] show ?thesis
      by (metis drop_Suc funpow.simps(2) list.sel(3) o_apply tl_drop)
  qed
qed simp

lemma ConstIterator_rest_current:
  assumes "ConstIterator_ok it"
  shows "if ConstIterator_rest it = [] then ConstIterator_AtEnd it
    else ci_current it = int (hd (ConstIterator_rest it))"
  using assms ConstIterator_rest_Cons [of it]
  by (cases "ConstIterator_AtEnd it") (auto simp: ConstIterator_rest_def ConstIterator_ok_def)

section \<open>Properties\<close>

text \<open>C6. Building a set with \<open>Add\<close> and then taking elements out with \<open>Remove\<close> leaves
  exactly the difference: \<open>Includes\<close> answers membership of every index below the capacity,
  \<open>Size\<close> (the table-driven bit count) is the number of distinct elements left, and
  \<open>MinBit\<close>/\<open>MaxBit\<close> are its least and greatest elements, or -1 when it is empty.\<close>

theorem BitSet_history:
  assumes w: "8 dvd LENGTH('a::len)"
    and xs: "set xs \<subseteq> {..<LENGTH('a)}" and ys: "set ys \<subseteq> {..<LENGTH('a)}"
  shows "\<exists>b c. fold_option Add xs (BitSet_empty :: 'a word BitSet) = Some b \<and> fold_option Remove ys b = Some c \<and>
    (\<forall>i < LENGTH('a). Includes i c = Some (i \<in> set xs - set ys)) \<and>
    Size c = card (set xs - set ys) \<and>
    MinBit c = (if set xs \<subseteq> set ys then -1 else int (Min (set xs - set ys))) \<and>
    MaxBit c = (if set xs \<subseteq> set ys then -1 else int (Max (set xs - set ys)))"
proof -
  obtain b c :: "'a word BitSet" where h: "fold_option Add xs BitSet_empty = Some b"
    "fold_option Remove ys b = Some c" "members c = set xs - set ys"
    using bs.history [OF xs ys] .
  have "bs_bits c = 0 \<longleftrightarrow> set xs \<subseteq> set ys"
    using h(3) IsEmpty_members [of c] by (auto simp: IsEmpty_def)
  then show ?thesis using h w
    by (auto simp: bs.contains_Some Size_card MinBit_def MaxBit_def LeastOneBit_Min GreatestOneBit_Max
        simp flip: members_def)
qed

theorem BitSet_history_witness:
  "8 dvd LENGTH(32) \<and> set [3::nat, 17, 31] \<subseteq> {..<LENGTH(32)} \<and> set [17::nat] \<subseteq> {..<LENGTH(32)} \<and>
   (\<exists>b c. fold_option Add [3, 17, 31] (BitSet_empty :: BitSet32) = Some b \<and> fold_option Remove [17] b = Some c \<and>
     Size c = 2 \<and> MinBit c = 3)"
proof -
  have h: "8 dvd LENGTH(32)" "set [3::nat, 17, 31] \<subseteq> {..<LENGTH(32)}" "set [17::nat] \<subseteq> {..<LENGTH(32)}"
    by simp_all
  have d: "set [3::nat, 17, 31] - set [17] = {3, 31}" by auto
  show ?thesis using h BitSet_history [OF h] unfolding d by auto
qed

text \<open>\<open>Index(bit)\<close> is the rank of \<open>bit\<close>: the number of members strictly below it.\<close>

theorem BitSet_Index_rank:
  assumes "8 dvd LENGTH('a::len)" and "i < LENGTH('a)"
  shows "Index i (b :: 'a word BitSet) = Some (card {j. Includes j b = Some True \<and> j < i})"
proof -
  have "(push_bit i 1 :: 'a word) - 1 = mask i" by (simp add: mask_eq_exp_minus_1 push_bit_of_1)
  then show ?thesis using assms
    by (auto simp: Index_def OnlyOneBit_eq NumberOfOneBits_card bit_simps Includes_Some_True members_def
        intro!: arg_cong [where f = card])
qed

theorem BitSet_Index_rank_witness:
  "8 dvd LENGTH(16) \<and> (9::nat) < LENGTH(16) \<and>
   Index 9 (\<lparr>bs_bits = 0x1234\<rparr> :: BitSet16) = Some (card {j. Includes j (\<lparr>bs_bits = 0x1234\<rparr> :: BitSet16) = Some True \<and> j < 9})"
  using BitSet_Index_rank [of 9 "\<lparr>bs_bits = 0x1234\<rparr> :: BitSet16"] by simp

text \<open>Both enumerations deliver every member exactly once in ascending order: \<open>ForEach\<close>
  terminates (through the STL-style \<open>const_iterator\<close>) and calls the functor on the sorted
  members, \<open>Items\<close> writes the same list, and a \<open>ConstIterator\<close> advanced \<open>k\<close> times stands on the
  \<open>k\<close>-th of them, or at the end when there are no more.\<close>

theorem BitSet_enumeration:
  assumes w: "8 dvd LENGTH('a::len)"
  shows "ForEach func (b :: 'a word BitSet) s = Some (fold func (sorted_list_of_set (members b)) s) \<and>
    Items b = sorted_list_of_set (members b) \<and>
    (\<forall>k. let it = (ConstIterator_Advance ^^ k) (ConstIterator_new b) in
       if k < card (members b) then ci_current it = int (sorted_list_of_set (members b) ! k)
       else ConstIterator_AtEnd it)"
proof (intro conjI allI)
  show "ForEach func b s = Some (fold func (sorted_list_of_set (members b)) s)"
    using ForEach_loop_fold [of func b 0 s] by (simp add: ForEach_def BitSet_begin_def members_from_0 [OF w])
  show "Items b = sorted_list_of_set (members b)"
    by (simp add: Items_def Items_loop_filter members_from_0 [OF w, symmetric] members_from_def)
  fix k
  let ?it = "(ConstIterator_Advance ^^ k) (ConstIterator_new b)"
  have "ConstIterator_ok ?it \<and> ConstIterator_rest ?it = drop k (sorted_list_of_set (members b))"
    using ConstIterator_walk [of "ConstIterator_new b" k] FindNextBit_rest [of 0 b] ConstIterator_ok_Find [of 0 b]
    by (simp add: ConstIterator_new_def members_from_0 [OF w])
  then show "let it = ?it in
       if k < card (members b) then ci_current it = int (sorted_list_of_set (members b) ! k)
       else ConstIterator_AtEnd it"
    using ConstIterator_rest_current [of ?it] by (auto simp: hd_drop_conv_nth not_less)
qed

theorem BitSet_enumeration_witness:
  "8 dvd LENGTH(8) \<and> ForEach (#) (\<lparr>bs_bits = 0x92\<rparr> :: BitSet8) [] = Some [7, 4, 1]"
proof -
  have w: "8 dvd LENGTH(8)" by simp
  have "Items (\<lparr>bs_bits = 0x92\<rparr> :: BitSet8) = [1, 4, 7]" by code_simp
  then have "sorted_list_of_set (members (\<lparr>bs_bits = 0x92\<rparr> :: BitSet8)) = [1, 4, 7]"
    using BitSet_enumeration [OF w, of "(#)" "\<lparr>bs_bits = 0x92\<rparr>" "[]"] by simp
  then show ?thesis
    using w BitSet_enumeration [OF w, of "(#)" "\<lparr>bs_bits = 0x92\<rparr>" "[]"] by simp
qed

end
