(* ===== verification/Base64.thy ===== *)
theory Base64
  imports Xtl_Prelude
begin

unbundle bit_operations_syntax

text \<open>
  \<^verbatim>\<open>utils/Base64.cpp\<close>: the Base64 codec with its two alphabets. Bytes are
  \<^typ>\<open>UINT_8\<close>; the destination \<^verbatim>\<open>CharBuffer\<close> is the list of its bytes and is the
  state of the methods, so what a failing \<open>Decode\<close> has already appended stays visible.
\<close>

section \<open>The codec tables\<close>

datatype base64_error = Invalid_message_length | CharToInt_error

record Base64Codec =
  charToInt :: "int list"
  intToChar :: "UINT_8 list"

definition CHAR_TO_INT_SIZE :: nat where
  "CHAR_TO_INT_SIZE = 128"

definition BASE_64_CHAR_TO_INT :: "int list" where
  "BASE_64_CHAR_TO_INT = [
    -1, -1, -1, -1, -1, -1, -1, -1, -1, -1, -1, -1, -1, -1, -1, -1,
    -1, -1, -1, -1, -1, -1, -1, -1, -1, -1, -1, -1, -1, -1, -1, -1,
    -1, -1, -1, -1, -1, -1, -1, -1, -1, -1, -1, 62, -1, -1, -1, 63,
    52, 53, 54, 55, 56, 57, 58, 59, 60, 61, -1, -1, -1, -1, -1, -1,
    -1,  0,  1,  2,  3,  4,  5,  6,  7,  8,  9, 10, 11, 12, 13, 14,
    15, 16, 17, 18, 19, 20, 21, 22, 23, 24, 25, -1, -1, -1, -1, -1,
    -1, 26, 27, 28, 29, 30, 31, 32, 33, 34, 35, 36, 37, 38, 39, 40,
    41, 42, 43, 44, 45, 46, 47, 48, 49, 50, 51, -1, -1, -1, -1, -1]"

definition BASE_64_INT_TO_CHAR :: "UINT_8 list" where
  "BASE_64_INT_TO_CHAR =
     map of_char ''ABCDEFGHIJKLMNOPQRSTUVWXYZabcdefghijklmnopqrstuvwxyz0123456789+/''"

definition BASE_64_URL_CHAR_TO_INT :: "int list" where
  "BASE_64_URL_CHAR_TO_INT = [
    -1, -1, -1, -1, -1, -1, -1, -1, -1, -1, -1, -1, -1, -1, -1, -1,
    -1, -1, -1, -1, -1, -1, -1, -1, -1, -1, -1, -1, -1, -1, -1, -1,
    -1, -1, -1, -1, -1, -1, -1, -1, -1, -1, -1, -1, -1, 62, -1, -1,
    52, 53, 54, 55, 56, 57, 58, 59, 60, 61, -1, -1, -1, -1, -1, -1,
    -1,  0,  1,  2,  3,  4,  5,  6,  7,  8,  9, 10, 11, 12, 13, 14,
    15, 16, 17, 18, 19, 20, 21, 22, 23, 24, 25, -1, -1, -1, -1, 63,
    -1, 26, 27, 28, 29, 30, 31, 32, 33, 34, 35, 36, 37, 38, 39, 40,
    41, 42, 43, 44, 45, 46, 47, 48, 49, 50, 51, -1, -1, -1, -1, -1]"

definition BASE_64_URL_INT_TO_CHAR :: "UINT_8 list" where
  "BASE_64_URL_INT_TO_CHAR =
     map of_char ''ABCDEFGHIJKLMNOPQRSTUVWXYZabcdefghijklmnopqrstuvwxyz0123456789-_''"

definition BASE64_COMMON :: Base64Codec where
  "BASE64_COMMON = \<lparr>charToInt = BASE_64_CHAR_TO_INT, intToChar = BASE_64_INT_TO_CHAR\<rparr>"

definition BASE64_URL :: Base64Codec where
  "BASE64_URL = \<lparr>charToInt = BASE_64_URL_CHAR_TO_INT, intToChar = BASE_64_URL_INT_TO_CHAR\<rparr>"

definition CharToInt :: "Base64Codec \<Rightarrow> UINT_8 \<Rightarrow> ('s, base64_error, int) mth" where
  "CharToInt codec c =
     (let i = (if unat c < CHAR_TO_INT_SIZE then charToInt codec ! unat c else -1)
      in if i < 0 then throwM CharToInt_error else returnM i)"

definition IntToChar :: "Base64Codec \<Rightarrow> UINT_8 \<Rightarrow> UINT_8" where
  "IntToChar codec i = intToChar codec ! unat (i AND 0x3f)"

section \<open>Decoding and encoding\<close>

text \<open>\<^verbatim>\<open>dest.Append(int)\<close> converts its argument to \<^verbatim>\<open>char\<close>, keeping the low 8 bits.\<close>

definition Append_int :: "int \<Rightarrow> (UINT_8 list, 'e, unit) mth" where
  "Append_int i dest = (Inr (), dest @ [word_of_int i])"

text \<open>The loop \<^verbatim>\<open>while (p < end)\<close>: it consumes four bytes per turn, and \<open>end - p\<close> is a
  multiple of 4.\<close>

fun Decode_loop :: "Base64Codec \<Rightarrow> UINT_8 list \<Rightarrow> (UINT_8 list, base64_error, unit) mth" where
  "Decode_loop codec (p0 # p1 # p2 # p3 # ps) =
     bindM (CharToInt codec p0) (\<lambda>a.
     bindM (CharToInt codec p1) (\<lambda>b.
     bindM (CharToInt codec p2) (\<lambda>c.
     bindM (CharToInt codec p3) (\<lambda>d.
     bindM (Append_int (push_bit 2 a OR drop_bit 4 b)) (\<lambda>_.
     bindM (Append_int (push_bit 4 b OR drop_bit 2 c)) (\<lambda>_.
     bindM (Append_int (push_bit 6 c OR d)) (\<lambda>_.
     Decode_loop codec ps)))))))"
| "Decode_loop codec _ = returnM ()"

definition PAD :: UINT_8 where
  "PAD = of_char (CHR ''='')"

definition Base64_Decode :: "Base64Codec \<Rightarrow> UINT_8 list \<Rightarrow> (UINT_8 list, base64_error, unit) mth" where
  "Base64_Decode codec source =
     (let sourceSize = length source in
      if sourceSize = 0 then returnM ()
      else if sourceSize mod 4 \<noteq> 0 then throwM Invalid_message_length
      else
        let tail = (if source ! (sourceSize - 1) = PAD
                    then if source ! (sourceSize - 2) = PAD then 2 else 1 else 0 :: nat);
            end = (if 0 < tail then sourceSize - 4 else sourceSize);
            p = drop end source
        in bindM (Decode_loop codec (take end source)) (\<lambda>_.
           if 0 < tail then
             bindM (CharToInt codec (p ! 0)) (\<lambda>a.
             bindM (CharToInt codec (p ! 1)) (\<lambda>b.
             bindM (Append_int (push_bit 2 a OR drop_bit 4 b)) (\<lambda>_.
             if tail = 1 then
               bindM (CharToInt codec (p ! 2)) (\<lambda>c.
               Append_int (push_bit 4 b OR drop_bit 2 c))
             else returnM ())))
           else returnM ()))"

fun Encode_loop :: "Base64Codec \<Rightarrow> UINT_8 list \<Rightarrow> UINT_8 list \<Rightarrow> UINT_8 list" where
  "Encode_loop codec (a # b # c # ps) dest =
     Encode_loop codec ps (dest @
       [IntToChar codec (drop_bit 2 a),
        IntToChar codec (push_bit 4 (a AND 0x03) OR (drop_bit 4 b AND 0x0f)),
        IntToChar codec (push_bit 2 (b AND 0x0f) OR (drop_bit 6 c AND 0x03)),
        IntToChar codec (c AND 0x3f)])"
| "Encode_loop codec _ dest = dest"

definition Base64_Encode :: "Base64Codec \<Rightarrow> UINT_8 list \<Rightarrow> UINT_8 list \<Rightarrow> UINT_8 list" where
  "Base64_Encode codec source dest =
     (let sourceSize = length source in
      if sourceSize = 0 then dest
      else
        let tail = sourceSize mod 3;
            dest = Encode_loop codec (take (sourceSize - tail) source) dest;
            p = drop (sourceSize - tail) source
        in if tail = 1 then
             (let a = p ! 0 in dest @
               [IntToChar codec (drop_bit 2 a), IntToChar codec (push_bit 4 (a AND 0x03)), PAD, PAD])
           else if tail = 2 then
             (let a = p ! 0; b = p ! 1 in dest @
               [IntToChar codec (drop_bit 2 a),
                IntToChar codec (push_bit 4 (a AND 0x03) OR (drop_bit 4 b AND 0x0f)),
                IntToChar codec (push_bit 2 (b AND 0x0f)), PAD])
           else dest)"

definition Decode :: "UINT_8 list \<Rightarrow> (UINT_8 list, base64_error, unit) mth" where
  "Decode source = Base64_Decode BASE64_COMMON source"

definition DecodeUrl :: "UINT_8 list \<Rightarrow> (UINT_8 list, base64_error, unit) mth" where
  "DecodeUrl source = Base64_Decode BASE64_URL source"

definition Encode :: "UINT_8 list \<Rightarrow> UINT_8 list \<Rightarrow> UINT_8 list" where
  "Encode source dest = Base64_Encode BASE64_COMMON source dest"

definition EncodeUrl :: "UINT_8 list \<Rightarrow> UINT_8 list \<Rightarrow> UINT_8 list" where
  "EncodeUrl source dest = Base64_Encode BASE64_URL source dest"

section \<open>The bit packing of a group\<close>

lemma base64_masks: "(3::UINT_8) = mask 2" "(15::UINT_8) = mask 4" "(63::UINT_8) = mask 6"
  by (simp_all add: mask_eq_exp_minus_1)

lemma UINT_8_eqI:
  fixes a b :: UINT_8
  assumes "bit a 0 = bit b 0" "bit a 1 = bit b 1" "bit a 2 = bit b 2" "bit a 3 = bit b 3"
    "bit a 4 = bit b 4" "bit a 5 = bit b 5" "bit a 6 = bit b 6" "bit a 7 = bit b 7"
  shows "a = b"
proof (rule bit_word_eqI)
  fix n assume "n < LENGTH(8)"
  then have "n = 0 \<or> n = 1 \<or> n = 2 \<or> n = 3 \<or> n = 4 \<or> n = 5 \<or> n = 6 \<or> n = 7" by auto
  then show "bit a n = bit b n" using assms by auto
qed

lemmas base64_bits = bit_word_of_int_iff bit_or_iff bit_and_iff bit_push_bit_iff bit_drop_bit_eq
  bit_uint_iff bit_mask_iff possible_bit_def o_apply unsigned_or_eq unsigned_and_eq

lemma quad_a: "word_of_int (push_bit 2 (uint (drop_bit 2 a AND 0x3f)) OR
      drop_bit 4 (uint ((push_bit 4 (a AND 0x03) OR (drop_bit 4 b AND 0x0f)) AND 0x3f))) = (a::UINT_8)"
  unfolding base64_masks
  by (rule UINT_8_eqI; simp only: base64_bits; simp)

lemma quad_b: "word_of_int (push_bit 4 (uint ((push_bit 4 (a AND 0x03) OR (drop_bit 4 b AND 0x0f)) AND 0x3f)) OR
      drop_bit 2 (uint ((push_bit 2 (b AND 0x0f) OR (drop_bit 6 c AND 0x03)) AND 0x3f))) = (b::UINT_8)"
  unfolding base64_masks
  by (rule UINT_8_eqI; simp only: base64_bits; simp)

lemma quad_c: "word_of_int (push_bit 6 (uint ((push_bit 2 (b AND 0x0f) OR (drop_bit 6 c AND 0x03)) AND 0x3f)) OR
      uint ((c AND 0x3f) AND 0x3f)) = (c::UINT_8)"
  unfolding base64_masks
  by (rule UINT_8_eqI; simp only: base64_bits; simp)

text \<open>The four 6-bit groups of three bytes.\<close>

definition sextet2 :: "UINT_8 \<Rightarrow> UINT_8 \<Rightarrow> UINT_8" where
  "sextet2 a b = push_bit 4 (a AND 0x03) OR (drop_bit 4 b AND 0x0f)"

definition sextet3 :: "UINT_8 \<Rightarrow> UINT_8 \<Rightarrow> UINT_8" where
  "sextet3 b c = push_bit 2 (b AND 0x0f) OR (drop_bit 6 c AND 0x03)"

definition octet :: "nat \<Rightarrow> nat \<Rightarrow> UINT_8 \<Rightarrow> UINT_8 \<Rightarrow> UINT_8" where
  "octet l r x y = word_of_int (push_bit l (uint (x AND 0x3f)) OR drop_bit r (uint (y AND 0x3f)))"

lemma octets:
  "octet 2 4 (drop_bit 2 a) (sextet2 a b) = a" "octet 4 2 (sextet2 a b) (sextet3 b c) = b"
  "octet 6 0 (sextet3 b c) (c AND 0x3f) = c"
  unfolding octet_def sextet2_def sextet3_def using quad_a quad_b quad_c by simp_all

lemma sextets_tail:
  "push_bit 4 (a AND 0x03) = sextet2 a 0" "push_bit 2 (b AND 0x0f) = sextet3 b 0"
  by (simp_all add: sextet2_def sextet3_def)

lemma Encode_loop_append: "Encode_loop codec ps (dest @ d) = dest @ Encode_loop codec ps d"
  by (induction codec ps d rule: Encode_loop.induct) (simp_all only: Encode_loop.simps append_assoc)

lemma Encode_loop_dest: "Encode_loop codec ps dest = dest @ Encode_loop codec ps []"
  using Encode_loop_append [of codec ps dest "[]"] by simp

lemma Encode_loop_Cons:
  "Encode_loop codec (a # b # c # ps) [] =
     [IntToChar codec (drop_bit 2 a), IntToChar codec (sextet2 a b),
      IntToChar codec (sextet3 b c), IntToChar codec (c AND 0x3f)] @ Encode_loop codec ps []"
  unfolding sextet2_def sextet3_def by (subst Encode_loop.simps(1), subst Encode_loop_dest) simp

lemma Decode_loop_Cons:
  assumes "(CharToInt codec p0 :: (UINT_8 list, base64_error, int) mth) = returnM (uint (w AND 0x3f))"
    "(CharToInt codec p1 :: (UINT_8 list, base64_error, int) mth) = returnM (uint (x AND 0x3f))"
    "(CharToInt codec p2 :: (UINT_8 list, base64_error, int) mth) = returnM (uint (y AND 0x3f))"
    "(CharToInt codec p3 :: (UINT_8 list, base64_error, int) mth) = returnM (uint (z AND 0x3f))"
  shows "Decode_loop codec (p0 # p1 # p2 # p3 # ps) dest =
    Decode_loop codec ps (dest @ [octet 2 4 w x, octet 4 2 x y, octet 6 0 y z])"
  using assms by (simp add: bindM_def returnM_def Append_int_def octet_def)

lemma triple_induct [consumes 1, case_names Nil Cons]:
  assumes "length ps mod 3 = 0" and "P []"
    and "\<And>a b c ps. length ps mod 3 = 0 \<Longrightarrow> P ps \<Longrightarrow> P (a # b # c # ps)"
  shows "P ps"
  using assms(1)
proof (induction "length ps" arbitrary: ps rule: less_induct)
  case less
  show ?case
  proof (cases ps)
    case (Cons a qs)
    with less.prems obtain b c rs where ps: "ps = a # b # c # rs"
      by (cases qs rule: remdups_adj.cases) auto
    with less.prems have "length rs mod 3 = 0" by (simp add: mod_Suc split: if_splits)
    with less.hyps [of rs] assms(3) show ?thesis by (simp add: ps)
  qed (simp add: assms(2))
qed

section \<open>A codec as an interface\<close>

text \<open>What the two loops rely on: the number table inverts the character table, and the padding
  character is no digit.\<close>

locale base64_codec =
  fixes codec :: Base64Codec
  assumes char_int: "i < 64 \<Longrightarrow> unat (intToChar codec ! i) < 128 \<and>
      charToInt codec ! unat (intToChar codec ! i) = int i"
    and pad_no_digit: "charToInt codec ! unat PAD < 0"
begin

lemma IntToChar_CharToInt [simp]: "CharToInt codec (IntToChar codec i) = returnM (uint (i AND 0x3f))"
proof -
  have "i AND 0x3f \<le> 0x3f" by (rule word_and_le1)
  then have "unat (i AND 0x3f) < 64" by (simp add: word_le_nat_alt)
  from char_int [OF this] show ?thesis
    by (simp add: CharToInt_def IntToChar_def CHAR_TO_INT_SIZE_def)
qed

lemma CharToInt_PAD [simp]: "CharToInt codec PAD = throwM CharToInt_error"
proof -
  have "unat PAD < 128" by (simp add: PAD_def)
  with pad_no_digit show ?thesis by (simp add: CharToInt_def CHAR_TO_INT_SIZE_def)
qed

lemma IntToChar_PAD [simp]: "IntToChar codec i \<noteq> PAD" "PAD \<noteq> IntToChar codec i"
proof -
  have "CharToInt codec (IntToChar codec i) () \<noteq> CharToInt codec PAD ()" by (simp add: mth_simps)
  then show "IntToChar codec i \<noteq> PAD" "PAD \<noteq> IntToChar codec i" by (metis, metis)
qed

lemma Decode_Encode_loop:
  "length ps mod 3 = 0 \<Longrightarrow> Decode_loop codec (Encode_loop codec ps []) dest = (Inr (), dest @ ps)"
proof (induction ps arbitrary: dest rule: triple_induct)
  case Nil
  show ?case by (simp add: mth_simps)
next
  case (Cons a b c ps)
  show ?case
    unfolding Encode_loop_Cons append_Cons append_Nil
    by (subst Decode_loop_Cons; (rule IntToChar_CharToInt)?) (simp add: octets Cons.IH)
qed

lemma length_Encode_loop: "length ps mod 3 = 0 \<Longrightarrow> length (Encode_loop codec ps []) = 4 * (length ps div 3)"
proof (induction ps rule: triple_induct)
  case (Cons a b c ps)
  have "length (a # b # c # ps) div 3 = Suc (length ps div 3)" by (simp add: div_add_self1)
  then show ?case using Cons.IH by (simp only: Encode_loop_Cons) simp
qed simp

lemma PAD_Encode_loop: "length ps mod 3 = 0 \<Longrightarrow> PAD \<notin> set (Encode_loop codec ps [])"
  by (induction ps rule: triple_induct) (simp_all add: Encode_loop_Cons del: Encode_loop.simps(1))

text \<open>The whole message: full groups, then nothing, one or two bytes.\<close>

lemma Encode_parts:
  assumes "length body mod 3 = 0" "length rest < 3"
  shows "Base64_Encode codec (body @ rest) dest = dest @ Encode_loop codec body [] @
    (case rest of [] \<Rightarrow> []
     | [a] \<Rightarrow> [IntToChar codec (drop_bit 2 a), IntToChar codec (sextet2 a 0), PAD, PAD]
     | a # b # _ \<Rightarrow> [IntToChar codec (drop_bit 2 a), IntToChar codec (sextet2 a b),
         IntToChar codec (sextet3 b 0), PAD])"
proof -
  have m: "(length body + length rest) mod 3 = length rest"
    using assms by (simp add: mod_add_left_eq [symmetric])
  have d: "Encode_loop codec body dest = dest @ Encode_loop codec body []" by (rule Encode_loop_dest)
  show ?thesis
  proof (cases rest)
    case Nil
    then show ?thesis using m d by (auto simp: Base64_Encode_def Let_def)
  next
    case (Cons a r)
    then show ?thesis using m d assms(2)
      by (cases r) (auto simp: Base64_Encode_def Let_def sextet2_def sextet3_def)
  qed
qed

lemma Encode_split: obtains body rest where "s = body @ rest" "length body mod 3 = 0" "length rest < 3"
proof
  show "s = take (3 * (length s div 3)) s @ drop (3 * (length s div 3)) s" by simp
  show "length (take (3 * (length s div 3)) s) mod 3 = 0" by (simp add: min.absorb2)
  show "length (drop (3 * (length s div 3)) s) < 3"
    by (simp add: minus_mult_div_eq_mod)
qed

lemma Decode_parts:
  assumes q: "length quads mod 4 = 0" "PAD \<notin> set quads"
    and r: "rest = [] \<or> (\<exists>a b c. rest = [a, b, c, PAD] \<and> a \<noteq> PAD \<and> b \<noteq> PAD)"
  shows "Base64_Decode codec (quads @ rest) =
    bindM (Decode_loop codec quads) (\<lambda>_.
      case rest of [] \<Rightarrow> returnM ()
      | x # y # z # _ \<Rightarrow>
         bindM (CharToInt codec x) (\<lambda>a.
         bindM (CharToInt codec y) (\<lambda>b.
         bindM (Append_int (push_bit 2 a OR drop_bit 4 b)) (\<lambda>_.
         if z \<noteq> PAD then
           bindM (CharToInt codec z) (\<lambda>c.
           Append_int (push_bit 4 b OR drop_bit 2 c))
         else returnM ()))))"
proof (cases "rest = []")
  case True
  show ?thesis
  proof (cases "quads = []")
    case False
    then have "quads ! (length quads - 1) \<noteq> PAD" using q(2) by (metis last_conv_nth last_in_set)
    then show ?thesis using False True q(1) by (auto simp: Base64_Decode_def Let_def fun_eq_iff)
  qed (auto simp: True Base64_Decode_def bindM_def returnM_def fun_eq_iff)
next
  case False
  then obtain a b c where rest: "rest = [a, b, c, PAD]" using r by auto
  have n: "length (quads @ rest) - 1 = length quads + 3" "length (quads @ rest) - 2 = length quads + 2"
    by (simp_all add: rest)
  have "(quads @ rest) ! (length quads + 3) = PAD" "(quads @ rest) ! (length quads + 2) = c"
    by (simp_all add: rest nth_append)
  then show ?thesis using q(1) unfolding Base64_Decode_def Let_def n
    by (auto simp: rest fun_eq_iff intro!: arg_cong2 [where f = bindM] ext)
qed

lemma Decode_Encode: "Base64_Decode codec (Base64_Encode codec s []) dest = (Inr (), dest @ s)"
proof (rule Encode_split [of s])
  fix body rest assume s: "s = body @ rest" "length body mod 3 = 0" "length rest < 3"
  let ?q = "Encode_loop codec body []"
  have q: "length ?q mod 4 = 0" "PAD \<notin> set ?q"
    using s(2) by (simp_all add: length_Encode_loop PAD_Encode_loop)
  show ?thesis
  proof (cases rest)
    case Nil
    then show ?thesis using Encode_parts [OF s(2), of "[]" "[]"] Decode_parts [OF q, of "[]"] s
      by (simp add: bindM_def Decode_Encode_loop returnM_def)
  next
    case (Cons a r)
    then show ?thesis
    proof (cases r)
      case Nil
      with Cons s show ?thesis
        using Encode_parts [OF s(2,3), of "[]"]
          Decode_parts [OF q, of "[IntToChar codec (drop_bit 2 a), IntToChar codec (sextet2 a 0), PAD, PAD]"]
        by (simp add: bindM_def Decode_Encode_loop returnM_def Append_int_def octets(1) [of a 0, unfolded octet_def])
    next
      case (Cons b r')
      with s \<open>rest = a # r\<close> have rest: "rest = [a, b]" by simp
      show ?thesis
        using Encode_parts [OF s(2,3), of "[]"] s(1,2)
          Decode_parts [OF q, of "[IntToChar codec (drop_bit 2 a), IntToChar codec (sextet2 a b),
            IntToChar codec (sextet3 b 0), PAD]"]
        by (simp add: rest bindM_def Decode_Encode_loop returnM_def Append_int_def
            octets(1) [of a b, unfolded octet_def] octets(2) [of a b 0, unfolded octet_def])
    qed
  qed
qed

end

lemma common_chars: "BASE_64_INT_TO_CHAR = [65,66,67,68,69,70,71,72,73,74,75,76,77,78,79,80,81,82,83,84,
  85,86,87,88,89,90,97,98,99,100,101,102,103,104,105,106,107,108,109,110,111,112,113,114,115,116,117,118,
  119,120,121,122,48,49,50,51,52,53,54,55,56,57,43,47]"
  by (simp add: BASE_64_INT_TO_CHAR_def)

lemma url_chars: "BASE_64_URL_INT_TO_CHAR = [65,66,67,68,69,70,71,72,73,74,75,76,77,78,79,80,81,82,83,84,
  85,86,87,88,89,90,97,98,99,100,101,102,103,104,105,106,107,108,109,110,111,112,113,114,115,116,117,118,
  119,120,121,122,48,49,50,51,52,53,54,55,56,57,45,95]"
  by (simp add: BASE_64_URL_INT_TO_CHAR_def)

lemma common_inverse: "map (\<lambda>c. BASE_64_CHAR_TO_INT ! unat c) BASE_64_INT_TO_CHAR = map int [0..<64]"
  unfolding common_chars BASE_64_CHAR_TO_INT_def by (simp add: upt_rec)

lemma url_inverse: "map (\<lambda>c. BASE_64_URL_CHAR_TO_INT ! unat c) BASE_64_URL_INT_TO_CHAR = map int [0..<64]"
  unfolding url_chars BASE_64_URL_CHAR_TO_INT_def by (simp add: upt_rec)

lemma codec_from_tables:
  assumes "map (\<lambda>c. t ! unat c) cs = map int [0..<64]" "\<forall>c \<in> set cs. unat c < 128" "t ! unat PAD < 0"
  shows "base64_codec \<lparr>charToInt = t, intToChar = cs\<rparr>"
proof
  fix i :: nat assume i: "i < 64"
  have len: "length cs = 64" using arg_cong [OF assms(1), of length] by simp
  then have "map (\<lambda>c. t ! unat c) cs ! i = int i" using i by (simp add: assms(1))
  then show "unat (intToChar \<lparr>charToInt = t, intToChar = cs\<rparr> ! i) < 128 \<and>
      charToInt \<lparr>charToInt = t, intToChar = cs\<rparr> ! unat (intToChar \<lparr>charToInt = t, intToChar = cs\<rparr> ! i) = int i"
    using i len assms(2) by simp
qed (simp add: assms(3))

interpretation common: base64_codec BASE64_COMMON
  unfolding BASE64_COMMON_def
  by (rule codec_from_tables [OF common_inverse])
    (simp_all add: common_chars PAD_def BASE_64_CHAR_TO_INT_def)

interpretation url: base64_codec BASE64_URL
  unfolding BASE64_URL_def
  by (rule codec_from_tables [OF url_inverse])
    (simp_all add: url_chars PAD_def BASE_64_URL_CHAR_TO_INT_def)

section \<open>What the decoder accepts\<close>

definition is_digit :: "Base64Codec \<Rightarrow> UINT_8 \<Rightarrow> bool" where
  "is_digit codec c \<longleftrightarrow> unat c < 128 \<and> 0 \<le> charToInt codec ! unat c"

definition padding :: "UINT_8 list \<Rightarrow> nat" where
  "padding s = (if last s = PAD then if s ! (length s - 2) = PAD then 2 else 1 else 0)"

lemma CharToInt_digit: "CharToInt codec c =
    (if is_digit codec c then returnM (charToInt codec ! unat c) else throwM CharToInt_error)"
  by (auto simp: CharToInt_def is_digit_def CHAR_TO_INT_SIZE_def Let_def)

lemma quadruple_induct [consumes 1, case_names Nil Cons]:
  assumes "length ps mod 4 = 0" and "P []"
    and "\<And>a b c d ps. length ps mod 4 = 0 \<Longrightarrow> P ps \<Longrightarrow> P (a # b # c # d # ps)"
  shows "P ps"
  using assms(1)
proof (induction "length ps" arbitrary: ps rule: less_induct)
  case less
  show ?case
  proof (cases "ps = []")
    case False
    with less.prems have "4 \<le> length ps" by (cases "length ps < 4") auto
    then obtain a b c d rs where ps: "ps = a # b # c # d # rs"
      by (auto simp: numeral_eq_Suc Suc_le_length_iff)
    with less.prems have "length rs mod 4 = 0" by (simp add: mod_Suc split: if_splits)
    with less.hyps [of rs] assms(3) show ?thesis by (simp add: ps)
  qed (simp add: assms(2))
qed

lemma Decode_loop_accepts:
  "length ps mod 4 = 0 \<Longrightarrow>
     (if list_all (is_digit codec) ps
      then \<exists>d. Decode_loop codec ps dest = (Inr (), dest @ d) \<and> length d = 3 * (length ps div 4)
      else \<exists>d. Decode_loop codec ps dest = (Inl CharToInt_error, dest @ d))"
proof (induction ps arbitrary: dest rule: quadruple_induct)
  case (Cons p0 p1 p2 p3 ps)
  have l: "length (p0 # p1 # p2 # p3 # ps) div 4 = Suc (length ps div 4)" by (simp add: div_add_self1)
  let ?n = "\<lambda>c. charToInt codec ! unat c"
  have q: "Decode_loop codec (p0 # p1 # p2 # p3 # ps) dest =
      (if is_digit codec p0 \<and> is_digit codec p1 \<and> is_digit codec p2 \<and> is_digit codec p3
       then Decode_loop codec ps (dest @ [word_of_int (push_bit 2 (?n p0) OR drop_bit 4 (?n p1)),
         word_of_int (push_bit 4 (?n p1) OR drop_bit 2 (?n p2)), word_of_int (push_bit 6 (?n p2) OR ?n p3)])
       else (Inl CharToInt_error, dest))" (is "_ = (if _ then Decode_loop codec ps (dest @ ?d) else _)")
    by (simp add: CharToInt_digit bindM_def returnM_def throwM_def Append_int_def)
  show ?case
  proof (cases "is_digit codec p0 \<and> is_digit codec p1 \<and> is_digit codec p2 \<and> is_digit codec p3")
    case True
    have "if list_all (is_digit codec) ps
      then \<exists>d. Decode_loop codec ps (dest @ ?d) = (Inr (), (dest @ ?d) @ d) \<and> length d = 3 * (length ps div 4)
      else \<exists>d. Decode_loop codec ps (dest @ ?d) = (Inl CharToInt_error, (dest @ ?d) @ d)"
      by (rule Cons.IH)
    then show ?thesis using True unfolding q l by (fastforce split: if_splits)
  next
    case False
    then show ?thesis unfolding q by auto
  qed
qed (simp add: mth_simps)

lemma Decode_accepts:
  assumes "s \<noteq> []" "length s mod 4 = 0"
  shows "if list_all (is_digit codec) (take (length s - padding s) s)
      then \<exists>d. Base64_Decode codec s dest = (Inr (), dest @ d) \<and> length d = 3 * (length s div 4) - padding s
      else \<exists>d. Base64_Decode codec s dest = (Inl CharToInt_error, dest @ d)"
proof -
  have "4 \<le> length s" using assms by (cases "length s < 4") auto
  then have "length (drop (length s - 4) s) = 4" by simp
  moreover have "length t = 4 \<Longrightarrow> \<exists>w x y z. t = [w, x, y, z]" for t :: "UINT_8 list"
    by (auto simp: numeral_eq_Suc length_Suc_conv)
  ultimately obtain w x y z where "drop (length s - 4) s = [w, x, y, z]" by blast
  then obtain qs where s: "s = qs @ [w, x, y, z]" by (metis append_take_drop_id)
  have q: "length qs mod 4 = 0" using assms(2) by (simp add: s mod_Suc split: if_splits)
  have l: "length s div 4 = Suc (length qs div 4)" using s by (simp add: div_add_self1)
  have nth: "s ! (length s - 1) = z" "s ! (length s - 2) = y" "last s = z" by (simp_all add: s nth_append)
  note loop = Decode_loop_accepts [OF q, of codec dest]
  show ?thesis
  proof (cases "z = PAD")
    case False
    then have "padding s = 0" "Base64_Decode codec s = Decode_loop codec s"
      using assms nth by (simp_all add: padding_def Base64_Decode_def Let_def bindM_def returnM_def fun_eq_iff
          split: sum.splits prod.splits)
    then show ?thesis using Decode_loop_accepts [OF assms(2), of codec dest] by (simp split: if_splits)
  next
    case True
    have p: "padding s = (if y = PAD then 2 else 1)" using nth True by (simp add: padding_def)
    have dec: "Base64_Decode codec s dest = bindM (Decode_loop codec qs) (\<lambda>_.
         bindM (CharToInt codec w) (\<lambda>a.
         bindM (CharToInt codec x) (\<lambda>b.
         bindM (Append_int (push_bit 2 a OR drop_bit 4 b)) (\<lambda>_.
         if y \<noteq> PAD then
           bindM (CharToInt codec y) (\<lambda>c. Append_int (push_bit 4 b OR drop_bit 2 c))
         else returnM ())))) dest"
      using q True unfolding s by (auto simp: Base64_Decode_def Let_def nth_append intro!: arg_cong2 [where f = bindM] ext fun_cong [where x = dest])
    have digits: "list_all (is_digit codec) (take (length s - padding s) s) \<longleftrightarrow>
        list_all (is_digit codec) qs \<and> is_digit codec w \<and> is_digit codec x \<and> (y \<noteq> PAD \<longrightarrow> is_digit codec y)"
    proof -
      have "take (length s - padding s) s = qs @ (if y = PAD then [w, x] else [w, x, y])"
        unfolding p by (simp add: s)
      then show ?thesis by auto
    qed
    show ?thesis
      using loop unfolding dec digits unfolding l p
      by (auto simp: bindM_def CharToInt_digit returnM_def throwM_def Append_int_def split: if_splits)
  qed
qed

section \<open>Properties\<close>

text \<open>C27. Decoding what was encoded gives the original bytes back, appended to whatever the
  destination buffer held, for every byte string and for both alphabets.\<close>

theorem Base64_roundtrip:
  "Decode (Encode s []) dest = (Inr (), dest @ s) \<and> DecodeUrl (EncodeUrl s []) dest = (Inr (), dest @ s)"
  by (simp add: Decode_def Encode_def DecodeUrl_def EncodeUrl_def common.Decode_Encode url.Decode_Encode)

text \<open>C28. What \<open>Decode\<close> and \<open>DecodeUrl\<close> accept, exactly: a message is accepted when its
  length is a multiple of 4 and all its characters but at most two closing padding characters
  are digits of the alphabet, and then three bytes per group less the padding are appended; a
  wrong length is reported before the buffer is touched, and a bad character keeps what was
  decoded before it.\<close>

theorem Base64_Decode_accepts:
  "\<forall>(codec, dec) \<in> {(BASE64_COMMON, Decode), (BASE64_URL, DecodeUrl)}.
     if s = [] then dec s dest = (Inr (), dest)
     else if length s mod 4 \<noteq> 0 then dec s dest = (Inl Invalid_message_length, dest)
     else if list_all (is_digit codec) (take (length s - padding s) s)
     then \<exists>d. dec s dest = (Inr (), dest @ d) \<and> length d = 3 * (length s div 4) - padding s
     else \<exists>d. dec s dest = (Inl CharToInt_error, dest @ d)"
proof -
  have h: "if s = [] then Base64_Decode codec s dest = (Inr (), dest)
     else if length s mod 4 \<noteq> 0 then Base64_Decode codec s dest = (Inl Invalid_message_length, dest)
     else if list_all (is_digit codec) (take (length s - padding s) s)
     then \<exists>d. Base64_Decode codec s dest = (Inr (), dest @ d) \<and> length d = 3 * (length s div 4) - padding s
     else \<exists>d. Base64_Decode codec s dest = (Inl CharToInt_error, dest @ d)" for codec
  proof -
    have "Base64_Decode codec [] dest = (Inr (), dest)"
      "s \<noteq> [] \<Longrightarrow> length s mod 4 \<noteq> 0 \<Longrightarrow> Base64_Decode codec s dest = (Inl Invalid_message_length, dest)"
      by (simp_all add: Base64_Decode_def returnM_def throwM_def Let_def)
    then show ?thesis using Decode_accepts [of s codec dest] by (cases "s = []"; cases "length s mod 4 = 0") auto
  qed
  show ?thesis
  proof (intro ballI)
    fix p assume "p \<in> {(BASE64_COMMON, Decode), (BASE64_URL, DecodeUrl)}"
    then obtain codec where "p = (codec, Base64_Decode codec)"
      by (auto simp: Decode_def [abs_def] DecodeUrl_def [abs_def])
    then show "case p of (codec, dec) \<Rightarrow>
       if s = [] then dec s dest = (Inr (), dest)
       else if length s mod 4 \<noteq> 0 then dec s dest = (Inl Invalid_message_length, dest)
       else if list_all (is_digit codec) (take (length s - padding s) s)
       then \<exists>d. dec s dest = (Inr (), dest @ d) \<and> length d = 3 * (length s div 4) - padding s
       else \<exists>d. dec s dest = (Inl CharToInt_error, dest @ d)"
      using h [of codec] by simp
  qed
qed

theorem Base64_Decode_accepts_witness:
  "(\<exists>d. Decode [84, 81, 61, 61] [7] = (Inr (), 7 # d) \<and> length d = 1) \<and>
   Decode [84, 87] [7] = (Inl Invalid_message_length, [7])"
proof -
  have "unat c < 128 \<Longrightarrow> is_digit BASE64_COMMON c \<longleftrightarrow> 0 \<le> BASE_64_CHAR_TO_INT ! unat c" for c
    by (simp add: is_digit_def BASE64_COMMON_def)
  then have "is_digit BASE64_COMMON 84" "is_digit BASE64_COMMON 81"
    by (simp_all add: BASE_64_CHAR_TO_INT_def)
  then show ?thesis
    using Base64_Decode_accepts [of "[84, 81, 61, 61]" "[7]"] Base64_Decode_accepts [of "[84, 87]" "[7]"]
    by (simp add: padding_def PAD_def)
qed

end
