(* ===== verification/Algorithm.thy ===== *)
theory Algorithm
  imports Xtl_Prelude "HOL-Library.Product_Lexorder"
begin

text \<open>
  \<^verbatim>\<open>utils/Algorithm.hpp\<close>: minimum and maximum, exponentiation by squaring over any type
  with a multiplication, and the lexicographic comparison of up to four pairs of keys.
\<close>

definition MinOf :: "'a::linorder \<Rightarrow> 'a \<Rightarrow> 'a" where
  "MinOf x y = (if x < y then x else y)"

definition MaxOf :: "'a::linorder \<Rightarrow> 'a \<Rightarrow> 'a" where
  "MaxOf x y = (if x < y then y else x)"

text \<open>The multiplication of the type is an argument: doubles do not form a monoid.\<close>

function Pow_loop :: "('a \<Rightarrow> 'a \<Rightarrow> 'a) \<Rightarrow> 'a \<Rightarrow> nat \<Rightarrow> 'a \<Rightarrow> 'a" where
  "Pow_loop mul x n result =
     (if n \<noteq> 0
      then if n mod 2 = 0 then Pow_loop mul (mul x x) (n div 2) result
           else Pow_loop mul x (n - 1) (mul result x)
      else result)"
  by pat_completeness auto
termination by (relation "measure (\<lambda>(mul, x, n, r). n)") auto

declare Pow_loop.simps [simp del]

definition Pow :: "('a \<Rightarrow> 'a \<Rightarrow> 'a) \<Rightarrow> 'a \<Rightarrow> 'a \<Rightarrow> nat \<Rightarrow> 'a" where
  "Pow mul one x n = Pow_loop mul x n one"

definition CascadeCompare1 :: "'a::linorder \<Rightarrow> 'a \<Rightarrow> bool" where
  "CascadeCompare1 a a' \<longleftrightarrow> a < a'"

definition CascadeCompare2 :: "'a::linorder \<Rightarrow> 'a \<Rightarrow> 'b::linorder \<Rightarrow> 'b \<Rightarrow> bool" where
  "CascadeCompare2 a a' b b' =
     (if CascadeCompare1 a a' then True else if CascadeCompare1 a' a then False else CascadeCompare1 b b')"

definition CascadeCompare3 ::
    "'a::linorder \<Rightarrow> 'a \<Rightarrow> 'b::linorder \<Rightarrow> 'b \<Rightarrow> 'c::linorder \<Rightarrow> 'c \<Rightarrow> bool" where
  "CascadeCompare3 a a' b b' c c' =
     (if CascadeCompare1 a a' then True else if CascadeCompare1 a' a then False else CascadeCompare2 b b' c c')"

definition CascadeCompare4 ::
    "'a::linorder \<Rightarrow> 'a \<Rightarrow> 'b::linorder \<Rightarrow> 'b \<Rightarrow> 'c::linorder \<Rightarrow> 'c \<Rightarrow> 'd::linorder \<Rightarrow> 'd \<Rightarrow> bool" where
  "CascadeCompare4 a a' b b' c c' d d' =
     (if CascadeCompare1 a a' then True else if CascadeCompare1 a' a then False
      else CascadeCompare3 b b' c c' d d')"

lemma MinOf_min: "MinOf x y = min x y"
  by (auto simp: MinOf_def min_def)

lemma MaxOf_max: "MaxOf x y = max x y"
  by (auto simp: MaxOf_def max_def)

text \<open>In a monoid the loop computes the power; it takes at most two steps for every bit of \<open>n\<close>.\<close>

lemma Pow_loop_power: "Pow_loop (*) x n r = r * x ^ n" for x r :: "'a::comm_monoid_mult"
proof (induction "(*) :: 'a \<Rightarrow> 'a \<Rightarrow> 'a" x n r rule: Pow_loop.induct)
  case (1 x n r)
  show ?case
  proof (cases "n = 0")
    case False
    note nz = False
    show ?thesis
    proof (cases "n mod 2 = 0")
      case True
      then have "2 * (n div 2) = n" using mult_div_mod_eq [of 2 n] by simp
      then have "x ^ n = x ^ (2 * (n div 2))" by simp
      then have "x ^ n = (x * x) ^ (n div 2)" by (simp only: power_mult power2_eq_square)
      then show ?thesis using 1(1) [OF nz True] nz True by (subst Pow_loop.simps) simp
    next
      case False
      then show ?thesis using 1(2) [OF nz False] nz
        by (subst Pow_loop.simps) (cases n, simp_all add: mult.assoc)
    qed
  qed (simp add: Pow_loop.simps)
qed

lemma Pow_power: "Pow (*) 1 x n = x ^ n" for x :: "'a::comm_monoid_mult"
  by (simp add: Pow_def Pow_loop_power)

lemma CascadeCompare_lex:
  "CascadeCompare4 a a' b b' c c' d d' \<longleftrightarrow> (a, b, c, d) < (a', b', c', d')"
  "CascadeCompare3 a a' b b' c c' \<longleftrightarrow> (a, b, c) < (a', b', c')"
  "CascadeCompare2 a a' b b' \<longleftrightarrow> (a, b) < (a', b')"
  by (auto simp: CascadeCompare1_def CascadeCompare2_def CascadeCompare3_def CascadeCompare4_def)

end
