(* ===== verification/Calendar.thy ===== *)
theory Calendar
  imports Algorithm
begin

text \<open>
  \<^verbatim>\<open>utils/Date.hpp\<close> and \<^verbatim>\<open>utils/Date.cpp\<close>: the proleptic Gregorian calendar. C++ \<^verbatim>\<open>int\<close>
  is modelled by \<^typ>\<open>int\<close> with truncating division (\<open>sdiv\<close>, \<open>smod\<close>). \<open>AddDays\<close> and
  \<open>SubDays\<close> test every result against the 32 bits of \<^verbatim>\<open>int\<close>, and one outside them, which is undefined in C++,
  is the error \<open>INT_OVERFLOW\<close>; their loops are partial functions, \<open>None\<close> meaning that the loop does
  not return. The operations on months, years and day indices are on unbounded integers. \<open>Date::Today\<close> reads the clock and is not modelled.
\<close>

section \<open>The class\<close>

record Date =
  year :: int
  month :: int
  day :: int

datatype date_error = ILLEGAL_ARGUMENT_ERROR | INT_OVERFLOW

text \<open>The values of \<^verbatim>\<open>int\<close>\<close>

definition is_int :: "int \<Rightarrow> bool" where "is_int x \<longleftrightarrow> - (2 ^ 31) \<le> x \<and> x < 2 ^ 31"

definition MONTHES_IN_YEAR :: int where "MONTHES_IN_YEAR = 12"
definition DAYS_IN_YEAR :: int where "DAYS_IN_YEAR = 365"
definition DAYS_IN_4_YEARS :: int where "DAYS_IN_4_YEARS = 4 * DAYS_IN_YEAR + 1"
definition DAYS_IN_100_YEARS :: int where "DAYS_IN_100_YEARS = 25 * DAYS_IN_4_YEARS - 1"
definition DAYS_IN_400_YEARS :: int where "DAYS_IN_400_YEARS = 4 * DAYS_IN_100_YEARS + 1"

named_theorems date_consts \<open>the numeric constants of Date\<close>

lemmas date_constants [date_consts] = MONTHES_IN_YEAR_def DAYS_IN_YEAR_def DAYS_IN_4_YEARS_def
  DAYS_IN_100_YEARS_def DAYS_IN_400_YEARS_def

definition IsLeapYear :: "int \<Rightarrow> int" where
  "IsLeapYear y = (if y smod 4 = 0 \<and> (y smod 100 \<noteq> 0 \<or> y smod 400 = 0) then 1 else 0)"

definition DAYS_IN_MONTH :: "int list list" where
  "DAYS_IN_MONTH = [
    [0, 31, 28, 31, 30, 31, 30, 31, 31, 30, 31, 30, 31],
    [0, 31, 29, 31, 30, 31, 30, 31, 31, 30, 31, 30, 31]]"

text \<open>The class calls it with months 1 to 12 only; the table has the entries 0 to 12.\<close>

definition DaysInMonth :: "int \<Rightarrow> int \<Rightarrow> int" where
  "DaysInMonth y m = DAYS_IN_MONTH ! nat (IsLeapYear y) ! nat m"

definition DaysInYear :: "int \<Rightarrow> int" where
  "DaysInYear y = DAYS_IN_YEAR + IsLeapYear y"

definition IsValid :: "int \<Rightarrow> int \<Rightarrow> int \<Rightarrow> bool" where
  "IsValid y m d \<longleftrightarrow> m \<ge> 1 \<and> m \<le> MONTHES_IN_YEAR \<and> d \<ge> 1 \<and> d \<le> DaysInMonth y m"

definition Date_IsValid :: "Date \<Rightarrow> bool" where
  "Date_IsValid d \<longleftrightarrow> IsValid (year d) (month d) (day d)"

definition Date_new :: "int \<Rightarrow> int \<Rightarrow> int \<Rightarrow> date_error + Date" where
  "Date_new y m d =
     (if \<not> IsValid y m d then Inl ILLEGAL_ARGUMENT_ERROR
      else Inr \<lparr>year = y, month = m, day = d\<rparr>)"

definition Date_eq :: "Date \<Rightarrow> Date \<Rightarrow> bool" where
  "Date_eq a b \<longleftrightarrow> year a = year b \<and> month a = month b \<and> day a = day b"

definition Date_less :: "Date \<Rightarrow> Date \<Rightarrow> bool" where
  "Date_less a b =
     (if year a < year b then True
      else if year a = year b then
        if month a < month b then True
        else if month a = month b then day a < day b
        else False
      else False)"

definition Date_neq :: "Date \<Rightarrow> Date \<Rightarrow> bool" where
  "Date_neq a b \<longleftrightarrow> \<not> Date_eq a b"

definition Date_greater :: "Date \<Rightarrow> Date \<Rightarrow> bool" where
  "Date_greater a b \<longleftrightarrow> Date_less b a"

definition Date_le :: "Date \<Rightarrow> Date \<Rightarrow> bool" where
  "Date_le a b \<longleftrightarrow> \<not> Date_less b a"

definition Date_ge :: "Date \<Rightarrow> Date \<Rightarrow> bool" where
  "Date_ge a b \<longleftrightarrow> \<not> Date_less a b"

section \<open>Day arithmetic\<close>

text \<open>In the loops only the year can leave the bounds: the day moves towards those of a month.\<close>

partial_function (option) AddDays_loop :: "Date \<Rightarrow> (date_error + Date) option" where
  "AddDays_loop d =
     (let dim = DaysInMonth (year d) (month d) in
      if day d > dim then
        if month d + 1 > MONTHES_IN_YEAR
        then if is_int (year d + 1) then AddDays_loop \<lparr>year = year d + 1, month = 1, day = day d - dim\<rparr>
             else Some (Inl INT_OVERFLOW)
        else AddDays_loop \<lparr>year = year d, month = month d + 1, day = day d - dim\<rparr>
      else Some (Inr d))"

partial_function (option) SubDays_loop :: "Date \<Rightarrow> (date_error + Date) option" where
  "SubDays_loop d =
     (if day d < 1 then
        let (y, m) = (if month d - 1 < 1 then (year d - 1, MONTHES_IN_YEAR) else (year d, month d - 1))
        in if is_int y then SubDays_loop \<lparr>year = y, month = m, day = day d + DaysInMonth y m\<rparr>
           else Some (Inl INT_OVERFLOW)
      else Some (Inr d))"

definition AddDays_body :: "int \<Rightarrow> Date \<Rightarrow> (date_error + Date) option" where
  "AddDays_body count d =
     (if is_int (day d + count) then AddDays_loop (d\<lparr>day := day d + count\<rparr>) else Some (Inl INT_OVERFLOW))"

definition SubDays_body :: "int \<Rightarrow> Date \<Rightarrow> (date_error + Date) option" where
  "SubDays_body count d =
     (if is_int (day d - count) then SubDays_loop (d\<lparr>day := day d - count\<rparr>) else Some (Inl INT_OVERFLOW))"

text \<open>A negative count calls the opposite method with the positive one, which the least \<^verbatim>\<open>int\<close> does not have.\<close>

definition AddDays :: "int \<Rightarrow> Date \<Rightarrow> (date_error + Date) option" where
  "AddDays count d =
     (if count < 0 then if is_int (- count) then SubDays_body (- count) d else Some (Inl INT_OVERFLOW)
      else AddDays_body count d)"

definition SubDays :: "int \<Rightarrow> Date \<Rightarrow> (date_error + Date) option" where
  "SubDays count d =
     (if count < 0 then if is_int (- count) then AddDays_body (- count) d else Some (Inl INT_OVERFLOW)
      else SubDays_body count d)"

definition IncDay :: "Date \<Rightarrow> (date_error + Date) option" where "IncDay d = AddDays 1 d"
definition DecDay :: "Date \<Rightarrow> (date_error + Date) option" where "DecDay d = SubDays 1 d"

section \<open>Month and year arithmetic\<close>

definition clip_day :: "Date \<Rightarrow> Date" where
  "clip_day d = d\<lparr>day := MinOf (day d) (DaysInMonth (year d) (month d))\<rparr>"

definition AddMonthes_body :: "int \<Rightarrow> Date \<Rightarrow> Date" where
  "AddMonthes_body count d =
     (let d = d\<lparr>month := month d + count\<rparr>;
          d = (if month d > MONTHES_IN_YEAR
               then d\<lparr>year := year d + (month d - 1) sdiv MONTHES_IN_YEAR,
                      month := (month d - 1) smod MONTHES_IN_YEAR + 1\<rparr>
               else d)
      in clip_day d)"

definition SubMonthes_body :: "int \<Rightarrow> Date \<Rightarrow> Date" where
  "SubMonthes_body count d =
     (let d = d\<lparr>month := month d - count\<rparr>;
          d = (if month d < 1
               then d\<lparr>year := year d - (MONTHES_IN_YEAR - month d) sdiv MONTHES_IN_YEAR,
                      month := MONTHES_IN_YEAR - (- month d) smod MONTHES_IN_YEAR\<rparr>
               else d)
      in clip_day d)"

definition AddMonthes :: "int \<Rightarrow> Date \<Rightarrow> Date" where
  "AddMonthes count d = (if count < 0 then SubMonthes_body (- count) d else AddMonthes_body count d)"

definition SubMonthes :: "int \<Rightarrow> Date \<Rightarrow> Date" where
  "SubMonthes count d = (if count < 0 then AddMonthes_body (- count) d else SubMonthes_body count d)"

definition IncMonth :: "Date \<Rightarrow> Date" where "IncMonth d = AddMonthes 1 d"
definition DecMonth :: "Date \<Rightarrow> Date" where "DecMonth d = SubMonthes 1 d"

definition AddYears_body :: "int \<Rightarrow> Date \<Rightarrow> Date" where
  "AddYears_body count d = clip_day (d\<lparr>year := year d + count\<rparr>)"

definition SubYears_body :: "int \<Rightarrow> Date \<Rightarrow> Date" where
  "SubYears_body count d = clip_day (d\<lparr>year := year d - count\<rparr>)"

definition AddYears :: "int \<Rightarrow> Date \<Rightarrow> Date" where
  "AddYears count d = (if count < 0 then SubYears_body (- count) d else AddYears_body count d)"

definition SubYears :: "int \<Rightarrow> Date \<Rightarrow> Date" where
  "SubYears count d = (if count < 0 then AddYears_body (- count) d else SubYears_body count d)"

definition IncYear :: "Date \<Rightarrow> Date" where "IncYear d = AddYears 1 d"
definition DecYear :: "Date \<Rightarrow> Date" where "DecYear d = SubYears 1 d"

section \<open>Day indices\<close>

definition DAYS_BEFORE :: "int list list" where
  "DAYS_BEFORE = [
    [-1, 0, 31, 59, 90, 120, 151, 181, 212, 243, 273, 304, 334],
    [-1, 0, 31, 60, 91, 121, 152, 182, 213, 244, 274, 305, 335]]"

definition DayOfYear :: "int \<Rightarrow> int \<Rightarrow> int \<Rightarrow> int" where
  "DayOfYear y m d = DAYS_BEFORE ! nat (IsLeapYear y) ! nat m + d - 1"

definition DAYS_FROM_YEAR_BEGIN :: "int list list" where
  "DAYS_FROM_YEAR_BEGIN = [
    [0, 31, 59, 90, 120, 151, 181, 212, 243, 273, 304, 334, 365],
    [0, 31, 60, 91, 121, 152, 182, 213, 244, 274, 305, 335, 366]]"

text \<open>The \<^verbatim>\<open>for\<close> loop over the months; \<open>d\<close> is the \<^verbatim>\<open>day\<close> reference on entry.\<close>

fun FromDayOfYear_loop :: "int list \<Rightarrow> int \<Rightarrow> int list \<Rightarrow> int \<Rightarrow> int \<times> int" where
  "FromDayOfYear_loop DFYB dayOfYear [] d = (MONTHES_IN_YEAR + 1, d)"
| "FromDayOfYear_loop DFYB dayOfYear (m # ms) d =
     (if dayOfYear < DFYB ! nat m then (m, dayOfYear + 1 - DFYB ! nat (m - 1))
      else FromDayOfYear_loop DFYB dayOfYear ms d)"

definition FromDayOfYear :: "int \<Rightarrow> int \<Rightarrow> int \<Rightarrow> date_error + int \<times> int" where
  "FromDayOfYear y dayOfYear d =
     (let DFYB = DAYS_FROM_YEAR_BEGIN ! nat (IsLeapYear y) in
      if dayOfYear < 0 \<or> dayOfYear \<ge> DFYB ! nat MONTHES_IN_YEAR then Inl ILLEGAL_ARGUMENT_ERROR
      else Inr (FromDayOfYear_loop DFYB dayOfYear [1..MONTHES_IN_YEAR] d))"

definition ToDayIndex :: "Date \<Rightarrow> int" where
  "ToDayIndex d =
     (let index = ((year d - 1) sdiv 400) * DAYS_IN_400_YEARS;
          y = (year d - 1) smod 400;
          index = index + (y * DAYS_IN_YEAR + (y sdiv 4) - (y sdiv 100))
      in index + DayOfYear (year d) (month d) (day d))"

definition FromDayIndex :: "int \<Rightarrow> Date \<Rightarrow> date_error + Date" where
  "FromDayIndex dayIndex this =
     (let y400 = dayIndex sdiv DAYS_IN_400_YEARS;
          d = dayIndex smod DAYS_IN_400_YEARS;
          y100 = MinOf (d sdiv DAYS_IN_100_YEARS) 3;
          d = d - y100 * DAYS_IN_100_YEARS;
          y4 = d sdiv DAYS_IN_4_YEARS;
          d = d smod DAYS_IN_4_YEARS;
          y1 = MinOf (d sdiv DAYS_IN_YEAR) 3;
          d = d - y1 * DAYS_IN_YEAR;
          y = 400 * y400 + 100 * y100 + 4 * y4 + y1 + 1
      in case FromDayOfYear y d (day this) of
           Inl e \<Rightarrow> Inl e
         | Inr (m, dd) \<Rightarrow> Inr \<lparr>year = y, month = m, day = dd\<rparr>)"

definition Date_of_index :: "int \<Rightarrow> date_error + Date" where
  "Date_of_index dayIndex = FromDayIndex dayIndex \<lparr>year = 0, month = 0, day = 0\<rparr>"

definition Date_diff :: "Date \<Rightarrow> Date \<Rightarrow> int" where
  "Date_diff dateTo dateFrom = ToDayIndex dateTo - ToDayIndex dateFrom"

section \<open>Leap years and month tables\<close>

lemma sdiv_nonneg: "0 \<le> a \<Longrightarrow> 0 < b \<Longrightarrow> a sdiv b = a div b" for a b :: int
  by (cases "a = 0") (simp_all add: signed_divide_int_def)

lemma smod_nonneg: "0 \<le> a \<Longrightarrow> 0 < b \<Longrightarrow> a smod b = a mod b" for a b :: int
  by (cases "a = 0") (simp_all add: signed_modulo_int_def)

lemma smod_eq_0_iff: "0 < b \<Longrightarrow> a smod b = 0 \<longleftrightarrow> a mod b = 0" for a b :: int
  by (auto simp: signed_modulo_int_def sgn_0_0 abs_if mod_eq_0_iff_dvd)

lemma IsLeapYear_iff: "IsLeapYear y = (if 4 dvd y \<and> (\<not> 100 dvd y \<or> 400 dvd y) then 1 else 0)"
  by (simp add: IsLeapYear_def smod_eq_0_iff dvd_eq_mod_eq_0)

lemma IsLeapYear_cases: obtains "IsLeapYear y = 0" | "IsLeapYear y = 1"
  by (meson IsLeapYear_def)

lemma month_cases:
  assumes "1 \<le> m" "m \<le> 12"
  obtains "m = 1" | "m = 2" | "m = 3" | "m = 4" | "m = 5" | "m = 6" | "m = 7" | "m = 8" | "m = 9"
    | "m = 10" | "m = 11" | "m = (12::int)"
proof -
  have "m = 1 \<or> m = 2 \<or> m = 3 \<or> m = 4 \<or> m = 5 \<or> m = 6 \<or> m = 7 \<or> m = 8 \<or> m = 9 \<or> m = 10 \<or> m = 11 \<or> m = 12"
    using assms by presburger
  then show ?thesis using that by blast
qed

named_theorems month_tables \<open>the tables indexed by month\<close>

lemmas tables [month_tables] = DAYS_IN_MONTH_def DAYS_BEFORE_def DAYS_FROM_YEAR_BEGIN_def

lemma DaysInMonth_bounds: "1 \<le> m \<Longrightarrow> m \<le> 12 \<Longrightarrow> 28 \<le> DaysInMonth y m \<and> DaysInMonth y m \<le> 31"
  by (cases rule: IsLeapYear_cases [of y]; erule (1) month_cases)
    (simp_all add: DaysInMonth_def month_tables)

lemma DaysInMonth_December: "DaysInMonth y 12 = 31"
  by (cases rule: IsLeapYear_cases [of y]) (simp_all add: DaysInMonth_def month_tables)

text \<open>The day of the year of the first of the next month is this month's length further.\<close>

lemma DayOfYear_next: "1 \<le> m \<Longrightarrow> m < 12 \<Longrightarrow> DayOfYear y (m + 1) d = DayOfYear y m d + DaysInMonth y m"
proof -
  assume "1 \<le> m" "m < 12"
  then have "1 \<le> m" "m \<le> 12" by auto
  then show ?thesis using \<open>m < 12\<close>
    by (cases rule: IsLeapYear_cases [of y]; elim month_cases [of m])
      (simp_all add: DaysInMonth_def DayOfYear_def month_tables)
qed

lemma DayOfYear_1: "DayOfYear y 1 d = d - 1"
  by (cases rule: IsLeapYear_cases [of y]) (simp_all add: DayOfYear_def month_tables)

lemma DayOfYear_12: "DayOfYear y 12 d = d + 333 + IsLeapYear y"
  by (cases rule: IsLeapYear_cases [of y]) (simp_all add: DayOfYear_def month_tables)

lemma DayOfYear_shift: "DayOfYear y m (d + k) = DayOfYear y m d + k"
  by (simp add: DayOfYear_def)

lemma DayOfYear_bounds:
  assumes "IsValid y m d"
  shows "0 \<le> DayOfYear y m d \<and> DayOfYear y m d < 365 + IsLeapYear y"
proof -
  have "1 \<le> m" "m \<le> 12" using assms by (auto simp: IsValid_def date_consts)
  then show ?thesis using assms
    by (cases rule: IsLeapYear_cases [of y]; elim month_cases [of m])
      (simp_all add: IsValid_def DaysInMonth_def DayOfYear_def month_tables)
qed

section \<open>The number of a day\<close>

text \<open>The abstract calendar: days since 0001-01-01 in the proleptic Gregorian calendar, for any
  year, with flooring division.\<close>

definition days_before_year :: "int \<Rightarrow> int" where
  "days_before_year y = 365 * (y - 1) + (y - 1) div 4 - (y - 1) div 100 + (y - 1) div 400"

definition day_number :: "Date \<Rightarrow> int" where
  "day_number d = days_before_year (year d) + DayOfYear (year d) (month d) (day d)"

lemma div_pred: "1 < n \<Longrightarrow> (y - 1) div n = (if n dvd y then y div n - 1 else y div n)" for y n :: int
proof -
  assume n: "1 < n"
  have "y - 1 = (y mod n - 1) + y div n * n" by simp
  then have "(y - 1) div n = ((y mod n - 1) + y div n * n) div n" by (rule arg_cong)
  then have d: "(y - 1) div n = y div n + (y mod n - 1) div n"
    using n by (subst (asm) div_mult_self1) auto
  have m: "0 \<le> y mod n" "y mod n < n" using n by simp_all
  show ?thesis
  proof (cases "y mod n = 0")
    case True
    then show ?thesis using n d by (simp add: zdiv_zminus1_eq_if dvd_eq_mod_eq_0)
  next
    case False
    then have "(y mod n - 1) div n = 0" using m by (intro div_pos_pos_trivial) auto
    then show ?thesis using False d by (simp add: dvd_eq_mod_eq_0)
  qed
qed

lemma days_before_year_Suc: "days_before_year (y + 1) = days_before_year y + 365 + IsLeapYear y"
proof -
  have "100 dvd y \<Longrightarrow> 4 dvd y" "400 dvd y \<Longrightarrow> 100 dvd y"
    using dvd_trans [of 4 100 y] dvd_trans [of 100 400 y] by simp_all
  then show ?thesis by (simp add: days_before_year_def div_pred IsLeapYear_iff)
qed

lemma days_before_year_mono: "y < z \<Longrightarrow> days_before_year y + 365 + IsLeapYear y \<le> days_before_year z"
proof (induction "nat (z - y)" arbitrary: z)
  case (Suc n)
  show ?case
  proof (cases "z = y + 1")
    case False
    have "days_before_year y + 365 + IsLeapYear y \<le> days_before_year (z - 1)"
      using Suc False by (intro Suc.hyps(1)) auto
    moreover have "0 \<le> IsLeapYear (z - 1)" by (simp add: IsLeapYear_def)
    ultimately show ?thesis using days_before_year_Suc [of "z - 1"] by simp
  qed (simp add: days_before_year_Suc)
qed simp

lemma div_mult_split: "0 < n \<Longrightarrow> y div n = k * (y div (n * k)) + (y mod (n * k)) div n"
  for y n k :: int
proof -
  assume n: "0 < n"
  have "y = (y mod (n * k)) + (k * (y div (n * k))) * n"
    using mult_div_mod_eq [of "n * k" y] by (simp add: algebra_simps)
  then show ?thesis using n div_mult_self1 [of n "y mod (n * k)" "k * (y div (n * k))"] by simp
qed

lemma ToDayIndex_day_number:
  assumes "1 \<le> year d"
  shows "ToDayIndex d = day_number d"
proof -
  define y where "y = year d - 1"
  have y: "0 \<le> y" using assms by (simp add: y_def)
  have e: "y = 400 * (y div 400) + y mod 400" by simp
  have d: "y div 4 = 100 * (y div 400) + (y mod 400) div 4"
    "y div 100 = 4 * (y div 400) + (y mod 400) div 100"
    using div_mult_split [of 4 y 100] div_mult_split [of 100 y 4] by simp_all
  have "ToDayIndex d = y div 400 * 146097 + (y mod 400 * 365 + y mod 400 div 4 - y mod 400 div 100)
     + DayOfYear (year d) (month d) (day d)"
    using y by (simp add: ToDayIndex_def sdiv_nonneg smod_nonneg date_consts Let_def flip: y_def)
  moreover have "day_number d = 365 * y + y div 4 - y div 100 + y div 400
     + DayOfYear (year d) (month d) (day d)"
    by (simp add: day_number_def days_before_year_def y_def)
  ultimately show ?thesis using e d by linarith
qed

section \<open>Order\<close>

lemma DayOfYear_mono:
  assumes "IsValid y m d" "IsValid y m' d'" "m < m'"
  shows "DayOfYear y m d < DayOfYear y m' d'"
proof -
  have step: "DayOfYear y m 1 + DaysInMonth y m \<le> DayOfYear y m' 1"
    if "1 \<le> m" "m < m'" "m' \<le> 12" for m m'
    using that(2,3)
  proof (induction "nat (m' - m)" arbitrary: m')
    case (Suc n)
    show ?case
    proof (cases "m' = m + 1")
      case True
      then show ?thesis using that(1) Suc.prems by (simp add: DayOfYear_next)
    next
      case False
      have "DayOfYear y m 1 + DaysInMonth y m \<le> DayOfYear y (m' - 1) 1"
        using Suc False by (intro Suc.hyps(1)) auto
      moreover have "0 \<le> DaysInMonth y (m' - 1)"
        using DaysInMonth_bounds [of "m' - 1" y] Suc.prems that(1) by auto
      ultimately show ?thesis using DayOfYear_next [of "m' - 1" y 1] Suc.prems that(1) by simp
    qed
  qed simp
  show ?thesis
    using step [of m m'] assms by (auto simp: IsValid_def DayOfYear_def date_consts)
qed

lemma day_number_less:
  assumes "Date_IsValid a" "Date_IsValid b" "Date_less a b"
  shows "day_number a < day_number b"
proof (cases "year a < year b")
  case True
  then show ?thesis
    using days_before_year_mono [OF True] DayOfYear_bounds [of "year a" "month a" "day a"]
      DayOfYear_bounds [of "year b" "month b" "day b"] assms
    by (simp add: day_number_def Date_IsValid_def)
next
  case False
  then have y: "year a = year b" using assms(3) by (auto simp: Date_less_def split: if_splits)
  show ?thesis
  proof (cases "month a < month b")
    case True
    then show ?thesis using DayOfYear_mono assms y by (simp add: day_number_def Date_IsValid_def)
  next
    case False
    then have "month a = month b" "day a < day b"
      using assms(3) y by (auto simp: Date_less_def split: if_splits)
    then show ?thesis using y by (simp add: day_number_def DayOfYear_def)
  qed
qed

lemma Date_trichotomy: "Date_less a b \<or> a = b \<or> Date_less b a"
  by (cases a; cases b) (auto simp: Date_less_def)

lemma day_number_less_iff:
  "Date_IsValid a \<Longrightarrow> Date_IsValid b \<Longrightarrow> Date_less a b \<longleftrightarrow> day_number a < day_number b"
  using day_number_less [of a b] day_number_less [of b a] Date_trichotomy [of a b] by fastforce

lemma day_number_inj:
  "Date_IsValid a \<Longrightarrow> Date_IsValid b \<Longrightarrow> day_number a = day_number b \<Longrightarrow> a = b"
  using day_number_less [of a b] day_number_less [of b a] Date_trichotomy [of a b] by fastforce

section \<open>Counting days\<close>

lemma day_number_next_month:
  assumes "1 \<le> m" "m \<le> 12"
  shows "day_number (if m + 1 > MONTHES_IN_YEAR then \<lparr>year = y + 1, month = 1, day = dd - DaysInMonth y m\<rparr>
            else \<lparr>year = y, month = m + 1, day = dd - DaysInMonth y m\<rparr>)
       = day_number \<lparr>year = y, month = m, day = dd\<rparr>"
proof (cases "m = 12")
  case True
  then show ?thesis
    by (simp add: day_number_def days_before_year_Suc DaysInMonth_December DayOfYear_1 DayOfYear_12 date_consts)
next
  case False
  then show ?thesis
    using assms DayOfYear_next [of m y "dd - DaysInMonth y m"] DayOfYear_shift [of y m dd "- DaysInMonth y m"]
    by (simp add: day_number_def date_consts)
qed

lemma AddDays_loop_total:
  "1 \<le> month d \<Longrightarrow> month d \<le> 12 \<Longrightarrow> 1 \<le> day d \<Longrightarrow>
     \<exists>u. Date_IsValid u \<and> day_number u = day_number d \<and> year d \<le> year u \<and>
       (is_int (year d) \<longrightarrow> AddDays_loop d = Some (if is_int (year u) then Inr u else Inl INT_OVERFLOW))"
proof (induction "nat (day d)" arbitrary: d rule: less_induct)
  case less
  obtain y m dd where d: "d = \<lparr>year = y, month = m, day = dd\<rparr>" by (cases d)
  show ?case
  proof (cases "dd > DaysInMonth y m")
    case True
    let ?n = "if m + 1 > MONTHES_IN_YEAR then \<lparr>year = y + 1, month = 1, day = dd - DaysInMonth y m\<rparr>
        else \<lparr>year = y, month = m + 1, day = dd - DaysInMonth y m\<rparr>"
    have "28 \<le> DaysInMonth y m" using DaysInMonth_bounds [of m y] less.prems by (simp add: d)
    then have n: "1 \<le> month ?n" "month ?n \<le> 12" "1 \<le> day ?n" "nat (day ?n) < nat (day d)"
      using less.prems True by (auto simp: d date_consts)
    obtain u where u: "Date_IsValid u" "day_number u = day_number ?n" "year ?n \<le> year u"
      "is_int (year ?n) \<longrightarrow> AddDays_loop ?n = Some (if is_int (year u) then Inr u else Inl INT_OVERFLOW)"
      using less.hyps [OF n(4) n(1-3)] by blast
    have num: "day_number u = day_number d" using u(2) day_number_next_month [of m y dd] less.prems by (simp add: d)
    have yr: "year d \<le> year u" using u(3) by (simp add: d split: if_splits)
    have "AddDays_loop d = Some (if is_int (year u) then Inr u else Inl INT_OVERFLOW)" if i: "is_int (year d)"
    proof (cases "is_int (year ?n)")
      case fits: True
      then have "AddDays_loop d = AddDays_loop ?n"
        using True by (subst AddDays_loop.simps) (cases "m + 1 > MONTHES_IN_YEAR"; simp add: d Let_def)
      then show ?thesis using u(4) fits by simp
    next
      case False
      then have m: "m + 1 > MONTHES_IN_YEAR" "\<not> is_int (y + 1)" using i by (auto simp: d split: if_splits)
      then have "AddDays_loop d = Some (Inl INT_OVERFLOW)"
        using True by (subst AddDays_loop.simps) (simp add: d Let_def)
      moreover have "\<not> is_int (year u)" using u(3) m i by (auto simp: d is_int_def)
      ultimately show ?thesis by simp
    qed
    then show ?thesis using u(1) num yr by blast
  next
    case False
    then have "AddDays_loop d = Some (Inr d)" by (subst AddDays_loop.simps) (simp add: d)
    moreover have "Date_IsValid d" using False less.prems by (simp add: d Date_IsValid_def IsValid_def date_consts)
    ultimately show ?thesis by (intro exI [of _ d]) simp
  qed
qed

lemma SubDays_loop_total:
  "1 \<le> month d \<Longrightarrow> month d \<le> 12 \<Longrightarrow> day d \<le> DaysInMonth (year d) (month d) \<Longrightarrow>
     \<exists>u. Date_IsValid u \<and> day_number u = day_number d \<and> year u \<le> year d \<and>
       (is_int (year d) \<longrightarrow> SubDays_loop d = Some (if is_int (year u) then Inr u else Inl INT_OVERFLOW))"
proof (induction "nat (1 - day d)" arbitrary: d rule: less_induct)
  case less
  obtain y m dd where d: "d = \<lparr>year = y, month = m, day = dd\<rparr>" by (cases d)
  show ?case
  proof (cases "dd < 1")
    case True
    define y' m' where "y' = (if m - 1 < 1 then y - 1 else y)" and "m' = (if m - 1 < 1 then 12 else m - 1)"
    have m': "1 \<le> m'" "m' \<le> 12" using less.prems by (auto simp: m'_def d)
    let ?n = "\<lparr>year = y', month = m', day = dd + DaysInMonth y' m'\<rparr>"
    have "28 \<le> DaysInMonth y' m'" using DaysInMonth_bounds [OF m'] by simp
    then obtain u where u: "Date_IsValid u" "day_number u = day_number ?n" "year u \<le> y'"
      "is_int y' \<longrightarrow> SubDays_loop ?n = Some (if is_int (year u) then Inr u else Inl INT_OVERFLOW)"
      using True m' less.hyps [of ?n] by (auto simp: d)
    have num: "day_number ?n = day_number d"
      using day_number_next_month [OF m', of y' "dd + DaysInMonth y' m'"] less.prems
      by (cases "m = 1") (auto simp: d y'_def m'_def date_consts split: if_splits)
    have yr: "year u \<le> year d" using u(3) by (simp add: d y'_def split: if_splits)
    have step: "SubDays_loop d = (if is_int y' then SubDays_loop ?n else Some (Inl INT_OVERFLOW))" using True
      by (subst SubDays_loop.simps) (simp add: d y'_def m'_def date_consts)
    have "is_int y' \<or> \<not> is_int (year u)" if "is_int (year d)" using that u(3) by (auto simp: d y'_def is_int_def split: if_splits)
    then show ?thesis using u num yr step by auto
  next
    case False
    then have "SubDays_loop d = Some (Inr d)" by (subst SubDays_loop.simps) (simp add: d)
    moreover have "Date_IsValid d" using False less.prems by (simp add: d Date_IsValid_def IsValid_def date_consts)
    ultimately show ?thesis by (intro exI [of _ d]) simp
  qed
qed

lemma day_number_update: "day_number (d\<lparr>day := day d + k\<rparr>) = day_number d + k"
  by (simp add: day_number_def DayOfYear_shift)

lemma valid_month: "Date_IsValid d \<Longrightarrow> 1 \<le> month d \<and> month d \<le> 12 \<and> 1 \<le> day d \<and> day d \<le> DaysInMonth (year d) (month d)"
  by (simp add: Date_IsValid_def IsValid_def date_consts)

lemma AddDays_body_total:
  assumes "Date_IsValid d" "is_int (year d)" "0 \<le> n"
  shows "\<exists>u. Date_IsValid u \<and> day_number u = day_number d + n \<and>
    AddDays_body n d = Some (if is_int (day d + n) \<and> is_int (year u) then Inr u else Inl INT_OVERFLOW)"
  using AddDays_loop_total [of "d\<lparr>day := day d + n\<rparr>"] valid_month [OF assms(1)] day_number_update [of d n] assms(2,3)
  by (auto simp: AddDays_body_def)

lemma SubDays_body_total:
  assumes "Date_IsValid d" "is_int (year d)" "0 \<le> n" "is_int n"
  shows "\<exists>u. Date_IsValid u \<and> day_number u = day_number d - n \<and>
    SubDays_body n d = Some (if is_int (year u) then Inr u else Inl INT_OVERFLOW)"
proof -
  have v: "1 \<le> month d" "month d \<le> 12" "1 \<le> day d" "day d \<le> DaysInMonth (year d) (month d)"
    using valid_month [OF assms(1)] by auto
  have "day d \<le> 31" using v DaysInMonth_bounds [of "month d" "year d"] by auto
  then have "is_int (day d - n)" using assms(3,4) v(3) by (simp add: is_int_def)
  then show ?thesis
    using SubDays_loop_total [of "d\<lparr>day := day d - n\<rparr>"] v day_number_update [of d "- n"] assms(2,3)
    by (auto simp: SubDays_body_def)
qed

lemma AddDays_total:
  assumes "Date_IsValid d" "is_int (year d)" "is_int n"
  shows "\<exists>u. Date_IsValid u \<and> day_number u = day_number d + n \<and>
    AddDays n d = Some (if n \<noteq> - (2 ^ 31) \<and> is_int (day d + n) \<and> is_int (year u) then Inr u else Inl INT_OVERFLOW)"
proof (cases "n < 0")
  case True
  have day: "1 \<le> day d" "day d \<le> 31" using valid_month [OF assms(1)] DaysInMonth_bounds [of "month d" "year d"] by auto
  show ?thesis
  proof (cases "n = - (2 ^ 31)")
    case min: True
    obtain u where "Date_IsValid u" "day_number u = day_number d + n"
      using SubDays_loop_total [of "d\<lparr>day := day d + n\<rparr>"] valid_month [OF assms(1)] day_number_update [of d n] True by auto
    then show ?thesis using min by (intro exI [of _ u]) (simp add: AddDays_def is_int_def)
  next
    case False
    then have i: "is_int (- n)" "is_int (day d + n)" using assms(3) True day by (auto simp: is_int_def)
    then show ?thesis using SubDays_body_total [OF assms(1,2), of "- n"] True False by (simp add: AddDays_def)
  qed
next
  case False
  then show ?thesis using AddDays_body_total [OF assms(1,2), of n] by (simp add: AddDays_def)
qed

lemma SubDays_total:
  assumes "Date_IsValid d" "is_int (year d)" "is_int n"
  shows "\<exists>u. Date_IsValid u \<and> day_number u = day_number d - n \<and>
    SubDays n d = Some (if is_int (day d - n) \<and> is_int (year u) then Inr u else Inl INT_OVERFLOW)"
proof (cases "n < 0")
  case True
  have day: "1 \<le> day d" using valid_month [OF assms(1)] by auto
  obtain u where u: "Date_IsValid u" "day_number u = day_number d - n"
    "AddDays_body (- n) d = Some (if is_int (day d - n) \<and> is_int (year u) then Inr u else Inl INT_OVERFLOW)"
    using AddDays_body_total [OF assms(1,2), of "- n"] True by auto
  have "\<not> is_int (- n) \<longrightarrow> \<not> is_int (day d - n)" using assms(3) day by (auto simp: is_int_def)
  then show ?thesis using u True by (intro exI [of _ u]) (auto simp: SubDays_def)
next
  case False
  have day: "1 \<le> day d" "day d \<le> 31" using valid_month [OF assms(1)] DaysInMonth_bounds [of "month d" "year d"] by auto
  then have "is_int (day d - n)" using False assms(3) by (auto simp: is_int_def)
  then show ?thesis using SubDays_body_total [OF assms(1,2) _ assms(3)] False by (simp add: SubDays_def)
qed

section \<open>Counting months and years\<close>

definition month_number :: "Date \<Rightarrow> int" where
  "month_number d = 12 * year d + month d - 1"

lemma clip_day_valid:
  "1 \<le> month d \<Longrightarrow> month d \<le> 12 \<Longrightarrow> 1 \<le> day d \<Longrightarrow> Date_IsValid (clip_day d)"
  using DaysInMonth_bounds [of "month d" "year d"]
  by (auto simp: clip_day_def Date_IsValid_def IsValid_def MinOf_def date_consts)

lemma clip_day_sel [simp]:
  "year (clip_day d) = year d" "month (clip_day d) = month d"
  "day (clip_day d) = MinOf (day d) (DaysInMonth (year d) (month d))"
  by (simp_all add: clip_day_def)

lemma AddMonthes_body_number:
  assumes "Date_IsValid d" "0 \<le> c"
  shows "Date_IsValid (AddMonthes_body c d) \<and> month_number (AddMonthes_body c d) = month_number d + c \<and>
    day (AddMonthes_body c d) = min (day d) (DaysInMonth (year (AddMonthes_body c d)) (month (AddMonthes_body c d)))"
proof -
  have "1 \<le> month d" "month d \<le> 12" "1 \<le> day d" using valid_month [OF assms(1)] by auto
  moreover have "0 \<le> x mod 12" "x mod 12 < 12" "12 * (x div 12) + x mod 12 = x" for x :: int by auto
  moreover note assms(2)
  ultimately show ?thesis
    unfolding AddMonthes_body_def Let_def
    by (auto intro!: clip_day_valid simp: month_number_def sdiv_nonneg smod_nonneg date_consts MinOf_def
        zdiv_zmult2_eq algebra_simps min_def)
qed

lemma SubMonthes_body_number:
  assumes "Date_IsValid d" "0 \<le> c"
  shows "Date_IsValid (SubMonthes_body c d) \<and> month_number (SubMonthes_body c d) = month_number d - c \<and>
    day (SubMonthes_body c d) = min (day d) (DaysInMonth (year (SubMonthes_body c d)) (month (SubMonthes_body c d)))"
proof (cases "month d - c < 1")
  case False
  then show ?thesis using valid_month [OF assms(1)] assms(2)
    by (auto intro!: clip_day_valid simp: SubMonthes_body_def Let_def month_number_def MinOf_def min_def)
next
  case True
  define k where "k = c - month d"
  have k: "0 \<le> k" using True by (simp add: k_def)
  have div: "(12 + k) div 12 = 1 + k div 12" by simp
  have m: "0 \<le> k mod 12" "k mod 12 < 12" "12 * (k div 12) + k mod 12 = k" by auto
  have "SubMonthes_body c d = clip_day (d\<lparr>year := year d - (1 + k div 12), month := 12 - k mod 12\<rparr>)"
    using True k div by (simp add: SubMonthes_body_def Let_def k_def sdiv_nonneg smod_nonneg date_consts
        algebra_simps)
  moreover have "- (k mod 12) - 12 * (k div 12) = month d - c" using m k_def by linarith
  ultimately show ?thesis using m valid_month [OF assms(1)]
    by (auto intro!: clip_day_valid simp: month_number_def MinOf_def min_def)
qed

lemma SubMonthes_body_0: "Date_IsValid d \<Longrightarrow> SubMonthes_body 0 d = AddMonthes_body 0 d"
  by (simp add: SubMonthes_body_def AddMonthes_body_def Date_IsValid_def IsValid_def)

lemma AddYears_number:
  assumes "Date_IsValid d"
  shows "Date_IsValid (AddYears c d) \<and> year (AddYears c d) = year d + c \<and> month (AddYears c d) = month d \<and>
    day (AddYears c d) = min (day d) (DaysInMonth (year d + c) (month d))"
  using valid_month [OF assms]
  by (auto intro!: clip_day_valid simp: AddYears_def AddYears_body_def SubYears_body_def MinOf_def min_def)

section \<open>Indices\<close>

lemma FromDayOfYear_loop_correct:
  assumes "1 \<le> i" "i \<le> 12" "T ! nat (i - 1) \<le> n" "n < T ! 12"
  shows "\<exists>m. FromDayOfYear_loop T n [i..12] d0 = (m, n + 1 - T ! nat (m - 1)) \<and>
    1 \<le> m \<and> m \<le> 12 \<and> T ! nat (m - 1) \<le> n \<and> n < T ! nat m"
  using assms
proof (induction "nat (12 - i)" arbitrary: i)
  case 0
  then have "i = 12" by simp
  then show ?case using 0 by simp
next
  case (Suc k)
  have u: "[i..12] = i # [i + 1..12]" using Suc.prems by (simp add: upto_rec1)
  show ?case
  proof (cases "n < T ! nat i")
    case True
    then show ?thesis using Suc.prems by (auto simp: u)
  next
    case False
    then show ?thesis using Suc.hyps(2) Suc.hyps(1) [of "i + 1"] Suc.prems by (auto simp: u)
  qed
qed

lemma FromDayOfYear_correct:
  assumes "0 \<le> n" "n < 365 + IsLeapYear y"
  shows "\<exists>m dd. FromDayOfYear y n d0 = Inr (m, dd) \<and> IsValid y m dd \<and> DayOfYear y m dd = n"
proof -
  let ?T = "DAYS_FROM_YEAR_BEGIN ! nat (IsLeapYear y)"
  have 12: "?T ! 12 = 365 + IsLeapYear y" "?T ! 0 = 0"
    by (cases rule: IsLeapYear_cases [of y]; simp add: month_tables)+
  then obtain m where m: "FromDayOfYear_loop ?T n [1..12] d0 = (m, n + 1 - ?T ! nat (m - 1))"
    "1 \<le> m" "m \<le> 12" "?T ! nat (m - 1) \<le> n" "n < ?T ! nat m"
    using FromDayOfYear_loop_correct [of 1 ?T n d0] assms by auto
  have "FromDayOfYear y n d0 = Inr (m, n + 1 - ?T ! nat (m - 1))"
    using m(1) assms 12 by (simp add: FromDayOfYear_def Let_def date_consts)
  moreover have "IsValid y m (n + 1 - ?T ! nat (m - 1)) \<and> DayOfYear y m (n + 1 - ?T ! nat (m - 1)) = n"
    using m(2-5)
    by (cases rule: IsLeapYear_cases [of y]; elim month_cases [of m])
      (simp_all add: IsValid_def DaysInMonth_def DayOfYear_def month_tables date_consts)
  ultimately show ?thesis by blast
qed

lemma FromDayOfYear_out_of_range:
  assumes "n < 0 \<or> n \<ge> 365 + IsLeapYear y"
  shows "FromDayOfYear y n d0 = Inl ILLEGAL_ARGUMENT_ERROR"
  using assms
  by (cases rule: IsLeapYear_cases [of y]) (auto simp: FromDayOfYear_def month_tables date_consts)

text \<open>The year with quotients \<open>a\<close>, \<open>b\<close>, \<open>c\<close>, \<open>e\<close> of the 400-, 100-, 4- and 1-year cycles.\<close>

lemma euclid_div: "0 \<le> t \<Longrightarrow> t < n \<Longrightarrow> (n * k + t) div n = k" for t n k :: int
  by simp

lemma euclid_dvd: "0 \<le> t \<Longrightarrow> t < n \<Longrightarrow> n dvd (n * k + t + 1) \<longleftrightarrow> t = n - 1" for t n k :: int
proof -
  assume t: "0 \<le> t" "t < n"
  have "n dvd (n * k + t + 1) \<longleftrightarrow> n dvd (t + 1)"
    by (simp only: add.assoc dvd_add_right_iff [OF dvd_triv_left])
  also have "\<dots> \<longleftrightarrow> t = n - 1" using t by (auto dest: zdvd_imp_le)
  finally show ?thesis .
qed

lemma days_before_cycles:
  assumes "0 \<le> b" "b \<le> 3" "0 \<le> c" "c \<le> 24" "0 \<le> e" "e \<le> 3"
  shows "days_before_year (400 * a + 100 * b + 4 * c + e + 1) = 146097 * a + 36524 * b + 1461 * c + 365 * e \<and>
    IsLeapYear (400 * a + 100 * b + 4 * c + e + 1) = (if e = 3 \<and> (c \<noteq> 24 \<or> b = 3) then 1 else 0)"
proof -
  let ?y = "400 * a + 100 * b + 4 * c + e"
  have q: "?y div 4 = 100 * a + 25 * b + c" "?y div 100 = 4 * a + b" "?y div 400 = a"
    using assms euclid_div [of e 4 "100 * a + 25 * b + c"] euclid_div [of "4 * c + e" 100 "4 * a + b"]
      euclid_div [of "100 * b + 4 * c + e" 400 a]
    by (simp_all add: algebra_simps)
  have l: "4 dvd (?y + 1) \<longleftrightarrow> e = 3" "100 dvd (?y + 1) \<longleftrightarrow> e = 3 \<and> c = 24"
    "400 dvd (?y + 1) \<longleftrightarrow> e = 3 \<and> c = 24 \<and> b = 3"
    using assms euclid_dvd [of e 4 "100 * a + 25 * b + c"] euclid_dvd [of "4 * c + e" 100 "4 * a + b"]
      euclid_dvd [of "100 * b + 4 * c + e" 400 a]
    by (auto simp: algebra_simps)
  show ?thesis unfolding IsLeapYear_iff l days_before_year_def using q by auto
qed

lemma FromDayIndex_correct:
  assumes "0 \<le> n"
  shows "\<exists>d. FromDayIndex n t = Inr d \<and> Date_IsValid d \<and> 1 \<le> year d \<and> day_number d = n"
proof -
  define a where "a = n div 146097"
  define r where "r = n mod 146097"
  define b where "b = min (r div 36524) 3"
  define r1 where "r1 = r - b * 36524"
  define c where "c = r1 div 1461"
  define r2 where "r2 = r1 mod 1461"
  define e where "e = min (r2 div 365) 3"
  define r3 where "r3 = r2 - e * 365"
  define y where "y = 400 * a + 100 * b + 4 * c + e + 1"
  have r: "0 \<le> r" "r < 146097" "n = 146097 * a + r" "0 \<le> a" using assms by (auto simp: r_def a_def)
  have b: "0 \<le> b" "b \<le> 3" "0 \<le> r1" "r1 < 36524 \<or> b = 3 \<and> r1 = 36524"
    using r(1,2) unfolding b_def r1_def by (auto simp: min_def)
  have c: "0 \<le> c" "c \<le> 24" "r1 = 1461 * c + r2" "0 \<le> r2" "r2 < 1461"
    using b unfolding c_def r2_def by auto
  have e: "0 \<le> e" "e \<le> 3" "0 \<le> r3" "r3 < 365 \<or> e = 3 \<and> r3 = 365"
    using c(4,5) unfolding e_def r3_def by (auto simp: min_def)
  note cyc = days_before_cycles [OF b(1,2) c(1,2) e(1,2), of a, folded y_def]
  have "r3 < 365 + IsLeapYear y" using cyc e(4) b(4) c(3) unfolding r3_def by auto
  from FromDayOfYear_correct [OF e(3) this, of "day t"] obtain m dd where
    md: "FromDayOfYear y r3 (day t) = Inr (m, dd)" "IsValid y m dd" "DayOfYear y m dd = r3" by auto
  have min: "MinOf i j = min i j" for i j :: int by (simp add: MinOf_min)
  have q: "n sdiv 146097 = a" "n smod 146097 = r" "MinOf (r sdiv 36524) 3 = b" "r1 sdiv 1461 = c"
    "r1 smod 1461 = r2" "MinOf (r2 sdiv 365) 3 = e"
    using assms r(1) b(3) c(4) unfolding min b_def e_def
    by (simp_all add: sdiv_nonneg smod_nonneg a_def r_def c_def r2_def)
  have k: "DAYS_IN_YEAR = 365" "DAYS_IN_4_YEARS = 1461" "DAYS_IN_100_YEARS = 36524" "DAYS_IN_400_YEARS = 146097"
    by (simp_all add: date_consts)
  have "FromDayIndex n t = (case FromDayOfYear y r3 (day t) of Inl e \<Rightarrow> Inl e
      | Inr (m, dd) \<Rightarrow> Inr \<lparr>year = y, month = m, day = dd\<rparr>)"
    unfolding FromDayIndex_def Let_def k q r1_def [symmetric] r3_def [symmetric] y_def by (rule refl)
  moreover have "146097 * a + 36524 * b + 1461 * c + 365 * e + r3 = n"
    using r(3) c(3) by (simp add: r1_def r3_def)
  moreover have "1 \<le> y" using r b c e by (simp add: y_def)
  ultimately show ?thesis using md cyc
    by (auto simp: Date_IsValid_def day_number_def)
qed

lemma day_number_nonneg:
  assumes "Date_IsValid d" "1 \<le> year d"
  shows "0 \<le> day_number d"
proof -
  have "0 \<le> days_before_year (year d)"
    using days_before_year_mono [of 1 "year d"] assms(2)
    by (cases "year d = 1") (auto simp: days_before_year_def IsLeapYear_def)
  then show ?thesis using DayOfYear_bounds [of "year d" "month d" "day d"] assms(1)
    by (simp add: day_number_def Date_IsValid_def)
qed

section \<open>Properties\<close>

text \<open>C29. \<open>AddDays\<close> and \<open>SubDays\<close> return for every valid date and every \<^verbatim>\<open>int\<close> count, positive or
  negative. The only valid date whose day number is shifted by exactly the count is the result, unless the
  arithmetic leaves the 32 bits of \<^verbatim>\<open>int\<close>: exactly when the count is added to the day, the least count is negated,
  or the year of the result is outside them.\<close>

theorem Date_AddDays:
  assumes "Date_IsValid d" "is_int (year d)" "is_int n"
  shows "\<exists>u v. Date_IsValid u \<and> Date_IsValid v \<and>
    (\<forall>w. Date_IsValid w \<longrightarrow> (day_number w = day_number d + n \<longleftrightarrow> w = u) \<and> (day_number w = day_number d - n \<longleftrightarrow> w = v)) \<and>
    AddDays n d = Some (if n \<noteq> - (2 ^ 31) \<and> is_int (day d + n) \<and> is_int (year u) then Inr u else Inl INT_OVERFLOW) \<and>
    SubDays n d = Some (if is_int (day d - n) \<and> is_int (year v) then Inr v else Inl INT_OVERFLOW)"
  using AddDays_total [OF assms] SubDays_total [OF assms] day_number_inj by metis

theorem Date_AddDays_witness:
  "(\<exists>u. AddDays 366 \<lparr>year = 2012, month = 2, day = 29\<rparr> = Some u) \<and>
    AddDays (- (2 ^ 31)) \<lparr>year = 2012, month = 2, day = 29\<rparr> = Some (Inl INT_OVERFLOW)"
proof -
  have v: "Date_IsValid \<lparr>year = 2012, month = 2, day = 29\<rparr>" "is_int (year \<lparr>year = 2012, month = 2, day = 29\<rparr>)"
    "is_int 366" "is_int (- (2 ^ 31))" by code_simp+
  from Date_AddDays [OF v(1-3)] Date_AddDays [OF v(1,2,4)] show ?thesis by auto
qed

text \<open>From year 1 on, \<open>ToDayIndex\<close> and \<open>FromDayIndex\<close> are inverse to each other: every valid
  date has a non-negative index from which it is read back, every non-negative index is the index
  of the valid date it is converted to, and consecutive days have consecutive indices.\<close>

theorem Date_index_roundtrip:
  assumes "Date_IsValid d" "1 \<le> year d" "0 \<le> n"
  shows "0 \<le> ToDayIndex d \<and> Date_of_index (ToDayIndex d) = Inr d \<and>
    (\<exists>e. Date_of_index n = Inr e \<and> Date_IsValid e \<and> 1 \<le> year e \<and> ToDayIndex e = n) \<and>
    (\<forall>e. is_int (year d) \<and> is_int n \<and> AddDays n d = Some (Inr e) \<longrightarrow> ToDayIndex e = ToDayIndex d + n)"
proof (intro conjI)
  have t: "ToDayIndex d = day_number d" using ToDayIndex_day_number assms by simp
  show nonneg: "0 \<le> ToDayIndex d" using day_number_nonneg assms t by simp
  then show "Date_of_index (ToDayIndex d) = Inr d"
    using FromDayIndex_correct [of "day_number d"] day_number_inj assms t unfolding Date_of_index_def by metis
  show "\<exists>e. Date_of_index n = Inr e \<and> Date_IsValid e \<and> 1 \<le> year e \<and> ToDayIndex e = n"
    using FromDayIndex_correct [OF assms(3)] ToDayIndex_day_number unfolding Date_of_index_def by metis
  show "\<forall>e. is_int (year d) \<and> is_int n \<and> AddDays n d = Some (Inr e) \<longrightarrow> ToDayIndex e = ToDayIndex d + n"
  proof (intro allI impI)
    fix e assume a: "is_int (year d) \<and> is_int n \<and> AddDays n d = Some (Inr e)"
    then have e: "Date_IsValid e" "day_number e = day_number d + n"
      using AddDays_total [OF assms(1), of n] by (auto split: if_splits)
    obtain f where "Date_IsValid f" "1 \<le> year f" "day_number f = day_number d + n"
      using FromDayIndex_correct [of "day_number d + n"] nonneg assms(3) t by auto
    then have "1 \<le> year e" using day_number_inj [of e f] e by auto
    then show "ToDayIndex e = ToDayIndex d + n" using e ToDayIndex_day_number t by auto
  qed
qed

theorem Date_index_roundtrip_witness:
  "Date_of_index (ToDayIndex \<lparr>year = 2000, month = 12, day = 31\<rparr>) = Inr \<lparr>year = 2000, month = 12, day = 31\<rparr>"
proof -
  have "Date_IsValid \<lparr>year = 2000, month = 12, day = 31\<rparr>" by code_simp
  from Date_index_roundtrip [OF this, of 0] show ?thesis by simp
qed

text \<open>The comparison operators order valid dates as time does: the six operators agree with
  the comparison of day numbers.\<close>

theorem Date_order:
  assumes "Date_IsValid a" "Date_IsValid b"
  shows "(Date_less a b \<longleftrightarrow> day_number a < day_number b) \<and> (Date_eq a b \<longleftrightarrow> day_number a = day_number b) \<and>
    (Date_le a b \<longleftrightarrow> day_number a \<le> day_number b) \<and> (Date_ge a b \<longleftrightarrow> day_number a \<ge> day_number b) \<and>
    (Date_greater a b \<longleftrightarrow> day_number a > day_number b) \<and> (Date_neq a b \<longleftrightarrow> day_number a \<noteq> day_number b)"
proof -
  have e: "Date_eq a b \<longleftrightarrow> a = b" by (cases a; cases b) (simp add: Date_eq_def)
  show ?thesis
    using day_number_less_iff [OF assms] day_number_less_iff [OF assms(2,1)] day_number_inj [OF assms]
    by (auto simp: e Date_le_def Date_ge_def Date_greater_def Date_neq_def)
qed

theorem Date_order_witness:
  "Date_less \<lparr>year = 1999, month = 12, day = 31\<rparr> \<lparr>year = 2000, month = 1, day = 1\<rparr> \<longleftrightarrow>
     day_number \<lparr>year = 1999, month = 12, day = 31\<rparr> < day_number \<lparr>year = 2000, month = 1, day = 1\<rparr>"
proof -
  have "Date_IsValid \<lparr>year = 1999, month = 12, day = 31\<rparr>" "Date_IsValid \<lparr>year = 2000, month = 1, day = 1\<rparr>"
    by code_simp+
  from Date_order [OF this] show ?thesis by blast
qed

text \<open>\<open>AddMonthes\<close> and \<open>SubMonthes\<close> move the month number by the count in either direction,
  carry into the year, clip the day to the length of the reached month and keep the date valid.\<close>

theorem Date_AddMonthes:
  assumes "Date_IsValid d"
  shows "Date_IsValid (AddMonthes n d) \<and> month_number (AddMonthes n d) = month_number d + n \<and>
    day (AddMonthes n d) = min (day d) (DaysInMonth (year (AddMonthes n d)) (month (AddMonthes n d))) \<and>
    SubMonthes n d = AddMonthes (- n) d"
  using AddMonthes_body_number [OF assms, of n] SubMonthes_body_number [OF assms, of "- n"]
    SubMonthes_body_0 [OF assms]
  by (cases "n < 0"; cases "n = 0") (simp_all add: AddMonthes_def SubMonthes_def)

theorem Date_AddMonthes_witness:
  "month_number (AddMonthes (- 13) \<lparr>year = 2013, month = 3, day = 31\<rparr>) = 12 * 2013 + 2 - 13"
proof -
  have "Date_IsValid \<lparr>year = 2013, month = 3, day = 31\<rparr>" by code_simp
  from Date_AddMonthes [OF this, of "- 13"] show ?thesis by (simp add: month_number_def)
qed

end
