(* ===== verification/Char_Source.thy ===== *)
theory Char_Source
  imports Xtl_Prelude
begin

text \<open>
  \<^verbatim>\<open>tp/TextCursor.hpp\<close>, \<^verbatim>\<open>tp/CharSource.{hpp,cpp}\<close> and
  \<^verbatim>\<open>tp/TextCharSource.{hpp,cpp}\<close>: the characters a parser reads. A
  \<^verbatim>\<open>ConstCharPtr\<close> keeps pointers into a buffer; here they are offsets from
  \<^verbatim>\<open>begin_\<close>, and \<^verbatim>\<open>end_\<close> is the length of the text. A \<^verbatim>\<open>TextCharSource\<close>
  wraps another source and keeps the cursor up to date instead of recomputing it. The contract
  the parsers rely on is the locale \<open>char_source\<close>, interpreted on both classes; the law of
  \<open>RestorePosition\<close> is an extension that only \<^verbatim>\<open>ConstCharPtr\<close> has.
  Reading outside of the text is undefined in C++ and the error \<open>OutOfBounds\<close> here.
\<close>

section \<open>Cursor\<close>

record TextCursor =
  row :: UINT_32
  column :: UINT_32

definition TextCursor_new :: TextCursor where
  "TextCursor_new = \<lparr>row = 0, column = 0\<rparr>"

definition NextColumn :: "TextCursor \<Rightarrow> TextCursor" where
  "NextColumn c = c\<lparr>column := column c + 1\<rparr>"

definition NextRow :: "TextCursor \<Rightarrow> TextCursor" where
  "NextRow c = c\<lparr>row := row c + 1, column := 0\<rparr>"

text \<open>The exceptions of the \<^verbatim>\<open>tp\<close> library: \<^verbatim>\<open>Parser::Error\<close>,
  \<^verbatim>\<open>Parser::EndOfFile\<close>, \<^verbatim>\<open>IntegerBuilder::OverflowError\<close> and the
  \<^verbatim>\<open>std::runtime_error\<close> of a source without a mark; the last one is a read out of bounds.\<close>

datatype tp_error =
    Error TextCursor string
  | EndOfFile
  | OverflowError
  | NotMarked
  | OutOfBounds

section \<open>ConstCharPtr\<close>

record ConstCharPtr =
  chars :: string
  ptr :: nat
  marked :: "nat list"

definition ConstCharPtr_new :: "string \<Rightarrow> ConstCharPtr" where
  "ConstCharPtr_new s = \<lparr>chars = s, ptr = 0, marked = []\<rparr>"

definition NotAtEnd :: "ConstCharPtr \<Rightarrow> bool" where
  "NotAtEnd s \<longleftrightarrow> ptr s < length (chars s)"

definition AtEnd :: "ConstCharPtr \<Rightarrow> bool" where
  "AtEnd s \<longleftrightarrow> ptr s \<ge> length (chars s)"

definition GetChar :: "(ConstCharPtr, tp_error, char) mth" where
  "GetChar s = (if ptr s < length (chars s) then Inr (chars s ! ptr s) else Inl OutOfBounds, s)"

definition GetCharIndex :: "ConstCharPtr \<Rightarrow> UINT_32" where
  "GetCharIndex s = of_nat (ptr s)"

definition Advance :: "ConstCharPtr \<Rightarrow> ConstCharPtr" where
  "Advance s = s\<lparr>ptr := ptr s + 1\<rparr>"

definition Mark :: "ConstCharPtr \<Rightarrow> UINT_32 \<times> ConstCharPtr" where
  "Mark s = (let s = s\<lparr>marked := ptr s # marked s\<rparr> in (of_nat (length (marked s)), s))"

definition MarkIndex :: "ConstCharPtr \<Rightarrow> UINT_32" where
  "MarkIndex s = of_nat (length (marked s))"

definition PopPtr :: "(ConstCharPtr, tp_error, nat) mth" where
  "PopPtr s = (case marked s of [] \<Rightarrow> (Inl NotMarked, s) | p # ps \<Rightarrow> (Inr p, s\<lparr>marked := ps\<rparr>))"

definition Unmark :: "(ConstCharPtr, tp_error, unit) mth" where
  "Unmark = bindM PopPtr (\<lambda>_. returnM ())"

text \<open>The characters of \<^verbatim>\<open>[from, to)\<close>: the copy \<^verbatim>\<open>std::string\<close> makes.\<close>

definition copy_range :: "nat \<Rightarrow> nat \<Rightarrow> (ConstCharPtr, tp_error, string) mth" where
  "copy_range from to s =
     (if from \<le> to \<and> to \<le> length (chars s) then Inr (drop from (take to (chars s))) else Inl OutOfBounds, s)"

definition ReleaseString :: "(ConstCharPtr, tp_error, string) mth" where
  "ReleaseString = bindM PopPtr (\<lambda>from s. copy_range from (ptr s) s)"

text \<open>The buffer argument is the string a \<^verbatim>\<open>CharBuffer\<close> holds.\<close>

definition ReleaseString_buffer :: "string \<Rightarrow> (ConstCharPtr, tp_error, string) mth" where
  "ReleaseString_buffer buffer =
     bindM PopPtr (\<lambda>from s. bindM (copy_range from (ptr s)) (\<lambda>x. returnM (buffer @ x)) s)"

definition cursor_step :: "char \<Rightarrow> TextCursor \<Rightarrow> TextCursor" where
  "cursor_step c cursor = (if c = CHR 0x0A then NextRow cursor else NextColumn cursor)"

definition cursor_of :: "string \<Rightarrow> TextCursor" where
  "cursor_of xs = fold cursor_step xs TextCursor_new"

definition GetCursor_to :: "nat \<Rightarrow> (ConstCharPtr, tp_error, TextCursor) mth" where
  "GetCursor_to to s =
     (if to \<le> length (chars s) then Inr (cursor_of (take to (chars s))) else Inl OutOfBounds, s)"

definition GetCursor :: "(ConstCharPtr, tp_error, TextCursor) mth" where
  "GetCursor s = GetCursor_to (ptr s) s"

definition ReleaseCursor :: "(ConstCharPtr, tp_error, TextCursor) mth" where
  "ReleaseCursor = bindM PopPtr GetCursor_to"

definition RestorePosition :: "(ConstCharPtr, tp_error, unit) mth" where
  "RestorePosition = bindM PopPtr (\<lambda>p s. (Inr (), s\<lparr>ptr := p\<rparr>))"

section \<open>TextCharSource\<close>

record TextCharSource =
  charSource :: ConstCharPtr
  textCursor :: TextCursor

definition TextCharSource_new :: "ConstCharPtr \<Rightarrow> TextCharSource" where
  "TextCharSource_new s = \<lparr>charSource = s, textCursor = TextCursor_new\<rparr>"

text \<open>A call forwarded to the wrapped source.\<close>

definition forward :: "(ConstCharPtr, tp_error, 'a) mth \<Rightarrow> (TextCharSource, tp_error, 'a) mth" where
  "forward m t = (case m (charSource t) of (r, s) \<Rightarrow> (r, t\<lparr>charSource := s\<rparr>))"

definition Text_NotAtEnd :: "TextCharSource \<Rightarrow> bool" where
  "Text_NotAtEnd t = NotAtEnd (charSource t)"

definition Text_AtEnd :: "TextCharSource \<Rightarrow> bool" where
  "Text_AtEnd t = AtEnd (charSource t)"

definition Text_GetChar :: "(TextCharSource, tp_error, char) mth" where
  "Text_GetChar = forward GetChar"

definition Text_GetCharIndex :: "TextCharSource \<Rightarrow> UINT_32" where
  "Text_GetCharIndex t = GetCharIndex (charSource t)"

definition Text_Advance :: "(TextCharSource, tp_error, unit) mth" where
  "Text_Advance = bindM Text_GetChar
     (\<lambda>c t. (Inr (), t\<lparr>textCursor := cursor_step c (textCursor t), charSource := Advance (charSource t)\<rparr>))"

definition Text_Mark :: "TextCharSource \<Rightarrow> UINT_32 \<times> TextCharSource" where
  "Text_Mark t = (case Mark (charSource t) of (n, s) \<Rightarrow> (n, t\<lparr>charSource := s\<rparr>))"

definition Text_Unmark :: "(TextCharSource, tp_error, unit) mth" where
  "Text_Unmark = forward Unmark"

definition Text_MarkIndex :: "TextCharSource \<Rightarrow> UINT_32" where
  "Text_MarkIndex t = MarkIndex (charSource t)"

definition Text_ReleaseString :: "(TextCharSource, tp_error, string) mth" where
  "Text_ReleaseString = forward ReleaseString"

definition Text_ReleaseString_buffer :: "string \<Rightarrow> (TextCharSource, tp_error, string) mth" where
  "Text_ReleaseString_buffer buffer = forward (ReleaseString_buffer buffer)"

definition Text_GetCursor :: "TextCharSource \<Rightarrow> TextCursor" where
  "Text_GetCursor t = textCursor t"

definition Text_ReleaseCursor :: "(TextCharSource, tp_error, TextCursor) mth" where
  "Text_ReleaseCursor = forward ReleaseCursor"

definition Text_RestorePosition :: "(TextCharSource, tp_error, unit) mth" where
  "Text_RestorePosition = forward RestorePosition"

section \<open>The contract of a source\<close>

text \<open>A source stands between the text already read and the text still to be read; the marks are
  lengths of the text read when they were set.\<close>

locale char_source =
  fixes ok :: "'s \<Rightarrow> bool"
    and before :: "'s \<Rightarrow> string"
    and rest :: "'s \<Rightarrow> string"
    and marks :: "'s \<Rightarrow> nat list"
    and not_at_end :: "'s \<Rightarrow> bool"
    and get_char :: "('s, tp_error, char) mth"
    and advance :: "('s, tp_error, unit) mth"
    and mark :: "'s \<Rightarrow> UINT_32 \<times> 's"
    and release_string :: "('s, tp_error, string) mth"
    and get_cursor :: "('s, tp_error, TextCursor) mth"
    and release_cursor :: "('s, tp_error, TextCursor) mth"
  assumes not_at_end_law: "ok s \<Longrightarrow> not_at_end s \<longleftrightarrow> rest s \<noteq> []"
    and get_char_law: "ok s \<Longrightarrow> get_char s = (if rest s = [] then Inl OutOfBounds else Inr (hd (rest s)), s)"
    and advance_law: "ok s \<Longrightarrow> rest s = c # cs \<Longrightarrow>
      \<exists>t. advance s = (Inr (), t) \<and> ok t \<and> before t = before s @ [c] \<and> rest t = cs \<and> marks t = marks s"
    and mark_law: "ok s \<Longrightarrow> mark s = (n, t) \<Longrightarrow>
      ok t \<and> before t = before s \<and> rest t = rest s \<and> marks t = length (before s) # marks s \<and>
      n = of_nat (length (marks t))"
    and release_string_law: "ok s \<Longrightarrow> marks s = m # ms \<Longrightarrow> m \<le> length (before s) \<Longrightarrow>
      \<exists>t. release_string s = (Inr (drop m (before s)), t) \<and> ok t \<and> before t = before s \<and>
        rest t = rest s \<and> marks t = ms"
    and get_cursor_law: "ok s \<Longrightarrow> get_cursor s = (Inr (cursor_of (before s)), s)"
    and release_cursor_law: "ok s \<Longrightarrow> marks s = m # ms \<Longrightarrow> m \<le> length (before s) \<Longrightarrow>
      \<exists>t. release_cursor s = (Inr (cursor_of (take m (before s))), t) \<and> ok t \<and> before t = before s \<and>
        rest t = rest s \<and> marks t = ms"
begin

text \<open>Reading \<open>n\<close> characters, the loop every token reader runs between \<open>Mark\<close> and
  \<open>ReleaseString\<close>.\<close>

primrec skip :: "nat \<Rightarrow> ('s, tp_error, unit) mth" where
  "skip 0 = returnM ()"
| "skip (Suc n) = bindM advance (\<lambda>_. skip n)"

lemma skip_law:
  assumes "ok s" "n \<le> length (rest s)"
  shows "\<exists>t. skip n s = (Inr (), t) \<and> ok t \<and> before t = before s @ take n (rest s) \<and>
    rest t = drop n (rest s) \<and> marks t = marks s"
  using assms
proof (induction n arbitrary: s)
  case (Suc n)
  then obtain c cs where r: "rest s = c # cs" by (cases "rest s") auto
  from advance_law [OF Suc.prems(1) r] obtain t where t: "advance s = (Inr (), t)" "ok t"
    "before t = before s @ [c]" "rest t = cs" "marks t = marks s" by blast
  then obtain u where "skip n t = (Inr (), u)" "ok u" "before u = before t @ take n (rest t)"
    "rest u = drop n (rest t)" "marks u = marks t"
    using Suc.IH [of t] Suc.prems(2) r by auto
  then show ?case using t r by (auto simp: bindM_def)
qed (simp add: returnM_def)

text \<open>A token reader gets exactly the characters it passed, the cursor moves over them, and the
  cursor of its start is still available.\<close>

lemma read_token:
  assumes "ok s" "n \<le> length (rest s)"
  shows "\<exists>t. bindM (\<lambda>s. case mark s of (_, t) \<Rightarrow> (Inr (), t)) (\<lambda>_. bindM (skip n) (\<lambda>_. release_string)) s
      = (Inr (take n (rest s)), t) \<and>
    ok t \<and> rest t = drop n (rest s) \<and> marks t = marks s \<and>
    get_cursor t = (Inr (fold cursor_step (take n (rest s)) (cursor_of (before s))), t)"
proof -
  obtain k u where u: "mark s = (k, u)" by (cases "mark s")
  note mk = mark_law [OF assms(1) u]
  obtain v where v: "skip n u = (Inr (), v)" "ok v" "before v = before s @ take n (rest s)"
    "rest v = drop n (rest s)" "marks v = length (before s) # marks s"
    using skip_law [of u n] mk assms(2) by auto
  obtain t where t: "release_string v = (Inr (drop (length (before s)) (before v)), t)" "ok t"
    "before t = before v" "rest t = rest v" "marks t = marks s"
    using release_string_law [OF v(2,5)] v(3) by auto
  then show ?thesis using u v get_cursor_law [of t] by (simp add: bindM_def cursor_of_def)
qed

end

locale restorable_source =
  char_source ok before rest marks not_at_end get_char advance mark release_string get_cursor release_cursor
  for ok :: "'s \<Rightarrow> bool" and before rest marks not_at_end get_char advance mark release_string get_cursor
    release_cursor +
  fixes restore_position :: "('s, tp_error, unit) mth"
  assumes restore_law: "ok s \<Longrightarrow> marks s = m # ms \<Longrightarrow> m \<le> length (before s) \<Longrightarrow>
      \<exists>t. restore_position s = (Inr (), t) \<and> ok t \<and> before t = take m (before s) \<and>
        rest t = drop m (before s) @ rest s \<and> marks t = ms"
begin

text \<open>Backtracking: reading ahead and restoring leaves the source where it was.\<close>

lemma backtrack:
  assumes "ok s" "n \<le> length (rest s)"
  shows "\<exists>t. bindM (\<lambda>s. case mark s of (_, t) \<Rightarrow> (Inr (), t)) (\<lambda>_. bindM (skip n) (\<lambda>_. restore_position)) s
      = (Inr (), t) \<and>
    ok t \<and> before t = before s \<and> rest t = rest s \<and> marks t = marks s \<and> get_cursor t = (Inr (cursor_of (before s)), t)"
proof -
  obtain k u where u: "mark s = (k, u)" by (cases "mark s")
  note mk = mark_law [OF assms(1) u]
  obtain v where v: "skip n u = (Inr (), v)" "ok v" "before v = before s @ take n (rest s)"
    "rest v = drop n (rest s)" "marks v = length (before s) # marks s"
    using skip_law [of u n] mk assms(2) by auto
  obtain t where t: "restore_position v = (Inr (), t)" "ok t" "before t = before s" "rest t = rest s" "marks t = marks s"
    using restore_law [OF v(2,5)] v(3,4) by auto
  then show ?thesis using u v get_cursor_law [of t] by (simp add: bindM_def)
qed

end

section \<open>Both classes keep the contract\<close>

definition source_ok :: "ConstCharPtr \<Rightarrow> bool" where
  "source_ok s \<longleftrightarrow> ptr s \<le> length (chars s)"

definition source_before :: "ConstCharPtr \<Rightarrow> string" where
  "source_before s = take (ptr s) (chars s)"

definition source_rest :: "ConstCharPtr \<Rightarrow> string" where
  "source_rest s = drop (ptr s) (chars s)"

named_theorems source_defs \<open>operations of a source\<close>

lemmas source_operations [source_defs] = NotAtEnd_def AtEnd_def GetChar_def Advance_def Mark_def
  PopPtr_def Unmark_def copy_range_def ReleaseString_def ReleaseString_buffer_def GetCursor_to_def GetCursor_def
  ReleaseCursor_def RestorePosition_def

lemmas source_views = source_ok_def source_before_def source_rest_def

lemma source_before_Advance:
  "source_rest s = c # cs \<Longrightarrow> source_before (Advance s) = source_before s @ [c] \<and> source_rest (Advance s) = cs"
  by (cases "ptr s < length (chars s)")
    (auto simp: source_before_def source_rest_def Advance_def take_Suc_append_nth drop_eq_nth_Cons)

lemma source_rest_Cons: "source_rest s = c # cs \<Longrightarrow> ptr s < length (chars s) \<and> chars s ! ptr s = c"
  by (cases "ptr s < length (chars s)") (auto simp: source_rest_def drop_eq_nth_Cons)

lemma drop_take_drop: "m \<le> p \<Longrightarrow> p \<le> length xs \<Longrightarrow> drop m (take p xs) @ drop p xs = drop m xs"
  using drop_append [of m "take p xs" "drop p xs"] by (simp add: min.absorb2)

interpretation ptr_source: restorable_source source_ok source_before source_rest marked NotAtEnd GetChar
  "\<lambda>s. (Inr (), Advance s)" Mark ReleaseString GetCursor ReleaseCursor RestorePosition
proof unfold_locales
  fix s c cs assume "source_ok s" "source_rest s = c # cs"
  then show "\<exists>t. (Inr (), Advance s) = (Inr (), t) \<and> source_ok t \<and> source_before t = source_before s @ [c] \<and>
      source_rest t = cs \<and> marked t = marked s"
    using source_before_Advance [of s c cs] source_rest_Cons [of s c cs]
    by (auto simp: source_ok_def Advance_def)
qed (auto simp: source_views source_defs bindM_def Let_def hd_drop_conv_nth min.absorb2 drop_take_drop)

text \<open>The cursor of a \<^verbatim>\<open>TextCharSource\<close> is up to date as long as its position is only moved by
  \<open>Advance\<close>.\<close>

definition text_ok :: "TextCharSource \<Rightarrow> bool" where
  "text_ok t \<longleftrightarrow> source_ok (charSource t) \<and> textCursor t = cursor_of (source_before (charSource t))"

interpretation text_source: char_source text_ok "\<lambda>t. source_before (charSource t)" "\<lambda>t. source_rest (charSource t)"
  "\<lambda>t. marked (charSource t)" Text_NotAtEnd Text_GetChar Text_Advance Text_Mark Text_ReleaseString
  "\<lambda>t. (Inr (Text_GetCursor t), t)" Text_ReleaseCursor
proof unfold_locales
  fix t c cs assume t: "text_ok t" "source_rest (charSource t) = c # cs"
  show "\<exists>u. Text_Advance t = (Inr (), u) \<and> text_ok u \<and>
      source_before (charSource u) = source_before (charSource t) @ [c] \<and> source_rest (charSource u) = cs \<and>
      marked (charSource u) = marked (charSource t)"
    using t source_before_Advance [of "charSource t" c cs] source_rest_Cons [of "charSource t" c cs]
    by (auto simp: Text_Advance_def Text_GetChar_def forward_def bindM_def GetChar_def text_ok_def cursor_of_def
        source_ok_def Advance_def)
qed (auto simp: text_ok_def source_views source_defs bindM_def Let_def hd_drop_conv_nth min.absorb2 forward_def
      Text_NotAtEnd_def Text_GetChar_def Text_Mark_def Text_ReleaseString_def Text_GetCursor_def
      Text_ReleaseCursor_def)

lemma source_new: "source_ok (ConstCharPtr_new xs) \<and> source_before (ConstCharPtr_new xs) = [] \<and>
  source_rest (ConstCharPtr_new xs) = xs"
  by (simp add: source_views ConstCharPtr_new_def)

lemma text_new: "text_ok (TextCharSource_new (ConstCharPtr_new xs))"
  by (simp add: text_ok_def TextCharSource_new_def source_new cursor_of_def)

section \<open>Properties\<close>

text \<open>What a client can ask of a source, apart from \<open>RestorePosition\<close>; a client advances only
  when the source is not at its end.\<close>

datatype request = AskChar | DoAdvance | DoMark | DoUnmark | DoReleaseString | AskCursor | DoReleaseCursor

datatype answer = Failed tp_error | Char char | String string | Cursor TextCursor | Depth UINT_32 | Done

definition answer :: "('a \<Rightarrow> answer) \<Rightarrow> ('s, tp_error, 'a) mth \<Rightarrow> 's \<Rightarrow> answer \<times> 's" where
  "answer f m s = (case m s of (Inl e, t) \<Rightarrow> (Failed e, t) | (Inr a, t) \<Rightarrow> (f a, t))"

fun ask_ptr :: "request \<Rightarrow> ConstCharPtr \<Rightarrow> answer \<times> ConstCharPtr" where
  "ask_ptr AskChar s = answer Char GetChar s"
| "ask_ptr DoAdvance s = (Done, if NotAtEnd s then Advance s else s)"
| "ask_ptr DoMark s = (case Mark s of (n, t) \<Rightarrow> (Depth n, t))"
| "ask_ptr DoUnmark s = answer (\<lambda>_. Done) Unmark s"
| "ask_ptr DoReleaseString s = answer String ReleaseString s"
| "ask_ptr AskCursor s = answer Cursor GetCursor s"
| "ask_ptr DoReleaseCursor s = answer Cursor ReleaseCursor s"

fun ask_text :: "request \<Rightarrow> TextCharSource \<Rightarrow> answer \<times> TextCharSource" where
  "ask_text AskChar t = answer Char Text_GetChar t"
| "ask_text DoAdvance t = (if Text_NotAtEnd t then answer (\<lambda>_. Done) Text_Advance t else (Done, t))"
| "ask_text DoMark t = (case Text_Mark t of (n, t) \<Rightarrow> (Depth n, t))"
| "ask_text DoUnmark t = answer (\<lambda>_. Done) Text_Unmark t"
| "ask_text DoReleaseString t = answer String Text_ReleaseString t"
| "ask_text AskCursor t = (Cursor (Text_GetCursor t), t)"
| "ask_text DoReleaseCursor t = answer Cursor Text_ReleaseCursor t"

primrec dialogue :: "(request \<Rightarrow> 's \<Rightarrow> answer \<times> 's) \<Rightarrow> request list \<Rightarrow> 's \<Rightarrow> answer list" where
  "dialogue ask [] s = []"
| "dialogue ask (r # rs) s = (case ask r s of (a, t) \<Rightarrow> a # dialogue ask rs t)"

lemma ask_step:
  assumes "text_ok t"
  shows "\<exists>a u. ask_text r t = (a, u) \<and> ask_ptr r (charSource t) = (a, charSource u) \<and> text_ok u"
proof (cases "r = DoAdvance")
  case True
  show ?thesis
  proof (cases "source_rest (charSource t)")
    case Nil
    then show ?thesis using assms True
      by (auto simp: text_ok_def source_views NotAtEnd_def Text_NotAtEnd_def)
  next
    case (Cons c cs)
    then have "NotAtEnd (charSource t)" using source_rest_Cons by (auto simp: NotAtEnd_def)
    moreover obtain u where u: "Text_Advance t = (Inr (), u)" "text_ok u"
      using text_source.advance_law [OF assms Cons] by auto
    moreover have "charSource u = Advance (charSource t)"
      using u(1) source_rest_Cons [OF Cons]
      by (auto simp: Text_Advance_def Text_GetChar_def forward_def bindM_def GetChar_def)
    ultimately show ?thesis using True by (simp add: answer_def Text_NotAtEnd_def)
  qed
next
  case False
  then show ?thesis using assms
    by (cases r; cases "marked (charSource t)")
      (auto simp: answer_def forward_def text_ok_def source_views source_defs bindM_def returnM_def Let_def
        Text_NotAtEnd_def Text_GetChar_def Text_Mark_def Text_ReleaseString_def Text_GetCursor_def
        Text_Unmark_def Text_ReleaseCursor_def)
qed

lemma dialogue_text: "text_ok t \<Longrightarrow> dialogue ask_text rs t = dialogue ask_ptr rs (charSource t)"
proof (induction rs arbitrary: t)
  case (Cons r rs)
  then show ?case using ask_step [of t r] by (auto split: prod.splits)
qed simp

text \<open>A \<open>TextCharSource\<close> answers every sequence of requests (characters, marks, released
  strings, cursors) exactly as the source it wraps: its incrementally maintained cursor always equals the
  one \<open>ConstCharPtr\<close> recomputes from the beginning of the text.\<close>

theorem TextCharSource_refines:
  "dialogue ask_text rs (TextCharSource_new (ConstCharPtr_new xs)) = dialogue ask_ptr rs (ConstCharPtr_new xs)"
  using dialogue_text [OF text_new] by (simp add: TextCharSource_new_def)

text \<open>The law fails for \<open>RestorePosition\<close>: after a backtrack over one character the wrapper's
  cursor still stands behind it, while the wrapped source is at the beginning again.\<close>

theorem TextCharSource_RestorePosition_stale:
  "let t0 = TextCharSource_new (ConstCharPtr_new ''ab'');
       t1 = snd (Text_Mark t0); t2 = snd (Text_Advance t1); t3 = snd (Text_RestorePosition t2)
   in Text_GetCharIndex t3 = 0 \<and> GetCursor (charSource t3) = (Inr \<lparr>row = 0, column = 0\<rparr>, charSource t3) \<and>
      Text_GetCursor t3 = \<lparr>row = 0, column = 1\<rparr>"
  by (simp add: TextCharSource_new_def ConstCharPtr_new_def source_defs bindM_def forward_def Let_def
      Text_Mark_def Text_Advance_def Text_GetChar_def Text_RestorePosition_def Text_GetCharIndex_def
      GetCharIndex_def Text_GetCursor_def cursor_of_def cursor_step_def TextCursor_new_def NextColumn_def)

end
