(* ===== verification/Text_Parser.thy ===== *)
theory Text_Parser
  imports Char_Source
begin

unbundle bit_operations_syntax

text \<open>
  \<^verbatim>\<open>tp/CharClassifier.{hpp,cpp}\<close>, \<^verbatim>\<open>tp/CharClass.{hpp,cpp}\<close> and
  \<^verbatim>\<open>tp/Parser.{hpp,cpp}\<close>: the classification table of the 256 characters, the character
  classes and the primitive reading operations every parser of the library is built from. A parser is
  the source it reads (\<open>ConstCharPtr\<close>); its loops \<^verbatim>\<open>while (NotAtEnd() && P(GetChar())) Advance()\<close>
  are all \<open>advance_while\<close>.
\<close>

section \<open>CharClassifier\<close>

type_synonym CharClassBits = UINT_32
type_synonym CharClassifier = "CharClassBits list"

definition CHARS_COUNT :: nat where "CHARS_COUNT = 256"

definition CharClassifier_new :: CharClassifier where
  "CharClassifier_new = replicate CHARS_COUNT 0"

definition CharClassifier_at :: "CharClassifier \<Rightarrow> char \<Rightarrow> CharClassBits" where
  "CharClassifier_at t c = t ! char_index c"

definition Add_bits :: "CharClassBits \<Rightarrow> nat \<Rightarrow> CharClassifier \<Rightarrow> CharClassifier" where
  "Add_bits bits i t = t[i := (t ! i) OR bits]"

definition Add_char :: "CharClassBits \<Rightarrow> char \<Rightarrow> CharClassifier \<Rightarrow> CharClassifier" where
  "Add_char bits c t = Add_bits bits (char_index c) t"

definition Add_range :: "CharClassBits \<Rightarrow> char \<Rightarrow> char \<Rightarrow> CharClassifier \<Rightarrow> CharClassifier" where
  "Add_range bits from to t =
     (let indexFrom = char_index from; indexTo = char_index to;
          (indexFrom, indexTo) = (if indexFrom > indexTo then (indexTo, indexFrom) else (indexFrom, indexTo))
      in fold (Add_bits bits) [indexFrom..<indexTo + 1] t)"

section \<open>CharClass\<close>

record CharClass =
  classifier :: CharClassifier
  classBits :: CharClassBits

definition CreateClass :: "CharClassifier \<Rightarrow> CharClassBits \<Rightarrow> CharClass" where
  "CreateClass t bits = \<lparr>classifier = t, classBits = bits\<rparr>"

definition Bits :: "CharClass \<Rightarrow> CharClassBits" where
  "Bits k = classBits k"

definition Contains :: "CharClass \<Rightarrow> char \<Rightarrow> bool" where
  "Contains k c \<longleftrightarrow> (CharClassifier_at (classifier k) c AND classBits k) \<noteq> 0"

definition CHAR_NULL :: CharClassBits where "CHAR_NULL = 0x00000001"
definition CHAR_DECIMAL :: CharClassBits where "CHAR_DECIMAL = 0x00000002"
definition CHAR_LETTER_UC :: CharClassBits where "CHAR_LETTER_UC = 0x00000004"
definition CHAR_LETTER_LC :: CharClassBits where "CHAR_LETTER_LC = 0x00000008"
definition CHAR_HEX_UC :: CharClassBits where "CHAR_HEX_UC = 0x00000010"
definition CHAR_HEX_LC :: CharClassBits where "CHAR_HEX_LC = 0x00000020"
definition CHAR_OCTAL :: CharClassBits where "CHAR_OCTAL = 0x00000040"
definition CHAR_BINARY :: CharClassBits where "CHAR_BINARY = 0x00000080"
definition CHAR_SPACE :: CharClassBits where "CHAR_SPACE = 0x00000100"
definition CHAR_TAB :: CharClassBits where "CHAR_TAB = 0x00000200"
definition CHAR_CARRIAGE_RETURN :: CharClassBits where "CHAR_CARRIAGE_RETURN = 0x00000400"
definition CHAR_LINE_FEED :: CharClassBits where "CHAR_LINE_FEED = 0x00000800"
definition CHAR_PLUS :: CharClassBits where "CHAR_PLUS = 0x00001000"
definition CHAR_MINUS :: CharClassBits where "CHAR_MINUS = 0x00002000"
definition CHAR_UNDERSCORE :: CharClassBits where "CHAR_UNDERSCORE = 0x00004000"
definition CHAR_LETTER :: CharClassBits where "CHAR_LETTER = CHAR_LETTER_UC OR CHAR_LETTER_LC"

named_theorems class_bits \<open>the bits of the character classes\<close>

lemmas class_bits_defs [class_bits] = CHAR_NULL_def CHAR_DECIMAL_def CHAR_LETTER_UC_def CHAR_LETTER_LC_def
  CHAR_HEX_UC_def CHAR_HEX_LC_def CHAR_OCTAL_def CHAR_BINARY_def CHAR_SPACE_def CHAR_TAB_def
  CHAR_CARRIAGE_RETURN_def CHAR_LINE_FEED_def CHAR_PLUS_def CHAR_MINUS_def CHAR_UNDERSCORE_def CHAR_LETTER_def

definition CommonCharClassifier :: CharClassifier where
  "CommonCharClassifier =
     fold (\<lambda>f. f)
       [Add_char CHAR_NULL CHR 0x00,
        Add_range CHAR_DECIMAL CHR ''0'' CHR ''9'',
        Add_range CHAR_OCTAL CHR ''0'' CHR ''7'',
        Add_range CHAR_BINARY CHR ''0'' CHR ''1'',
        Add_range CHAR_LETTER_UC CHR ''A'' CHR ''Z'',
        Add_range CHAR_LETTER_LC CHR ''a'' CHR ''z'',
        Add_range CHAR_HEX_UC CHR ''A'' CHR ''F'',
        Add_range CHAR_HEX_LC CHR ''a'' CHR ''f'',
        Add_char CHAR_SPACE CHR '' '',
        Add_char CHAR_TAB CHR 0x09,
        Add_char CHAR_CARRIAGE_RETURN CHR 0x0D,
        Add_char CHAR_LINE_FEED CHR 0x0A,
        Add_char CHAR_PLUS CHR ''+'',
        Add_char CHAR_MINUS CHR ''-'',
        Add_char CHAR_UNDERSCORE CHR ''_''] CharClassifier_new"

definition CreateCommonClass :: "CharClassBits \<Rightarrow> CharClass" where
  "CreateCommonClass bits = CreateClass CommonCharClassifier bits"

definition LETTER :: CharClass where "LETTER = CreateCommonClass CHAR_LETTER"
definition DECIMAL :: CharClass where "DECIMAL = CreateCommonClass CHAR_DECIMAL"
definition OCTAL :: CharClass where "OCTAL = CreateCommonClass CHAR_OCTAL"
definition BINARY :: CharClass where "BINARY = CreateCommonClass CHAR_BINARY"
definition NUMBER_HEAD :: CharClass where "NUMBER_HEAD = CreateCommonClass (CHAR_DECIMAL OR CHAR_MINUS)"
definition HEXADECIMAL :: CharClass where
  "HEXADECIMAL = CreateCommonClass (CHAR_DECIMAL OR CHAR_HEX_UC OR CHAR_HEX_LC)"
definition WHITESPACE :: CharClass where
  "WHITESPACE = CreateCommonClass (CHAR_SPACE OR CHAR_TAB OR CHAR_CARRIAGE_RETURN OR CHAR_LINE_FEED)"
definition LINEAR_SPACE :: CharClass where "LINEAR_SPACE = CreateCommonClass (CHAR_SPACE OR CHAR_TAB)"
definition NEW_LINE :: CharClass where "NEW_LINE = CreateCommonClass (CHAR_CARRIAGE_RETURN OR CHAR_LINE_FEED)"
definition IDENTIFIER_HEAD :: CharClass where
  "IDENTIFIER_HEAD = CreateCommonClass (CHAR_LETTER_UC OR CHAR_LETTER_LC OR CHAR_UNDERSCORE)"
definition IDENTIFIER_TAIL :: CharClass where
  "IDENTIFIER_TAIL = CreateCommonClass (CHAR_LETTER_UC OR CHAR_LETTER_LC OR CHAR_UNDERSCORE OR CHAR_DECIMAL)"

section \<open>Parser\<close>

type_synonym 'a parser = "(ConstCharPtr, tp_error, 'a) mth"

definition InClass :: "CharClass \<Rightarrow> bool parser" where
  "InClass k = bindM GetChar (\<lambda>c. returnM (Contains k c))"

definition NotInClass :: "CharClass \<Rightarrow> bool parser" where
  "NotInClass k = bindM GetChar (\<lambda>c. returnM (\<not> Contains k c))"

definition ThrowError_at :: "TextCursor \<Rightarrow> string \<Rightarrow> 'a parser" where
  "ThrowError_at cursor what = throwM (Error cursor what)"

definition ThrowError :: "string \<Rightarrow> 'a parser" where
  "ThrowError what = bindM GetCursor (\<lambda>cursor. ThrowError_at cursor what)"

definition NeedChar :: "char parser" where
  "NeedChar s = (if AtEnd s then throwM EndOfFile s else GetChar s)"

function advance_while :: "(char \<Rightarrow> bool) \<Rightarrow> ConstCharPtr \<Rightarrow> ConstCharPtr" where
  "advance_while P s =
     (if NotAtEnd s \<and> P (chars s ! ptr s) then advance_while P (Advance s) else s)"
  by pat_completeness auto
termination
  by (relation "measure (\<lambda>(P, s). length (chars s) - ptr s)") (auto simp: NotAtEnd_def Advance_def)

declare advance_while.simps [simp del]

text \<open>The three loops that end with \<^verbatim>\<open>throw EndOfFile()\<close> when they reach the end.\<close>

definition found_or_end :: "ConstCharPtr \<Rightarrow> (tp_error + unit) \<times> ConstCharPtr" where
  "found_or_end s = (if NotAtEnd s then returnM () s else throwM EndOfFile s)"

definition WaitChar :: "char \<Rightarrow> unit parser" where
  "WaitChar c s = found_or_end (advance_while (\<lambda>x. x \<noteq> c) s)"

definition SkipChar :: "char \<Rightarrow> ConstCharPtr \<Rightarrow> bool \<times> ConstCharPtr" where
  "SkipChar c s = (if AtEnd s \<or> chars s ! ptr s \<noteq> c then (False, s) else (True, Advance s))"

primrec SkipString :: "string \<Rightarrow> ConstCharPtr \<Rightarrow> bool \<times> ConstCharPtr" where
  "SkipString [] s = (True, s)"
| "SkipString (c # cs) s =
     (case SkipChar c s of (ok, s) \<Rightarrow> if \<not> ok then (False, s) else SkipString cs s)"

definition SkipChars :: "char \<Rightarrow> unit parser" where
  "SkipChars c s = found_or_end (advance_while (\<lambda>x. x = c) s)"

definition SkipCharClass2 :: "CharClass \<Rightarrow> unit parser" where
  "SkipCharClass2 k s = found_or_end (advance_while (Contains k) s)"

definition ReadIdentifier :: "string parser" where
  "ReadIdentifier s =
     (let (_, s) = Mark s; s = Advance s; s = advance_while (Contains IDENTIFIER_TAIL) s in ReleaseString s)"

definition SkipLinearSpaces :: "ConstCharPtr \<Rightarrow> ConstCharPtr" where
  "SkipLinearSpaces s = advance_while (Contains LINEAR_SPACE) s"

section \<open>The classes as ranges of characters\<close>

lemma fold_Add_bits: "b < length t \<Longrightarrow>
    length (fold (Add_bits bits) [a..<Suc b] t) = length t \<and>
    (\<forall>i. fold (Add_bits bits) [a..<Suc b] t ! i = (if a \<le> i \<and> i \<le> b then (t ! i) OR bits else t ! i))"
proof (induction b)
  case 0
  then show ?case by (auto simp: Add_bits_def nth_list_update)
next
  case (Suc b)
  then have "b < length t" by simp
  note IH = Suc.IH [OF this]
  show ?case
  proof (cases "a \<le> Suc b")
    case True
    then show ?thesis using IH Suc.prems
      by (auto simp: Add_bits_def nth_list_update upt_Suc_append [of a "Suc b"] simp del: upt_Suc)
  next
    case False
    then show ?thesis by auto
  qed
qed

text \<open>Adding bits to a range, seen through membership.\<close>

definition in_range :: "char \<Rightarrow> char \<Rightarrow> char \<Rightarrow> bool" where
  "in_range from to c \<longleftrightarrow> char_index from \<le> char_index c \<and> char_index c \<le> char_index to"

definition or_if :: "bool \<Rightarrow> CharClassBits \<Rightarrow> CharClassBits \<Rightarrow> CharClassBits" where
  "or_if p bits w = (if p then w OR bits else w)"

lemma Add_range_at:
  assumes "length t = 256" "char_index a \<le> char_index b"
  shows "length (Add_range bits a b t) = 256 \<and>
    CharClassifier_at (Add_range bits a b t) c = or_if (in_range a b c) bits (CharClassifier_at t c)"
  using assms fold_Add_bits [of "char_index b" t bits "char_index a"] char_index_less [of b]
  by (simp add: Add_range_def CharClassifier_at_def in_range_def or_if_def Let_def)

lemma Add_char_at:
  assumes "length t = 256"
  shows "length (Add_char bits a t) = 256 \<and>
    CharClassifier_at (Add_char bits a t) c = or_if (c = a) bits (CharClassifier_at t c)"
  using assms char_index_less [of a]
  by (auto simp: Add_char_def Add_bits_def CharClassifier_at_def or_if_def nth_list_update char_index_def
      of_char_eq_iff)

lemma or_if_and: "(or_if p bits w AND k) \<noteq> 0 \<longleftrightarrow> p \<and> (bits AND k) \<noteq> 0 \<or> (w AND k) \<noteq> 0"
proof -
  have "(w OR bits) AND k = 0 \<longleftrightarrow> w AND k = 0 \<and> bits AND k = 0"
    by (metis (no_types, lifting) bit.conj_disj_distrib2 or_eq_0_iff)
  then show ?thesis by (auto simp: or_if_def)
qed

lemma char_index_lits [simp]:
  "char_index CHR ''0'' = 48" "char_index CHR ''9'' = 57" "char_index CHR ''7'' = 55" "char_index CHR ''1'' = 49"
  "char_index CHR ''A'' = 65" "char_index CHR ''Z'' = 90" "char_index CHR ''a'' = 97" "char_index CHR ''z'' = 122"
  "char_index CHR ''F'' = 70" "char_index CHR ''f'' = 102"
  by (simp_all add: char_index_def)

lemma Contains_common:
  "Contains (CreateCommonClass k) c \<longleftrightarrow>
     c = CHR ''_'' \<and> CHAR_UNDERSCORE AND k \<noteq> 0 \<or> c = CHR ''-'' \<and> CHAR_MINUS AND k \<noteq> 0 \<or>
     c = CHR ''+'' \<and> CHAR_PLUS AND k \<noteq> 0 \<or> c = CHR 0x0A \<and> CHAR_LINE_FEED AND k \<noteq> 0 \<or>
     c = CHR 0x0D \<and> CHAR_CARRIAGE_RETURN AND k \<noteq> 0 \<or> c = CHR 0x09 \<and> CHAR_TAB AND k \<noteq> 0 \<or>
     c = CHR '' '' \<and> CHAR_SPACE AND k \<noteq> 0 \<or>
     in_range CHR ''a'' CHR ''f'' c \<and> CHAR_HEX_LC AND k \<noteq> 0 \<or>
     in_range CHR ''A'' CHR ''F'' c \<and> CHAR_HEX_UC AND k \<noteq> 0 \<or>
     in_range CHR ''a'' CHR ''z'' c \<and> CHAR_LETTER_LC AND k \<noteq> 0 \<or>
     in_range CHR ''A'' CHR ''Z'' c \<and> CHAR_LETTER_UC AND k \<noteq> 0 \<or>
     in_range CHR ''0'' CHR ''1'' c \<and> CHAR_BINARY AND k \<noteq> 0 \<or>
     in_range CHR ''0'' CHR ''7'' c \<and> CHAR_OCTAL AND k \<noteq> 0 \<or>
     in_range CHR ''0'' CHR ''9'' c \<and> CHAR_DECIMAL AND k \<noteq> 0 \<or>
     c = CHR 0x00 \<and> CHAR_NULL AND k \<noteq> 0"
proof -
  have new: "length CharClassifier_new = 256" "CharClassifier_at CharClassifier_new c AND k = 0"
    using char_index_less [of c] by (simp_all add: CharClassifier_new_def CHARS_COUNT_def CharClassifier_at_def)
  show ?thesis
    unfolding Contains_def CreateCommonClass_def CreateClass_def CommonCharClassifier_def
    by (simp add: new Add_char_at Add_range_at or_if_and)
qed

lemmas class_defs = LETTER_def DECIMAL_def OCTAL_def BINARY_def NUMBER_HEAD_def HEXADECIMAL_def WHITESPACE_def
  LINEAR_SPACE_def NEW_LINE_def IDENTIFIER_HEAD_def IDENTIFIER_TAIL_def

named_theorems classes \<open>membership in the character classes\<close>

lemma class_membership [classes]:
  "Contains DECIMAL c \<longleftrightarrow> in_range CHR ''0'' CHR ''9'' c"
  "Contains OCTAL c \<longleftrightarrow> in_range CHR ''0'' CHR ''7'' c"
  "Contains BINARY c \<longleftrightarrow> in_range CHR ''0'' CHR ''1'' c"
  "Contains LETTER c \<longleftrightarrow> in_range CHR ''a'' CHR ''z'' c \<or> in_range CHR ''A'' CHR ''Z'' c"
  "Contains HEXADECIMAL c \<longleftrightarrow> in_range CHR ''a'' CHR ''f'' c \<or> in_range CHR ''A'' CHR ''F'' c \<or>
     in_range CHR ''0'' CHR ''9'' c"
  "Contains NUMBER_HEAD c \<longleftrightarrow> c = CHR ''-'' \<or> in_range CHR ''0'' CHR ''9'' c"
  "Contains WHITESPACE c \<longleftrightarrow> c \<in> {CHR 0x0A, CHR 0x0D, CHR 0x09, CHR '' ''}"
  "Contains LINEAR_SPACE c \<longleftrightarrow> c \<in> {CHR 0x09, CHR '' ''}"
  "Contains NEW_LINE c \<longleftrightarrow> c \<in> {CHR 0x0A, CHR 0x0D}"
  "Contains IDENTIFIER_HEAD c \<longleftrightarrow> c = CHR ''_'' \<or> in_range CHR ''a'' CHR ''z'' c \<or> in_range CHR ''A'' CHR ''Z'' c"
  "Contains IDENTIFIER_TAIL c \<longleftrightarrow> c = CHR ''_'' \<or> in_range CHR ''a'' CHR ''z'' c \<or> in_range CHR ''A'' CHR ''Z'' c \<or>
     in_range CHR ''0'' CHR ''9'' c"
  unfolding class_defs Contains_common by (simp_all add: class_bits)

lemma in_range_list: "in_range a b c \<longleftrightarrow> c \<in> set (map char_of [char_index a..<Suc (char_index b)])"
proof
  assume "in_range a b c"
  moreover have "c = char_of (char_index c)" by (simp add: char_index_def)
  ultimately show "c \<in> set (map char_of [char_index a..<Suc (char_index b)])"
    by (auto simp: in_range_def simp del: upt_Suc)
next
  assume "c \<in> set (map char_of [char_index a..<Suc (char_index b)])"
  then obtain n where "c = char_of n" "char_index a \<le> n" "n \<le> char_index b" by (auto simp del: upt_Suc)
  moreover from this have "n < 256" using char_index_less [of b] by linarith
  ultimately show "in_range a b c" by (simp add: in_range_def char_index_def)
qed

lemma in_range_lists:
  "in_range CHR ''0'' CHR ''9'' c \<longleftrightarrow> c \<in> set ''0123456789''"
  "in_range CHR ''0'' CHR ''7'' c \<longleftrightarrow> c \<in> set ''01234567''"
  "in_range CHR ''0'' CHR ''1'' c \<longleftrightarrow> c \<in> set ''01''"
  "in_range CHR ''a'' CHR ''f'' c \<longleftrightarrow> c \<in> set ''abcdef''"
  "in_range CHR ''A'' CHR ''F'' c \<longleftrightarrow> c \<in> set ''ABCDEF''"
  "in_range CHR ''a'' CHR ''z'' c \<longleftrightarrow> c \<in> set ''abcdefghijklmnopqrstuvwxyz''"
  "in_range CHR ''A'' CHR ''Z'' c \<longleftrightarrow> c \<in> set ''ABCDEFGHIJKLMNOPQRSTUVWXYZ''"
  unfolding in_range_list by (simp_all add: upt_rec char_of_def bit_Suc_0_iff)

section \<open>Sources by what is read and what is left\<close>

definition src :: "string \<Rightarrow> string \<Rightarrow> nat list \<Rightarrow> ConstCharPtr" where
  "src b r ms = \<lparr>chars = b @ r, ptr = length b, marked = ms\<rparr>"

named_theorems src_simps \<open>the operations on \<^term>\<open>src b r ms\<close>\<close>

lemma src_exhaust: "source_ok s \<Longrightarrow> s = src (source_before s) (source_rest s) (marked s)"
  by (cases s) (simp add: src_def source_views min.absorb2)

lemma ConstCharPtr_new_src [src_simps]: "ConstCharPtr_new xs = src [] xs []"
  by (simp add: ConstCharPtr_new_def src_def)

lemma src_operations [src_simps]:
  "NotAtEnd (src b r ms) \<longleftrightarrow> r \<noteq> []"
  "AtEnd (src b r ms) \<longleftrightarrow> r = []"
  "GetChar (src b [] ms) = (Inl OutOfBounds, src b [] ms)"
  "GetChar (src b (c # cs) ms) = (Inr c, src b (c # cs) ms)"
  "chars (src b (c # cs) ms) ! ptr (src b (c # cs) ms) = c"
  "Advance (src b (c # cs) ms) = src (b @ [c]) cs ms"
  "Mark (src b r ms) = (of_nat (Suc (length ms)), src b r (length b # ms))"
  "PopPtr (src b r (m # ms)) = (Inr m, src b r ms)"
  "Unmark (src b r (m # ms)) = (Inr (), src b r ms)"
  "m \<le> length b \<Longrightarrow> ReleaseString (src b r (m # ms)) = (Inr (drop m b), src b r ms)"
  "m \<le> length b \<Longrightarrow> ReleaseString_buffer x (src b r (m # ms)) = (Inr (x @ drop m b), src b r ms)"
  "GetCursor (src b r ms) = (Inr (cursor_of b), src b r ms)"
  "m \<le> length b \<Longrightarrow> ReleaseCursor (src b r (m # ms)) = (Inr (cursor_of (take m b)), src b r ms)"
  "m \<le> length b \<Longrightarrow> RestorePosition (src b r (m # ms)) = (Inr (), src (take m b) (drop m b @ r) ms)"
  "ThrowError what (src b r ms) = (Inl (Error (cursor_of b) what), src b r ms)"
  by (simp_all add: src_def source_defs bindM_def returnM_def Let_def ThrowError_def ThrowError_at_def throwM_def
      min.absorb2)

lemma advance_while_src [src_simps]:
  "advance_while P (src b r ms) = src (b @ takeWhile P r) (dropWhile P r) ms"
proof (induction r arbitrary: b)
  case (Cons c r)
  then show ?case by (subst advance_while.simps) (simp add: src_simps)
qed (subst advance_while.simps, simp add: src_simps)

lemma SkipChar_src [src_simps]:
  "SkipChar c (src b [] ms) = (False, src b [] ms)"
  "SkipChar c (src b (x # r) ms) = (if x = c then (True, src (b @ [x]) r ms) else (False, src b (x # r) ms))"
  by (simp_all add: SkipChar_def src_simps)

lemma InClass_src [src_simps]:
  "InClass k (src b (c # cs) ms) = (Inr (Contains k c), src b (c # cs) ms)"
  "NotInClass k (src b (c # cs) ms) = (Inr (\<not> Contains k c), src b (c # cs) ms)"
  by (simp_all add: InClass_def NotInClass_def bindM_def returnM_def src_simps)

text \<open>The longest common prefix of the searched string and of the text is what \<open>SkipString\<close> passes.\<close>

fun common_prefix :: "string \<Rightarrow> string \<Rightarrow> string" where
  "common_prefix (x # xs) (y # ys) = (if x = y then x # common_prefix xs ys else [])"
| "common_prefix _ _ = []"

lemma SkipString_src [src_simps]:
  "SkipString cs (src b r ms) =
     (common_prefix cs r = cs, src (b @ common_prefix cs r) (drop (length (common_prefix cs r)) r) ms)"
proof (induction cs arbitrary: b r)
  case (Cons c cs)
  then show ?case by (cases r) (auto simp: src_simps)
qed simp

section \<open>Properties\<close>

text \<open>The classification table built by the constructor gives every character class exactly the
  characters its name promises.\<close>

theorem CharClass_membership:
  "{c. Contains DECIMAL c} = set ''0123456789'' \<and> {c. Contains OCTAL c} = set ''01234567'' \<and>
   {c. Contains BINARY c} = set ''01'' \<and> {c. Contains NUMBER_HEAD c} = set ''-0123456789'' \<and>
   {c. Contains HEXADECIMAL c} = set ''0123456789ABCDEFabcdef'' \<and>
   {c. Contains LETTER c} = set ''ABCDEFGHIJKLMNOPQRSTUVWXYZabcdefghijklmnopqrstuvwxyz'' \<and>
   {c. Contains WHITESPACE c} = {CHR '' '', CHR 0x09, CHR 0x0A, CHR 0x0D} \<and>
   {c. Contains IDENTIFIER_HEAD c} = insert CHR ''_'' {c. Contains LETTER c} \<and>
   {c. Contains IDENTIFIER_TAIL c} = {c. Contains IDENTIFIER_HEAD c} \<union> {c. Contains DECIMAL c}"
  unfolding class_membership in_range_lists
  by auto

text \<open>On a text whose first character is any \<open>c\<close>, \<open>ReadIdentifier\<close> returns \<open>c\<close> followed by the longest
  run of letters, digits and underscores, leaves the source just behind it and leaves the marks as
  they were.\<close>

theorem Parser_ReadIdentifier:
  "ReadIdentifier (src b (c # r) ms) =
     (let w = takeWhile (Contains IDENTIFIER_TAIL) r in
      (Inr (c # w), src (b @ c # w) (dropWhile (Contains IDENTIFIER_TAIL) r) ms))"
  by (simp add: ReadIdentifier_def src_simps Let_def)

text \<open>The skipping operations: where each stops, and when it reports the end of the text.\<close>

theorem Parser_skipping:
  "WaitChar c (src b r ms) =
     (if c \<in> set r then Inr () else Inl EndOfFile, src (b @ takeWhile (\<lambda>x. x \<noteq> c) r) (dropWhile (\<lambda>x. x \<noteq> c) r) ms) \<and>
   SkipChars c (src b r ms) =
     (if set r \<subseteq> {c} then Inl EndOfFile else Inr (), src (b @ takeWhile (\<lambda>x. x = c) r) (dropWhile (\<lambda>x. x = c) r) ms) \<and>
   SkipCharClass2 k (src b r ms) =
     (if set r \<subseteq> {x. Contains k x} then Inl EndOfFile else Inr (),
      src (b @ takeWhile (Contains k) r) (dropWhile (Contains k) r) ms) \<and>
   SkipString cs (src b r ms) =
     (\<exists>r'. r = cs @ r', src (b @ common_prefix cs r) (drop (length (common_prefix cs r)) r) ms)"
proof -
  have "common_prefix cs r = cs \<longleftrightarrow> (\<exists>r'. r = cs @ r')"
    by (induction cs r rule: common_prefix.induct) auto
  then show ?thesis
    by (auto simp: WaitChar_def SkipChars_def SkipCharClass2_def found_or_end_def src_simps returnM_def throwM_def
        dropWhile_eq_Nil_conv)
qed

end
