(* ===== verification/Number_Literal.thy ===== *)
theory Number_Literal
  imports Text_Parser
begin

text \<open>
  \<^verbatim>\<open>tp/NumberBuilder.{hpp,cpp}\<close> and \<^verbatim>\<open>tp/NumberLiteralParser.{hpp,cpp}\<close>: the
  accumulators that turn digits into 64-bit integers or doubles, and the parsers of number literals
  that drive them. Doubles are a parameter: a record of the machine operations the code performs,
  over an arbitrary type \<open>'f\<close>. The \<^verbatim>\<open>do\<close> loops over digits are all \<open>digit_loop\<close>.
\<close>

section \<open>Number\<close>

datatype 'f Number = SignedInteger INT_64 | UnsignedInteger UINT_64 | Rational 'f

definition ZERO :: "'f Number" where "ZERO = SignedInteger 0"

fun IsInteger :: "'f Number \<Rightarrow> bool" where
  "IsInteger (Rational f) = False"
| "IsInteger _ = True"

definition IsRational :: "'f Number \<Rightarrow> bool" where "IsRational n \<longleftrightarrow> \<not> IsInteger n"

text \<open>The getters read the union whatever its type is; the integers share their bits, a double
  does not.\<close>

fun ToSignedInteger :: "'f Number \<Rightarrow> INT_64 option" where
  "ToSignedInteger (SignedInteger i) = Some i"
| "ToSignedInteger (UnsignedInteger u) = Some u"
| "ToSignedInteger (Rational f) = None"

fun ToUnsignedInteger :: "'f Number \<Rightarrow> UINT_64 option" where
  "ToUnsignedInteger (SignedInteger i) = Some i"
| "ToUnsignedInteger (UnsignedInteger u) = Some u"
| "ToUnsignedInteger (Rational f) = None"

fun ToDouble :: "'f Number \<Rightarrow> 'f option" where
  "ToDouble (Rational f) = Some f"
| "ToDouble _ = None"

section \<open>IntegerBuilder\<close>

definition MAX_UNSIGNED :: UINT_64 where "MAX_UNSIGNED = 0xFFFFFFFFFFFFFFFF"
definition MAX_SIGNED :: UINT_64 where "MAX_SIGNED = MAX_UNSIGNED div 2 + 1"

record IntegerBuilder =
  ib_value :: UINT_64
  ib_negative :: bool

definition IntegerBuilder_new :: IntegerBuilder where
  "IntegerBuilder_new = \<lparr>ib_value = 0, ib_negative = False\<rparr>"

definition IntegerBuilder_Release :: "IntegerBuilder \<Rightarrow> 'f Number" where
  "IntegerBuilder_Release b =
     (if ib_negative b then SignedInteger (- ib_value b) else UnsignedInteger (ib_value b))"

definition IntegerBuilder_SetNegative :: "IntegerBuilder \<Rightarrow> tp_error + IntegerBuilder" where
  "IntegerBuilder_SetNegative b =
     (if ib_negative b then Inr b
      else if ib_value b > MAX_SIGNED then Inl OverflowError
      else Inr (b\<lparr>ib_negative := True\<rparr>))"

definition can_append_digit :: "UINT_64 \<Rightarrow> bool \<Rightarrow> UINT_32 \<Rightarrow> bool" where
  "can_append_digit value isNegative digit =
     (if isNegative
      then value < MAX_SIGNED div 10 \<or> (value = MAX_SIGNED div 10 \<and> ucast digit \<le> MAX_SIGNED mod 10)
      else value < MAX_UNSIGNED div 10 \<or> (value = MAX_UNSIGNED div 10 \<and> ucast digit \<le> MAX_UNSIGNED mod 10))"

definition IntegerBuilder_CanAppendIntegerDigit :: "IntegerBuilder \<Rightarrow> UINT_32 \<Rightarrow> bool" where
  "IntegerBuilder_CanAppendIntegerDigit b digit = can_append_digit (ib_value b) (ib_negative b) digit"

definition OnDecimalDigit :: "UINT_32 \<Rightarrow> IntegerBuilder \<Rightarrow> tp_error + IntegerBuilder" where
  "OnDecimalDigit digit b =
     (if IntegerBuilder_CanAppendIntegerDigit b digit
      then Inr (b\<lparr>ib_value := 10 * ib_value b + ucast digit\<rparr>)
      else Inl OverflowError)"

definition OnBinaryDigit :: "UINT_32 \<Rightarrow> IntegerBuilder \<Rightarrow> tp_error + IntegerBuilder" where
  "OnBinaryDigit digit b =
     (if ib_value b > drop_bit 1 MAX_UNSIGNED + 1 then Inl OverflowError
      else Inr (b\<lparr>ib_value := push_bit 1 (ib_value b) + ucast digit\<rparr>))"

definition OnOctalDigit :: "UINT_32 \<Rightarrow> IntegerBuilder \<Rightarrow> tp_error + IntegerBuilder" where
  "OnOctalDigit digit b =
     (if ib_value b > drop_bit 3 MAX_UNSIGNED + 1 then Inl OverflowError
      else Inr (b\<lparr>ib_value := push_bit 3 (ib_value b) + ucast digit\<rparr>))"

definition OnHexadecimalDigit :: "UINT_32 \<Rightarrow> IntegerBuilder \<Rightarrow> tp_error + IntegerBuilder" where
  "OnHexadecimalDigit digit b =
     (if ib_value b > drop_bit 4 MAX_UNSIGNED + 1 then Inl OverflowError
      else Inr (b\<lparr>ib_value := push_bit 4 (ib_value b) + ucast digit\<rparr>))"

section \<open>NumberBuilder\<close>

record 'f NumberBuilder =
  nb_i :: UINT_64
  nb_f :: 'f
  exponent :: INT_32
  exponentDelta :: INT_32
  isNegative :: bool
  isNegativeExponent :: bool
  isFloat :: bool

definition MAX_EXPONENT :: INT_32 where "MAX_EXPONENT = 1000000"

definition NumberBuilder_new :: "'f double_ops \<Rightarrow> 'f NumberBuilder" where
  "NumberBuilder_new d = \<lparr>nb_i = 0, nb_f = d_of_int d 0, exponent = 0, exponentDelta = 0,
     isNegative = False, isNegativeExponent = False, isFloat = False\<rparr>"

definition SetFloat :: "'f double_ops \<Rightarrow> 'f NumberBuilder \<Rightarrow> 'f NumberBuilder" where
  "SetFloat d b = (if \<not> isFloat b then b\<lparr>nb_f := d_of_uint d (nb_i b), isFloat := True\<rparr> else b)"

definition NumberBuilder_CanAppendIntegerDigit :: "'f NumberBuilder \<Rightarrow> UINT_32 \<Rightarrow> bool" where
  "NumberBuilder_CanAppendIntegerDigit b digit = can_append_digit (nb_i b) (isNegative b) digit"

definition NumberBuilder_Release :: "'f double_ops \<Rightarrow> 'f NumberBuilder \<Rightarrow> 'f Number" where
  "NumberBuilder_Release d b =
     (if isFloat b then
        let e = (if isNegativeExponent b then - exponent b else exponent b) + exponentDelta b
        in Rational (d_mul d (if isNegative b then d_neg d (nb_f b) else nb_f b)
                             (d_pow d (d_of_int d 10) (d_of_int d (sint e))))
      else if isNegative b then SignedInteger (- nb_i b)
      else UnsignedInteger (nb_i b))"

definition NumberBuilder_SetNegative :: "'f double_ops \<Rightarrow> 'f NumberBuilder \<Rightarrow> 'f NumberBuilder" where
  "NumberBuilder_SetNegative d b =
     (if isNegative b then b
      else let b = b\<lparr>isNegative := True\<rparr>
           in if \<not> isFloat b \<and> nb_i b > MAX_SIGNED then SetFloat d b else b)"

definition mul10_add :: "'f double_ops \<Rightarrow> 'f \<Rightarrow> int \<Rightarrow> 'f" where
  "mul10_add d f digit = d_add d (d_mul d (d_of_int d 10) f) (d_of_int d digit)"

definition OnIntegerDigit :: "'f double_ops \<Rightarrow> UINT_32 \<Rightarrow> 'f NumberBuilder \<Rightarrow> 'f NumberBuilder" where
  "OnIntegerDigit d digit b =
     (if \<not> isFloat b \<and> NumberBuilder_CanAppendIntegerDigit b digit
      then b\<lparr>nb_i := 10 * nb_i b + ucast digit\<rparr>
      else let b = (if \<not> isFloat b then SetFloat d b else b)
           in b\<lparr>nb_f := mul10_add d (nb_f b) (uint digit)\<rparr>)"

definition OnFractionalDigit :: "'f double_ops \<Rightarrow> INT_32 \<Rightarrow> 'f NumberBuilder \<Rightarrow> 'f NumberBuilder" where
  "OnFractionalDigit d digit b =
     (let b = SetFloat d b
      in b\<lparr>nb_f := mul10_add d (nb_f b) (sint digit), exponentDelta := exponentDelta b - 1\<rparr>)"

definition SetNegativeExponent :: "'f double_ops \<Rightarrow> 'f NumberBuilder \<Rightarrow> 'f NumberBuilder" where
  "SetNegativeExponent d b = (SetFloat d b)\<lparr>isNegativeExponent := True\<rparr>"

definition OnExponentDigit :: "INT_32 \<Rightarrow> 'f NumberBuilder \<Rightarrow> 'f NumberBuilder" where
  "OnExponentDigit digit b =
     (if sint (exponent b) < sint MAX_EXPONENT then b\<lparr>exponent := 10 * exponent b + digit\<rparr> else b)"

section \<open>Digits\<close>

definition digit_of :: "char \<Rightarrow> INT_32" where
  "digit_of c = word_of_int (char_int c - char_int CHR ''0'')"

definition HexToInt :: "char \<Rightarrow> INT_32" where
  "HexToInt c =
     (if char_int c \<ge> char_int CHR ''a'' \<and> char_int c \<le> char_int CHR ''f''
      then word_of_int (char_int c - char_int CHR ''a'') + 10
      else if char_int c \<ge> char_int CHR ''A'' \<and> char_int c \<le> char_int CHR ''F''
      then word_of_int (char_int c - char_int CHR ''A'') + 10
      else word_of_int (char_int c - char_int CHR ''0''))"

definition peek :: "ConstCharPtr \<Rightarrow> char" where "peek s = chars s ! ptr s"

text \<open>\<^verbatim>\<open>do { on(GetChar()); Advance(); } while (NotAtEnd() && InClass(k))\<close>\<close>

function digit_loop :: "(char \<Rightarrow> 'b \<Rightarrow> tp_error + 'b) \<Rightarrow> CharClass \<Rightarrow> 'b \<Rightarrow> 'b parser" where
  "digit_loop on k b s =
     (if AtEnd s then (Inl OutOfBounds, s)
      else case on (peek s) b of
          Inl e \<Rightarrow> (Inl e, s)
        | Inr b \<Rightarrow> (let s = Advance s in
            if NotAtEnd s \<and> Contains k (peek s) then digit_loop on k b s else (Inr b, s)))"
  by pat_completeness auto
termination
  by (relation "measure (\<lambda>(on, k, b, s). length (chars s) - ptr s)")
    (auto simp: NotAtEnd_def AtEnd_def Advance_def)

declare digit_loop.simps [simp del]

definition catch_overflow :: "string \<Rightarrow> 'a parser \<Rightarrow> 'a parser" where
  "catch_overflow what m = catchM m (\<lambda>e. if e = OverflowError then ThrowError what else throwM e)"

section \<open>IntegerLiteralParser\<close>

definition radix_literal :: "CharClass \<Rightarrow> CharClass \<Rightarrow> (char \<Rightarrow> IntegerBuilder \<Rightarrow> tp_error + IntegerBuilder) \<Rightarrow>
    string \<Rightarrow> string \<Rightarrow> 'f Number parser" where
  "radix_literal k stop on expected tooBig s =
     (if AtEnd s \<or> \<not> Contains k (peek s) then ThrowError expected s
      else bindM (catch_overflow tooBig (digit_loop on k IntegerBuilder_new))
        (\<lambda>b s. if AtEnd s then returnM (IntegerBuilder_Release b) s
               else if Contains stop (peek s) then ThrowError expected s
               else returnM (IntegerBuilder_Release b) s) s)"

definition ParseBinary :: "'f Number parser" where
  "ParseBinary s = radix_literal BINARY DECIMAL (\<lambda>c. OnBinaryDigit (digit_of c))
     ''Binary digit expected'' ''Binary number is too big'' (Advance s)"

text \<open>\<open>ParseOctal\<close> does not check for the end first: its callers have seen a digit.\<close>

definition ParseOctal :: "'f Number parser" where
  "ParseOctal = bindM (NotInClass OCTAL)
     (\<lambda>b. if b then ThrowError ''Octal digit expected''
          else radix_literal OCTAL DECIMAL (\<lambda>c. OnOctalDigit (digit_of c))
            ''Octal digit expected'' ''Octal number is too big'')"

definition ParseHexadecimal :: "'f Number parser" where
  "ParseHexadecimal s = radix_literal HEXADECIMAL LETTER (\<lambda>c. OnHexadecimalDigit (HexToInt c))
     ''Hexadecimal digit expected'' ''Hexadecimal number is too big'' (Advance s)"

definition decimal_literal :: "IntegerBuilder \<Rightarrow> 'f Number parser" where
  "decimal_literal b = bindM (digit_loop (\<lambda>c. OnDecimalDigit (digit_of c)) DECIMAL b)
     (\<lambda>b. returnM (IntegerBuilder_Release b))"

definition IntegerLiteral_Parse :: "'f Number parser" where
  "IntegerLiteral_Parse = bindM GetChar (\<lambda>c s.
     if c = CHR ''0'' then
       let s = Advance s in
       if AtEnd s then returnM ZERO s
       else if peek s = CHR ''b'' then ParseBinary s
       else if peek s = CHR ''x'' then ParseHexadecimal s
       else if \<not> Contains DECIMAL (peek s) then returnM ZERO s
       else ParseOctal s
     else if c = CHR ''-'' then
       case IntegerBuilder_SetNegative IntegerBuilder_new of
         Inl e \<Rightarrow> (Inl e, s)
       | Inr b \<Rightarrow> (let s = Advance s in
           if AtEnd s \<or> \<not> Contains DECIMAL (peek s) then ThrowError ''Decimal digit expected'' s
           else decimal_literal b s)
     else decimal_literal IntegerBuilder_new s)"

section \<open>FloatLiteralParser\<close>

record FloatConfig =
  allow_trailing_point :: bool
  parse_binary :: bool
  parse_octal :: bool
  parse_hexadecimal :: bool

definition FloatConfig_of :: "UINT_32 \<Rightarrow> FloatConfig" where
  "FloatConfig_of flags = \<lparr>allow_trailing_point = (flags AND 1 \<noteq> 0), parse_binary = (flags AND 2 \<noteq> 0),
     parse_octal = (flags AND 4 \<noteq> 0), parse_hexadecimal = (flags AND 8 \<noteq> 0)\<rparr>"

text \<open>The only constructor passes no flags.\<close>

definition FloatLiteralParser_config :: FloatConfig where
  "FloatLiteralParser_config = FloatConfig_of 0"

definition ParseExponent :: "'f double_ops \<Rightarrow> 'f NumberBuilder \<Rightarrow> 'f Number parser" where
  "ParseExponent d b s =
     (let b = SetFloat d b; s = Advance s in
      if AtEnd s then ThrowError ''Decimal digit expected'' s
      else
        let c = peek s;
            b = (if c = CHR ''-'' then SetNegativeExponent d b else b);
            s = (if c = CHR ''-'' \<or> c = CHR ''+'' then Advance s else s)
        in if (c = CHR ''-'' \<or> c = CHR ''+'') \<and> AtEnd s then ThrowError ''Decimal digit expected'' s
           else if \<not> Contains DECIMAL (peek s) then ThrowError ''Decimal digit expected'' s
           else bindM (digit_loop (\<lambda>c b. Inr (OnExponentDigit (digit_of c) b)) DECIMAL b)
             (\<lambda>b. returnM (NumberBuilder_Release d b)) s)"

definition ParseFractional :: "FloatConfig \<Rightarrow> 'f double_ops \<Rightarrow> 'f NumberBuilder \<Rightarrow> 'f Number parser" where
  "ParseFractional cfg d b s =
     (let b = SetFloat d b; s = Advance s in
      if AtEnd s \<or> \<not> Contains DECIMAL (peek s) then
        if allow_trailing_point cfg then returnM (NumberBuilder_Release d b) s
        else ThrowError ''Decimal digit expected'' s
      else bindM (digit_loop (\<lambda>c b. Inr (OnFractionalDigit d (digit_of c) b)) DECIMAL b)
        (\<lambda>b s. if AtEnd s then returnM (NumberBuilder_Release d b) s
               else if peek s = CHR ''e'' \<or> peek s = CHR ''E'' then ParseExponent d b s
               else returnM (NumberBuilder_Release d b) s) s)"

definition float_integer_part :: "FloatConfig \<Rightarrow> 'f double_ops \<Rightarrow> 'f NumberBuilder \<Rightarrow> 'f Number parser" where
  "float_integer_part cfg d b =
     bindM (digit_loop (\<lambda>c b. Inr (OnIntegerDigit d (digit_of c) b)) DECIMAL b)
       (\<lambda>b s. if AtEnd s then returnM (NumberBuilder_Release d b) s
              else if peek s = CHR ''.'' then ParseFractional cfg d b s
              else if peek s = CHR ''e'' \<or> peek s = CHR ''E'' then ParseExponent d b s
              else returnM (NumberBuilder_Release d b) s)"

definition FloatLiteral_Parse :: "FloatConfig \<Rightarrow> 'f double_ops \<Rightarrow> 'f Number parser" where
  "FloatLiteral_Parse cfg d = bindM GetChar (\<lambda>c s.
     let b = NumberBuilder_new d in
     if c = CHR ''0'' then
       let s = Advance s in
       if AtEnd s then returnM ZERO s
       else if peek s = CHR ''.'' then ParseFractional cfg d b s
       else if peek s = CHR ''e'' \<or> peek s = CHR ''E'' then ParseExponent d b s
       else if peek s = CHR ''b'' then (if parse_binary cfg then ParseBinary s else returnM ZERO s)
       else if peek s = CHR ''x'' then (if parse_hexadecimal cfg then ParseHexadecimal s else returnM ZERO s)
       else if \<not> Contains DECIMAL (peek s) then returnM ZERO s
       else if parse_octal cfg then ParseOctal s
       else float_integer_part cfg d b s
     else if c = CHR ''-'' then
       let b = NumberBuilder_SetNegative d b; s = Advance s in
       if AtEnd s \<or> \<not> Contains DECIMAL (peek s) then ThrowError ''Decimal digit expected'' s
       else float_integer_part cfg d b s
     else float_integer_part cfg d b s)"

section \<open>Loops over digits\<close>

primrec digits_fold :: "(char \<Rightarrow> 'b \<Rightarrow> tp_error + 'b) \<Rightarrow> string \<Rightarrow> 'b \<Rightarrow> tp_error + 'b" where
  "digits_fold on [] b = Inr b"
| "digits_fold on (c # cs) b = (case on c b of Inl e \<Rightarrow> Inl e | Inr b' \<Rightarrow> digits_fold on cs b')"

lemma peek_src [src_simps]: "peek (src b (c # cs) ms) = c"
  by (simp add: peek_def src_simps)

definition stops_at :: "CharClass \<Rightarrow> string \<Rightarrow> bool" where
  "stops_at k r \<longleftrightarrow> (case r of [] \<Rightarrow> True | c # _ \<Rightarrow> \<not> Contains k c)"

lemma digit_loop_unfold:
  "digit_loop on k b (src p (c # r) ms) =
     (case on c b of
        Inl e \<Rightarrow> (Inl e, src p (c # r) ms)
      | Inr b' \<Rightarrow> if stops_at k r then (Inr b', src (p @ [c]) r ms) else digit_loop on k b' (src (p @ [c]) r ms))"
  by (subst digit_loop.simps) (cases r; simp add: src_simps stops_at_def Let_def split: sum.split)

lemma digit_loop_src:
  assumes "set ds \<subseteq> Collect (Contains k)" "ds \<noteq> []" "stops_at k r"
  shows "case digits_fold on ds b of
      Inl e \<Rightarrow> \<exists>x y. ds @ r = x @ y \<and> digit_loop on k b (src p (ds @ r) ms) = (Inl e, src (p @ x) y ms)
    | Inr b' \<Rightarrow> digit_loop on k b (src p (ds @ r) ms) = (Inr b', src (p @ ds) r ms)"
  using assms
proof (induction ds arbitrary: b p)
  case (Cons c cs)
  show ?case
  proof (cases "on c b")
    case (Inl e)
    then show ?thesis by (auto simp: digit_loop_unfold intro: exI [of _ "[]"])
  next
    case (Inr b')
    show ?thesis
    proof (cases cs)
      case Nil
      then show ?thesis using Inr Cons.prems by (simp add: digit_loop_unfold)
    next
      case (Cons c' cs')
      then have "\<not> stops_at k (cs @ r)" using Cons.prems by (simp add: stops_at_def)
      then have l: "digit_loop on k b (src p (c # cs @ r) ms) = digit_loop on k b' (src (p @ [c]) (cs @ r) ms)"
        using Inr by (simp add: digit_loop_unfold)
      show ?thesis
      proof (cases "digits_fold on cs b'")
        case (Inl e)
        then obtain x y where "cs @ r = x @ y" "digit_loop on k b' (src (p @ [c]) (cs @ r) ms) = (Inl e, src (p @ [c] @ x) y ms)"
          using Cons.IH [where b = b' and p = "p @ [c]"] Cons.prems \<open>cs = _\<close> by auto
        then have "(c # cs) @ r = (c # x) @ y \<and>
            digit_loop on k b (src p ((c # cs) @ r) ms) = (Inl e, src (p @ (c # x)) y ms)"
          using l by simp
        then have "\<exists>x y. (c # cs) @ r = x @ y \<and>
            digit_loop on k b (src p ((c # cs) @ r) ms) = (Inl e, src (p @ x) y ms)"
          by blast
        then show ?thesis using Inl \<open>on c b = Inr b'\<close> by simp
      next
        case (Inr b2)
        then show ?thesis using \<open>on c b = Inr b'\<close> l Cons.IH [where b = b' and p = "p @ [c]"] Cons.prems \<open>cs = _\<close> by simp
      qed
    qed
  qed
qed simp

lemma digit_loop_Inr:
  assumes "set ds \<subseteq> Collect (Contains k)" "ds \<noteq> []" "stops_at k r" "digits_fold on ds b = Inr b'"
  shows "digit_loop on k b (src p (ds @ r) ms) = (Inr b', src (p @ ds) r ms)"
  using digit_loop_src [OF assms(1-3), of on b p ms] assms(4) by simp

lemma digit_loop_Inl:
  assumes "set ds \<subseteq> Collect (Contains k)" "ds \<noteq> []" "stops_at k r" "digits_fold on ds b = Inl e"
  shows "fst (digit_loop on k b (src p (ds @ r) ms)) = Inl e"
  using digit_loop_src [OF assms(1-3), of on b p ms] assms(4) by auto

section \<open>Values of digit strings\<close>

definition positional :: "nat \<Rightarrow> (char \<Rightarrow> nat) \<Rightarrow> nat \<Rightarrow> string \<Rightarrow> nat" where
  "positional base dig v ds = foldl (\<lambda>v c. base * v + dig c) v ds"

lemma positional_simps [simp]:
  "positional base dig v [] = v"
  "positional base dig v (c # cs) = positional base dig (base * v + dig c) cs"
  by (simp_all add: positional_def)

lemma positional_ge: "0 < base \<Longrightarrow> v \<le> positional base dig v ds"
proof (induction ds arbitrary: v)
  case (Cons c cs)
  have "v \<le> base * v + dig c" using Cons.prems by (simp add: trans_le_add1)
  then show ?case using Cons.IH [of "base * v + dig c"] Cons.prems by simp
qed simp

definition dec_digit :: "char \<Rightarrow> nat" where "dec_digit c = char_index c - 48"

definition hex_digit :: "char \<Rightarrow> nat" where
  "hex_digit c = (if in_range CHR ''a'' CHR ''f'' c then char_index c - 87
                  else if in_range CHR ''A'' CHR ''F'' c then char_index c - 55 else char_index c - 48)"

lemma digit_of_dec:
  "Contains DECIMAL c \<Longrightarrow> dec_digit c \<le> 9 \<and> digit_of c = of_nat (dec_digit c)"
  "Contains OCTAL c \<Longrightarrow> dec_digit c \<le> 7 \<and> digit_of c = of_nat (dec_digit c)"
  "Contains BINARY c \<Longrightarrow> dec_digit c \<le> 1 \<and> digit_of c = of_nat (dec_digit c)"
  by (auto simp: classes in_range_def dec_digit_def digit_of_def char_int_def of_nat_diff)

lemma HexToInt_hex: "Contains HEXADECIMAL c \<Longrightarrow> hex_digit c \<le> 15 \<and> HexToInt c = of_nat (hex_digit c)"
  by (auto simp: classes in_range_def hex_digit_def HexToInt_def char_int_def of_nat_diff)

section \<open>The integer accumulator\<close>

definition int_limit :: "bool \<Rightarrow> nat" where
  "int_limit neg = (if neg then 2 ^ 63 else 2 ^ 64 - 1)"

lemma max_values: "MAX_UNSIGNED div 10 = 1844674407370955161" "MAX_UNSIGNED mod 10 = 5"
  "MAX_SIGNED div 10 = 922337203685477580" "MAX_SIGNED mod 10 = 8"
  by (simp_all add: MAX_UNSIGNED_def MAX_SIGNED_def)

lemma ucast_digit: "d < 2 ^ 32 \<Longrightarrow> (ucast (of_nat d :: UINT_32) :: UINT_64) = of_nat d"
  by (simp add: unsigned_of_nat take_bit_nat_eq_self)

lemma can_append_digit_iff:
  assumes "v \<le> int_limit neg" "d \<le> 9"
  shows "can_append_digit (of_nat v) neg (of_nat d) \<longleftrightarrow> 10 * v + d \<le> int_limit neg"
proof -
  have v: "unat (of_nat v :: UINT_64) = v"
    using assms(1) by (simp add: int_limit_def unat_of_nat take_bit_nat_eq_self split: if_splits)
  have d: "unat (ucast (of_nat d :: UINT_32) :: UINT_64) = d"
    using assms(2) by (simp add: ucast_digit unat_of_nat take_bit_nat_eq_self)
  show ?thesis
    using assms by (auto simp: can_append_digit_def max_values word_less_nat_alt word_le_nat_alt v d int_limit_def
        word_unat_eq_iff)
qed

lemma decimal_digits_fold:
  assumes "set ds \<subseteq> Collect (Contains DECIMAL)" "v \<le> int_limit neg"
  shows "digits_fold (\<lambda>c. OnDecimalDigit (digit_of c)) ds \<lparr>ib_value = of_nat v, ib_negative = neg\<rparr> =
    (if positional 10 dec_digit v ds \<le> int_limit neg
     then Inr \<lparr>ib_value = of_nat (positional 10 dec_digit v ds), ib_negative = neg\<rparr>
     else Inl OverflowError)"
  using assms
proof (induction ds arbitrary: v)
  case (Cons c cs)
  have d: "dec_digit c \<le> 9" "digit_of c = of_nat (dec_digit c)" using digit_of_dec(1) [of c] Cons.prems by auto
  note app = can_append_digit_iff [OF Cons.prems(2) d(1)]
  show ?case
  proof (cases "10 * v + dec_digit c \<le> int_limit neg")
    case True
    then show ?thesis using Cons.IH [OF _ True] Cons.prems app d
      by (simp add: OnDecimalDigit_def IntegerBuilder_CanAppendIntegerDigit_def ucast_digit)
  next
    case False
    moreover have "10 * v + dec_digit c \<le> positional 10 dec_digit (10 * v + dec_digit c) cs"
      by (rule positional_ge) simp
    ultimately show ?thesis using app d
      by (simp add: OnDecimalDigit_def IntegerBuilder_CanAppendIntegerDigit_def)
  qed
qed simp

definition on_radix :: "nat \<Rightarrow> UINT_32 \<Rightarrow> IntegerBuilder \<Rightarrow> tp_error + IntegerBuilder" where
  "on_radix k digit b =
     (if ib_value b > drop_bit k MAX_UNSIGNED + 1 then Inl OverflowError
      else Inr (b\<lparr>ib_value := push_bit k (ib_value b) + ucast digit\<rparr>))"

lemma on_radix_cases: "OnBinaryDigit = on_radix 1" "OnOctalDigit = on_radix 3" "OnHexadecimalDigit = on_radix 4"
  by (simp_all add: fun_eq_iff on_radix_def OnBinaryDigit_def OnOctalDigit_def OnHexadecimalDigit_def)

lemma radix_digits_fold:
  assumes "\<And>c. c \<in> set ds \<Longrightarrow> dig c < 2 ^ k \<and> conv c = of_nat (dig c)" "k = 1 \<or> k = 3 \<or> k = 4"
    "positional (2 ^ k) dig v ds < 2 ^ 64"
  shows "digits_fold (\<lambda>c. on_radix k (conv c)) ds \<lparr>ib_value = of_nat v, ib_negative = False\<rparr> =
    Inr \<lparr>ib_value = of_nat (positional (2 ^ k) dig v ds), ib_negative = False\<rparr>"
  using assms(1,3)
proof (induction ds arbitrary: v)
  case (Cons c cs)
  have le: "2 ^ k * v + dig c < 2 ^ 64"
    using positional_ge [of "2 ^ k" "2 ^ k * v + dig c" dig cs] Cons.prems(2) by simp
  have "v \<le> unat (drop_bit k MAX_UNSIGNED + 1)" "v < 2 ^ 64" using assms(2) le by (auto simp: MAX_UNSIGNED_def)
  then have "\<not> of_nat v > drop_bit k MAX_UNSIGNED + 1"
    by (simp add: word_less_nat_alt unat_of_nat take_bit_nat_eq_self)
  then have "on_radix k (conv c) \<lparr>ib_value = of_nat v, ib_negative = False\<rparr> =
      Inr \<lparr>ib_value = of_nat (2 ^ k * v + dig c), ib_negative = False\<rparr>"
    using Cons.prems(1) [of c] assms(2)
    by (auto simp: on_radix_def push_bit_eq_mult ucast_digit mult.commute)
  then show ?case using Cons.IH [of "2 ^ k * v + dig c"] Cons.prems by simp
qed simp

section \<open>Integer literals\<close>

lemma stops_at_hd: "stops_at k r \<Longrightarrow> r \<noteq> [] \<Longrightarrow> \<not> Contains k (hd r)"
  by (cases r) (auto simp: stops_at_def)

lemma decimal_literal_src:
  assumes "set ds \<subseteq> Collect (Contains DECIMAL)" "ds \<noteq> []" "stops_at DECIMAL r"
  shows "\<exists>t. decimal_literal \<lparr>ib_value = 0, ib_negative = neg\<rparr> (src p (ds @ r) ms) =
      (if positional 10 dec_digit 0 ds \<le> int_limit neg
       then (Inr (IntegerBuilder_Release \<lparr>ib_value = of_nat (positional 10 dec_digit 0 ds), ib_negative = neg\<rparr>),
         src (p @ ds) r ms)
       else (Inl OverflowError, t))"
proof (cases "positional 10 dec_digit 0 ds \<le> int_limit neg")
  case True
  then show ?thesis
    using digit_loop_Inr [OF assms, where on = "\<lambda>c. OnDecimalDigit (digit_of c)" and p = p and ms = ms]
      decimal_digits_fold [OF assms(1), of 0 neg]
    by (simp add: decimal_literal_def bindM_def returnM_def)
next
  case False
  let ?l = "digit_loop (\<lambda>c. OnDecimalDigit (digit_of c)) DECIMAL \<lparr>ib_value = 0, ib_negative = neg\<rparr> (src p (ds @ r) ms)"
  have "fst ?l = Inl OverflowError"
    using False decimal_digits_fold [OF assms(1), of 0 neg] by (intro digit_loop_Inl [OF assms]) simp
  then obtain t where "?l = (Inl OverflowError, t)" by (metis prod.collapse)
  then show ?thesis using False by (simp add: decimal_literal_def bindM_def)
qed

lemma radix_literal_src:
  assumes "set ds \<subseteq> Collect (Contains k)" "ds \<noteq> []" "stops_at k r" "stops_at stop r"
    "digits_fold on ds IntegerBuilder_new = Inr b"
  shows "radix_literal k stop on expected tooBig (src p (ds @ r) ms) =
    (Inr (IntegerBuilder_Release b), src (p @ ds) r ms)"
proof -
  obtain c cs where c: "ds = c # cs" "Contains k c" using assms(1,2) by (cases ds) auto
  have "catch_overflow tooBig (digit_loop on k IntegerBuilder_new) (src p (ds @ r) ms) = (Inr b, src (p @ ds) r ms)"
    using digit_loop_Inr [OF assms(1-3,5)] by (simp add: catch_overflow_def catchM_def)
  then show ?thesis using c assms(4)
    by (cases r) (auto simp: radix_literal_def src_simps bindM_def returnM_def stops_at_def)
qed

lemma char_cases:
  "Contains DECIMAL c \<Longrightarrow> c \<noteq> CHR ''-'' \<and> c \<noteq> CHR ''b'' \<and> c \<noteq> CHR ''x'' \<and> c \<noteq> CHR ''.'' \<and> c \<noteq> CHR ''e'' \<and> c \<noteq> CHR ''E''"
  by (auto simp: classes in_range_lists)

section \<open>Float literals\<close>

lemma sint_small: "n < 2 ^ 31 \<Longrightarrow> sint (of_nat n :: INT_32) = int n"
  by (simp add: signed_of_nat signed_take_bit_int_eq_self)

lemma sint_int_small: "- (2 ^ 31) \<le> k \<Longrightarrow> k < 2 ^ 31 \<Longrightarrow> sint (word_of_int k :: INT_32) = k"
  by (simp add: signed_of_int signed_take_bit_int_eq_self)

lemma integer_digits_fold:
  assumes "set ds \<subseteq> Collect (Contains DECIMAL)" "positional 10 dec_digit v ds \<le> int_limit (isNegative b)"
    "\<not> isFloat b" "nb_i b = of_nat v"
  shows "digits_fold (\<lambda>c b. Inr (OnIntegerDigit d (digit_of c) b)) ds b =
    Inr (b\<lparr>nb_i := of_nat (positional 10 dec_digit v ds)\<rparr>)"
  using assms
proof (induction ds arbitrary: v b)
  case (Cons c cs)
  have d: "dec_digit c \<le> 9" "digit_of c = of_nat (dec_digit c)" using digit_of_dec(1) [of c] Cons.prems by auto
  have le: "10 * v + dec_digit c \<le> int_limit (isNegative b)"
    using positional_ge [of 10 "10 * v + dec_digit c" dec_digit cs] Cons.prems(2) by simp
  then have "v \<le> int_limit (isNegative b)" by simp
  from can_append_digit_iff [OF this d(1)] le
  have "OnIntegerDigit d (digit_of c) b = b\<lparr>nb_i := of_nat (10 * v + dec_digit c)\<rparr>"
    using Cons.prems d by (simp add: OnIntegerDigit_def NumberBuilder_CanAppendIntegerDigit_def ucast_digit)
  then show ?case using Cons.IH [of "10 * v + dec_digit c" "b\<lparr>nb_i := of_nat (10 * v + dec_digit c)\<rparr>"] Cons.prems
    by simp
qed simp

definition fraction_value :: "'f double_ops \<Rightarrow> 'f \<Rightarrow> string \<Rightarrow> 'f" where
  "fraction_value d f fs = foldl (\<lambda>f c. mul10_add d f (int (dec_digit c))) f fs"

lemma fractional_digits_fold:
  assumes "set fs \<subseteq> Collect (Contains DECIMAL)" "isFloat b"
  shows "digits_fold (\<lambda>c b. Inr (OnFractionalDigit d (digit_of c) b)) fs b =
    Inr (b\<lparr>nb_f := fraction_value d (nb_f b) fs, exponentDelta := exponentDelta b - of_nat (length fs)\<rparr>)"
  using assms
proof (induction fs arbitrary: b)
  case (Cons c cs)
  have "dec_digit c \<le> 9" "digit_of c = of_nat (dec_digit c)" using digit_of_dec(1) [of c] Cons.prems by auto
  then have "OnFractionalDigit d (digit_of c) b =
      b\<lparr>nb_f := mul10_add d (nb_f b) (int (dec_digit c)), exponentDelta := exponentDelta b - 1\<rparr>"
    using Cons.prems by (simp add: OnFractionalDigit_def SetFloat_def sint_small)
  then show ?case using Cons.IH [of "OnFractionalDigit d (digit_of c) b"] Cons.prems
    by (simp add: fraction_value_def algebra_simps)
qed (simp add: fraction_value_def)

lemma exponent_digits_fold:
  assumes "set es \<subseteq> Collect (Contains DECIMAL)" "positional 10 dec_digit v es < 10000000" "exponent b = of_nat v"
  shows "digits_fold (\<lambda>c b. Inr (OnExponentDigit (digit_of c) b)) es b =
    Inr (b\<lparr>exponent := of_nat (positional 10 dec_digit v es)\<rparr>)"
  using assms
proof (induction es arbitrary: v b)
  case (Cons c cs)
  have d: "digit_of c = of_nat (dec_digit c)" using digit_of_dec(1) [of c] Cons.prems by auto
  have "10 * v + dec_digit c < 10000000"
    using positional_ge [of 10 "10 * v + dec_digit c" dec_digit cs] Cons.prems(2) by simp
  then have "sint (of_nat v :: INT_32) < 1000000" using sint_small [of v] by simp
  then have "OnExponentDigit (digit_of c) b = b\<lparr>exponent := of_nat (10 * v + dec_digit c)\<rparr>"
    using Cons.prems d by (simp add: OnExponentDigit_def MAX_EXPONENT_def)
  then show ?case using Cons.IH [of "10 * v + dec_digit c" "b\<lparr>exponent := of_nat (10 * v + dec_digit c)\<rparr>"] Cons.prems
    by simp
qed simp

lemma sint_exponent:
  assumes "x < 10000000" "n < 1000000000"
  shows "sint ((if neg then - of_nat x else of_nat x) - of_nat n :: INT_32) =
    (if neg then - int x else int x) - int n"
proof -
  have "(if neg then - of_nat x else of_nat x) - of_nat n =
      (word_of_int ((if neg then - int x else int x) - int n) :: INT_32)" by simp
  moreover have "sint (word_of_int ((if neg then - int x else int x) - int n) :: INT_32) =
      (if neg then - int x else int x) - int n"
    using assms by (intro sint_int_small) auto
  ultimately show ?thesis by metis
qed

datatype sign = NoSign | Plus | Minus

fun sign_chars :: "sign \<Rightarrow> string" where
  "sign_chars NoSign = []" | "sign_chars Plus = ''+''" | "sign_chars Minus = ''-''"

lemma ParseExponent_src:
  assumes "set es \<subseteq> Collect (Contains DECIMAL)" "es \<noteq> []" "stops_at DECIMAL r"
    "positional 10 dec_digit 0 es < 10000000" "isFloat b" "exponent b = 0"
  shows "ParseExponent d b (src p (x # sign_chars sg @ es @ r) ms) =
    (Inr (NumberBuilder_Release d (b\<lparr>isNegativeExponent := isNegativeExponent b \<or> sg = Minus,
        exponent := of_nat (positional 10 dec_digit 0 es)\<rparr>)),
     src (p @ x # sign_chars sg @ es) r ms)"
proof -
  obtain c cs where c: "es = c # cs" "Contains DECIMAL c" using assms(1,2) by (cases es) auto
  then have cc: "c \<noteq> CHR ''-''" "c \<noteq> CHR ''+''" by (auto simp: classes in_range_lists)
  define b' where "b' = b\<lparr>isNegativeExponent := isNegativeExponent b \<or> sg = Minus\<rparr>"
  have b': "exponent b' = of_nat 0" using assms(6) by (simp add: b'_def)
  have "ParseExponent d b (src p (x # sign_chars sg @ es @ r) ms) =
      bindM (digit_loop (\<lambda>c b. Inr (OnExponentDigit (digit_of c) b)) DECIMAL b')
        (\<lambda>b. returnM (NumberBuilder_Release d b)) (src (p @ x # sign_chars sg) (es @ r) ms)"
    using c cc assms(5)
    by (cases sg) (simp_all add: ParseExponent_def SetFloat_def SetNegativeExponent_def src_simps Let_def b'_def)
  then show ?thesis
    using digit_loop_Inr [OF assms(1-3) exponent_digits_fold [OF assms(1,4) b'], where p = "p @ x # sign_chars sg" and ms = ms]
    by (simp add: bindM_def returnM_def b'_def)
qed

lemma ParseFractional_src:
  assumes "set fs \<subseteq> Collect (Contains DECIMAL)" "fs \<noteq> []"
    "set es \<subseteq> Collect (Contains DECIMAL)" "es \<noteq> []" "stops_at DECIMAL r"
    "positional 10 dec_digit 0 es < 10000000" "exponent b = 0" "\<not> isFloat b" "\<not> isNegativeExponent b"
    "exponentDelta b = 0" "x = CHR ''e'' \<or> x = CHR ''E''" "length fs < 1000000000"
  shows "ParseFractional cfg d b (src p (CHR ''.'' # fs @ x # sign_chars sg @ es @ r) ms) =
    (let f = fraction_value d (d_of_uint d (nb_i b)) fs;
         e = (if sg = Minus then - int (positional 10 dec_digit 0 es) else int (positional 10 dec_digit 0 es)) - int (length fs)
     in (Inr (Rational (d_mul d (if isNegative b then d_neg d f else f) (d_pow d (d_of_int d 10) (d_of_int d e)))),
         src (p @ CHR ''.'' # fs @ x # sign_chars sg @ es) r ms))"
proof -
  obtain c cs where c: "fs = c # cs" "Contains DECIMAL c" using assms(1,2) by (cases fs) auto
  let ?r = "x # sign_chars sg @ es @ r"
  have st: "stops_at DECIMAL ?r" using assms(11) by (auto simp: stops_at_def classes in_range_lists)
  define b1 where "b1 = SetFloat d b"
  define b2 where "b2 = b1\<lparr>nb_f := fraction_value d (nb_f b1) fs, exponentDelta := exponentDelta b1 - of_nat (length fs)\<rparr>"
  have b1: "isFloat b1" "exponent b1 = 0" "nb_f b1 = d_of_uint d (nb_i b)" "exponentDelta b1 = 0"
    "isNegativeExponent b1 = False" "isNegative b1 = isNegative b"
    using assms(7-10) by (simp_all add: b1_def SetFloat_def)
  have b2: "isFloat b2" "exponent b2 = 0" using b1 by (simp_all add: b2_def)
  have "digit_loop (\<lambda>c b. Inr (OnFractionalDigit d (digit_of c) b)) DECIMAL b1 (src (p @ ''.'') (fs @ ?r) ms) =
      (Inr b2, src (p @ CHR ''.'' # fs) ?r ms)"
    using digit_loop_Inr [OF assms(1,2) st fractional_digits_fold [OF assms(1) b1(1)], where p = "p @ ''.''" and ms = ms]
    by (simp add: b2_def)
  moreover note ParseExponent_src [OF assms(3-6) b2, of d "p @ CHR ''.'' # fs" x sg ms]
  moreover have "ParseFractional cfg d b (src p (CHR ''.'' # fs @ ?r) ms) =
      bindM (digit_loop (\<lambda>c b. Inr (OnFractionalDigit d (digit_of c) b)) DECIMAL b1)
        (\<lambda>b s. if AtEnd s then returnM (NumberBuilder_Release d b) s
               else if peek s = CHR ''e'' \<or> peek s = CHR ''E'' then ParseExponent d b s
               else returnM (NumberBuilder_Release d b) s) (src (p @ ''.'') (fs @ ?r) ms)"
    using c by (simp add: ParseFractional_def src_simps Let_def b1_def)
  moreover have "sint ((if sg = Minus then - of_nat (positional 10 dec_digit 0 es) else of_nat (positional 10 dec_digit 0 es)) -
      of_nat (length fs) :: INT_32) =
      (if sg = Minus then - int (positional 10 dec_digit 0 es) else int (positional 10 dec_digit 0 es)) - int (length fs)"
    by (rule sint_exponent [OF assms(6,12)])
  ultimately show ?thesis using assms(11) b1
    by (auto simp: bindM_def src_simps NumberBuilder_Release_def b2_def Let_def)
qed

lemma FloatLiteral_integer:
  assumes "set ds \<subseteq> Collect (Contains DECIMAL)" "ds \<noteq> []" "neg \<or> hd ds \<noteq> CHR ''0''"
    "positional 10 dec_digit 0 ds \<le> int_limit neg" "stops_at DECIMAL r"
    "r = [] \<or> hd r \<notin> {CHR ''.'', CHR ''e'', CHR ''E''}"
  shows "FloatLiteral_Parse cfg d (src p ((if neg then ''-'' else []) @ ds @ r) ms) =
    (Inr (if neg then SignedInteger (- of_nat (positional 10 dec_digit 0 ds))
          else UnsignedInteger (of_nat (positional 10 dec_digit 0 ds))),
     src (p @ (if neg then ''-'' else []) @ ds) r ms)"
proof -
  let ?n = "positional 10 dec_digit 0 ds"
  let ?b = "\<lambda>n. \<lparr>nb_i = of_nat n, nb_f = d_of_int d 0, exponent = 0, exponentDelta = 0,
     isNegative = neg, isNegativeExponent = False, isFloat = False\<rparr>"
  let ?pre = "p @ (if neg then ''-'' else [])"
  obtain c cs where c: "ds = c # cs" "Contains DECIMAL c" using assms(1,2) by (cases ds) auto
  note cc = char_cases [OF c(2)]
  have "digits_fold (\<lambda>c b. Inr (OnIntegerDigit d (digit_of c) b)) ds (?b 0) = Inr (?b ?n)"
    using integer_digits_fold [OF assms(1), of 0 "?b 0" d] assms(4) by simp
  then have l: "digit_loop (\<lambda>c b. Inr (OnIntegerDigit d (digit_of c) b)) DECIMAL (?b 0) (src ?pre (ds @ r) ms) =
      (Inr (?b ?n), src (?pre @ ds) r ms)"
    by (intro digit_loop_Inr [OF assms(1,2,5)])
  have part: "float_integer_part cfg d (?b 0) (src ?pre (ds @ r) ms) =
      (Inr (NumberBuilder_Release d (?b ?n)), src (?pre @ ds) r ms)"
    using assms(6) unfolding float_integer_part_def bindM_def l by (cases r) (auto simp: src_simps returnM_def)
  have "FloatLiteral_Parse cfg d (src p ((if neg then ''-'' else []) @ ds @ r) ms) =
      float_integer_part cfg d (?b 0) (src ?pre (ds @ r) ms)"
    using c cc assms(3)
    by (cases neg) (simp_all add: FloatLiteral_Parse_def bindM_def src_simps NumberBuilder_new_def
        NumberBuilder_SetNegative_def MAX_SIGNED_def MAX_UNSIGNED_def Let_def)
  also note part
  finally show ?thesis by (cases neg) (simp_all add: NumberBuilder_Release_def)
qed

section \<open>Properties\<close>

text \<open>C30. A decimal literal that does not start with 0, optionally negated, is read exactly up to the
  first character that is not a digit, and yields its value if that value fits 64 bits (unsigned, or
  signed when negative, down to $-2^{63}$); otherwise, and only then, the overflow error is thrown.\<close>

theorem IntegerLiteral_decimal:
  assumes "set ds \<subseteq> Collect (Contains DECIMAL)" "ds \<noteq> []" "stops_at DECIMAL r" "neg \<or> hd ds \<noteq> CHR ''0''"
  shows "\<exists>t. IntegerLiteral_Parse (src p ((if neg then ''-'' else []) @ ds @ r) ms) =
    (let n = positional 10 dec_digit 0 ds in
     if n \<le> (if neg then 2 ^ 63 else 2 ^ 64 - 1)
     then (Inr (if neg then SignedInteger (- of_nat n) else UnsignedInteger (of_nat n) :: 'f Number),
           src (p @ (if neg then ''-'' else []) @ ds) r ms)
     else (Inl OverflowError, t))"
proof -
  obtain c cs where c: "ds = c # cs" "Contains DECIMAL c" using assms(1,2) by (cases ds) auto
  note cc = char_cases [OF c(2)]
  have "(IntegerLiteral_Parse (src p ((if neg then ''-'' else []) @ ds @ r) ms) :: (tp_error + 'f Number) \<times> _) =
      decimal_literal \<lparr>ib_value = 0, ib_negative = neg\<rparr> (src (p @ (if neg then ''-'' else [])) (ds @ r) ms)"
  proof (cases neg)
    case True
    then show ?thesis using c
      by (simp add: IntegerLiteral_Parse_def bindM_def src_simps IntegerBuilder_SetNegative_def
          IntegerBuilder_new_def MAX_SIGNED_def MAX_UNSIGNED_def)
  next
    case False
    then show ?thesis using c cc assms(4)
      by (simp add: IntegerLiteral_Parse_def bindM_def src_simps IntegerBuilder_new_def)
  qed
  also obtain t where "\<dots> = (if positional 10 dec_digit 0 ds \<le> int_limit neg
       then (Inr (IntegerBuilder_Release \<lparr>ib_value = of_nat (positional 10 dec_digit 0 ds), ib_negative = neg\<rparr>),
         src (p @ (if neg then ''-'' else []) @ ds) r ms)
       else (Inl OverflowError, t))"
    using decimal_literal_src [OF assms(1-3), of neg "p @ (if neg then ''-'' else [])" ms] unfolding append_assoc by blast
  finally show ?thesis by (auto simp: Let_def int_limit_def IntegerBuilder_Release_def)
qed

theorem IntegerLiteral_decimal_witness:
  "fst (IntegerLiteral_Parse (ConstCharPtr_new ''-9223372036854775808;'')) =
     Inr (SignedInteger 0x8000000000000000 :: unit Number) \<and>
   fst (IntegerLiteral_Parse (ConstCharPtr_new ''-9223372036854775809;'') :: (tp_error + unit Number) \<times> _) =
     Inl OverflowError"
proof -
  have v: "positional 10 dec_digit 0 ''9223372036854775808'' = 9223372036854775808"
    "positional 10 dec_digit 0 ''9223372036854775809'' = 9223372036854775809"
    by (simp_all add: dec_digit_def char_index_def)
  have h: "set ''9223372036854775808'' \<subseteq> Collect (Contains DECIMAL)"
    "set ''9223372036854775809'' \<subseteq> Collect (Contains DECIMAL)" "stops_at DECIMAL '';''"
    by (simp_all add: classes in_range_lists stops_at_def)
  show ?thesis
    using IntegerLiteral_decimal [OF h(1) _ h(3), where 'f = unit and neg = True and p = "[]" and ms = "[]"]
      IntegerLiteral_decimal [OF h(2) _ h(3), where 'f = unit and neg = True and p = "[]" and ms = "[]"]
    unfolding v by (auto simp: src_simps Let_def)
qed

text \<open>A hexadecimal literal whose value fits 64 bits is read exactly, digit by digit, whatever the
  case of its digits; so is a binary literal.\<close>

theorem IntegerLiteral_radix:
  assumes "set hs \<subseteq> Collect (Contains HEXADECIMAL)" "hs \<noteq> []" "stops_at HEXADECIMAL r" "stops_at LETTER r"
    "positional 16 hex_digit 0 hs < 2 ^ 64"
    "set bs \<subseteq> Collect (Contains BINARY)" "bs \<noteq> []" "stops_at DECIMAL q" "positional 2 dec_digit 0 bs < 2 ^ 64"
  shows "IntegerLiteral_Parse (src p (''0x'' @ hs @ r) ms) =
      (Inr (UnsignedInteger (of_nat (positional 16 hex_digit 0 hs))), src (p @ ''0x'' @ hs) r ms) \<and>
    IntegerLiteral_Parse (src p (''0b'' @ bs @ q) ms) =
      (Inr (UnsignedInteger (of_nat (positional 2 dec_digit 0 bs))), src (p @ ''0b'' @ bs) q ms)"
proof -
  have "stops_at BINARY q" using assms(8) by (auto simp: stops_at_def classes in_range_def split: list.splits)
  have h: "digits_fold (\<lambda>c. OnHexadecimalDigit (HexToInt c)) hs IntegerBuilder_new =
      Inr \<lparr>ib_value = of_nat (positional 16 hex_digit 0 hs), ib_negative = False\<rparr>"
    using radix_digits_fold [of hs hex_digit 4 HexToInt 0] HexToInt_hex assms(1,5)
    by (fastforce simp: on_radix_cases IntegerBuilder_new_def)
  have b: "digits_fold (\<lambda>c. OnBinaryDigit (digit_of c)) bs IntegerBuilder_new =
      Inr \<lparr>ib_value = of_nat (positional 2 dec_digit 0 bs), ib_negative = False\<rparr>"
    using radix_digits_fold [of bs dec_digit 1 digit_of 0] digit_of_dec(3) assms(6,9)
    by (fastforce simp: on_radix_cases IntegerBuilder_new_def)
  show ?thesis
    by (simp add: radix_literal_src [OF assms(1-4) h] radix_literal_src [OF assms(6,7) \<open>stops_at BINARY q\<close> assms(8) b]
        IntegerLiteral_Parse_def bindM_def src_simps ParseHexadecimal_def ParseBinary_def Let_def
        IntegerBuilder_Release_def)
qed

theorem IntegerLiteral_radix_witness:
  "IntegerLiteral_Parse (ConstCharPtr_new ''0xFf,'') = (Inr (UnsignedInteger 255), src ''0xFf'' '','' []) \<and>
   IntegerLiteral_Parse (ConstCharPtr_new ''0b101'') = (Inr (UnsignedInteger 5), src ''0b101'' [] [])"
  using IntegerLiteral_radix [of "''Ff''" "'',''" "''101''" "[]" "[]" "[]"]
  by (simp add: src_simps classes in_range_lists stops_at_def hex_digit_def dec_digit_def char_index_def)

text \<open>The overflow test of the binary, octal and hexadecimal accumulators admits one value too many:
  the 65-bit literal 0x10000000000000000 is accepted and silently becomes 0, and so do the binary and octal
  numerals of $2^{64}$.\<close>

theorem IntegerLiteral_radix_wraps:
  "fst (IntegerLiteral_Parse (ConstCharPtr_new ''0x10000000000000000'')) = Inr (UnsignedInteger 0) \<and>
   fst (IntegerLiteral_Parse (ConstCharPtr_new
     ''0b10000000000000000000000000000000000000000000000000000000000000000'')) = Inr (UnsignedInteger 0) \<and>
   fst (IntegerLiteral_Parse (ConstCharPtr_new ''02000000000000000000000'')) = Inr (UnsignedInteger 0)"
proof -
  have h: "radix_literal HEXADECIMAL LETTER (\<lambda>c. OnHexadecimalDigit (HexToInt c)) ex big (src p ds ms)
      = (Inr (UnsignedInteger 0), src (p @ ds) [] ms)" if "ds = ''10000000000000000''" for ex big p ms ds
    using radix_literal_src [of ds HEXADECIMAL "[]" LETTER "\<lambda>c. OnHexadecimalDigit (HexToInt c)"
        "\<lparr>ib_value = 0, ib_negative = False\<rparr>"] that
    by (simp add: classes in_range_lists stops_at_def IntegerBuilder_new_def OnHexadecimalDigit_def HexToInt_def
        char_int_def char_index_def MAX_UNSIGNED_def IntegerBuilder_Release_def)
  have o: "radix_literal OCTAL DECIMAL (\<lambda>c. OnOctalDigit (digit_of c)) ex big (src p ds ms)
      = (Inr (UnsignedInteger 0), src (p @ ds) [] ms)" if "ds = ''2000000000000000000000''" for ex big p ms ds
    using radix_literal_src [of ds OCTAL "[]" DECIMAL "\<lambda>c. OnOctalDigit (digit_of c)"
        "\<lparr>ib_value = 0, ib_negative = False\<rparr>"] that
    by (simp add: classes in_range_lists stops_at_def IntegerBuilder_new_def OnOctalDigit_def digit_of_def
        char_int_def char_index_def MAX_UNSIGNED_def IntegerBuilder_Release_def)
  have b: "radix_literal BINARY DECIMAL (\<lambda>c. OnBinaryDigit (digit_of c)) ex big (src p ds ms)
      = (Inr (UnsignedInteger 0), src (p @ ds) [] ms)"
    if "ds = ''10000000000000000000000000000000000000000000000000000000000000000''" for ex big p ms ds
    using radix_literal_src [of ds BINARY "[]" DECIMAL "\<lambda>c. OnBinaryDigit (digit_of c)"
        "\<lparr>ib_value = 0, ib_negative = False\<rparr>"] that
    by (simp add: classes in_range_lists stops_at_def IntegerBuilder_new_def OnBinaryDigit_def digit_of_def
        char_int_def char_index_def MAX_UNSIGNED_def IntegerBuilder_Release_def)
  show ?thesis
    by (simp add: IntegerLiteral_Parse_def bindM_def src_simps ParseHexadecimal_def ParseBinary_def ParseOctal_def
        Let_def classes in_range_lists h o b)
qed

text \<open>A float literal with an integer part that fits the integer range, a fraction and an exponent is
  read exactly to its end; its value is the integer part extended digit by digit with the fraction, times ten to
  the power of the written exponent less the number of fraction digits, whatever the machine's double
  operations are.\<close>

theorem FloatLiteral_value:
  assumes "set ds \<subseteq> Collect (Contains DECIMAL)" "ds \<noteq> []" "neg \<or> hd ds \<noteq> CHR ''0'' \<or> ds = ''0''"
    "positional 10 dec_digit 0 ds \<le> (if neg then 2 ^ 63 else 2 ^ 64 - 1)"
    "set fs \<subseteq> Collect (Contains DECIMAL)" "fs \<noteq> []" "length fs < 1000000000"
    "set es \<subseteq> Collect (Contains DECIMAL)" "es \<noteq> []" "positional 10 dec_digit 0 es < 10000000"
    "stops_at DECIMAL r" "x = CHR ''e'' \<or> x = CHR ''E''"
  shows "FloatLiteral_Parse FloatLiteralParser_config d
      (src p ((if neg then ''-'' else []) @ ds @ CHR ''.'' # fs @ x # sign_chars sg @ es @ r) ms) =
    (let f = fraction_value d (d_of_uint d (of_nat (positional 10 dec_digit 0 ds))) fs;
         e = (if sg = Minus then - int (positional 10 dec_digit 0 es) else int (positional 10 dec_digit 0 es)) - int (length fs)
     in (Inr (Rational (d_mul d (if neg then d_neg d f else f) (d_pow d (d_of_int d 10) (d_of_int d e)))),
         src (p @ (if neg then ''-'' else []) @ ds @ CHR ''.'' # fs @ x # sign_chars sg @ es) r ms))"
proof -
  let ?t = "fs @ x # sign_chars sg @ es @ r"
  let ?b = "\<lambda>n. \<lparr>nb_i = of_nat n, nb_f = d_of_int d 0, exponent = 0, exponentDelta = 0,
     isNegative = neg, isNegativeExponent = False, isFloat = False\<rparr> :: 'a NumberBuilder"
  let ?pre = "p @ (if neg then ''-'' else [])"
  obtain c cs where c: "ds = c # cs" "Contains DECIMAL c" using assms(1,2) by (cases ds) auto
  note cc = char_cases [OF c(2)]
  have "stops_at DECIMAL (CHR ''.'' # ?t)" by (simp add: stops_at_def classes in_range_lists)
  moreover have "digits_fold (\<lambda>c b. Inr (OnIntegerDigit d (digit_of c) b)) ds (?b 0) =
      Inr (?b (positional 10 dec_digit 0 ds))"
    using integer_digits_fold [OF assms(1), of 0 "?b 0" d] assms(4) by (simp add: int_limit_def)
  ultimately have "digit_loop (\<lambda>c b. Inr (OnIntegerDigit d (digit_of c) b)) DECIMAL (?b 0) (src ?pre (ds @ CHR ''.'' # ?t) ms) =
      (Inr (?b (positional 10 dec_digit 0 ds)), src (?pre @ ds) (CHR ''.'' # ?t) ms)"
    by (intro digit_loop_Inr [OF assms(1,2)])
  then have part: "float_integer_part cfg d (?b 0) (src ?pre (ds @ CHR ''.'' # ?t) ms) =
      ParseFractional cfg d (?b (positional 10 dec_digit 0 ds)) (src (?pre @ ds) (CHR ''.'' # ?t) ms)" for cfg
    by (simp add: float_integer_part_def bindM_def src_simps)
  have "FloatLiteral_Parse FloatLiteralParser_config d (src p ((if neg then ''-'' else []) @ ds @ CHR ''.'' # ?t) ms) =
      ParseFractional FloatLiteralParser_config d (?b (positional 10 dec_digit 0 ds)) (src (?pre @ ds) (CHR ''.'' # ?t) ms)"
  proof (cases neg)
    case True
    then show ?thesis using c part
      by (simp add: FloatLiteral_Parse_def bindM_def src_simps NumberBuilder_new_def NumberBuilder_SetNegative_def
          MAX_SIGNED_def MAX_UNSIGNED_def)
  next
    case False
    show ?thesis
    proof (cases "c = CHR ''0''")
      case True
      then have "ds = ''0''" using assms(3) c False by simp
      then show ?thesis using False
        by (simp add: FloatLiteral_Parse_def bindM_def src_simps NumberBuilder_new_def dec_digit_def Let_def)
    next
      case c0: False
      then show ?thesis using c cc part False
        by (simp add: FloatLiteral_Parse_def bindM_def src_simps NumberBuilder_new_def Let_def)
    qed
  qed
  also have "\<dots> = (let f = fraction_value d (d_of_uint d (of_nat (positional 10 dec_digit 0 ds))) fs;
         e = (if sg = Minus then - int (positional 10 dec_digit 0 es) else int (positional 10 dec_digit 0 es)) - int (length fs)
     in (Inr (Rational (d_mul d (if neg then d_neg d f else f) (d_pow d (d_of_int d 10) (d_of_int d e)))),
         src ((?pre @ ds) @ CHR ''.'' # fs @ x # sign_chars sg @ es) r ms))"
    using ParseFractional_src [OF assms(5,6,8,9,11,10) _ _ _ _ assms(12,7), of "?b (positional 10 dec_digit 0 ds)"
        FloatLiteralParser_config d "?pre @ ds" sg ms]
    by simp
  finally show ?thesis by simp
qed

text \<open>The witness reads \<open>-3.25E+2\<close> over doubles instantiated by the integers.\<close>

definition int_ops :: "int double_ops" where
  "int_ops = \<lparr>d_of_uint = uint, d_of_int = id, d_add = (+), d_mul = (*), d_div = (div),
     d_neg = uminus, d_pow = (\<lambda>a b. a ^ nat b), d_to_int = word_of_int, d_print = (\<lambda>_. [])\<rparr>"

theorem FloatLiteral_value_witness:
  "FloatLiteral_Parse FloatLiteralParser_config int_ops (ConstCharPtr_new ''-3.25E+2;'') =
    (Inr (Rational (- 325)), src ''-3.25E+2'' '';'' [])"
  using FloatLiteral_value [of "''3''" True "''25''" "''2''" "'';''" "CHR ''E''" int_ops "[]" Plus "[]"]
  by (simp add: src_simps classes in_range_lists stops_at_def dec_digit_def char_index_def fraction_value_def
      mul10_add_def int_ops_def)

end
