(* ===== verification/String_Utils.thy ===== *)
theory String_Utils
  imports Algorithm
begin

text \<open>
  \<^verbatim>\<open>StringUtils.{hpp,cpp}\<close> and the widths of \<^verbatim>\<open>TypeTraits.hpp\<close>: case conversion,
  recognition and conversion of numbers in C strings, printing of integers into a fixed buffer, and the
  splitter. A C string is the list of its characters up to the terminator, a pointer into it is the
  suffix it points to, and reading the end of the list gives the terminator. Integers are converted on
  words, so an overflow wraps as it does for unsigned types.
\<close>

section \<open>Type traits\<close>

definition AlignedCeil :: "nat \<Rightarrow> nat \<Rightarrow> nat" where
  "AlignedCeil value alignment = ((value - 1) div alignment + 1) * alignment"

fun MaxDecDigits :: "nat \<Rightarrow> nat" where
  "MaxDecDigits byteSize =
     (if byteSize = 1 then 3 else if byteSize = 2 then 5 else if byteSize = 4 then 10
      else if byteSize = 8 then 20 else 0)"

definition MaxDecChars_unsigned :: "nat \<Rightarrow> nat" where
  "MaxDecChars_unsigned byteSize = MaxDecDigits byteSize"

definition MaxDecChars_signed :: "nat \<Rightarrow> nat" where
  "MaxDecChars_signed byteSize = MaxDecDigits byteSize + 1"

definition MinSignedValue :: "nat \<Rightarrow> int" where "MinSignedValue byteSize = - (2 ^ (8 * byteSize - 1))"
definition MaxSignedValue :: "nat \<Rightarrow> int" where "MaxSignedValue byteSize = 2 ^ (8 * byteSize - 1) - 1"
definition MaxUnsignedValue :: "nat \<Rightarrow> nat" where "MaxUnsignedValue byteSize = 2 ^ (8 * byteSize) - 1"

section \<open>C strings\<close>

definition deref :: "string \<Rightarrow> char" where
  "deref p = (case p of [] \<Rightarrow> CHR 0x00 | c # _ \<Rightarrow> c)"

definition c_str :: "string \<Rightarrow> string" where
  "c_str s = takeWhile (\<lambda>c. c \<noteq> CHR 0x00) s"

section \<open>Case\<close>

definition lower_char :: "char \<Rightarrow> char" where
  "lower_char c =
     (if char_int c \<ge> char_int CHR ''A'' \<and> char_int c \<le> char_int CHR ''Z''
      then char_wrap (char_int c + (char_int CHR ''a'' - char_int CHR ''A'')) else c)"

definition upper_char :: "char \<Rightarrow> char" where
  "upper_char c =
     (if char_int c \<ge> char_int CHR ''a'' \<and> char_int c \<le> char_int CHR ''z''
      then char_wrap (char_int c + (char_int CHR ''A'' - char_int CHR ''a'')) else c)"

definition ToLowerCase :: "string \<Rightarrow> string" where "ToLowerCase s = map lower_char s"
definition ToUpperCase :: "string \<Rightarrow> string" where "ToUpperCase s = map upper_char s"
definition LowerCased :: "string \<Rightarrow> string" where "LowerCased s = ToLowerCase s"
definition UpperCased :: "string \<Rightarrow> string" where "UpperCased s = ToUpperCase s"

section \<open>Recognising numbers\<close>

definition digit_char :: "char \<Rightarrow> bool" where
  "digit_char c \<longleftrightarrow> char_int c \<ge> char_int CHR ''0'' \<and> char_int c \<le> char_int CHR ''9''"

definition IsDigit :: "string \<Rightarrow> bool" where "IsDigit s = digit_char (deref s)"

text \<open>\<^verbatim>\<open>do { ++s; } while (IsDigit(s))\<close>, entered at a digit\<close>

fun skip_digits :: "string \<Rightarrow> string" where
  "skip_digits [] = []"
| "skip_digits (c # s) = (if IsDigit s then skip_digits s else s)"

definition skip_minus :: "string \<Rightarrow> string" where
  "skip_minus s = (if deref s = CHR ''-'' then tl s else s)"

text \<open>\<open>None\<close> is the null pointer.\<close>

definition IsInteger_ptr :: "string option \<Rightarrow> bool" where
  "IsInteger_ptr p = (case p of None \<Rightarrow> False | Some s \<Rightarrow>
     if deref s = CHR 0x00 then False
     else let s = skip_minus s in
       if \<not> IsDigit s then False else deref (skip_digits s) = CHR 0x00)"

definition IsInteger_str :: "string \<Rightarrow> bool" where "IsInteger_str s = IsInteger_ptr (Some (c_str s))"

text \<open>The three parts of \<open>IsNumber\<close>; \<open>None\<close> is an early \<^verbatim>\<open>return false\<close>.\<close>

definition number_integer :: "string \<Rightarrow> string option" where
  "number_integer s = (let s = skip_minus s in if \<not> IsDigit s then None else Some (skip_digits s))"

definition number_fraction :: "string \<Rightarrow> string option" where
  "number_fraction s =
     (if deref s = CHR ''.'' then let s = tl s in if \<not> IsDigit s then None else Some (skip_digits s)
      else Some s)"

definition number_exponent :: "string \<Rightarrow> string option" where
  "number_exponent s =
     (if deref s = CHR ''e'' \<or> deref s = CHR ''E'' then
        let s = tl s; s = (if deref s = CHR ''+'' \<or> deref s = CHR ''-'' then tl s else s)
        in if \<not> IsDigit s then None else Some (skip_digits s)
      else Some s)"

definition IsNumber_ptr :: "string option \<Rightarrow> bool" where
  "IsNumber_ptr p = (case p of None \<Rightarrow> False | Some s \<Rightarrow>
     if deref s = CHR 0x00 then False
     else case number_integer s of None \<Rightarrow> False | Some s \<Rightarrow>
       (case number_fraction s of None \<Rightarrow> False | Some s \<Rightarrow>
         (case number_exponent s of None \<Rightarrow> False | Some s \<Rightarrow> deref s = CHR 0x00)))"

definition IsNumber_str :: "string \<Rightarrow> bool" where "IsNumber_str s = IsNumber_ptr (Some (c_str s))"

section \<open>Reading numbers\<close>

definition char_digit :: "char \<Rightarrow> int" where "char_digit c = char_int c - char_int CHR ''0''"

text \<open>A loop over decimal digits with any accumulator; it returns the pointer behind them.\<close>

fun read_digits :: "('r \<Rightarrow> char \<Rightarrow> 'r) \<Rightarrow> 'r \<Rightarrow> string \<Rightarrow> 'r \<times> string" where
  "read_digits f r [] = (r, [])"
| "read_digits f r (c # p) = (if digit_char c then read_digits f (f r c) p else (r, c # p))"

definition add_digit :: "'a::len word \<Rightarrow> char \<Rightarrow> 'a word" where
  "add_digit r c = 10 * r + word_of_int (char_digit c)"

fun ReadDecimalDigits :: "INT_64 \<Rightarrow> nat \<Rightarrow> nat \<Rightarrow> string \<Rightarrow> INT_64 \<times> nat \<times> string" where
  "ReadDecimalDigits r maxDigits wasRead [] = (r, wasRead, [])"
| "ReadDecimalDigits r maxDigits wasRead (c # p) =
     (if digit_char c \<and> maxDigits > 0
      then ReadDecimalDigits (add_digit r c) (maxDigits - 1) (wasRead + 1) p
      else (r, wasRead, c # p))"

definition StringToInteger_ptr :: "string option \<Rightarrow> string option \<times> 'a::len word" where
  "StringToInteger_ptr src = (case src of None \<Rightarrow> (None, 0) | Some p \<Rightarrow>
     if deref p = CHR 0x00 then (Some p, 0)
     else let negative = (deref p = CHR ''-''); p = (if negative then tl p else p);
              (r, p) = read_digits add_digit 0 p
          in (Some p, if negative then - r else r))"

definition StringToInteger :: "string \<Rightarrow> 'a::len word" where
  "StringToInteger src = snd (StringToInteger_ptr (Some (c_str src)))"

definition float_digit :: "'f double_ops \<Rightarrow> 'f \<Rightarrow> char \<Rightarrow> 'f" where
  "float_digit d r c = d_add d (d_mul d (d_of_int d 10) r) (d_of_int d (char_digit c))"

definition float_fraction_digit :: "'f double_ops \<Rightarrow> 'f \<times> 'f \<Rightarrow> char \<Rightarrow> 'f \<times> 'f" where
  "float_fraction_digit d r c =
     (case r of (r, k) \<Rightarrow>
       let k = d_div d k (d_of_int d 10) in (d_add d r (d_mul d (d_of_int d (char_digit c)) k), k))"

text \<open>The exponent is a \<^verbatim>\<open>long long\<close> passed to the \<^verbatim>\<open>unsigned int\<close> of \<open>Pow\<close>.\<close>

definition float_exponent :: "'f double_ops \<Rightarrow> 'f \<Rightarrow> string \<Rightarrow> 'f" where
  "float_exponent d r p =
     (if deref p = CHR ''e'' \<or> deref p = CHR ''E'' then
        let p = tl p;
            negativeExponent = (deref p = CHR ''-'');
            p = (if deref p = CHR ''+'' \<or> deref p = CHR ''-'' then tl p else p);
            e = fst (read_digits add_digit (0 :: INT_64) p);
            x = Pow (d_mul d) (d_of_int d 1) (d_of_int d 10) (unat (ucast e :: UINT_32))
        in if negativeExponent then d_div d r x else d_mul d r x
      else r)"

definition StringToFloat_ptr :: "'f double_ops \<Rightarrow> string option \<Rightarrow> 'f" where
  "StringToFloat_ptr d src = (case src of None \<Rightarrow> d_of_int d 0 | Some p \<Rightarrow>
     if deref p = CHR 0x00 then d_of_int d 0
     else let negative = (deref p = CHR ''-''); p = (if negative then tl p else p);
              (r, p) = read_digits (float_digit d) (d_of_int d 0) p;
              (r, p) = (if deref p = CHR ''.''
                        then case read_digits (float_fraction_digit d) (r, d_of_int d 1) (tl p) of
                               ((r, _), p) \<Rightarrow> (r, p)
                        else (r, p));
              r = float_exponent d r p
          in if negative then d_neg d r else r)"

definition StringToFloat :: "'f double_ops \<Rightarrow> string \<Rightarrow> 'f" where
  "StringToFloat d src = StringToFloat_ptr d (Some (c_str src))"

section \<open>Printing integers\<close>

text \<open>The buffer is filled from its end: \<open>out\<close> is what has been written.\<close>

fun unsigned_loop :: "nat \<Rightarrow> string \<Rightarrow> string" where
  "unsigned_loop value out =
     (let out = char_wrap (char_int CHR ''0'' + int (value mod 10)) # out; value = value div 10
      in if value \<noteq> 0 then unsigned_loop value out else out)"

declare unsigned_loop.simps [simp del]

definition ReverseStringifyUnsignedInteger :: "nat \<Rightarrow> string \<Rightarrow> string" where
  "ReverseStringifyUnsignedInteger value out =
     (if value = 0 then CHR ''0'' # out else unsigned_loop value out)"

lemma sdiv_10: "x sdiv 10 = sgn x * (\<bar>x\<bar> div 10)" for x :: int
  by (simp add: signed_divide_int_def)

lemma smod_10: "x smod 10 = sgn x * (\<bar>x\<bar> mod 10)" for x :: int
  by (simp add: signed_modulo_int_def)

lemma sdiv_10_decreases: "v sdiv 10 \<noteq> 0 \<Longrightarrow> v \<noteq> 0 \<and> \<bar>v sdiv 10\<bar> < \<bar>v\<bar>" for v :: int
  by (auto simp: sdiv_10 abs_mult)

text \<open>\<^verbatim>\<open>%\<close> and \<^verbatim>\<open>/\<close> truncate towards zero; \<open>sign\<close> is 1 in the loop over a positive
  value and -1 in the loop over a negative one.\<close>

function signed_loop :: "int \<Rightarrow> int \<Rightarrow> string \<Rightarrow> string" where
  "signed_loop sign value out =
     (let out = char_wrap (char_int CHR ''0'' + sign * (value smod 10)) # out; value' = value sdiv 10
      in if value' \<noteq> 0 then signed_loop sign value' out else out)"
  by pat_completeness auto

termination
  by (relation "measure (\<lambda>(sign, v, out). nat \<bar>v\<bar>)") (simp_all add: sdiv_10_decreases)

declare signed_loop.simps [simp del]

definition ReverseStringifySignedInteger :: "int \<Rightarrow> string \<Rightarrow> string" where
  "ReverseStringifySignedInteger value out =
     (if value = 0 then CHR ''0'' # out
      else if value > 0 then signed_loop 1 value out
      else CHR ''-'' # signed_loop (- 1) value out)"

definition IntegerStringifier_BUFFER_SIZE :: "nat \<Rightarrow> nat" where
  "IntegerStringifier_BUFFER_SIZE maxDecChars = AlignedCeil (maxDecChars + 1) 8"

definition IntegerToString_unsigned :: "nat \<Rightarrow> string" where
  "IntegerToString_unsigned value = ReverseStringifyUnsignedInteger value []"

definition IntegerToString_signed :: "int \<Rightarrow> string" where
  "IntegerToString_signed value = ReverseStringifySignedInteger value []"

definition FloatStringifier_BUFFER_SIZE :: nat where "FloatStringifier_BUFFER_SIZE = 32"

text \<open>\<^verbatim>\<open>snprintf(buffer_, 32, "%g", value)\<close> cuts its output to the buffer.\<close>

definition FloatStringifier :: "'f double_ops \<Rightarrow> 'f \<Rightarrow> string" where
  "FloatStringifier d value =
     (let out = d_print d value; size = length out
      in if size \<ge> FloatStringifier_BUFFER_SIZE then take (FloatStringifier_BUFFER_SIZE - 1) out else out)"

section \<open>StringSplitter\<close>

record StringSplitter =
  source :: string
  begin_at :: "string option"
  delimiter :: char

definition StringSplitter_new :: "string \<Rightarrow> char \<Rightarrow> StringSplitter" where
  "StringSplitter_new s c = \<lparr>source = s, begin_at = Some s, delimiter = c\<rparr>"

text \<open>The text before the first delimiter and the pointer to it, if there is one.\<close>

definition strchr :: "string \<Rightarrow> char \<Rightarrow> string option" where
  "strchr s c = (if c = CHR 0x00 then Some [] else if c \<in> set s then Some (dropWhile (\<lambda>x. x \<noteq> c) s) else None)"

definition GetNext :: "StringSplitter \<Rightarrow> string option \<times> StringSplitter" where
  "GetNext p = (case begin_at p of None \<Rightarrow> (None, p) | Some b \<Rightarrow>
     (case strchr b (delimiter p) of
        Some e \<Rightarrow> (Some (take (length b - length e) b), p\<lparr>begin_at := Some (tl e)\<rparr>)
      | None \<Rightarrow> (Some b, p\<lparr>begin_at := None\<rparr>)))"

section \<open>Characters\<close>

lemma char_int_literals:
  "char_int CHR ''0'' = 48" "char_int CHR ''9'' = 57" "char_int CHR ''A'' = 65" "char_int CHR ''Z'' = 90"
  "char_int CHR ''a'' = 97" "char_int CHR ''z'' = 122"
  by (simp_all add: char_int_def char_index_def)

lemma lower_upper_char:
  "lower_char (lower_char c) = lower_char c" "upper_char (upper_char c) = upper_char c"
  "lower_char (upper_char c) = lower_char c" "upper_char (lower_char c) = upper_char c"
  by (auto simp: lower_char_def upper_char_def char_int_literals char_int_wrap)

lemma digit_char_iff: "digit_char c \<longleftrightarrow> 48 \<le> char_int c \<and> char_int c \<le> 57"
  by (simp add: digit_char_def char_int_literals)

lemma digit_char_of: "0 \<le> d \<Longrightarrow> d \<le> 9 \<Longrightarrow> digit_char (char_wrap (48 + d)) \<and> char_digit (char_wrap (48 + d)) = d"
  by (simp add: digit_char_iff char_digit_def char_int_literals char_int_wrap)

lemma non_digits [simp]:
  "\<not> digit_char CHR 0x00" "\<not> digit_char CHR ''-''" "\<not> digit_char CHR ''+''" "\<not> digit_char CHR ''.''"
  "\<not> digit_char CHR ''e''" "\<not> digit_char CHR ''E''"
  by (simp_all add: digit_char_iff char_int_def char_index_def)

section \<open>Scanning\<close>

lemma deref_simps [simp]: "deref [] = CHR 0x00" "deref (c # p) = c"
  by (simp_all add: deref_def)

lemma IsDigit_simps [simp]: "\<not> IsDigit []" "IsDigit (c # p) \<longleftrightarrow> digit_char c"
  by (simp_all add: IsDigit_def)

lemma skip_digits_dropWhile: "skip_digits (c # p) = dropWhile digit_char p"
  by (induction p arbitrary: c) auto

lemma deref_end: "CHR 0x00 \<notin> set p \<Longrightarrow> deref p = CHR 0x00 \<longleftrightarrow> p = []"
  by (cases p) auto

lemma c_str_id: "CHR 0x00 \<notin> set s \<Longrightarrow> c_str s = s"
  by (auto simp: c_str_def takeWhile_eq_all_conv)

definition digits :: "string \<Rightarrow> bool" where
  "digits ds \<longleftrightarrow> ds \<noteq> [] \<and> (\<forall>c\<in>set ds. digit_char c)"

text \<open>Reading a non-empty run of digits from the front of a string.\<close>

lemma skip_digits_split:
  "IsDigit s \<longleftrightarrow> (\<exists>ds r. s = ds @ r \<and> digits ds \<and> \<not> IsDigit r)"
  "digits ds \<Longrightarrow> \<not> IsDigit r \<Longrightarrow> skip_digits (ds @ r) = r"
proof -
  show "IsDigit s \<longleftrightarrow> (\<exists>ds r. s = ds @ r \<and> digits ds \<and> \<not> IsDigit r)"
  proof
    assume "IsDigit s"
    then obtain c p where s: "s = c # p" "digit_char c" by (cases s) auto
    then have "s = (c # takeWhile digit_char p) @ dropWhile digit_char p" by simp
    moreover have "digits (c # takeWhile digit_char p)"
      using s by (auto simp: digits_def dest: set_takeWhileD)
    moreover have "\<not> IsDigit (dropWhile digit_char p)" by (induction p) auto
    ultimately show "\<exists>ds r. s = ds @ r \<and> digits ds \<and> \<not> IsDigit r" by blast
  next
    assume "\<exists>ds r. s = ds @ r \<and> digits ds \<and> \<not> IsDigit r"
    then show "IsDigit s" by (auto simp: digits_def neq_Nil_conv)
  qed
next
  assume ds: "digits ds" "\<not> IsDigit r"
  then obtain c cs where c: "ds = c # cs" by (auto simp: digits_def neq_Nil_conv)
  have "dropWhile digit_char (cs @ r) = r"
    using ds c by (cases r) (auto simp: digits_def dropWhile_append2)
  then show "skip_digits (ds @ r) = r" by (simp only: c skip_digits_dropWhile append_Cons)
qed

lemma skip_digits_exists:
  assumes "IsDigit s"
  obtains ds r where "s = ds @ r" "digits ds" "\<not> IsDigit r" "skip_digits s = r"
  using skip_digits_split(1) [of s] skip_digits_split(2) assms by metis

lemma skip_digits_iff: "IsDigit t \<and> skip_digits t = r \<longleftrightarrow> (\<exists>ds. t = ds @ r \<and> digits ds \<and> \<not> IsDigit r)"
  using skip_digits_split(1) [of t] skip_digits_split(2) by metis

lemma digits_to_end:
  assumes "CHR 0x00 \<notin> set u"
  shows "IsDigit u \<and> deref (skip_digits u) = CHR 0x00 \<longleftrightarrow> digits u"
proof
  assume h: "IsDigit u \<and> deref (skip_digits u) = CHR 0x00"
  then obtain ds r where r: "u = ds @ r" "digits ds" "skip_digits u = r" using skip_digits_exists by metis
  then have "r = []" using h assms deref_end [of r] by auto
  then show "digits u" using r by simp
next
  assume "digits u"
  then show "IsDigit u \<and> deref (skip_digits u) = CHR 0x00"
    using skip_digits_split(2) [of u "[]"] by (auto simp: digits_def neq_Nil_conv)
qed

section \<open>The grammars\<close>

definition minus_opt :: "string \<Rightarrow> bool" where "minus_opt m \<longleftrightarrow> m = [] \<or> m = ''-''"

definition integer_grammar :: "string \<Rightarrow> bool" where
  "integer_grammar s \<longleftrightarrow> (\<exists>m ds. s = m @ ds \<and> minus_opt m \<and> digits ds)"

definition fraction_grammar :: "string \<Rightarrow> bool" where
  "fraction_grammar f \<longleftrightarrow> f = [] \<or> (\<exists>ds. f = CHR ''.'' # ds \<and> digits ds)"

definition exponent_grammar :: "string \<Rightarrow> bool" where
  "exponent_grammar e \<longleftrightarrow> e = [] \<or>
     (\<exists>x sg ds. e = x # sg @ ds \<and> x \<in> {CHR ''e'', CHR ''E''} \<and> sg \<in> {[], ''+'', ''-''} \<and> digits ds)"

definition number_grammar :: "string \<Rightarrow> bool" where
  "number_grammar s \<longleftrightarrow>
     (\<exists>i f e. s = i @ f @ e \<and> integer_grammar i \<and> fraction_grammar f \<and> exponent_grammar e)"

lemma digits_not_minus: "digits ds \<Longrightarrow> deref (ds @ r) \<noteq> CHR ''-'' \<and> deref (ds @ r) \<noteq> CHR ''+'' \<and> ds @ r \<noteq> []"
  by (auto simp: digits_def neq_Nil_conv)

lemma number_integer_iff:
  "number_integer s = Some r \<longleftrightarrow> (\<exists>i. s = i @ r \<and> integer_grammar i \<and> \<not> IsDigit r)"
proof
  assume "number_integer s = Some r"
  then have d: "IsDigit (skip_minus s)" "skip_digits (skip_minus s) = r"
    by (auto simp: number_integer_def Let_def split: if_splits)
  then obtain ds where ds: "skip_minus s = ds @ r" "digits ds" "\<not> IsDigit r"
    using skip_digits_exists by metis
  have "s = (if deref s = CHR ''-'' then ''-'' else []) @ skip_minus s"
    by (cases s) (auto simp: skip_minus_def)
  then have "s = ((if deref s = CHR ''-'' then ''-'' else []) @ ds) @ r" using ds(1) by simp
  moreover have "integer_grammar ((if deref s = CHR ''-'' then ''-'' else []) @ ds)"
    unfolding integer_grammar_def minus_opt_def using ds(2) by (intro exI conjI) auto
  ultimately show "\<exists>i. s = i @ r \<and> integer_grammar i \<and> \<not> IsDigit r" using ds(3) by blast
next
  assume "\<exists>i. s = i @ r \<and> integer_grammar i \<and> \<not> IsDigit r"
  then obtain m ds where s: "s = m @ ds @ r" "minus_opt m" "digits ds" "\<not> IsDigit r"
    by (auto simp: integer_grammar_def)
  have "skip_minus s = ds @ r" using s digits_not_minus [OF s(3)] by (auto simp: skip_minus_def minus_opt_def)
  moreover have "IsDigit (ds @ r)" using s(3,4) skip_digits_split(1) by blast
  ultimately show "number_integer s = Some r"
    using skip_digits_split(2) [OF s(3,4)] by (simp add: number_integer_def)
qed

lemma number_fraction_iff:
  assumes "\<not> IsDigit s"
  shows "number_fraction s = Some r \<longleftrightarrow>
    (\<exists>f. s = f @ r \<and> fraction_grammar f \<and> \<not> IsDigit r \<and> (f = [] \<longrightarrow> deref r \<noteq> CHR ''.''))"
proof (cases "deref s = CHR ''.''")
  case False
  then show ?thesis using assms by (auto simp: number_fraction_def fraction_grammar_def)
next
  case True
  then obtain t where t: "s = CHR ''.'' # t" by (cases s) auto
  have "number_fraction s = Some r \<longleftrightarrow> (\<exists>ds. t = ds @ r \<and> digits ds \<and> \<not> IsDigit r)"
    unfolding skip_digits_iff [symmetric] by (simp add: number_fraction_def t)
  also have "\<dots> \<longleftrightarrow> (\<exists>f. s = f @ r \<and> fraction_grammar f \<and> \<not> IsDigit r \<and> (f = [] \<longrightarrow> deref r \<noteq> CHR ''.''))"
    by (auto simp: t fraction_grammar_def)
  finally show ?thesis .
qed

lemma number_exponent_end:
  assumes "\<not> IsDigit s" "CHR 0x00 \<notin> set s"
  shows "(\<exists>r. number_exponent s = Some r \<and> deref r = CHR 0x00) \<longleftrightarrow> exponent_grammar s"
proof (cases "deref s = CHR ''e'' \<or> deref s = CHR ''E''")
  case False
  then show ?thesis using deref_end [OF assms(2)] by (auto simp: number_exponent_def exponent_grammar_def)
next
  case True
  then obtain x t where t: "s = x # t" "x = CHR ''e'' \<or> x = CHR ''E''" by (cases s) auto
  let ?u = "if deref t = CHR ''+'' \<or> deref t = CHR ''-'' then tl t else t"
  have u0: "CHR 0x00 \<notin> set ?u" using assms(2) t by (cases t) auto
  have "(\<exists>r. number_exponent s = Some r \<and> deref r = CHR 0x00) \<longleftrightarrow> IsDigit ?u \<and> deref (skip_digits ?u) = CHR 0x00"
  proof -
    have "number_exponent s = (if IsDigit ?u then Some (skip_digits ?u) else None)"
      using t(2) by (simp add: number_exponent_def t(1) Let_def)
    then show ?thesis by simp
  qed
  also have "\<dots> \<longleftrightarrow> digits ?u" by (rule digits_to_end [OF u0])
  also have "\<dots> \<longleftrightarrow> exponent_grammar s"
  proof
    assume "digits ?u"
    moreover have "\<exists>sg. t = sg @ ?u \<and> sg \<in> {[], ''+'', ''-''}"
      by (cases t; cases "deref t = CHR ''+''"; cases "deref t = CHR ''-''") auto
    ultimately show "exponent_grammar s" unfolding exponent_grammar_def using t by blast
  next
    assume "exponent_grammar s"
    then obtain sg ds where "t = sg @ ds" "sg \<in> {[], ''+'', ''-''}" "digits ds"
      by (auto simp: exponent_grammar_def t)
    then show "digits ?u" using digits_not_minus [of ds "[]"] by auto
  qed
  finally show ?thesis .
qed

lemma IsInteger_grammar:
  assumes "CHR 0x00 \<notin> set s"
  shows "IsInteger_str s \<longleftrightarrow> integer_grammar s"
proof (cases s)
  case Nil
  then show ?thesis by (auto simp: IsInteger_str_def IsInteger_ptr_def c_str_def integer_grammar_def digits_def)
next
  case (Cons c p)
  have "CHR 0x00 \<notin> set (skip_minus s)" using assms by (cases s) (auto simp: skip_minus_def)
  then have "IsInteger_str s \<longleftrightarrow> digits (skip_minus s)"
    using digits_to_end [of "skip_minus s"] assms Cons
    by (auto simp: IsInteger_str_def IsInteger_ptr_def c_str_id Let_def)
  also have "\<dots> \<longleftrightarrow> integer_grammar s"
  proof
    assume "digits (skip_minus s)"
    moreover have "s = (if c = CHR ''-'' then ''-'' else []) @ skip_minus s" by (auto simp: skip_minus_def Cons)
    ultimately show "integer_grammar s" unfolding integer_grammar_def minus_opt_def by (intro exI conjI) auto
  next
    assume "integer_grammar s"
    then obtain m ds where "s = m @ ds" "minus_opt m" "digits ds" by (auto simp: integer_grammar_def)
    then show "digits (skip_minus s)" using digits_not_minus [of ds "[]"] by (auto simp: skip_minus_def minus_opt_def)
  qed
  finally show ?thesis .
qed

lemma grammar_heads:
  "exponent_grammar e \<Longrightarrow> \<not> IsDigit e \<and> deref e \<noteq> CHR ''.''"
  "fraction_grammar f \<Longrightarrow> exponent_grammar e \<Longrightarrow> \<not> IsDigit (f @ e)"
  by (auto simp: exponent_grammar_def fraction_grammar_def)

lemma IsNumber_grammar:
  assumes "CHR 0x00 \<notin> set s"
  shows "IsNumber_str s \<longleftrightarrow> number_grammar s"
proof -
  have "IsNumber_str s \<longleftrightarrow> (\<exists>r1 r2. number_integer s = Some r1 \<and> number_fraction r1 = Some r2 \<and>
      (\<exists>r. number_exponent r2 = Some r \<and> deref r = CHR 0x00))"
  proof (cases s)
    case Nil
    then show ?thesis
      by (auto simp: IsNumber_str_def IsNumber_ptr_def c_str_def number_integer_def skip_minus_def)
  next
    case (Cons c p)
    then have "deref s \<noteq> CHR 0x00" using assms by auto
    then show ?thesis
      by (auto simp: IsNumber_str_def IsNumber_ptr_def c_str_id [OF assms] split: option.splits)
  qed
  also have "\<dots> \<longleftrightarrow> number_grammar s"
  proof
    assume "\<exists>r1 r2. number_integer s = Some r1 \<and> number_fraction r1 = Some r2 \<and>
      (\<exists>r. number_exponent r2 = Some r \<and> deref r = CHR 0x00)"
    then obtain r1 r2 where r: "number_integer s = Some r1" "number_fraction r1 = Some r2"
      "\<exists>r. number_exponent r2 = Some r \<and> deref r = CHR 0x00" by blast
    obtain i where i: "s = i @ r1" "integer_grammar i" "\<not> IsDigit r1" using r(1) number_integer_iff by blast
    obtain f where f: "r1 = f @ r2" "fraction_grammar f" "\<not> IsDigit r2"
      using r(2) number_fraction_iff [OF i(3)] by blast
    have "exponent_grammar r2" using number_exponent_end [OF f(3)] assms i(1) f(1) r(3) by auto
    then show "number_grammar s" using i f unfolding number_grammar_def by blast
  next
    assume "number_grammar s"
    then obtain i f e where g: "s = i @ f @ e" "integer_grammar i" "fraction_grammar f" "exponent_grammar e"
      by (auto simp: number_grammar_def)
    note h = grammar_heads(1) [OF g(4)] grammar_heads(2) [OF g(3,4)]
    have "number_integer s = Some (f @ e)" using g h number_integer_iff by blast
    moreover have "number_fraction (f @ e) = Some e" using number_fraction_iff [OF h(2)] g(3) h(1) by blast
    moreover have "\<exists>r. number_exponent e = Some r \<and> deref r = CHR 0x00"
      using number_exponent_end [of e] h(1) g(1,4) assms by auto
    ultimately show "\<exists>r1 r2. number_integer s = Some r1 \<and> number_fraction r1 = Some r2 \<and>
      (\<exists>r. number_exponent r2 = Some r \<and> deref r = CHR 0x00)" by blast
  qed
  finally show ?thesis .
qed

section \<open>Integers to text and back\<close>

lemma digit_char_value: "n < 10 \<Longrightarrow> digit_char (char_wrap (48 + int n)) \<and> char_digit (char_wrap (48 + int n)) = int n"
  using digit_char_of [of "int n"] by simp

lemma unsigned_loop_unfold:
  "unsigned_loop v out =
     (let out = char_wrap (48 + int (v mod 10)) # out in if v div 10 \<noteq> 0 then unsigned_loop (v div 10) out else out)"
  by (subst unsigned_loop.simps) (simp add: char_int_literals Let_def)

lemma unsigned_loop_value:
  "foldl add_digit (0 :: 'a::len word) (unsigned_loop v out) = foldl add_digit (of_nat v) out"
proof (induction v out rule: unsigned_loop.induct)
  case (1 v out)
  let ?c = "char_wrap (48 + int (v mod 10))"
  have "10 * of_nat (v div 10) + of_nat (v mod 10) = (of_nat v :: 'a word)"
    by (metis mult_div_mod_eq of_nat_add of_nat_mult of_nat_numeral)
  then have c: "add_digit (of_nat (v div 10)) ?c = (of_nat v :: 'a word)"
    using digit_char_value [of "v mod 10"] by (simp add: add_digit_def)
  show ?case
  proof (cases "v div 10 = 0")
    case True
    then show ?thesis using c by (subst unsigned_loop_unfold) simp
  next
    case False
    then show ?thesis using c 1 [of "?c # out" "v div 10"]
      by (subst unsigned_loop_unfold) (simp add: char_int_literals Let_def)
  qed
qed

lemma unsigned_loop_digits:
  "v < 10 ^ k \<Longrightarrow> \<exists>ds. unsigned_loop v out = ds @ out \<and> digits ds \<and> length ds \<le> max 1 k"
proof (induction k arbitrary: v out)
  case 0
  then show ?case using digit_char_value [of 0]
    by (subst unsigned_loop_unfold) (auto simp: digits_def intro: exI [of _ "[char_wrap 48]"])
next
  case (Suc k)
  let ?c = "char_wrap (48 + int (v mod 10))"
  have c: "digit_char ?c" using digit_char_value [of "v mod 10"] by simp
  show ?case
  proof (cases "v div 10 = 0")
    case True
    then show ?thesis using c by (subst unsigned_loop_unfold) (auto simp: digits_def intro: exI [of _ "[?c]"])
  next
    case False
    have "v div 10 < 10 ^ k" using Suc.prems by (simp add: less_mult_imp_div_less)
    moreover from this False have "0 < k" by (cases k) auto
    ultimately obtain ds where "unsigned_loop (v div 10) (?c # out) = ds @ ?c # out" "digits ds" "length ds \<le> k"
      using Suc.IH [of "v div 10" "?c # out"] by auto
    then show ?thesis using False c
      by (subst unsigned_loop_unfold) (auto simp: digits_def intro!: exI [of _ "ds @ [?c]"])
  qed
qed

lemma read_digits_foldl: "\<forall>c\<in>set ds. digit_char c \<Longrightarrow> \<not> IsDigit r \<Longrightarrow> read_digits f x (ds @ r) = (foldl f x ds, r)"
proof (induction ds arbitrary: x)
  case Nil
  then show ?case by (cases r) auto
qed simp

lemma signed_loop_unsigned:
  "v \<noteq> 0 \<Longrightarrow> sign = sgn v \<Longrightarrow> signed_loop sign v out = unsigned_loop (nat \<bar>v\<bar>) out"
proof (induction sign v out rule: signed_loop.induct)
  case (1 sign v out)
  have m: "sign * (v smod 10) = int (nat \<bar>v\<bar> mod 10)"
    using 1(2,3) by (simp add: smod_10 sgn_if zmod_int)
  have d: "v sdiv 10 = 0 \<longleftrightarrow> nat \<bar>v\<bar> div 10 = 0" "nat \<bar>v sdiv 10\<bar> = nat \<bar>v\<bar> div 10"
    using 1(2) by (auto simp: sdiv_10 abs_mult nat_div_distrib sgn_0_0)
  have s: "v sdiv 10 \<noteq> 0 \<Longrightarrow> sgn (v sdiv 10) = sgn v"
    using 1(2) by (auto simp: sdiv_10 sgn_if split: if_splits)
  show ?case
  proof (cases "v sdiv 10 = 0")
    case True
    then show ?thesis using m d(1) by (subst signed_loop.simps, subst unsigned_loop.simps) (simp add: Let_def)
  next
    case False
    then show ?thesis using 1(1) [OF refl refl False False] s m d 1(3)
      by (subst signed_loop.simps, subst unsigned_loop.simps) (simp add: Let_def)
  qed
qed

lemma StringToInteger_digits:
  assumes "digits ds"
  shows "StringToInteger ds = (foldl add_digit 0 ds :: 'a::len word) \<and>
    StringToInteger (CHR ''-'' # ds) = (- foldl add_digit 0 ds :: 'a word)"
proof -
  have n: "CHR 0x00 \<notin> set ds" "deref ds \<noteq> CHR 0x00" "deref ds \<noteq> CHR ''-''"
    using assms by (auto simp: digits_def neq_Nil_conv)
  show ?thesis
    using n assms read_digits_foldl [of ds "[]"]
    by (simp_all add: StringToInteger_def StringToInteger_ptr_def c_str_id digits_def read_digits_foldl [of ds "[]", simplified])
qed

lemma unsigned_text:
  assumes "n < 10 ^ k" "0 < k"
  shows "digits (IntegerToString_unsigned n) \<and> length (IntegerToString_unsigned n) \<le> k \<and>
    foldl add_digit (0 :: 'a::len word) (IntegerToString_unsigned n) = of_nat n"
proof (cases "n = 0")
  case True
  then show ?thesis using assms(2)
    by (simp add: IntegerToString_unsigned_def ReverseStringifyUnsignedInteger_def digits_def digit_char_iff
        char_int_literals add_digit_def char_digit_def Suc_le_eq)
next
  case False
  then show ?thesis
    using unsigned_loop_digits [OF assms(1), of "[]"] unsigned_loop_value [where 'a = 'a and v = n and out = "[]"] assms(2)
    by (auto simp: IntegerToString_unsigned_def ReverseStringifyUnsignedInteger_def)
qed

lemma signed_text:
  "IntegerToString_signed v = (if v < 0 then CHR ''-'' # IntegerToString_unsigned (nat (- v)) else IntegerToString_unsigned (nat v))"
  by (simp add: IntegerToString_signed_def ReverseStringifySignedInteger_def IntegerToString_unsigned_def
      ReverseStringifyUnsignedInteger_def signed_loop_unsigned)

lemma printed_unsigned:
  "digits (IntegerToString_unsigned n) \<and>
   StringToInteger (IntegerToString_unsigned n) = (of_nat n :: 'a::len word) \<and>
   StringToInteger (CHR ''-'' # IntegerToString_unsigned n) = (- of_nat n :: 'a word)"
proof -
  have "n < 10 ^ Suc n" by (induction n) auto
  then show ?thesis using unsigned_text [where 'a = 'a and n = n and k = "Suc n"]
    StringToInteger_digits [where 'a = 'a and ds = "IntegerToString_unsigned n"] by simp
qed

lemma StringToInteger_printed: "StringToInteger (IntegerToString_signed v) = (word_of_int v :: 'a::len word)"
proof (cases "v < 0")
  case True
  then have "- of_nat (nat (- v)) = (word_of_int v :: 'a word)"
    by (metis int_nat_eq less_imp_le minus_equation_iff neg_0_le_iff_le nat_0_le of_int_minus of_int_of_nat_eq)
  then show ?thesis using printed_unsigned [where 'a = 'a and n = "nat (- v)"] True by (simp add: signed_text)
next
  case False
  then show ?thesis using printed_unsigned [where 'a = 'a and n = "nat v"] by (simp add: signed_text)
qed

section \<open>Properties\<close>

text \<open>Printing a signed integer and reading the text back gives the integer, in every word width
  it fits: \<open>StringToInteger\<close> inverts \<open>IntegerToString\<close>, the smallest negative number included, and
  the text is recognised by \<open>IsInteger\<close> and \<open>IsNumber\<close>.\<close>

theorem IntegerToString_roundtrip:
  "StringToInteger (IntegerToString_signed v) = (word_of_int v :: 'a::len word) \<and>
   StringToInteger (IntegerToString_unsigned n) = (of_nat n :: 'a word) \<and>
   IsInteger_str (IntegerToString_signed v) \<and> IsNumber_str (IntegerToString_signed v)"
proof -
  have u: "digits (IntegerToString_unsigned n)" for n by (rule printed_unsigned [THEN conjunct1])
  have g: "integer_grammar (IntegerToString_signed v)"
    unfolding integer_grammar_def minus_opt_def
    using u [of "nat (- v)"] u [of "nat v"]
    by (intro exI [of _ "if v < 0 then ''-'' else []"] exI [of _ "IntegerToString_unsigned (nat \<bar>v\<bar>)"])
      (simp add: signed_text)
  then have "number_grammar (IntegerToString_signed v)"
    unfolding number_grammar_def fraction_grammar_def exponent_grammar_def by (metis append_Nil2)
  moreover have "CHR 0x00 \<notin> set (IntegerToString_signed v)"
    using g non_digits(1) by (fastforce simp del: non_digits simp: integer_grammar_def minus_opt_def digits_def)
  ultimately show ?thesis
    using g IsInteger_grammar IsNumber_grammar StringToInteger_printed printed_unsigned by blast
qed

text \<open>The buffer of \<open>IntegerStringifier\<close> is large enough for every value of the four integer widths,
  signed or unsigned, with the terminator.\<close>

theorem IntegerStringifier_fits:
  assumes "byteSize \<in> {1, 2, 4, 8}" "MinSignedValue byteSize \<le> v" "v \<le> MaxSignedValue byteSize"
    "n \<le> MaxUnsignedValue byteSize"
  shows "length (IntegerToString_signed v) < IntegerStringifier_BUFFER_SIZE (MaxDecChars_signed byteSize) \<and>
    length (IntegerToString_unsigned n) < IntegerStringifier_BUFFER_SIZE (MaxDecChars_unsigned byteSize)"
proof -
  have k: "0 < MaxDecDigits byteSize" using assms(1) by auto
  have "n < 10 ^ MaxDecDigits byteSize" "nat v < 10 ^ MaxDecDigits byteSize" "nat (- v) < 10 ^ MaxDecDigits byteSize"
    using assms by (auto simp: MinSignedValue_def MaxSignedValue_def MaxUnsignedValue_def)
  note l = this [THEN unsigned_text [OF _ k, where 'a = 8]]
  have "MaxDecDigits byteSize < IntegerStringifier_BUFFER_SIZE (MaxDecChars_unsigned byteSize)"
    "MaxDecDigits byteSize + 1 < IntegerStringifier_BUFFER_SIZE (MaxDecChars_signed byteSize)"
    using assms(1)
    by (auto simp: IntegerStringifier_BUFFER_SIZE_def AlignedCeil_def MaxDecChars_unsigned_def MaxDecChars_signed_def)
  then show ?thesis using l by (auto simp: signed_text)
qed

theorem IntegerStringifier_fits_witness:
  "length (IntegerToString_signed (- 9223372036854775808)) < IntegerStringifier_BUFFER_SIZE (MaxDecChars_signed 8)"
  using IntegerStringifier_fits [of 8 "- 9223372036854775808" 0]
  by (simp add: MinSignedValue_def MaxSignedValue_def MaxUnsignedValue_def)

text \<open>\<open>IsInteger\<close> and \<open>IsNumber\<close> accept exactly the strings of their grammars: an optional minus and
  digits; then an optional fraction and an optional exponent, each with digits of its own.\<close>

theorem IsNumber_IsInteger_grammar:
  assumes "CHR 0x00 \<notin> set s"
  shows "(IsInteger_str s \<longleftrightarrow> integer_grammar s) \<and> (IsNumber_str s \<longleftrightarrow> number_grammar s)"
  using IsInteger_grammar [OF assms] IsNumber_grammar [OF assms] by blast

theorem IsNumber_IsInteger_grammar_witness:
  "IsNumber_str ''-1.5e'' \<longleftrightarrow> number_grammar ''-1.5e''"
  using IsNumber_IsInteger_grammar [of "''-1.5e''"] by simp

text \<open>The text of the fields with the delimiter between them.\<close>

fun join_with :: "char \<Rightarrow> string list \<Rightarrow> string" where
  "join_with c [] = []"
| "join_with c [x] = x"
| "join_with c (x # y # r) = x @ c # join_with c (y # r)"

primrec nexts :: "nat \<Rightarrow> StringSplitter \<Rightarrow> string option list" where
  "nexts 0 p = []"
| "nexts (Suc n) p = (case GetNext p of (r, p') \<Rightarrow> r # nexts n p')"

lemma nexts_end: "begin_at p = None \<Longrightarrow> nexts n p = replicate n None"
  by (induction n) (simp_all add: GetNext_def)

lemma splitter_fields:
  assumes "delimiter p \<noteq> CHR 0x00" "begin_at p = Some b"
  shows "\<exists>fs. fs \<noteq> [] \<and> join_with (delimiter p) fs = b \<and> (\<forall>f\<in>set fs. delimiter p \<notin> set f) \<and>
    (\<forall>k. nexts (length fs + k) p = map Some fs @ replicate k None)"
  using assms
proof (induction "length b" arbitrary: p b rule: less_induct)
  case less
  let ?c = "delimiter p"
  show ?case
  proof (cases "?c \<in> set b")
    case False
    then have "GetNext p = (Some b, p\<lparr>begin_at := None\<rparr>)" using less.prems by (simp add: GetNext_def strchr_def)
    then show ?thesis using False by (intro exI [of _ "[b]"]) (simp add: nexts_end)
  next
    case True
    then obtain x y where b: "b = x @ ?c # y" "?c \<notin> set x" by (meson split_list_first)
    then have "dropWhile (\<lambda>z. z \<noteq> ?c) b = ?c # y" by (induction x arbitrary: b) auto
    then have g: "GetNext p = (Some x, p\<lparr>begin_at := Some y\<rparr>)"
      using less.prems True b by (simp add: GetNext_def strchr_def)
    obtain fs where fs: "fs \<noteq> []" "join_with ?c fs = y" "\<forall>f\<in>set fs. ?c \<notin> set f"
      "\<forall>k. nexts (length fs + k) (p\<lparr>begin_at := Some y\<rparr>) = map Some fs @ replicate k None"
      using less.hyps [of y "p\<lparr>begin_at := Some y\<rparr>"] less.prems(1) b(1) by auto
    then have "join_with ?c (x # fs) = b" using b(1) by (cases fs) auto
    then show ?thesis using fs b(2) g by (intro exI [of _ "x # fs"]) simp
  qed
qed

text \<open>The splitter returns the fields between the delimiters, empty ones included, in order and once
  each, and then reports the end for ever: putting the delimiter back between the fields gives the source.\<close>

theorem StringSplitter_fields:
  assumes "c \<noteq> CHR 0x00"
  shows "\<exists>fs. join_with c fs = s \<and> (\<forall>f\<in>set fs. c \<notin> set f) \<and>
    (\<forall>k. nexts (length fs + k) (StringSplitter_new s c) = map Some fs @ replicate k None)"
  using splitter_fields [of "StringSplitter_new s c" s] assms by (auto simp: StringSplitter_new_def)

theorem StringSplitter_fields_witness:
  "\<exists>fs. join_with CHR '','' fs = ''abc,,xyzd,'' \<and>
    nexts (length fs) (StringSplitter_new ''abc,,xyzd,'' CHR '','') = map Some fs"
proof -
  obtain fs where fs: "join_with CHR '','' fs = ''abc,,xyzd,''"
    "\<forall>k. nexts (length fs + k) (StringSplitter_new ''abc,,xyzd,'' CHR '','') = map Some fs @ replicate k None"
    using StringSplitter_fields [of "CHR '',''" "''abc,,xyzd,''"] by auto
  then show ?thesis using spec [OF fs(2), of 0] by auto
qed

end
