(* ===== verification/String_Literal.thy ===== *)
theory String_Literal
  imports Text_Parser
begin

text \<open>
  \<^verbatim>\<open>tp/StringLiteralParser.{hpp,cpp}\<close>: quoted strings with escape sequences. The parser is
  abstract in \<open>ParseEscapeSequence\<close>; every subclass of the library delegates it to an
  \<^verbatim>\<open>EscapeSequenceSet\<close> of one-character sequences, so a subclass is the map of its set. The mark
  below the current chunk is the position of the opening quote, which the error messages report.
\<close>

section \<open>Escape sequences\<close>

type_synonym EscapeSequenceSet = "char \<Rightarrow> char option"

definition EscapeSequenceSet_new :: EscapeSequenceSet where
  "EscapeSequenceSet_new = Map.empty"

definition EscapeSequenceSet_Add :: "char \<Rightarrow> char \<Rightarrow> EscapeSequenceSet \<Rightarrow> EscapeSequenceSet" where
  "EscapeSequenceSet_Add from to es = es(from \<mapsto> to)"

text \<open>\<open>EscapeSequence::Char::Parse\<close> appends its output character and advances.\<close>

definition EscapeSequence_Char_Parse :: "char \<Rightarrow> string \<Rightarrow> string parser" where
  "EscapeSequence_Char_Parse outputChar result s = (Inr (result @ [outputChar]), Advance s)"

definition EscapeSequenceSet_Parse :: "EscapeSequenceSet \<Rightarrow> string \<Rightarrow> string parser" where
  "EscapeSequenceSet_Parse es result = bindM GetChar (\<lambda>c.
     case es c of
       None \<Rightarrow> ThrowError ''Invalid escape sequence''
     | Some out \<Rightarrow> EscapeSequence_Char_Parse out result)"

section \<open>StringLiteralParser\<close>

record StringLiteralParser =
  boundingChar :: char
  escapeSequenceChar :: char
  multiline :: bool
  escapes :: EscapeSequenceSet

text \<open>\<^verbatim>\<open>Unmark(); ThrowError(ReleaseCursor(), what);\<close>\<close>

definition literal_error :: "string \<Rightarrow> 'a parser" where
  "literal_error what = bindM Unmark (\<lambda>_. bindM ReleaseCursor (\<lambda>cursor. ThrowError_at cursor what))"

text \<open>\<^verbatim>\<open>catch (const Error & e) { Unmark(); throw; }\<close>\<close>

definition unmark_on_error :: "'a parser \<Rightarrow> 'a parser" where
  "unmark_on_error m = catchM m (\<lambda>e. case e of Error c w \<Rightarrow> bindM Unmark (\<lambda>_. throwM e) | _ \<Rightarrow> throwM e)"

definition literal_escape :: "StringLiteralParser \<Rightarrow> string \<Rightarrow> string parser" where
  "literal_escape p result =
     bindM (ReleaseString_buffer result)
       (\<lambda>result s. unmark_on_error (EscapeSequenceSet_Parse (escapes p) result) (Advance s))"

lemma literal_escape_progress:
  "literal_escape p result s = (Inr r, t) \<Longrightarrow> chars t = chars s \<and> ptr t = ptr s + 2"
  by (auto simp: literal_escape_def bindM_Inr_iff ReleaseString_buffer_def PopPtr_def copy_range_def returnM_def
      unmark_on_error_def catchM_def EscapeSequenceSet_Parse_def EscapeSequence_Char_Parse_def GetChar_def
      Advance_def ThrowError_def ThrowError_at_def throwM_def bindM_def
      split: if_splits list.splits prod.splits sum.splits option.splits tp_error.splits)

function literal_loop :: "StringLiteralParser \<Rightarrow> string \<Rightarrow> string parser" where
  "literal_loop p result s =
     (if AtEnd s then literal_error ''Unclosed string literal'' s
      else
        let c = chars s ! ptr s in
        if c = boundingChar p then (Inr result, s)
        else if c = CHR 0x0A \<and> \<not> multiline p then literal_error ''Multiline string literal'' s
        else if c = escapeSequenceChar p then
          (case literal_escape p result s of
             (Inl e, s) \<Rightarrow> (Inl e, s)
           | (Inr result, s) \<Rightarrow> literal_loop p result (snd (Mark s)))
        else literal_loop p result (Advance s))"
  by pat_completeness auto
termination
  by (relation "measure (\<lambda>(p, r, s). length (chars s) - ptr s)")
    (auto simp: AtEnd_def Advance_def Mark_def Let_def dest!: literal_escape_progress [OF sym])

declare literal_loop.simps [simp del]

definition StringLiteral_Parse :: "StringLiteralParser \<Rightarrow> string parser" where
  "StringLiteral_Parse p s =
     (let (_, s) = Mark s; s = Advance s; (_, s) = Mark s in
      bindM (literal_loop p [])
        (\<lambda>result. bindM (ReleaseString_buffer result)
          (\<lambda>result. bindM Unmark (\<lambda>_ s. (Inr result, Advance s)))) s)"

section \<open>The text of a literal\<close>

text \<open>An item is a plain character or the character behind the escape character.\<close>

datatype item = Plain char | Escaped char

fun item_text :: "StringLiteralParser \<Rightarrow> item \<Rightarrow> string" where
  "item_text p (Plain c) = [c]"
| "item_text p (Escaped k) = [escapeSequenceChar p, k]"

fun item_value :: "StringLiteralParser \<Rightarrow> item \<Rightarrow> char" where
  "item_value p (Plain c) = c"
| "item_value p (Escaped k) = the (escapes p k)"

fun item_ok :: "StringLiteralParser \<Rightarrow> item \<Rightarrow> bool" where
  "item_ok p (Plain c) \<longleftrightarrow> c \<noteq> boundingChar p \<and> c \<noteq> escapeSequenceChar p \<and> (c = CHR 0x0A \<longrightarrow> multiline p)"
| "item_ok p (Escaped k) \<longleftrightarrow> escapes p k \<noteq> None"

definition items_text :: "StringLiteralParser \<Rightarrow> item list \<Rightarrow> string" where
  "items_text p its = concat (map (item_text p) its)"

definition delimiters_ok :: "StringLiteralParser \<Rightarrow> bool" where
  "delimiters_ok p \<longleftrightarrow> boundingChar p \<noteq> escapeSequenceChar p \<and> escapeSequenceChar p \<noteq> CHR 0x0A"

lemma literal_escape_src:
  assumes "m \<le> length b"
  shows "literal_escape p acc (src b (e # k # r) (m # ms)) =
    (case escapes p k of
       Some d \<Rightarrow> (Inr (acc @ drop m b @ [d]), src (b @ [e, k]) r ms)
     | None \<Rightarrow> unmark_on_error (ThrowError ''Invalid escape sequence'') (src (b @ [e]) (k # r) ms))"
  using assms
  by (auto simp: literal_escape_def bindM_def src_simps unmark_on_error_def catchM_def EscapeSequenceSet_Parse_def
      EscapeSequence_Char_Parse_def split: option.splits)

lemma literal_loop_items:
  assumes "\<forall>i\<in>set its. item_ok p i" "delimiters_ok p" "m \<le> length b"
  shows "\<exists>acc' m'. literal_loop p acc (src b (items_text p its @ r) (m # ms)) =
      literal_loop p acc' (src (b @ items_text p its) r (m' # ms)) \<and>
    m' \<le> length (b @ items_text p its) \<and>
    acc' @ drop m' (b @ items_text p its) = acc @ drop m b @ map (item_value p) its"
  using assms(1,3)
proof (induction its arbitrary: acc b m)
  case Nil
  then show ?case by (auto simp: items_text_def)
next
  case (Cons i its)
  show ?case
  proof (cases i)
    case (Plain c)
    then have step: "literal_loop p acc (src b (c # x) (m # ms)) = literal_loop p acc (src (b @ [c]) x (m # ms))" for x
      using Cons.prems by (subst literal_loop.simps) (auto simp: src_simps Let_def)
    show ?thesis
      using Cons.IH [of m "b @ [c]" acc] Cons.prems Plain by (simp add: items_text_def step)
  next
    case (Escaped k)
    then obtain d where d: "escapes p k = Some d" using Cons.prems by auto
    have step: "literal_loop p acc (src b (escapeSequenceChar p # k # x) (m # ms)) =
        literal_loop p (acc @ drop m b @ [d]) (src (b @ [escapeSequenceChar p, k]) x ((length b + 2) # ms))" for x
      using Cons.prems d assms(2)
      by (subst literal_loop.simps) (auto simp: src_simps Let_def literal_escape_src delimiters_ok_def)
    show ?thesis
      using Cons.IH [of "length b + 2" "b @ [escapeSequenceChar p, k]" "acc @ drop m b @ [d]"] Cons.prems Escaped d
      by (simp add: items_text_def step)
  qed
qed

lemma literal_loop_stop:
  "literal_loop p acc (src b (boundingChar p # r) ms) = (Inr acc, src b (boundingChar p # r) ms)"
  by (subst literal_loop.simps) (simp add: src_simps)

lemma literal_error_src:
  "m0 \<le> length b \<Longrightarrow>
     literal_error w (src b r (m # m0 # ms)) = (Inl (Error (cursor_of (take m0 b)) w), src b r ms)"
  by (simp add: literal_error_def bindM_def src_simps ThrowError_at_def throwM_def)

lemma StringLiteral_Parse_start:
  "StringLiteral_Parse p (src b (q # r) ms) =
     bindM (literal_loop p [])
        (\<lambda>result. bindM (ReleaseString_buffer result)
          (\<lambda>result. bindM Unmark (\<lambda>_ s. (Inr result, Advance s)))) (src (b @ [q]) r (Suc (length b) # length b # ms))"
  by (simp add: StringLiteral_Parse_def src_simps)

lemma StringLiteral_Parse_items:
  assumes "\<forall>i\<in>set its. item_ok p i" "delimiters_ok p"
  shows "StringLiteral_Parse p (src b (q # items_text p its @ boundingChar p # r) ms) =
    (Inr (map (item_value p) its), src (b @ q # items_text p its @ [boundingChar p]) r ms)"
proof -
  obtain acc m where l: "literal_loop p [] (src (b @ [q]) (items_text p its @ boundingChar p # r) (Suc (length b) # length b # ms)) =
      literal_loop p acc (src (b @ [q] @ items_text p its) (boundingChar p # r) (m # length b # ms))"
    "m \<le> length (b @ [q] @ items_text p its)" "acc @ drop m (b @ [q] @ items_text p its) = map (item_value p) its"
    using literal_loop_items [OF assms, of "Suc (length b)" "b @ [q]" "[]" "boundingChar p # r" "length b # ms"]
    by auto
  show ?thesis
    using l by (simp add: StringLiteral_Parse_start bindM_def literal_loop_stop src_simps)
qed

section \<open>Properties\<close>

text \<open>A literal made of any plain characters and any known escape sequences between two quotes is
  read to its closing quote; the result is the characters it stands for, and the marks are those from before.\<close>

theorem StringLiteral_value:
  assumes "\<forall>i\<in>set its. item_ok p i" "delimiters_ok p"
  shows "StringLiteral_Parse p (src b (q # items_text p its @ boundingChar p # r) ms) =
    (Inr (map (item_value p) its), src (b @ q # items_text p its @ [boundingChar p]) r ms)"
  using assms by (rule StringLiteral_Parse_items)

text \<open>A literal whose closing quote is missing is an error that reports the position of the opening
  quote, wherever the text ends, and so is a line feed in a single-line literal; the marks are restored.\<close>

theorem StringLiteral_unclosed:
  assumes "\<forall>i\<in>set its. item_ok p i" "delimiters_ok p" "\<not> multiline p" "boundingChar p \<noteq> CHR 0x0A"
  shows "StringLiteral_Parse p (src b (q # items_text p its) ms) =
      (Inl (Error (cursor_of b) ''Unclosed string literal''), src (b @ q # items_text p its) [] ms) \<and>
    StringLiteral_Parse p (src b (q # items_text p its @ CHR 0x0A # r) ms) =
      (Inl (Error (cursor_of b) ''Multiline string literal''), src (b @ q # items_text p its) (CHR 0x0A # r) ms)"
proof
  have stop: "literal_loop p acc (src b' [] ms') = literal_error ''Unclosed string literal'' (src b' [] ms')"
    "literal_loop p acc (src b' (CHR 0x0A # r) ms') = literal_error ''Multiline string literal'' (src b' (CHR 0x0A # r) ms')"
    for acc b' ms'
    using assms(3,4) by (subst literal_loop.simps; auto simp: src_simps Let_def)+
  obtain acc m where l: "literal_loop p [] (src (b @ [q]) (items_text p its @ []) (Suc (length b) # length b # ms)) =
      literal_loop p acc (src (b @ [q] @ items_text p its) [] (m # length b # ms))"
    using literal_loop_items [OF assms(1,2), of "Suc (length b)" "b @ [q]" "[]" "[]" "length b # ms"] by auto
  then show "StringLiteral_Parse p (src b (q # items_text p its) ms) =
      (Inl (Error (cursor_of b) ''Unclosed string literal''), src (b @ q # items_text p its) [] ms)"
    by (simp add: StringLiteral_Parse_start bindM_def stop literal_error_src)
  obtain acc m where "literal_loop p [] (src (b @ [q]) (items_text p its @ CHR 0x0A # r) (Suc (length b) # length b # ms)) =
      literal_loop p acc (src (b @ [q] @ items_text p its) (CHR 0x0A # r) (m # length b # ms))"
    using literal_loop_items [OF assms(1,2), of "Suc (length b)" "b @ [q]" "[]" "CHR 0x0A # r" "length b # ms"] by auto
  then show "StringLiteral_Parse p (src b (q # items_text p its @ CHR 0x0A # r) ms) =
      (Inl (Error (cursor_of b) ''Multiline string literal''), src (b @ q # items_text p its) (CHR 0x0A # r) ms)"
    by (simp add: StringLiteral_Parse_start bindM_def stop literal_error_src)
qed

text \<open>The witnesses read double-quoted strings with the sequence for a line feed.\<close>

definition example_literal :: StringLiteralParser where
  "example_literal = \<lparr>boundingChar = CHR 0x22, escapeSequenceChar = CHR 0x5C, multiline = False,
     escapes = EscapeSequenceSet_Add CHR ''n'' CHR 0x0A EscapeSequenceSet_new\<rparr>"

theorem StringLiteral_value_witness:
  "fst (StringLiteral_Parse example_literal (ConstCharPtr_new
     (CHR 0x22 # ''a'' @ [CHR 0x5C, CHR ''n''] @ ''b'' @ CHR 0x22 # '';''))) = Inr [CHR ''a'', CHR 0x0A, CHR ''b'']"
  using StringLiteral_value [of "[Plain CHR ''a'', Escaped CHR ''n'', Plain CHR ''b'']" example_literal "[]"
      "CHR 0x22" "'';''" "[]"]
  by (simp add: example_literal_def delimiters_ok_def EscapeSequenceSet_Add_def EscapeSequenceSet_new_def
      items_text_def src_simps)

theorem StringLiteral_unclosed_witness:
  "fst (StringLiteral_Parse example_literal (ConstCharPtr_new (CHR 0x22 # ''ab''))) =
     Inl (Error \<lparr>row = 0, column = 0\<rparr> ''Unclosed string literal'')"
  using StringLiteral_unclosed [of "[Plain CHR ''a'', Plain CHR ''b'']" example_literal "[]" "CHR 0x22" "[]" "[]"]
  by (simp add: example_literal_def delimiters_ok_def items_text_def src_simps cursor_of_def TextCursor_new_def)

end
