(* ===== verification/Parser_Progress.thy ===== *)
theory Parser_Progress
  imports Number_Literal String_Literal
begin

text \<open>
  No operation of the \<^verbatim>\<open>tp\<close> library changes the text of its source or moves backwards, whatever it
  returns or throws. The loops of the parsers built on it terminate for that reason.
\<close>

definition keeps :: "ConstCharPtr \<Rightarrow> ConstCharPtr \<Rightarrow> bool" where
  "keeps s t \<longleftrightarrow> chars t = chars s \<and> ptr s \<le> ptr t"

definition steady :: "'a parser \<Rightarrow> bool" where
  "steady m \<longleftrightarrow> (\<forall>s. keeps s (snd (m s)))"

named_theorems steady_intros \<open>syntax-directed rules for \<^term>\<open>keeps\<close> and \<^term>\<open>steady\<close>\<close>

lemma keeps_refl [steady_intros]: "keeps s s"
  by (simp add: keeps_def)

lemma keeps_trans: "keeps s t \<Longrightarrow> keeps t u \<Longrightarrow> keeps s u"
  by (auto simp: keeps_def)

lemma keeps_Advance [steady_intros]: "keeps s t \<Longrightarrow> keeps s (Advance t)"
  by (simp add: keeps_def Advance_def)

lemma keeps_Mark [steady_intros]: "keeps s t \<Longrightarrow> keeps s (snd (Mark t))"
  by (simp add: keeps_def Mark_def Let_def)

lemma steady_at [steady_intros]: "steady m \<Longrightarrow> keeps s t \<Longrightarrow> keeps s (snd (m t))"
  unfolding steady_def keeps_def by (metis order_trans)

lemma steadyI: "(\<And>s. keeps s (snd (m s))) \<Longrightarrow> steady m"
  by (simp add: steady_def)

lemma steady_D: "steady m \<Longrightarrow> m s = (r, t) \<Longrightarrow> keeps s t"
  unfolding steady_def by (metis snd_conv)

lemma steady_pure [steady_intros]: "steady (returnM a)" "steady (throwM e)" "steady GetChar" "steady PopPtr"
    "steady (copy_range i j)" "steady (GetCursor_to i)" "steady GetCursor"
  by (auto simp: steady_def keeps_def returnM_def throwM_def GetChar_def PopPtr_def copy_range_def GetCursor_to_def
      GetCursor_def split: list.splits)

lemma steady_bind [steady_intros]: "steady m \<Longrightarrow> (\<And>a. steady (k a)) \<Longrightarrow> steady (bindM m k)"
  unfolding steady_def bindM_def keeps_def
  by (auto split: prod.splits sum.splits) (metis snd_conv order_trans)+

lemma steady_catch [steady_intros]: "steady m \<Longrightarrow> (\<And>e. steady (h e)) \<Longrightarrow> steady (catchM m h)"
  unfolding steady_def catchM_def keeps_def
  by (auto split: prod.splits sum.splits) (metis snd_conv order_trans)+

lemma steady_if [steady_intros]: "(b \<Longrightarrow> steady m) \<Longrightarrow> (\<not> b \<Longrightarrow> steady n) \<Longrightarrow> steady (if b then m else n)"
  by simp

lemma steady_cond [steady_intros]: "steady m \<Longrightarrow> steady n \<Longrightarrow> steady (\<lambda>s. if P s then m s else n s)"
  by (simp add: steady_def)

lemma steady_pair [steady_intros]: "(\<And>s. keeps s (f s)) \<Longrightarrow> steady (\<lambda>s. (r, f s))"
  by (simp add: steady_def)

lemma steady_marks [steady_intros]: "steady Unmark" "steady ReleaseString" "steady (ReleaseString_buffer x)"
    "steady ReleaseCursor"
  unfolding Unmark_def ReleaseString_def ReleaseString_buffer_def ReleaseCursor_def
  by (auto intro!: steady_intros intro: steadyI)

lemma steady_errors [steady_intros]: "steady (ThrowError_at c w)" "steady (ThrowError w)" "steady (literal_error w)"
  unfolding ThrowError_def ThrowError_at_def literal_error_def by (auto intro!: steady_intros)

lemma steady_class [steady_intros]: "steady (InClass k)" "steady (NotInClass k)" "steady NeedChar"
  unfolding InClass_def NotInClass_def NeedChar_def [abs_def] by (intro steady_intros)+

lemma keeps_advance_while [steady_intros]: "keeps s t \<Longrightarrow> keeps s (advance_while P t)"
proof (induction P t rule: advance_while.induct)
  case (1 P t)
  then show ?case using keeps_Advance [of s t] by (subst advance_while.simps) auto
qed

lemma keeps_SkipLinearSpaces [steady_intros]: "keeps s t \<Longrightarrow> keeps s (SkipLinearSpaces t)"
  unfolding SkipLinearSpaces_def by (intro steady_intros)

lemma steady_ReadIdentifier [steady_intros]: "steady ReadIdentifier"
  by (rule steadyI) (auto simp: ReadIdentifier_def Mark_def Let_def Advance_def keeps_def
      intro!: steady_at [unfolded keeps_def] steady_marks keeps_advance_while [unfolded keeps_def])

section \<open>Number literals\<close>

lemma steady_digit_loop [steady_intros]: "steady (digit_loop on k b)"
proof (rule steadyI)
  fix s show "keeps s (snd (digit_loop on k b s))"
  proof (induction on k b s rule: digit_loop.induct)
    case (1 on k b s)
    show ?case
    proof (cases "on (peek s) b")
      case (Inl e)
      then show ?thesis by (subst digit_loop.simps) (simp add: keeps_refl)
    next
      case (Inr b')
      have a: "keeps s (Advance s)" by (intro steady_intros)
      have "keeps (Advance s) (snd (digit_loop on k b' (Advance s)))"
        if "\<not> AtEnd s" "NotAtEnd (Advance s)" "Contains k (peek (Advance s))"
        using 1 [OF that(1) Inr refl] that by blast
      then show ?thesis using Inr a
        by (subst digit_loop.simps) (auto simp: Let_def keeps_refl keeps_def)
    qed
  qed
qed

lemma steady_radix [steady_intros]: "steady (catch_overflow w m)" if "steady m"
  unfolding catch_overflow_def using that by (auto intro!: steady_intros)

lemma steady_radix_literal [steady_intros]: "steady (radix_literal k stop on ex big)"
  by (rule steadyI) (auto simp: radix_literal_def intro!: steady_intros)

lemma steady_integers [steady_intros]: "steady ParseBinary" "steady ParseOctal" "steady ParseHexadecimal"
    "steady (decimal_literal b)"
  by (auto simp: ParseBinary_def [abs_def] ParseOctal_def ParseHexadecimal_def [abs_def] decimal_literal_def
      intro!: steady_intros intro: steadyI)

lemma steady_ParseExponent [steady_intros]: "steady (ParseExponent d b)"
  by (rule steadyI) (auto simp: ParseExponent_def Let_def intro!: steady_intros)

lemma steady_ParseFractional [steady_intros]: "steady (ParseFractional cfg d b)"
  by (rule steadyI) (auto simp: ParseFractional_def Let_def intro!: steady_intros)

lemma steady_float_integer_part [steady_intros]: "steady (float_integer_part cfg d b)"
  unfolding float_integer_part_def by (intro steady_intros)

lemma steady_FloatLiteral [steady_intros]: "steady (FloatLiteral_Parse cfg d)"
  unfolding FloatLiteral_Parse_def
  by (intro steady_bind steady_pure, rule steadyI) (auto simp: Let_def intro!: steady_intros)

lemma steady_IntegerLiteral [steady_intros]: "steady IntegerLiteral_Parse"
  unfolding IntegerLiteral_Parse_def
  by (intro steady_bind steady_pure, rule steadyI) (auto simp: Let_def intro!: steady_intros split: sum.splits)

section \<open>String literals\<close>

lemma steady_EscapeSequenceSet [steady_intros]: "steady (EscapeSequenceSet_Parse es r)"
  unfolding EscapeSequenceSet_Parse_def EscapeSequence_Char_Parse_def [abs_def]
  by (intro steady_bind steady_pure) (auto intro!: steady_intros split: option.splits)

lemma steady_unmark_on_error [steady_intros]: "steady m \<Longrightarrow> steady (unmark_on_error m)"
  unfolding unmark_on_error_def by (intro steady_catch) (auto intro!: steady_intros split: tp_error.splits)

lemma steady_literal_escape [steady_intros]: "steady (literal_escape p r)"
  unfolding literal_escape_def
  by (intro steady_bind steady_marks, rule steadyI) (auto intro!: steady_intros)

lemma steady_literal_loop [steady_intros]: "steady (literal_loop p r)"
proof (rule steadyI)
  fix s show "keeps s (snd (literal_loop p r s))"
  proof (induction p r s rule: literal_loop.induct)
    case (1 p r s)
    show ?case
    proof (cases "literal_escape p r s")
      case (Pair x t)
      have t: "keeps s t" using steady_D [OF steady_literal_escape Pair] .
      show ?thesis
      proof (cases "AtEnd s \<or> chars s ! ptr s = boundingChar p \<or> chars s ! ptr s = CHR 0x0A \<and> \<not> multiline p")
        case True
        then show ?thesis by (subst literal_loop.simps) (auto simp: Let_def intro!: steady_intros)
      next
        case False
        then have c: "\<not> AtEnd s" "chars s ! ptr s \<noteq> boundingChar p" "\<not> (chars s ! ptr s = CHR 0x0A \<and> \<not> multiline p)"
          by auto
        have plain: "chars s ! ptr s \<noteq> escapeSequenceChar p \<Longrightarrow> keeps s (snd (literal_loop p r (Advance s)))"
          by (rule keeps_trans [OF keeps_Advance [OF keeps_refl] 1(2) [OF c(1) refl c(2,3)]])
        have esc: "keeps s (snd (literal_loop p r' (snd (Mark t))))"
          if "chars s ! ptr s = escapeSequenceChar p" "x = Inr r'" for r'
          by (rule keeps_trans [OF keeps_Mark [OF t] 1(1) [OF c(1) refl c(2,3) that(1) Pair [symmetric] that(2)]])
        show ?thesis using c plain esc t Pair
          by (subst literal_loop.simps) (auto simp: Let_def split: sum.splits)
      qed
    qed
  qed
qed

lemma steady_StringLiteral [steady_intros]: "steady (StringLiteral_Parse p)"
  by (rule steadyI) (auto simp: StringLiteral_Parse_def split_beta Let_def intro!: steady_intros)

end
