(* ===== verification/Std_Map.thy ===== *)
theory Std_Map
  imports Xtl_Prelude "HOL-Library.Char_ord" "HOL-Library.List_Lexorder"
begin

text \<open>
  \<^verbatim>\<open>std::map\<close>, which the containers of the library keep their entries in: an association list
  in ascending order of its keys, as iteration sees it. Strings are ordered by the unsigned values of
  their characters, as \<^verbatim>\<open>std::string\<close> compares them. What the clients rely on is the locale
  \<open>finite_store\<close>; its only derived operation is the bulk update.
\<close>

type_synonym ('k, 'v) std_map = "('k \<times> 'v) list"

definition map_ok :: "('k::linorder, 'v) std_map \<Rightarrow> bool" where
  "map_ok m \<longleftrightarrow> sorted_wrt (<) (map fst m)"

definition map_find :: "('k, 'v) std_map \<Rightarrow> 'k \<Rightarrow> 'v option" where
  "map_find m k = map_of m k"

fun map_put :: "'k::linorder \<Rightarrow> 'v \<Rightarrow> ('k, 'v) std_map \<Rightarrow> ('k, 'v) std_map" where
  "map_put k v [] = [(k, v)]"
| "map_put k v ((x, w) # m) =
     (if k < x then (k, v) # (x, w) # m else if k = x then (k, v) # m else (x, w) # map_put k v m)"

definition map_erase :: "'k \<Rightarrow> ('k, 'v) std_map \<Rightarrow> ('k, 'v) std_map" where
  "map_erase k m = filter (\<lambda>p. fst p \<noteq> k) m"

section \<open>The contract\<close>

locale finite_store =
  fixes ok :: "'m \<Rightarrow> bool"
    and find :: "'m \<Rightarrow> 'k \<Rightarrow> 'v option"
    and put :: "'k \<Rightarrow> 'v \<Rightarrow> 'm \<Rightarrow> 'm"
    and erase :: "'k \<Rightarrow> 'm \<Rightarrow> 'm"
    and entries :: "'m \<Rightarrow> ('k \<times> 'v) list"
  assumes put_ok: "ok m \<Longrightarrow> ok (put k v m)"
    and find_put: "ok m \<Longrightarrow> find (put k v m) = (find m)(k \<mapsto> v)"
    and erase_ok: "ok m \<Longrightarrow> ok (erase k m)"
    and find_erase: "ok m \<Longrightarrow> find (erase k m) = (find m)(k := None)"
    and find_entries: "ok m \<Longrightarrow> find m = map_of (entries m)"
    and entries_distinct: "ok m \<Longrightarrow> distinct (map fst (entries m))"
begin

definition put_all :: "('k \<times> 'v) list \<Rightarrow> 'm \<Rightarrow> 'm" where
  "put_all kvs m = fold (\<lambda>p. put (fst p) (snd p)) kvs m"

lemma put_all_ok: "ok m \<Longrightarrow> ok (put_all kvs m)"
  unfolding put_all_def by (induction kvs arbitrary: m) (simp_all add: put_ok)

lemma find_put_all: "ok m \<Longrightarrow> find (put_all kvs m) = find m ++ map_of (rev kvs)"
  unfolding put_all_def
proof (induction kvs arbitrary: m)
  case (Cons p kvs)
  then show ?case
    by (cases p) (simp add: put_ok find_put map_add_upd_left map_of_append [symmetric] fun_eq_iff map_add_def
        split: option.split)
qed simp

text \<open>Copying all entries of a store over another one: the entries of the copied store win.\<close>

lemma find_put_entries:
  assumes "ok m" "ok n"
  shows "find (put_all (entries n) m) = find m ++ find n"
proof -
  have "map_of (rev (entries n)) = map_of (entries n)"
    using entries_distinct [OF assms(2)] by (simp add: map_of_inject_set rev_map [symmetric])
  then show ?thesis using find_put_all [OF assms(1)] find_entries [OF assms(2)] by simp
qed

end

section \<open>The ordered list keeps it\<close>

lemma map_put_keys: "set (map fst (map_put k v m)) = insert k (set (map fst m))"
  by (induction k v m rule: map_put.induct) auto

lemma map_ok_Cons: "map_ok ((k, v) # m) \<longleftrightarrow> (\<forall>x\<in>set (map fst m). k < x) \<and> map_ok m"
  by (simp add: map_ok_def)

lemma map_put_ok: "map_ok m \<Longrightarrow> map_ok (map_put k v m)"
proof (induction k v m rule: map_put.induct)
  case (2 k v x w m)
  then show ?case using map_put_keys [of k v m] by (auto simp: map_ok_Cons)
qed (simp add: map_ok_def)

lemma map_find_put: "map_ok m \<Longrightarrow> map_find (map_put k v m) = (map_find m)(k \<mapsto> v)"
proof (induction k v m rule: map_put.induct)
  case (2 k v x w m)
  then show ?case by (auto simp: map_ok_Cons map_find_def fun_eq_iff)
qed (simp add: map_find_def fun_eq_iff)

lemma map_ok_distinct: "map_ok m \<Longrightarrow> distinct (map fst m)"
  by (simp add: map_ok_def strict_sorted_iff)

interpretation omap: finite_store map_ok map_find map_put map_erase "\<lambda>m. m"
proof unfold_locales
  fix m :: "('k::linorder, 'v) std_map" and k assume "map_ok m"
  then show "map_ok (map_erase k m)" by (induction m) (auto simp: map_ok_def map_erase_def)
  show "map_find (map_erase k m) = (map_find m)(k := None)"
    by (induction m) (auto simp: map_find_def map_erase_def fun_eq_iff)
qed (simp_all add: map_put_ok map_find_put map_ok_distinct, simp add: map_find_def fun_eq_iff)

end
