(* ===== verification/Variants.thy ===== *)
theory Variants
  imports String_Utils Std_Map
begin

text \<open>
  \<^verbatim>\<open>Variant.{hpp,cpp}\<close>, \<^verbatim>\<open>VariantPtr.{hpp,cpp}\<close>, \<^verbatim>\<open>VariantScalar.{hpp,cpp}\<close>,
  \<^verbatim>\<open>VariantArray.{hpp,cpp}\<close>, \<^verbatim>\<open>VariantStruct.{hpp,cpp}\<close> and
  \<^verbatim>\<open>VariantStructReader.hpp\<close>: dynamically typed values. The class hierarchy is one datatype; a
  \<^verbatim>\<open>VariantPtr\<close> is the value it points to or \<open>None\<close> for the null pointer. Scalars are immutable, so
  sharing them is not observable; reference counts and the sharing of containers are not modelled. The
  conversions of a \<^verbatim>\<open>VariantPtr\<close> redirect the pointer to the converted value, so they return the new
  pointer.
\<close>

section \<open>Values\<close>

datatype 'f Variant =
    NullValue
  | Boolean bool
  | LongLongInt INT_64
  | Double 'f
  | VString string
  | VArray "'f Variant list"
  | VStruct "(string \<times> 'f Variant) list"

datatype variant_error = BadCast | VariantOutOfBounds | NullPointer

type_synonym 'f VariantPtr = "'f Variant option"

fun IsNull :: "'f Variant \<Rightarrow> bool" where
  "IsNull NullValue = True"
| "IsNull _ = False"

fun IsArray :: "'f Variant \<Rightarrow> bool" where
  "IsArray (VArray _) = True"
| "IsArray _ = False"

fun IsStruct :: "'f Variant \<Rightarrow> bool" where
  "IsStruct (VStruct _) = True"
| "IsStruct _ = False"

definition IsScalar :: "'f Variant \<Rightarrow> bool" where
  "IsScalar v \<longleftrightarrow> \<not> IsArray v \<and> \<not> IsStruct v"

section \<open>Conversions of scalars\<close>

fun Variant_ToLongLongInt :: "'f double_ops \<Rightarrow> 'f Variant \<Rightarrow> variant_error + INT_64" where
  "Variant_ToLongLongInt d NullValue = Inr 0"
| "Variant_ToLongLongInt d (Boolean b) = Inr (if b then 1 else 0)"
| "Variant_ToLongLongInt d (LongLongInt i) = Inr i"
| "Variant_ToLongLongInt d (Double f) = Inr (d_to_int d f)"
| "Variant_ToLongLongInt d (VString s) = Inr (StringToInteger s)"
| "Variant_ToLongLongInt d (VArray _) = Inl BadCast"
| "Variant_ToLongLongInt d (VStruct _) = Inl BadCast"

fun Variant_ToDouble :: "'f double_ops \<Rightarrow> 'f Variant \<Rightarrow> variant_error + 'f" where
  "Variant_ToDouble d NullValue = Inr (d_of_int d 0)"
| "Variant_ToDouble d (Boolean b) = Inr (if b then d_of_int d 1 else d_of_int d 0)"
| "Variant_ToDouble d (LongLongInt i) = Inr (d_of_int d (sint i))"
| "Variant_ToDouble d (Double f) = Inr f"
| "Variant_ToDouble d (VString s) = Inr (StringToFloat d s)"
| "Variant_ToDouble d (VArray _) = Inl BadCast"
| "Variant_ToDouble d (VStruct _) = Inl BadCast"

fun Variant_ToString :: "'f double_ops \<Rightarrow> 'f Variant \<Rightarrow> variant_error + string" where
  "Variant_ToString d NullValue = Inr []"
| "Variant_ToString d (Boolean b) = Inr (if b then ''true'' else ''false'')"
| "Variant_ToString d (LongLongInt i) = Inr (IntegerToString_signed (sint i))"
| "Variant_ToString d (Double f) = Inr (d_print d f)"
| "Variant_ToString d (VString s) = Inr s"
| "Variant_ToString d (VArray _) = Inl BadCast"
| "Variant_ToString d (VStruct _) = Inl BadCast"

fun Variant_ToArray :: "'f Variant \<Rightarrow> variant_error + 'f Variant list" where
  "Variant_ToArray (VArray vs) = Inr vs"
| "Variant_ToArray _ = Inl BadCast"

section \<open>VariantPtr\<close>

definition VariantPtr_IsNull :: "'f VariantPtr \<Rightarrow> bool" where "VariantPtr_IsNull p \<longleftrightarrow> p = None"

definition VariantPtr_IsScalar :: "'f VariantPtr \<Rightarrow> bool" where
  "VariantPtr_IsScalar p \<longleftrightarrow> (case p of None \<Rightarrow> False | Some v \<Rightarrow> IsScalar v)"

definition VariantPtr_IsArray :: "'f VariantPtr \<Rightarrow> bool" where
  "VariantPtr_IsArray p \<longleftrightarrow> (case p of None \<Rightarrow> False | Some v \<Rightarrow> IsArray v)"

definition VariantPtr_IsStruct :: "'f VariantPtr \<Rightarrow> bool" where
  "VariantPtr_IsStruct p \<longleftrightarrow> (case p of None \<Rightarrow> False | Some v \<Rightarrow> IsStruct v)"

text \<open>\<^verbatim>\<open>newPtr = ptr_->ToX(); *this = newPtr; return newPtr->GetValue();\<close>\<close>

definition convert_in_place :: "('f Variant \<Rightarrow> variant_error + 'a) \<Rightarrow> ('a \<Rightarrow> 'f Variant) \<Rightarrow>
    ('f VariantPtr, variant_error, 'a) mth" where
  "convert_in_place conv wrap p = (case p of None \<Rightarrow> (Inl NullPointer, p) | Some v \<Rightarrow>
     (case conv v of Inl e \<Rightarrow> (Inl e, p) | Inr x \<Rightarrow> (Inr x, Some (wrap x))))"

definition VariantPtr_ToLongLongInt :: "'f double_ops \<Rightarrow> ('f VariantPtr, variant_error, INT_64) mth" where
  "VariantPtr_ToLongLongInt d = convert_in_place (Variant_ToLongLongInt d) LongLongInt"

definition VariantPtr_ToDouble :: "'f double_ops \<Rightarrow> ('f VariantPtr, variant_error, 'f) mth" where
  "VariantPtr_ToDouble d = convert_in_place (Variant_ToDouble d) Double"

definition VariantPtr_ToString :: "'f double_ops \<Rightarrow> ('f VariantPtr, variant_error, string) mth" where
  "VariantPtr_ToString d = convert_in_place (Variant_ToString d) VString"

definition VariantPtr_ToArray :: "('f VariantPtr, variant_error, 'f Variant list) mth" where
  "VariantPtr_ToArray p = (case p of None \<Rightarrow> (Inl NullPointer, p) | Some v \<Rightarrow> (Variant_ToArray v, p))"

section \<open>VariantVector and VariantMap\<close>

definition VariantVector_new :: "'f Variant list" where "VariantVector_new = []"
definition VariantVector_IsEmpty :: "'f Variant list \<Rightarrow> bool" where "VariantVector_IsEmpty vs \<longleftrightarrow> vs = []"
definition VariantVector_Size :: "'f Variant list \<Rightarrow> UINT_32" where "VariantVector_Size vs = of_nat (length vs)"

definition VariantVector_At :: "'f Variant list \<Rightarrow> UINT_32 \<Rightarrow> variant_error + 'f Variant" where
  "VariantVector_At vs index = (if unat index \<ge> length vs then Inl VariantOutOfBounds else Inr (vs ! unat index))"

text \<open>Assignment through the reference \<open>At\<close> returns.\<close>

definition VariantVector_SetAt :: "UINT_32 \<Rightarrow> 'f Variant \<Rightarrow> 'f Variant list \<Rightarrow> variant_error + 'f Variant list" where
  "VariantVector_SetAt index v vs =
     (if unat index \<ge> length vs then Inl VariantOutOfBounds else Inr (vs[unat index := v]))"

definition VariantVector_PushBack :: "'f Variant \<Rightarrow> 'f Variant list \<Rightarrow> 'f Variant list" where
  "VariantVector_PushBack v vs = vs @ [v]"

type_synonym 'f VariantMap = "(string, 'f Variant) std_map"

definition VariantMap_new :: "'f VariantMap" where "VariantMap_new = []"
definition VariantMap_IsEmpty :: "'f VariantMap \<Rightarrow> bool" where "VariantMap_IsEmpty m \<longleftrightarrow> m = []"
definition VariantMap_Size :: "'f VariantMap \<Rightarrow> UINT_32" where "VariantMap_Size m = of_nat (length m)"
definition VariantMap_Exists :: "'f VariantMap \<Rightarrow> string \<Rightarrow> bool" where
  "VariantMap_Exists m key \<longleftrightarrow> map_find m key \<noteq> None"
definition VariantMap_Get :: "'f VariantMap \<Rightarrow> string \<Rightarrow> 'f VariantPtr" where
  "VariantMap_Get m key = map_find m key"
definition VariantMap_Set :: "string \<Rightarrow> 'f Variant \<Rightarrow> 'f VariantMap \<Rightarrow> 'f VariantMap" where
  "VariantMap_Set key v m = map_put key v m"

section \<open>VariantStructReader\<close>

text \<open>\<open>Get\<close> returns a pointer into the map, so a conversion is stored there.\<close>

definition reader_convert :: "('f VariantPtr, variant_error, 'a) mth \<Rightarrow> string \<Rightarrow> 'a \<Rightarrow>
    ('f VariantMap, variant_error, 'a) mth" where
  "reader_convert conv key defaultValue m = (case VariantMap_Get m key of
     None \<Rightarrow> (Inr defaultValue, m)
   | Some v \<Rightarrow> (case conv (Some v) of
       (r, None) \<Rightarrow> (r, m)
     | (r, Some w) \<Rightarrow> (r, map_put key w m)))"

definition Reader_Exists :: "string \<Rightarrow> 'f VariantMap \<Rightarrow> bool" where
  "Reader_Exists key m \<longleftrightarrow> VariantMap_Get m key \<noteq> None"

definition Reader_GetLongLongInt ::
    "'f double_ops \<Rightarrow> string \<Rightarrow> INT_64 \<Rightarrow> ('f VariantMap, variant_error, INT_64) mth" where
  "Reader_GetLongLongInt d key = reader_convert (VariantPtr_ToLongLongInt d) key"

definition Reader_GetString ::
    "'f double_ops \<Rightarrow> string \<Rightarrow> string \<Rightarrow> ('f VariantMap, variant_error, string) mth" where
  "Reader_GetString d key = reader_convert (VariantPtr_ToString d) key"

definition Reader_GetBoolean ::
    "'f double_ops \<Rightarrow> string \<Rightarrow> bool \<Rightarrow> ('f VariantMap, variant_error, bool) mth" where
  "Reader_GetBoolean d key defaultValue =
     reader_convert (\<lambda>p. case VariantPtr_ToLongLongInt d p of
        (Inl e, q) \<Rightarrow> (Inl e, q) | (Inr i, q) \<Rightarrow> (Inr (i \<noteq> 0), q)) key defaultValue"

definition Reader_Get :: "string \<Rightarrow> 'f VariantMap \<Rightarrow> 'f VariantPtr" where
  "Reader_Get key m = VariantMap_Get m key"

section \<open>Debug printing\<close>

definition PrintIndent :: "nat \<Rightarrow> string" where
  "PrintIndent indent = concat (replicate indent ''    '')"

text \<open>The loop of \<open>String::DebugPrintValue\<close>: \<open>begin\<close> is the first character not yet printed.\<close>

definition print_chunk :: "string \<Rightarrow> nat \<Rightarrow> nat \<Rightarrow> string" where
  "print_chunk value from i = (if from < i then take (i - from) (drop from value) else [])"

function string_print_loop :: "string \<Rightarrow> nat \<Rightarrow> nat \<Rightarrow> string \<Rightarrow> string" where
  "string_print_loop value from i out =
     (if i < length value then
        if value ! i = CHR 0x5C then
          string_print_loop value (i + 1) (i + 1) (out @ print_chunk value from i @ [CHR 0x5C, CHR 0x5C])
        else if value ! i = CHR 0x22 then
          string_print_loop value (i + 1) (i + 1) (out @ print_chunk value from i @ [CHR 0x5C, CHR 0x22])
        else string_print_loop value from (i + 1) out
      else out @ print_chunk value from (length value))"
  by pat_completeness auto
termination by (relation "measure (\<lambda>(value, from, i, out). length value - i)") auto

declare string_print_loop.simps [simp del]

definition String_DebugPrintValue :: "string \<Rightarrow> string" where
  "String_DebugPrintValue value = [CHR 0x22] @ string_print_loop value 0 0 [] @ [CHR 0x22]"

fun DebugPrintValue :: "'f double_ops \<Rightarrow> 'f Variant \<Rightarrow> nat \<Rightarrow> string"
  and print_items :: "'f double_ops \<Rightarrow> 'f Variant list \<Rightarrow> nat \<Rightarrow> string"
  and print_pairs :: "'f double_ops \<Rightarrow> (string \<times> 'f Variant) list \<Rightarrow> nat \<Rightarrow> string" where
  "DebugPrintValue d NullValue indent = ''null''"
| "DebugPrintValue d (Boolean b) indent = (if b then ''true'' else ''false'')"
| "DebugPrintValue d (LongLongInt i) indent = IntegerToString_signed (sint i)"
| "DebugPrintValue d (Double f) indent = d_print d f"
| "DebugPrintValue d (VString s) indent = String_DebugPrintValue s"
| "DebugPrintValue d (VArray vs) indent =
     ''['' @ [CHR 0x0A] @ print_items d vs (indent + 1) @ PrintIndent indent @ '']''"
| "DebugPrintValue d (VStruct m) indent =
     ''{'' @ [CHR 0x0A] @ print_pairs d m (indent + 1) @ PrintIndent indent @ ''}''"
| "print_items d [] indent = []"
| "print_items d (v # vs) indent =
     PrintIndent indent @ DebugPrintValue d v indent @ (if vs \<noteq> [] then '','' else []) @ [CHR 0x0A] @
     print_items d vs indent"
| "print_pairs d [] indent = []"
| "print_pairs d ((k, v) # m) indent =
     PrintIndent indent @ c_str k @ '' : '' @ DebugPrintValue d v indent @ (if m \<noteq> [] then '','' else []) @ [CHR 0x0A] @
     print_pairs d m indent"

definition DebugPrint :: "'f double_ops \<Rightarrow> 'f Variant \<Rightarrow> string" where
  "DebugPrint d v = DebugPrintValue d v 0 @ [CHR 0x0A]"

section \<open>Conversions are made once\<close>

text \<open>Doubles instantiated by the integers, for the witness.\<close>

definition int_doubles :: "int double_ops" where
  "int_doubles = \<lparr>d_of_uint = uint, d_of_int = id, d_add = (+), d_mul = (*), d_div = (div),
     d_neg = uminus, d_pow = (\<lambda>a b. a ^ nat b), d_to_int = word_of_int, d_print = IntegerToString_signed\<rparr>"

lemma StringToInteger_sint: "StringToInteger (IntegerToString_signed (sint i)) = (i :: INT_64)"
proof -
  have "StringToInteger (IntegerToString_signed (sint i)) = (word_of_int (sint i) :: INT_64)"
    by (rule StringToInteger_printed)
  then show ?thesis by simp
qed

section \<open>Printing of strings\<close>

definition escape_char :: "char \<Rightarrow> string" where
  "escape_char c = (if c = CHR 0x5C \<or> c = CHR 0x22 then [CHR 0x5C, c] else [c])"

definition plain :: "char \<Rightarrow> bool" where "plain c \<longleftrightarrow> c \<noteq> CHR 0x5C \<and> c \<noteq> CHR 0x22"

lemma concat_plain: "list_all plain xs \<Longrightarrow> concat (map escape_char xs) = xs"
  by (induction xs) (auto simp: plain_def escape_char_def)

lemma string_print_loop_escape:
  assumes "from \<le> i" "i \<le> length value" "list_all plain (take (i - from) (drop from value))"
  shows "string_print_loop value from i out = out @ concat (map escape_char (drop from value))"
  using assms
proof (induction "value" "from" i out rule: string_print_loop.induct)
  case (1 v a i out)
  have chunk: "print_chunk v a i = concat (map escape_char (take (i - a) (drop a v)))"
    using 1(4-6) by (simp add: concat_plain print_chunk_def)
  show ?case
  proof (cases "i < length v")
    case False
    then have "take (i - a) (drop a v) = drop a v" using 1(4,5) by simp
    then show ?thesis using False chunk 1(4,5) by (subst string_print_loop.simps) simp
  next
    case True
    have d: "drop a v = take (i - a) (drop a v) @ v ! i # drop (Suc i) v"
      using True 1(4) id_take_nth_drop [of "i - a" "drop a v"] by simp
    show ?thesis
    proof (cases "plain (v ! i)")
      case p: True
      have "take (Suc i - a) (drop a v) = take (i - a) (drop a v) @ [v ! i]"
        using True 1(4) by (simp add: Suc_diff_le take_Suc_conv_app_nth)
      then have "list_all plain (take (Suc i - a) (drop a v))" using 1(6) p by simp
      then show ?thesis using True p 1(3) 1(4,5) by (subst string_print_loop.simps) (simp add: plain_def [of "v ! i"])
    next
      case False
      let ?o = "out @ print_chunk v a i @ [CHR 0x5C, v ! i]"
      have "string_print_loop v (i + 1) (i + 1) ?o = ?o @ concat (map escape_char (drop (i + 1) v))"
        using False True 1(1,2) by (cases "v ! i = CHR 0x5C") (auto simp: plain_def)
      moreover have "string_print_loop v a i out = string_print_loop v (i + 1) (i + 1) ?o"
        using False True by (subst string_print_loop.simps) (auto simp: plain_def)
      moreover have "escape_char (v ! i) = [CHR 0x5C, v ! i]" using False by (auto simp: escape_char_def plain_def)
      ultimately show ?thesis using chunk by (subst d) simp
    qed
  qed
qed

lemma String_DebugPrintValue_escape:
  "String_DebugPrintValue s = CHR 0x22 # concat (map escape_char s) @ [CHR 0x22]"
  using string_print_loop_escape [of 0 0 s "[]"] by (simp add: String_DebugPrintValue_def)

fun unescape :: "string \<Rightarrow> string" where
  "unescape (c # d # r) = (if c = CHR 0x5C then d # unescape r else c # unescape (d # r))"
| "unescape r = r"

lemma unescape_escape: "unescape (concat (map escape_char s)) = s"
proof (induction s)
  case (Cons c s)
  show ?case
  proof (cases "plain c")
    case True
    then have "unescape (c # t) = c # unescape t" for t by (cases t) (auto simp: plain_def)
    then show ?thesis using Cons True by (simp add: escape_char_def plain_def)
  next
    case False
    then show ?thesis using Cons by (auto simp: escape_char_def plain_def)
  qed
qed simp

section \<open>Properties\<close>

text \<open>The debug form of a string, printed in chunks between the characters that need a backslash, is the
  string with every backslash and double quote escaped, between double quotes; it can be read back, so
  different strings print differently.\<close>

theorem String_DebugPrint_escapes:
  "String_DebugPrintValue s = CHR 0x22 # concat (map escape_char s) @ [CHR 0x22] \<and>
   unescape (butlast (tl (String_DebugPrintValue s))) = s"
  by (simp add: String_DebugPrintValue_escape unescape_escape)

text \<open>A conversion through a \<open>VariantPtr\<close> is made once: the pointer then refers to the converted value,
  asking again gives the same value and changes nothing, an integer survives the detour over its text, and a
  failed conversion leaves the pointer alone.\<close>

theorem VariantPtr_conversion:
  "(case VariantPtr_ToLongLongInt d (Some v) of
      (Inr i, q) \<Rightarrow> IsScalar v \<and> q = Some (LongLongInt i) \<and> VariantPtr_ToLongLongInt d q = (Inr i, q) \<and>
        (\<exists>s. VariantPtr_ToString d q = (Inr s, Some (VString s)) \<and>
             VariantPtr_ToLongLongInt d (Some (VString s)) = (Inr i, q))
    | (Inl e, q) \<Rightarrow> \<not> IsScalar v \<and> e = BadCast \<and> q = Some v) \<and>
   (case VariantPtr_ToString d (Some v) of
      (Inr s, q) \<Rightarrow> IsScalar v \<and> q = Some (VString s) \<and> VariantPtr_ToString d q = (Inr s, q)
    | (Inl e, q) \<Rightarrow> \<not> IsScalar v \<and> e = BadCast \<and> q = Some v)"
  by (cases v) (simp_all add: VariantPtr_ToLongLongInt_def VariantPtr_ToString_def convert_in_place_def
      IsScalar_def StringToInteger_sint StringToInteger_sint [of 0, simplified])

text \<open>Reading a field of a struct can change it: after a string field was read as an integer, reading it
  as a string gives the text of the integer, not the string that was stored.\<close>

theorem Reader_GetLongLongInt_overwrites:
  assumes "map_ok m" "VariantMap_Get m key = Some (VString s)"
  shows "let (r, m') = Reader_GetLongLongInt d key i m in
    r = Inr (StringToInteger s) \<and>
    fst (Reader_GetString d key t m) = Inr s \<and>
    fst (Reader_GetString d key t m') = Inr (IntegerToString_signed (sint (StringToInteger s :: INT_64))) \<and>
    (\<forall>k. k \<noteq> key \<longrightarrow> VariantMap_Get m' k = VariantMap_Get m k)"
  using assms omap.find_put [OF assms(1)]
  by (simp add: Reader_GetLongLongInt_def Reader_GetString_def reader_convert_def VariantPtr_ToLongLongInt_def
      VariantPtr_ToString_def convert_in_place_def VariantMap_Get_def)

theorem Reader_GetLongLongInt_overwrites_witness:
  "fst (Reader_GetString int_doubles ''k'' [] (snd (Reader_GetLongLongInt int_doubles ''k'' 0 [(''k'', VString ''007x'')])))
     = Inr ''7''"
proof -
  have "IntegerToString_signed (sint (StringToInteger ''007x'' :: INT_64)) = ''7''"
    by (simp add: StringToInteger_def StringToInteger_ptr_def c_str_def digit_char_iff add_digit_def char_digit_def
        char_int_def char_index_def signed_text IntegerToString_unsigned_def ReverseStringifyUnsignedInteger_def
        unsigned_loop_unfold char_wrap_def char_of_def bit_Suc_0_iff)
  then show ?thesis
    using Reader_GetLongLongInt_overwrites [of "[(''k'', VString ''007x'')]" "''k''" "''007x''" int_doubles 0 "[]"]
    by (simp add: map_ok_def VariantMap_Get_def map_find_def Let_def split: prod.splits)
qed

end
