(* ===== verification/Ini_Config.thy ===== *)
theory Ini_Config
  imports Parser_Progress Variants
begin

text \<open>
  \<^verbatim>\<open>ini/IniConfig.{hpp,cpp}\<close> and \<^verbatim>\<open>ini/IniConfigParser.{hpp,cpp}\<close>: configuration
  files. A configuration maps section names to sections and a section maps keys to values. The parser's
  object is its source, the configuration it fills and the current section; what was set before an error
  stays in the configuration. The content of the file \<open>LoadFromFile\<close> reads is an argument.
\<close>

section \<open>Sections\<close>

record 'f Section =
  sectionName :: string
  pairs :: "(string, 'f Variant) std_map"

datatype ini_error =
    SectionDoesNotExist string
  | KeyDoesNotExist string string
  | FileIsTooBig
  | FileReadError
  | ConversionError variant_error
  | SyntaxError tp_error

definition Section_new :: "string \<Rightarrow> 'f Section" where
  "Section_new name = \<lparr>sectionName = name, pairs = []\<rparr>"

definition Section_Contains :: "string \<Rightarrow> 'f Section \<Rightarrow> bool" where
  "Section_Contains key s \<longleftrightarrow> map_find (pairs s) key \<noteq> None"

definition Section_Set :: "string \<Rightarrow> 'f Variant \<Rightarrow> 'f Section \<Rightarrow> 'f Section" where
  "Section_Set key v s = s\<lparr>pairs := map_put key v (pairs s)\<rparr>"

definition Section_Append :: "'f Section \<Rightarrow> 'f Section \<Rightarrow> 'f Section" where
  "Section_Append from s = fold (\<lambda>(k, v). Section_Set k v) (pairs from) s"

definition Section_Get :: "string \<Rightarrow> 'f Section \<Rightarrow> ini_error + 'f Variant" where
  "Section_Get key s = (case map_find (pairs s) key of
     None \<Rightarrow> Inl (KeyDoesNotExist (sectionName s) key) | Some v \<Rightarrow> Inr v)"

text \<open>The overload without a default converts a copy of the pointer; the three others convert the pointer in the
  \<^verbatim>\<open>mutable\<close> map.\<close>

definition Section_GetLongLongInt :: "'f double_ops \<Rightarrow> string \<Rightarrow> 'f Section \<Rightarrow> ini_error + INT_64" where
  "Section_GetLongLongInt d key s = (case Section_Get key s of Inl e \<Rightarrow> Inl e
     | Inr v \<Rightarrow> (case fst (VariantPtr_ToLongLongInt d (Some v)) of
         Inl e \<Rightarrow> Inl (ConversionError e) | Inr i \<Rightarrow> Inr i))"

definition section_convert :: "('f VariantPtr, variant_error, 'a) mth \<Rightarrow> string \<Rightarrow> 'a \<Rightarrow>
    ('f Section, ini_error, 'a) mth" where
  "section_convert conv key defaultValue s = (case map_find (pairs s) key of
     None \<Rightarrow> (Inr defaultValue, s)
   | Some v \<Rightarrow> (case conv (Some v) of
       (r, p) \<Rightarrow> (case r of Inl e \<Rightarrow> Inl (ConversionError e) | Inr x \<Rightarrow> Inr x,
                  case p of None \<Rightarrow> s | Some w \<Rightarrow> s\<lparr>pairs := map_put key w (pairs s)\<rparr>)))"

definition Section_GetLongLongInt_default ::
    "'f double_ops \<Rightarrow> string \<Rightarrow> INT_64 \<Rightarrow> ('f Section, ini_error, INT_64) mth" where
  "Section_GetLongLongInt_default d = section_convert (VariantPtr_ToLongLongInt d)"

definition Section_GetDouble :: "'f double_ops \<Rightarrow> string \<Rightarrow> 'f \<Rightarrow> ('f Section, ini_error, 'f) mth" where
  "Section_GetDouble d = section_convert (VariantPtr_ToDouble d)"

definition Section_GetString :: "'f double_ops \<Rightarrow> string \<Rightarrow> string \<Rightarrow> ('f Section, ini_error, string) mth" where
  "Section_GetString d = section_convert (VariantPtr_ToString d)"

section \<open>IniConfig\<close>

type_synonym 'f IniConfig = "(string, 'f Section) std_map"

definition CreateSection :: "string \<Rightarrow> 'f IniConfig \<Rightarrow> 'f Section \<times> 'f IniConfig" where
  "CreateSection name cfg = (case map_find cfg name of
     None \<Rightarrow> (let s = Section_new name in (s, map_put name s cfg)) | Some s \<Rightarrow> (s, cfg))"

text \<open>A change through the reference \<open>CreateSection\<close> returns.\<close>

definition with_section :: "string \<Rightarrow> ('f Section \<Rightarrow> 'f Section) \<Rightarrow> 'f IniConfig \<Rightarrow> 'f IniConfig" where
  "with_section name f cfg = (case CreateSection name cfg of (s, cfg) \<Rightarrow> map_put name (f s) cfg)"

definition IniConfig_Set :: "string \<Rightarrow> string \<Rightarrow> 'f Variant \<Rightarrow> 'f IniConfig \<Rightarrow> 'f IniConfig" where
  "IniConfig_Set name key v cfg = with_section name (Section_Set key v) cfg"

definition IniConfig_Append :: "'f IniConfig \<Rightarrow> 'f IniConfig \<Rightarrow> 'f IniConfig" where
  "IniConfig_Append from cfg = fold (\<lambda>(name, s). with_section name (Section_Append s)) from cfg"

definition GetSectionRequired :: "string \<Rightarrow> 'f IniConfig \<Rightarrow> ini_error + 'f Section" where
  "GetSectionRequired name cfg = (case map_find cfg name of
     None \<Rightarrow> Inl (SectionDoesNotExist name) | Some s \<Rightarrow> Inr s)"

definition EMPTY_SECTION :: "'f Section" where "EMPTY_SECTION = Section_new []"

definition GetSectionOptional :: "string \<Rightarrow> 'f IniConfig \<Rightarrow> 'f Section" where
  "GetSectionOptional name cfg = (case map_find cfg name of None \<Rightarrow> EMPTY_SECTION | Some s \<Rightarrow> s)"

section \<open>IniConfigParser\<close>

record 'f IniParser =
  iniSource :: ConstCharPtr
  config :: "'f IniConfig"
  currentSection :: string

type_synonym ('f, 'a) ini_parser = "('f IniParser, tp_error, 'a) mth"

text \<open>The inherited operations work on the source.\<close>

definition on_source :: "'a parser \<Rightarrow> ('f, 'a) ini_parser" where
  "on_source m p = (case m (iniSource p) of (r, s) \<Rightarrow> (r, p\<lparr>iniSource := s\<rparr>))"

definition advance_ini :: "(ConstCharPtr \<Rightarrow> ConstCharPtr) \<Rightarrow> ('f, unit) ini_parser" where
  "advance_ini f p = (Inr (), p\<lparr>iniSource := f (iniSource p)\<rparr>)"

definition SingleQuotedStringParser :: StringLiteralParser where
  "SingleQuotedStringParser = \<lparr>boundingChar = CHR 0x27, escapeSequenceChar = CHR 0x5C, multiline = False,
     escapes = fold (\<lambda>f. f)
       [EscapeSequenceSet_Add CHR 0x27 CHR 0x27, EscapeSequenceSet_Add CHR 0x5C CHR 0x5C]
       EscapeSequenceSet_new\<rparr>"

definition DoubleQuotedStringParser :: StringLiteralParser where
  "DoubleQuotedStringParser = \<lparr>boundingChar = CHR 0x22, escapeSequenceChar = CHR 0x5C, multiline = False,
     escapes = fold (\<lambda>f. f)
       [EscapeSequenceSet_Add CHR 0x22 CHR 0x22, EscapeSequenceSet_Add CHR 0x5C CHR 0x5C,
        EscapeSequenceSet_Add CHR ''r'' CHR 0x0D, EscapeSequenceSet_Add CHR ''n'' CHR 0x0A,
        EscapeSequenceSet_Add CHR ''t'' CHR 0x09] EscapeSequenceSet_new\<rparr>"

definition variant_of_number :: "'f Number \<Rightarrow> 'f Variant" where
  "variant_of_number n = (case n of Rational f \<Rightarrow> Double f | SignedInteger i \<Rightarrow> LongLongInt i
     | UnsignedInteger u \<Rightarrow> LongLongInt u)"

definition ReadValue :: "'f double_ops \<Rightarrow> 'f Variant parser" where
  "ReadValue d = bindM GetChar (\<lambda>c.
     if c = CHR 0x27 then bindM (StringLiteral_Parse SingleQuotedStringParser) (\<lambda>s. returnM (VString s))
     else if c = CHR 0x22 then bindM (StringLiteral_Parse DoubleQuotedStringParser) (\<lambda>s. returnM (VString s))
     else if Contains NUMBER_HEAD c then
       bindM (FloatLiteral_Parse FloatLiteralParser_config d) (\<lambda>n. returnM (variant_of_number n))
     else ThrowError ''Value was expected'')"

definition SkipComments :: "ConstCharPtr \<Rightarrow> ConstCharPtr" where
  "SkipComments s = advance_while (\<lambda>c. c \<noteq> CHR 0x0A) (Advance s)"

definition SkipNewLine :: "unit parser" where
  "SkipNewLine s =
     (if AtEnd s then (Inr (), s)
      else
        let cr = (peek s = CHR 0x0D); s = (if cr then Advance s else s) in
        if cr \<and> AtEnd s then (Inr (), s)
        else if peek s = CHR 0x0A then (Inr (), Advance s)
        else ThrowError ''New line expected'' s)"

text \<open>The name between the brackets; \<open>ReadSection\<close> turns the end of the file into an error.\<close>

definition section_header :: "('f, unit) ini_parser" where
  "section_header =
     bindM (advance_ini (\<lambda>s. SkipLinearSpaces (Advance s))) (\<lambda>_.
     bindM (on_source NeedChar) (\<lambda>c.
     bindM (if \<not> Contains IDENTIFIER_HEAD c then on_source (ThrowError ''Section name was expected'') else returnM ())
     (\<lambda>_. bindM (on_source ReadIdentifier) (\<lambda>name.
     bindM (\<lambda>p. (Inr (), p\<lparr>currentSection := name\<rparr>)) (\<lambda>_.
     bindM (advance_ini SkipLinearSpaces) (\<lambda>_.
     bindM (on_source NeedChar) (\<lambda>c.
     bindM (if c \<noteq> CHR '']'' then on_source (ThrowError ''Closing square bracket was expected'') else returnM ())
     (\<lambda>_. advance_ini Advance))))))))"

definition ReadSection :: "('f, unit) ini_parser" where
  "ReadSection = catchM section_header
     (\<lambda>e. if e = EndOfFile then on_source (ThrowError ''Unexpected end of file'') else throwM e)"

text \<open>The divider between key and value: at least one space or one of the two characters.\<close>

definition ReadDivider :: "bool parser" where
  "ReadDivider s =
     (let space = (NotAtEnd s \<and> Contains LINEAR_SPACE (peek s));
          s = (if space then SkipLinearSpaces (Advance s) else s);
          sign = (NotAtEnd s \<and> (peek s = CHR '':'' \<or> peek s = CHR ''=''));
          s = (if sign then SkipLinearSpaces (Advance s) else s)
      in (Inr (space \<or> sign), s))"

definition ReadKeyValue :: "'f double_ops \<Rightarrow> ('f, unit) ini_parser" where
  "ReadKeyValue d =
     bindM (on_source ReadIdentifier) (\<lambda>key.
     bindM (on_source ReadDivider) (\<lambda>wasDivider.
     bindM (if \<not> wasDivider
            then on_source (ThrowError ''Key-value divider was expected (':', '=' or SPACE)'') else returnM ()) (\<lambda>_.
     bindM (on_source (\<lambda>s. if AtEnd s then ThrowError ''Value expected'' s else (Inr (), s))) (\<lambda>_.
     bindM (on_source (ReadValue d)) (\<lambda>v p.
       (Inr (), p\<lparr>config := IniConfig_Set (currentSection p) key v (config p)\<rparr>))))))"

definition line_body :: "'f double_ops \<Rightarrow> ('f, unit) ini_parser" where
  "line_body d p =
     (let c = peek (iniSource p) in
      if c = CHR ''['' then ReadSection p
      else if Contains IDENTIFIER_HEAD c then ReadKeyValue d p
      else (Inr (), p))"

definition line_end :: "unit parser" where
  "line_end s =
     (let s = SkipLinearSpaces s in
      if AtEnd s then (Inr (), s)
      else SkipNewLine (if peek s = CHR '';'' \<or> peek s = CHR ''#'' then SkipComments s else s))"

definition ParseLine :: "'f double_ops \<Rightarrow> ('f, unit) ini_parser" where
  "ParseLine d =
     bindM (advance_ini SkipLinearSpaces) (\<lambda>_ p.
       if AtEnd (iniSource p) then (Inr (), p)
       else bindM (line_body d) (\<lambda>_. on_source line_end) p)"

section \<open>Every line moves the source\<close>

definition ini_steady :: "('f, 'a) ini_parser \<Rightarrow> bool" where
  "ini_steady m \<longleftrightarrow> (\<forall>p. keeps (iniSource p) (iniSource (snd (m p))))"

lemma ini_steady_on_source [steady_intros]: "steady m \<Longrightarrow> ini_steady (on_source m)"
  by (auto simp: ini_steady_def on_source_def steady_def split_beta)

lemma ini_steady_advance [steady_intros]: "(\<And>s. keeps s (f s)) \<Longrightarrow> ini_steady (advance_ini f)"
  by (simp add: ini_steady_def advance_ini_def)

lemma ini_steady_pure [steady_intros]: "ini_steady (returnM x)" "ini_steady (throwM e)"
    "(\<And>p. iniSource (f p) = iniSource p) \<Longrightarrow> ini_steady (\<lambda>p. (r, f p))"
  by (simp_all add: ini_steady_def returnM_def throwM_def keeps_refl)

lemma ini_steady_bind [steady_intros]: "ini_steady m \<Longrightarrow> (\<And>a. ini_steady (k a)) \<Longrightarrow> ini_steady (bindM m k)"
  unfolding ini_steady_def bindM_def by (auto split: prod.splits sum.splits) (metis keeps_trans snd_conv)+

lemma ini_steady_catch [steady_intros]: "ini_steady m \<Longrightarrow> (\<And>e. ini_steady (h e)) \<Longrightarrow> ini_steady (catchM m h)"
  unfolding ini_steady_def catchM_def by (auto split: prod.splits sum.splits) (metis keeps_trans snd_conv)+

lemma ini_steady_if [steady_intros]: "ini_steady m \<Longrightarrow> ini_steady n \<Longrightarrow> ini_steady (if b then m else n)"
  by simp

lemma steady_ReadValue [steady_intros]: "steady (ReadValue d)"
  unfolding ReadValue_def by (intro steady_intros)

lemma steady_ReadDivider [steady_intros]: "steady ReadDivider"
  by (rule steadyI) (auto simp: ReadDivider_def Let_def intro!: steady_intros)

lemma ini_steady_line_body: "ini_steady (line_body d)"
proof -
  have "ini_steady (ReadSection :: ('f, unit) ini_parser)"
    unfolding ReadSection_def section_header_def by (auto intro!: steady_intros)
  moreover have "ini_steady (ReadKeyValue d)"
    unfolding ReadKeyValue_def by (auto intro!: steady_intros)
  ultimately show ?thesis by (auto simp: ini_steady_def line_body_def Let_def keeps_refl)
qed

lemma SkipNewLine_progress:
  "SkipNewLine s = (Inr (), t) \<Longrightarrow> chars t = chars s \<and> ptr s \<le> ptr t \<and> (AtEnd t \<or> ptr s < ptr t)"
  by (auto simp: SkipNewLine_def Let_def Advance_def ThrowError_def ThrowError_at_def throwM_def bindM_def
      split: if_splits prod.splits sum.splits)

lemma line_end_progress:
  "line_end s = (Inr (), t) \<Longrightarrow> chars t = chars s \<and> (AtEnd t \<or> ptr s < ptr t)"
proof -
  assume l: "line_end s = (Inr (), t)"
  let ?s = "SkipLinearSpaces s"
  let ?u = "if peek ?s = CHR '';'' \<or> peek ?s = CHR ''#'' then SkipComments ?s else ?s"
  have k: "keeps s ?s" "keeps s ?u"
    by (auto simp: SkipComments_def intro!: steady_intros)
  show ?thesis
  proof (cases "AtEnd ?s")
    case True
    then show ?thesis using l k by (auto simp: line_end_def keeps_def)
  next
    case False
    then have "SkipNewLine ?u = (Inr (), t)" using l by (simp add: line_end_def Let_def)
    then show ?thesis using SkipNewLine_progress k(2) by (fastforce simp: keeps_def)
  qed
qed

lemma ParseLine_progress:
  assumes "ParseLine d p = (Inr (), q)"
  shows "chars (iniSource q) = chars (iniSource p) \<and> (AtEnd (iniSource q) \<or> ptr (iniSource p) < ptr (iniSource q))"
proof -
  define p1 where "p1 = p\<lparr>iniSource := SkipLinearSpaces (iniSource p)\<rparr>"
  have k1: "keeps (iniSource p) (iniSource p1)" unfolding p1_def by (simp add: keeps_SkipLinearSpaces keeps_refl)
  show ?thesis
  proof (cases "AtEnd (iniSource p1)")
    case True
    then show ?thesis using assms k1
      by (auto simp: ParseLine_def bindM_def advance_ini_def p1_def keeps_def split: if_splits)
  next
    case False
    then obtain p2 where l: "line_body d p1 = (Inr (), p2)" "on_source line_end p2 = (Inr (), q)"
      using assms by (auto simp: ParseLine_def bindM_Inr_iff advance_ini_def p1_def)
    have k2: "keeps (iniSource p1) (iniSource p2)"
      using ini_steady_line_body [of d] l(1) unfolding ini_steady_def by (metis snd_conv)
    obtain t where "line_end (iniSource p2) = (Inr (), t)" "q = p2\<lparr>iniSource := t\<rparr>"
      using l(2) by (auto simp: on_source_def split: prod.splits)
    then show ?thesis using line_end_progress k1 k2 by (fastforce simp: keeps_def)
  qed
qed

section \<open>The constructor\<close>

function parse_lines :: "'f double_ops \<Rightarrow> ('f, unit) ini_parser" where
  "parse_lines d p =
     (if NotAtEnd (iniSource p)
      then (case ParseLine d p of (Inl e, p) \<Rightarrow> (Inl e, p) | (Inr _, p) \<Rightarrow> parse_lines d p)
      else (Inr (), p))"
  by pat_completeness auto
termination
  by (relation "measure (\<lambda>(d, p). length (chars (iniSource p)) - ptr (iniSource p))")
    (auto simp: NotAtEnd_def AtEnd_def dest!: ParseLine_progress [OF sym])

declare parse_lines.simps [simp del]

definition IniConfigParser :: "'f double_ops \<Rightarrow> ConstCharPtr \<Rightarrow> 'f IniConfig \<Rightarrow>
    (tp_error + unit) \<times> 'f IniParser" where
  "IniConfigParser d input cfg = parse_lines d \<lparr>iniSource = input, config = cfg, currentSection = []\<rparr>"

text \<open>What the file system returns: the size of the file, the bytes read and their number.\<close>

record file_image =
  file_size :: int
  read_bytes :: string

definition MAX_INI_CONFIG_SIZE :: int where "MAX_INI_CONFIG_SIZE = 128 * 1024 * 1024"

definition LoadFromFile :: "'f double_ops \<Rightarrow> file_image \<Rightarrow> ('f IniConfig, ini_error, unit) mth" where
  "LoadFromFile d file cfg =
     (if file_size file > MAX_INI_CONFIG_SIZE then (Inl FileIsTooBig, [])
      else if int (length (read_bytes file)) \<noteq> file_size file then (Inl FileReadError, [])
      else case IniConfigParser d (ConstCharPtr_new (read_bytes file)) [] of
          (Inl e, p) \<Rightarrow> (Inl (SyntaxError e), config p)
        | (Inr _, p) \<Rightarrow> (Inr (), config p))"

section \<open>The store\<close>

definition config_ok :: "'f IniConfig \<Rightarrow> bool" where
  "config_ok cfg \<longleftrightarrow> map_ok cfg \<and> (\<forall>s\<in>snd ` set cfg. map_ok (pairs s))"

text \<open>The abstract configuration: a value for every section and key.\<close>

definition config_map :: "'f IniConfig \<Rightarrow> string \<Rightarrow> string \<Rightarrow> 'f Variant option" where
  "config_map cfg name = (case map_find cfg name of None \<Rightarrow> Map.empty | Some s \<Rightarrow> map_find (pairs s))"

definition section_of :: "'f IniConfig \<Rightarrow> string \<Rightarrow> 'f Section" where
  "section_of cfg name = (case map_find cfg name of None \<Rightarrow> Section_new name | Some s \<Rightarrow> s)"

lemma config_map_section_of: "config_map cfg name = map_find (pairs (section_of cfg name))"
  by (auto simp: config_map_def section_of_def Section_new_def map_find_def split: option.split)

lemma config_ok_empty: "config_ok [] \<and> config_map [] = (\<lambda>_. Map.empty)"
  by (simp add: config_ok_def map_ok_def config_map_def map_find_def fun_eq_iff)

lemma map_put_values: "snd ` set (map_put k v m) \<subseteq> insert v (snd ` set m)"
  by (induction k v m rule: map_put.induct) auto

lemma section_of_ok: "config_ok cfg \<Longrightarrow> map_ok (pairs (section_of cfg name))"
  by (auto simp: config_ok_def section_of_def Section_new_def map_ok_def map_find_def dest!: map_of_SomeD
      split: option.split)

lemma with_section_props:
  assumes "config_ok cfg" "map_ok (pairs (f (section_of cfg name)))"
  shows "config_ok (with_section name f cfg) \<and>
    config_map (with_section name f cfg) = (config_map cfg)(name := map_find (pairs (f (section_of cfg name))))"
proof -
  let ?c = "case map_find cfg name of None \<Rightarrow> map_put name (Section_new name) cfg | Some _ \<Rightarrow> cfg"
  have w: "with_section name f cfg = map_put name (f (section_of cfg name)) ?c"
    by (auto simp: with_section_def CreateSection_def section_of_def Let_def split: option.split)
  have ok: "map_ok cfg" "\<forall>s\<in>snd ` set cfg. map_ok (pairs s)" using assms(1) by (auto simp: config_ok_def)
  have new: "map_ok (pairs (Section_new name :: 'f Section))" by (simp add: Section_new_def map_ok_def)
  have put: "\<forall>s\<in>snd ` set (map_put name x m). map_ok (pairs s)"
    if "map_ok (pairs x)" "\<forall>s\<in>snd ` set m. map_ok (pairs s)" for x :: "'f Section" and m
    using that map_put_values [of name x m] by blast
  have c: "map_ok ?c" "\<forall>s\<in>snd ` set ?c. map_ok (pairs s)" "k \<noteq> name \<Longrightarrow> map_find ?c k = map_find cfg k" for k
    using ok put [OF new ok(2)] omap.put_ok [OF ok(1)] omap.find_put [OF ok(1)] by (auto split: option.split)
  have all: "\<forall>s\<in>snd ` set (with_section name f cfg). map_ok (pairs s)" unfolding w by (rule put [OF assms(2) c(2)])
  have cm: "config_map (with_section name f cfg) k =
      ((config_map cfg)(name := map_find (pairs (f (section_of cfg name))))) k" for k
    using omap.find_put [OF c(1)] c(3) [of k] by (simp add: w config_map_def)
  show ?thesis using all cm omap.put_ok [OF c(1)] by (simp add: config_ok_def w fun_eq_iff del: split_paired_All)
qed

lemma IniConfig_Set_props:
  assumes "config_ok cfg"
  shows "config_ok (IniConfig_Set name key v cfg) \<and>
    config_map (IniConfig_Set name key v cfg) = (config_map cfg)(name := (config_map cfg name)(key \<mapsto> v))"
  using with_section_props [OF assms, of "Section_Set key v" name] section_of_ok [OF assms, of name]
    omap.put_ok [of "pairs (section_of cfg name)"] omap.find_put [of "pairs (section_of cfg name)"]
  by (simp add: IniConfig_Set_def Section_Set_def config_map_section_of [of cfg name])

lemma Section_Append_pairs: "pairs (Section_Append from s) = omap.put_all (pairs from) (pairs s)"
proof -
  have "pairs (fold (\<lambda>(k, v). Section_Set k v) kvs s) = fold (\<lambda>p. map_put (fst p) (snd p)) kvs (pairs s)" for kvs
    by (induction kvs arbitrary: s) (auto simp: Section_Set_def)
  then show ?thesis by (simp add: Section_Append_def omap.put_all_def)
qed

lemma IniConfig_Append_props:
  assumes "config_ok cfg" "map_ok from" "\<forall>s\<in>snd ` set from. map_ok (pairs s)"
  shows "config_ok (IniConfig_Append from cfg) \<and>
    config_map (IniConfig_Append from cfg) = (\<lambda>name. config_map cfg name ++ config_map from name)"
  using assms unfolding IniConfig_Append_def
proof (induction "from" arbitrary: cfg)
  case Nil
  then show ?case by (simp add: config_map_def map_find_def fun_eq_iff)
next
  case (Cons p m)
  obtain name s where p: "p = (name, s)" by (cases p)
  let ?cfg = "with_section name (Section_Append s) cfg"
  have ok: "map_ok (pairs (section_of cfg name))" "map_ok (pairs s)"
    using section_of_ok Cons.prems p by auto
  have fresh: "map_of m name = None" using Cons.prems(2) p by (auto simp: map_ok_Cons map_of_eq_None_iff)
  have w: "config_ok ?cfg" "config_map ?cfg = (config_map cfg)(name := config_map cfg name ++ map_find (pairs s))"
    using with_section_props [OF Cons.prems(1), of "Section_Append s" name] omap.put_all_ok [OF ok(1)]
      omap.find_put_entries [OF ok]
    by (simp_all add: Section_Append_pairs config_map_section_of [of cfg name])
  have "map_ok m" "\<forall>s\<in>snd ` set m. map_ok (pairs s)" using Cons.prems p by (auto simp: map_ok_Cons)
  note IH = Cons.IH [OF w(1) this]
  show ?case using IH w(2) fresh p
    by (auto simp: fun_eq_iff config_map_def map_find_def)
qed

end
