(* ===== verification/Ini_Document.thy ===== *)
theory Ini_Document
  imports Ini_Config String_Literal Number_Literal
begin

text \<open>
  What \<^verbatim>\<open>ini/IniConfigParser.cpp\<close> reads: the grammar of the documents a writer of configuration files produces,
  with the effect every line has, and the proof that the parser of \<open>Ini_Config\<close> gives each document that effect.
\<close>

section \<open>Documents\<close>

text \<open>The values and lines a writer of configuration files has at its disposal.\<close>

datatype ini_value = Quoted bool "item list" | Integer bool string

fun quote_parser :: "bool \<Rightarrow> StringLiteralParser" where
  "quote_parser double = (if double then DoubleQuotedStringParser else SingleQuotedStringParser)"

fun value_text :: "ini_value \<Rightarrow> string" where
  "value_text (Quoted double its) =
     boundingChar (quote_parser double) # items_text (quote_parser double) its @ [boundingChar (quote_parser double)]"
| "value_text (Integer neg ds) = (if neg then ''-'' else []) @ ds"

fun value_of :: "ini_value \<Rightarrow> 'f Variant" where
  "value_of (Quoted double its) = VString (map (item_value (quote_parser double)) its)"
| "value_of (Integer neg ds) =
     LongLongInt (word_of_int ((if neg then - 1 else 1) * int (positional 10 dec_digit 0 ds)))"

fun value_ok :: "ini_value \<Rightarrow> bool" where
  "value_ok (Quoted double its) \<longleftrightarrow> (\<forall>i\<in>set its. item_ok (quote_parser double) i)"
| "value_ok (Integer neg ds) \<longleftrightarrow> set ds \<subseteq> Collect (Contains DECIMAL) \<and> ds \<noteq> [] \<and> (neg \<or> hd ds \<noteq> CHR ''0'') \<and>
     positional 10 dec_digit 0 ds \<le> (if neg then 2 ^ 63 else 2 ^ 63 - 1)"

datatype line_content =
    Blank
  | Header string string string
  | KeyValue string string "char option" string ini_value

datatype ini_line = Line string line_content string "string option" bool

definition spaces :: "string \<Rightarrow> bool" where "spaces s \<longleftrightarrow> (\<forall>c\<in>set s. Contains LINEAR_SPACE c)"

definition ini_name :: "string \<Rightarrow> bool" where
  "ini_name s \<longleftrightarrow> s \<noteq> [] \<and> Contains IDENTIFIER_HEAD (hd s) \<and> (\<forall>c\<in>set s. Contains IDENTIFIER_TAIL c)"

fun content_text :: "line_content \<Rightarrow> string" where
  "content_text Blank = []"
| "content_text (Header a name b) = ''['' @ a @ name @ b @ '']''"
| "content_text (KeyValue key a sign b v) =
     key @ a @ (case sign of None \<Rightarrow> [] | Some c \<Rightarrow> [c]) @ b @ value_text v"

fun content_ok :: "line_content \<Rightarrow> bool" where
  "content_ok Blank \<longleftrightarrow> True"
| "content_ok (Header a name b) \<longleftrightarrow> spaces a \<and> ini_name name \<and> spaces b"
| "content_ok (KeyValue key a sign b v) \<longleftrightarrow> ini_name key \<and> spaces a \<and> spaces b \<and> value_ok v \<and>
     (case sign of None \<Rightarrow> a \<noteq> [] \<and> b = [] | Some c \<Rightarrow> c = CHR '':'' \<or> c = CHR ''='')"

text \<open>A line may have a comment and ends with a new line, with or without a carriage return before it.\<close>

fun tail_text :: "string option \<Rightarrow> bool \<Rightarrow> string" where
  "tail_text comment cr = (case comment of None \<Rightarrow> [] | Some t \<Rightarrow> CHR '';'' # t) @
     (if cr then [CHR 0x0D, CHR 0x0A] else [CHR 0x0A])"

fun line_text :: "ini_line \<Rightarrow> string" where
  "line_text (Line a content b comment cr) = a @ content_text content @ b @ tail_text comment cr"

fun line_ok :: "ini_line \<Rightarrow> bool" where
  "line_ok (Line a content b comment cr) \<longleftrightarrow> spaces a \<and> content_ok content \<and> spaces b \<and>
     (case comment of None \<Rightarrow> True | Some t \<Rightarrow> CHR 0x0A \<notin> set t)"

text \<open>What a line does to the configuration and the current section.\<close>

fun content_effect :: "line_content \<Rightarrow> 'f IniConfig \<times> string \<Rightarrow> 'f IniConfig \<times> string" where
  "content_effect Blank (cfg, cur) = (cfg, cur)"
| "content_effect (Header a name b) (cfg, cur) = (cfg, name)"
| "content_effect (KeyValue key a sign b v) (cfg, cur) = (IniConfig_Set cur key (value_of v) cfg, cur)"

fun line_effect :: "ini_line \<Rightarrow> 'f IniConfig \<times> string \<Rightarrow> 'f IniConfig \<times> string" where
  "line_effect (Line a content b comment cr) = content_effect content"

section \<open>Reading a line\<close>

lemma span_append:
  "\<forall>c\<in>set xs. P c \<Longrightarrow> r = [] \<or> \<not> P (hd r) \<Longrightarrow> takeWhile P (xs @ r) = xs \<and> dropWhile P (xs @ r) = r"
  by (induction xs) (cases r, auto)

lemma SkipLinearSpaces_src:
  "spaces a \<Longrightarrow> r = [] \<or> \<not> Contains LINEAR_SPACE (hd r) \<Longrightarrow>
     SkipLinearSpaces (src b (a @ r) ms) = src (b @ a) r ms"
  using span_append [of a "Contains LINEAR_SPACE" r] by (simp add: SkipLinearSpaces_def src_simps spaces_def)

lemma ReadIdentifier_src:
  assumes "ini_name w" "r = [] \<or> \<not> Contains IDENTIFIER_TAIL (hd r)"
  shows "ReadIdentifier (src b (w @ r) ms) = (Inr w, src (b @ w) r ms)"
proof -
  obtain c cs where w: "w = c # cs" using assms(1) by (cases w) (auto simp: ini_name_def)
  show ?thesis
    using span_append [of cs "Contains IDENTIFIER_TAIL" r] assms w
    by (simp add: ReadIdentifier_def src_simps ini_name_def)
qed

text \<open>What may follow a section header or a value on its line.\<close>

definition ends_token :: "string \<Rightarrow> bool" where
  "ends_token r \<longleftrightarrow> r \<noteq> [] \<and> (Contains LINEAR_SPACE (hd r) \<or> hd r \<in> {CHR '';'', CHR 0x0A, CHR 0x0D})"

lemma not_classes:
  "ends_token r \<Longrightarrow> stops_at DECIMAL r \<and> hd r \<notin> {CHR ''.'', CHR ''e'', CHR ''E''}"
  by (cases r) (auto simp: ends_token_def stops_at_def classes in_range_lists)

lemma quote_delimiters: "delimiters_ok (quote_parser double)"
  by (simp add: delimiters_ok_def DoubleQuotedStringParser_def SingleQuotedStringParser_def)

lemma ReadValue_src:
  assumes "value_ok v" "ends_token r"
  shows "ReadValue d (src b (value_text v @ r) ms) = (Inr (value_of v), src (b @ value_text v) r ms)"
proof (cases v)
  case (Quoted double its)
  have q: "boundingChar (quote_parser double) = (if double then CHR 0x22 else CHR 0x27)"
    by (simp add: DoubleQuotedStringParser_def SingleQuotedStringParser_def)
  have "\<exists>p. quote_parser double = p \<and> boundingChar p = (if double then CHR 0x22 else CHR 0x27)" using q by blast
  then obtain p where p: "quote_parser double = p" "boundingChar p = (if double then CHR 0x22 else CHR 0x27)" by blast
  have parse: "StringLiteral_Parse p (src b (boundingChar p # items_text p its @ boundingChar p # r) ms) =
      (Inr (map (item_value p) its), src (b @ boundingChar p # items_text p its @ [boundingChar p]) r ms)"
    using StringLiteral_Parse_items [of its p b "boundingChar p" r ms] assms(1) quote_delimiters [of double] Quoted p(1)
    by simp
  have "StringLiteral_Parse p = (if double then StringLiteral_Parse DoubleQuotedStringParser
      else StringLiteral_Parse SingleQuotedStringParser)" using p(1) by auto
  then show ?thesis
    using parse p Quoted
    by (cases double) (simp_all del: quote_parser.simps add: ReadValue_def bindM_def src_simps returnM_def)
next
  case (Integer neg ds)
  then have v: "set ds \<subseteq> Collect (Contains DECIMAL)" "ds \<noteq> []" "neg \<or> hd ds \<noteq> CHR ''0''"
    "positional 10 dec_digit 0 ds \<le> int_limit neg"
    using assms(1) by (auto simp: int_limit_def split: if_splits)
  obtain c cs where c: "ds = c # cs" "Contains DECIMAL c" using v(1,2) by (cases ds) auto
  have h: "value_text v @ r = (if neg then ''-'' else []) @ ds @ r" using Integer by simp
  have head: "\<exists>x y. value_text v @ r = x # y \<and> Contains NUMBER_HEAD x \<and> x \<noteq> CHR 0x27 \<and> x \<noteq> CHR 0x22"
    using c unfolding h by (cases neg) (auto simp: classes in_range_lists)
  then show ?thesis
    using FloatLiteral_integer [OF v, of r FloatLiteralParser_config d b ms] not_classes [OF assms(2)] Integer
    by (auto simp: ReadValue_def bindM_def src_simps returnM_def variant_of_number_def)
qed

lemma on_source_ini:
  "m s = (r, t) \<Longrightarrow> on_source m \<lparr>iniSource = s, config = cfg, currentSection = cur\<rparr> =
     (r, \<lparr>iniSource = t, config = cfg, currentSection = cur\<rparr>)"
  by (simp add: on_source_def)

lemma head_not_space: "Contains IDENTIFIER_HEAD c \<Longrightarrow> \<not> Contains LINEAR_SPACE c \<and> c \<noteq> CHR ''[''"
  by (auto simp: classes in_range_lists)

lemma space_not_tail: "Contains LINEAR_SPACE c \<Longrightarrow> \<not> Contains IDENTIFIER_TAIL c"
  by (auto simp: classes in_range_lists)

lemma content_heads:
  "ini_name w \<Longrightarrow> w \<noteq> [] \<and> Contains IDENTIFIER_HEAD (hd w) \<and> \<not> Contains LINEAR_SPACE (hd w) \<and> hd w \<noteq> CHR ''[''"
  unfolding ini_name_def using head_not_space [of "hd w"] by blast

lemma spaces_heads:
  "spaces a \<Longrightarrow> a \<noteq> [] \<Longrightarrow> \<not> Contains IDENTIFIER_TAIL (hd a) \<and> Contains LINEAR_SPACE (hd a)"
  using space_not_tail [of "hd a"] by (cases a) (auto simp: spaces_def)

lemma ReadSection_src:
  assumes "spaces a" "ini_name w" "spaces e"
  shows "ReadSection \<lparr>iniSource = src b (''['' @ a @ w @ e @ '']'' @ r) ms, config = cfg, currentSection = cur\<rparr> =
    (Inr (), \<lparr>iniSource = src (b @ ''['' @ a @ w @ e @ '']'') r ms, config = cfg, currentSection = w\<rparr>)"
proof -
  obtain c cs where w: "w = c # cs" using assms(2) by (cases w) (auto simp: ini_name_def)
  have a: "SkipLinearSpaces (src (b @ ''['') (a @ w @ e @ '']'' @ r) ms) = src (b @ ''['' @ a) (w @ e @ '']'' @ r) ms"
    using SkipLinearSpaces_src [OF assms(1), of "w @ e @ '']'' @ r" "b @ ''[''" ms] content_heads [OF assms(2)] w by simp
  have n: "NeedChar (src (b @ ''['' @ a) (w @ e @ '']'' @ r) ms) = (Inr c, src (b @ ''['' @ a) (w @ e @ '']'' @ r) ms)"
    by (simp add: w NeedChar_def src_simps)
  have i: "ReadIdentifier (src (b @ ''['' @ a) (w @ e @ '']'' @ r) ms) = (Inr w, src (b @ ''['' @ a @ w) (e @ '']'' @ r) ms)"
    using ReadIdentifier_src [OF assms(2), of "e @ '']'' @ r" "b @ ''['' @ a" ms] spaces_heads [OF assms(3)]
    by (cases e) (auto simp: classes in_range_lists)
  have e: "SkipLinearSpaces (src (b @ ''['' @ a @ w) (e @ '']'' @ r) ms) = src (b @ ''['' @ a @ w @ e) ('']'' @ r) ms"
    using SkipLinearSpaces_src [OF assms(3), of "'']'' @ r" "b @ ''['' @ a @ w" ms] by (simp add: classes)
  have c: "Contains IDENTIFIER_HEAD c" using content_heads [OF assms(2)] w by simp
  have adv: "Advance (src b (''['' @ a @ w @ e @ '']'' @ r) ms) = src (b @ ''['') (a @ w @ e @ '']'' @ r) ms"
    "Advance (src (b @ ''['' @ a @ w @ e) ('']'' @ r) ms) = src (b @ ''['' @ a @ w @ e @ '']'') r ms"
    by (simp_all add: src_simps)
  have n2: "NeedChar (src (b @ ''['' @ a @ w @ e) ('']'' @ r) ms) = (Inr CHR '']'', src (b @ ''['' @ a @ w @ e) ('']'' @ r) ms)"
    by (simp add: NeedChar_def src_simps)
  show ?thesis
    unfolding ReadSection_def section_header_def catchM_def bindM_def advance_ini_def
    by (simp only: adv a n i e c n2 on_source_ini prod.case sum.case IniParser.simps returnM_def simp_thms if_True if_False
        not_True_eq_False not_False_eq_True refl)
qed

lemma ReadDivider_steps:
  assumes "NotAtEnd s \<and> Contains LINEAR_SPACE (peek s) \<longleftrightarrow> space"
    "(if space then SkipLinearSpaces (Advance s) else s) = s1"
    "NotAtEnd s1 \<and> (peek s1 = CHR '':'' \<or> peek s1 = CHR ''='') \<longleftrightarrow> sign"
    "(if sign then SkipLinearSpaces (Advance s1) else s1) = s2"
  shows "ReadDivider s = (Inr (space \<or> sign), s2)"
  unfolding ReadDivider_def Let_def assms ..

lemma ReadDivider_src:
  assumes "spaces a" "spaces b" "case sign of None \<Rightarrow> a \<noteq> [] \<and> b = [] | Some c \<Rightarrow> c = CHR '':'' \<or> c = CHR ''=''"
    "r \<noteq> []" "\<not> Contains LINEAR_SPACE (hd r)" "hd r \<noteq> CHR '':''" "hd r \<noteq> CHR ''=''"
  shows "ReadDivider (src p (a @ (case sign of None \<Rightarrow> [] | Some c \<Rightarrow> [c]) @ b @ r) ms) =
    (Inr True, src (p @ a @ (case sign of None \<Rightarrow> [] | Some c \<Rightarrow> [c]) @ b) r ms)"
proof -
  define w where "w = (case sign of None \<Rightarrow> [] | Some c \<Rightarrow> [c]) @ b @ r"
  have w: "w \<noteq> []" "\<not> Contains LINEAR_SPACE (hd w)"
    using assms by (auto simp: w_def classes split: option.splits)
  define s1 where "s1 = src (p @ a) w ms"
  have space: "NotAtEnd (src p (a @ w) ms) \<and> Contains LINEAR_SPACE (peek (src p (a @ w) ms)) \<longleftrightarrow> a \<noteq> []"
    using w assms(1) by (cases a; cases w) (auto simp: src_simps spaces_def)
  have s1: "(if a \<noteq> [] then SkipLinearSpaces (Advance (src p (a @ w) ms)) else src p (a @ w) ms) = s1"
    using SkipLinearSpaces_src [of "tl a" w "p @ [hd a]" ms] w assms(1)
    by (cases a) (simp_all add: s1_def src_simps spaces_def)
  have sign: "NotAtEnd s1 \<and> (peek s1 = CHR '':'' \<or> peek s1 = CHR ''='') \<longleftrightarrow> sign \<noteq> None"
    using assms by (cases r) (auto simp: s1_def w_def src_simps split: option.splits)
  have s2: "(if sign \<noteq> None then SkipLinearSpaces (Advance s1) else s1) =
      src (p @ a @ (case sign of None \<Rightarrow> [] | Some c \<Rightarrow> [c]) @ b) r ms"
    using SkipLinearSpaces_src [OF assms(2), of r "p @ a @ [the sign]" ms] assms
    by (cases sign) (auto simp: s1_def w_def src_simps)
  have "a \<noteq> [] \<or> sign \<noteq> None" using assms(3) by (auto split: option.splits)
  then show ?thesis using ReadDivider_steps [OF space s1 sign s2] by (simp add: w_def)
qed

lemma value_head:
  assumes "value_ok v"
  shows "value_text v @ r \<noteq> [] \<and> \<not> Contains LINEAR_SPACE (hd (value_text v @ r)) \<and>
    hd (value_text v @ r) \<notin> {CHR '':'', CHR ''=''} \<and> \<not> Contains IDENTIFIER_HEAD (hd (value_text v @ r)) "
proof (cases v)
  case (Quoted double its)
  then show ?thesis
    by (auto simp: DoubleQuotedStringParser_def SingleQuotedStringParser_def classes in_range_lists)
next
  case (Integer neg ds)
  then obtain c cs where "ds = c # cs" "Contains DECIMAL c" using assms by (cases ds) auto
  then show ?thesis using Integer by (auto simp: classes in_range_lists)
qed

lemma ReadKeyValue_src:
  assumes "content_ok (KeyValue key a sign b v)" "ends_token r"
  shows "ReadKeyValue d \<lparr>iniSource = src p (content_text (KeyValue key a sign b v) @ r) ms, config = cfg, currentSection = cur\<rparr> =
    (Inr (), \<lparr>iniSource = src (p @ content_text (KeyValue key a sign b v)) r ms,
       config = IniConfig_Set cur key (value_of v) cfg, currentSection = cur\<rparr>)"
proof -
  define sg where "sg = (case sign of None \<Rightarrow> [] | Some c \<Rightarrow> [c])"
  have ok: "ini_name key" "spaces a" "spaces b" "value_ok v"
    "case sign of None \<Rightarrow> a \<noteq> [] \<and> b = [] | Some c \<Rightarrow> c = CHR '':'' \<or> c = CHR ''=''"
    using assms(1) by simp_all
  note head = value_head [OF ok(4), of r]
  have "a @ sg @ b @ value_text v @ r = [] \<or> \<not> Contains IDENTIFIER_TAIL (hd (a @ sg @ b @ value_text v @ r))"
    using spaces_heads [OF ok(2)] ok(5) by (cases a) (auto simp: sg_def classes in_range_lists split: option.splits)
  then have i: "ReadIdentifier (src p (key @ a @ sg @ b @ value_text v @ r) ms) =
      (Inr key, src (p @ key) (a @ sg @ b @ value_text v @ r) ms)"
    by (rule ReadIdentifier_src [OF ok(1)])
  have dv: "ReadDivider (src (p @ key) (a @ sg @ b @ value_text v @ r) ms) =
      (Inr True, src (p @ key @ a @ sg @ b) (value_text v @ r) ms)"
    using ReadDivider_src [OF ok(2,3,5), of "value_text v @ r" "p @ key" ms] head by (simp add: sg_def)
  have e: "\<not> AtEnd (src (p @ key @ a @ sg @ b) (value_text v @ r) ms)" using head by (simp add: src_simps)
  have v: "ReadValue d (src (p @ key @ a @ sg @ b) (value_text v @ r) ms) =
      (Inr (value_of v), src (p @ key @ a @ sg @ b @ value_text v) r ms)"
    using ReadValue_src [OF ok(4) assms(2), of d "p @ key @ a @ sg @ b" ms] by simp
  show ?thesis
    using e by (simp add: ReadKeyValue_def bindM_def on_source_def sg_def [symmetric] i dv v returnM_def)
qed

lemma line_end_src:
  assumes "spaces b" "case comment of None \<Rightarrow> True | Some t \<Rightarrow> CHR 0x0A \<notin> set t"
  shows "line_end (src p (b @ tail_text comment cr @ r) ms) = (Inr (), src (p @ b @ tail_text comment cr) r ms)"
proof -
  have nl: "SkipNewLine (src q ((if cr then [CHR 0x0D, CHR 0x0A] else [CHR 0x0A]) @ r) ms) =
      (Inr (), src (q @ (if cr then [CHR 0x0D, CHR 0x0A] else [CHR 0x0A])) r ms)" for q
    by (simp add: SkipNewLine_def src_simps)
  have sp: "SkipLinearSpaces (src p (b @ tail_text comment cr @ r) ms) = src (p @ b) (tail_text comment cr @ r) ms"
    by (rule SkipLinearSpaces_src [OF assms(1)]) (auto simp: classes split: option.split)
  have sc: "SkipComments (src q (CHR '';'' # t @ e @ CHR 0x0A # r) ms) = src (q @ CHR '';'' # t @ e) (CHR 0x0A # r) ms"
    if "CHR 0x0A \<notin> set t" "e = [] \<or> e = [CHR 0x0D]" for q t e
  proof -
    have "takeWhile (\<lambda>c. c \<noteq> CHR 0x0A) ((t @ e) @ CHR 0x0A # r) = t @ e \<and>
        dropWhile (\<lambda>c. c \<noteq> CHR 0x0A) ((t @ e) @ CHR 0x0A # r) = CHR 0x0A # r"
      by (rule span_append) (use that in auto)
    then show ?thesis by (simp add: SkipComments_def src_simps)
  qed
  show ?thesis
  proof (cases comment)
    case None
    then show ?thesis using nl [of "p @ b"] sp by (cases cr) (simp_all add: line_end_def Let_def src_simps)
  next
    case (Some t)
    then have t: "CHR 0x0A \<notin> set t" using assms(2) by simp
    have nl1: "SkipNewLine (src q (CHR 0x0A # r) ms) = (Inr (), src (q @ [CHR 0x0A]) r ms)" for q
      by (simp add: SkipNewLine_def src_simps)
    show ?thesis
      using sc [OF t, of "[]" "p @ b"] sc [OF t, of "[CHR 0x0D]" "p @ b"] sp Some
      by (cases cr) (simp_all add: line_end_def Let_def src_simps nl1)
  qed
qed

text \<open>Every line of a document changes the parser as \<open>line_effect\<close> says.\<close>

lemma line_body_src:
  assumes "content_ok content" "content \<noteq> Blank" "ends_token r"
  shows "line_body d \<lparr>iniSource = src p (content_text content @ r) ms, config = cfg, currentSection = cur\<rparr> =
    (case content_effect content (cfg, cur) of (cfg', cur') \<Rightarrow>
      (Inr (), \<lparr>iniSource = src (p @ content_text content) r ms, config = cfg', currentSection = cur'\<rparr>))"
proof (cases content)
  case (Header a name b)
  then show ?thesis
    using assms ReadSection_src [of a name b p r ms cfg cur] by (simp add: line_body_def src_simps)
next
  case (KeyValue key a sign b v)
  have "Contains IDENTIFIER_HEAD (hd key)" "hd key \<noteq> CHR ''[''" "key \<noteq> []"
    using assms KeyValue content_heads [of key] by auto
  then show ?thesis
    using assms KeyValue ReadKeyValue_src [of key a sign b v r d p ms cfg cur]
    by (cases key) (simp_all add: line_body_def src_simps)
qed (use assms in simp)

lemma ParseLine_src:
  assumes "line_ok l"
  shows "ParseLine d \<lparr>iniSource = src p (line_text l @ r) ms, config = cfg, currentSection = cur\<rparr> =
    (case line_effect l (cfg, cur) of (cfg', cur') \<Rightarrow>
      (Inr (), \<lparr>iniSource = src (p @ line_text l) r ms, config = cfg', currentSection = cur'\<rparr>))"
proof -
  obtain a content b comment cr where l: "l = Line a content b comment cr" by (cases l)
  have ok: "spaces a" "content_ok content" "spaces b" "case comment of None \<Rightarrow> True | Some t \<Rightarrow> CHR 0x0A \<notin> set t"
    using assms l by simp_all
  let ?t = "tail_text comment cr"
  have tail: "?t @ r \<noteq> []" "hd (?t @ r) \<in> {CHR '';'', CHR 0x0A, CHR 0x0D}"
    by (auto split: option.split)
  show ?thesis
  proof (cases "content = Blank")
    case True
    have ab: "spaces (a @ b)" using ok by (auto simp: spaces_def)
    have 1: "SkipLinearSpaces (src p (a @ b @ ?t @ r) ms) = src (p @ a @ b) (?t @ r) ms"
      using SkipLinearSpaces_src [OF ab, of "?t @ r" p ms] tail by (auto simp: classes)
    have 2: "line_body d \<lparr>iniSource = src (p @ a @ b) (?t @ r) ms, config = cfg, currentSection = cur\<rparr> =
        (Inr (), \<lparr>iniSource = src (p @ a @ b) (?t @ r) ms, config = cfg, currentSection = cur\<rparr>)"
      using tail by (cases "?t @ r") (auto simp del: tail_text.simps simp: line_body_def src_simps classes in_range_lists)
    have 3: "line_end (src (p @ a @ b) (?t @ r) ms) = (Inr (), src (p @ a @ b @ ?t) r ms)"
      using line_end_src [of "[]" comment "p @ a @ b" cr r ms] ok by (simp add: spaces_def del: tail_text.simps)
    show ?thesis
      using 1 2 3 tail True
      by (simp add: l ParseLine_def bindM_def advance_ini_def on_source_def src_simps del: tail_text.simps)
  next
    case False
    have ends: "ends_token (b @ ?t @ r)"
      using tail ok(3) by (cases b) (auto simp: ends_token_def spaces_def simp del: tail_text.simps)
    have "\<not> Contains LINEAR_SPACE (hd (content_text content @ b @ ?t @ r)) \<and> content_text content \<noteq> []"
      using False ok(2) content_heads by (cases content) (auto simp: classes)
    then have 1: "SkipLinearSpaces (src p (a @ content_text content @ b @ ?t @ r) ms) =
        src (p @ a) (content_text content @ b @ ?t @ r) ms" "content_text content \<noteq> []"
      using SkipLinearSpaces_src [OF ok(1)] by auto
    obtain cfg' cur' where e: "content_effect content (cfg, cur) = (cfg', cur')" by (cases "content_effect content (cfg, cur)")
    have 2: "line_body d \<lparr>iniSource = src (p @ a) (content_text content @ b @ ?t @ r) ms, config = cfg, currentSection = cur\<rparr> =
        (Inr (), \<lparr>iniSource = src (p @ a @ content_text content) (b @ ?t @ r) ms, config = cfg', currentSection = cur'\<rparr>)"
      using line_body_src [OF ok(2) False ends, of d "p @ a" ms cfg cur] e by simp
    show ?thesis
      using 1 2 line_end_src [OF ok(3,4), of "p @ a @ content_text content" cr r ms] e
      by (simp add: l ParseLine_def bindM_def advance_ini_def on_source_def src_simps del: tail_text.simps)
  qed
qed

definition document_text :: "ini_line list \<Rightarrow> string" where
  "document_text ls = concat (map line_text ls)"

lemma parse_lines_src:
  assumes "\<forall>l\<in>set ls. line_ok l"
  shows "parse_lines d \<lparr>iniSource = src p (document_text ls) ms, config = cfg, currentSection = cur\<rparr> =
    (case fold line_effect ls (cfg, cur) of (cfg', cur') \<Rightarrow>
      (Inr (), \<lparr>iniSource = src (p @ document_text ls) [] ms, config = cfg', currentSection = cur'\<rparr>))"
  using assms
proof (induction ls arbitrary: p cfg cur)
  case Nil
  then show ?case by (subst parse_lines.simps) (simp add: document_text_def src_simps)
next
  case (Cons l ls)
  obtain cfg' cur' where e: "line_effect l (cfg, cur) = (cfg', cur')" by (cases "line_effect l (cfg, cur)")
  have "line_text l \<noteq> []" by (cases l) simp
  then show ?case
    using Cons.IH [of "p @ line_text l" cfg' cur'] Cons.prems ParseLine_src [of l d p "document_text ls" ms cfg cur] e
    by (subst parse_lines.simps) (simp add: document_text_def src_simps)
qed

section \<open>Properties\<close>

text \<open>C31. A document of well-formed lines (blank, comment, section header, key and value, ended by LF or CR LF)
  is accepted to its end, and leaves exactly the configuration its lines build: each key is set in the section
  of the last header before it, with the text of the literal after its escapes or the 64-bit integer it denotes.\<close>

theorem IniConfigParser_document:
  assumes "\<forall>l\<in>set ls. line_ok l"
  shows "\<exists>q. IniConfigParser d (ConstCharPtr_new (document_text ls)) cfg = (Inr (), q) \<and> AtEnd (iniSource q) \<and>
    (config q, currentSection q) = fold line_effect ls (cfg, [])"
  using parse_lines_src [OF assms, of d "[]" "[]" cfg "[]"]
  by (auto simp: IniConfigParser_def src_simps split: prod.splits)

text \<open>\<open>Set\<close> keeps the maps of a configuration sorted without duplicates, gives the key its value in the named
  section (which it creates when there is none) and changes no other key of any section.\<close>

theorem IniConfig_Set_lookup:
  assumes "config_ok cfg"
  shows "config_ok (IniConfig_Set name key v cfg) \<and>
    config_map (IniConfig_Set name key v cfg) = (config_map cfg)(name := (config_map cfg name)(key \<mapsto> v))"
  by (rule IniConfig_Set_props [OF assms])

text \<open>\<open>Append\<close> merges two configurations section by section; where both have a key the appended one wins.\<close>

theorem IniConfig_Append_merges:
  assumes "config_ok cfg" "config_ok appended"
  shows "config_ok (IniConfig_Append appended cfg) \<and>
    config_map (IniConfig_Append appended cfg) = (\<lambda>name. config_map cfg name ++ config_map appended name)"
  using IniConfig_Append_props [OF assms(1), of appended] assms(2) unfolding config_ok_def by blast

text \<open>An integer value that the literal parser accepts but 63 bits do not hold is stored as the negative
  number with the same 64 bits.\<close>

theorem ReadValue_unsigned_wraps:
  assumes "set ds \<subseteq> Collect (Contains DECIMAL)" "ds \<noteq> []" "hd ds \<noteq> CHR ''0''" "ends_token r"
    "n = positional 10 dec_digit 0 ds" "n < 2 ^ 64"
  shows "\<exists>i. ReadValue d (src b (ds @ r) ms) = (Inr (LongLongInt i), src (b @ ds) r ms) \<and>
    sint i = (if n < 2 ^ 63 then int n else int n - 2 ^ 64)"
proof -
  have lim: "positional 10 dec_digit 0 ds \<le> int_limit False" using assms(5,6) by (simp add: int_limit_def)
  obtain c cs where c: "ds = c # cs" "Contains DECIMAL c" using assms(1,2) by (cases ds) auto
  then have head: "Contains NUMBER_HEAD c" "c \<noteq> CHR 0x27" "c \<noteq> CHR 0x22" by (auto simp: classes in_range_lists)
  have "ReadValue d (src b (ds @ r) ms) = (Inr (LongLongInt (of_nat n)), src (b @ ds) r ms)"
    using FloatLiteral_integer [OF assms(1,2) _ lim, of r FloatLiteralParser_config d b ms] not_classes [OF assms(4)]
      assms(3,5) head c(1)
    by (auto simp: ReadValue_def bindM_def src_simps returnM_def variant_of_number_def)
  moreover have "sint (of_nat n :: INT_64) = (if n < 2 ^ 63 then int n else int n - 2 ^ 64)"
  proof -
    have "sint (of_nat n :: INT_64) = (int n + 2 ^ 63) mod 2 ^ 64 - 2 ^ 63"
      using int_word_sint [of "int n", where 'a = 64] by simp
    moreover have "(int n + 2 ^ 63) mod 2 ^ 64 = (if n < 2 ^ 63 then int n + 2 ^ 63 else int n + 2 ^ 63 - 2 ^ 64)"
    proof (cases "n < 2 ^ 63")
      case False
      have "(int n + 2 ^ 63) mod 2 ^ 64 = (int n + 2 ^ 63 - 2 ^ 64) mod 2 ^ 64"
        using minus_mod_self2 [of "int n + 2 ^ 63" "2 ^ 64"] by simp
      also have "\<dots> = int n + 2 ^ 63 - 2 ^ 64" using False assms(6) by (intro mod_pos_pos_trivial) auto
      finally show ?thesis using False by simp
    qed (use assms(6) in \<open>simp add: mod_pos_pos_trivial\<close>)
    ultimately show ?thesis by auto
  qed
  ultimately show ?thesis by blast
qed

text \<open>An example document.\<close>

definition example_document :: "ini_line list" where
  "example_document =
     [Line [] Blank '' '' (Some ''conf'') True,
      Line [] (Header '' '' ''db'' []) [] None False,
      Line '' '' (KeyValue ''port'' '' '' (Some CHR ''='') '' '' (Integer True ''15'')) '' '' (Some ''x'') False,
      Line [] (KeyValue ''host'' [] (Some CHR '':'') [] (Quoted True [Plain CHR ''a'', Escaped CHR ''n''])) [] None True]"

theorem IniConfigParser_document_witness:
  "document_text example_document = '' ;conf'' @ [CHR 0x0D, CHR 0x0A] @ ''[ db]'' @ [CHR 0x0A] @
     '' port = -15 ;x'' @ [CHR 0x0A] @ ''host:'' @ [CHR 0x22, CHR ''a'', CHR 0x5C, CHR ''n'', CHR 0x22, CHR 0x0D, CHR 0x0A] \<and>
   (\<exists>q. IniConfigParser int_ops (ConstCharPtr_new (document_text example_document)) [] = (Inr (), q) \<and>
     config q = [(''db'', \<lparr>sectionName = ''db'', pairs =
       [(''host'', VString [CHR ''a'', CHR 0x0A]), (''port'', LongLongInt (- 15))]\<rparr>)])"
proof -
  have ok: "\<forall>l\<in>set example_document. line_ok l"
    by (simp add: example_document_def spaces_def ini_name_def classes in_range_lists dec_digit_def char_index_def
        DoubleQuotedStringParser_def EscapeSequenceSet_Add_def EscapeSequenceSet_new_def)
  have effect: "fst (fold line_effect example_document ([], [])) =
      [(''db'', \<lparr>sectionName = ''db'', pairs =
       [(''host'', VString [CHR ''a'', CHR 0x0A]), (''port'', LongLongInt (- 15))]\<rparr>)]"
    by (simp add: example_document_def IniConfig_Set_def with_section_def CreateSection_def Section_Set_def Section_new_def Let_def
        map_find_def dec_digit_def char_index_def DoubleQuotedStringParser_def EscapeSequenceSet_Add_def
        EscapeSequenceSet_new_def)
  have "document_text example_document = '' ;conf'' @ [CHR 0x0D, CHR 0x0A] @ ''[ db]'' @ [CHR 0x0A] @
     '' port = -15 ;x'' @ [CHR 0x0A] @ ''host:'' @ [CHR 0x22, CHR ''a'', CHR 0x5C, CHR ''n'', CHR 0x22, CHR 0x0D, CHR 0x0A]"
    by (simp add: example_document_def document_text_def items_text_def DoubleQuotedStringParser_def)
  then show ?thesis
    using IniConfigParser_document [OF ok, of int_ops "[]"] effect by (metis fst_conv)
qed

theorem IniConfig_Set_lookup_witness:
  "config_map (IniConfig_Set ''b'' ''k'' (LongLongInt 1) (IniConfig_Set ''a'' ''k'' (VString ''x'') [])) ''b'' ''k'' =
     Some (LongLongInt 1)"
proof -
  have "config_ok (IniConfig_Set ''a'' ''k'' (VString ''x'') [])"
    by (simp add: config_ok_def IniConfig_Set_def with_section_def CreateSection_def Section_Set_def Section_new_def Let_def
        map_find_def map_ok_def)
  then show ?thesis
    using IniConfig_Set_lookup [of "IniConfig_Set ''a'' ''k'' (VString ''x'') []" "''b''" "''k''" "LongLongInt 1"]
    by (simp add: config_map_def IniConfig_Set_def with_section_def CreateSection_def Section_Set_def Section_new_def Let_def
        map_find_def)
qed

theorem IniConfig_Append_merges_witness:
  "config_map (IniConfig_Append (IniConfig_Set ''a'' ''k'' (LongLongInt 2 :: unit Variant) []) (IniConfig_Set ''a'' ''k'' (LongLongInt 1) []))
     ''a'' ''k'' = Some (LongLongInt 2)"
proof -
  have "config_ok (IniConfig_Set ''a'' ''k'' (LongLongInt i :: unit Variant) [])" for i
    by (simp add: config_ok_def IniConfig_Set_def with_section_def CreateSection_def Section_Set_def Section_new_def Let_def
        map_find_def map_ok_def)
  note ok = this [of 1] this [of 2]
  have "config_map (IniConfig_Set ''a'' ''k'' (LongLongInt 2 :: unit Variant) []) ''a'' ''k'' = Some (LongLongInt 2)"
    by (simp add: config_map_def IniConfig_Set_def with_section_def CreateSection_def Section_Set_def Section_new_def
        Let_def map_find_def)
  then show ?thesis using conjunct2 [OF IniConfig_Append_merges [OF ok]] by (simp add: map_add_Some_iff)
qed

theorem ReadValue_unsigned_wraps_witness:
  "fst (ReadValue int_ops (ConstCharPtr_new (''18446744073709551615'' @ [CHR 0x0A]))) = Inr (LongLongInt (- 1))"
proof -
  have v: "positional 10 dec_digit 0 ''18446744073709551615'' = 18446744073709551615"
    by (simp add: dec_digit_def char_index_def)
  have d: "set ''18446744073709551615'' \<subseteq> Collect (Contains DECIMAL)" by (simp add: classes in_range_lists)
  have e: "ends_token [CHR 0x0A]" by (simp add: ends_token_def)
  obtain i where i: "ReadValue int_ops (src [] (''18446744073709551615'' @ [CHR 0x0A]) []) =
      (Inr (LongLongInt i), src ''18446744073709551615'' [CHR 0x0A] [])" "sint i = - 1"
    using ReadValue_unsigned_wraps [OF d _ _ e refl, of int_ops "[]" "[]"] unfolding v by auto
  have "i = - 1" using i(2) by (simp add: signed_word_eqI)
  then show ?thesis using i(1) by (simp add: src_simps)
qed

end
