(* ===== verification/BTree_Arrays.thy ===== *)
theory BTree_Arrays
  imports Xtl_Prelude
begin

text \<open>
  The arrays of \<^verbatim>\<open>BTree.hpp\<close>: the two array managers and the binary search. An array is a list of its capacity;
  what lies behind the used part is whatever earlier operations left there. An operation that reached past
  the capacity would change the length of the list.
\<close>

section \<open>PlainArrayManager\<close>

text \<open>\<^verbatim>\<open>memmove(dest + to, source + begin, n)\<close>; the source may be the array itself.\<close>

definition mem_move :: "'a list \<Rightarrow> nat \<Rightarrow> 'a list \<Rightarrow> nat \<Rightarrow> nat \<Rightarrow> 'a list" where
  "mem_move dest to source begin n = take to dest @ take n (drop begin source) @ drop (to + n) dest"

definition ArrayInsert :: "'a list \<Rightarrow> nat \<Rightarrow> nat \<Rightarrow> nat \<Rightarrow> 'a list" where
  "ArrayInsert dest beginIndex endIndex count =
     (if count > 0 then mem_move dest (beginIndex + count) dest beginIndex (endIndex - beginIndex) else dest)"

definition ArrayDelete :: "'a list \<Rightarrow> nat \<Rightarrow> nat \<Rightarrow> nat \<Rightarrow> 'a list" where
  "ArrayDelete dest beginIndex endIndex count =
     (if count > 0 then mem_move dest beginIndex dest (beginIndex + count) (endIndex - beginIndex - count) else dest)"

definition ArrayMove :: "'a list \<Rightarrow> nat \<Rightarrow> 'a list \<Rightarrow> nat \<Rightarrow> nat \<Rightarrow> 'a list" where
  "ArrayMove dest toIndex source beginIndex endIndex =
     (if beginIndex < endIndex then mem_move dest toIndex source beginIndex (endIndex - beginIndex) else dest)"

section \<open>ObjectArrayManager\<close>

text \<open>The same three operations by swapping, so that no object is copied.\<close>

definition swap :: "nat \<Rightarrow> nat \<Rightarrow> 'a list \<Rightarrow> 'a list" where
  "swap i j xs = xs[i := xs ! j, j := xs ! i]"

definition ObjectInsert :: "'a list \<Rightarrow> nat \<Rightarrow> nat \<Rightarrow> nat \<Rightarrow> 'a list" where
  "ObjectInsert dest beginIndex endIndex count =
     (if count > 0 then fold (\<lambda>i. swap (i - count) i) (rev [beginIndex + count..<endIndex + count]) dest else dest)"

definition ObjectDelete :: "'a list \<Rightarrow> nat \<Rightarrow> nat \<Rightarrow> nat \<Rightarrow> 'a list" where
  "ObjectDelete dest beginIndex endIndex count =
     (if count > 0 then fold (\<lambda>i. swap i (i + count)) [beginIndex..<endIndex - count] dest else dest)"

text \<open>The two arrays after \<open>Move\<close>, the destination first.\<close>

definition ObjectMove :: "'a list \<Rightarrow> nat \<Rightarrow> 'a list \<Rightarrow> nat \<Rightarrow> nat \<Rightarrow> 'a list \<times> 'a list" where
  "ObjectMove dest toIndex source beginIndex endIndex =
     fold (\<lambda>i (d, s). (d[toIndex + (i - beginIndex) := s ! i], s[i := d ! (toIndex + (i - beginIndex))]))
       [beginIndex..<endIndex] (dest, source)"

section \<open>Binary search\<close>

text \<open>The arrays hold items or keys; \<open>conv\<close> is the conversion of an element to its key.\<close>

function search_loop :: "('k \<Rightarrow> 'k \<Rightarrow> bool) \<Rightarrow> ('t \<Rightarrow> 'k) \<Rightarrow> 'k \<Rightarrow> 't list \<Rightarrow> nat \<Rightarrow> nat \<Rightarrow> nat \<times> bool" where
  "search_loop lt conv key items left right =
     (if left < right then
        let middle = (left + right) div 2; middleKey = conv (items ! middle) in
        if lt middleKey key then search_loop lt conv key items (middle + 1) right
        else if lt key middleKey then search_loop lt conv key items left middle
        else (middle, True)
      else (left, False))"
  by pat_completeness auto
termination by (relation "measure (\<lambda>(lt, conv, key, items, left, right). right - left)") auto

declare search_loop.simps [simp del]

definition BinarySearch :: "('k \<Rightarrow> 'k \<Rightarrow> bool) \<Rightarrow> ('t \<Rightarrow> 'k) \<Rightarrow> 'k \<Rightarrow> 't list \<Rightarrow> nat \<Rightarrow> nat \<times> bool" where
  "BinarySearch lt conv key items n = search_loop lt conv key items 0 n"

section \<open>What the array operations leave\<close>

lemma ArrayInsert_form:
  assumes "b \<le> e" "e + c \<le> length xs"
  shows "ArrayInsert xs b e c = take (b + c) xs @ take (e - b) (drop b xs) @ drop (e + c) xs"
proof (cases c)
  case 0
  have "take b xs @ take (e - b) (drop b xs) @ drop e xs = xs"
    using assms(1) by (metis append_assoc append_take_drop_id le_add_diff_inverse take_add)
  then show ?thesis using 0 by (simp add: ArrayInsert_def)
next
  case (Suc m)
  then show ?thesis using assms by (simp add: ArrayInsert_def mem_move_def add.commute)
qed

lemma ArrayDelete_form:
  assumes "b + c \<le> e" "e \<le> length xs"
  shows "ArrayDelete xs b e c = take b xs @ take (e - b - c) (drop (b + c) xs) @ drop (e - c) xs"
proof (cases c)
  case 0
  have "take b xs @ take (e - b) (drop b xs) @ drop e xs = xs"
    using assms(1) 0 by (metis append_assoc append_take_drop_id add_0_right le_add_diff_inverse take_add)
  then show ?thesis using 0 by (simp add: ArrayDelete_def)
next
  case (Suc m)
  then show ?thesis using assms by (simp add: ArrayDelete_def mem_move_def)
qed

lemma ArrayMove_form:
  assumes "b \<le> e"
  shows "ArrayMove xs k ys b e = take k xs @ take (e - b) (drop b ys) @ drop (k + (e - b)) xs"
  using assms by (cases "b = e") (simp_all add: ArrayMove_def mem_move_def)

lemma array_lengths:
  "b \<le> e \<Longrightarrow> e + c \<le> length xs \<Longrightarrow> length (ArrayInsert xs b e c) = length xs"
  "b + c \<le> e \<Longrightarrow> e \<le> length xs \<Longrightarrow> length (ArrayDelete xs b e c) = length xs"
  "b \<le> e \<Longrightarrow> e \<le> length ys \<Longrightarrow> k + (e - b) \<le> length xs \<Longrightarrow> length (ArrayMove xs k ys b e) = length xs"
  by (simp_all add: ArrayInsert_form ArrayDelete_form ArrayMove_form)

text \<open>The list with an element put at a position, which every insertion divides among its arrays.\<close>

definition insert_at :: "nat \<Rightarrow> 'a \<Rightarrow> 'a list \<Rightarrow> 'a list" where
  "insert_at i x xs = take i xs @ x # drop i xs"

lemma length_insert_at [simp]: "i \<le> length xs \<Longrightarrow> length (insert_at i x xs) = Suc (length xs)"
  by (simp add: insert_at_def)

lemma nth_insert_at [simp]: "i \<le> length xs \<Longrightarrow> insert_at i x xs ! i = x"
  by (simp add: insert_at_def nth_append)

lemma take_insert_at:
  "i \<le> length xs \<Longrightarrow> take k (insert_at i x xs) = (if k \<le> i then take k xs else insert_at i x (take (k - 1) xs))"
  by (cases k) (auto simp: insert_at_def min_def take_Cons' drop_take)

lemma drop_insert_at:
  "i \<le> length xs \<Longrightarrow> drop k (insert_at i x xs) = (if k \<le> i then insert_at (i - k) x (drop k xs) else drop (k - 1) xs)"
  by (cases k) (auto simp: insert_at_def drop_Cons' drop_take)

text \<open>One place is made in an array with room.\<close>

lemma array_insert:
  assumes "i \<le> n" "n < length xs"
  shows "take (Suc n) ((ArrayInsert xs i n 1)[i := x]) = insert_at i x (take n xs)"
  using assms by (simp add: ArrayInsert_form take_Suc_conv_app_nth list_update_append insert_at_def min_def drop_take
      Suc_diff_le) arith

text \<open>Two pieces of one array are moved with a place between them, which is then filled.\<close>

lemma array_move_gap:
  assumes "b \<le> i" "i \<le> e" "e \<le> length xs" "k + (e - b) < length g"
  shows "(ArrayMove (ArrayMove g k xs b i) (k + (i - b) + 1) xs i e)[k + (i - b) := x] =
    take k g @ insert_at (i - b) x (take (e - b) (drop b xs)) @ drop (k + (e - b) + 1) g"
proof -
  have 1: "ArrayMove g k xs b i = take k g @ take (i - b) (drop b xs) @ drop (k + (i - b)) g"
    using assms(1) by (rule ArrayMove_form)
  have len: "length (take k g @ take (i - b) (drop b xs)) = k + (i - b)" using assms by simp
  have "take (k + (i - b) + 1) (ArrayMove g k xs b i) =
      take k g @ take (i - b) (drop b xs) @ [g ! (k + (i - b))]"
    unfolding 1 using assms len by (simp add: take_Suc_conv_app_nth [of 0, simplified] hd_drop_conv_nth [symmetric] take_Suc)
  moreover have "drop (k + (i - b) + 1 + (e - i)) (ArrayMove g k xs b i) = drop (k + (e - b) + 1) g"
    unfolding 1 using assms len by (simp add: algebra_simps Suc_diff_le)
  ultimately have 2: "ArrayMove (ArrayMove g k xs b i) (k + (i - b) + 1) xs i e =
      (take k g @ take (i - b) (drop b xs)) @ g ! (k + (i - b)) # take (e - i) (drop i xs) @ drop (k + (e - b) + 1) g"
    using ArrayMove_form [OF assms(2), of "ArrayMove g k xs b i" "k + (i - b) + 1" xs] by simp
  have 3: "take (i - b) (take (e - b) (drop b xs)) = take (i - b) (drop b xs)"
    "drop (i - b) (take (e - b) (drop b xs)) = take (e - i) (drop i xs)"
    using assms by (simp_all add: drop_take)
  show ?thesis unfolding 2 insert_at_def 3 by (simp only: list_update_append len) simp
qed

text \<open>The pieces of \<open>insert_at i x (take n xs)\<close> that the divisions of a full array leave and move.\<close>

lemma keep_low:
  assumes "i < m" "m \<le> n" "n \<le> length xs"
  shows "take m ((ArrayInsert xs i (m - 1) 1)[i := x]) = take m (insert_at i x (take n xs))"
proof -
  obtain k where "m = Suc k" using assms by (cases m) auto
  then show ?thesis using assms array_insert [of i k xs x] by (simp add: take_insert_at min.absorb2)
qed

lemma keep_high: "m \<le> i \<Longrightarrow> i \<le> n \<Longrightarrow> n \<le> length xs \<Longrightarrow> take m xs = take m (insert_at i x (take n xs))"
  by (simp add: take_insert_at min_def)

lemma move_low:
  assumes "i < m" "m \<le> n" "n \<le> length xs"
  shows "ArrayMove sh 0 xs (m - 1) n = drop m (insert_at i x (take n xs)) @ drop (n + 1 - m) sh"
  using assms by (simp add: ArrayMove_form drop_insert_at drop_take Suc_diff_le)

lemma move_high:
  assumes "m \<le> i" "i \<le> n" "n \<le> length xs" "n - m < length sh"
  shows "(ArrayMove (ArrayMove sh 0 xs m i) (i - m + 1) xs i n)[i - m := x] =
    drop m (insert_at i x (take n xs)) @ drop (n + 1 - m) sh"
  using array_move_gap [of m i n xs 0 sh x] assms by (simp add: drop_insert_at drop_take Suc_diff_le)

lemma shift_right: "r + m \<le> length ys \<Longrightarrow> drop m (ArrayInsert ys 0 r m) = take r ys @ drop (r + m) ys"
  by (simp add: ArrayInsert_form)

lemma shift_left_high:
  assumes "m \<le> i" "i \<le> n" "n \<le> length xs" "1 \<le> m"
  shows "take (n + 1 - m) ((ArrayDelete (ArrayDelete xs 0 i m) (i - m + 1) n (m - 1))[i - m := x]) =
    drop m (insert_at i x (take n xs))"
proof -
  define d where "d = ArrayDelete xs 0 i m"
  have d: "d = take (i - m) (drop m xs) @ drop (i - m) xs"
    unfolding d_def using assms by (simp add: ArrayDelete_form)
  have "length (take (i - m) (drop m xs)) = i - m" using assms by simp
  then have l: "length d = length xs" and dr: "drop i d = drop i xs"
    and tk: "take (i - m + 1) d = take (i - m) (drop m xs) @ [xs ! (i - m)]"
    using assms by (simp_all add: d take_Suc hd_drop_conv_nth)
  have "ArrayDelete d (i - m + 1) n (m - 1) =
      take (i - m + 1) d @ take (n - i) (drop i d) @ drop (n - (m - 1)) d"
    using ArrayDelete_form [of "i - m + 1" "m - 1" n d] assms l by simp
  then have "(ArrayDelete d (i - m + 1) n (m - 1))[i - m := x] =
      take (i - m) (drop m xs) @ x # take (n - i) (drop i xs) @ drop (n - (m - 1)) d"
    unfolding tk dr using assms by (simp add: list_update_append)
  then show ?thesis
    using assms by (simp add: d_def insert_at_def drop_take Suc_diff_le min_def take_Cons') arith
qed

lemma shift_left_low:
  assumes "i < m" "m \<le> n + 1" "n \<le> length xs"
  shows "take (n + 1 - m) (ArrayDelete xs 0 n (m - 1)) = drop m (insert_at i x (take n xs))"
  using assms by (simp add: ArrayDelete_form drop_insert_at drop_take min_def)

lemma append_low:
  assumes "m \<le> i" "i \<le> n" "n \<le> length xs" "s \<le> length ys"
  shows "take (s + m) (ArrayMove ys s xs 0 m) = take s ys @ take m (insert_at i x (take n xs))"
  using assms by (simp add: ArrayMove_form take_insert_at min_def)

lemma append_high:
  assumes "i < m" "m \<le> n + 1" "n \<le> length xs" "s + m \<le> length ys"
  shows "take (s + m) ((ArrayMove (ArrayMove ys s xs 0 i) (s + i + 1) xs i (m - 1))[i + s := x]) =
    take s ys @ take m (insert_at i x (take n xs))"
proof -
  obtain k where k: "m = Suc k" using assms by (cases m) auto
  then have "(ArrayMove (ArrayMove ys s xs 0 i) (s + i + 1) xs i k)[i + s := x] =
      take s ys @ insert_at i x (take k xs) @ drop (s + k + 1) ys"
    using array_move_gap [of 0 i k xs s ys x] assms by (simp add: add.commute)
  then show ?thesis using assms k by (simp add: take_insert_at min.absorb2)
qed

section \<open>Key orders\<close>

text \<open>What the comparator promises: a strict weak order, as \<^verbatim>\<open>std::less\<close> is.\<close>

definition strict_weak_order :: "('k \<Rightarrow> 'k \<Rightarrow> bool) \<Rightarrow> bool" where
  "strict_weak_order lt \<longleftrightarrow> (\<forall>a. \<not> lt a a) \<and> (\<forall>a b c. lt a b \<longrightarrow> lt b c \<longrightarrow> lt a c) \<and>
     (\<forall>a b c. lt a b \<longrightarrow> lt a c \<or> lt c b)"

text \<open>The order of the keys of a tree: strict when they are unique.\<close>

definition key_order :: "bool \<Rightarrow> ('k \<Rightarrow> 'k \<Rightarrow> bool) \<Rightarrow> 'k \<Rightarrow> 'k \<Rightarrow> bool" where
  "key_order unique lt a b = (if unique then lt a b else \<not> lt b a)"

locale comparator =
  fixes lt :: "'k \<Rightarrow> 'k \<Rightarrow> bool"
  assumes order: "strict_weak_order lt"
begin

lemma cmp_irrefl: "\<not> lt a a"
  using order by (simp add: strict_weak_order_def)

lemma cmp_trans: "lt a b \<Longrightarrow> lt b c \<Longrightarrow> lt a c"
  using order unfolding strict_weak_order_def by blast

lemma cmp_split: "lt a b \<Longrightarrow> lt a c \<or> lt c b"
  using order unfolding strict_weak_order_def by blast

lemma cmp_asym: "lt a b \<Longrightarrow> \<not> lt b a"
  using cmp_trans cmp_irrefl by blast

lemma le_trans: "\<not> lt b a \<Longrightarrow> \<not> lt c b \<Longrightarrow> \<not> lt c a"
  using cmp_split by meson

lemma order_trans: "key_order u lt a b \<Longrightarrow> key_order u lt b c \<Longrightarrow> key_order u lt a c"
  by (cases u; simp add: key_order_def; meson cmp_trans le_trans)

lemma le_order: "\<not> lt b a \<Longrightarrow> key_order u lt b c \<Longrightarrow> key_order u lt a c"
  by (cases u; simp add: key_order_def; meson cmp_split le_trans)

lemma order_le: "key_order u lt a b \<Longrightarrow> \<not> lt c b \<Longrightarrow> key_order u lt a c"
  by (cases u; simp add: key_order_def; meson cmp_split le_trans)

lemma order_less: "lt a b \<Longrightarrow> key_order u lt a b"
  using cmp_asym by (simp add: key_order_def)

lemma order_imp_le: "key_order u lt a b \<Longrightarrow> \<not> lt b a"
  using cmp_asym by (auto simp: key_order_def split: if_splits)

text \<open>What a search of a sorted array returns: everything in front of the slot is smaller than the key,
  or not greater when keys repeat, and nothing from the slot on is smaller; a found slot holds the key.\<close>

definition search_result :: "bool \<Rightarrow> ('t \<Rightarrow> 'k) \<Rightarrow> 'k \<Rightarrow> 't list \<Rightarrow> nat \<Rightarrow> nat \<times> bool \<Rightarrow> bool" where
  "search_result u conv key items n res = (case res of (slot, found) \<Rightarrow>
     slot \<le> n \<and> (\<forall>i < slot. key_order u lt (conv (items ! i)) key) \<and>
     (\<forall>i. slot \<le> i \<longrightarrow> i < n \<longrightarrow> \<not> lt (conv (items ! i)) key) \<and>
     (if found then slot < n \<and> \<not> lt key (conv (items ! slot))
      else (\<forall>i < slot. lt (conv (items ! i)) key) \<and> (\<forall>i. slot \<le> i \<longrightarrow> i < n \<longrightarrow> lt key (conv (items ! i)))))"

lemma search_loop_correct:
  assumes sorted: "\<And>i j. i < j \<Longrightarrow> j < n \<Longrightarrow> key_order u lt (conv (items ! i)) (conv (items ! j))"
    and "left \<le> right" "right \<le> n"
    "\<And>i. i < left \<Longrightarrow> lt (conv (items ! i)) key" "\<And>i. right \<le> i \<Longrightarrow> i < n \<Longrightarrow> lt key (conv (items ! i))"
  shows "search_result u conv key items n (search_loop lt conv key items left right)"
  using assms(2-5)
proof (induction "right - left" arbitrary: left right rule: less_induct)
  case less
  let ?m = "(left + right) div 2"
  let ?k = "conv (items ! ?m)"
  show ?case
  proof (cases "left < right")
    case False
    then have "left = right" using less.prems(1) by simp
    then show ?thesis
      using less.prems by (auto simp: search_loop.simps [of lt] search_result_def order_less cmp_asym)
  next
    case True
    then have m: "left \<le> ?m" "?m < right" by auto
    have below: "i < ?m \<Longrightarrow> \<not> lt ?k (conv (items ! i))" for i
      using sorted [of i ?m] m less.prems(2) order_imp_le by auto
    have above: "?m < i \<Longrightarrow> i < n \<Longrightarrow> \<not> lt (conv (items ! i)) ?k" for i
      using sorted [of ?m i] order_imp_le by auto
    consider "lt ?k key" | "lt key ?k" | "\<not> lt ?k key" "\<not> lt key ?k" by blast
    then show ?thesis
    proof cases
      case 1
      have "lt (conv (items ! i)) key" if "i < ?m + 1" for i
        using that 1 below [of i] cmp_split [OF 1, of "conv (items ! i)"] by (cases "i = ?m") auto
      then have "search_result u conv key items n (search_loop lt conv key items (?m + 1) right)"
        using less.hyps [of right "?m + 1"] less.prems(2,4) m True by auto
      then show ?thesis using 1 True by (subst search_loop.simps) simp
    next
      case 2
      have "lt key (conv (items ! i))" if "?m \<le> i" "i < n" for i
        using that 2 above [of i] cmp_split [OF 2, of "conv (items ! i)"] by (cases "i = ?m") auto
      then have "search_result u conv key items n (search_loop lt conv key items left ?m)"
        using less.hyps [of ?m left] less.prems(2,3) m True by auto
      then show ?thesis using 2 True cmp_asym [OF 2] by (subst search_loop.simps) simp
    next
      case 3
      have "key_order u lt (conv (items ! i)) key" if "i < ?m" for i
        using order_le [OF sorted [OF that] 3(2)] m less.prems(2) by simp
      moreover have "\<not> lt (conv (items ! i)) key" if "?m \<le> i" "i < n" for i
        using le_trans [OF 3(1) above [of i]] that 3 by (cases "i = ?m") auto
      moreover have "search_loop lt conv key items left right = (?m, True)"
        using 3 True by (subst search_loop.simps) simp
      ultimately show ?thesis using 3 m less.prems(2) by (simp add: search_result_def)
    qed
  qed
qed

lemma BinarySearch_correct:
  assumes "sorted_wrt (key_order u lt) (map conv (take n items))" "n \<le> length items"
  shows "search_result u conv key items n (BinarySearch lt conv key items n)"
  unfolding BinarySearch_def
proof (rule search_loop_correct)
  fix i j assume "i < j" "j < n"
  then show "key_order u lt (conv (items ! i)) (conv (items ! j))"
    using sorted_wrt_nth_less [OF assms(1), of i j] assms(2) by simp
qed auto

end

end
