(* ===== verification/BTree_Nodes.thy ===== *)
theory BTree_Nodes
  imports BTree_Arrays
begin

text \<open>
  The nodes of \<^verbatim>\<open>BTree.hpp\<close>. Every field of \<open>Node\<close>, \<open>Leaf\<close> and \<open>Branch\<close> is a map from the
  addresses of the nodes that have it, so that a write to one field is an update of one map; a pointer to a
  \<open>Node\<close> tells leaves and branches apart, as the virtual \<open>IsLeaf\<close> does. Addresses are never used twice, so
  \<^verbatim>\<open>delete\<close> has nothing to do. \<open>None\<close> is the result of an operation that dereferences a null pointer, casts a node
  to the class it does not have, or does not end. A reference to an item is the address of its leaf and
  its slot.
\<close>

section \<open>Memory\<close>

datatype node_ptr = Null | LeafPtr nat | BranchPtr nat

text \<open>The parameters of the template: the comparator, the conversions between items and keys, what the default
  constructors give, and the constants.\<close>

record ('k, 'i) BTreeParams =
  Less :: "'k \<Rightarrow> 'k \<Rightarrow> bool"
  key_of :: "'i \<Rightarrow> 'k"
  item_of :: "'k \<Rightarrow> 'i"
  empty_item :: 'i
  empty_key :: 'k
  UNIQUE_KEYS :: bool
  LEAF_CAPACITY :: nat
  BRANCH_CAPACITY :: nat

record ('k, 'i) BTree =
  root :: node_ptr
  firstLeaf :: "nat option"
  itemsCount :: UINT_32
  leavesCount :: UINT_32
  branchesCount :: UINT_32
  level :: "node_ptr \<Rightarrow> nat"
  slot_of :: "node_ptr \<Rightarrow> nat"
  parent_of :: "node_ptr \<Rightarrow> nat option"
  next_leaf :: "nat \<Rightarrow> nat option"
  prev_leaf :: "nat \<Rightarrow> nat option"
  leaf_size :: "nat \<Rightarrow> nat"
  items :: "nat \<Rightarrow> 'i list"
  branch_size :: "nat \<Rightarrow> nat"
  keys :: "nat \<Rightarrow> 'k list"
  childs :: "nat \<Rightarrow> node_ptr list"
  leaf_top :: nat
  branch_top :: nat

type_synonym item_ref = "nat \<times> nat"

definition SetParent :: "node_ptr \<Rightarrow> nat option \<Rightarrow> nat \<Rightarrow> ('k, 'i) BTree \<Rightarrow> ('k, 'i) BTree" where
  "SetParent n b slot h = h\<lparr>parent_of := (parent_of h)(n := b), slot_of := (slot_of h)(n := slot)\<rparr>"

definition new_Leaf :: "('k, 'i) BTreeParams \<Rightarrow> ('k, 'i) BTree \<Rightarrow> nat \<times> ('k, 'i) BTree" where
  "new_Leaf p h = (let a = leaf_top h in
     (a, h\<lparr>leaf_top := Suc a,
           level := (level h)(LeafPtr a := 0), slot_of := (slot_of h)(LeafPtr a := 0),
           parent_of := (parent_of h)(LeafPtr a := None),
           next_leaf := (next_leaf h)(a := None), prev_leaf := (prev_leaf h)(a := None),
           leaf_size := (leaf_size h)(a := 0),
           items := (items h)(a := replicate (LEAF_CAPACITY p) (empty_item p))\<rparr>))"

definition new_Branch :: "('k, 'i) BTreeParams \<Rightarrow> nat \<Rightarrow> ('k, 'i) BTree \<Rightarrow> nat \<times> ('k, 'i) BTree" where
  "new_Branch p lev h = (let b = branch_top h in
     (b, h\<lparr>branch_top := Suc b,
           level := (level h)(BranchPtr b := lev), slot_of := (slot_of h)(BranchPtr b := 0),
           parent_of := (parent_of h)(BranchPtr b := None),
           branch_size := (branch_size h)(b := 0),
           keys := (keys h)(b := replicate (BRANCH_CAPACITY p) (empty_key p)),
           childs := (childs h)(b := replicate (BRANCH_CAPACITY p + 1) Null)\<rparr>))"

section \<open>Branch: links and keys\<close>

definition UpdateChildLink :: "nat \<Rightarrow> nat \<Rightarrow> ('k, 'i) BTree \<Rightarrow> ('k, 'i) BTree" where
  "UpdateChildLink b i h = SetParent (childs h b ! i) (Some b) i h"

definition UpdateChildrenLinks :: "nat \<Rightarrow> nat \<Rightarrow> nat \<Rightarrow> ('k, 'i) BTree \<Rightarrow> ('k, 'i) BTree" where
  "UpdateChildrenLinks b beginIndex endIndex h = fold (UpdateChildLink b) [beginIndex..<Suc endIndex] h"

definition new_Branch2 :: "('k, 'i) BTreeParams \<Rightarrow> nat \<Rightarrow> 'k \<Rightarrow> node_ptr \<Rightarrow> node_ptr \<Rightarrow> ('k, 'i) BTree \<Rightarrow>
    nat \<times> ('k, 'i) BTree" where
  "new_Branch2 p lev key first second h =
     (let (b, h) = new_Branch p lev h;
          h = h\<lparr>branch_size := (branch_size h)(b := 1), keys := (keys h)(b := (keys h b)[0 := key]),
                childs := (childs h)(b := (childs h b)[0 := first, 1 := second])\<rparr>
      in (b, UpdateChildrenLinks b 0 1 h))"

text \<open>The key of the last child of a branch is kept by the first ancestor in which the path is not the last one.\<close>

partial_function (option) UpdateKey :: "nat \<Rightarrow> nat \<Rightarrow> 'k \<Rightarrow> ('k, 'i) BTree \<Rightarrow> ('k, 'i) BTree option" where
  "UpdateKey b slot key h =
     (if slot < branch_size h b then Some (h\<lparr>keys := (keys h)(b := (keys h b)[slot := key])\<rparr>)
      else case parent_of h (BranchPtr b) of
          None \<Rightarrow> Some h
        | Some q \<Rightarrow> UpdateKey q (slot_of h (BranchPtr b)) key h)"

declare UpdateKey.simps [code]

text \<open>\<^verbatim>\<open>n->parent->UpdateKey(n->slot, key)\<close>\<close>

definition UpdateParentKey :: "node_ptr \<Rightarrow> 'k \<Rightarrow> ('k, 'i) BTree \<Rightarrow> ('k, 'i) BTree option" where
  "UpdateParentKey n key h = (case parent_of h n of None \<Rightarrow> None | Some b \<Rightarrow> UpdateKey b (slot_of h n) key h)"

section \<open>Leaf\<close>

definition Leaf_GetKey :: "('k, 'i) BTreeParams \<Rightarrow> nat \<Rightarrow> nat \<Rightarrow> ('k, 'i) BTree \<Rightarrow> 'k" where
  "Leaf_GetKey p a slot h = key_of p (items h a ! slot)"

definition Leaf_GetMaxKey :: "('k, 'i) BTreeParams \<Rightarrow> nat \<Rightarrow> ('k, 'i) BTree \<Rightarrow> 'k" where
  "Leaf_GetMaxKey p a h = Leaf_GetKey p a (leaf_size h a - 1) h"

definition Leaf_FindSlot :: "('k, 'i) BTreeParams \<Rightarrow> nat \<Rightarrow> 'k \<Rightarrow> ('k, 'i) BTree \<Rightarrow> nat \<times> bool" where
  "Leaf_FindSlot p a key h = BinarySearch (Less p) (key_of p) key (items h a) (leaf_size h a)"

definition Leaf_Insert :: "('k, 'i) BTreeParams \<Rightarrow> nat \<Rightarrow> nat \<Rightarrow> 'k \<Rightarrow> ('k, 'i) BTree \<Rightarrow> item_ref \<times> ('k, 'i) BTree" where
  "Leaf_Insert p a slot key h =
     ((a, slot), h\<lparr>items := (items h)(a := (ArrayInsert (items h a) slot (leaf_size h a) 1)[slot := item_of p key]),
                   leaf_size := (leaf_size h)(a := leaf_size h a + 1)\<rparr>)"

text \<open>The new leaf is linked behind the old one before the items are divided.\<close>

definition link_after :: "nat \<Rightarrow> nat \<Rightarrow> ('k, 'i) BTree \<Rightarrow> ('k, 'i) BTree" where
  "link_after a b h =
     (let h = h\<lparr>next_leaf := (next_leaf h)(b := next_leaf h a), prev_leaf := (prev_leaf h)(b := Some a)\<rparr>;
          h = (case next_leaf h a of None \<Rightarrow> h | Some r \<Rightarrow> h\<lparr>prev_leaf := (prev_leaf h)(r := Some b)\<rparr>)
      in h\<lparr>next_leaf := (next_leaf h)(a := Some b)\<rparr>)"

definition Leaf_InsertAndSplit :: "('k, 'i) BTreeParams \<Rightarrow> nat \<Rightarrow> nat \<Rightarrow> 'k \<Rightarrow> ('k, 'i) BTree \<Rightarrow>
    item_ref \<times> 'k \<times> node_ptr \<times> ('k, 'i) BTree" where
  "Leaf_InsertAndSplit p a slot key h =
     (let newSize = (leaf_size h a + 1) div 2;
          (b, h) = new_Leaf p h;
          h = link_after a b h;
          (ref, this, new) =
            (if slot < newSize
             then ((a, slot), (ArrayInsert (items h a) slot (newSize - 1) 1)[slot := item_of p key],
                   ArrayMove (items h b) 0 (items h a) (newSize - 1) (leaf_size h a))
             else ((b, slot - newSize), items h a,
                   (ArrayMove (ArrayMove (items h b) 0 (items h a) newSize slot)
                      (slot - newSize + 1) (items h a) slot (leaf_size h a))[slot - newSize := item_of p key]));
          h = h\<lparr>items := (items h)(a := this, b := new),
                leaf_size := (leaf_size h)(b := leaf_size h a + 1 - newSize, a := newSize)\<rparr>
      in (ref, Leaf_GetMaxKey p a h, LeafPtr b, h))"

definition InsertAndRearrangeWithRight :: "('k, 'i) BTreeParams \<Rightarrow> nat \<Rightarrow> nat \<Rightarrow> 'k \<Rightarrow> nat \<Rightarrow> ('k, 'i) BTree \<Rightarrow>
    (item_ref \<times> ('k, 'i) BTree) option" where
  "InsertAndRearrangeWithRight p a slot key r h =
     (let totalSize = leaf_size h a + leaf_size h r + 1;
          newSize = totalSize div 2;
          itemsToMove = leaf_size h a + 1 - newSize;
          shifted = ArrayInsert (items h r) 0 (leaf_size h r) itemsToMove;
          (ref, this, right) =
            (if slot < newSize
             then ((a, slot), (ArrayInsert (items h a) slot (newSize - 1) 1)[slot := item_of p key],
                   ArrayMove shifted 0 (items h a) (newSize - 1) (leaf_size h a))
             else ((r, slot - newSize), items h a,
                   (ArrayMove (ArrayMove shifted 0 (items h a) newSize slot)
                      (slot - newSize + 1) (items h a) slot (leaf_size h a))[slot - newSize := item_of p key]));
          h = h\<lparr>items := (items h)(r := right, a := this),
                leaf_size := (leaf_size h)(a := newSize, r := totalSize - newSize)\<rparr>
      in map_option (\<lambda>h. (ref, h)) (UpdateParentKey (LeafPtr a) (Leaf_GetMaxKey p a h) h))"

definition InsertAndRearrangeWithLeft :: "('k, 'i) BTreeParams \<Rightarrow> nat \<Rightarrow> nat \<Rightarrow> 'k \<Rightarrow> nat \<Rightarrow> ('k, 'i) BTree \<Rightarrow>
    (item_ref \<times> ('k, 'i) BTree) option" where
  "InsertAndRearrangeWithLeft p a slot key l h =
     (let totalSize = leaf_size h a + leaf_size h l + 1;
          newSize = totalSize div 2;
          itemsToMove = leaf_size h a + 1 - newSize;
          (ref, this, left) =
            (if slot \<ge> itemsToMove
             then ((a, slot - itemsToMove),
                   (ArrayDelete (ArrayDelete (items h a) 0 slot itemsToMove)
                      (slot - itemsToMove + 1) (leaf_size h a) (itemsToMove - 1))[slot - itemsToMove := item_of p key],
                   ArrayMove (items h l) (leaf_size h l) (items h a) 0 itemsToMove)
             else ((l, slot + leaf_size h l),
                   ArrayDelete (items h a) 0 (leaf_size h a) (itemsToMove - 1),
                   (ArrayMove (ArrayMove (items h l) (leaf_size h l) (items h a) 0 slot)
                      (leaf_size h l + slot + 1) (items h a) slot (itemsToMove - 1))
                     [slot + leaf_size h l := item_of p key]));
          h = h\<lparr>items := (items h)(l := left, a := this),
                leaf_size := (leaf_size h)(a := newSize, l := totalSize - newSize)\<rparr>
      in map_option (\<lambda>h. (ref, h)) (UpdateParentKey (LeafPtr l) (Leaf_GetMaxKey p l h) h))"

definition Leaf_Delete :: "('k, 'i) BTreeParams \<Rightarrow> nat \<Rightarrow> nat \<Rightarrow> ('k, 'i) BTree \<Rightarrow> ('k, 'i) BTree option" where
  "Leaf_Delete p a slot h =
     (let h = h\<lparr>items := (items h)(a := ArrayDelete ((items h a)[slot := empty_item p]) slot (leaf_size h a) 1),
                leaf_size := (leaf_size h)(a := leaf_size h a - 1)\<rparr>
      in if slot = leaf_size h a \<and> parent_of h (LeafPtr a) \<noteq> None then
           if leaf_size h a \<noteq> 0 then UpdateParentKey (LeafPtr a) (Leaf_GetMaxKey p a h) h
           else (case prev_leaf h a of None \<Rightarrow> Some h
                 | Some l \<Rightarrow> UpdateParentKey (LeafPtr a) (Leaf_GetMaxKey p l h) h)
         else Some h)"

text \<open>The neighbour below the same parent with which a leaf that lost too many items shares: the left and the right
  one of the pair.\<close>

definition leaf_pair :: "nat \<Rightarrow> ('k, 'i) BTree \<Rightarrow> (nat \<times> nat) option" where
  "leaf_pair a h = (case parent_of h (LeafPtr a) of None \<Rightarrow> None | Some b \<Rightarrow>
     (let slot = slot_of h (LeafPtr a) in
      if slot = 0 then (case childs h b ! (slot + 1) of LeafPtr r \<Rightarrow> Some (a, r) | _ \<Rightarrow> None)
      else (case childs h b ! (slot - 1) of LeafPtr l \<Rightarrow> Some (l, a) | _ \<Rightarrow> None)))"

definition share_items :: "('k, 'i) BTreeParams \<Rightarrow> nat \<Rightarrow> nat \<Rightarrow> ('k, 'i) BTree \<Rightarrow> ('k, 'i) BTree option" where
  "share_items p l r h =
     (let totalSize = leaf_size h l + leaf_size h r in
      if totalSize \<le> LEAF_CAPACITY p then
        Some (h\<lparr>items := (items h)(l := ArrayMove (items h l) (leaf_size h l) (items h r) 0 (leaf_size h r)),
                leaf_size := (leaf_size h)(l := totalSize, r := 0)\<rparr>)
      else
        let leftSize = totalSize div 2; rightSize = totalSize - leftSize;
            (left, right) =
              (if leftSize < leaf_size h l
               then (items h l,
                     ArrayMove (ArrayInsert (items h r) 0 (leaf_size h r) (leaf_size h l - leftSize)) 0
                       (items h l) leftSize (leaf_size h l - leftSize))
               else (ArrayMove (items h l) (leaf_size h l) (items h r) 0 (leaf_size h r - rightSize),
                     ArrayDelete (items h r) 0 (leaf_size h r) (leaf_size h r - rightSize)));
            h = h\<lparr>items := (items h)(l := left, r := right),
                  leaf_size := (leaf_size h)(l := leftSize, r := rightSize)\<rparr>
        in UpdateParentKey (LeafPtr l) (Leaf_GetMaxKey p l h) h)"

definition RearrangeItems :: "('k, 'i) BTreeParams \<Rightarrow> nat \<Rightarrow> ('k, 'i) BTree \<Rightarrow> (nat \<times> ('k, 'i) BTree) option" where
  "RearrangeItems p a h = (case leaf_pair a h of None \<Rightarrow> None
     | Some (l, r) \<Rightarrow> map_option (\<lambda>h. (r, h)) (share_items p l r h))"

section \<open>Branch\<close>

definition Branch_FindSlot :: "('k, 'i) BTreeParams \<Rightarrow> nat \<Rightarrow> 'k \<Rightarrow> ('k, 'i) BTree \<Rightarrow> nat \<times> bool" where
  "Branch_FindSlot p b key h = BinarySearch (Less p) (\<lambda>k. k) key (keys h b) (branch_size h b)"

definition Branch_Insert :: "nat \<Rightarrow> nat \<Rightarrow> 'k \<Rightarrow> node_ptr \<Rightarrow> ('k, 'i) BTree \<Rightarrow> ('k, 'i) BTree" where
  "Branch_Insert b slot key child h =
     (let h = h\<lparr>keys := (keys h)(b := (ArrayInsert (keys h b) slot (branch_size h b) 1)[slot := key]),
                childs := (childs h)(b :=
                  (ArrayInsert (childs h b) (slot + 1) (branch_size h b + 1) 1)[slot + 1 := child]),
                branch_size := (branch_size h)(b := branch_size h b + 1)\<rparr>
      in UpdateChildrenLinks b (slot + 1) (branch_size h b) h)"

text \<open>The keys of the two branches after a split and the key that goes up; \<open>newKey\<close> is the content of the
  caller's variable, which is swapped in.\<close>

definition split_keys :: "nat \<Rightarrow> 'k \<Rightarrow> nat \<Rightarrow> nat \<Rightarrow> 'k \<Rightarrow> 'k list \<Rightarrow> 'k list \<Rightarrow> 'k list \<times> 'k list \<times> 'k" where
  "split_keys slot key n newSize newKey ks new =
     (if slot < newSize then
        (let up = ks ! (newSize - 1); ks = ks[newSize - 1 := newKey] in
         ((ArrayInsert ks slot (newSize - 1) 1)[slot := key], ArrayMove new 0 ks newSize n, up))
      else if slot > newSize then
        (let up = ks ! newSize; ks = ks[newSize := newKey] in
         (ks, (ArrayMove (ArrayMove new 0 ks (newSize + 1) slot) (slot - newSize) ks slot n)[slot - newSize - 1 := key], up))
      else (ks, ArrayMove new 0 ks newSize n, key))"

definition split_childs :: "nat \<Rightarrow> node_ptr \<Rightarrow> nat \<Rightarrow> nat \<Rightarrow> node_ptr list \<Rightarrow> node_ptr list \<Rightarrow> node_ptr list \<times> node_ptr list" where
  "split_childs slot node n newSize cs new =
     (if slot < newSize then
        ((ArrayInsert cs (slot + 1) newSize 1)[slot + 1 := node], ArrayMove new 0 cs newSize (n + 1))
      else (cs, (ArrayMove (ArrayMove new 0 cs (newSize + 1) (slot + 1)) (slot - newSize + 1) cs (slot + 1) (n + 1))
              [slot - newSize := node]))"

definition Branch_InsertAndSplit :: "('k, 'i) BTreeParams \<Rightarrow> nat \<Rightarrow> nat \<Rightarrow> 'k \<Rightarrow> node_ptr \<Rightarrow> 'k \<Rightarrow> ('k, 'i) BTree \<Rightarrow>
    'k \<times> node_ptr \<times> ('k, 'i) BTree" where
  "Branch_InsertAndSplit p b slot key node newKey h =
     (let totalSize = branch_size h b + 1;
          newSize = totalSize div 2;
          (c, h) = new_Branch p (level h (BranchPtr b)) h;
          h = h\<lparr>branch_size := (branch_size h)(c := totalSize - newSize - 1)\<rparr>;
          (ks, new_ks, up) = split_keys slot key (branch_size h b) newSize newKey (keys h b) (keys h c);
          h = h\<lparr>keys := (keys h)(b := ks, c := new_ks)\<rparr>;
          (cs, new_cs) = split_childs slot node (branch_size h b) newSize (childs h b) (childs h c);
          h = h\<lparr>childs := (childs h)(b := cs, c := new_cs)\<rparr>;
          h = (if slot < newSize then UpdateChildrenLinks b (slot + 1) newSize h else h);
          h = h\<lparr>branch_size := (branch_size h)(b := newSize)\<rparr>;
          h = UpdateChildrenLinks c 0 (branch_size h c) h
      in (up, BranchPtr c, h))"

definition Branch_Delete :: "nat \<Rightarrow> nat \<Rightarrow> ('k, 'i) BTree \<Rightarrow> ('k, 'i) BTree" where
  "Branch_Delete b slot h =
     (let h = h\<lparr>keys := (keys h)(b := ArrayDelete (keys h b) (slot - 1) (branch_size h b) 1),
                childs := (childs h)(b := ArrayDelete (childs h b) slot (branch_size h b + 1) 1),
                branch_size := (branch_size h)(b := branch_size h b - 1)\<rparr>
      in UpdateChildrenLinks b slot (branch_size h b) h)"

definition Branch_Shift :: "nat \<Rightarrow> nat \<Rightarrow> ('k, 'i) BTree \<Rightarrow> ('k, 'i) BTree" where
  "Branch_Shift b count h =
     h\<lparr>keys := (keys h)(b := ArrayDelete (keys h b) 0 (branch_size h b) count),
       childs := (childs h)(b := ArrayDelete (childs h b) 0 (branch_size h b + 1) count)\<rparr>"

definition Branch_Unshift :: "nat \<Rightarrow> nat \<Rightarrow> ('k, 'i) BTree \<Rightarrow> ('k, 'i) BTree" where
  "Branch_Unshift b count h =
     h\<lparr>keys := (keys h)(b := ArrayInsert (keys h b) 0 (branch_size h b) count),
       childs := (childs h)(b := ArrayInsert (childs h b) 0 (branch_size h b + 1) count)\<rparr>"

definition Branch_MoveItems :: "nat \<Rightarrow> nat \<Rightarrow> nat \<Rightarrow> nat \<Rightarrow> nat \<Rightarrow> ('k, 'i) BTree \<Rightarrow> ('k, 'i) BTree" where
  "Branch_MoveItems b destIndex c beginIndex endIndex h =
     h\<lparr>keys := (keys h)(b := ArrayMove (keys h b) destIndex (keys h c) beginIndex endIndex),
       childs := (childs h)(b := ArrayMove (childs h b) destIndex (childs h c) beginIndex (endIndex + 1))\<rparr>"

text \<open>\<^verbatim>\<open>std::swap\<close> of two keys, each a slot of a branch.\<close>

definition swap_keys :: "nat \<Rightarrow> nat \<Rightarrow> nat \<Rightarrow> nat \<Rightarrow> ('k, 'i) BTree \<Rightarrow> ('k, 'i) BTree" where
  "swap_keys b i c j h =
     (let x = keys h b ! i; y = keys h c ! j;
          h = h\<lparr>keys := (keys h)(b := (keys h b)[i := y])\<rparr>
      in h\<lparr>keys := (keys h)(c := (keys h c)[j := x])\<rparr>)"

definition branch_pair :: "nat \<Rightarrow> ('k, 'i) BTree \<Rightarrow> (nat \<times> nat \<times> nat) option" where
  "branch_pair b h = (case parent_of h (BranchPtr b) of None \<Rightarrow> None | Some q \<Rightarrow>
     (let slot = slot_of h (BranchPtr b) in
      if slot = 0 then (case childs h q ! (slot + 1) of BranchPtr r \<Rightarrow> Some (q, b, r) | _ \<Rightarrow> None)
      else (case childs h q ! (slot - 1) of BranchPtr l \<Rightarrow> Some (q, l, b) | _ \<Rightarrow> None)))"

text \<open>\<open>q\<close> is the common parent, whose key between the two branches takes part.\<close>

definition share_keys :: "('k, 'i) BTreeParams \<Rightarrow> nat \<Rightarrow> nat \<Rightarrow> nat \<Rightarrow> ('k, 'i) BTree \<Rightarrow> ('k, 'i) BTree" where
  "share_keys p q l r h =
     (let totalSize = branch_size h l + branch_size h r;
          pslot = slot_of h (BranchPtr l);
          n = branch_size h l; m = branch_size h r
      in if totalSize < BRANCH_CAPACITY p then
           (let h = swap_keys l n q pslot h;
                h = Branch_MoveItems l (n + 1) r 0 m h;
                h = UpdateChildrenLinks l (n + 1) (totalSize + 1) h
            in h\<lparr>branch_size := (branch_size h)(l := totalSize + 1, r := 0)\<rparr>)
         else
           let leftSize = totalSize div 2; rightSize = totalSize - leftSize in
           if leftSize < n then
             (let h = Branch_Unshift r (n - leftSize) h;
                  h = swap_keys r (n - leftSize - 1) q pslot h;
                  h = swap_keys q pslot l leftSize h;
                  h = Branch_MoveItems r 0 l (leftSize + 1) n h;
                  h = h\<lparr>branch_size := (branch_size h)(l := leftSize, r := rightSize)\<rparr>
              in UpdateChildrenLinks r 0 rightSize h)
           else
             (let h = swap_keys l n q pslot h;
                  h = swap_keys q pslot r (m - rightSize - 1) h;
                  h = Branch_MoveItems l (n + 1) r 0 (m - rightSize - 1) h;
                  h = Branch_Shift r (m - rightSize) h;
                  h = UpdateChildrenLinks l (n + 1) leftSize h;
                  h = h\<lparr>branch_size := (branch_size h)(l := leftSize, r := rightSize)\<rparr>
              in UpdateChildrenLinks r 0 rightSize h))"

definition RearrangeKeys :: "('k, 'i) BTreeParams \<Rightarrow> nat \<Rightarrow> ('k, 'i) BTree \<Rightarrow> (nat \<times> ('k, 'i) BTree) option" where
  "RearrangeKeys p b h = map_option (\<lambda>(q, l, r). (r, share_keys p q l r h)) (branch_pair b h)"

end
