(* ===== verification/BTree_Model.thy ===== *)
theory BTree_Model
  imports BTree_Nodes "HOL-Library.Monad_Syntax"
begin

text \<open>
  The tree of \<^verbatim>\<open>BTree.hpp\<close>: insertion, search, deletion, iteration and the self test, and the set
  \<^verbatim>\<open>BTreeSet.hpp\<close> made of it.
\<close>

section \<open>Construction\<close>

definition BTree_new :: "('k, 'i) BTree" where
  "BTree_new = \<lparr>root = Null, firstLeaf = None, itemsCount = 0, leavesCount = 0, branchesCount = 0,
     level = \<lambda>_. 0, slot_of = \<lambda>_. 0, parent_of = \<lambda>_. None, next_leaf = \<lambda>_. None, prev_leaf = \<lambda>_. None,
     leaf_size = \<lambda>_. 0, items = \<lambda>_. [], branch_size = \<lambda>_. 0, keys = \<lambda>_. [], childs = \<lambda>_. [],
     leaf_top = 0, branch_top = 0\<rparr>"

definition BTree_Size :: "('k, 'i) BTree \<Rightarrow> UINT_32" where "BTree_Size h = itemsCount h"
definition BTree_Empty :: "('k, 'i) BTree \<Rightarrow> bool" where "BTree_Empty h \<longleftrightarrow> itemsCount h = 0"
definition LeavesCount :: "('k, 'i) BTree \<Rightarrow> UINT_32" where "LeavesCount h = leavesCount h"
definition BranchesCount :: "('k, 'i) BTree \<Rightarrow> UINT_32" where "BranchesCount h = branchesCount h"

definition BTree_Clear :: "('k, 'i) BTree \<Rightarrow> ('k, 'i) BTree" where
  "BTree_Clear h = h\<lparr>root := Null, firstLeaf := None, itemsCount := 0, leavesCount := 0, branchesCount := 0\<rparr>"

section \<open>Insertion\<close>

text \<open>What an insertion hands back: the tree, the reference, whether the key was new, and the variables \<open>newKey\<close> and
  \<open>newNode\<close> of the caller.\<close>

type_synonym ('k, 'i) insertion = "('k, 'i) BTree \<times> item_ref \<times> bool \<times> 'k \<times> node_ptr"

definition split_leaf :: "('k, 'i) BTreeParams \<Rightarrow> nat \<Rightarrow> nat \<Rightarrow> 'k \<Rightarrow> ('k, 'i) BTree \<Rightarrow> ('k, 'i) insertion" where
  "split_leaf p a slot key h =
     (let h = h\<lparr>leavesCount := leavesCount h + 1\<rparr>;
          (ref, up, new, h) = Leaf_InsertAndSplit p a slot key h
      in (h, ref, True, up, new))"

definition InsertIntoLeaf :: "('k, 'i) BTreeParams \<Rightarrow> nat \<Rightarrow> 'k \<Rightarrow> 'k \<Rightarrow> node_ptr \<Rightarrow> ('k, 'i) BTree \<Rightarrow>
    ('k, 'i) insertion option" where
  "InsertIntoLeaf p a key newKey newNode h =
     (let (slot, found) = Leaf_FindSlot p a key h;
          right = (\<lambda>r. map_option (\<lambda>(ref, h). (h, ref, True, newKey, newNode)) (InsertAndRearrangeWithRight p a slot key r h));
          left = (\<lambda>l. map_option (\<lambda>(ref, h). (h, ref, True, newKey, newNode)) (InsertAndRearrangeWithLeft p a slot key l h));
          new = Some (split_leaf p a slot key h)
      in if found \<and> UNIQUE_KEYS p then Some (h, (a, slot), False, newKey, newNode)
         else if leaf_size h a < LEAF_CAPACITY p then
           (let (ref, h) = Leaf_Insert p a slot key h in Some (h, ref, True, newKey, Null))
         else if parent_of h (LeafPtr a) = None then new
         else (case (prev_leaf h a, next_leaf h a) of
             (None, None) \<Rightarrow> None
           | (None, Some r) \<Rightarrow> if leaf_size h r < LEAF_CAPACITY p then right r else new
           | (Some l, None) \<Rightarrow> if leaf_size h l < LEAF_CAPACITY p then left l else new
           | (Some l, Some r) \<Rightarrow>
               if leaf_size h l < leaf_size h r then left l
               else if leaf_size h r < LEAF_CAPACITY p then right r
               else new))"

text \<open>What \<open>InsertIntoBranch\<close> does with the node its child may have been split into.\<close>

definition insert_child :: "('k, 'i) BTreeParams \<Rightarrow> nat \<Rightarrow> nat \<Rightarrow> 'k \<Rightarrow> node_ptr \<Rightarrow> ('k, 'i) insertion \<Rightarrow> ('k, 'i) insertion" where
  "insert_child p b slot newKey newNode ins = (case ins of (h, ref, inserted, newChildKey, newChildNode) \<Rightarrow>
     if \<not> inserted \<or> newChildNode = Null then (h, ref, inserted, newKey, newNode)
     else if branch_size h b < BRANCH_CAPACITY p then
       (Branch_Insert b slot newChildKey newChildNode h, ref, inserted, newKey, newNode)
     else
       (let h = h\<lparr>branchesCount := branchesCount h + 1\<rparr>;
            (newKey, newNode, h) = Branch_InsertAndSplit p b slot newChildKey newChildNode newKey h
        in (h, ref, inserted, newKey, newNode)))"

partial_function (option) InsertIntoNode :: "('k, 'i) BTreeParams \<Rightarrow> node_ptr \<Rightarrow> 'k \<Rightarrow> 'k \<Rightarrow> node_ptr \<Rightarrow>
    ('k, 'i) BTree \<Rightarrow> ('k, 'i) insertion option" where
  "InsertIntoNode p n key newKey newNode h = (case n of
     Null \<Rightarrow> None
   | LeafPtr a \<Rightarrow> InsertIntoLeaf p a key newKey newNode h
   | BranchPtr b \<Rightarrow> do {
       let slot = fst (Branch_FindSlot p b key h);
       ins \<leftarrow> InsertIntoNode p (childs h b ! slot) key (empty_key p) Null h;
       Some (insert_child p b slot newKey newNode ins) })"

definition grow_root :: "('k, 'i) BTreeParams \<Rightarrow> ('k, 'i) insertion \<Rightarrow> ('k, 'i) BTree \<times> item_ref \<times> bool" where
  "grow_root p ins = (case ins of (h, ref, inserted, newKey, newNode) \<Rightarrow>
     if inserted then
       (let h = h\<lparr>itemsCount := itemsCount h + 1\<rparr> in
        if newNode \<noteq> Null then
          (let (b, h) = new_Branch2 p (level h (root h) + 1) newKey (root h) newNode h
           in (h\<lparr>root := BranchPtr b, branchesCount := branchesCount h + 1\<rparr>, ref, inserted))
        else (h, ref, inserted))
     else (h, ref, inserted))"

definition BTree_Insert :: "('k, 'i) BTreeParams \<Rightarrow> 'k \<Rightarrow> ('k, 'i) BTree \<Rightarrow> (('k, 'i) BTree \<times> item_ref \<times> bool) option" where
  "BTree_Insert p key h =
     (let h = (if root h = Null
               then (let (a, h) = new_Leaf p h
                     in h\<lparr>firstLeaf := Some a, leavesCount := leavesCount h + 1, root := LeafPtr a\<rparr>)
               else h)
      in map_option (grow_root p) (InsertIntoNode p (root h) key (empty_key p) Null h))"

section \<open>Search and deletion\<close>

partial_function (option) FindInNode :: "('k, 'i) BTreeParams \<Rightarrow> node_ptr \<Rightarrow> 'k \<Rightarrow> ('k, 'i) BTree \<Rightarrow> item_ref option option" where
  "FindInNode p n key h = (case n of
     Null \<Rightarrow> None
   | LeafPtr a \<Rightarrow> (let (slot, found) = Leaf_FindSlot p a key h in Some (if found then Some (a, slot) else None))
   | BranchPtr b \<Rightarrow> FindInNode p (childs h b ! fst (Branch_FindSlot p b key h)) key h)"

definition Find :: "('k, 'i) BTreeParams \<Rightarrow> 'k \<Rightarrow> ('k, 'i) BTree \<Rightarrow> item_ref option option" where
  "Find p key h = (if root h = Null then Some None else FindInNode p (root h) key h)"

partial_function (option) DeleteFromBranch :: "('k, 'i) BTreeParams \<Rightarrow> nat \<Rightarrow> nat \<Rightarrow> ('k, 'i) BTree \<Rightarrow> ('k, 'i) BTree option" where
  "DeleteFromBranch p b slot h =
     (let h = Branch_Delete b slot h in
      if branch_size h b \<ge> BRANCH_CAPACITY p div 2 then Some h
      else if parent_of h (BranchPtr b) = None then
        (if branch_size h b = 0 then
           (let h = h\<lparr>root := childs h b ! 0\<rparr>;
                h = SetParent (root h) None 0 h
            in Some (h\<lparr>childs := (childs h)(b := (childs h b)[0 := Null]), branchesCount := branchesCount h - 1\<rparr>))
         else Some h)
      else do {
        (r, h) \<leftarrow> RearrangeKeys p b h;
        if branch_size h r = 0 then
          (case parent_of h (BranchPtr r) of None \<Rightarrow> None
           | Some q \<Rightarrow> do {
               h \<leftarrow> DeleteFromBranch p q (slot_of h (BranchPtr r)) h;
               Some (h\<lparr>childs := (childs h)(r := (childs h r)[0 := Null]), branchesCount := branchesCount h - 1\<rparr>) })
        else Some h })"

definition remove_leaf :: "('k, 'i) BTreeParams \<Rightarrow> nat \<Rightarrow> ('k, 'i) BTree \<Rightarrow> ('k, 'i) BTree option" where
  "remove_leaf p r h = (case (prev_leaf h r, parent_of h (LeafPtr r)) of
     (Some l, Some q) \<Rightarrow> do {
       h \<leftarrow> DeleteFromBranch p q (slot_of h (LeafPtr r)) h;
       let h = h\<lparr>next_leaf := (next_leaf h)(l := next_leaf h r)\<rparr>;
       let h = (case next_leaf h r of None \<Rightarrow> h | Some x \<Rightarrow> h\<lparr>prev_leaf := (prev_leaf h)(x := Some l)\<rparr>);
       Some (h\<lparr>leavesCount := leavesCount h - 1\<rparr>) }
   | _ \<Rightarrow> None)"

definition DeleteFromLeaf :: "('k, 'i) BTreeParams \<Rightarrow> nat \<Rightarrow> nat \<Rightarrow> ('k, 'i) BTree \<Rightarrow> ('k, 'i) BTree option" where
  "DeleteFromLeaf p a slot h = do {
     h \<leftarrow> Leaf_Delete p a slot h;
     let h = h\<lparr>itemsCount := itemsCount h - 1\<rparr>;
     if leaf_size h a \<ge> LEAF_CAPACITY p div 2 then Some h
     else if parent_of h (LeafPtr a) = None then
       Some (if leaf_size h a = 0
             then h\<lparr>leavesCount := leavesCount h - 1, root := Null, firstLeaf := None\<rparr>
             else h)
     else do {
       (r, h) \<leftarrow> RearrangeItems p a h;
       if leaf_size h r = 0 then remove_leaf p r h else Some h } }"

definition BTree_Delete :: "('k, 'i) BTreeParams \<Rightarrow> 'k \<Rightarrow> ('k, 'i) BTree \<Rightarrow> (bool \<times> ('k, 'i) BTree) option" where
  "BTree_Delete p key h = do {
     ref \<leftarrow> Find p key h;
     (case ref of None \<Rightarrow> Some (False, h)
      | Some (a, slot) \<Rightarrow> do { h \<leftarrow> DeleteFromLeaf p a slot h; Some (True, h) }) }"

section \<open>ConstIterator\<close>

type_synonym const_iterator = "nat option \<times> nat"

definition Begin :: "('k, 'i) BTree \<Rightarrow> const_iterator" where "Begin h = (firstLeaf h, 0)"

definition AtEnd_it :: "const_iterator \<Rightarrow> bool" where "AtEnd_it it \<longleftrightarrow> fst it = None"

definition deref_it :: "('k, 'i) BTree \<Rightarrow> const_iterator \<Rightarrow> 'i option" where
  "deref_it h it = map_option (\<lambda>a. items h a ! snd it) (fst it)"

definition Advance_it :: "('k, 'i) BTree \<Rightarrow> const_iterator \<Rightarrow> const_iterator" where
  "Advance_it h it = (case it of (None, slot) \<Rightarrow> (None, slot)
     | (Some a, slot) \<Rightarrow> if slot + 1 \<ge> leaf_size h a then (next_leaf h a, 0) else (Some a, slot + 1))"

section \<open>Tester\<close>

record 'k Tester =
  isFirstLeaf :: bool
  prevLeaf :: "nat option"
  nextLeaf :: "nat option"
  currentKey :: 'k
  countedItems :: UINT_32
  countedLeaves :: UINT_32
  countedBranches :: UINT_32

definition Tester_new :: "('k, 'i) BTreeParams \<Rightarrow> 'k Tester" where
  "Tester_new p = \<lparr>isFirstLeaf = True, prevLeaf = None, nextLeaf = None, currentKey = empty_key p,
     countedItems = 0, countedLeaves = 0, countedBranches = 0\<rparr>"

text \<open>The loop over the keys of a leaf; the last key, when all are in order.\<close>

fun test_keys :: "('k, 'i) BTreeParams \<Rightarrow> 'k list \<Rightarrow> 'k \<Rightarrow> 'k option" where
  "test_keys p [] current = Some current"
| "test_keys p (leafKey # ks) current =
     (if Less p current leafKey \<or> (\<not> UNIQUE_KEYS p \<and> \<not> Less p leafKey current) then test_keys p ks leafKey else None)"

text \<open>\<open>None\<close> is a failed test.\<close>

definition TestLeaf :: "('k, 'i) BTreeParams \<Rightarrow> bool \<Rightarrow> nat \<Rightarrow> ('k, 'i) BTree \<Rightarrow> 'k Tester \<Rightarrow> 'k Tester option" where
  "TestLeaf p checkLeafTail a h t =
     (let t = t\<lparr>countedLeaves := countedLeaves t + 1\<rparr> in
      if parent_of h (LeafPtr a) \<noteq> None \<and> leaf_size h a < LEAF_CAPACITY p div 2 then None
      else if leaf_size h a = 0 \<or> level h (LeafPtr a) \<noteq> 0 then None
      else
        let t = t\<lparr>countedItems := countedItems t + of_nat (leaf_size h a)\<rparr>;
            ks = map (key_of p) (take (leaf_size h a) (items h a));
            ok = (if isFirstLeaf t then prev_leaf h a = None
                  else prev_leaf h a = prevLeaf t \<and> Some a = nextLeaf t);
            (ks, t) = (if isFirstLeaf t then (tl ks, t\<lparr>currentKey := hd ks, isFirstLeaf := False\<rparr>) else (ks, t));
            t = t\<lparr>prevLeaf := Some a, nextLeaf := next_leaf h a\<rparr>
        in if \<not> ok then None
           else (case test_keys p ks (currentKey t) of None \<Rightarrow> None
             | Some current \<Rightarrow>
                 if checkLeafTail \<and> (\<exists>x\<in>set (drop (leaf_size h a) (items h a)). x \<noteq> empty_item p) then None
                 else Some (t\<lparr>currentKey := current\<rparr>)))"

text \<open>The tests of a node and of the children of a branch from child \<open>i\<close> on; the node's own parent, slot and level are
  compared with what its parent expects.\<close>

datatype test_job = TestNode node_ptr "nat option" nat nat | TestChilds nat nat

partial_function (option) run_test :: "('k, 'i) BTreeParams \<Rightarrow> bool \<Rightarrow> bool \<Rightarrow> ('k, 'i) BTree \<Rightarrow> test_job \<Rightarrow> 'k Tester \<Rightarrow>
    'k Tester option option" where
  "run_test p checkLeafTail checkBranchTail h job t = (case job of
     TestNode n parent slot parentLevel \<Rightarrow>
       if parent_of h n \<noteq> parent \<or> (parent_of h n = None \<and> slot_of h n \<noteq> 0) \<or>
          (parent_of h n \<noteq> None \<and> slot_of h n \<noteq> slot) \<or> level h n + 1 \<noteq> parentLevel
       then Some None
       else (case n of
           Null \<Rightarrow> None
         | LeafPtr a \<Rightarrow> Some (TestLeaf p checkLeafTail a h t)
         | BranchPtr b \<Rightarrow>
             let t = t\<lparr>countedBranches := countedBranches t + 1\<rparr> in
             if (parent_of h n \<noteq> None \<and> branch_size h b < BRANCH_CAPACITY p div 2) \<or> level h n = 0 then Some None
             else run_test p checkLeafTail checkBranchTail h (TestChilds b 0) t)
   | TestChilds b i \<Rightarrow> do {
       r \<leftarrow> run_test p checkLeafTail checkBranchTail h (TestNode (childs h b ! i) (Some b) i (level h (BranchPtr b))) t;
       (case r of None \<Rightarrow> Some None
        | Some t \<Rightarrow>
            if i = 0 \<and> isFirstLeaf t then Some None
            else if i < branch_size h b then
              (if Less p (currentKey t) (keys h b ! i) \<or> Less p (keys h b ! i) (currentKey t) then Some None
               else run_test p checkLeafTail checkBranchTail h (TestChilds b (i + 1)) t)
            else if checkBranchTail \<and> (\<exists>k\<in>set (drop (branch_size h b) (keys h b)). k \<noteq> empty_key p) then Some None
            else Some (Some t)) })"

definition SelfTest :: "('k, 'i) BTreeParams \<Rightarrow> bool \<Rightarrow> bool \<Rightarrow> ('k, 'i) BTree \<Rightarrow> bool option" where
  "SelfTest p checkLeafTail checkBranchTail h =
     (if root h = Null then
        Some (firstLeaf h = None \<and> itemsCount h = 0 \<and> leavesCount h = 0 \<and> branchesCount h = 0)
      else
        map_option (\<lambda>r. case r of None \<Rightarrow> False
          | Some t \<Rightarrow> nextLeaf t = None \<and> countedItems t = itemsCount h \<and> countedLeaves t = leavesCount h \<and>
              countedBranches t = branchesCount h)
          (run_test p checkLeafTail checkBranchTail h (TestNode (root h) None 0 (level h (root h) + 1)) (Tester_new p)))"

section \<open>BTreeSet\<close>

definition BTREE_SET_DEFAULT_LEAF_CAPACITY :: nat where "BTREE_SET_DEFAULT_LEAF_CAPACITY = 128"
definition BTREE_SET_DEFAULT_BRANCH_CAPACITY :: nat where "BTREE_SET_DEFAULT_BRANCH_CAPACITY = 128"

definition BTreeSet_params :: "('k \<Rightarrow> 'k \<Rightarrow> bool) \<Rightarrow> 'k \<Rightarrow> nat \<Rightarrow> nat \<Rightarrow> ('k, 'k) BTreeParams" where
  "BTreeSet_params lt default_key leafCapacity branchCapacity =
     \<lparr>Less = lt, key_of = \<lambda>k. k, item_of = \<lambda>k. k, empty_item = default_key, empty_key = default_key, UNIQUE_KEYS = True,
      LEAF_CAPACITY = leafCapacity, BRANCH_CAPACITY = branchCapacity\<rparr>"

definition BTreeSet_Insert :: "('k, 'k) BTreeParams \<Rightarrow> 'k \<Rightarrow> ('k, 'k) BTree \<Rightarrow> (bool \<times> ('k, 'k) BTree) option" where
  "BTreeSet_Insert p x h = map_option (\<lambda>(h, ref, inserted). (inserted, h)) (BTree_Insert p x h)"

partial_function (option) for_each_loop :: "('k, 'i) BTree \<Rightarrow> ('i \<Rightarrow> 's \<Rightarrow> 's) \<Rightarrow> const_iterator \<Rightarrow> 's \<Rightarrow> 's option" where
  "for_each_loop h functor it s =
     (if AtEnd_it it then Some s
      else (case deref_it h it of None \<Rightarrow> None | Some x \<Rightarrow> for_each_loop h functor (Advance_it h it) (functor x s)))"

definition BTreeSet_ForEach :: "('k, 'k) BTree \<Rightarrow> ('k \<Rightarrow> 's \<Rightarrow> 's) \<Rightarrow> 's \<Rightarrow> 's option" where
  "BTreeSet_ForEach h functor s = for_each_loop h functor (Begin h) s"

text \<open>The partial functions compute.\<close>

declare InsertIntoNode.simps [code] FindInNode.simps [code] DeleteFromBranch.simps [code] run_test.simps [code]
  for_each_loop.simps [code]

end
