(* ===== verification/BTree_Shape.thy ===== *)
theory BTree_Shape
  imports BTree_Model "HOL-Library.Multiset"
begin

text \<open>
  The trees that the pointers of \<open>BTree_Model\<close> describe. A shape is the tree of the addresses of its nodes; what the
  nodes contain stays in the memory. A position in a tree is a context, the path from the position up to the
  root with the subtrees on both sides of it.
\<close>

section \<open>Shapes\<close>

datatype shape = SLeaf nat | SBranch nat "shape list"

fun ptr_of :: "shape \<Rightarrow> node_ptr" where
  "ptr_of (SLeaf a) = LeafPtr a"
| "ptr_of (SBranch b ts) = BranchPtr b"

fun leaves_of :: "shape \<Rightarrow> nat list" where
  "leaves_of (SLeaf a) = [a]"
| "leaves_of (SBranch b ts) = concat (map leaves_of ts)"

fun ptrs_of :: "shape \<Rightarrow> node_ptr list" where
  "ptrs_of (SLeaf a) = [LeafPtr a]"
| "ptrs_of (SBranch b ts) = BranchPtr b # concat (map ptrs_of ts)"

lemma ptr_of_in [simp]: "ptr_of t \<in> set (ptrs_of t)"
  by (cases t) auto

lemma leaves_ptrs: "a \<in> set (leaves_of t) \<longleftrightarrow> LeafPtr a \<in> set (ptrs_of t)"
  by (induction t) auto

text \<open>The separators of the leaves of a tree: one between any two neighbours.\<close>

fun weave :: "'k list list \<Rightarrow> 'k list \<Rightarrow> 'k list" where
  "weave [] ks = []"
| "weave [x] ks = x"
| "weave (x # y # xs) ks = x @ hd ks # weave (y # xs) (tl ks)"

fun seps :: "('k, 'i) BTree \<Rightarrow> shape \<Rightarrow> 'k list" where
  "seps h (SLeaf a) = []"
| "seps h (SBranch b ts) = weave (map (seps h) ts) (keys h b)"

fun weave_left :: "'k list list \<Rightarrow> 'k list \<Rightarrow> 'k list" where
  "weave_left [] ks = []"
| "weave_left (x # xs) ks = x @ hd ks # weave_left xs (tl ks)"

fun weave_right :: "'k list list \<Rightarrow> 'k list \<Rightarrow> 'k list" where
  "weave_right [] ks = []"
| "weave_right (x # xs) ks = hd ks # x @ weave_right xs (tl ks)"

lemma weave_Cons: "weave (x # xs) ks = x @ weave_right xs ks"
  by (induction xs arbitrary: x ks) auto

lemma weave_append: "weave (ls @ x # rs) ks = weave_left ls ks @ x @ weave_right rs (drop (length ls) ks)"
proof (induction ls arbitrary: ks)
  case (Cons l ls)
  then show ?case by (cases ls) (auto simp: drop_Suc weave_Cons)
qed (simp add: weave_Cons)

lemma weave_left_append: "weave_left (xs @ ys) ks = weave_left xs ks @ weave_left ys (drop (length xs) ks)"
  by (induction xs arbitrary: ks) (auto simp: drop_Suc)

lemma weave_right_append: "weave_right (xs @ ys) ks = weave_right xs ks @ weave_right ys (drop (length xs) ks)"
  by (induction xs arbitrary: ks) (auto simp: drop_Suc)

lemma weave_take:
  "length xs \<le> n \<Longrightarrow> n \<le> length ks \<Longrightarrow> weave_left xs (take n ks) = weave_left xs ks"
  "length xs \<le> n \<Longrightarrow> n \<le> length ks \<Longrightarrow> weave_right xs (take n ks) = weave_right xs ks"
  by (induction xs arbitrary: n ks; case_tac n; case_tac ks; auto)+

lemma length_weave_left: "length (weave_left xs ks) = length (concat xs) + length xs"
  by (induction xs arbitrary: ks) auto

lemma length_weave_right: "length (weave_right xs ks) = length (concat xs) + length xs"
  by (induction xs arbitrary: ks) auto

section \<open>Well-formed memory\<close>

text \<open>Every branch has the level its height says, the children in its array, one more of them than keys, and the back
  links of its children are right. Below the root a branch is at least half full.\<close>

fun big_branch :: "('k, 'i) BTreeParams \<Rightarrow> ('k, 'i) BTree \<Rightarrow> shape \<Rightarrow> bool" where
  "big_branch p h (SLeaf a) \<longleftrightarrow> True"
| "big_branch p h (SBranch b ts) \<longleftrightarrow> BRANCH_CAPACITY p div 2 \<le> branch_size h b"

definition linked :: "('k, 'i) BTree \<Rightarrow> nat \<Rightarrow> nat \<Rightarrow> node_ptr \<Rightarrow> bool" where
  "linked h b i q \<longleftrightarrow> parent_of h q = Some b \<and> slot_of h q = i"

definition branch_ok :: "('k, 'i) BTreeParams \<Rightarrow> ('k, 'i) BTree \<Rightarrow> nat \<Rightarrow> nat \<Rightarrow> node_ptr list \<Rightarrow> bool" where
  "branch_ok p h n b qs \<longleftrightarrow> level h (BranchPtr b) = Suc n \<and> 1 \<le> branch_size h b \<and> branch_size h b \<le> BRANCH_CAPACITY p \<and>
     length qs = Suc (branch_size h b) \<and> length (keys h b) = BRANCH_CAPACITY p \<and>
     length (childs h b) = Suc (BRANCH_CAPACITY p) \<and> take (length qs) (childs h b) = qs \<and>
     (\<forall>i<length qs. linked h b i (qs ! i))"

fun shape_ok :: "('k, 'i) BTreeParams \<Rightarrow> ('k, 'i) BTree \<Rightarrow> nat \<Rightarrow> shape \<Rightarrow> bool" where
  "shape_ok p h n (SLeaf a) \<longleftrightarrow> n = 0 \<and> level h (LeafPtr a) = 0"
| "shape_ok p h n (SBranch b ts) \<longleftrightarrow> n \<noteq> 0 \<and> branch_ok p h (n - 1) b (map ptr_of ts) \<and>
     (\<forall>t\<in>set ts. shape_ok p h (n - 1) t \<and> big_branch p h t)"

section \<open>Contexts\<close>

type_synonym frame = "nat \<times> shape list \<times> shape list"

fun plug :: "frame list \<Rightarrow> shape \<Rightarrow> shape" where
  "plug [] t = t"
| "plug ((b, ls, rs) # C) t = plug C (SBranch b (ls @ t # rs))"

fun leaves_left :: "frame list \<Rightarrow> nat list" where
  "leaves_left [] = []"
| "leaves_left ((b, ls, rs) # C) = leaves_left C @ concat (map leaves_of ls)"

fun leaves_right :: "frame list \<Rightarrow> nat list" where
  "leaves_right [] = []"
| "leaves_right ((b, ls, rs) # C) = concat (map leaves_of rs) @ leaves_right C"

fun seps_left :: "('k, 'i) BTree \<Rightarrow> frame list \<Rightarrow> 'k list" where
  "seps_left h [] = []"
| "seps_left h ((b, ls, rs) # C) = seps_left h C @ weave_left (map (seps h) ls) (keys h b)"

fun seps_right :: "('k, 'i) BTree \<Rightarrow> frame list \<Rightarrow> 'k list" where
  "seps_right h [] = []"
| "seps_right h ((b, ls, rs) # C) = weave_right (map (seps h) rs) (drop (length ls) (keys h b)) @ seps_right h C"

fun ptrs_around :: "frame list \<Rightarrow> node_ptr list" where
  "ptrs_around [] = []"
| "ptrs_around ((b, ls, rs) # C) = BranchPtr b # concat (map ptrs_of ls) @ concat (map ptrs_of rs) @ ptrs_around C"

lemma leaves_plug: "leaves_of (plug C t) = leaves_left C @ leaves_of t @ leaves_right C"
  by (induction C t rule: plug.induct) auto

lemma seps_plug: "seps h (plug C t) = seps_left h C @ seps h t @ seps_right h C"
  by (induction C t rule: plug.induct) (auto simp: weave_append)

lemma mset_ptrs_plug: "mset (ptrs_of (plug C t)) = mset (ptrs_around C) + mset (ptrs_of t)"
  by (induction C t rule: plug.induct) auto

lemma distinct_plug:
  "distinct (ptrs_of (plug C t)) \<longleftrightarrow> distinct (ptrs_around C @ ptrs_of t)"
  by (rule mset_eq_imp_distinct_iff) (simp add: mset_ptrs_plug)

lemma set_ptrs_plug: "set (ptrs_of (plug C t)) = set (ptrs_around C) \<union> set (ptrs_of t)"
  using mset_ptrs_plug [of C t] by (metis set_mset_mset set_mset_union)

text \<open>A context of a hole of height \<open>n\<close> that the node \<open>q\<close> fills, up to the root of the tree.\<close>

fun wf_around :: "('k, 'i) BTreeParams \<Rightarrow> ('k, 'i) BTree \<Rightarrow> nat \<Rightarrow> node_ptr \<Rightarrow> frame list \<Rightarrow> bool" where
  "wf_around p h n q [] \<longleftrightarrow> root h = q \<and> parent_of h q = None \<and> slot_of h q = 0"
| "wf_around p h n q ((b, ls, rs) # C) \<longleftrightarrow> branch_ok p h n b (map ptr_of ls @ q # map ptr_of rs) \<and>
     (\<forall>t\<in>set ls \<union> set rs. shape_ok p h n t \<and> big_branch p h t) \<and>
     (C \<noteq> [] \<longrightarrow> BRANCH_CAPACITY p div 2 \<le> branch_size h b) \<and> wf_around p h (Suc n) (BranchPtr b) C"

text \<open>The whole tree: well-formed, with distinct addresses below the next free ones.\<close>

definition fresh_below :: "('k, 'i) BTree \<Rightarrow> node_ptr \<Rightarrow> bool" where
  "fresh_below h q = (case q of Null \<Rightarrow> False | LeafPtr a \<Rightarrow> a < leaf_top h | BranchPtr b \<Rightarrow> b < branch_top h)"

definition tree_ok :: "('k, 'i) BTreeParams \<Rightarrow> ('k, 'i) BTree \<Rightarrow> nat \<Rightarrow> shape \<Rightarrow> bool" where
  "tree_ok p h n t \<longleftrightarrow> shape_ok p h n t \<and> wf_around p h n (ptr_of t) [] \<and> distinct (ptrs_of t) \<and>
     (\<forall>q\<in>set (ptrs_of t). fresh_below h q)"

lemma wf_plug:
  "shape_ok p h (n + length C) (plug C t) \<and> wf_around p h (n + length C) (ptr_of (plug C t)) [] \<longleftrightarrow>
     shape_ok p h n t \<and> (C \<noteq> [] \<longrightarrow> big_branch p h t) \<and> wf_around p h n (ptr_of t) C"
proof (induction C t arbitrary: n rule: plug.induct)
  case (2 b ls rs C t)
  show ?case using 2 [of "Suc n"] by (auto simp: branch_ok_def)
qed simp

lemma height_plug: "shape_ok p h n (plug C t) \<Longrightarrow> \<exists>m. n = m + length C \<and> shape_ok p h m t"
proof (induction C t rule: plug.induct)
  case (2 b ls rs C t)
  from "2.IH" [OF "2.prems" [unfolded plug.simps]] obtain m where "n = m + length C" "shape_ok p h m (SBranch b (ls @ t # rs))" by auto
  then show ?case by (intro exI [of _ "m - 1"]) auto
qed simp

lemma leaf_position:
  assumes "a \<in> set (leaves_of t)"
  shows "\<exists>C. t = plug C (SLeaf a)"
proof -
  have "\<exists>C'. plug C t = plug C' (SLeaf a)" for C
    using assms
  proof (induction t arbitrary: C)
    case (SBranch b ts)
    then obtain t where t: "t \<in> set ts" "a \<in> set (leaves_of t)" by auto
    then obtain ls rs where "ts = ls @ t # rs" by (meson split_list)
    then have "plug C (SBranch b ts) = plug ((b, ls, rs) # C) t" by simp
    then show ?case using SBranch.IH [OF t] by metis
  qed auto
  from this [of "[]"] show ?thesis by simp
qed

lemma leaves_of_nonempty: "shape_ok p h n t \<Longrightarrow> leaves_of t \<noteq> []"
proof (induction t arbitrary: n)
  case (SBranch b ts)
  then have "ts \<noteq> []" by (auto simp: branch_ok_def)
  then obtain t ts' where "ts = t # ts'" by (cases ts) auto
  then show ?case using SBranch by auto
qed simp

lemma length_seps: "shape_ok p h n t \<Longrightarrow> Suc (length (seps h t)) = length (leaves_of t)"
proof (induction t arbitrary: n)
  case (SBranch b ts)
  have len: "\<forall>t\<in>set ts. Suc (length (seps h t)) = length (leaves_of t)" using SBranch by auto
  have "length (concat (map (seps h) ts)) + length ts = length (concat (map leaves_of ts))"
    using len by (induction ts) auto
  moreover have "ts \<noteq> []" using SBranch.prems by (auto simp: branch_ok_def)
  ultimately show ?case by (cases ts) (auto simp: weave_Cons length_weave_right)
qed simp

end
