(* ===== verification/BTree_Frame.thy ===== *)
theory BTree_Frame
  imports BTree_Shape
begin

text \<open>
  What the predicates of \<open>BTree_Shape\<close> depend on, and the updates the tree makes of links and separators.
\<close>

section \<open>Congruences\<close>

definition same_nodes :: "('k, 'i) BTree \<Rightarrow> ('k, 'i) BTree \<Rightarrow> node_ptr set \<Rightarrow> bool" where
  "same_nodes h h' Q \<longleftrightarrow> (\<forall>q\<in>Q. level h' q = level h q) \<and>
     (\<forall>b. BranchPtr b \<in> Q \<longrightarrow> branch_size h' b = branch_size h b \<and> length (keys h' b) = length (keys h b) \<and>
        childs h' b = childs h b)"

definition same_links :: "('k, 'i) BTree \<Rightarrow> ('k, 'i) BTree \<Rightarrow> node_ptr set \<Rightarrow> bool" where
  "same_links h h' Q \<longleftrightarrow> (\<forall>q\<in>Q. parent_of h' q = parent_of h q \<and> slot_of h' q = slot_of h q)"

definition same_keys :: "('k, 'i) BTree \<Rightarrow> ('k, 'i) BTree \<Rightarrow> node_ptr set \<Rightarrow> bool" where
  "same_keys h h' Q \<longleftrightarrow> (\<forall>b. BranchPtr b \<in> Q \<longrightarrow> keys h' b = keys h b)"

lemma same_mono:
  "same_nodes h h' Q \<Longrightarrow> R \<subseteq> Q \<Longrightarrow> same_nodes h h' R"
  "same_links h h' Q \<Longrightarrow> R \<subseteq> Q \<Longrightarrow> same_links h h' R"
  "same_keys h h' Q \<Longrightarrow> R \<subseteq> Q \<Longrightarrow> same_keys h h' R"
  unfolding same_nodes_def same_links_def same_keys_def by blast+

fun subptrs_of :: "shape \<Rightarrow> node_ptr list" where
  "subptrs_of (SLeaf a) = []"
| "subptrs_of (SBranch b ts) = concat (map ptrs_of ts)"

lemma ptrs_of_sub: "ptrs_of t = ptr_of t # subptrs_of t"
  by (cases t) auto

lemma big_branch_cong: "same_nodes h h' (set (ptrs_of t)) \<Longrightarrow> big_branch p h' t \<longleftrightarrow> big_branch p h t"
  by (cases t) (auto simp: same_nodes_def)

lemma branch_ok_cong:
  assumes "same_nodes h h' {BranchPtr b}" "same_links h h' (set qs)"
  shows "branch_ok p h' n b qs \<longleftrightarrow> branch_ok p h n b qs"
  using assms by (auto simp: branch_ok_def same_nodes_def same_links_def linked_def)

lemma wf_cong:
  assumes "same_nodes h h' (set (ptrs_of t))" "same_links h h' (set (subptrs_of t))"
  shows "shape_ok p h' n t \<longleftrightarrow> shape_ok p h n t"
  using assms
proof (induction t arbitrary: n)
  case (SLeaf a)
  then show ?case by (simp add: same_nodes_def)
next
  case (SBranch b ts)
  have sub: "set (map ptr_of ts) \<subseteq> set (subptrs_of (SBranch b ts))" by auto
  have ch: "shape_ok p h' m t = shape_ok p h m t \<and> big_branch p h' t = big_branch p h t" if "t \<in> set ts" for t m
  proof -
    have n: "same_nodes h h' (set (ptrs_of t))" by (rule same_mono(1) [OF SBranch.prems(1)]) (use that in auto)
    have "same_links h h' (set (subptrs_of t))"
      by (rule same_mono(2) [OF SBranch.prems(2)]) (use that in \<open>auto simp: ptrs_of_sub\<close>)
    then show ?thesis using SBranch.IH [OF that n] big_branch_cong [OF n] by simp
  qed
  have "same_nodes h h' {BranchPtr b}" by (rule same_mono(1) [OF SBranch.prems(1)]) simp
  then show ?case
    using branch_ok_cong [OF _ same_mono(2) [OF SBranch.prems(2) sub]] ch by simp
qed

lemma wf_around_cong:
  assumes "same_nodes h h' (set (ptrs_around C))" "same_links h h' (insert q (set (ptrs_around C)))" "root h' = root h"
  shows "wf_around p h' n q C \<longleftrightarrow> wf_around p h n q C"
  using assms
proof (induction p h n q C rule: wf_around.induct)
  case (1 p h n q)
  then show ?case by (simp add: same_links_def)
next
  case (2 p h n q b ls rs C)
  let ?P = "set (ptrs_around ((b, ls, rs) # C))"
  have ch: "shape_ok p h' n t = shape_ok p h n t \<and> big_branch p h' t = big_branch p h t" if "t \<in> set ls \<union> set rs" for t
  proof -
    have n: "same_nodes h h' (set (ptrs_of t))" by (rule same_mono(1) [OF 2(2)]) (use that in auto)
    have "same_links h h' (set (subptrs_of t))"
      by (rule same_mono(2) [OF 2(3)]) (use that in \<open>auto simp: ptrs_of_sub\<close>)
    then show ?thesis using wf_cong [OF n] big_branch_cong [OF n] by simp
  qed
  have "set (map ptr_of ls @ q # map ptr_of rs) \<subseteq> insert q ?P" by auto
  then have links: "same_links h h' (set (map ptr_of ls @ q # map ptr_of rs))" by (rule same_mono(2) [OF 2(3)])
  have b: "same_nodes h h' {BranchPtr b}" by (rule same_mono(1) [OF 2(2)]) simp
  have "wf_around p h' (Suc n) (BranchPtr b) C = wf_around p h (Suc n) (BranchPtr b) C"
    by (rule "2.IH") (use 2 in \<open>auto intro: same_mono\<close>)
  moreover have "branch_size h' b = branch_size h b" using b by (simp add: same_nodes_def)
  ultimately show ?case using ch branch_ok_cong [OF b links] by simp
qed

lemma seps_cong: "same_keys h h' (set (ptrs_of t)) \<Longrightarrow> seps h' t = seps h t"
proof (induction t)
  case (SBranch b ts)
  have "map (seps h') ts = map (seps h) ts"
    using SBranch by (auto intro: same_mono)
  moreover have "keys h' b = keys h b" using SBranch.prems by (simp add: same_keys_def)
  ultimately show ?case by (simp del: map_eq_conv)
qed simp

lemma seps_around_cong:
  assumes "same_keys h h' (set (ptrs_around C))"
  shows "seps_left h' C = seps_left h C \<and> seps_right h' C = seps_right h C"
  using assms
proof (induction C)
  case (Cons f C)
  obtain b ls rs where f: "f = (b, ls, rs)" by (cases f) auto
  have "map (seps h') ts = map (seps h) ts" if "set ts \<subseteq> set ls \<union> set rs" for ts
    using that seps_cong [OF same_mono(3) [OF Cons.prems]] by (fastforce simp: f)
  then have "map (seps h') ls = map (seps h) ls" "map (seps h') rs = map (seps h) rs" by auto
  moreover have "keys h' b = keys h b" using Cons.prems by (simp add: same_keys_def f)
  moreover have "same_keys h h' (set (ptrs_around C))" by (rule same_mono(3) [OF Cons.prems]) (auto simp: f)
  ultimately show ?case using Cons.IH f by (simp del: map_eq_conv)
qed simp

section \<open>Links\<close>

lemma UpdateChildLink_fields:
  "childs (UpdateChildLink b i h) = childs h"
  by (simp add: UpdateChildLink_def SetParent_def)

text \<open>Linking the children of a range changes the links of these children only.\<close>

lemma UpdateChildrenLinks_props:
  assumes "distinct qs" "take (length qs) (childs h b) = qs" "hi < length qs" "length qs \<le> length (childs h b)"
    "UpdateChildrenLinks b lo hi h = h'"
  shows "(\<forall>i. lo \<le> i \<longrightarrow> i \<le> hi \<longrightarrow> linked h' b i (qs ! i)) \<and>
    same_links h h' (- {qs ! i | i. lo \<le> i \<and> i \<le> hi}) \<and>
    (\<exists>P S. h' = h\<lparr>parent_of := P, slot_of := S\<rparr>)"
proof -
  define f where "f m = fold (UpdateChildLink b) [lo..<m] h" for m
  have "m \<le> Suc hi \<Longrightarrow> (\<forall>i. lo \<le> i \<longrightarrow> i < m \<longrightarrow> linked (f m) b i (qs ! i)) \<and>
      same_links h (f m) (- {qs ! i | i. lo \<le> i \<and> i < m}) \<and> (\<exists>P S. f m = h\<lparr>parent_of := P, slot_of := S\<rparr>)" for m
  proof (induction m)
    case 0
    have "f 0 = h\<lparr>parent_of := parent_of h, slot_of := slot_of h\<rparr>" by (simp add: f_def)
    then have "\<exists>P S. f 0 = h\<lparr>parent_of := P, slot_of := S\<rparr>" by (intro exI)
    then show ?case by (simp add: f_def same_links_def)
  next
    case (Suc m)
    show ?case
    proof (cases "lo \<le> m")
      case True
      obtain P S where PS: "f m = h\<lparr>parent_of := P, slot_of := S\<rparr>" using Suc by auto
      have m: "m < length qs" using Suc.prems assms(3) by simp
      have "childs h b ! m = qs ! m" using assms(2) m by (metis nth_take)
      then have step: "f (Suc m) = SetParent (qs ! m) (Some b) m (f m)"
        using True by (simp add: f_def UpdateChildLink_def PS [unfolded f_def])
      have neq: "qs ! i \<noteq> qs ! m" if "i < m" for i
        using assms(1) m that by (simp add: nth_eq_iff_index_eq)
      have "linked (f (Suc m)) b i (qs ! i)" if "lo \<le> i" "i < Suc m" for i
        using that Suc neq [of i] unfolding step by (cases "i = m") (auto simp: linked_def SetParent_def)
      moreover have "same_links h (f (Suc m)) (- {qs ! i | i. lo \<le> i \<and> i < Suc m})"
        unfolding step same_links_def
      proof
        fix q assume q: "q \<in> - {qs ! i | i. lo \<le> i \<and> i < Suc m}"
        then have "q \<noteq> qs ! m" "q \<in> - {qs ! i | i. lo \<le> i \<and> i < m}" using True less_SucI by blast+
        then show "parent_of (SetParent (qs ! m) (Some b) m (f m)) q = parent_of h q \<and>
            slot_of (SetParent (qs ! m) (Some b) m (f m)) q = slot_of h q"
          using Suc unfolding same_links_def by (simp add: SetParent_def)
      qed
      moreover have "\<exists>P S. f (Suc m) = h\<lparr>parent_of := P, slot_of := S\<rparr>"
        unfolding step PS SetParent_def by (rule exI, rule exI [of _ "S(qs ! m := m)"]) simp
      ultimately show ?thesis by blast
    next
      case False
      then show ?thesis using Suc by (auto simp: f_def same_links_def less_Suc_eq)
    qed
  qed
  note this [of "Suc hi", unfolded less_Suc_eq_le]
  moreover have "f (Suc hi) = h'" using assms(5) by (simp add: UpdateChildrenLinks_def f_def del: upt_Suc)
  ultimately show ?thesis by simp
qed

lemma branch_ok_linked: "branch_ok p h n b (xs @ q # ys) \<Longrightarrow> linked h b (length xs) q"
  unfolding branch_ok_def by (elim conjE allE [of _ "length xs"]) simp

section \<open>Separators\<close>

lemma weave_left_update: "length xs \<le> n \<Longrightarrow> weave_left xs (ks[n := k]) = weave_left xs ks"
proof (induction xs arbitrary: ks n)
  case (Cons x xs)
  then obtain m where "n = Suc m" by (cases n) auto
  then show ?case using Cons by (cases ks) auto
qed simp

text \<open>\<open>UpdateKey\<close> at a child replaces the separator behind the child's leaves, wherever it is kept.\<close>

definition replace_first :: "'k \<Rightarrow> 'k list \<Rightarrow> 'k list" where
  "replace_first k xs = (case xs of [] \<Rightarrow> [] | _ # ys \<Rightarrow> k # ys)"

lemma replace_first_append: "xs \<noteq> [] \<Longrightarrow> replace_first k (xs @ ys) = replace_first k xs @ ys"
  by (cases xs) (auto simp: replace_first_def)

lemma replace_key:
  assumes "rs \<noteq> []" "length ls < length (keys h b)" "distinct (ptrs_around ((b, ls, rs) # C))"
    and ks_def: "ks = (keys h)(b := (keys h b)[length ls := key])"
  shows "(\<forall>c. length (ks c) = length (keys h c)) \<and>
    (\<forall>c. BranchPtr c \<notin> set (ptrs_around ((b, ls, rs) # C)) \<longrightarrow> ks c = keys h c) \<and>
    (\<forall>c. BranchPtr c \<in> set (concat (map ptrs_of ls @ map ptrs_of rs)) \<longrightarrow> ks c = keys h c) \<and>
    seps_left (h\<lparr>keys := ks\<rparr>) ((b, ls, rs) # C) = seps_left h ((b, ls, rs) # C) \<and>
    seps_right (h\<lparr>keys := ks\<rparr>) ((b, ls, rs) # C) = replace_first key (seps_right h ((b, ls, rs) # C))"
proof (intro conjI)
  let ?h = "h\<lparr>keys := ks\<rparr>"
  show "\<forall>c. length (ks c) = length (keys h c)" by (simp add: ks_def)
  show "\<forall>c. BranchPtr c \<notin> set (ptrs_around ((b, ls, rs) # C)) \<longrightarrow> ks c = keys h c"
    by (auto simp: ks_def)
  have b: "BranchPtr b \<notin> set (concat (map ptrs_of ls @ map ptrs_of rs))" "BranchPtr b \<notin> set (ptrs_around C)"
    using assms(3) by simp_all
  then show sub: "\<forall>c. BranchPtr c \<in> set (concat (map ptrs_of ls @ map ptrs_of rs)) \<longrightarrow> ks c = keys h c"
    by (metis fun_upd_other ks_def)
  have "map (seps ?h) ts = map (seps h) ts" if "set ts \<subseteq> set ls \<union> set rs" for ts
  proof (intro map_cong refl seps_cong)
    fix t assume "t \<in> set ts"
    then have "set (ptrs_of t) \<subseteq> set (concat (map ptrs_of ls @ map ptrs_of rs))" using that by auto
    then show "same_keys h ?h (set (ptrs_of t))" using sub by (simp add: same_keys_def subset_iff) blast
  qed
  then have s: "map (seps ?h) ls = map (seps h) ls" "map (seps ?h) rs = map (seps h) rs" by blast+
  have c: "seps_left ?h C = seps_left h C \<and> seps_right ?h C = seps_right h C"
    by (rule seps_around_cong) (use b in \<open>auto simp: same_keys_def ks_def\<close>)
  have kb: "keys ?h b = (keys h b)[length ls := key]" by (simp add: ks_def)
  show "seps_left ?h ((b, ls, rs) # C) = seps_left h ((b, ls, rs) # C)"
    unfolding seps_left.simps s kb using c by (simp add: weave_left_update)
  have d: "drop (length ls) ((keys h b)[length ls := key]) = key # drop (Suc (length ls)) (keys h b)"
    using assms(2) by (simp add: drop_update_swap Cons_nth_drop_Suc [symmetric])
  obtain r rs' where r: "rs = r # rs'" using assms(1) by (cases rs) auto
  show "seps_right ?h ((b, ls, rs) # C) = replace_first key (seps_right h ((b, ls, rs) # C))"
    unfolding seps_right.simps s kb d using c by (simp add: r replace_first_def drop_Suc tl_drop)
qed

lemma UpdateKey_seps:
  assumes "wf_around p h n q ((b, ls, rs) # C)" "distinct (ptrs_around ((b, ls, rs) # C))"
  shows "\<exists>ks. UpdateKey b (length ls) key h = Some (h\<lparr>keys := ks\<rparr>) \<and> (\<forall>c. length (ks c) = length (keys h c)) \<and>
    (\<forall>c. BranchPtr c \<notin> set (ptrs_around ((b, ls, rs) # C)) \<longrightarrow> ks c = keys h c) \<and>
    (\<forall>c. BranchPtr c \<in> set (concat (map ptrs_of ls @ map ptrs_of rs)) \<longrightarrow> ks c = keys h c) \<and>
    seps_left (h\<lparr>keys := ks\<rparr>) ((b, ls, rs) # C) = seps_left h ((b, ls, rs) # C) \<and>
    seps_right (h\<lparr>keys := ks\<rparr>) ((b, ls, rs) # C) = replace_first key (seps_right h ((b, ls, rs) # C))"
  using assms
proof (induction C arbitrary: n q b ls rs)
  case Nil
  have ok: "Suc (length ls + length rs) = Suc (branch_size h b)" "branch_size h b \<le> length (keys h b)"
    "parent_of h (BranchPtr b) = None"
    using Nil by (auto simp: branch_ok_def)
  show ?case
  proof (cases "rs = []")
    case True
    then have "UpdateKey b (length ls) key h = Some (h\<lparr>keys := keys h\<rparr>)"
      using ok by (simp add: UpdateKey.simps [of b])
    then show ?thesis using True by (intro exI [of _ "keys h"]) (simp add: replace_first_def)
  next
    case False
    then have "length ls < branch_size h b" using ok by (cases rs) auto
    then have u: "UpdateKey b (length ls) key h = Some (h\<lparr>keys := (keys h)(b := (keys h b)[length ls := key])\<rparr>)"
      by (simp add: UpdateKey.simps [of b])
    have "length ls < length (keys h b)" using \<open>length ls < branch_size h b\<close> ok by simp
    from replace_key [OF False this Nil.prems(2) refl] show ?thesis using u by blast
  qed
next
  case (Cons f C)
  obtain b' ls' rs' where f: "f = (b', ls', rs')" by (cases f) auto
  have ok: "Suc (length ls + length rs) = Suc (branch_size h b)" "branch_size h b \<le> length (keys h b)"
    using Cons.prems by (auto simp: branch_ok_def)
  have d: "distinct (ptrs_around ((b', ls', rs') # C))" using Cons.prems(2) f by auto
  show ?case
  proof (cases "rs = []")
    case True
    have w: "wf_around p h (Suc n) (BranchPtr b) ((b', ls', rs') # C)" using Cons.prems(1) f by simp
    then have "linked h b' (length ls') (BranchPtr b)"
      using branch_ok_linked [of p h "Suc n" b' "map ptr_of ls'" "BranchPtr b" "map ptr_of rs'"] by simp
    then have u: "UpdateKey b (length ls) key h = UpdateKey b' (length ls') key h"
      using ok True UpdateKey.simps [of b "length ls" key h] by (simp add: linked_def)
    obtain ks where ks: "UpdateKey b' (length ls') key h = Some (h\<lparr>keys := ks\<rparr>)" "\<forall>c. length (ks c) = length (keys h c)"
      "\<forall>c. BranchPtr c \<notin> set (ptrs_around (f # C)) \<longrightarrow> ks c = keys h c"
      "seps_left (h\<lparr>keys := ks\<rparr>) (f # C) = seps_left h (f # C)"
      "seps_right (h\<lparr>keys := ks\<rparr>) (f # C) = replace_first key (seps_right h (f # C))"
      using Cons.IH [OF w d] f by blast
    have out: "ks c = keys h c" if "BranchPtr c \<in> insert (BranchPtr b) (set (concat (map ptrs_of ls)))" for c
      using ks(3) that Cons.prems(2) by (simp add: True) blast
    have "map (seps (h\<lparr>keys := ks\<rparr>)) ls = map (seps h) ls"
      using out by (intro map_cong refl seps_cong) (fastforce simp: same_keys_def)
    then have l: "seps_left (h\<lparr>keys := ks\<rparr>) ((b, ls, rs) # f # C) = seps_left h ((b, ls, rs) # f # C)"
      using ks(4) out [of b] by (simp del: map_eq_conv seps_left.simps(2) add: seps_left.simps(2) [of _ b])
    have r: "seps_right (h\<lparr>keys := ks\<rparr>) ((b, ls, rs) # f # C) = replace_first key (seps_right h ((b, ls, rs) # f # C))"
      using ks(5) True by (simp del: seps_right.simps(2) add: seps_right.simps(2) [of _ b])
    have "BranchPtr c \<notin> set (ptrs_around ((b, ls, rs) # f # C)) \<Longrightarrow> ks c = keys h c" for c
      using ks(3) by simp
    then show ?thesis using u ks(1,2) l r out True by (intro exI [of _ ks]) simp
  next
    case False
    then have "length ls < branch_size h b" using ok by (cases rs) auto
    then have u: "UpdateKey b (length ls) key h = Some (h\<lparr>keys := (keys h)(b := (keys h b)[length ls := key])\<rparr>)"
      by (simp add: UpdateKey.simps [of b])
    have "length ls < length (keys h b)" using \<open>length ls < branch_size h b\<close> ok by simp
    from replace_key [OF False this Cons.prems(2) refl] show ?thesis using u by blast
  qed
qed

end
