(* ===== verification/BTree_Invariant.thy ===== *)
theory BTree_Invariant
  imports BTree_Frame
begin

text \<open>
  The invariant of the trees of \<open>BTree_Model\<close>: what the leaves hold, how they are chained, and what the separators say
  about them. It speaks of the sequence of leaves and of the sequence of separators only, so it survives
  every change of the branches that keeps these two.
\<close>

section \<open>The contract of the template parameters\<close>

definition params_ok :: "('k, 'i) BTreeParams \<Rightarrow> bool" where
  "params_ok p \<longleftrightarrow> strict_weak_order (Less p) \<and> (\<forall>k. key_of p (item_of p k) = k) \<and>
     2 \<le> LEAF_CAPACITY p \<and> 2 \<le> BRANCH_CAPACITY p"

abbreviation tree_order :: "('k, 'i) BTreeParams \<Rightarrow> 'k \<Rightarrow> 'k \<Rightarrow> bool" where
  "tree_order p \<equiv> key_order (UNIQUE_KEYS p) (Less p)"

section \<open>Leaves\<close>

definition content :: "('k, 'i) BTree \<Rightarrow> nat \<Rightarrow> 'i list" where
  "content h a = take (leaf_size h a) (items h a)"

definition contents :: "('k, 'i) BTree \<Rightarrow> nat list \<Rightarrow> 'i list" where
  "contents h L = concat (map (content h) L)"

lemma contents_simps [simp]:
  "contents h [] = []" "contents h (a # L) = content h a @ contents h L"
  "contents h (L @ M) = contents h L @ contents h M"
  by (simp_all add: contents_def)

lemma contents_cong: "(\<And>a. a \<in> set L \<Longrightarrow> content h' a = content h a) \<Longrightarrow> contents h' L = contents h L"
  unfolding contents_def by (metis map_cong)

definition leaf_ok :: "('k, 'i) BTreeParams \<Rightarrow> ('k, 'i) BTree \<Rightarrow> nat \<Rightarrow> bool" where
  "leaf_ok p h a \<longleftrightarrow> length (items h a) = LEAF_CAPACITY p \<and> 1 \<le> leaf_size h a \<and> leaf_size h a \<le> LEAF_CAPACITY p"

lemma length_content: "leaf_ok p h a \<Longrightarrow> length (content h a) = leaf_size h a"
  by (simp add: leaf_ok_def content_def)

lemma content_nonempty: "leaf_ok p h a \<Longrightarrow> content h a \<noteq> []"
  using length_content [of p h a] by (auto simp: leaf_ok_def)

lemma GetMaxKey_content: "leaf_ok p h a \<Longrightarrow> Leaf_GetMaxKey p a h = key_of p (last (content h a))"
  using content_nonempty [of p h a]
  by (simp add: Leaf_GetMaxKey_def Leaf_GetKey_def last_conv_nth length_content) (simp add: content_def leaf_ok_def)

text \<open>The doubly linked list of the leaves, between a predecessor and a successor.\<close>

fun chain :: "('k, 'i) BTree \<Rightarrow> nat option \<Rightarrow> nat list \<Rightarrow> nat option \<Rightarrow> bool" where
  "chain h pr [] nx \<longleftrightarrow> True"
| "chain h pr (a # L) nx \<longleftrightarrow> prev_leaf h a = pr \<and> next_leaf h a = (if L = [] then nx else Some (hd L)) \<and>
     chain h (Some a) L nx"

lemma chain_append: "chain h pr (A @ B) nx \<longleftrightarrow>
    chain h pr A (if B = [] then nx else Some (hd B)) \<and> chain h (if A = [] then pr else Some (last A)) B nx"
proof (induction A arbitrary: pr)
  case (Cons a A)
  then show ?case by (cases A) auto
qed simp

lemma chain_cong:
  "(\<And>a. a \<in> set L \<Longrightarrow> prev_leaf h' a = prev_leaf h a \<and> next_leaf h' a = next_leaf h a) \<Longrightarrow>
     chain h' pr L nx = chain h pr L nx"
  by (induction L arbitrary: pr) auto

section \<open>The invariant of the sequence\<close>

definition seq_inv :: "('k, 'i) BTreeParams \<Rightarrow> ('k, 'i) BTree \<Rightarrow> nat list \<Rightarrow> 'k list \<Rightarrow> bool" where
  "seq_inv p h L K \<longleftrightarrow> L \<noteq> [] \<and> (\<forall>a\<in>set L. leaf_ok p h a) \<and> chain h None L None \<and> firstLeaf h = Some (hd L) \<and>
     leavesCount h = of_nat (length L) \<and> K = map (\<lambda>a. key_of p (last (content h a))) (butlast L) \<and>
     sorted_wrt (tree_order p) (map (key_of p) (contents h L)) \<and>
     (2 \<le> length L \<longrightarrow> (\<forall>a\<in>set L. LEAF_CAPACITY p div 2 \<le> leaf_size h a))"

text \<open>The invariant reads these fields of the leaves and no others.\<close>

lemma seq_inv_cong:
  assumes "\<And>a. a \<in> set L \<Longrightarrow> items h' a = items h a \<and> leaf_size h' a = leaf_size h a \<and>
      next_leaf h' a = next_leaf h a \<and> prev_leaf h' a = prev_leaf h a"
    "firstLeaf h' = firstLeaf h" "leavesCount h' = leavesCount h"
  shows "seq_inv p h' L K \<longleftrightarrow> seq_inv p h L K"
proof -
  have c: "content h' a = content h a" "leaf_ok p h' a = leaf_ok p h a" if "a \<in> set L" for a
    using assms(1) [OF that] by (simp_all add: content_def leaf_ok_def)
  moreover have "map (\<lambda>a. key_of p (last (content h' a))) (butlast L) = map (\<lambda>a. key_of p (last (content h a))) (butlast L)"
    using c(1) in_set_butlastD by (metis (no_types, lifting) map_eq_conv)
  moreover have "chain h' None L None = chain h None L None" by (rule chain_cong) (use assms(1) in auto)
  moreover have "contents h' L = contents h L" by (rule contents_cong) (use c in auto)
  ultimately show ?thesis using assms unfolding seq_inv_def by auto
qed

section \<open>Positions\<close>

lemma length_seps_around:
  "wf_around p h n q C \<Longrightarrow> length (seps_left h C) = length (leaves_left C) \<and> length (seps_right h C) = length (leaves_right C)"
proof (induction p h n q C rule: wf_around.induct)
  case (2 p h n q b ls rs C)
  have len: "length (concat (map (seps h) ts)) + length ts = length (concat (map leaves_of ts))"
    if "set ts \<subseteq> set ls \<union> set rs" for ts
    using that 2(2)
  proof (induction ts)
    case (Cons t ts)
    then have "shape_ok p h n t" by auto
    then show ?case using Cons length_seps [of p h n t] by auto
  qed simp
  show ?case using 2 len [of ls] len [of rs] by (simp add: length_weave_left length_weave_right)
qed simp

lemma tree_ok_plug:
  "tree_ok p h N (plug C t) \<longleftrightarrow> (\<exists>n. N = n + length C \<and> shape_ok p h n t \<and> (C \<noteq> [] \<longrightarrow> big_branch p h t) \<and>
     wf_around p h n (ptr_of t) C \<and> distinct (ptrs_around C @ ptrs_of t) \<and>
     (\<forall>q\<in>set (ptrs_around C) \<union> set (ptrs_of t). fresh_below h q))"
proof
  assume ok: "tree_ok p h N (plug C t)"
  then obtain n where n: "N = n + length C" "shape_ok p h n t" using height_plug by (force simp: tree_ok_def)
  then show "\<exists>n. N = n + length C \<and> shape_ok p h n t \<and> (C \<noteq> [] \<longrightarrow> big_branch p h t) \<and>
     wf_around p h n (ptr_of t) C \<and> distinct (ptrs_around C @ ptrs_of t) \<and>
     (\<forall>q\<in>set (ptrs_around C) \<union> set (ptrs_of t). fresh_below h q)"
    using ok wf_plug [of p h n C t] unfolding tree_ok_def distinct_plug set_ptrs_plug by blast
next
  assume "\<exists>n. N = n + length C \<and> shape_ok p h n t \<and> (C \<noteq> [] \<longrightarrow> big_branch p h t) \<and>
     wf_around p h n (ptr_of t) C \<and> distinct (ptrs_around C @ ptrs_of t) \<and>
     (\<forall>q\<in>set (ptrs_around C) \<union> set (ptrs_of t). fresh_below h q)"
  then show "tree_ok p h N (plug C t)"
    using wf_plug unfolding tree_ok_def distinct_plug set_ptrs_plug by blast
qed

lemma tree_ok_cong:
  assumes "same_nodes h h' (set (ptrs_of T))" "same_links h h' (set (ptrs_of T))" "root h' = root h"
    "leaf_top h \<le> leaf_top h'" "branch_top h \<le> branch_top h'" "tree_ok p h n T"
  shows "tree_ok p h' n T"
proof -
  have "shape_ok p h' n T = shape_ok p h n T"
    by (rule wf_cong [OF assms(1) same_mono(2) [OF assms(2)]]) (auto simp: ptrs_of_sub)
  moreover have "wf_around p h' n (ptr_of T) [] = wf_around p h n (ptr_of T) []"
    using assms(2,3) by (simp add: same_links_def)
  moreover have "fresh_below h q \<Longrightarrow> fresh_below h' q" for q
    using assms(4,5) by (auto simp: fresh_below_def split: node_ptr.splits)
  ultimately show ?thesis using assms(6) unfolding tree_ok_def by blast
qed

lemma leaf_at_position:
  assumes "distinct (leaves_of T)" "leaves_of T = LA @ a # LB"
  shows "\<exists>C. T = plug C (SLeaf a) \<and> leaves_left C = LA \<and> leaves_right C = LB"
proof -
  obtain C where C: "T = plug C (SLeaf a)" using leaf_position [of a T] assms(2) by auto
  then have "leaves_left C @ a # leaves_right C = LA @ a # LB" using leaves_plug [of C "SLeaf a"] assms(2) by simp
  then show ?thesis using C assms by (metis append_Cons_eq_iff distinct_append not_distinct_conv_prefix list.set_intros(1) disjoint_iff distinct.simps(2))
qed

lemma distinct_leaves: "distinct (ptrs_of T) \<Longrightarrow> distinct (leaves_of T)"
proof (induction T)
  case (SBranch b ts)
  then have "distinct (concat (map ptrs_of ts))" by simp
  then show ?case using SBranch.IH
  proof (induction ts)
    case (Cons t ts)
    then show ?case by (simp add: leaves_ptrs disjoint_iff)
  qed simp
qed simp

text \<open>The separator behind a leaf is what \<open>UpdateKey\<close> at its parent changes.\<close>

lemma UpdateParentKey_seps:
  assumes "tree_ok p h n T" "leaves_of T = LA @ a # LB" "LA @ LB \<noteq> []"
  shows "\<exists>ks. UpdateParentKey (LeafPtr a) key h = Some (h\<lparr>keys := ks\<rparr>) \<and> tree_ok p (h\<lparr>keys := ks\<rparr>) n T \<and>
    seps (h\<lparr>keys := ks\<rparr>) T = (seps h T)[length LA := key]"
proof -
  obtain C where C: "T = plug C (SLeaf a)" "leaves_left C = LA" "leaves_right C = LB"
    using leaf_at_position [OF distinct_leaves assms(2)] assms(1) by (auto simp: tree_ok_def)
  then obtain b ls rs C' where C': "C = (b, ls, rs) # C'" using assms(2,3) by (cases C) auto
  obtain m where m: "wf_around p h m (LeafPtr a) C" "distinct (ptrs_around C)"
    using assms(1) unfolding C(1) tree_ok_plug by auto
  have "linked h b (length ls) (LeafPtr a)"
    using m(1) branch_ok_linked [of p h m b "map ptr_of ls" "LeafPtr a" "map ptr_of rs"] by (simp add: C')
  then have u: "UpdateParentKey (LeafPtr a) key h = UpdateKey b (length ls) key h"
    by (simp add: UpdateParentKey_def linked_def)
  from UpdateKey_seps [OF m [unfolded C'], of key, folded C'] obtain ks where
    ks: "UpdateKey b (length ls) key h = Some (h\<lparr>keys := ks\<rparr>)" "\<forall>c. length (ks c) = length (keys h c)"
    "seps_left (h\<lparr>keys := ks\<rparr>) C = seps_left h C" "seps_right (h\<lparr>keys := ks\<rparr>) C = replace_first key (seps_right h C)"
    by blast
  have "tree_ok p (h\<lparr>keys := ks\<rparr>) n T"
    by (rule tree_ok_cong [OF _ _ _ _ _ assms(1)]) (use ks(2) in \<open>auto simp: same_nodes_def same_links_def\<close>)
  moreover have "(xs @ ys)[length xs := key] = xs @ replace_first key ys" for xs ys
    by (cases ys) (auto simp: replace_first_def list_update_beyond)
  ultimately show ?thesis
    using u ks length_seps_around [OF m(1)] C(2) by (metis (no_types, lifting) C(1) append_Nil seps.simps(1) seps_plug)
qed

end
