(* ===== verification/BTree_Leaves.thy ===== *)
theory BTree_Leaves
  imports BTree_Invariant
begin

text \<open>
  Insertion into the sequence of leaves: the place the search finds, the three ways to make room there (in the
  leaf, by sharing with a neighbour, by a new leaf) and the invariant after each.
\<close>

locale btree =
  fixes p :: "('k, 'i) BTreeParams"
  assumes params: "params_ok p"
begin

lemma weak_order: "strict_weak_order (Less p)" and key_of_item [simp]: "key_of p (item_of p k) = k"
  and leaf_capacity: "2 \<le> LEAF_CAPACITY p" and branch_capacity: "2 \<le> BRANCH_CAPACITY p"
  using params by (auto simp: params_ok_def)

end

sublocale btree \<subseteq> comparator "Less p"
  by unfold_locales (rule weak_order)

context btree
begin

section \<open>The place of a key\<close>

lemma last_insert_at: "i < length xs \<Longrightarrow> last (insert_at i x xs) = last xs"
  by (simp add: insert_at_def last_drop)

lemma sorted_last:
  assumes "sorted_wrt (tree_order p) (map (key_of p) ys)" "y \<in> set ys"
  shows "key_of p y = key_of p (last ys) \<or> tree_order p (key_of p y) (key_of p (last ys))"
proof -
  obtain zs z where ys: "ys = zs @ [z]" using assms(2) by (cases ys rule: rev_cases) auto
  then show ?thesis using assms by (auto simp: sorted_wrt_append)
qed

lemma sorted_insert_at:
  assumes "sorted_wrt (tree_order p) (map (key_of p) (XA @ c @ XB))" "i \<le> length c"
    "\<And>y. y \<in> set XA \<union> set (take i c) \<Longrightarrow> tree_order p (key_of p y) (key_of p x)"
    "\<And>y. y \<in> set (drop i c) \<union> set XB \<Longrightarrow> tree_order p (key_of p x) (key_of p y)"
  shows "sorted_wrt (tree_order p) (map (key_of p) (XA @ insert_at i x c @ XB))"
proof -
  have "XA @ c @ XB = (XA @ take i c) @ (drop i c @ XB)" by simp
  then have s: "sorted_wrt (tree_order p) (map (key_of p) ((XA @ take i c) @ (drop i c @ XB)))" using assms(1) by (simp only:)
  have "XA @ insert_at i x c @ XB = (XA @ take i c) @ x # (drop i c @ XB)" by (simp add: insert_at_def)
  then show ?thesis using s assms(3,4) by (simp only: map_append list.map sorted_wrt_append sorted_wrt.simps set_append set_map) auto
qed

lemma leaf_search:
  assumes inv: "seq_inv p h (LA @ a # LB) (KA @ KB)" and len: "length KA = length LA"
    and left: "\<And>k. k \<in> set KA \<Longrightarrow> tree_order p k key" and right: "\<And>k. k \<in> set KB \<Longrightarrow> \<not> Less p k key"
    and find: "Leaf_FindSlot p a key h = (slot, found)"
  shows "slot \<le> leaf_size h a \<and> (LB \<noteq> [] \<longrightarrow> slot < leaf_size h a) \<and>
    (found \<longrightarrow> slot < leaf_size h a \<and> \<not> Less p key (key_of p (items h a ! slot)) \<and> \<not> Less p (key_of p (items h a ! slot)) key) \<and>
    (\<not> (found \<and> UNIQUE_KEYS p) \<longrightarrow>
       sorted_wrt (tree_order p) (map (key_of p)
         (contents h LA @ insert_at slot (item_of p key) (content h a) @ contents h LB)))"
proof -
  let ?c = "content h a"
  have ok: "leaf_ok p h a" "\<forall>b\<in>set LA. leaf_ok p h b"
    and sorted: "sorted_wrt (tree_order p) (map (key_of p) (contents h LA @ ?c @ contents h LB))"
    using inv by (auto simp: seq_inv_def)
  have K: "KA @ KB = map (\<lambda>a. key_of p (last (content h a))) (LA @ butlast (a # LB))"
    using inv by (simp add: seq_inv_def butlast_append)
  then have KA: "KA = map (\<lambda>a. key_of p (last (content h a))) LA"
    and KB: "KB = map (\<lambda>a. key_of p (last (content h a))) (butlast (a # LB))"
    using len by simp_all
  have n: "leaf_size h a \<le> length (items h a)" using ok by (simp add: leaf_ok_def)
  have c_sorted: "sorted_wrt (tree_order p) (map (key_of p) ?c)" using sorted by (simp add: sorted_wrt_append)
  have nth: "items h a ! i = ?c ! i" if "i < leaf_size h a" for i using that by (simp add: content_def)
  have res: "search_result (UNIQUE_KEYS p) (key_of p) key (items h a) (leaf_size h a) (slot, found)"
    using BinarySearch_correct [of "UNIQUE_KEYS p" "key_of p" "leaf_size h a" "items h a" key] c_sorted n find
    by (simp add: Leaf_FindSlot_def content_def)
  note res = res [unfolded search_result_def, simplified]
  have lenc: "length ?c = leaf_size h a" by (rule length_content [OF ok(1)])
  have last: "items h a ! (leaf_size h a - 1) = last ?c"
    using content_nonempty [OF ok(1)] lenc nth [of "leaf_size h a - 1"] ok(1) by (simp add: last_conv_nth leaf_ok_def)
  have "slot < leaf_size h a" if "LB \<noteq> []"
  proof (rule ccontr)
    assume "\<not> slot < leaf_size h a"
    then have "slot = leaf_size h a" "\<not> found" using res by (auto split: if_splits)
    moreover have "leaf_size h a - 1 < leaf_size h a" using ok by (simp add: leaf_ok_def)
    ultimately have "Less p (key_of p (last ?c)) key" using res last by (metis (full_types))
    moreover have "\<not> Less p (key_of p (last ?c)) key" using right KB that by simp
    ultimately show False by blast
  qed
  moreover have "sorted_wrt (tree_order p) (map (key_of p) (contents h LA @ insert_at slot (item_of p key) ?c @ contents h LB))"
    if "\<not> (found \<and> UNIQUE_KEYS p)"
  proof (rule sorted_insert_at [OF sorted])
    show "slot \<le> length ?c" using res lenc by simp
    fix y assume y: "y \<in> set (contents h LA) \<union> set (take slot ?c)"
    have "\<exists>i < slot. y = ?c ! i" if "y \<in> set (take slot ?c)" using that lenc res by (auto simp: in_set_conv_nth)
    then consider b where "b \<in> set LA" "y \<in> set (content h b)" | i where "i < slot" "y = ?c ! i"
      using y by (auto simp: contents_def)
    then show "tree_order p (key_of p y) (key_of p (item_of p key))"
    proof cases
      case 1
      have "sorted_wrt (tree_order p) (map (key_of p) (content h b))"
        using sorted 1(1) by (auto simp: sorted_wrt_append contents_def dest!: split_list)
      moreover have "tree_order p (key_of p (last (content h b))) key" using left KA 1(1) by simp
      ultimately show ?thesis using sorted_last 1(2) order_trans by fastforce
    next
      case 2
      then have "items h a ! i = y" using nth [of i] res by simp
      then show ?thesis using res 2(1) by auto
    qed
  next
    fix y assume y: "y \<in> set (drop slot ?c) \<union> set (contents h LB)"
    have "\<exists>i\<ge>slot. i < leaf_size h a \<and> y = ?c ! i" if yd: "y \<in> set (drop slot ?c)"
    proof -
      obtain j where "j < length ?c - slot" "y = drop slot ?c ! j" using yd by (auto simp: in_set_conv_nth)
      then show ?thesis using lenc by (intro exI [of _ "slot + j"]) auto
    qed
    then consider i where "slot \<le> i" "i < leaf_size h a" "y = ?c ! i" | "LB \<noteq> []" "y \<in> set (contents h LB)"
      using y by fastforce
    then show "tree_order p (key_of p (item_of p key)) (key_of p y)"
    proof cases
      case 1
      then show ?thesis using res nth [of i] that order_less by (auto simp: key_order_def split: if_splits)
    next
      case 2
      have "\<not> Less p (key_of p (last ?c)) key" using right KB 2(1) by simp
      moreover have "tree_order p (key_of p (last ?c)) (key_of p y)"
        using sorted 2 content_nonempty [OF ok(1)] by (auto simp: sorted_wrt_append)
      ultimately show ?thesis using le_order by simp
    qed
  qed
  ultimately show ?thesis using res by (auto split: if_splits)
qed

section \<open>Room in the leaf\<close>

text \<open>The fields that the operations on leaves leave alone.\<close>

definition same_chain :: "('k, 'i) BTree \<Rightarrow> ('k, 'i) BTree \<Rightarrow> bool" where
  "same_chain h h' \<longleftrightarrow> next_leaf h' = next_leaf h \<and> prev_leaf h' = prev_leaf h \<and> firstLeaf h' = firstLeaf h \<and>
     leavesCount h' = leavesCount h"

lemma seq_inv_one:
  assumes inv: "seq_inv p h (LA @ a # LB) K" and same: "same_chain h h'"
    and other: "\<And>b. b \<in> set LA \<union> set LB \<Longrightarrow> items h' b = items h b \<and> leaf_size h' b = leaf_size h b"
    and a: "leaf_ok p h' a" "leaf_size h a \<le> leaf_size h' a" "content h' a = insert_at i x (content h a)"
      "i \<le> leaf_size h a" "LB \<noteq> [] \<Longrightarrow> i < leaf_size h a"
    and sorted: "sorted_wrt (tree_order p) (map (key_of p) (contents h LA @ insert_at i x (content h a) @ contents h LB))"
  shows "seq_inv p h' (LA @ a # LB) K"
proof -
  have c: "content h' b = content h b" "leaf_ok p h' b = leaf_ok p h b" if "b \<in> set LA \<union> set LB" for b
    using other [OF that] by (simp_all add: content_def leaf_ok_def)
  have "last (content h' a) = last (content h a)" if "LB \<noteq> []"
    using a(3) a(5) [OF that] inv length_content [of p h a] by (auto simp: seq_inv_def insert_at_def last_drop)
  then have K: "map (\<lambda>b. key_of p (last (content h' b))) (butlast (LA @ a # LB)) =
      map (\<lambda>b. key_of p (last (content h b))) (butlast (LA @ a # LB))"
    using c(1) by (auto simp: butlast_append dest: in_set_butlastD)
  have "chain h' None (LA @ a # LB) None = chain h None (LA @ a # LB) None"
    by (rule chain_cong) (use same in \<open>simp add: same_chain_def\<close>)
  moreover have "contents h' (LA @ a # LB) = contents h LA @ insert_at i x (content h a) @ contents h LB"
    using a(3) contents_cong [of LA h' h] contents_cong [of LB h' h] c(1) by simp
  moreover have "2 \<le> length (LA @ a # LB) \<Longrightarrow> \<forall>b\<in>set (LA @ a # LB). LEAF_CAPACITY p div 2 \<le> leaf_size h' b"
    using inv a(2) other by (fastforce simp: seq_inv_def)
  ultimately show ?thesis
    using inv same a(1) c(2) sorted K unfolding seq_inv_def same_chain_def by auto
qed

section \<open>Sharing with a neighbour\<close>

lemma seq_inv_two:
  assumes inv: "seq_inv p h (LA @ a # b # LB) K" and same: "same_chain h h'" and "a \<noteq> b" 
    and other: "\<And>c. c \<in> set LA \<union> set LB \<Longrightarrow> items h' c = items h c \<and> leaf_size h' c = leaf_size h c"
    and ok: "leaf_ok p h' a" "leaf_ok p h' b" "LEAF_CAPACITY p div 2 \<le> leaf_size h' a" "LEAF_CAPACITY p div 2 \<le> leaf_size h' b"
    and ab: "content h' a @ content h' b = insert_at i x (content h a @ content h b)"
    and i: "i \<le> length (content h a @ content h b)" "LB \<noteq> [] \<Longrightarrow> i < length (content h a @ content h b)"
    and sorted: "sorted_wrt (tree_order p) (map (key_of p) (contents h LA @ insert_at i x (content h a @ content h b) @ contents h LB))"
  shows "seq_inv p h' (LA @ a # b # LB) (K[length LA := key_of p (last (content h' a))])"
proof -
  have c: "content h' d = content h d" "leaf_ok p h' d = leaf_ok p h d" if "d \<in> set LA \<union> set LB" for d
    using other [OF that] by (simp_all add: content_def leaf_ok_def)
  have ne: "content h' b \<noteq> []" "content h b \<noteq> []" using ok inv content_nonempty by (auto simp: seq_inv_def)
  have "last (content h' b) = last (content h b)" if "LB \<noteq> []"
  proof -
    have "last (content h' b) = last (content h' a @ content h' b)" using ne by simp
    also have "\<dots> = last (content h a @ content h b)"
      unfolding ab by (rule last_insert_at [OF i(2) [OF that]])
    finally show ?thesis using ne by simp
  qed
  then have "map (\<lambda>d. key_of p (last (content h' d))) (butlast (b # LB)) =
      map (\<lambda>d. key_of p (last (content h d))) (butlast (b # LB))"
    using c(1) by (auto dest: in_set_butlastD)
  moreover have "map (\<lambda>d. key_of p (last (content h' d))) LA = map (\<lambda>d. key_of p (last (content h d))) LA"
    using c(1) by auto
  moreover have bl: "butlast (LA @ a # b # LB) = LA @ a # butlast (b # LB)" by (simp add: butlast_append)
  have "K = map (\<lambda>d. key_of p (last (content h d))) LA @ key_of p (last (content h a)) #
      map (\<lambda>d. key_of p (last (content h d))) (butlast (b # LB))"
    using inv unfolding seq_inv_def bl by simp
  then have "K[length LA := key_of p (last (content h' a))] = map (\<lambda>d. key_of p (last (content h d))) LA @
      key_of p (last (content h' a)) # map (\<lambda>d. key_of p (last (content h d))) (butlast (b # LB))"
    by (simp add: list_update_append)
  ultimately have K: "K[length LA := key_of p (last (content h' a))] =
      map (\<lambda>d. key_of p (last (content h' d))) (butlast (LA @ a # b # LB))"
    unfolding bl by (simp only: map_append list.map)
  have "chain h' None (LA @ a # b # LB) None = chain h None (LA @ a # b # LB) None"
    by (rule chain_cong) (use same in \<open>simp add: same_chain_def\<close>)
  moreover have "contents h' (LA @ a # b # LB) = contents h LA @ insert_at i x (content h a @ content h b) @ contents h LB"
    using ab contents_cong [of LA h' h] contents_cong [of LB h' h] c(1) by simp
  moreover have "\<forall>d\<in>set (LA @ a # b # LB). LEAF_CAPACITY p div 2 \<le> leaf_size h' d"
    using inv ok other by (fastforce simp: seq_inv_def)
  ultimately show ?thesis
    unfolding K using inv same ok c(2) sorted unfolding seq_inv_def same_chain_def by auto
qed

section \<open>A new leaf\<close>

lemma seq_inv_new:
  assumes inv: "seq_inv p h (LA @ a # LB) (KA @ KB)" and len: "length KA = length LA"
    and chain': "chain h' None (LA @ a # b # LB) None" "firstLeaf h' = firstLeaf h" "leavesCount h' = leavesCount h + 1"
    and other: "\<And>c. c \<in> set LA \<union> set LB \<Longrightarrow> items h' c = items h c \<and> leaf_size h' c = leaf_size h c"
    and ok: "leaf_ok p h' a" "leaf_ok p h' b" "LEAF_CAPACITY p div 2 \<le> leaf_size h' a" "LEAF_CAPACITY p div 2 \<le> leaf_size h' b"
    and ab: "content h' a @ content h' b = insert_at i x (content h a)"
    and i: "i \<le> length (content h a)" "LB \<noteq> [] \<Longrightarrow> i < length (content h a)"
    and sorted: "sorted_wrt (tree_order p) (map (key_of p) (contents h LA @ insert_at i x (content h a) @ contents h LB))"
  shows "seq_inv p h' (LA @ a # b # LB) (KA @ key_of p (last (content h' a)) # KB)"
proof -
  have c: "content h' d = content h d" "leaf_ok p h' d = leaf_ok p h d" if "d \<in> set LA \<union> set LB" for d
    using other [OF that] by (simp_all add: content_def leaf_ok_def)
  have ne: "content h' b \<noteq> []" using ok content_nonempty by auto
  have "last (content h' b) = last (content h a)" if "LB \<noteq> []"
  proof -
    have "last (content h' b) = last (content h' a @ content h' b)" using ne by simp
    also have "\<dots> = last (content h a)"
      unfolding ab by (rule last_insert_at [OF i(2) [OF that]])
    finally show ?thesis .
  qed
  then have "map (\<lambda>d. key_of p (last (content h' d))) (butlast (b # LB)) =
      map (\<lambda>d. key_of p (last (content h d))) (butlast (a # LB))"
    using c(1) by (auto dest: in_set_butlastD)
  moreover have "map (\<lambda>d. key_of p (last (content h' d))) LA = map (\<lambda>d. key_of p (last (content h d))) LA"
    using c(1) by auto
  moreover have "KA @ KB = map (\<lambda>d. key_of p (last (content h d))) LA @
      map (\<lambda>d. key_of p (last (content h d))) (butlast (a # LB))"
    using inv by (simp add: seq_inv_def butlast_append)
  then have "KA = map (\<lambda>d. key_of p (last (content h d))) LA"
    "KB = map (\<lambda>d. key_of p (last (content h d))) (butlast (a # LB))"
    using len by simp_all
  moreover have "butlast (LA @ a # b # LB) = LA @ a # butlast (b # LB)" by (simp add: butlast_append)
  ultimately have K: "KA @ key_of p (last (content h' a)) # KB =
      map (\<lambda>d. key_of p (last (content h' d))) (butlast (LA @ a # b # LB))"
    by (simp only: map_append list.map)
  have "contents h' (LA @ a # b # LB) = contents h LA @ insert_at i x (content h a) @ contents h LB"
    using ab contents_cong [of LA h' h] contents_cong [of LB h' h] c(1) by simp
  moreover have "LEAF_CAPACITY p div 2 \<le> leaf_size h' d" if "d \<in> set (LA @ a # b # LB)" for d
  proof (cases "d = a \<or> d = b")
    case False
    then have "d \<in> set LA \<union> set LB" using that by auto
    moreover from this have "2 \<le> length (LA @ a # LB)" by (cases LA; cases LB; auto)
    ultimately show ?thesis using inv other [of d] by (simp add: seq_inv_def)
  qed (use ok in auto)
  ultimately show ?thesis
    unfolding K using inv chain' ok c(2) sorted unfolding seq_inv_def by (cases LA) auto
qed

end

end
