(* ===== verification/BTree_Sharing.thy ===== *)
theory BTree_Sharing
  imports BTree_Leaves
begin

text \<open>
  Insertion into a tree: what the operations on one or two leaves do, and the proof that \<open>InsertIntoNode\<close>
  returns and keeps the invariant, by induction on the subtree it is called with. Its result is a tree of the same
  shape, or two trees and the key between them for the node above.
\<close>

section \<open>The invariant and the results\<close>

text \<open>The invariant of a tree of shape \<open>T\<close> and height \<open>n\<close>.\<close>

definition branches_in :: "node_ptr list \<Rightarrow> nat" where
  "branches_in qs = length (filter (\<lambda>q. case q of BranchPtr b \<Rightarrow> True | _ \<Rightarrow> False) qs)"

definition tree_inv :: "('k, 'i) BTreeParams \<Rightarrow> ('k, 'i) BTree \<Rightarrow> nat \<Rightarrow> shape \<Rightarrow> bool" where
  "tree_inv p h n T \<longleftrightarrow> tree_ok p h n T \<and> seq_inv p h (leaves_of T) (seps h T) \<and> branchesCount h = of_nat (branches_in (ptrs_of T))"

text \<open>A subtree of height \<open>n\<close> that became the two trees \<open>t1\<close> and \<open>t2\<close>, of which the branch above knows \<open>t1\<close> only.\<close>

definition pending :: "('k, 'i) BTreeParams \<Rightarrow> ('k, 'i) BTree \<Rightarrow> nat \<Rightarrow> frame list \<Rightarrow> shape \<Rightarrow> 'k \<Rightarrow> shape \<Rightarrow> bool" where
  "pending p h n C t1 k t2 \<longleftrightarrow> shape_ok p h n t1 \<and> shape_ok p h n t2 \<and> big_branch p h t1 \<and> big_branch p h t2 \<and>
     wf_around p h n (ptr_of t1) C \<and> distinct (ptrs_around C @ ptrs_of t1 @ ptrs_of t2) \<and>
     (\<forall>q\<in>set (ptrs_around C @ ptrs_of t1 @ ptrs_of t2). fresh_below h q) \<and>
     seq_inv p h (leaves_left C @ leaves_of t1 @ leaves_of t2 @ leaves_right C)
       (seps_left h C @ seps h t1 @ k # seps h t2 @ seps_right h C) \<and>
     branchesCount h = of_nat (branches_in (ptrs_around C @ ptrs_of t1 @ ptrs_of t2))"

text \<open>The leaves hold one item more, the reference leads to it.\<close>

definition points_at :: "('k, 'i) BTree \<Rightarrow> nat list \<Rightarrow> item_ref \<Rightarrow> 'i \<Rightarrow> bool" where
  "points_at h L ref x \<longleftrightarrow> fst ref \<in> set L \<and> snd ref < leaf_size h (fst ref) \<and> items h (fst ref) ! snd ref = x"

definition added :: "('k, 'i) BTreeParams \<Rightarrow> 'k \<Rightarrow> ('k, 'i) BTree \<Rightarrow> nat list \<Rightarrow> ('k, 'i) BTree \<Rightarrow> nat list \<Rightarrow> item_ref \<Rightarrow> bool" where
  "added p key h L h' L' ref \<longleftrightarrow>
     (\<exists>i\<le>length (contents h L). contents h' L' = insert_at i (item_of p key) (contents h L)) \<and>
     points_at h' L' ref (item_of p key) \<and> itemsCount h' = itemsCount h"

definition outcome :: "('k, 'i) BTreeParams \<Rightarrow> ('k, 'i) BTree \<Rightarrow> nat \<Rightarrow> frame list \<Rightarrow> shape \<Rightarrow> 'k \<Rightarrow> ('k, 'i) insertion \<Rightarrow> bool" where
  "outcome p h n C t key ins = (case ins of (h', ref, inserted, nk, nn) \<Rightarrow>
     if \<not> inserted then
       UNIQUE_KEYS p \<and> h' = h \<and> nn = Null \<and>
       (\<exists>x. points_at h (leaves_of (plug C t)) ref x \<and> \<not> Less p key (key_of p x) \<and> \<not> Less p (key_of p x) key)
     else if nn = Null then
       (\<exists>t'. tree_inv p h' (n + length C) (plug C t') \<and>
          added p key h (leaves_of (plug C t)) h' (leaves_of (plug C t')) ref)
     else
       (\<exists>t1 t2. nn = ptr_of t2 \<and> pending p h' n C t1 nk t2 \<and>
          added p key h (leaves_of (plug C t)) h' (leaves_left C @ leaves_of t1 @ leaves_of t2 @ leaves_right C) ref))"

lemma tree_inv_same:
  assumes "tree_inv p h n T" "same_nodes h h' (set (ptrs_of T))" "same_links h h' (set (ptrs_of T))" "root h' = root h"
    "leaf_top h \<le> leaf_top h'" "branch_top h \<le> branch_top h'" "branchesCount h' = branchesCount h"
    "seq_inv p h' (leaves_of T) (seps h' T)"
  shows "tree_inv p h' n T"
  using assms tree_ok_cong [OF assms(2-6)] by (simp add: tree_inv_def)

lemma insert_at_middle:
  "i \<le> length c \<Longrightarrow> XA @ insert_at i x c @ XB = insert_at (length XA + i) x (XA @ c @ XB)"
  by (simp add: insert_at_def)

context btree
begin

section \<open>What the operations on leaves do\<close>

definition new_items :: "nat \<Rightarrow> 'k \<Rightarrow> ('k, 'i) BTree \<Rightarrow> nat \<Rightarrow> 'i list" where
  "new_items slot key h a = insert_at slot (item_of p key) (content h a)"

lemma Right_effect:
  assumes "leaf_ok p h a" "leaf_ok p h r" "a \<noteq> r" "leaf_size h a = LEAF_CAPACITY p" "leaf_size h r < LEAF_CAPACITY p"
    "slot \<le> leaf_size h a"
  shows "\<exists>I S ref h1. h1 = h\<lparr>items := I, leaf_size := S\<rparr> \<and>
    InsertAndRearrangeWithRight p a slot key r h =
      map_option (\<lambda>h. (ref, h)) (UpdateParentKey (LeafPtr a) (Leaf_GetMaxKey p a h1) h1) \<and>
    (\<forall>b. b \<noteq> a \<longrightarrow> b \<noteq> r \<longrightarrow> I b = items h b \<and> S b = leaf_size h b) \<and>
    leaf_ok p h1 a \<and> leaf_ok p h1 r \<and> LEAF_CAPACITY p div 2 \<le> S a \<and> LEAF_CAPACITY p div 2 \<le> S r \<and>
    content h1 a @ content h1 r = new_items slot key h a @ content h r \<and>
    fst ref \<in> {a, r} \<and> snd ref < S (fst ref) \<and> I (fst ref) ! snd ref = item_of p key"
proof -
  let ?x = "item_of p key"
  define n where "n = leaf_size h a"
  define s where "s = leaf_size h r"
  define m where "m = (n + s + 1) div 2"
  define xs where "xs = items h a"
  define ys where "ys = items h r"
  define sh where "sh = ArrayInsert ys 0 s (n + 1 - m)"
  define C where "C = insert_at slot ?x (take n xs)"
  have len: "length xs = n" "length ys = n" "s < n" "slot \<le> n" "2 \<le> n" "1 \<le> s" "n = LEAF_CAPACITY p"
    using assms leaf_capacity by (auto simp: leaf_ok_def n_def s_def xs_def ys_def)
  then have m: "m \<le> n" "1 \<le> m" "s + (n + 1 - m) \<le> n" "n div 2 \<le> m" "n div 2 \<le> n + s + 1 - m" "n + s + 1 - m \<le> n"
    "n + s + 1 - m = (n + 1 - m) + s"
    by (auto simp: m_def)
  define low where "low = (slot < m)"
  define ref where "ref = (if low then (a, slot) else (r, slot - m))"
  define kept where "kept = (if low then (ArrayInsert xs slot (m - 1) 1)[slot := ?x] else xs)"
  define right where "right = (if low then ArrayMove sh 0 xs (m - 1) n
      else (ArrayMove (ArrayMove sh 0 xs m slot) (slot - m + 1) xs slot n)[slot - m := ?x])"
  have sh: "length sh = n" "drop (n + 1 - m) sh = take s ys @ drop (s + (n + 1 - m)) ys"
    using m len by (simp_all add: sh_def array_lengths shift_right)
  have right: "right = drop m C @ take s ys @ drop (s + (n + 1 - m)) ys"
    using move_low [of slot m n xs sh ?x] move_high [of m slot n xs sh ?x] sh len m
    by (auto simp: right_def low_def C_def)
  have kept: "take m kept = take m C" "length kept = n"
    using keep_low [of slot m n xs ?x] keep_high [of m slot n xs ?x] len m
    by (auto simp: kept_def low_def C_def array_lengths)
  have C: "length C = n + 1" "C ! slot = ?x" using len by (simp_all add: C_def)
  have right_take: "take (n + s + 1 - m) right = drop m C @ take s ys"
    unfolding right using C len m by simp
  define I where "I = (items h)(r := right, a := kept)"
  define S where "S = (leaf_size h)(a := m, r := n + s + 1 - m)"
  define h1 where "h1 = h\<lparr>items := I, leaf_size := S\<rparr>"
  have cont: "content h1 a = take m C" "content h1 r = drop m C @ content h r"
    using kept right_take assms(3) by (simp_all add: content_def h1_def I_def S_def s_def [symmetric] ys_def [symmetric])
  have op: "InsertAndRearrangeWithRight p a slot key r h =
      map_option (\<lambda>h. (ref, h)) (UpdateParentKey (LeafPtr a) (Leaf_GetMaxKey p a h1) h1)"
    unfolding InsertAndRearrangeWithRight_def Let_def n_def [symmetric] s_def [symmetric] m_def [symmetric]
      xs_def [symmetric] ys_def [symmetric] sh_def [symmetric]
    by (cases low) (simp_all add: low_def ref_def kept_def right_def h1_def I_def S_def)
  have elem: "I (fst ref) ! snd ref = ?x \<and> snd ref < S (fst ref) \<and> fst ref \<in> {a, r}"
  proof (cases low)
    case True
    then have "take m kept ! slot = take m C ! slot" using kept by simp
    then show ?thesis using True C(2) assms(3) by (simp add: ref_def I_def S_def low_def)
  next
    case False
    then have "m \<le> slot" "slot - m < length (drop m C)" using C len m by (simp_all add: low_def)
    then have "right ! (slot - m) = C ! slot"
      unfolding right using C by (simp add: nth_append)
    then show ?thesis using False C(2) len m assms(3) by (auto simp: ref_def I_def S_def low_def)
  qed
  have "length right = n" unfolding right using C len m by simp
  then have "leaf_ok p h1 a" "leaf_ok p h1 r"
    using len m kept assms(3) by (auto simp: leaf_ok_def h1_def I_def S_def)
  then show ?thesis
    using op elem cont m(4,5) assms(3) len(7)
    by (intro exI [of _ I] exI [of _ S] exI [of _ ref] exI [of _ h1])
      (auto simp: h1_def I_def S_def new_items_def content_def C_def n_def xs_def)
qed

lemma Left_effect:
  assumes "leaf_ok p h a" "leaf_ok p h l" "a \<noteq> l" "leaf_size h a = LEAF_CAPACITY p" "leaf_size h l < LEAF_CAPACITY p"
    "slot \<le> leaf_size h a"
  shows "\<exists>I S ref h1. h1 = h\<lparr>items := I, leaf_size := S\<rparr> \<and>
    InsertAndRearrangeWithLeft p a slot key l h =
      map_option (\<lambda>h. (ref, h)) (UpdateParentKey (LeafPtr l) (Leaf_GetMaxKey p l h1) h1) \<and>
    (\<forall>b. b \<noteq> a \<longrightarrow> b \<noteq> l \<longrightarrow> I b = items h b \<and> S b = leaf_size h b) \<and>
    leaf_ok p h1 a \<and> leaf_ok p h1 l \<and> LEAF_CAPACITY p div 2 \<le> S a \<and> LEAF_CAPACITY p div 2 \<le> S l \<and>
    content h1 l @ content h1 a = content h l @ new_items slot key h a \<and>
    fst ref \<in> {a, l} \<and> snd ref < S (fst ref) \<and> I (fst ref) ! snd ref = item_of p key"
proof -
  let ?x = "item_of p key"
  define n where "n = leaf_size h a"
  define s where "s = leaf_size h l"
  define q where "q = (n + s + 1) div 2"
  define m where "m = n + 1 - q"
  define xs where "xs = items h a"
  define ys where "ys = items h l"
  define C where "C = insert_at slot ?x (take n xs)"
  have len: "length xs = n" "length ys = n" "s < n" "slot \<le> n" "2 \<le> n" "1 \<le> s" "n = LEAF_CAPACITY p"
    using assms leaf_capacity by (auto simp: leaf_ok_def n_def s_def xs_def ys_def)
  then have m: "m \<le> n" "1 \<le> m" "s + m \<le> n" "q = n + 1 - m" "n div 2 \<le> q" "1 \<le> q" "q \<le> n" "n div 2 \<le> s + m" "n + s + 1 - q = s + m"
    by (auto simp: m_def q_def)
  define low where "low = (slot < m)"
  define ref where "ref = (if low then (l, slot + s) else (a, slot - m))"
  define kept where "kept = (if low then ArrayDelete xs 0 n (m - 1)
      else (ArrayDelete (ArrayDelete xs 0 slot m) (slot - m + 1) n (m - 1))[slot - m := ?x])"
  define left where "left = (if low then (ArrayMove (ArrayMove ys s xs 0 slot) (s + slot + 1) xs slot (m - 1))[slot + s := ?x]
      else ArrayMove ys s xs 0 m)"
  have kept: "take q kept = drop m C" "length kept = n"
    using shift_left_low [of slot m n xs ?x] shift_left_high [of m slot n xs ?x] len m
    by (auto simp: kept_def low_def C_def array_lengths)
  have left: "take (s + m) left = take s ys @ take m C" "length left = n"
    using append_low [of m slot n xs s ys ?x] append_high [of slot m n xs s ys ?x] len m
    by (auto simp: left_def low_def C_def array_lengths)
  have C: "length C = n + 1" "C ! slot = ?x" using len by (simp_all add: C_def)
  define I where "I = (items h)(l := left, a := kept)"
  define S where "S = (leaf_size h)(a := q, l := n + s + 1 - q)"
  define h1 where "h1 = h\<lparr>items := I, leaf_size := S\<rparr>"
  have cont: "content h1 a = drop m C" "content h1 l = content h l @ take m C"
    using kept left assms(3) m(9) by (simp_all add: content_def h1_def I_def S_def s_def [symmetric] ys_def [symmetric])
  have op: "InsertAndRearrangeWithLeft p a slot key l h =
      map_option (\<lambda>h. (ref, h)) (UpdateParentKey (LeafPtr l) (Leaf_GetMaxKey p l h1) h1)"
    unfolding InsertAndRearrangeWithLeft_def Let_def n_def [symmetric] s_def [symmetric] q_def [symmetric] m_def [symmetric]
      xs_def [symmetric] ys_def [symmetric]
    by (cases low) (simp_all add: low_def ref_def kept_def left_def h1_def I_def S_def)
  have elem: "I (fst ref) ! snd ref = ?x \<and> snd ref < S (fst ref) \<and> fst ref \<in> {a, l}"
  proof (cases low)
    case True
    then have sl: "slot < m" by (simp add: low_def)
    have "take (s + m) left ! (slot + s) = left ! (slot + s)" using sl by simp
    moreover have "(take s ys @ take m C) ! (slot + s) = C ! slot" using sl len by (simp add: nth_append)
    ultimately have "left ! (slot + s) = ?x" using left C(2) by simp
    then show ?thesis using True sl m(9) assms(3) by (simp add: ref_def I_def S_def)
  next
    case False
    then have sl: "m \<le> slot" by (simp add: low_def)
    have "take q kept ! (slot - m) = kept ! (slot - m)" using sl m len by simp
    moreover have "drop m C ! (slot - m) = C ! slot" using sl C len by simp
    ultimately have "kept ! (slot - m) = ?x" using kept C(2) by simp
    then show ?thesis using False sl m(4) len assms(3) by (auto simp: ref_def I_def S_def)
  qed
  have "leaf_ok p h1 a" "leaf_ok p h1 l"
    using len m kept left assms(3) by (auto simp: leaf_ok_def h1_def I_def S_def)
  then show ?thesis
    using op elem cont m(5,8,9) assms(3) len(7)
    by (intro exI [of _ I] exI [of _ S] exI [of _ ref] exI [of _ h1])
      (auto simp: h1_def I_def S_def new_items_def content_def C_def n_def xs_def)
qed

lemma chain_link_after:
  assumes "chain h None (LA @ a # LB) None" "distinct (LA @ a # b # LB)"
  shows "chain (link_after a b h) None (LA @ a # b # LB) None"
proof -
  let ?h = "link_after a b h"
  have nx: "next_leaf h a = (if LB = [] then None else Some (hd LB))" using assms(1) by (simp add: chain_append)
  have ab: "next_leaf ?h a = Some b" "next_leaf ?h b = next_leaf h a" "prev_leaf ?h b = Some a"
    using assms(2) nx by (auto simp: link_after_def Let_def split: option.splits)
  have other: "next_leaf ?h c = next_leaf h c" if "c \<noteq> a" "c \<noteq> b" for c
    using that by (auto simp: link_after_def Let_def split: option.splits)
  have pr: "prev_leaf ?h c = prev_leaf h c" if "c \<noteq> b" "LB = [] \<or> c \<noteq> hd LB" for c
    using that nx by (auto simp: link_after_def Let_def split: option.splits)
  have A: "chain ?h None LA (Some a) = chain h None LA (Some a)"
  proof (rule chain_cong)
    fix c assume c: "c \<in> set LA"
    have "c \<noteq> a" "c \<noteq> b" "LB = [] \<or> c \<noteq> hd LB" using c assms(2) by (cases LB; auto)+
    then show "prev_leaf ?h c = prev_leaf h c \<and> next_leaf ?h c = next_leaf h c" using other pr by simp
  qed
  have pa: "prev_leaf ?h a = prev_leaf h a" using pr [of a] assms(2) by (cases LB) auto
  show ?thesis
  proof (cases LB)
    case Nil
    then show ?thesis using assms(1) A ab nx pa by (simp add: chain_append)
  next
    case (Cons r LB')
    have r: "prev_leaf ?h r = Some b" "next_leaf ?h r = next_leaf h r"
      using nx Cons other [of r] assms(2) by (auto simp: link_after_def Let_def)
    have B: "chain ?h (Some r) LB' None = chain h (Some r) LB' None"
    proof (rule chain_cong)
      fix c assume c: "c \<in> set LB'"
      have "c \<noteq> a" "c \<noteq> b" "c \<noteq> r" using c assms(2) Cons by auto
      then show "prev_leaf ?h c = prev_leaf h c \<and> next_leaf ?h c = next_leaf h c" using other pr Cons by simp
    qed
    have nl: "next_leaf ?h r = (if LB' = [] then None else Some (hd LB'))" using r assms(1) Cons by (simp add: chain_append)
    have "chain ?h (Some b) (r # LB') None" using B r(1) nl assms(1) Cons by (simp add: chain_append)
    then show ?thesis using assms(1) A ab nx pa Cons by (simp add: chain_append)
  qed
qed

lemma Split_effect:
  assumes "leaf_ok p h a" "leaf_size h a = LEAF_CAPACITY p" "slot \<le> leaf_size h a" "a < leaf_top h" "chain h None (LA @ a # LB) None"
    "distinct (LA @ a # LB)" "\<forall>c\<in>set (LA @ a # LB). c < leaf_top h"
  shows "\<exists>ref h1 b. b = leaf_top h \<and> Leaf_InsertAndSplit p a slot key h = (ref, Leaf_GetMaxKey p a h1, LeafPtr b, h1) \<and>
    (\<forall>c. c \<noteq> a \<longrightarrow> c \<noteq> b \<longrightarrow> items h1 c = items h c \<and> leaf_size h1 c = leaf_size h c) \<and>
    leaf_ok p h1 a \<and> leaf_ok p h1 b \<and> LEAF_CAPACITY p div 2 \<le> leaf_size h1 a \<and> LEAF_CAPACITY p div 2 \<le> leaf_size h1 b \<and>
    content h1 a @ content h1 b = new_items slot key h a \<and>
    fst ref \<in> {a, b} \<and> snd ref < leaf_size h1 (fst ref) \<and> items h1 (fst ref) ! snd ref = item_of p key \<and>
    chain h1 None (LA @ a # b # LB) None \<and> level h1 (LeafPtr b) = 0 \<and>
    same_nodes h h1 (- {LeafPtr b}) \<and> same_links h h1 (- {LeafPtr b}) \<and> keys h1 = keys h \<and>
    root h1 = root h \<and> firstLeaf h1 = firstLeaf h \<and> itemsCount h1 = itemsCount h \<and> leavesCount h1 = leavesCount h \<and>
    branchesCount h1 = branchesCount h \<and> leaf_top h1 = Suc b \<and> branch_top h1 = branch_top h"
proof -
  let ?x = "item_of p key"
  define b where "b = leaf_top h"
  define hn where "hn = snd (new_Leaf p h)"
  define h0 where "h0 = link_after a b hn"
  define n where "n = leaf_size h a"
  define m where "m = (n + 1) div 2"
  define xs where "xs = items h a"
  define sh where "sh = replicate (LEAF_CAPACITY p) (empty_item p)"
  define C where "C = insert_at slot ?x (take n xs)"
  have ab: "a \<noteq> b" using assms(4) by (simp add: b_def)
  have len: "length xs = n" "length sh = n" "slot \<le> n" "2 \<le> n" "n = LEAF_CAPACITY p"
    using assms leaf_capacity by (auto simp: leaf_ok_def n_def xs_def sh_def)
  then have m: "m \<le> n" "1 \<le> m" "n div 2 \<le> m" "n div 2 \<le> n + 1 - m" "n + 1 - m \<le> n" "1 \<le> n + 1 - m"
    by (auto simp: m_def)
  define low where "low = (slot < m)"
  define ref where "ref = (if low then (a, slot) else (b, slot - m))"
  define kept where "kept = (if low then (ArrayInsert xs slot (m - 1) 1)[slot := ?x] else xs)"
  define new where "new = (if low then ArrayMove sh 0 xs (m - 1) n
      else (ArrayMove (ArrayMove sh 0 xs m slot) (slot - m + 1) xs slot n)[slot - m := ?x])"
  have new: "new = drop m C @ drop (n + 1 - m) sh"
    using move_low [of slot m n xs sh ?x] move_high [of m slot n xs sh ?x] len m
    by (auto simp: new_def low_def C_def)
  have kept: "take m kept = take m C" "length kept = n"
    using keep_low [of slot m n xs ?x] keep_high [of m slot n xs ?x] len m
    by (auto simp: kept_def low_def C_def array_lengths)
  have C: "length C = n + 1" "C ! slot = ?x" using len by (simp_all add: C_def)
  have new_take: "take (n + 1 - m) new = drop m C" "length new = n" unfolding new using C len m by simp_all
  have h0: "items h0 = (items h)(b := sh)" "leaf_size h0 = (leaf_size h)(b := 0)" "keys h0 = keys h"
    "root h0 = root h" "firstLeaf h0 = firstLeaf h" "itemsCount h0 = itemsCount h" "leavesCount h0 = leavesCount h"
    "branchesCount h0 = branchesCount h" "leaf_top h0 = Suc b" "branch_top h0 = branch_top h" "level h0 (LeafPtr b) = 0"
    "same_nodes h h0 (- {LeafPtr b})" "same_links h h0 (- {LeafPtr b})"
    by (auto simp: h0_def hn_def link_after_def new_Leaf_def Let_def b_def sh_def same_nodes_def same_links_def
        split: option.split)
  define h1 where "h1 = h0\<lparr>items := (items h0)(a := kept, b := new), leaf_size := (leaf_size h0)(b := n + 1 - m, a := m)\<rparr>"
  have nl: "new_Leaf p h = (b, hn)" by (simp add: hn_def new_Leaf_def Let_def b_def)
  have op: "Leaf_InsertAndSplit p a slot key h = (ref, Leaf_GetMaxKey p a h1, LeafPtr b, h1)"
    unfolding Leaf_InsertAndSplit_def nl Let_def prod.case h0_def [symmetric] n_def [symmetric] m_def [symmetric]
    using ab h0(1,2)
    by (cases low) (simp_all add: low_def ref_def kept_def new_def h1_def xs_def [symmetric] n_def [symmetric])
  have "chain hn None (LA @ a # LB) None = chain h None (LA @ a # LB) None"
    by (rule chain_cong) (use assms(7) in \<open>auto simp: hn_def new_Leaf_def Let_def\<close>)
  then have "chain h0 None (LA @ a # b # LB) None"
    unfolding h0_def using assms(5,6,7) by (intro chain_link_after) (auto simp: b_def)
  moreover have "chain h1 None (LA @ a # b # LB) None = chain h0 None (LA @ a # b # LB) None"
    by (rule chain_cong) (simp add: h1_def)
  ultimately have ch: "chain h1 None (LA @ a # b # LB) None" by simp
  have cont: "content h1 a @ content h1 b = C"
    using kept(1) new_take(1) ab by (simp add: content_def h1_def)
  have ok: "leaf_ok p h1 a" "leaf_ok p h1 b"
    using len m kept new_take ab by (auto simp: leaf_ok_def h1_def)
  have elem: "items h1 (fst ref) ! snd ref = ?x \<and> snd ref < leaf_size h1 (fst ref) \<and> fst ref \<in> {a, b}"
  proof (cases low)
    case True
    then have "take m kept ! slot = take m C ! slot" using kept by simp
    then show ?thesis using True C(2) ab by (simp add: ref_def h1_def low_def)
  next
    case False
    then have "m \<le> slot" "slot - m < length (drop m C)" using C len m by (simp_all add: low_def)
    then have "new ! (slot - m) = C ! slot"
      unfolding new using C by (simp add: nth_append)
    then show ?thesis using False C(2) len m ab by (auto simp: ref_def h1_def low_def)
  qed
  have fr: "same_nodes h h1 (- {LeafPtr b})" "same_links h h1 (- {LeafPtr b})"
    using h0(12,13) by (simp_all add: same_nodes_def same_links_def h1_def)
  have out: "\<forall>c. c \<noteq> a \<longrightarrow> c \<noteq> b \<longrightarrow> items h1 c = items h c \<and> leaf_size h1 c = leaf_size h c"
    using h0 by (simp add: h1_def)
  have sz: "LEAF_CAPACITY p div 2 \<le> leaf_size h1 a" "LEAF_CAPACITY p div 2 \<le> leaf_size h1 b"
    using ab m(3,4) len(5) by (simp_all add: h1_def)
  have fields: "keys h1 = keys h" "root h1 = root h" "firstLeaf h1 = firstLeaf h" "itemsCount h1 = itemsCount h"
    "leavesCount h1 = leavesCount h" "branchesCount h1 = branchesCount h" "leaf_top h1 = Suc b"
    "branch_top h1 = branch_top h" "level h1 (LeafPtr b) = 0"
    using h0 by (simp_all add: h1_def)
  have "content h1 a @ content h1 b = new_items slot key h a"
    using cont by (simp add: new_items_def content_def C_def n_def xs_def)
  then show ?thesis
    using op elem ok ch fr out sz fields b_def by blast
qed

section \<open>Insertion into a leaf\<close>

text \<open>A place for a key in a leaf.\<close>

definition place :: "('k, 'i) BTree \<Rightarrow> nat list \<Rightarrow> nat \<Rightarrow> nat list \<Rightarrow> 'k \<Rightarrow> nat \<Rightarrow> bool" where
  "place h LA a LB key slot \<longleftrightarrow> slot \<le> leaf_size h a \<and> (LB \<noteq> [] \<longrightarrow> slot < leaf_size h a) \<and>
     sorted_wrt (tree_order p) (map (key_of p)
       (contents h LA @ insert_at slot (item_of p key) (content h a) @ contents h LB))"

lemma added_at:
  assumes "place h LA a LB key slot" "leaf_ok p h a"
    "contents h' L' = contents h LA @ insert_at slot (item_of p key) (content h a) @ contents h LB"
    "points_at h' L' ref (item_of p key)" "itemsCount h' = itemsCount h"
  shows "added p key h (LA @ a # LB) h' L' ref"
  using assms insert_at_middle [of slot "content h a" "contents h LA" "item_of p key" "contents h LB"]
    length_content [OF assms(2)]
  by (auto simp: added_def place_def intro!: exI [of _ "length (contents h LA) + slot"])

lemma leaf_room:
  assumes inv: "tree_inv p h n T" and T: "leaves_of T = LA @ a # LB" and pl: "place h LA a LB key slot"
    and room: "leaf_size h a < LEAF_CAPACITY p" and ins: "Leaf_Insert p a slot key h = (ref, h')"
  shows "tree_inv p h' n T \<and> added p key h (leaves_of T) h' (leaves_of T) ref"
proof -
  have seq: "seq_inv p h (LA @ a # LB) (seps h T)" and ok: "leaf_ok p h a" and dist: "distinct (LA @ a # LB)"
    using inv T distinct_leaves [of T] by (auto simp: tree_inv_def tree_ok_def seq_inv_def)
  define xs where "xs = (ArrayInsert (items h a) slot (leaf_size h a) 1)[slot := item_of p key]"
  have h': "h' = h\<lparr>items := (items h)(a := xs), leaf_size := (leaf_size h)(a := leaf_size h a + 1)\<rparr>" "ref = (a, slot)"
    using ins by (simp_all add: Leaf_Insert_def xs_def)
  have xs: "length xs = LEAF_CAPACITY p" "take (leaf_size h a + 1) xs = insert_at slot (item_of p key) (content h a)"
    using ok room pl array_insert [of slot "leaf_size h a" "items h a" "item_of p key"]
    by (auto simp: xs_def leaf_ok_def place_def array_lengths content_def)
  have other: "items h' b = items h b \<and> leaf_size h' b = leaf_size h b" if "b \<in> set LA \<union> set LB" for b
    using that dist by (auto simp: h')
  have c: "content h' a = insert_at slot (item_of p key) (content h a)" using xs by (simp add: content_def h')
  have "seq_inv p h' (LA @ a # LB) (seps h T)"
    by (rule seq_inv_one [OF seq _ other _ _ c]) (use ok room xs pl in \<open>auto simp: h' same_chain_def leaf_ok_def place_def\<close>)
  moreover have "seps h' T = seps h T" by (rule seps_cong) (simp add: same_keys_def h')
  ultimately have "tree_inv p h' n T"
    by (intro tree_inv_same [OF inv]) (auto simp: T h' same_nodes_def same_links_def)
  moreover have "contents h' (LA @ a # LB) = contents h LA @ insert_at slot (item_of p key) (content h a) @ contents h LB"
    using contents_cong [of LA h' h] contents_cong [of LB h' h] c other by (simp add: content_def)
  moreover have "points_at h' (LA @ a # LB) ref (item_of p key)"
    using xs(1) room ok pl by (simp add: points_at_def h' xs_def leaf_ok_def place_def array_lengths)
  ultimately show ?thesis using added_at [OF pl ok] by (simp add: T h')
qed

lemma pair_facts:
  assumes "tree_inv p h n T" "leaves_of T = LA @ a # b # LB"
  shows "seq_inv p h (LA @ a # b # LB) (seps h T)" "leaf_ok p h a" "leaf_ok p h b" "distinct (LA @ a # b # LB)"
  using assms distinct_leaves [of T] by (auto simp: tree_inv_def tree_ok_def seq_inv_def)

text \<open>The two leaves share their items and the separator between them follows.\<close>

lemma leaf_share:
  assumes inv: "tree_inv p h n T" and T: "leaves_of T = LA @ a # b # LB"
    and h1: "h1 = h\<lparr>items := I, leaf_size := S\<rparr>"
    and other: "\<And>c. c \<noteq> a \<Longrightarrow> c \<noteq> b \<Longrightarrow> I c = items h c \<and> S c = leaf_size h c"
    and ok: "leaf_ok p h1 a" "leaf_ok p h1 b" "LEAF_CAPACITY p div 2 \<le> S a" "LEAF_CAPACITY p div 2 \<le> S b"
    and ab: "content h1 a @ content h1 b = insert_at i (item_of p key) (content h a @ content h b)"
    and i: "i \<le> length (content h a @ content h b)" "LB \<noteq> [] \<Longrightarrow> i < length (content h a @ content h b)"
    and sorted: "sorted_wrt (tree_order p) (map (key_of p)
      (contents h LA @ insert_at i (item_of p key) (content h a @ content h b) @ contents h LB))"
    and ref: "fst ref \<in> {a, b}" "snd ref < S (fst ref)" "I (fst ref) ! snd ref = item_of p key"
  shows "\<exists>h'. UpdateParentKey (LeafPtr a) (Leaf_GetMaxKey p a h1) h1 = Some h' \<and> tree_inv p h' n T \<and>
    added p key h (leaves_of T) h' (leaves_of T) ref"
proof -
  note f = pair_facts [OF inv T]
  have ok1: "tree_ok p h1 n T"
    by (rule tree_ok_cong [of h h1]) (use inv in \<open>auto simp: h1 same_nodes_def same_links_def tree_inv_def\<close>)
  obtain ks where ks: "UpdateParentKey (LeafPtr a) (Leaf_GetMaxKey p a h1) h1 = Some (h1\<lparr>keys := ks\<rparr>)"
    "tree_ok p (h1\<lparr>keys := ks\<rparr>) n T" "seps (h1\<lparr>keys := ks\<rparr>) T = (seps h1 T)[length LA := Leaf_GetMaxKey p a h1]"
    using UpdateParentKey_seps [OF ok1, of LA a "b # LB" "Leaf_GetMaxKey p a h1"] T by auto
  define h' where "h' = h1\<lparr>keys := ks\<rparr>"
  have c: "content h' x = content h1 x" for x by (simp add: content_def h'_def)
  have oth: "items h' x = items h x \<and> leaf_size h' x = leaf_size h x" if "x \<in> set LA \<union> set LB" for x
    using that other [of x] f(4) by (auto simp: h'_def h1)
  have seq: "seq_inv p h' (LA @ a # b # LB) ((seps h T)[length LA := key_of p (last (content h' a))])"
    by (rule seq_inv_two [OF f(1) _ _ oth, where i = i and x = "item_of p key"])
      (use f(4) ok ab i sorted in \<open>simp_all add: c, simp_all add: h'_def h1 same_chain_def leaf_ok_def\<close>)
  have "seps h1 T = seps h T" by (rule seps_cong) (simp add: same_keys_def h1)
  then have "seps h' T = (seps h T)[length LA := key_of p (last (content h' a))]"
    using ks(3) GetMaxKey_content [OF ok(1)] c [of a] by (simp add: h'_def)
  then have "tree_inv p h' n T"
    using ks(2) seq inv by (simp add: tree_inv_def T h'_def [symmetric]) (simp add: h'_def h1)
  moreover have "contents h' (LA @ a # b # LB) = contents h LA @ insert_at i (item_of p key) (content h a @ content h b) @ contents h LB"
    using contents_cong [of LA h' h] contents_cong [of LB h' h] c ab oth by (simp add: content_def)
  then have "contents h' (leaves_of T) = insert_at (length (contents h LA) + i) (item_of p key) (contents h (leaves_of T))"
    using insert_at_middle [OF i(1), of "contents h LA"] by (simp add: T)
  moreover have "points_at h' (leaves_of T) ref (item_of p key)"
    using ref by (auto simp: points_at_def T h'_def h1)
  ultimately show ?thesis
    using ks(1) i(1) unfolding h'_def [symmetric]
    by (auto simp: added_def T h'_def h1 intro!: exI [of _ "length (contents h LA) + i"])
qed

lemma leaf_right:
  assumes inv: "tree_inv p h n T" and T: "leaves_of T = LA @ a # r # LB" and pl: "place h LA a (r # LB) key slot"
    and full: "leaf_size h a = LEAF_CAPACITY p" "leaf_size h r < LEAF_CAPACITY p"
  shows "\<exists>ref h'. InsertAndRearrangeWithRight p a slot key r h = Some (ref, h') \<and> tree_inv p h' n T \<and>
    added p key h (leaves_of T) h' (leaves_of T) ref"
proof -
  note f = pair_facts [OF inv T]
  have slot: "slot \<le> leaf_size h a" "slot \<le> length (content h a)"
    using pl length_content [OF f(2)] by (auto simp: place_def)
  obtain I S ref h1 where e: "h1 = h\<lparr>items := I, leaf_size := S\<rparr>"
    "InsertAndRearrangeWithRight p a slot key r h =
      map_option (\<lambda>h. (ref, h)) (UpdateParentKey (LeafPtr a) (Leaf_GetMaxKey p a h1) h1)"
    "\<forall>b. b \<noteq> a \<longrightarrow> b \<noteq> r \<longrightarrow> I b = items h b \<and> S b = leaf_size h b"
    "leaf_ok p h1 a" "leaf_ok p h1 r" "LEAF_CAPACITY p div 2 \<le> S a" "LEAF_CAPACITY p div 2 \<le> S r"
    "content h1 a @ content h1 r = new_items slot key h a @ content h r"
    "fst ref \<in> {a, r}" "snd ref < S (fst ref)" "I (fst ref) ! snd ref = item_of p key"
    using Right_effect [OF f(2,3) _ full slot(1), of key] f(4) by auto
  have ar: "insert_at slot (item_of p key) (content h a) @ content h r =
      insert_at slot (item_of p key) (content h a @ content h r)"
    using insert_at_middle [OF slot(2), of "[]" "item_of p key" "content h r"] by simp
  have "slot < length (content h a @ content h r)" using slot content_nonempty [OF f(3)] by (cases "content h r") auto
  moreover have "sorted_wrt (tree_order p) (map (key_of p)
      (contents h LA @ insert_at slot (item_of p key) (content h a @ content h r) @ contents h LB))"
    using pl unfolding place_def ar [symmetric] by simp
  ultimately obtain h' where "UpdateParentKey (LeafPtr a) (Leaf_GetMaxKey p a h1) h1 = Some h'" "tree_inv p h' n T"
    "added p key h (leaves_of T) h' (leaves_of T) ref"
    using leaf_share [OF inv T e(1) _ e(4-7), of slot key ref] e(3,8-11) ar unfolding new_items_def by auto
  then show ?thesis using e(2) by auto
qed

lemma leaf_left:
  assumes inv: "tree_inv p h n T" and T: "leaves_of T = LA @ l # a # LB" and pl: "place h (LA @ [l]) a LB key slot"
    and full: "leaf_size h a = LEAF_CAPACITY p" "leaf_size h l < LEAF_CAPACITY p"
  shows "\<exists>ref h'. InsertAndRearrangeWithLeft p a slot key l h = Some (ref, h') \<and> tree_inv p h' n T \<and>
    added p key h (leaves_of T) h' (leaves_of T) ref"
proof -
  note f = pair_facts [OF inv T]
  have slot: "slot \<le> leaf_size h a" "slot \<le> length (content h a)" "LB \<noteq> [] \<Longrightarrow> slot < length (content h a)"
    using pl length_content [OF f(3)] by (auto simp: place_def)
  obtain I S ref h1 where e: "h1 = h\<lparr>items := I, leaf_size := S\<rparr>"
    "InsertAndRearrangeWithLeft p a slot key l h =
      map_option (\<lambda>h. (ref, h)) (UpdateParentKey (LeafPtr l) (Leaf_GetMaxKey p l h1) h1)"
    "\<forall>b. b \<noteq> a \<longrightarrow> b \<noteq> l \<longrightarrow> I b = items h b \<and> S b = leaf_size h b"
    "leaf_ok p h1 a" "leaf_ok p h1 l" "LEAF_CAPACITY p div 2 \<le> S a" "LEAF_CAPACITY p div 2 \<le> S l"
    "content h1 l @ content h1 a = content h l @ new_items slot key h a"
    "fst ref \<in> {a, l}" "snd ref < S (fst ref)" "I (fst ref) ! snd ref = item_of p key"
    using Left_effect [OF f(3,2) _ full slot(1), of key] f(4) by auto
  have la: "content h l @ insert_at slot (item_of p key) (content h a) =
      insert_at (length (content h l) + slot) (item_of p key) (content h l @ content h a)"
    using insert_at_middle [OF slot(2), of "content h l" "item_of p key" "[]"] by simp
  have "sorted_wrt (tree_order p) (map (key_of p) (contents h LA @
      insert_at (length (content h l) + slot) (item_of p key) (content h l @ content h a) @ contents h LB))"
    using pl unfolding place_def la [symmetric] by simp
  then obtain h' where "UpdateParentKey (LeafPtr l) (Leaf_GetMaxKey p l h1) h1 = Some h'" "tree_inv p h' n T"
    "added p key h (leaves_of T) h' (leaves_of T) ref"
    using leaf_share [OF inv T e(1) _ e(5,4,7,6), of "length (content h l) + slot" key ref] e(3,8-11) la slot
    unfolding new_items_def by auto
  then show ?thesis using e(2) by auto
qed

end

end
