(* ===== verification/BTree_Branches.thy ===== *)
theory BTree_Branches
  imports BTree_Sharing
begin

text \<open>
  A child more in a branch: the arrays of keys and children after \<open>Insert\<close> and \<open>InsertAndSplit\<close>, the back links, and the
  trees these describe.
\<close>

section \<open>Separators of a divided branch\<close>

lemma weave_two:
  assumes "A \<noteq> []" "B \<noteq> []"
  shows "weave (A @ B) ks = weave A ks @ hd (drop (length A - 1) ks) # weave B (drop (length A) ks)"
  using assms(1)
proof (induction A arbitrary: ks)
  case (Cons x A)
  show ?case
  proof (cases A)
    case Nil
    then show ?thesis using assms(2) by (cases B) (auto simp: drop_Suc)
  next
    case (Cons y A')
    then show ?thesis using Cons.IH [of "tl ks"] by (simp add: drop_Suc)
  qed
qed simp

lemma weave_take_all: "length xs \<le> Suc n \<Longrightarrow> n \<le> length ks \<Longrightarrow> weave xs (take n ks) = weave xs ks"
  by (cases xs) (simp_all add: weave_Cons weave_take(2))

lemma weave_left_cong:
  "take (length xs) js = take (length xs) ks \<Longrightarrow> length xs \<le> length js \<Longrightarrow> length xs \<le> length ks \<Longrightarrow>
    weave_left xs js = weave_left xs ks"
  using weave_take(1) [of xs "length xs" js] weave_take(1) [of xs "length xs" ks] by simp

lemma weave_insert:
  assumes "length ls + length rs = n" "n \<le> length ks"
  shows "weave (ls @ x # y # rs) (insert_at (length ls) k (take n ks)) =
    weave_left ls ks @ x @ k # y @ weave_right rs (drop (length ls) ks)"
proof -
  have "weave (ls @ x # y # rs) (insert_at (length ls) k (take n ks)) =
      weave_left ls (insert_at (length ls) k (take n ks)) @ x @ k # y @
      weave_right rs (drop (length ls) (take n ks))"
    using assms by (simp add: weave_append insert_at_def)
  also have "weave_left ls (insert_at (length ls) k (take n ks)) = weave_left ls ks"
    using assms by (intro weave_left_cong) (simp_all add: take_insert_at)
  also have "weave_right rs (drop (length ls) (take n ks)) = weave_right rs (drop (length ls) ks)"
    using weave_take(2) [of rs "n - length ls" "drop (length ls) ks"] assms by (simp add: drop_take)
  finally show ?thesis .
qed

section \<open>The arrays of a branch\<close>

lemma split_keys_correct:
  assumes "length ks = n" "length new = n" "slot \<le> n" "1 \<le> m" "m \<le> n" "split_keys slot key n m newKey ks new = (a, b, up)"
  shows "length a = n \<and> length b = n \<and> take m a = take m (insert_at slot key ks) \<and> up = insert_at slot key ks ! m \<and>
    take (n - m) b = drop (Suc m) (insert_at slot key ks)"
proof -
  consider "slot < m" | "m < slot" | "slot = m" by linarith
  then show ?thesis
  proof cases
    case 1
    have m: "ks[m - 1 := newKey] = take (m - 1) ks @ newKey # drop m ks" using assms 1 by (simp add: upd_conv_take_nth_drop)
    have "take m ((ArrayInsert (ks[m - 1 := newKey]) slot (m - 1) 1)[slot := key]) =
        insert_at slot key (take (m - 1) ks)"
      using array_insert [of slot "m - 1" "ks[m - 1 := newKey]" key] assms 1 by simp
    moreover have "insert_at slot key ks ! m = ks ! (m - 1)" using assms 1 by (simp add: insert_at_def nth_append nth_Cons')
    ultimately show ?thesis
      using assms 1 by (auto simp: split_keys_def Let_def take_insert_at drop_insert_at array_lengths ArrayMove_form)
  next
    case 2
    have "b = insert_at (slot - Suc m) key (drop (Suc m) ks) @ drop (n - m) new"
      using array_move_gap [of "m + 1" slot n "ks[m := newKey]" 0 new key] assms 2
      by (simp add: Suc_diff_Suc split_keys_def Let_def)
    moreover have "insert_at slot key ks ! m = ks ! m" using assms 2 by (simp add: insert_at_def nth_append)
    ultimately show ?thesis
      using assms 2 by (auto simp: split_keys_def Let_def take_insert_at drop_insert_at)
  next
    case 3
    then show ?thesis
      using assms by (auto simp: split_keys_def Let_def take_insert_at drop_insert_at array_lengths ArrayMove_form)
  qed
qed

lemma split_childs_correct:
  assumes "length cs = Suc n" "length new = Suc n" "slot \<le> n" "1 \<le> m" "m \<le> n" "split_childs slot node n m cs new = (a, b)"
  shows "length a = Suc n \<and> length b = Suc n \<and> take (Suc m) a = take (Suc m) (insert_at (Suc slot) node cs) \<and>
    take (Suc n - m) b = drop (Suc m) (insert_at (Suc slot) node cs)"
proof (cases "slot < m")
  case True
  have "take (Suc m) ((ArrayInsert cs (slot + 1) m 1)[slot + 1 := node]) = insert_at (Suc slot) node (take m cs)"
    using array_insert [of "slot + 1" m cs node] assms True by simp
  then show ?thesis
    using assms True by (auto simp: split_childs_def take_insert_at drop_insert_at array_lengths ArrayMove_form)
next
  case False
  then have "b = insert_at (slot - m) node (drop (Suc m) cs) @ drop (Suc n - m) new"
    using array_move_gap [of "m + 1" "slot + 1" "n + 1" cs 0 new node] assms by (auto simp: Suc_diff_le split_childs_def)
  then show ?thesis
    using assms False by (auto simp: split_childs_def take_insert_at drop_insert_at)
qed

section \<open>The trees below a branch\<close>

lemma subptrs_distinct:
  assumes "distinct (concat (map ptrs_of ts))" "t \<in> set ts"
  shows "set (subptrs_of t) \<inter> set (map ptr_of ts) = {}"
proof -
  obtain A B where ts: "ts = A @ t # B" using assms(2) by (meson split_list)
  have 1: "ptr_of t \<notin> set (subptrs_of t)" using assms(1) by (simp add: ts ptrs_of_sub [of t])
  have "set (ptrs_of t) \<inter> set (concat (map ptrs_of (A @ B))) = {}" using assms(1) by (auto simp: ts)
  moreover have "set (map ptr_of (A @ B)) \<subseteq> set (concat (map ptrs_of (A @ B)))" by auto
  moreover have "set (subptrs_of t) \<subseteq> set (ptrs_of t)" by (auto simp: ptrs_of_sub [of t])
  ultimately have "set (subptrs_of t) \<inter> set (map ptr_of (A @ B)) = {}" by blast
  then show ?thesis using 1 by (simp add: ts Int_Un_distrib)
qed

lemma distinct_concat_ptrs: "distinct (concat (map ptrs_of ts)) \<Longrightarrow> distinct (map ptr_of ts)"
proof (induction ts)
  case (Cons t ts)
  have "set (map ptr_of ts) \<subseteq> set (concat (map ptrs_of ts))" by auto
  then show ?case using Cons ptr_of_in [of t] by (auto simp del: ptr_of_in)
qed simp

text \<open>A branch with these children, whose links may have changed, but nothing below.\<close>

lemma rebuild_branch:
  assumes "\<forall>t\<in>set ts. shape_ok p h n t \<and> big_branch p h t" "branch_ok p h' n b (map ptr_of ts)"
    "same_nodes h h' (set (concat (map ptrs_of ts)))" "same_links h h' (set (concat (map subptrs_of ts)))"
  shows "shape_ok p h' (Suc n) (SBranch b ts)"
proof -
  have "shape_ok p h' n t \<and> big_branch p h' t" if t: "t \<in> set ts" for t
  proof -
    have "same_nodes h h' (set (ptrs_of t))" "same_links h h' (set (subptrs_of t))"
      using same_mono(1) [OF assms(3)] same_mono(2) [OF assms(4)] t by auto
    then show ?thesis using wf_cong big_branch_cong assms(1) t by blast
  qed
  then show ?thesis using assms(2) by simp
qed

lemma wf_frame:
  "wf_around p h n q ((b, ls, rs) # C) \<Longrightarrow> wf_around p h (Suc n) (BranchPtr b) C \<and>
    (\<forall>t\<in>set ls \<union> set rs. shape_ok p h n t \<and> big_branch p h t) \<and> (C \<noteq> [] \<longrightarrow> BRANCH_CAPACITY p div 2 \<le> branch_size h b) \<and>
    branch_ok p h n b (map ptr_of ls @ q # map ptr_of rs)"
  by simp

text \<open>The fields that the operations on branches leave alone.\<close>

definition same_leaves :: "('k, 'i) BTree \<Rightarrow> ('k, 'i) BTree \<Rightarrow> bool" where
  "same_leaves h h' \<longleftrightarrow> items h' = items h \<and> leaf_size h' = leaf_size h \<and> next_leaf h' = next_leaf h \<and>
     prev_leaf h' = prev_leaf h \<and> firstLeaf h' = firstLeaf h \<and> leavesCount h' = leavesCount h \<and>
     itemsCount h' = itemsCount h \<and> leaf_top h' = leaf_top h"

lemma same_leaves_contents: "same_leaves h h' \<Longrightarrow> contents h' L = contents h L"
  by (rule contents_cong) (simp add: same_leaves_def content_def)

lemma same_leaves_seq: "same_leaves h h' \<Longrightarrow> seq_inv p h' L K = seq_inv p h L K"
  by (rule seq_inv_cong) (simp_all add: same_leaves_def)

lemma same_leaves_added: "same_leaves h1 h2 \<Longrightarrow> added p key h L h2 L' ref = added p key h L h1 L' ref"
  using same_leaves_contents [of h1 h2 L'] by (simp add: added_def points_at_def same_leaves_def)

section \<open>Insertion into a branch with room\<close>

lemma Branch_Insert_fields:
  fixes h :: "('k, 'i) BTree" and k :: 'k
  assumes ok: "branch_ok p h n b (map ptr_of (ls @ t1 # rs))" and room: "branch_size h b < BRANCH_CAPACITY p"
    and dist: "distinct (BranchPtr b # concat (map ptrs_of (ls @ t1 # t2 # rs)))"
  defines "h' \<equiv> Branch_Insert b (length ls) k (ptr_of t2) h"
  shows "branch_ok p h' n b (map ptr_of (ls @ t1 # t2 # rs)) \<and>
    same_nodes h h' (- {BranchPtr b}) \<and> same_links h h' (- set (map ptr_of (ls @ t1 # t2 # rs))) \<and>
    same_keys h h' (- {BranchPtr b}) \<and> branch_size h' b = Suc (branch_size h b) \<and>
    take (branch_size h' b) (keys h' b) = insert_at (length ls) k (take (branch_size h b) (keys h b)) \<and>
    same_leaves h h' \<and> root h' = root h \<and> branch_top h' = branch_top h \<and> branchesCount h' = branchesCount h"
proof -
  define n' where "n' = branch_size h b"
  define ks where "ks = (ArrayInsert (keys h b) (length ls) n' 1)[length ls := k]"
  define cs where "cs = (ArrayInsert (childs h b) (length ls + 1) (n' + 1) 1)[length ls + 1 := ptr_of t2]"
  define h1 where "h1 = h\<lparr>keys := (keys h)(b := ks), childs := (childs h)(b := cs), branch_size := (branch_size h)(b := n' + 1)\<rparr>"
  let ?qs = "map ptr_of (ls @ t1 # t2 # rs)"
  have b: "length (keys h b) = BRANCH_CAPACITY p" "length (childs h b) = Suc (BRANCH_CAPACITY p)" "n' < BRANCH_CAPACITY p"
    "length ls + length rs = n'" "take (Suc n') (childs h b) = map ptr_of (ls @ t1 # rs)"
    using ok room by (auto simp: branch_ok_def n'_def)
  have h': "h' = UpdateChildrenLinks b (length ls + 1) (n' + 1) h1"
    by (simp add: h'_def Branch_Insert_def Let_def h1_def ks_def cs_def n'_def)
  have ks: "take (Suc n') ks = insert_at (length ls) k (take n' (keys h b))" "length ks = BRANCH_CAPACITY p"
    using array_insert [of "length ls" n' "keys h b" k] b by (simp_all add: ks_def array_lengths)
  have cs: "take (n' + 2) cs = ?qs" "length cs = Suc (BRANCH_CAPACITY p)"
    using array_insert [of "length ls + 1" "n' + 1" "childs h b" "ptr_of t2"] b
    by (simp_all add: cs_def array_lengths insert_at_def)
  have qs: "distinct ?qs"
    using dist by (intro distinct_concat_ptrs) simp
  have up: "(\<forall>i. length ls + 1 \<le> i \<longrightarrow> i \<le> n' + 1 \<longrightarrow> linked h' b i (?qs ! i)) \<and>
    same_links h1 h' (- {?qs ! i | i. length ls + 1 \<le> i \<and> i \<le> n' + 1}) \<and> (\<exists>P S. h' = h1\<lparr>parent_of := P, slot_of := S\<rparr>)"
    by (rule UpdateChildrenLinks_props [OF qs _ _ _ h' [symmetric]]) (use cs b in \<open>auto simp: h1_def\<close>)
  then obtain P S where PS: "h' = h1\<lparr>parent_of := P, slot_of := S\<rparr>" by blast
  have links: "same_links h h' (- {?qs ! i | i. length ls + 1 \<le> i \<and> i \<le> n' + 1})"
    using up by (simp add: same_links_def h1_def)
  have "linked h' b i (?qs ! i)" if "i < length ?qs" for i
  proof (cases "length ls + 1 \<le> i")
    case True
    then show ?thesis using up that b by auto
  next
    case False
    then have i: "?qs ! i = map ptr_of (ls @ t1 # rs) ! i" "i < Suc n'" using b by (auto simp: nth_append nth_Cons')
    have "?qs ! i \<notin> {?qs ! i | i. length ls + 1 \<le> i \<and> i \<le> n' + 1}"
      using False qs that b by (auto simp: nth_eq_iff_index_eq simp del: nth_map)
    moreover have "linked h b i (?qs ! i)" using ok i b by (simp add: branch_ok_def)
    ultimately show ?thesis using links by (simp add: linked_def same_links_def)
  qed
  then have "branch_ok p h' n b ?qs"
    using ok b ks cs by (simp add: branch_ok_def PS h1_def)
  moreover have "{?qs ! i | i. length ls + 1 \<le> i \<and> i \<le> n' + 1} \<subseteq> set ?qs"
    by (rule subsetI, elim CollectE exE conjE, hypsubst, rule nth_mem) (use b in simp)
  then have "same_links h h' (- set ?qs)" using same_mono(2) [OF links] by blast
  ultimately show ?thesis
    using ks b by (simp add: PS h1_def same_nodes_def same_keys_def same_leaves_def n'_def [symmetric])
qed

section \<open>Division of a full branch\<close>

lemma UpdateChildrenLinks_size: "branch_size (UpdateChildrenLinks b lo hi h) = branch_size h"
proof -
  have "branch_size (fold (UpdateChildLink b) is h) = branch_size h" for "is"
    by (induction "is" arbitrary: h) (simp_all add: UpdateChildLink_def SetParent_def)
  then show ?thesis by (simp add: UpdateChildrenLinks_def)
qed

lemma Branch_Split_fields:
  fixes h :: "('k, 'i) BTree" and k :: 'k
  assumes ok: "branch_ok p h n b (map ptr_of (ls @ t1 # rs))" and full: "branch_size h b = BRANCH_CAPACITY p" "2 \<le> BRANCH_CAPACITY p"
    and dist: "distinct (BranchPtr b # concat (map ptrs_of (ls @ t1 # t2 # rs)))" and c: "c = branch_top h" "b \<noteq> c"
    and lev: "\<forall>t\<in>set (ls @ t1 # t2 # rs). ptr_of t \<noteq> BranchPtr c"
    and op: "Branch_InsertAndSplit p b (length ls) k (ptr_of t2) newKey h = (up, q, h')"
    and m: "m = (branch_size h b + 1) div 2"
    and ts: "ts = ls @ t1 # t2 # rs" and K: "K = insert_at (length ls) k (keys h b)"
  shows "q = BranchPtr c \<and> up = K ! m \<and> take m (keys h' b) = take m K \<and>
    take (branch_size h b - m) (keys h' c) = drop (Suc m) K \<and>
    branch_ok p h' n b (map ptr_of (take (Suc m) ts)) \<and> branch_ok p h' n c (map ptr_of (drop (Suc m) ts)) \<and>
    branch_size h' b = m \<and> branch_size h' c = branch_size h b - m \<and>
    same_nodes h h' (- {BranchPtr b, BranchPtr c}) \<and> same_links h h' (- insert (BranchPtr c) (set (map ptr_of ts))) \<and>
    same_keys h h' (- {BranchPtr b, BranchPtr c}) \<and>
    same_leaves h h' \<and> root h' = root h \<and> branch_top h' = Suc c \<and> branchesCount h' = branchesCount h"
proof -
  define N where "N = branch_size h b"
  define hn where "hn = snd (new_Branch p (level h (BranchPtr b)) h)"
  define h0 where "h0 = hn\<lparr>branch_size := (branch_size hn)(c := N - m)\<rparr>"
  let ?newk = "replicate (BRANCH_CAPACITY p) (empty_key p)"
  let ?newc = "replicate (BRANCH_CAPACITY p + 1) Null"
  let ?qs = "map ptr_of ts"
  obtain ks nk u where sk: "split_keys (length ls) k N m newKey (keys h b) ?newk = (ks, nk, u)" by (cases "split_keys (length ls) k N m newKey (keys h b) ?newk")
  obtain cs nc where sc: "split_childs (length ls) (ptr_of t2) N m (childs h b) ?newc = (cs, nc)" by fastforce
  have b: "length (keys h b) = N" "length (childs h b) = Suc N" "length ls + length rs = N" "N = BRANCH_CAPACITY p"
    "childs h b = map ptr_of (ls @ t1 # rs)" "level h (BranchPtr b) = Suc n"
    using ok full by (auto simp: branch_ok_def N_def)
  have mN: "1 \<le> m" "m \<le> N" "m < N" "1 \<le> N - m" using full by (auto simp: m N_def)
  have ks: "length ks = N" "length nk = N" "take m ks = take m K" "u = K ! m" "take (N - m) nk = drop (Suc m) K"
    using split_keys_correct [OF _ _ _ _ _ sk] b mN by (auto simp: K)
  have C: "insert_at (Suc (length ls)) (ptr_of t2) (childs h b) = ?qs" by (simp add: b ts insert_at_def)
  have cs: "length cs = Suc N" "length nc = Suc N" "take (Suc m) cs = take (Suc m) ?qs" "take (Suc N - m) nc = drop (Suc m) ?qs"
    using split_childs_correct [OF _ _ _ _ _ sc] b mN C by auto
  define h1 where "h1 = h0\<lparr>keys := (keys h0)(b := ks, c := nk), childs := (childs h0)(b := cs, c := nc)\<rparr>"
  define h2 where "h2 = (if length ls < m then UpdateChildrenLinks b (length ls + 1) m h1 else h1)"
  define h3 where "h3 = h2\<lparr>branch_size := (branch_size h2)(b := m)\<rparr>"
  have nb: "new_Branch p (level h (BranchPtr b)) h = (c, hn)" by (simp add: hn_def new_Branch_def Let_def c)
  have hn: "hn = h\<lparr>branch_top := Suc c, level := (level h)(BranchPtr c := Suc n), slot_of := (slot_of h)(BranchPtr c := 0),
       parent_of := (parent_of h)(BranchPtr c := None), branch_size := (branch_size h)(c := 0),
       keys := (keys h)(c := ?newk), childs := (childs h)(c := ?newc)\<rparr>"
    using b(6) by (simp add: hn_def new_Branch_def Let_def c)
  have h3_c: "branch_size h3 c = N - m"
    using c(2) by (simp add: h3_def h2_def h1_def h0_def UpdateChildrenLinks_size)
  have h': "q = BranchPtr c" "up = u" "h' = UpdateChildrenLinks c 0 (N - m) h3"
  proof -
    have e: "branch_size h0 b = N" "keys h0 b = keys h b" "keys h0 c = ?newk" "childs h0 b = childs h b" "childs h0 c = ?newc"
      using c(2) by (simp_all add: h0_def hn N_def)
    have t: "N + 1 - m - 1 = N - m" by simp
    have f: "branch_size (h\<lparr>keys := X\<rparr>) = branch_size h" "childs (h\<lparr>keys := X\<rparr>) = childs h" for h :: "('k, 'i) BTree" and X
      by simp_all
    have "Branch_InsertAndSplit p b (length ls) k (ptr_of t2) newKey h =
        (u, BranchPtr c, UpdateChildrenLinks c 0 (branch_size h3 c) h3)"
      using sk sc e
      by (simp only: Branch_InsertAndSplit_def nb Let_def prod.case N_def [symmetric] m [symmetric, folded N_def] t h0_def [symmetric]
          f h1_def h2_def h3_def)
    then show "q = BranchPtr c" "up = u" "h' = UpdateChildrenLinks c 0 (N - m) h3" using op h3_c by simp_all
  qed
  have qs: "distinct ?qs" "length ?qs = N + 2" using distinct_concat_ptrs [of ts] dist b(3) by (simp_all add: ts)
  define I where "I = {?qs ! i | i. length ls + 1 \<le> i \<and> i \<le> m}"
  have U2: "(\<forall>i. length ls + 1 \<le> i \<longrightarrow> i \<le> m \<longrightarrow> linked h2 b i (?qs ! i)) \<and> same_links h1 h2 (- I) \<and>
      (\<exists>P S. h2 = h1\<lparr>parent_of := P, slot_of := S\<rparr>)"
  proof (cases "length ls < m")
    case True
    have "(\<forall>i. length ls + 1 \<le> i \<longrightarrow> i \<le> m \<longrightarrow> linked h2 b i (take (Suc m) ?qs ! i)) \<and>
        same_links h1 h2 (- {take (Suc m) ?qs ! i | i. length ls + 1 \<le> i \<and> i \<le> m}) \<and>
        (\<exists>P S. h2 = h1\<lparr>parent_of := P, slot_of := S\<rparr>)"
      by (rule UpdateChildrenLinks_props)
        (use qs cs mN True c(2) in \<open>simp_all add: h2_def h1_def distinct_take min_def del: take_Suc_Cons\<close>)
    moreover have "{take (Suc m) ?qs ! i | i. length ls + 1 \<le> i \<and> i \<le> m} = I"
      unfolding I_def by (rule Collect_cong) (metis le_imp_less_Suc nth_take)
    ultimately show ?thesis by (simp add: less_Suc_eq_le)
  next
    case False
    then have "h2 = h1" by (simp add: h2_def)
    moreover have "\<exists>P S. h1 = h1\<lparr>parent_of := P, slot_of := S\<rparr>"
      by (rule exI [of _ "parent_of h1"], rule exI [of _ "slot_of h1"]) simp
    ultimately show ?thesis using False by (auto simp: same_links_def)
  qed
  then obtain P S where h2: "h2 = h1\<lparr>parent_of := P, slot_of := S\<rparr>" by blast
  have U3: "(\<forall>i. 0 \<le> i \<longrightarrow> i \<le> N - m \<longrightarrow> linked h' c i (drop (Suc m) ?qs ! i)) \<and>
      same_links h3 h' (- {drop (Suc m) ?qs ! i | i. 0 \<le> i \<and> i \<le> N - m}) \<and>
      (\<exists>P S. h' = h3\<lparr>parent_of := P, slot_of := S\<rparr>)"
    by (rule UpdateChildrenLinks_props [OF _ _ _ _ h'(3) [symmetric]])
      (use qs cs mN in \<open>simp_all add: h3_def h2 h1_def Suc_diff_le\<close>)
  then obtain P' S' where h'_eq: "h' = h3\<lparr>parent_of := P', slot_of := S'\<rparr>" by blast
  have same3: "same_links h3 h' (- set (drop (Suc m) ?qs))"
    by (rule same_mono(2) [of _ _ "- {drop (Suc m) ?qs ! i | i. 0 \<le> i \<and> i \<le> N - m}"], use U3 in blast)
      (rule Compl_anti_mono, rule subsetI, elim CollectE exE conjE, hypsubst, rule nth_mem, use qs mN in simp)
  have nc: "BranchPtr c \<notin> set ?qs" using lev by (auto simp: ts)
  have left: "linked h' b i (?qs ! i)" if i: "i \<le> m" for i
  proof -
    have "?qs ! i \<notin> set (drop (Suc m) ?qs)"
      using qs i mN by (auto simp: in_set_conv_nth nth_eq_iff_index_eq simp del: nth_map)
    moreover have "linked h2 b i (?qs ! i)"
    proof (cases "length ls + 1 \<le> i")
      case False
      then have e: "?qs ! i = map ptr_of (ls @ t1 # rs) ! i" "i < Suc N" using b(3) by (auto simp: ts nth_append nth_Cons')
      have "?qs ! i \<notin> I"
        using False qs i mN by (auto simp: I_def nth_eq_iff_index_eq simp del: nth_map)
      moreover have "linked h b i (?qs ! i)" using ok e b(3) unfolding branch_ok_def by simp
      moreover have "?qs ! i \<noteq> BranchPtr c" using nc qs i mN nth_mem [of i ?qs] by (metis less_add_Suc1 add_2_eq_Suc' le_imp_less_Suc less_trans_Suc order_le_less_trans less_SucI)
      ultimately show ?thesis using U2 by (auto simp: linked_def same_links_def h1_def h0_def hn)
    qed (use U2 i in blast)
    ultimately show ?thesis using same3 by (simp add: linked_def same_links_def h3_def)
  qed
  have right: "linked h' c i (map ptr_of (drop (Suc m) ts) ! i)" if "i < length (drop (Suc m) ts)" for i
    using U3 that qs mN by (simp add: drop_map)
  have fields: "level h' (BranchPtr b) = Suc n" "level h' (BranchPtr c) = Suc n" "branch_size h' b = m" "branch_size h' c = N - m"
    "keys h' b = ks" "keys h' c = nk" "childs h' b = cs" "childs h' c = nc"
    using c(2) b(6) h3_c by (simp_all add: h'_eq h3_def h2 h1_def h0_def hn)
  have okb: "branch_ok p h' n b (map ptr_of (take (Suc m) ts))"
  proof -
    have l: "length (map ptr_of (take (Suc m) ts)) = Suc m" using qs mN by simp
    have t: "take (Suc m) cs = map ptr_of (take (Suc m) ts)" using cs(3) by (simp add: take_map)
    have "linked h' b i (map ptr_of (take (Suc m) ts) ! i)" if "i < Suc m" for i
      using left [of i] that qs mN by (simp add: take_map [symmetric] less_Suc_eq_le del: nth_map)
    then show ?thesis unfolding branch_ok_def l fields t using mN b ks(1) cs(1) by simp
  qed
  have okc: "branch_ok p h' n c (map ptr_of (drop (Suc m) ts))"
  proof -
    have l: "length (map ptr_of (drop (Suc m) ts)) = Suc (N - m)" using qs mN by simp
    have t: "take (Suc (N - m)) nc = map ptr_of (drop (Suc m) ts)" using cs(4) mN by (simp add: Suc_diff_le drop_map)
    show ?thesis unfolding branch_ok_def l fields t using right l mN b ks(2) cs(2) by simp
  qed
  have links: "same_links h h' (- insert (BranchPtr c) (set ?qs))"
  proof -
    let ?A = "- insert (BranchPtr c) (set ?qs)"
    have "I \<subseteq> set ?qs"
      unfolding I_def by (rule subsetI, elim CollectE exE conjE, hypsubst, rule nth_mem) (use qs mN in simp)
    then have "?A \<subseteq> - I" by (intro Compl_anti_mono subset_insertI2)
    then have "same_links h1 h2 ?A" by (rule same_mono(2) [OF conjunct1 [OF conjunct2 [OF U2]]])
    moreover have "?A \<subseteq> - set (drop (Suc m) ?qs)"
      by (rule Compl_anti_mono) (rule subset_trans [OF set_drop_subset subset_insertI])
    then have "same_links h3 h' ?A" by (rule same_mono(2) [OF same3])
    moreover have "same_links h h1 ?A" by (simp add: same_links_def h1_def h0_def hn)
    ultimately show ?thesis by (simp add: same_links_def h3_def)
  qed
  show ?thesis
    using h'(1,2) ks okb okc links fields
    by (simp add: N_def [symmetric] h'_eq h3_def h2 h1_def h0_def hn same_nodes_def same_keys_def same_leaves_def)
qed

end
