(* ===== verification/BTree_Insertion.thy ===== *)
theory BTree_Insertion
  imports BTree_Branches
begin

text \<open>
  Insertion into a tree: \<open>InsertIntoNode\<close> returns and keeps the invariant, by induction on the subtree it is called
  with. Its result is a tree of the same height, or two trees and the key between them for the node above.
\<close>

lemma ptr_of_not_Null [simp]: "ptr_of t \<noteq> Null"
  by (cases t) auto

text \<open>Where a search goes down, no item on the other sides has the key, or the separator on the right has it, and with it the last item in
  front of it.\<close>

definition key_near :: "('k, 'i) BTreeParams \<Rightarrow> ('k, 'i) BTree \<Rightarrow> frame list \<Rightarrow> 'k \<Rightarrow> bool" where
  "key_near p h C key \<longleftrightarrow>
     (\<forall>k\<in>set (seps_left h C). Less p k key) \<and> (\<forall>k\<in>set (seps_right h C). Less p key k) \<or>
     (\<exists>k ks. seps_right h C = k # ks \<and> \<not> Less p k key \<and> \<not> Less p key k)"

context btree
begin

lemma outcome_kept:
  assumes "tree_inv p h' (n + length C) (plug C t)" "added p key h (leaves_of (plug C t)) h' (leaves_of (plug C t)) ref"
  shows "outcome p h n C t key (h', ref, True, nk, Null)"
  using assms unfolding outcome_def by (simp only: prod.case) (simp, blast)

lemma outcome_pending:
  assumes "pending p h' n C t1 k t2"
    "added p key h (leaves_of (plug C t)) h' (leaves_left C @ leaves_of t1 @ leaves_of t2 @ leaves_right C) ref"
  shows "outcome p h n C t key (h', ref, True, k, ptr_of t2)"
  using assms unfolding outcome_def by (simp only: prod.case) (simp, blast)

section \<open>A new leaf\<close>

lemma leaf_split:
  assumes inv: "tree_inv p h n (plug C (SLeaf a))"
    and pl: "place h (leaves_left C) a (leaves_right C) key slot" and full: "leaf_size h a = LEAF_CAPACITY p"
  shows "outcome p h 0 C (SLeaf a) key (split_leaf p a slot key h)"
proof -
  let ?LA = "leaves_left C" and ?LB = "leaves_right C" and ?T = "plug C (SLeaf a)"
  define hc where "hc = h\<lparr>leavesCount := leavesCount h + 1\<rparr>"
  have T: "leaves_of ?T = ?LA @ a # ?LB" and S: "seps h ?T = seps_left h C @ seps_right h C"
    using leaves_plug [of C "SLeaf a"] seps_plug [of h C "SLeaf a"] by simp_all
  have inv': "tree_ok p h n ?T" "seq_inv p h (?LA @ a # ?LB) (seps_left h C @ seps_right h C)"
    "branchesCount h = of_nat (branches_in (ptrs_of ?T))"
    using inv unfolding tree_inv_def T S by simp_all
  then have wf: "wf_around p h 0 (LeafPtr a) C" "distinct (ptrs_around C @ [LeafPtr a])" "level h (LeafPtr a) = 0"
    "\<forall>q\<in>set (ptrs_around C) \<union> {LeafPtr a}. fresh_below h q"
    unfolding tree_ok_plug by auto
  have dist: "distinct (?LA @ a # ?LB)" using inv'(1) T distinct_leaves [of ?T] by (simp add: tree_ok_def)
  have mem: "LeafPtr c \<in> set (ptrs_around C) \<union> {LeafPtr a}" if "c \<in> set (?LA @ a # ?LB)" for c
    using that leaves_ptrs [of c ?T] T set_ptrs_plug [of C "SLeaf a"] by simp
  then have top: "\<forall>c\<in>set (?LA @ a # ?LB). c < leaf_top h"
    using wf(4) by (fastforce simp: fresh_below_def)
  have ok: "leaf_ok p h a" "leaf_ok p hc a" "chain hc None (?LA @ a # ?LB) None"
    using inv'(2) chain_cong [of "?LA @ a # ?LB" hc h None None]
    by (simp_all add: seq_inv_def leaf_ok_def hc_def)
  have slot: "slot \<le> leaf_size h a" using pl by (simp add: place_def)
  obtain ref h1 b where e: "b = leaf_top hc"
    "Leaf_InsertAndSplit p a slot key hc = (ref, Leaf_GetMaxKey p a h1, LeafPtr b, h1)"
    "\<forall>c. c \<noteq> a \<longrightarrow> c \<noteq> b \<longrightarrow> items h1 c = items hc c \<and> leaf_size h1 c = leaf_size hc c"
    "leaf_ok p h1 a" "leaf_ok p h1 b" "LEAF_CAPACITY p div 2 \<le> leaf_size h1 a" "LEAF_CAPACITY p div 2 \<le> leaf_size h1 b"
    "content h1 a @ content h1 b = new_items slot key hc a"
    "fst ref \<in> {a, b}" "snd ref < leaf_size h1 (fst ref)" "items h1 (fst ref) ! snd ref = item_of p key"
    "chain h1 None (?LA @ a # b # ?LB) None" "level h1 (LeafPtr b) = 0"
    "same_nodes hc h1 (- {LeafPtr b})" "same_links hc h1 (- {LeafPtr b})" "keys h1 = keys hc"
    "root h1 = root hc" "firstLeaf h1 = firstLeaf hc" "itemsCount h1 = itemsCount hc" "leavesCount h1 = leavesCount hc"
    "branchesCount h1 = branchesCount hc" "leaf_top h1 = Suc b" "branch_top h1 = branch_top hc"
    using Split_effect [OF ok(2) _ _ _ ok(3) dist, of slot key] full slot top by (auto simp: hc_def)
  have b: "b = leaf_top h" "b \<notin> set (?LA @ a # ?LB)" "LeafPtr b \<notin> set (ptrs_around C) \<union> {LeafPtr a}"
    using e(1) top wf(4) by (auto simp: hc_def fresh_below_def)
  have ab: "content h1 a @ content h1 b = insert_at slot (item_of p key) (content h a)"
    using e(8) by (simp add: new_items_def content_def hc_def)
  have oth: "items h1 c = items h c \<and> leaf_size h1 c = leaf_size h c" if "c \<in> set ?LA \<union> set ?LB" for c
    using that e(3) b(2) dist by (auto simp: hc_def)
  have len: "length (content h a) = leaf_size h a" by (rule length_content [OF ok(1)])
  have seq: "seq_inv p h1 (?LA @ a # b # ?LB) (seps_left h C @ key_of p (last (content h1 a)) # seps_right h C)"
    by (rule seq_inv_new [OF inv'(2) _ e(12) _ _ oth e(4-7) ab])
      (use pl len length_seps_around [OF wf(1)] e(18,20) in \<open>simp_all add: place_def hc_def\<close>)
  have sep: "seps_left h1 C = seps_left h C" "seps_right h1 C = seps_right h C"
    using seps_around_cong [of h h1 C] e(16) by (simp_all add: same_keys_def hc_def)
  have sub: "set (ptrs_around C) \<union> {LeafPtr a} \<subseteq> - {LeafPtr b}" using b(3) by auto
  have nodes: "same_nodes h h1 (set (ptrs_around C) \<union> {LeafPtr a})" "same_links h h1 (set (ptrs_around C) \<union> {LeafPtr a})"
    using same_mono(1) [OF e(14) sub] same_mono(2) [OF e(15) sub] by (simp_all add: same_nodes_def same_links_def hc_def)
  have "wf_around p h1 0 (LeafPtr a) C"
    using wf_around_cong [OF same_mono(1) [OF nodes(1)], of C "LeafPtr a" p 0] same_mono(2) [OF nodes(2)] e(17) wf(1)
    by (auto simp: hc_def)
  moreover have "level h1 (LeafPtr a) = 0" using nodes(1) wf(3) by (simp add: same_nodes_def)
  moreover have "fresh_below h1 q" if "q \<in> set (ptrs_around C) \<union> {LeafPtr a, LeafPtr b}" for q
    using that wf(4) e(22,23) b(1) by (auto simp: fresh_below_def hc_def split: node_ptr.splits)
  moreover have "branchesCount h1 = of_nat (branches_in (ptrs_around C @ [LeafPtr a, LeafPtr b]))"
  proof -
    have "branches_in (ptrs_of ?T) = branches_in (ptrs_around C @ [LeafPtr a])"
      unfolding branches_in_def by (metis mset_append mset_filter mset_ptrs_plug ptrs_of.simps(1) size_mset)
    then show ?thesis using inv'(3) e(21) by (simp add: branches_in_def hc_def)
  qed
  ultimately have "pending p h1 0 C (SLeaf a) (Leaf_GetMaxKey p a h1) (SLeaf b)"
    using seq wf(2) b(3) e(13) GetMaxKey_content [OF e(4)] by (simp add: pending_def sep)
  moreover have "added p key h (?LA @ a # ?LB) h1 (?LA @ a # b # ?LB) ref"
  proof (rule added_at [OF pl ok(1)])
    show "contents h1 (?LA @ a # b # ?LB) = contents h ?LA @ insert_at slot (item_of p key) (content h a) @ contents h ?LB"
      using contents_cong [of ?LA h1 h] contents_cong [of ?LB h1 h] ab oth by (simp add: content_def)
  qed (use e(9-11,19) in \<open>auto simp: points_at_def hc_def\<close>)
  moreover have "split_leaf p a slot key h = (h1, ref, True, Leaf_GetMaxKey p a h1, LeafPtr b)"
    using e(2) unfolding split_leaf_def hc_def [symmetric] by (simp add: Let_def)
  ultimately show ?thesis
    using outcome_pending [of h1 0 C "SLeaf a" "Leaf_GetMaxKey p a h1" "SLeaf b" key h "SLeaf a" ref] by (simp add: T)
qed

lemma leaf_insert:
  assumes inv: "tree_inv p h n (plug C (SLeaf a))"
    and left: "\<And>k. k \<in> set (seps_left h C) \<Longrightarrow> tree_order p k key" and right: "\<And>k. k \<in> set (seps_right h C) \<Longrightarrow> \<not> Less p k key"
  shows "\<exists>ins. InsertIntoLeaf p a key newKey Null h = Some ins \<and> outcome p h 0 C (SLeaf a) key ins"
proof -
  let ?LA = "leaves_left C" and ?LB = "leaves_right C" and ?T = "plug C (SLeaf a)"
  have T: "leaves_of ?T = ?LA @ a # ?LB" and S: "seps h ?T = seps_left h C @ seps_right h C"
    using leaves_plug [of C "SLeaf a"] seps_plug [of h C "SLeaf a"] by simp_all
  have seq: "seq_inv p h (?LA @ a # ?LB) (seps_left h C @ seps_right h C)" using inv unfolding tree_inv_def T S by simp
  have wf: "wf_around p h 0 (LeafPtr a) C" "n = 0 + length C"
    using inv unfolding tree_inv_def tree_ok_plug by auto
  have len: "length (seps_left h C) = length ?LA" using length_seps_around [OF wf(1)] by simp
  obtain slot found where find: "Leaf_FindSlot p a key h = (slot, found)" by fastforce
  note search = leaf_search [OF seq len left right find]
  show ?thesis
  proof (cases "found \<and> UNIQUE_KEYS p")
    case True
    then have "InsertIntoLeaf p a key newKey Null h = Some (h, (a, slot), False, newKey, Null)"
      by (simp add: InsertIntoLeaf_def find)
    moreover have "points_at h (leaves_of ?T) (a, slot) (items h a ! slot)"
      using search True by (simp add: points_at_def T)
    ultimately show ?thesis using True search by (auto simp: outcome_def)
  next
    case False
    then have pl: "place h ?LA a ?LB key slot" using search by (auto simp: place_def)
    have split: "outcome p h 0 C (SLeaf a) key (split_leaf p a slot key h)" if "leaf_size h a = LEAF_CAPACITY p"
      by (rule leaf_split [OF inv pl that])
    have kept: "outcome p h 0 C (SLeaf a) key (h', ref, True, newKey, Null)"
      if "tree_inv p h' n ?T" "added p key h (leaves_of ?T) h' (leaves_of ?T) ref" for h' ref
      using that outcome_kept [of h' 0 C "SLeaf a"] unfolding wf(2) by blast
    show ?thesis
    proof (cases "leaf_size h a < LEAF_CAPACITY p")
      case room: True
      obtain ref h' where ins: "Leaf_Insert p a slot key h = (ref, h')" by fastforce
      then have "InsertIntoLeaf p a key newKey Null h = Some (h', ref, True, newKey, Null)"
        using False room by (simp add: InsertIntoLeaf_def find Let_def)
      then show ?thesis using kept leaf_room [OF inv T pl room ins] by blast
    next
      case False2: False
      then have full: "leaf_size h a = LEAF_CAPACITY p" using seq by (auto simp: seq_inv_def leaf_ok_def)
      note code = InsertIntoLeaf_def [of p a key newKey Null h, unfolded find Let_def prod.case]
      have nf: "(found \<and> UNIQUE_KEYS p) = False" using False by blast
      have new: ?thesis if "InsertIntoLeaf p a key newKey Null h = Some (split_leaf p a slot key h)"
        using that split [OF full] by blast
      show ?thesis
      proof (cases "parent_of h (LeafPtr a) = None")
        case True
        show ?thesis by (rule new) (use True full in \<open>simp add: code nf\<close>)
      next
        case parent: False
        then obtain b ls rs C' where C: "C = (b, ls, rs) # C'" using wf(1) by (cases C) auto
        have "ls @ rs \<noteq> []" using wf(1) by (auto simp: C branch_ok_def)
        moreover have "\<forall>t\<in>set (ls @ rs). leaves_of t \<noteq> []" using wf(1) leaves_of_nonempty by (fastforce simp: C)
        ultimately have ne: "?LA \<noteq> [] \<or> ?LB \<noteq> []" by (cases ls; cases rs) (auto simp: C)
        define l where "l = last ?LA"
        define r where "r = hd ?LB"
        have ch: "prev_leaf h a = (if ?LA = [] then None else Some l)" "next_leaf h a = (if ?LB = [] then None else Some r)"
          using seq by (auto simp: seq_inv_def chain_append l_def r_def)
        have R: ?thesis if c: "?LB \<noteq> []" "leaf_size h r < LEAF_CAPACITY p"
          "InsertIntoLeaf p a key newKey Null h =
            map_option (\<lambda>(ref, h). (h, ref, True, newKey, Null)) (InsertAndRearrangeWithRight p a slot key r h)"
        proof -
          have T': "leaves_of ?T = ?LA @ a # r # tl ?LB" using T c(1) by (simp add: r_def)
          have pl': "place h ?LA a (r # tl ?LB) key slot" using pl c(1) by (simp add: r_def)
          obtain ref h' where e: "InsertAndRearrangeWithRight p a slot key r h = Some (ref, h')" "tree_inv p h' n ?T"
            "added p key h (leaves_of ?T) h' (leaves_of ?T) ref"
            using leaf_right [OF inv T' pl' full c(2)] by blast
          then have "InsertIntoLeaf p a key newKey Null h = Some (h', ref, True, newKey, Null)" using c(3) by simp
          then show ?thesis using kept [OF e(2,3)] by blast
        qed
        have L: ?thesis if c: "?LA \<noteq> []" "leaf_size h l < LEAF_CAPACITY p"
          "InsertIntoLeaf p a key newKey Null h =
            map_option (\<lambda>(ref, h). (h, ref, True, newKey, Null)) (InsertAndRearrangeWithLeft p a slot key l h)"
        proof -
          have T': "leaves_of ?T = butlast ?LA @ l # a # ?LB" using T c(1) by (simp add: l_def)
          have pl': "place h (butlast ?LA @ [l]) a ?LB key slot" using pl c(1) by (simp add: l_def)
          obtain ref h' where e: "InsertAndRearrangeWithLeft p a slot key l h = Some (ref, h')" "tree_inv p h' n ?T"
            "added p key h (leaves_of ?T) h' (leaves_of ?T) ref"
            using leaf_left [OF inv T' pl' full c(2)] by blast
          then have "InsertIntoLeaf p a key newKey Null h = Some (h', ref, True, newKey, Null)" using c(3) by simp
          then show ?thesis using kept [OF e(2,3)] by blast
        qed
        have le: "leaf_size h r \<le> LEAF_CAPACITY p" if "?LB \<noteq> []"
          using seq that by (auto simp: seq_inv_def leaf_ok_def r_def)
        note run = code ch parent full nf
        consider "?LA = []" "?LB \<noteq> []" | "?LA \<noteq> []" "?LB = []" | "?LA \<noteq> []" "?LB \<noteq> []" using ne by blast
        then show ?thesis
        proof cases
          case 1
          show ?thesis
          proof (cases "leaf_size h r < LEAF_CAPACITY p")
            case True
            show ?thesis by (rule R) (use True run 1 in simp_all)
          next
            case False
            show ?thesis by (rule new) (use False run 1 in simp)
          qed
        next
          case 2
          show ?thesis
          proof (cases "leaf_size h l < LEAF_CAPACITY p")
            case True
            show ?thesis by (rule L) (use True run 2 in simp_all)
          next
            case False
            show ?thesis by (rule new) (use False run 2 in simp)
          qed
        next
          case 3
          consider "leaf_size h l < leaf_size h r" | "\<not> leaf_size h l < leaf_size h r" "leaf_size h r < LEAF_CAPACITY p"
            | "\<not> leaf_size h l < leaf_size h r" "\<not> leaf_size h r < LEAF_CAPACITY p" by blast
          then show ?thesis
          proof cases
            case a: 1
            show ?thesis by (rule L) (use a run 3 le in simp_all)
          next
            case a: 2
            show ?thesis by (rule R) (use a run 3 in simp_all)
          next
            case a: 3
            show ?thesis by (rule new) (use a run 3 in simp)
          qed
        qed
      qed
    qed
  qed
qed

section \<open>A branch with one child more\<close>

lemma branches_in_mset: "mset xs = mset ys \<Longrightarrow> branches_in xs = branches_in ys"
  unfolding branches_in_def by (metis mset_filter size_mset)

lemma pending_frame:
  assumes pend: "pending p h n ((b, ls, rs) # C) t1 k t2" and ts: "ts = ls @ t1 # t2 # rs"
  shows "branch_ok p h n b (map ptr_of (ls @ t1 # rs))" "\<forall>t\<in>set ts. shape_ok p h n t \<and> big_branch p h t"
    "wf_around p h (Suc n) (BranchPtr b) C" "C \<noteq> [] \<Longrightarrow> BRANCH_CAPACITY p div 2 \<le> branch_size h b"
    "distinct (ptrs_around C @ BranchPtr b # concat (map ptrs_of ts))"
    "\<forall>q\<in>set (ptrs_around C @ BranchPtr b # concat (map ptrs_of ts)). fresh_below h q"
    "branchesCount h = of_nat (branches_in (ptrs_around C @ BranchPtr b # concat (map ptrs_of ts)))"
    "seq_inv p h (leaves_left C @ concat (map leaves_of ts) @ leaves_right C)
       (seps_left h C @ weave (map (seps h) ts) (insert_at (length ls) k (take (branch_size h b) (keys h b))) @ seps_right h C)"
proof -
  note pend = pend [unfolded pending_def]
  have m: "mset (ptrs_around ((b, ls, rs) # C) @ ptrs_of t1 @ ptrs_of t2) =
      mset (ptrs_around C @ BranchPtr b # concat (map ptrs_of ts))" by (simp add: ts)
  show ok: "branch_ok p h n b (map ptr_of (ls @ t1 # rs))" "\<forall>t\<in>set ts. shape_ok p h n t \<and> big_branch p h t"
    "wf_around p h (Suc n) (BranchPtr b) C" "C \<noteq> [] \<Longrightarrow> BRANCH_CAPACITY p div 2 \<le> branch_size h b"
    using pend by (auto simp: ts)
  show "distinct (ptrs_around C @ BranchPtr b # concat (map ptrs_of ts))"
    using pend mset_eq_imp_distinct_iff [OF m] by blast
  show "\<forall>q\<in>set (ptrs_around C @ BranchPtr b # concat (map ptrs_of ts)). fresh_below h q"
    using pend mset_eq_setD [OF m] by blast
  show "branchesCount h = of_nat (branches_in (ptrs_around C @ BranchPtr b # concat (map ptrs_of ts)))"
    using pend branches_in_mset [OF m] by simp
  have "weave (map (seps h) ts) (insert_at (length ls) k (take (branch_size h b) (keys h b))) =
      weave_left (map (seps h) ls) (keys h b) @ seps h t1 @ k # seps h t2 @
      weave_right (map (seps h) rs) (drop (length ls) (keys h b))"
    using weave_insert [of "map (seps h) ls" "map (seps h) rs" "branch_size h b" "keys h b" "seps h t1" "seps h t2" k] ok(1)
    by (simp add: ts branch_ok_def)
  then show "seq_inv p h (leaves_left C @ concat (map leaves_of ts) @ leaves_right C)
       (seps_left h C @ weave (map (seps h) ts) (insert_at (length ls) k (take (branch_size h b) (keys h b))) @ seps_right h C)"
    using pend by (simp add: ts)
qed

lemma branch_room:
  assumes pend: "pending p h n ((b, ls, rs) # C) t1 k t2" and room: "branch_size h b < BRANCH_CAPACITY p"
    and h': "h' = Branch_Insert b (length ls) k (ptr_of t2) h"
  shows "tree_inv p h' (Suc n + length C) (plug C (SBranch b (ls @ t1 # t2 # rs))) \<and> same_leaves h h'"
proof -
  define ts where "ts = ls @ t1 # t2 # rs"
  note f = pending_frame [OF pend ts_def]
  have dist: "distinct (BranchPtr b # concat (map ptrs_of ts))" using f(5) by simp
  note g = Branch_Insert_fields [OF f(1) room dist [unfolded ts_def], of k, folded h' ts_def]
  have out: "set (concat (map ptrs_of ts)) \<subseteq> - {BranchPtr b}" "set (ptrs_around C) \<subseteq> - {BranchPtr b}"
    "insert (BranchPtr b) (set (ptrs_around C)) \<subseteq> - set (map ptr_of ts)"
    "set (concat (map subptrs_of ts)) \<subseteq> - set (map ptr_of ts)"
  proof -
    have sub: "set (map ptr_of ts) \<subseteq> set (concat (map ptrs_of ts))" by auto
    show "set (concat (map ptrs_of ts)) \<subseteq> - {BranchPtr b}" "set (ptrs_around C) \<subseteq> - {BranchPtr b}"
      "insert (BranchPtr b) (set (ptrs_around C)) \<subseteq> - set (map ptr_of ts)"
      using f(5) sub by auto
    show "set (concat (map subptrs_of ts)) \<subseteq> - set (map ptr_of ts)"
      using subptrs_distinct [of ts] dist by fastforce
  qed
  have nodes: "same_nodes h h' (- {BranchPtr b})" and links: "same_links h h' (- set (map ptr_of ts))"
    and ks: "same_keys h h' (- {BranchPtr b})" using g by blast+
  have shape: "shape_ok p h' (Suc n) (SBranch b ts)"
    by (rule rebuild_branch [OF f(2) _ same_mono(1) [OF nodes out(1)] same_mono(2) [OF links out(4)]]) (use g in blast)
  have around: "wf_around p h' (Suc n) (BranchPtr b) C"
    using wf_around_cong [OF same_mono(1) [OF nodes out(2)] same_mono(2) [OF links out(3)]] f(3) g by blast
  have "same_keys h h' (set (ptrs_of t))" if "t \<in> set ts" for t
    by (rule same_mono(3) [OF ks]) (use out(1) that in auto)
  then have "map (seps h') ts = map (seps h) ts" by (intro map_cong refl seps_cong)
  moreover have kk: "take (branch_size h' b) (keys h' b) = insert_at (length ls) k (take (branch_size h b) (keys h b))"
    using g by blast
  have "weave (map (seps h) ts) (keys h' b) =
      weave (map (seps h) ts) (insert_at (length ls) k (take (branch_size h b) (keys h b)))"
    unfolding kk [symmetric] using shape by (intro weave_take_all [symmetric]) (auto simp: branch_ok_def)
  ultimately have sep: "seps h' (plug C (SBranch b ts)) = seps_left h C @
      weave (map (seps h) ts) (insert_at (length ls) k (take (branch_size h b) (keys h b))) @ seps_right h C"
    using seps_around_cong [OF same_mono(3) [OF ks out(2)]] g by (simp add: seps_plug del: map_eq_conv)
  have sl: "same_leaves h h'" using g by blast
  have "seq_inv p h' (leaves_of (plug C (SBranch b ts))) (seps h' (plug C (SBranch b ts)))"
    unfolding same_leaves_seq [OF sl] sep leaves_plug using f(8) by simp
  moreover have "branchesCount h' = of_nat (branches_in (ptrs_of (plug C (SBranch b ts))))"
    using f(7) g branches_in_mset [of "ptrs_of (plug C (SBranch b ts))" "ptrs_around C @ BranchPtr b # concat (map ptrs_of ts)"]
    by (simp add: mset_ptrs_plug)
  moreover have "fresh_below h' q" if "fresh_below h q" for q
    using that g by (simp add: fresh_below_def same_leaves_def split: node_ptr.splits)
  then have "tree_ok p h' (Suc n + length C) (plug C (SBranch b ts))"
    unfolding tree_ok_plug using shape around f(4,5,6) g by (intro exI [of _ "Suc n"]) (auto simp del: shape_ok.simps)
  ultimately show ?thesis using sl by (simp add: tree_inv_def ts_def)
qed

lemma branch_split:
  assumes pend: "pending p h n ((b, ls, rs) # C) t1 k t2" and full: "\<not> branch_size h b < BRANCH_CAPACITY p"
    and op: "Branch_InsertAndSplit p b (length ls) k (ptr_of t2) newKey (h\<lparr>branchesCount := branchesCount h + 1\<rparr>) = (up, q, h')"
  shows "\<exists>u1 u2. q = ptr_of u2 \<and> pending p h' (Suc n) C u1 up u2 \<and> same_leaves h h' \<and>
    leaves_of u1 @ leaves_of u2 = concat (map leaves_of (ls @ t1 # t2 # rs))"
proof -
  define ts where "ts = ls @ t1 # t2 # rs"
  define c where "c = branch_top h"
  define m where "m = (branch_size h b + 1) div 2"
  define K where "K = insert_at (length ls) k (keys h b)"
  define A where "A = take (Suc m) ts"
  define B where "B = drop (Suc m) ts"
  define h0 where "h0 = h\<lparr>branchesCount := branchesCount h + 1\<rparr>"
  note f = pending_frame [OF pend ts_def]
  have dist: "distinct (BranchPtr b # concat (map ptrs_of ts))" using f(5) by simp
  have bs: "branch_size h b = BRANCH_CAPACITY p" "length (keys h b) = BRANCH_CAPACITY p" "length ls + length rs = branch_size h b"
    using f(1) full by (auto simp: branch_ok_def)
  have new: "BranchPtr c \<notin> set (ptrs_around C @ BranchPtr b # concat (map ptrs_of ts))"
    using f(6) by (fastforce simp: c_def fresh_below_def)
  have sub: "set (map ptr_of ts) \<subseteq> set (concat (map ptrs_of ts))" by auto
  have ok0: "branch_ok p h0 n b (map ptr_of (ls @ t1 # rs))" 
    using branch_ok_cong [of h h0 b] f(1) by (simp add: h0_def same_nodes_def same_links_def)
  have pre: "c = branch_top h0" "b \<noteq> c" "\<forall>t\<in>set ts. ptr_of t \<noteq> BranchPtr c" "branch_size h0 b = BRANCH_CAPACITY p"
    "m = (branch_size h0 b + 1) div 2" "K = insert_at (length ls) k (keys h0 b)" "branch_size h0 b = branch_size h b"
    using new sub bs by (auto simp: c_def h0_def m_def K_def)
  note g = Branch_Split_fields [OF ok0 pre(4) branch_capacity dist [unfolded ts_def] pre(1,2) pre(3) [unfolded ts_def]
      op [folded h0_def] pre(5) ts_def pre(6), unfolded pre(7), folded A_def B_def]
  have m: "Suc m \<le> branch_size h b" using bs(1) branch_capacity by (simp add: m_def)
  have "length ts = branch_size h b + 2" using bs(3) by (simp add: ts_def)
  then have AB: "ts = A @ B" "A \<noteq> []" "B \<noteq> []" "length A = Suc m" "length B = Suc (branch_size h b - m)" "m \<le> branch_size h b"
    using m by (auto simp: A_def B_def)
  have out: "set (concat (map ptrs_of ts)) \<subseteq> - {BranchPtr b, BranchPtr c}" "set (ptrs_around C) \<subseteq> - {BranchPtr b, BranchPtr c}"
    "insert (BranchPtr b) (set (ptrs_around C)) \<subseteq> - insert (BranchPtr c) (set (map ptr_of ts))"
    "set (concat (map subptrs_of ts)) \<subseteq> - insert (BranchPtr c) (set (map ptr_of ts))"
  proof -
    have d: "set (ptrs_around C) \<inter> set (concat (map ptrs_of ts)) = {}" "BranchPtr b \<notin> set (concat (map ptrs_of ts))"
      "BranchPtr b \<notin> set (ptrs_around C)" "BranchPtr c \<notin> set (concat (map ptrs_of ts))" "BranchPtr c \<notin> set (ptrs_around C)" "b \<noteq> c"
      using f(5) new by auto
    show "set (concat (map ptrs_of ts)) \<subseteq> - {BranchPtr b, BranchPtr c}" "set (ptrs_around C) \<subseteq> - {BranchPtr b, BranchPtr c}"
      using d(2-5) by blast+
    show "insert (BranchPtr b) (set (ptrs_around C)) \<subseteq> - insert (BranchPtr c) (set (map ptr_of ts))"
      using d sub by (simp del: set_map set_concat) blast
    have "set (concat (map subptrs_of ts)) \<subseteq> set (concat (map ptrs_of ts))" by (auto simp: ptrs_of_sub)
    moreover have "set (concat (map subptrs_of ts)) \<subseteq> - set (map ptr_of ts)"
      using subptrs_distinct [of ts] dist by fastforce
    ultimately show "set (concat (map subptrs_of ts)) \<subseteq> - insert (BranchPtr c) (set (map ptr_of ts))" using new by auto
  qed
  have nodes: "same_nodes h h' (- {BranchPtr b, BranchPtr c})" and links: "same_links h h' (- insert (BranchPtr c) (set (map ptr_of ts)))"
    and ks: "same_keys h h' (- {BranchPtr b, BranchPtr c})" and sl: "same_leaves h h'"
    using g by (simp_all add: same_nodes_def same_links_def same_keys_def same_leaves_def h0_def)
  have mem: "set (concat (map ptrs_of X)) \<subseteq> - {BranchPtr b, BranchPtr c}"
    "set (concat (map subptrs_of X)) \<subseteq> - insert (BranchPtr c) (set (map ptr_of ts))" "\<forall>t\<in>set X. shape_ok p h n t \<and> big_branch p h t"
    if "X = A \<or> X = B" for X
    using that out(1,4) f(2) AB(1) by auto
  have shapeA: "shape_ok p h' (Suc n) (SBranch b A)" and shapeB: "shape_ok p h' (Suc n) (SBranch c B)"
    by (rule rebuild_branch [OF mem(3) _ same_mono(1) [OF nodes mem(1)] same_mono(2) [OF links mem(2)]]; use g in simp)+
  have around: "wf_around p h' (Suc n) (BranchPtr b) C"
    using wf_around_cong [OF same_mono(1) [OF nodes out(2)] same_mono(2) [OF links out(3)]] f(3) g by (simp add: h0_def)
  have big: "big_branch p h' (SBranch b A)" "big_branch p h' (SBranch c B)"
    using g bs by (auto simp: m_def)
  have "same_keys h h' (set (ptrs_of t))" if "t \<in> set ts" for t
    by (rule same_mono(3) [OF ks]) (use out(1) that in auto)
  then have sk: "map (seps h') A = map (seps h) A" "map (seps h') B = map (seps h) B"
    using AB(1) by (auto intro!: seps_cong)
  have lenK: "length K = Suc (branch_size h b)" using bs by (simp add: K_def)
  have kA: "weave (map (seps h) A) (keys h' b) = weave (map (seps h) A) K"
  proof -
    have "length (keys h' b) = BRANCH_CAPACITY p" using shapeA by (simp add: branch_ok_def)
    then show ?thesis
      using weave_take_all [of "map (seps h) A" m "keys h' b"] weave_take_all [of "map (seps h) A" m K] g AB lenK bs by simp
  qed
  have kB: "weave (map (seps h) B) (keys h' c) = weave (map (seps h) B) (drop (Suc m) K)"
  proof -
    have "length (keys h' c) = BRANCH_CAPACITY p" using shapeB by (simp add: branch_ok_def)
    then show ?thesis
      using weave_take_all [of "map (seps h) B" "branch_size h b - m" "keys h' c"] g AB bs by simp
  qed
  have "hd (drop m K) = up" using g lenK AB(6) by (simp add: hd_drop_conv_nth)
  then have wv: "weave (map (seps h) ts) K = seps h' (SBranch b A) @ up # seps h' (SBranch c B)"
    using weave_two [of "map (seps h) A" "map (seps h) B" K] AB kA kB sk by (simp del: map_eq_conv)
  have "take (branch_size h b) (keys h b) = keys h b" using bs by simp
  then have "seq_inv p h' (leaves_left C @ leaves_of (SBranch b A) @ leaves_of (SBranch c B) @ leaves_right C)
      (seps_left h' C @ seps h' (SBranch b A) @ up # seps h' (SBranch c B) @ seps_right h' C)"
    using f(8) wv seps_around_cong [OF same_mono(3) [OF ks out(2)]]
    by (simp only: same_leaves_seq [OF sl] K_def [symmetric]) (simp add: AB(1))
  moreover have "distinct (ptrs_around C @ ptrs_of (SBranch b A) @ ptrs_of (SBranch c B))"
    using f(5) new by (auto simp: AB(1))
  moreover have "branchesCount h' = of_nat (branches_in (ptrs_around C @ ptrs_of (SBranch b A) @ ptrs_of (SBranch c B)))"
    using f(7) g by (simp add: h0_def branches_in_def AB(1))
  moreover have "fresh_below h' q" if "fresh_below h q \<or> q = BranchPtr c" for q
    using that g sl by (auto simp: fresh_below_def same_leaves_def c_def split: node_ptr.splits)
  then have "\<forall>q\<in>set (ptrs_around C @ ptrs_of (SBranch b A) @ ptrs_of (SBranch c B)). fresh_below h' q"
    using f(6) by (auto simp: AB(1))
  ultimately have "pending p h' (Suc n) C (SBranch b A) up (SBranch c B)"
    unfolding pending_def using shapeA shapeB big around by (simp del: shape_ok.simps big_branch.simps seps.simps)
  moreover have "leaves_of (SBranch b A) @ leaves_of (SBranch c B) = concat (map leaves_of ts)" by (simp add: AB(1))
  moreover have "q = ptr_of (SBranch c B)" using g by simp
  ultimately show ?thesis using sl unfolding ts_def by blast
qed

section \<open>The way down\<close>

lemma sorted_lasts:
  "sorted_wrt R (map f (concat xss)) \<Longrightarrow> \<forall>xs\<in>set xss. xs \<noteq> [] \<Longrightarrow> sorted_wrt R (map (\<lambda>xs. f (last xs)) xss)"
proof (induction xss)
  case (Cons xs xss)
  have "last ys \<in> set (concat xss)" if "ys \<in> set xss" for ys 
    using that Cons.prems(2) by (auto intro!: bexI [of _ ys])
  then show ?case using Cons by (auto simp: sorted_wrt_append)
qed simp

lemma seps_sorted:
  assumes "seq_inv p h L K"
  shows "sorted_wrt (tree_order p) K"
proof -
  have "sorted_wrt (tree_order p) (map (\<lambda>xs. key_of p (last xs)) (map (content h) L))"
    using assms content_nonempty by (intro sorted_lasts) (auto simp: seq_inv_def contents_def)
  moreover have "L = butlast L @ [last L]" using assms by (simp add: seq_inv_def)
  ultimately have "sorted_wrt (tree_order p) (map (\<lambda>a. key_of p (last (content h a))) (butlast L @ [last L]))" by (simp add: o_def)
  then show ?thesis using assms by (simp add: seq_inv_def sorted_wrt_append)
qed

lemma sorted_weave_keys:
  "sorted_wrt R (weave xs ks) \<Longrightarrow> length xs \<le> Suc (length ks) \<Longrightarrow>
    sorted_wrt R (take (length xs - 1) ks) \<and> set (take (length xs - 1) ks) \<subseteq> set (weave xs ks)"
proof (induction xs ks rule: weave.induct)
  case (3 x y xs ks)
  then obtain k js where ks: "ks = k # js" by (cases ks) auto
  then show ?case using 3 by (auto simp: sorted_wrt_append)
qed simp_all

lemma weave_left_last:
  "xs \<noteq> [] \<Longrightarrow> length xs \<le> length ks \<Longrightarrow> \<exists>ys. weave_left xs ks = ys @ [ks ! (length xs - 1)]"
proof (induction xs arbitrary: ks)
  case (Cons x xs)
  then obtain k js where ks: "ks = k # js" by (cases ks) auto
  show ?case
  proof (cases "xs = []")
    case False
    then show ?thesis using Cons.IH [of js] Cons.prems ks by fastforce
  qed (simp add: ks)
qed simp

lemma branch_search:
  assumes inv: "tree_inv p h N (plug C (SBranch b ts))"
    and left: "\<And>k. k \<in> set (seps_left h C) \<Longrightarrow> tree_order p k key" and right: "\<And>k. k \<in> set (seps_right h C) \<Longrightarrow> \<not> Less p k key"
    and slot: "slot = fst (Branch_FindSlot p b key h)"
  shows "\<exists>ls t rs. ts = ls @ t # rs \<and> length ls = slot \<and> childs h b ! slot = ptr_of t \<and>
    (\<forall>k\<in>set (seps_left h ((b, ls, rs) # C)). tree_order p k key) \<and> (\<forall>k\<in>set (seps_right h ((b, ls, rs) # C)). \<not> Less p k key) \<and>
    (key_near p h C key \<longrightarrow> key_near p h ((b, ls, rs) # C) key)"
proof -
  define n where "n = branch_size h b"
  obtain m where "shape_ok p h m (SBranch b ts)" using inv unfolding tree_inv_def tree_ok_plug by blast
  then have ok: "length ts = Suc n" "n \<le> length (keys h b)" "take (Suc n) (childs h b) = map ptr_of ts"
    by (auto simp: branch_ok_def n_def)
  have W: "sorted_wrt (tree_order p) (weave (map (seps h) ts) (keys h b))"
    using seps_sorted [of h "leaves_of (plug C (SBranch b ts))" "seps h (plug C (SBranch b ts))"] inv
    by (simp add: tree_inv_def seps_plug sorted_wrt_append)
  have W2: "sorted_wrt (tree_order p) (weave (map (seps h) ts) (keys h b) @ seps_right h C)"
    using seps_sorted [of h "leaves_of (plug C (SBranch b ts))" "seps h (plug C (SBranch b ts))"] inv
    by (simp add: tree_inv_def seps_plug sorted_wrt_append)
  have "sorted_wrt (tree_order p) (map (\<lambda>k. k) (take n (keys h b)))"
    using sorted_weave_keys [OF W] ok by simp
  then have res: "search_result (UNIQUE_KEYS p) (\<lambda>k. k) key (keys h b) n (Branch_FindSlot p b key h)"
    unfolding Branch_FindSlot_def n_def [symmetric] by (rule BinarySearch_correct) (use ok in simp)
  define found where "found = snd (Branch_FindSlot p b key h)"
  have res: "slot \<le> n" "\<And>i. i < slot \<Longrightarrow> tree_order p (keys h b ! i) key"
    "\<And>i. slot \<le> i \<Longrightarrow> i < n \<Longrightarrow> \<not> Less p (keys h b ! i) key" "found \<Longrightarrow> slot < n \<and> \<not> Less p key (keys h b ! slot)"
    "\<not> found \<Longrightarrow> i < slot \<Longrightarrow> Less p (keys h b ! i) key" "\<not> found \<Longrightarrow> slot \<le> i \<Longrightarrow> i < n \<Longrightarrow> Less p key (keys h b ! i)" for i
    using res by (auto simp: search_result_def slot found_def split: prod.splits)
  define ls where "ls = take slot ts"
  define t where "t = ts ! slot"
  define rs where "rs = drop (Suc slot) ts"
  have ts: "ts = ls @ t # rs" "length ls = slot" "length rs = n - slot"
    using ok res(1) by (simp_all add: ls_def t_def rs_def id_take_nth_drop [symmetric] min_def)
  have ptr: "childs h b ! slot = ptr_of t"
  proof -
    have "childs h b ! slot = take (Suc n) (childs h b) ! slot" using res(1) by simp
    then show ?thesis using ok res(1) by (simp add: t_def)
  qed
  have W': "sorted_wrt (tree_order p) (weave_left (map (seps h) ls) (keys h b))"
    "sorted_wrt (tree_order p) (weave_right (map (seps h) rs) (drop slot (keys h b)))"
    using W ts(2) by (simp_all add: ts(1) weave_append sorted_wrt_append)
  have near_left: "Less p k key" if nf: "\<not> found" and k: "k \<in> set (weave_left (map (seps h) ls) (keys h b))" for k
  proof -
    have "ls \<noteq> []" using k by auto
    then have l: "Less p (keys h b ! (slot - 1)) key" using res(5) [OF nf, of "slot - 1"] ts(2) by (cases ls) auto
    obtain ys where ys: "weave_left (map (seps h) ls) (keys h b) = ys @ [keys h b ! (slot - 1)]"
      using weave_left_last [of "map (seps h) ls" "keys h b"] \<open>ls \<noteq> []\<close> ts(2) res(1) ok by auto
    show ?thesis
    proof (cases "k = keys h b ! (slot - 1)")
      case False
      then have "tree_order p k (keys h b ! (slot - 1))" using W'(1) k unfolding ys by (simp add: sorted_wrt_append)
      then have "\<not> Less p (keys h b ! (slot - 1)) k" by (rule order_imp_le)
      then show ?thesis using cmp_split [OF l, of k] by blast
    qed (use l in simp)
  qed
  have "tree_order p k key" if k: "k \<in> set (weave_left (map (seps h) ls) (keys h b))" for k
  proof -
    have "ls \<noteq> []" using k by auto
    then obtain ys where ys: "weave_left (map (seps h) ls) (keys h b) = ys @ [keys h b ! (slot - 1)]"
      using weave_left_last [of "map (seps h) ls" "keys h b"] ts(2) res(1) ok by auto
    have l: "tree_order p (keys h b ! (slot - 1)) key" using res(2) \<open>ls \<noteq> []\<close> ts(2) by (cases ls) auto
    consider "k = keys h b ! (slot - 1)" | "k \<in> set ys" using k ys by auto
    then show ?thesis
    proof cases
      case 2
      then have "tree_order p k (keys h b ! (slot - 1))" using W'(1) unfolding ys by (simp add: sorted_wrt_append)
      then show ?thesis using l by (rule order_trans)
    qed (use l in simp)
  qed
  moreover have "\<not> Less p k key" if k: "k \<in> set (weave_right (map (seps h) rs) (drop slot (keys h b)))" for k
  proof -
    have "rs \<noteq> []" using k by auto
    then have "slot < n" using ts(3) by (cases rs) auto
    then have r: "\<not> Less p (keys h b ! slot) key" "hd (drop slot (keys h b)) = keys h b ! slot"
      using res(3) ok by (simp_all add: hd_drop_conv_nth)
    obtain ys where ys: "weave_right (map (seps h) rs) (drop slot (keys h b)) = keys h b ! slot # ys"
      using \<open>rs \<noteq> []\<close> r(2) by (cases rs) auto
    consider "k = keys h b ! slot" | "k \<in> set ys" using k ys by auto
    then show ?thesis
    proof cases
      case 2
      then have "tree_order p (keys h b ! slot) k" using W'(2) unfolding ys by simp
      then show ?thesis using le_order [OF r(1)] order_imp_le by blast
    qed (use r in simp)
  qed
  moreover have "key_near p h ((b, ls, rs) # C) key" if near: "key_near p h C key"
  proof (cases "rs = []")
    case last: True
    then have nf: "\<not> found" using res(4) ts(3) by auto
    have "Less p k key" if k: "k \<in> set (weave_left (map (seps h) ls) (keys h b))" for k
      by (rule near_left [OF nf k])
    then show ?thesis using near last by (auto simp: key_near_def)
  next
    case False
    then have sl: "slot < n" using ts(3) by (cases rs) auto
    then have hd: "hd (drop slot (keys h b)) = keys h b ! slot" using ok by (simp add: hd_drop_conv_nth)
    obtain ys where ys: "weave_right (map (seps h) rs) (drop slot (keys h b)) = keys h b ! slot # ys"
      using False hd by (cases rs) auto
    show ?thesis
    proof (cases found)
      case True
      then show ?thesis using res(3,4) sl ys ts(2) by (auto simp: key_near_def)
    next
      case nf: False
      have above: "Less p key k" if k: "k \<in> set (weave_right (map (seps h) rs) (drop slot (keys h b)))" for k
      proof (cases "k = keys h b ! slot")
        case False
        then have "tree_order p (keys h b ! slot) k" using W'(2) k unfolding ys by auto
        then have "\<not> Less p k (keys h b ! slot)" by (rule order_imp_le)
        then show ?thesis using cmp_split [OF res(6) [OF nf order_refl sl], of k] by blast
      qed (use res(6) [OF nf order_refl sl] in simp)
      have "\<not> (\<exists>k ks. seps_right h C = k # ks \<and> \<not> Less p k key \<and> \<not> Less p key k)"
      proof
        assume "\<exists>k ks. seps_right h C = k # ks \<and> \<not> Less p k key \<and> \<not> Less p key k"
        then obtain k ks where "seps_right h C = k # ks" "\<not> Less p key k" by blast
        then have k: "k \<in> set (seps_right h C)" "\<not> Less p key k" by simp_all
        have "tree_order p (keys h b ! slot) k" using W2 k(1) ys ts(2) by (auto simp: ts(1) weave_append sorted_wrt_append)
        then have "\<not> Less p k (keys h b ! slot)" by (rule order_imp_le)
        then show False using cmp_split [OF res(6) [OF nf order_refl sl], of k] k(2) by blast
      qed
      then have "(\<forall>k\<in>set (seps_left h C). Less p k key) \<and> (\<forall>k\<in>set (seps_right h C). Less p key k)" using near unfolding key_near_def by blast
      then show ?thesis using near_left [OF nf] above ts(2) by (auto simp: key_near_def)
    qed
  qed
  ultimately show ?thesis
    using left right ts ptr by (intro exI [of _ ls] exI [of _ t] exI [of _ rs]) auto
qed

section \<open>InsertIntoNode\<close>

lemma branch_step:
  assumes out: "outcome p h n ((b, ls, rs) # C) t key ins"
  shows "outcome p h (Suc n) C (SBranch b (ls @ t # rs)) key (insert_child p b (length ls) newKey Null ins)"
proof -
  obtain h' ref inserted nk nn where ins: "ins = (h', ref, inserted, nk, nn)" by (cases ins) auto
  let ?L = "leaves_of (plug C (SBranch b (ls @ t # rs)))"
  consider "\<not> inserted" | "inserted" "nn = Null" | "inserted" "nn \<noteq> Null" by blast
  then show ?thesis
  proof cases
    case 1
    then show ?thesis using out by (simp add: ins outcome_def insert_child_def)
  next
    case 2
    then obtain t' where "tree_inv p h' (Suc n + length C) (plug C (SBranch b (ls @ t' # rs)))"
      "added p key h ?L h' (leaves_of (plug C (SBranch b (ls @ t' # rs)))) ref"
      using out by (auto simp: ins outcome_def)
    then show ?thesis unfolding outcome_def using 2 by (auto simp: ins insert_child_def)
  next
    case 3
    then obtain t1 t2 where t2: "nn = ptr_of t2" and pend: "pending p h' n ((b, ls, rs) # C) t1 nk t2"
      and add: "added p key h ?L h' (leaves_left C @ concat (map leaves_of (ls @ t1 # t2 # rs)) @ leaves_right C) ref"
      using out by (auto simp: ins outcome_def)
    show ?thesis
    proof (cases "branch_size h' b < BRANCH_CAPACITY p")
      case True
      note r = branch_room [OF pend True refl]
      then have "added p key h ?L (Branch_Insert b (length ls) nk (ptr_of t2) h') (leaves_of (plug C (SBranch b (ls @ t1 # t2 # rs)))) ref"
        using add same_leaves_added [OF conjunct2 [OF r]] by (simp add: leaves_plug)
      then show ?thesis unfolding outcome_def using 3 True r t2 by (auto simp: ins insert_child_def)
    next
      case False
      obtain up q h2 where op: "Branch_InsertAndSplit p b (length ls) nk (ptr_of t2) newKey (h'\<lparr>branchesCount := branchesCount h' + 1\<rparr>) = (up, q, h2)"
        by (cases "Branch_InsertAndSplit p b (length ls) nk (ptr_of t2) newKey (h'\<lparr>branchesCount := branchesCount h' + 1\<rparr>)")
      obtain u1 u2 where u: "q = ptr_of u2" "pending p h2 (Suc n) C u1 up u2" "same_leaves h' h2"
        "leaves_of u1 @ leaves_of u2 = concat (map leaves_of (ls @ t1 # t2 # rs))"
        using branch_split [OF pend False op] by blast
      have "added p key h ?L h2 (leaves_left C @ leaves_of u1 @ leaves_of u2 @ leaves_right C) ref"
        using add same_leaves_added [OF u(3)] u(4) by (metis append_assoc)
      then have "outcome p h (Suc n) C (SBranch b (ls @ t # rs)) key (h2, ref, True, up, ptr_of u2)"
        using u(2) outcome_pending by blast
      moreover have "insert_child p b (length ls) newKey Null ins = (h2, ref, True, up, ptr_of u2)"
        using 3 False op t2 u(1) by (simp add: ins insert_child_def Let_def)
      ultimately show ?thesis by simp
    qed
  qed
qed

theorem InsertIntoNode_outcome:
  assumes "tree_inv p h (n + length C) (plug C t)" "shape_ok p h n t"
    "\<And>k. k \<in> set (seps_left h C) \<Longrightarrow> tree_order p k key" "\<And>k. k \<in> set (seps_right h C) \<Longrightarrow> \<not> Less p k key"
  shows "\<exists>ins. InsertIntoNode p (ptr_of t) key newKey Null h = Some ins \<and> outcome p h n C t key ins"
  using assms
proof (induction t arbitrary: C n newKey)
  case (SLeaf a)
  then have "n = 0" by simp
  then show ?case
    using leaf_insert [OF SLeaf.prems(1,3,4), of newKey] InsertIntoNode.simps [of p "LeafPtr a" key newKey Null h] by simp
next
  case (SBranch b ts)
  define slot where "slot = fst (Branch_FindSlot p b key h)"
  obtain ls t rs where t: "ts = ls @ t # rs" "length ls = slot" "childs h b ! slot = ptr_of t"
    "\<forall>k\<in>set (seps_left h ((b, ls, rs) # C)). tree_order p k key" "\<forall>k\<in>set (seps_right h ((b, ls, rs) # C)). \<not> Less p k key"
    using branch_search [OF SBranch.prems(1,3,4) slot_def] by blast
  obtain m where n: "n = Suc m" using SBranch.prems(2) by (cases n) auto
  have "\<exists>ins. InsertIntoNode p (ptr_of t) key (empty_key p) Null h = Some ins \<and> outcome p h m ((b, ls, rs) # C) t key ins"
    by (rule SBranch.IH) (use t SBranch.prems n in auto)
  then obtain ins where ins: "InsertIntoNode p (ptr_of t) key (empty_key p) Null h = Some ins" "outcome p h m ((b, ls, rs) # C) t key ins"
    by blast
  have "InsertIntoNode p (BranchPtr b) key newKey Null h = Some (insert_child p b slot newKey Null ins)"
    using ins(1) t(3) InsertIntoNode.simps [of p "BranchPtr b" key newKey Null h] by (simp add: slot_def [symmetric])
  then show ?case using branch_step [OF ins(2), of newKey] t(1,2) n by simp
qed

section \<open>The root\<close>

lemma level_ptr_of: "shape_ok p h n t \<Longrightarrow> level h (ptr_of t) = n"
  by (cases t) (auto simp: branch_ok_def)

lemma new_root:
  assumes pend: "pending p h n [] t1 k t2" and op: "new_Branch2 p (level h (root h) + 1) k (root h) (ptr_of t2) h = (b, h1)"
    and h': "h' = h1\<lparr>root := BranchPtr b, branchesCount := branchesCount h1 + 1\<rparr>"
  shows "tree_inv p h' (Suc n) (SBranch b [t1, t2]) \<and> same_leaves h h'"
proof -
  note pend = pend [unfolded pending_def]
  have root: "root h = ptr_of t1" and lev: "level h (root h) = n" using pend level_ptr_of [of h n t1] by auto
  define hn where "hn = snd (new_Branch p (Suc n) h)"
  define h0 where "h0 = hn\<lparr>branch_size := (branch_size hn)(b := 1), keys := (keys hn)(b := (keys hn b)[0 := k]),
    childs := (childs hn)(b := (childs hn b)[0 := ptr_of t1, 1 := ptr_of t2])\<rparr>"
  have b: "b = branch_top h" using op by (auto simp: new_Branch2_def new_Branch_def Let_def)
  have hn: "new_Branch p (Suc n) h = (b, hn)" by (simp add: hn_def new_Branch_def Let_def b)
  have h1: "h1 = UpdateChildrenLinks b 0 1 h0"
    using op lev hn by (simp add: new_Branch2_def root Let_def h0_def)
  let ?qs = "[ptr_of t1, ptr_of t2]"
  have new: "BranchPtr b \<notin> set (ptrs_of t1 @ ptrs_of t2)" 
  proof -
    have "\<forall>q\<in>set (ptrs_of t1 @ ptrs_of t2). fresh_below h q" using pend by simp
    moreover have "\<not> fresh_below h (BranchPtr b)" by (simp add: b fresh_below_def)
    ultimately show ?thesis by blast
  qed
  have qs: "distinct ?qs" using pend distinct_concat_ptrs [of "[t1, t2]"] by simp
  have cs: "take 2 (childs h0 b) = ?qs" "length (childs h0 b) = Suc (BRANCH_CAPACITY p)" "length (keys h0 b) = BRANCH_CAPACITY p"
    using branch_capacity by (cases "BRANCH_CAPACITY p"; simp add: h0_def hn_def new_Branch_def Let_def b numeral_2_eq_2)+
  have up: "(\<forall>i. 0 \<le> i \<longrightarrow> i \<le> 1 \<longrightarrow> linked h1 b i (?qs ! i)) \<and> same_links h0 h1 (- {?qs ! i | i. 0 \<le> i \<and> i \<le> 1}) \<and>
      (\<exists>P S. h1 = h0\<lparr>parent_of := P, slot_of := S\<rparr>)"
    by (rule UpdateChildrenLinks_props [OF qs _ _ _ h1 [symmetric]])
      (use cs branch_capacity in \<open>simp_all add: numeral_2_eq_2\<close>)
  then obtain P S where h1_eq: "h1 = h0\<lparr>parent_of := P, slot_of := S\<rparr>" by blast
  have I: "{?qs ! i | i. 0 \<le> i \<and> i \<le> 1} = set ?qs"
    by (auto simp: le_Suc_eq) (rule exI [of _ 0], simp, rule exI [of _ 1], simp)
  have links: "same_links h h' (- insert (BranchPtr b) (set ?qs))"
    using up unfolding I by (simp add: same_links_def h' h0_def hn_def new_Branch_def Let_def b)
  have fields: "same_nodes h h' (- {BranchPtr b})" "same_keys h h' (- {BranchPtr b})" "same_leaves h h'"
    "branchesCount h' = branchesCount h + 1" "root h' = BranchPtr b" "branch_top h' = Suc b"
    "level h' (BranchPtr b) = Suc n" "branch_size h' b = 1" "keys h' b = keys h0 b" "childs h' b = childs h0 b"
    by (simp_all add: same_nodes_def same_keys_def same_leaves_def h' h1_eq h0_def hn_def new_Branch_def Let_def b)
  have "BranchPtr b \<notin> set ?qs" using new ptr_of_in [of t1] ptr_of_in [of t2] by (auto simp del: ptr_of_in)
  then have free: "parent_of h' (BranchPtr b) = None" "slot_of h' (BranchPtr b) = 0"
    using up unfolding I by (simp_all add: same_links_def h' h0_def hn_def new_Branch_def Let_def b)
  have "\<forall>i<2. linked h' b i (?qs ! i)" using up by (simp add: h' linked_def)
  then have ok: "branch_ok p h' n b (map ptr_of [t1, t2])"
    using cs fields branch_capacity by (simp add: branch_ok_def numeral_2_eq_2)
  have f2: "\<forall>t\<in>set [t1, t2]. shape_ok p h n t \<and> big_branch p h t" using pend by simp
  have out: "set (concat (map ptrs_of [t1, t2])) \<subseteq> - {BranchPtr b}"
    "set (concat (map subptrs_of [t1, t2])) \<subseteq> - insert (BranchPtr b) (set ?qs)"
  proof -
    show "set (concat (map ptrs_of [t1, t2])) \<subseteq> - {BranchPtr b}" using new by auto
    moreover have "set (concat (map subptrs_of [t1, t2])) \<subseteq> set (concat (map ptrs_of [t1, t2]))" by (auto simp: ptrs_of_sub)
    moreover have "set (concat (map subptrs_of [t1, t2])) \<inter> set ?qs = {}"
      using subptrs_distinct [of "[t1, t2]" t1] subptrs_distinct [of "[t1, t2]" t2] pend by auto
    ultimately show "set (concat (map subptrs_of [t1, t2])) \<subseteq> - insert (BranchPtr b) (set ?qs)" by blast
  qed
  have shape: "shape_ok p h' (Suc n) (SBranch b [t1, t2])"
    by (rule rebuild_branch [OF f2 ok same_mono(1) [OF fields(1) out(1)] same_mono(2) [OF links out(2)]])
  have "seps h' t = seps h t" if "t \<in> {t1, t2}" for t
    by (rule seps_cong, rule same_mono(3) [OF fields(2)]) (use out(1) that in auto)
  moreover have "hd (keys h' b) = k"
    using fields(9) cs(3) branch_capacity by (auto simp: h0_def hn_def new_Branch_def Let_def b hd_conv_nth)
  ultimately have "seps h' (SBranch b [t1, t2]) = seps h t1 @ k # seps h t2" by simp
  then have "seq_inv p h' (leaves_of (SBranch b [t1, t2])) (seps h' (SBranch b [t1, t2]))"
    using pend same_leaves_seq [OF fields(3)] by simp
  moreover have "fresh_below h' q" if "fresh_below h q \<or> q = BranchPtr b" for q
    using that fields(3,6) by (auto simp: fresh_below_def same_leaves_def b split: node_ptr.splits)
  then have "tree_ok p h' (Suc n) (SBranch b [t1, t2])"
    unfolding tree_ok_def using shape pend new fields(5) free by (auto simp del: shape_ok.simps)
  moreover have "branchesCount h' = of_nat (branches_in (ptrs_of (SBranch b [t1, t2])))"
    using pend fields(4) by (simp add: branches_in_def)
  ultimately show ?thesis using fields(3) by (simp add: tree_inv_def)
qed

end

section \<open>The contract of a tree\<close>

text \<open>The memory holds a tree with these items, in the order of their keys.\<close>

definition represents :: "('k, 'i) BTreeParams \<Rightarrow> ('k, 'i) BTree \<Rightarrow> 'i list \<Rightarrow> bool" where
  "represents p h xs \<longleftrightarrow> itemsCount h = of_nat (length xs) \<and>
     (if root h = Null then xs = [] \<and> firstLeaf h = None \<and> leavesCount h = 0 \<and> branchesCount h = 0
      else \<exists>n T. tree_inv p h n T \<and> xs = contents h (leaves_of T))"

text \<open>What an insertion does to the sorted list of the items.\<close>

definition inserted_result :: "('k, 'i) BTreeParams \<Rightarrow> 'k \<Rightarrow> 'i list \<Rightarrow> bool \<Rightarrow> 'i list \<Rightarrow> bool" where
  "inserted_result p key xs inserted ys \<longleftrightarrow>
     (if inserted then \<exists>i\<le>length xs. ys = insert_at i (item_of p key) xs
      else ys = xs \<and> UNIQUE_KEYS p \<and> (\<exists>x\<in>set xs. \<not> Less p key (key_of p x) \<and> \<not> Less p (key_of p x) key))"

lemma represents_tree: "tree_inv p h n T \<Longrightarrow> itemsCount h = of_nat (length (contents h (leaves_of T))) \<Longrightarrow>
    represents p h (contents h (leaves_of T))"
  by (auto simp: represents_def tree_inv_def tree_ok_def)

context btree
begin

lemma represents_sorted: "represents p h xs \<Longrightarrow> sorted_wrt (tree_order p) (map (key_of p) xs)"
  by (auto simp: represents_def tree_inv_def seq_inv_def split: if_splits)

end

end
