(* ===== verification/BTree_Contract.thy ===== *)
theory BTree_Contract
  imports BTree_Insertion
begin

text \<open>
  What a tree promises to its users: \<open>Insert\<close> always returns and inserts into the sorted list the tree represents, \<open>Find\<close>
  finds what the list holds, and the iterator enumerates it.
\<close>

definition item_at :: "('k, 'i) BTree \<Rightarrow> item_ref \<Rightarrow> 'i" where
  "item_at h ref = items h (fst ref) ! snd ref"

definition equivalent :: "('k, 'i) BTreeParams \<Rightarrow> 'k \<Rightarrow> 'k \<Rightarrow> bool" where
  "equivalent p k l \<longleftrightarrow> \<not> Less p k l \<and> \<not> Less p l k"

lemma points_at_content:
  "points_at h L ref x \<Longrightarrow> \<forall>a\<in>set L. leaf_ok p h a \<Longrightarrow> item_at h ref = x \<and> x \<in> set (contents h L)"
  by (fastforce simp: points_at_def item_at_def contents_def content_def leaf_ok_def in_set_conv_nth)

context btree
begin

section \<open>Insertion\<close>

text \<open>The count of the items is not part of the invariant of the tree.\<close>

lemma count_items:
  "tree_inv p (h\<lparr>itemsCount := c\<rparr>) n T = tree_inv p h n T"
  "pending p (h\<lparr>itemsCount := c\<rparr>) n C t1 k t2 = pending p h n C t1 k t2"
proof -
  let ?h = "h\<lparr>itemsCount := c\<rparr>"
  have s: "same_nodes h ?h Q" "same_links h ?h Q" "same_keys h ?h Q" for Q
    by (simp_all add: same_nodes_def same_links_def same_keys_def)
  have seq: "seq_inv p ?h L K = seq_inv p h L K" for L K by (rule seq_inv_cong) simp_all
  have f: "fresh_below ?h q = fresh_below h q" for q by (simp add: fresh_below_def split: node_ptr.split)
  show "tree_inv p ?h n T = tree_inv p h n T"
    unfolding tree_inv_def tree_ok_def wf_cong [OF s(1,2)] wf_around_cong [OF s(1,2), simplified] seps_cong [OF s(3)] seq f by simp
  show "pending p ?h n C t1 k t2 = pending p h n C t1 k t2"
    unfolding pending_def wf_cong [OF s(1,2)] wf_around_cong [OF s(1,2), simplified] seps_cong [OF s(3)] seq f big_branch_cong [OF s(1)]
    using seps_around_cong [OF s(3), of C] by simp
qed

lemma first_leaf:
  assumes "root h = Null" "leavesCount h = 0" "branchesCount h = 0" "itemsCount h = 0"
  shows "\<exists>h' ref. BTree_Insert p key h = Some (h', ref, True) \<and> represents p h' [item_of p key] \<and> item_at h' ref = item_of p key"
proof -
  define a where "a = leaf_top h"
  define hn where "hn = snd (new_Leaf p h)"
  define h1 where "h1 = hn\<lparr>firstLeaf := Some a, leavesCount := leavesCount hn + 1, root := LeafPtr a\<rparr>"
  define xs where "xs = (ArrayInsert (replicate (LEAF_CAPACITY p) (empty_item p)) 0 0 1)[0 := item_of p key]"
  define h2 where "h2 = h1\<lparr>items := (items h1)(a := xs), leaf_size := (leaf_size h1)(a := 1), itemsCount := 1\<rparr>"
  have nl: "new_Leaf p h = (a, hn)" by (simp add: hn_def a_def new_Leaf_def Let_def)
  have h1: "leaf_size h1 a = 0" "items h1 a = replicate (LEAF_CAPACITY p) (empty_item p)" "root h1 = LeafPtr a" "itemsCount h1 = 0"
    by (simp_all add: h1_def hn_def a_def new_Leaf_def Let_def assms)
  have find: "Leaf_FindSlot p a key h1 = (0, False)"
    by (simp add: Leaf_FindSlot_def h1 BinarySearch_def search_loop.simps)
  have "InsertIntoNode p (LeafPtr a) key (empty_key p) Null h1 =
      Some (h1\<lparr>items := (items h1)(a := xs), leaf_size := (leaf_size h1)(a := 1)\<rparr>, (a, 0), True, empty_key p, Null)"
    using leaf_capacity by (simp add: InsertIntoNode.simps [of p "LeafPtr a"] InsertIntoLeaf_def find Leaf_Insert_def h1 xs_def)
  moreover have "(if root h = Null then (let (a, h) = new_Leaf p h
      in h\<lparr>firstLeaf := Some a, leavesCount := leavesCount h + 1, root := LeafPtr a\<rparr>) else h) = h1"
    by (simp add: assms(1) nl h1_def)
  ultimately have ins: "BTree_Insert p key h = Some (h2, (a, 0), True)"
    by (simp only: BTree_Insert_def Let_def h1(3)) (simp add: grow_root_def h2_def h1(4))
  have xs: "length xs = LEAF_CAPACITY p" "take 1 xs = [item_of p key]"
    using array_insert [of 0 0 "replicate (LEAF_CAPACITY p) (empty_item p)" "item_of p key"] leaf_capacity
    by (simp_all add: xs_def array_lengths insert_at_def)
  have c: "content h2 a = [item_of p key]" using xs by (simp add: content_def h2_def)
  have f: "leaf_ok p h2 a" "prev_leaf h2 a = None" "next_leaf h2 a = None" "firstLeaf h2 = Some a" "leavesCount h2 = 1"
    "branchesCount h2 = 0" "root h2 = LeafPtr a" "parent_of h2 (LeafPtr a) = None" "slot_of h2 (LeafPtr a) = 0"
    "level h2 (LeafPtr a) = 0" "leaf_top h2 = Suc a"
    using xs leaf_capacity
    by (simp_all add: leaf_ok_def h2_def h1_def hn_def new_Leaf_def Let_def a_def assms)
  then have "tree_inv p h2 0 (SLeaf a)"
    using c by (simp add: tree_inv_def tree_ok_def seq_inv_def fresh_below_def branches_in_def)
  then have "represents p h2 [item_of p key]"
    using represents_tree [of p h2 0 "SLeaf a"] c by (simp add: h2_def)
  moreover have "xs ! 0 = take 1 xs ! 0" by simp
  then have "item_at h2 (a, 0) = item_of p key" unfolding xs(2) by (simp add: item_at_def h2_def)
  ultimately show ?thesis using ins by blast
qed

theorem BTree_Insert_contract:
  assumes rep: "represents p h xs"
  shows "\<exists>h' ref inserted ys. BTree_Insert p key h = Some (h', ref, inserted) \<and> represents p h' ys \<and>
    inserted_result p key xs inserted ys \<and> item_at h' ref \<in> set ys \<and> equivalent p (key_of p (item_at h' ref)) key"
proof (cases "root h = Null")
  case True
  then obtain h' ref where "BTree_Insert p key h = Some (h', ref, True)" "represents p h' [item_of p key]" "xs = []"
    "item_at h' ref = item_of p key"
    using first_leaf [of h key] rep by (auto simp: represents_def)
  then show ?thesis
    by (intro exI [of _ h'] exI [of _ ref] exI [of _ True] exI [of _ "[item_of p key]"])
      (simp add: inserted_result_def insert_at_def equivalent_def cmp_irrefl)
next
  case False
  then obtain n T where inv: "tree_inv p h n T" and xs: "xs = contents h (leaves_of T)" and count: "itemsCount h = of_nat (length xs)"
    using rep by (auto simp: represents_def)
  have T: "shape_ok p h n T" "root h = ptr_of T" using inv by (auto simp: tree_inv_def tree_ok_def)
  obtain h1 ref inserted nk nn where ins: "InsertIntoNode p (root h) key (empty_key p) Null h = Some (h1, ref, inserted, nk, nn)"
    and out: "outcome p h n [] T key (h1, ref, inserted, nk, nn)"
    using InsertIntoNode_outcome [of h n "[]" T key "empty_key p"] inv T by fastforce
  have run: "BTree_Insert p key h = Some (grow_root p (h1, ref, inserted, nk, nn))"
    using False ins by (simp add: BTree_Insert_def)
  have fin: ?thesis if e: "tree_inv p h2 m U" "grow_root p (h1, ref, inserted, nk, nn) = (h2, ref, True)" "itemsCount h2 = itemsCount h1 + 1"
    "same_leaves (h1\<lparr>itemsCount := itemsCount h2\<rparr>) h2" "added p key h (leaves_of T) h1 (leaves_of U) ref" for h2 m U
  proof -
    have c: "contents h2 (leaves_of U) = contents h1 (leaves_of U)"
      by (rule contents_cong) (use e(4) in \<open>simp add: same_leaves_def content_def\<close>)
    obtain i where i: "i \<le> length xs" "contents h1 (leaves_of U) = insert_at i (item_of p key) xs" "itemsCount h1 = itemsCount h"
      using e(5) by (auto simp: added_def xs)
    have "represents p h2 (contents h2 (leaves_of U))"
      by (rule represents_tree [OF e(1)]) (use c i count e(3) in simp)
    moreover have "points_at h2 (leaves_of U) ref (item_of p key)"
      using e(4,5) by (simp add: points_at_def added_def same_leaves_def)
    then have "item_at h2 ref = item_of p key \<and> item_of p key \<in> set (contents h2 (leaves_of U))"
      by (rule points_at_content [where p = p]) (use e(1) in \<open>simp add: tree_inv_def seq_inv_def\<close>)
    ultimately show ?thesis using run e(2) i c by (auto simp: inserted_result_def equivalent_def cmp_irrefl)
  qed
  consider "\<not> inserted" | "inserted" "nn = Null" | "inserted" "nn \<noteq> Null" by blast
  then show ?thesis
  proof cases
    case 1
    then obtain x where x: "UNIQUE_KEYS p" "h1 = h" "points_at h (leaves_of T) ref x" "\<not> Less p key (key_of p x)" "\<not> Less p (key_of p x) key"
      using out by (auto simp: outcome_def)
    have "item_at h ref = x \<and> x \<in> set xs"
      unfolding xs by (rule points_at_content [OF x(3), where p = p]) (use inv in \<open>simp add: tree_inv_def seq_inv_def\<close>)
    then show ?thesis using run 1 x rep by (auto simp: grow_root_def inserted_result_def equivalent_def)
  next
    case 2
    then obtain t' where t': "tree_inv p h1 n t'" "added p key h (leaves_of T) h1 (leaves_of t') ref"
      using out by (auto simp: outcome_def)
    show ?thesis
      by (rule fin [of "h1\<lparr>itemsCount := itemsCount h1 + 1\<rparr>" n t'])
        (use 2 t' in \<open>simp_all add: count_items grow_root_def same_leaves_def\<close>)
  next
    case 3
    then obtain t1 t2 where t: "nn = ptr_of t2" "pending p h1 n [] t1 nk t2"
      "added p key h (leaves_of T) h1 (leaves_of t1 @ leaves_of t2) ref"
      using out by (auto simp: outcome_def)
    define hi where "hi = h1\<lparr>itemsCount := itemsCount h1 + 1\<rparr>"
    obtain b h2 where op: "new_Branch2 p (level hi (root hi) + 1) nk (root hi) (ptr_of t2) hi = (b, h2)" by fastforce
    define h3 where "h3 = h2\<lparr>root := BranchPtr b, branchesCount := branchesCount h2 + 1\<rparr>"
    have r: "tree_inv p h3 (Suc n) (SBranch b [t1, t2])" "same_leaves hi h3"
      using new_root [OF _ op h3_def, of n t1] t(2) by (simp_all add: hi_def count_items)
    have g: "grow_root p (h1, ref, inserted, nk, nn) = (h3, ref, True)"
    proof -
      have "grow_root p (h1, ref, inserted, nk, nn) = (case new_Branch2 p (level hi (root hi) + 1) nk (root hi) (ptr_of t2) hi of
          (b, h) \<Rightarrow> (h\<lparr>root := BranchPtr b, branchesCount := branchesCount h + 1\<rparr>, ref, True))"
        using 3 t(1) by (simp add: grow_root_def hi_def Let_def)
      then show ?thesis unfolding op h3_def by simp
    qed
    have "itemsCount h3 = itemsCount h1 + 1" using r(2) by (simp add: same_leaves_def hi_def)
    then show ?thesis
      by (intro fin [OF r(1) g]) (use r(2) t(3) in \<open>simp_all add: hi_def\<close>)
  qed
qed

section \<open>Search\<close>

text \<open>A leaf in which the key is not found, where no item on the other sides has it\<close>

lemma leaf_without:
  assumes inv: "seq_inv p h (LA @ a # LB) (KA @ KB)" and len: "length KA = length LA"
    and find: "Leaf_FindSlot p a key h = (slot, False)"
    and near: "(\<forall>k\<in>set KA. Less p k key) \<and> (\<forall>k\<in>set KB. Less p key k) \<or> (\<exists>k ks. KB = k # ks \<and> \<not> Less p k key \<and> \<not> Less p key k)"
    and x: "x \<in> set (contents h (LA @ a # LB))"
  shows "\<not> equivalent p (key_of p x) key"
proof -
  have ok: "leaf_ok p h a" "\<forall>b\<in>set LA. leaf_ok p h b"
    and sorted: "sorted_wrt (tree_order p) (map (key_of p) (contents h LA @ content h a @ contents h LB))"
    using inv by (auto simp: seq_inv_def)
  have K: "KA @ KB = map (\<lambda>a. key_of p (last (content h a))) (LA @ butlast (a # LB))"
    using inv by (simp add: seq_inv_def butlast_append)
  then have KA: "KA = map (\<lambda>a. key_of p (last (content h a))) LA"
    and KB: "KB = map (\<lambda>a. key_of p (last (content h a))) (butlast (a # LB))"
    using len by simp_all
  have n: "leaf_size h a \<le> length (items h a)" using ok by (simp add: leaf_ok_def)
  have "sorted_wrt (tree_order p) (map (key_of p) (content h a))" using sorted by (simp add: sorted_wrt_append)
  then have res: "search_result (UNIQUE_KEYS p) (key_of p) key (items h a) (leaf_size h a) (slot, False)"
    using BinarySearch_correct [of "UNIQUE_KEYS p" "key_of p" "leaf_size h a" "items h a" key] n find
    by (simp add: Leaf_FindSlot_def content_def)
  have here: "Less p (key_of p y) key \<or> Less p key (key_of p y)" if y: "y \<in> set (content h a)" for y
  proof -
    obtain i where "i < leaf_size h a" "y = items h a ! i" using y n unfolding content_def in_set_conv_nth by auto
    then show ?thesis using res by (cases "i < slot") (auto simp: search_result_def)
  qed
  have last: "last (content h a) \<in> set (content h a)" using content_nonempty [OF ok(1)] by simp
  have KB_hd: "\<exists>ks. KB = key_of p (last (content h a)) # ks" if "LB \<noteq> []" using that KB by simp
  have no: "(\<forall>k\<in>set KA. Less p k key) \<and> (\<forall>k\<in>set KB. Less p key k)"
  proof (rule disjE [OF near])
    assume "\<exists>k ks. KB = k # ks \<and> \<not> Less p k key \<and> \<not> Less p key k"
    then obtain k ks where k: "KB = k # ks" "\<not> Less p k key" "\<not> Less p key k" by blast
    then have "LB \<noteq> []" using KB by auto
    then have "k = key_of p (last (content h a))" using k(1) KB_hd by auto
    then show ?thesis using here [OF last] k(2,3) by blast
  qed
  consider "x \<in> set (contents h LA)" | "x \<in> set (content h a)" | "x \<in> set (contents h LB)" using x by auto
  then have "Less p (key_of p x) key \<or> Less p key (key_of p x)"
  proof cases
    case 1
    then obtain b where b: "b \<in> set LA" "x \<in> set (content h b)" by (auto simp: contents_def)
    have "sorted_wrt (tree_order p) (map (key_of p) (content h b))"
      using sorted b(1) by (auto simp: sorted_wrt_append contents_def dest!: split_list)
    then have "key_of p x = key_of p (last (content h b)) \<or> tree_order p (key_of p x) (key_of p (last (content h b)))"
      using b(2) by (rule sorted_last)
    then have "\<not> Less p (key_of p (last (content h b))) (key_of p x)" using order_imp_le cmp_irrefl by auto
    moreover have l: "Less p (key_of p (last (content h b))) key" using no KA b(1) by simp
    ultimately show ?thesis using cmp_split [OF l, of "key_of p x"] by blast
  next
    case 3
    then have "LB \<noteq> []" by auto
    then obtain ks where "KB = key_of p (last (content h a)) # ks" using KB_hd by blast
    then have l: "Less p key (key_of p (last (content h a)))" using no by simp
    have "tree_order p (key_of p (last (content h a))) (key_of p x)"
      using sorted last 3 by (auto simp: sorted_wrt_append)
    then have "\<not> Less p (key_of p x) (key_of p (last (content h a)))" by (rule order_imp_le)
    then show ?thesis using cmp_split [OF l, of "key_of p x"] by blast
  qed (rule here)
  then show ?thesis by (auto simp: equivalent_def)
qed

lemma FindInNode_finds:
  assumes "tree_inv p h (n + length C) (plug C t)" "shape_ok p h n t"
    "\<And>k. k \<in> set (seps_left h C) \<Longrightarrow> tree_order p k key" "\<And>k. k \<in> set (seps_right h C) \<Longrightarrow> \<not> Less p k key"
    "key_near p h C key"
  shows "\<exists>r. FindInNode p (ptr_of t) key h = Some r \<and> (case r of
      Some ref \<Rightarrow> \<exists>x. points_at h (leaves_of (plug C t)) ref x \<and> equivalent p (key_of p x) key
    | None \<Rightarrow> \<forall>x\<in>set (contents h (leaves_of (plug C t))). \<not> equivalent p (key_of p x) key)"
  using assms
proof (induction t arbitrary: C n)
  case (SLeaf a)
  let ?LA = "leaves_left C" and ?LB = "leaves_right C"
  have T: "leaves_of (plug C (SLeaf a)) = ?LA @ a # ?LB" and S: "seps h (plug C (SLeaf a)) = seps_left h C @ seps_right h C"
    using leaves_plug [of C "SLeaf a"] seps_plug [of h C "SLeaf a"] by simp_all
  have seq: "seq_inv p h (?LA @ a # ?LB) (seps_left h C @ seps_right h C)"
    using SLeaf.prems(1) unfolding tree_inv_def T S by simp
  obtain m where "wf_around p h m (LeafPtr a) C" using SLeaf.prems(1) unfolding tree_inv_def tree_ok_plug by auto
  then have len: "length (seps_left h C) = length ?LA" using length_seps_around by blast
  obtain slot found where find: "Leaf_FindSlot p a key h = (slot, found)" by fastforce
  have run: "FindInNode p (LeafPtr a) key h = Some (if found then Some (a, slot) else None)"
    by (simp add: FindInNode.simps [of p "LeafPtr a"] find)
  show ?case
  proof (cases found)
    case True
    then show ?thesis using run leaf_search [OF seq len SLeaf.prems(3,4) find] by (auto simp: T points_at_def equivalent_def)
  next
    case False
    then have find: "Leaf_FindSlot p a key h = (slot, False)" using find by simp
    have "\<forall>x\<in>set (contents h (?LA @ a # ?LB)). \<not> equivalent p (key_of p x) key"
      by (intro ballI leaf_without [OF seq len find SLeaf.prems(5) [unfolded key_near_def]])
    then show ?thesis using run False unfolding T by simp
  qed
next
  case (SBranch b ts)
  define slot where "slot = fst (Branch_FindSlot p b key h)"
  obtain ls t rs where t: "ts = ls @ t # rs" "length ls = slot" "childs h b ! slot = ptr_of t"
    "\<forall>k\<in>set (seps_left h ((b, ls, rs) # C)). tree_order p k key" "\<forall>k\<in>set (seps_right h ((b, ls, rs) # C)). \<not> Less p k key"
    "key_near p h ((b, ls, rs) # C) key"
    using branch_search [OF SBranch.prems(1,3,4) slot_def] SBranch.prems(5) by blast
  obtain m where n: "n = Suc m" using SBranch.prems(2) by (cases n) auto
  have run: "FindInNode p (BranchPtr b) key h = FindInNode p (ptr_of t) key h"
    using t(3) by (simp add: FindInNode.simps [of p "BranchPtr b"] slot_def)
  have "\<exists>r. FindInNode p (ptr_of t) key h = Some r \<and> (case r of
      Some ref \<Rightarrow> \<exists>x. points_at h (leaves_of (plug ((b, ls, rs) # C) t)) ref x \<and> equivalent p (key_of p x) key
    | None \<Rightarrow> \<forall>x\<in>set (contents h (leaves_of (plug ((b, ls, rs) # C) t))). \<not> equivalent p (key_of p x) key)"
    by (rule SBranch.IH [of _ m, OF _ _ _ _ _ t(6)]) (use t(1,4,5) SBranch.prems(1,2) n in auto)
  then show ?case unfolding plug.simps t(1) [symmetric] ptr_of.simps run .
qed

theorem Find_finds:
  assumes "represents p h xs"
  shows "\<exists>r. Find p key h = Some r \<and> (case r of
      Some ref \<Rightarrow> item_at h ref \<in> set xs \<and> equivalent p (key_of p (item_at h ref)) key
    | None \<Rightarrow> \<forall>x\<in>set xs. \<not> equivalent p (key_of p x) key)"
proof (cases "root h = Null")
  case True
  then show ?thesis using assms by (simp add: Find_def represents_def)
next
  case False
  then obtain n T where inv: "tree_inv p h n T" and xs: "xs = contents h (leaves_of T)"
    using assms by (auto simp: represents_def)
  have T: "shape_ok p h n T" "root h = ptr_of T" using inv by (auto simp: tree_inv_def tree_ok_def)
  have near: "key_near p h [] key" by (simp add: key_near_def)
  obtain r where r: "FindInNode p (root h) key h = Some r" "case r of
      Some ref \<Rightarrow> \<exists>x. points_at h (leaves_of T) ref x \<and> equivalent p (key_of p x) key
    | None \<Rightarrow> \<forall>x\<in>set (contents h (leaves_of T)). \<not> equivalent p (key_of p x) key"
    using FindInNode_finds [of h n "[]" T key, unfolded plug.simps, OF _ _ _ _ near] inv T by auto
  have "item_at h ref = x \<and> x \<in> set xs" if "points_at h (leaves_of T) ref x" for ref x
    unfolding xs by (rule points_at_content [OF that, where p = p]) (use inv in \<open>simp add: tree_inv_def seq_inv_def\<close>)
  then show ?thesis using r False xs by (auto simp: Find_def split: option.splits)
qed

section \<open>Enumeration\<close>

lemma for_each_leaf:
  assumes "leaf_ok p h a" "i < leaf_size h a"
  shows "for_each_loop h f (Some a, i) s =
    for_each_loop h f (next_leaf h a, 0) (fold f (drop i (content h a)) s)"
  using assms(2)
proof (induction "leaf_size h a - i" arbitrary: i s)
  case (Suc d)
  have len: "length (content h a) = leaf_size h a" by (rule length_content [OF assms(1)])
  have x: "drop i (content h a) = items h a ! i # drop (Suc i) (content h a)"
    using Suc.prems len by (simp add: Cons_nth_drop_Suc [symmetric]) (simp add: content_def)
  show ?case
  proof (cases "Suc i < leaf_size h a")
    case True
    then show ?thesis
      using Suc.hyps(1) [of "Suc i" "f (items h a ! i) s"] Suc.hyps(2)
      by (simp add: for_each_loop.simps [of h f "(Some a, i)"] AtEnd_it_def deref_it_def Advance_it_def x)
  next
    case False
    then show ?thesis
      using Suc.prems len by (simp add: for_each_loop.simps [of h f "(Some a, i)"] AtEnd_it_def deref_it_def Advance_it_def x)
  qed
qed simp

lemma for_each_chain:
  "chain h pr L None \<Longrightarrow> \<forall>a\<in>set L. leaf_ok p h a \<Longrightarrow>
    for_each_loop h f (if L = [] then None else Some (hd L), 0) s = Some (fold f (contents h L) s)"
proof (induction L arbitrary: pr s)
  case Nil
  then show ?case by (simp add: for_each_loop.simps [of h f "(None, 0)"] AtEnd_it_def)
next
  case (Cons a L)
  then have ok: "leaf_ok p h a" "0 < leaf_size h a" by (auto simp: leaf_ok_def)
  show ?case using Cons.IH [of "Some a" "fold f (content h a) s"] Cons.prems for_each_leaf [OF ok, of f s] by simp
qed

theorem for_each_enumerates:
  assumes "represents p h xs"
  shows "for_each_loop h f (Begin h) s = Some (fold f xs s)"
proof (cases "root h = Null")
  case True
  then show ?thesis using assms
    by (simp add: represents_def Begin_def for_each_loop.simps [of h f "(None, 0)"] AtEnd_it_def)
next
  case False
  then obtain n T where "tree_inv p h n T" "xs = contents h (leaves_of T)"
    using assms by (auto simp: represents_def)
  then show ?thesis
    using for_each_chain [of h None "leaves_of T" f s] by (auto simp: tree_inv_def seq_inv_def Begin_def)
qed

end

end
