(* ===== verification/BTree_SelfTest.thy ===== *)
theory BTree_SelfTest
  imports BTree_Contract
begin

text \<open>
  The self test of the tree accepts every memory that represents a list: the invariant implies all that \<open>Tester\<close> checks.
\<close>

context btree
begin

text \<open>The state of the tester behind the leaves \<open>LA\<close> and \<open>nb\<close> branches.\<close>

definition after :: "('k, 'i) BTree \<Rightarrow> nat list \<Rightarrow> nat \<Rightarrow> 'k Tester" where
  "after h LA nb = (if LA = [] then (Tester_new p)\<lparr>countedBranches := of_nat nb\<rparr>
     else \<lparr>isFirstLeaf = False, prevLeaf = Some (last LA), nextLeaf = next_leaf h (last LA),
           currentKey = key_of p (last (content h (last LA))), countedItems = of_nat (length (contents h LA)),
           countedLeaves = of_nat (length LA), countedBranches = of_nat nb\<rparr>)"

lemma test_keys_sorted:
  "sorted_wrt (tree_order p) (current # ks) \<Longrightarrow> test_keys p ks current = Some (last (current # ks))"
proof (induction ks arbitrary: current)
  case (Cons k ks)
  then have "tree_order p current k" by simp
  then have "Less p current k \<or> \<not> UNIQUE_KEYS p \<and> \<not> Less p k current" by (auto simp: key_order_def split: if_splits)
  then show ?case using Cons by simp
qed simp

lemma TestLeaf_passes:
  assumes inv: "seq_inv p h (LA @ a # LB) K" and "level h (LeafPtr a) = 0"
    and "parent_of h (LeafPtr a) \<noteq> None \<Longrightarrow> LA @ LB \<noteq> []"
  shows "TestLeaf p False a h (after h LA nb) = Some (after h (LA @ [a]) nb)"
proof -
  have ok: "leaf_ok p h a" "\<forall>b\<in>set LA. leaf_ok p h b" using inv by (auto simp: seq_inv_def)
  have big: "LEAF_CAPACITY p div 2 \<le> leaf_size h a" if "parent_of h (LeafPtr a) \<noteq> None"
  proof -
    have "2 \<le> length (LA @ a # LB)" using assms(3) [OF that] by (cases LA; cases LB) auto
    then show ?thesis using inv by (simp add: seq_inv_def)
  qed
  have ch: "prev_leaf h a = (if LA = [] then None else Some (last LA))" "LA \<noteq> [] \<Longrightarrow> next_leaf h (last LA) = Some a"
    using inv by (cases LA rule: rev_cases; auto simp: seq_inv_def chain_append)+
  have sorted: "sorted_wrt (tree_order p) (map (key_of p) (contents h LA @ content h a))"
    using inv by (simp add: seq_inv_def sorted_wrt_append)
  have ne: "content h a \<noteq> []" by (rule content_nonempty [OF ok(1)])
  have len: "length (content h a) = leaf_size h a" by (rule length_content [OF ok(1)])
  show ?thesis
  proof (cases "LA = []")
    case True
    have c: "map (key_of p) (content h a) = hd (map (key_of p) (content h a)) # tl (map (key_of p) (content h a))" using ne by simp
    have "sorted_wrt (tree_order p) (hd (map (key_of p) (content h a)) # tl (map (key_of p) (content h a)))"
      using sorted True c by simp
    from test_keys_sorted [OF this]
    have "test_keys p (tl (map (key_of p) (content h a))) (hd (map (key_of p) (content h a))) = Some (key_of p (last (content h a)))"
      unfolding c [symmetric] using ne by (simp add: last_map)
    then show ?thesis
      using True big ok(1) ch assms(2) len
      by (auto simp: TestLeaf_def after_def Tester_new_def Let_def leaf_ok_def content_def [symmetric])
  next
    case False
    have l: "content h (last LA) \<noteq> []" using content_nonempty [of p h "last LA"] ok(2) False by simp
    obtain XA where XA: "LA = XA @ [last LA]" using False append_butlast_last_id by metis
    have "sorted_wrt (tree_order p) (map (key_of p) ([last (content h (last LA))] @ content h a))"
    proof -
      have "contents h LA = contents h XA @ butlast (content h (last LA)) @ [last (content h (last LA))]"
        using l by (subst XA) simp
      then show ?thesis using sorted by (simp add: sorted_wrt_append)
    qed
    then have "sorted_wrt (tree_order p) (key_of p (last (content h (last LA))) # map (key_of p) (content h a))" by simp
    from test_keys_sorted [OF this]
    have "test_keys p (map (key_of p) (content h a)) (key_of p (last (content h (last LA)))) = Some (key_of p (last (content h a)))"
      using ne by (simp add: last_map)
    then show ?thesis
      using False big ok(1) ch assms(2) len
      by (auto simp: TestLeaf_def after_def Let_def leaf_ok_def content_def [symmetric])
  qed
qed

lemma separator_key:
  assumes inv: "tree_inv p h N (plug ((b, ls, rs) # C) t)" and "rs \<noteq> []"
  shows "keys h b ! length ls = key_of p (last (content h (last (leaves_left ((b, ls, rs) # C) @ leaves_of t)))) \<and> leaves_of t \<noteq> []"
proof -
  let ?C = "(b, ls, rs) # C" and ?T = "plug ((b, ls, rs) # C) t"
  define L where "L = leaves_left ?C @ leaves_of t"
  obtain n where n: "shape_ok p h n t" "wf_around p h n (ptr_of t) ?C" "N = n + length ?C"
    using inv unfolding tree_inv_def tree_ok_plug by auto
  have ne: "leaves_of t \<noteq> []" by (rule leaves_of_nonempty [OF n(1)])
  have len: "Suc (length (seps_left h ?C @ seps h t)) = length L"
    using length_seps [OF n(1)] length_seps_around [OF n(2)] by (simp add: L_def)
  have R: "seps_right h ?C = keys h b ! length ls # tl (seps_right h ?C)"
  proof -
    have "length ls < length (keys h b)" using n(2) assms(2) by (cases rs) (auto simp: branch_ok_def)
    then show ?thesis using assms(2) by (cases rs) (auto simp: hd_drop_conv_nth)
  qed
  have K: "(seps_left h ?C @ seps h t) @ seps_right h ?C =
      map (\<lambda>a. key_of p (last (content h a))) (butlast (L @ leaves_right ?C))"
    using inv unfolding tree_inv_def seq_inv_def seps_plug leaves_plug L_def by simp
  have "leaves_right ?C \<noteq> []" using len length_seps_around [OF n(2)] R by (metis length_0_conv list.distinct(1))
  then have i: "butlast (L @ leaves_right ?C) = L @ butlast (leaves_right ?C)" by (simp only: butlast_append if_False)
  have L: "L \<noteq> []" using ne by (simp add: L_def)
  have "((seps_left h ?C @ seps h t) @ seps_right h ?C) ! (length L - 1) = keys h b ! length ls"
  proof -
    have "length L - 1 = length (seps_left h ?C @ seps h t)" using len by (simp del: seps_left.simps)
    then show ?thesis by (subst R) (simp only: nth_append_length)
  qed
  moreover have "map (\<lambda>a. key_of p (last (content h a))) (butlast (L @ leaves_right ?C)) ! (length L - 1) =
      key_of p (last (content h (last L)))"
    unfolding i using L by (simp add: nth_append last_conv_nth)
  ultimately show ?thesis using K ne by (simp add: L_def)
qed

lemma run_test_passes:
  assumes "tree_inv p h (n + length C) (plug C t)" "shape_ok p h n t"
    "parent_of h (ptr_of t) = parent" "C = [] \<longleftrightarrow> parent = None" "parent \<noteq> None \<Longrightarrow> slot_of h (ptr_of t) = slot" "parent = None \<Longrightarrow> slot_of h (ptr_of t) = 0"
  shows "run_test p False False h (TestNode (ptr_of t) parent slot (Suc n)) (after h (leaves_left C) nb) =
    Some (Some (after h (leaves_left C @ leaves_of t) (nb + branches_in (ptrs_of t))))"
  using assms
proof (induction t arbitrary: C n parent slot nb)
  case (SLeaf a)
  have T: "leaves_of (plug C (SLeaf a)) = leaves_left C @ a # leaves_right C" using leaves_plug [of C "SLeaf a"] by simp
  have inv: "seq_inv p h (leaves_left C @ a # leaves_right C) (seps h (plug C (SLeaf a)))"
    using SLeaf.prems(1) unfolding tree_inv_def T by simp
  have wf: "wf_around p h n (LeafPtr a) C" using SLeaf.prems(1) unfolding tree_inv_def tree_ok_plug by auto
  have "leaves_left C @ leaves_right C \<noteq> []" if "C \<noteq> []"
  proof -
    obtain b ls rs C' where C: "C = (b, ls, rs) # C'" using \<open>C \<noteq> []\<close> by (cases C) auto
    have "ls @ rs \<noteq> []" using wf by (auto simp: C branch_ok_def)
    moreover have "\<forall>t\<in>set (ls @ rs). leaves_of t \<noteq> []" using wf leaves_of_nonempty by (fastforce simp: C)
    ultimately show ?thesis by (cases ls; cases rs) (auto simp: C)
  qed
  then have "TestLeaf p False a h (after h (leaves_left C) nb) = Some (after h (leaves_left C @ [a]) nb)"
    using SLeaf.prems by (intro TestLeaf_passes [OF inv]) auto
  then show ?case
    using SLeaf.prems run_test.simps [of p False False h "TestNode (LeafPtr a) parent slot (Suc 0)" "after h (leaves_left C) nb"]
    by (auto simp: branches_in_def)
next
  case (SBranch b ts)
  have "wf_around p h n (BranchPtr b) C" and "C \<noteq> [] \<Longrightarrow> big_branch p h (SBranch b ts)"
    using SBranch.prems(1) unfolding tree_inv_def tree_ok_plug by auto
  then have big: "C \<noteq> [] \<Longrightarrow> BRANCH_CAPACITY p div 2 \<le> branch_size h b" by simp
  obtain m where n: "n = Suc m" using SBranch.prems(2) by (cases n) auto
  have ok: "branch_ok p h m b (map ptr_of ts)" "\<forall>t\<in>set ts. shape_ok p h m t" using SBranch.prems(2) n by auto
  have bs: "length ts = Suc (branch_size h b)" "level h (BranchPtr b) = n" using ok(1) n by (simp_all add: branch_ok_def)
  define done_with where "done_with ls = leaves_left C @ concat (map leaves_of ls)" for ls
  have child: "run_test p False False h (TestNode (childs h b ! length ls) (Some b) (length ls) (level h (BranchPtr b))) (after h (done_with ls) nb) =
        Some (Some (after h (done_with (ls @ [t])) (nb + branches_in (ptrs_of t)))) \<and> done_with (ls @ [t]) \<noteq> [] \<and>
        (rs \<noteq> [] \<longrightarrow> currentKey (after h (done_with (ls @ [t])) x) = keys h b ! length ls)"
    if ts: "ts = ls @ t # rs" for ls t rs nb x
  proof -
    let ?C = "(b, ls, rs) # C"
    have inv: "tree_inv p h (m + length ?C) (plug ?C t)" using SBranch.prems(1) n by (simp add: ts)
    have t: "t \<in> set ts" "shape_ok p h m t" "leaves_of t \<noteq> []" using ok(2) leaves_of_nonempty [of p h m t] by (simp_all add: ts)
    have l: "linked h b (length ls) (ptr_of t)" using branch_ok_linked [of p h m b "map ptr_of ls"] ok(1) by (simp add: ts)
    have ptr: "childs h b ! length ls = ptr_of t"
    proof -
      have "take (length ts) (childs h b) = map ptr_of ts" using ok(1) unfolding branch_ok_def length_map by blast
      then have "take (length ts) (childs h b) ! length ls = ptr_of t" by (simp add: ts nth_append)
      then show ?thesis by (simp add: ts)
    qed
    have "run_test p False False h (TestNode (ptr_of t) (Some b) (length ls) (Suc m)) (after h (leaves_left ?C) nb) =
        Some (Some (after h (leaves_left ?C @ leaves_of t) (nb + branches_in (ptrs_of t))))"
      by (rule SBranch.IH [OF t(1) inv t(2)]) (use l in \<open>auto simp: linked_def\<close>)
    moreover have "rs \<noteq> [] \<longrightarrow> currentKey (after h (done_with (ls @ [t])) x) = keys h b ! length ls"
      using separator_key [OF inv] t(3) by (auto simp: after_def done_with_def)
    ultimately show ?thesis using ptr bs(2) n t(3) by (simp add: done_with_def)
  qed
  have childs: "run_test p False False h (TestChilds b (length ls)) (after h (done_with ls) nb) =
      Some (Some (after h (done_with ts) (nb + branches_in (concat (map ptrs_of (t # rs))))))"
    if "ts = ls @ t # rs" for ls t rs nb
    using that
  proof (induction rs arbitrary: ls t nb)
    case Nil
    note c = child [OF Nil.prems, of nb]
    have "\<not> length ls < branch_size h b" using bs(1) Nil.prems by simp
    moreover have "\<not> isFirstLeaf (after h (done_with (ls @ [t])) k)" for k using c by (simp add: after_def)
    ultimately show ?case
      using c run_test.simps [of p False False h "TestChilds b (length ls)" "after h (done_with ls) nb"] by (simp add: Nil.prems)
  next
    case (Cons r rs)
    note c = child [OF Cons.prems, of nb]
    have i: "length ls < branch_size h b" using bs(1) Cons.prems by simp
    have key: "currentKey (after h (done_with (ls @ [t])) k) = keys h b ! length ls" for k
      using child [OF Cons.prems] by simp
    have first: "\<not> isFirstLeaf (after h (done_with (ls @ [t])) k)" for k using c by (simp add: after_def)
    have "ts = (ls @ [t]) @ r # rs" using Cons.prems by simp
    note Cons.IH [OF this, of "nb + branches_in (ptrs_of t)"]
    moreover have "branches_in (concat (map ptrs_of (t # r # rs))) = branches_in (ptrs_of t) + branches_in (concat (map ptrs_of (r # rs)))"
      by (simp add: branches_in_def)
    ultimately show ?case
      using c i run_test.simps [of p False False h "TestChilds b (length ls)" "after h (done_with ls) nb"]
      by (simp add: key first cmp_irrefl add.assoc)
  qed
  obtain t rs where ts: "ts = [] @ t # rs" using ok(1) by (cases ts) (auto simp: branch_ok_def)
  have "branches_in (ptrs_of (SBranch b ts)) = Suc (branches_in (concat (map ptrs_of (t # rs))))" by (simp add: branches_in_def ts)
  moreover have "(after h (leaves_left C) nb)\<lparr>countedBranches := countedBranches (after h (leaves_left C) nb) + 1\<rparr> =
      after h (leaves_left C) (Suc nb)" by (simp add: after_def)
  ultimately show ?case
    using childs [OF ts, of "Suc nb", unfolded done_with_def] SBranch.prems(3-6) big ok(1) n
      run_test.simps [of p False False h "TestNode (BranchPtr b) parent slot (Suc n)" "after h (leaves_left C) nb"]
    by (auto simp: branch_ok_def)
qed

theorem SelfTest_passes:
  assumes "represents p h xs"
  shows "SelfTest p False False h = Some True"
proof (cases "root h = Null")
  case True
  then show ?thesis using assms by (simp add: SelfTest_def represents_def)
next
  case False
  then obtain n T where inv: "tree_inv p h n T" and xs: "xs = contents h (leaves_of T)" "itemsCount h = of_nat (length xs)"
    using assms by (auto simp: represents_def)
  have T: "shape_ok p h n T" "root h = ptr_of T" "parent_of h (ptr_of T) = None" "slot_of h (ptr_of T) = 0" "level h (ptr_of T) = n"
    using inv level_ptr_of by (auto simp: tree_inv_def tree_ok_def)
  have L: "leaves_of T \<noteq> []" "chain h None (leaves_of T) None" "leavesCount h = of_nat (length (leaves_of T))" "branchesCount h = of_nat (branches_in (ptrs_of T))"
    using inv by (auto simp: tree_inv_def seq_inv_def)
  have "next_leaf h (last (leaves_of T)) = None"
    using L(1,2) by (cases "leaves_of T" rule: rev_cases) (auto simp: chain_append)
  moreover have "after h [] 0 = Tester_new p" by (simp add: after_def Tester_new_def)
  ultimately show ?thesis
    using run_test_passes [of h n "[]" T None 0 0] inv T L xs False by (simp add: SelfTest_def after_def)
qed

end

end
