(* ===== verification/BTree_Set.thy ===== *)
theory BTree_Set
  imports BTree_SelfTest
begin

text \<open>
  The set of \<^verbatim>\<open>BTreeSet.hpp\<close> over a linear order: what a history of insertions returns and enumerates. The contract
  of the tree is interpreted at the parameters of the set.
\<close>

section \<open>Histories\<close>

fun insert_keys :: "('k, 'k) BTreeParams \<Rightarrow> 'k list \<Rightarrow> ('k, 'k) BTree \<Rightarrow> (bool list \<times> ('k, 'k) BTree) option" where
  "insert_keys p [] h = Some ([], h)"
| "insert_keys p (k # ks) h = do {
     (inserted, h) \<leftarrow> BTreeSet_Insert p k h;
     (flags, h) \<leftarrow> insert_keys p ks h;
     Some (inserted # flags, h) }"

text \<open>The elements in the order in which \<open>ForEach\<close> calls its functor.\<close>

definition enumerate_set :: "('k, 'k) BTree \<Rightarrow> 'k list option" where
  "enumerate_set h = BTreeSet_ForEach h (\<lambda>x xs. xs @ [x]) []"

text \<open>Which keys of a history are new.\<close>

fun new_keys :: "'k list \<Rightarrow> 'k set \<Rightarrow> bool list" where
  "new_keys [] A = []"
| "new_keys (k # ks) A = (k \<notin> A) # new_keys ks (insert k A)"

section \<open>The contract at a linear order\<close>

lemma linorder_weak_order: "strict_weak_order ((<) :: 'k::linorder \<Rightarrow> 'k \<Rightarrow> bool)"
  unfolding strict_weak_order_def by auto

interpretation tree_set: btree "BTreeSet_params ((<) :: 'k::linorder \<Rightarrow> 'k \<Rightarrow> bool) d (Suc (Suc m)) (Suc (Suc n))" for d m n
  by unfold_locales (simp add: params_ok_def BTreeSet_params_def linorder_weak_order)

lemma capacity_Suc: "2 \<le> c \<Longrightarrow> \<exists>m. c = Suc (Suc m)"
  by (rule exI [of _ "c - 2"]) simp

lemma strictly_sorted_set: "sorted_wrt (<) xs \<Longrightarrow> xs = sorted_list_of_set (set (xs :: 'k::linorder list))"
  using sorted_list_of_set.idem_if_sorted_distinct [of xs] by (simp add: strict_sorted_iff)

lemma set_insert_step:
  assumes "2 \<le> lc" "2 \<le> bc" and rep: "represents (BTreeSet_params (<) (d :: 'k::linorder) lc bc) h xs"
  shows "\<exists>h'. BTreeSet_Insert (BTreeSet_params (<) d lc bc) k h = Some (k \<notin> set xs, h') \<and>
    represents (BTreeSet_params (<) d lc bc) h' (sorted_list_of_set (insert k (set xs)))"
proof -
  obtain m n where c: "lc = Suc (Suc m)" "bc = Suc (Suc n)" using assms(1,2) capacity_Suc by metis
  define p where "p = BTreeSet_params (<) d lc bc"
  have p: "Less p = (<)" "key_of p = (\<lambda>k. k)" "item_of p = (\<lambda>k. k)" "UNIQUE_KEYS p" by (simp_all add: p_def BTreeSet_params_def)
  have sorted: "sorted_wrt (<) ys" if "represents p g ys" for g ys
    using tree_set.represents_sorted [of d m n g ys] that p by (simp add: p_def c key_order_def [abs_def])
  obtain h' ref inserted ys where ins: "BTree_Insert p k h = Some (h', ref, inserted)" and rep': "represents p h' ys"
    and res: "inserted_result p k xs inserted ys"
    using tree_set.BTree_Insert_contract [of d m n h xs k] rep unfolding p_def c by blast
  have "set ys = insert k (set xs) \<and> (inserted \<longleftrightarrow> k \<notin> set xs)"
  proof (cases inserted)
    case True
    then obtain i where i: "i \<le> length xs" "ys = take i xs @ k # drop i xs"
      using res by (auto simp: inserted_result_def p insert_at_def)
    then have "distinct ys" using sorted [OF rep'] by (simp add: strict_sorted_iff)
    moreover have "set xs = set (take i xs) \<union> set (drop i xs)" by (metis append_take_drop_id set_append)
    ultimately show ?thesis using i True by auto
  next
    case False
    then show ?thesis using res by (auto simp: inserted_result_def p not_less)
  qed
  then have "ys = sorted_list_of_set (insert k (set xs))" "inserted \<longleftrightarrow> k \<notin> set xs"
    using strictly_sorted_set [OF sorted [OF rep']] by simp_all
  then show ?thesis using ins rep' by (simp add: BTreeSet_Insert_def p_def)
qed

lemma insert_keys_run:
  assumes "2 \<le> lc" "2 \<le> bc"
  shows "represents (BTreeSet_params (<) (d :: 'k::linorder) lc bc) h (sorted_list_of_set A) \<Longrightarrow> finite A \<Longrightarrow>
    \<exists>h'. insert_keys (BTreeSet_params (<) d lc bc) ks h = Some (new_keys ks A, h') \<and>
      represents (BTreeSet_params (<) d lc bc) h' (sorted_list_of_set (A \<union> set ks))"
proof (induction ks arbitrary: h A)
  case (Cons k ks)
  obtain h1 where "BTreeSet_Insert (BTreeSet_params (<) d lc bc) k h = Some (k \<notin> A, h1)"
    "represents (BTreeSet_params (<) d lc bc) h1 (sorted_list_of_set (insert k A))"
    using set_insert_step [OF assms Cons.prems(1), of k] Cons.prems(2) by auto
  then show ?case using Cons.IH [of h1 "insert k A"] Cons.prems(2) by auto
qed auto

lemma new_represents: "represents p BTree_new []"
  by (simp add: represents_def BTree_new_def)

lemma represents_count: "represents p h xs \<Longrightarrow> itemsCount h = of_nat (length xs)"
  by (simp add: represents_def)

lemma enumerate_represented:
  assumes "2 \<le> lc" "2 \<le> bc" "represents (BTreeSet_params (<) (d :: 'k::linorder) lc bc) h xs"
  shows "enumerate_set h = Some xs \<and> BTree_Size h = of_nat (length xs) \<and> SelfTest (BTreeSet_params (<) d lc bc) False False h = Some True"
proof -
  obtain m n where c: "lc = Suc (Suc m)" "bc = Suc (Suc n)" using assms(1,2) capacity_Suc by metis
  have "fold (\<lambda>x xs. xs @ [x]) xs ys = ys @ xs" for xs ys :: "'k list" by (induction xs arbitrary: ys) auto
  then show ?thesis
    using tree_set.for_each_enumerates [OF assms(3) [unfolded c], where f = "\<lambda>x xs. xs @ [x]" and s = "[]"] tree_set.SelfTest_passes [OF assms(3) [unfolded c]]
      represents_count [OF assms(3)]
    unfolding c by (simp add: enumerate_set_def BTreeSet_ForEach_def BTree_Size_def)
qed

section \<open>The properties of the tree\<close>

text \<open>C1. BTreeSet refines a finite set: for capacities of at least two, any history of \<open>Insert\<close> calls on a new set
  returns, answers for each key whether it was new, and leaves a set whose \<open>ForEach\<close> visits the inserted keys once each
  in ascending order and whose \<open>Size\<close> is their number, modulo \<open>2 ^ 32\<close>.\<close>

theorem BTreeSet_history:
  assumes "2 \<le> leafCapacity" "2 \<le> branchCapacity"
  shows "\<exists>h. insert_keys (BTreeSet_params (<) (d :: 'k::linorder) leafCapacity branchCapacity) ks BTree_new = Some (new_keys ks {}, h) \<and>
    enumerate_set h = Some (sorted_list_of_set (set ks)) \<and> BTree_Size h = of_nat (card (set ks))"
proof -
  obtain h where "insert_keys (BTreeSet_params (<) d leafCapacity branchCapacity) ks BTree_new = Some (new_keys ks {}, h)"
    "represents (BTreeSet_params (<) d leafCapacity branchCapacity) h (sorted_list_of_set (set ks))"
    using insert_keys_run [OF assms, of d BTree_new "{}" ks] new_represents by auto
  then show ?thesis using enumerate_represented [OF assms, of d h] by auto
qed

theorem BTreeSet_history_witness:
  "\<exists>h. insert_keys (BTreeSet_params (<) (0 :: int) 4 4) [5, 3, 5] BTree_new = Some (new_keys [5, 3, 5 :: int] {}, h) \<and>
    enumerate_set h = Some (sorted_list_of_set (set [5, 3, 5])) \<and> BTree_Size h = of_nat (card (set [5, 3, 5 :: int]))"
  by (rule BTreeSet_history) simp_all

text \<open>C2. The invariant of the tree is inductive, for keys that are unique and keys that repeat: \<open>Insert\<close> on a tree that
  represents a sorted list always returns, leaves a tree that represents the list with the new item put at a place where
  the list stays sorted (or, when keys are unique and an equivalent one is there, the old list), and hands out a reference
  to an item of the list with an equivalent key.\<close>

theorem BTree_Insert_keeps_invariant:
  assumes "params_ok p" "represents p h xs"
  shows "\<exists>h' ref inserted ys. BTree_Insert p key h = Some (h', ref, inserted) \<and> represents p h' ys \<and>
    inserted_result p key xs inserted ys \<and> sorted_wrt (key_order (UNIQUE_KEYS p) (Less p)) (map (key_of p) ys) \<and>
    item_at h' ref \<in> set ys \<and> equivalent p (key_of p (item_at h' ref)) key"
proof -
  have "btree p" by unfold_locales (rule assms(1))
  then show ?thesis
    using btree.BTree_Insert_contract [of p h xs key] btree.represents_sorted [of p] assms(2) by blast
qed

text \<open>A multiset of integers.\<close>

definition repeated_params :: "(int, int) BTreeParams" where
  "repeated_params = (BTreeSet_params (<) 0 2 2)\<lparr>UNIQUE_KEYS := False\<rparr>"

lemma repeated_params_ok: "params_ok repeated_params"
  by (simp add: params_ok_def repeated_params_def BTreeSet_params_def linorder_weak_order)

theorem BTree_Insert_keeps_invariant_witness:
  "\<exists>h' ref inserted ys. BTree_Insert repeated_params 7 BTree_new = Some (h', ref, inserted) \<and> represents repeated_params h' ys \<and>
    inserted_result repeated_params 7 [] inserted ys \<and>
    sorted_wrt (key_order (UNIQUE_KEYS repeated_params) (Less repeated_params)) (map (key_of repeated_params) ys) \<and>
    item_at h' ref \<in> set ys \<and> equivalent repeated_params (key_of repeated_params (item_at h' ref)) 7"
  using BTree_Insert_keeps_invariant [OF repeated_params_ok new_represents, of 7] .

text \<open>C3. \<open>Find\<close> always returns, in trees with unique keys and in trees in which keys repeat: a reference leads to an item of the tree
  with an equivalent key, and no reference means that no item has one.\<close>

theorem BTree_Find_finds:
  assumes "params_ok p" "represents p h xs"
  shows "\<exists>r. Find p key h = Some r \<and> (case r of
      Some ref \<Rightarrow> item_at h ref \<in> set xs \<and> equivalent p (key_of p (item_at h ref)) key
    | None \<Rightarrow> \<forall>x\<in>set xs. \<not> equivalent p (key_of p x) key)"
proof -
  have "btree p" by unfold_locales (rule assms(1))
  then show ?thesis by (rule btree.Find_finds [OF _ assms(2)])
qed

text \<open>Its witness is a tree that insertions leave, in which keys may repeat.\<close>

theorem BTree_Find_finds_witness:
  "\<exists>h h' ref ref' ins ins'. BTree_Insert repeated_params 7 BTree_new = Some (h, ref, ins) \<and>
    BTree_Insert repeated_params 7 h = Some (h', ref', ins') \<and>
    (\<exists>r. Find repeated_params 7 h' = Some (Some r) \<and> item_at h' r = 7) \<and> Find repeated_params 8 h' = Some None"
proof -
  have p: "Less repeated_params = (<)" "key_of repeated_params = (\<lambda>k. k)" "item_of repeated_params = (\<lambda>k. k)" "\<not> UNIQUE_KEYS repeated_params"
    by (simp_all add: repeated_params_def BTreeSet_params_def)
  have b: "btree repeated_params" by unfold_locales (rule repeated_params_ok)
  obtain h ref ins ys where h: "BTree_Insert repeated_params 7 BTree_new = Some (h, ref, ins)" "represents repeated_params h ys"
    "inserted_result repeated_params 7 [] ins ys"
    using btree.BTree_Insert_contract [OF b new_represents, of 7] by blast
  obtain h' ref' ins' zs where h': "BTree_Insert repeated_params 7 h = Some (h', ref', ins')" "represents repeated_params h' zs"
    "inserted_result repeated_params 7 ys ins' zs"
    using btree.BTree_Insert_contract [OF b h(2), of 7] by blast
  have "ys = [7]" using h(3) p by (auto simp: inserted_result_def insert_at_def split: if_splits)
  then have zs: "set zs = {7}" using h'(3) p by (auto simp: inserted_result_def insert_at_def take_Cons' drop_Cons' split: if_splits)
  have "\<exists>r. Find repeated_params 7 h' = Some (Some r) \<and> item_at h' r = 7"
    using BTree_Find_finds [OF repeated_params_ok h'(2), of 7] p zs by (auto simp: equivalent_def split: option.splits)
  moreover have "Find repeated_params 8 h' = Some None"
    using BTree_Find_finds [OF repeated_params_ok h'(2), of 8] p zs by (fastforce simp: equivalent_def split: option.splits)
  ultimately show ?thesis using h(1) h'(1) by blast
qed

text \<open>C4. The tree's own \<open>SelfTest\<close> accepts every tree that represents a list, so it never reports a failure on a tree made
  by insertions: the links, levels, slots and sizes of all nodes, the order of the keys across leaves, the separator behind each child,
  the chain of leaves and the three counters are what it checks.\<close>

theorem BTree_SelfTest_accepts:
  assumes "params_ok p" "represents p h xs"
  shows "SelfTest p False False h = Some True"
proof -
  have "btree p" by unfold_locales (rule assms(1))
  then show ?thesis by (rule btree.SelfTest_passes [OF _ assms(2)])
qed

theorem BTree_SelfTest_accepts_witness:
  "\<exists>h. insert_keys (BTreeSet_params (<) (0 :: int) 4 4) [9, 2, 7] BTree_new = Some ([True, True, True], h) \<and>
    SelfTest (BTreeSet_params (<) 0 4 4) False False h = Some True"
proof -
  define p where "p = BTreeSet_params (<) (0 :: int) 4 4"
  obtain h where h: "insert_keys p [9, 2, 7] BTree_new = Some (new_keys [9, 2, 7 :: int] {}, h)"
    "represents p h (sorted_list_of_set {9, 2, 7})"
    using insert_keys_run [of 4 4 0 BTree_new "{}" "[9, 2, 7 :: int]"] new_represents by (auto simp: p_def)
  have "params_ok p" by (simp add: p_def params_ok_def BTreeSet_params_def linorder_weak_order)
  then show ?thesis using BTree_SelfTest_accepts h unfolding p_def by auto
qed

text \<open>The search that leaves and branches share: in an array sorted by a strict weak order (strictly, or with equal
  keys), \<open>BinarySearch\<close> ends at a slot within the array with no item in front of it greater than the key and no item from it on
  smaller; it reports a find exactly when the item at the slot is equivalent to the key, and without a find the slot is where every
  smaller item ends and every greater one begins.\<close>

theorem BinarySearch_finds:
  assumes "strict_weak_order lt" "n \<le> length xs" "sorted_wrt (key_order unique lt) (map conv (take n xs))"
  shows "case BinarySearch lt conv key xs n of (slot, found) \<Rightarrow>
    slot \<le> n \<and> (\<forall>i < slot. \<not> lt key (conv (xs ! i))) \<and> (\<forall>i. slot \<le> i \<longrightarrow> i < n \<longrightarrow> \<not> lt (conv (xs ! i)) key) \<and>
    (found \<longleftrightarrow> (\<exists>i<n. \<not> lt (conv (xs ! i)) key \<and> \<not> lt key (conv (xs ! i))))"
proof -
  have c: "comparator lt" by unfold_locales (rule assms(1))
  obtain slot found where r: "BinarySearch lt conv key xs n = (slot, found)" by fastforce
  have "comparator.search_result lt unique conv key xs n (slot, found)"
    using comparator.BinarySearch_correct [OF c assms(3,2), of key] unfolding r .
  then have s: "slot \<le> n" "\<forall>i < slot. key_order unique lt (conv (xs ! i)) key"
    "\<forall>i. slot \<le> i \<longrightarrow> i < n \<longrightarrow> \<not> lt (conv (xs ! i)) key" "found \<Longrightarrow> slot < n \<and> \<not> lt key (conv (xs ! slot))"
    "\<not> found \<Longrightarrow> (\<forall>i < slot. lt (conv (xs ! i)) key) \<and> (\<forall>i. slot \<le> i \<longrightarrow> i < n \<longrightarrow> lt key (conv (xs ! i)))"
    by (auto simp: comparator.search_result_def [OF c])
  have "\<not> lt key (conv (xs ! i))" if "i < slot" for i
    using s(2) that comparator.order_imp_le [OF c] by blast
  moreover have "found \<longleftrightarrow> (\<exists>i<n. \<not> lt (conv (xs ! i)) key \<and> \<not> lt key (conv (xs ! i)))"
    using s(3-5) by (cases found) (blast, meson linorder_not_less)
  ultimately show ?thesis using r s(1,3) by simp
qed

theorem BinarySearch_finds_witness:
  "case BinarySearch (<) (\<lambda>k. k) (30 :: int) [10, 30, 50, 7] 3 of (slot, found) \<Rightarrow>
    slot \<le> 3 \<and> (\<forall>i < slot. \<not> 30 < [10, 30, 50, 7 :: int] ! i) \<and> (\<forall>i. slot \<le> i \<longrightarrow> i < 3 \<longrightarrow> \<not> [10, 30, 50, 7] ! i < (30 :: int)) \<and>
    (found \<longleftrightarrow> (\<exists>i<3. \<not> [10, 30, 50, 7] ! i < (30 :: int) \<and> \<not> 30 < [10, 30, 50, 7 :: int] ! i))"
  by (rule BinarySearch_finds [where unique = True, OF linorder_weak_order]) (simp_all add: key_order_def)

section \<open>Sharing after a deletion\<close>

lemma UpdateKey_keys:
  assumes "UpdateKey b slot key h = Some h'"
  shows "\<exists>ks. h' = h\<lparr>keys := ks\<rparr>"
  using assms
proof (rule UpdateKey.raw_induct [where P = "\<lambda>b slot key h h'. \<exists>ks. h' = h\<lparr>keys := ks\<rparr>", rotated])
  fix f :: "nat \<Rightarrow> nat \<Rightarrow> 'a \<Rightarrow> ('a, 'b) BTree \<Rightarrow> ('a, 'b) BTree option" and b slot key and h h' :: "('a, 'b) BTree"
  assume IH: "\<And>b slot key h h'. f b slot key h = Some h' \<Longrightarrow> \<exists>ks. h' = h\<lparr>keys := ks\<rparr>"
    and run: "(if slot < branch_size h b then Some (h\<lparr>keys := (keys h)(b := (keys h b)[slot := key])\<rparr>)
      else case parent_of h (BranchPtr b) of None \<Rightarrow> Some h | Some q \<Rightarrow> f q (slot_of h (BranchPtr b)) key h) = Some h'"
  have "\<exists>ks. h = h\<lparr>keys := ks\<rparr>" by (rule exI [of _ "keys h"]) simp
  then show "\<exists>ks. h' = h\<lparr>keys := ks\<rparr>" using run IH by (auto split: if_splits option.splits)
qed

text \<open>C5. When a leaf that lost an item shares with its left neighbour, which holds more than half of the items of both,
  \<open>RearrangeItems\<close> does not move the items that it takes from the left leaf: \<open>ArrayMove\<close> is given the number of these items
  instead of their end, and moves nothing. The right leaf then begins with copies of what its array held in these places, and the last
  items of the left leaf are lost.\<close>

theorem RearrangeItems_loses_items:
  assumes "RearrangeItems p a h = Some (r, h')" "leaf_pair a h = Some (l, r)" "l \<noteq> r" "leaf_ok p h l"
    "length (items h r) = LEAF_CAPACITY p" "leaf_size h l + leaf_size h r > LEAF_CAPACITY p"
    "(leaf_size h l + leaf_size h r) div 2 < leaf_size h l"
  shows "content h' l = take ((leaf_size h l + leaf_size h r) div 2) (content h l) \<and>
    content h' r = take (leaf_size h l - (leaf_size h l + leaf_size h r) div 2) (items h r) @ content h r"
proof -
  let ?n = "leaf_size h l" and ?m = "leaf_size h r"
  let ?k = "(?n + ?m) div 2"
  define xs where "xs = ArrayMove (ArrayInsert (items h r) 0 ?m (?n - ?k)) 0 (items h l) ?k (?n - ?k)"
  define h1 where "h1 = h\<lparr>items := (items h)(l := items h l, r := xs), leaf_size := (leaf_size h)(l := ?k, r := ?n + ?m - ?k)\<rparr>"
  have "share_items p l r h = Some h'" using assms(1,2) by (auto simp: RearrangeItems_def)
  then have u: "UpdateParentKey (LeafPtr l) (Leaf_GetMaxKey p l h1) h1 = Some h'"
    using assms(6,7) by (simp add: share_items_def Let_def h1_def xs_def)
  then obtain b where u: "UpdateKey b (slot_of h1 (LeafPtr l)) (Leaf_GetMaxKey p l h1) h1 = Some h'"
    by (auto simp: UpdateParentKey_def split: option.splits)
  obtain ks where h': "h' = h1\<lparr>keys := ks\<rparr>" using UpdateKey_keys [OF u] by (rule exE)
  have sizes: "?n \<le> LEAF_CAPACITY p" "?n - ?k \<le> ?k" "?m + (?n - ?k) \<le> LEAF_CAPACITY p" "?n - ?k \<le> ?n + ?m - ?k"
    "?n + ?m - ?k - (?n - ?k) = ?m" "?m \<le> LEAF_CAPACITY p"
    using assms(4,6,7) by (auto simp: leaf_ok_def)
  then have "xs = take (?n - ?k) (items h r) @ take ?m (items h r) @ drop (?m + (?n - ?k)) (items h r)"
    using assms(5) by (simp add: xs_def ArrayMove_def ArrayInsert_form)
  then have "content h' r = take (?n - ?k) (items h r) @ content h r"
    using sizes assms(3,5,7) by (simp add: content_def h' h1_def min_absorb2)
  moreover have "content h' l = take ?k (content h l)"
    using assms(3,7) by (simp add: content_def h' h1_def min_def)
  ultimately show ?thesis by simp
qed

text \<open>The memory after 10, 20, 30, 40, 50, 5, 12 were inserted into a set with capacities of four, 50 was deleted and 40
  was taken out of its leaf.\<close>

definition before_sharing :: "(int, int) BTree" where
  "before_sharing = BTree_new\<lparr>root := BranchPtr 0, parent_of := (\<lambda>_. None)(LeafPtr 0 := Some 0, LeafPtr 1 := Some 0),
     slot_of := (\<lambda>_. 0)(LeafPtr 1 := 1), leaf_size := (\<lambda>_. 0)(0 := 4, 1 := 1),
     items := (\<lambda>_. [])(0 := [5, 10, 12, 20], 1 := [30, 0, 0, 0]), branch_size := (\<lambda>_. 0)(0 := 1),
     keys := (\<lambda>_. [])(0 := [20, 0, 0, 0]), childs := (\<lambda>_. [])(0 := [LeafPtr 0, LeafPtr 1, Null, Null, Null])\<rparr>"

theorem RearrangeItems_loses_items_witness:
  "\<exists>h'. RearrangeItems (BTreeSet_params (<) 0 4 4) 1 before_sharing = Some (1, h') \<and>
    content h' 0 = [5, 10] \<and> content h' 1 = [30, 0, 30]"
proof -
  let ?p = "BTreeSet_params (<) (0 :: int) 4 4"
  have pair: "leaf_pair 1 before_sharing = Some (0, 1)" by (simp add: leaf_pair_def before_sharing_def)
  have "share_items ?p 0 1 before_sharing \<noteq> None"
    by (simp add: share_items_def Let_def before_sharing_def BTreeSet_params_def UpdateParentKey_def UpdateKey.simps)
  then obtain h' where "share_items ?p 0 1 before_sharing = Some h'" by blast
  then have h': "RearrangeItems ?p 1 before_sharing = Some (1, h')" unfolding RearrangeItems_def pair by simp
  have "content h' 0 = take ((leaf_size before_sharing 0 + leaf_size before_sharing 1) div 2) (content before_sharing 0) \<and>
    content h' 1 = take (leaf_size before_sharing 0 - (leaf_size before_sharing 0 + leaf_size before_sharing 1) div 2)
      (items before_sharing 1) @ content before_sharing 1"
    by (rule RearrangeItems_loses_items [OF h' pair])
      (simp_all add: before_sharing_def leaf_ok_def BTreeSet_params_def)
  then have "content h' 0 = [5, 10]" "content h' 1 = [30, 0, 30]"
    by (simp_all add: before_sharing_def content_def)
  then show ?thesis using h' by blast
qed

end
