(* ===== verification/Print_Stream.thy ===== *)
theory Print_Stream
  imports Xtl_Prelude
begin

text \<open>
  \<^verbatim>\<open>PrintStream.hpp\<close>: a stream is the text printed so far; what needs a loop is the printing of many copies of
  one character.
\<close>

text \<open>\<^verbatim>\<open>CharRepeater\<close> prints from a string of 256 characters.\<close>

definition CharRepeater_CAPACITY :: nat where "CharRepeater_CAPACITY = 256"

function repeat_char :: "char \<Rightarrow> string \<Rightarrow> nat \<Rightarrow> string" where
  "repeat_char c out n =
     (let SOURCE = replicate CharRepeater_CAPACITY c in
      if n > length SOURCE then repeat_char c (out @ SOURCE) (n - length SOURCE)
      else out @ take n SOURCE)"
  by pat_completeness auto
termination by (relation "measure (\<lambda>(c, out, n). n)") (auto simp: CharRepeater_CAPACITY_def)

declare repeat_char.simps [simp del]

definition PrintSpaces :: "nat \<Rightarrow> string \<Rightarrow> string" where
  "PrintSpaces n out = repeat_char CHR '' '' out n"

lemma repeat_char_eq: "repeat_char c out n = out @ replicate n c"
proof (induction c out n rule: repeat_char.induct)
  case (1 c out n)
  let ?m = "CharRepeater_CAPACITY"
  show ?case
  proof (cases "n > ?m")
    case True
    with 1 have "repeat_char c out n = (out @ replicate ?m c) @ replicate (n - ?m) c"
      by (subst repeat_char.simps) (simp add: Let_def)
    with True show ?thesis by (simp flip: replicate_add)
  next
    case False
    then show ?thesis by (subst repeat_char.simps) (simp add: Let_def min_def)
  qed
qed

end
