(* ===== verification/Json_Printer.thy ===== *)
theory Json_Printer
  imports String_Utils Print_Stream
begin

text \<open>
  The JSON printer of \<^verbatim>\<open>json/JsonPrinter\<close>: tokens go in, text comes out, and a stack of states decides what may come next
  and what is printed around it. The stream is the text printed so far; the operations on \<^verbatim>\<open>double\<close> are a parameter.
\<close>

section \<open>State\<close>

datatype StackItemType =
    JSON_ROOT
  | LINEAR_ARRAY_BEGIN | LINEAR_ARRAY_ITEM
  | LINEAR_OBJECT_BEGIN | LINEAR_OBJECT_KEY | LINEAR_OBJECT_VALUE
  | MULTILINE_ARRAY_BEGIN | MULTILINE_ARRAY_ITEM
  | MULTILINE_OBJECT_BEGIN | MULTILINE_OBJECT_KEY | MULTILINE_OBJECT_VALUE

datatype Spacer = CompactSpacer | FormattingSpacer UINT_32

text \<open>The stack has its top in front. \<open>EmptyStack\<close> stands for the undefined call of \<^verbatim>\<open>back\<close> on an empty list.\<close>

record JsonPrinter =
  printStream :: string
  spacer :: Spacer
  stack :: "StackItemType list"

datatype json_error = RuntimeError string | EmptyStack

definition JsonPrinter_new :: "string \<Rightarrow> Spacer \<Rightarrow> JsonPrinter" where
  "JsonPrinter_new out sp = \<lparr>printStream = out, spacer = sp, stack = [JSON_ROOT]\<rparr>"

definition Push :: "StackItemType \<Rightarrow> JsonPrinter \<Rightarrow> JsonPrinter" where
  "Push v j = j\<lparr>stack := v # stack j\<rparr>"

definition SetTop :: "StackItemType \<Rightarrow> JsonPrinter \<Rightarrow> JsonPrinter" where
  "SetTop v j = j\<lparr>stack := v # tl (stack j)\<rparr>"

definition Pop :: "JsonPrinter \<Rightarrow> JsonPrinter" where "Pop j = j\<lparr>stack := tl (stack j)\<rparr>"

definition Print_chars :: "string \<Rightarrow> JsonPrinter \<Rightarrow> JsonPrinter" where
  "Print_chars s j = j\<lparr>printStream := printStream j @ s\<rparr>"

definition Char_json :: "char \<Rightarrow> JsonPrinter \<Rightarrow> JsonPrinter" where "Char_json c = Print_chars [c]"

definition Space_json :: "JsonPrinter \<Rightarrow> JsonPrinter" where
  "Space_json j = (case spacer j of CompactSpacer \<Rightarrow> j | FormattingSpacer indent \<Rightarrow> Print_chars '' '' j)"

definition NextLine :: "JsonPrinter \<Rightarrow> JsonPrinter" where
  "NextLine j = (case spacer j of CompactSpacer \<Rightarrow> j
     | FormattingSpacer indent \<Rightarrow>
         (let j = Print_chars [CHR 0x0A] j in j\<lparr>printStream := PrintSpaces (unat (4 * indent)) (printStream j)\<rparr>))"

definition IncIndent :: "JsonPrinter \<Rightarrow> JsonPrinter" where
  "IncIndent j = j\<lparr>spacer := (case spacer j of CompactSpacer \<Rightarrow> CompactSpacer | FormattingSpacer indent \<Rightarrow> FormattingSpacer (indent + 1))\<rparr>"

definition DecIndent :: "JsonPrinter \<Rightarrow> JsonPrinter" where
  "DecIndent j = j\<lparr>spacer := (case spacer j of CompactSpacer \<Rightarrow> CompactSpacer | FormattingSpacer indent \<Rightarrow> FormattingSpacer (indent - 1))\<rparr>"

definition RaiseError :: "string \<Rightarrow> JsonPrinter \<Rightarrow> (json_error + unit) \<times> JsonPrinter" where
  "RaiseError what = throwM (RuntimeError what)"

definition done_json :: "JsonPrinter \<Rightarrow> (json_error + unit) \<times> JsonPrinter" where
  "done_json = returnM ()"

section \<open>Literals\<close>

datatype 'f Literal =
    NullLiteral
  | BooleanLiteral bool
  | SignedLiteral int
  | UnsignedLiteral nat
  | DoubleLiteral 'f
  | ConstCharPtrLiteral string

definition CanBeObjectKey :: "'f Literal \<Rightarrow> bool" where
  "CanBeObjectKey l = (case l of ConstCharPtrLiteral s \<Rightarrow> True | _ \<Rightarrow> False)"

text \<open>The table of \<^verbatim>\<open>EscapeChar\<close>; a NUL entry is no escape.\<close>

definition escape_chars :: string where
  "escape_chars =
     replicate 8 CHR 0x00 @ [CHR ''b'', CHR ''t'', CHR ''n'', CHR 0x00, CHR ''f'', CHR ''r'', CHR 0x00, CHR 0x00] @
     replicate 16 CHR 0x00 @
     [CHR 0x00, CHR 0x00, CHR 0x22] @ replicate 12 CHR 0x00 @ [CHR ''/''] @
     replicate 16 CHR 0x00 @ replicate 16 CHR 0x00 @
     replicate 12 CHR 0x00 @ [CHR 0x5C, CHR 0x00, CHR 0x00, CHR 0x00] @
     replicate 160 CHR 0x00"

definition EscapeChar :: "char \<Rightarrow> char" where
  "EscapeChar ch = escape_chars ! char_index ch"

text \<open>\<open>s\<close> is what the pointer leads to in front of its NUL; \<open>from\<close> and \<open>i\<close> are the pointers \<open>begin\<close> and \<open>ptr\<close>.\<close>

function escape_loop :: "string \<Rightarrow> nat \<Rightarrow> nat \<Rightarrow> string \<Rightarrow> string" where
  "escape_loop s from i out =
     (if i < length s then
        (let ch = EscapeChar (s ! i) in
         if ch \<noteq> CHR 0x00 then
           escape_loop s (i + 1) (i + 1) ((if from < i then out @ take (i - from) (drop from s) else out) @ [CHR 0x5C, ch])
         else escape_loop s from (i + 1) out)
      else if from < i then out @ take (i - from) (drop from s) else out)"
  by pat_completeness auto
termination by (relation "measure (\<lambda>(s, from, i, out). length s - i)") (auto simp: Let_def)

declare escape_loop.simps [simp del]

definition print_ConstCharPtr :: "string \<Rightarrow> string \<Rightarrow> string" where
  "print_ConstCharPtr v out = escape_loop (c_str v) 0 0 (out @ [CHR 0x22]) @ [CHR 0x22]"

definition print_DoubleLiteral :: "'f double_ops \<Rightarrow> 'f \<Rightarrow> string \<Rightarrow> string" where
  "print_DoubleLiteral d v out =
     (let out = out @ FloatStringifier d v in if IsInteger_str (FloatStringifier d v) then out @ ''.0'' else out)"

definition print_Literal :: "'f double_ops \<Rightarrow> 'f Literal \<Rightarrow> string \<Rightarrow> string" where
  "print_Literal d l out = (case l of
     NullLiteral \<Rightarrow> out @ ''null''
   | BooleanLiteral v \<Rightarrow> out @ (if v then ''true'' else ''false'')
   | SignedLiteral v \<Rightarrow> out @ IntegerToString_signed v
   | UnsignedLiteral v \<Rightarrow> out @ IntegerToString_unsigned v
   | DoubleLiteral v \<Rightarrow> print_DoubleLiteral d v out
   | ConstCharPtrLiteral v \<Rightarrow> print_ConstCharPtr v out)"

definition Print_Literal :: "'f double_ops \<Rightarrow> 'f Literal \<Rightarrow> JsonPrinter \<Rightarrow> JsonPrinter" where
  "Print_Literal d l j = j\<lparr>printStream := print_Literal d l (printStream j)\<rparr>"

section \<open>Tokens\<close>

definition put_LinearArray :: "JsonPrinter \<Rightarrow> (json_error + unit) \<times> JsonPrinter" where
  "put_LinearArray j =
     (let enter = (\<lambda>j. done_json (Push LINEAR_ARRAY_BEGIN (Char_json CHR ''['' j))) in
      case stack j of [] \<Rightarrow> throwM EmptyStack j | state # rest \<Rightarrow> (case state of
          JSON_ROOT \<Rightarrow> enter j
        | LINEAR_ARRAY_BEGIN \<Rightarrow> enter (SetTop LINEAR_ARRAY_ITEM (Space_json j))
        | MULTILINE_ARRAY_BEGIN \<Rightarrow> enter (SetTop MULTILINE_ARRAY_ITEM (NextLine j))
        | LINEAR_ARRAY_ITEM \<Rightarrow> enter (Space_json (Char_json CHR '','' j))
        | MULTILINE_ARRAY_ITEM \<Rightarrow> enter (NextLine (Char_json CHR '','' j))
        | LINEAR_OBJECT_KEY \<Rightarrow> enter (SetTop LINEAR_OBJECT_VALUE (Space_json j))
        | MULTILINE_OBJECT_KEY \<Rightarrow> enter (SetTop MULTILINE_OBJECT_VALUE (Space_json j))
        | _ \<Rightarrow> RaiseError ''Begin of array received, while string key expected.'' j))"

definition put_LinearObject :: "JsonPrinter \<Rightarrow> (json_error + unit) \<times> JsonPrinter" where
  "put_LinearObject j =
     (let enter = (\<lambda>j. done_json (Push LINEAR_OBJECT_BEGIN (Char_json CHR ''{'' j))) in
      case stack j of [] \<Rightarrow> throwM EmptyStack j | state # rest \<Rightarrow> (case state of
          JSON_ROOT \<Rightarrow> enter j
        | LINEAR_ARRAY_BEGIN \<Rightarrow> enter (SetTop LINEAR_ARRAY_ITEM (Space_json j))
        | MULTILINE_ARRAY_BEGIN \<Rightarrow> enter (SetTop MULTILINE_ARRAY_ITEM (NextLine j))
        | LINEAR_ARRAY_ITEM \<Rightarrow> enter (Space_json (Char_json CHR '','' j))
        | MULTILINE_ARRAY_ITEM \<Rightarrow> enter (NextLine (Char_json CHR '','' j))
        | LINEAR_OBJECT_KEY \<Rightarrow> enter (SetTop LINEAR_OBJECT_VALUE (Space_json j))
        | MULTILINE_OBJECT_KEY \<Rightarrow> enter (SetTop MULTILINE_OBJECT_VALUE (Space_json j))
        | _ \<Rightarrow> RaiseError ''Begin of object received, while string key expected.'' j))"

definition put_Array :: "JsonPrinter \<Rightarrow> (json_error + unit) \<times> JsonPrinter" where
  "put_Array j =
     (let enter = (\<lambda>j. done_json (Push MULTILINE_ARRAY_BEGIN (IncIndent (Char_json CHR ''['' j)))) in
      case stack j of [] \<Rightarrow> throwM EmptyStack j | state # rest \<Rightarrow> (case state of
          JSON_ROOT \<Rightarrow> enter j
        | LINEAR_ARRAY_BEGIN \<Rightarrow> put_LinearArray j
        | LINEAR_ARRAY_ITEM \<Rightarrow> put_LinearArray j
        | LINEAR_OBJECT_KEY \<Rightarrow> put_LinearArray j
        | MULTILINE_ARRAY_BEGIN \<Rightarrow> enter (SetTop MULTILINE_ARRAY_ITEM (NextLine j))
        | MULTILINE_ARRAY_ITEM \<Rightarrow> enter (NextLine (Char_json CHR '','' j))
        | MULTILINE_OBJECT_KEY \<Rightarrow> enter (SetTop MULTILINE_OBJECT_VALUE (Space_json j))
        | _ \<Rightarrow> RaiseError ''Begin of array received, while string key expected.'' j))"

definition put_Object :: "JsonPrinter \<Rightarrow> (json_error + unit) \<times> JsonPrinter" where
  "put_Object j =
     (let enter = (\<lambda>j. done_json (Push MULTILINE_OBJECT_BEGIN (IncIndent (Char_json CHR ''{'' j)))) in
      case stack j of [] \<Rightarrow> throwM EmptyStack j | state # rest \<Rightarrow> (case state of
          JSON_ROOT \<Rightarrow> enter j
        | LINEAR_ARRAY_BEGIN \<Rightarrow> put_LinearObject j
        | LINEAR_ARRAY_ITEM \<Rightarrow> put_LinearObject j
        | LINEAR_OBJECT_KEY \<Rightarrow> put_LinearObject j
        | MULTILINE_ARRAY_BEGIN \<Rightarrow> enter (SetTop MULTILINE_ARRAY_ITEM (NextLine j))
        | MULTILINE_ARRAY_ITEM \<Rightarrow> enter (NextLine (Char_json CHR '','' j))
        | MULTILINE_OBJECT_KEY \<Rightarrow> enter (SetTop MULTILINE_OBJECT_VALUE (Space_json j))
        | _ \<Rightarrow> RaiseError ''Begin of object received, while string key expected.'' j))"

definition put_End :: "JsonPrinter \<Rightarrow> (json_error + unit) \<times> JsonPrinter" where
  "put_End j =
     (let leave = (\<lambda>j. done_json (Pop j)) in
      case stack j of [] \<Rightarrow> throwM EmptyStack j | state # rest \<Rightarrow> (case state of
          JSON_ROOT \<Rightarrow> RaiseError ''Unexpected 'end' tag'' j
        | LINEAR_ARRAY_BEGIN \<Rightarrow> leave (Char_json CHR '']'' j)
        | LINEAR_ARRAY_ITEM \<Rightarrow> leave (Char_json CHR '']'' (Space_json j))
        | LINEAR_OBJECT_BEGIN \<Rightarrow> leave (Char_json CHR ''}'' j)
        | LINEAR_OBJECT_VALUE \<Rightarrow> leave (Char_json CHR ''}'' (Space_json j))
        | MULTILINE_ARRAY_BEGIN \<Rightarrow> leave (Char_json CHR '']'' j)
        | MULTILINE_ARRAY_ITEM \<Rightarrow> leave (Char_json CHR '']'' (NextLine (DecIndent j)))
        | MULTILINE_OBJECT_BEGIN \<Rightarrow> leave (Char_json CHR ''}'' j)
        | MULTILINE_OBJECT_VALUE \<Rightarrow> leave (Char_json CHR ''}'' (NextLine (DecIndent j)))
        | LINEAR_OBJECT_KEY \<Rightarrow> RaiseError ''End of object received, while string key expected.'' j
        | MULTILINE_OBJECT_KEY \<Rightarrow> RaiseError ''End of object received, while string key expected.'' j))"

definition put_Literal :: "'f double_ops \<Rightarrow> 'f Literal \<Rightarrow> JsonPrinter \<Rightarrow> (json_error + unit) \<times> JsonPrinter" where
  "put_Literal d l j =
     (let key_error = RaiseError ''Object key as string literal expected'' in
      case stack j of [] \<Rightarrow> throwM EmptyStack j | state # rest \<Rightarrow> (case state of
          JSON_ROOT \<Rightarrow> RaiseError ''Unexpected literal at root level'' j
        | LINEAR_ARRAY_BEGIN \<Rightarrow> done_json (SetTop LINEAR_ARRAY_ITEM (Print_Literal d l (Space_json j)))
        | LINEAR_ARRAY_ITEM \<Rightarrow> done_json (Print_Literal d l (Space_json (Char_json CHR '','' j)))
        | LINEAR_OBJECT_BEGIN \<Rightarrow>
            if \<not> CanBeObjectKey l then key_error j
            else done_json (SetTop LINEAR_OBJECT_KEY (Char_json CHR '':'' (Space_json (Print_Literal d l (Space_json j)))))
        | LINEAR_OBJECT_KEY \<Rightarrow> done_json (SetTop LINEAR_OBJECT_VALUE (Print_Literal d l (Space_json j)))
        | LINEAR_OBJECT_VALUE \<Rightarrow>
            if \<not> CanBeObjectKey l then key_error j
            else done_json (SetTop LINEAR_OBJECT_KEY
              (Char_json CHR '':'' (Space_json (Print_Literal d l (Space_json (Char_json CHR '','' j))))))
        | MULTILINE_ARRAY_BEGIN \<Rightarrow> done_json (SetTop MULTILINE_ARRAY_ITEM (Print_Literal d l (NextLine j)))
        | MULTILINE_ARRAY_ITEM \<Rightarrow> done_json (Print_Literal d l (NextLine (Char_json CHR '','' j)))
        | MULTILINE_OBJECT_BEGIN \<Rightarrow>
            if \<not> CanBeObjectKey l then key_error j
            else done_json (SetTop MULTILINE_OBJECT_KEY (Char_json CHR '':'' (Space_json (Print_Literal d l (NextLine j)))))
        | MULTILINE_OBJECT_KEY \<Rightarrow> done_json (SetTop MULTILINE_OBJECT_VALUE (Print_Literal d l (Space_json j)))
        | MULTILINE_OBJECT_VALUE \<Rightarrow>
            if \<not> CanBeObjectKey l then key_error j
            else done_json (SetTop MULTILINE_OBJECT_KEY
              (Char_json CHR '':'' (Space_json (Print_Literal d l (NextLine (Char_json CHR '','' j))))))))"

text \<open>The overloads of \<^verbatim>\<open>operator<<\<close> for values.\<close>

definition put_null :: "'f double_ops \<Rightarrow> JsonPrinter \<Rightarrow> (json_error + unit) \<times> JsonPrinter" where
  "put_null d = put_Literal d NullLiteral"

definition put_bool :: "'f double_ops \<Rightarrow> bool \<Rightarrow> JsonPrinter \<Rightarrow> (json_error + unit) \<times> JsonPrinter" where
  "put_bool d v = put_Literal d (BooleanLiteral v)"

definition put_const_char_ptr :: "'f double_ops \<Rightarrow> string \<Rightarrow> JsonPrinter \<Rightarrow> (json_error + unit) \<times> JsonPrinter" where
  "put_const_char_ptr d v = put_Literal d (ConstCharPtrLiteral v)"

definition put_string :: "'f double_ops \<Rightarrow> string \<Rightarrow> JsonPrinter \<Rightarrow> (json_error + unit) \<times> JsonPrinter" where
  "put_string d v = put_Literal d (ConstCharPtrLiteral (c_str v))"

definition put_char :: "'f double_ops \<Rightarrow> char \<Rightarrow> JsonPrinter \<Rightarrow> (json_error + unit) \<times> JsonPrinter" where
  "put_char d v = put_Literal d (ConstCharPtrLiteral (c_str [v, CHR 0x00]))"

definition put_int :: "'f double_ops \<Rightarrow> 32 word \<Rightarrow> JsonPrinter \<Rightarrow> (json_error + unit) \<times> JsonPrinter" where
  "put_int d v = put_Literal d (SignedLiteral (sint v))"

definition put_unsigned_int :: "'f double_ops \<Rightarrow> 32 word \<Rightarrow> JsonPrinter \<Rightarrow> (json_error + unit) \<times> JsonPrinter" where
  "put_unsigned_int d v = put_Literal d (UnsignedLiteral (unat v))"

definition put_long_int :: "'f double_ops \<Rightarrow> 64 word \<Rightarrow> JsonPrinter \<Rightarrow> (json_error + unit) \<times> JsonPrinter" where
  "put_long_int d v = put_Literal d (SignedLiteral (sint v))"

definition put_unsigned_long_int :: "'f double_ops \<Rightarrow> 64 word \<Rightarrow> JsonPrinter \<Rightarrow> (json_error + unit) \<times> JsonPrinter" where
  "put_unsigned_long_int d v = put_Literal d (UnsignedLiteral (unat v))"

definition put_long_long_int :: "'f double_ops \<Rightarrow> 64 word \<Rightarrow> JsonPrinter \<Rightarrow> (json_error + unit) \<times> JsonPrinter" where
  "put_long_long_int d v = put_Literal d (SignedLiteral (sint v))"

definition put_unsigned_long_long_int :: "'f double_ops \<Rightarrow> 64 word \<Rightarrow> JsonPrinter \<Rightarrow> (json_error + unit) \<times> JsonPrinter" where
  "put_unsigned_long_long_int d v = put_Literal d (UnsignedLiteral (unat v))"

definition put_double :: "'f double_ops \<Rightarrow> 'f \<Rightarrow> JsonPrinter \<Rightarrow> (json_error + unit) \<times> JsonPrinter" where
  "put_double d v = put_Literal d (DoubleLiteral v)"

text \<open>The loop of the two \<^verbatim>\<open>Finish\<close> tokens closes what is open.\<close>

lemma put_End_pops: "put_End j = (Inr (), j') \<Longrightarrow> stack j \<noteq> [] \<and> stack j' = tl (stack j)"
  by (auto simp: put_End_def RaiseError_def throwM_def returnM_def done_json_def Pop_def Char_json_def Print_chars_def
      Space_json_def NextLine_def DecIndent_def Let_def split: list.splits StackItemType.splits Spacer.splits)

function finish_loop :: "JsonPrinter \<Rightarrow> (json_error + unit) \<times> JsonPrinter" where
  "finish_loop j = (case stack j of [] \<Rightarrow> throwM EmptyStack j
     | state # rest \<Rightarrow> if state = JSON_ROOT then done_json j
         else (case put_End j of (Inl e, j') \<Rightarrow> (Inl e, j') | (Inr u, j') \<Rightarrow> finish_loop j'))"
  by pat_completeness auto
termination
proof (relation "measure (\<lambda>j. length (stack j))", goal_cases)
  case (2 j state rest x j' u)
  then have "put_End j = (Inr (), j')" by (cases u) auto
  from put_End_pops [OF this] 2(1) show ?case by simp
qed simp

declare finish_loop.simps [simp del]

definition put_LinearFinish :: "JsonPrinter \<Rightarrow> (json_error + unit) \<times> JsonPrinter" where
  "put_LinearFinish = finish_loop"

definition put_Finish :: "JsonPrinter \<Rightarrow> (json_error + unit) \<times> JsonPrinter" where
  "put_Finish = bindM finish_loop (\<lambda>_ j. done_json (NextLine j))"

end
