(* ===== verification/Json_Rendering.thy ===== *)
theory Json_Rendering
  imports Json_Printer
begin

text \<open>
  What the JSON printer promises: any sequence of tokens it accepts and closes is the sequence of some values, and the text
  printed for a value is its reference rendering.
\<close>

section \<open>Sequences of tokens\<close>

datatype 'f token =
    Value "'f Literal" | OpenLinearArray | OpenLinearObject | OpenArray | OpenObject | CloseContainer

fun put_token :: "'f double_ops \<Rightarrow> 'f token \<Rightarrow> JsonPrinter \<Rightarrow> (json_error + unit) \<times> JsonPrinter" where
  "put_token d (Value l) = put_Literal d l"
| "put_token d OpenLinearArray = put_LinearArray"
| "put_token d OpenLinearObject = put_LinearObject"
| "put_token d OpenArray = put_Array"
| "put_token d OpenObject = put_Object"
| "put_token d CloseContainer = put_End"

fun put_tokens :: "'f double_ops \<Rightarrow> 'f token list \<Rightarrow> JsonPrinter \<Rightarrow> (json_error + unit) \<times> JsonPrinter" where
  "put_tokens d [] j = (Inr (), j)"
| "put_tokens d (t # ts) j = (case put_token d t j of (Inl e, j') \<Rightarrow> (Inl e, j') | (Inr u, j') \<Rightarrow> put_tokens d ts j')"

lemma put_tokens_append:
  "put_tokens d (ts @ us) j = (case put_tokens d ts j of (Inl e, j') \<Rightarrow> (Inl e, j') | (Inr u, j') \<Rightarrow> put_tokens d us j')"
  by (induction ts arbitrary: j) (auto split: prod.splits sum.splits)

lemma put_tokens_append_ok:
  "put_tokens d ts j = (Inr (), j') \<Longrightarrow> put_tokens d (ts @ us) j = put_tokens d us j'"
  by (simp add: put_tokens_append)

section \<open>Values\<close>

text \<open>\<open>multi\<close> tells \<^verbatim>\<open>Array\<close> and \<^verbatim>\<open>Object\<close> from \<^verbatim>\<open>LinearArray\<close> and \<^verbatim>\<open>LinearObject\<close>.\<close>

datatype 'f json = Lit "'f Literal" | Arr bool "'f json list" | Obj bool "(string \<times> 'f json) list"

definition open_array :: "bool \<Rightarrow> 'f token" where "open_array multi = (if multi then OpenArray else OpenLinearArray)"
definition open_object :: "bool \<Rightarrow> 'f token" where "open_object multi = (if multi then OpenObject else OpenLinearObject)"

fun tokens :: "'f json \<Rightarrow> 'f token list" where
  "tokens (Lit l) = [Value l]"
| "tokens (Arr multi vs) = open_array multi # concat (map tokens vs) @ [CloseContainer]"
| "tokens (Obj multi kvs) =
     open_object multi # concat (map (\<lambda>(k, v). Value (ConstCharPtrLiteral k) # tokens v) kvs) @ [CloseContainer]"

definition is_container :: "'f json \<Rightarrow> bool" where
  "is_container v = (case v of Lit l \<Rightarrow> False | _ \<Rightarrow> True)"

text \<open>The reference rendering. \<open>sp\<close> is the spacer at the line the value starts on, \<open>linear\<close> tells that the value is inside a
  container printed on one line.\<close>

definition blank :: "Spacer \<Rightarrow> string" where
  "blank sp = (case sp of CompactSpacer \<Rightarrow> [] | FormattingSpacer n \<Rightarrow> '' '')"

definition new_line :: "Spacer \<Rightarrow> string" where
  "new_line sp = (case sp of CompactSpacer \<Rightarrow> [] | FormattingSpacer n \<Rightarrow> CHR 0x0A # replicate (unat (4 * n)) CHR '' '')"

definition deeper :: "Spacer \<Rightarrow> Spacer" where
  "deeper sp = (case sp of CompactSpacer \<Rightarrow> CompactSpacer | FormattingSpacer n \<Rightarrow> FormattingSpacer (n + 1))"

definition one_line :: "bool \<Rightarrow> bool \<Rightarrow> bool" where "one_line linear multi = (linear \<or> \<not> multi)"

definition inner :: "bool \<Rightarrow> Spacer \<Rightarrow> Spacer" where "inner line sp = (if line then sp else deeper sp)"

definition gap :: "bool \<Rightarrow> Spacer \<Rightarrow> string" where "gap line sp = (if line then blank sp else new_line sp)"

fun separated :: "string \<Rightarrow> string list \<Rightarrow> string" where
  "separated sep [] = []"
| "separated sep [x] = x"
| "separated sep (x # y # xs) = x @ sep @ separated sep (y # xs)"

definition enclosed :: "char \<Rightarrow> char \<Rightarrow> bool \<Rightarrow> Spacer \<Rightarrow> string list \<Rightarrow> string" where
  "enclosed opening closing line sp items =
     opening # (if items = [] then []
       else gap line (inner line sp) @ separated (CHR '','' # gap line (inner line sp)) items @ gap line sp) @ [closing]"

fun render :: "'f double_ops \<Rightarrow> Spacer \<Rightarrow> bool \<Rightarrow> 'f json \<Rightarrow> string" where
  "render d sp linear (Lit l) = print_Literal d l []"
| "render d sp linear (Arr multi vs) =
     enclosed CHR ''['' CHR '']'' (one_line linear multi) sp
       (map (render d (inner (one_line linear multi) sp) (one_line linear multi)) vs)"
| "render d sp linear (Obj multi kvs) =
     enclosed CHR ''{'' CHR ''}'' (one_line linear multi) sp
       (map (\<lambda>(k, v). print_ConstCharPtr k [] @ blank sp @ '':'' @ blank sp @
          render d (inner (one_line linear multi) sp) (one_line linear multi) v) kvs)"

text \<open>The values without an empty container that would be printed over several lines.\<close>

fun no_empty_multiline :: "bool \<Rightarrow> 'f json \<Rightarrow> bool" where
  "no_empty_multiline linear (Lit l) = True"
| "no_empty_multiline linear (Arr multi vs) =
     ((vs = [] \<longrightarrow> one_line linear multi) \<and> list_all (no_empty_multiline (one_line linear multi)) vs)"
| "no_empty_multiline linear (Obj multi kvs) =
     ((kvs = [] \<longrightarrow> one_line linear multi) \<and> list_all (\<lambda>(k, v). no_empty_multiline (one_line linear multi) v) kvs)"

text \<open>When the rendering is what the printer prints: without indents, or without such containers.\<close>

definition printed_exactly :: "Spacer \<Rightarrow> bool \<Rightarrow> 'f json \<Rightarrow> bool" where
  "printed_exactly sp linear v = (sp = CompactSpacer \<or> no_empty_multiline linear v)"

section \<open>What is printed\<close>

text \<open>The reference escaping: every character on its own.\<close>

definition escape_one :: "char \<Rightarrow> string" where
  "escape_one c = (if EscapeChar c \<noteq> CHR 0x00 then [CHR 0x5C, EscapeChar c] else [c])"

definition escaped :: "string \<Rightarrow> string" where "escaped s = concat (map escape_one s)"

lemma take_drop_step: "start \<le> i \<Longrightarrow> i < length s \<Longrightarrow> take (Suc i - start) (drop start s) = take (i - start) (drop start s) @ [s ! i]"
  by (simp add: Suc_diff_le take_Suc_conv_app_nth)

lemma escape_loop_eq:
  assumes "start \<le> i" and "i \<le> length s"
  shows "escape_loop s start i out = out @ take (i - start) (drop start s) @ escaped (drop i s)"
  using assms
proof (induction s start i out rule: escape_loop.induct)
  case (1 s start i out)
  show ?case
  proof (cases "i < length s")
    case True
    then have split: "drop i s = s ! i # drop (Suc i) s" by (simp add: Cons_nth_drop_Suc)
    show ?thesis
    proof (cases "EscapeChar (s ! i) = CHR 0x00")
      case esc: True
      have "escape_loop s start i out = escape_loop s start (i + 1) out"
        using True esc by (subst escape_loop.simps) simp
      also have "\<dots> = out @ take (i + 1 - start) (drop start s) @ escaped (drop (i + 1) s)"
        by (rule 1(2) [OF True refl]) (use 1(3) True esc in auto)
      finally show ?thesis using 1(3) True esc by (simp add: split take_drop_step escaped_def escape_one_def)
    next
      case esc: False
      let ?out = "(if start < i then out @ take (i - start) (drop start s) else out) @ [CHR 0x5C, EscapeChar (s ! i)]"
      have "escape_loop s start i out = escape_loop s (i + 1) (i + 1) ?out"
        using True esc by (subst escape_loop.simps) (simp add: Let_def)
      also have "\<dots> = ?out @ take (i + 1 - (i + 1)) (drop (i + 1) s) @ escaped (drop (i + 1) s)"
        by (rule 1(1) [OF True refl]) (use True esc in auto)
      finally show ?thesis using esc by (auto simp: split escaped_def escape_one_def)
    qed
  next
    case False
    with 1(4) show ?thesis by (subst escape_loop.simps) (auto simp: escaped_def)
  qed
qed

lemma print_ConstCharPtr_eq: "print_ConstCharPtr v out = out @ [CHR 0x22] @ escaped (c_str v) @ [CHR 0x22]"
  by (simp add: print_ConstCharPtr_def escape_loop_eq)

lemma print_Literal_prefix: "print_Literal d l (p @ out) = p @ print_Literal d l out"
  by (cases l) (simp_all add: print_Literal_def print_DoubleLiteral_def print_ConstCharPtr_eq Let_def)

lemma print_Literal_out: "print_Literal d l out = out @ print_Literal d l []"
  using print_Literal_prefix [of d l out "[]"] by simp

lemma print_ConstCharPtr_Literal: "print_Literal d (ConstCharPtrLiteral k) [] = print_ConstCharPtr k []"
  by (simp add: print_Literal_def)

lemma Print_Literal_eq: "Print_Literal d l j = Print_chars (print_Literal d l []) j"
  using print_Literal_out [of d l "printStream j"] by (simp add: Print_Literal_def Print_chars_def)

lemma Space_eq: "Space_json j = Print_chars (blank (spacer j)) j"
  by (simp add: Space_json_def blank_def Print_chars_def split: Spacer.splits)

lemma NextLine_eq: "NextLine j = Print_chars (new_line (spacer j)) j"
  by (simp add: NextLine_def new_line_def Print_chars_def PrintSpaces_def repeat_char_eq split: Spacer.splits)

lemma IncIndent_eq: "IncIndent j = j\<lparr>spacer := deeper (spacer j)\<rparr>"
  by (simp add: IncIndent_def deeper_def)

lemma DecIndent_deeper: "spacer j = deeper sp \<Longrightarrow> DecIndent j = j\<lparr>spacer := sp\<rparr>"
  by (simp add: DecIndent_def deeper_def split: Spacer.splits)

lemma blank_deeper [simp]: "blank (deeper sp) = blank sp"
  by (simp add: blank_def deeper_def split: Spacer.splits)

lemma blank_inner [simp]: "blank (inner line sp) = blank sp"
  by (simp add: inner_def)

text \<open>A printer is its text, its spacer and its stack.\<close>

definition printer :: "string \<Rightarrow> Spacer \<Rightarrow> StackItemType list \<Rightarrow> JsonPrinter" where
  "printer out sp st = \<lparr>printStream = out, spacer = sp, stack = st\<rparr>"

lemma printer_ops [simp]:
  "Print_chars s (printer out sp st) = printer (out @ s) sp st"
  "SetTop x (printer out sp (y # st)) = printer out sp (x # st)"
  "Push x (printer out sp st) = printer out sp (x # st)"
  "Pop (printer out sp (y # st)) = printer out sp st"
  "IncIndent (printer out sp st) = printer out (deeper sp) st"
  "DecIndent (printer out (deeper sp) st) = printer out sp st"
  "spacer (printer out sp st) = sp"
  "stack (printer out sp st) = st"
  "printStream (printer out sp st) = out"
  by (simp_all add: printer_def Print_chars_def SetTop_def Push_def Pop_def IncIndent_eq DecIndent_deeper)

lemma printer_cases: obtains out sp st where "j = printer out sp st"
  by (cases j) (simp add: printer_def)

lemmas put_defs = put_LinearArray_def put_LinearObject_def put_Array_def put_Object_def put_End_def put_Literal_def
  done_json_def RaiseError_def throwM_def returnM_def Let_def Char_json_def

lemmas print_eqs = Space_eq NextLine_eq Print_Literal_eq

section \<open>A value is printed as its rendering\<close>

definition array_begin :: "bool \<Rightarrow> StackItemType" where "array_begin line = (if line then LINEAR_ARRAY_BEGIN else MULTILINE_ARRAY_BEGIN)"
definition array_item :: "bool \<Rightarrow> StackItemType" where "array_item line = (if line then LINEAR_ARRAY_ITEM else MULTILINE_ARRAY_ITEM)"
definition object_begin :: "bool \<Rightarrow> StackItemType" where "object_begin line = (if line then LINEAR_OBJECT_BEGIN else MULTILINE_OBJECT_BEGIN)"
definition object_key :: "bool \<Rightarrow> StackItemType" where "object_key line = (if line then LINEAR_OBJECT_KEY else MULTILINE_OBJECT_KEY)"
definition object_value :: "bool \<Rightarrow> StackItemType" where "object_value line = (if line then LINEAR_OBJECT_VALUE else MULTILINE_OBJECT_VALUE)"

lemmas state_defs = array_begin_def array_item_def object_begin_def object_key_def object_value_def

text \<open>The states in which a value may come, what is printed in front of it, and the state after it.\<close>

definition linear_state :: "StackItemType \<Rightarrow> bool" where
  "linear_state st = (st \<in> {LINEAR_ARRAY_BEGIN, LINEAR_ARRAY_ITEM, LINEAR_OBJECT_KEY})"

fun takes_value :: "StackItemType \<Rightarrow> bool" where
  "takes_value LINEAR_OBJECT_BEGIN = False"
| "takes_value LINEAR_OBJECT_VALUE = False"
| "takes_value MULTILINE_OBJECT_BEGIN = False"
| "takes_value MULTILINE_OBJECT_VALUE = False"
| "takes_value _ = True"

fun lead :: "Spacer \<Rightarrow> StackItemType \<Rightarrow> string" where
  "lead sp LINEAR_ARRAY_BEGIN = blank sp"
| "lead sp LINEAR_ARRAY_ITEM = CHR '','' # blank sp"
| "lead sp MULTILINE_ARRAY_BEGIN = new_line sp"
| "lead sp MULTILINE_ARRAY_ITEM = CHR '','' # new_line sp"
| "lead sp JSON_ROOT = []"
| "lead sp _ = blank sp"

fun state_after :: "StackItemType \<Rightarrow> StackItemType" where
  "state_after LINEAR_ARRAY_BEGIN = LINEAR_ARRAY_ITEM"
| "state_after MULTILINE_ARRAY_BEGIN = MULTILINE_ARRAY_ITEM"
| "state_after LINEAR_OBJECT_KEY = LINEAR_OBJECT_VALUE"
| "state_after MULTILINE_OBJECT_KEY = MULTILINE_OBJECT_VALUE"
| "state_after st = st"

lemma put_Literal_value:
  "takes_value st \<Longrightarrow> st \<noteq> JSON_ROOT \<Longrightarrow>
     put_Literal d l (printer out sp (st # rest)) = (Inr (), printer (out @ lead sp st @ print_Literal d l []) sp (state_after st # rest))"
  by (cases st) (simp_all add: put_defs print_eqs)

lemma put_array_value:
  "takes_value st \<Longrightarrow> line = one_line (linear_state st) multi \<Longrightarrow>
     put_token d (open_array multi) (printer out sp (st # rest))
       = (Inr (), printer (out @ lead sp st @ ''['') (inner line sp) (array_begin line # state_after st # rest))"
  by (cases st; cases multi) (simp_all add: put_defs print_eqs open_array_def one_line_def linear_state_def inner_def state_defs)

lemma put_object_value:
  "takes_value st \<Longrightarrow> line = one_line (linear_state st) multi \<Longrightarrow>
     put_token d (open_object multi) (printer out sp (st # rest))
       = (Inr (), printer (out @ lead sp st @ ''{'') (inner line sp) (object_begin line # state_after st # rest))"
  by (cases st; cases multi) (simp_all add: put_defs print_eqs open_object_def one_line_def linear_state_def inner_def state_defs)

lemma put_End_array:
  "put_End (printer out (inner line sp) (array_item line # rest)) = (Inr (), printer (out @ gap line sp @ '']'') sp rest)"
  "put_End (printer out sp (array_begin line # rest)) = (Inr (), printer (out @ '']'') sp rest)"
  by (cases line; simp add: put_defs print_eqs inner_def state_defs gap_def)+

lemma put_End_object:
  "put_End (printer out (inner line sp) (object_value line # rest)) = (Inr (), printer (out @ gap line sp @ ''}'') sp rest)"
  "put_End (printer out sp (object_begin line # rest)) = (Inr (), printer (out @ ''}'') sp rest)"
  by (cases line; simp add: put_defs print_eqs inner_def state_defs gap_def)+

lemma put_key:
  "put_Literal d (ConstCharPtrLiteral k) (printer out sp (object_begin line # rest))
     = (Inr (), printer (out @ gap line sp @ print_ConstCharPtr k [] @ blank sp @ '':'') sp (object_key line # rest))"
  "put_Literal d (ConstCharPtrLiteral k) (printer out sp (object_value line # rest))
     = (Inr (), printer (out @ '','' @ gap line sp @ print_ConstCharPtr k [] @ blank sp @ '':'') sp (object_key line # rest))"
  by (cases line; simp add: put_defs print_eqs state_defs gap_def CanBeObjectKey_def print_ConstCharPtr_Literal)+

lemma states_simps [simp]:
  "takes_value (array_begin line)" "takes_value (array_item line)" "takes_value (object_key line)"
  "array_begin line \<noteq> JSON_ROOT" "array_item line \<noteq> JSON_ROOT" "object_key line \<noteq> JSON_ROOT"
  "linear_state (array_begin line) = line" "linear_state (array_item line) = line" "linear_state (object_key line) = line"
  "state_after (array_begin line) = array_item line" "state_after (array_item line) = array_item line"
  "state_after (object_key line) = object_value line"
  "lead sp (array_begin line) = gap line sp" "lead sp (array_item line) = CHR '','' # gap line sp"
  "lead sp (object_key line) = blank sp"
  by (cases line; simp add: state_defs linear_state_def gap_def)+

lemma separated_Cons: "separated sep (x # xs) = x @ concat (map (\<lambda>y. sep @ y) xs)"
  by (induction xs arbitrary: x) simp_all

text \<open>What a value has to do in a state, so that the lists of items can be treated first.\<close>

definition prints_value :: "'f double_ops \<Rightarrow> 'f json \<Rightarrow> bool" where
  "prints_value d v = (\<forall>out sp st rest. takes_value st \<longrightarrow> (is_container v \<or> st \<noteq> JSON_ROOT) \<longrightarrow>
     printed_exactly sp (linear_state st) v \<longrightarrow>
     put_tokens d (tokens v) (printer out sp (st # rest))
       = (Inr (), printer (out @ lead sp st @ render d sp (linear_state st) v) sp (state_after st # rest)))"

lemma prints_valueD:
  "prints_value d v \<Longrightarrow> takes_value st \<Longrightarrow> is_container v \<or> st \<noteq> JSON_ROOT \<Longrightarrow> printed_exactly sp (linear_state st) v \<Longrightarrow>
     put_tokens d (tokens v) (printer out sp (st # rest))
       = (Inr (), printer (out @ lead sp st @ render d sp (linear_state st) v) sp (state_after st # rest))"
  unfolding prints_value_def by blast

lemma put_tokens_items:
  assumes "\<And>v. v \<in> set vs \<Longrightarrow> prints_value d v" and "list_all (printed_exactly sp line) vs"
  shows "put_tokens d (concat (map tokens vs)) (printer out sp (array_item line # rest))
     = (Inr (), printer (out @ concat (map (\<lambda>v. CHR '','' # gap line sp @ render d sp line v) vs)) sp (array_item line # rest))"
  using assms
proof (induction vs arbitrary: out)
  case (Cons v vs)
  have "put_tokens d (tokens v) (printer out sp (array_item line # rest))
     = (Inr (), printer (out @ CHR '','' # gap line sp @ render d sp line v) sp (array_item line # rest))"
    using prints_valueD [of d v "array_item line" sp out rest] Cons.prems by simp
  from put_tokens_append_ok [OF this] Cons show ?case by simp
qed simp

definition member_text :: "'f double_ops \<Rightarrow> Spacer \<Rightarrow> bool \<Rightarrow> string \<times> 'f json \<Rightarrow> string" where
  "member_text d sp line = (\<lambda>(k, v). print_ConstCharPtr k [] @ blank sp @ '':'' @ blank sp @ render d sp line v)"

definition member_tokens :: "string \<times> 'f json \<Rightarrow> 'f token list" where
  "member_tokens = (\<lambda>(k, v). Value (ConstCharPtrLiteral k) # tokens v)"

lemma put_member:
  assumes "prints_value d v" and "printed_exactly sp line v"
  shows "put_tokens d (member_tokens (k, v)) (printer out sp (object_begin line # rest))
     = (Inr (), printer (out @ gap line sp @ member_text d sp line (k, v)) sp (object_value line # rest))"
    and "put_tokens d (member_tokens (k, v)) (printer out sp (object_value line # rest))
     = (Inr (), printer (out @ CHR '','' # gap line sp @ member_text d sp line (k, v)) sp (object_value line # rest))"
  using prints_valueD [of d v "object_key line"] assms by (simp_all add: member_tokens_def member_text_def put_key)

lemma put_tokens_members:
  assumes "\<And>k v. (k, v) \<in> set kvs \<Longrightarrow> prints_value d v" and "list_all (\<lambda>(k, v). printed_exactly sp line v) kvs"
  shows "put_tokens d (concat (map member_tokens kvs)) (printer out sp (object_value line # rest))
     = (Inr (), printer (out @ concat (map (\<lambda>m. CHR '','' # gap line sp @ member_text d sp line m) kvs)) sp (object_value line # rest))"
  using assms
proof (induction kvs arbitrary: out)
  case (Cons kv kvs)
  obtain k v where kv: "kv = (k, v)" by (cases kv)
  have "put_tokens d (member_tokens kv) (printer out sp (object_value line # rest))
     = (Inr (), printer (out @ CHR '','' # gap line sp @ member_text d sp line kv) sp (object_value line # rest))"
    unfolding kv using Cons.prems by (intro put_member) (auto simp: kv)
  moreover have "put_tokens d (concat (map member_tokens kvs)) (printer out' sp (object_value line # rest))
     = (Inr (), printer (out' @ concat (map (\<lambda>m. CHR '','' # gap line sp @ member_text d sp line m) kvs)) sp (object_value line # rest))"
    for out' by (rule Cons.IH) (use Cons.prems in auto)
  ultimately show ?case by (simp add: put_tokens_append)
qed simp

lemma inner_simps [simp]:
  "inner True sp = sp" "inner line CompactSpacer = CompactSpacer" "inner line sp = CompactSpacer \<longleftrightarrow> sp = CompactSpacer"
  by (simp_all add: inner_def deeper_def split: Spacer.splits)

lemma printed_exactly_items:
  "printed_exactly sp linear (Arr multi vs) \<Longrightarrow>
     list_all (printed_exactly (inner (one_line linear multi) sp) (one_line linear multi)) vs"
  "printed_exactly sp linear (Obj multi kvs) \<Longrightarrow>
     list_all (\<lambda>(k, v). printed_exactly (inner (one_line linear multi) sp) (one_line linear multi) v) kvs"
  by (auto simp: printed_exactly_def list_all_iff)

lemma prints_array:
  assumes members: "\<And>v. v \<in> set vs \<Longrightarrow> prints_value d v"
  shows "prints_value d (Arr multi vs)"
  unfolding prints_value_def
proof (intro allI impI)
  fix out sp st rest
  assume st: "takes_value st" and ne: "printed_exactly sp (linear_state st) (Arr multi vs)"
  define line where "line = one_line (linear_state st) multi"
  note exact = printed_exactly_items(1) [OF ne, folded line_def]
  let ?stack = "state_after st # rest"
  have opened: "put_tokens d (tokens (Arr multi vs)) (printer out sp (st # rest))
      = put_tokens d (concat (map tokens vs) @ [CloseContainer]) (printer (out @ lead sp st @ ''['') (inner line sp) (array_begin line # ?stack))"
    by (simp add: put_array_value [OF st line_def])
  show "put_tokens d (tokens (Arr multi vs)) (printer out sp (st # rest))
      = (Inr (), printer (out @ lead sp st @ render d sp (linear_state st) (Arr multi vs)) sp ?stack)"
  proof (cases vs)
    case Nil
    with ne have "inner line sp = sp" by (auto simp: line_def printed_exactly_def)
    with Nil show ?thesis unfolding opened by (simp add: put_End_array enclosed_def)
  next
    case (Cons v ws)
    let ?out = "out @ lead sp st @ ''['' @ gap line (inner line sp) @ render d (inner line sp) line v"
    have "put_tokens d (tokens v) (printer (out @ lead sp st @ ''['') (inner line sp) (array_begin line # ?stack))
        = (Inr (), printer ?out (inner line sp) (array_item line # ?stack))"
      using prints_valueD [OF members, of v "array_begin line"] exact Cons by simp
    moreover have "put_tokens d (concat (map tokens ws)) (printer ?out (inner line sp) (array_item line # ?stack)) =
        (Inr (), printer (?out @ concat (map (\<lambda>v. CHR '','' # gap line (inner line sp) @ render d (inner line sp) line v) ws))
          (inner line sp) (array_item line # ?stack))"
      by (rule put_tokens_items) (use members exact Cons in auto)
    ultimately show ?thesis unfolding opened
      by (simp add: Cons put_tokens_append put_End_array enclosed_def separated_Cons comp_def flip: line_def)
  qed
qed

lemma prints_object:
  assumes members: "\<And>k v. (k, v) \<in> set kvs \<Longrightarrow> prints_value d v"
  shows "prints_value d (Obj multi kvs)"
  unfolding prints_value_def
proof (intro allI impI)
  fix out sp st rest
  assume st: "takes_value st" and ne: "printed_exactly sp (linear_state st) (Obj multi kvs)"
  define line where "line = one_line (linear_state st) multi"
  note exact = printed_exactly_items(2) [OF ne, folded line_def]
  let ?stack = "state_after st # rest"
  have opened: "put_tokens d (tokens (Obj multi kvs)) (printer out sp (st # rest))
      = put_tokens d (concat (map member_tokens kvs) @ [CloseContainer])
          (printer (out @ lead sp st @ ''{'') (inner line sp) (object_begin line # ?stack))"
    by (simp add: put_object_value [OF st line_def] member_tokens_def)
  have rendered: "render d sp (linear_state st) (Obj multi kvs)
      = enclosed CHR ''{'' CHR ''}'' line sp (map (member_text d (inner line sp) line) kvs)"
    by (simp add: line_def member_text_def)
  show "put_tokens d (tokens (Obj multi kvs)) (printer out sp (st # rest))
      = (Inr (), printer (out @ lead sp st @ render d sp (linear_state st) (Obj multi kvs)) sp ?stack)"
  proof (cases kvs)
    case Nil
    with ne have "inner line sp = sp" by (auto simp: line_def printed_exactly_def)
    with Nil show ?thesis unfolding opened rendered by (simp add: put_End_object enclosed_def)
  next
    case (Cons kv ws)
    obtain k v where kv: "kv = (k, v)" by (cases kv)
    let ?out = "out @ lead sp st @ ''{'' @ gap line (inner line sp) @ member_text d (inner line sp) line kv"
    have "put_tokens d (member_tokens kv) (printer (out @ lead sp st @ ''{'') (inner line sp) (object_begin line # ?stack))
        = (Inr (), printer ?out (inner line sp) (object_value line # ?stack))"
      unfolding kv by (subst put_member(1)) (use members exact Cons kv in auto)
    moreover have "put_tokens d (concat (map member_tokens ws)) (printer ?out (inner line sp) (object_value line # ?stack)) =
        (Inr (), printer (?out @ concat (map (\<lambda>m. CHR '','' # gap line (inner line sp) @ member_text d (inner line sp) line m) ws))
          (inner line sp) (object_value line # ?stack))"
      by (rule put_tokens_members) (use members exact Cons in auto)
    ultimately show ?thesis unfolding opened rendered
      by (simp add: Cons put_tokens_append put_End_object enclosed_def separated_Cons comp_def flip: line_def)
  qed
qed

lemma prints_value: "prints_value d v"
proof (induction v)
  case (Lit l)
  show ?case by (auto simp: prints_value_def is_container_def put_Literal_value)
next
  case (Arr multi vs)
  then show ?case by (intro prints_array)
next
  case (Obj multi kvs)
  then show ?case by (intro prints_object) (auto intro: Obj)
qed

end
