(* ===== verification/Json_States.thy ===== *)
theory Json_States
  imports Json_Rendering
begin

text \<open>
  The JSON printer as a state machine: what its stack stands for, which tokens it refuses, and that the tokens it accepts
  are those of values.
\<close>

section \<open>Open containers\<close>

text \<open>An open container, with its items so far. \<open>line\<close> is how it is printed, \<open>multi\<close> the token that opened it;
  an object with a key that waits for its value is an \<open>OpenKey\<close>.\<close>

datatype 'f frame =
    OpenArr bool bool "'f json list"
  | OpenObj bool bool "(string \<times> 'f json) list"
  | OpenKey bool bool "(string \<times> 'f json) list" string

fun frame_tokens :: "'f frame \<Rightarrow> 'f token list" where
  "frame_tokens (OpenArr line multi vs) = open_array multi # concat (map tokens vs)"
| "frame_tokens (OpenObj line multi kvs) = open_object multi # concat (map member_tokens kvs)"
| "frame_tokens (OpenKey line multi kvs k) =
     open_object multi # concat (map member_tokens kvs) @ [Value (ConstCharPtrLiteral k)]"

fun frame_state :: "'f frame \<Rightarrow> StackItemType" where
  "frame_state (OpenArr line multi vs) = (if vs = [] then array_begin line else array_item line)"
| "frame_state (OpenObj line multi kvs) = (if kvs = [] then object_begin line else object_value line)"
| "frame_state (OpenKey line multi kvs k) = object_key line"

text \<open>The state of a container whose last item is open itself.\<close>

fun pending_state :: "'f frame \<Rightarrow> StackItemType" where
  "pending_state (OpenArr line multi vs) = array_item line"
| "pending_state (OpenObj line multi kvs) = object_value line"
| "pending_state (OpenKey line multi kvs k) = object_value line"

fun waits_for_value :: "'f frame \<Rightarrow> bool" where
  "waits_for_value (OpenObj line multi kvs) = False"
| "waits_for_value _ = True"

fun stack_of :: "'f frame list \<Rightarrow> StackItemType list" where
  "stack_of [] = [JSON_ROOT]"
| "stack_of (f # fs) = frame_state f # map pending_state fs @ [JSON_ROOT]"

fun nested :: "'f frame list \<Rightarrow> bool" where
  "nested [] = True"
| "nested (f # fs) = list_all waits_for_value fs"

definition consumed :: "'f json list \<Rightarrow> 'f frame list \<Rightarrow> 'f token list" where
  "consumed roots fs = concat (map tokens roots) @ concat (map frame_tokens (rev fs))"

lemma consumed_simps [simp]:
  "consumed roots [] = concat (map tokens roots)"
  "consumed roots (f # fs) = consumed roots fs @ frame_tokens f"
  by (simp_all add: consumed_def)

lemma tokens_object: "tokens (Obj multi kvs) = open_object multi # concat (map member_tokens kvs) @ [CloseContainer]"
  by (simp add: member_tokens_def)

text \<open>A value put into the innermost open container.\<close>

definition placed :: "'f json \<Rightarrow> 'f json list \<Rightarrow> 'f frame list \<Rightarrow> 'f json list \<times> 'f frame list" where
  "placed v roots fs = (case fs of [] \<Rightarrow> (roots @ [v], [])
     | OpenArr line multi vs # fs \<Rightarrow> (roots, OpenArr line multi (vs @ [v]) # fs)
     | OpenKey line multi kvs k # fs \<Rightarrow> (roots, OpenObj line multi (kvs @ [(k, v)]) # fs)
     | fs \<Rightarrow> (roots, fs))"

text \<open>The frames stand for the stack \<open>st\<close> after the tokens \<open>ts\<close>.\<close>

definition stands_for :: "'f json list \<Rightarrow> 'f frame list \<Rightarrow> 'f token list \<Rightarrow> StackItemType list \<Rightarrow> bool" where
  "stands_for roots fs ts st = (list_all is_container roots \<and> nested fs \<and> ts = consumed roots fs \<and> st = stack_of fs)"

definition accepts_value :: "'f frame list \<Rightarrow> bool" where
  "accepts_value fs = (case fs of OpenObj line multi kvs # fs \<Rightarrow> False | _ \<Rightarrow> True)"

lemma placed_stands:
  assumes "stands_for roots fs ts st" and "accepts_value fs" and "is_container v \<or> fs \<noteq> []" and "placed v roots fs = (roots', fs')"
  shows "stands_for roots' fs' (ts @ tokens v) (state_after (hd st) # tl st)"
  using assms
  by (cases fs; cases "hd fs")
    (auto simp: stands_for_def placed_def accepts_value_def member_tokens_def)

lemma opened_stands:
  assumes "stands_for roots fs ts st" and "accepts_value fs"
  shows "stands_for roots (OpenArr line multi [] # fs) (ts @ [open_array multi]) (array_begin line # state_after (hd st) # tl st)"
    and "stands_for roots (OpenObj line multi [] # fs) (ts @ [open_object multi]) (object_begin line # state_after (hd st) # tl st)"
  using assms by (cases fs; cases "hd fs"; auto simp: stands_for_def accepts_value_def)+

lemma takes_value_frames:
  "stands_for roots fs ts st \<Longrightarrow> takes_value (hd st) = accepts_value fs"
  by (cases fs; cases "hd fs") (auto simp: stands_for_def accepts_value_def state_defs)

section \<open>Which tokens are refused\<close>

fun refused :: "'f token \<Rightarrow> StackItemType \<Rightarrow> bool" where
  "refused (Value l) st = (st = JSON_ROOT \<or>
     \<not> CanBeObjectKey l \<and> st \<in> {LINEAR_OBJECT_BEGIN, LINEAR_OBJECT_VALUE, MULTILINE_OBJECT_BEGIN, MULTILINE_OBJECT_VALUE})"
| "refused CloseContainer st = (st \<in> {JSON_ROOT, LINEAR_OBJECT_KEY, MULTILINE_OBJECT_KEY})"
| "refused t st = (\<not> takes_value st)"

lemma put_token_ok:
  "put_token d t (printer out sp (st # rest)) = (Inr (), j) \<Longrightarrow> \<not> refused t st"
  by (cases t; cases st) (auto simp: put_defs split: if_splits)

lemma put_token_refused:
  "refused t st \<Longrightarrow> \<exists>what. put_token d t (printer out sp (st # rest)) = (Inl (RuntimeError what), printer out sp (st # rest))"
  by (cases t; cases st) (auto simp: put_defs)

text \<open>The stack after a token that is accepted.\<close>

definition opens :: "'f token \<Rightarrow> StackItemType \<Rightarrow> StackItemType option" where
  "opens t st = (case t of
     OpenArray \<Rightarrow> Some (array_begin (one_line (linear_state st) True))
   | OpenLinearArray \<Rightarrow> Some (array_begin True)
   | OpenObject \<Rightarrow> Some (object_begin (one_line (linear_state st) True))
   | OpenLinearObject \<Rightarrow> Some (object_begin True)
   | _ \<Rightarrow> None)"

fun key_state :: "StackItemType \<Rightarrow> StackItemType" where
  "key_state LINEAR_OBJECT_BEGIN = LINEAR_OBJECT_KEY"
| "key_state LINEAR_OBJECT_VALUE = LINEAR_OBJECT_KEY"
| "key_state MULTILINE_OBJECT_BEGIN = MULTILINE_OBJECT_KEY"
| "key_state MULTILINE_OBJECT_VALUE = MULTILINE_OBJECT_KEY"
| "key_state st = st"

definition next_stack :: "'f token \<Rightarrow> StackItemType list \<Rightarrow> StackItemType list" where
  "next_stack t st = (case t of
     CloseContainer \<Rightarrow> tl st
   | Value l \<Rightarrow> (if takes_value (hd st) then state_after (hd st) else key_state (hd st)) # tl st
   | _ \<Rightarrow> the (opens t (hd st)) # state_after (hd st) # tl st)"

lemma put_token_accepted:
  "\<not> refused t st \<Longrightarrow> \<exists>out' sp'. put_token d t (printer out sp (st # rest)) = (Inr (), printer out' sp' (next_stack t (st # rest)))"
  by (cases t; cases st)
    (auto simp: put_defs print_eqs next_stack_def opens_def one_line_def linear_state_def state_defs DecIndent_def printer_def
      Print_chars_def Pop_def SetTop_def Push_def IncIndent_def)

section \<open>Accepted tokens are the tokens of values\<close>

lemma stands_for_nonempty: "stands_for roots fs ts st \<Longrightarrow> \<exists>x rest. st = x # rest"
  by (cases fs) (auto simp: stands_for_def)

lemma value_stands:
  assumes fs: "stands_for roots fs ts st" and ok: "\<not> refused (Value l) (hd st)"
  shows "\<exists>roots' fs'. stands_for roots' fs' (ts @ [Value l]) (next_stack (Value l) st)"
proof (cases "accepts_value fs")
  case True
  with ok takes_value_frames [OF fs] have "fs \<noteq> []" using fs by (auto simp: stands_for_def)
  with placed_stands [OF fs True, of "Lit l"] takes_value_frames [OF fs] True show ?thesis
    by (cases "placed (Lit l) roots fs") (auto simp: next_stack_def)
next
  case False
  then obtain line multi kvs gs where gs: "fs = OpenObj line multi kvs # gs"
    by (auto simp: accepts_value_def split: list.splits frame.splits)
  with ok fs obtain k where "l = ConstCharPtrLiteral k"
    by (cases l; cases line; cases "kvs = []") (auto simp: stands_for_def CanBeObjectKey_def state_defs)
  with gs fs have "stands_for roots (OpenKey line multi kvs k # gs) (ts @ [Value l]) (next_stack (Value l) st)"
    by (cases line; cases "kvs = []") (auto simp: stands_for_def next_stack_def state_defs)
  then show ?thesis by blast
qed

lemma next_stack_open:
  "next_stack (open_array multi) st = array_begin (one_line (linear_state (hd st)) multi) # state_after (hd st) # tl st"
  "next_stack (open_object multi) st = object_begin (one_line (linear_state (hd st)) multi) # state_after (hd st) # tl st"
  by (simp_all add: next_stack_def opens_def open_array_def open_object_def one_line_def)

lemma open_stands:
  assumes fs: "stands_for roots fs ts st" and t: "t \<in> {OpenArray, OpenLinearArray, OpenObject, OpenLinearObject}"
    and ok: "\<not> refused t (hd st)"
  shows "\<exists>roots' fs'. stands_for roots' fs' (ts @ [t]) (next_stack t st)"
proof -
  have acc: "accepts_value fs" using takes_value_frames [OF fs] ok t by auto
  define multi where "multi = (t \<in> {OpenArray, OpenObject})"
  from t have "t = open_array multi \<or> t = open_object multi"
    by (auto simp: open_array_def open_object_def multi_def)
  with opened_stands [OF fs acc] show ?thesis by (metis next_stack_open)
qed

lemma closed_tokens:
  "frame_tokens (OpenArr line multi vs) @ [CloseContainer] = tokens (Arr multi vs)"
  "frame_tokens (OpenObj line multi kvs) @ [CloseContainer] = tokens (Obj multi kvs)"
  by (simp_all add: member_tokens_def)

text \<open>A container that ends is placed in the container around it.\<close>

lemma close_placed:
  assumes "list_all is_container roots" and "list_all waits_for_value gs" and "is_container v" and "placed v roots gs = (roots', gs')"
  shows "stands_for roots' gs' (consumed roots gs @ tokens v) (map pending_state gs @ [JSON_ROOT])"
  using assms by (cases gs; cases "hd gs") (auto simp: stands_for_def placed_def member_tokens_def list_all_iff)

lemma close_stands:
  assumes fs: "stands_for roots fs ts st" and ok: "\<not> refused CloseContainer (hd st)"
  shows "\<exists>roots' fs'. stands_for roots' fs' (ts @ [CloseContainer]) (next_stack CloseContainer st)"
proof -
  obtain f gs where f: "fs = f # gs" using fs ok by (cases fs) (auto simp: stands_for_def)
  have "\<exists>v. is_container v \<and> frame_tokens f @ [CloseContainer] = tokens v"
  proof (cases f)
    case (OpenArr line multi vs)
    then show ?thesis using closed_tokens(1) [of line multi vs] by (metis is_container_def json.simps(11))
  next
    case (OpenObj line multi kvs)
    then show ?thesis using closed_tokens(2) [of line multi kvs] by (metis is_container_def json.simps(12))
  next
    case (OpenKey line multi kvs k)
    with fs f ok show ?thesis by (cases line) (auto simp: stands_for_def state_defs)
  qed
  then obtain v where v: "is_container v" "frame_tokens f @ [CloseContainer] = tokens v" by blast
  have "list_all is_container roots" "list_all waits_for_value gs" "st = frame_state f # map pending_state gs @ [JSON_ROOT]"
    "ts = consumed roots gs @ frame_tokens f"
    using fs f by (auto simp: stands_for_def)
  with close_placed [of roots gs v "fst (placed v roots gs)" "snd (placed v roots gs)"] v
  have "stands_for (fst (placed v roots gs)) (snd (placed v roots gs)) (ts @ [CloseContainer]) (next_stack CloseContainer st)"
    by (simp add: next_stack_def)
  then show ?thesis by blast
qed

lemma token_stands:
  assumes "stands_for roots fs ts st" and "\<not> refused t (hd st)"
  shows "\<exists>roots' fs'. stands_for roots' fs' (ts @ [t]) (next_stack t st)"
  using value_stands [OF assms(1)] open_stands [OF assms(1)] close_stands [OF assms(1)] assms(2) by (cases t) auto

text \<open>One step of a printer, and the printers that can be reached.\<close>

inductive printer_step :: "'f double_ops \<Rightarrow> 'f token \<Rightarrow> JsonPrinter \<Rightarrow> JsonPrinter \<Rightarrow> bool" for d where
  "put_token d t j = (Inr (), j') \<Longrightarrow> printer_step d t j j'"

inductive reached :: "'f double_ops \<Rightarrow> JsonPrinter \<Rightarrow> 'f token list \<Rightarrow> JsonPrinter \<Rightarrow> bool" for d j where
  start: "reached d j [] j"
| step: "reached d j ts j' \<Longrightarrow> printer_step d t j' j'' \<Longrightarrow> reached d j (ts @ [t]) j''"

inductive_simps printer_step_iff: "printer_step d t j j'"

lemma put_tokens_reached: "put_tokens d ts j = (Inr (), j') \<Longrightarrow> reached d j ts j'"
proof (induction ts arbitrary: j' rule: rev_induct)
  case Nil
  then show ?case by (auto intro: reached.start)
next
  case (snoc t ts)
  then obtain j1 where "put_tokens d ts j = (Inr (), j1)" "put_token d t j1 = (Inr (), j')"
    by (auto simp: put_tokens_append split: prod.splits sum.splits)
  with snoc.IH show ?case by (auto intro: reached.step printer_step.intros)
qed

lemma reached_stands:
  assumes "reached d (JsonPrinter_new out sp) ts j"
  shows "\<exists>roots fs. stands_for roots fs ts (stack j)"
  using assms
proof (induction rule: reached.induct)
  case start
  have "stands_for [] [] [] (stack (JsonPrinter_new out sp))" by (simp add: stands_for_def JsonPrinter_new_def)
  then show ?case by blast
next
  case (step ts j t j')
  then obtain roots fs where fs: "stands_for roots fs ts (stack j)" by blast
  obtain out sp st where j: "j = printer out sp st" by (rule printer_cases)
  from stands_for_nonempty [OF fs] j obtain x rest where st: "st = x # rest" by auto
  from step.hyps have put: "put_token d t (printer out sp (x # rest)) = (Inr (), j')" by (simp add: printer_step_iff j st)
  then have ok: "\<not> refused t x" by (rule put_token_ok)
  from put_token_accepted [OF this, of d out sp rest] put have "stack j' = next_stack t (x # rest)" by auto
  with token_stands [OF fs] ok j st show ?case by auto
qed

lemma stands_for_root: "stands_for roots fs ts [JSON_ROOT] \<Longrightarrow> list_all is_container roots \<and> ts = concat (map tokens roots)"
  by (cases fs) (auto simp: stands_for_def)

section \<open>Ends and finishes\<close>

lemma frame_state_cases: "frame_state g \<noteq> JSON_ROOT" "pending_state g \<noteq> JSON_ROOT"
  "pending_state g \<noteq> LINEAR_OBJECT_KEY" "pending_state g \<noteq> MULTILINE_OBJECT_KEY"
  by (cases g; simp add: state_defs)+

lemma stack_of_key:
  "nested fs \<Longrightarrow> x \<in> set (tl (stack_of fs)) \<Longrightarrow> x \<noteq> LINEAR_OBJECT_KEY \<and> x \<noteq> MULTILINE_OBJECT_KEY"
proof (cases fs)
  case (Cons f gs)
  assume "x \<in> set (tl (stack_of fs))"
  with Cons show ?thesis using frame_state_cases(3,4) by auto
qed simp

text \<open>The stacks of \<open>stack_of\<close>, without the frames: the root at the bottom and only there.\<close>

definition rooted :: "StackItemType list \<Rightarrow> bool" where
  "rooted st = (st \<noteq> [] \<and> last st = JSON_ROOT \<and> JSON_ROOT \<notin> set (butlast st))"

lemma stack_of_rooted: "rooted (stack_of fs)"
proof (cases fs)
  case (Cons f gs)
  then show ?thesis using frame_state_cases(1,2) [symmetric] by (auto simp: rooted_def butlast_append)
qed (simp add: rooted_def)

lemma rooted_Cons: "rooted (x # st) \<longleftrightarrow> (if st = [] then x = JSON_ROOT else x \<noteq> JSON_ROOT \<and> rooted st)"
  by (auto simp: rooted_def)

definition key_free :: "StackItemType list \<Rightarrow> bool" where
  "key_free st = (LINEAR_OBJECT_KEY \<notin> set st \<and> MULTILINE_OBJECT_KEY \<notin> set st)"

text \<open>The loop ends everything that is open.\<close>

lemma finish_loop_ends:
  assumes "rooted st" and "key_free st"
  shows "\<exists>out' sp'. finish_loop (printer out sp st) = (Inr (), printer out' sp' [JSON_ROOT])
    \<and> put_tokens d (replicate (length st - 1) CloseContainer) (printer out sp st) = (Inr (), printer out' sp' [JSON_ROOT])"
  using assms
proof (induction st arbitrary: out sp)
  case (Cons x st)
  show ?case
  proof (cases st)
    case Nil
    with Cons.prems(1) show ?thesis
      by (subst finish_loop.simps) (auto simp: rooted_Cons done_json_def returnM_def)
  next
    case st: (Cons y ys)
    with Cons.prems have x: "x \<noteq> JSON_ROOT" "rooted st" "\<not> refused CloseContainer x" "key_free st"
      by (auto simp: rooted_Cons key_free_def)
    obtain out1 sp1 where "put_End (printer out sp (x # st)) = (Inr (), printer out1 sp1 st)"
      using put_token_accepted [OF x(3), of _ out sp st] by (auto simp: next_stack_def)
    with Cons.IH [OF x(2,4), of out1 sp1] x(1) show ?thesis
      by (subst finish_loop.simps) (auto simp: st)
  qed
qed (simp add: rooted_def)

lemma finish_loop_key:
  assumes "x = LINEAR_OBJECT_KEY \<or> x = MULTILINE_OBJECT_KEY"
  shows "finish_loop (printer out sp (x # st))
    = (Inl (RuntimeError ''End of object received, while string key expected.''), printer out sp (x # st))"
  using assms by (subst finish_loop.simps) (auto simp: put_defs)

lemma reached_printer:
  assumes "reached d (JsonPrinter_new out sp) ts j"
  obtains out' sp' x rest roots fs where "j = printer out' sp' (x # rest)" and "stands_for roots fs ts (x # rest)"
    and "rooted (x # rest)" and "key_free rest"
proof -
  obtain roots fs where fs: "stands_for roots fs ts (stack j)" using reached_stands [OF assms] by blast
  obtain out' sp' st where j: "j = printer out' sp' st" by (rule printer_cases)
  obtain x rest where st: "st = x # rest" using stands_for_nonempty [OF fs] j by auto
  from fs j st have "stack_of fs = x # rest" "nested fs" by (auto simp: stands_for_def)
  with stack_of_rooted [of fs] stack_of_key [of fs] have "rooted (x # rest)" "key_free rest"
    by (auto simp: key_free_def)
  with that fs j st show ?thesis by simp
qed

lemma put_tokens_step_rev:
  "reached d j ts j' \<Longrightarrow> put_tokens d ts j = (Inr (), j')"
  by (induction rule: reached.induct) (auto simp: put_tokens_append printer_step_iff)

lemma reached_append:
  "reached d j ts j' \<Longrightarrow> put_tokens d us j' = (Inr (), j'') \<Longrightarrow> reached d j (ts @ us) j''"
  by (rule put_tokens_reached) (simp add: put_tokens_append put_tokens_step_rev)

lemma put_tokens_containers:
  assumes "list_all is_container vs" and "list_all (printed_exactly sp False) vs"
  shows "put_tokens d (concat (map tokens vs)) (printer out sp [JSON_ROOT])
     = (Inr (), printer (out @ concat (map (render d sp False) vs)) sp [JSON_ROOT])"
  using assms
proof (induction vs arbitrary: out)
  case (Cons v vs)
  with prints_valueD [OF prints_value, of JSON_ROOT v sp d out "[]"]
  have "put_tokens d (tokens v) (printer out sp [JSON_ROOT]) = (Inr (), printer (out @ render d sp False v) sp [JSON_ROOT])"
    by (simp add: linear_state_def)
  with Cons show ?case by (simp add: put_tokens_append)
qed simp

lemma JsonPrinter_new_printer: "JsonPrinter_new out sp = printer out sp [JSON_ROOT]"
  by (simp add: JsonPrinter_new_def printer_def)

section \<open>Properties\<close>

text \<open>C24. Printing values when the printer is compact, or when no container printed over several lines is empty
  (\<open>printed_exactly\<close>): the tokens of arrays and objects, nested to any depth, are all accepted by a new printer and append exactly
  the reference renderings of the values, leaving the printer as it was. For an empty container over several lines the code prints
  another text (\<open>empty_container_keeps_indent\<close>).\<close>

theorem json_values_are_rendered:
  assumes "list_all is_container vs" and "list_all (printed_exactly sp False) vs"
  shows "put_tokens d (concat (map tokens vs)) (JsonPrinter_new out sp)
    = (Inr (), JsonPrinter_new (out @ concat (map (render d sp False) vs)) sp)"
  using put_tokens_containers [OF assms] by (simp add: JsonPrinter_new_printer)

theorem json_values_are_rendered_witness:
  "\<forall>d :: int double_ops. put_tokens d
      [OpenObject, Value (ConstCharPtrLiteral ''a''), OpenLinearArray, Value NullLiteral, Value (BooleanLiteral True), CloseContainer,
       CloseContainer] (JsonPrinter_new [] (FormattingSpacer 0))
    = (Inr (), JsonPrinter_new (''{'' @ [CHR 0x0A] @ ''    '' @ [CHR 0x22] @ ''a'' @ [CHR 0x22] @ '' : [ null, true ]'' @ [CHR 0x0A] @ ''}'')
        (FormattingSpacer 0))"
proof
  fix d :: "int double_ops"
  let ?v = "Obj True [(''a'', Arr False [Lit NullLiteral, Lit (BooleanLiteral True)])] :: int json"
  have escape: "EscapeChar CHR ''a'' = CHR 0x00"
    and lines: "new_line (FormattingSpacer 1) = CHR 0x0A # ''    ''" "new_line (FormattingSpacer 0) = [CHR 0x0A]"
    by code_simp+
  have "put_tokens d (concat (map tokens [?v])) (JsonPrinter_new [] (FormattingSpacer 0))
      = (Inr (), JsonPrinter_new ([] @ concat (map (render d (FormattingSpacer 0) False) [?v])) (FormattingSpacer 0))"
    by (rule json_values_are_rendered) (simp_all add: is_container_def printed_exactly_def)
  then show "put_tokens d
      [OpenObject, Value (ConstCharPtrLiteral ''a''), OpenLinearArray, Value NullLiteral, Value (BooleanLiteral True), CloseContainer,
       CloseContainer] (JsonPrinter_new [] (FormattingSpacer 0))
    = (Inr (), JsonPrinter_new (''{'' @ [CHR 0x0A] @ ''    '' @ [CHR 0x22] @ ''a'' @ [CHR 0x22] @ '' : [ null, true ]'' @ [CHR 0x0A] @ ''}'')
        (FormattingSpacer 0))"
    by (simp add: open_object_def open_array_def enclosed_def gap_def inner_def one_line_def blank_def lines deeper_def
        print_ConstCharPtr_eq escaped_def escape_one_def escape c_str_def print_Literal_def
      del: put_token.simps put_tokens.simps)
qed

text \<open>C23. Nothing but values can be printed: if a printer accepts a sequence of tokens and nothing is left open, the tokens are
  those of a sequence of arrays and objects. When the printer is compact, or no container printed over several lines is empty
  (\<open>printed_exactly\<close>), its text is also their reference rendering.\<close>

theorem json_accepts_only_values:
  assumes "reached d (JsonPrinter_new out sp) ts j" and "stack j = [JSON_ROOT]"
  shows "\<exists>vs. list_all is_container vs \<and> ts = concat (map tokens vs) \<and>
    (list_all (printed_exactly sp False) vs \<longrightarrow> j = JsonPrinter_new (out @ concat (map (render d sp False) vs)) sp)"
proof -
  obtain vs fs where "stands_for vs fs ts [JSON_ROOT]" using reached_stands [OF assms(1)] assms(2) by auto
  then have vs: "list_all is_container vs" "ts = concat (map tokens vs)" using stands_for_root by blast+
  have "j = JsonPrinter_new (out @ concat (map (render d sp False) vs)) sp" if "list_all (printed_exactly sp False) vs"
    using put_tokens_containers [OF vs(1) that, of d out] put_tokens_step_rev [OF assms(1)] vs(2)
    by (simp add: JsonPrinter_new_printer)
  with vs show ?thesis by blast
qed

lemma reached_pair:
  "reached d (JsonPrinter_new out sp) [OpenLinearArray, CloseContainer] (JsonPrinter_new (out @ ''[]'') sp)"
  by (rule put_tokens_reached) (simp add: JsonPrinter_new_printer put_defs)

theorem json_accepts_only_values_witness:
  "\<exists>vs :: int json list. list_all is_container vs \<and> [OpenLinearArray, CloseContainer] = concat (map tokens vs)"
proof -
  have "stack (JsonPrinter_new ''[]'' CompactSpacer) = [JSON_ROOT]" by (simp add: JsonPrinter_new_def)
  from json_accepts_only_values [OF reached_pair [of "undefined :: int double_ops" "[]" CompactSpacer, simplified] this]
  show ?thesis by blast
qed

text \<open>A reachable printer refuses a token exactly in the states of the table \<open>refused\<close>, throws then and is left as it was;
  otherwise the stack moves as \<open>next_stack\<close> says. The stack is never empty when its top is read.\<close>

theorem json_token_refused:
  assumes "reached d (JsonPrinter_new out sp) ts j"
  shows "rooted (stack j) \<and>
    (if refused t (hd (stack j)) then \<exists>what. put_token d t j = (Inl (RuntimeError what), j)
     else \<exists>j'. put_token d t j = (Inr (), j') \<and> stack j' = next_stack t (stack j))"
proof -
  obtain out' sp' x rest where j: "j = printer out' sp' (x # rest)" "rooted (x # rest)"
    using assms by (rule reached_printer)
  show ?thesis
    using j put_token_refused [of t x d out' sp' rest] put_token_accepted [of t x d out' sp' rest] by auto
qed

theorem json_token_refused_witness:
  "\<forall>d :: int double_ops. \<exists>what. put_token d CloseContainer (JsonPrinter_new [] CompactSpacer)
    = (Inl (RuntimeError what), JsonPrinter_new [] CompactSpacer)"
proof
  fix d :: "int double_ops"
  have "hd (stack (JsonPrinter_new [] CompactSpacer)) = JSON_ROOT" by (simp add: JsonPrinter_new_def)
  with json_token_refused [OF reached.start [of d "JsonPrinter_new [] CompactSpacer"], of CloseContainer]
  show "\<exists>what. put_token d CloseContainer (JsonPrinter_new [] CompactSpacer)
    = (Inl (RuntimeError what), JsonPrinter_new [] CompactSpacer)" by simp
qed

text \<open>C25. Finishing: from every reachable printer the loop of \<^verbatim>\<open>Finish\<close> returns. If a key waits for its value, it throws and changes
  nothing; otherwise it ends every open container and leaves the printer at the root, as that many \<^verbatim>\<open>End\<close> tokens do.\<close>

theorem json_finish_closes:
  assumes "reached d (JsonPrinter_new out sp) ts j"
  shows "if hd (stack j) \<in> {LINEAR_OBJECT_KEY, MULTILINE_OBJECT_KEY}
    then put_LinearFinish j = (Inl (RuntimeError ''End of object received, while string key expected.''), j)
    else \<exists>j'. put_LinearFinish j = (Inr (), j') \<and> stack j' = [JSON_ROOT] \<and>
      reached d (JsonPrinter_new out sp) (ts @ replicate (length (stack j) - 1) CloseContainer) j'"
proof -
  obtain out' sp' x rest where j: "j = printer out' sp' (x # rest)" "rooted (x # rest)" "key_free rest"
    using assms by (rule reached_printer)
  show ?thesis
  proof (cases "x \<in> {LINEAR_OBJECT_KEY, MULTILINE_OBJECT_KEY}")
    case True
    then show ?thesis using finish_loop_key by (simp add: j(1) put_LinearFinish_def)
  next
    case False
    with j(3) have "key_free (x # rest)" by (auto simp: key_free_def)
    from finish_loop_ends [OF j(2) this, of out' sp' d] obtain out2 sp2
      where finish: "finish_loop j = (Inr (), printer out2 sp2 [JSON_ROOT])"
        and ends: "put_tokens d (replicate (length (stack j) - 1) CloseContainer) j = (Inr (), printer out2 sp2 [JSON_ROOT])"
      by (auto simp: j(1))
    from reached_append [OF assms ends] finish False show ?thesis by (auto simp: j(1) put_LinearFinish_def)
  qed
qed

theorem json_finish_closes_witness:
  "\<exists>j'. put_LinearFinish (printer ''[[null'' CompactSpacer [LINEAR_ARRAY_ITEM, LINEAR_ARRAY_ITEM, JSON_ROOT]) = (Inr (), j') \<and>
    stack j' = [JSON_ROOT]"
proof -
  fix d :: "int double_ops"
  have "reached d (JsonPrinter_new [] CompactSpacer) [OpenLinearArray, OpenLinearArray, Value NullLiteral]
      (printer ''[[null'' CompactSpacer [LINEAR_ARRAY_ITEM, LINEAR_ARRAY_ITEM, JSON_ROOT])"
    by (rule put_tokens_reached) (simp add: JsonPrinter_new_printer put_defs print_eqs blank_def print_Literal_def)
  from json_finish_closes [OF this] show ?thesis by auto
qed

text \<open>An empty container printed over several lines leaves the indent one step too deep.\<close>

lemma empty_container_keeps_indent:
  "put_tokens d [OpenArray, CloseContainer] (JsonPrinter_new out (FormattingSpacer n))
     = (Inr (), JsonPrinter_new (out @ ''[]'') (FormattingSpacer (n + 1)))"
  "put_tokens d [OpenObject, CloseContainer] (JsonPrinter_new out (FormattingSpacer n))
     = (Inr (), JsonPrinter_new (out @ ''{}'') (FormattingSpacer (n + 1)))"
  by (simp_all add: JsonPrinter_new_printer put_defs print_eqs deeper_def)

end
