(* ===== verification/Json_Escape.thy ===== *)
theory Json_Escape
  imports Json_Rendering
begin

text \<open>
  The escaping of JSON strings: the table of the code, and a reader that gives the string back.
\<close>

definition escape_index :: "nat \<Rightarrow> char" where
  "escape_index n = (if n = 8 then CHR ''b'' else if n = 9 then CHR ''t'' else if n = 10 then CHR ''n'' else if n = 12 then CHR ''f''
     else if n = 13 then CHR ''r'' else if n = 34 then CHR 0x22 else if n = 47 then CHR ''/'' else if n = 92 then CHR 0x5C
     else CHR 0x00)"

lemma escape_table: "list_all (\<lambda>n. escape_chars ! n = escape_index n) [0..<256]"
  by code_simp

lemma EscapeChar_eq: "EscapeChar c = escape_index (char_index c)"
  using escape_table char_index_less [of c] by (simp add: EscapeChar_def list_all_iff)

lemma char_index_consts:
  "char_index CHR 0x08 = 8" "char_index CHR 0x09 = 9" "char_index CHR 0x0A = 10" "char_index CHR 0x0C = 12" "char_index CHR 0x0D = 13"
  "char_index CHR 0x22 = 34" "char_index CHR ''/'' = 47" "char_index CHR 0x5C = 92"
  by (simp_all add: char_index_def)

lemma char_index_iff:
  "char_index c = 8 \<longleftrightarrow> c = CHR 0x08" "char_index c = 9 \<longleftrightarrow> c = CHR 0x09" "char_index c = 10 \<longleftrightarrow> c = CHR 0x0A"
  "char_index c = 12 \<longleftrightarrow> c = CHR 0x0C" "char_index c = 13 \<longleftrightarrow> c = CHR 0x0D" "char_index c = 34 \<longleftrightarrow> c = CHR 0x22"
  "char_index c = 47 \<longleftrightarrow> c = CHR ''/''" "char_index c = 92 \<longleftrightarrow> c = CHR 0x5C"
  using char_index_eq_iff char_index_consts by metis+

text \<open>A reader of JSON strings for the escapes the printer uses.\<close>

definition unescape_char :: "char \<Rightarrow> char" where
  "unescape_char c = (if c = CHR ''b'' then CHR 0x08 else if c = CHR ''t'' then CHR 0x09 else if c = CHR ''n'' then CHR 0x0A
     else if c = CHR ''f'' then CHR 0x0C else if c = CHR ''r'' then CHR 0x0D else c)"

fun read_body :: "string \<Rightarrow> (string \<times> string) option" where
  "read_body [] = None"
| "read_body (c # cs) =
     (if c = CHR 0x22 then Some ([], cs)
      else if c = CHR 0x5C then (case cs of [] \<Rightarrow> None
        | e # cs \<Rightarrow> (case read_body cs of None \<Rightarrow> None | Some (s, rest) \<Rightarrow> Some (unescape_char e # s, rest)))
      else (case read_body cs of None \<Rightarrow> None | Some (s, rest) \<Rightarrow> Some (c # s, rest)))"

definition read_string :: "string \<Rightarrow> (string \<times> string) option" where
  "read_string cs = (case cs of c # cs \<Rightarrow> if c = CHR 0x22 then read_body cs else None | _ \<Rightarrow> None)"

lemma read_body_escape_one:
  "read_body (escape_one c @ cs) = (case read_body cs of None \<Rightarrow> None | Some (s, rest) \<Rightarrow> Some (c # s, rest))"
proof (cases "EscapeChar c = CHR 0x00")
  case True
  then have "c \<noteq> CHR 0x22" "c \<noteq> CHR 0x5C" by (auto simp: EscapeChar_eq escape_index_def char_index_iff split: if_splits)
  with True show ?thesis by (simp add: escape_one_def)
next
  case False
  then have "unescape_char (EscapeChar c) = c"
    by (auto simp: EscapeChar_eq escape_index_def char_index_iff unescape_char_def split: if_splits)
  with False show ?thesis by (simp add: escape_one_def split: option.splits)
qed

lemma read_body_escaped: "read_body (escaped s @ CHR 0x22 # rest) = Some (s, rest)"
  by (induction s) (simp_all add: escaped_def read_body_escape_one)

text \<open>C26. String literals: what is printed for a C string, whatever characters it has, reads back as that string, and the
  closing quotation mark is where the reader stops.\<close>

theorem json_string_roundtrip:
  "read_string (print_ConstCharPtr v [] @ rest) = Some (c_str v, rest)"
  by (simp add: print_ConstCharPtr_eq read_string_def read_body_escaped)

end
