(* ===== verification/File_Path.thy ===== *)
theory File_Path
  imports String_Utils
begin

text \<open>
  File paths, \<^verbatim>\<open>linux/fs/FilePathTokenizer\<close> and \<^verbatim>\<open>linux/fs/FilePath\<close>: the tokenizer reports the parts of a text to a
  listener, and a path is the list of its parts with the parent directories resolved as far as they can be.
\<close>

section \<open>Tokenizer\<close>

text \<open>The interface \<^verbatim>\<open>FilePathTokenListener\<close>; \<open>'l\<close> is the object that implements it.\<close>

record 'l FilePathTokenListener =
  OnRootDir :: "'l \<Rightarrow> 'l"
  OnCurrentDir :: "'l \<Rightarrow> 'l"
  OnParentDir :: "'l \<Rightarrow> 'l"
  OnPathPart :: "string \<Rightarrow> 'l \<Rightarrow> 'l"

definition DEFAULT_DELIMITER :: char where "DEFAULT_DELIMITER = CHR ''/''"

text \<open>A pointer into the text is the rest of the text in front of its NUL. With NUL as the delimiter the code would run past the
  end of the text; here the pointer stays at the end.\<close>

definition IsDelimiter :: "char \<Rightarrow> string \<Rightarrow> bool" where
  "IsDelimiter delim ptr = (ptr \<noteq> [] \<and> deref ptr = delim)"

lemma length_tl_less: "tl p \<noteq> [] \<Longrightarrow> length p - Suc 0 < length p"
  by (cases p) auto

function SkipDelimiters :: "char \<Rightarrow> string \<Rightarrow> string" where
  "SkipDelimiters delim ptr =
     (let ptr = tl ptr in if IsDelimiter delim ptr then SkipDelimiters delim ptr else ptr)"
  by pat_completeness auto
termination by (relation "measure (\<lambda>(d, p). length p)") (auto simp: IsDelimiter_def length_tl_less)

declare SkipDelimiters.simps [simp del]

text \<open>\<open>token\<close> is the text between \<open>begin\<close> and \<open>end\<close>.\<close>

definition ProcessToken :: "'l FilePathTokenListener \<Rightarrow> string \<Rightarrow> 'l \<Rightarrow> 'l" where
  "ProcessToken listener token l =
     (if token = ''.'' then OnCurrentDir listener l
      else if token = ''..'' then OnParentDir listener l
      else OnPathPart listener token l)"

text \<open>The inner loop \<^verbatim>\<open>do ++ptr while not at a delimiter or at the end\<close>.\<close>

function next_end :: "char \<Rightarrow> string \<Rightarrow> string" where
  "next_end delim ptr =
     (let ptr = tl ptr in if \<not> IsDelimiter delim ptr \<and> ptr \<noteq> [] then next_end delim ptr else ptr)"
  by pat_completeness auto
termination by (relation "measure (\<lambda>(d, p). length p)") (auto simp: length_tl_less)

declare next_end.simps [simp del]

lemma length_next_end: "length (next_end d p) \<le> length p - 1"
  by (induction d p rule: next_end.induct) (subst next_end.simps, auto simp: Let_def)

lemma length_SkipDelimiters: "length (SkipDelimiters d p) \<le> length p - 1"
  by (induction d p rule: SkipDelimiters.induct) (subst SkipDelimiters.simps, auto simp: Let_def)

function tokens_loop :: "'l FilePathTokenListener \<Rightarrow> char \<Rightarrow> string \<Rightarrow> 'l \<Rightarrow> 'l" where
  "tokens_loop listener delim ptr l =
     (if ptr = [] then l
      else let start = ptr;
               ptr = next_end delim ptr;
               l = ProcessToken listener (take (length start - length ptr) start) l;
               ptr = (if IsDelimiter delim ptr then SkipDelimiters delim ptr else ptr)
           in tokens_loop listener delim ptr l)"
  by pat_completeness auto
termination
proof (relation "measure (\<lambda>(f, d, p, l). length p)", goal_cases)
  case (2 f d p l start ptr l' ptr')
  moreover have "length ptr \<le> length p - 1" using length_next_end [of d p] 2 by simp
  moreover have "length ptr' \<le> length ptr" using length_SkipDelimiters [of d ptr] 2(5) by (simp split: if_splits)
  ultimately show ?case by (cases p) auto
qed simp

declare tokens_loop.simps [simp del]

text \<open>A null pointer is \<open>None\<close>.\<close>

definition TokenizeFilePath :: "'l FilePathTokenListener \<Rightarrow> string option \<Rightarrow> char \<Rightarrow> 'l \<Rightarrow> 'l" where
  "TokenizeFilePath listener filePath delim l = (case filePath of None \<Rightarrow> l
     | Some s \<Rightarrow>
        (let ptr = c_str s in
         if ptr = [] then l
         else if IsDelimiter delim ptr then
           tokens_loop listener delim (SkipDelimiters delim ptr) (OnRootDir listener l)
         else tokens_loop listener delim ptr l))"

section \<open>Paths\<close>

record FilePath =
  parts :: "string list"
  absolute :: bool

definition SetAbsolute :: "FilePath \<Rightarrow> FilePath" where "SetAbsolute p = p\<lparr>absolute := True\<rparr>"

definition AppendParentDir :: "FilePath \<Rightarrow> FilePath" where
  "AppendParentDir p =
     (if parts p = [] then (if \<not> absolute p then p\<lparr>parts := parts p @ [''..'']\<rparr> else p)
      else if last (parts p) = ''..'' then p\<lparr>parts := parts p @ [''..'']\<rparr>
      else p\<lparr>parts := butlast (parts p)\<rparr>)"

definition AppendPathPart :: "string \<Rightarrow> FilePath \<Rightarrow> FilePath" where
  "AppendPathPart part p = p\<lparr>parts := parts p @ [part]\<rparr>"

definition FilePathCreator :: "FilePath FilePathTokenListener" where
  "FilePathCreator = \<lparr>OnRootDir = SetAbsolute, OnCurrentDir = (\<lambda>p. p), OnParentDir = AppendParentDir, OnPathPart = AppendPathPart\<rparr>"

definition FilePathAppender :: "FilePath FilePathTokenListener" where
  "FilePathAppender = FilePathCreator\<lparr>OnRootDir := (\<lambda>p. p)\<rparr>"

definition FilePath_of_ptr :: "string option \<Rightarrow> FilePath" where
  "FilePath_of_ptr filePath = TokenizeFilePath FilePathCreator filePath DEFAULT_DELIMITER \<lparr>parts = [], absolute = False\<rparr>"

definition FilePath_of :: "string \<Rightarrow> FilePath" where
  "FilePath_of filePath = TokenizeFilePath FilePathCreator (Some (c_str filePath)) DEFAULT_DELIMITER \<lparr>parts = [], absolute = False\<rparr>"

definition IsAbsolute :: "FilePath \<Rightarrow> bool" where "IsAbsolute p = absolute p"

fun append_rest :: "string list \<Rightarrow> string \<Rightarrow> string" where
  "append_rest [] buffer = buffer"
| "append_rest (part # itr) buffer = append_rest itr (buffer @ ''/'' @ part)"

definition FilePath_ToString :: "FilePath \<Rightarrow> string" where
  "FilePath_ToString p = (case parts p of
     [] \<Rightarrow> (if absolute p then ''/'' else ''.'')
   | part # itr \<Rightarrow> append_rest itr ((if absolute p then ''/'' else []) @ part))"

fun tokenize_parts :: "'l FilePathTokenListener \<Rightarrow> string list \<Rightarrow> 'l \<Rightarrow> 'l" where
  "tokenize_parts listener [] l = l"
| "tokenize_parts listener (part # itr) l =
     tokenize_parts listener itr (if part = ''..'' then OnParentDir listener l else OnPathPart listener part l)"

definition FilePath_Tokenize :: "'l FilePathTokenListener \<Rightarrow> FilePath \<Rightarrow> 'l \<Rightarrow> 'l" where
  "FilePath_Tokenize listener p l = tokenize_parts listener (parts p) (if IsAbsolute p then OnRootDir listener l else l)"

definition Append_path :: "FilePath \<Rightarrow> FilePath \<Rightarrow> FilePath" where
  "Append_path other p = FilePath_Tokenize FilePathAppender other p"

definition Append_ptr :: "string option \<Rightarrow> FilePath \<Rightarrow> FilePath" where
  "Append_ptr filePath p = TokenizeFilePath FilePathAppender filePath DEFAULT_DELIMITER p"

definition Append_string :: "string \<Rightarrow> FilePath \<Rightarrow> FilePath" where
  "Append_string filePath p = Append_ptr (Some (c_str filePath)) p"

definition Path_Remove :: "FilePath \<Rightarrow> string \<times> FilePath" where
  "Path_Remove p = (if parts p = [] then ([], p) else (last (parts p), p\<lparr>parts := butlast (parts p)\<rparr>))"

datatype path_error = IllegalArgumentError string

definition ConvertToAbsolute :: "FilePath \<Rightarrow> FilePath \<Rightarrow> (path_error + unit) \<times> FilePath" where
  "ConvertToAbsolute basePath p =
     (if IsAbsolute p then returnM () p
      else if \<not> IsAbsolute basePath then
        throwM (IllegalArgumentError ''FilePath::ConvertToAbsolute() - basePath is not absolute'') p
      else let tempFilePath = Append_path p basePath in
        returnM () (SetAbsolute (p\<lparr>parts := parts tempFilePath\<rparr>)))"

definition ConvertToAbsolute_string :: "string \<Rightarrow> FilePath \<Rightarrow> (path_error + unit) \<times> FilePath" where
  "ConvertToAbsolute_string baseDir = ConvertToAbsolute (FilePath_of baseDir)"

text \<open>\<open>cwd\<close> is the answer of \<^verbatim>\<open>FileUtils::GetCurrentDirectory\<close>.\<close>

definition ConvertToAbsolute_cwd :: "string \<Rightarrow> FilePath \<Rightarrow> (path_error + unit) \<times> FilePath" where
  "ConvertToAbsolute_cwd cwd = ConvertToAbsolute_string cwd"

definition plus_path :: "FilePath \<Rightarrow> FilePath \<Rightarrow> string" where
  "plus_path left right = FilePath_ToString (Append_path right left)"

definition plus_string :: "FilePath \<Rightarrow> string \<Rightarrow> string" where
  "plus_string left right = FilePath_ToString (Append_string right left)"

text \<open>The iterator: \<open>itr\<close> is the rest of the parts, the current one in front.\<close>

record Path_Iterator =
  itr :: "string list"
  currentPath :: string

definition Iterator_new :: "FilePath \<Rightarrow> Path_Iterator" where
  "Iterator_new p = (let current = (if IsAbsolute p then ''/'' else []) in
     \<lparr>itr = parts p, currentPath = (case parts p of [] \<Rightarrow> current | part # _ \<Rightarrow> current @ part)\<rparr>)"

definition Iterator_AtEnd :: "Path_Iterator \<Rightarrow> bool" where "Iterator_AtEnd i = (itr i = [])"

definition Iterator_Advance :: "Path_Iterator \<Rightarrow> Path_Iterator" where
  "Iterator_Advance i = (let i = i\<lparr>itr := tl (itr i)\<rparr> in
     case itr i of [] \<Rightarrow> i | part # _ \<Rightarrow> i\<lparr>currentPath := currentPath i @ ''/'' @ part\<rparr>)"

definition CurrentPath :: "Path_Iterator \<Rightarrow> string" where "CurrentPath i = currentPath i"

end
