(* ===== verification/Path_Resolution.thy ===== *)
theory Path_Resolution
  imports File_Path
begin

text \<open>
  What a path means: a walk from one directory to another, where a directory is the list of the names on the way from the root. The
  tokenizer is proved once, for any listener that keeps track of the walk.
\<close>

section \<open>Tokens of a text\<close>

fun split_at_char :: "char \<Rightarrow> string \<Rightarrow> string list" where
  "split_at_char d [] = [[]]"
| "split_at_char d (c # s) = (if c = d then [] # split_at_char d s
     else (c # hd (split_at_char d s)) # tl (split_at_char d s))"

definition path_names :: "char \<Rightarrow> string \<Rightarrow> string list" where
  "path_names d s = filter (\<lambda>t. t \<noteq> []) (split_at_char d s)"

lemma split_at_char_first:
  "split_at_char d s = takeWhile (\<lambda>c. c \<noteq> d) s #
     (case dropWhile (\<lambda>c. c \<noteq> d) s of [] \<Rightarrow> [] | c # q \<Rightarrow> split_at_char d q)"
  by (induction s) auto

lemma path_names_skip: "path_names d (dropWhile (\<lambda>c. c = d) s) = path_names d s"
  by (induction s) (auto simp: path_names_def)

lemma path_names_first:
  assumes "s \<noteq> []" and "hd s \<noteq> d"
  shows "path_names d s = takeWhile (\<lambda>c. c \<noteq> d) s #
     (case dropWhile (\<lambda>c. c \<noteq> d) s of [] \<Rightarrow> [] | c # q \<Rightarrow> path_names d q)"
proof -
  have "takeWhile (\<lambda>c. c \<noteq> d) s \<noteq> []" using assms by (cases s) auto
  then show ?thesis
    by (simp only: path_names_def split_at_char_first [of d s]) (cases "dropWhile (\<lambda>c. c \<noteq> d) s", simp_all only: list.case filter.simps path_names_def if_True not_False_eq_True)
qed

lemma path_names_step:
  assumes "s \<noteq> []" and "hd s \<noteq> d"
  shows "path_names d s = takeWhile (\<lambda>c. c \<noteq> d) s # path_names d (dropWhile (\<lambda>c. c = d) (dropWhile (\<lambda>c. c \<noteq> d) s))"
proof (cases "dropWhile (\<lambda>c. c \<noteq> d) s")
  case Nil
  show ?thesis unfolding path_names_first [OF assms] Nil by (simp add: path_names_def)
next
  case (Cons c q)
  then have "c = d" using hd_dropWhile [of "\<lambda>c. c \<noteq> d" s] by auto
  then show ?thesis unfolding path_names_first [OF assms] Cons by (simp add: path_names_skip)
qed

lemma next_end_eq: "next_end d p = dropWhile (\<lambda>c. c \<noteq> d) (tl p)"
proof (induction d p rule: next_end.induct)
  case (1 d p)
  then show ?case by (subst next_end.simps) (cases "tl p"; auto simp: IsDelimiter_def deref_def)
qed

lemma SkipDelimiters_eq: "SkipDelimiters d p = dropWhile (\<lambda>c. c = d) (tl p)"
proof (induction d p rule: SkipDelimiters.induct)
  case (1 d p)
  then show ?case by (subst SkipDelimiters.simps) (cases "tl p"; auto simp: IsDelimiter_def deref_def)
qed

lemma tokens_loop_eq:
  "p = [] \<or> hd p \<noteq> d \<Longrightarrow> tokens_loop f d p l = fold (ProcessToken f) (path_names d p) l"
proof (induction "length p" arbitrary: p l rule: less_induct)
  case less
  show ?case
  proof (cases "p = []")
    case True
    then show ?thesis by (subst tokens_loop.simps) (simp add: path_names_def)
  next
    case False
    with less.prems have hd: "hd p \<noteq> d" by simp
    let ?e = "dropWhile (\<lambda>c. c \<noteq> d) p" and ?q = "dropWhile (\<lambda>c. c = d) (dropWhile (\<lambda>c. c \<noteq> d) p)"
    have e: "next_end d p = ?e" using False hd by (cases p) (auto simp: next_end_eq)
    have token: "take (length p - length ?e) p = takeWhile (\<lambda>c. c \<noteq> d) p"
      by (metis append_eq_conv_conj diff_diff_cancel length_append length_takeWhile_le takeWhile_dropWhile_id add_diff_cancel_right')
    have skip: "(if IsDelimiter d ?e then SkipDelimiters d ?e else ?e) = ?q"
    proof (cases ?e)
      case (Cons c q)
      then have "c = d" using hd_dropWhile [of "\<lambda>c. c \<noteq> d" p] by auto
      with Cons show ?thesis by (simp add: IsDelimiter_def deref_def SkipDelimiters_eq)
    next
      case Nil
      show ?thesis unfolding Nil by (simp add: IsDelimiter_def)
    qed
    have "length ?q < length p"
    proof -
      have "length ?q \<le> length ?e" by (rule length_dropWhile_le)
      also have "length ?e < length p" using False hd by (cases p) (auto simp: le_imp_less_Suc length_dropWhile_le)
      finally show ?thesis .
    qed
    moreover have "?q = [] \<or> hd ?q \<noteq> d" using hd_dropWhile [of "\<lambda>c. c = d" ?e] by blast
    ultimately have IH: "tokens_loop f d ?q m = fold (ProcessToken f) (path_names d ?q) m" for m
      by (rule less.hyps)
    show ?thesis
      using False by (subst tokens_loop.simps) (simp add: Let_def e token skip IH path_names_step [OF False hd])
  qed
qed

lemma split_at_char_no_delim: "split_at_char d s \<noteq> [] \<and> (\<forall>t\<in>set (split_at_char d s). d \<notin> set t \<and> set t \<subseteq> set s)"
proof (induction s)
  case (Cons c s)
  then obtain f fs where "split_at_char d s = f # fs" by (cases "split_at_char d s") auto
  with Cons show ?case by auto
qed simp

lemma path_names_no_delim: "t \<in> set (path_names d s) \<Longrightarrow> t \<noteq> [] \<and> d \<notin> set t \<and> set t \<subseteq> set s"
  using split_at_char_no_delim [of d s] by (auto simp: path_names_def)

section \<open>Walks\<close>

definition enter :: "string \<Rightarrow> string list \<Rightarrow> string list" where
  "enter t dir = (if t = ''.'' then dir else if t = ''..'' then butlast dir else dir @ [t])"

definition walk :: "string list \<Rightarrow> string list \<Rightarrow> string list" where
  "walk ts dir = fold enter ts dir"

definition name_ok :: "string \<Rightarrow> bool" where
  "name_ok t = (t \<noteq> [] \<and> CHR ''/'' \<notin> set t \<and> CHR 0x00 \<notin> set t \<and> t \<noteq> ''.'' \<and> t \<noteq> ''..'')"

lemma c_str_no_null: "CHR 0x00 \<notin> set (c_str s)"
  by (auto simp: c_str_def dest: set_takeWhileD)

text \<open>What a listener must do so that it follows the walk: \<open>dir l\<close> is where it is.\<close>

locale path_listener =
  fixes listener :: "'l FilePathTokenListener"
    and initial :: "'l \<Rightarrow> bool"
    and ok :: "'l \<Rightarrow> bool"
    and dir :: "'l \<Rightarrow> string list"
    and root :: "string list \<Rightarrow> string list"
  assumes starts: "initial l \<Longrightarrow> ok l"
    and on_root: "initial l \<Longrightarrow> ok (OnRootDir listener l) \<and> dir (OnRootDir listener l) = root (dir l)"
    and on_current: "ok l \<Longrightarrow> ok (OnCurrentDir listener l) \<and> dir (OnCurrentDir listener l) = dir l"
    and on_parent: "ok l \<Longrightarrow> ok (OnParentDir listener l) \<and> dir (OnParentDir listener l) = butlast (dir l)"
    and on_part: "ok l \<Longrightarrow> name_ok t \<Longrightarrow> ok (OnPathPart listener t l) \<and> dir (OnPathPart listener t l) = dir l @ [t]"
begin

lemma token_walks:
  assumes "ok l" and "t \<noteq> []" and "CHR ''/'' \<notin> set t" and "CHR 0x00 \<notin> set t"
  shows "ok (ProcessToken listener t l) \<and> dir (ProcessToken listener t l) = enter t (dir l)"
  using assms on_current on_parent on_part [of l t] by (simp add: ProcessToken_def enter_def name_ok_def)

lemma tokens_walk:
  assumes "ok l" and "\<And>t. t \<in> set ts \<Longrightarrow> t \<noteq> [] \<and> CHR ''/'' \<notin> set t \<and> CHR 0x00 \<notin> set t"
  shows "ok (fold (ProcessToken listener) ts l) \<and> dir (fold (ProcessToken listener) ts l) = walk ts (dir l)"
  using assms by (induction ts arbitrary: l) (auto simp: walk_def token_walks)

theorem tokenizer_walks:
  assumes "initial l"
  shows "ok (TokenizeFilePath listener (Some s) DEFAULT_DELIMITER l) \<and>
    dir (TokenizeFilePath listener (Some s) DEFAULT_DELIMITER l)
      = walk (path_names CHR ''/'' (c_str s)) (if deref s = CHR ''/'' then root (dir l) else dir l)"
proof -
  let ?ts = "path_names CHR ''/'' (c_str s)"
  have names: "\<And>t. t \<in> set ?ts \<Longrightarrow> t \<noteq> [] \<and> CHR ''/'' \<notin> set t \<and> CHR 0x00 \<notin> set t"
    using path_names_no_delim [of _ "CHR ''/''" "c_str s"] c_str_no_null [of s] by blast
  consider "c_str s = []" | "c_str s \<noteq> []" "deref s = CHR ''/''" | "c_str s \<noteq> []" "deref s \<noteq> CHR ''/''" by blast
  then show ?thesis
  proof cases
    case 1
    then have "deref s \<noteq> CHR ''/''" by (cases s) (auto simp: c_str_def deref_def split: if_splits)
    with 1 starts [OF assms] show ?thesis by (simp add: TokenizeFilePath_def path_names_def walk_def)
  next
    case 2
    then have "IsDelimiter DEFAULT_DELIMITER (c_str s)"
      by (cases s) (auto simp: IsDelimiter_def DEFAULT_DELIMITER_def c_str_def deref_def split: if_splits)
    moreover have "SkipDelimiters DEFAULT_DELIMITER (c_str s) = dropWhile (\<lambda>c. c = CHR ''/'') (c_str s)"
      using 2 by (cases s) (auto simp: SkipDelimiters_eq DEFAULT_DELIMITER_def c_str_def deref_def split: if_splits)
    moreover have "dropWhile (\<lambda>c. c = CHR ''/'') (c_str s) = [] \<or> hd (dropWhile (\<lambda>c. c = CHR ''/'') (c_str s)) \<noteq> CHR ''/''"
      using hd_dropWhile [of "\<lambda>c. c = CHR ''/''" "c_str s"] by blast
    note tokens_loop_eq [OF this, of listener, unfolded path_names_skip]
    ultimately have "TokenizeFilePath listener (Some s) DEFAULT_DELIMITER l = fold (ProcessToken listener) ?ts (OnRootDir listener l)"
      using 2 by (simp only: TokenizeFilePath_def Let_def DEFAULT_DELIMITER_def option.case if_True if_False)
    with tokens_walk [of "OnRootDir listener l", OF _ names] on_root [OF assms] 2 show ?thesis by simp
  next
    case 3
    then have "c_str s = [] \<or> hd (c_str s) \<noteq> CHR ''/''" "\<not> IsDelimiter DEFAULT_DELIMITER (c_str s)"
      by (cases s; auto simp: IsDelimiter_def DEFAULT_DELIMITER_def c_str_def deref_def split: if_splits)+
    then have "TokenizeFilePath listener (Some s) DEFAULT_DELIMITER l = fold (ProcessToken listener) ?ts l"
      using 3 by (simp add: TokenizeFilePath_def tokens_loop_eq DEFAULT_DELIMITER_def)
    with tokens_walk [OF starts [OF assms] names] 3 show ?thesis by simp
  qed
qed

end

section \<open>Paths\<close>

text \<open>The normal form: parents first, then names; no parents after the root.\<close>

definition path_ok :: "FilePath \<Rightarrow> bool" where
  "path_ok p = (let names = dropWhile (\<lambda>t. t = ''..'') (parts p) in
     list_all name_ok names \<and> (absolute p \<longrightarrow> names = parts p))"

text \<open>Where the path leads to from the directory \<open>dir\<close>.\<close>

definition destination :: "FilePath \<Rightarrow> string list \<Rightarrow> string list" where
  "destination p dir = walk (parts p) (if absolute p then [] else dir)"

lemma walk_simps [simp]: "walk [] dir = dir" "walk (t # ts) dir = walk ts (enter t dir)" "walk (ts @ us) dir = walk us (walk ts dir)"
  by (simp_all add: walk_def)

lemma walk_names: "list_all name_ok ts \<Longrightarrow> walk ts dir = dir @ ts"
  by (induction ts arbitrary: dir) (auto simp: enter_def name_ok_def)

lemma walk_parents: "walk (replicate n ''..'') dir = take (length dir - n) dir"
  by (induction n arbitrary: dir) (auto simp: enter_def butlast_conv_take min_def)

lemma dotdot_not_ok [simp]: "\<not> name_ok ''..''"
  by (simp add: name_ok_def)

lemma path_okE:
  assumes "path_ok p"
  obtains n names where "parts p = replicate n ''..'' @ names" "list_all name_ok names" "absolute p \<longrightarrow> n = 0"
proof
  let ?n = "length (takeWhile (\<lambda>t. t = ''..'') (parts p))" and ?names = "dropWhile (\<lambda>t. t = ''..'') (parts p)"
  have "takeWhile (\<lambda>t. t = ''..'') (parts p) = replicate ?n ''..''"
    by (rule replicate_eqI) (auto dest: set_takeWhileD)
  then show "parts p = replicate ?n ''..'' @ ?names" by (metis takeWhile_dropWhile_id)
  show "list_all name_ok ?names" using assms by (simp add: path_ok_def Let_def)
  show "absolute p \<longrightarrow> ?n = 0"
    using assms by (metis append_eq_append_conv append_self_conv2 list.size(3) path_ok_def takeWhile_dropWhile_id)
qed

lemma path_okI:
  assumes "parts p = replicate n ''..'' @ names" "list_all name_ok names" "absolute p \<Longrightarrow> n = 0"
  shows "path_ok p"
proof -
  have "dropWhile (\<lambda>t. t = ''..'') names = names" using assms(2) by (cases names) auto
  moreover have "dropWhile (\<lambda>t. t = ''..'') (replicate n ''..'' @ ts) = dropWhile (\<lambda>t. t = ''..'') ts" for ts
    by (induction n) auto
  ultimately show ?thesis using assms by (auto simp: path_ok_def Let_def)
qed

lemma path_ok_names: "path_ok p \<Longrightarrow> absolute p \<Longrightarrow> list_all name_ok (parts p)"
  unfolding path_ok_def Let_def by metis

lemma parent_walks:
  assumes "path_ok p"
  shows "path_ok (AppendParentDir p) \<and> destination (AppendParentDir p) dir = butlast (destination p dir)"
proof -
  obtain n names where p: "parts p = replicate n ''..'' @ names" "list_all name_ok names" "absolute p \<longrightarrow> n = 0"
    using assms by (rule path_okE)
  have more: "replicate n ''..'' @ [''..''] = replicate (Suc n) ''..''" by (simp add: replicate_append_same)
  show ?thesis
  proof (cases names rule: rev_cases)
    case Nil
    then have "path_ok (p\<lparr>parts := parts p @ [''..'']\<rparr>)" if "\<not> absolute p"
      using p that by (intro path_okI [where n = "Suc n" and names = "[]"]) (auto simp: more)
    with Nil p assms show ?thesis
      by (cases n) (auto simp: AppendParentDir_def destination_def enter_def last_replicate)
  next
    case (snoc ns t)
    have "path_ok (p\<lparr>parts := replicate n ''..'' @ ns\<rparr>)"
      using p snoc by (intro path_okI [where n = n and names = ns]) auto
    with snoc p show ?thesis
      by (auto simp: AppendParentDir_def destination_def enter_def name_ok_def butlast_append)
  qed
qed

lemma part_walks:
  assumes "path_ok p" and "name_ok t"
  shows "path_ok (AppendPathPart t p) \<and> destination (AppendPathPart t p) dir = destination p dir @ [t]"
proof -
  obtain n names where p: "parts p = replicate n ''..'' @ names" "list_all name_ok names" "absolute p \<longrightarrow> n = 0"
    using assms(1) by (rule path_okE)
  then have "path_ok (AppendPathPart t p)"
    using assms(2) by (intro path_okI [where n = n and names = "names @ [t]"]) (auto simp: AppendPathPart_def)
  with assms(2) show ?thesis by (auto simp: AppendPathPart_def destination_def enter_def name_ok_def)
qed

definition new_path :: FilePath where "new_path = \<lparr>parts = [], absolute = False\<rparr>"

interpretation creator: path_listener FilePathCreator "\<lambda>p. p = new_path" path_ok "\<lambda>p. destination p dir" "\<lambda>d. []" for dir
  by unfold_locales
    (auto simp: FilePathCreator_def parent_walks part_walks,
     auto simp: new_path_def path_ok_def destination_def SetAbsolute_def)

interpretation appender: path_listener FilePathAppender path_ok path_ok "\<lambda>p. destination p dir" "\<lambda>d. d" for dir
  by unfold_locales (auto simp: FilePathAppender_def FilePathCreator_def parent_walks part_walks)

lemma c_str_idem [simp]: "c_str (c_str s) = c_str s"
  by (simp add: c_str_def)

lemma deref_c_str [simp]: "deref (c_str s) = deref s"
  by (cases s) (auto simp: c_str_def deref_def)

lemma FilePath_of_eq: "FilePath_of s = FilePath_of_ptr (Some s)"
  by (simp add: FilePath_of_def FilePath_of_ptr_def TokenizeFilePath_def)

lemma Append_string_eq: "Append_string s p = Append_ptr (Some s) p"
  by (simp add: Append_string_def Append_ptr_def TokenizeFilePath_def)

lemmas creator_walks = creator.tokenizer_walks [of new_path, OF refl]
lemmas appender_walks = appender.tokenizer_walks

lemma FilePath_of_destination:
  "path_ok (FilePath_of s)"
  "destination (FilePath_of s) dir = walk (path_names CHR ''/'' (c_str s)) (if deref s = CHR ''/'' then [] else dir)"
  using creator_walks [of "c_str s" dir]
  by (simp_all add: FilePath_of_def new_path_def [symmetric]) (simp add: new_path_def destination_def)

lemma Append_string_destination:
  assumes "path_ok p"
  shows "path_ok (Append_string s p)"
    and "destination (Append_string s p) dir = walk (path_names CHR ''/'' (c_str s)) (destination p dir)"
  using appender_walks [OF assms, of s dir] by (simp_all add: Append_string_eq Append_ptr_def)

lemma tokenize_parts_destination:
  assumes "path_ok p" and "\<forall>t\<in>set ts. t = ''..'' \<or> name_ok t"
  shows "path_ok (tokenize_parts FilePathAppender ts p) \<and> destination (tokenize_parts FilePathAppender ts p) dir = walk ts (destination p dir)"
  using assms
proof (induction ts arbitrary: p)
  case (Cons t ts)
  then show ?case
    by (cases "t = ''..''") (auto simp: enter_def parent_walks part_walks FilePathAppender_def FilePathCreator_def, auto simp: name_ok_def)
qed simp

lemma Append_path_destination:
  assumes "path_ok p" and "path_ok q"
  shows "path_ok (Append_path q p)" and "destination (Append_path q p) dir = walk (parts q) (destination p dir)"
proof -
  obtain n names where "parts q = replicate n ''..'' @ names" "list_all name_ok names" using assms(2) by (rule path_okE)
  then have "\<forall>t\<in>set (parts q). t = ''..'' \<or> name_ok t" by (auto simp: list_all_iff)
  from tokenize_parts_destination [OF assms(1) this, of dir]
  show "path_ok (Append_path q p)" "destination (Append_path q p) dir = walk (parts q) (destination p dir)"
    by (simp_all add: Append_path_def FilePath_Tokenize_def FilePathAppender_def)
qed

text \<open>A path is determined by where it leads to.\<close>

lemma destination_inj:
  assumes "path_ok p" and "path_ok q" and "absolute p = absolute q" and "\<And>dir. destination p dir = destination q dir"
  shows "p = q"
proof -
  obtain n names where p: "parts p = replicate n ''..'' @ names" "list_all name_ok names" "absolute p \<longrightarrow> n = 0"
    using assms(1) by (rule path_okE)
  obtain m others where q: "parts q = replicate m ''..'' @ others" "list_all name_ok others" "absolute q \<longrightarrow> m = 0"
    using assms(2) by (rule path_okE)
  have "n = m \<and> names = others"
  proof (cases "absolute p")
    case True
    with assms(3,4) p q show ?thesis by (simp add: destination_def walk_names)
  next
    case False
    let ?dir = "replicate (n + m) [] :: string list"
    have "destination p ?dir = replicate m [] @ names" "destination q ?dir = replicate n [] @ others"
      using False assms(3) p q by (simp_all add: destination_def walk_names walk_parents)
    with assms(4) [of ?dir] have eq: "replicate m [] @ names = replicate n [] @ others" by simp
    have "takeWhile (\<lambda>t. t = []) (replicate k [] @ ts) = replicate k []" if "list_all name_ok ts" for k and ts :: "string list"
      using that by (induction k) (cases ts; auto simp: name_ok_def)+
    from this [OF p(2), of m] this [OF q(2), of n] eq have "replicate m ([] :: string) = replicate n []" by simp
    then have "m = n" by (metis length_replicate)
    with eq show ?thesis by simp
  qed
  with p(1) q(1) assms(3) show ?thesis by simp
qed

section \<open>Texts of paths\<close>

lemma append_rest_eq: "append_rest ts buffer = buffer @ concat (map (\<lambda>t. CHR ''/'' # t) ts)"
  by (induction ts arbitrary: buffer) auto

lemma path_names_absolute: "path_names CHR ''/'' (CHR ''/'' # s) = path_names CHR ''/'' s"
  by (simp add: path_names_def)

lemma path_names_join:
  "t \<noteq> [] \<Longrightarrow> CHR ''/'' \<notin> set t \<Longrightarrow> \<forall>u\<in>set ts. u \<noteq> [] \<and> CHR ''/'' \<notin> set u \<Longrightarrow>
     path_names CHR ''/'' (t @ concat (map (\<lambda>t. CHR ''/'' # t) ts)) = t # ts"
proof (induction ts arbitrary: t)
  case Nil
  then have t: "takeWhile (\<lambda>c. c \<noteq> CHR ''/'') t = t" "dropWhile (\<lambda>c. c \<noteq> CHR ''/'') t = []" "hd t \<noteq> CHR ''/''"
    by (auto simp: takeWhile_eq_all_conv dest: hd_in_set)
  from path_names_first [OF Nil(1) t(3)] have "path_names CHR ''/'' t = [t]" by (simp only: t list.case)
  then show ?case by simp
next
  case (Cons u ts)
  let ?s = "concat (map (\<lambda>t. CHR ''/'' # t) (u # ts))"
  have "\<forall>c\<in>set t. c \<noteq> CHR ''/''" using Cons.prems by auto
  then have "takeWhile (\<lambda>c. c \<noteq> CHR ''/'') (t @ ?s) = t" "dropWhile (\<lambda>c. c \<noteq> CHR ''/'') (t @ ?s) = ?s"
    by (simp_all add: takeWhile_append2 dropWhile_append2)
  moreover have "t @ ?s \<noteq> []" "hd (t @ ?s) \<noteq> CHR ''/''"
    using Cons.prems(1,2) by (simp, metis hd_append2 hd_in_set)
  ultimately have "path_names CHR ''/'' (t @ ?s) = t # path_names CHR ''/'' (u @ concat (map (\<lambda>t. CHR ''/'' # t) ts))"
    by (simp add: path_names_first)
  with Cons show ?case by simp
qed

lemma path_ok_parts:
  assumes "path_ok p" and "t \<in> set (parts p)"
  shows "t \<noteq> [] \<and> CHR ''/'' \<notin> set t \<and> CHR 0x00 \<notin> set t \<and> t \<noteq> ''.''"
proof -
  obtain n names where "parts p = replicate n ''..'' @ names" "list_all name_ok names" using assms(1) by (rule path_okE)
  with assms(2) have "t = ''..'' \<or> name_ok t" by (auto simp: list_all_iff)
  then show ?thesis by (auto simp: name_ok_def)
qed

lemma ToString_names:
  assumes "path_ok p"
  shows "path_names CHR ''/'' (FilePath_ToString p) = (if parts p = [] \<and> \<not> absolute p then [''.''] else parts p)"
    and "deref (FilePath_ToString p) = CHR ''/'' \<longleftrightarrow> absolute p"
    and "c_str (FilePath_ToString p) = FilePath_ToString p"
proof -
  have parts: "\<And>t. t \<in> set (parts p) \<Longrightarrow> t \<noteq> [] \<and> CHR ''/'' \<notin> set t \<and> CHR 0x00 \<notin> set t" using path_ok_parts [OF assms] by blast
  show "path_names CHR ''/'' (FilePath_ToString p) = (if parts p = [] \<and> \<not> absolute p then [''.''] else parts p)"
  proof (cases "parts p")
    case Nil
    then show ?thesis by (simp add: FilePath_ToString_def path_names_def)
  next
    case (Cons t ts)
    with parts have "path_names CHR ''/'' (t @ concat (map (\<lambda>t. CHR ''/'' # t) ts)) = t # ts"
      by (intro path_names_join) auto
    with Cons show ?thesis by (simp add: FilePath_ToString_def append_rest_eq path_names_absolute)
  qed
  show "deref (FilePath_ToString p) = CHR ''/'' \<longleftrightarrow> absolute p"
  proof (cases "parts p")
    case (Cons t ts)
    with parts [of t] have "t \<noteq> []" "CHR ''/'' \<notin> set t" by simp_all
    with Cons show ?thesis by (cases t) (auto simp: FilePath_ToString_def append_rest_eq deref_def)
  qed (simp add: FilePath_ToString_def deref_def)
  have "CHR 0x00 \<notin> set (FilePath_ToString p)"
    using parts by (cases "parts p") (auto simp: FilePath_ToString_def append_rest_eq)
  then show "c_str (FilePath_ToString p) = FilePath_ToString p" by (auto simp: c_str_def takeWhile_eq_all_conv)
qed

lemma tokens_absolute:
  "absolute (fold (ProcessToken FilePathCreator) ts p) = absolute p"
  by (induction ts arbitrary: p)
    (auto simp: ProcessToken_def FilePathCreator_def AppendParentDir_def AppendPathPart_def)

lemma append_absolute: "absolute (tokenize_parts FilePathAppender ts p) = absolute p"
  by (induction ts arbitrary: p)
    (auto simp: FilePathAppender_def FilePathCreator_def AppendParentDir_def AppendPathPart_def)

lemma FilePath_of_absolute: "absolute (FilePath_of s) \<longleftrightarrow> deref s = CHR ''/''"
proof (cases "deref s = CHR ''/''")
  case True
  then have "destination (FilePath_of s) dir = destination (FilePath_of s) []" for dir
    by (simp add: FilePath_of_destination)
  then have same: "destination (FilePath_of s) (replicate n [] @ [[]]) = destination (FilePath_of s) []" for n by blast
  obtain n names where p: "parts (FilePath_of s) = replicate n ''..'' @ names" "list_all name_ok names"
    using FilePath_of_destination(1) by (rule path_okE)
  from same [of n] p show ?thesis using True
    by (auto simp: destination_def walk_names walk_parents split: if_splits)
next
  case False
  have start: "\<not> IsDelimiter DEFAULT_DELIMITER (c_str s)" using False by (simp add: IsDelimiter_def DEFAULT_DELIMITER_def)
  have "c_str s = [] \<or> hd (c_str s) \<noteq> CHR ''/''"
    using False deref_c_str [of s] by (cases "c_str s") (auto simp: deref_def)
  from tokens_loop_eq [OF this, of FilePathCreator] start have "absolute (TokenizeFilePath FilePathCreator (Some s) DEFAULT_DELIMITER new_path) = absolute new_path"
    by (simp add: TokenizeFilePath_def DEFAULT_DELIMITER_def tokens_absolute Let_def)
  with False show ?thesis by (simp add: FilePath_of_eq FilePath_of_ptr_def new_path_def)
qed

definition iterator_at :: "nat \<Rightarrow> FilePath \<Rightarrow> Path_Iterator" where
  "iterator_at k p = \<lparr>itr = drop k (parts p),
      currentPath = (if absolute p then ''/'' else []) @
        (case take (Suc k) (parts p) of [] \<Rightarrow> [] | t # ts \<Rightarrow> t @ concat (map (\<lambda>t. CHR ''/'' # t) ts))\<rparr>"

lemma Advance_iterator_at: "Iterator_Advance (iterator_at k p) = iterator_at (Suc k) p"
proof (cases "Suc k < length (parts p)")
  case True
  then have "drop (Suc k) (parts p) = parts p ! Suc k # drop (Suc (Suc k)) (parts p)"
    and "take (Suc (Suc k)) (parts p) = take (Suc k) (parts p) @ [parts p ! Suc k]"
    by (simp_all add: Cons_nth_drop_Suc take_Suc_conv_app_nth)
  moreover have "take (Suc k) (parts p) \<noteq> []" using True by auto
  ultimately show ?thesis
    by (cases "take (Suc k) (parts p)") (simp_all add: Iterator_Advance_def iterator_at_def tl_drop drop_Suc Let_def)
next
  case False
  then show ?thesis by (simp add: Iterator_Advance_def iterator_at_def tl_drop drop_Suc Let_def)
qed

lemma Advance_steps: "(Iterator_Advance ^^ k) (Iterator_new p) = iterator_at k p"
proof (induction k)
  case 0
  show ?case by (cases "parts p") (auto simp: Iterator_new_def IsAbsolute_def iterator_at_def Let_def)
qed (simp add: Advance_iterator_at)

section \<open>Removing and making absolute\<close>

lemma Remove_ok:
  assumes "path_ok p"
  shows "path_ok (snd (Path_Remove p))"
proof (cases "parts p" rule: rev_cases)
  case Nil
  with assms show ?thesis by (simp add: Path_Remove_def)
next
  case (snoc ts t)
  obtain n names where p: "parts p = replicate n ''..'' @ names" "list_all name_ok names" "absolute p \<longrightarrow> n = 0"
    using assms by (rule path_okE)
  show ?thesis
  proof (cases names rule: rev_cases)
    case Nil
    with p snoc show ?thesis
      by (intro path_okI [where n = "n - 1" and names = "[]"]) (auto simp: Path_Remove_def butlast_conv_take min_def split: if_splits)
  next
    case (snoc us u)
    with p show ?thesis
      by (intro path_okI [where n = n and names = us]) (auto simp: Path_Remove_def butlast_append)
  qed
qed

lemma absolute_path_ok: "absolute p \<Longrightarrow> path_ok p \<longleftrightarrow> list_all name_ok (parts p)"
  using path_okI [of p 0 "parts p"] path_ok_names [of p] by auto

lemma destination_names:
  assumes "path_ok p" and "list_all name_ok dir"
  shows "list_all name_ok (destination p dir)"
proof -
  obtain n names where "parts p = replicate n ''..'' @ names" "list_all name_ok names" "absolute p \<longrightarrow> n = 0"
    using assms(1) by (rule path_okE)
  with assms(2) show ?thesis
    by (auto simp: destination_def walk_names walk_parents list_all_iff dest: in_set_takeD)
qed

lemma ConvertToAbsolute_eq:
  assumes "path_ok p" and "path_ok base"
  shows "ConvertToAbsolute base p =
    (if absolute p then (Inr (), p)
     else if absolute base then (Inr (), \<lparr>parts = destination p (parts base), absolute = True\<rparr>)
     else (Inl (IllegalArgumentError ''FilePath::ConvertToAbsolute() - basePath is not absolute''), p))"
proof (cases "\<not> absolute p \<and> absolute base")
  case True
  let ?q = "Append_path p base"
  have "absolute ?q"
    using True append_absolute [of "parts p" base] by (simp add: Append_path_def FilePath_Tokenize_def IsAbsolute_def)
  with Append_path_destination(1) [OF assms(2,1)] have "destination ?q [] = parts ?q"
    by (simp add: destination_def walk_names path_ok_names)
  also have "destination ?q [] = walk (parts p) (parts base)"
    using True Append_path_destination(2) [OF assms(2,1), of "[]"] path_ok_names [OF assms(2)]
    by (simp add: destination_def walk_names)
  finally show ?thesis using True
    by (simp add: ConvertToAbsolute_def IsAbsolute_def SetAbsolute_def returnM_def destination_def Let_def)
next
  case False
  then show ?thesis by (auto simp: ConvertToAbsolute_def IsAbsolute_def returnM_def throwM_def)
qed

section \<open>Properties\<close>

text \<open>C7. Paths are walks: the path of a text leads, from every directory, to where the names of the text lead one after the other
  (\<^verbatim>\<open>.\<close> stays, \<^verbatim>\<open>..\<close> goes up and stays at the root, repeated and trailing slashes do not count), and appending a text or a path
  walks on from there.\<close>

theorem FilePath_walks:
  assumes "path_ok p" and "path_ok q"
  shows "destination (FilePath_of s) dir = walk (path_names CHR ''/'' (c_str s)) (if deref s = CHR ''/'' then [] else dir) \<and>
    destination (Append_string s p) dir = walk (path_names CHR ''/'' (c_str s)) (destination p dir) \<and>
    destination (Append_path q p) dir = walk (parts q) (destination p dir)"
  by (intro conjI FilePath_of_destination Append_string_destination [OF assms(1)] Append_path_destination [OF assms])

theorem FilePath_walks_witness:
  "destination (FilePath_of ''a/./b//..'') [''home''] = [''home'', ''a''] \<and>
    destination (Append_string ''../../b/'' \<lparr>parts = [''a''], absolute = True\<rparr>) [] = [''b'']"
  using FilePath_walks [of "\<lparr>parts = [''a''], absolute = True\<rparr>" "\<lparr>parts = [], absolute = False\<rparr>" "''a/./b//..''" "[''home'']"]
    FilePath_walks [of "\<lparr>parts = [''a''], absolute = True\<rparr>" "\<lparr>parts = [], absolute = False\<rparr>" "''../../b/''" "[]"]
  by (simp add: path_ok_def name_ok_def path_names_def c_str_def deref_def enter_def destination_def)

text \<open>C9. Every operation on paths keeps the normal form: parents only in front, none after the root, and names that are not empty,
  not \<^verbatim>\<open>.\<close> or \<^verbatim>\<open>..\<close> and without slashes.\<close>

theorem FilePath_normal_form:
  assumes "path_ok p" and "path_ok q"
  shows "path_ok (FilePath_of s) \<and> path_ok (Append_string s p) \<and> path_ok (Append_path q p) \<and> path_ok (snd (Path_Remove p)) \<and>
    path_ok (snd (ConvertToAbsolute q p))"
  using assms
  by (simp add: FilePath_of_destination Append_string_destination Append_path_destination Remove_ok ConvertToAbsolute_eq
      absolute_path_ok destination_names path_ok_names returnM_def throwM_def)

theorem FilePath_normal_form_witness:
  "path_ok (Append_path \<lparr>parts = [''..'', ''b''], absolute = False\<rparr> \<lparr>parts = [''a''], absolute = True\<rparr>)"
  using FilePath_normal_form [of "\<lparr>parts = [''a''], absolute = True\<rparr>" "\<lparr>parts = [''..'', ''b''], absolute = False\<rparr>" "[]"]
  by (simp add: path_ok_def name_ok_def)

text \<open>Converting to an absolute path: an absolute path stays as it is, a relative base is refused and changes nothing, and otherwise
  the result is absolute and leads from anywhere to where the path leads from the base.\<close>

theorem FilePath_ConvertToAbsolute:
  assumes "path_ok p" and "path_ok base"
  shows "ConvertToAbsolute base p =
    (if absolute p then (Inr (), p)
     else if absolute base then (Inr (), \<lparr>parts = destination p (parts base), absolute = True\<rparr>)
     else (Inl (IllegalArgumentError ''FilePath::ConvertToAbsolute() - basePath is not absolute''), p))"
  by (rule ConvertToAbsolute_eq [OF assms])

theorem FilePath_ConvertToAbsolute_witness:
  "ConvertToAbsolute \<lparr>parts = [''home'', ''user''], absolute = True\<rparr> \<lparr>parts = [''..'', ''tmp''], absolute = False\<rparr>
    = (Inr (), \<lparr>parts = [''home'', ''tmp''], absolute = True\<rparr>)"
  using FilePath_ConvertToAbsolute [of "\<lparr>parts = [''..'', ''tmp''], absolute = False\<rparr>" "\<lparr>parts = [''home'', ''user''], absolute = True\<rparr>"]
  by (simp add: path_ok_def name_ok_def destination_def enter_def)

text \<open>C8. Printing a path and parsing the text gives the path back, and two texts give the same path exactly when both or none are absolute and
  they lead to the same place from every directory.\<close>

theorem FilePath_roundtrip:
  assumes "path_ok p"
  shows "FilePath_of (FilePath_ToString p) = p \<and>
    (FilePath_of s = FilePath_of t \<longleftrightarrow> (deref s = CHR ''/'') = (deref t = CHR ''/'') \<and>
      (\<forall>dir. walk (path_names CHR ''/'' (c_str s)) (if deref s = CHR ''/'' then [] else dir) =
             walk (path_names CHR ''/'' (c_str t)) (if deref t = CHR ''/'' then [] else dir)))"
proof
  let ?q = "FilePath_of (FilePath_ToString p)"
  have "destination ?q dir = destination p dir" for dir
    by (simp add: FilePath_of_destination ToString_names [OF assms]) (simp add: destination_def enter_def)
  with destination_inj [OF FilePath_of_destination(1) assms] FilePath_of_absolute ToString_names(2) [OF assms]
  show "?q = p" by blast
  show "FilePath_of s = FilePath_of t \<longleftrightarrow> (deref s = CHR ''/'') = (deref t = CHR ''/'') \<and>
      (\<forall>dir. walk (path_names CHR ''/'' (c_str s)) (if deref s = CHR ''/'' then [] else dir) =
             walk (path_names CHR ''/'' (c_str t)) (if deref t = CHR ''/'' then [] else dir))"
    using destination_inj [OF FilePath_of_destination(1) FilePath_of_destination(1), of s t]
    by (metis FilePath_of_absolute FilePath_of_destination(2))
qed

theorem FilePath_roundtrip_witness:
  "FilePath_of ''../a'' = \<lparr>parts = [''..'', ''a''], absolute = False\<rparr> \<and> FilePath_of ''/..//a/'' = FilePath_of ''/a''"
  using FilePath_roundtrip [of "\<lparr>parts = [''..'', ''a''], absolute = False\<rparr>" "''/..//a/''" "''/a''"]
  by (simp add: path_ok_def name_ok_def FilePath_ToString_def path_names_def c_str_def deref_def enter_def)

text \<open>The iterator of a path with \<open>n\<close> parts is at its end after \<open>n\<close> steps and not before, and its path after \<open>k\<close> steps is the text of the
  path of the first \<open>k + 1\<close> parts.\<close>

lemma Iterator_prefixes:
  "Iterator_AtEnd ((Iterator_Advance ^^ k) (Iterator_new p)) \<longleftrightarrow> length (parts p) \<le> k"
  "k < length (parts p) \<Longrightarrow> CurrentPath ((Iterator_Advance ^^ k) (Iterator_new p)) = FilePath_ToString (p\<lparr>parts := take (Suc k) (parts p)\<rparr>)"
  by (auto simp: Advance_steps iterator_at_def Iterator_AtEnd_def CurrentPath_def FilePath_ToString_def append_rest_eq split: list.split)

end
