(* ===== verification/Std_Heap.thy ===== *)
theory Std_Heap
  imports BTree_Arrays "HOL-Library.Multiset"
begin

text \<open>
  The heap algorithms of the C++ standard library (\<^verbatim>\<open>std::make_heap\<close>, \<^verbatim>\<open>std::push_heap\<close>, \<^verbatim>\<open>std::pop_heap\<close>): what the standard promises
  of them, as the locale \<open>heap_algorithms\<close>, and an implementation with sifting that keeps the promise.
\<close>

section \<open>Contract\<close>

definition parent :: "nat \<Rightarrow> nat" where "parent j = (j - 1) div 2"

text \<open>No element is greater than its parent.\<close>

definition is_heap :: "('t \<Rightarrow> 't \<Rightarrow> bool) \<Rightarrow> 't list \<Rightarrow> bool" where
  "is_heap lt xs = (\<forall>j<length xs. j > 0 \<longrightarrow> \<not> lt (xs ! parent j) (xs ! j))"

record 't std_heap =
  make_heap :: "'t list \<Rightarrow> 't list"
  push_heap :: "'t list \<Rightarrow> 't list"
  pop_heap :: "'t list \<Rightarrow> 't list"

locale heap_algorithms = comparator lt for lt :: "'t \<Rightarrow> 't \<Rightarrow> bool" +
  fixes alg :: "'t std_heap"
  assumes make_heap_mset: "mset (make_heap alg xs) = mset xs"
    and make_heap_heap: "is_heap lt (make_heap alg xs)"
    and push_heap_mset: "xs \<noteq> [] \<Longrightarrow> is_heap lt (butlast xs) \<Longrightarrow> mset (push_heap alg xs) = mset xs"
    and push_heap_heap: "xs \<noteq> [] \<Longrightarrow> is_heap lt (butlast xs) \<Longrightarrow> is_heap lt (push_heap alg xs)"
    and pop_heap_mset: "xs \<noteq> [] \<Longrightarrow> is_heap lt xs \<Longrightarrow> mset (pop_heap alg xs) = mset xs"
    and pop_heap_heap: "xs \<noteq> [] \<Longrightarrow> is_heap lt xs \<Longrightarrow> is_heap lt (butlast (pop_heap alg xs))"
    and pop_heap_last: "xs \<noteq> [] \<Longrightarrow> is_heap lt xs \<Longrightarrow> last (pop_heap alg xs) = hd xs"

lemma parent_eq: "0 < j \<Longrightarrow> parent j = i \<longleftrightarrow> j = 2 * i + 1 \<or> j = 2 * i + 2"
  unfolding parent_def by presburger

lemma parent_less: "0 < j \<Longrightarrow> parent j < j"
  unfolding parent_def by simp

context comparator
begin

lemma heap_top_greatest:
  assumes "is_heap lt xs" and "j < length xs"
  shows "\<not> lt (xs ! 0) (xs ! j)"
  using assms(2)
proof (induction j rule: less_induct)
  case (less j)
  show ?case
  proof (cases "j = 0")
    case True
    then show ?thesis by (simp add: cmp_irrefl)
  next
    case False
    then have "parent j < j" by (simp add: parent_less)
    with less have "\<not> lt (xs ! 0) (xs ! parent j)" by simp
    moreover have "\<not> lt (xs ! parent j) (xs ! j)" using assms(1) less.prems False by (simp add: is_heap_def)
    ultimately show ?thesis using le_trans by blast
  qed
qed

end

section \<open>Sifting\<close>

definition swap_items :: "nat \<Rightarrow> nat \<Rightarrow> 't list \<Rightarrow> 't list" where
  "swap_items i j xs = xs[i := xs ! j, j := xs ! i]"

lemma length_swap_items [simp]: "length (swap_items i j xs) = length xs"
  by (simp add: swap_items_def)

lemma mset_swap_items [simp]: "i < length xs \<Longrightarrow> j < length xs \<Longrightarrow> mset (swap_items i j xs) = mset xs"
  unfolding swap_items_def by (rule mset_swap)

lemma nth_swap_items: "i < length xs \<Longrightarrow> j < length xs \<Longrightarrow> k < length xs \<Longrightarrow>
  swap_items i j xs ! k = (if k = i then xs ! j else if k = j then xs ! i else xs ! k)"
  by (auto simp: swap_items_def nth_list_update)

function sift_up :: "('t \<Rightarrow> 't \<Rightarrow> bool) \<Rightarrow> nat \<Rightarrow> 't list \<Rightarrow> 't list" where
  "sift_up lt i xs = (if i > 0 \<and> lt (xs ! parent i) (xs ! i) then sift_up lt (parent i) (swap_items (parent i) i xs) else xs)"
  by pat_completeness auto
termination by (relation "measure (\<lambda>(lt, i, xs). i)") (auto simp: parent_less)

declare sift_up.simps [simp del]

definition greater_child :: "('t \<Rightarrow> 't \<Rightarrow> bool) \<Rightarrow> nat \<Rightarrow> nat \<Rightarrow> 't list \<Rightarrow> nat" where
  "greater_child lt n i xs = (if 2 * i + 2 < n \<and> lt (xs ! (2 * i + 1)) (xs ! (2 * i + 2)) then 2 * i + 2 else 2 * i + 1)"

function sift_down :: "('t \<Rightarrow> 't \<Rightarrow> bool) \<Rightarrow> nat \<Rightarrow> nat \<Rightarrow> 't list \<Rightarrow> 't list" where
  "sift_down lt n i xs =
     (if 2 * i + 1 < n \<and> lt (xs ! i) (xs ! greater_child lt n i xs)
      then sift_down lt n (greater_child lt n i xs) (swap_items i (greater_child lt n i xs) xs) else xs)"
  by pat_completeness auto
termination by (relation "measure (\<lambda>(lt, n, i, xs). n - i)") (auto simp: greater_child_def)

declare sift_down.simps [simp del]

fun make_heap_loop :: "('t \<Rightarrow> 't \<Rightarrow> bool) \<Rightarrow> nat \<Rightarrow> 't list \<Rightarrow> 't list" where
  "make_heap_loop lt 0 xs = xs"
| "make_heap_loop lt (Suc k) xs = make_heap_loop lt k (sift_down lt (length xs) k xs)"

definition sifting :: "('t \<Rightarrow> 't \<Rightarrow> bool) \<Rightarrow> 't std_heap" where
  "sifting lt = \<lparr>
     make_heap = (\<lambda>xs. make_heap_loop lt (length xs) xs),
     push_heap = (\<lambda>xs. sift_up lt (length xs - 1) xs),
     pop_heap = (\<lambda>xs. sift_down lt (length xs - 1) 0 (swap_items 0 (length xs - 1) xs))\<rparr>"

text \<open>The order holds from the node \<open>k\<close> on, among the first \<open>n\<close> elements.\<close>

definition heap_from :: "('t \<Rightarrow> 't \<Rightarrow> bool) \<Rightarrow> nat \<Rightarrow> nat \<Rightarrow> 't list \<Rightarrow> bool" where
  "heap_from lt k n xs = (\<forall>j<n. j > 0 \<longrightarrow> k \<le> parent j \<longrightarrow> \<not> lt (xs ! parent j) (xs ! j))"

text \<open>The same with a hole at \<open>i\<close>, whose children are not greater than its parent.\<close>

definition heap_hole :: "('t \<Rightarrow> 't \<Rightarrow> bool) \<Rightarrow> nat \<Rightarrow> nat \<Rightarrow> nat \<Rightarrow> 't list \<Rightarrow> bool" where
  "heap_hole lt k n i xs =
     ((\<forall>j<n. j > 0 \<longrightarrow> k \<le> parent j \<longrightarrow> parent j \<noteq> i \<longrightarrow> \<not> lt (xs ! parent j) (xs ! j)) \<and>
      (\<forall>j<n. j > 0 \<longrightarrow> parent j = i \<longrightarrow> i > 0 \<longrightarrow> k \<le> parent i \<longrightarrow> \<not> lt (xs ! parent i) (xs ! j)))"

lemma sift_down_length [simp]: "length (sift_down lt n i xs) = length xs"
  by (induction lt n i xs rule: sift_down.induct) (subst sift_down.simps, simp)

lemma greater_child_less: "2 * i + 1 < n \<Longrightarrow> greater_child lt n i xs < n"
  by (auto simp: greater_child_def)

lemma sift_down_mset: "n \<le> length xs \<Longrightarrow> i < length xs \<Longrightarrow> mset (sift_down lt n i xs) = mset xs"
proof (induction lt n i xs rule: sift_down.induct)
  case (1 lt n i xs)
  let ?c = "greater_child lt n i xs"
  show ?case
  proof (cases "2 * i + 1 < n \<and> lt (xs ! i) (xs ! ?c)")
    case True
    then have "?c < length xs" using greater_child_less [of i n lt xs] 1 by simp
    with 1 True show ?thesis by (subst sift_down.simps) simp
  next
    case False
    then show ?thesis by (subst sift_down.simps) (simp only: if_False)
  qed
qed

lemma sift_down_rest: "n \<le> length xs \<Longrightarrow> n \<le> k \<Longrightarrow> k < length xs \<Longrightarrow> sift_down lt n i xs ! k = xs ! k"
proof (induction lt n i xs rule: sift_down.induct)
  case (1 lt n i xs)
  let ?c = "greater_child lt n i xs"
  show ?case
  proof (cases "2 * i + 1 < n \<and> lt (xs ! i) (xs ! ?c)")
    case True
    then have "?c < n" "i < n" using greater_child_less [of i n lt xs] by simp_all
    with 1 True show ?thesis by (subst sift_down.simps) (simp add: nth_swap_items)
  next
    case False
    then show ?thesis by (subst sift_down.simps) (simp only: if_False)
  qed
qed

context comparator
begin

lemma sift_down_step:
  assumes hole: "heap_hole lt k n i xs" and "k \<le> i" and n: "n \<le> length xs"
    and c: "c = greater_child lt n i xs" and child: "2 * i + 1 < n" and greater: "lt (xs ! i) (xs ! c)"
  shows "heap_hole lt k n c (swap_items i c xs)"
proof -
  have cn: "c < n" using greater_child_less [OF child] c by simp
  have pc: "0 < c" "parent c = i" "i < c" using c by (auto simp: greater_child_def parent_def)
  have sw: "swap_items i c xs ! j = (if j = i then xs ! c else if j = c then xs ! i else xs ! j)" if "j < n" for j
    using that cn pc n by (simp add: nth_swap_items)
  have others: "\<not> lt (xs ! c) (xs ! j)" if "0 < j" "parent j = i" "j < n" for j
  proof -
    from that consider "j = 2 * i + 1" | "j = 2 * i + 2" by (auto simp: parent_eq)
    then show ?thesis using that c cmp_irrefl cmp_asym by cases (auto simp: greater_child_def)
  qed
  show ?thesis
    unfolding heap_hole_def
  proof (intro conjI allI impI)
    fix j assume j: "j < n" "0 < j" "k \<le> parent j" "parent j \<noteq> c"
    have pj: "parent j < n" using parent_less [of j] j by simp
    consider "j = c" | "j \<noteq> c" "parent j = i" | "j = i" "j \<noteq> c" | "j \<noteq> i" "parent j \<noteq> i" "j \<noteq> c" by blast
    then show "\<not> lt (swap_items i c xs ! parent j) (swap_items i c xs ! j)"
    proof cases
      case 1
      with pc greater sw [of i] sw [of c] cn show ?thesis using cmp_asym by auto
    next
      case 2
      then have "j \<noteq> i" using parent_less [of j] j by auto
      with 2 others [OF j(2) 2(2) j(1)] sw [OF j(1)] sw [of i] pj show ?thesis by simp
    next
      case 3
      then have "\<not> lt (xs ! parent i) (xs ! c)" using hole j pc cn by (auto simp: heap_hole_def)
      moreover have "parent i \<noteq> i" "parent i \<noteq> c" using parent_less [of i] 3 j by auto
      ultimately show ?thesis using 3 sw [OF j(1)] sw [OF pj] by simp
    next
      case 4
      with hole j have "\<not> lt (xs ! parent j) (xs ! j)" by (simp add: heap_hole_def)
      with 4 j sw [OF j(1)] sw [OF pj] show ?thesis by simp
    qed
  next
    fix j assume j: "j < n" "0 < j" "parent j = c" "0 < c" "k \<le> parent c"
    then have "j \<noteq> c" "j \<noteq> i" using parent_less [of j] pc by auto
    moreover have "\<not> lt (xs ! c) (xs ! j)" using hole j pc \<open>k \<le> i\<close> by (auto simp: heap_hole_def)
    ultimately show "\<not> lt (swap_items i c xs ! parent c) (swap_items i c xs ! j)" using j pc sw [of j] sw [of i] cn by simp
  qed
qed

lemma sift_down_heap:
  assumes "heap_hole lt k n i xs" and "k \<le> i" and "n \<le> length xs"
  shows "heap_from lt k n (sift_down lt n i xs)"
  using assms
proof (induction "n - i" arbitrary: i xs rule: less_induct)
  case less
  let ?c = "greater_child lt n i xs"
  show ?case
  proof (cases "2 * i + 1 < n \<and> lt (xs ! i) (xs ! ?c)")
    case True
    have c: "i < ?c" "?c < n" using True greater_child_less [of i n lt xs] by (auto simp: greater_child_def)
    have "heap_hole lt k n ?c (swap_items i ?c xs)" using sift_down_step [OF less.prems refl] True by blast
    with c less.hyps [of ?c "swap_items i ?c xs"] less.prems have "heap_from lt k n (sift_down lt n ?c (swap_items i ?c xs))" by simp
    with True show ?thesis by (subst sift_down.simps) simp
  next
    case False
    have "\<not> lt (xs ! i) (xs ! j)" if "0 < j" "parent j = i" "j < n" for j
    proof -
      from that consider "j = 2 * i + 1" | "j = 2 * i + 2" by (auto simp: parent_eq)
      then show ?thesis
      proof cases
        case 1
        with that False have "\<not> lt (xs ! i) (xs ! ?c)" by simp
        with 1 show ?thesis using cmp_trans by (auto simp: greater_child_def split: if_splits)
      next
        case 2
        with that False have "\<not> lt (xs ! i) (xs ! ?c)" by simp
        with 2 that show ?thesis using le_trans by (auto simp: greater_child_def split: if_splits)
      qed
    qed
    with less.prems(1) have "heap_from lt k n xs" by (auto simp: heap_hole_def heap_from_def)
    with False show ?thesis by (subst sift_down.simps) (simp only: if_False)
  qed
qed

lemma heap_from_0: "heap_from lt 0 (length xs) xs = is_heap lt xs"
  by (simp add: heap_from_def is_heap_def)

lemma make_heap_loop_heap:
  "heap_from lt k (length xs) xs \<Longrightarrow> k \<le> length xs \<Longrightarrow>
     is_heap lt (make_heap_loop lt k xs) \<and> mset (make_heap_loop lt k xs) = mset xs"
proof (induction k arbitrary: xs)
  case 0
  then show ?case by (simp add: heap_from_0)
next
  case (Suc k)
  have "heap_hole lt k (length xs) k xs"
    using Suc.prems(1) parent_less [of k] by (fastforce simp: heap_hole_def heap_from_def)
  from sift_down_heap [OF this] have "heap_from lt k (length xs) (sift_down lt (length xs) k xs)" by simp
  with Suc.IH [of "sift_down lt (length xs) k xs"] Suc.prems(2) show ?case by (simp add: sift_down_mset)
qed

text \<open>A new last element rises: the order holds everywhere but above \<open>i\<close>.\<close>

lemma sift_up_heap:
  assumes "i < length xs"
    and "\<And>j. j < length xs \<Longrightarrow> 0 < j \<Longrightarrow> j \<noteq> i \<Longrightarrow> \<not> lt (xs ! parent j) (xs ! j)"
    and "\<And>j. j < length xs \<Longrightarrow> 0 < j \<Longrightarrow> parent j = i \<Longrightarrow> 0 < i \<Longrightarrow> \<not> lt (xs ! parent i) (xs ! j)"
  shows "is_heap lt (sift_up lt i xs) \<and> mset (sift_up lt i xs) = mset xs"
  using assms
proof (induction i arbitrary: xs rule: less_induct)
  case (less i)
  let ?p = "parent i"
  show ?case
  proof (cases "i > 0 \<and> lt (xs ! ?p) (xs ! i)")
    case True
    let ?ys = "swap_items ?p i xs"
    have p: "?p < i" using True by (simp add: parent_less)
    have sw: "?ys ! j = (if j = ?p then xs ! i else if j = i then xs ! ?p else xs ! j)" if "j < length xs" for j
      using that less.prems(1) p by (simp add: nth_swap_items)
    have up: "\<not> lt (xs ! parent ?p) (xs ! ?p)" if "0 < ?p"
      using less.prems(2) [of ?p] that p less.prems(1) by simp
    have "is_heap lt (sift_up lt ?p ?ys) \<and> mset (sift_up lt ?p ?ys) = mset ?ys"
    proof (rule less.IH [OF p])
      show "?p < length ?ys" using p less.prems(1) by simp
    next
      fix j assume j: "j < length ?ys" "0 < j" "j \<noteq> ?p"
      then have pj: "parent j < length xs" "parent j \<noteq> j" using parent_less [of j] by auto
      consider "j = i" | "j \<noteq> i" "parent j = ?p" | "parent j = i" | "j \<noteq> i" "parent j \<noteq> ?p" "parent j \<noteq> i" by blast
      then show "\<not> lt (?ys ! parent j) (?ys ! j)"
      proof cases
        case 1
        with p True sw [of i] sw [of ?p] less.prems(1) cmp_asym show ?thesis by auto
      next
        case 2
        with less.prems(2) [of j] j have "\<not> lt (xs ! ?p) (xs ! j)" by simp
        then have "\<not> lt (xs ! i) (xs ! j)" using True le_trans cmp_asym by blast
        with 2 j p sw [of j] sw [of ?p] less.prems(1) show ?thesis by simp
      next
        case 3
        then have "\<not> lt (xs ! ?p) (xs ! j)" using less.prems(3) [of j] j True by simp
        moreover have "j \<noteq> i" using 3 pj by simp
        ultimately show ?thesis using 3 j p sw [of j] sw [of i] less.prems(1) by simp
      next
        case 4
        with less.prems(2) [of j] j have "\<not> lt (xs ! parent j) (xs ! j)" by simp
        with 4 j pj sw [of j] sw [of "parent j"] show ?thesis by simp
      qed
    next
      fix j assume j: "j < length ?ys" "0 < j" "parent j = ?p" "0 < ?p"
      then have jp: "j \<noteq> ?p" using parent_less [of j] by auto
      have pp: "parent ?p < ?p" using j by (simp add: parent_less)
      have "\<not> lt (xs ! parent ?p) (?ys ! j)"
      proof (cases "j = i")
        case True
        with up j sw [of i] p less.prems(1) show ?thesis by simp
      next
        case False
        with less.prems(2) [of j] j have "\<not> lt (xs ! ?p) (xs ! j)" by simp
        with up j have "\<not> lt (xs ! parent ?p) (xs ! j)" using le_trans by blast
        with False jp j sw [of j] show ?thesis by simp
      qed
      with sw [of "parent ?p"] pp p less.prems(1) show "\<not> lt (?ys ! parent ?p) (?ys ! j)" by simp
    qed
    moreover have "mset ?ys = mset xs" using p less.prems(1) by simp
    ultimately show ?thesis using True by (subst (1 2) sift_up.simps) simp
  next
    case False
    have "\<not> lt (xs ! parent j) (xs ! j)" if "j < length xs" "0 < j" for j
      using less.prems(2) [OF that] False that by (cases "j = i") auto
    then have "is_heap lt xs" by (simp add: is_heap_def)
    with False show ?thesis by (subst (1 2) sift_up.simps) (simp only: if_False simp_thms)
  qed
qed

lemma is_heap_butlast: "is_heap lt (butlast xs) = heap_from lt 0 (length xs - 1) xs"
proof -
  have "butlast xs ! parent j = xs ! parent j" "butlast xs ! j = xs ! j" if "j < length xs - 1" "0 < j" for j
    using parent_less [of j] that by (simp_all add: nth_butlast)
  then show ?thesis by (auto simp: is_heap_def heap_from_def)
qed

lemma swapped_hole:
  assumes "is_heap lt xs" and "xs \<noteq> []"
  shows "heap_hole lt 0 (length xs - 1) 0 (swap_items 0 (length xs - 1) xs)"
proof -
  have "\<not> lt (swap_items 0 (length xs - 1) xs ! parent j) (swap_items 0 (length xs - 1) xs ! j)"
    if "j < length xs - 1" "0 < j" "parent j \<noteq> 0" for j
    using assms that parent_less [of j] by (simp add: is_heap_def nth_swap_items)
  then show ?thesis by (simp add: heap_hole_def)
qed

lemma sifting_pop:
  assumes "xs \<noteq> []" and "is_heap lt xs"
  shows "mset (pop_heap (sifting lt) xs) = mset xs" and "is_heap lt (butlast (pop_heap (sifting lt) xs))"
    and "last (pop_heap (sifting lt) xs) = hd xs"
proof -
  let ?n = "length xs - 1" and ?ys = "swap_items 0 (length xs - 1) xs"
  have n: "?n < length xs" "0 < length xs" using assms(1) by auto
  have pop: "pop_heap (sifting lt) xs = sift_down lt ?n 0 ?ys" by (simp add: sifting_def)
  show "mset (pop_heap (sifting lt) xs) = mset xs" unfolding pop using n by (simp add: sift_down_mset)
  have "sift_down lt ?n 0 ?ys ! ?n = ?ys ! ?n" using n by (intro sift_down_rest) simp_all
  also have "\<dots> = xs ! 0" using n by (simp add: nth_swap_items)
  finally show "last (pop_heap (sifting lt) xs) = hd xs"
    unfolding pop using n by (metis assms(1) hd_conv_nth last_conv_nth length_0_conv length_swap_items sift_down_length)
  from sift_down_heap [OF swapped_hole [OF assms(2,1)]] show "is_heap lt (butlast (pop_heap (sifting lt) xs))"
    unfolding pop is_heap_butlast by simp
qed

lemma sifting_push:
  assumes "xs \<noteq> []" and "is_heap lt (butlast xs)"
  shows "is_heap lt (push_heap (sifting lt) xs) \<and> mset (push_heap (sifting lt) xs) = mset xs"
proof -
  have n: "length xs - 1 < length xs" using assms(1) by simp
  have "\<not> lt (xs ! parent j) (xs ! j)" if "j < length xs" "0 < j" "j \<noteq> length xs - 1" for j
    using assms(2) that unfolding is_heap_butlast by (simp add: heap_from_def)
  moreover have "parent j \<noteq> length xs - 1" if "j < length xs" "0 < j" for j
    using parent_less [of j] that by simp
  ultimately have "is_heap lt (sift_up lt (length xs - 1) xs) \<and> mset (sift_up lt (length xs - 1) xs) = mset xs"
    using n by (intro sift_up_heap) auto
  then show ?thesis by (simp add: sifting_def)
qed

lemma sifting_algorithms: "heap_algorithms lt (sifting lt)"
proof unfold_locales
  fix xs :: "'k list"
  have "heap_from lt (length xs) (length xs) xs"
    unfolding heap_from_def using parent_less by (metis leD less_trans)
  from make_heap_loop_heap [OF this]
  show "mset (make_heap (sifting lt) xs) = mset xs" "is_heap lt (make_heap (sifting lt) xs)" by (simp_all add: sifting_def)
qed (simp_all add: sifting_pop sifting_push)

end

lemma less_strict_weak: "strict_weak_order ((<) :: 'a::linorder \<Rightarrow> 'a \<Rightarrow> bool)"
  by (auto simp: strict_weak_order_def)

interpretation sifting: heap_algorithms "(<) :: 'a::linorder \<Rightarrow> 'a \<Rightarrow> bool" "sifting (<)"
  by (rule comparator.sifting_algorithms) (simp add: comparator_def less_strict_weak)

end
