(* ===== verification/Heap_Queue.thy ===== *)
theory Heap_Queue
  imports Std_Heap Xtl_Prelude
begin

text \<open>
  The heaps of \<^verbatim>\<open>utils/Heap.hpp\<close>: a vector that is made a heap only when its greatest element is asked for, and a heap of limited size
  that keeps the smallest elements. The algorithms of the standard library are the parameter \<open>alg\<close>.
\<close>

section \<open>Heap\<close>

definition Inverse :: "('t \<Rightarrow> 't \<Rightarrow> bool) \<Rightarrow> 't \<Rightarrow> 't \<Rightarrow> bool" where
  "Inverse lt left right = lt right left"

record 't Heap =
  heap_items :: "'t list"
  heapified :: bool

definition Heap_new :: "'t Heap" where "Heap_new = \<lparr>heap_items = [], heapified = True\<rparr>"

definition Heap_Empty :: "'t Heap \<Rightarrow> bool" where "Heap_Empty h = (heap_items h = [])"

definition Heap_Size :: "'t Heap \<Rightarrow> UINT_32" where "Heap_Size h = of_nat (length (heap_items h))"

text \<open>\<open>None\<close> is an access outside of the vector, which is undefined in C++.\<close>

definition Heap_at :: "'t Heap \<Rightarrow> UINT_32 \<Rightarrow> 't option" where
  "Heap_at h index = (if unat index < length (heap_items h) then Some (heap_items h ! unat index) else None)"

definition Heap_PushBack :: "'t \<Rightarrow> 't Heap \<Rightarrow> 't Heap" where
  "Heap_PushBack v h = h\<lparr>heap_items := heap_items h @ [v], heapified := False\<rparr>"

definition Heap_Push :: "'t std_heap \<Rightarrow> 't \<Rightarrow> 't Heap \<Rightarrow> 't Heap" where
  "Heap_Push alg v h =
     (let h = h\<lparr>heap_items := heap_items h @ [v]\<rparr> in
      if heapified h then h\<lparr>heap_items := push_heap alg (heap_items h)\<rparr> else h)"

definition Heapify :: "'t std_heap \<Rightarrow> 't Heap \<Rightarrow> 't Heap" where
  "Heapify alg h = (if heapified h then h else h\<lparr>heap_items := make_heap alg (heap_items h), heapified := True\<rparr>)"

definition Heap_Top :: "'t std_heap \<Rightarrow> 't Heap \<Rightarrow> ('t \<times> 't Heap) option" where
  "Heap_Top alg h = (let h = Heapify alg h in if heap_items h = [] then None else Some (hd (heap_items h), h))"

definition Heap_Pop :: "'t std_heap \<Rightarrow> 't Heap \<Rightarrow> 't Heap option" where
  "Heap_Pop alg h =
     (let h = Heapify alg h in
      if heap_items h = [] then None else Some (h\<lparr>heap_items := butlast (pop_heap alg (heap_items h))\<rparr>))"

section \<open>Limited heap\<close>

record 't LimitedHeap =
  capacity :: UINT_32
  limited_heap :: "'t Heap"

definition LimitedHeap_new :: "UINT_32 \<Rightarrow> 't LimitedHeap" where
  "LimitedHeap_new c = \<lparr>capacity = c, limited_heap = Heap_new\<rparr>"

definition LimitedHeap_Capacity :: "'t LimitedHeap \<Rightarrow> UINT_32" where "LimitedHeap_Capacity l = capacity l"

definition LimitedHeap_Size :: "'t LimitedHeap \<Rightarrow> UINT_32" where "LimitedHeap_Size l = Heap_Size (limited_heap l)"

definition LimitedHeap_Empty :: "'t LimitedHeap \<Rightarrow> bool" where "LimitedHeap_Empty l = Heap_Empty (limited_heap l)"

definition LimitedHeap_Push :: "'t std_heap \<Rightarrow> ('t \<Rightarrow> 't \<Rightarrow> bool) \<Rightarrow> 't \<Rightarrow> 't LimitedHeap \<Rightarrow> 't LimitedHeap option" where
  "LimitedHeap_Push alg lt v l =
     (if Heap_Size (limited_heap l) < capacity l then Some (l\<lparr>limited_heap := Heap_Push alg v (limited_heap l)\<rparr>)
      else case Heap_Top alg (limited_heap l) of None \<Rightarrow> None
        | Some (t, h) \<Rightarrow>
            if lt v t then
              (case Heap_Pop alg h of None \<Rightarrow> None | Some h \<Rightarrow> Some (l\<lparr>limited_heap := Heap_Push alg v h\<rparr>))
            else Some (l\<lparr>limited_heap := h\<rparr>))"

definition LimitedHeap_Top :: "'t std_heap \<Rightarrow> 't LimitedHeap \<Rightarrow> ('t \<times> 't LimitedHeap) option" where
  "LimitedHeap_Top alg l =
     (case Heap_Top alg (limited_heap l) of None \<Rightarrow> None | Some (t, h) \<Rightarrow> Some (t, l\<lparr>limited_heap := h\<rparr>))"

definition LimitedHeap_Pop :: "'t std_heap \<Rightarrow> 't LimitedHeap \<Rightarrow> 't LimitedHeap option" where
  "LimitedHeap_Pop alg l =
     (case Heap_Pop alg (limited_heap l) of None \<Rightarrow> None | Some h \<Rightarrow> Some (l\<lparr>limited_heap := h\<rparr>))"

section \<open>Heaps as multisets\<close>

definition heap_ok :: "('t \<Rightarrow> 't \<Rightarrow> bool) \<Rightarrow> 't Heap \<Rightarrow> bool" where
  "heap_ok lt h = (heapified h \<longrightarrow> is_heap lt (heap_items h))"

abbreviation heap_mset :: "'t Heap \<Rightarrow> 't multiset" where "heap_mset h \<equiv> mset (heap_items h)"

lemma Heap_new_ok: "heap_ok lt Heap_new" "heap_mset Heap_new = {#}"
  by (simp_all add: heap_ok_def Heap_new_def is_heap_def)

context heap_algorithms
begin

lemma PushBack_ok: "heap_ok lt (Heap_PushBack v h) \<and> heap_mset (Heap_PushBack v h) = add_mset v (heap_mset h)"
  by (simp add: heap_ok_def Heap_PushBack_def)

lemma Push_ok:
  "heap_ok lt h \<Longrightarrow> heap_ok lt (Heap_Push alg v h) \<and> heap_mset (Heap_Push alg v h) = add_mset v (heap_mset h)"
  by (auto simp: heap_ok_def Heap_Push_def Let_def push_heap_mset push_heap_heap)

lemma Push_length: "heap_ok lt h \<Longrightarrow> length (heap_items (Heap_Push alg v h)) = Suc (length (heap_items h))"
  using Push_ok [of h v] by (metis size_add_mset size_mset)

lemma Heapify_ok:
  "heap_ok lt h \<Longrightarrow> heap_ok lt (Heapify alg h) \<and> heapified (Heapify alg h) \<and> heap_mset (Heapify alg h) = heap_mset h"
  by (auto simp: heap_ok_def Heapify_def make_heap_mset make_heap_heap)

lemma is_heap_greatest:
  assumes "is_heap lt xs" and "x \<in> set xs"
  shows "\<not> lt (hd xs) x"
proof -
  obtain j where "j < length xs" "xs ! j = x" using assms(2) by (auto simp: in_set_conv_nth)
  with heap_top_greatest [OF assms(1)] show ?thesis by (cases xs) auto
qed

lemma Top_ok:
  assumes "heap_ok lt h" and "heap_mset h \<noteq> {#}"
  obtains t h' where "Heap_Top alg h = Some (t, h')" and "heap_ok lt h'" and "heap_mset h' = heap_mset h"
    and "t \<in># heap_mset h" and "\<forall>x\<in>#heap_mset h. \<not> lt t x" and "Heap_Pop alg h' = Heap_Pop alg h"
proof
  let ?h = "Heapify alg h"
  note ok = Heapify_ok [OF assms(1)]
  have ne: "heap_items ?h \<noteq> []" using ok assms(2) by auto
  then show "Heap_Top alg h = Some (hd (heap_items ?h), ?h)" by (simp add: Heap_Top_def Let_def)
  show "heap_ok lt ?h" "heap_mset ?h = heap_mset h" using ok by simp_all
  show "hd (heap_items ?h) \<in># heap_mset h" using ok ne by (metis hd_in_set set_mset_mset)
  have "is_heap lt (heap_items ?h)" using ok by (simp add: heap_ok_def)
  then show "\<forall>x\<in>#heap_mset h. \<not> lt (hd (heap_items ?h)) x" using ok is_heap_greatest by (metis set_mset_mset)
  show "Heap_Pop alg ?h = Heap_Pop alg h" using ok by (simp add: Heap_Pop_def Heapify_def)
qed

text \<open>\<^verbatim>\<open>Pop\<close> removes the element that \<^verbatim>\<open>Top\<close> returns.\<close>

lemma Pop_ok:
  assumes "heap_ok lt h" and "Heap_Top alg h = Some (t, h1)"
  obtains h' where "Heap_Pop alg h = Some h'" and "heap_ok lt h'" and "heap_mset h = add_mset t (heap_mset h')"
proof
  let ?xs = "heap_items (Heapify alg h)"
  note ok = Heapify_ok [OF assms(1)]
  from assms(2) have ne: "?xs \<noteq> []" and t: "t = hd ?xs" by (auto simp: Heap_Top_def Let_def split: if_splits)
  have heap: "is_heap lt ?xs" using ok by (simp add: heap_ok_def)
  show "Heap_Pop alg h = Some ((Heapify alg h)\<lparr>heap_items := butlast (pop_heap alg ?xs)\<rparr>)"
    using ne by (simp add: Heap_Pop_def Let_def)
  show "heap_ok lt ((Heapify alg h)\<lparr>heap_items := butlast (pop_heap alg ?xs)\<rparr>)"
    using pop_heap_heap [OF ne heap] by (simp add: heap_ok_def)
  have "pop_heap alg ?xs \<noteq> []" using pop_heap_mset [OF ne heap] ne by auto
  then have "pop_heap alg ?xs = butlast (pop_heap alg ?xs) @ [t]"
    using pop_heap_last [OF ne heap] t by (metis append_butlast_last_id)
  then have "mset (pop_heap alg ?xs) = add_mset t (mset (butlast (pop_heap alg ?xs)))"
    by (metis mset.simps(1) mset.simps(2) mset_append union_mset_add_mset_right add.right_neutral)
  then show "heap_mset h = add_mset t (heap_mset ((Heapify alg h)\<lparr>heap_items := butlast (pop_heap alg ?xs)\<rparr>))"
    using pop_heap_mset [OF ne heap] ok by simp
qed

end

section \<open>Filling and emptying\<close>

text \<open>A program that fills a heap, by \<^verbatim>\<open>Push\<close> or \<^verbatim>\<open>PushBack\<close>, and one that takes \<open>n\<close> elements out.\<close>

definition fill :: "'t std_heap \<Rightarrow> (bool \<times> 't) list \<Rightarrow> 't Heap \<Rightarrow> 't Heap" where
  "fill alg vs h = fold (\<lambda>(back, v). if back then Heap_PushBack v else Heap_Push alg v) vs h"

fun drain :: "'t std_heap \<Rightarrow> nat \<Rightarrow> 't Heap \<Rightarrow> ('t list \<times> 't Heap) option" where
  "drain alg 0 h = Some ([], h)"
| "drain alg (Suc n) h = (case Heap_Top alg h of None \<Rightarrow> None | Some (t, h) \<Rightarrow>
     (case Heap_Pop alg h of None \<Rightarrow> None | Some h \<Rightarrow>
       (case drain alg n h of None \<Rightarrow> None | Some (ts, h) \<Rightarrow> Some (t # ts, h))))"

context heap_algorithms
begin

lemma fill_ok:
  "heap_ok lt h \<Longrightarrow> heap_ok lt (fill alg vs h) \<and> heap_mset (fill alg vs h) = heap_mset h + mset (map snd vs)"
proof (induction vs arbitrary: h)
  case (Cons v vs)
  define h' where "h' = (if fst v then Heap_PushBack (snd v) h else Heap_Push alg (snd v) h)"
  have "heap_ok lt h' \<and> heap_mset h' = add_mset (snd v) (heap_mset h)"
    using Cons.prems PushBack_ok Push_ok by (simp add: h'_def)
  moreover have "fill alg (v # vs) h = fill alg vs h'" by (simp add: fill_def h'_def split: prod.splits)
  ultimately show ?case using Cons.IH [of h'] by simp
qed (simp add: fill_def)

lemma drain_ok:
  "heap_ok lt h \<Longrightarrow> n \<le> size (heap_mset h) \<Longrightarrow>
     \<exists>ts h'. drain alg n h = Some (ts, h') \<and> heap_ok lt h' \<and> heap_mset h = mset ts + heap_mset h' \<and> length ts = n \<and>
       sorted_wrt (\<lambda>a b. \<not> lt a b) ts \<and> (\<forall>a\<in>set ts. \<forall>b\<in>#heap_mset h'. \<not> lt a b)"
proof (induction n arbitrary: h)
  case (Suc n)
  from Suc.prems(2) have "heap_mset h \<noteq> {#}" by auto
  from Top_ok [OF Suc.prems(1) this] obtain t h1 where top: "Heap_Top alg h = Some (t, h1)" "heap_ok lt h1"
    "heap_mset h1 = heap_mset h" "\<forall>x\<in>#heap_mset h. \<not> lt t x" "Heap_Pop alg h1 = Heap_Pop alg h" by metis
  from Pop_ok [OF Suc.prems(1) top(1)] obtain h2 where pop: "Heap_Pop alg h = Some h2" "heap_ok lt h2"
    "heap_mset h = add_mset t (heap_mset h2)" by metis
  from Suc.IH [OF pop(2)] Suc.prems(2) pop(3) obtain ts h' where rest: "drain alg n h2 = Some (ts, h')" "heap_ok lt h'"
    "heap_mset h2 = mset ts + heap_mset h'" "length ts = n" "sorted_wrt (\<lambda>a b. \<not> lt a b) ts"
    "\<forall>a\<in>set ts. \<forall>b\<in>#heap_mset h'. \<not> lt a b" by auto
  have "drain alg (Suc n) h = Some (t # ts, h')" using top pop rest by simp
  moreover have "\<forall>b\<in>set ts \<union> set_mset (heap_mset h'). \<not> lt t b" using top(4) pop(3) rest(3) by auto
  ultimately show ?case using rest pop(3) by auto
qed auto

lemma Heap_Size_small: "length (heap_items h) < 2 ^ 32 \<Longrightarrow> unat (Heap_Size h) = length (heap_items h)"
  by (simp add: Heap_Size_def unsigned_of_nat take_bit_nat_eq_self)

text \<open>What a limited heap keeps after \<open>seen\<close>: as many as it may, and none that is greater than one it dropped.\<close>

definition keeps_smallest :: "'t LimitedHeap \<Rightarrow> 't multiset \<Rightarrow> bool" where
  "keeps_smallest l seen = (heap_ok lt (limited_heap l) \<and>
     size (heap_mset (limited_heap l)) = min (unat (capacity l)) (size seen) \<and>
     (\<exists>dropped. seen = heap_mset (limited_heap l) + dropped \<and>
        (\<forall>x\<in>#heap_mset (limited_heap l). \<forall>y\<in>#dropped. \<not> lt y x)))"

lemma LimitedHeap_Push_ok:
  assumes keeps: "keeps_smallest l seen" and pos: "0 < capacity l"
  shows "\<exists>l'. LimitedHeap_Push alg lt v l = Some l' \<and> capacity l' = capacity l \<and> keeps_smallest l' (add_mset v seen)"
proof -
  let ?h = "limited_heap l" and ?M = "heap_mset (limited_heap l)"
  from keeps obtain dropped where ok: "heap_ok lt ?h" and size: "size ?M = min (unat (capacity l)) (size seen)"
    and seen: "seen = ?M + dropped" and least: "\<forall>x\<in>#?M. \<forall>y\<in>#dropped. \<not> lt y x"
    unfolding keeps_smallest_def by blast
  have "length (heap_items ?h) \<le> unat (capacity l)" using size by simp
  then have "length (heap_items ?h) < 2 ^ 32" using unsigned_less [of "capacity l", where ?'a = nat] by simp
  then have less: "Heap_Size ?h < capacity l \<longleftrightarrow> size ?M < unat (capacity l)"
    by (simp add: word_less_nat_alt Heap_Size_small)
  show ?thesis
  proof (cases "Heap_Size ?h < capacity l")
    case True
    then have "size ?M < unat (capacity l)" using less by blast
    with size seen have "dropped = {#}" "size seen < unat (capacity l)" by (auto simp: min_def split: if_splits)
    with True Push_ok [OF ok, of v] Push_length [OF ok, of v] size seen show ?thesis
      by (auto simp: LimitedHeap_Push_def keeps_smallest_def)
  next
    case False
    then have full: "size ?M = unat (capacity l)" "unat (capacity l) \<le> size seen" using size less by auto
    have "unat (capacity l) \<noteq> 0" using pos by (simp add: word_less_nat_alt)
    with full have "?M \<noteq> {#}" by auto
    from Top_ok [OF ok this] obtain t h1 where top: "Heap_Top alg ?h = Some (t, h1)" "heap_ok lt h1"
      "heap_mset h1 = ?M" "t \<in># ?M" "\<forall>x\<in>#?M. \<not> lt t x" "Heap_Pop alg h1 = Heap_Pop alg ?h" by metis
    show ?thesis
    proof (cases "lt v t")
      case smaller: True
      from Pop_ok [OF ok top(1)] obtain h2 where pop: "Heap_Pop alg ?h = Some h2" "heap_ok lt h2"
        "?M = add_mset t (heap_mset h2)" by metis
      let ?l = "l\<lparr>limited_heap := Heap_Push alg v h2\<rparr>"
      have push: "LimitedHeap_Push alg lt v l = Some ?l" using False smaller top(1,6) pop(1) by (simp add: LimitedHeap_Push_def)
      have M: "heap_ok lt (limited_heap ?l)" "heap_mset (limited_heap ?l) = add_mset v (heap_mset h2)"
        using Push_ok [OF pop(2), of v] by simp_all
      have "\<not> lt y v" if "y \<in># dropped" for y
        using least top(4) that smaller cmp_trans by blast
      moreover have "\<not> lt t v" using smaller cmp_asym by blast
      ultimately have "\<forall>x\<in>#heap_mset (limited_heap ?l). \<forall>y\<in>#add_mset t dropped. \<not> lt y x"
        using least top(5) pop(3) M(2) by auto
      moreover have "add_mset v seen = heap_mset (limited_heap ?l) + add_mset t dropped" using seen pop(3) M(2) by simp
      moreover have "size (heap_mset (limited_heap ?l)) = min (unat (capacity ?l)) (size (add_mset v seen))"
        using M(2) full pop(3) by simp
      ultimately have "keeps_smallest ?l (add_mset v seen)" unfolding keeps_smallest_def using M(1) by blast
      with push show ?thesis by auto
    next
      case larger: False
      let ?l = "l\<lparr>limited_heap := h1\<rparr>"
      have push: "LimitedHeap_Push alg lt v l = Some ?l" using False larger top(1) by (simp add: LimitedHeap_Push_def)
      have "\<forall>x\<in>#?M. \<not> lt v x" using larger top(5) le_trans by blast
      then have "\<forall>x\<in>#heap_mset (limited_heap ?l). \<forall>y\<in>#add_mset v dropped. \<not> lt y x" using least top(3) by auto
      moreover have "add_mset v seen = heap_mset (limited_heap ?l) + add_mset v dropped" using seen top(3) by simp
      moreover have "size (heap_mset (limited_heap ?l)) = min (unat (capacity ?l)) (size (add_mset v seen))"
        using full top(3) by simp
      ultimately have "keeps_smallest ?l (add_mset v seen)" unfolding keeps_smallest_def using top(2) by auto
      with push show ?thesis by auto
    qed
  qed
qed

lemma LimitedHeap_history:
  "keeps_smallest l seen \<Longrightarrow> 0 < capacity l \<Longrightarrow>
     \<exists>l'. fold_option (LimitedHeap_Push alg lt) vs l = Some l' \<and> capacity l' = capacity l \<and> keeps_smallest l' (seen + mset vs)"
proof (induction vs arbitrary: l seen)
  case (Cons v vs)
  from LimitedHeap_Push_ok [OF Cons.prems, of v] obtain l' where "LimitedHeap_Push alg lt v l = Some l'"
    "capacity l' = capacity l" "keeps_smallest l' (add_mset v seen)" by blast
  with Cons.IH [of l' "add_mset v seen"] Cons.prems(2) show ?case by simp
qed auto

lemma drains_in_order:
  "\<exists>ts h. drain alg (length vs) (fill alg vs Heap_new) = Some (ts, h) \<and> mset ts = mset (map snd vs) \<and>
    sorted_wrt (\<lambda>a b. \<not> lt a b) ts \<and> Heap_Empty h"
proof -
  have "heap_ok lt (fill alg vs Heap_new)" and M: "heap_mset (fill alg vs Heap_new) = mset (map snd vs)"
    using fill_ok [OF Heap_new_ok(1), of vs] Heap_new_ok(2) by simp_all
  from drain_ok [OF this(1), of "length vs"] M obtain ts h where drained: "drain alg (length vs) (fill alg vs Heap_new) = Some (ts, h)"
    "mset (map snd vs) = mset ts + heap_mset h" "length ts = length vs" "sorted_wrt (\<lambda>a b. \<not> lt a b) ts" by auto
  then have "size (mset (map snd vs)) = length ts + size (heap_mset h)" by (metis size_mset size_union)
  with drained(3) have "heap_items h = []" by simp
  with drained show ?thesis by (auto simp: Heap_Empty_def)
qed

lemma keeps_smallest_history:
  assumes "0 < c"
  shows "\<exists>l dropped. fold_option (LimitedHeap_Push alg lt) vs (LimitedHeap_new c) = Some l \<and>
    length (heap_items (limited_heap l)) = min (unat c) (length vs) \<and>
    mset vs = heap_mset (limited_heap l) + dropped \<and>
    (\<forall>x\<in>#heap_mset (limited_heap l). \<forall>y\<in>#dropped. \<not> lt y x)"
proof -
  have "keeps_smallest (LimitedHeap_new c) {#}"
    using Heap_new_ok by (auto simp: keeps_smallest_def LimitedHeap_new_def)
  from LimitedHeap_history [OF this, of vs] assms obtain l where
    "fold_option (LimitedHeap_Push alg lt) vs (LimitedHeap_new c) = Some l" "capacity l = c" "keeps_smallest l (mset vs)"
    by (auto simp: LimitedHeap_new_def)
  then show ?thesis by (auto simp: keeps_smallest_def)
qed

end

section \<open>Properties\<close>

text \<open>Sorting with a heap: whatever mixture of \<^verbatim>\<open>Push\<close> and \<^verbatim>\<open>PushBack\<close> fills a heap, taking the tops out returns all its elements in
  descending order and leaves it empty, for every implementation of the algorithms that keeps the promises of the standard.\<close>

theorem Heap_drains_in_order:
  assumes "heap_algorithms lt alg"
  shows "\<exists>ts h. drain alg (length vs) (fill alg vs Heap_new) = Some (ts, h) \<and> mset ts = mset (map snd vs) \<and>
    sorted_wrt (\<lambda>a b. \<not> lt a b) ts \<and> Heap_Empty h"
  by (rule heap_algorithms.drains_in_order [OF assms])

theorem Heap_drains_in_order_witness:
  "\<exists>ts h. drain (sifting (<)) 3 (fill (sifting (<)) [(True, 1), (False, 3), (True, 2 :: int)] Heap_new) = Some (ts, h) \<and>
    mset ts = {#1, 2, 3#} \<and> sorted_wrt (\<lambda>a b. \<not> a < b) ts"
  using Heap_drains_in_order [OF sifting.heap_algorithms_axioms, of "[(True, 1), (False, 3), (True, 2 :: int)]"]
  by (auto simp: numeral_eq_Suc add_mset_commute)

text \<open>C15. A limited heap with room for at least one element keeps the smallest elements: after any sequence of pushes it holds as many as it
  may, together with the dropped ones they are what was pushed, and no dropped element is smaller than a kept one.\<close>

theorem LimitedHeap_keeps_smallest:
  assumes "heap_algorithms lt alg" and "0 < c"
  shows "\<exists>l dropped. fold_option (LimitedHeap_Push alg lt) vs (LimitedHeap_new c) = Some l \<and>
    length (heap_items (limited_heap l)) = min (unat c) (length vs) \<and>
    mset vs = heap_mset (limited_heap l) + dropped \<and>
    (\<forall>x\<in>#heap_mset (limited_heap l). \<forall>y\<in>#dropped. \<not> lt y x)"
  by (rule heap_algorithms.keeps_smallest_history [OF assms])

theorem LimitedHeap_keeps_smallest_witness:
  "\<exists>l. fold_option (LimitedHeap_Push (sifting (<)) (<)) [5, 1, 4, 2 :: int] (LimitedHeap_new 2) = Some l \<and>
    length (heap_items (limited_heap l)) = 2"
  using LimitedHeap_keeps_smallest [OF sifting.heap_algorithms_axioms, of 2 "[5, 1, 4, 2 :: int]"] by auto

text \<open>A limited heap of capacity 0 asks for the top of an empty vector at its first push.\<close>

lemma LimitedHeap_zero: "LimitedHeap_Push (sifting lt) lt v (LimitedHeap_new 0) = None"
  by (simp add: LimitedHeap_Push_def LimitedHeap_new_def Heap_Top_def Heap_new_def Heapify_def)

end
