(* ===== verification/String_Matcher.thy ===== *)
theory String_Matcher
  imports Text_Parser String_Utils
begin

text \<open>
  The templates of \<^verbatim>\<open>utils/SimpleStringMatcher\<close>: a template is parsed into a list of nodes, and matching runs the nodes on a source.
  Numbers of submatches are natural numbers; a template has fewer than \<open>2 ^ 32\<close> characters.
\<close>

section \<open>Submatches\<close>

datatype matcher_error = ParseError string | RuntimeErr string | SourceError tp_error | NullContext

record Submatch =
  sub_begin :: INT_32
  sub_end :: INT_32

definition Submatch_new :: Submatch where "Submatch_new = \<lparr>sub_begin = -1, sub_end = -1\<rparr>"

definition SetBegin :: "INT_32 \<Rightarrow> Submatch \<Rightarrow> Submatch" where "SetBegin p m = m\<lparr>sub_begin := p\<rparr>"

definition SetEnd :: "INT_32 \<Rightarrow> Submatch \<Rightarrow> Submatch" where "SetEnd p m = m\<lparr>sub_end := p\<rparr>"

text \<open>\<open>Inr None\<close> is \<^verbatim>\<open>false\<close>; the copy of a range outside of \<open>subject\<close> is undefined.\<close>

definition Extract :: "string \<Rightarrow> Submatch \<Rightarrow> matcher_error + string option" where
  "Extract subject m =
     (if sint (sub_begin m) < 0 \<or> sint (sub_end m) < 0 then Inr None
      else if sub_begin m \<le> sub_end m \<and> unat (sub_end m) \<le> length subject
      then Inr (Some (drop (unat (sub_begin m)) (take (unat (sub_end m)) subject)))
      else Inl (SourceError OutOfBounds))"

type_synonym Context = "Submatch list"

definition Context_new :: "nat \<Rightarrow> Context" where "Context_new n = replicate n Submatch_new"

definition OpenSubmatch :: "nat \<Rightarrow> INT_32 \<Rightarrow> Context \<Rightarrow> Context" where
  "OpenSubmatch index position c = c[index := SetBegin position (c ! index)]"

definition CloseSubmatch :: "nat \<Rightarrow> INT_32 \<Rightarrow> Context \<Rightarrow> Context" where
  "CloseSubmatch index position c = c[index := SetEnd position (c ! index)]"

definition Context_GetSubmatch :: "string \<Rightarrow> nat \<Rightarrow> Context \<Rightarrow> matcher_error + string option" where
  "Context_GetSubmatch subject index c = (if index \<ge> length c then Inr None else Extract subject (c ! index))"

section \<open>Nodes\<close>

datatype Node =
    NodeString string | NodeAnyChar | NodeDigit | NodeSubmatchOpen nat | NodeSubmatchClose nat | NodeEnd

fun process_string :: "string \<Rightarrow> ConstCharPtr \<Rightarrow> bool \<times> ConstCharPtr" where
  "process_string [] cs = (True, cs)"
| "process_string (x # xs) cs =
     (if AtEnd cs \<or> fst (GetChar cs) \<noteq> Inr x then (False, cs) else process_string xs (Advance cs))"

fun Process :: "Node \<Rightarrow> ConstCharPtr \<times> Context \<Rightarrow> bool \<times> ConstCharPtr \<times> Context" where
  "Process (NodeString s) (cs, context) =
     (case process_string s cs of (ok, cs) \<Rightarrow> (ok, cs, context))"
| "Process NodeAnyChar (cs, context) =
     (if AtEnd cs then (False, cs, context) else (True, Advance cs, context))"
| "Process NodeDigit (cs, context) =
     (if AtEnd cs \<or> fst (InClass DECIMAL cs) \<noteq> Inr True then (False, cs, context)
      else (True, Advance cs, context))"
| "Process (NodeSubmatchOpen index) (cs, context) =
     (True, cs, OpenSubmatch index (GetCharIndex cs) context)"
| "Process (NodeSubmatchClose index) (cs, context) =
     (True, cs, CloseSubmatch index (GetCharIndex cs) context)"
| "Process NodeEnd (cs, context) = (AtEnd cs, cs, context)"

section \<open>Results\<close>

text \<open>\<open>context = None\<close> is the null pointer of a failed match.\<close>

record Result =
  matched :: bool
  res_context :: "Context option"

definition Result_none :: Result where "Result_none = \<lparr>matched = False, res_context = None\<rparr>"

definition Result_of :: "Context \<Rightarrow> Result" where "Result_of c = \<lparr>matched = True, res_context = Some c\<rparr>"

definition GetSubmatch :: "string \<Rightarrow> nat \<Rightarrow> Result \<Rightarrow> matcher_error + string option" where
  "GetSubmatch subject index r = (case res_context r of None \<Rightarrow> Inl NullContext | Some c \<Rightarrow> Context_GetSubmatch subject index c)"

definition GetSubmatch_string :: "string \<Rightarrow> nat \<Rightarrow> Result \<Rightarrow> matcher_error + string" where
  "GetSubmatch_string subject index r =
     (case GetSubmatch subject index r of Inl e \<Rightarrow> Inl e | Inr None \<Rightarrow> Inr [] | Inr (Some s) \<Rightarrow> Inr s)"

definition GetSubmatch_T :: "string \<Rightarrow> nat \<Rightarrow> Result \<Rightarrow> matcher_error + ('a::len) word option" where
  "GetSubmatch_T subject index r =
     (case GetSubmatch subject index r of Inl e \<Rightarrow> Inl e | Inr None \<Rightarrow> Inr None | Inr (Some s) \<Rightarrow> Inr (Some (StringToInteger s)))"

definition GetSubmatchInteger :: "string \<Rightarrow> nat \<Rightarrow> Result \<Rightarrow> matcher_error + ('a::len) word" where
  "GetSubmatchInteger subject index r =
     (case GetSubmatch_string subject index r of Inl e \<Rightarrow> Inl e | Inr s \<Rightarrow> Inr (StringToInteger s))"

section \<open>Templates\<close>

record SimpleStringMatcher =
  nodes :: "Node list"
  submatchesCount :: nat

text \<open>The locals of \<^verbatim>\<open>Parse\<close> beside the object: the source and the stack of open submatches, its top in front.\<close>

record template_parser = SimpleStringMatcher +
  tmpl_source :: ConstCharPtr
  submatches :: "nat list"

type_synonym parse_step = "(template_parser, matcher_error, unit) mth"

definition AddNode :: "Node \<Rightarrow> parse_step" where
  "AddNode n t = (Inr (), t\<lparr>nodes := nodes t @ [n]\<rparr>)"

definition AddStringNode_string :: "string \<Rightarrow> parse_step" where
  "AddStringNode_string s t = (if s \<noteq> [] then AddNode (NodeString s) t else (Inr (), t))"

definition AddStringNode :: parse_step where
  "AddStringNode t = (case ReleaseString (tmpl_source t) of
     (Inl e, s) \<Rightarrow> (Inl (SourceError e), t\<lparr>tmpl_source := s\<rparr>)
   | (Inr x, s) \<Rightarrow> AddStringNode_string x (t\<lparr>tmpl_source := s\<rparr>))"

definition tmpl_advance :: parse_step where
  "tmpl_advance t = (Inr (), t\<lparr>tmpl_source := Advance (tmpl_source t)\<rparr>)"

definition tmpl_mark :: parse_step where
  "tmpl_mark t = (Inr (), t\<lparr>tmpl_source := snd (Mark (tmpl_source t))\<rparr>)"

definition open_submatch :: parse_step where
  "open_submatch t = (Inr (), t\<lparr>nodes := nodes t @ [NodeSubmatchOpen (submatchesCount t)],
     submatches := submatchesCount t # submatches t, submatchesCount := submatchesCount t + 1\<rparr>)"

definition close_submatch :: parse_step where
  "close_submatch t = (case submatches t of [] \<Rightarrow> throwM (ParseError ''Invalid submatches balance'') t
     | k # ks \<Rightarrow> (Inr (), t\<lparr>nodes := nodes t @ [NodeSubmatchClose k], submatches := ks\<rparr>))"

definition parse_escape :: parse_step where
  "parse_escape t = (case GetChar (tmpl_source t) of (Inl e, s) \<Rightarrow> (Inl (SourceError e), t\<lparr>tmpl_source := s\<rparr>)
   | (Inr c, s) \<Rightarrow>
       if c = CHR ''%'' then AddStringNode_string ''%'' t
       else if c = CHR ''$'' then AddStringNode_string ''$'' t
       else if c = CHR ''('' then AddStringNode_string ''('' t
       else if c = CHR '')'' then AddStringNode_string '')'' t
       else if c = CHR ''?'' then AddStringNode_string ''?'' t
       else if c = CHR ''d'' then AddNode NodeDigit t
       else throwM (RuntimeErr ''Invalid escape sequence'') t)"

text \<open>The body of the loop of \<^verbatim>\<open>Parse\<close>.\<close>

definition parse_char :: "char \<Rightarrow> parse_step" where
  "parse_char c =
     (let next = bindM tmpl_advance (\<lambda>_. tmpl_mark) in
      if c = CHR ''('' then bindM AddStringNode (\<lambda>_. bindM open_submatch (\<lambda>_. next))
      else if c = CHR '')'' then bindM AddStringNode (\<lambda>_. bindM close_submatch (\<lambda>_. next))
      else if c = CHR ''?'' then bindM AddStringNode (\<lambda>_. bindM (AddNode NodeAnyChar) (\<lambda>_. next))
      else if c = CHR ''$'' then bindM AddStringNode (\<lambda>_. bindM (AddNode NodeEnd) (\<lambda>_. next))
      else if c = CHR ''%'' then
        bindM AddStringNode (\<lambda>_. bindM tmpl_advance (\<lambda>_ t.
          if AtEnd (tmpl_source t) then throwM (ParseError ''Invalid escape sequence'') t
          else bindM parse_escape (\<lambda>_. next) t))
      else tmpl_advance)"

definition parse_body :: parse_step where
  "parse_body t = (case GetChar (tmpl_source t) of (Inl e, s) \<Rightarrow> (Inl (SourceError e), t\<lparr>tmpl_source := s\<rparr>)
     | (Inr c, s) \<Rightarrow> parse_char c t)"

lemmas step_defs = AddNode_def AddStringNode_string_def tmpl_advance_def tmpl_mark_def open_submatch_def close_submatch_def
  parse_escape_def bindM_def throwM_def Let_def

lemma AddStringNode_source:
  "AddStringNode t = (Inr (), t') \<Longrightarrow> chars (tmpl_source t') = chars (tmpl_source t) \<and> ptr (tmpl_source t') = ptr (tmpl_source t)"
  by (auto simp: AddStringNode_def ReleaseString_def PopPtr_def copy_range_def bindM_def AddStringNode_string_def AddNode_def
      split: list.splits if_splits sum.splits prod.splits)

lemma parse_body_advances:
  assumes "parse_body t = (Inr (), t')" and "NotAtEnd (tmpl_source t)"
  shows "length (chars (tmpl_source t')) - ptr (tmpl_source t') < length (chars (tmpl_source t)) - ptr (tmpl_source t)"
proof -
  have "chars (tmpl_source t') = chars (tmpl_source t) \<and> ptr (tmpl_source t) < ptr (tmpl_source t')"
    using assms
    by (auto simp: parse_body_def parse_char_def step_defs Advance_def Mark_def GetChar_def
        dest!: AddStringNode_source split: if_splits prod.splits sum.splits list.splits)
  with assms(2) show ?thesis by (auto simp: NotAtEnd_def)
qed

function parse_loop :: parse_step where
  "parse_loop t = (if NotAtEnd (tmpl_source t) then
       (case parse_body t of (Inl e, t') \<Rightarrow> (Inl e, t') | (Inr u, t') \<Rightarrow> parse_loop t')
     else (Inr (), t))"
  by pat_completeness auto
termination
proof (relation "measure (\<lambda>t. length (chars (tmpl_source t)) - ptr (tmpl_source t))", goal_cases)
  case (2 t x t' u)
  then have "parse_body t = (Inr (), t')" by simp
  from parse_body_advances [OF this 2(1)] show ?case by simp
qed simp

declare parse_loop.simps [simp del]

definition template_start :: "string \<Rightarrow> template_parser" where
  "template_start tmpl = \<lparr>nodes = [], submatchesCount = 0, tmpl_source = ConstCharPtr_new (c_str tmpl), submatches = []\<rparr>"

definition Parse :: "string \<Rightarrow> matcher_error + SimpleStringMatcher" where
  "Parse tmpl = (case bindM tmpl_mark (\<lambda>_. bindM parse_loop (\<lambda>_. AddStringNode)) (template_start tmpl) of
     (Inl e, t) \<Rightarrow> Inl e | (Inr _, t) \<Rightarrow> Inr \<lparr>nodes = nodes t, submatchesCount = submatchesCount t\<rparr>)"

definition SimpleStringMatcher_new :: "string \<Rightarrow> matcher_error + SimpleStringMatcher" where
  "SimpleStringMatcher_new = Parse"

fun match_loop :: "Node list \<Rightarrow> ConstCharPtr \<times> Context \<Rightarrow> bool \<times> ConstCharPtr \<times> Context" where
  "match_loop [] st = (True, st)"
| "match_loop (n # ns) st = (case Process n st of (ok, st) \<Rightarrow> if \<not> ok then (False, st) else match_loop ns st)"

definition Match :: "SimpleStringMatcher \<Rightarrow> ConstCharPtr \<Rightarrow> Result \<times> ConstCharPtr" where
  "Match m cs = (case match_loop (nodes m) (cs, Context_new (submatchesCount m)) of
     (ok, cs, context) \<Rightarrow> (if ok then Result_of context else Result_none, cs))"

definition Match_string :: "SimpleStringMatcher \<Rightarrow> string \<Rightarrow> Result" where
  "Match_string m subject = fst (Match m (ConstCharPtr_new subject))"

end
