(* ===== verification/Matcher_Semantics.thy ===== *)
theory Matcher_Semantics
  imports String_Matcher
begin

text \<open>
  What a template means: the nodes that a direct reading of its characters gives, what each of them asks of the text in front of it, and
  which part of the text a submatch is.
\<close>

section \<open>The nodes of a template\<close>

definition literal_node :: "string \<Rightarrow> Node list" where
  "literal_node lit = (if lit = [] then [] else [NodeString lit])"

definition with_nodes :: "Node list \<Rightarrow> (matcher_error + Node list \<times> nat) \<Rightarrow> matcher_error + Node list \<times> nat" where
  "with_nodes ns r = (case r of Inl e \<Rightarrow> Inl e | Inr (ms, n) \<Rightarrow> Inr (ns @ ms, n))"

lemma with_nodes_twice [simp]: "with_nodes ns (with_nodes ms r) = with_nodes (ns @ ms) r"
  by (auto simp: with_nodes_def split: sum.splits)

lemma with_nodes_Nil [simp]: "with_nodes [] r = r"
  by (auto simp: with_nodes_def split: sum.splits)

lemma with_nodes_Inl [simp]: "with_nodes ns (Inl e) = Inl e"
  by (simp add: with_nodes_def)

text \<open>\<open>lit\<close> are the literal characters read last, \<open>n\<close> the number of submatches and \<open>st\<close> the open ones.\<close>

fun template_nodes :: "string \<Rightarrow> string \<Rightarrow> nat \<Rightarrow> nat list \<Rightarrow> matcher_error + Node list \<times> nat" where
  "template_nodes [] lit n st = Inr (literal_node lit, n)"
| "template_nodes (c # r) lit n st =
     (if c = CHR ''('' then with_nodes (literal_node lit @ [NodeSubmatchOpen n]) (template_nodes r [] (n + 1) (n # st))
      else if c = CHR '')'' then
        (case st of [] \<Rightarrow> Inl (ParseError ''Invalid submatches balance'')
         | k # st \<Rightarrow> with_nodes (literal_node lit @ [NodeSubmatchClose k]) (template_nodes r [] n st))
      else if c = CHR ''?'' then with_nodes (literal_node lit @ [NodeAnyChar]) (template_nodes r [] n st)
      else if c = CHR ''$'' then with_nodes (literal_node lit @ [NodeEnd]) (template_nodes r [] n st)
      else if c = CHR ''%'' then
        (case r of [] \<Rightarrow> Inl (ParseError ''Invalid escape sequence'')
         | e # r \<Rightarrow>
             if e \<in> set ''%$()?'' then with_nodes (literal_node lit @ [NodeString [e]]) (template_nodes r [] n st)
             else if e = CHR ''d'' then with_nodes (literal_node lit @ [NodeDigit]) (template_nodes r [] n st)
             else Inl (RuntimeErr ''Invalid escape sequence''))
      else template_nodes r (lit @ [c]) n st)"

definition parser_at :: "Node list \<Rightarrow> nat \<Rightarrow> ConstCharPtr \<Rightarrow> nat list \<Rightarrow> template_parser" where
  "parser_at ns n s st = \<lparr>nodes = ns, submatchesCount = n, tmpl_source = s, submatches = st\<rparr>"

lemma parser_at_simps [simp]:
  "nodes (parser_at ns n s st) = ns" "submatchesCount (parser_at ns n s st) = n"
  "tmpl_source (parser_at ns n s st) = s" "submatches (parser_at ns n s st) = st"
  "(parser_at ns n s st)\<lparr>tmpl_source := s'\<rparr> = parser_at ns n s' st"
  "(parser_at ns n s st)\<lparr>nodes := ns'\<rparr> = parser_at ns' n s st"
  "(parser_at ns n s st)\<lparr>submatches := st'\<rparr> = parser_at ns n s st'"
  "(parser_at ns n s st)\<lparr>submatchesCount := n'\<rparr> = parser_at ns n' s st"
  by (simp_all add: parser_at_def)

lemma AddStringNode_parser:
  "m \<le> length b \<Longrightarrow> AddStringNode (parser_at ns n (src b r (m # ms)) st) = (Inr (), parser_at (ns @ literal_node (drop m b)) n (src b r ms) st)"
  by (simp add: AddStringNode_def src_simps AddStringNode_string_def AddNode_def literal_node_def)

definition finish_parse :: "template_parser \<Rightarrow> matcher_error + Node list \<times> nat" where
  "finish_parse t = (case bindM parse_loop (\<lambda>_. AddStringNode) t of (Inl e, t) \<Rightarrow> Inl e | (Inr _, t) \<Rightarrow> Inr (nodes t, submatchesCount t))"

lemma finish_parse_end:
  "m \<le> length b \<Longrightarrow> finish_parse (parser_at ns n (src b [] [m]) st) = Inr (ns @ literal_node (drop m b), n)"
  by (simp add: finish_parse_def bindM_def parse_loop.simps src_simps AddStringNode_parser)

lemma finish_parse_step:
  "finish_parse (parser_at ns n (src b (c # r) [m]) st) = (case parse_char c (parser_at ns n (src b (c # r) [m]) st) of
     (Inl e, t) \<Rightarrow> Inl e | (Inr u, t) \<Rightarrow> finish_parse t)"
  unfolding finish_parse_def bindM_def
  by (subst parse_loop.simps) (simp add: src_simps parse_body_def split: prod.splits sum.splits)

lemma Inl_case: "(case if P then (Inl e, t) else x of (Inl e, t) \<Rightarrow> Inl e | (Inr u, t) \<Rightarrow> f t) =
    (if P then Inl e else case x of (Inl e, t) \<Rightarrow> Inl e | (Inr u, t) \<Rightarrow> f t)"
  by simp

lemma finish_parse_nodes:
  "m \<le> length b \<Longrightarrow> finish_parse (parser_at ns n (src b r [m]) st) = with_nodes ns (template_nodes r (drop m b) n st)"
proof (induction "length r" arbitrary: r ns b m n st rule: less_induct)
  case less
  show ?case
  proof (cases r)
    case Nil
    with less.prems show ?thesis by (simp add: finish_parse_end with_nodes_def)
  next
    case (Cons c r')
    let ?b = "b @ [c]"
    have IH: "finish_parse (parser_at ns n (src ?b r' [length ?b]) st) = with_nodes ns (template_nodes r' [] n st)" for ns n st
      using less.hyps [of r' "length ?b" ?b ns n st] Cons by simp
    have IH2: "finish_parse (parser_at ns n (src (?b @ [e]) r'' [length (?b @ [e])]) st) = with_nodes ns (template_nodes r'' [] n st)"
      if "r' = e # r''" for e r'' ns n st
      using less.hyps [of r'' "length (?b @ [e])" "?b @ [e]" ns n st] Cons that by simp
    have IH3: "finish_parse (parser_at ns n (src ?b r' [m]) st) = with_nodes ns (template_nodes r' (drop m b @ [c]) n st)" for ns n st
      using less.hyps [of r' m ?b ns n st] Cons less.prems by simp
    note simps = finish_parse_step parse_char_def bindM_def AddStringNode_parser [OF less.prems] Let_def tmpl_advance_def
      tmpl_mark_def AddNode_def src_simps
    consider "c = CHR ''(''" | "c = CHR '')''" | "c = CHR ''?''" | "c = CHR ''$''" | "c = CHR ''%''" "r' = []"
      | e r'' where "c = CHR ''%''" "r' = e # r''"
      | "c \<noteq> CHR ''(''" "c \<noteq> CHR '')''" "c \<noteq> CHR ''?''" "c \<noteq> CHR ''$''" "c \<noteq> CHR ''%''"
      by (cases r') blast+
    then show ?thesis
    proof cases
      case 1
      with IH [of "ns @ literal_node (drop m b) @ [NodeSubmatchOpen n]" "n + 1" "n # st"] show ?thesis
        by (simp add: Cons simps open_submatch_def)
    next
      case 2
      show ?thesis
      proof (cases st)
        case Nil
        with 2 show ?thesis by (simp add: Cons simps close_submatch_def throwM_def with_nodes_def)
      next
        case (Cons k st')
        with 2 IH [of "ns @ literal_node (drop m b) @ [NodeSubmatchClose k]" n st'] show ?thesis
          by (simp add: \<open>r = c # r'\<close> simps close_submatch_def)
      qed
    next
      case 3
      with IH [of "ns @ literal_node (drop m b) @ [NodeAnyChar]" n st] show ?thesis by (simp add: Cons simps)
    next
      case 4
      with IH [of "ns @ literal_node (drop m b) @ [NodeEnd]" n st] show ?thesis by (simp add: Cons simps)
    next
      case 5
      then show ?thesis by (simp add: Cons simps throwM_def with_nodes_def)
    next
      case 6
      with IH2 [OF 6(2), of "ns @ literal_node (drop m b) @ [NodeString [e]]" n st]
        IH2 [OF 6(2), of "ns @ literal_node (drop m b) @ [NodeDigit]" n st] show ?thesis
        by (auto simp: Cons simps throwM_def parse_escape_def AddStringNode_string_def)
    next
      case 7
      with IH3 show ?thesis by (simp add: Cons simps)
    qed
  qed
qed

lemma Parse_nodes:
  "Parse tmpl = (case template_nodes (c_str tmpl) [] 0 [] of Inl e \<Rightarrow> Inl e
     | Inr (ns, n) \<Rightarrow> Inr \<lparr>nodes = ns, submatchesCount = n\<rparr>)"
proof -
  have "tmpl_mark (template_start tmpl) = (Inr (), parser_at [] 0 (src [] (c_str tmpl) [0]) [])"
    by (simp add: tmpl_mark_def template_start_def parser_at_def src_simps)
  then have "Parse tmpl = (case finish_parse (parser_at [] 0 (src [] (c_str tmpl) [0]) []) of Inl e \<Rightarrow> Inl e
     | Inr (ns, n) \<Rightarrow> Inr \<lparr>nodes = ns, submatchesCount = n\<rparr>)"
    by (simp add: Parse_def bindM_def finish_parse_def split: sum.splits prod.splits)
  then show ?thesis by (simp add: finish_parse_nodes)
qed

section \<open>What nodes ask of a text\<close>

fun node_width :: "Node \<Rightarrow> nat" where
  "node_width (NodeString s) = length s"
| "node_width NodeAnyChar = 1"
| "node_width NodeDigit = 1"
| "node_width _ = 0"

fun node_holds :: "Node \<Rightarrow> string \<Rightarrow> bool" where
  "node_holds (NodeString s) r = (take (length s) r = s)"
| "node_holds NodeAnyChar r = (r \<noteq> [])"
| "node_holds NodeDigit r = (r \<noteq> [] \<and> hd r \<in> set ''0123456789'')"
| "node_holds NodeEnd r = (r = [])"
| "node_holds _ r = True"

definition offset :: "Node list \<Rightarrow> nat \<Rightarrow> nat" where
  "offset ns k = sum_list (map node_width (take k ns))"

definition fits_at :: "Node list \<Rightarrow> string \<Rightarrow> bool" where
  "fits_at ns r = (\<forall>k<length ns. node_holds (ns ! k) (drop (offset ns k) r))"

lemma fits_at_Nil [simp]: "fits_at [] r"
  by (simp add: fits_at_def)

lemma fits_at_Cons [simp]: "fits_at (n # ns) r \<longleftrightarrow> node_holds n r \<and> fits_at ns (drop (node_width n) r)"
proof -
  have "(\<forall>k<length (n # ns). node_holds ((n # ns) ! k) (drop (offset (n # ns) k) r)) \<longleftrightarrow>
      node_holds n r \<and> (\<forall>k<length ns. node_holds (ns ! k) (drop (offset (n # ns) (Suc k)) r))"
    by (auto simp: less_Suc_eq_0_disj offset_def)
  then show ?thesis by (simp add: fits_at_def offset_def add.commute)
qed

lemma process_string_src:
  "process_string s (src b r ms) = (common_prefix s r = s, src (b @ common_prefix s r) (drop (length (common_prefix s r)) r) ms)"
proof (induction s arbitrary: b r)
  case (Cons c s)
  then show ?case by (cases r) (auto simp: src_simps)
qed simp

lemma common_prefix_take: "common_prefix s r = s \<longleftrightarrow> take (length s) r = s"
  by (induction s r rule: common_prefix.induct) auto

lemma GetCharIndex_src: "GetCharIndex (src b r ms) = of_nat (length b)"
  by (simp add: GetCharIndex_def src_def)

definition node_context :: "Node \<Rightarrow> nat \<Rightarrow> Context \<Rightarrow> Context" where
  "node_context n p c = (case n of NodeSubmatchOpen i \<Rightarrow> OpenSubmatch i (of_nat p) c
     | NodeSubmatchClose i \<Rightarrow> CloseSubmatch i (of_nat p) c | _ \<Rightarrow> c)"

lemma Process_holds:
  assumes "node_holds n r"
  shows "Process n (src b r ms, c) = (True, src (b @ take (node_width n) r) (drop (node_width n) r) ms, node_context n (length b) c)"
proof (cases n)
  case (NodeString s)
  with assms have "take (length s) r = s" "common_prefix s r = s" by (simp_all add: common_prefix_take)
  then show ?thesis by (simp add: NodeString process_string_src node_context_def)
next
  case NodeDigit
  with assms show ?thesis
    by (cases r) (auto simp: src_simps InClass_src classes in_range_lists node_context_def)
next
  case NodeAnyChar
  with assms show ?thesis by (cases r) (auto simp: src_simps node_context_def)
qed (use assms in \<open>auto simp: GetCharIndex_src node_context_def src_simps\<close>)

lemma Process_fails: "\<not> node_holds n r \<Longrightarrow> fst (Process n (src b r ms, c)) = False"
  by (cases n; cases r) (auto simp: process_string_src common_prefix_take src_simps InClass_src classes in_range_lists)

fun context_after :: "Node list \<Rightarrow> nat \<Rightarrow> Context \<Rightarrow> Context" where
  "context_after [] p c = c"
| "context_after (n # ns) p c = context_after ns (p + node_width n) (node_context n p c)"

lemma node_width_le: "node_holds n r \<Longrightarrow> node_width n \<le> length r"
proof (cases n)
  case (NodeString s)
  assume "node_holds n r"
  with NodeString have "length (take (length s) r) = length s" by simp
  with NodeString show ?thesis by simp
qed (cases r; simp)+

lemma match_loop_src:
  "match_loop ns (src b r ms, c) = (ok, s, c') \<Longrightarrow> ok = fits_at ns r \<and> (ok \<longrightarrow> c' = context_after ns (length b) c)"
proof (induction ns arbitrary: b r c)
  case (Cons n ns)
  show ?case
  proof (cases "node_holds n r")
    case True
    have "length (b @ take (node_width n) r) = length b + node_width n" using node_width_le [OF True] by simp
    moreover have "match_loop ns (src (b @ take (node_width n) r) (drop (node_width n) r) ms, node_context n (length b) c) = (ok, s, c')"
      using Cons.prems True by (simp add: Process_holds)
    from Cons.IH [OF this] have "ok = fits_at ns (drop (node_width n) r) \<and>
      (ok \<longrightarrow> c' = context_after ns (length (b @ take (node_width n) r)) (node_context n (length b) c))" .
    ultimately show ?thesis using True by simp
  next
    case False
    with Process_fails [OF False, of b ms c] Cons.prems show ?thesis by (auto split: prod.splits if_splits)
  qed
qed simp

section \<open>The submatches of a template\<close>

definition opened_in :: "Node list \<Rightarrow> nat list" where
  "opened_in ns = concat (map (\<lambda>n. case n of NodeSubmatchOpen i \<Rightarrow> [i] | _ \<Rightarrow> []) ns)"

definition closed_in :: "Node list \<Rightarrow> nat list" where
  "closed_in ns = concat (map (\<lambda>n. case n of NodeSubmatchClose i \<Rightarrow> [i] | _ \<Rightarrow> []) ns)"

lemma opened_in_simps [simp]:
  "opened_in [] = []" "opened_in (ns @ ms) = opened_in ns @ opened_in ms" "opened_in (literal_node lit) = []"
  "opened_in (n # ns) = (case n of NodeSubmatchOpen i \<Rightarrow> i # opened_in ns | _ \<Rightarrow> opened_in ns)"
  by (auto simp: opened_in_def literal_node_def split: Node.split)

lemma closed_in_simps [simp]:
  "closed_in [] = []" "closed_in (ns @ ms) = closed_in ns @ closed_in ms" "closed_in (literal_node lit) = []"
  "closed_in (n # ns) = (case n of NodeSubmatchClose i \<Rightarrow> i # closed_in ns | _ \<Rightarrow> closed_in ns)"
  by (auto simp: closed_in_def literal_node_def split: Node.split)

text \<open>Submatches are numbered in the order they are opened, every one is closed at most once and never opened after that.\<close>

fun not_reopened :: "Node list \<Rightarrow> bool" where
  "not_reopened [] = True"
| "not_reopened (NodeSubmatchClose i # ns) = (i \<notin> set (opened_in ns) \<and> not_reopened ns)"
| "not_reopened (n # ns) = not_reopened ns"

lemma not_reopened_append: "closed_in ns = [] \<Longrightarrow> not_reopened (ns @ ms) = not_reopened ms"
  by (induction ns rule: not_reopened.induct) auto

lemma not_reopened_split: "not_reopened (xs @ NodeSubmatchClose i # ys) \<Longrightarrow> i \<notin> set (opened_in ys)"
  by (induction xs rule: not_reopened.induct) auto

definition numbered :: "nat \<Rightarrow> nat list \<Rightarrow> Node list \<Rightarrow> nat \<Rightarrow> bool" where
  "numbered n st ns n' = (n \<le> n' \<and> opened_in ns = [n..<n'] \<and> distinct (closed_in ns) \<and> set (closed_in ns) \<subseteq> set st \<union> {n..<n'} \<and> not_reopened ns)"

lemma numbered_plain: "numbered n st ns n' \<Longrightarrow> opened_in ms = [] \<Longrightarrow> closed_in ms = [] \<Longrightarrow> numbered n st (ms @ ns) n'"
  by (simp add: numbered_def not_reopened_append)

lemma numbered_open: "numbered (n + 1) (n # st) ns n' \<Longrightarrow> numbered n st (NodeSubmatchOpen n # ns) n'"
  by (auto simp: numbered_def upt_conv_Cons)

lemma numbered_close:
  "numbered n st ns n' \<Longrightarrow> k < n \<Longrightarrow> k \<notin> set st \<Longrightarrow> numbered n (k # st) (NodeSubmatchClose k # ns) n'"
  by (auto simp: numbered_def)

lemma with_nodes_Inr: "with_nodes ns r = Inr (ms, n) \<longleftrightarrow> (\<exists>ks. r = Inr (ks, n) \<and> ms = ns @ ks)"
  by (auto simp: with_nodes_def split: sum.splits)

lemma template_numbered:
  "template_nodes r lit n st = Inr (ns, n') \<Longrightarrow> distinct st \<Longrightarrow> \<forall>k\<in>set st. k < n \<Longrightarrow> numbered n st ns n'"
proof (induction r lit n st arbitrary: ns n' rule: template_nodes.induct)
  case (1 lit n st)
  have "numbered n st [] n" by (simp add: numbered_def)
  from numbered_plain [OF this, of "literal_node lit"] 1 show ?case by simp
next
  case (2 c r lit n st)
  consider "c = CHR ''(''" | "c = CHR '')''" | "c = CHR ''?''" | "c = CHR ''$''" | "c = CHR ''%''"
    | "c \<notin> set ''()?$%''" by auto
  then show ?case
  proof cases
    case 1
    with "2.prems" obtain ks where ks: "template_nodes r [] (n + 1) (n # st) = Inr (ks, n')"
      "ns = literal_node lit @ NodeSubmatchOpen n # ks" by (auto simp: with_nodes_Inr)
    from "2.prems" have "distinct (n # st)" "\<forall>k\<in>set (n # st). k < n + 1" by auto
    with "2.IH"(1) [OF 1 ks(1)] have "numbered (n + 1) (n # st) ks n'" by blast
    then show ?thesis unfolding ks(2) by (intro numbered_plain numbered_open) auto
  next
    case 2
    with "2.prems" obtain k st' ks where ks: "st = k # st'" "template_nodes r [] n st' = Inr (ks, n')"
      "ns = literal_node lit @ NodeSubmatchClose k # ks" by (auto simp: with_nodes_Inr split: list.splits)
    with "2.prems" "2.IH"(2) [OF _ 2 ks(1,2)] 2 have "numbered n st' ks n'" by simp
    with "2.prems" ks(1) show ?thesis unfolding ks(3) by (auto intro!: numbered_plain numbered_close)
  next
    case 3
    with "2.prems" obtain ks where "template_nodes r [] n st = Inr (ks, n')" "ns = literal_node lit @ NodeAnyChar # ks"
      by (auto simp: with_nodes_Inr)
    with "2.prems" "2.IH"(3) [of ks n'] 3 numbered_plain [of n st ks n' "literal_node lit @ [NodeAnyChar]"] show ?thesis by simp
  next
    case 4
    with "2.prems" obtain ks where "template_nodes r [] n st = Inr (ks, n')" "ns = literal_node lit @ NodeEnd # ks"
      by (auto simp: with_nodes_Inr)
    with "2.prems" "2.IH"(4) [of ks n'] 4 numbered_plain [of n st ks n' "literal_node lit @ [NodeEnd]"] show ?thesis by simp
  next
    case 5
    with "2.prems" obtain e r' where r: "r = e # r'" by (cases r) auto
    show ?thesis
    proof (cases "e \<in> set ''%$()?''")
      case True
      with "2.prems" 5 obtain ks where "template_nodes r' [] n st = Inr (ks, n')" "ns = literal_node lit @ NodeString [e] # ks"
        by (auto simp: r with_nodes_Inr)
      with "2.prems" "2.IH"(5) [of e r' ks n'] 5 True r numbered_plain [of n st ks n' "literal_node lit @ [NodeString [e]]"]
      show ?thesis by simp
    next
      case False
      with "2.prems" 5 obtain ks where "template_nodes r' [] n st = Inr (ks, n')" "e = CHR ''d''" "ns = literal_node lit @ NodeDigit # ks"
        by (auto simp: r with_nodes_Inr split: if_splits)
      with "2.prems" "2.IH"(6) [of e r' ks n'] 5 False r numbered_plain [of n st ks n' "literal_node lit @ [NodeDigit]"]
      show ?thesis by simp
    qed
  next
    case 6
    with "2.prems" "2.IH"(7) [of ns n'] show ?thesis by auto
  qed
qed

section \<open>The context after a match\<close>

definition total_width :: "Node list \<Rightarrow> nat" where "total_width ns = sum_list (map node_width ns)"

lemma total_width_simps [simp]:
  "total_width [] = 0" "total_width (n # ns) = node_width n + total_width ns" "total_width (ns @ ms) = total_width ns + total_width ms"
  by (simp_all add: total_width_def)

lemma context_after_append: "context_after (ns @ ms) p c = context_after ms (p + total_width ns) (context_after ns p c)"
  by (induction ns arbitrary: p c) (simp_all add: add.assoc)

lemma length_node_context [simp]: "length (node_context n p c) = length c"
  by (simp add: node_context_def OpenSubmatch_def CloseSubmatch_def split: Node.split)

lemma length_context_after [simp]: "length (context_after ns p c) = length c"
  by (induction ns arbitrary: p c) simp_all

lemma node_context_begin:
  assumes "i < length c"
  shows "sub_begin (node_context n p c ! i) = (if n = NodeSubmatchOpen i then of_nat p else sub_begin (c ! i))"
    and "sub_end (node_context n p c ! i) = (if n = NodeSubmatchClose i then of_nat p else sub_end (c ! i))"
proof -
  have "c[k := m] ! i = (if k = i then m else c ! i)" for k m using assms by simp
  then show "sub_begin (node_context n p c ! i) = (if n = NodeSubmatchOpen i then of_nat p else sub_begin (c ! i))"
    and "sub_end (node_context n p c ! i) = (if n = NodeSubmatchClose i then of_nat p else sub_end (c ! i))"
    by (auto simp: node_context_def OpenSubmatch_def CloseSubmatch_def SetBegin_def SetEnd_def split: Node.split)
qed

lemma context_after_begin:
  "i \<notin> set (opened_in ns) \<Longrightarrow> i < length c \<Longrightarrow> sub_begin (context_after ns p c ! i) = sub_begin (c ! i)"
  by (induction ns arbitrary: p c) (auto simp: node_context_begin split: Node.splits)

lemma context_after_end:
  "i \<notin> set (closed_in ns) \<Longrightarrow> i < length c \<Longrightarrow> sub_end (context_after ns p c ! i) = sub_end (c ! i)"
  by (induction ns arbitrary: p c) (auto simp: node_context_begin split: Node.splits)

lemma context_of_submatch:
  assumes "numbered 0 [] (xs @ NodeSubmatchOpen i # ys @ NodeSubmatchClose i # zs) n" and "i < length c"
  shows "sub_begin (context_after (xs @ NodeSubmatchOpen i # ys @ NodeSubmatchClose i # zs) 0 c ! i) = of_nat (total_width xs)"
    and "sub_end (context_after (xs @ NodeSubmatchOpen i # ys @ NodeSubmatchClose i # zs) 0 c ! i) = of_nat (total_width xs + total_width ys)"
proof -
  have "distinct (opened_in (xs @ NodeSubmatchOpen i # ys @ NodeSubmatchClose i # zs))"
    "distinct (closed_in (xs @ NodeSubmatchOpen i # ys @ NodeSubmatchClose i # zs))" using assms(1) by (simp_all add: numbered_def)
  then have "i \<notin> set (opened_in ys)" "i \<notin> set (opened_in zs)" "i \<notin> set (closed_in zs)" by auto
  with assms(2) show "sub_begin (context_after (xs @ NodeSubmatchOpen i # ys @ NodeSubmatchClose i # zs) 0 c ! i) = of_nat (total_width xs)"
    "sub_end (context_after (xs @ NodeSubmatchOpen i # ys @ NodeSubmatchClose i # zs) 0 c ! i) = of_nat (total_width xs + total_width ys)"
    by (simp_all add: context_after_append context_after_begin context_after_end node_context_begin)
qed

lemma fits_width: "fits_at ns r \<Longrightarrow> total_width ns \<le> length r"
proof (induction ns arbitrary: r)
  case (Cons n ns)
  then have "node_width n \<le> length r" "total_width ns \<le> length (drop (node_width n) r)"
    using node_width_le Cons.IH [of "drop (node_width n) r"] by simp_all
  then show ?case by simp
qed simp

lemma sint_of_nat: "p < 2 ^ 31 \<Longrightarrow> sint (of_nat p :: INT_32) = int p \<and> unat (of_nat p :: INT_32) = p"
  by (simp add: sint_uint unsigned_of_nat take_bit_nat_eq_self signed_take_bit_int_eq_self)

lemma Extract_range:
  assumes "sub_begin m = of_nat p" and "sub_end m = of_nat q" and "p \<le> q" and "q \<le> length s" and "length s < 2 ^ 31"
  shows "Extract s m = Inr (Some (drop p (take q s)))"
  using assms sint_of_nat [of p] sint_of_nat [of q] by (simp add: Extract_def word_le_nat_alt)

lemma Match_string_result:
  "Match_string m s = (if fits_at (nodes m) s then Result_of (context_after (nodes m) 0 (Context_new (submatchesCount m))) else Result_none)"
proof -
  obtain ok t c where run: "match_loop (nodes m) (src [] s [], Context_new (submatchesCount m)) = (ok, t, c)" by (metis prod_cases3)
  with match_loop_src [OF this] show ?thesis by (simp add: Match_string_def Match_def ConstCharPtr_new_src)
qed

lemma new_numbered: "SimpleStringMatcher_new tmpl = Inr m \<Longrightarrow> numbered 0 [] (nodes m) (submatchesCount m)"
  using template_numbered [of "c_str tmpl" "[]" 0 "[]"]
  by (auto simp: SimpleStringMatcher_new_def Parse_nodes split: sum.splits)

section \<open>Properties\<close>

text \<open>C16. Templates: parsing gives the nodes that a direct reading of the characters gives, and fails exactly where that reading fails (a closing
  parenthesis without an open one, an escape sign at the end, an unknown escape); and matching succeeds exactly when every node holds for the
  text at its offset, which is the sum of the widths of the nodes in front of it.\<close>

theorem SimpleStringMatcher_matches:
  "SimpleStringMatcher_new tmpl = (case template_nodes (c_str tmpl) [] 0 [] of Inl e \<Rightarrow> Inl e
     | Inr (ns, n) \<Rightarrow> Inr \<lparr>nodes = ns, submatchesCount = n\<rparr>) \<and>
   (matched (Match_string m s) \<longleftrightarrow> fits_at (nodes m) s)"
  by (simp add: SimpleStringMatcher_new_def Parse_nodes Match_string_result Result_of_def Result_none_def)

text \<open>Submatches: after a match the submatch of a closed pair of parentheses is the part of the text that the nodes between them
  match; an open one without its closing parenthesis, which the parser accepts, has no text; and after a failed match every access dereferences the null
  context.\<close>

theorem SimpleStringMatcher_submatches:
  assumes "SimpleStringMatcher_new tmpl = Inr m" and "length s < 2 ^ 31"
  shows "if matched (Match_string m s) then
      (\<forall>i xs ys zs. nodes m = xs @ NodeSubmatchOpen i # ys @ NodeSubmatchClose i # zs \<longrightarrow>
         GetSubmatch s i (Match_string m s) = Inr (Some (take (total_width ys) (drop (total_width xs) s)))) \<and>
      (\<forall>i. NodeSubmatchClose i \<notin> set (nodes m) \<longrightarrow> GetSubmatch s i (Match_string m s) = Inr None)
    else GetSubmatch s i (Match_string m s) = Inl NullContext"
proof (cases "fits_at (nodes m) s")
  case False
  then show ?thesis by (simp add: Match_string_result Result_none_def GetSubmatch_def)
next
  case True
  let ?c = "context_after (nodes m) 0 (Context_new (submatchesCount m))"
  have num: "numbered 0 [] (nodes m) (submatchesCount m)" using new_numbered [OF assms(1)] .
  have result: "Match_string m s = Result_of ?c" using True by (simp add: Match_string_result)
  have "GetSubmatch s i (Match_string m s) = Inr (Some (take (total_width ys) (drop (total_width xs) s)))"
    if m: "nodes m = xs @ NodeSubmatchOpen i # ys @ NodeSubmatchClose i # zs" for i xs ys zs
  proof -
    from num m have "set (opened_in (nodes m)) = {0..<submatchesCount m}" by (simp add: numbered_def)
    with m have i: "i < length (Context_new (submatchesCount m))" by (auto simp: Context_new_def)
    have "total_width xs + total_width ys \<le> length s" using fits_width [OF True] m by simp
    with Extract_range [of "?c ! i" "total_width xs" "total_width xs + total_width ys" s] assms(2)
      context_of_submatch [OF num [unfolded m] i]
    have "Extract s (?c ! i) = Inr (Some (drop (total_width xs) (take (total_width xs + total_width ys) s)))" by (simp add: m)
    with i show ?thesis by (simp add: result Result_of_def GetSubmatch_def Context_GetSubmatch_def take_drop add.commute)
  qed
  moreover have "GetSubmatch s i (Match_string m s) = Inr None" if "NodeSubmatchClose i \<notin> set (nodes m)" for i
  proof (cases "i < submatchesCount m")
    case i: True
    have "i \<notin> set (closed_in (nodes m))" using that by (auto simp: closed_in_def split: Node.splits)
    then have "sub_end (?c ! i) = -1" using i context_after_end [of i "nodes m" "Context_new (submatchesCount m)" 0]
      by (simp add: Context_new_def Submatch_new_def)
    with i show ?thesis
      by (simp add: result Result_of_def GetSubmatch_def Context_GetSubmatch_def Context_new_def Extract_def)
  qed (simp add: result Result_of_def GetSubmatch_def Context_GetSubmatch_def Context_new_def)
  ultimately show ?thesis using result by (simp add: Result_of_def)
qed

theorem SimpleStringMatcher_submatches_witness:
  "\<exists>m. SimpleStringMatcher_new ''a(?)'' = Inr m \<and> GetSubmatch ''abc'' 0 (Match_string m ''abc'') = Inr (Some ''b'')"
proof -
  let ?m = "\<lparr>nodes = [NodeString ''a'', NodeSubmatchOpen 0, NodeAnyChar, NodeSubmatchClose 0], submatchesCount = 1\<rparr>"
  have m: "SimpleStringMatcher_new ''a(?)'' = Inr ?m"
    by (simp add: SimpleStringMatcher_new_def Parse_nodes c_str_def with_nodes_def literal_node_def)
  have "matched (Match_string ?m ''abc'')"
    by (simp add: Match_string_result Result_of_def)
  with SimpleStringMatcher_submatches [OF m, of "''abc''"]
  have "nodes ?m = xs @ NodeSubmatchOpen 0 # ys @ NodeSubmatchClose 0 # zs \<Longrightarrow>
      GetSubmatch ''abc'' 0 (Match_string ?m ''abc'') = Inr (Some (take (total_width ys) (drop (total_width xs) ''abc'')))" for xs ys zs
    by simp
  from this [of "[NodeString ''a'']" "[NodeAnyChar]" "[]"] m show ?thesis by auto
qed

end
