(* ===== verification/Strings_Table.thy ===== *)
theory Strings_Table
  imports Print_Stream
begin

text \<open>
  \<^verbatim>\<open>utils/StringsTable\<close> and \<^verbatim>\<open>utils/StringsTablePrinter\<close>: rows of cells of any length, the widths of the columns kept as the
  cells come in, and the printer that aligns the cells to them. A pointer to a row is \<open>None\<close> when it is null; an index of a
  row stands for a reference to it, which stays valid because no row is ever removed.
\<close>

section \<open>Exceptions\<close>

text \<open>\<open>Undefined\<close> stands for an access the language leaves undefined: an index out of range or a dangling pointer.
  \<open>UserException\<close> is what code outside the library throws.\<close>

datatype program_exit = TerminateProgram int | ILLEGAL_ARGUMENT_ERROR string | UserException nat | Undefined

definition fetch :: "'x list \<Rightarrow> nat \<Rightarrow> ('s, program_exit, 'x) mth" where
  "fetch xs i = (if i < length xs then returnM (xs ! i) else throwM Undefined)"

section \<open>Vectors\<close>

text \<open>\<open>AutoPtrVector_Set\<close> replaces the owned object or extends the vector by null pointers.
  The size of a vector is read into \<^verbatim>\<open>unsigned int\<close>, and the length it is extended to is computed there.\<close>

definition vector_Size :: "'x list \<Rightarrow> UINT_32" where "vector_Size xs = of_nat (length xs)"

definition AutoPtrVector_Set :: "UINT_32 \<Rightarrow> 'x \<Rightarrow> ('x option list, program_exit, unit) mth" where
  "AutoPtrVector_Set index ptr items =
     (let items = (if index \<ge> vector_Size items then resize (unat (index + 1)) None items else items) in
      if unat index < length items then (Inr (), items[unat index := Some ptr]) else (Inl Undefined, items))"

section \<open>Rows\<close>

type_synonym Row = "string list"

definition Row_PushBack :: "string \<Rightarrow> Row \<Rightarrow> Row" where "Row_PushBack v values = values @ [v]"

definition Row_Set :: "UINT_32 \<Rightarrow> string \<Rightarrow> (Row, program_exit, unit) mth" where
  "Row_Set columnIndex v values =
     (let values = (if unat columnIndex \<ge> length values then resize (unat (columnIndex + 1)) [] values else values) in
      if unat columnIndex < length values then (Inr (), values[unat columnIndex := v]) else (Inl Undefined, values))"

definition Row_at :: "Row \<Rightarrow> nat \<Rightarrow> string" where
  "Row_at values index = (if index < length values then values ! index else [])"

section \<open>Tables\<close>

record StringsTable =
  rows :: "Row option list"
  columnsWidths :: "UINT_32 list"

type_synonym 'a table_mth = "(StringsTable, program_exit, 'a) mth"

definition StringsTable_new :: StringsTable where
  "StringsTable_new = \<lparr>rows = [], columnsWidths = []\<rparr>"

definition RowsCount :: "StringsTable \<Rightarrow> UINT_32" where "RowsCount t = vector_Size (rows t)"

definition ColumnsCount :: "StringsTable \<Rightarrow> UINT_32" where "ColumnsCount t = vector_Size (columnsWidths t)"

definition UpdateColumnWidth :: "UINT_32 \<Rightarrow> UINT_32 \<Rightarrow> unit table_mth" where
  "UpdateColumnWidth columnIndex width t =
     (let ws = columnsWidths t;
          ws = (if unat columnIndex \<ge> length ws then resize (unat (columnIndex + 1)) 0 ws else ws) in
      if unat columnIndex < length ws then
        (Inr (), t\<lparr>columnsWidths := if ws ! unat columnIndex < width then ws[unat columnIndex := width] else ws\<rparr>)
      else (Inl Undefined, t\<lparr>columnsWidths := ws\<rparr>))"

text \<open>A \<^verbatim>\<open>RowBuilder\<close> is its table with the index of its row.\<close>

definition row_ref :: "nat \<Rightarrow> Row table_mth" where
  "row_ref r t = (if r < length (rows t) then (case rows t ! r of None \<Rightarrow> (Inl Undefined, t) | Some row \<Rightarrow> (Inr row, t))
                  else (Inl Undefined, t))"

definition AddRow :: "nat table_mth" where
  "AddRow t = (Inr (length (rows t)), t\<lparr>rows := rows t @ [Some []]\<rparr>)"

definition AddColumn :: "nat \<Rightarrow> string \<Rightarrow> unit table_mth" where
  "AddColumn r v =
     bindM (row_ref r) (\<lambda>row.
     bindM (UpdateColumnWidth (vector_Size row) (of_nat (length v))) (\<lambda>_.
     bindM (row_ref r) (\<lambda>row t. (Inr (), t\<lparr>rows := (rows t)[r := Some (Row_PushBack v row)]\<rparr>))))"

definition put_row :: "UINT_32 \<Rightarrow> unit table_mth" where
  "put_row rowIndex t = (case AutoPtrVector_Set rowIndex [] (rows t) of (r, rs) \<Rightarrow> (r, t\<lparr>rows := rs\<rparr>))"

definition CreateRow :: "UINT_32 \<Rightarrow> nat table_mth" where
  "CreateRow rowIndex =
     bindM (\<lambda>t. if rowIndex < RowsCount t
                then (if rows t ! unat rowIndex = None then put_row rowIndex t else (Inr (), t))
                else put_row rowIndex t)
           (\<lambda>_. returnM (unat rowIndex))"

definition StringsTable_Set :: "UINT_32 \<Rightarrow> UINT_32 \<Rightarrow> string \<Rightarrow> unit table_mth" where
  "StringsTable_Set rowIndex columnIndex v =
     bindM (CreateRow rowIndex) (\<lambda>r.
     bindM (row_ref r) (\<lambda>row.
     bindM (\<lambda>t. case Row_Set columnIndex v row of (e, row) \<Rightarrow> (e, t\<lparr>rows := (rows t)[r := Some row]\<rparr>)) (\<lambda>_.
     UpdateColumnWidth columnIndex (of_nat (length v)))))"

definition GetRow :: "StringsTable \<Rightarrow> UINT_32 \<Rightarrow> Row" where
  "GetRow t rowIndex =
     (if rowIndex \<ge> RowsCount t then [] else case rows t ! unat rowIndex of None \<Rightarrow> [] | Some row \<Rightarrow> row)"

section \<open>Printing\<close>

text \<open>The constructor of an alignment from a number is private: there are only the three constants.\<close>

datatype CellAlignment = CellAlignment UINT_32

definition LEFT :: CellAlignment where "LEFT = CellAlignment 0"
definition CENTER :: CellAlignment where "CENTER = CellAlignment 1"
definition RIGHT :: CellAlignment where "RIGHT = CellAlignment 2"

record StringsTablePrinter =
  out_stream :: string
  alignments :: "CellAlignment list"

type_synonym 'a printer_mth = "(StringsTablePrinter, program_exit, 'a) mth"

definition StringsTablePrinter_new :: "string \<Rightarrow> StringsTablePrinter" where
  "StringsTablePrinter_new out = \<lparr>out_stream = out, alignments = []\<rparr>"

definition GetAlignment :: "nat \<Rightarrow> CellAlignment printer_mth" where
  "GetAlignment columnIndex p = fetch (alignments p) columnIndex p"

definition SetAlignment :: "UINT_32 \<Rightarrow> CellAlignment \<Rightarrow> unit printer_mth" where
  "SetAlignment columnIndex alignment p =
     (let as = alignments p;
          as = (if unat columnIndex \<ge> length as then resize (unat (columnIndex + 1)) LEFT as else as) in
      if unat columnIndex < length as then (Inr (), p\<lparr>alignments := as[unat columnIndex := alignment]\<rparr>)
      else (Inl Undefined, p\<lparr>alignments := as\<rparr>))"

definition PrepareBeforePrint :: "StringsTable \<Rightarrow> bool printer_mth" where
  "PrepareBeforePrint t p =
     (if ColumnsCount t = 0 then (Inr False, p)
      else (Inr True, if unat (ColumnsCount t) > length (alignments p)
                      then p\<lparr>alignments := resize (unat (ColumnsCount t)) LEFT (alignments p)\<rparr> else p))"

definition PrintString :: "string \<Rightarrow> unit printer_mth" where
  "PrintString v p = (Inr (), p\<lparr>out_stream := out_stream p @ v\<rparr>)"

definition PrintPadding :: "UINT_32 \<Rightarrow> unit printer_mth" where
  "PrintPadding n p = (Inr (), p\<lparr>out_stream := PrintSpaces (unat n) (out_stream p)\<rparr>)"

definition PrintStringAligned :: "string \<Rightarrow> CellAlignment \<Rightarrow> UINT_32 \<Rightarrow> unit printer_mth" where
  "PrintStringAligned v alignment width =
     (if unat width \<le> length v then PrintString v
      else let spaces = width - of_nat (length v) in
        if alignment = RIGHT then bindM (PrintPadding spaces) (\<lambda>_. PrintString v)
        else if alignment = CENTER then
          bindM (PrintPadding (spaces div 2)) (\<lambda>_. bindM (PrintString v) (\<lambda>_. PrintPadding (spaces - spaces div 2)))
        else if alignment = LEFT then bindM (PrintString v) (\<lambda>_. PrintPadding spaces)
        else throwM (ILLEGAL_ARGUMENT_ERROR (''Invalid parameter '' @ [CHR 0x27] @ ''alignment'' @ [CHR 0x27])))"

text \<open>Both printers, \<^verbatim>\<open>StringsTablePrinter\<close> and \<^verbatim>\<open>ProgramOptionsTablePrinter\<close>, print the cells of a row the same way,
  with different strings around them.\<close>

definition print_cells :: "StringsTable \<Rightarrow> string \<Rightarrow> Row \<Rightarrow> unit printer_mth" where
  "print_cells t divider row =
     forM [0..<unat (ColumnsCount t)] (\<lambda>j.
       bindM (if j \<noteq> 0 then PrintString divider else returnM ()) (\<lambda>_.
       bindM (GetAlignment j) (\<lambda>alignment.
       bindM (fetch (columnsWidths t) j) (\<lambda>width.
       PrintStringAligned (Row_at row j) alignment width))))"

definition StringsTablePrinter_Print :: "StringsTable \<Rightarrow> UINT_32 \<Rightarrow> UINT_32 \<Rightarrow> unit printer_mth" where
  "StringsTablePrinter_Print t rowFrom rowTo =
     bindM (PrepareBeforePrint t) (\<lambda>ok.
     if \<not> ok then returnM ()
     else forM [unat rowFrom..<unat rowTo] (\<lambda>i.
       bindM (print_cells t '' '' (GetRow t (of_nat i))) (\<lambda>_. PrintString [CHR 0x0A])))"

definition StringsTablePrinter_PrintAll :: "StringsTable \<Rightarrow> unit printer_mth" where
  "StringsTablePrinter_PrintAll t = StringsTablePrinter_Print t 0 (RowsCount t)"

definition ProgramOptionsTablePrinter_Print ::
  "string \<Rightarrow> string \<Rightarrow> string \<Rightarrow> StringsTable \<Rightarrow> UINT_32 \<Rightarrow> UINT_32 \<Rightarrow> unit printer_mth" where
  "ProgramOptionsTablePrinter_Print rowBegin rowEnd columnDivider t rowFrom rowTo =
     bindM (PrepareBeforePrint t) (\<lambda>ok.
     if \<not> ok then returnM ()
     else forM [unat rowFrom..<unat rowTo] (\<lambda>i.
       bindM (PrintString rowBegin) (\<lambda>_.
       bindM (print_cells t columnDivider (GetRow t (of_nat i))) (\<lambda>_.
       bindM (PrintString rowEnd) (\<lambda>_. PrintString [CHR 0x0A])))))"

section \<open>Well-formed tables\<close>

text \<open>Every column a row has a cell in has a width, and no cell is wider than its column.\<close>

definition row_fits :: "UINT_32 list \<Rightarrow> Row \<Rightarrow> bool" where
  "row_fits ws row \<longleftrightarrow> length row \<le> length ws \<and> (\<forall>j<length row. of_nat (length (row ! j)) \<le> ws ! j)"

definition table_ok :: "StringsTable \<Rightarrow> bool" where
  "table_ok t \<longleftrightarrow> length (columnsWidths t) < 2 ^ 32 \<and> (\<forall>row. Some row \<in> set (rows t) \<longrightarrow> row_fits (columnsWidths t) row)"

lemma table_ok_new: "table_ok StringsTable_new"
  by (simp add: table_ok_def StringsTable_new_def)

lemma unat_less_32: "unat (x :: UINT_32) < 2 ^ 32"
  using unsigned_less [of x, where ?'a = nat] by simp

lemma row_fits_mono:
  assumes "row_fits ws row" "length ws \<le> length ws'" "\<And>j. j < length ws \<Longrightarrow> ws ! j \<le> ws' ! j"
  shows "row_fits ws' row"
  using assms by (auto simp: row_fits_def) (meson le_less_trans less_le_trans not_le order.trans)

lemma UpdateColumnWidth_widens:
  assumes "UpdateColumnWidth i w t = (Inr u, t')" "length (columnsWidths t) < 2 ^ 32"
  shows "rows t' = rows t \<and> unat i < length (columnsWidths t') \<and> w \<le> columnsWidths t' ! unat i \<and>
    length (columnsWidths t) \<le> length (columnsWidths t') \<and> length (columnsWidths t') < 2 ^ 32 \<and>
    (\<forall>j<length (columnsWidths t). columnsWidths t ! j \<le> columnsWidths t' ! j)"
proof -
  define ws where "ws = (if unat i \<ge> length (columnsWidths t) then resize (unat (i + 1)) 0 (columnsWidths t) else columnsWidths t)"
  have i: "unat i < length ws" and t': "t' = t\<lparr>columnsWidths := if ws ! unat i < w then ws[unat i := w] else ws\<rparr>"
    using assms(1) by (auto simp: UpdateColumnWidth_def Let_def ws_def split: if_splits)
  have l: "length (columnsWidths t) \<le> length ws"
    using i by (auto simp: ws_def split: if_splits)
  have b: "length ws < 2 ^ 32"
    using assms(2) unat_less_32 [of "i + 1"] by (auto simp: ws_def split: if_splits)
  have n: "ws ! j = columnsWidths t ! j" if "j < length (columnsWidths t)" for j
    using that l by (auto simp: ws_def nth_resize split: if_splits)
  show ?thesis
    using i l b n by (auto simp: t' nth_list_update)
qed

lemma UpdateColumnWidth_ok:
  assumes "table_ok t" "UpdateColumnWidth i w t = (Inr u, t')"
  shows "table_ok t' \<and> rows t' = rows t \<and> unat i < length (columnsWidths t') \<and> w \<le> columnsWidths t' ! unat i"
proof -
  have "length (columnsWidths t) < 2 ^ 32" using assms(1) by (simp add: table_ok_def)
  note w = UpdateColumnWidth_widens [OF assms(2) this]
  have "row_fits (columnsWidths t') row" if "Some row \<in> set (rows t)" for row
    using row_fits_mono [of "columnsWidths t" row "columnsWidths t'"] w that assms(1) by (auto simp: table_ok_def)
  with w show ?thesis by (simp add: table_ok_def)
qed

lemma AddRow_ok: "triple table_ok AddRow (\<lambda>_. table_ok) (\<lambda>_. table_ok)"
  by (auto simp: triple_def AddRow_def table_ok_def row_fits_def)

text \<open>The text put in the table is at most \<open>2 ^ 32 - 1\<close> characters long; longer ones lose their width.\<close>

lemma row_ref_Inr: "row_ref r t = (Inr row, t') \<Longrightarrow> t' = t \<and> r < length (rows t) \<and> rows t ! r = Some row"
  by (auto simp: row_ref_def split: if_splits option.splits)

lemma AddColumn_ok:
  assumes "table_ok t" "AddColumn r v t = (Inr u, t')"
  shows "table_ok t'"
proof -
  obtain row t1 where r: "r < length (rows t)" "rows t ! r = Some row"
    and up: "UpdateColumnWidth (vector_Size row) (of_nat (length v)) t = (Inr (), t1)"
    and t': "t' = t1\<lparr>rows := (rows t1)[r := Some (row @ [v])]\<rparr>"
    using assms(2) UpdateColumnWidth_ok [OF assms(1)]
    by (fastforce simp: AddColumn_def bindM_Inr_iff Row_PushBack_def dest!: row_ref_Inr)
  note w = UpdateColumnWidth_ok [OF assms(1) up]
  have fits: "row_fits (columnsWidths t1) row"
    using w r by (metis nth_mem table_ok_def)
  then have "length row < 2 ^ 32" using w by (auto simp: row_fits_def table_ok_def)
  then have n: "unat (vector_Size row) = length row"
    by (simp add: vector_Size_def unat_of_nat take_bit_nat_def)
  have "row_fits (columnsWidths t1) (row @ [v])"
    using fits w by (auto simp: row_fits_def n nth_append less_Suc_eq)
  moreover have "row_fits (columnsWidths t1) row'" if "Some row' \<in> set (rows t1)" for row'
    using w that by (simp add: table_ok_def)
  ultimately show ?thesis
    using w by (auto simp: t' table_ok_def dest!: set_update_subset_insert [THEN subsetD])
qed

lemma set_nth_fits:
  assumes "\<forall>row. Some row \<in> set rs \<longrightarrow> row_fits ws row" "row_fits ws row'"
  shows "\<forall>row. Some row \<in> set (rs[r := Some row']) \<longrightarrow> row_fits ws row"
  using assms by (auto dest!: set_update_subset_insert [THEN subsetD])

lemma put_row_ok:
  assumes "table_ok t" "put_row i t = (Inr u, t')"
  shows "table_ok t' \<and> columnsWidths t' = columnsWidths t"
proof -
  define rs where "rs = (if i \<ge> vector_Size (rows t) then resize (unat (i + 1)) None (rows t) else rows t)"
  have t': "t' = t\<lparr>rows := rs[unat i := Some []]\<rparr>"
    using assms(2) by (auto simp: put_row_def AutoPtrVector_Set_def Let_def rs_def split: if_splits prod.splits)
  have fit: "\<forall>row. Some row \<in> set rs \<longrightarrow> row_fits (columnsWidths t) row"
    using assms(1) by (auto simp: rs_def table_ok_def resize_def dest: in_set_takeD split: if_splits)
  have "row_fits (columnsWidths t) []" by (simp add: row_fits_def)
  from set_nth_fits [OF fit this, of "unat i"] show ?thesis
    using assms(1) by (simp add: t' table_ok_def)
qed

lemma CreateRow_ok:
  assumes "table_ok t" "CreateRow i t = (Inr r, t')"
  shows "table_ok t' \<and> columnsWidths t' = columnsWidths t"
  using assms put_row_ok [OF assms(1)] by (auto simp: CreateRow_def bindM_Inr_iff returnM_def split: if_splits)

lemma Row_Set_at:
  assumes "Row_Set i v row = (Inr u, row')" "length row \<le> n" "unat i < n"
  shows "length row' \<le> n \<and> unat i < length row' \<and> row' ! unat i = v \<and>
    (\<forall>j<length row'. j \<noteq> unat i \<longrightarrow> row' ! j = Row_at row j)"
proof -
  define vs where "vs = (if unat i \<ge> length row then resize (unat (i + 1)) [] row else row)"
  have r: "unat i < length vs" "row' = vs[unat i := v]"
    using assms(1) by (auto simp: Row_Set_def Let_def vs_def split: if_splits)
  have "unat (i + 1) \<le> unat i + 1" using mod_less_eq_dividend [of "unat i + 1" "2 ^ 32"] by (simp add: unat_word_ariths)
  then have "length vs \<le> n" using assms(2,3) by (auto simp: vs_def)
  moreover have "vs ! j = Row_at row j" if "j < length vs" for j
    using that r(1) by (auto simp: vs_def nth_resize Row_at_def split: if_splits)
  ultimately show ?thesis using r by simp
qed

lemma Row_Set_grows: "Row_Set i v row = (Inr u, row') \<Longrightarrow> length row' \<le> max (length row) (unat i + 1)"
  using Row_Set_at [of i v row u row' "max (length row) (unat i + 1)"] by simp

lemma StringsTable_Set_ok:
  assumes "table_ok t" "StringsTable_Set i j v t = (Inr u, t')"
  shows "table_ok t'"
proof -
  obtain r t1 row where c: "CreateRow i t = (Inr r, t1)" and r: "r < length (rows t1)" "rows t1 ! r = Some row"
    and rest: "bindM (\<lambda>t. case Row_Set j v row of (e, row) \<Rightarrow> (e, t\<lparr>rows := (rows t)[r := Some row]\<rparr>))
      (\<lambda>_. UpdateColumnWidth j (of_nat (length v))) t1 = (Inr u, t')"
    using assms(2) unfolding StringsTable_Set_def bindM_Inr_iff [of _ _ t] bindM_Inr_iff [of "row_ref _"]
    by (blast dest: row_ref_Inr)
  obtain e row' where s': "Row_Set j v row = (e, row')" by fastforce
  with rest have s: "Row_Set j v row = (Inr (), row')"
    and up: "UpdateColumnWidth j (of_nat (length v)) (t1\<lparr>rows := (rows t1)[r := Some row']\<rparr>) = (Inr u, t')"
    by (auto simp: bindM_Inr_iff)
  let ?t2 = "t1\<lparr>rows := (rows t1)[r := Some row']\<rparr>"
  have ok1: "table_ok t1" using CreateRow_ok [OF assms(1) c] by simp
  then have "length (columnsWidths ?t2) < 2 ^ 32" by (simp add: table_ok_def)
  note w = UpdateColumnWidth_widens [OF up this, simplified]
  have old: "row_fits (columnsWidths t') x" if "Some x \<in> set (rows t1)" for x
    using row_fits_mono [of "columnsWidths t1" x "columnsWidths t'"] w that ok1 by (auto simp: table_ok_def)
  have fits: "row_fits (columnsWidths t') row" using old r by (metis nth_mem)
  then have "length row \<le> length (columnsWidths t')" by (simp add: row_fits_def)
  note at = Row_Set_at [OF s this]
  have "of_nat (length (row' ! k)) \<le> columnsWidths t' ! k" if "k < length row'" for k
    using that w at fits by (cases "k = unat j") (auto simp: row_fits_def Row_at_def)
  then have "row_fits (columnsWidths t') row'" using at w by (simp add: row_fits_def)
  then show ?thesis
    using w old set_nth_fits [of "rows t1" "columnsWidths t'" row' r] by (simp add: table_ok_def)
qed

section \<open>What is printed\<close>

definition known_alignment :: "CellAlignment \<Rightarrow> bool" where
  "known_alignment a \<longleftrightarrow> a = LEFT \<or> a = CENTER \<or> a = RIGHT"

text \<open>The cell in a field of \<open>w\<close> characters: the blanks are at the end, at the beginning or on both sides.\<close>

definition aligned :: "CellAlignment \<Rightarrow> nat \<Rightarrow> string \<Rightarrow> string" where
  "aligned a w v =
     (let n = w - length v;
          before = (if a = RIGHT then n else if a = CENTER then n div 2 else 0)
      in replicate before CHR '' '' @ v @ replicate (n - before) CHR '' '')"

lemma aligned_length: "length v \<le> w \<Longrightarrow> length (aligned a w v) = w"
  by (simp add: aligned_def Let_def)

lemma alignments_distinct [simp]: "LEFT \<noteq> CENTER" "LEFT \<noteq> RIGHT" "CENTER \<noteq> RIGHT" "CENTER \<noteq> LEFT" "RIGHT \<noteq> LEFT" "RIGHT \<noteq> CENTER"
  by (simp_all add: LEFT_def CENTER_def RIGHT_def)

lemma PrintStringAligned_eq:
  assumes "known_alignment a"
  shows "PrintStringAligned v a w p = (Inr (), p\<lparr>out_stream := out_stream p @ aligned a (unat w) v\<rparr>)"
proof (cases "unat w \<le> length v")
  case True
  then show ?thesis by (simp add: PrintStringAligned_def PrintString_def aligned_def)
next
  case False
  then have "length v < 2 ^ 32" using unat_less_32 [of w] by simp
  then have l: "unat (of_nat (length v) :: UINT_32) = length v" by (simp add: unat_of_nat take_bit_nat_eq_self)
  then have "of_nat (length v) \<le> w" using False by (simp add: word_le_nat_alt)
  then have n: "unat (w - of_nat (length v)) = unat w - length v" by (simp add: unat_sub l)
  have half: "unat (s div 2) = unat s div 2" "unat (s - s div 2) = unat s - unat s div 2" for s :: UINT_32
    by (simp_all add: unat_div unat_sub word_le_nat_alt)
  show ?thesis
    using False assms
    by (auto simp: PrintStringAligned_def known_alignment_def aligned_def Let_def n half bindM_def PrintPadding_def
        PrintString_def PrintSpaces_def repeat_char_eq)
qed

text \<open>A row of the table as it is printed: the cells of all columns, missing ones as empty cells, in fields as wide as the column.\<close>

definition table_cells :: "CellAlignment list \<Rightarrow> UINT_32 list \<Rightarrow> string \<Rightarrow> Row \<Rightarrow> nat \<Rightarrow> string" where
  "table_cells as ws divider row n =
     concat (map (\<lambda>j. (if j \<noteq> 0 then divider else []) @ aligned (as ! j) (unat (ws ! j)) (Row_at row j)) [0..<n])"

lemma forM_prints:
  assumes "\<And>x p. x \<in> set xs \<Longrightarrow> alignments p = as \<Longrightarrow> f x p = (Inr (), p\<lparr>out_stream := out_stream p @ g x\<rparr>)"
    and "alignments p = as"
  shows "forM xs f p = (Inr (), p\<lparr>out_stream := out_stream p @ concat (map g xs)\<rparr>)"
  using assms by (induction xs arbitrary: p) (simp_all add: returnM_def bindM_def)

lemma print_cells_eq:
  assumes "length (columnsWidths t) < 2 ^ 32" "length (columnsWidths t) \<le> length as" "list_all known_alignment as" "alignments p = as"
  shows "print_cells t divider row p =
    (Inr (), p\<lparr>out_stream := out_stream p @ table_cells as (columnsWidths t) divider row (length (columnsWidths t))\<rparr>)"
proof -
  have n: "unat (ColumnsCount t) = length (columnsWidths t)"
    using assms(1) by (simp add: ColumnsCount_def vector_Size_def unat_of_nat take_bit_nat_eq_self)
  have k: "known_alignment (as ! j)" "j < length as" if "j < length (columnsWidths t)" for j
    using that assms(2,3) by (auto simp: list_all_length)
  have step: "bindM (if j \<noteq> 0 then PrintString divider else returnM ()) (\<lambda>_.
      bindM (GetAlignment j) (\<lambda>alignment.
      bindM (fetch (columnsWidths t) j) (\<lambda>width.
      PrintStringAligned (Row_at row j) alignment width))) q =
    (Inr (), q\<lparr>out_stream := out_stream q @ (if j \<noteq> 0 then divider else []) @ aligned (as ! j) (unat (columnsWidths t ! j)) (Row_at row j)\<rparr>)"
    if "j < length (columnsWidths t)" "alignments q = as" for j q
    using k [OF that(1)] that
    by (auto simp: bindM_def returnM_def PrintString_def GetAlignment_def fetch_def PrintStringAligned_eq)
  show ?thesis
    unfolding print_cells_def table_cells_def n by (rule forM_prints [where as = as]) (rule step, simp_all add: assms(4))
qed

definition table_line :: "string \<Rightarrow> string \<Rightarrow> string \<Rightarrow> CellAlignment list \<Rightarrow> StringsTable \<Rightarrow> nat \<Rightarrow> string" where
  "table_line rowBegin rowEnd divider as t i =
     rowBegin @ table_cells as (columnsWidths t) divider (GetRow t (of_nat i)) (length (columnsWidths t)) @ rowEnd @ [CHR 0x0A]"

text \<open>The alignments the printer uses for the table: the columns not set are aligned to the left.\<close>

definition table_alignments :: "StringsTable \<Rightarrow> StringsTablePrinter \<Rightarrow> CellAlignment list" where
  "table_alignments t p =
     (if length (alignments p) < length (columnsWidths t) then resize (length (columnsWidths t)) LEFT (alignments p) else alignments p)"

lemma table_alignments_ok:
  assumes "list_all known_alignment (alignments p)"
  shows "length (columnsWidths t) \<le> length (table_alignments t p) \<and> list_all known_alignment (table_alignments t p)"
proof -
  have "known_alignment LEFT" by (simp add: known_alignment_def)
  then show ?thesis using assms by (auto simp: table_alignments_def resize_def list_all_iff dest: in_set_takeD)
qed

lemma Print_table_eq:
  assumes "table_ok t" "columnsWidths t \<noteq> []" "list_all known_alignment (alignments p)"
  shows "ProgramOptionsTablePrinter_Print rowBegin rowEnd divider t lo hi p =
    (Inr (), p\<lparr>alignments := table_alignments t p,
       out_stream := out_stream p @ concat (map (table_line rowBegin rowEnd divider (table_alignments t p) t) [unat lo..<unat hi])\<rparr>)"
proof -
  let ?as = "table_alignments t p"
  have l: "length (columnsWidths t) < 2 ^ 32" using assms(1) by (simp add: table_ok_def)
  then have n: "unat (ColumnsCount t) = length (columnsWidths t)"
    by (simp add: ColumnsCount_def vector_Size_def unat_of_nat take_bit_nat_eq_self)
  then have nz: "ColumnsCount t \<noteq> 0" using assms(2) by (metis length_0_conv unat_0)
  have prep: "PrepareBeforePrint t p = (Inr True, p\<lparr>alignments := ?as\<rparr>)"
    using nz by (simp add: PrepareBeforePrint_def n table_alignments_def)
  have row: "bindM (PrintString rowBegin) (\<lambda>_. bindM (print_cells t divider (GetRow t (of_nat i))) (\<lambda>_.
      bindM (PrintString rowEnd) (\<lambda>_. PrintString [CHR 0x0A]))) q =
    (Inr (), q\<lparr>out_stream := out_stream q @ table_line rowBegin rowEnd divider ?as t i\<rparr>)"
    if "alignments q = ?as" for i q
    using print_cells_eq [OF l _ _, of ?as] table_alignments_ok [OF assms(3), of t] that
    by (simp add: bindM_def PrintString_def table_line_def)
  show ?thesis
    unfolding ProgramOptionsTablePrinter_Print_def
    by (simp add: bindM_def [of "PrepareBeforePrint t"] prep) (subst forM_prints [where as = ?as], auto simp: row)
qed

lemma StringsTablePrinter_Print_eq: "StringsTablePrinter_Print t lo hi = ProgramOptionsTablePrinter_Print [] [] '' '' t lo hi"
proof -
  have p: "PrintString [] = returnM ()" by (auto simp: fun_eq_iff PrintString_def returnM_def)
  have b: "bindM (returnM ()) k = k ()" for k :: "unit \<Rightarrow> unit printer_mth" by (rule ext) simp
  show ?thesis by (simp add: StringsTablePrinter_Print_def ProgramOptionsTablePrinter_Print_def p b cong: if_cong)
qed

text \<open>All lines are equally long when the cells are narrower than \<open>2 ^ 32\<close> characters.\<close>

definition short_cells :: "StringsTable \<Rightarrow> bool" where
  "short_cells t \<longleftrightarrow> list_all (\<lambda>r. case r of None \<Rightarrow> True | Some row \<Rightarrow> list_all (\<lambda>v. length v < 2 ^ 32) row) (rows t)"

definition line_length :: "string \<Rightarrow> string \<Rightarrow> string \<Rightarrow> StringsTable \<Rightarrow> nat" where
  "line_length rowBegin rowEnd divider t =
     length rowBegin + (sum_list (map unat (columnsWidths t)) + (length (columnsWidths t) - 1) * length divider) + length rowEnd + 1"

lemma GetRow_fits:
  assumes "table_ok t" "short_cells t" "j < length (columnsWidths t)"
  shows "length (Row_at (GetRow t i) j) \<le> unat (columnsWidths t ! j)"
proof (cases "i < RowsCount t \<and> rows t ! unat i \<noteq> None \<and> j < length (GetRow t i)")
  case True
  then obtain row where s: "rows t ! unat i = Some row" by blast
  with True have r: "rows t ! unat i = Some row" "GetRow t i = row" by (auto simp: GetRow_def)
  have "unat i < unat (vector_Size (rows t))" using True by (simp add: RowsCount_def word_less_nat_alt)
  also have "\<dots> \<le> length (rows t)" by (simp add: vector_Size_def unat_of_nat take_bit_nat_less_eq_self)
  finally have m: "Some row \<in> set (rows t)" using r by (metis nth_mem)
  then have "of_nat (length (row ! j)) \<le> columnsWidths t ! j" "length (row ! j) < 2 ^ 32"
    using assms True r by (auto simp: table_ok_def row_fits_def short_cells_def list_all_iff split: option.splits)
  then have "length (row ! j) \<le> unat (columnsWidths t ! j)"
    by (simp add: word_le_nat_alt unat_of_nat take_bit_nat_eq_self)
  with True r show ?thesis by (simp add: Row_at_def)
qed (auto simp: Row_at_def GetRow_def split: option.splits)

lemma table_cells_length:
  assumes "\<And>j. j < n \<Longrightarrow> length (Row_at row j) \<le> unat (ws ! j)" "n \<le> length ws"
  shows "length (table_cells as ws divider row n) = sum_list (map unat (take n ws)) + (n - 1) * length divider"
  using assms
proof (induction n)
  case (Suc n)
  then have "take (Suc n) ws = take n ws @ [ws ! n]" by (simp add: take_Suc_append_nth)
  with Suc show ?case by (cases n) (simp_all add: table_cells_def aligned_length)
qed (simp add: table_cells_def)

lemma table_line_length:
  assumes "table_ok t" "short_cells t"
  shows "length (table_line rowBegin rowEnd divider as t i) = line_length rowBegin rowEnd divider t"
  using table_cells_length [where ws = "columnsWidths t" and row = "GetRow t (of_nat i)" and as = as and divider = divider,
      OF GetRow_fits [OF assms] order.refl]
  by (simp add: table_line_def line_length_def)

section \<open>Building a table row by row\<close>

text \<open>The width of a column that has been given these cells, one after the other.\<close>

definition column_width :: "string list \<Rightarrow> UINT_32" where
  "column_width cells = fold (\<lambda>v w. max w (of_nat (length v))) cells 0"

definition two_columns :: "string list \<Rightarrow> string list \<Rightarrow> StringsTable \<Rightarrow> bool" where
  "two_columns as bs t \<longleftrightarrow> length as = length bs \<and>
     columnsWidths t = (if as = [] then [] else [column_width as, column_width bs])"

lemma two_columns_new: "two_columns [] [] StringsTable_new"
  by (simp add: two_columns_def StringsTable_new_def)

lemma UpdateColumnWidth_in:
  assumes "i \<le> length (columnsWidths t)" "i + 1 < 2 ^ 32"
  shows "\<exists>t'. UpdateColumnWidth (of_nat i) w t = (Inr (), t') \<and>
    columnsWidths t' = (let ws = (if i < length (columnsWidths t) then columnsWidths t else columnsWidths t @ [0]) in ws[i := max (ws ! i) w])"
proof -
  have n: "unat (of_nat i :: UINT_32) = i" using assms(2) by (simp add: unat_of_nat take_bit_nat_eq_self)
  have "unat (of_nat (i + 1) :: UINT_32) = i + 1" using assms(2) by (simp add: unat_of_nat take_bit_nat_eq_self del: of_nat_Suc of_nat_add)
  then have n1: "unat (of_nat i + 1 :: UINT_32) = i + 1" by (simp add: add.commute)
  show ?thesis using assms(1) by (auto simp: UpdateColumnWidth_def Let_def n n1 resize_def max_def not_less nth_append)
qed

lemma AddColumn_in:
  assumes "table_ok t" "r < length (rows t)" "rows t ! r = Some row" "length row + 1 < 2 ^ 32"
  shows "\<exists>t'. AddColumn r v t = (Inr (), t') \<and> table_ok t' \<and> rows t' = (rows t)[r := Some (row @ [v])] \<and>
    columnsWidths t' = (let i = length row; ws = (if i < length (columnsWidths t) then columnsWidths t else columnsWidths t @ [0])
      in ws[i := max (ws ! i) (of_nat (length v))])"
proof -
  have "Some row \<in> set (rows t)" using assms(2,3) by (metis nth_mem)
  then have "length row \<le> length (columnsWidths t)" using assms(1) by (simp add: table_ok_def row_fits_def)
  then obtain t1 where t1: "UpdateColumnWidth (vector_Size row) (of_nat (length v)) t = (Inr (), t1)"
    and ws: "columnsWidths t1 = (let i = length row; ws = (if i < length (columnsWidths t) then columnsWidths t else columnsWidths t @ [0])
      in ws[i := max (ws ! i) (of_nat (length v))])"
    using UpdateColumnWidth_in [of "length row" t "of_nat (length v)"] assms(4) by (auto simp: vector_Size_def Let_def)
  note w = UpdateColumnWidth_ok [OF assms(1) t1]
  have "AddColumn r v t = (Inr (), t1\<lparr>rows := (rows t1)[r := Some (row @ [v])]\<rparr>)"
    using assms(2,3) w by (simp add: AddColumn_def bindM_def row_ref_def t1 Row_PushBack_def)
  then show ?thesis using AddColumn_ok [OF assms(1)] w ws by auto
qed

lemma add_two_columns:
  assumes "table_ok t"
  shows "\<exists>t'. bindM AddRow (\<lambda>r. bindM (AddColumn r a) (\<lambda>_. AddColumn r b)) t = (Inr (), t') \<and>
    table_ok t' \<and> rows t' = rows t @ [Some [a, b]] \<and>
    (\<forall>as bs. two_columns as bs t \<longrightarrow> two_columns (as @ [a]) (bs @ [b]) t')"
proof -
  let ?r = "length (rows t)" and ?t = "t\<lparr>rows := rows t @ [Some []]\<rparr>"
  have ok: "table_ok ?t" using assms by (auto simp: table_ok_def row_fits_def)
  obtain t1 where t1: "AddColumn ?r a ?t = (Inr (), t1)" "table_ok t1" "rows t1 = rows t @ [Some [a]]"
    and w1: "columnsWidths t1 = (let ws = (if columnsWidths t \<noteq> [] then columnsWidths t else [0]) in ws[0 := max (ws ! 0) (of_nat (length a))])"
    using AddColumn_in [OF ok, of ?r "[]" a] by (auto simp: Let_def)
  obtain t2 where t2: "AddColumn ?r b t1 = (Inr (), t2)" "table_ok t2" "rows t2 = rows t @ [Some [a, b]]"
    and w2: "columnsWidths t2 = (let ws = (if 1 < length (columnsWidths t1) then columnsWidths t1 else columnsWidths t1 @ [0])
      in ws[1 := max (ws ! 1) (of_nat (length b))])"
    using AddColumn_in [OF t1(2), of ?r "[a]" b] t1(3) by (auto simp: Let_def)
  have "two_columns (as @ [a]) (bs @ [b]) t2" if "two_columns as bs t" for as bs
    using that by (auto simp: two_columns_def w2 w1 column_width_def Let_def)
  moreover have "bindM AddRow (\<lambda>r. bindM (AddColumn r a) (\<lambda>_. AddColumn r b)) t = (Inr (), t2)"
    by (simp add: bindM_def AddRow_def t1(1) t2(1))
  ultimately show ?thesis using t2 by blast
qed

text \<open>Whatever the table, printing it throws nothing when the alignments are among the constants.\<close>

lemma Print_table_returns:
  assumes "table_ok t" "list_all known_alignment (alignments p)"
  shows "\<exists>p'. ProgramOptionsTablePrinter_Print rowBegin rowEnd divider t lo hi p = (Inr (), p') \<and> list_all known_alignment (alignments p')"
proof (cases "columnsWidths t = []")
  case True
  then have "PrepareBeforePrint t p = (Inr False, p)"
    by (simp add: PrepareBeforePrint_def ColumnsCount_def vector_Size_def)
  then show ?thesis using assms(2) by (simp add: ProgramOptionsTablePrinter_Print_def bindM_def returnM_def)
next
  case False
  then show ?thesis using Print_table_eq [OF assms(1) False assms(2)] table_alignments_ok [OF assms(2), of t] by simp
qed

text \<open>C14. A printed table is aligned: of a table whose columns are at least as wide as their cells, as all operations keep it,
  every requested row is one line, with its cells padded to the widths of their columns, and all lines are equally long.\<close>

theorem StringsTable_prints_aligned:
  assumes "table_ok t" "short_cells t" "columnsWidths t \<noteq> []" "list_all known_alignment (alignments p)"
  shows "\<exists>p'. ProgramOptionsTablePrinter_Print rowBegin rowEnd divider t lo hi p = (Inr (), p') \<and>
    out_stream p' = out_stream p @ concat (map (table_line rowBegin rowEnd divider (table_alignments t p) t) [unat lo..<unat hi]) \<and>
    (\<forall>i. length (table_line rowBegin rowEnd divider (table_alignments t p) t i) = line_length rowBegin rowEnd divider t)"
  using Print_table_eq [OF assms(1,3,4)] table_line_length [OF assms(1,2)] by simp

theorem StringsTable_prints_aligned_witness:
  "\<exists>p'. ProgramOptionsTablePrinter_Print '':'' [] ''|'' \<lparr>rows = [Some [''a'', ''bcd''], None], columnsWidths = [1, 3]\<rparr> 0 2
      (StringsTablePrinter_new []) = (Inr (), p') \<and>
    out_stream p' = '':a|bcd'' @ [CHR 0x0A] @ '': |   '' @ [CHR 0x0A]"
proof -
  let ?t = "\<lparr>rows = [Some [''a'', ''bcd''], None], columnsWidths = [1, 3]\<rparr> :: StringsTable"
  have "table_ok ?t" by (auto simp: table_ok_def row_fits_def less_Suc_eq)
  moreover have "short_cells ?t" by (simp add: short_cells_def)
  ultimately obtain p' where p': "ProgramOptionsTablePrinter_Print '':'' [] ''|'' ?t 0 2 (StringsTablePrinter_new []) = (Inr (), p')"
    "out_stream p' = out_stream (StringsTablePrinter_new []) @
      concat (map (table_line '':'' [] ''|'' (table_alignments ?t (StringsTablePrinter_new [])) ?t) [unat (0 :: UINT_32)..<unat (2 :: UINT_32)])"
    using StringsTable_prints_aligned [of ?t "StringsTablePrinter_new []" "'':''" "[]" "''|''" 0 2]
    by (auto simp: StringsTablePrinter_new_def)
  have "out_stream (StringsTablePrinter_new []) @
      concat (map (table_line '':'' [] ''|'' (table_alignments ?t (StringsTablePrinter_new [])) ?t) [unat (0 :: UINT_32)..<unat (2 :: UINT_32)]) =
    '':a|bcd'' @ [CHR 0x0A] @ '': |   '' @ [CHR 0x0A]"
    by code_simp
  with p' show ?thesis by metis
qed

end
