(* ===== verification/Program_Options.thy ===== *)
theory Program_Options
  imports String_Utils Std_Map Strings_Table
begin

text \<open>
  \<^verbatim>\<open>ProgramOptions\<close>: the options a program registers, in a list for its positional arguments and in a map for the named
  ones, and the parsing of its arguments into the variables the options refer to. Objects, variables and argument strings are
  shared by reference, so the model keeps them in one state: option objects at addresses, variables by name and type, and the
  argument strings themselves, which passwords are wiped from.
\<close>

unbundle bit_operations_syntax

section \<open>Options\<close>

datatype Handler = ProgramOptionsPrintUsage_ptr | UserHandler nat

text \<open>The number after the constructor is the variable the option refers to; an integer option is the same for both signs.\<close>

datatype OptionKind =
    ProgramOption_Boolean nat
  | ProgramOption_String nat
  | ProgramOption_Integer32 nat
  | ProgramOption_Integer64 nat
  | ProgramOption_Choice nat "string list"
  | ProgramOption_StringArray nat
  | ProgramOption_Function Handler

record ProgramOption =
  opt_label :: string
  opt_text :: string
  opt_flags :: UINT_32
  opt_exists :: bool
  opt_kind :: OptionKind

definition REQUIRED :: UINT_32 where "REQUIRED = 0x0001"
definition PASSWORD :: UINT_32 where "PASSWORD = 0x0002"

definition ProgramOption_new :: "string \<Rightarrow> string \<Rightarrow> UINT_32 \<Rightarrow> OptionKind \<Rightarrow> ProgramOption" where
  "ProgramOption_new label txt flags kind =
     \<lparr>opt_label = label, opt_text = txt, opt_flags = flags, opt_exists = False, opt_kind = kind\<rparr>"

definition IsRequired :: "ProgramOption \<Rightarrow> bool" where "IsRequired opt \<longleftrightarrow> opt_flags opt AND REQUIRED \<noteq> 0"

definition IsPassword :: "ProgramOption \<Rightarrow> bool" where "IsPassword opt \<longleftrightarrow> opt_flags opt AND PASSWORD \<noteq> 0"

definition GetTextWithRequired :: "ProgramOption \<Rightarrow> string" where
  "GetTextWithRequired opt = (if IsRequired opt then ''[Required] '' else ''[Optional] '') @ opt_text opt"

definition IsArray :: "ProgramOption \<Rightarrow> bool" where
  "IsArray opt = (case opt_kind opt of ProgramOption_StringArray r \<Rightarrow> True | _ \<Rightarrow> False)"

definition NeedValue :: "ProgramOption \<Rightarrow> bool" where
  "NeedValue opt = (case opt_kind opt of
     ProgramOption_Boolean r \<Rightarrow> False | ProgramOption_Function h \<Rightarrow> False
   | ProgramOption_String r \<Rightarrow> True | ProgramOption_Integer32 r \<Rightarrow> True | ProgramOption_Integer64 r \<Rightarrow> True
   | ProgramOption_Choice r cs \<Rightarrow> True | ProgramOption_StringArray r \<Rightarrow> True)"

section \<open>State\<close>

text \<open>The program's variables the options write to.\<close>

record Results =
  bool_at :: "nat \<Rightarrow> bool"
  string_at :: "nat \<Rightarrow> string"
  word32_at :: "nat \<Rightarrow> UINT_32"
  word64_at :: "nat \<Rightarrow> UINT_64"
  strings_at :: "nat \<Rightarrow> string list"

record ProgramOptionsList =
  list_items :: "nat list"
  currentIndex :: nat

record ProgramOptionsMap =
  map_items :: "nat list"
  label_map :: "(string, nat) std_map"
  required_items :: "nat list"

record ProgramOptionsPool =
  programName :: string
  optionsList :: ProgramOptionsList
  optionsMap :: ProgramOptionsMap

text \<open>\<open>None\<close> in the memory is an option that was deleted. A \<open>char *\<close> into the arguments is an argument's number and
  an offset in it.\<close>

record World =
  memory :: "ProgramOption option list"
  pool :: ProgramOptionsPool
  results :: Results
  argv :: "string list"
  std_err :: string

type_synonym 'a world_mth = "(World, program_exit, 'a) mth"
type_synonym char_ptr = "(nat \<times> nat) option"
type_synonym handlers = "nat \<Rightarrow> string option \<Rightarrow> unit world_mth"

definition ProgramOptionsPool_new :: ProgramOptionsPool where
  "ProgramOptionsPool_new =
     \<lparr>programName = [], optionsList = \<lparr>list_items = [], currentIndex = 0\<rparr>,
      optionsMap = \<lparr>map_items = [], label_map = [], required_items = []\<rparr>\<rparr>"

definition option_in :: "ProgramOption option list \<Rightarrow> nat \<Rightarrow> ('s, program_exit, ProgramOption) mth" where
  "option_in mem a = (if a < length mem then (case mem ! a of None \<Rightarrow> throwM Undefined | Some opt \<Rightarrow> returnM opt)
                      else throwM Undefined)"

definition option_at :: "nat \<Rightarrow> ProgramOption world_mth" where
  "option_at a w = option_in (memory w) a w"

definition new_option :: "ProgramOption \<Rightarrow> nat world_mth" where
  "new_option opt w = (Inr (length (memory w)), w\<lparr>memory := memory w @ [Some opt]\<rparr>)"

definition delete_option :: "nat \<Rightarrow> unit world_mth" where
  "delete_option a w = (Inr (), w\<lparr>memory := (memory w)[a := None]\<rparr>)"

text \<open>The \<open>auto_ptr\<close> of a parameter deletes its option when an exception leaves the function.\<close>

definition owning :: "nat \<Rightarrow> unit world_mth \<Rightarrow> unit world_mth" where
  "owning a m = catchM m (\<lambda>e. bindM (delete_option a) (\<lambda>_. throwM e))"

definition fprintf_stderr :: "string \<Rightarrow> unit world_mth" where
  "fprintf_stderr s w = (Inr (), w\<lparr>std_err := std_err w @ s\<rparr>)"

definition terminate :: "string \<Rightarrow> 'a world_mth" where
  "terminate message = bindM (fprintf_stderr (message @ [CHR 0x0A])) (\<lambda>_. throwM (TerminateProgram 1))"

definition quoted :: "string \<Rightarrow> string" where "quoted s = [CHR 0x27] @ s @ [CHR 0x27]"

definition set_list :: "(ProgramOptionsList \<Rightarrow> ProgramOptionsList) \<Rightarrow> World \<Rightarrow> World" where
  "set_list f w = w\<lparr>pool := pool w\<lparr>optionsList := f (optionsList (pool w))\<rparr>\<rparr>"

definition set_map :: "(ProgramOptionsMap \<Rightarrow> ProgramOptionsMap) \<Rightarrow> World \<Rightarrow> World" where
  "set_map f w = w\<lparr>pool := pool w\<lparr>optionsMap := f (optionsMap (pool w))\<rparr>\<rparr>"

abbreviation the_list :: "World \<Rightarrow> ProgramOptionsList" where "the_list w \<equiv> optionsList (pool w)"
abbreviation the_map :: "World \<Rightarrow> ProgramOptionsMap" where "the_map w \<equiv> optionsMap (pool w)"

section \<open>Creating options\<close>

definition set_result :: "(Results \<Rightarrow> Results) \<Rightarrow> unit world_mth" where
  "set_result f w = (Inr (), w\<lparr>results := f (results w)\<rparr>)"

definition PO_Flag :: "string \<Rightarrow> string \<Rightarrow> nat \<Rightarrow> nat world_mth" where
  "PO_Flag label txt r =
     bindM (set_result (\<lambda>v. v\<lparr>bool_at := (bool_at v)(r := False)\<rparr>)) (\<lambda>_.
     new_option (ProgramOption_new label txt 0 (ProgramOption_Boolean r)))"

definition PO_String :: "string \<Rightarrow> string \<Rightarrow> nat \<Rightarrow> UINT_32 \<Rightarrow> nat world_mth" where
  "PO_String label txt r flags = new_option (ProgramOption_new label txt flags (ProgramOption_String r))"

definition PO_Integer :: "string \<Rightarrow> string \<Rightarrow> nat \<Rightarrow> UINT_32 \<Rightarrow> nat world_mth" where
  "PO_Integer label txt r flags = new_option (ProgramOption_new label txt flags (ProgramOption_Integer32 r))"

definition PO_LongLong :: "string \<Rightarrow> string \<Rightarrow> nat \<Rightarrow> UINT_32 \<Rightarrow> nat world_mth" where
  "PO_LongLong label txt r flags = new_option (ProgramOption_new label txt flags (ProgramOption_Integer64 r))"

definition PO_Choice :: "string \<Rightarrow> string \<Rightarrow> nat \<Rightarrow> string list \<Rightarrow> UINT_32 \<Rightarrow> nat world_mth" where
  "PO_Choice label txt r choices flags =
     bindM (set_result (\<lambda>v. v\<lparr>word32_at := (word32_at v)(r := 0)\<rparr>)) (\<lambda>_.
     new_option (ProgramOption_new label txt flags (ProgramOption_Choice r choices)))"

definition PO_Function :: "string \<Rightarrow> string \<Rightarrow> Handler \<Rightarrow> UINT_32 \<Rightarrow> nat world_mth" where
  "PO_Function label txt h flags = new_option (ProgramOption_new label txt flags (ProgramOption_Function h))"

definition PO_Array :: "string \<Rightarrow> string \<Rightarrow> nat \<Rightarrow> UINT_32 \<Rightarrow> nat world_mth" where
  "PO_Array label txt r flags = new_option (ProgramOption_new label txt flags (ProgramOption_StringArray r))"

definition PO_PrintUsage :: "string \<Rightarrow> string \<Rightarrow> nat world_mth" where
  "PO_PrintUsage label txt = PO_Function label txt ProgramOptionsPrintUsage_ptr 0"

section \<open>Registration\<close>

definition IsLastArray :: "bool world_mth" where
  "IsLastArray w =
     (if list_items (the_list w) \<noteq> []
      then bindM (option_at (last (list_items (the_list w)))) (\<lambda>opt. returnM (IsArray opt)) w
      else (Inr False, w))"

definition IsLastOptional :: "bool world_mth" where
  "IsLastOptional w =
     (if list_items (the_list w) \<noteq> []
      then bindM (option_at (last (list_items (the_list w)))) (\<lambda>opt. returnM (\<not> IsRequired opt)) w
      else (Inr False, w))"

definition list_PushBack :: "nat \<Rightarrow> unit world_mth" where
  "list_PushBack a w = (Inr (), set_list (\<lambda>l. l\<lparr>list_items := list_items l @ [a]\<rparr>) w)"

definition ProgramOptionsList_add :: "nat \<Rightarrow> unit world_mth" where
  "ProgramOptionsList_add a = owning a (
     bindM IsLastArray (\<lambda>arr.
     if arr then terminate ''Internal error: Could not add list option, while array-option was added''
     else bindM IsLastOptional (\<lambda>optional.
     bindM (option_at a) (\<lambda>opt.
     if optional \<and> IsRequired opt then
       (\<lambda>w. terminate (''Internal error: Option #'' @ IntegerToString_unsigned (length (list_items (the_list w)) + 1) @
                         '' is required, while previous option is optional'') w)
     else list_PushBack a))))"

text \<open>\<open>- _ A..Z a..z 0..9 ? ! @ $\<close>\<close>

definition IsLabelNameChar :: "char \<Rightarrow> bool" where
  "IsLabelNameChar c \<longleftrightarrow>
     (char_int c \<ge> char_int CHR ''a'' \<and> char_int c \<le> char_int CHR ''z'') \<or>
     (char_int c \<ge> char_int CHR ''A'' \<and> char_int c \<le> char_int CHR ''Z'') \<or>
     (char_int c \<ge> char_int CHR ''0'' \<and> char_int c \<le> char_int CHR ''9'') \<or>
     c = CHR ''-'' \<or> c = CHR ''_'' \<or> c = CHR ''?'' \<or> c = CHR ''!'' \<or> c = CHR ''@'' \<or> c = CHR ''$''"

definition GetLabelName :: "string \<Rightarrow> string" where
  "GetLabelName label = takeWhile IsLabelNameChar label"

definition FindOption :: "string \<Rightarrow> World \<Rightarrow> nat option" where
  "FindOption key w = map_find (label_map (the_map w)) key"

definition put_label :: "string \<Rightarrow> nat \<Rightarrow> unit world_mth" where
  "put_label labelName a w = (Inr (), set_map (\<lambda>m. m\<lparr>label_map := map_put labelName a (label_map m)\<rparr>) w)"

function add_labels :: "nat \<Rightarrow> StringSplitter \<Rightarrow> unit world_mth" where
  "add_labels a splitter w = (case GetNext splitter of
     (None, splitter) \<Rightarrow> (Inr (), w)
   | (Some label, splitter) \<Rightarrow>
       if label = [] \<or> hd label \<noteq> CHR ''-'' then
         terminate (''Internal error: Invalid option's label '' @ quoted label) w
       else if FindOption (GetLabelName label) w \<noteq> None then
         terminate (''Internal error: Duplicate program option '' @ quoted label) w
       else bindM (put_label (GetLabelName label) a) (\<lambda>_. add_labels a splitter) w)"
  by pat_completeness auto

termination
  by (relation "measure (\<lambda>(a, p, w). case begin_at p of None \<Rightarrow> 0 | Some b \<Rightarrow> Suc (length b))")
    (auto simp: GetNext_def strchr_def dropWhile_eq_Nil_conv length_dropWhile_le split: option.splits if_splits
      intro: le_less_trans [OF diff_le_self])

declare add_labels.simps [simp del]

definition map_PushBack :: "nat \<Rightarrow> unit world_mth" where
  "map_PushBack a w = (Inr (), set_map (\<lambda>m. m\<lparr>map_items := map_items m @ [a]\<rparr>) w)"

definition required_push_back :: "nat \<Rightarrow> unit world_mth" where
  "required_push_back a w = (Inr (), set_map (\<lambda>m. m\<lparr>required_items := required_items m @ [a]\<rparr>) w)"

definition ProgramOptionsMap_add :: "nat \<Rightarrow> unit world_mth" where
  "ProgramOptionsMap_add a = owning a (
     bindM (option_at a) (\<lambda>opt.
     if IsArray opt then terminate (''Internal error: Array option '' @ quoted (opt_label opt) @ '' in map'')
     else bindM (add_labels a (StringSplitter_new (opt_label opt) CHR '','')) (\<lambda>_.
     bindM (if IsRequired opt then required_push_back a else returnM ()) (\<lambda>_.
     map_PushBack a))))"

section \<open>Usage\<close>

text \<open>\<^verbatim>\<open>PrintF\<close> with \<^verbatim>\<open>%s\<close> inserts the string.\<close>

definition print_to :: "string \<Rightarrow> (string, program_exit, unit) mth" where
  "print_to s out = (Inr (), out @ s)"

definition ProgramOptionsList_Print :: "World \<Rightarrow> (string, program_exit, unit) mth" where
  "ProgramOptionsList_Print w =
     forM (list_items (the_list w)) (\<lambda>a.
       bindM (option_in (memory w) a) (\<lambda>opt.
       if IsArray opt then print_to ('' ['' @ opt_label opt @ '' ...]'')
       else if IsRequired opt then print_to ('' '' @ opt_label opt)
       else print_to ('' ['' @ opt_label opt @ '']'')))"

definition PrintToTable :: "World \<Rightarrow> nat list \<Rightarrow> unit table_mth" where
  "PrintToTable w items =
     forM items (\<lambda>a.
       bindM (option_in (memory w) a) (\<lambda>opt.
       bindM AddRow (\<lambda>r.
       bindM (AddColumn r (opt_label opt)) (\<lambda>_.
       AddColumn r (GetTextWithRequired opt)))))"

text \<open>A local table, and a local table printer on the stream.\<close>

definition local_table :: "unit table_mth \<Rightarrow> ('s, program_exit, StringsTable) mth" where
  "local_table m s = (case m StringsTable_new of (Inl e, t) \<Rightarrow> (Inl e, s) | (Inr u, t) \<Rightarrow> (Inr t, s))"

definition local_printer :: "unit printer_mth \<Rightarrow> (string, program_exit, unit) mth" where
  "local_printer m out = (case m (StringsTablePrinter_new out) of (r, p) \<Rightarrow> (r, out_stream p))"

definition left_aligned :: "unit printer_mth" where
  "left_aligned = bindM (SetAlignment 0 LEFT) (\<lambda>_. SetAlignment 1 LEFT)"

definition PrintUsage :: "World \<Rightarrow> (string, program_exit, unit) mth" where
  "PrintUsage w =
     bindM (print_to ([CHR 0x0A] @ ''Usage:'' @ [CHR 0x0A] @ [CHR 0x0A] @ ''  '' @ programName (pool w))) (\<lambda>_.
     bindM (if label_map (the_map w) \<noteq> [] then print_to '' {OPTIONS}'' else returnM ()) (\<lambda>_.
     bindM (ProgramOptionsList_Print w) (\<lambda>_.
     bindM (print_to [CHR 0x0A]) (\<lambda>_.
     bindM (local_table (bindM (PrintToTable w (list_items (the_list w))) (\<lambda>_. PrintToTable w (map_items (the_map w))))) (\<lambda>t.
     bindM (local_printer (
       bindM left_aligned (\<lambda>_.
       bindM (if list_items (the_list w) \<noteq> []
              then bindM (PrintString ([CHR 0x0A] @ ''where:'' @ [CHR 0x0A])) (\<lambda>_.
                ProgramOptionsTablePrinter_Print ''  '' [] ''  '' t 0 (vector_Size (list_items (the_list w))))
              else returnM ()) (\<lambda>_.
       bindM (if label_map (the_map w) \<noteq> []
              then bindM (PrintString ([CHR 0x0A] @ ''where OPTIONS can be:'' @ [CHR 0x0A])) (\<lambda>_.
                ProgramOptionsTablePrinter_Print ''  '' [] ''  '' t (vector_Size (list_items (the_list w))) (RowsCount t))
              else returnM ()) (\<lambda>_.
       PrintString [CHR 0x0A]))))) (\<lambda>_.
     throwM (TerminateProgram 0)))))))"

definition to_stderr :: "(World \<Rightarrow> (string, program_exit, 'a) mth) \<Rightarrow> 'a world_mth" where
  "to_stderr m w = (case m w (std_err w) of (r, out) \<Rightarrow> (r, w\<lparr>std_err := out\<rparr>))"

definition ProgramOptionsPrintUsage :: "string option \<Rightarrow> unit world_mth" where
  "ProgramOptionsPrintUsage v = to_stderr PrintUsage"

section \<open>Setting options\<close>

text \<open>\<open>hs\<close> is what the program's own handlers do. A null pointer must not be read.\<close>

definition deref_arg :: "string option \<Rightarrow> (string \<Rightarrow> unit world_mth) \<Rightarrow> unit world_mth" where
  "deref_arg v k = (case v of None \<Rightarrow> throwM Undefined | Some s \<Rightarrow> k s)"

fun find_choice :: "string \<Rightarrow> string list \<Rightarrow> UINT_32 \<Rightarrow> UINT_32 option" where
  "find_choice v [] i = None"
| "find_choice v (c # cs) i = (if v = c then Some i else find_choice v cs (i + 1))"

fun join_choices :: "string list \<Rightarrow> string \<Rightarrow> string" where
  "join_choices [] allOptions = allOptions"
| "join_choices (c # cs) allOptions = join_choices cs ((if allOptions \<noteq> [] then allOptions @ ''|'' else allOptions) @ c)"

definition invalid_value :: "ProgramOption \<Rightarrow> string \<Rightarrow> 'a world_mth" where
  "invalid_value opt expected = terminate (''Invalid value of parameter '' @ quoted (opt_label opt) @ '' ('' @ expected @ '')'')"

definition SetValue_Boolean :: "nat \<Rightarrow> unit world_mth" where
  "SetValue_Boolean r = set_result (\<lambda>x. x\<lparr>bool_at := (bool_at x)(r := True)\<rparr>)"

definition SetValue_String :: "nat \<Rightarrow> string option \<Rightarrow> unit world_mth" where
  "SetValue_String r v = deref_arg v (\<lambda>s. set_result (\<lambda>x. x\<lparr>string_at := (string_at x)(r := s)\<rparr>))"

definition SetValue_Integer :: "ProgramOption \<Rightarrow> ('a::len word \<Rightarrow> Results \<Rightarrow> Results) \<Rightarrow> string option \<Rightarrow> unit world_mth" where
  "SetValue_Integer opt store v =
     (if \<not> IsInteger_ptr v then invalid_value opt ''integer expected''
      else set_result (store (snd (StringToInteger_ptr v))))"

definition SetValue_Choice :: "ProgramOption \<Rightarrow> nat \<Rightarrow> string list \<Rightarrow> string option \<Rightarrow> unit world_mth" where
  "SetValue_Choice opt r choices v = deref_arg v (\<lambda>s. case find_choice s choices 0 of
     Some i \<Rightarrow> set_result (\<lambda>x. x\<lparr>word32_at := (word32_at x)(r := i)\<rparr>)
   | None \<Rightarrow> invalid_value opt (join_choices choices []))"

definition SetValue_StringArray :: "nat \<Rightarrow> string option \<Rightarrow> unit world_mth" where
  "SetValue_StringArray r v = deref_arg v (\<lambda>s. set_result (\<lambda>x. x\<lparr>strings_at := (strings_at x)(r := strings_at x r @ [s])\<rparr>))"

definition SetValue_Function :: "handlers \<Rightarrow> Handler \<Rightarrow> string option \<Rightarrow> unit world_mth" where
  "SetValue_Function hs h v = (case h of ProgramOptionsPrintUsage_ptr \<Rightarrow> ProgramOptionsPrintUsage v | UserHandler n \<Rightarrow> hs n v)"

definition SetValue :: "handlers \<Rightarrow> ProgramOption \<Rightarrow> string option \<Rightarrow> unit world_mth" where
  "SetValue hs opt v = (case opt_kind opt of
     ProgramOption_Boolean r \<Rightarrow> SetValue_Boolean r
   | ProgramOption_String r \<Rightarrow> SetValue_String r v
   | ProgramOption_Integer32 r \<Rightarrow> SetValue_Integer opt (\<lambda>i x. x\<lparr>word32_at := (word32_at x)(r := i)\<rparr>) v
   | ProgramOption_Integer64 r \<Rightarrow> SetValue_Integer opt (\<lambda>i x. x\<lparr>word64_at := (word64_at x)(r := i)\<rparr>) v
   | ProgramOption_Choice r choices \<Rightarrow> SetValue_Choice opt r choices v
   | ProgramOption_StringArray r \<Rightarrow> SetValue_StringArray r v
   | ProgramOption_Function h \<Rightarrow> SetValue_Function hs h v)"

lemmas SetValue_defs = SetValue_def SetValue_Boolean_def SetValue_String_def SetValue_Integer_def SetValue_Choice_def
  SetValue_StringArray_def SetValue_Function_def

definition chars_at :: "char_ptr \<Rightarrow> World \<Rightarrow> string option" where
  "chars_at p w = map_option (\<lambda>(i, k). drop k (argv w ! i)) p"

text \<open>The loop that overwrites the characters up to the NUL.\<close>

definition mask_from :: "nat \<Rightarrow> string \<Rightarrow> string" where
  "mask_from k s = take k s @ map (\<lambda>c. CHR ''*'') (drop k s)"

definition mask_password :: "char_ptr \<Rightarrow> unit world_mth" where
  "mask_password p w = (Inr (), case p of None \<Rightarrow> w | Some (i, k) \<Rightarrow> w\<lparr>argv := (argv w)[i := mask_from k (argv w ! i)]\<rparr>)"

definition set_exists :: "nat \<Rightarrow> ProgramOption world_mth" where
  "set_exists a = bindM (option_at a) (\<lambda>opt w.
     (Inr (opt\<lparr>opt_exists := True\<rparr>), w\<lparr>memory := (memory w)[a := Some (opt\<lparr>opt_exists := True\<rparr>)]\<rparr>))"

definition Set_option :: "handlers \<Rightarrow> nat \<Rightarrow> char_ptr \<Rightarrow> unit world_mth" where
  "Set_option hs a p =
     bindM (set_exists a) (\<lambda>opt.
     bindM (\<lambda>w. SetValue hs opt (chars_at p w) w) (\<lambda>_.
     if p \<noteq> None then bindM (option_at a) (\<lambda>opt. if IsPassword opt then mask_password p else returnM ()) else returnM ()))"

definition advance :: "unit world_mth" where
  "advance w = (Inr (), set_list (\<lambda>l. l\<lparr>currentIndex := currentIndex l + 1\<rparr>) w)"

definition list_SetOptionValue :: "handlers \<Rightarrow> char_ptr \<Rightarrow> unit world_mth" where
  "list_SetOptionValue hs p w =
     (if currentIndex (the_list w) \<ge> length (list_items (the_list w)) then (Inr (), w)
      else let a = list_items (the_list w) ! currentIndex (the_list w) in
        bindM (Set_option hs a p) (\<lambda>_. bindM (option_at a) (\<lambda>opt. if \<not> IsArray opt then advance else returnM ())) w)"

definition map_SetOption :: "handlers \<Rightarrow> string \<Rightarrow> nat \<Rightarrow> char_ptr \<Rightarrow> unit world_mth" where
  "map_SetOption hs key a p =
     bindM (option_at a) (\<lambda>opt.
     if NeedValue opt \<and> p = None then terminate (''Option '' @ quoted key @ '' requires value'')
     else if \<not> NeedValue opt \<and> p \<noteq> None then terminate (''Option '' @ quoted key @ '' does not require value'')
     else Set_option hs a p)"

definition map_SetOptionValue :: "handlers \<Rightarrow> string \<Rightarrow> char_ptr \<Rightarrow> unit world_mth" where
  "map_SetOptionValue hs key p w = (case FindOption key w of
     None \<Rightarrow> terminate (''Unknown option '' @ quoted key) w
   | Some a \<Rightarrow> map_SetOption hs key a p w)"

section \<open>Parsing\<close>

text \<open>\<open>p[k]\<close> of a C string, its NUL included\<close>

definition char_at :: "string \<Rightarrow> nat \<Rightarrow> char" where "char_at s k = deref (drop k s)"

text \<open>One turn of the loop: the index behind the arguments it has consumed.\<close>

definition long_option :: "handlers \<Rightarrow> nat \<Rightarrow> string \<Rightarrow> unit world_mth" where
  "long_option hs i arg = (case strchr (drop 2 arg) CHR ''='' of
     None \<Rightarrow> map_SetOptionValue hs arg None
   | Some v \<Rightarrow> map_SetOptionValue hs (take (length arg - length v) arg) (Some (i, length arg - length v + 1)))"

definition short_option :: "handlers \<Rightarrow> nat \<Rightarrow> nat \<Rightarrow> string \<Rightarrow> nat world_mth" where
  "short_option hs argc i arg w = (case FindOption arg w of
     None \<Rightarrow>
       if list_items (the_list w) = [] then terminate (''Unknown option '' @ quoted arg) w
       else bindM (list_SetOptionValue hs (Some (i, 0))) (\<lambda>_. returnM (i + 1)) w
   | Some a \<Rightarrow>
       bindM (option_at a) (\<lambda>opt.
       if NeedValue opt then
         if i + 1 = argc then terminate (''Option '' @ quoted arg @ '' requires value'')
         else bindM (\<lambda>w. fetch (argv w) (i + 1) w) (\<lambda>_.
              bindM (map_SetOption hs arg a (Some (i + 1, 0))) (\<lambda>_. returnM (i + 2)))
       else bindM (map_SetOption hs arg a None) (\<lambda>_. returnM (i + 1))) w)"

definition parse_arg :: "handlers \<Rightarrow> nat \<Rightarrow> nat \<Rightarrow> nat world_mth" where
  "parse_arg hs argc i =
     bindM (\<lambda>w. fetch (argv w) i w) (\<lambda>arg.
     if char_at arg 0 = CHR ''-'' then
       if char_at arg 1 = CHR ''-'' then bindM (long_option hs i arg) (\<lambda>_. returnM (i + 1))
       else short_option hs argc i arg
     else bindM (list_SetOptionValue hs (Some (i, 0))) (\<lambda>_. returnM (i + 1)))"

lemma parse_arg_progress:
  assumes "parse_arg hs argc i w = (Inr i', w')"
  shows "i < i'"
proof -
  have short: "i < j" if "short_option hs argc i arg u = (Inr j, u')" for arg u j u'
    using that by (auto simp: short_option_def bindM_Inr_iff returnM_def terminate_def throwM_def split: option.splits if_splits)
  show ?thesis
    using assms short by (auto simp: parse_arg_def bindM_Inr_iff returnM_def split: if_splits)
qed

function parse_loop :: "handlers \<Rightarrow> nat \<Rightarrow> nat \<Rightarrow> unit world_mth" where
  "parse_loop hs argc i w =
     (if i < argc then bindM (parse_arg hs argc i) (parse_loop hs argc) w else (Inr (), w))"
  by pat_completeness auto
termination
  by (relation "measure (\<lambda>(hs, argc, i, w). argc - i)") (auto dest: parse_arg_progress)

declare parse_loop.simps [simp del]

text \<open>The loops of both \<^verbatim>\<open>CheckRequired\<close> append to one list.\<close>

fun missing_options :: "(ProgramOption \<Rightarrow> bool) \<Rightarrow> nat list \<Rightarrow> nat list \<Rightarrow> nat list world_mth" where
  "missing_options is_missing [] missing = returnM missing"
| "missing_options is_missing (a # as) missing =
     bindM (option_at a) (\<lambda>opt. missing_options is_missing as (if is_missing opt then missing @ [a] else missing))"

definition list_CheckRequired :: "nat list \<Rightarrow> nat list world_mth" where
  "list_CheckRequired missing w =
     missing_options (\<lambda>opt. IsRequired opt \<and> \<not> opt_exists opt) (list_items (the_list w)) missing w"

definition map_CheckRequired :: "nat list \<Rightarrow> nat list world_mth" where
  "map_CheckRequired missing w = missing_options (\<lambda>opt. \<not> opt_exists opt) (required_items (the_map w)) missing w"

definition missing_table :: "World \<Rightarrow> nat list \<Rightarrow> unit table_mth" where
  "missing_table w missing =
     forM missing (\<lambda>a.
       bindM (option_in (memory w) a) (\<lambda>opt.
       bindM AddRow (\<lambda>r.
       bindM (AddColumn r (opt_label opt)) (\<lambda>_.
       AddColumn r (opt_text opt)))))"

definition print_missing :: "nat list \<Rightarrow> World \<Rightarrow> (string, program_exit, unit) mth" where
  "print_missing missing w =
     bindM (print_to (''Missing required parameters:'' @ [CHR 0x0A])) (\<lambda>_.
     bindM (local_table (missing_table w missing)) (\<lambda>t.
     local_printer (bindM left_aligned (\<lambda>_. ProgramOptionsTablePrinter_Print ''  '' [] ''  '' t 0 (RowsCount t)))))"

definition set_programName :: "unit world_mth" where
  "set_programName = bindM (\<lambda>w. fetch (argv w) 0 w) (\<lambda>name w. (Inr (), w\<lparr>pool := pool w\<lparr>programName := name\<rparr>\<rparr>))"

definition Parse :: "handlers \<Rightarrow> unit world_mth" where
  "Parse hs w =
     bindM set_programName (\<lambda>_.
     bindM (parse_loop hs (length (argv w)) 1) (\<lambda>_.
     bindM (list_CheckRequired []) (\<lambda>missing.
     bindM (map_CheckRequired missing) (\<lambda>missing.
     if missing \<noteq> [] then bindM (to_stderr (print_missing missing)) (\<lambda>_. throwM (TerminateProgram 1))
     else returnM ())))) w"

end
