(* ===== verification/Option_Registration.thy ===== *)
theory Option_Registration
  imports Program_Options
begin

text \<open>
  What registering options promises: the pool owns every option once, each label name leads to a registered option, the
  required options are listed, and the positional arguments are in an order that can be parsed.
\<close>

section \<open>The pool\<close>

definition live :: "World \<Rightarrow> nat \<Rightarrow> bool" where
  "live w a \<longleftrightarrow> a < length (memory w) \<and> memory w ! a \<noteq> None"

definition option_of :: "World \<Rightarrow> nat \<Rightarrow> ProgramOption" where
  "option_of w a = the (memory w ! a)"

definition pool_ok :: "World \<Rightarrow> bool" where
  "pool_ok w \<longleftrightarrow>
     (\<forall>a\<in>set (list_items (the_list w) @ map_items (the_map w)). live w a) \<and>
     distinct (list_items (the_list w) @ map_items (the_map w)) \<and>
     (\<forall>a\<in>set (butlast (list_items (the_list w))). \<not> IsArray (option_of w a)) \<and>
     (\<forall>a\<in>set (map_items (the_map w)). \<not> IsArray (option_of w a)) \<and>
     sorted_wrt (\<lambda>a b. IsRequired (option_of w b) \<longrightarrow> IsRequired (option_of w a)) (list_items (the_list w)) \<and>
     required_items (the_map w) = filter (\<lambda>a. IsRequired (option_of w a)) (map_items (the_map w)) \<and>
     map_ok (label_map (the_map w)) \<and>
     (\<forall>key a. FindOption key w = Some a \<longrightarrow> a \<in> set (map_items (the_map w)))"

lemma option_at_live: "live w a \<Longrightarrow> option_at a w = (Inr (option_of w a), w)"
  by (auto simp: option_at_def option_in_def live_def option_of_def returnM_def)

lemma option_at_Inr: "option_at a w = (Inr opt, w') \<Longrightarrow> w' = w \<and> live w a \<and> opt = option_of w a"
  by (auto simp: option_at_def option_in_def live_def option_of_def returnM_def throwM_def split: if_splits option.splits)

lemma option_at_Inl: "option_at a w = (Inl e, w') \<Longrightarrow> e = Undefined \<and> \<not> live w a"
  by (auto simp: option_at_def option_in_def live_def returnM_def throwM_def split: if_splits option.splits)

lemma terminate_eq: "terminate message w = (Inl (TerminateProgram 1), w\<lparr>std_err := std_err w @ message @ [CHR 0x0A]\<rparr>)"
  by (simp add: terminate_def bindM_def fprintf_stderr_def throwM_def)

lemma owning_eq: "owning a m w = (case m w of (Inl e, w') \<Rightarrow> (Inl e, w'\<lparr>memory := (memory w')[a := None]\<rparr>) | r \<Rightarrow> r)"
  by (auto simp: owning_def catchM_def bindM_def delete_option_def throwM_def split: prod.splits sum.splits)

section \<open>Labels\<close>

fun labels :: "string \<Rightarrow> string list" where
  "labels [] = [[]]"
| "labels (c # s) = (if c = CHR '','' then [] # labels s else (c # hd (labels s)) # tl (labels s))"

lemma labels_not_Nil [simp]: "labels s \<noteq> []"
  by (cases s) auto

lemma labels_no_comma: "CHR '','' \<notin> set s \<Longrightarrow> labels s = [s]"
  by (induction s) auto

lemma labels_comma: "CHR '','' \<notin> set x \<Longrightarrow> labels (x @ CHR '','' # y) = x # labels y"
  by (induction x) auto

text \<open>The loop over the labels as a loop over a list.\<close>

fun register_labels :: "nat \<Rightarrow> string list \<Rightarrow> unit world_mth" where
  "register_labels a [] w = (Inr (), w)"
| "register_labels a (label # ls) w =
     (if label = [] \<or> hd label \<noteq> CHR ''-'' then terminate (''Internal error: Invalid option's label '' @ quoted label) w
      else if FindOption (GetLabelName label) w \<noteq> None then terminate (''Internal error: Duplicate program option '' @ quoted label) w
      else register_labels a ls (snd (put_label (GetLabelName label) a w)))"

lemma GetNext_label:
  assumes "begin_at p = Some b" "delimiter p = CHR '',''"
  obtains "labels b = [b]" "GetNext p = (Some b, p\<lparr>begin_at := None\<rparr>)"
  | x y where "labels b = x # labels y" "GetNext p = (Some x, p\<lparr>begin_at := Some y\<rparr>)" "length y < length b"
proof (cases "CHR '','' \<in> set b")
  case False
  then show ?thesis using that(1) assms by (simp add: GetNext_def strchr_def labels_no_comma)
next
  case True
  then obtain x y where b: "b = x @ CHR '','' # y" "CHR '','' \<notin> set x" by (meson split_list_first)
  then have "dropWhile (\<lambda>z. z \<noteq> CHR '','') b = CHR '','' # y" by (induction x arbitrary: b) auto
  then show ?thesis using that(2) [of x y] b assms True by (simp add: GetNext_def strchr_def labels_comma)
qed

lemma add_labels_eq:
  assumes "begin_at p = Some b" "delimiter p = CHR '',''"
  shows "add_labels a p w = register_labels a (labels b) w"
  using assms
proof (induction "length b" arbitrary: p b w rule: less_induct)
  case less
  show ?case
  proof (rule GetNext_label [OF less.prems])
    assume *: "labels b = [b]" "GetNext p = (Some b, p\<lparr>begin_at := None\<rparr>)"
    have "add_labels a (p\<lparr>begin_at := None\<rparr>) u = (Inr (), u)" for u
      by (simp add: add_labels.simps GetNext_def)
    with * show ?thesis by (subst add_labels.simps) (simp add: bindM_def put_label_def)
  next
    fix x y assume *: "labels b = x # labels y" "GetNext p = (Some x, p\<lparr>begin_at := Some y\<rparr>)" "length y < length b"
    then have "add_labels a (p\<lparr>begin_at := Some y\<rparr>) u = register_labels a (labels y) u" for u
      using less.hyps [of y "p\<lparr>begin_at := Some y\<rparr>"] less.prems(2) by simp
    with * show ?thesis by (subst add_labels.simps) (simp add: bindM_def put_label_def)
  qed
qed

lemma register_labels_Inr:
  assumes "register_labels a ls w = (Inr u, w')" "map_ok (label_map (the_map w))"
  shows "\<exists>m. w' = set_map (\<lambda>x. x\<lparr>label_map := m\<rparr>) w \<and> map_ok m \<and>
    (\<forall>key. map_find m key = (if key \<in> GetLabelName ` set ls then Some a else FindOption key w)) \<and>
    (\<forall>l\<in>set ls. FindOption (GetLabelName l) w = None \<and> l \<noteq> [] \<and> hd l = CHR ''-'') \<and> distinct (map GetLabelName ls)"
  using assms
proof (induction ls arbitrary: w)
  case Nil
  then show ?case by (intro exI [of _ "label_map (the_map w)"]) (simp add: set_map_def FindOption_def)
next
  case (Cons l ls)
  let ?w = "snd (put_label (GetLabelName l) a w)"
  have l: "l \<noteq> []" "hd l = CHR ''-''" "FindOption (GetLabelName l) w = None"
    and r: "register_labels a ls ?w = (Inr u, w')"
    using Cons.prems(1) by (auto simp: terminate_eq split: if_splits)
  have m: "map_ok (label_map (the_map ?w))"
    using Cons.prems(2) by (simp add: put_label_def set_map_def map_put_ok)
  have f: "FindOption key ?w = (if key = GetLabelName l then Some a else FindOption key w)" for key
    using Cons.prems(2) by (simp add: put_label_def set_map_def FindOption_def map_find_put)
  obtain m' where m': "w' = set_map (\<lambda>x. x\<lparr>label_map := m'\<rparr>) ?w" "map_ok m'"
    "\<forall>key. map_find m' key = (if key \<in> GetLabelName ` set ls then Some a else FindOption key ?w)"
    "\<forall>l\<in>set ls. FindOption (GetLabelName l) ?w = None \<and> l \<noteq> [] \<and> hd l = CHR ''-''" "distinct (map GetLabelName ls)"
    using Cons.IH [OF r m] by blast
  have "w' = set_map (\<lambda>x. x\<lparr>label_map := m'\<rparr>) w" using m'(1) by (simp add: put_label_def set_map_def)
  moreover have "\<forall>key. map_find m' key = (if key \<in> GetLabelName ` set (l # ls) then Some a else FindOption key w)"
    using m'(3) by (simp add: f)
  moreover have "\<forall>k\<in>set (l # ls). FindOption (GetLabelName k) w = None \<and> k \<noteq> [] \<and> hd k = CHR ''-''"
    using m'(4) l by (auto simp: f split: if_splits)
  moreover have "distinct (map GetLabelName (l # ls))" using m'(4,5) by (auto simp: f split: if_splits)
  ultimately show ?case using m'(2) by blast
qed

lemma register_labels_Inl:
  "register_labels a ls w = (Inl e, w') \<Longrightarrow> e = TerminateProgram 1 \<and> memory w' = memory w \<and> the_list w' = the_list w"
proof (induction ls arbitrary: w)
  case (Cons l ls)
  have "memory (snd (put_label n a w)) = memory w" "the_list (snd (put_label n a w)) = the_list w" for n
    by (simp_all add: put_label_def set_map_def)
  with Cons show ?case by (auto simp: terminate_eq split: if_splits)
qed simp

lemma register_labels_accepts:
  assumes "\<forall>l\<in>set ls. FindOption (GetLabelName l) w = None \<and> l \<noteq> [] \<and> hd l = CHR ''-''"
    "distinct (map GetLabelName ls)" "map_ok (label_map (the_map w))"
  shows "\<exists>w'. register_labels a ls w = (Inr (), w')"
  using assms
proof (induction ls arbitrary: w)
  case (Cons l ls)
  let ?w = "snd (put_label (GetLabelName l) a w)"
  have m: "map_ok (label_map (the_map ?w))"
    using Cons.prems(3) by (simp add: put_label_def set_map_def map_put_ok)
  have f: "FindOption key ?w = (if key = GetLabelName l then Some a else FindOption key w)" for key
    using Cons.prems(3) by (simp add: put_label_def set_map_def FindOption_def map_find_put)
  have "\<exists>w'. register_labels a ls ?w = (Inr (), w')"
    by (rule Cons.IH) (use Cons.prems m in \<open>fastforce simp: f image_iff\<close>)+
  then show ?case using Cons.prems(1) by simp
qed simp

section \<open>Adding to the list\<close>

definition list_accepts :: "World \<Rightarrow> nat \<Rightarrow> bool" where
  "list_accepts w a \<longleftrightarrow> list_items (the_list w) = [] \<or>
     (let b = last (list_items (the_list w)) in
      \<not> IsArray (option_of w b) \<and> (IsRequired (option_of w b) \<or> \<not> IsRequired (option_of w a)))"

lemma option_of_set [simp]:
  "option_of (set_list f w) = option_of w" "option_of (set_map g w) = option_of w"
  "live (set_list f w) = live w" "live (set_map g w) = live w"
  by (simp_all add: option_of_def live_def set_list_def set_map_def fun_eq_iff)

lemma set_list_simps [simp]:
  "the_list (set_list f w) = f (the_list w)" "the_map (set_list f w) = the_map w"
  "the_list (set_map g w) = the_list w" "the_map (set_map g w) = g (the_map w)"
  "FindOption key (set_list f w) = FindOption key w"
  "memory (set_list f w) = memory w" "memory (set_map g w) = memory w"
  by (simp_all add: set_list_def set_map_def FindOption_def)

lemma list_add_eq:
  assumes "pool_ok w" "live w a"
  shows "\<exists>message. ProgramOptionsList_add a w =
    (if list_accepts w a then (Inr (), set_list (\<lambda>l. l\<lparr>list_items := list_items l @ [a]\<rparr>) w)
     else (Inl (TerminateProgram 1), w\<lparr>std_err := std_err w @ message, memory := (memory w)[a := None]\<rparr>))"
proof (cases "list_items (the_list w) = []")
  case True
  then show ?thesis
    using assms(2) by (simp add: ProgramOptionsList_add_def owning_eq bindM_def IsLastArray_def IsLastOptional_def
        option_at_live list_PushBack_def list_accepts_def)
next
  case False
  let ?b = "last (list_items (the_list w))"
  have b: "live w ?b" using assms(1) False by (simp add: pool_ok_def)
  have arr: "IsLastArray w = (Inr (IsArray (option_of w ?b)), w)" and opt: "IsLastOptional w = (Inr (\<not> IsRequired (option_of w ?b)), w)"
    using False b by (simp_all add: IsLastArray_def IsLastOptional_def bindM_def option_at_live returnM_def)
  show ?thesis
    using False assms(2)
    by (auto simp: ProgramOptionsList_add_def owning_eq bindM_def arr opt option_at_live list_PushBack_def list_accepts_def
        terminate_eq Let_def)
qed

lemma delete_other: "b \<noteq> a \<Longrightarrow> live (w\<lparr>std_err := s, memory := (memory w)[a := None]\<rparr>) b = live w b \<and>
    option_of (w\<lparr>std_err := s, memory := (memory w)[a := None]\<rparr>) b = option_of w b"
  by (simp add: live_def option_of_def)

lemma pool_ok_delete:
  assumes "pool_ok w" "a \<notin> set (list_items (the_list w) @ map_items (the_map w))"
  shows "pool_ok (w\<lparr>std_err := s, memory := (memory w)[a := None]\<rparr>)"
proof -
  let ?w = "w\<lparr>std_err := s, memory := (memory w)[a := None]\<rparr>"
  have same: "live ?w b = live w b" "option_of ?w b = option_of w b"
    if "b \<in> set (list_items (the_list w)) \<or> b \<in> set (map_items (the_map w))" for b
    using that assms(2) delete_other [of b a w s] by (auto simp del: World.simps)
  have f: "FindOption key ?w = FindOption key w" for key by (simp add: FindOption_def)
  have s: "sorted_wrt (\<lambda>x y. IsRequired (option_of ?w y) \<longrightarrow> IsRequired (option_of ?w x)) (list_items (the_list w)) \<longleftrightarrow>
      sorted_wrt (\<lambda>x y. IsRequired (option_of w y) \<longrightarrow> IsRequired (option_of w x)) (list_items (the_list w))"
    by (auto simp: sorted_wrt_iff_nth_less same)
  have r: "filter (\<lambda>x. IsRequired (option_of ?w x)) (map_items (the_map w)) = filter (\<lambda>x. IsRequired (option_of w x)) (map_items (the_map w))"
    by (rule filter_cong) (simp_all add: same)
  show ?thesis
    using assms(1) unfolding pool_ok_def f
    by (auto simp: same s r in_set_butlastD)
qed

lemma pool_ok_list_add:
  assumes "pool_ok w" "live w a" "a \<notin> set (list_items (the_list w) @ map_items (the_map w))" "list_accepts w a"
  shows "pool_ok (set_list (\<lambda>l. l\<lparr>list_items := list_items l @ [a]\<rparr>) w)"
proof -
  have "IsRequired (option_of w a) \<longrightarrow> IsRequired (option_of w b)" if "b \<in> set (list_items (the_list w))" for b
    using that assms(1,4)
    by (cases "list_items (the_list w)" rule: rev_cases) (auto simp: pool_ok_def list_accepts_def Let_def sorted_wrt_append)
  moreover have "\<not> IsArray (option_of w b)" if "b \<in> set (list_items (the_list w))" for b
    using that assms(1,4) by (cases "list_items (the_list w)" rule: rev_cases) (auto simp: pool_ok_def list_accepts_def Let_def)
  ultimately show ?thesis
    using assms(1-3) by (auto simp: pool_ok_def sorted_wrt_append)
qed

section \<open>Adding to the map\<close>

definition map_accepts :: "World \<Rightarrow> nat \<Rightarrow> bool" where
  "map_accepts w a \<longleftrightarrow> \<not> IsArray (option_of w a) \<and>
     (\<forall>l\<in>set (labels (opt_label (option_of w a))). l \<noteq> [] \<and> hd l = CHR ''-'' \<and> FindOption (GetLabelName l) w = None) \<and>
     distinct (map GetLabelName (labels (opt_label (option_of w a))))"

lemma map_add_Inr:
  assumes "pool_ok w" "live w a" "a \<notin> set (list_items (the_list w) @ map_items (the_map w))" "map_accepts w a"
  shows "\<exists>w'. ProgramOptionsMap_add a w = (Inr (), w') \<and> pool_ok w' \<and> map_items (the_map w') = map_items (the_map w) @ [a] \<and>
    (\<forall>key. FindOption key w' = (if key \<in> GetLabelName ` set (labels (opt_label (option_of w a))) then Some a else FindOption key w))"
proof -
  let ?o = "option_of w a"
  have ok: "map_ok (label_map (the_map w))" using assms(1) by (simp add: pool_ok_def)
  obtain w1 where r: "register_labels a (labels (opt_label ?o)) w = (Inr (), w1)"
    using register_labels_accepts [of "labels (opt_label ?o)" w a] assms(4) ok by (auto simp: map_accepts_def)
  obtain m where m: "w1 = set_map (\<lambda>x. x\<lparr>label_map := m\<rparr>) w" "map_ok m"
    "\<forall>key. map_find m key = (if key \<in> GetLabelName ` set (labels (opt_label ?o)) then Some a else FindOption key w)"
    using register_labels_Inr [OF r ok] by blast
  have l: "add_labels a (StringSplitter_new (opt_label ?o) CHR '','') w = (Inr (), w1)"
    using r by (simp add: add_labels_eq [of _ "opt_label ?o"] StringSplitter_new_def)
  let ?rs = "required_items (the_map w) @ (if IsRequired ?o then [a] else [])"
  let ?w = "set_map (\<lambda>x. x\<lparr>label_map := m, required_items := ?rs, map_items := map_items x @ [a]\<rparr>) w"
  have "ProgramOptionsMap_add a w = (Inr (), ?w)"
    using assms(2,4) l by (simp add: ProgramOptionsMap_add_def owning_eq bindM_def option_at_live map_accepts_def
        required_push_back_def map_PushBack_def returnM_def m(1) set_map_def)
  moreover have f: "FindOption key ?w = map_find m key" for key by (simp add: FindOption_def)
  moreover have "pool_ok ?w"
    using assms m(2,3) unfolding pool_ok_def f by (auto simp: map_accepts_def split: if_splits)
  ultimately show ?thesis using m(3) by auto
qed

lemma map_add_Inl:
  assumes "live w a" "\<not> map_accepts w a" "map_ok (label_map (the_map w))"
  shows "\<exists>w'. ProgramOptionsMap_add a w = (Inl (TerminateProgram 1), w') \<and> \<not> live w' a \<and> the_list w' = the_list w"
proof (cases "IsArray (option_of w a)")
  case True
  then show ?thesis using assms(1)
    by (simp add: ProgramOptionsMap_add_def owning_eq bindM_def option_at_live terminate_eq live_def)
next
  case False
  let ?ls = "labels (opt_label (option_of w a))"
  obtain e w1 where r: "register_labels a ?ls w = (Inl e, w1)"
  proof (cases "register_labels a ?ls w")
    case (Pair r w1)
    then show ?thesis
      using that register_labels_Inr [of a ?ls w _ w1] assms(2,3) False by (cases r) (auto simp: map_accepts_def)
  qed
  have "e = TerminateProgram 1 \<and> memory w1 = memory w \<and> the_list w1 = the_list w" by (rule register_labels_Inl [OF r])
  then show ?thesis
    using False assms(1) r
    by (simp add: ProgramOptionsMap_add_def owning_eq bindM_def option_at_live add_labels_eq [of _ "opt_label (option_of w a)"]
        StringSplitter_new_def live_def)
qed

text \<open>C13. Registering an option: the pool stays well formed, with every label name leading to the option, or the program is
  told to terminate and the option is deleted. A list refuses an option after an array, and a required one after an optional
  one; a map refuses arrays, labels without a dash and label names that are taken.\<close>

theorem Registration:
  assumes "pool_ok w" "live w a" "a \<notin> set (list_items (the_list w) @ map_items (the_map w))"
  shows "(case ProgramOptionsList_add a w of
      (Inr u, w') \<Rightarrow> list_accepts w a \<and> pool_ok w' \<and> list_items (the_list w') = list_items (the_list w) @ [a] \<and> the_map w' = the_map w
    | (Inl e, w') \<Rightarrow> \<not> list_accepts w a \<and> e = TerminateProgram 1 \<and> pool_ok w' \<and> \<not> live w' a \<and> pool w' = pool w) \<and>
   (case ProgramOptionsMap_add a w of
      (Inr u, w') \<Rightarrow> map_accepts w a \<and> pool_ok w' \<and> map_items (the_map w') = map_items (the_map w) @ [a] \<and>
        (\<forall>key. FindOption key w' = (if key \<in> GetLabelName ` set (labels (opt_label (option_of w a))) then Some a else FindOption key w))
    | (Inl e, w') \<Rightarrow> \<not> map_accepts w a \<and> e = TerminateProgram 1 \<and> \<not> live w' a \<and> the_list w' = the_list w)"
proof (rule conjI)
  have dead: "\<not> live (w\<lparr>std_err := s, memory := (memory w)[a := None]\<rparr>) a" for s by (simp add: live_def)
  show "case ProgramOptionsList_add a w of
      (Inr u, w') \<Rightarrow> list_accepts w a \<and> pool_ok w' \<and> list_items (the_list w') = list_items (the_list w) @ [a] \<and> the_map w' = the_map w
    | (Inl e, w') \<Rightarrow> \<not> list_accepts w a \<and> e = TerminateProgram 1 \<and> pool_ok w' \<and> \<not> live w' a \<and> pool w' = pool w"
    using list_add_eq [OF assms(1,2)] pool_ok_list_add [OF assms] pool_ok_delete [OF assms(1,3)] dead
    by (cases "list_accepts w a") auto
  have "map_ok (label_map (the_map w))" using assms(1) by (simp add: pool_ok_def)
  then show "case ProgramOptionsMap_add a w of
      (Inr u, w') \<Rightarrow> map_accepts w a \<and> pool_ok w' \<and> map_items (the_map w') = map_items (the_map w) @ [a] \<and>
        (\<forall>key. FindOption key w' = (if key \<in> GetLabelName ` set (labels (opt_label (option_of w a))) then Some a else FindOption key w))
    | (Inl e, w') \<Rightarrow> \<not> map_accepts w a \<and> e = TerminateProgram 1 \<and> \<not> live w' a \<and> the_list w' = the_list w"
    using map_add_Inr [OF assms] map_add_Inl [OF assms(2)] by (cases "map_accepts w a") auto
qed

definition sample_world :: "ProgramOption list \<Rightarrow> World" where
  "sample_world opts =
     \<lparr>memory = map Some opts, pool = ProgramOptionsPool_new,
      results = \<lparr>bool_at = (\<lambda>_. False), string_at = (\<lambda>_. []), word32_at = (\<lambda>_. 0), word64_at = (\<lambda>_. 0), strings_at = (\<lambda>_. [])\<rparr>,
      argv = [], std_err = []\<rparr>"

lemma sample_pool: "pool_ok (sample_world opts)"
  by (simp add: sample_world_def pool_ok_def ProgramOptionsPool_new_def FindOption_def map_find_def map_ok_def)

theorem Registration_witness:
  "\<exists>w'. ProgramOptionsMap_add 0 (sample_world [ProgramOption_new ''-p,--port=PORT'' ''port'' REQUIRED (ProgramOption_Integer32 0)]) = (Inr (), w') \<and>
     pool_ok w' \<and> FindOption ''--port'' w' = Some 0"
proof -
  let ?w = "sample_world [ProgramOption_new ''-p,--port=PORT'' ''port'' REQUIRED (ProgramOption_Integer32 0)]"
  have "live ?w 0" "0 \<notin> set (list_items (the_list ?w) @ map_items (the_map ?w))"
    by (simp_all add: sample_world_def live_def ProgramOptionsPool_new_def)
  note R = Registration [OF sample_pool this, THEN conjunct2]
  have l: "labels (opt_label (option_of ?w 0)) = [''-p'', ''--port=PORT'']"
    by (simp add: sample_world_def option_of_def ProgramOption_new_def)
  have n: "GetLabelName ''-p'' = ''-p''" "GetLabelName ''--port=PORT'' = ''--port''"
    by (simp_all add: GetLabelName_def IsLabelNameChar_def char_int_def char_index_def)
  have "map_accepts ?w 0"
    unfolding map_accepts_def l by (simp add: n) (simp add: sample_world_def option_of_def ProgramOption_new_def IsArray_def
        FindOption_def map_find_def ProgramOptionsPool_new_def)
  with R show ?thesis unfolding l by (auto simp: n split: prod.splits sum.splits)
qed

text \<open>A failed registration in a map keeps the labels in front of the bad one: they lead to the deleted option.\<close>

lemma failed_registration_dangles:
  "(case bindM (catchM (ProgramOptionsMap_add 0) (\<lambda>e. returnM ())) (\<lambda>_. map_SetOptionValue hs ''-a'' None)
      (sample_world [ProgramOption_new ''-a,b'' [] 0 (ProgramOption_Boolean 0)]) of (r, w) \<Rightarrow> r) = Inl Undefined"
proof -
  let ?w = "sample_world [ProgramOption_new ''-a,b'' [] 0 (ProgramOption_Boolean 0)]"
  have "opt_label (option_of ?w 0) = ''-a,b''" by (simp add: sample_world_def option_of_def ProgramOption_new_def)
  have "add_labels 0 (StringSplitter_new ''-a,b'' CHR '','') ?w = register_labels 0 [''-a'', ''b''] ?w"
    by (simp add: add_labels_eq [of _ "''-a,b''"] StringSplitter_new_def)
  moreover have "GetLabelName ''-a'' = ''-a''" by (simp add: GetLabelName_def IsLabelNameChar_def char_int_def char_index_def)
  ultimately show ?thesis
    by (simp add: ProgramOptionsMap_add_def owning_eq bindM_def catchM_def option_at_def option_in_def sample_world_def
        ProgramOption_new_def IsArray_def returnM_def terminate_eq FindOption_def map_find_def put_label_def set_map_def
        ProgramOptionsPool_new_def map_SetOptionValue_def map_SetOption_def throwM_def)
qed

end
