(* ===== verification/Option_Parsing.thy ===== *)
theory Option_Parsing
  imports Option_Registration
begin

text \<open>
  What parsing promises. The arguments are read as settings: a setting names an option and gives it a value. Parsing the
  rendered settings assigns the values in order, and the passwords among the arguments are wiped.
\<close>

section \<open>What parsing never changes\<close>

text \<open>The options apart from having been seen, who owns them and the labels.\<close>

definition static :: "World \<Rightarrow> ProgramOption option list \<times> nat list \<times> ProgramOptionsMap" where
  "static w = (map (map_option (\<lambda>opt. opt\<lparr>opt_exists := False\<rparr>)) (memory w), list_items (the_list w), the_map w)"

lemma static_simps [simp]:
  "static (w\<lparr>results := r\<rparr>) = static w" "static (w\<lparr>argv := as\<rparr>) = static w" "static (w\<lparr>std_err := s\<rparr>) = static w"
  "static (w\<lparr>pool := pool w\<lparr>programName := n\<rparr>\<rparr>) = static w"
  by (simp_all add: static_def)

lemma static_list_items: "static w' = static w \<Longrightarrow> list_items (the_list w') = list_items (the_list w) \<and> the_map w' = the_map w"
  by (simp add: static_def)

lemma static_FindOption: "static w' = static w \<Longrightarrow> FindOption key w' = FindOption key w"
  by (simp add: static_def FindOption_def)

lemma static_memory:
  assumes "static w' = static w"
  shows "length (memory w') = length (memory w) \<and>
    (a < length (memory w) \<longrightarrow> map_option (\<lambda>opt. opt\<lparr>opt_exists := False\<rparr>) (memory w' ! a) = map_option (\<lambda>opt. opt\<lparr>opt_exists := False\<rparr>) (memory w ! a))"
proof -
  have m: "map (map_option (\<lambda>opt. opt\<lparr>opt_exists := False\<rparr>)) (memory w') = map (map_option (\<lambda>opt. opt\<lparr>opt_exists := False\<rparr>)) (memory w)"
    using assms by (simp add: static_def)
  then have l: "length (memory w') = length (memory w)" by (rule map_eq_imp_length_eq)
  show ?thesis using l arg_cong [OF m, of "\<lambda>xs. xs ! a"] by auto
qed

lemma static_live: "static w' = static w \<Longrightarrow> live w' a = live w a"
  using static_memory [of w' w a] by (cases "memory w' ! a"; cases "memory w ! a") (auto simp: live_def)

lemma static_option:
  assumes "static w' = static w" "live w a"
  shows "(option_of w' a)\<lparr>opt_exists := e\<rparr> = (option_of w a)\<lparr>opt_exists := e\<rparr>"
proof -
  obtain x y where "memory w' ! a = Some x" "memory w ! a = Some y" "x\<lparr>opt_exists := False\<rparr> = y\<lparr>opt_exists := False\<rparr>"
    using static_memory [OF assms(1), of a] assms static_live [OF assms(1), of a] by (auto simp: live_def)
  then have "x\<lparr>opt_exists := False\<rparr>\<lparr>opt_exists := e\<rparr> = y\<lparr>opt_exists := False\<rparr>\<lparr>opt_exists := e\<rparr>" by simp
  with \<open>memory w' ! a = Some x\<close> \<open>memory w ! a = Some y\<close> show ?thesis by (simp add: option_of_def)
qed

lemma static_fields:
  assumes "static w' = static w" "live w a"
  shows "opt_kind (option_of w' a) = opt_kind (option_of w a)" "opt_flags (option_of w' a) = opt_flags (option_of w a)"
    "opt_label (option_of w' a) = opt_label (option_of w a)" "opt_text (option_of w' a) = opt_text (option_of w a)"
  using static_option [OF assms, of False]
  by (metis ProgramOption.ext_inject ProgramOption.surjective ProgramOption.update_convs(4))+

lemma static_traits:
  assumes "static w' = static w" "live w a"
  shows "IsArray (option_of w' a) = IsArray (option_of w a)" "NeedValue (option_of w' a) = NeedValue (option_of w a)"
    "IsRequired (option_of w' a) = IsRequired (option_of w a)" "IsPassword (option_of w' a) = IsPassword (option_of w a)"
  using static_fields [OF assms] by (simp_all add: IsArray_def NeedValue_def IsRequired_def IsPassword_def)

lemma pool_ok_static:
  assumes "pool_ok w" "static w' = static w"
  shows "pool_ok w'"
proof -
  note same = static_list_items [OF assms(2)] static_FindOption [OF assms(2)] static_live [OF assms(2)]
  let ?xs = "list_items (the_list w)" and ?ys = "map_items (the_map w)"
  have lv: "live w a" if "a \<in> set ?xs \<or> a \<in> set ?ys" for a using that assms(1) by (auto simp: pool_ok_def)
  have s: "sorted_wrt (\<lambda>x y. IsRequired (option_of w' y) \<longrightarrow> IsRequired (option_of w' x)) ?xs \<longleftrightarrow>
      sorted_wrt (\<lambda>x y. IsRequired (option_of w y) \<longrightarrow> IsRequired (option_of w x)) ?xs"
    by (auto simp: sorted_wrt_iff_nth_less static_traits [OF assms(2) lv])
  have r: "filter (\<lambda>x. IsRequired (option_of w' x)) ?ys = filter (\<lambda>x. IsRequired (option_of w x)) ?ys"
    by (rule filter_cong) (simp_all add: static_traits [OF assms(2) lv])
  show ?thesis
    using assms(1) unfolding pool_ok_def
    by (auto simp: same s r static_traits [OF assms(2) lv] in_set_butlastD)
qed

section \<open>Setting one option\<close>

definition assign :: "ProgramOption \<Rightarrow> string \<Rightarrow> Results \<Rightarrow> Results" where
  "assign opt v x = (case opt_kind opt of
     ProgramOption_Boolean r \<Rightarrow> x\<lparr>bool_at := (bool_at x)(r := True)\<rparr>
   | ProgramOption_String r \<Rightarrow> x\<lparr>string_at := (string_at x)(r := v)\<rparr>
   | ProgramOption_Integer32 r \<Rightarrow> x\<lparr>word32_at := (word32_at x)(r := snd (StringToInteger_ptr (Some v)))\<rparr>
   | ProgramOption_Integer64 r \<Rightarrow> x\<lparr>word64_at := (word64_at x)(r := snd (StringToInteger_ptr (Some v)))\<rparr>
   | ProgramOption_Choice r choices \<Rightarrow> x\<lparr>word32_at := (word32_at x)(r := the (find_choice v choices 0))\<rparr>
   | ProgramOption_StringArray r \<Rightarrow> x\<lparr>strings_at := (strings_at x)(r := strings_at x r @ [v])\<rparr>
   | ProgramOption_Function h \<Rightarrow> x)"

definition accepts_value :: "ProgramOption \<Rightarrow> string \<Rightarrow> bool" where
  "accepts_value opt v = (case opt_kind opt of
     ProgramOption_Integer32 r \<Rightarrow> IsInteger_ptr (Some v)
   | ProgramOption_Integer64 r \<Rightarrow> IsInteger_ptr (Some v)
   | ProgramOption_Choice r choices \<Rightarrow> v \<in> set choices
   | ProgramOption_Function h \<Rightarrow> False
   | _ \<Rightarrow> True)"

definition is_flag :: "ProgramOption \<Rightarrow> bool" where
  "is_flag opt = (case opt_kind opt of ProgramOption_Boolean r \<Rightarrow> True | _ \<Rightarrow> False)"

lemma find_choice_iff: "find_choice v cs i = None \<longleftrightarrow> v \<notin> set cs"
  by (induction cs arbitrary: i) auto

lemma SetValue_accepted:
  assumes "accepts_value opt v" "s = Some v \<or> is_flag opt"
  shows "SetValue hs opt s w = (Inr (), w\<lparr>results := assign opt v (results w)\<rparr>)"
  using assms
  by (auto simp: SetValue_defs accepts_value_def is_flag_def assign_def set_result_def deref_arg_def find_choice_iff
      split: OptionKind.splits option.splits)

definition stored :: "nat \<Rightarrow> string \<Rightarrow> char_ptr \<Rightarrow> World \<Rightarrow> World" where
  "stored a v p w = w\<lparr>
     memory := (memory w)[a := Some ((option_of w a)\<lparr>opt_exists := True\<rparr>)],
     results := assign (option_of w a) v (results w),
     argv := (case p of None \<Rightarrow> argv w
              | Some (i, k) \<Rightarrow> if IsPassword (option_of w a) then (argv w)[i := mask_from k (argv w ! i)] else argv w)\<rparr>"

lemma assign_exists [simp]: "assign (opt\<lparr>opt_exists := e\<rparr>) = assign opt" "accepts_value (opt\<lparr>opt_exists := e\<rparr>) = accepts_value opt"
  "is_flag (opt\<lparr>opt_exists := e\<rparr>) = is_flag opt" "IsPassword (opt\<lparr>opt_exists := e\<rparr>) = IsPassword opt"
  by (simp_all add: assign_def accepts_value_def is_flag_def IsPassword_def fun_eq_iff)

lemma set_exists_live:
  "live w a \<Longrightarrow> set_exists a w = (Inr ((option_of w a)\<lparr>opt_exists := True\<rparr>),
     w\<lparr>memory := (memory w)[a := Some ((option_of w a)\<lparr>opt_exists := True\<rparr>)]\<rparr>)"
  by (simp add: set_exists_def bindM_def option_at_live)

lemma Set_option_stored:
  assumes "live w a" "accepts_value (option_of w a) v" "chars_at p w = Some v \<or> p = None \<and> is_flag (option_of w a)"
  shows "Set_option hs a p w = (Inr (), stored a v p w)"
proof -
  let ?o = "(option_of w a)\<lparr>opt_exists := True\<rparr>"
  let ?w = "w\<lparr>memory := (memory w)[a := Some ?o]\<rparr>"
  have s: "SetValue hs ?o (chars_at p ?w) ?w = (Inr (), ?w\<lparr>results := assign (option_of w a) v (results w)\<rparr>)"
    using SetValue_accepted [of ?o v "chars_at p w" hs ?w] assms(2,3) by (auto simp: chars_at_def)
  have o': "option_at a (?w\<lparr>results := r\<rparr>) = (Inr ?o, ?w\<lparr>results := r\<rparr>)" for r
    using assms(1) by (simp add: option_at_def option_in_def live_def returnM_def)
  show ?thesis
    using assms(1) s
    by (cases p) (auto simp: Set_option_def bindM_def set_exists_live o' stored_def mask_password_def returnM_def)
qed

lemma static_stored: "live w a \<Longrightarrow> static (stored a v p w) = static w"
  by (auto simp: static_def stored_def map_update live_def option_of_def list_update_same_conv)

record Progress =
  cur :: nat
  seen :: "nat set"
  vars :: Results

definition progress_of :: "World \<Rightarrow> Progress" where
  "progress_of w = \<lparr>cur = currentIndex (the_list w), seen = {a. live w a \<and> opt_exists (option_of w a)}, vars = results w\<rparr>"

lemma cur_progress [simp]: "cur (progress_of w) = currentIndex (the_list w)"
  by (simp add: progress_of_def)

lemma progress_stored:
  assumes "live w a"
  shows "progress_of (stored a v p w) =
    \<lparr>cur = cur (progress_of w), seen = insert a (seen (progress_of w)), vars = assign (option_of w a) v (vars (progress_of w))\<rparr>"
proof -
  have "live (stored a v p w) b = live w b" for b by (rule static_live [OF static_stored [OF assms]])
  moreover have "option_of (stored a v p w) b = (if b = a then (option_of w a)\<lparr>opt_exists := True\<rparr> else option_of w b)" for b
    using assms by (simp add: stored_def option_of_def live_def)
  ultimately show ?thesis using assms by (auto simp: progress_of_def stored_def)
qed

section \<open>Settings\<close>

text \<open>\<^verbatim>\<open>--name=value\<close>, \<^verbatim>\<open>--name\<close>, \<^verbatim>\<open>-n value\<close>, \<^verbatim>\<open>-n\<close> and a value alone\<close>

datatype Setting = Long string string | LongFlag string | Short string string | ShortFlag string | Positional string

fun render :: "Setting \<Rightarrow> string list" where
  "render (Long n v) = [n @ CHR ''='' # v]"
| "render (LongFlag n) = [n]"
| "render (Short n v) = [n, v]"
| "render (ShortFlag n) = [n]"
| "render (Positional v) = [v]"

fun setting_value :: "Setting \<Rightarrow> string" where
  "setting_value (Long n v) = v"
| "setting_value (Short n v) = v"
| "setting_value (Positional v) = v"
| "setting_value s = []"

text \<open>The option a setting is for: the named one, or the next of the list.\<close>

fun target :: "World \<Rightarrow> nat \<Rightarrow> Setting \<Rightarrow> nat option" where
  "target w c (Positional v) = (if c < length (list_items (the_list w)) then Some (list_items (the_list w) ! c) else None)"
| "target w c (Long n v) = FindOption n w"
| "target w c (LongFlag n) = FindOption n w"
| "target w c (Short n v) = FindOption n w"
| "target w c (ShortFlag n) = FindOption n w"

definition long_name :: "string \<Rightarrow> bool" where
  "long_name n \<longleftrightarrow> take 2 n = ''--'' \<and> CHR ''='' \<notin> set n"

definition short_name :: "string \<Rightarrow> bool" where
  "short_name n \<longleftrightarrow> char_at n 0 = CHR ''-'' \<and> char_at n 1 \<noteq> CHR ''-''"

definition takes :: "World \<Rightarrow> nat option \<Rightarrow> string \<Rightarrow> bool" where
  "takes w t v = (case t of None \<Rightarrow> False | Some a \<Rightarrow> NeedValue (option_of w a) \<and> accepts_value (option_of w a) v)"

definition is_flag_at :: "World \<Rightarrow> nat option \<Rightarrow> bool" where
  "is_flag_at w t = (case t of None \<Rightarrow> False | Some a \<Rightarrow> is_flag (option_of w a))"

text \<open>A value alone may begin with a dash when no option has this name. Behind the last option of the list it is ignored.\<close>

fun well_formed :: "World \<Rightarrow> nat \<Rightarrow> Setting \<Rightarrow> bool" where
  "well_formed w c (Long n v) = (long_name n \<and> takes w (FindOption n w) v)"
| "well_formed w c (LongFlag n) = (long_name n \<and> is_flag_at w (FindOption n w))"
| "well_formed w c (Short n v) = (short_name n \<and> takes w (FindOption n w) v)"
| "well_formed w c (ShortFlag n) = (short_name n \<and> is_flag_at w (FindOption n w))"
| "well_formed w c (Positional v) =
     ((char_at v 0 \<noteq> CHR ''-'' \<or> short_name v \<and> FindOption v w = None \<and> list_items (the_list w) \<noteq> []) \<and>
      (case target w c (Positional v) of None \<Rightarrow> True | Some a \<Rightarrow> accepts_value (option_of w a) v))"

definition step :: "World \<Rightarrow> Setting \<Rightarrow> Progress \<Rightarrow> Progress" where
  "step w s p = (case target w (cur p) s of None \<Rightarrow> p | Some a \<Rightarrow>
     \<lparr>cur = (case s of Positional v \<Rightarrow> if IsArray (option_of w a) then cur p else cur p + 1 | _ \<Rightarrow> cur p),
      seen = insert a (seen p),
      vars = assign (option_of w a) (setting_value s) (vars p)\<rparr>)"

fun replace_value :: "string \<Rightarrow> Setting \<Rightarrow> Setting" where
  "replace_value v (Long n u) = Long n v"
| "replace_value v (Short n u) = Short n v"
| "replace_value v (Positional u) = Positional v"
| "replace_value v s = s"

definition wiped :: "World \<Rightarrow> nat \<Rightarrow> Setting \<Rightarrow> Setting" where
  "wiped w c s = (case target w c s of None \<Rightarrow> s | Some a \<Rightarrow>
     if IsPassword (option_of w a) then replace_value (replicate (length (setting_value s)) CHR ''*'') s else s)"

section \<open>One setting\<close>

lemma flag_traits: "is_flag opt \<Longrightarrow> \<not> NeedValue opt \<and> accepts_value opt v \<and> \<not> IsArray opt"
  by (auto simp: is_flag_def NeedValue_def accepts_value_def IsArray_def split: OptionKind.splits)

lemma map_SetOption_stored:
  assumes "live w a" "NeedValue (option_of w a) \<and> accepts_value (option_of w a) v \<and> chars_at p w = Some v \<or> p = None \<and> is_flag (option_of w a)"
  shows "map_SetOption hs key a p w = (Inr (), stored a v p w)"
proof -
  have "accepts_value (option_of w a) v" "chars_at p w = Some v \<or> p = None \<and> is_flag (option_of w a)"
    using assms(2) flag_traits by auto
  note s = Set_option_stored [OF assms(1) this]
  have "p \<noteq> None \<and> NeedValue (option_of w a) \<or> p = None \<and> \<not> NeedValue (option_of w a)"
    using assms(2) flag_traits by (auto simp: chars_at_def)
  with s show ?thesis using assms(1) by (auto simp: map_SetOption_def bindM_def option_at_live)
qed

lemma strchr_equals:
  assumes "long_name n"
  shows "strchr (drop 2 (n @ CHR ''='' # v)) CHR ''='' = Some (CHR ''='' # v)" "strchr (drop 2 n) CHR ''='' = None"
proof -
  have n: "n = take 2 n @ drop 2 n" by simp
  obtain r where r: "n = CHR ''-'' # CHR ''-'' # r" using assms n by (auto simp: long_name_def)
  have "CHR ''='' \<notin> set r" using assms r by (simp add: long_name_def)
  then have "dropWhile (\<lambda>x. x \<noteq> CHR ''='') (r @ CHR ''='' # v) = CHR ''='' # v"
    by (induction r) auto
  with \<open>CHR ''='' \<notin> set r\<close> show "strchr (drop 2 (n @ CHR ''='' # v)) CHR ''='' = Some (CHR ''='' # v)" "strchr (drop 2 n) CHR ''='' = None"
    by (simp_all add: r strchr_def)
qed

lemma long_name_chars: "long_name n \<Longrightarrow> char_at (n @ r) 0 = CHR ''-'' \<and> char_at (n @ r) 1 = CHR ''-''"
  by (cases n; cases "tl n") (auto simp: long_name_def char_at_def)

text \<open>The state after a setting, and what is to be shown of it.\<close>

definition outcome :: "World \<Rightarrow> Setting \<Rightarrow> string list \<Rightarrow> string list \<Rightarrow> World \<Rightarrow> bool" where
  "outcome w s pre rest w' \<longleftrightarrow>
     static w' = static w \<and> progress_of w' = step w s (progress_of w) \<and>
     argv w' = pre @ render (wiped w (currentIndex (the_list w)) s) @ rest \<and>
     std_err w' = std_err w \<and> programName (pool w') = programName (pool w)"

lemma mask_from_append: "mask_from (length n) (n @ v) = n @ replicate (length v) CHR ''*''"
  by (simp add: mask_from_def map_replicate_const)

lemma outcome_stored:
  assumes "live w a" "target w (currentIndex (the_list w)) s = Some a" "\<And>v. s \<noteq> Positional v"
    "argv w = pre @ render s @ rest"
    "p = (case s of Long n v \<Rightarrow> Some (length pre, length n + 1) | Short n v \<Rightarrow> Some (length pre + 1, 0) | _ \<Rightarrow> None)"
  shows "outcome w s pre rest (stored a (setting_value s) p w)"
proof -
  have "progress_of (stored a (setting_value s) p w) = step w s (progress_of w)"
    using assms(2,3) by (cases s) (auto simp: progress_stored [OF assms(1)] step_def)
  moreover have "argv (stored a (setting_value s) p w) = pre @ render (wiped w (currentIndex (the_list w)) s) @ rest"
    using assms(2-5) mask_from_append [of "n @ [CHR ''='']" v for n v] mask_from_append [of "[]"]
    by (cases s) (auto simp: stored_def wiped_def list_update_append nth_append)
  ultimately show ?thesis
    using static_stored [OF assms(1)] by (simp add: outcome_def stored_def)
qed

lemma list_SetOptionValue_outcome:
  assumes "pool_ok w" "argv w = pre @ [v] @ rest"
    "case target w (currentIndex (the_list w)) (Positional v) of None \<Rightarrow> True | Some a \<Rightarrow> accepts_value (option_of w a) v"
  shows "\<exists>w'. list_SetOptionValue hs (Some (length pre, 0)) w = (Inr (), w') \<and> outcome w (Positional v) pre rest w'"
proof (cases "currentIndex (the_list w) < length (list_items (the_list w))")
  case False
  then show ?thesis using assms(2) by (simp add: list_SetOptionValue_def outcome_def step_def wiped_def progress_of_def)
next
  case True
  define a where "a = list_items (the_list w) ! currentIndex (the_list w)"
  have t: "target w (currentIndex (the_list w)) (Positional v) = Some a" using True by (simp add: a_def)
  have l: "live w a" using assms(1) True by (simp add: a_def pool_ok_def)
  let ?s = "stored a v (Some (length pre, 0)) w"
  have "chars_at (Some (length pre, 0)) w = Some v" using assms(2) by (simp add: chars_at_def)
  then have s: "Set_option hs a (Some (length pre, 0)) w = (Inr (), ?s)"
    using Set_option_stored [OF l] assms(3) t by simp
  note st = static_stored [OF l, of v "Some (length pre, 0)"]
  have arr: "IsArray (option_of ?s a) = IsArray (option_of w a)" by (rule static_traits(1) [OF st l])
  have o: "option_at a ?s = (Inr (option_of ?s a), ?s)" using static_live [OF st] l by (simp add: option_at_live)
  define w' where "w' = (if IsArray (option_of w a) then ?s else set_list (\<lambda>l. l\<lparr>currentIndex := currentIndex l + 1\<rparr>) ?s)"
  have "list_SetOptionValue hs (Some (length pre, 0)) w = (Inr (), w')"
    using True by (simp add: list_SetOptionValue_def Let_def a_def [symmetric] bindM_def s o arr advance_def returnM_def w'_def)
  moreover have "progress_of w' = step w (Positional v) (progress_of w)"
  proof -
    have "progress_of (set_list (\<lambda>l. l\<lparr>currentIndex := currentIndex l + 1\<rparr>) ?s) = (progress_of ?s)\<lparr>cur := cur (progress_of ?s) + 1\<rparr>"
      by (simp add: progress_of_def) (simp add: set_list_def)
    then show ?thesis using t progress_stored [OF l, of v "Some (length pre, 0)"]
      by (auto simp: w'_def step_def)
  qed
  moreover have "argv w' = pre @ render (wiped w (currentIndex (the_list w)) (Positional v)) @ rest"
    using assms(2) t mask_from_append [of "[]" v] by (auto simp: w'_def set_list_def stored_def wiped_def simp del: target.simps)
  moreover have "static w' = static w" using st by (simp add: w'_def) (simp add: static_def)
  moreover have "std_err w' = std_err w \<and> programName (pool w') = programName (pool w)"
    by (simp add: w'_def set_list_def stored_def)
  ultimately show ?thesis by (simp add: outcome_def)
qed

lemma takes_target: "takes w t v \<Longrightarrow> \<exists>a. t = Some a \<and> NeedValue (option_of w a) \<and> accepts_value (option_of w a) v"
  by (cases t) (auto simp: takes_def)

lemma is_flag_target: "is_flag_at w t \<Longrightarrow> \<exists>a. t = Some a \<and> is_flag (option_of w a)"
  by (cases t) (auto simp: is_flag_at_def)

lemma parse_arg_fetch:
  assumes "i < length (argv w)" "argv w ! i = arg"
  shows "parse_arg hs argc i w =
    (if char_at arg 0 = CHR ''-'' then
       if char_at arg 1 = CHR ''-'' then bindM (long_option hs i arg) (\<lambda>_. returnM (i + 1)) w
       else short_option hs argc i arg w
     else bindM (list_SetOptionValue hs (Some (i, 0))) (\<lambda>_. returnM (i + 1)) w)"
  using assms unfolding parse_arg_def by (subst bindM_step [where a = arg and t = w]) (simp_all add: fetch_def returnM_def)

lemma parse_setting:
  assumes ok: "pool_ok w" and wf: "well_formed w (currentIndex (the_list w)) s" and args: "argv w = pre @ render s @ rest"
    and argc: "argc = length (argv w)"
  shows "\<exists>w'. parse_arg hs argc (length pre) w = (Inr (length (pre @ render s)), w') \<and> outcome w s pre rest w'"
proof -
  have lv: "live w a" if "FindOption n w = Some a" for n a using that ok by (auto simp: pool_ok_def)
  have at: "length pre < length (argv w)" using args by (cases s) simp_all
  show ?thesis
  proof (cases s)
    case (Long n v)
    obtain a where a: "FindOption n w = Some a" "NeedValue (option_of w a)" "accepts_value (option_of w a) v" and n: "long_name n"
      using wf Long takes_target by fastforce
    have arg: "argv w ! length pre = n @ CHR ''='' # v" using args Long by simp
    let ?p = "Some (length pre, length n + 1)"
    have "map_SetOption hs n a ?p w = (Inr (), stored a v ?p w)"
      using a lv by (intro map_SetOption_stored) (auto simp: chars_at_def arg)
    then have "long_option hs (length pre) (n @ CHR ''='' # v) w = (Inr (), stored a v ?p w)"
      using a strchr_equals(1) [OF n, of v] by (simp add: long_option_def map_SetOptionValue_def del: drop_append)
    then show ?thesis
      using outcome_stored [OF lv [OF a(1)], of s pre rest ?p] args a(1) Long long_name_chars [OF n, of "CHR ''='' # v"]
      by (simp add: parse_arg_fetch [OF at arg] bindM_def returnM_def)
  next
    case (LongFlag n)
    obtain a where a: "FindOption n w = Some a" "is_flag (option_of w a)" and n: "long_name n"
      using wf LongFlag is_flag_target by fastforce
    have arg: "argv w ! length pre = n" using args LongFlag by simp
    have "map_SetOption hs n a None w = (Inr (), stored a [] None w)"
      using a lv by (intro map_SetOption_stored) auto
    then have "long_option hs (length pre) n w = (Inr (), stored a [] None w)"
      using a strchr_equals [OF n] by (simp add: long_option_def map_SetOptionValue_def)
    then show ?thesis
      using outcome_stored [OF lv [OF a(1)], of s pre rest None] args a(1) LongFlag long_name_chars [OF n, of "[]"]
      by (simp add: parse_arg_fetch [OF at arg] bindM_def returnM_def)
  next
    case (Short n v)
    obtain a where a: "FindOption n w = Some a" "NeedValue (option_of w a)" "accepts_value (option_of w a) v" and n: "short_name n"
      using wf Short takes_target by fastforce
    have arg: "argv w ! length pre = n" "argv w ! (length pre + 1) = v" using args Short by (simp_all add: nth_append)
    let ?p = "Some (length pre + 1, 0)"
    have "map_SetOption hs n a ?p w = (Inr (), stored a v ?p w)"
      using a lv arg by (intro map_SetOption_stored) (auto simp: chars_at_def)
    moreover have "length pre + 1 < argc" using args argc Short by simp
    ultimately have "short_option hs argc (length pre) n w = (Inr (length pre + 2), stored a v ?p w)"
      using a lv [OF a(1)] argc by (simp add: short_option_def bindM_def option_at_live fetch_def returnM_def)
    then show ?thesis
      using outcome_stored [OF lv [OF a(1)], of s pre rest ?p] args a(1) Short n
      by (simp add: parse_arg_fetch [OF at arg(1)] short_name_def)
  next
    case (ShortFlag n)
    obtain a where a: "FindOption n w = Some a" "is_flag (option_of w a)" and n: "short_name n"
      using wf ShortFlag is_flag_target by fastforce
    have arg: "argv w ! length pre = n" using args ShortFlag by simp
    have "map_SetOption hs n a None w = (Inr (), stored a [] None w)"
      using a lv by (intro map_SetOption_stored) auto
    then have "short_option hs argc (length pre) n w = (Inr (length pre + 1), stored a [] None w)"
      using a lv [OF a(1)] flag_traits [OF a(2)] by (simp add: short_option_def bindM_def option_at_live returnM_def)
    then show ?thesis
      using outcome_stored [OF lv [OF a(1)], of s pre rest None] args a(1) ShortFlag n
      by (simp add: parse_arg_fetch [OF at arg] short_name_def)
  next
    case (Positional v)
    have arg: "argv w ! length pre = v" using args Positional by simp
    obtain w' where w': "list_SetOptionValue hs (Some (length pre, 0)) w = (Inr (), w')" "outcome w s pre rest w'"
      using list_SetOptionValue_outcome [OF ok, of pre v rest hs] wf args Positional by auto
    then show ?thesis
      using wf Positional by (auto simp: parse_arg_fetch [OF at arg] short_option_def short_name_def bindM_def returnM_def)
  qed
qed

section \<open>All settings\<close>

fun wf_settings :: "World \<Rightarrow> Setting list \<Rightarrow> Progress \<Rightarrow> bool" where
  "wf_settings w [] p = True"
| "wf_settings w (s # ss) p = (well_formed w (cur p) s \<and> wf_settings w ss (step w s p))"

fun wiped_args :: "World \<Rightarrow> Setting list \<Rightarrow> Progress \<Rightarrow> string list" where
  "wiped_args w [] p = []"
| "wiped_args w (s # ss) p = render (wiped w (cur p) s) @ wiped_args w ss (step w s p)"

lemma target_live:
  assumes "pool_ok w" "target w c s = Some a"
  shows "live w a"
  using assms by (cases s) (auto simp: pool_ok_def split: if_splits)

lemma static_kind:
  assumes "static w' = static w" "live w a"
  shows "accepts_value (option_of w' a) = accepts_value (option_of w a)" "assign (option_of w' a) = assign (option_of w a)"
    "is_flag (option_of w' a) = is_flag (option_of w a)"
  using static_fields(1) [OF assms] by (simp_all add: accepts_value_def assign_def is_flag_def fun_eq_iff)

lemma static_settings:
  assumes "pool_ok w" "static w' = static w"
  shows "target w' c s = target w c s" "step w' s p = step w s p" "wiped w' c s = wiped w c s"
    "well_formed w' c s = well_formed w c s"
proof -
  note same = static_list_items [OF assms(2)] static_FindOption [OF assms(2)]
  show t: "target w' c s = target w c s" for c s by (cases s) (simp_all add: same)
  note lv = target_live [OF assms(1)]
  show "step w' s p = step w s p"
    using lv [of "cur p" s] static_traits(1) [OF assms(2)] static_kind(2) [OF assms(2)]
    by (cases "target w (cur p) s") (simp_all add: step_def t split: Setting.splits)
  show "wiped w' c s = wiped w c s"
    using lv [of c s] static_traits(4) [OF assms(2)] by (cases "target w c s") (simp_all add: wiped_def t)
  have f: "live w a" if "FindOption n w = Some a" for n a using that lv [of c "LongFlag n"] by simp
  have tk: "takes w' (FindOption n w) v = takes w (FindOption n w) v" for n v
    using f [of n] static_traits(2) [OF assms(2)] static_kind(1) [OF assms(2)]
    by (cases "FindOption n w") (simp_all add: takes_def)
  have fl: "is_flag_at w' (FindOption n w) = is_flag_at w (FindOption n w)" for n
    using f [of n] static_kind(3) [OF assms(2)] by (cases "FindOption n w") (simp_all add: is_flag_at_def)
  show "well_formed w' c s = well_formed w c s"
  proof (cases s)
    case (Positional v)
    then show ?thesis
      using lv [of c "Positional v"] static_kind(1) [OF assms(2)]
      by (cases "target w c (Positional v)") (simp_all add: same t del: target.simps)
  qed (simp_all add: same tk fl)
qed

lemma render_wiped_length: "length (render (wiped w c s)) = length (render s)"
  by (cases s) (auto simp: wiped_def split: option.splits)

lemma parse_settings:
  assumes "pool_ok w" "static u = static w" "wf_settings w ss (progress_of u)"
    "argv u = pre @ concat (map render ss) @ rest" "argc = length (argv u)"
  shows "\<exists>u'. parse_loop hs argc (length pre) u = parse_loop hs argc (length pre + length (concat (map render ss))) u' \<and>
    static u' = static w \<and> progress_of u' = fold (step w) ss (progress_of u) \<and>
    argv u' = pre @ wiped_args w ss (progress_of u) @ rest \<and>
    std_err u' = std_err u \<and> programName (pool u') = programName (pool u)"
  using assms
proof (induction ss arbitrary: u pre)
  case Nil
  then show ?case by auto
next
  case (Cons s ss)
  note st = static_settings [OF Cons.prems(1,2)]
  have ok: "pool_ok u" using pool_ok_static Cons.prems(1,2) by blast
  obtain u1 where u1: "parse_arg hs argc (length pre) u = (Inr (length (pre @ render s)), u1)"
    and out: "outcome u s pre (concat (map render ss) @ rest) u1"
    using parse_setting [OF ok, of s pre "concat (map render ss) @ rest" argc hs] Cons.prems(3-5) by (auto simp: st)
  let ?pre = "pre @ render (wiped w (currentIndex (the_list u)) s)"
  have o: "static u1 = static w" "progress_of u1 = step w s (progress_of u)" "argv u1 = ?pre @ concat (map render ss) @ rest"
    "std_err u1 = std_err u" "programName (pool u1) = programName (pool u)"
    using out Cons.prems(2) by (simp_all add: outcome_def st)
  have len: "argc = length (argv u1)" using o(3) Cons.prems(4,5) by (simp add: render_wiped_length)
  have wf: "wf_settings w ss (progress_of u1)" using Cons.prems(3) o(2) by simp
  obtain u2 where u2: "parse_loop hs argc (length ?pre) u1 = parse_loop hs argc (length ?pre + length (concat (map render ss))) u2"
    "static u2 = static w" "progress_of u2 = fold (step w) ss (progress_of u1)"
    "argv u2 = ?pre @ wiped_args w ss (progress_of u1) @ rest"
    "std_err u2 = std_err u1" "programName (pool u2) = programName (pool u1)"
    using Cons.IH [OF Cons.prems(1) o(1) wf o(3) len] by blast
  have "length pre < argc" using Cons.prems(4,5) by (cases s) simp_all
  then have "parse_loop hs argc (length pre) u = parse_loop hs argc (length (pre @ render s)) u1"
    by (subst parse_loop.simps) (simp add: bindM_def u1)
  then have "parse_loop hs argc (length pre) u = parse_loop hs argc (length pre + length (concat (map render (s # ss)))) u2"
    using u2(1) by (simp add: render_wiped_length add.assoc)
  with u2 o show ?case by auto
qed

section \<open>Required options\<close>

lemma missing_options_eq:
  assumes "\<forall>a\<in>set as. live w a"
  shows "missing_options P as ms w = (Inr (ms @ filter (\<lambda>a. P (option_of w a)) as), w)"
  using assms by (induction as arbitrary: ms) (auto simp: returnM_def bindM_step [OF option_at_live])

text \<open>The options that are required and were not given, in the order they are reported.\<close>

definition missing :: "World \<Rightarrow> nat list" where
  "missing w = filter (\<lambda>a. IsRequired (option_of w a) \<and> \<not> opt_exists (option_of w a)) (list_items (the_list w) @ map_items (the_map w))"

lemma CheckRequired_eq:
  assumes "pool_ok w"
  shows "bindM (list_CheckRequired []) (\<lambda>ms. bindM (map_CheckRequired ms) k) w = k (missing w) w"
proof -
  have l: "list_CheckRequired [] w = (Inr (filter (\<lambda>a. IsRequired (option_of w a) \<and> \<not> opt_exists (option_of w a)) (list_items (the_list w))), w)"
    using assms missing_options_eq [of "list_items (the_list w)" w] by (simp add: list_CheckRequired_def pool_ok_def)
  have "\<forall>a\<in>set (required_items (the_map w)). live w a" using assms by (auto simp: pool_ok_def)
  from missing_options_eq [OF this] have m: "map_CheckRequired ms w = (Inr (ms @ filter (\<lambda>a. \<not> opt_exists (option_of w a)) (required_items (the_map w))), w)" for ms
    by (simp add: map_CheckRequired_def)
  have "filter (\<lambda>a. \<not> opt_exists (option_of w a)) (required_items (the_map w)) =
      filter (\<lambda>a. IsRequired (option_of w a) \<and> \<not> opt_exists (option_of w a)) (map_items (the_map w))"
    using assms by (simp add: pool_ok_def conj_commute)
  then show ?thesis by (simp add: bindM_def [of "list_CheckRequired _"] bindM_def [of "map_CheckRequired _"] l m missing_def)
qed

lemma missing_progress:
  assumes "pool_ok w" "static w' = static w"
  shows "missing w' = filter (\<lambda>a. IsRequired (option_of w a) \<and> a \<notin> seen (progress_of w')) (list_items (the_list w) @ map_items (the_map w))"
  unfolding missing_def static_list_items [OF assms(2), THEN conjunct1] static_list_items [OF assms(2), THEN conjunct2]
proof (rule filter_cong)
  fix a assume a: "a \<in> set (list_items (the_list w) @ map_items (the_map w))"
  then have l: "live w a" using assms(1) by (simp add: pool_ok_def)
  then show "(IsRequired (option_of w' a) \<and> \<not> opt_exists (option_of w' a)) = (IsRequired (option_of w a) \<and> a \<notin> seen (progress_of w'))"
    using static_traits(3) [OF assms(2) l] static_live [OF assms(2), of a] by (simp add: progress_of_def)
qed simp

lemma Parse_start:
  assumes "argv w = name # args"
  shows "Parse hs w = bindM (parse_loop hs (Suc (length args)) 1) (\<lambda>_. bindM (list_CheckRequired []) (\<lambda>ms. bindM (map_CheckRequired ms) (\<lambda>ms.
     if ms \<noteq> [] then bindM (to_stderr (print_missing ms)) (\<lambda>_. throwM (TerminateProgram 1)) else returnM ())))
     (w\<lparr>pool := pool w\<lparr>programName := name\<rparr>\<rparr>)"
proof -
  have "set_programName w = (Inr (), w\<lparr>pool := pool w\<lparr>programName := name\<rparr>\<rparr>)"
    using assms by (simp add: set_programName_def bindM_def fetch_def returnM_def)
  then show ?thesis using assms unfolding Parse_def by (subst bindM_step) simp_all
qed

text \<open>The whole run up to the check of the required options.\<close>

lemma Parse_run:
  assumes "pool_ok w" "argv w = name # concat (map render ss) @ rest" "wf_settings w ss (progress_of w)"
  shows "\<exists>u. parse_loop hs (length (argv w)) 1 (w\<lparr>pool := pool w\<lparr>programName := name\<rparr>\<rparr>) =
      parse_loop hs (length (argv w)) (length (name # concat (map render ss))) u \<and>
    static u = static w \<and> progress_of u = fold (step w) ss (progress_of w) \<and>
    argv u = name # wiped_args w ss (progress_of w) @ rest \<and> std_err u = std_err w"
proof -
  let ?w = "w\<lparr>pool := pool w\<lparr>programName := name\<rparr>\<rparr>"
  have p: "progress_of ?w = progress_of w" by (simp add: progress_of_def live_def option_of_def)
  have "wf_settings w ss (progress_of ?w)" "argv ?w = [name] @ concat (map render ss) @ rest"
    using assms(2,3) by (simp_all add: p)
  from parse_settings [OF assms(1) _ this, of "length (argv w)" hs] show ?thesis by (auto simp: p)
qed

text \<open>C10. Parsing does what the arguments say: when they are well-formed settings for a well-formed pool and every required
  option is among them, parsing returns, nothing is reported, the variables have been assigned the values in the order of the
  arguments, exactly the named options are marked as given, and of the arguments only the values of passwords have changed,
  into as many asterisks.\<close>

theorem Parse_settings:
  assumes "pool_ok w" "argv w = name # concat (map render ss)" "wf_settings w ss (progress_of w)"
    and "\<forall>a\<in>set (list_items (the_list w) @ map_items (the_map w)).
      IsRequired (option_of w a) \<longrightarrow> a \<in> seen (fold (step w) ss (progress_of w))"
  shows "\<exists>w'. Parse hs w = (Inr (), w') \<and> static w' = static w \<and> std_err w' = std_err w \<and>
    progress_of w' = fold (step w) ss (progress_of w) \<and> argv w' = name # wiped_args w ss (progress_of w)"
proof -
  obtain u where u: "parse_loop hs (length (argv w)) 1 (w\<lparr>pool := pool w\<lparr>programName := name\<rparr>\<rparr>) =
      parse_loop hs (length (argv w)) (length (argv w)) u"
    "static u = static w" "progress_of u = fold (step w) ss (progress_of w)" "argv u = name # wiped_args w ss (progress_of w)"
    "std_err u = std_err w"
    using Parse_run [of w name ss "[]" hs] assms(1-3) by auto
  have "pool_ok u" using pool_ok_static assms(1) u(2) by blast
  moreover have "missing u = []"
    using assms(4) missing_progress [OF assms(1) u(2)] by (auto simp: u(3) filter_empty_conv)
  moreover have "parse_loop hs (length (argv w)) (length (argv w)) u = (Inr (), u)" by (simp add: parse_loop.simps)
  ultimately have "Parse hs w = (Inr (), u)"
    using u(1) assms(2) by (simp add: Parse_start [OF assms(2)] bindM_def [of "parse_loop _ _ _"] CheckRequired_eq returnM_def)
  with u show ?thesis by blast
qed

definition sample_parse :: "string list \<Rightarrow> World" where
  "sample_parse args = (sample_world [ProgramOption_new ''FILE'' [] REQUIRED (ProgramOption_String 0),
       ProgramOption_new ''--key'' [] PASSWORD (ProgramOption_String 1)])
     \<lparr>pool := \<lparr>programName = [], optionsList = \<lparr>list_items = [0], currentIndex = 0\<rparr>,
        optionsMap = \<lparr>map_items = [1], label_map = [(''--key'', 1)], required_items = []\<rparr>\<rparr>, argv := args\<rparr>"

lemma sample_parse_ok: "pool_ok (sample_parse args)"
  by (auto simp: sample_parse_def sample_world_def pool_ok_def live_def option_of_def IsArray_def IsRequired_def
      ProgramOption_new_def REQUIRED_def PASSWORD_def map_ok_def FindOption_def map_find_def split: if_splits)

theorem Parse_settings_witness:
  "\<exists>w'. Parse (\<lambda>n v. returnM ()) (sample_parse [''prog'', ''--key=abc'', ''in'']) = (Inr (), w') \<and>
     argv w' = [''prog'', ''--key=***'', ''in''] \<and> string_at (results w') 0 = ''in'' \<and> string_at (results w') 1 = ''abc''"
proof -
  let ?w = "sample_parse [''prog'', ''--key=abc'', ''in'']" and ?ss = "[Long ''--key'' ''abc'', Positional ''in'']"
  let ?p = "progress_of ?w"
  have opts: "option_of ?w 0 = ProgramOption_new ''FILE'' [] REQUIRED (ProgramOption_String 0)"
    "option_of ?w (Suc 0) = ProgramOption_new ''--key'' [] PASSWORD (ProgramOption_String 1)"
    "FindOption ''--key'' ?w = Some 1" "list_items (the_list ?w) = [0]" "map_items (the_map ?w) = [1]" "currentIndex (the_list ?w) = 0"
    by (simp_all add: sample_parse_def sample_world_def option_of_def FindOption_def map_find_def)
  have kinds: "IsArray (option_of ?w 0) = False" "IsPassword (option_of ?w 0) = False" "IsPassword (option_of ?w (Suc 0)) = True"
    "accepts_value (option_of ?w 0) v = True" "accepts_value (option_of ?w (Suc 0)) v = True" "NeedValue (option_of ?w (Suc 0)) = True"
    "assign (option_of ?w 0) v r = r\<lparr>string_at := (string_at r)(0 := v)\<rparr>"
    "assign (option_of ?w (Suc 0)) v r = r\<lparr>string_at := (string_at r)(1 := v)\<rparr>" for v r
    by (simp_all add: opts IsArray_def IsPassword_def NeedValue_def accepts_value_def assign_def ProgramOption_new_def REQUIRED_def PASSWORD_def)
  have key: "step ?w (Long ''--key'' ''abc'') ?p =
      \<lparr>cur = 0, seen = insert 1 (seen ?p), vars = (vars ?p)\<lparr>string_at := (string_at (vars ?p))(1 := ''abc'')\<rparr>\<rparr>"
    by (simp add: step_def opts(3,6) kinds)
  have "wf_settings ?w ?ss ?p"
    by (simp add: key long_name_def takes_def opts(3,4) kinds char_at_def)
  moreover have f: "fold (step ?w) ?ss ?p = \<lparr>cur = 1, seen = insert 0 (insert 1 (seen ?p)),
      vars = (vars ?p)\<lparr>string_at := (string_at (vars ?p))(1 := ''abc'', 0 := ''in'')\<rparr>\<rparr>"
    by (simp add: key) (simp add: step_def opts(4) kinds)
  moreover have "wiped_args ?w ?ss ?p = [''--key=***'', ''in'']"
    by (simp add: key) (simp add: wiped_def opts(3,4) kinds numeral_3_eq_3)
  moreover have "argv ?w = ''prog'' # concat (map render ?ss)" by (simp add: sample_parse_def)
  ultimately obtain w' where w': "Parse (\<lambda>n v. returnM ()) ?w = (Inr (), w')" "argv w' = [''prog'', ''--key=***'', ''in'']"
    "progress_of w' = fold (step ?w) ?ss ?p"
    using Parse_settings [OF sample_parse_ok, of "[''prog'', ''--key=abc'', ''in'']" "''prog''" ?ss "\<lambda>n v. returnM ()"]
    by (auto simp: opts(4,5))
  have "results w' = vars (progress_of w')" by (simp add: progress_of_def)
  then have "results w' = (vars ?p)\<lparr>string_at := (string_at (vars ?p))(1 := ''abc'', 0 := ''in'')\<rparr>"
    unfolding w'(3) f by simp
  with w' show ?thesis by simp
qed

end
