(* ===== verification/Option_Errors.thy ===== *)
theory Option_Errors
  imports Option_Parsing
begin

text \<open>
  When parsing fails: the first argument that is not a setting is reported and the program is told to terminate, with the
  settings in front of it done; and no arguments lead to an access the language leaves undefined.
\<close>

section \<open>Complaints\<close>

definition bad_value :: "ProgramOption \<Rightarrow> string \<Rightarrow> string option" where
  "bad_value opt v =
     (let invalid = (\<lambda>expected. Some (''Invalid value of parameter '' @ quoted (opt_label opt) @ '' ('' @ expected @ '')'')) in
      case opt_kind opt of
        ProgramOption_Integer32 r \<Rightarrow> if IsInteger_ptr (Some v) then None else invalid ''integer expected''
      | ProgramOption_Integer64 r \<Rightarrow> if IsInteger_ptr (Some v) then None else invalid ''integer expected''
      | ProgramOption_Choice r choices \<Rightarrow> if v \<in> set choices then None else invalid (join_choices choices [])
      | _ \<Rightarrow> None)"

definition unknown_message :: "string \<Rightarrow> string" where "unknown_message n = ''Unknown option '' @ quoted n"
definition requires_message :: "string \<Rightarrow> string" where "requires_message n = ''Option '' @ quoted n @ '' requires value''"
definition extra_message :: "string \<Rightarrow> string" where "extra_message n = ''Option '' @ quoted n @ '' does not require value''"

lemmas message_defs = unknown_message_def requires_message_def extra_message_def

text \<open>What is wrong with the arguments that follow, for a pool whose next option in the list has the number \<open>c\<close>\<close>

inductive complaint :: "World \<Rightarrow> nat \<Rightarrow> string list \<Rightarrow> string \<Rightarrow> bool" for w c where
  unknown_long: "long_name n \<Longrightarrow> FindOption n w = None \<Longrightarrow> complaint w c ((n @ CHR ''='' # v) # r) (unknown_message n)"
| unknown_flag: "long_name n \<Longrightarrow> FindOption n w = None \<Longrightarrow> complaint w c (n # r) (unknown_message n)"
| unknown_short: "short_name n \<Longrightarrow> FindOption n w = None \<Longrightarrow> list_items (the_list w) = [] \<Longrightarrow>
    complaint w c (n # r) (unknown_message n)"
| no_value: "long_name n \<Longrightarrow> FindOption n w = Some a \<Longrightarrow> NeedValue (option_of w a) \<Longrightarrow>
    complaint w c (n # r) (requires_message n)"
| no_value_at_end: "short_name n \<Longrightarrow> FindOption n w = Some a \<Longrightarrow> NeedValue (option_of w a) \<Longrightarrow>
    complaint w c [n] (requires_message n)"
| extra_value: "long_name n \<Longrightarrow> FindOption n w = Some a \<Longrightarrow> \<not> NeedValue (option_of w a) \<Longrightarrow>
    complaint w c ((n @ CHR ''='' # v) # r) (extra_message n)"
| invalid_long: "long_name n \<Longrightarrow> FindOption n w = Some a \<Longrightarrow> bad_value (option_of w a) v = Some message \<Longrightarrow>
    complaint w c ((n @ CHR ''='' # v) # r) message"
| invalid_short: "short_name n \<Longrightarrow> FindOption n w = Some a \<Longrightarrow> bad_value (option_of w a) v = Some message \<Longrightarrow>
    complaint w c (n # v # r) message"
| invalid_positional: "char_at v 0 \<noteq> CHR ''-'' \<or> short_name v \<and> FindOption v w = None \<Longrightarrow> target w c (Positional v) = Some a \<Longrightarrow>
    bad_value (option_of w a) v = Some message \<Longrightarrow> complaint w c (v # r) message"

inductive_cases complaint_Nil [elim!]: "complaint w c [] message"

definition refused :: "World \<Rightarrow> string \<Rightarrow> World \<Rightarrow> bool" where
  "refused w message w' \<longleftrightarrow> static w' = static w \<and> std_err w' = std_err w @ message @ [CHR 0x0A] \<and> results w' = results w \<and> argv w' = argv w"

lemma terminate_refused: "\<exists>w'. terminate message w = (Inl (TerminateProgram 1), w') \<and> refused w message w'"
  by (simp add: terminate_eq refused_def)

lemma find_choice_None: "v \<notin> set cs \<Longrightarrow> find_choice v cs i = None"
  by (simp add: find_choice_iff)

lemma bad_value_needs: "bad_value opt v = Some message \<Longrightarrow> NeedValue opt"
  by (auto simp: bad_value_def NeedValue_def Let_def split: OptionKind.splits)

lemma SetValue_refused:
  assumes "bad_value opt v = Some message"
  shows "SetValue hs opt (Some v) w = terminate message w"
  using assms
  by (auto simp: bad_value_def SetValue_defs Let_def deref_arg_def invalid_value_def find_choice_None split: OptionKind.splits if_splits)

lemma bad_value_exists [simp]: "bad_value (opt\<lparr>opt_exists := e\<rparr>) v = bad_value opt v"
  by (simp add: bad_value_def)

lemma Set_option_refused:
  assumes "live w a" "chars_at p w = Some v" "bad_value (option_of w a) v = Some message"
  shows "\<exists>w'. Set_option hs a p w = (Inl (TerminateProgram 1), w') \<and> refused w message w'"
proof -
  let ?o = "(option_of w a)\<lparr>opt_exists := True\<rparr>"
  let ?w = "w\<lparr>memory := (memory w)[a := Some ?o]\<rparr>"
  have "chars_at p ?w = Some v" using assms(2) by (simp add: chars_at_def)
  then have "SetValue hs ?o (chars_at p ?w) ?w = terminate message ?w"
    using SetValue_refused [of ?o v message hs ?w] assms(3) by simp
  then have s: "Set_option hs a p w = (Inl (TerminateProgram 1), ?w\<lparr>std_err := std_err w @ message @ [CHR 0x0A]\<rparr>)"
    using assms(1) by (simp add: Set_option_def bindM_def set_exists_live terminate_eq)
  have "static ?w = static w"
    using assms(1) by (auto simp: static_def map_update live_def option_of_def list_update_same_conv)
  then have "static (?w\<lparr>std_err := std_err w @ message @ [CHR 0x0A]\<rparr>) = static w" by (simp only: static_simps)
  then show ?thesis unfolding s by (simp add: refused_def)
qed

lemma map_SetOption_refused:
  assumes "live w a" "chars_at p w = Some v" "bad_value (option_of w a) v = Some message"
  shows "\<exists>w'. map_SetOption hs key a p w = (Inl (TerminateProgram 1), w') \<and> refused w message w'"
proof -
  obtain q where "p = Some q" using assms(2) by (cases p) (auto simp: chars_at_def)
  then have "map_SetOption hs key a p w = Set_option hs a p w"
    using assms(1) bad_value_needs [OF assms(3)] by (simp add: map_SetOption_def bindM_def option_at_live)
  with Set_option_refused [OF assms] show ?thesis by simp
qed

lemma parse_arg_refused:
  assumes ok: "pool_ok w" and bad: "complaint w (currentIndex (the_list w)) bad message" and args: "argv w = pre @ bad"
    and argc: "argc = length (argv w)"
  shows "\<exists>w'. parse_arg hs argc (length pre) w = (Inl (TerminateProgram 1), w') \<and> refused w message w'"
proof -
  have lv: "live w a" if "FindOption n w = Some a" for n a using that ok by (auto simp: pool_ok_def)
  have long: "parse_arg hs argc (length pre) w = bindM (long_option hs (length pre) (n @ r)) (\<lambda>_. returnM (length pre + 1)) w"
    if "bad = (n @ r) # rs" "long_name n" for n r rs
    using parse_arg_fetch [of "length pre" w "n @ r" hs argc] long_name_chars [OF that(2), of r] args that(1) by simp
  have short: "parse_arg hs argc (length pre) w = short_option hs argc (length pre) n w"
    if "bad = n # rs" "short_name n" for n rs
    using parse_arg_fetch [of "length pre" w n hs argc] args that by (simp add: short_name_def)
  have valued: "long_option hs (length pre) (n @ CHR ''='' # v) = map_SetOptionValue hs n (Some (length pre, length n + 1))"
    if "long_name n" for n v
    using strchr_equals(1) [OF that, of v] by (simp add: long_option_def del: drop_append)
  have flag: "long_option hs (length pre) (n @ []) = map_SetOptionValue hs n None" if "long_name n" for n
    using strchr_equals(2) [OF that] by (simp add: long_option_def)
  show ?thesis
    using bad
  proof cases
    case (unknown_long n v r)
    then show ?thesis
      using long [of n "CHR ''='' # v" r]
      by (auto simp: valued map_SetOptionValue_def bindM_def terminate_eq refused_def message_defs)
  next
    case (unknown_flag n r)
    then show ?thesis
      using long [of n "[]" r] flag [of n]
      by (auto simp: map_SetOptionValue_def bindM_def terminate_eq refused_def message_defs)
  next
    case (unknown_short n r)
    then show ?thesis using short [of n r] by (auto simp: short_option_def terminate_eq refused_def message_defs)
  next
    case (no_value n a r)
    then show ?thesis
      using long [of n "[]" r] flag [of n] lv [of n a]
      by (auto simp: map_SetOptionValue_def map_SetOption_def bindM_def option_at_live terminate_eq refused_def message_defs)
  next
    case (no_value_at_end n a)
    then show ?thesis
      using short [of n "[]"] lv [of n a] args argc
      by (auto simp: short_option_def bindM_def option_at_live terminate_eq refused_def message_defs)
  next
    case (extra_value n a v r)
    then show ?thesis
      using long [of n "CHR ''='' # v" r] lv [of n a]
      by (auto simp: valued map_SetOptionValue_def map_SetOption_def bindM_def option_at_live terminate_eq refused_def message_defs)
  next
    case (invalid_long n a v r)
    have "chars_at (Some (length pre, length n + 1)) w = Some v" using args invalid_long(1) by (simp add: chars_at_def)
    from map_SetOption_refused [OF lv [OF invalid_long(3)] this invalid_long(4), of hs n] show ?thesis
      using long [of n "CHR ''='' # v" r] invalid_long by (auto simp: valued map_SetOptionValue_def intro!: bindM_Inl)
  next
    case (invalid_short n a v r)
    have "chars_at (Some (length pre + 1, 0)) w = Some v" using args invalid_short(1) by (simp add: chars_at_def nth_append)
    then obtain w' where w': "map_SetOption hs n a (Some (length pre + 1, 0)) w = (Inl (TerminateProgram 1), w')" "refused w message w'"
      using map_SetOption_refused [OF lv] invalid_short by blast
    then show ?thesis
      using short [of n "v # r"] invalid_short(1-3) bad_value_needs [OF invalid_short(4)] lv [of n a] args argc
      by (auto simp: short_option_def bindM_def option_at_live fetch_def returnM_def)
  next
    case (invalid_positional v a r)
    have c: "chars_at (Some (length pre, 0)) w = Some v" using args invalid_positional(1) by (simp add: chars_at_def)
    have a: "currentIndex (the_list w) < length (list_items (the_list w))" "a = list_items (the_list w) ! currentIndex (the_list w)"
      using invalid_positional(3) by (auto split: if_splits)
    have "live w a" using ok a by (simp add: pool_ok_def)
    from Set_option_refused [OF this c invalid_positional(4)]
    obtain w' where w': "Set_option hs a (Some (length pre, 0)) w = (Inl (TerminateProgram 1), w')" "refused w message w'" by blast
    then have l: "list_SetOptionValue hs (Some (length pre, 0)) w = (Inl (TerminateProgram 1), w')"
      using a by (simp add: list_SetOptionValue_def Let_def bindM_def)
    have arg: "length pre < length (argv w)" "argv w ! length pre = v" using args invalid_positional(1) by simp_all
    show ?thesis
      using invalid_positional(2) w'(2) a(1)
      by (auto simp: parse_arg_fetch [OF arg] short_option_def short_name_def bindM_def l)
  qed
qed

section \<open>The report of missing options\<close>

text \<open>A table with one row for each option.\<close>

lemma forM_two_columns:
  assumes "table_ok t" "\<forall>a\<in>set as. live w a"
  shows "\<exists>t'. forM as (\<lambda>a. bindM (option_in (memory w) a) (\<lambda>opt. bindM AddRow (\<lambda>r.
      bindM (AddColumn r (f opt)) (\<lambda>_. AddColumn r (g opt))))) t = (Inr (), t') \<and> table_ok t' \<and>
    rows t' = rows t @ map (\<lambda>a. Some [f (option_of w a), g (option_of w a)]) as \<and>
    (\<forall>xs ys. two_columns xs ys t \<longrightarrow>
      two_columns (xs @ map (\<lambda>a. f (option_of w a)) as) (ys @ map (\<lambda>a. g (option_of w a)) as) t')"
  using assms
proof (induction as arbitrary: t)
  case Nil
  then show ?case by (simp add: returnM_def)
next
  case (Cons a as)
  let ?f = "\<lambda>a. bindM (option_in (memory w) a) (\<lambda>opt. bindM AddRow (\<lambda>r. bindM (AddColumn r (f opt)) (\<lambda>_. AddColumn r (g opt))))"
  obtain t1 where t1: "bindM AddRow (\<lambda>r. bindM (AddColumn r (f (option_of w a))) (\<lambda>_. AddColumn r (g (option_of w a)))) t = (Inr (), t1)"
    "table_ok t1" "rows t1 = rows t @ [Some [f (option_of w a), g (option_of w a)]]"
    "\<forall>xs ys. two_columns xs ys t \<longrightarrow> two_columns (xs @ [f (option_of w a)]) (ys @ [g (option_of w a)]) t1"
    using add_two_columns [OF Cons.prems(1)] by blast
  have "option_in (memory w) a t = (Inr (option_of w a), t)"
    using Cons.prems(2) by (auto simp: option_in_def live_def option_of_def returnM_def)
  then have one: "?f a t = (Inr (), t1)" using t1(1) by (simp add: bindM_def [of "option_in _ _"])
  have lv: "\<forall>a\<in>set as. live w a" using Cons.prems(2) by simp
  from Cons.IH [OF t1(2) lv] obtain t' where "forM as ?f t1 = (Inr (), t')" "table_ok t'"
    "rows t' = rows t1 @ map (\<lambda>a. Some [f (option_of w a), g (option_of w a)]) as"
    and wide: "\<forall>xs ys. two_columns xs ys t1 \<longrightarrow>
      two_columns (xs @ map (\<lambda>a. f (option_of w a)) as) (ys @ map (\<lambda>a. g (option_of w a)) as) t'"
    by (elim exE conjE)
  moreover from this(1) have "forM (a # as) ?f t = (Inr (), t')"
    unfolding forM.simps by (subst bindM_step [where m = "?f a", OF one])
  moreover have "two_columns (xs @ map (\<lambda>a. f (option_of w a)) (a # as)) (ys @ map (\<lambda>a. g (option_of w a)) (a # as)) t'"
    if "two_columns xs ys t" for xs ys
    using wide [rule_format, OF t1(4) [rule_format, OF that]] by simp
  ultimately show ?case using t1(3) by simp
qed

lemma left_aligned_eq:
  "left_aligned (StringsTablePrinter_new out) = (Inr (), \<lparr>out_stream = out, alignments = [LEFT, LEFT]\<rparr>)"
  by (simp add: left_aligned_def StringsTablePrinter_new_def bindM_def SetAlignment_def resize_def Let_def)

definition missing_message :: string where "missing_message = ''Missing required parameters:'' @ [CHR 0x0A]"

text \<open>The report, written down directly: a line for each option, with its label and its text in columns as wide as their longest
  entries and aligned to the left. As many lines are written as the 32-bit counter of the rows says.\<close>

definition padded :: "UINT_32 \<Rightarrow> string \<Rightarrow> string" where
  "padded width v = v @ replicate (unat width - length v) CHR '' ''"

definition missing_report :: "(string \<times> string) list \<Rightarrow> string" where
  "missing_report options =
     (let labels = column_width (map fst options); texts = column_width (map snd options) in
      missing_message @ concat (map (\<lambda>(label, description). ''  '' @ padded labels label @ ''  '' @ padded texts description @ [CHR 0x0A])
        (take (unat (vector_Size options)) options)))"

lemma aligned_LEFT: "aligned LEFT (unat w) v = padded w v"
  by (simp add: aligned_def padded_def)

lemma vector_Size_le: "unat (vector_Size xs) \<le> length xs"
  by (simp add: vector_Size_def unat_of_nat take_bit_nat_less_eq_self)

lemma two_columns_line:
  assumes "two_columns as bs t" "rows t = map2 (\<lambda>a b. Some [a, b]) as bs" "i < unat (vector_Size as)"
  shows "table_line ''  '' [] ''  '' [LEFT, LEFT] t i =
    ''  '' @ padded (column_width as) (as ! i) @ ''  '' @ padded (column_width bs) (bs ! i) @ [CHR 0x0A]"
proof -
  have len: "length bs = length as" "columnsWidths t = [column_width as, column_width bs]"
    using assms(1,3) by (auto simp: two_columns_def vector_Size_def)
  have i: "i < length as" "i < 2 ^ 32" using assms(3) vector_Size_le [of as] unat_less_32 [of "vector_Size as"] by simp_all
  then have u: "unat (of_nat i :: UINT_32) = i" by (simp add: unat_of_nat take_bit_nat_eq_self)
  have "vector_Size (rows t) = vector_Size as" using assms(2) len by (simp add: vector_Size_def)
  then have "GetRow t (of_nat i) = [as ! i, bs ! i]"
    using assms(2,3) i len by (simp add: GetRow_def RowsCount_def word_le_nat_alt u)
  then show ?thesis
    by (simp add: table_line_def table_cells_def len aligned_LEFT Row_at_def numeral_2_eq_2 upt_conv_Cons)
qed

lemma missing_report_lines:
  assumes "two_columns (map fst ps) (map snd ps) t" "rows t = map (\<lambda>(a, b). Some [a, b]) ps"
  shows "missing_report ps =
    missing_message @ concat (map (table_line ''  '' [] ''  '' [LEFT, LEFT] t) [0..<unat (vector_Size ps)])"
proof -
  let ?n = "unat (vector_Size ps)"
  let ?row = "\<lambda>(l, d). ''  '' @ padded (column_width (map fst ps)) l @ ''  '' @ padded (column_width (map snd ps)) d @ [CHR 0x0A]"
  have r: "rows t = map2 (\<lambda>a b. Some [a, b]) (map fst ps) (map snd ps)"
    unfolding assms(2) by (induction ps) auto
  have v: "vector_Size (map fst ps) = vector_Size ps" by (simp add: vector_Size_def)
  have "map ?row (take ?n ps) = map (\<lambda>i. ?row (ps ! i)) [0..<?n]"
    by (rule nth_equalityI) (use vector_Size_le [of ps] in auto)
  also have "\<dots> = map (table_line ''  '' [] ''  '' [LEFT, LEFT] t) [0..<?n]"
  proof (rule map_cong [OF refl])
    fix i assume "i \<in> set [0..<?n]"
    then have "i < unat (vector_Size (map fst ps))" "i < length ps" using v vector_Size_le [of ps] by simp_all
    then show "?row (ps ! i) = table_line ''  '' [] ''  '' [LEFT, LEFT] t i"
      using two_columns_line [OF assms(1) r] by (simp add: case_prod_beta)
  qed
  finally show ?thesis by (simp add: missing_report_def Let_def)
qed

lemma rows_new: "rows StringsTable_new = []"
  by (simp add: StringsTable_new_def)

lemma print_missing_eq:
  assumes "\<forall>a\<in>set as. live w a" "as \<noteq> []"
  shows "print_missing as w out =
    (Inr (), out @ missing_report (map (\<lambda>a. (opt_label (option_of w a), opt_text (option_of w a))) as))"
proof -
  let ?ps = "map (\<lambda>a. (opt_label (option_of w a), opt_text (option_of w a))) as"
  have ps: "map fst ?ps = map (\<lambda>a. opt_label (option_of w a)) as" "map snd ?ps = map (\<lambda>a. opt_text (option_of w a)) as"
    "map (\<lambda>(a, b). Some [a, b]) ?ps = map (\<lambda>a. Some [opt_label (option_of w a), opt_text (option_of w a)]) as"
    "vector_Size ?ps = vector_Size as"
    by (simp_all add: vector_Size_def)
  obtain t where t: "missing_table w as StringsTable_new = (Inr (), t)" "table_ok t"
    "rows t = map (\<lambda>a. Some [opt_label (option_of w a), opt_text (option_of w a)]) as"
    and wide: "two_columns (map (\<lambda>a. opt_label (option_of w a)) as) (map (\<lambda>a. opt_text (option_of w a)) as) t"
    using forM_two_columns [OF table_ok_new assms(1), of opt_label opt_text] two_columns_new
    by (metis (no_types, lifting) append_Nil missing_table_def rows_new)
  have c: "length (columnsWidths t) = 2" using wide assms(2) by (simp add: two_columns_def)
  let ?p = "\<lparr>out_stream = out @ missing_message, alignments = [LEFT, LEFT]\<rparr> :: StringsTablePrinter"
  have k: "list_all known_alignment (alignments ?p)" by (simp add: known_alignment_def)
  have ls: "table_alignments t ?p = [LEFT, LEFT]" by (simp add: table_alignments_def c)
  have "RowsCount t = vector_Size as" using t(3) by (simp add: RowsCount_def vector_Size_def)
  moreover have "columnsWidths t \<noteq> []" using c by auto
  ultimately have "print_missing as w out = (Inr (), out @ missing_message @
      concat (map (table_line ''  '' [] ''  '' [LEFT, LEFT] t) [0..<unat (vector_Size as)]))"
    using Print_table_eq [OF t(2) _ k] ls
    by (simp add: print_missing_def print_to_def local_table_def local_printer_def bindM_def t(1) left_aligned_eq missing_message_def)
  then show ?thesis using missing_report_lines [of ?ps t] wide t(3) unfolding ps by simp
qed

section \<open>Failing runs\<close>

lemma complaint_static:
  assumes "pool_ok w" "static u = static w" "complaint w c bad message"
  shows "complaint u c bad message"
proof -
  note F = static_FindOption [OF assms(2)] and L = static_list_items [OF assms(2)]
  have lv: "live w a" if "target w c s = Some a" for s a using target_live [OF assms(1) that] .
  have bv: "bad_value (option_of u a) v = bad_value (option_of w a) v" and nv: "NeedValue (option_of u a) = NeedValue (option_of w a)"
    if "target w c s = Some a" for s a v
    using static_fields(1,3) [OF assms(2) lv [OF that]] static_traits(2) [OF assms(2) lv [OF that]] by (simp_all add: bad_value_def)
  have bf: "bad_value (option_of u a) v = bad_value (option_of w a) v" and nf: "NeedValue (option_of u a) = NeedValue (option_of w a)"
    if "FindOption n w = Some a" for n a v
    using bv [of "LongFlag n" a v] nv [of "LongFlag n" a] that by simp_all
  show ?thesis
    using assms(3)
  proof cases
    case (invalid_positional v a r)
    then show ?thesis
      using bv [OF invalid_positional(3), of v] static_settings(1) [OF assms(1,2), of c "Positional v"]
      by (auto simp: F intro!: complaint.invalid_positional simp del: target.simps)
  qed (auto simp: F L bf nf intro: complaint.intros)
qed

text \<open>C11. Errors: behind any well-formed settings, an argument that is none (an unknown name, a value that is missing, not
  allowed or of the wrong form) makes parsing write exactly its complaint and terminate the program with code 1, the settings
  in front of it done and nothing else. When all arguments are settings but required options are missing, the program is terminated
  with code 1 after exactly their table is written: a line for each, in the order they were registered, with its label and its
  text in two columns as wide as the longest label and the longest text.\<close>

theorem Parse_rejects:
  assumes "pool_ok w" "argv w = name # concat (map render ss) @ bad" "wf_settings w ss (progress_of w)"
  shows "(\<forall>message. complaint w (cur (fold (step w) ss (progress_of w))) bad message \<longrightarrow>
      (\<exists>w'. Parse hs w = (Inl (TerminateProgram 1), w') \<and> std_err w' = std_err w @ message @ [CHR 0x0A] \<and>
        results w' = vars (fold (step w) ss (progress_of w)) \<and> argv w' = name # wiped_args w ss (progress_of w) @ bad)) \<and>
   (let ms = filter (\<lambda>a. IsRequired (option_of w a) \<and> a \<notin> seen (fold (step w) ss (progress_of w)))
        (list_items (the_list w) @ map_items (the_map w)) in
    bad = [] \<longrightarrow> ms \<noteq> [] \<longrightarrow>
      (\<exists>w'. Parse hs w = (Inl (TerminateProgram 1), w') \<and> progress_of w' = fold (step w) ss (progress_of w) \<and>
        std_err w' = std_err w @ missing_report (map (\<lambda>a. (opt_label (option_of w a), opt_text (option_of w a))) ms)))"
proof -
  let ?p = "fold (step w) ss (progress_of w)"
  obtain u where u: "parse_loop hs (length (argv w)) 1 (w\<lparr>pool := pool w\<lparr>programName := name\<rparr>\<rparr>) =
      parse_loop hs (length (argv w)) (length (name # concat (map render ss))) u"
    "static u = static w" "progress_of u = ?p" "argv u = name # wiped_args w ss (progress_of w) @ bad" "std_err u = std_err w"
    using Parse_run [OF assms, of hs] by auto
  have ok: "pool_ok u" using pool_ok_static assms(1) u(2) by blast
  have start: "Parse hs w = bindM (parse_loop hs (length (argv w)) 1) (\<lambda>_. bindM (list_CheckRequired []) (\<lambda>ms. bindM (map_CheckRequired ms) (\<lambda>ms.
     if ms \<noteq> [] then bindM (to_stderr (print_missing ms)) (\<lambda>_. throwM (TerminateProgram 1)) else returnM ())))
     (w\<lparr>pool := pool w\<lparr>programName := name\<rparr>\<rparr>)"
    using Parse_start [OF assms(2), of hs] assms(2) by simp
  have wlen: "length (wiped_args w ss p) = length (concat (map render ss))" for p
    by (induction ss arbitrary: p) (simp_all add: render_wiped_length)
  show ?thesis
  proof (intro conjI allI impI)
    fix message assume "complaint w (cur ?p) bad message"
    then have c: "complaint u (currentIndex (the_list u)) bad message"
      using complaint_static [OF assms(1) u(2)] u(3) by (metis cur_progress)
    have args: "argv u = (name # wiped_args w ss (progress_of w)) @ bad" "length (argv w) = length (argv u)"
      using u(4) assms(2) by (simp_all add: wlen)
    from parse_arg_refused [OF ok c args(1) args(2)]
    obtain w' where w': "parse_arg hs (length (argv w)) (length (name # concat (map render ss))) u = (Inl (TerminateProgram 1), w')"
      "refused u message w'"
      by (auto simp: wlen)
    have "bad \<noteq> []" using c by auto
    then have "parse_loop hs (length (argv w)) (length (name # concat (map render ss))) u = (Inl (TerminateProgram 1), w')"
      using w'(1) assms(2) by (subst parse_loop.simps) (simp add: bindM_def)
    then have "Parse hs w = (Inl (TerminateProgram 1), w')"
      using u(1) unfolding start by (simp add: bindM_def)
    moreover have "results u = vars (progress_of u)" by (simp add: progress_of_def)
    ultimately show "\<exists>w'. Parse hs w = (Inl (TerminateProgram 1), w') \<and> std_err w' = std_err w @ message @ [CHR 0x0A] \<and>
        results w' = vars ?p \<and> argv w' = name # wiped_args w ss (progress_of w) @ bad"
      using w'(2) u(3-5) by (simp add: refused_def)
  next
    define ms where "ms = filter (\<lambda>a. IsRequired (option_of w a) \<and> a \<notin> seen ?p) (list_items (the_list w) @ map_items (the_map w))"
    have m: "missing u = ms" using missing_progress [OF assms(1) u(2)] by (simp add: u(3) ms_def)
    have lw: "\<forall>a\<in>set ms. live w a" using assms(1) by (auto simp: pool_ok_def ms_def)
    show "let ms = filter (\<lambda>a. IsRequired (option_of w a) \<and> a \<notin> seen ?p) (list_items (the_list w) @ map_items (the_map w)) in bad = [] \<longrightarrow> ms \<noteq> [] \<longrightarrow>
      (\<exists>w'. Parse hs w = (Inl (TerminateProgram 1), w') \<and> progress_of w' = ?p \<and>
        std_err w' = std_err w @ missing_report (map (\<lambda>a. (opt_label (option_of w a), opt_text (option_of w a))) ms))"
      unfolding Let_def ms_def [symmetric]
    proof (intro impI)
      assume bad: "bad = []" and ne: "ms \<noteq> []"
      let ?r = "missing_report (map (\<lambda>a. (opt_label (option_of w a), opt_text (option_of w a))) ms)"
      have lu: "\<forall>a\<in>set ms. live u a" using lw static_live [OF u(2)] by blast
      have same: "map (\<lambda>a. (opt_label (option_of u a), opt_text (option_of u a))) ms =
          map (\<lambda>a. (opt_label (option_of w a), opt_text (option_of w a))) ms"
        using static_fields(3,4) [OF u(2)] lw by simp
      have report: "print_missing ms u (std_err u) = (Inr (), std_err u @ ?r)"
        using print_missing_eq [OF lu ne, of "std_err u"] unfolding same .
      let ?w' = "u\<lparr>std_err := std_err u @ ?r\<rparr>"
      have "parse_loop hs (length (argv w)) (length (name # concat (map render ss))) u = (Inr (), u)"
        using assms(2) bad by (simp add: parse_loop.simps)
      then have "Parse hs w = (Inl (TerminateProgram 1), ?w')"
        using u(1) ne unfolding start
        by (simp add: bindM_def [of "parse_loop _ _ _"] CheckRequired_eq [OF ok] m)
          (simp add: bindM_def to_stderr_def report throwM_def)
      moreover have "progress_of ?w' = ?p" using u(3) by (simp add: progress_of_def live_def option_of_def)
      ultimately show "\<exists>w'. Parse hs w = (Inl (TerminateProgram 1), w') \<and> progress_of w' = ?p \<and> std_err w' = std_err w @ ?r"
        using u(5) by (intro exI [of _ ?w']) simp
    qed
  qed
qed

theorem Parse_rejects_witness:
  "\<exists>w'. Parse (\<lambda>n v. returnM ()) (sample_parse [''prog'', ''--nope'', ''x'']) = (Inl (TerminateProgram 1), w') \<and>
     std_err w' = ''Unknown option '' @ [CHR 0x27] @ ''--nope'' @ [CHR 0x27, CHR 0x0A]"
proof -
  let ?w = "sample_parse [''prog'', ''--nope'', ''x'']"
  have "FindOption ''--nope'' ?w = None" by (simp add: sample_parse_def sample_world_def FindOption_def map_find_def)
  then have "complaint ?w (cur (fold (step ?w) [] (progress_of ?w))) [''--nope'', ''x''] (unknown_message ''--nope'')"
    by (intro complaint.unknown_flag) (simp_all add: long_name_def)
  moreover have "argv ?w = ''prog'' # concat (map render []) @ [''--nope'', ''x'']" by (simp add: sample_parse_def)
  ultimately obtain w' where "Parse (\<lambda>n v. returnM ()) ?w = (Inl (TerminateProgram 1), w')"
    "std_err w' = std_err ?w @ unknown_message ''--nope'' @ [CHR 0x0A]"
    using Parse_rejects [OF sample_parse_ok, of "[''prog'', ''--nope'', ''x'']" "''prog''" "[]" "[''--nope'', ''x'']" "\<lambda>n v. returnM ()"]
    by auto
  then show ?thesis by (simp add: sample_parse_def sample_world_def unknown_message_def quoted_def)
qed

section \<open>No undefined access\<close>

text \<open>What parsing keeps, whatever happens: the pool, and how many arguments there are.\<close>

definition steady :: "World \<Rightarrow> World \<Rightarrow> bool" where
  "steady w0 w \<longleftrightarrow> static w = static w0 \<and> length (argv w) = length (argv w0)"

definition safe_end :: "World \<Rightarrow> program_exit \<Rightarrow> World \<Rightarrow> bool" where
  "safe_end w0 e w \<longleftrightarrow> steady w0 w \<and> e \<noteq> Undefined"

abbreviation safe :: "World \<Rightarrow> 'a world_mth \<Rightarrow> bool" where
  "safe w0 m \<equiv> triple (steady w0) m (\<lambda>_. steady w0) (safe_end w0)"

lemma steady_std_err [simp]: "steady w0 (w\<lparr>std_err := s\<rparr>) = steady w0 w"
  by (simp add: steady_def)

lemma safe_terminate: "safe w0 (terminate message)"
  by (simp add: triple_def terminate_eq safe_end_def steady_def)

lemma safe_set_result: "safe w0 (set_result f)"
  by (simp add: triple_def set_result_def steady_def)

lemma steady_live: "steady w0 w \<Longrightarrow> live w a = live w0 a"
  by (rule static_live) (simp add: steady_def)

lemma safe_option:
  assumes "live w0 a" "\<And>opt. NeedValue opt = NeedValue (option_of w0 a) \<Longrightarrow> safe w0 (k opt)"
  shows "safe w0 (bindM (option_at a) k)"
proof (rule tripleI)
  fix w assume s: "steady w0 w"
  then have st: "static w = static w0" by (simp add: steady_def)
  have "NeedValue (option_of w a) = NeedValue (option_of w0 a)" by (rule static_traits(2) [OF st assms(1)])
  then have "safe w0 (k (option_of w a))" by (rule assms(2))
  moreover have "live w a" using s assms(1) steady_live by blast
  ultimately show "case bindM (option_at a) k w of (Inr opt, t) \<Rightarrow> steady w0 t | (Inl e, t) \<Rightarrow> safe_end w0 e t"
    using s by (simp add: bindM_def option_at_live triple_def)
qed

lemma safeD: "safe w0 m \<Longrightarrow> steady w0 w \<Longrightarrow> case m w of (Inr a, t) \<Rightarrow> steady w0 t | (Inl e, t) \<Rightarrow> safe_end w0 e t"
  by (simp add: triple_def)

lemma safe_bind:
  fixes m :: "'a world_mth" and k :: "'a \<Rightarrow> 'b world_mth"
  shows "safe w0 m \<Longrightarrow> (\<And>x. safe w0 (k x)) \<Longrightarrow> safe w0 (bindM m k)"
  by (rule triple_bind)

lemma safe_return: "safe w0 (returnM x)"
  by (rule triple_return)

lemma safe_at:
  assumes "\<And>w. steady w0 w \<Longrightarrow> safe w0 (m w)"
  shows "safe w0 (\<lambda>w. m w w)"
  using assms by (simp add: triple_def)

lemma steady_exists:
  assumes "live w0 a" "steady w0 w"
  shows "steady w0 (w\<lparr>memory := (memory w)[a := Some ((option_of w a)\<lparr>opt_exists := True\<rparr>)]\<rparr>)"
proof -
  have "live w a" using assms static_live [of w w0 a] by (simp add: steady_def)
  then have "static (w\<lparr>memory := (memory w)[a := Some ((option_of w a)\<lparr>opt_exists := True\<rparr>)]\<rparr>) = static w"
    by (auto simp: static_def map_update live_def option_of_def list_update_same_conv)
  then show ?thesis using assms(2) by (simp add: steady_def)
qed

lemma safe_set_exists:
  assumes "live w0 a" "\<And>opt. NeedValue opt = NeedValue (option_of w0 a) \<Longrightarrow> safe w0 (k opt)"
  shows "safe w0 (bindM (set_exists a) k)"
proof (rule tripleI)
  fix w assume s: "steady w0 w"
  then have st: "static w = static w0" by (simp add: steady_def)
  let ?o = "(option_of w a)\<lparr>opt_exists := True\<rparr>"
  have "NeedValue ?o = NeedValue (option_of w0 a)" using static_traits(2) [OF st assms(1)] by (simp add: NeedValue_def)
  then have "safe w0 (k ?o)" by (rule assms(2))
  moreover have "live w a" using s assms(1) steady_live by blast
  ultimately show "case bindM (set_exists a) k w of (Inr opt, t) \<Rightarrow> steady w0 t | (Inl e, t) \<Rightarrow> safe_end w0 e t"
    using safeD [of w0 "k ?o", OF _ steady_exists [OF assms(1) s]] by (simp add: bindM_def set_exists_live)
qed

text \<open>What is assumed of the program's own handlers: that they leave the options and the arguments alone.\<close>

definition handlers_safe :: "handlers \<Rightarrow> World \<Rightarrow> bool" where
  "handlers_safe hs w0 \<longleftrightarrow> (\<forall>n v. safe w0 (hs n v))"

text \<open>Printing the usage always ends the program with code 0.\<close>

lemma ProgramOptionsList_Print_returns:
  assumes "\<forall>a\<in>set (list_items (the_list w)). live w a"
  shows "\<exists>out'. ProgramOptionsList_Print w out = (Inr (), out')"
proof -
  have "\<exists>out'. forM as (\<lambda>a. bindM (option_in (memory w) a) (\<lambda>opt.
       if IsArray opt then print_to ('' ['' @ opt_label opt @ '' ...]'')
       else if IsRequired opt then print_to ('' '' @ opt_label opt)
       else print_to ('' ['' @ opt_label opt @ '']''))) out = (Inr (), out')" if "\<forall>a\<in>set as. live w a" for as out
    using that
  proof (induction as arbitrary: out)
    case (Cons a as)
    have "option_in (memory w) a out = (Inr (option_of w a), out)"
      using Cons.prems by (auto simp: option_in_def live_def option_of_def returnM_def)
    with Cons show ?case by (simp add: bindM_def print_to_def)
  qed (simp add: returnM_def)
  with assms show ?thesis by (simp add: ProgramOptionsList_Print_def)
qed

lemma PrintUsage_exits:
  assumes "pool_ok w"
  shows "\<exists>out'. PrintUsage w out = (Inl (TerminateProgram 0), out')"
proof -
  let ?l = "list_items (the_list w)" and ?m = "map_items (the_map w)"
  have lv: "\<forall>a\<in>set ?l. live w a" "\<forall>a\<in>set ?m. live w a" using assms by (auto simp: pool_ok_def)
  obtain t1 where t1: "PrintToTable w ?l StringsTable_new = (Inr (), t1)" "table_ok t1"
    using forM_two_columns [OF table_ok_new lv(1), of opt_label GetTextWithRequired] by (auto simp: PrintToTable_def)
  obtain t where t: "PrintToTable w ?m t1 = (Inr (), t)" "table_ok t"
    using forM_two_columns [OF t1(2) lv(2), of opt_label GetTextWithRequired] by (auto simp: PrintToTable_def)
  have pr: "\<exists>p'. (if b then bindM (PrintString s) (\<lambda>_. ProgramOptionsTablePrinter_Print ''  '' [] ''  '' t lo hi) else returnM ()) p = (Inr (), p') \<and>
      list_all known_alignment (alignments p')" if "list_all known_alignment (alignments p)" for b s lo hi p
    using that Print_table_returns [OF t(2), of "p\<lparr>out_stream := out_stream p @ s\<rparr>"]
    by (auto simp: bindM_def PrintString_def returnM_def)
  have printed: "\<exists>o2. local_printer (bindM left_aligned (\<lambda>_. bindM (if b then bindM (PrintString s) (\<lambda>_. ProgramOptionsTablePrinter_Print ''  '' [] ''  '' t lo hi) else returnM ())
      (\<lambda>_. bindM (if b' then bindM (PrintString s') (\<lambda>_. ProgramOptionsTablePrinter_Print ''  '' [] ''  '' t lo' hi') else returnM ())
      (\<lambda>_. PrintString s'')))) o1 = (Inr (), o2)" for b b' s s' s'' lo lo' hi hi' o1
  proof -
    have k: "list_all known_alignment (alignments \<lparr>out_stream = o1, alignments = [LEFT, LEFT]\<rparr>)" by (simp add: known_alignment_def)
    obtain p1 where p1: "(if b then bindM (PrintString s) (\<lambda>_. ProgramOptionsTablePrinter_Print ''  '' [] ''  '' t lo hi) else returnM ())
      \<lparr>out_stream = o1, alignments = [LEFT, LEFT]\<rparr> = (Inr (), p1)" "list_all known_alignment (alignments p1)"
      using pr [OF k] by blast
    obtain p2 where p2: "(if b' then bindM (PrintString s') (\<lambda>_. ProgramOptionsTablePrinter_Print ''  '' [] ''  '' t lo' hi') else returnM ()) p1 = (Inr (), p2)"
      using pr [OF p1(2)] by blast
    show ?thesis
      unfolding local_printer_def bindM_def [of left_aligned] left_aligned_eq
      by (simp add: bindM_def [of "if b then _ else _"] bindM_def [of "if b' then _ else _"] p1(1) p2 PrintString_def)
  qed
  have o1: "\<exists>o1. print_to s o0 = (Inr (), o1)" for s o0 by (simp add: print_to_def)
  have o2: "\<exists>o1. (if b then print_to s else returnM ()) o0 = (Inr (), o1)" for b s o0
    by (simp add: print_to_def returnM_def)
  have tbl: "\<exists>o1. local_table (bindM (PrintToTable w ?l) (\<lambda>_. PrintToTable w ?m)) o0 = (Inr t, o1)" for o0 :: string
    by (simp add: local_table_def bindM_def t1 t)
  show ?thesis
    unfolding PrintUsage_def
    by (rule bindM_ends, rule o1, rule bindM_ends, rule o2, rule bindM_ends, rule ProgramOptionsList_Print_returns [OF lv(1)],
        rule bindM_ends, rule o1, rule bindM_ends, rule tbl, rule bindM_ends, rule printed) (simp add: throwM_def)
qed

lemma safe_SetValue:
  assumes "pool_ok w0" "handlers_safe hs w0" "v \<noteq> None \<or> \<not> NeedValue opt"
  shows "safe w0 (SetValue hs opt v)"
proof -
  have usage: "safe w0 (ProgramOptionsPrintUsage v)"
  proof (rule tripleI)
    fix w assume s: "steady w0 w"
    then have "pool_ok w" using pool_ok_static [OF assms(1)] by (simp add: steady_def)
    then obtain out where "PrintUsage w (std_err w) = (Inl (TerminateProgram 0), out)" using PrintUsage_exits by blast
    then show "case ProgramOptionsPrintUsage v w of (Inr a, t) \<Rightarrow> steady w0 t | (Inl e, t) \<Rightarrow> safe_end w0 e t"
      using s by (simp add: ProgramOptionsPrintUsage_def to_stderr_def safe_end_def steady_def)
  qed
  show ?thesis
  proof (cases v)
    case None
    then show ?thesis
      using assms(2,3) usage
      by (auto simp: SetValue_defs NeedValue_def handlers_safe_def safe_set_result split: OptionKind.split Handler.split)
  next
    case (Some s)
    then show ?thesis
      using assms(2) usage
      by (auto simp: SetValue_defs handlers_safe_def safe_set_result deref_arg_def invalid_value_def safe_terminate
          split: OptionKind.split Handler.split option.split)
  qed
qed

lemma safe_mask: "safe w0 (mask_password p)"
  by (auto simp: triple_def mask_password_def steady_def split: option.split)

lemma safe_Set_option:
  assumes "pool_ok w0" "handlers_safe hs w0" "live w0 a" "p \<noteq> None \<or> \<not> NeedValue (option_of w0 a)"
  shows "safe w0 (Set_option hs a p)"
  unfolding Set_option_def
proof (rule safe_set_exists [OF assms(3)], rule safe_bind)
  fix opt assume n: "NeedValue opt = NeedValue (option_of w0 a)"
  show "safe w0 (\<lambda>w. SetValue hs opt (chars_at p w) w)"
    by (rule safe_at, rule safe_SetValue [OF assms(1,2)]) (use assms(4) n in \<open>auto simp: chars_at_def\<close>)
  show "safe w0 (if p \<noteq> None then bindM (option_at a) (\<lambda>opt. if IsPassword opt then mask_password p else returnM ()) else returnM ())"
    using safe_option [OF assms(3), of "\<lambda>opt. if IsPassword opt then mask_password p else returnM ()"]
    by (simp add: safe_mask safe_return)
qed

lemma steady_pool: "pool_ok w0 \<Longrightarrow> steady w0 w \<Longrightarrow> pool_ok w"
  using pool_ok_static by (auto simp: steady_def)

lemma safe_list_SetOptionValue:
  assumes "pool_ok w0" "handlers_safe hs w0" "p \<noteq> None"
  shows "safe w0 (list_SetOptionValue hs p)"
proof (rule tripleI)
  fix w assume s: "steady w0 w"
  show "case list_SetOptionValue hs p w of (Inr u, t) \<Rightarrow> steady w0 t | (Inl e, t) \<Rightarrow> safe_end w0 e t"
  proof (cases "currentIndex (the_list w) < length (list_items (the_list w))")
    case True
    let ?a = "list_items (the_list w) ! currentIndex (the_list w)"
    have "live w ?a" using steady_pool [OF assms(1) s] True by (simp add: pool_ok_def)
    then have l: "live w0 ?a" using s steady_live by blast
    have adv: "safe w0 advance" by (simp add: triple_def advance_def steady_def) (simp add: static_def set_list_def)
    have "safe w0 (bindM (Set_option hs ?a p) (\<lambda>_. bindM (option_at ?a) (\<lambda>opt. if \<not> IsArray opt then advance else returnM ())))"
      by (rule safe_bind [OF safe_Set_option [OF assms(1,2) l]], use assms(3) in simp)
        (rule safe_option [OF l], simp add: adv safe_return)
    from safeD [OF this s] True show ?thesis by (simp add: list_SetOptionValue_def Let_def)
  qed (use s in \<open>simp add: list_SetOptionValue_def\<close>)
qed

lemma safe_map_SetOption:
  assumes "pool_ok w0" "handlers_safe hs w0" "live w0 a"
  shows "safe w0 (map_SetOption hs key a p)"
  unfolding map_SetOption_def
  by (rule safe_option [OF assms(3)]) (auto simp: safe_terminate intro!: safe_Set_option assms)

lemma FindOption_live: "pool_ok w0 \<Longrightarrow> steady w0 w \<Longrightarrow> FindOption key w = Some a \<Longrightarrow> live w0 a"
  using steady_pool [of w0 w] steady_live [of w0 w a] by (auto simp: pool_ok_def)

lemma safe_map_SetOptionValue:
  assumes "pool_ok w0" "handlers_safe hs w0"
  shows "safe w0 (map_SetOptionValue hs key p)"
proof (rule tripleI)
  fix w assume s: "steady w0 w"
  show "case map_SetOptionValue hs key p w of (Inr u, t) \<Rightarrow> steady w0 t | (Inl e, t) \<Rightarrow> safe_end w0 e t"
  proof (cases "FindOption key w")
    case None
    with s show ?thesis by (simp add: map_SetOptionValue_def terminate_eq safe_end_def)
  next
    case (Some a)
    from safeD [OF safe_map_SetOption [OF assms FindOption_live [OF assms(1) s Some]] s] Some
    show ?thesis by (simp add: map_SetOptionValue_def)
  qed
qed

lemma safe_fetch:
  assumes "i < length (argv w0)" "\<And>arg. safe w0 (k arg)"
  shows "safe w0 (bindM (\<lambda>w. fetch (argv w) i w) k)"
proof (rule safe_bind [OF _ assms(2)])
  show "safe w0 (\<lambda>w. fetch (argv w) i w)"
    using assms(1) by (simp add: triple_def fetch_def returnM_def steady_def)
qed

lemma safe_short_option:
  assumes "pool_ok w0" "handlers_safe hs w0" "i < argc" "argc = length (argv w0)"
  shows "safe w0 (short_option hs argc i arg)"
proof (rule tripleI)
  fix w assume s: "steady w0 w"
  show "case short_option hs argc i arg w of (Inr u, t) \<Rightarrow> steady w0 t | (Inl e, t) \<Rightarrow> safe_end w0 e t"
  proof (cases "FindOption arg w")
    case None
    have "safe w0 (bindM (list_SetOptionValue hs (Some (i, 0))) (\<lambda>_. returnM (i + 1)))"
      by (rule safe_bind [OF safe_list_SetOptionValue [OF assms(1,2)]]) (simp_all add: safe_return)
    from safeD [OF this s] None s show ?thesis by (simp add: short_option_def terminate_eq safe_end_def)
  next
    case (Some a)
    then have l: "live w0 a" using FindOption_live [OF assms(1) s] by blast
    note set = safe_bind [OF safe_map_SetOption [OF assms(1,2) l] safe_return]
    have "safe w0 (bindM (option_at a) (\<lambda>opt.
       if NeedValue opt then
         if i + 1 = argc then terminate (''Option '' @ quoted arg @ '' requires value'')
         else bindM (\<lambda>w. fetch (argv w) (i + 1) w) (\<lambda>_. bindM (map_SetOption hs arg a (Some (i + 1, 0))) (\<lambda>_. returnM (i + 2)))
       else bindM (map_SetOption hs arg a None) (\<lambda>_. returnM (i + 1))))"
      using assms(3,4) by (intro safe_option [OF l]) (auto intro!: safe_fetch set safe_terminate)
    from safeD [OF this s] Some show ?thesis by (simp add: short_option_def)
  qed
qed

lemma safe_parse_arg:
  assumes "pool_ok w0" "handlers_safe hs w0" "i < argc" "argc = length (argv w0)"
  shows "safe w0 (parse_arg hs argc i)"
proof -
  have "safe w0 (long_option hs i arg)" for arg
    using safe_map_SetOptionValue [OF assms(1,2)] by (simp add: long_option_def split: option.split)
  note long = safe_bind [OF this safe_return]
  note lst = safe_bind [OF safe_list_SetOptionValue [OF assms(1,2)] safe_return]
  show ?thesis
    unfolding parse_arg_def using assms(3,4)
    by (intro safe_fetch) (auto intro: long lst safe_short_option [OF assms(1,2)])
qed

lemma safe_parse_loop:
  assumes "pool_ok w0" "handlers_safe hs w0" "argc = length (argv w0)" "steady w0 w"
  shows "case parse_loop hs argc i w of (Inr u, w') \<Rightarrow> steady w0 w' | (Inl e, w') \<Rightarrow> safe_end w0 e w'"
  using assms
proof (induction hs argc i w rule: parse_loop.induct)
  case (1 hs argc i w)
  show ?case
  proof (cases "i < argc")
    case True
    have p: "case parse_arg hs argc i w of (Inr j, t) \<Rightarrow> steady w0 t | (Inl e, t) \<Rightarrow> safe_end w0 e t"
      by (rule safeD [OF safe_parse_arg [OF "1.prems"(1,2) True "1.prems"(3)] "1.prems"(4)])
    obtain r t where rt: "parse_arg hs argc i w = (r, t)" by fastforce
    show ?thesis
    proof (cases r)
      case (Inl e)
      then have "parse_loop hs argc i w = (Inl e, t)" using True rt by (subst parse_loop.simps) (simp add: bindM_def)
      with p rt Inl show ?thesis by simp
    next
      case (Inr j)
      then have "parse_loop hs argc i w = parse_loop hs argc j t" using True rt by (subst parse_loop.simps) (simp add: bindM_def)
      moreover have "steady w0 t" using p rt Inr by simp
      ultimately show ?thesis using "1.IH" [OF True rt [unfolded Inr] "1.prems"(1-3)] by simp
    qed
  qed (use "1.prems"(4) in \<open>simp add: parse_loop.simps\<close>)
qed

text \<open>C12. Safety of parsing: for a well-formed pool and any arguments at all, when the program's own handlers leave the options
  and the arguments alone and make no undefined access themselves, parsing makes none: no dangling option, no null value, no
  argument beyond the end, no cell outside a table. It never changes the pool, and it returns only when every required option
  has been given.\<close>

theorem Parse_safe:
  assumes "pool_ok w" "argv w \<noteq> []" "handlers_safe hs w"
  shows "case Parse hs w of
      (Inr u, w') \<Rightarrow> static w' = static w \<and> length (argv w') = length (argv w) \<and> missing w' = []
    | (Inl e, w') \<Rightarrow> static w' = static w \<and> length (argv w') = length (argv w) \<and> e \<noteq> Undefined"
proof -
  obtain name args where a: "argv w = name # args" using assms(2) by (cases "argv w") auto
  let ?w = "w\<lparr>pool := pool w\<lparr>programName := name\<rparr>\<rparr>"
  have l: "Suc (length args) = length (argv w)" using a by simp
  have s: "steady w ?w" by (simp add: steady_def)
  obtain r u where ru: "parse_loop hs (Suc (length args)) 1 ?w = (r, u)" by fastforce
  have p: "case (r, u) of (Inr j, t) \<Rightarrow> steady w t | (Inl e, t) \<Rightarrow> safe_end w e t"
    using safe_parse_loop [OF assms(1,3) l s, of 1] ru by simp
  show ?thesis
  proof (cases r)
    case (Inl e)
    with p ru show ?thesis by (simp add: Parse_start [OF a] bindM_def safe_end_def steady_def)
  next
    case (Inr j)
    then have su: "steady w u" using p by simp
    note ok = steady_pool [OF assms(1) su]
    have P: "Parse hs w = (if missing u \<noteq> [] then bindM (to_stderr (print_missing (missing u))) (\<lambda>_. throwM (TerminateProgram 1)) else returnM ()) u"
      using ru Inr by (simp add: Parse_start [OF a] bindM_def [of "parse_loop _ _ _"] CheckRequired_eq [OF ok])
    show ?thesis
    proof (cases "missing u = []")
      case True
      with P su show ?thesis by (simp add: returnM_def steady_def)
    next
      case False
      have "\<forall>a\<in>set (missing u). live u a" using ok by (auto simp: missing_def pool_ok_def)
      then obtain out where "print_missing (missing u) u (std_err u) = (Inr (), out)"
        using print_missing_eq [OF _ False, of u "std_err u"] by blast
      with P False su show ?thesis by (simp add: bindM_def to_stderr_def throwM_def steady_def)
    qed
  qed
qed

theorem Parse_safe_witness:
  "case Parse (\<lambda>n v. returnM ()) (sample_parse [''prog'', ''--key'', ''-'', ''x'']) of
     (Inr u, w') \<Rightarrow> missing w' = [] | (Inl e, w') \<Rightarrow> e \<noteq> Undefined"
proof -
  have "handlers_safe (\<lambda>n v. returnM ()) w" for w by (simp add: handlers_safe_def safe_return)
  from Parse_safe [OF sample_parse_ok _ this, of "[''prog'', ''--key'', ''-'', ''x'']"] show ?thesis
    by (auto simp: sample_parse_def split: prod.splits sum.splits)
qed

end
