(* ===== verification/Simple_Template.thy ===== *)
theory Simple_Template
  imports String_Utils
begin

text \<open>
  \<^verbatim>\<open>simple_template/\<close>: texts with numbered parameters. The parser walks over the characters and tells a listener what it finds;
  the template is a listener that keeps the pieces; the writer puts values in their places. The errors stand for what the
  language leaves undefined: reading behind the NUL of the source, an index outside a vector, and characters whose owner is gone.
\<close>

datatype template_error = ReadPastEnd | BadIndex | DanglingChars

section \<open>The parser\<close>

record 'l SimpleTemplateParser =
  st_ptr :: nat
  textBegin :: nat
  currentParamIndex :: UINT_32
  st_listener :: 'l

text \<open>The operations of the class the parser is instantiated with\<close>

record 'l Listener =
  listener_OnText :: "string \<Rightarrow> ('l, template_error, unit) mth"
  listener_OnParameter :: "UINT_32 \<Rightarrow> ('l, template_error, unit) mth"

type_synonym ('l, 'a) parser_mth = "('l SimpleTemplateParser, template_error, 'a) mth"

definition DEFAULT_CONTROL_CHAR :: char where "DEFAULT_CONTROL_CHAR = CHR ''$''"

text \<open>\<open>*ptr_\<close> in the source \<open>s\<close>, whose NUL follows its last character\<close>

definition st_deref :: "string \<Rightarrow> ('l, char) parser_mth" where
  "st_deref s p =
     (if st_ptr p < length s then (Inr (s ! st_ptr p), p)
      else if st_ptr p = length s then (Inr CHR 0x00, p)
      else (Inl ReadPastEnd, p))"

definition st_advance :: "('l, unit) parser_mth" where
  "st_advance p = (Inr (), p\<lparr>st_ptr := st_ptr p + 1\<rparr>)"

definition on_listener :: "('l, template_error, unit) mth \<Rightarrow> ('l, unit) parser_mth" where
  "on_listener m p = (case m (st_listener p) of (r, l) \<Rightarrow> (r, p\<lparr>st_listener := l\<rparr>))"

definition st_OnText :: "'l Listener \<Rightarrow> string \<Rightarrow> nat \<Rightarrow> ('l, unit) parser_mth" where
  "st_OnText l s textEnd p =
     (if textBegin p < textEnd then on_listener (listener_OnText l (take (textEnd - textBegin p) (drop (textBegin p) s))) p
      else (Inr (), p))"

definition st_OnParameter :: "'l Listener \<Rightarrow> UINT_32 \<Rightarrow> ('l, unit) parser_mth" where
  "st_OnParameter l paramIndex = on_listener (listener_OnParameter l paramIndex)"

definition st_begin :: "('l, unit) parser_mth" where
  "st_begin p = (Inr (), p\<lparr>textBegin := st_ptr p\<rparr>)"

definition next_param :: "('l, UINT_32) parser_mth" where
  "next_param p = (Inr (currentParamIndex p), p\<lparr>currentParamIndex := currentParamIndex p + 1\<rparr>)"

text \<open>\<open>result\<close> is an \<^verbatim>\<open>int\<close>, kept as its bits.\<close>

function unpack_loop :: "string \<Rightarrow> UINT_32 \<Rightarrow> ('l, UINT_32) parser_mth" where
  "unpack_loop s result p = (case st_deref s p of
     (Inl e, p) \<Rightarrow> (Inl e, p)
   | (Inr c, p) \<Rightarrow>
       let result = add_digit result c; p = p\<lparr>st_ptr := st_ptr p + 1\<rparr> in
       (case st_deref s p of
          (Inl e, p) \<Rightarrow> (Inl e, p)
        | (Inr c, p) \<Rightarrow> if digit_char c then unpack_loop s result p else (Inr result, p)))"
  by pat_completeness auto
termination
  by (relation "measure (\<lambda>(s, result, p). length s + 1 - st_ptr p)") (auto simp: st_deref_def split: if_splits)

declare unpack_loop.simps [simp del]

definition UnpackInteger :: "string \<Rightarrow> ('l, UINT_32) parser_mth" where
  "UnpackInteger s = unpack_loop s 0"

definition ParseControlChar :: "'l Listener \<Rightarrow> char \<Rightarrow> string \<Rightarrow> ('l, unit) parser_mth" where
  "ParseControlChar l controlChar s =
     bindM (st_deref s) (\<lambda>c.
     if c = controlChar then
       bindM (\<lambda>p. st_OnText l s (st_ptr p - 1) p) (\<lambda>_. bindM st_begin (\<lambda>_. st_advance))
     else if c = CHR ''_'' then
       bindM (\<lambda>p. st_OnText l s (st_ptr p - 1) p) (\<lambda>_.
       bindM next_param (\<lambda>i.
       bindM (st_OnParameter l i) (\<lambda>_.
       bindM st_advance (\<lambda>_. st_begin))))
     else if digit_char c then
       bindM (\<lambda>p. st_OnText l s (st_ptr p - 1) p) (\<lambda>_.
       bindM (UnpackInteger s) (\<lambda>i.
       bindM (st_OnParameter l i) (\<lambda>_. st_begin)))
     else st_advance)"

lemma unpack_loop_ptr: "unpack_loop s r p = (Inr i, p') \<Longrightarrow> st_ptr p < st_ptr p'"
proof (induction s r p rule: unpack_loop.induct)
  case (1 s r p)
  let ?q = "p\<lparr>st_ptr := st_ptr p + 1\<rparr>"
  have d: "st_deref s x = (Inr c, y) \<Longrightarrow> y = x" for x y c by (simp add: st_deref_def split: if_splits)
  obtain c where c: "st_deref s p = (Inr c, p)"
    using "1.prems" d by (subst (asm) unpack_loop.simps) (auto split: prod.splits sum.splits)
  obtain c' where c': "st_deref s ?q = (Inr c', ?q)"
    using "1.prems" c d by (subst (asm) unpack_loop.simps) (auto simp: Let_def split: prod.splits sum.splits)
  show ?case
  proof (cases "digit_char c'")
    case True
    have "unpack_loop s (add_digit r c) ?q = (Inr i, p')"
      using "1.prems" c c' True by (subst (asm) unpack_loop.simps) (simp add: Let_def)
    then show ?thesis using "1.IH" [OF c [symmetric] refl refl refl c' [symmetric] refl True] by simp
  next
    case False
    then show ?thesis using "1.prems" c c' by (subst (asm) unpack_loop.simps) (auto simp: Let_def)
  qed
qed

lemma on_listener_ptr: "on_listener m p = (r, p') \<Longrightarrow> st_ptr p' = st_ptr p \<and> textBegin p' = textBegin p"
  by (auto simp: on_listener_def split: prod.splits)

lemma st_OnText_ptr: "st_OnText l s e p = (r, p') \<Longrightarrow> st_ptr p' = st_ptr p \<and> textBegin p' = textBegin p"
  by (auto simp: st_OnText_def split: if_splits dest: on_listener_ptr)

lemma ParseControlChar_ptr: "ParseControlChar l k s p = (Inr u, p') \<Longrightarrow> st_ptr p < st_ptr p'"
  by (auto simp: ParseControlChar_def bindM_Inr_iff st_deref_def st_advance_def st_begin_def next_param_def st_OnParameter_def
      UnpackInteger_def split: if_splits dest!: st_OnText_ptr on_listener_ptr unpack_loop_ptr)

function st_parse_loop :: "'l Listener \<Rightarrow> char \<Rightarrow> string \<Rightarrow> ('l, unit) parser_mth" where
  "st_parse_loop l controlChar s p = (case st_deref s p of
     (Inl e, p) \<Rightarrow> (Inl e, p)
   | (Inr c, p) \<Rightarrow>
       if c = CHR 0x00 then (Inr (), p)
       else if c = controlChar then
         bindM (ParseControlChar l controlChar s) (\<lambda>_. st_parse_loop l controlChar s) (p\<lparr>st_ptr := st_ptr p + 1\<rparr>)
       else st_parse_loop l controlChar s (p\<lparr>st_ptr := st_ptr p + 1\<rparr>))"
  by pat_completeness auto
termination
  by (relation "measure (\<lambda>(l, k, s, p). length s + 1 - st_ptr p)")
    (auto simp: st_deref_def split: if_splits dest!: ParseControlChar_ptr)

declare st_parse_loop.simps [simp del]

text \<open>The constructor parses; a null source is accepted.\<close>

definition SimpleTemplateParser_Parse :: "'l Listener \<Rightarrow> char \<Rightarrow> string option \<Rightarrow> ('l, template_error, unit) mth" where
  "SimpleTemplateParser_Parse l controlChar src listener = (case src of None \<Rightarrow> (Inr (), listener) | Some s \<Rightarrow>
     (case bindM (st_parse_loop l controlChar s) (\<lambda>_ p. st_OnText l s (st_ptr p) p)
         \<lparr>st_ptr = 0, textBegin = 0, currentParamIndex = 0, st_listener = listener\<rparr> of
        (r, p) \<Rightarrow> (r, st_listener p)))"

section \<open>Values\<close>

text \<open>\<open>SimpleTemplateValueChars\<close> points to characters of somebody else: \<open>None\<close> when their owner has been destroyed.\<close>

datatype SimpleTemplateValue =
    SimpleTemplateValueChar char
  | SimpleTemplateValueSigned int
  | SimpleTemplateValueUnsigned nat
  | SimpleTemplateValueString string
  | SimpleTemplateValueChars "string option"

definition value_Chars :: "SimpleTemplateValue \<Rightarrow> template_error + string" where
  "value_Chars v = (case v of
     SimpleTemplateValueChar c \<Rightarrow> Inr [c]
   | SimpleTemplateValueSigned i \<Rightarrow> Inr (IntegerToString_signed i)
   | SimpleTemplateValueUnsigned n \<Rightarrow> Inr (IntegerToString_unsigned n)
   | SimpleTemplateValueString s \<Rightarrow> Inr s
   | SimpleTemplateValueChars (Some s) \<Rightarrow> Inr s
   | SimpleTemplateValueChars None \<Rightarrow> Inl DanglingChars)"

text \<open>The types a value is created from: characters, signed and unsigned integers, \<^verbatim>\<open>std::string\<close> and \<^verbatim>\<open>const char *\<close>\<close>

datatype TemplateArgument = ArgumentChar char | ArgumentSigned int | ArgumentUnsigned nat | ArgumentString string | ArgumentChars string

definition CreateCopy :: "TemplateArgument \<Rightarrow> SimpleTemplateValue" where
  "CreateCopy a = (case a of
     ArgumentChar c \<Rightarrow> SimpleTemplateValueChar c
   | ArgumentSigned i \<Rightarrow> SimpleTemplateValueSigned i
   | ArgumentUnsigned n \<Rightarrow> SimpleTemplateValueUnsigned n
   | ArgumentString s \<Rightarrow> SimpleTemplateValueString s
   | ArgumentChars s \<Rightarrow> SimpleTemplateValueString (takeWhile (\<lambda>c. c \<noteq> CHR 0x00) s))"

definition CreateReference :: "TemplateArgument \<Rightarrow> SimpleTemplateValue" where
  "CreateReference a = (case a of
     ArgumentString s \<Rightarrow> SimpleTemplateValueChars (Some s)
   | ArgumentChars s \<Rightarrow> SimpleTemplateValueChars (Some (takeWhile (\<lambda>c. c \<noteq> CHR 0x00) s))
   | _ \<Rightarrow> CreateCopy a)"

text \<open>The parameter is passed by value: when the function returns, it is destroyed, and the characters it owns with it.\<close>

definition parameter_destroyed :: "TemplateArgument \<Rightarrow> SimpleTemplateValue \<Rightarrow> SimpleTemplateValue" where
  "parameter_destroyed a v = (case (a, v) of
     (ArgumentString s, SimpleTemplateValueChars (Some t)) \<Rightarrow> SimpleTemplateValueChars None
   | _ \<Rightarrow> v)"

definition CreateSimpleTemplateValueCopy :: "TemplateArgument \<Rightarrow> SimpleTemplateValue" where
  "CreateSimpleTemplateValueCopy obj = parameter_destroyed obj (CreateCopy obj)"

definition CreateSimpleTemplateValueReference :: "TemplateArgument \<Rightarrow> SimpleTemplateValue" where
  "CreateSimpleTemplateValueReference obj = parameter_destroyed obj (CreateReference obj)"

type_synonym SimpleTemplateValueArray = "SimpleTemplateValue option list"

definition SimpleTemplateValueArray_new :: "nat \<Rightarrow> SimpleTemplateValueArray" where
  "SimpleTemplateValueArray_new n = replicate n None"

definition reset_value :: "nat \<Rightarrow> SimpleTemplateValue \<Rightarrow> (SimpleTemplateValueArray, template_error, unit) mth" where
  "reset_value index v values = (if index < length values then (Inr (), values[index := Some v]) else (Inl BadIndex, values))"

definition SetCopy :: "nat \<Rightarrow> TemplateArgument \<Rightarrow> (SimpleTemplateValueArray, template_error, unit) mth" where
  "SetCopy index a = reset_value index (CreateSimpleTemplateValueCopy a)"

definition SetReference :: "nat \<Rightarrow> TemplateArgument \<Rightarrow> (SimpleTemplateValueArray, template_error, unit) mth" where
  "SetReference index a = reset_value index (CreateSimpleTemplateValueReference a)"

section \<open>The template\<close>

text \<open>Objects have addresses: the pieces refer to parameters, and the vector of parameters owns them.\<close>

record SimpleTemplateParameter =
  param_index :: UINT_32
  param_value :: "SimpleTemplateValue option"

datatype SimpleTemplateItem = SimpleTemplateItemText string | SimpleTemplateItemParameter nat

record SimpleTemplate =
  st_items :: "SimpleTemplateItem list"
  st_params :: "nat option list"
  st_objects :: "SimpleTemplateParameter list"

type_synonym 'a template_mth = "(SimpleTemplate, template_error, 'a) mth"

definition SimpleTemplateParameter_new :: "UINT_32 \<Rightarrow> SimpleTemplateParameter" where
  "SimpleTemplateParameter_new index = \<lparr>param_index = index, param_value = None\<rparr>"

definition SimpleTemplateParameter_SetValue :: "SimpleTemplateValue option \<Rightarrow> SimpleTemplateParameter \<Rightarrow> SimpleTemplateParameter" where
  "SimpleTemplateParameter_SetValue newValue p = (if param_value p \<noteq> newValue then p\<lparr>param_value := newValue\<rparr> else p)"

definition new_parameter :: "UINT_32 \<Rightarrow> nat template_mth" where
  "new_parameter index t = (Inr (length (st_objects t)), t\<lparr>st_objects := st_objects t @ [SimpleTemplateParameter_new index]\<rparr>)"

definition put_parameter :: "UINT_32 \<Rightarrow> nat template_mth" where
  "put_parameter index =
     bindM (new_parameter index) (\<lambda>param t.
       if unat index < length (st_params t) then (Inr param, t\<lparr>st_params := (st_params t)[unat index := Some param]\<rparr>)
       else (Inl BadIndex, t))"

definition CreateParameter :: "UINT_32 \<Rightarrow> nat template_mth" where
  "CreateParameter index t =
     (if unat index = length (st_params t) then
        bindM (new_parameter index) (\<lambda>param t. (Inr param, t\<lparr>st_params := st_params t @ [Some param]\<rparr>)) t
      else if unat index < length (st_params t) then
        (case st_params t ! unat index of None \<Rightarrow> put_parameter index t | Some param \<Rightarrow> (Inr param, t))
      else put_parameter index (t\<lparr>st_params := resize (unat (index + 1)) None (st_params t)\<rparr>))"

definition SimpleTemplate_OnText :: "string \<Rightarrow> unit template_mth" where
  "SimpleTemplate_OnText txt t = (Inr (), t\<lparr>st_items := st_items t @ [SimpleTemplateItemText txt]\<rparr>)"

definition SimpleTemplate_OnParameter :: "UINT_32 \<Rightarrow> unit template_mth" where
  "SimpleTemplate_OnParameter index =
     bindM (CreateParameter index) (\<lambda>param t. (Inr (), t\<lparr>st_items := st_items t @ [SimpleTemplateItemParameter param]\<rparr>))"

definition ParserListener :: "SimpleTemplate Listener" where
  "ParserListener = \<lparr>listener_OnText = SimpleTemplate_OnText, listener_OnParameter = SimpleTemplate_OnParameter\<rparr>"

definition SimpleTemplate_new :: "string option \<Rightarrow> (template_error + unit) \<times> SimpleTemplate" where
  "SimpleTemplate_new src =
     SimpleTemplateParser_Parse ParserListener DEFAULT_CONTROL_CHAR src \<lparr>st_items = [], st_params = [], st_objects = []\<rparr>"

definition ParamsCount :: "SimpleTemplate \<Rightarrow> nat" where "ParamsCount t = length (st_params t)"

definition GetParameter :: "nat \<Rightarrow> SimpleTemplate \<Rightarrow> nat option" where
  "GetParameter paramIndex t = (if paramIndex < length (st_params t) then st_params t ! paramIndex else None)"

section \<open>Writing\<close>

text \<open>The state is the output: \<^verbatim>\<open>StringOutputStream::Write\<close> appends.\<close>

type_synonym 'a writer_mth = "(string, template_error, 'a) mth"

definition StringOutputStream_Write :: "string \<Rightarrow> unit writer_mth" where
  "StringOutputStream_Write buffer out = (Inr (), out @ buffer)"

definition Visit_Text :: "string \<Rightarrow> unit writer_mth" where
  "Visit_Text txt = StringOutputStream_Write txt"

definition Visit_Parameter :: "SimpleTemplateValueArray \<Rightarrow> SimpleTemplateParameter \<Rightarrow> unit writer_mth" where
  "Visit_Parameter values param =
     (if unat (param_index param) \<ge> length values then returnM ()
      else case values ! unat (param_index param) of None \<Rightarrow> returnM ()
        | Some v \<Rightarrow> (case value_Chars v of Inl e \<Rightarrow> throwM e | Inr chars \<Rightarrow> StringOutputStream_Write chars))"

definition Visit_Item :: "SimpleTemplateValueArray \<Rightarrow> SimpleTemplate \<Rightarrow> SimpleTemplateItem \<Rightarrow> unit writer_mth" where
  "Visit_Item values t item = (case item of
     SimpleTemplateItemText txt \<Rightarrow> Visit_Text txt
   | SimpleTemplateItemParameter a \<Rightarrow> Visit_Parameter values (st_objects t ! a))"

definition EvaluateTemplateWithValues :: "SimpleTemplate \<Rightarrow> SimpleTemplateValueArray \<Rightarrow> unit writer_mth" where
  "EvaluateTemplateWithValues t values = forM (st_items t) (Visit_Item values t)"

text \<open>\<^verbatim>\<open>WriteTemplate\<close> and \<^verbatim>\<open>TemplateToString\<close>, overloaded for one and for two arguments\<close>

definition WriteTemplate :: "SimpleTemplate \<Rightarrow> TemplateArgument list \<Rightarrow> unit writer_mth" where
  "WriteTemplate t args out =
     (case forM [0..<length args] (\<lambda>i. SetReference i (args ! i)) (SimpleTemplateValueArray_new (length args)) of
        (Inl e, values) \<Rightarrow> (Inl e, out)
      | (Inr u, values) \<Rightarrow> EvaluateTemplateWithValues t values out)"

definition TemplateToString :: "SimpleTemplate \<Rightarrow> TemplateArgument list \<Rightarrow> template_error + string" where
  "TemplateToString t args = (case WriteTemplate t args [] of (Inl e, out) \<Rightarrow> Inl e | (Inr u, out) \<Rightarrow> Inr out)"

end
