(* ===== verification/Template_Semantics.thy ===== *)
theory Template_Semantics
  imports Simple_Template
begin

text \<open>
  What a template means: its characters and parameters one by one, and the text they give with values in the places of the
  parameters. Parsing and writing do exactly that, and read behind the end of a source that ends with the control character.
\<close>

section \<open>Pieces\<close>

datatype piece = Lit char | Par UINT_32

text \<open>The pieces of a source when the next \<open>$_\<close> is parameter \<open>n\<close>, and whether its end is reached.\<close>

function pieces :: "char \<Rightarrow> UINT_32 \<Rightarrow> string \<Rightarrow> piece list \<times> bool" where
  "pieces k n [] = ([], True)"
| "pieces k n (c # s) =
     (if c \<noteq> k then apfst (Cons (Lit c)) (pieces k n s)
      else case s of [] \<Rightarrow> ([], False)
        | d # r \<Rightarrow>
            if d = k then apfst (Cons (Lit k)) (pieces k n r)
            else if d = CHR ''_'' then apfst (Cons (Par n)) (pieces k (n + 1) r)
            else if digit_char d then
              apfst (Cons (Par (foldl add_digit 0 (takeWhile digit_char s)))) (pieces k n (dropWhile digit_char s))
            else apfst (append [Lit k, Lit d]) (pieces k n r))"
  by pat_completeness auto
termination
  by (relation "measure (\<lambda>(k, n, s). length s)") (auto simp: less_Suc_eq_le intro: le_trans [OF length_dropWhile_le])

declare pieces.simps(2) [simp del]

definition item_pieces :: "SimpleTemplateParameter list \<Rightarrow> SimpleTemplateItem \<Rightarrow> piece list" where
  "item_pieces objs item = (case item of
     SimpleTemplateItemText txt \<Rightarrow> map Lit txt | SimpleTemplateItemParameter a \<Rightarrow> [Par (param_index (objs ! a))])"

definition flat :: "SimpleTemplate \<Rightarrow> piece list" where
  "flat t = concat (map (item_pieces (st_objects t)) (st_items t))"

section \<open>The template as a listener\<close>

text \<open>The pieces refer to parameters that exist, and each place of the vector is empty or has the parameter with its number.\<close>

definition template_ok :: "SimpleTemplate \<Rightarrow> bool" where
  "template_ok t \<longleftrightarrow>
     (\<forall>a. SimpleTemplateItemParameter a \<in> set (st_items t) \<longrightarrow> a < length (st_objects t)) \<and>
     (\<forall>i<length (st_params t). case st_params t ! i of None \<Rightarrow> True
        | Some a \<Rightarrow> a < length (st_objects t) \<and> param_index (st_objects t ! a) = of_nat i) \<and>
     length (st_params t) < 2 ^ 32"

lemma item_pieces_append:
  assumes "\<forall>a. item = SimpleTemplateItemParameter a \<longrightarrow> a < length objs"
  shows "item_pieces (objs @ extra) item = item_pieces objs item"
  using assms by (auto simp: item_pieces_def nth_append split: SimpleTemplateItem.split)

lemma flat_objects:
  assumes "template_ok t" "st_items t' = st_items t" "st_objects t' = st_objects t @ extra"
  shows "flat t' = flat t"
proof -
  have "map (item_pieces (st_objects t @ extra)) (st_items t) = map (item_pieces (st_objects t)) (st_items t)"
    using assms(1) by (intro map_cong [OF refl] item_pieces_append) (auto simp: template_ok_def)
  then show ?thesis unfolding flat_def assms(2,3) by (rule arg_cong)
qed

lemma template_ok_items:
  "template_ok (t\<lparr>st_items := items\<rparr>) \<longleftrightarrow>
     (\<forall>a. SimpleTemplateItemParameter a \<in> set items \<longrightarrow> a < length (st_objects t)) \<and> template_ok (t\<lparr>st_items := []\<rparr>)"
  by (auto simp: template_ok_def cong: option.case_cong)

lemma template_ok_no_items: "template_ok t \<Longrightarrow> template_ok (t\<lparr>st_items := []\<rparr>)"
  by (auto simp: template_ok_def cong: option.case_cong)

text \<open>A new parameter at the end of the vector\<close>

lemma template_ok_push:
  assumes "template_ok t" "unat i = length (st_params t)" "unat i + 1 < 2 ^ 32"
  shows "template_ok (t\<lparr>st_objects := st_objects t @ [SimpleTemplateParameter_new i], st_params := st_params t @ [Some (length (st_objects t))]\<rparr>)"
    (is "template_ok ?t")
proof -
  have i: "of_nat (length (st_params t)) = i" unfolding assms(2) [symmetric] by simp
  have "case st_params ?t ! j of None \<Rightarrow> True
      | Some a \<Rightarrow> a < length (st_objects ?t) \<and> param_index (st_objects ?t ! a) = of_nat j" if j: "j < length (st_params ?t)" for j
  proof (cases "j < length (st_params t)")
    case True
    then show ?thesis using assms(1) by (auto simp: template_ok_def nth_append split: option.splits)
  next
    case False
    then have "j = length (st_params t)" using j by simp
    then show ?thesis using i by (simp add: SimpleTemplateParameter_new_def)
  qed
  then show ?thesis using assms unfolding template_ok_def by (simp add: less_Suc_eq)
qed

lemma put_parameter_ok:
  assumes "template_ok t" "unat i < length ps" "length ps < 2 ^ 32"
    "\<forall>j<length ps. ps ! j = (if j < length (st_params t) then st_params t ! j else None)"
  shows "\<exists>t'. put_parameter i (t\<lparr>st_params := ps\<rparr>) = (Inr (length (st_objects t)), t') \<and> template_ok t' \<and>
    st_items t' = st_items t \<and> st_objects t' = st_objects t @ [SimpleTemplateParameter_new i]"
proof -
  let ?t = "t\<lparr>st_objects := st_objects t @ [SimpleTemplateParameter_new i], st_params := ps[unat i := Some (length (st_objects t))]\<rparr>"
  have "put_parameter i (t\<lparr>st_params := ps\<rparr>) = (Inr (length (st_objects t)), ?t)"
    using assms(2) by (simp add: put_parameter_def bindM_def new_parameter_def)
  moreover have "template_ok ?t"
    using assms by (auto simp: template_ok_def nth_list_update nth_append SimpleTemplateParameter_new_def less_Suc_eq split: option.splits)
  ultimately show ?thesis by auto
qed

lemma CreateParameter_ok:
  assumes "template_ok t" "i \<noteq> - 1"
  shows "\<exists>a t' extra. CreateParameter i t = (Inr a, t') \<and> template_ok t' \<and> st_items t' = st_items t \<and>
    st_objects t' = st_objects t @ extra \<and> a < length (st_objects t') \<and> param_index (st_objects t' ! a) = i"
proof -
  have "unat i \<noteq> 2 ^ 32 - 1"
  proof
    assume "unat i = 2 ^ 32 - 1"
    moreover have "unat (- 1 :: UINT_32) = 2 ^ 32 - 1" by (simp add: unsigned_minus_1_eq_mask mask_eq_exp_minus_1)
    ultimately have "unat i = unat (- 1 :: UINT_32)" by simp
    then have "i = - 1" by (simp only: word_unat_eq_iff)
    with assms(2) show False by simp
  qed
  moreover have "unat i < 2 ^ 32" using unsigned_less [of i, where ?'a = nat] by simp
  ultimately have i: "unat i + 1 < 2 ^ 32" by linarith
  then have n: "unat (i + 1) = unat i + 1" by (simp add: unat_word_ariths)
  consider "unat i = length (st_params t)" | "unat i < length (st_params t)" | "unat i > length (st_params t)" by linarith
  then show ?thesis
  proof cases
    case 1
    let ?t = "t\<lparr>st_objects := st_objects t @ [SimpleTemplateParameter_new i], st_params := st_params t @ [Some (length (st_objects t))]\<rparr>"
    have "CreateParameter i t = (Inr (length (st_objects t)), ?t)"
      using 1 by (simp add: CreateParameter_def bindM_def new_parameter_def)
    moreover have "template_ok ?t" by (rule template_ok_push [OF assms(1)]) (use i 1 in auto)
    ultimately show ?thesis by (auto simp: SimpleTemplateParameter_new_def)
  next
    case 2
    show ?thesis
    proof (cases "st_params t ! unat i")
      case None
      then show ?thesis
        using put_parameter_ok [OF assms(1) 2] assms(1) 2 by (auto simp: CreateParameter_def template_ok_def SimpleTemplateParameter_new_def)
    next
      case (Some a)
      then have "a < length (st_objects t) \<and> param_index (st_objects t ! a) = i"
        using assms(1) 2 by (auto simp: template_ok_def)
      then show ?thesis using Some 2 assms(1) by (auto simp: CreateParameter_def)
    qed
  next
    case 3
    have "\<forall>j<unat i + 1. resize (unat i + 1) None (st_params t) ! j = (if j < length (st_params t) then st_params t ! j else None)"
      by (simp add: nth_resize)
    then show ?thesis
      using put_parameter_ok [OF assms(1), of i "resize (unat i + 1) None (st_params t)"] 3 i
      by (auto simp: CreateParameter_def n SimpleTemplateParameter_new_def)
  qed
qed

lemma OnText_flat:
  assumes "template_ok t"
  shows "SimpleTemplate_OnText txt t = (Inr (), t\<lparr>st_items := st_items t @ [SimpleTemplateItemText txt]\<rparr>) \<and>
    template_ok (t\<lparr>st_items := st_items t @ [SimpleTemplateItemText txt]\<rparr>) \<and>
    flat (t\<lparr>st_items := st_items t @ [SimpleTemplateItemText txt]\<rparr>) = flat t @ map Lit txt"
  using template_ok_no_items [OF assms] assms
  by (subst template_ok_items) (auto simp: SimpleTemplate_OnText_def flat_def item_pieces_def template_ok_def)

lemma OnParameter_flat:
  assumes "template_ok t" "i \<noteq> - 1"
  shows "\<exists>t'. SimpleTemplate_OnParameter i t = (Inr (), t') \<and> template_ok t' \<and> flat t' = flat t @ [Par i]"
proof -
  obtain a t1 extra where a: "CreateParameter i t = (Inr a, t1)" "template_ok t1" "st_items t1 = st_items t"
    "st_objects t1 = st_objects t @ extra" "a < length (st_objects t1)" "param_index (st_objects t1 ! a) = i"
    using CreateParameter_ok [OF assms] by blast
  let ?t = "t1\<lparr>st_items := st_items t1 @ [SimpleTemplateItemParameter a]\<rparr>"
  have "SimpleTemplate_OnParameter i t = (Inr (), ?t)" by (simp add: SimpleTemplate_OnParameter_def bindM_def a(1))
  moreover have "template_ok ?t"
    using template_ok_no_items [OF a(2)] a(2,5) by (subst template_ok_items) (auto simp: template_ok_def)
  moreover have "flat ?t = flat t1 @ [Par i]" using a(6) by (simp add: flat_def item_pieces_def)
  moreover have "flat t1 = flat t" by (rule flat_objects [OF assms(1) a(3,4)])
  ultimately show ?thesis by auto
qed

section \<open>Parsing\<close>

text \<open>The text that waits for its listener, and what has been read so far\<close>

definition pending :: "string \<Rightarrow> 'l SimpleTemplateParser \<Rightarrow> string" where
  "pending s p = take (st_ptr p - textBegin p) (drop (textBegin p) s)"

definition read_pieces :: "string \<Rightarrow> SimpleTemplate SimpleTemplateParser \<Rightarrow> piece list" where
  "read_pieces s p = flat (st_listener p) @ map Lit (pending s p)"

definition parser_ok :: "string \<Rightarrow> SimpleTemplate SimpleTemplateParser \<Rightarrow> bool" where
  "parser_ok s p \<longleftrightarrow> textBegin p \<le> st_ptr p \<and> st_ptr p \<le> length s \<and> template_ok (st_listener p)"

lemma pending_advance:
  "textBegin p \<le> st_ptr p \<Longrightarrow> st_ptr p < length s \<Longrightarrow> pending s (p\<lparr>st_ptr := Suc (st_ptr p)\<rparr>) = pending s p @ [s ! st_ptr p]"
  by (simp add: pending_def Suc_diff_le take_Suc_conv_app_nth)

lemma st_OnText_read:
  assumes "template_ok (st_listener p)" "e \<le> length s"
  shows "\<exists>t. st_OnText ParserListener s e p = (Inr (), p\<lparr>st_listener := t\<rparr>) \<and> template_ok t \<and>
    flat t = flat (st_listener p) @ map Lit (take (e - textBegin p) (drop (textBegin p) s))"
proof (cases "textBegin p < e")
  case True
  then show ?thesis
    using OnText_flat [OF assms(1), of "take (e - textBegin p) (drop (textBegin p) s)"]
    by (auto simp: st_OnText_def on_listener_def ParserListener_def)
next
  case False
  then show ?thesis using assms(1) by (intro exI [of _ "st_listener p"]) (simp add: st_OnText_def)
qed

lemma st_OnParameter_read:
  assumes "template_ok (st_listener p)" "i \<noteq> - 1"
  shows "\<exists>t. st_OnParameter ParserListener i p = (Inr (), p\<lparr>st_listener := t\<rparr>) \<and> template_ok t \<and>
    flat t = flat (st_listener p) @ [Par i]"
  using OnParameter_flat [OF assms] by (auto simp: st_OnParameter_def on_listener_def ParserListener_def)

lemma unpack_loop_digits:
  assumes "st_ptr p < length s" "digit_char (s ! st_ptr p)"
  shows "unpack_loop s r p = (Inr (foldl add_digit r (takeWhile digit_char (drop (st_ptr p) s))),
    p\<lparr>st_ptr := st_ptr p + length (takeWhile digit_char (drop (st_ptr p) s))\<rparr>)"
  using assms
proof (induction "length s - st_ptr p" arbitrary: r p)
  case 0
  then show ?case by simp
next
  case (Suc m)
  let ?p = "p\<lparr>st_ptr := Suc (st_ptr p)\<rparr>"
  have d: "drop (st_ptr p) s = s ! st_ptr p # drop (Suc (st_ptr p)) s" using Suc.prems(1) by (rule Cons_nth_drop_Suc [symmetric])
  consider "Suc (st_ptr p) = length s" | "Suc (st_ptr p) < length s" "digit_char (s ! Suc (st_ptr p))"
    | "Suc (st_ptr p) < length s" "\<not> digit_char (s ! Suc (st_ptr p))" using Suc.prems(1) by linarith
  then show ?case
  proof cases
    case 1
    then show ?thesis using Suc.prems by (subst unpack_loop.simps) (simp add: st_deref_def d Let_def)
  next
    case 2
    have "unpack_loop s r p = unpack_loop s (add_digit r (s ! st_ptr p)) ?p"
      using Suc.prems 2 by (subst unpack_loop.simps) (simp add: st_deref_def)
    also have "\<dots> = (Inr (foldl add_digit (add_digit r (s ! st_ptr p)) (takeWhile digit_char (drop (st_ptr ?p) s))),
      ?p\<lparr>st_ptr := st_ptr ?p + length (takeWhile digit_char (drop (st_ptr ?p) s))\<rparr>)"
      by (rule Suc.hyps(1)) (use Suc.hyps(2) 2 in auto)
    finally show ?thesis using Suc.prems(2) by (simp add: d)
  next
    case 3
    then have "drop (Suc (st_ptr p)) s = s ! Suc (st_ptr p) # drop (Suc (Suc (st_ptr p))) s" by (intro Cons_nth_drop_Suc [symmetric])
    then show ?thesis using Suc.prems 3 by (subst unpack_loop.simps) (simp add: st_deref_def d)
  qed
qed

text \<open>What follows a control character: the pieces it stands for are read, and the rest is still to be parsed.\<close>

lemma ParseControlChar_read:
  assumes ok: "template_ok (st_listener p)" "textBegin p \<le> st_ptr p - 1" "0 < st_ptr p" "st_ptr p < length s"
    and k: "s ! (st_ptr p - 1) = k"
    and last: "Par (- 1) \<notin> set (fst (pieces k (currentParamIndex p) (k # drop (st_ptr p) s)))"
  shows "\<exists>p' xs. ParseControlChar ParserListener k s p = (Inr (), p') \<and> parser_ok s p' \<and> st_ptr p < st_ptr p' \<and>
    pieces k (currentParamIndex p) (k # drop (st_ptr p) s) = apfst (append xs) (pieces k (currentParamIndex p') (drop (st_ptr p') s)) \<and>
    read_pieces s p' = flat (st_listener p) @ map Lit (take (st_ptr p - 1 - textBegin p) (drop (textBegin p) s)) @ xs"
proof -
  define d where "d = s ! st_ptr p"
  define before where "before = take (st_ptr p - 1 - textBegin p) (drop (textBegin p) s)"
  have deref: "st_deref s p = (Inr d, p)" using ok(4) by (simp add: st_deref_def d_def)
  have rest: "drop (st_ptr p) s = d # drop (Suc (st_ptr p)) s" using ok(4) unfolding d_def by (rule Cons_nth_drop_Suc [symmetric])
  obtain t where t: "st_OnText ParserListener s (st_ptr p - 1) p = (Inr (), p\<lparr>st_listener := t\<rparr>)" "template_ok t"
    "flat t = flat (st_listener p) @ map Lit before"
    using st_OnText_read [OF ok(1), of "st_ptr p - 1" s] less_imp_diff_less [OF ok(4), THEN less_imp_le] unfolding before_def by blast
  consider "d = k" | "d \<noteq> k" "d = CHR ''_''" | "d \<noteq> k" "d \<noteq> CHR ''_''" "digit_char d"
    | "d \<noteq> k" "d \<noteq> CHR ''_''" "\<not> digit_char d" by blast
  then show ?thesis
  proof cases
    case 1
    let ?p = "p\<lparr>st_listener := t, textBegin := st_ptr p, st_ptr := Suc (st_ptr p)\<rparr>"
    have "ParseControlChar ParserListener k s p = (Inr (), ?p)"
      using 1 by (simp add: ParseControlChar_def bindM_def deref t(1) [unfolded One_nat_def] st_begin_def st_advance_def)
    moreover have "pieces k (currentParamIndex p) (k # drop (st_ptr p) s) = apfst (append [Lit k]) (pieces k (currentParamIndex ?p) (drop (st_ptr ?p) s))"
      using 1 rest by (simp add: pieces.simps(2))
    moreover have "read_pieces s ?p = flat (st_listener p) @ map Lit before @ [Lit k]"
      using 1 by (simp add: read_pieces_def pending_def rest t(3))
    moreover have "parser_ok s ?p" using ok(4) t(2) by (simp add: parser_ok_def)
    ultimately show ?thesis unfolding before_def by fastforce
  next
    case 2
    have ps: "pieces k (currentParamIndex p) (k # drop (st_ptr p) s) =
        apfst (append [Par (currentParamIndex p)]) (pieces k (currentParamIndex p + 1) (drop (Suc (st_ptr p)) s))"
      using 2 rest by (simp add: pieces.simps(2))
    then have "currentParamIndex p \<noteq> - 1" using last by auto
    then obtain u where u: "st_OnParameter ParserListener (currentParamIndex p) (p\<lparr>st_listener := t, currentParamIndex := currentParamIndex p + 1\<rparr>) =
        (Inr (), p\<lparr>currentParamIndex := currentParamIndex p + 1, st_listener := u\<rparr>)" "template_ok u" "flat u = flat t @ [Par (currentParamIndex p)]"
      using st_OnParameter_read [of "p\<lparr>st_listener := t, currentParamIndex := currentParamIndex p + 1\<rparr>" "currentParamIndex p"] t(2)
      by (auto dest: sym)
    let ?p = "p\<lparr>currentParamIndex := currentParamIndex p + 1, st_listener := u, st_ptr := Suc (st_ptr p), textBegin := Suc (st_ptr p)\<rparr>"
    have "ParseControlChar ParserListener k s p = (Inr (), ?p)"
      using 2 by (simp add: ParseControlChar_def bindM_def deref t(1) [unfolded One_nat_def] next_param_def u(1) st_begin_def st_advance_def)
    moreover have "read_pieces s ?p = flat (st_listener p) @ map Lit before @ [Par (currentParamIndex p)]"
      by (simp add: read_pieces_def pending_def t(3) u(3))
    moreover have "parser_ok s ?p" using ok(4) u(2) by (simp add: parser_ok_def)
    ultimately show ?thesis using ps unfolding before_def by fastforce
  next
    case 3
    define i where "i = foldl add_digit (0 :: UINT_32) (takeWhile digit_char (drop (st_ptr p) s))"
    define n where "n = st_ptr p + length (takeWhile digit_char (drop (st_ptr p) s))"
    have n: "Suc (st_ptr p) \<le> n" "n \<le> length s" "drop n s = dropWhile digit_char (drop (st_ptr p) s)"
      using 3(3) rest length_takeWhile_le [of digit_char "drop (st_ptr p) s"] ok(4)
      by (auto simp: n_def dropWhile_eq_drop add.commute)
    have ps: "pieces k (currentParamIndex p) (k # drop (st_ptr p) s) = apfst (append [Par i]) (pieces k (currentParamIndex p) (drop n s))"
      using 3 by (simp add: pieces.simps(2) n(3) i_def) (simp add: rest)
    then have "i \<noteq> - 1" using last by auto
    have unpack: "UnpackInteger s (p\<lparr>st_listener := t\<rparr>) = (Inr i, p\<lparr>st_listener := t, st_ptr := n\<rparr>)"
      using unpack_loop_digits [of "p\<lparr>st_listener := t\<rparr>" s 0] ok(4) 3(3) by (simp add: UnpackInteger_def i_def n_def d_def)
    obtain u where u: "st_OnParameter ParserListener i (p\<lparr>st_listener := t, st_ptr := n\<rparr>) = (Inr (), p\<lparr>st_ptr := n, st_listener := u\<rparr>)"
      "template_ok u" "flat u = flat t @ [Par i]"
      using st_OnParameter_read [of "p\<lparr>st_listener := t, st_ptr := n\<rparr>", OF _ \<open>i \<noteq> - 1\<close>] t(2) by auto
    let ?p = "p\<lparr>st_ptr := n, st_listener := u, textBegin := n\<rparr>"
    have "ParseControlChar ParserListener k s p = (Inr (), ?p)"
      using 3 by (simp add: ParseControlChar_def bindM_def deref t(1) [unfolded One_nat_def] unpack u(1) st_begin_def)
    moreover have "read_pieces s ?p = flat (st_listener p) @ map Lit before @ [Par i]"
      by (simp add: read_pieces_def pending_def t(3) u(3))
    moreover have "parser_ok s ?p" using n u(2) by (simp add: parser_ok_def)
    ultimately show ?thesis using ps n(1) unfolding before_def by fastforce
  next
    case 4
    let ?p = "p\<lparr>st_ptr := Suc (st_ptr p)\<rparr>"
    have "ParseControlChar ParserListener k s p = (Inr (), ?p)"
      using 4 by (simp add: ParseControlChar_def bindM_def deref st_advance_def)
    moreover have "pieces k (currentParamIndex p) (k # drop (st_ptr p) s) = apfst (append [Lit k, Lit d]) (pieces k (currentParamIndex ?p) (drop (st_ptr ?p) s))"
      using 4 rest by (simp add: pieces.simps(2))
    moreover have "pending s ?p = before @ [k, d]"
      using pending_advance [of p s] pending_advance [of "p\<lparr>st_ptr := st_ptr p - 1\<rparr>" s] ok k
      by (simp add: d_def pending_def before_def)
    then have "read_pieces s ?p = flat (st_listener p) @ map Lit before @ [Lit k, Lit d]" by (simp add: read_pieces_def)
    moreover have "parser_ok s ?p" using ok by (simp add: parser_ok_def)
    ultimately show ?thesis unfolding before_def by fastforce
  qed
qed

lemma st_parse_loop_read:
  assumes "parser_ok s p" "CHR 0x00 \<notin> set s" "k \<noteq> CHR 0x00"
    "Par (- 1) \<notin> set (fst (pieces k (currentParamIndex p) (drop (st_ptr p) s)))"
  shows "case pieces k (currentParamIndex p) (drop (st_ptr p) s) of (xs, complete) \<Rightarrow>
    if complete then \<exists>p'. st_parse_loop ParserListener k s p = (Inr (), p') \<and> parser_ok s p' \<and> st_ptr p' = length s \<and>
      read_pieces s p' = read_pieces s p @ xs
    else \<exists>p'. st_parse_loop ParserListener k s p = (Inl ReadPastEnd, p')"
  using assms(1,4)
proof (induction "length s - st_ptr p" arbitrary: p rule: less_induct)
  case less
  consider "st_ptr p = length s" | "st_ptr p < length s" using less.prems(1) by (force simp: parser_ok_def)
  then show ?case
  proof cases
    case 1
    then have "st_parse_loop ParserListener k s p = (Inr (), p)" by (subst st_parse_loop.simps) (simp add: st_deref_def)
    then show ?thesis using 1 less.prems(1) by simp
  next
    case 2
    define c where "c = s ! st_ptr p"
    let ?q = "p\<lparr>st_ptr := Suc (st_ptr p)\<rparr>"
    have c: "st_deref s p = (Inr c, p)" "c \<noteq> CHR 0x00" using 2 assms(2) nth_mem [OF 2] unfolding c_def by (metis st_deref_def, metis)
    have rest: "drop (st_ptr p) s = c # drop (Suc (st_ptr p)) s" using 2 unfolding c_def by (rule Cons_nth_drop_Suc [symmetric])
    have q: "pending s ?q = pending s p @ [c]" using less.prems(1) 2 by (simp add: pending_advance parser_ok_def c_def)
    show ?thesis
    proof (cases "c = k")
      case False
      have loop: "st_parse_loop ParserListener k s p = st_parse_loop ParserListener k s ?q"
        using c False by (subst st_parse_loop.simps) simp
      have ps: "pieces k (currentParamIndex p) (drop (st_ptr p) s) = apfst (Cons (Lit c)) (pieces k (currentParamIndex ?q) (drop (st_ptr ?q) s))"
        using False by (simp add: rest pieces.simps(2))
      have "parser_ok s ?q" using less.prems(1) 2 by (simp add: parser_ok_def)
      moreover have "Par (- 1) \<notin> set (fst (pieces k (currentParamIndex ?q) (drop (st_ptr ?q) s)))" using less.prems(2) unfolding ps by simp
      moreover have "length s - st_ptr ?q < length s - st_ptr p" using 2 by simp
      ultimately show ?thesis using less.hyps [of ?q] unfolding loop ps
        by (auto simp: read_pieces_def q split: prod.splits if_splits)
    next
      case True
      have loop: "st_parse_loop ParserListener k s p = bindM (ParseControlChar ParserListener k s) (\<lambda>_. st_parse_loop ParserListener k s) ?q"
        using c True by (subst st_parse_loop.simps) simp
      show ?thesis
      proof (cases "st_ptr ?q < length s")
        case False
        then have "Suc (st_ptr p) = length s" using 2 by simp
        moreover from this have "ParseControlChar ParserListener k s ?q = (Inr (), ?q\<lparr>st_ptr := Suc (length s)\<rparr>)"
          using assms(3) by (simp add: ParseControlChar_def bindM_def st_deref_def st_advance_def)
        moreover have "st_parse_loop ParserListener k s (?q\<lparr>st_ptr := Suc (length s)\<rparr>) = (Inl ReadPastEnd, ?q\<lparr>st_ptr := Suc (length s)\<rparr>)"
          by (subst st_parse_loop.simps) (simp add: st_deref_def)
        ultimately show ?thesis unfolding loop using True by (simp add: bindM_def rest pieces.simps(2))
      next
        case more_chars: True
        have at: "s ! (st_ptr ?q - 1) = k" "drop (st_ptr p) s = k # drop (st_ptr ?q) s" using True rest by (simp_all add: c_def)
        obtain p' xs where p': "ParseControlChar ParserListener k s ?q = (Inr (), p')" "parser_ok s p'" "st_ptr ?q < st_ptr p'"
          and ps: "pieces k (currentParamIndex ?q) (k # drop (st_ptr ?q) s) = apfst (append xs) (pieces k (currentParamIndex p') (drop (st_ptr p') s))"
          and xs: "read_pieces s p' = flat (st_listener ?q) @ map Lit (take (st_ptr ?q - 1 - textBegin ?q) (drop (textBegin ?q) s)) @ xs"
          using ParseControlChar_read [of ?q s k] less.prems more_chars at by (auto simp: parser_ok_def)
        have ps: "pieces k (currentParamIndex p) (drop (st_ptr p) s) = apfst (append xs) (pieces k (currentParamIndex p') (drop (st_ptr p') s))"
          using ps unfolding at(2) by simp
        have xs: "read_pieces s p' = read_pieces s p @ xs" using xs by (simp add: read_pieces_def pending_def)
        have "Par (- 1) \<notin> set (fst (pieces k (currentParamIndex p') (drop (st_ptr p') s)))" using less.prems(2) unfolding ps by simp
        moreover have "length s - st_ptr p' < length s - st_ptr p" using 2 p'(3) by simp
        ultimately show ?thesis using less.hyps [of p', OF _ p'(2)] unfolding loop bindM_step [where m = "ParseControlChar ParserListener k s", OF p'(1)] ps
          by (auto simp: xs split: prod.splits if_splits)
      qed
    qed
  qed
qed

section \<open>Writing\<close>

definition argument_text :: "TemplateArgument \<Rightarrow> string" where
  "argument_text a = (case a of
     ArgumentChar c \<Rightarrow> [c]
   | ArgumentSigned i \<Rightarrow> IntegerToString_signed i
   | ArgumentUnsigned n \<Rightarrow> IntegerToString_unsigned n
   | ArgumentString s \<Rightarrow> s
   | ArgumentChars s \<Rightarrow> takeWhile (\<lambda>c. c \<noteq> CHR 0x00) s)"

text \<open>The text of a piece with the arguments \<open>args\<close>; a parameter without an argument has none.\<close>

definition piece_text :: "TemplateArgument list \<Rightarrow> piece \<Rightarrow> string" where
  "piece_text args x = (case x of Lit c \<Rightarrow> [c]
   | Par i \<Rightarrow> if unat i < length args then argument_text (args ! unat i) else [])"

text \<open>An argument of type \<^verbatim>\<open>std::string\<close> is in use\<close>

definition string_piece :: "TemplateArgument list \<Rightarrow> piece \<Rightarrow> bool" where
  "string_piece args x = (case x of Lit c \<Rightarrow> False
   | Par i \<Rightarrow> if unat i < length args then (case args ! unat i of ArgumentString s \<Rightarrow> True | _ \<Rightarrow> False) else False)"

lemma SetReferences:
  "n \<le> length args \<Longrightarrow> forM [0..<n] (\<lambda>i. SetReference i (args ! i)) (SimpleTemplateValueArray_new (length args)) =
    (Inr (), map (Some \<circ> CreateSimpleTemplateValueReference) (take n args) @ replicate (length args - n) None)"
proof (induction n)
  case 0
  then show ?case by (simp add: returnM_def SimpleTemplateValueArray_new_def)
next
  case (Suc n)
  then show ?case
    by (simp add: forM_append bindM_def SetReference_def reset_value_def returnM_def list_update_append take_Suc_conv_app_nth
        Suc_diff_Suc [symmetric] upt_Suc_append del: upt_Suc)
qed

lemma value_Chars_reference:
  "value_Chars (CreateSimpleTemplateValueReference a) =
     (case a of ArgumentString s \<Rightarrow> Inl DanglingChars | _ \<Rightarrow> Inr (argument_text a))"
  by (simp add: value_Chars_def CreateSimpleTemplateValueReference_def parameter_destroyed_def CreateReference_def CreateCopy_def
      argument_text_def split: TemplateArgument.split)

definition piece_written :: "TemplateArgument list \<Rightarrow> piece \<Rightarrow> unit writer_mth" where
  "piece_written args x out = (if string_piece args x then (Inl DanglingChars, out) else (Inr (), out @ piece_text args x))"

lemma Visit_Item_pieces:
  "Visit_Item (map (Some \<circ> CreateSimpleTemplateValueReference) args) t item out =
     forM (item_pieces (st_objects t) item) (piece_written args) out"
proof (cases item)
  case (SimpleTemplateItemText cs)
  have "forM (map Lit cs) (piece_written args) out = (Inr (), out @ cs)"
    by (induction cs arbitrary: out) (simp_all add: returnM_def bindM_def piece_written_def string_piece_def piece_text_def)
  then show ?thesis using SimpleTemplateItemText by (simp add: Visit_Item_def Visit_Text_def StringOutputStream_Write_def item_pieces_def)
next
  case (SimpleTemplateItemParameter a)
  then show ?thesis
    by (auto simp: Visit_Item_def Visit_Parameter_def item_pieces_def piece_written_def string_piece_def piece_text_def
        value_Chars_reference StringOutputStream_Write_def bindM_def returnM_def throwM_def split: TemplateArgument.split)
qed

lemma forM_concat: "forM (concat (map f xs)) g = forM xs (\<lambda>x. forM (f x) g)"
  by (induction xs) (simp_all add: forM_append)

lemma EvaluateTemplate_pieces:
  "EvaluateTemplateWithValues t (map (Some \<circ> CreateSimpleTemplateValueReference) args) = forM (flat t) (piece_written args)"
  by (simp add: EvaluateTemplateWithValues_def flat_def forM_concat Visit_Item_pieces [abs_def])

lemma pieces_written:
  "\<not> (\<exists>x\<in>set xs. string_piece args x) \<Longrightarrow> forM xs (piece_written args) out = (Inr (), out @ concat (map (piece_text args) xs))"
  by (induction xs arbitrary: out) (auto simp: returnM_def bindM_def piece_written_def)

lemma pieces_dangling: "\<exists>x\<in>set xs. string_piece args x \<Longrightarrow> \<exists>out'. forM xs (piece_written args) out = (Inl DanglingChars, out')"
  by (induction xs arbitrary: out) (auto simp: bindM_def piece_written_def)

lemma TemplateToString_pieces:
  "TemplateToString t args =
     (if \<exists>x\<in>set (flat t). string_piece args x then Inl DanglingChars else Inr (concat (map (piece_text args) (flat t))))"
proof -
  have "WriteTemplate t args [] = forM (flat t) (piece_written args) []"
    using SetReferences [of "length args" args] by (simp add: WriteTemplate_def EvaluateTemplate_pieces)
  then show ?thesis using pieces_written [of "flat t" args "[]"] pieces_dangling [of "flat t" args "[]"]
    by (cases "\<exists>x\<in>set (flat t). string_piece args x") (force simp: TemplateToString_def)+
qed

section \<open>Templates\<close>

definition ExpandTemplate :: "string \<Rightarrow> TemplateArgument list \<Rightarrow> template_error + string" where
  "ExpandTemplate s args = (case SimpleTemplate_new (Some s) of (Inl e, t) \<Rightarrow> Inl e | (Inr u, t) \<Rightarrow> TemplateToString t args)"

text \<open>C22. Making a template of a source and writing it with arguments gives the text that the definition \<open>pieces\<close> says.\<close>

theorem Template_expands:
  assumes "CHR 0x00 \<notin> set s" "Par (- 1) \<notin> set (fst (pieces CHR ''$'' 0 s))"
  shows "ExpandTemplate s args = (case pieces CHR ''$'' 0 s of (xs, complete) \<Rightarrow>
    if \<not> complete then Inl ReadPastEnd
    else if \<exists>x\<in>set xs. string_piece args x then Inl DanglingChars
    else Inr (concat (map (piece_text args) xs)))"
proof -
  let ?p = "\<lparr>st_ptr = 0, textBegin = 0, currentParamIndex = 0, st_listener = \<lparr>st_items = [], st_params = [], st_objects = []\<rparr>\<rparr>
    :: SimpleTemplate SimpleTemplateParser"
  have ok: "parser_ok s ?p" by (simp add: parser_ok_def template_ok_def)
  have none: "read_pieces s ?p = []" by (simp add: read_pieces_def flat_def pending_def)
  obtain xs complete where ps: "pieces CHR ''$'' 0 s = (xs, complete)" by fastforce
  show ?thesis
  proof (cases complete)
    case True
    obtain p where p: "st_parse_loop ParserListener CHR ''$'' s ?p = (Inr (), p)" "parser_ok s p" "st_ptr p = length s" "read_pieces s p = xs"
      using st_parse_loop_read [OF ok assms(1), of "CHR ''$''"] assms(2) ps True none by auto
    obtain t where t: "st_OnText ParserListener s (st_ptr p) p = (Inr (), p\<lparr>st_listener := t\<rparr>)" "flat t = read_pieces s p"
      using st_OnText_read [of p "st_ptr p" s] p(2,3) by (auto simp: parser_ok_def read_pieces_def pending_def)
    have "SimpleTemplate_new (Some s) = (Inr (), t)"
      by (simp add: SimpleTemplate_new_def SimpleTemplateParser_Parse_def DEFAULT_CONTROL_CHAR_def bindM_def p(1) t(1))
    then show ?thesis using True ps p(4) t(2) by (simp add: ExpandTemplate_def TemplateToString_pieces)
  next
    case False
    obtain p where "st_parse_loop ParserListener CHR ''$'' s ?p = (Inl ReadPastEnd, p)"
      using st_parse_loop_read [OF ok assms(1), of "CHR ''$''"] assms(2) ps False by auto
    then have "SimpleTemplate_new (Some s) = (Inl ReadPastEnd, st_listener p)"
      by (simp add: SimpleTemplate_new_def SimpleTemplateParser_Parse_def DEFAULT_CONTROL_CHAR_def bindM_def)
    then show ?thesis using False ps by (simp add: ExpandTemplate_def)
  qed
qed

theorem Template_expands_witness:
  "ExpandTemplate ''<$_$$>$1$x$7'' [ArgumentChars ''ab'', ArgumentChar CHR ''z''] = Inr ''<ab$>z$x''"
  using Template_expands [of "''<$_$$>$1$x$7''" "[ArgumentChars ''ab'', ArgumentChar CHR ''z'']"] by code_simp

end
