(* ===== verification/Pgsql_Cursor.thy ===== *)
theory Pgsql_Cursor
  imports Template_Semantics
begin

text \<open>
  \<^verbatim>\<open>pgsql/Cursor.cpp\<close>: a cursor makes its commands from templates and lets the connection execute them. The connection is
  a parameter: the function that executes a command on its state.
\<close>

section \<open>The cursor\<close>

datatype 'e cursor_error = EmptyCursorName | TemplateFails template_error | QueryFails 'e

text \<open>The cursor and the state of its connection\<close>

record 'd Cursor =
  cursor_name :: string
  cursor_dbc :: 'd

type_synonym ('d, 'e, 'a) cursor_mth = "('d Cursor, 'e cursor_error, 'a) mth"

definition TEMPLATE_DECLARE_CURSOR :: SimpleTemplate where
  "TEMPLATE_DECLARE_CURSOR = snd (SimpleTemplate_new (Some ''DECLARE $_ CURSOR FOR $_;''))"

definition TEMPLATE_CLOSE_CURSOR :: SimpleTemplate where
  "TEMPLATE_CLOSE_CURSOR = snd (SimpleTemplate_new (Some ''CLOSE $_;''))"

definition TEMPLATE_FETCH_CURSOR :: SimpleTemplate where
  "TEMPLATE_FETCH_CURSOR = snd (SimpleTemplate_new (Some ''FETCH $_ IN $_;''))"

definition Cursor_new :: "'d \<Rightarrow> 'd Cursor" where
  "Cursor_new dbc = \<lparr>cursor_name = [], cursor_dbc = dbc\<rparr>"

definition command :: "SimpleTemplate \<Rightarrow> TemplateArgument list \<Rightarrow> ('d, 'e, string) cursor_mth" where
  "command t args = (case TemplateToString t args of Inl e \<Rightarrow> throwM (TemplateFails e) | Inr sql \<Rightarrow> returnM sql)"

definition cursor_Execute :: "(string \<Rightarrow> ('d, 'e, 'r) mth) \<Rightarrow> string \<Rightarrow> ('d, 'e, 'r) cursor_mth" where
  "cursor_Execute Execute sql c = (case Execute sql (cursor_dbc c) of
     (Inl e, d) \<Rightarrow> (Inl (QueryFails e), c\<lparr>cursor_dbc := d\<rparr>)
   | (Inr r, d) \<Rightarrow> (Inr r, c\<lparr>cursor_dbc := d\<rparr>))"

definition set_name :: "string \<Rightarrow> ('d, 'e, unit) cursor_mth" where
  "set_name name c = (Inr (), c\<lparr>cursor_name := name\<rparr>)"

definition Cursor_Close :: "(string \<Rightarrow> ('d, 'e, 'r) mth) \<Rightarrow> ('d, 'e, unit) cursor_mth" where
  "Cursor_Close Execute c =
     (if cursor_name c = [] then (Inr (), c)
      else bindM (command TEMPLATE_CLOSE_CURSOR [ArgumentString (cursor_name c)]) (\<lambda>cursorQuery.
           bindM (set_name []) (\<lambda>_. bindM (cursor_Execute Execute cursorQuery) (\<lambda>_. returnM ()))) c)"

definition Cursor_Open :: "(string \<Rightarrow> ('d, 'e, 'r) mth) \<Rightarrow> string \<Rightarrow> string \<Rightarrow> ('d, 'e, unit) cursor_mth" where
  "Cursor_Open Execute name query =
     bindM (Cursor_Close Execute) (\<lambda>_.
       if name = [] then throwM EmptyCursorName
       else bindM (command TEMPLATE_DECLARE_CURSOR [ArgumentString name, ArgumentString query]) (\<lambda>sql.
            bindM (cursor_Execute Execute sql) (\<lambda>_. set_name name)))"

definition Cursor_Fetch :: "(string \<Rightarrow> ('d, 'e, 'r) mth) \<Rightarrow> int \<Rightarrow> ('d, 'e, 'r) cursor_mth" where
  "Cursor_Fetch Execute rowCount c =
     bindM (command TEMPLATE_FETCH_CURSOR [ArgumentSigned rowCount, ArgumentString (cursor_name c)]) (cursor_Execute Execute) c"

section \<open>Its commands\<close>

lemma cursor_template_pieces:
  "Par 0 \<in> set (flat TEMPLATE_CLOSE_CURSOR)" "Par 0 \<in> set (flat TEMPLATE_DECLARE_CURSOR)" "Par 1 \<in> set (flat TEMPLATE_FETCH_CURSOR)"
  by code_simp+

lemma command_dangles:
  "Par i \<in> set (flat t) \<Longrightarrow> string_piece args (Par i) \<Longrightarrow> command t args c = (Inl (TemplateFails DanglingChars), c)"
  using TemplateToString_pieces [of t args] by (auto simp: command_def throwM_def)

lemma cursor_commands_dangle:
  "command TEMPLATE_DECLARE_CURSOR [ArgumentString name, ArgumentString query] c = (Inl (TemplateFails DanglingChars), c)"
  "command TEMPLATE_CLOSE_CURSOR [ArgumentString name] c = (Inl (TemplateFails DanglingChars), c)"
  "command TEMPLATE_FETCH_CURSOR [ArgumentSigned n, ArgumentString name] c = (Inl (TemplateFails DanglingChars), c)"
  by (rule command_dangles [OF cursor_template_pieces(2)], simp add: string_piece_def)
    (rule command_dangles [OF cursor_template_pieces(1)] command_dangles [OF cursor_template_pieces(3)], simp add: string_piece_def)+

text \<open>No cursor opens or fetches, and none with a name closes: the names are of type \<^verbatim>\<open>std::string\<close>, and making the
  command from them reads characters that have been destroyed. No command reaches the connection.\<close>

theorem Cursor_never_executes:
  "Cursor_Open Execute name query c =
     (Inl (if cursor_name c = [] \<and> name = [] then EmptyCursorName else TemplateFails DanglingChars), c) \<and>
   Cursor_Fetch Execute n c = (Inl (TemplateFails DanglingChars), c) \<and>
   Cursor_Close Execute c = (if cursor_name c = [] then Inr () else Inl (TemplateFails DanglingChars), c)"
  by (simp add: Cursor_Open_def Cursor_Close_def Cursor_Fetch_def bindM_def cursor_commands_dangle throwM_def)

end
