(* ===== verification/Posix_File.thy ===== *)
theory Posix_File
  imports File_Path
begin

unbundle bit_operations_syntax

text \<open>
  \<^verbatim>\<open>linux/fs/File\<close>, \<^verbatim>\<open>linux/fs/FileStats\<close>, \<^verbatim>\<open>linux/fs/FileUtils\<close>: files, with the loops that go on after an interrupted or a partial
  system call. The system is a parameter: a record of the calls, each a function on the state of the system that answers a
  result or an error number.
\<close>

section \<open>The system\<close>

datatype errno = EINTR | EEXIST | ENOENT | ENOTDIR | ERANGE | errno_other int

datatype open_flag = O_RDONLY | O_WRONLY | O_RDWR | O_CREAT | O_EXCL | O_TRUNC | O_APPEND | O_LARGEFILE

datatype SeekMode = SEEK_SET | SEEK_END | SEEK_CUR

datatype FileType = NOT_EXISTS | REGULAR | DIRECTORY | LINK | UNKNOWN

text \<open>What \<^verbatim>\<open>stat\<close> says of a file: its size and the kind that its mode bits stand for\<close>

record Stats =
  st_size :: int
  st_kind :: FileType

type_synonym ('o, 'a) call = "'o \<Rightarrow> (errno + 'a) \<times> 'o"

record 'o System =
  sys_open :: "string \<Rightarrow> open_flag list \<Rightarrow> nat option \<Rightarrow> ('o, int) call"
  sys_close :: "int \<Rightarrow> ('o, unit) call"
  sys_fsync :: "int \<Rightarrow> ('o, unit) call"
  sys_read :: "int \<Rightarrow> nat \<Rightarrow> ('o, string) call"
  sys_write :: "int \<Rightarrow> string \<Rightarrow> ('o, nat) call"
  sys_lseek :: "int \<Rightarrow> int \<Rightarrow> SeekMode \<Rightarrow> ('o, int) call"
  sys_stat :: "bool \<Rightarrow> string \<Rightarrow> ('o, Stats) call"
  sys_rename :: "string \<Rightarrow> string \<Rightarrow> ('o, unit) call"
  sys_unlink :: "string \<Rightarrow> ('o, unit) call"
  sys_symlink :: "string \<Rightarrow> string \<Rightarrow> ('o, unit) call"
  sys_readlink :: "string \<Rightarrow> nat \<Rightarrow> ('o, string) call"
  sys_getcwd :: "nat \<Rightarrow> ('o, string) call"
  sys_mkdir :: "string \<Rightarrow> nat \<Rightarrow> ('o, unit) call"

section \<open>Errors\<close>

text \<open>\<open>BufferOverrun\<close> is a write behind the end of a buffer, \<open>DoesNotReturn\<close> a loop that does not end,
  \<open>Terminate\<close> an exception that leaves a destructor, which ends the program.\<close>

datatype file_error =
    IllegalOperation string
  | IllegalArgument string
  | UnixError errno
  | UnixAlreadyExists
  | UnixInterrupted
  | ReadError
  | BufferOverrun
  | DoesNotReturn
  | Terminate

section \<open>Files\<close>

text \<open>The members of a file, the system, and the bytes that the last \<open>Read\<close> put into the buffer of its caller\<close>

record 'o FileIo =
  file_state :: UINT_32
  file_desc :: int
  file_path :: string
  io_system :: 'o
  io_target :: string

type_synonym ('o, 'z, 'a) file_mth = "(('o, 'z) FileIo_scheme, file_error, 'a) mth"

definition CLOSED :: UINT_32 where "CLOSED = 0x0000"
definition READABLE :: UINT_32 where "READABLE = 0x0001"
definition WRITEABLE :: UINT_32 where "WRITEABLE = 0x0002"
definition SEEKABLE :: UINT_32 where "SEEKABLE = 0x0004"

definition MAX_INTERRUPTS_IGNORES :: nat where "MAX_INTERRUPTS_IGNORES = 4"

definition SSIZE_MAX :: nat where "SSIZE_MAX = 2 ^ 63 - 1"

definition CREATE_READ_WRITE :: "open_flag list \<times> UINT_32" where
  "CREATE_READ_WRITE = ([O_CREAT, O_RDWR, O_LARGEFILE], READABLE OR WRITEABLE OR SEEKABLE)"

definition CREATE_APPEND :: "open_flag list \<times> UINT_32" where
  "CREATE_APPEND = ([O_CREAT, O_WRONLY, O_APPEND, O_LARGEFILE], WRITEABLE)"

definition CREATE_NEW_READ_WRITE :: "open_flag list \<times> UINT_32" where
  "CREATE_NEW_READ_WRITE = ([O_CREAT, O_EXCL, O_RDWR, O_TRUNC, O_LARGEFILE], READABLE OR WRITEABLE OR SEEKABLE)"

definition CREATE_NEW_APPEND :: "open_flag list \<times> UINT_32" where
  "CREATE_NEW_APPEND = ([O_CREAT, O_EXCL, O_WRONLY, O_APPEND, O_TRUNC, O_LARGEFILE], WRITEABLE)"

definition RECREATE_READ_WRITE :: "open_flag list \<times> UINT_32" where
  "RECREATE_READ_WRITE = ([O_CREAT, O_RDWR, O_TRUNC, O_LARGEFILE], READABLE OR WRITEABLE OR SEEKABLE)"

definition RECREATE_APPEND :: "open_flag list \<times> UINT_32" where
  "RECREATE_APPEND = ([O_CREAT, O_WRONLY, O_APPEND, O_TRUNC, O_LARGEFILE], WRITEABLE)"

definition OPEN_READ_ONLY :: "open_flag list \<times> UINT_32" where
  "OPEN_READ_ONLY = ([O_RDONLY, O_LARGEFILE], READABLE OR SEEKABLE)"

definition OPEN_READ_WRITE :: "open_flag list \<times> UINT_32" where
  "OPEN_READ_WRITE = ([O_RDWR, O_LARGEFILE], READABLE OR WRITEABLE OR SEEKABLE)"

definition OPEN_APPEND :: "open_flag list \<times> UINT_32" where
  "OPEN_APPEND = ([O_WRONLY, O_APPEND, O_LARGEFILE], WRITEABLE)"

definition File_new :: "string \<Rightarrow> 'o \<Rightarrow> file_error + 'o FileIo" where
  "File_new filePath w =
     (if filePath = [] then Inl (IllegalArgument ''fileName'')
      else Inr \<lparr>file_state = CLOSED, file_desc = - 1, file_path = filePath, io_system = w, io_target = []\<rparr>)"

definition IsOpened :: "('o, 'z) FileIo_scheme \<Rightarrow> bool" where "IsOpened f \<longleftrightarrow> file_desc f \<noteq> - 1"
definition IsClosed :: "('o, 'z) FileIo_scheme \<Rightarrow> bool" where "IsClosed f \<longleftrightarrow> file_desc f = - 1"
definition IsReadable :: "('o, 'z) FileIo_scheme \<Rightarrow> bool" where "IsReadable f \<longleftrightarrow> file_state f AND READABLE \<noteq> 0"
definition IsWriteable :: "('o, 'z) FileIo_scheme \<Rightarrow> bool" where "IsWriteable f \<longleftrightarrow> file_state f AND WRITEABLE \<noteq> 0"
definition IsSeekable :: "('o, 'z) FileIo_scheme \<Rightarrow> bool" where "IsSeekable f \<longleftrightarrow> file_state f AND SEEKABLE \<noteq> 0"

definition system_call :: "('o, 'a) call \<Rightarrow> ('o, 'z, errno + 'a) file_mth" where
  "system_call c f = (case c (io_system f) of (r, w) \<Rightarrow> (Inr r, f\<lparr>io_system := w\<rparr>))"

definition file_closed :: "('o, 'z, unit) file_mth" where
  "file_closed f = (Inr (), f\<lparr>file_state := CLOSED, file_desc := - 1\<rparr>)"

definition file_opened :: "int \<Rightarrow> UINT_32 \<Rightarrow> ('o, 'z, unit) file_mth" where
  "file_opened desc st f = (Inr (), f\<lparr>file_state := st, file_desc := desc\<rparr>)"

definition File_Create :: "'o System \<Rightarrow> open_flag list \<times> UINT_32 \<Rightarrow> nat \<Rightarrow> ('o, 'z, unit) file_mth" where
  "File_Create sys m accessMode f =
     (if IsOpened f then throwM (IllegalOperation ''File is already opened'')
      else bindM (system_call (sys_open sys (file_path f) (fst m) (Some accessMode))) (\<lambda>r. case r of
          Inl e \<Rightarrow> bindM file_closed (\<lambda>_. throwM (if e = EEXIST then UnixAlreadyExists else UnixError e))
        | Inr desc \<Rightarrow> file_opened desc (snd m))) f"

definition File_Open :: "'o System \<Rightarrow> open_flag list \<times> UINT_32 \<Rightarrow> ('o, 'z, unit) file_mth" where
  "File_Open sys m f =
     (if IsOpened f then throwM (IllegalOperation ''File is already opened'')
      else bindM (system_call (sys_open sys (file_path f) (fst m) None)) (\<lambda>r. case r of
          Inl e \<Rightarrow> bindM file_closed (\<lambda>_. throwM (UnixError e))
        | Inr desc \<Rightarrow> file_opened desc (snd m))) f"

definition File_Close :: "'o System \<Rightarrow> ('o, 'z, unit) file_mth" where
  "File_Close sys f =
     (if IsClosed f then returnM ()
      else bindM (system_call (sys_close sys (file_desc f))) (\<lambda>r. bindM file_closed (\<lambda>_. case r of
          Inl e \<Rightarrow> throwM (UnixError e) | Inr u \<Rightarrow> returnM ()))) f"

fun fsync_loop :: "'o System \<Rightarrow> nat \<Rightarrow> ('o, 'z, unit) file_mth" where
  "fsync_loop sys interruptsCount f = bindM (system_call (sys_fsync sys (file_desc f))) (\<lambda>r. case r of
       Inr u \<Rightarrow> returnM ()
     | Inl e \<Rightarrow> if e \<noteq> EINTR then throwM (UnixError e)
         else (case interruptsCount of 0 \<Rightarrow> throwM UnixInterrupted | Suc k \<Rightarrow> fsync_loop sys k)) f"

declare fsync_loop.simps [simp del]

definition File_Flush :: "'o System \<Rightarrow> ('o, 'z, unit) file_mth" where
  "File_Flush sys f =
     (if IsClosed f then throwM (IllegalOperation ''File is closed'') else fsync_loop sys MAX_INTERRUPTS_IGNORES) f"

text \<open>The loop of \<open>Read\<close> with what it still has to read, what it has read, and the interrupts it still ignores\<close>

function read_loop :: "'o System \<Rightarrow> nat \<Rightarrow> nat \<Rightarrow> nat \<Rightarrow> ('o, 'z, nat) file_mth" where
  "read_loop sys wanted ready interruptsCount f =
     (if wanted = 0 then (Inr ready, f)
      else case sys_read sys (file_desc f) (min wanted SSIZE_MAX) (io_system f) of
        (Inr bytes, w) \<Rightarrow>
          if bytes \<noteq> [] then
            read_loop sys (wanted - length bytes) (ready + length bytes) interruptsCount (f\<lparr>io_system := w, io_target := io_target f @ bytes\<rparr>)
          else (Inr ready, f\<lparr>io_system := w\<rparr>)
      | (Inl e, w) \<Rightarrow>
          if e \<noteq> EINTR then (Inl (UnixError e), f\<lparr>io_system := w\<rparr>)
          else (case interruptsCount of
              0 \<Rightarrow> (if ready > 0 then Inr ready else Inl UnixInterrupted, f\<lparr>io_system := w\<rparr>)
            | Suc k \<Rightarrow> read_loop sys wanted ready k (f\<lparr>io_system := w\<rparr>)))"
  by pat_completeness auto
termination by (relation "measure (\<lambda>(sys, wanted, ready, k, f). wanted + k)") auto

declare read_loop.simps [simp del]

definition File_Read :: "'o System \<Rightarrow> nat \<Rightarrow> ('o, 'z, nat) file_mth" where
  "File_Read sys wanted f =
     (if IsClosed f then throwM (IllegalOperation ''File is closed'')
      else if \<not> IsReadable f then throwM (IllegalOperation ''File is not readable'')
      else read_loop sys wanted 0 MAX_INTERRUPTS_IGNORES) (f\<lparr>io_target := []\<rparr>)"

text \<open>The loop of \<open>Write\<close>: nothing bounds the number of calls that write no bytes, so it may not end.\<close>

partial_function (option) write_loop ::
  "'o System \<Rightarrow> string \<Rightarrow> nat \<Rightarrow> nat \<Rightarrow> ('o, 'z) FileIo_scheme \<Rightarrow> ((file_error + nat) \<times> ('o, 'z) FileIo_scheme) option" where
  "write_loop sys bytes ready interruptsCount f =
     (if bytes = [] then Some (Inr ready, f)
      else case sys_write sys (file_desc f) bytes (io_system f) of
        (Inr n, w) \<Rightarrow> write_loop sys (drop n bytes) (ready + n) interruptsCount (f\<lparr>io_system := w\<rparr>)
      | (Inl e, w) \<Rightarrow>
          if e \<noteq> EINTR then Some (Inl (UnixError e), f\<lparr>io_system := w\<rparr>)
          else (case interruptsCount of
              0 \<Rightarrow> Some (Inr ready, f\<lparr>io_system := w\<rparr>)
            | Suc k \<Rightarrow> write_loop sys bytes ready k (f\<lparr>io_system := w\<rparr>)))"

definition File_Write :: "'o System \<Rightarrow> string option \<Rightarrow> ('o, 'z, nat) file_mth" where
  "File_Write sys buffer f =
     (if IsClosed f then throwM (IllegalOperation ''File is closed'')
      else if \<not> IsWriteable f then throwM (IllegalOperation ''File is not writable'')
      else case buffer of None \<Rightarrow> throwM (IllegalArgument ''buffer'')
        | Some bytes \<Rightarrow> (\<lambda>f. case write_loop sys bytes 0 MAX_INTERRUPTS_IGNORES f of None \<Rightarrow> (Inl DoesNotReturn, f) | Some r \<Rightarrow> r)) f"

definition File_Write_string :: "'o System \<Rightarrow> string \<Rightarrow> ('o, 'z, nat) file_mth" where
  "File_Write_string sys buffer = File_Write sys (Some buffer)"

definition File_Seek :: "'o System \<Rightarrow> int \<Rightarrow> SeekMode \<Rightarrow> ('o, 'z, int) file_mth" where
  "File_Seek sys offset m f =
     (if IsClosed f then throwM (IllegalOperation ''File is closed'')
      else if \<not> IsSeekable f then throwM (IllegalOperation ''File is not seekable'')
      else bindM (system_call (sys_lseek sys (file_desc f) offset m)) (\<lambda>r. case r of
          Inl e \<Rightarrow> throwM (UnixError e) | Inr pos \<Rightarrow> returnM pos)) f"

definition SeekFromBegin :: "'o System \<Rightarrow> int \<Rightarrow> ('o, 'z, int) file_mth" where
  "SeekFromBegin sys offset = File_Seek sys offset SEEK_SET"

definition SeekFromEnd :: "'o System \<Rightarrow> int \<Rightarrow> ('o, 'z, int) file_mth" where
  "SeekFromEnd sys offset = File_Seek sys offset SEEK_END"

definition SeekFromCurrent :: "'o System \<Rightarrow> int \<Rightarrow> ('o, 'z, int) file_mth" where
  "SeekFromCurrent sys offset = File_Seek sys offset SEEK_CUR"

text \<open>Static functions work on the system alone.\<close>

definition static_call :: "('o, 'a) call \<Rightarrow> ('o, file_error, errno + 'a) mth" where
  "static_call c w = (case c w of (r, w) \<Rightarrow> (Inr r, w))"

definition on_system :: "('o, file_error, 'a) mth \<Rightarrow> ('o, 'z, 'a) file_mth" where
  "on_system m f = (case m (io_system f) of (r, w) \<Rightarrow> (r, f\<lparr>io_system := w\<rparr>))"

definition FileUtils_Rename :: "'o System \<Rightarrow> string \<Rightarrow> string \<Rightarrow> ('o, file_error, unit) mth" where
  "FileUtils_Rename sys oldPath newPath = bindM (static_call (sys_rename sys oldPath newPath)) (\<lambda>r. case r of
     Inl e \<Rightarrow> throwM (UnixError e) | Inr u \<Rightarrow> returnM ())"

definition FileUtils_Unlink :: "'o System \<Rightarrow> string \<Rightarrow> ('o, file_error, bool) mth" where
  "FileUtils_Unlink sys filePath = bindM (static_call (sys_unlink sys filePath)) (\<lambda>r. case r of
     Inr u \<Rightarrow> returnM True | Inl e \<Rightarrow> if e = ENOENT then returnM False else throwM (UnixError e))"

definition FileStats_Init :: "'o System \<Rightarrow> string \<Rightarrow> bool \<Rightarrow> ('o, file_error, Stats) mth" where
  "FileStats_Init sys fileName followLinks =
     (if fileName = [] then throwM (IllegalArgument ''fileName'')
      else bindM (static_call (sys_stat sys followLinks fileName)) (\<lambda>r. case r of
          Inl e \<Rightarrow> throwM (UnixError e) | Inr st \<Rightarrow> returnM st))"

definition FileStats_Type :: "'o System \<Rightarrow> string \<Rightarrow> ('o, file_error, FileType) mth" where
  "FileStats_Type sys filePath = bindM (static_call (sys_stat sys False filePath)) (\<lambda>r. case r of
     Inl e \<Rightarrow> if e = ENOENT \<or> e = ENOTDIR then returnM NOT_EXISTS else throwM (UnixError e)
   | Inr st \<Rightarrow> returnM (st_kind st))"

definition File_Unlink :: "'o System \<Rightarrow> ('o, 'z, bool) file_mth" where
  "File_Unlink sys = bindM (File_Close sys) (\<lambda>_ f. on_system (FileUtils_Unlink sys (file_path f)) f)"

definition File_Rename :: "'o System \<Rightarrow> string \<Rightarrow> ('o, 'z, unit) file_mth" where
  "File_Rename sys newFilePath f =
     bindM (on_system (FileUtils_Rename sys (file_path f) newFilePath)) (\<lambda>_ f. (Inr (), f\<lparr>file_path := newFilePath\<rparr>)) f"

definition File_GetStats :: "'o System \<Rightarrow> ('o, 'z, Stats) file_mth" where
  "File_GetStats sys f = on_system (FileStats_Init sys (file_path f) True) f"

definition File_Size :: "'o System \<Rightarrow> ('o, 'z, int) file_mth" where
  "File_Size sys = bindM (File_GetStats sys) (\<lambda>st. returnM (st_size st))"

end
