(* ===== verification/File_Streams.thy ===== *)
theory File_Streams
  imports Posix_File
begin

text \<open>
  \<^verbatim>\<open>io/\<close>: the streams over files. Each stream is a record that extends the one it wraps, so an operation of the inner stream
  is an operation of the outer one. The bytes a read gives are its result; a read that throws leaves what the system has
  read in \<open>io_target\<close>. Sizes are natural numbers; where the code converts a \<^verbatim>\<open>FileSize\<close> to \<^verbatim>\<open>unsigned int\<close>, the conversion is
  written out.
\<close>

section \<open>FileInputStream\<close>

record 'o FileInputStream = "'o FileIo" +
  in_position :: int
  in_size :: int

definition FileInputStream_init :: "'o FileIo \<Rightarrow> 'o FileInputStream" where
  "FileInputStream_init f = FileIo.extend f (FileInputStream.fields 0 0)"

text \<open>The body of the constructor, on members that are initialised\<close>

definition in_construct :: "'o System \<Rightarrow> (('o, 'z) FileInputStream_scheme, file_error, unit) mth" where
  "in_construct sys =
     bindM (File_Open sys OPEN_READ_ONLY) (\<lambda>_.
     bindM (File_GetStats sys) (\<lambda>fileStats s. (Inr (), s\<lparr>in_size := st_size fileStats\<rparr>)))"

definition FileInputStream_new :: "'o System \<Rightarrow> string \<Rightarrow> 'o \<Rightarrow> (file_error + 'o FileInputStream) \<times> 'o" where
  "FileInputStream_new sys filePath w = (case File_new filePath w of
     Inl e \<Rightarrow> (Inl e, w)
   | Inr f \<Rightarrow> (case in_construct sys (FileInputStream_init f) of
       (Inl e, s) \<Rightarrow> (Inl e, io_system s)
     | (Inr u, s) \<Rightarrow> (Inr s, io_system s)))"

definition in_Read :: "'o System \<Rightarrow> nat \<Rightarrow> (('o, 'z) FileInputStream_scheme, file_error, unit) mth" where
  "in_Read sys n = bindM (File_Read sys n) (\<lambda>wasRead.
     if wasRead \<noteq> n then throwM ReadError else (\<lambda>s. (Inr (), s\<lparr>in_position := in_position s + int n\<rparr>)))"

definition in_AtEnd :: "('o, 'z) FileInputStream_scheme \<Rightarrow> bool" where "in_AtEnd s \<longleftrightarrow> in_position s \<ge> in_size s"

definition in_Close :: "'o System \<Rightarrow> (('o, 'z) FileInputStream_scheme, file_error, unit) mth" where "in_Close sys = File_Close sys"

text \<open>The destructor closes the file.\<close>

definition in_destroy :: "'o System \<Rightarrow> (('o, 'z) FileInputStream_scheme, file_error, unit) mth" where "in_destroy sys = in_Close sys"

definition in_Seek :: "'o System \<Rightarrow> int \<Rightarrow> (('o, 'z) FileInputStream_scheme, file_error, unit) mth" where
  "in_Seek sys offset = bindM (SeekFromBegin sys offset) (\<lambda>_ s. (Inr (), s\<lparr>in_position := offset\<rparr>))"

definition in_AvailableSize :: "('o, 'z) FileInputStream_scheme \<Rightarrow> int" where
  "in_AvailableSize s = in_size s - in_position s"

section \<open>FileInputStreamBuffered\<close>

record 'o FileInputStreamBuffered = "'o FileInputStream" +
  ib_data :: string
  ib_capacity :: nat
  ib_size :: nat
  ib_position :: nat

text \<open>The buffer is not initialised: \<open>junk\<close> is what its memory holds.\<close>

definition InBuffer_init :: "string \<Rightarrow> 'o FileInputStream \<Rightarrow> 'o FileInputStreamBuffered" where
  "InBuffer_init junk s = FileInputStream.extend s (FileInputStreamBuffered.fields junk (length junk) 0 0)"

definition FileInputStreamBuffered_new :: "'o System \<Rightarrow> string \<Rightarrow> string \<Rightarrow> 'o \<Rightarrow> (file_error + 'o FileInputStreamBuffered) \<times> 'o" where
  "FileInputStreamBuffered_new sys filePath junk w = (case FileInputStream_new sys filePath w of
     (Inl e, w) \<Rightarrow> (Inl e, w) | (Inr s, w) \<Rightarrow> (Inr (InBuffer_init junk s), w))"

definition ib_AvailableSize :: "('o, 'z) FileInputStreamBuffered_scheme \<Rightarrow> nat" where
  "ib_AvailableSize s = ib_size s - ib_position s"

definition ib_AtEnd :: "('o, 'z) FileInputStreamBuffered_scheme \<Rightarrow> bool" where "ib_AtEnd s \<longleftrightarrow> ib_position s \<ge> ib_size s"

definition ib_Read :: "nat \<Rightarrow> (('o, 'z) FileInputStreamBuffered_scheme, file_error, string) mth" where
  "ib_Read n s = (let k = min n (ib_AvailableSize s) in
     if k = 0 then (Inr [], s)
     else (Inr (take k (drop (ib_position s) (ib_data s))), s\<lparr>ib_position := ib_position s + k\<rparr>))"

definition update_size :: "nat \<Rightarrow> ('o, 'z) FileInputStreamBuffered_scheme \<Rightarrow> nat" where
  "update_size minimumSize s =
     (if in_AvailableSize s < int (ib_capacity s) then
        let n = nat (in_AvailableSize s mod 2 ^ 32) in if n < minimumSize then minimumSize else n
      else ib_capacity s)"

text \<open>\<open>inputStream.Read(data_, size_)\<close>: the bytes that were read are in the buffer also when it throws.\<close>

definition ib_fill :: "'o System \<Rightarrow> nat \<Rightarrow> (('o, 'z) FileInputStreamBuffered_scheme, file_error, unit) mth" where
  "ib_fill sys n s = (case in_Read sys n s of (r, s) \<Rightarrow>
     if length (io_target s) > ib_capacity s then (Inl BufferOverrun, s)
     else (r, s\<lparr>ib_data := io_target s @ drop (length (io_target s)) (ib_data s)\<rparr>))"

definition ib_Update :: "'o System \<Rightarrow> nat \<Rightarrow> (('o, 'z) FileInputStreamBuffered_scheme, file_error, unit) mth" where
  "ib_Update sys minimumSize s =
     (let n = update_size minimumSize s in ib_fill sys n (s\<lparr>ib_size := n, ib_position := 0\<rparr>))"

definition FileInputStreamBuffered_Read :: "'o System \<Rightarrow> nat \<Rightarrow> (('o, 'z) FileInputStreamBuffered_scheme, file_error, string) mth" where
  "FileInputStreamBuffered_Read sys n =
     bindM (ib_Read n) (\<lambda>bytes. let m = n - length bytes in
       if m = 0 then returnM bytes
       else (\<lambda>s. if m \<ge> ib_capacity s then bindM (in_Read sys m) (\<lambda>_ s. (Inr (bytes @ io_target s), s)) s
             else bindM (ib_Update sys m) (\<lambda>_. bindM (ib_Read m) (\<lambda>more. returnM (bytes @ more))) s))"

definition FileInputStreamBuffered_AtEnd :: "('o, 'z) FileInputStreamBuffered_scheme \<Rightarrow> bool" where
  "FileInputStreamBuffered_AtEnd s \<longleftrightarrow> ib_AtEnd s \<and> in_AtEnd s"

definition FileInputStreamBuffered_Position :: "('o, 'z) FileInputStreamBuffered_scheme \<Rightarrow> int" where
  "FileInputStreamBuffered_Position s = in_position s - int (ib_AvailableSize s)"

definition FileInputStreamBuffered_AvailableSize :: "('o, 'z) FileInputStreamBuffered_scheme \<Rightarrow> int" where
  "FileInputStreamBuffered_AvailableSize s = in_AvailableSize s + int (ib_AvailableSize s)"

section \<open>FileOutputStream\<close>

record 'o FileOutputStream = "'o FileIo" +
  out_position :: int

definition FileOutputStream_init :: "'o FileIo \<Rightarrow> 'o FileOutputStream" where
  "FileOutputStream_init f = FileIo.extend f (FileOutputStream.fields 0)"

definition FileOutputStream_new :: "'o System \<Rightarrow> string \<Rightarrow> nat \<Rightarrow> 'o \<Rightarrow> (file_error + 'o FileOutputStream) \<times> 'o" where
  "FileOutputStream_new sys filePath accessMode w = (case File_new filePath w of
     Inl e \<Rightarrow> (Inl e, w)
   | Inr f \<Rightarrow> (case File_Create sys RECREATE_READ_WRITE accessMode (FileOutputStream_init f) of
       (Inl e, s) \<Rightarrow> (Inl e, io_system s)
     | (Inr u, s) \<Rightarrow> (Inr s, io_system s)))"

definition out_Write :: "'o System \<Rightarrow> string \<Rightarrow> (('o, 'z) FileOutputStream_scheme, file_error, unit) mth" where
  "out_Write sys bytes = bindM (File_Write sys (Some bytes)) (\<lambda>_ s. (Inr (), s\<lparr>out_position := out_position s + int (length bytes)\<rparr>))"

definition out_Close :: "'o System \<Rightarrow> (('o, 'z) FileOutputStream_scheme, file_error, unit) mth" where
  "out_Close sys = bindM (File_Flush sys) (\<lambda>_. File_Close sys)"

section \<open>FileOutputStreamBuffered\<close>

record 'o FileOutputStreamBuffered = "'o FileOutputStream" +
  ob_data :: string
  ob_capacity :: nat
  ob_size :: nat
  ob_position :: int

definition OutBuffer_init :: "string \<Rightarrow> 'o FileOutputStream \<Rightarrow> 'o FileOutputStreamBuffered" where
  "OutBuffer_init junk s = FileOutputStream.extend s (FileOutputStreamBuffered.fields junk (length junk) 0 0)"

definition DEFAULT_FILE :: nat where "DEFAULT_FILE = 420"

definition FileOutputStreamBuffered_new :: "'o System \<Rightarrow> string \<Rightarrow> string \<Rightarrow> 'o \<Rightarrow> (file_error + 'o FileOutputStreamBuffered) \<times> 'o" where
  "FileOutputStreamBuffered_new sys filePath junk w = (case FileOutputStream_new sys filePath DEFAULT_FILE w of
     (Inl e, w) \<Rightarrow> (Inl e, w) | (Inr s, w) \<Rightarrow> (Inr (OutBuffer_init junk s), w))"

definition ob_FreeSize :: "('o, 'z) FileOutputStreamBuffered_scheme \<Rightarrow> nat" where
  "ob_FreeSize s = ob_capacity s - ob_size s"

definition ob_Write :: "string \<Rightarrow> (('o, 'z) FileOutputStreamBuffered_scheme, file_error, unit) mth" where
  "ob_Write bytes s =
     (if ob_size s + length bytes > ob_capacity s then (Inl BufferOverrun, s)
      else (Inr (), s\<lparr>ob_data := take (ob_size s) (ob_data s) @ bytes @ drop (ob_size s + length bytes) (ob_data s),
                      ob_size := ob_size s + length bytes\<rparr>))"

definition ob_Flush :: "'o System \<Rightarrow> (('o, 'z) FileOutputStreamBuffered_scheme, file_error, unit) mth" where
  "ob_Flush sys s =
     (if ob_size s = 0 then returnM ()
      else bindM (out_Write sys (take (ob_size s) (ob_data s))) (\<lambda>_ s. (Inr (), s\<lparr>ob_size := 0\<rparr>))) s"

definition FileOutputStreamBuffered_Write :: "'o System \<Rightarrow> string \<Rightarrow> (('o, 'z) FileOutputStreamBuffered_scheme, file_error, unit) mth" where
  "FileOutputStreamBuffered_Write sys bytes =
     bindM (\<lambda>s. if length bytes \<le> ob_FreeSize s then ob_Write bytes s
       else bindM (ob_Flush sys) (\<lambda>_ s. if length bytes < ob_capacity s then ob_Write bytes s else out_Write sys bytes s) s)
     (\<lambda>_ s. (Inr (), s\<lparr>ob_position := ob_position s + int (length bytes)\<rparr>))"

definition FileOutputStreamBuffered_Position :: "('o, 'z) FileOutputStreamBuffered_scheme \<Rightarrow> int" where
  "FileOutputStreamBuffered_Position s = out_position s + int (ob_size s)"

definition FileOutputStreamBuffered_Flush :: "'o System \<Rightarrow> (('o, 'z) FileOutputStreamBuffered_scheme, file_error, unit) mth" where
  "FileOutputStreamBuffered_Flush sys = ob_Flush sys"

definition FileOutputStreamBuffered_Close :: "'o System \<Rightarrow> (('o, 'z) FileOutputStreamBuffered_scheme, file_error, unit) mth" where
  "FileOutputStreamBuffered_Close sys = bindM (FileOutputStreamBuffered_Flush sys) (\<lambda>_. out_Close sys)"

text \<open>The destructor flushes; it is declared not to throw, so an exception here ends the program.\<close>

definition FileOutputStreamBuffered_destroy :: "'o System \<Rightarrow> (('o, 'z) FileOutputStreamBuffered_scheme, file_error, unit) mth" where
  "FileOutputStreamBuffered_destroy sys = FileOutputStreamBuffered_Flush sys"

section \<open>FileTransaction\<close>

record 'o FileTransaction = "'o FileOutputStreamBuffered" +
  ft_filePath :: string

definition TempFilePath :: "string \<Rightarrow> string" where "TempFilePath filePath = filePath @ ''.tmp''"

text \<open>\<^verbatim>\<open>TempFilePath\<close> is virtual: the constructor calls the one of the class, \<open>Commit\<close> the one of the object, \<open>temp\<close>.\<close>

definition FileTransaction_new :: "'o System \<Rightarrow> string \<Rightarrow> string \<Rightarrow> 'o \<Rightarrow> (file_error + 'o FileTransaction) \<times> 'o" where
  "FileTransaction_new sys filePath junk w = (case FileOutputStreamBuffered_new sys (TempFilePath filePath) junk w of
     (Inl e, w) \<Rightarrow> (Inl e, w)
   | (Inr s, w) \<Rightarrow> (Inr (FileOutputStreamBuffered.extend s (FileTransaction.fields filePath)), w))"

definition FileTransaction_Write :: "'o System \<Rightarrow> string \<Rightarrow> (('o, 'z) FileTransaction_scheme, file_error, unit) mth" where
  "FileTransaction_Write sys bytes = FileOutputStreamBuffered_Write sys bytes"

definition Commit :: "'o System \<Rightarrow> (string \<Rightarrow> string) \<Rightarrow> (('o, 'z) FileTransaction_scheme, file_error, unit) mth" where
  "Commit sys temp =
     bindM (FileOutputStreamBuffered_Flush sys) (\<lambda>_.
     bindM (FileOutputStreamBuffered_Close sys) (\<lambda>_ s.
       on_system (FileUtils_Rename sys (temp (ft_filePath s)) (ft_filePath s)) s))"

end
