(* ===== verification/Stream_Contents.thy ===== *)
theory Stream_Contents
  imports File_Streams
begin

text \<open>
  What the streams do to the contents of a file. The system behaves as POSIX documents it: \<open>rest\<close> is what a descriptor has
  still to give, \<open>written\<close> what it has received, \<open>interrupts\<close> counts the calls that a signal has interrupted.
\<close>

section \<open>The calls of the system\<close>

definition regular_input :: "'o System \<Rightarrow> int \<Rightarrow> ('o \<Rightarrow> string) \<Rightarrow> ('o \<Rightarrow> nat) \<Rightarrow> bool" where
  "regular_input sys d rest interrupts \<longleftrightarrow> (\<forall>n w. 0 < n \<longrightarrow> (case sys_read sys d n w of
     (Inr bytes, w') \<Rightarrow> rest w = bytes @ rest w' \<and> length bytes \<le> n \<and> (bytes = [] \<longrightarrow> rest w = []) \<and> interrupts w' = interrupts w
   | (Inl e, w') \<Rightarrow> e = EINTR \<longrightarrow> rest w' = rest w \<and> interrupts w' = Suc (interrupts w)))"

definition regular_output :: "'o System \<Rightarrow> int \<Rightarrow> ('o \<Rightarrow> string) \<Rightarrow> ('o \<Rightarrow> nat) \<Rightarrow> bool" where
  "regular_output sys d written interrupts \<longleftrightarrow> (\<forall>bytes w. bytes \<noteq> [] \<longrightarrow> (case sys_write sys d bytes w of
     (Inr n, w') \<Rightarrow> 0 < n \<and> n \<le> length bytes \<and> written w' = written w @ take n bytes \<and> interrupts w' = interrupts w
   | (Inl e, w') \<Rightarrow> e = EINTR \<longrightarrow> written w' = written w \<and> interrupts w' = Suc (interrupts w)))"

lemma regular_input_Inr:
  assumes "regular_input sys d rest ints" "sys_read sys d n w = (Inr bytes, w')" "0 < n"
  shows "rest w = bytes @ rest w' \<and> length bytes \<le> n \<and> (bytes = [] \<longrightarrow> rest w = []) \<and> ints w' = ints w"
  using assms(1) [unfolded regular_input_def, rule_format, OF assms(3), of w] assms(2) by force

lemma regular_input_EINTR:
  assumes "regular_input sys d rest ints" "sys_read sys d n w = (Inl EINTR, w')" "0 < n"
  shows "rest w' = rest w \<and> ints w' = Suc (ints w)"
  using assms(1) [unfolded regular_input_def, rule_format, OF assms(3), of w] assms(2) by simp

lemma regular_output_Inr:
  assumes "regular_output sys d written ints" "sys_write sys d bytes w = (Inr n, w')" "bytes \<noteq> []"
  shows "0 < n \<and> n \<le> length bytes \<and> written w' = written w @ take n bytes \<and> ints w' = ints w"
  using assms(1) [unfolded regular_output_def, rule_format, OF assms(3), of w] assms(2) by simp

lemma regular_output_EINTR:
  assumes "regular_output sys d written ints" "sys_write sys d bytes w = (Inl EINTR, w')" "bytes \<noteq> []"
  shows "written w' = written w \<and> ints w' = Suc (ints w)"
  using assms(1) [unfolded regular_output_def, rule_format, OF assms(3), of w] assms(2) by simp

section \<open>Reading a file\<close>

definition read_error :: "'o System \<Rightarrow> int \<Rightarrow> errno \<Rightarrow> bool" where
  "read_error sys d x \<longleftrightarrow> x \<noteq> EINTR \<and> (\<exists>n w w'. sys_read sys d n w = (Inl x, w'))"

text \<open>What \<open>Read\<close> does from \<open>f\<close> to \<open>t\<close>: it changes the system and the buffer of the caller, and it gives up only at the end of
  the file, after \<open>k + 1\<close> interrupts, or when the system fails.\<close>

definition read_outcome :: "'o System \<Rightarrow> ('o \<Rightarrow> string) \<Rightarrow> ('o \<Rightarrow> nat) \<Rightarrow> nat \<Rightarrow> nat \<Rightarrow> string \<Rightarrow> ('o, 'z) FileIo_scheme \<Rightarrow> (file_error + nat) \<Rightarrow>
    ('o, 'z) FileIo_scheme \<Rightarrow> bool" where
  "read_outcome sys rest ints k n had f r t \<longleftrightarrow>
     t = f\<lparr>io_system := io_system t, io_target := io_target t\<rparr> \<and> length (io_target t) \<le> length had + n \<and>
     (case r of
       Inr m \<Rightarrow> \<exists>bytes. io_target t = had @ bytes \<and> m = length (io_target t) \<and> length bytes \<le> n \<and>
         rest (io_system f) = bytes @ rest (io_system t) \<and>
         (length bytes < n \<longrightarrow> rest (io_system t) = [] \<or> ints (io_system t) = Suc (ints (io_system f) + k))
     | Inl e \<Rightarrow> (e = UnixInterrupted \<and> had = [] \<and> io_target t = [] \<and> rest (io_system t) = rest (io_system f) \<and> ints (io_system t) = Suc (ints (io_system f) + k)) \<or>
         (\<exists>x. read_error sys (file_desc f) x \<and> e = UnixError x))"

lemma read_loop_outcome:
  assumes "regular_input sys (file_desc f) rest ints" "ready = length (io_target f)"
  shows "case read_loop sys n ready k f of (r, t) \<Rightarrow> read_outcome sys rest ints k n (io_target f) f r t"
  using assms
proof (induction sys n ready k f rule: read_loop.induct)
  case (1 sys n ready k f)
  show ?case
  proof (cases "n = 0")
    case True
    then show ?thesis using "1.prems"(2) by (subst read_loop.simps) (simp add: read_outcome_def)
  next
    case n: False
    have N: "0 < min n SSIZE_MAX" using n by (simp add: SSIZE_MAX_def)
    obtain r w where c: "sys_read sys (file_desc f) (min n SSIZE_MAX) (io_system f) = (r, w)" by fastforce
    show ?thesis
    proof (cases r)
      case (Inr bytes)
      have b: "rest (io_system f) = bytes @ rest w" "length bytes \<le> min n SSIZE_MAX" "bytes = [] \<longrightarrow> rest (io_system f) = []" "ints w = ints (io_system f)"
        using regular_input_Inr [OF "1.prems"(1) c [unfolded Inr] N] by auto
      show ?thesis
      proof (cases "bytes = []")
        case True
        then show ?thesis using c Inr n b "1.prems"(2) by (subst read_loop.simps) (simp add: read_outcome_def)
      next
        case False
        let ?f = "f\<lparr>io_system := w, io_target := io_target f @ bytes\<rparr>"
        have "case read_loop sys (n - length bytes) (ready + length bytes) k ?f of (r, t) \<Rightarrow>
            read_outcome sys rest ints k (n - length bytes) (io_target ?f) ?f r t"
          using "1.IH"(2) [OF n c [unfolded Inr, symmetric] refl False] "1.prems" by simp
        then show ?thesis using c Inr n False b
          by (subst read_loop.simps) (auto simp: read_outcome_def le_diff_conv2 less_diff_conv add.commute split: sum.splits)
      qed
    next
      case (Inl e)
      show ?thesis
      proof (cases "e = EINTR")
        case True
        have b: "rest w = rest (io_system f)" "ints w = Suc (ints (io_system f))"
          using regular_input_EINTR [OF "1.prems"(1) c [unfolded Inl True] N] by auto
        show ?thesis
        proof (cases k)
          case 0
          then show ?thesis using c Inl True n b "1.prems"(2) by (subst read_loop.simps) (simp add: read_outcome_def)
        next
          case (Suc k')
          have "case read_loop sys n ready k' (f\<lparr>io_system := w\<rparr>) of (r, t) \<Rightarrow>
              read_outcome sys rest ints k' n (io_target f) (f\<lparr>io_system := w\<rparr>) r t"
            using "1.IH"(1) [OF n c [unfolded Inl, symmetric] refl _ Suc] True "1.prems" by simp
          then show ?thesis using c Inl True n Suc b
            by (subst read_loop.simps) (auto simp: read_outcome_def split: sum.splits)
        qed
      next
        case False
        then have "read_error sys (file_desc f) e" using c Inl by (auto simp: read_error_def)
        then show ?thesis using False c Inl n by (subst read_loop.simps) (simp add: read_outcome_def)
      qed
    qed
  qed
qed

lemma File_Read_outcome:
  assumes "regular_input sys (file_desc f) rest ints" "IsOpened f" "IsReadable f"
  shows "case File_Read sys n f of (r, t) \<Rightarrow> read_outcome sys rest ints MAX_INTERRUPTS_IGNORES n [] (f\<lparr>io_target := []\<rparr>) r t"
  using read_loop_outcome [where f = "f\<lparr>io_target := []\<rparr>" and ready = 0 and k = MAX_INTERRUPTS_IGNORES and n = n] assms
  by (simp add: File_Read_def IsClosed_def IsOpened_def IsReadable_def)

section \<open>Writing a file\<close>

definition write_error :: "'o System \<Rightarrow> int \<Rightarrow> errno \<Rightarrow> bool" where
  "write_error sys d x \<longleftrightarrow> x \<noteq> EINTR \<and> (\<exists>bytes w w'. sys_write sys d bytes w = (Inl x, w'))"

definition write_outcome :: "'o System \<Rightarrow> ('o \<Rightarrow> string) \<Rightarrow> ('o \<Rightarrow> nat) \<Rightarrow> nat \<Rightarrow> string \<Rightarrow> nat \<Rightarrow> ('o, 'z) FileIo_scheme \<Rightarrow> (file_error + nat) \<Rightarrow>
    ('o, 'z) FileIo_scheme \<Rightarrow> bool" where
  "write_outcome sys written ints k bytes ready f r t \<longleftrightarrow>
     t = f\<lparr>io_system := io_system t\<rparr> \<and>
     (case r of
       Inr m \<Rightarrow> \<exists>n. m = ready + n \<and> n \<le> length bytes \<and> written (io_system t) = written (io_system f) @ take n bytes \<and>
         ints (io_system f) \<le> ints (io_system t) \<and>
         (n < length bytes \<longrightarrow> ints (io_system t) = Suc (ints (io_system f) + k))
     | Inl e \<Rightarrow> \<exists>x. write_error sys (file_desc f) x \<and> e = UnixError x)"

lemma write_loop_outcome:
  assumes "regular_output sys (file_desc f) written ints"
  shows "\<exists>r t. write_loop sys bytes ready k f = Some (r, t) \<and> write_outcome sys written ints k bytes ready f r t"
  using assms
proof (induction "length bytes + k" arbitrary: bytes ready k f rule: less_induct)
  case less
  show ?case
  proof (cases "bytes = []")
    case True
    then show ?thesis by (subst write_loop.simps) (simp add: write_outcome_def)
  next
    case False
    obtain c w where c: "sys_write sys (file_desc f) bytes (io_system f) = (c, w)" by fastforce
    show ?thesis
    proof (cases c)
      case (Inr n)
      have b: "0 < n" "n \<le> length bytes" "written w = written (io_system f) @ take n bytes" "ints w = ints (io_system f)"
        using regular_output_Inr [OF less.prems c [unfolded Inr] False] by auto
      obtain r t where r: "write_loop sys (drop n bytes) (ready + n) k (f\<lparr>io_system := w\<rparr>) = Some (r, t)"
        "write_outcome sys written ints k (drop n bytes) (ready + n) (f\<lparr>io_system := w\<rparr>) r t"
        using less.hyps [of "drop n bytes" k "f\<lparr>io_system := w\<rparr>" "ready + n"] b less.prems False by auto
      have "write_outcome sys written ints k bytes ready f r t"
      proof (cases r)
        case (Inl e)
        then show ?thesis using r(2) by (auto simp: write_outcome_def)
      next
        case r': (Inr m)
        then obtain j where "m = ready + n + j" "j \<le> length bytes - n" "written (io_system t) = written w @ take j (drop n bytes)"
          "j < length bytes - n \<longrightarrow> ints (io_system t) = Suc (ints w + k)" "ints w \<le> ints (io_system t)" "t = f\<lparr>io_system := io_system t\<rparr>"
          using r(2) by (auto simp: write_outcome_def)
        then show ?thesis using b r' by (auto simp: write_outcome_def take_add intro!: exI [of _ "n + j"])
      qed
      then show ?thesis using r(1) c Inr False by (subst write_loop.simps) simp
    next
      case (Inl e)
      show ?thesis
      proof (cases "e = EINTR")
        case True
        have b: "written w = written (io_system f)" "ints w = Suc (ints (io_system f))"
          using regular_output_EINTR [OF less.prems c [unfolded Inl True] False] by auto
        show ?thesis
        proof (cases k)
          case 0
          then show ?thesis using c Inl True False b by (subst write_loop.simps) (auto simp: write_outcome_def)
        next
          case (Suc k')
          obtain r t where r: "write_loop sys bytes ready k' (f\<lparr>io_system := w\<rparr>) = Some (r, t)"
            "write_outcome sys written ints k' bytes ready (f\<lparr>io_system := w\<rparr>) r t"
            using less.hyps [of bytes k' "f\<lparr>io_system := w\<rparr>" ready] Suc less.prems by auto
          have "write_outcome sys written ints k bytes ready f r t"
            using r(2) b Suc by (auto simp: write_outcome_def split: sum.splits)
          then show ?thesis using r(1) c Inl True False Suc by (subst write_loop.simps) simp
        qed
      next
        case False
        then have "write_error sys (file_desc f) e" using c Inl by (auto simp: write_error_def)
        then show ?thesis using False c Inl \<open>bytes \<noteq> []\<close> by (subst write_loop.simps) (auto simp: write_outcome_def)
      qed
    qed
  qed
qed

lemma File_Write_outcome:
  assumes "regular_output sys (file_desc f) written ints" "IsOpened f" "IsWriteable f"
  shows "case File_Write sys (Some bytes) f of (r, t) \<Rightarrow> write_outcome sys written ints MAX_INTERRUPTS_IGNORES bytes 0 f r t"
  using write_loop_outcome [OF assms(1), of bytes 0 MAX_INTERRUPTS_IGNORES] assms(2,3)
  by (auto simp: File_Write_def IsClosed_def IsOpened_def IsWriteable_def)

section \<open>A system\<close>

text \<open>One file, at descriptor 3, as its text; the first call is interrupted, and no call moves more than two bytes.\<close>

definition sample_system :: "(string \<times> bool) System" where
  "sample_system = \<lparr>
     sys_open = (\<lambda>path flags m w. (Inr 3, w)),
     sys_close = (\<lambda>d w. (Inr (), w)),
     sys_fsync = (\<lambda>d w. (Inr (), w)),
     sys_read = (\<lambda>d n (s, i). if i then (Inr (take (min n 2) s), drop (min n 2) s, i) else (Inl EINTR, s, True)),
     sys_write = (\<lambda>d bytes (s, i). if i then (Inr (min (length bytes) 2), s @ take 2 bytes, i) else (Inl EINTR, s, True)),
     sys_lseek = (\<lambda>d pos m w. (Inr pos, w)),
     sys_stat = (\<lambda>follow path w. (Inr \<lparr>st_size = int (length (fst w)), st_kind = REGULAR\<rparr>, w)),
     sys_rename = (\<lambda>a b w. (Inr (), w)),
     sys_unlink = (\<lambda>path w. (Inr (), w)),
     sys_symlink = (\<lambda>dest path w. (Inl EEXIST, w)),
     sys_readlink = (\<lambda>path n w. (Inr (take n (fst w)), w)),
     sys_getcwd = (\<lambda>n w. if length (fst w) < n then (Inr (fst w), w) else (Inl ERANGE, w)),
     sys_mkdir = (\<lambda>path m w. (Inl EEXIST, w))\<rparr>"

definition sample_interrupts :: "string \<times> bool \<Rightarrow> nat" where
  "sample_interrupts w = (if snd w then 1 else 0)"

lemma sample_regular:
  "regular_input sample_system d fst sample_interrupts" "regular_output sample_system d fst sample_interrupts"
  "\<not> read_error sample_system d x" "\<not> write_error sample_system d x"
  by (auto simp: regular_input_def regular_output_def read_error_def write_error_def sample_system_def sample_interrupts_def min_def split: if_splits)

end
