(* ===== verification/Buffered_Output.thy ===== *)
theory Buffered_Output
  imports Stream_Contents
begin

text \<open>
  Writing through a buffer is writing to the file, as long as the system does not interrupt one write to the file more often than
  it ignores interrupts: then bytes are lost, and nobody is told. A transaction renames the file that has received what was
  written through it.
\<close>

section \<open>Contents\<close>

text \<open>What has been written, in the file and in the buffer\<close>

definition content_of :: "('o \<Rightarrow> string) \<Rightarrow> ('o, 'z) FileOutputStreamBuffered_scheme \<Rightarrow> string" where
  "content_of written s = written (io_system s) @ take (ob_size s) (ob_data s)"

definition output_ok :: "int \<Rightarrow> ('o, 'z) FileOutputStreamBuffered_scheme \<Rightarrow> bool" where
  "output_ok d s \<longleftrightarrow> file_desc s = d \<and> IsOpened s \<and> IsWriteable s \<and> length (ob_data s) = ob_capacity s \<and> ob_size s \<le> ob_capacity s"

text \<open>Same path, and same members of derived classes\<close>

definition same_file :: "('o, 'z) FileOutputStreamBuffered_scheme \<Rightarrow> ('o, 'z) FileOutputStreamBuffered_scheme \<Rightarrow> bool" where
  [simp]: "same_file s t \<longleftrightarrow> file_path t = file_path s \<and> FileOutputStreamBuffered.more t = FileOutputStreamBuffered.more s"

section \<open>What the file receives\<close>

text \<open>The file is given bytes in blocks, one \<open>File_Write\<close> after the other from the state that the one before has left. Of each block it
  takes what \<open>File_Write\<close> says, and that is less than the block only when this very call was interrupted once more than a file
  ignores. \<open>delivered sys d ints s bytes kept t\<close>: between \<open>s\<close> and \<open>t\<close> the descriptor \<open>d\<close> was given \<open>bytes\<close> and has taken \<open>kept\<close>.\<close>

inductive delivered :: "'o System \<Rightarrow> int \<Rightarrow> ('o \<Rightarrow> nat) \<Rightarrow> ('o, 'z) FileOutputStreamBuffered_scheme \<Rightarrow> string \<Rightarrow> string \<Rightarrow>
    ('o, 'z) FileOutputStreamBuffered_scheme \<Rightarrow> bool" for sys d ints s where
  nothing: "io_system t = io_system s \<Longrightarrow> delivered sys d ints s [] [] t"
| block: "delivered sys d ints s bytes kept f \<Longrightarrow> file_desc f = d \<Longrightarrow> File_Write sys (Some block) f = (Inr n, u) \<Longrightarrow>
    n < length block \<longrightarrow> ints (io_system u) = Suc (ints (io_system f) + MAX_INTERRUPTS_IGNORES) \<Longrightarrow>
    io_system t = io_system u \<Longrightarrow> delivered sys d ints s (bytes @ block) (kept @ take n block) t"

definition received :: "'o System \<Rightarrow> int \<Rightarrow> ('o \<Rightarrow> string) \<Rightarrow> ('o \<Rightarrow> nat) \<Rightarrow> ('o, 'z) FileOutputStreamBuffered_scheme \<Rightarrow> string \<Rightarrow>
    ('o, 'z) FileOutputStreamBuffered_scheme \<Rightarrow> bool" where
  "received sys d written ints s bytes t \<longleftrightarrow>
     (\<exists>kept. delivered sys d ints s bytes kept t \<and> written (io_system t) = written (io_system s) @ kept)"

definition buffered :: "('o, 'z) FileOutputStreamBuffered_scheme \<Rightarrow> string" where
  "buffered s = take (ob_size s) (ob_data s)"

text \<open>The bytes are in the file or still in the buffer.\<close>

definition sent :: "'o System \<Rightarrow> int \<Rightarrow> ('o \<Rightarrow> string) \<Rightarrow> ('o \<Rightarrow> nat) \<Rightarrow> ('o, 'z) FileOutputStreamBuffered_scheme \<Rightarrow> string \<Rightarrow>
    ('o, 'z) FileOutputStreamBuffered_scheme \<Rightarrow> bool" where
  "sent sys d written ints s bytes t \<longleftrightarrow> (\<exists>front. bytes = front @ buffered t \<and> received sys d written ints s front t)"

lemma received_none: "received sys d written ints s [] s"
  by (auto simp: received_def intro: delivered.nothing)

lemma received_system: "io_system t' = io_system t \<Longrightarrow> received sys d written ints s bytes t' = received sys d written ints s bytes t"
proof -
  have "delivered sys d ints s bytes kept v" if "delivered sys d ints s bytes kept u" "io_system v = io_system u"
    for kept and u v :: "('a, 'b) FileOutputStreamBuffered_scheme"
    using that by cases (auto intro: delivered.intros)
  then show "io_system t' = io_system t \<Longrightarrow> received sys d written ints s bytes t' = received sys d written ints s bytes t"
    unfolding received_def by metis
qed

lemma out_Write_outcome:
  assumes "regular_output sys d written ints" "output_ok d s" "received sys d written ints a front s" "out_Write sys bytes s = (r, t)"
  shows "case r of
      Inr u \<Rightarrow> t = s\<lparr>io_system := io_system t, out_position := out_position s + int (length bytes)\<rparr> \<and>
        received sys d written ints a (front @ bytes) t
    | Inl e \<Rightarrow> \<exists>x. write_error sys d x \<and> e = UnixError x"
proof -
  have d: "file_desc s = d" "IsOpened s" "IsWriteable s" using assms(2) by (simp_all add: output_ok_def)
  obtain q v where q: "File_Write sys (Some bytes) s = (q, v)" by fastforce
  then have o: "write_outcome sys written ints MAX_INTERRUPTS_IGNORES bytes 0 s q v"
    using File_Write_outcome [of sys s written ints bytes] assms(1) d by simp
  then obtain w where v: "v = s\<lparr>io_system := w\<rparr>" by (auto simp: write_outcome_def)
  show ?thesis
  proof (cases q)
    case (Inl e)
    then show ?thesis using o q assms(4) d(1) by (auto simp: write_outcome_def out_Write_def bindM_def)
  next
    case (Inr n)
    then have n: "written w = written (io_system s) @ take n bytes"
      "n < length bytes \<longrightarrow> ints w = Suc (ints (io_system s) + MAX_INTERRUPTS_IGNORES)"
      using o v by (auto simp: write_outcome_def)
    have t: "r = Inr ()" "t = s\<lparr>io_system := w, out_position := out_position s + int (length bytes)\<rparr>"
      using q Inr assms(4) v by (auto simp: out_Write_def bindM_def)
    obtain kept where kept: "delivered sys d ints a front kept s" "written (io_system s) = written (io_system a) @ kept"
      using assms(3) by (auto simp: received_def)
    have "delivered sys d ints a (front @ bytes) (kept @ take n bytes) t"
      by (rule delivered.block [OF kept(1) d(1) q [unfolded Inr]]) (use n(2) v t in auto)
    then show ?thesis using t n(1) kept(2) by (auto simp: received_def)
  qed
qed

lemma output_ok_sent: "output_ok d s \<Longrightarrow> sent sys d written ints s (buffered s) s"
  by (simp add: sent_def received_none)

lemma ob_Flush_outcome:
  assumes "regular_output sys d written ints" "output_ok d s" "sent sys d written ints a bytes s" "ob_Flush sys s = (r, t)"
  shows "case r of
      Inr u \<Rightarrow> output_ok d t \<and> ob_size t = 0 \<and> ob_capacity t = ob_capacity s \<and> received sys d written ints a bytes t \<and>
        FileOutputStreamBuffered_Position t = FileOutputStreamBuffered_Position s \<and> same_file s t
    | Inl e \<Rightarrow> \<exists>x. write_error sys d x \<and> e = UnixError x"
proof -
  obtain front where front: "bytes = front @ buffered s" "received sys d written ints a front s"
    using assms(3) by (auto simp: sent_def)
  show ?thesis
  proof (cases "ob_size s = 0")
    case True
    then have "r = Inr ()" "t = s" using assms(4) by (simp_all add: ob_Flush_def returnM_def)
    then show ?thesis using True front assms(2) by (simp add: buffered_def)
  next
    case False
    obtain q v where q: "out_Write sys (buffered s) s = (q, v)" by fastforce
    note o = out_Write_outcome [OF assms(1,2) front(2) q]
    show ?thesis
    proof (cases q)
      case (Inl e)
      then show ?thesis using o q assms(4) False by (auto simp: ob_Flush_def bindM_def buffered_def)
    next
      case (Inr u)
      then have v: "v = s\<lparr>io_system := io_system v, out_position := out_position s + int (length (buffered s))\<rparr>"
        "received sys d written ints a bytes v"
        using o front(1) by auto
      obtain w where w: "v = s\<lparr>io_system := w, out_position := out_position s + int (length (buffered s))\<rparr>" using v(1) by blast
      have t: "r = Inr ()" "t = v\<lparr>ob_size := 0\<rparr>" using q Inr assms(4) False by (auto simp: ob_Flush_def bindM_def buffered_def)
      have "received sys d written ints a bytes t" using v(2) received_system [of t v] t(2) by simp
      then show ?thesis using t w assms(2)
        by (simp add: output_ok_def IsOpened_def IsWriteable_def FileOutputStreamBuffered_Position_def buffered_def)
    qed
  qed
qed

lemma ob_Write_room:
  assumes "output_ok d s" "length bytes \<le> ob_FreeSize s" "sent sys d written ints a bs s"
  shows "\<exists>t. ob_Write bytes s = (Inr (), t) \<and> output_ok d t \<and> sent sys d written ints a (bs @ bytes) t \<and>
    FileOutputStreamBuffered_Position t = FileOutputStreamBuffered_Position s + int (length bytes) \<and> same_file s t"
proof -
  let ?t = "s\<lparr>ob_data := take (ob_size s) (ob_data s) @ bytes @ drop (ob_size s + length bytes) (ob_data s), ob_size := ob_size s + length bytes\<rparr>"
  have "buffered ?t = buffered s @ bytes" using assms(1) by (simp add: buffered_def output_ok_def)
  then have "sent sys d written ints a (bs @ bytes) ?t"
    using assms(3) received_system [of ?t s] by (auto simp: sent_def)
  moreover have "ob_Write bytes s = (Inr (), ?t)" using assms(1,2) by (auto simp: ob_Write_def output_ok_def ob_FreeSize_def)
  ultimately show ?thesis
    using assms(1,2) by (auto simp: output_ok_def ob_FreeSize_def IsOpened_def IsWriteable_def FileOutputStreamBuffered_Position_def)
qed

text \<open>The body of \<open>Write\<close>, before it counts the bytes\<close>

definition ob_body :: "'o System \<Rightarrow> string \<Rightarrow> (('o, 'z) FileOutputStreamBuffered_scheme, file_error, unit) mth" where
  "ob_body sys bytes s = (if length bytes \<le> ob_FreeSize s then ob_Write bytes s
     else bindM (ob_Flush sys) (\<lambda>_ s. if length bytes < ob_capacity s then ob_Write bytes s else out_Write sys bytes s) s)"

lemma ob_body_outcome:
  assumes "regular_output sys d written ints" "output_ok d s" "sent sys d written ints a bs s" "ob_body sys bytes s = (r, t)"
  shows "case r of
      Inr u \<Rightarrow> output_ok d t \<and> sent sys d written ints a (bs @ bytes) t \<and>
        FileOutputStreamBuffered_Position t = FileOutputStreamBuffered_Position s + int (length bytes) \<and> same_file s t
    | Inl e \<Rightarrow> \<exists>x. write_error sys d x \<and> e = UnixError x"
proof (cases "length bytes \<le> ob_FreeSize s")
  case True
  then show ?thesis using ob_Write_room [OF assms(2) True assms(3)] assms(4) by (auto simp: ob_body_def)
next
  case False
  obtain q u where q: "ob_Flush sys s = (q, u)" by fastforce
  note o = ob_Flush_outcome [OF assms(1-3) q]
  show ?thesis
  proof (cases q)
    case (Inl e)
    then show ?thesis using o q assms(4) False by (auto simp: ob_body_def bindM_def)
  next
    case (Inr v)
    then have u: "output_ok d u" "ob_size u = 0" "ob_capacity u = ob_capacity s" "received sys d written ints a bs u"
      "FileOutputStreamBuffered_Position u = FileOutputStreamBuffered_Position s" "same_file s u"
      using o by auto
    have empty: "buffered u = []" using u(2) by (simp add: buffered_def)
    then have s: "sent sys d written ints a bs u" using u(4) by (auto simp: sent_def)
    show ?thesis
    proof (cases "length bytes < ob_capacity u")
      case True
      then have "length bytes \<le> ob_FreeSize u" using u(2) by (simp add: ob_FreeSize_def)
      from ob_Write_room [OF u(1) this s] show ?thesis
        using False True u(5,6) q Inr assms(4) by (auto simp: ob_body_def bindM_def)
    next
      case direct: False
      have run: "out_Write sys bytes u = (r, t)" using False direct q Inr assms(4) by (simp add: ob_body_def bindM_def)
      note o = out_Write_outcome [OF assms(1) u(1,4) run]
      show ?thesis
      proof (cases r)
        case (Inl e)
        then show ?thesis using o by simp
      next
        case (Inr x)
        then have t: "t = u\<lparr>io_system := io_system t, out_position := out_position u + int (length bytes)\<rparr>"
          "received sys d written ints a (bs @ bytes) t"
          using o by auto
        obtain w where w: "t = u\<lparr>io_system := w, out_position := out_position u + int (length bytes)\<rparr>" using t(1) by blast
        have "buffered t = []" using w empty by (simp add: buffered_def)
        then have "sent sys d written ints a (bs @ bytes) t" using t(2) by (auto simp: sent_def)
        then show ?thesis using Inr w u
          by (auto simp: output_ok_def IsOpened_def IsWriteable_def FileOutputStreamBuffered_Position_def)
      qed
    qed
  qed
qed

lemma FileOutputStreamBuffered_Write_outcome:
  assumes "regular_output sys d written ints" "output_ok d s" "sent sys d written ints a bs s"
    "FileOutputStreamBuffered_Write sys bytes s = (r, t)"
  shows "case r of
      Inr u \<Rightarrow> output_ok d t \<and> sent sys d written ints a (bs @ bytes) t \<and>
        FileOutputStreamBuffered_Position t = FileOutputStreamBuffered_Position s + int (length bytes) \<and> same_file s t
    | Inl e \<Rightarrow> \<exists>x. write_error sys d x \<and> e = UnixError x"
proof -
  obtain q u where q: "ob_body sys bytes s = (q, u)" by fastforce
  note o = ob_body_outcome [OF assms(1-3) q]
  have run: "(r, t) = (case q of Inl e \<Rightarrow> (Inl e, u) | Inr _ \<Rightarrow> (Inr (), u\<lparr>ob_position := ob_position u + int (length bytes)\<rparr>))"
    using assms(4) q by (auto simp: FileOutputStreamBuffered_Write_def ob_body_def bindM_def split: prod.splits sum.splits)
  have "sent sys d written ints a cs (u\<lparr>ob_position := p\<rparr>) = sent sys d written ints a cs u" for cs p
    using received_system [of "u\<lparr>ob_position := p\<rparr>" u] by (simp add: sent_def buffered_def)
  then show ?thesis
    using o run by (cases q) (auto simp: output_ok_def IsOpened_def IsWriteable_def FileOutputStreamBuffered_Position_def)
qed

lemma Writes_outcome:
  assumes "regular_output sys d written ints" "output_ok d s" "sent sys d written ints a bs s"
    "forM bss (FileOutputStreamBuffered_Write sys) s = (r, t)"
  shows "case r of
      Inr u \<Rightarrow> output_ok d t \<and> sent sys d written ints a (bs @ concat bss) t \<and>
        FileOutputStreamBuffered_Position t = FileOutputStreamBuffered_Position s + int (length (concat bss)) \<and> same_file s t
    | Inl e \<Rightarrow> \<exists>x. write_error sys d x \<and> e = UnixError x"
  using assms(2-4)
proof (induction bss arbitrary: s bs)
  case Nil
  then show ?case by (auto simp: returnM_def)
next
  case (Cons bytes bss)
  obtain q u where q: "FileOutputStreamBuffered_Write sys bytes s = (q, u)" by fastforce
  note o = FileOutputStreamBuffered_Write_outcome [OF assms(1) Cons.prems(1,2) q]
  show ?case
  proof (cases q)
    case (Inl e)
    then show ?thesis using o q Cons.prems(3) by (auto simp: bindM_def)
  next
    case (Inr v)
    then have u: "output_ok d u" "sent sys d written ints a (bs @ bytes) u"
      "FileOutputStreamBuffered_Position u = FileOutputStreamBuffered_Position s + int (length bytes)" "same_file s u"
      using o by auto
    have "forM bss (FileOutputStreamBuffered_Write sys) u = (r, t)" using Cons.prems(3) q Inr by (simp add: bindM_def)
    from Cons.IH [OF u(1,2) this] show ?thesis using u(3,4) by (auto split: sum.splits)
  qed
qed

section \<open>When nothing goes wrong\<close>

text \<open>An environment in which no write fails, and in which there are never as many interrupts as a file gives up after: the bytes are
  then all received. What a stream does in any other environment is said above.\<close>

definition calm_output :: "'o System \<Rightarrow> int \<Rightarrow> ('o \<Rightarrow> nat) \<Rightarrow> bool" where
  "calm_output sys d ints \<longleftrightarrow> (\<forall>x. \<not> write_error sys d x) \<and> (\<forall>w. ints w \<le> MAX_INTERRUPTS_IGNORES)"

lemma calm_delivered:
  assumes "delivered sys d ints s bytes kept t" "calm_output sys d ints"
  shows "kept = bytes"
  using assms(1)
proof induction
  case (block bytes kept f bl n u t)
  have "ints (io_system u) \<le> MAX_INTERRUPTS_IGNORES" using assms(2) by (simp add: calm_output_def)
  then show ?case using block by auto
qed simp

lemma calm_received:
  assumes "calm_output sys d ints" "received sys d written ints s bytes t"
  shows "written (io_system t) = written (io_system s) @ bytes"
  using assms(2) calm_delivered [OF _ assms(1)] by (auto simp: received_def)

lemma calm_sent:
  assumes "calm_output sys d ints" "sent sys d written ints s (buffered s @ bytes) t"
  shows "content_of written t = content_of written s @ bytes"
proof -
  obtain front where front: "buffered s @ bytes = front @ buffered t" "received sys d written ints s front t"
    using assms(2) by (auto simp: sent_def)
  from calm_received [OF assms(1) front(2)] have "content_of written t = written (io_system s) @ front @ buffered t"
    by (simp add: content_of_def buffered_def)
  then show ?thesis using front(1) by (metis append.assoc buffered_def content_of_def)
qed

lemma ob_Flush_calm:
  assumes "regular_output sys d written ints" "calm_output sys d ints" "output_ok d s"
  shows "\<exists>t. ob_Flush sys s = (Inr (), t) \<and> output_ok d t \<and> ob_size t = 0 \<and> ob_capacity t = ob_capacity s \<and>
    written (io_system t) = content_of written s \<and>
    FileOutputStreamBuffered_Position t = FileOutputStreamBuffered_Position s \<and> same_file s t"
proof -
  obtain r t where r: "ob_Flush sys s = (r, t)" by fastforce
  note o = ob_Flush_outcome [OF assms(1,3) output_ok_sent [OF assms(3)] r]
  then show ?thesis using r assms(2) calm_received [OF assms(2), of written s "buffered s" t]
    by (cases r) (auto simp: content_of_def buffered_def calm_output_def)
qed

lemma FileOutputStreamBuffered_Write_content:
  assumes "regular_output sys d written ints" "calm_output sys d ints" "output_ok d s"
  shows "\<exists>t. FileOutputStreamBuffered_Write sys bytes s = (Inr (), t) \<and> output_ok d t \<and>
    content_of written t = content_of written s @ bytes \<and>
    FileOutputStreamBuffered_Position t = FileOutputStreamBuffered_Position s + int (length bytes) \<and> same_file s t"
proof -
  obtain r t where r: "FileOutputStreamBuffered_Write sys bytes s = (r, t)" by fastforce
  note o = FileOutputStreamBuffered_Write_outcome [OF assms(1,3) output_ok_sent [OF assms(3)] r]
  then show ?thesis using r assms(2) calm_sent [OF assms(2), of written s bytes t]
    by (cases r) (auto simp: calm_output_def)
qed

section \<open>Streams and transactions\<close>

lemma FileOutputStreamBuffered_new_ok:
  assumes "FileOutputStreamBuffered_new sys filePath junk w = (Inr s, w')" "file_desc s \<noteq> - 1"
  shows "output_ok (file_desc s) s \<and> content_of written s = written w' \<and> FileOutputStreamBuffered_Position s = 0 \<and> ob_size s = 0 \<and>
    file_path s = filePath"
proof -
  obtain s1 where s1: "FileOutputStream_new sys filePath DEFAULT_FILE w = (Inr s1, w')" "s = OutBuffer_init junk s1"
    using assms(1) by (auto simp: FileOutputStreamBuffered_new_def split: prod.splits sum.splits)
  then have "out_position s1 = 0 \<and> io_system s1 = w' \<and> file_state s1 = READABLE OR WRITEABLE OR SEEKABLE \<and> file_path s1 = filePath"
    by (auto simp: FileOutputStream_new_def FileOutputStream_init_def File_new_def File_Create_def
        bindM_def throwM_def system_call_def file_closed_def file_opened_def RECREATE_READ_WRITE_def FileIo.defs FileOutputStream.defs
        split: prod.splits sum.splits if_splits)
  then show ?thesis using assms(2) s1(2)
    by (simp add: output_ok_def content_of_def OutBuffer_init_def FileOutputStream.defs FileOutputStreamBuffered.defs
        IsOpened_def IsWriteable_def READABLE_def WRITEABLE_def SEEKABLE_def FileOutputStreamBuffered_Position_def)
qed

text \<open>C18. Whatever the capacity of the buffer and on every system that writes as POSIX documents it, which may write less than it is
  asked to, be interrupted any number of times and fail: writes and a flush that return have counted all the bytes in the
  position and left none in the buffer, and the file has been given them in order, block by block, and has taken each block whole,
  unless the \<open>File_Write\<close> of this block was interrupted five times (\<open>delivered\<close>). The rest of the block is missing in that case, and nothing
  says so: \<open>Write\<close> of the file returns how many bytes it has written, and the stream takes no notice. Nothing else gets into the file.
  An exception is the error of a call of the system.\<close>

theorem FileOutputStreamBuffered_writes:
  assumes "FileOutputStreamBuffered_new sys filePath junk w = (Inr s, w')" "file_desc s \<noteq> - 1"
    "regular_output sys (file_desc s) written ints"
  shows "case bindM (forM bss (FileOutputStreamBuffered_Write sys)) (\<lambda>_. FileOutputStreamBuffered_Flush sys) s of
      (Inr u, t) \<Rightarrow> FileOutputStreamBuffered_Position t = int (length (concat bss)) \<and> ob_size t = 0 \<and>
        (\<exists>kept. delivered sys (file_desc s) ints s (concat bss) kept t \<and> written (io_system t) = written w' @ kept)
    | (Inl e, t) \<Rightarrow> \<exists>x. write_error sys (file_desc s) x \<and> e = UnixError x"
proof -
  have new: "output_ok (file_desc s) s" "content_of written s = written w'" "FileOutputStreamBuffered_Position s = 0" "ob_size s = 0"
    using FileOutputStreamBuffered_new_ok [OF assms(1,2), of written] by auto
  then have sent: "sent sys (file_desc s) written ints s [] s" "written (io_system s) = written w'"
    using output_ok_sent [OF new(1)] by (simp_all add: buffered_def content_of_def)
  obtain r u where r: "forM bss (FileOutputStreamBuffered_Write sys) s = (r, u)" by fastforce
  note o = Writes_outcome [OF assms(3) new(1) sent(1) r]
  show ?thesis
  proof (cases r)
    case (Inl e)
    then show ?thesis using o r by (simp add: bindM_def)
  next
    case (Inr v)
    then have u: "output_ok (file_desc s) u" "sent sys (file_desc s) written ints s (concat bss) u"
      "FileOutputStreamBuffered_Position u = int (length (concat bss))"
      using o new(3) by auto
    obtain q t where q: "ob_Flush sys u = (q, t)" by fastforce
    note f = ob_Flush_outcome [OF assms(3) u(1,2) q]
    have "bindM (forM bss (FileOutputStreamBuffered_Write sys)) (\<lambda>_. FileOutputStreamBuffered_Flush sys) s = (q, t)"
      using r Inr q by (simp add: bindM_def FileOutputStreamBuffered_Flush_def)
    then show ?thesis using f u(3) sent(2) by (cases q) (auto simp: received_def)
  qed
qed

text \<open>Synchronising and closing do not change what has been written.\<close>

definition keeps_written :: "'o System \<Rightarrow> int \<Rightarrow> ('o \<Rightarrow> string) \<Rightarrow> bool" where
  "keeps_written sys d written \<longleftrightarrow>
     (\<forall>w. written (snd (sys_fsync sys d w)) = written w) \<and> (\<forall>w. written (snd (sys_close sys d w)) = written w)"

lemma sample_output:
  "calm_output sample_system d sample_interrupts" "keeps_written sample_system d fst"
  by (simp_all add: calm_output_def keeps_written_def sample_regular sample_interrupts_def MAX_INTERRUPTS_IGNORES_def)
    (simp_all add: sample_system_def)


theorem FileOutputStreamBuffered_writes_witness:
  "case FileOutputStreamBuffered_new sample_system ''f'' ''...'' ([], False) of
     (Inr s, w') \<Rightarrow> fst (io_system (snd (bindM (forM [''ab'', ''c'', ''defg''] (FileOutputStreamBuffered_Write sample_system))
         (\<lambda>_. FileOutputStreamBuffered_Flush sample_system) s))) = ''abcdefg''
   | _ \<Rightarrow> False"
proof -
  have "case FileOutputStreamBuffered_new sample_system ''f'' ''...'' ([], False) of
     (Inr s, w') \<Rightarrow> file_desc s = 3 \<and> fst w' = [] | _ \<Rightarrow> False" by code_simp
  then obtain s w' where s: "FileOutputStreamBuffered_new sample_system ''f'' ''...'' ([], False) = (Inr s, w')"
    "file_desc s = 3" "fst w' = []" by (auto split: prod.splits sum.splits)
  show ?thesis
    using FileOutputStreamBuffered_writes [OF s(1), where bss = "[''ab'', ''c'', ''defg'']" and written = fst and ints = sample_interrupts]
      s sample_regular calm_delivered [OF _ sample_output(1), of 3 s] by (auto split: prod.splits sum.splits)
qed







section \<open>Interrupts\<close>

text \<open>A file that is interrupted five times in a row returns from \<open>Write\<close> without having written, and the stream takes no notice: it
  counts the bytes as written and drops them.\<close>

theorem FileOutputStream_loses_bytes:
  assumes "\<And>bytes w. sys_write sys (file_desc s) bytes w = (Inl EINTR, w)" "IsOpened s" "IsWriteable s"
  shows "out_Write sys bytes s = (Inr (), s\<lparr>out_position := out_position s + int (length bytes)\<rparr>)"
proof -
  have "write_loop sys bytes 0 k s = Some (Inr 0, s)" for k
    by (induction k) (subst write_loop.simps, simp add: assms(1))+
  then show ?thesis using assms(2,3)
    by (simp add: out_Write_def File_Write_def IsClosed_def IsOpened_def bindM_def)
qed

theorem FileOutputStream_loses_bytes_witness:
  "case FileOutputStream_new (sample_system\<lparr>sys_write := \<lambda>d bytes w. (Inl EINTR, w)\<rparr>) ''f'' DEFAULT_FILE ([], False) of
     (Inr s, w') \<Rightarrow> (case out_Write (sample_system\<lparr>sys_write := \<lambda>d bytes w. (Inl EINTR, w)\<rparr>) ''abc'' s of
         (r, t) \<Rightarrow> r = Inr () \<and> out_position t = 3 \<and> io_system t = ([], False))
   | _ \<Rightarrow> False"
proof -
  let ?sys = "sample_system\<lparr>sys_write := \<lambda>d bytes w. (Inl EINTR, w)\<rparr>"
  have "case FileOutputStream_new ?sys ''f'' DEFAULT_FILE ([], False) of
     (Inr s, w') \<Rightarrow> IsOpened s \<and> IsWriteable s \<and> out_position s = 0 \<and> io_system s = ([], False) | _ \<Rightarrow> False" by code_simp
  then obtain s w' where s: "FileOutputStream_new ?sys ''f'' DEFAULT_FILE ([], False) = (Inr s, w')"
    "IsOpened s" "IsWriteable s" "out_position s = 0" "io_system s = ([], False)" by (auto split: prod.splits sum.splits)
  show ?thesis using FileOutputStream_loses_bytes [of ?sys s "''abc''"] s by simp
qed

end
