(* ===== verification/File_Utils.thy ===== *)
theory File_Utils
  imports Posix_File String_Utils
begin

text \<open>
  \<^verbatim>\<open>linux/fs/FileUtils\<close>: links, the current directory, paths of directories, and reading a whole file. The buffers that grow are
  vectors of characters.
\<close>

section \<open>Symbolic links\<close>

definition CreateSymlink :: "'o System \<Rightarrow> string \<Rightarrow> string \<Rightarrow> ('o, file_error, unit) mth" where
  "CreateSymlink sys linkPath destination = bindM (static_call (sys_symlink sys destination linkPath)) (\<lambda>r. case r of
     Inl e \<Rightarrow> throwM (if e = EEXIST then UnixAlreadyExists else UnixError e) | Inr u \<Rightarrow> returnM ())"

text \<open>\<^verbatim>\<open>FormatString("%s.tmp.%u", linkPath, i)\<close>\<close>

definition tempLinkPath :: "string \<Rightarrow> UINT_32 \<Rightarrow> string" where
  "tempLinkPath linkPath i = linkPath @ ''.tmp.'' @ IntegerToString_unsigned (unat i)"

text \<open>The exceptions of \<open>Rename\<close> are all \<^verbatim>\<open>UnixError\<close>s.\<close>

definition replace_link :: "'o System \<Rightarrow> string \<Rightarrow> string \<Rightarrow> ('o, file_error, unit) mth" where
  "replace_link sys temp linkPath =
     catchM (FileUtils_Rename sys temp linkPath) (\<lambda>e. bindM (FileUtils_Unlink sys temp) (\<lambda>_. throwM e))"

partial_function (option) recreate_loop ::
  "'o System \<Rightarrow> string \<Rightarrow> string \<Rightarrow> UINT_32 \<Rightarrow> 'o \<Rightarrow> ((file_error + unit) \<times> 'o) option" where
  "recreate_loop sys linkPath destination i w = (case CreateSymlink sys (tempLinkPath linkPath i) destination w of
     (Inl e, w) \<Rightarrow> if e = UnixAlreadyExists then recreate_loop sys linkPath destination (i + 1) w else Some (Inl e, w)
   | (Inr u, w) \<Rightarrow> Some (replace_link sys (tempLinkPath linkPath i) linkPath w))"

definition RecreateSymlink :: "'o System \<Rightarrow> string \<Rightarrow> string \<Rightarrow> ('o, file_error, unit) mth" where
  "RecreateSymlink sys linkPath destination =
     catchM (CreateSymlink sys linkPath destination) (\<lambda>e.
       if e = UnixAlreadyExists then (\<lambda>w. case recreate_loop sys linkPath destination 1 w of None \<Rightarrow> (Inl DoesNotReturn, w) | Some r \<Rightarrow> r)
       else throwM e)"

definition MAX_BUFFER_SIZE :: nat where "MAX_BUFFER_SIZE = 65536"

text \<open>The loop with a buffer of \<open>n\<close> characters, which is never empty\<close>

function readlink_loop :: "'o System \<Rightarrow> string \<Rightarrow> nat \<Rightarrow> ('o, file_error, string) mth" where
  "readlink_loop sys linkPath n w = (case sys_readlink sys linkPath (Suc n) w of
     (Inl e, w) \<Rightarrow> (Inl (UnixError e), w)
   | (Inr target, w) \<Rightarrow>
       if length target < Suc n \<or> Suc n \<ge> MAX_BUFFER_SIZE then (Inr target, w) else readlink_loop sys linkPath (2 * Suc n - 1) w)"
  by pat_completeness auto
termination by (relation "measure (\<lambda>(sys, linkPath, n, w). MAX_BUFFER_SIZE - n)") auto

declare readlink_loop.simps [simp del]

definition ReadSymlink :: "'o System \<Rightarrow> string \<Rightarrow> ('o, file_error, string) mth" where
  "ReadSymlink sys linkPath = readlink_loop sys linkPath 0"

section \<open>The current directory\<close>

definition MIN_BUFFER_SIZE :: nat where "MIN_BUFFER_SIZE = 256"

text \<open>The system writes the path and its NUL to the front of the buffer; the whole buffer is the result.\<close>

partial_function (option) getcwd_loop :: "'o System \<Rightarrow> string \<Rightarrow> 'o \<Rightarrow> ((file_error + string) \<times> 'o) option" where
  "getcwd_loop sys buffer w = (case sys_getcwd sys (length buffer) w of
     (Inr cwd, w) \<Rightarrow> Some (Inr (cwd @ CHR 0x00 # drop (Suc (length cwd)) buffer), w)
   | (Inl e, w) \<Rightarrow>
       if e = ERANGE then getcwd_loop sys (resize (2 * length buffer) CHR 0x00 buffer) w else Some (Inl (UnixError e), w))"

definition GetCurrentDirectory :: "'o System \<Rightarrow> ('o, file_error, string) mth" where
  "GetCurrentDirectory sys w =
     (case getcwd_loop sys (replicate MIN_BUFFER_SIZE CHR 0x00) w of None \<Rightarrow> (Inl DoesNotReturn, w) | Some r \<Rightarrow> r)"

section \<open>Names\<close>

definition NormalizeFilePath :: "string \<Rightarrow> string" where
  "NormalizeFilePath filePath = FilePath_ToString (FilePath_of filePath)"

definition AbsoluteFilePath :: "string \<Rightarrow> string \<Rightarrow> string" where
  "AbsoluteFilePath filePath baseDir =
     (if filePath = [] then baseDir
      else if hd filePath = CHR ''/'' then NormalizeFilePath filePath
      else FilePath_ToString (Append_string filePath (FilePath_of baseDir)))"

definition AbsoluteFilePath_cwd :: "'o System \<Rightarrow> string \<Rightarrow> ('o, file_error, string) mth" where
  "AbsoluteFilePath_cwd sys filePath = bindM (GetCurrentDirectory sys) (\<lambda>cwd. returnM (AbsoluteFilePath filePath cwd))"

definition JoinFilePath :: "string \<Rightarrow> string \<Rightarrow> string" where
  "JoinFilePath left right = FilePath_ToString (Append_string right (FilePath_of left))"

section \<open>Directories\<close>

text \<open>The access mode is not used.\<close>

definition CreateDirectory :: "'o System \<Rightarrow> string \<Rightarrow> nat \<Rightarrow> ('o, file_error, bool) mth" where
  "CreateDirectory sys directoryPath accessMode = bindM (static_call (sys_mkdir sys directoryPath 493)) (\<lambda>r. case r of
     Inr u \<Rightarrow> returnM True | Inl e \<Rightarrow> if e = EEXIST then returnM False else throwM (UnixError e))"

lemma itr_Advance: "itr (Iterator_Advance i) = tl (itr i)"
  by (simp add: Iterator_Advance_def Let_def split: list.split)

function create_loop :: "'o System \<Rightarrow> nat \<Rightarrow> bool \<Rightarrow> Path_Iterator \<Rightarrow> ('o, file_error, bool) mth" where
  "create_loop sys accessMode created i =
     (if Iterator_AtEnd i then returnM created
      else bindM (static_call (sys_mkdir sys (CurrentPath i) accessMode)) (\<lambda>r. case r of
          Inr u \<Rightarrow> create_loop sys accessMode True (Iterator_Advance i)
        | Inl e \<Rightarrow>
            if e = EEXIST then
              bindM (FileStats_Init sys (CurrentPath i) True) (\<lambda>st.
                if st_kind st = DIRECTORY then create_loop sys accessMode False (Iterator_Advance i) else throwM (UnixError e))
            else throwM (UnixError e)))"
  by pat_completeness auto
termination
  by (relation "measure (\<lambda>(sys, m, c, i). length (itr i))")
    (auto simp: Iterator_AtEnd_def itr_Advance)

declare create_loop.simps [simp del]

definition CreatePath :: "'o System \<Rightarrow> FilePath \<Rightarrow> nat \<Rightarrow> ('o, file_error, bool) mth" where
  "CreatePath sys filePath accessMode = create_loop sys accessMode False (Iterator_new filePath)"

text \<open>The paths that are given as strings are made absolute first.\<close>

definition absolute_path :: "'o System \<Rightarrow> string \<Rightarrow> ('o, file_error, FilePath) mth" where
  "absolute_path sys path = bindM (GetCurrentDirectory sys) (\<lambda>cwd.
     case ConvertToAbsolute_cwd cwd (FilePath_of path) of
       (Inl (IllegalArgumentError what), fp) \<Rightarrow> throwM (IllegalArgument what)
     | (Inr u, fp) \<Rightarrow> returnM fp)"

definition CreatePath_string :: "'o System \<Rightarrow> string \<Rightarrow> nat \<Rightarrow> ('o, file_error, bool) mth" where
  "CreatePath_string sys dirPath accessMode = bindM (absolute_path sys dirPath) (\<lambda>fp. CreatePath sys fp accessMode)"

definition CreatePathForFile :: "'o System \<Rightarrow> string \<Rightarrow> nat \<Rightarrow> ('o, file_error, bool) mth" where
  "CreatePathForFile sys filePath accessMode =
     bindM (absolute_path sys filePath) (\<lambda>fp. CreatePath sys (snd (Path_Remove fp)) accessMode)"

section \<open>Whole files\<close>

text \<open>The sentinel closes the file when the function is left; it is declared not to throw.\<close>

definition FileCloseSentinel :: "'o System \<Rightarrow> ('o FileIo, file_error, 'a) mth \<Rightarrow> ('o FileIo, file_error, 'a) mth" where
  "FileCloseSentinel sys m f = (case m f of (r, f) \<Rightarrow> (case File_Close sys f of (Inl e, f) \<Rightarrow> (Inl Terminate, f) | (Inr u, f) \<Rightarrow> (r, f)))"

text \<open>The size is converted to \<^verbatim>\<open>unsigned int\<close> for the read, and the number of bytes read is not looked at.\<close>

definition SlurpFile :: "'o System \<Rightarrow> string \<Rightarrow> ('o, file_error, string) mth" where
  "SlurpFile sys filePath w = (case File_new filePath w of
     Inl e \<Rightarrow> (Inl e, w)
   | Inr f \<Rightarrow> (case bindM (File_Open sys OPEN_READ_ONLY) (\<lambda>_. FileCloseSentinel sys (
         bindM (File_Size sys) (\<lambda>sz. bindM (File_Read sys (nat (sz mod 2 ^ 32))) (\<lambda>_ f.
           (Inr (io_target f @ drop (length (io_target f)) (replicate (nat sz) CHR 0x00)), f))))) f of
       (r, f) \<Rightarrow> (r, io_system f)))"

end
