(* ===== verification/Buffered_Input.thy ===== *)
theory Buffered_Input
  imports Stream_Contents
begin

text \<open>
  Reading through a buffer is reading the file. The stream stands for a place in the file: the place of the inner stream less
  what the buffer still holds. After a read that threw this is no longer so, and the same read may succeed the second time.
\<close>

section \<open>The place of a stream\<close>

definition place :: "('o, 'z) FileInputStreamBuffered_scheme \<Rightarrow> nat" where
  "place s = nat (in_position s) - ib_AvailableSize s"

definition input_ok :: "int \<Rightarrow> ('o \<Rightarrow> string) \<Rightarrow> string \<Rightarrow> ('o, 'z) FileInputStreamBuffered_scheme \<Rightarrow> bool" where
  "input_ok d rest content s \<longleftrightarrow>
     file_desc s = d \<and> IsOpened s \<and> IsReadable s \<and> in_size s = int (length content) \<and> 0 \<le> in_position s \<and> nat (in_position s) \<le> length content \<and>
     rest (io_system s) = drop (nat (in_position s)) content \<and>
     length (ib_data s) = ib_capacity s \<and> ib_capacity s < 2 ^ 32 \<and> ib_position s \<le> ib_size s \<and> ib_size s \<le> ib_capacity s \<and>
     ib_AvailableSize s \<le> nat (in_position s) \<and>
     take (ib_AvailableSize s) (drop (ib_position s) (ib_data s)) = take (ib_AvailableSize s) (drop (place s) content)"

text \<open>Why a read throws: the file is too short, it was interrupted too often, or the system failed.\<close>

definition read_fails :: "'o System \<Rightarrow> int \<Rightarrow> ('o \<Rightarrow> nat) \<Rightarrow> bool \<Rightarrow> file_error \<Rightarrow> 'o \<Rightarrow> 'o \<Rightarrow> bool" where
  "read_fails sys d ints short e w w' \<longleftrightarrow>
     (e = ReadError \<and> short) \<or>
     ((e = ReadError \<or> e = UnixInterrupted) \<and> ints w' = Suc (ints w + MAX_INTERRUPTS_IGNORES)) \<or>
     (\<exists>x. read_error sys d x \<and> e = UnixError x)"

section \<open>The inner stream\<close>

lemma in_Read_outcome:
  assumes "regular_input sys d rest ints" "file_desc s = d" "IsOpened s" "IsReadable s" "0 \<le> in_position s"
    "rest (io_system s) = drop (nat (in_position s)) content" "in_Read sys n s = (r, t)"
  shows "length (io_target t) \<le> n \<and> (case r of
      Inr u \<Rightarrow> t = s\<lparr>io_system := io_system t, io_target := take n (drop (nat (in_position s)) content), in_position := in_position s + int n\<rparr> \<and>
        nat (in_position s) + n \<le> max (nat (in_position s)) (length content) \<and> rest (io_system t) = drop (nat (in_position s) + n) content
    | Inl e \<Rightarrow> read_fails sys d ints (length content - nat (in_position s) < n) e (io_system s) (io_system t) \<and>
        (e = ReadError \<longrightarrow> drop (nat (in_position s)) content = io_target t @ rest (io_system t) \<and>
           (rest (io_system t) = [] \<or> ints (io_system t) = Suc (ints (io_system s) + MAX_INTERRUPTS_IGNORES))) \<and>
        t = s\<lparr>io_system := io_system t, io_target := io_target t\<rparr>)"
proof -
  obtain q u where q: "File_Read sys n s = (q, u)" by fastforce
  have o: "read_outcome sys rest ints MAX_INTERRUPTS_IGNORES n [] (s\<lparr>io_target := []\<rparr>) q u"
    using File_Read_outcome [OF _ assms(3,4), of sys rest ints n] assms(1,2) q by simp
  then obtain w bytes where u: "u = s\<lparr>io_system := w, io_target := bytes\<rparr>" by (auto simp: read_outcome_def)
  show ?thesis
  proof (cases q)
    case (Inl e)
    then have "r = Inl e" "t = u" using assms(7) q by (simp_all add: in_Read_def bindM_def)
    then show ?thesis using o Inl u by (auto simp: read_outcome_def read_fails_def assms(2))
  next
    case (Inr m)
    then have m: "m = length bytes" "m \<le> n" "drop (nat (in_position s)) content = bytes @ rest w"
      "m < n \<longrightarrow> rest w = [] \<or> ints w = Suc (ints (io_system s) + MAX_INTERRUPTS_IGNORES)"
      using o assms(6) u by (auto simp: read_outcome_def)
    show ?thesis
    proof (cases "m = n")
      case True
      then have "r = Inr ()" "t = u\<lparr>in_position := in_position u + int n\<rparr>"
        using assms(7) q Inr by (simp_all add: in_Read_def bindM_def)
      moreover have "bytes = take n (drop (nat (in_position s)) content)" using m True by simp
      moreover have "rest w = drop (nat (in_position s) + n) content"
        using m True by (metis add.commute append_eq_conv_conj drop_drop)
      moreover have "nat (in_position s) + n \<le> max (nat (in_position s)) (length content)"
        using arg_cong [OF m(3), of length] m(1) True by simp
      ultimately show ?thesis using True m(1) by (simp add: u)
    next
      case False
      then have "r = Inl ReadError" "t = u" using assms(7) q Inr by (simp_all add: in_Read_def bindM_def throwM_def)
      then show ?thesis using m False arg_cong [OF m(3), of length] by (auto simp: read_fails_def u)
    qed
  qed
qed

section \<open>The buffer\<close>

lemma take_drop_shift:
  assumes "take a xs = take a ys" "k \<le> a"
  shows "take (a - k) (drop k xs) = take (a - k) (drop k ys)" "take k xs = take k ys"
proof -
  show "take (a - k) (drop k xs) = take (a - k) (drop k ys)" using arg_cong [OF assms(1), of "drop k"] by (simp add: drop_take)
  show "take k xs = take k ys" using arg_cong [OF assms(1), of "take k"] assms(2) by simp
qed

lemma ib_Read_place:
  assumes "input_ok d rest content s" "k = min n (ib_AvailableSize s)"
  shows "ib_Read n s = (Inr (take k (drop (place s) content)), s\<lparr>ib_position := ib_position s + k\<rparr>) \<and>
    input_ok d rest content (s\<lparr>ib_position := ib_position s + k\<rparr>) \<and> place (s\<lparr>ib_position := ib_position s + k\<rparr>) = place s + k \<and>
    ib_AvailableSize (s\<lparr>ib_position := ib_position s + k\<rparr>) = ib_AvailableSize s - k"
proof -
  have k: "k \<le> ib_AvailableSize s" using assms(2) by simp
  have b: "take (ib_AvailableSize s) (drop (ib_position s) (ib_data s)) = take (ib_AvailableSize s) (drop (place s) content)"
    using assms(1) by (simp add: input_ok_def)
  have a: "ib_AvailableSize (s\<lparr>ib_position := ib_position s + k\<rparr>) = ib_AvailableSize s - k" by (simp add: ib_AvailableSize_def)
  have p: "place (s\<lparr>ib_position := ib_position s + k\<rparr>) = place s + k"
    using assms(1) k by (simp add: place_def a input_ok_def)
  have "input_ok d rest content (s\<lparr>ib_position := ib_position s + k\<rparr>)"
    using assms(1) k take_drop_shift(1) [OF b k] unfolding input_ok_def a p
    by (simp add: IsOpened_def IsReadable_def add.commute) (simp add: ib_AvailableSize_def, elim conjE, intro conjI, linarith+)
  moreover have "ib_Read n s = (Inr (take k (drop (place s) content)), s\<lparr>ib_position := ib_position s + k\<rparr>)"
    using take_drop_shift(2) [OF b k] assms(2) by (auto simp: ib_Read_def Let_def)
  ultimately show ?thesis using a p by simp
qed

text \<open>A read that goes past the buffer, and one that fills it\<close>

lemma in_Read_place:
  assumes "regular_input sys d rest ints" "input_ok d rest content s" "ib_AvailableSize s = 0" "in_Read sys n s = (r, t)"
  shows "case r of
      Inr u \<Rightarrow> io_target t = take n (drop (place s) content) \<and> place s + n \<le> length content \<and> input_ok d rest content t \<and> place t = place s + n
    | Inl e \<Rightarrow> read_fails sys d ints (length content - place s < n) e (io_system s) (io_system t)"
proof -
  have o: "length (io_target t) \<le> n \<and> (case r of
      Inr u \<Rightarrow> t = s\<lparr>io_system := io_system t, io_target := take n (drop (nat (in_position s)) content), in_position := in_position s + int n\<rparr> \<and>
        nat (in_position s) + n \<le> max (nat (in_position s)) (length content) \<and> rest (io_system t) = drop (nat (in_position s) + n) content
    | Inl e \<Rightarrow> read_fails sys d ints (length content - nat (in_position s) < n) e (io_system s) (io_system t) \<and>
        (e = ReadError \<longrightarrow> drop (nat (in_position s)) content = io_target t @ rest (io_system t) \<and>
           (rest (io_system t) = [] \<or> ints (io_system t) = Suc (ints (io_system s) + MAX_INTERRUPTS_IGNORES))) \<and>
        t = s\<lparr>io_system := io_system t, io_target := io_target t\<rparr>)"
    by (rule in_Read_outcome [OF _ _ _ _ _ _ assms(4)]) (use assms in \<open>auto simp: input_ok_def\<close>)
  have p: "place s = nat (in_position s)" using assms(3) by (simp add: place_def)
  show ?thesis
  proof (cases r)
    case (Inr u)
    then obtain w where t: "t = s\<lparr>io_system := w, io_target := take n (drop (place s) content), in_position := in_position s + int n\<rparr>"
      "place s + n \<le> length content" "rest w = drop (place s + n) content"
      using o p assms(2) by (auto simp: input_ok_def)
    then show ?thesis using assms(2,3) Inr p
      by (auto simp: input_ok_def place_def ib_AvailableSize_def IsOpened_def IsReadable_def nat_add_distrib)
  next
    case (Inl e)
    then show ?thesis using o p by simp
  qed
qed

lemma update_size_max:
  assumes "input_ok d rest content s" "ib_AvailableSize s = 0"
  shows "update_size m s = max (if length content - place s < ib_capacity s then m else 0) (min (ib_capacity s) (length content - place s))"
proof -
  have "in_AvailableSize s = int (length content - place s)"
    using assms by (simp add: in_AvailableSize_def input_ok_def place_def of_nat_diff)
  moreover have "ib_capacity s < 2 ^ 32" using assms(1) by (simp add: input_ok_def)
  ultimately show ?thesis by (simp add: update_size_def Let_def)
qed

lemma ib_Update_place:
  assumes "regular_input sys d rest ints" "input_ok d rest content s" "ib_AvailableSize s = 0" "m < ib_capacity s" "ib_Update sys m s = (r, t)"
  shows "case r of
      Inr u \<Rightarrow> m \<le> ib_AvailableSize t \<and> input_ok d rest content t \<and> place t = place s
    | Inl e \<Rightarrow> read_fails sys d ints (length content - place s < m) e (io_system s) (io_system t)"
proof -
  define n where "n = update_size m s"
  let ?s = "s\<lparr>ib_size := n, ib_position := 0\<rparr>"
  have p: "place s = nat (in_position s)" using assms(3) by (simp add: place_def)
  have n: "n = max (if length content - place s < ib_capacity s then m else 0) (min (ib_capacity s) (length content - place s))"
    unfolding n_def by (rule update_size_max [OF assms(2,3)])
  then have cap: "n \<le> ib_capacity s" using assms(4) by simp
  obtain q u where q: "in_Read sys n ?s = (q, u)" by fastforce
  have o: "length (io_target u) \<le> n \<and> (case q of
      Inr _ \<Rightarrow> u = ?s\<lparr>io_system := io_system u, io_target := take n (drop (nat (in_position ?s)) content), in_position := in_position ?s + int n\<rparr> \<and>
        nat (in_position ?s) + n \<le> max (nat (in_position ?s)) (length content) \<and> rest (io_system u) = drop (nat (in_position ?s) + n) content
    | Inl e \<Rightarrow> read_fails sys d ints (length content - nat (in_position ?s) < n) e (io_system ?s) (io_system u) \<and>
        (e = ReadError \<longrightarrow> drop (nat (in_position ?s)) content = io_target u @ rest (io_system u) \<and>
           (rest (io_system u) = [] \<or> ints (io_system u) = Suc (ints (io_system ?s) + MAX_INTERRUPTS_IGNORES))) \<and>
        u = ?s\<lparr>io_system := io_system u, io_target := io_target u\<rparr>)"
    by (rule in_Read_outcome [OF _ _ _ _ _ _ q]) (use assms in \<open>auto simp: input_ok_def IsOpened_def IsReadable_def\<close>)
  have c: "ib_capacity u = ib_capacity s" using o by (cases q) (auto dest!: arg_cong [where f = ib_capacity])
  then have "ib_Update sys m s = (q, u\<lparr>ib_data := io_target u @ drop (length (io_target u)) (ib_data u)\<rparr>)"
    using q o cap by (simp add: ib_Update_def ib_fill_def n_def [symmetric])
  then have r: "r = q" "t = u\<lparr>ib_data := io_target u @ drop (length (io_target u)) (ib_data u)\<rparr>" using assms(5) by simp_all
  show ?thesis
  proof (cases q)
    case (Inl e)
    then have "read_fails sys d ints (length content - place s < n) e (io_system s) (io_system t)" using o p r by simp
    moreover have "length content - place s < n \<longleftrightarrow> length content - place s < m" using n assms(4) by auto
    ultimately show ?thesis using Inl r by simp
  next
    case (Inr v)
    then obtain w where u: "u = ?s\<lparr>io_system := w, io_target := take n (drop (place s) content), in_position := in_position s + int n\<rparr>"
      "place s + n \<le> length content" "rest w = drop (place s + n) content"
      using o p assms(2) by (auto simp: input_ok_def)
    have "m \<le> n" using n u(2) assms(4) by auto
    then show ?thesis using Inr r u assms(2) p cap
      by (auto simp: input_ok_def place_def ib_AvailableSize_def IsOpened_def IsReadable_def nat_add_distrib)
  qed
qed

section \<open>Reading\<close>

lemma FileInputStreamBuffered_Read_place:
  assumes "regular_input sys d rest ints" "input_ok d rest content s"
  shows "case FileInputStreamBuffered_Read sys n s of
      (Inr bytes, t) \<Rightarrow> bytes = take n (drop (place s) content) \<and> place s + n \<le> length content \<and> input_ok d rest content t \<and> place t = place s + n
    | (Inl e, t) \<Rightarrow> read_fails sys d ints (length content - place s < n) e (io_system s) (io_system t)"
proof -
  define k where "k = min n (ib_AvailableSize s)"
  let ?s = "s\<lparr>ib_position := ib_position s + k\<rparr>"
  have b: "ib_Read n s = (Inr (take k (drop (place s) content)), ?s)" "input_ok d rest content ?s" "place ?s = place s + k"
    "ib_AvailableSize ?s = ib_AvailableSize s - k"
    using ib_Read_place [OF assms(2) k_def] by auto
  have room: "place s + ib_AvailableSize s \<le> length content" using assms(2) by (simp add: input_ok_def place_def)
  then have len: "length (take k (drop (place s) content)) = k" by (simp add: k_def)
  show ?thesis
  proof (cases "n = k")
    case True
    then show ?thesis using b len room k_def by (simp add: FileInputStreamBuffered_Read_def bindM_def returnM_def Let_def)
  next
    case False
    then have empty: "ib_AvailableSize ?s = 0" "k = ib_AvailableSize s" "k < n" using b(4) by (auto simp: k_def)
    have more_bytes: "take k (drop (place s) content) @ take (n - k) (drop (place s + k) content) = take n (drop (place s) content)"
      using empty(3) by (metis add.commute drop_drop le_add_diff_inverse less_imp_le take_add)
    have short: "length content - place ?s < n - k \<longleftrightarrow> length content - place s < n" using room b(3) empty(2,3) by auto
    show ?thesis
    proof (cases "n - k \<ge> ib_capacity ?s")
      case True
      obtain r t where r: "in_Read sys (n - k) ?s = (r, t)" by fastforce
      then have "FileInputStreamBuffered_Read sys n s =
          (case r of Inl e \<Rightarrow> (Inl e, t) | Inr u \<Rightarrow> (Inr (take k (drop (place s) content) @ io_target t), t))"
        using True b(1) len empty(3) by (simp add: FileInputStreamBuffered_Read_def bindM_def Let_def split: sum.splits)
      then show ?thesis
        using in_Read_place [OF assms(1) b(2) empty(1) r] b(3) short more_bytes empty(3) by (auto split: sum.splits)
    next
      case False
      obtain r t where r: "ib_Update sys (n - k) ?s = (r, t)" by fastforce
      show ?thesis
      proof (cases r)
        case (Inl e)
        then have "FileInputStreamBuffered_Read sys n s = (Inl e, t)"
          using False r b(1) len empty(3) by (simp add: FileInputStreamBuffered_Read_def bindM_def Let_def)
        then show ?thesis using ib_Update_place [OF assms(1) b(2) empty(1) _ r] False Inl short by auto
      next
        case (Inr u)
        then have t: "n - k \<le> ib_AvailableSize t" "input_ok d rest content t" "place t = place ?s"
          using ib_Update_place [OF assms(1) b(2) empty(1) _ r] False by auto
        then have m: "n - k = min (n - k) (ib_AvailableSize t)" by simp
        have "FileInputStreamBuffered_Read sys n s =
            (Inr (take n (drop (place s) content)), t\<lparr>ib_position := ib_position t + (n - k)\<rparr>)"
          using False r b(1,3) len empty(3) Inr ib_Read_place [OF t(2) m] t(3) more_bytes
          by (simp add: FileInputStreamBuffered_Read_def bindM_def returnM_def Let_def)
        moreover have "place t + ib_AvailableSize t \<le> length content" using t(2) by (simp add: input_ok_def place_def)
        ultimately show ?thesis using ib_Read_place [OF t(2) m] t b(3) empty(3) by simp
      qed
    qed
  qed
qed

section \<open>Histories of reads\<close>

fun Reads :: "'o System \<Rightarrow> nat list \<Rightarrow> (('o, 'z) FileInputStreamBuffered_scheme, file_error, string list) mth" where
  "Reads sys [] = returnM []"
| "Reads sys (n # ns) = bindM (FileInputStreamBuffered_Read sys n) (\<lambda>bytes. bindM (Reads sys ns) (\<lambda>rest. returnM (bytes # rest)))"

text \<open>The same reads from a text\<close>

fun chunks :: "string \<Rightarrow> nat list \<Rightarrow> string list" where
  "chunks cs [] = []"
| "chunks cs (n # ns) = take n cs # chunks (drop n cs) ns"

lemma Reads_outcome:
  assumes "regular_input sys d rest ints" "input_ok d rest content s"
  shows "case Reads sys ns s of
      (Inr bs, t) \<Rightarrow> bs = chunks (drop (place s) content) ns \<and> input_ok d rest content t \<and> place t = place s + sum_list ns
    | (Inl e, t) \<Rightarrow> \<exists>k u. k < length ns \<and> Reads sys (take k ns) s = (Inr (chunks (drop (place s) content) (take k ns)), u) \<and>
        FileInputStreamBuffered_Read sys (ns ! k) u = (Inl e, t) \<and>
        read_fails sys d ints (length content < place s + sum_list (take (Suc k) ns)) e (io_system u) (io_system t)"
  using assms(2)
proof (induction ns arbitrary: s)
  case Nil
  then show ?case by (simp add: returnM_def)
next
  case (Cons n ns)
  obtain r t where r: "FileInputStreamBuffered_Read sys n s = (r, t)" by fastforce
  show ?case
  proof (cases r)
    case (Inl e)
    then have f: "read_fails sys d ints (length content - place s < n) e (io_system s) (io_system t)"
      using FileInputStreamBuffered_Read_place [OF assms(1) Cons.prems, of n] r by simp
    have "place s \<le> length content" using Cons.prems by (auto simp: input_ok_def place_def)
    then have "length content - place s < n \<longleftrightarrow> length content < place s + n" by linarith
    then have "0 < length (n # ns) \<and> Reads sys (take 0 (n # ns)) s = (Inr (chunks (drop (place s) content) (take 0 (n # ns))), s) \<and>
        FileInputStreamBuffered_Read sys ((n # ns) ! 0) s = (Inl e, t) \<and>
        read_fails sys d ints (length content < place s + sum_list (take (Suc 0) (n # ns))) e (io_system s) (io_system t)"
      using f r Inl by (simp add: returnM_def)
    moreover have "Reads sys (n # ns) s = (Inl e, t)" using Inl r by (simp add: bindM_def)
    ultimately show ?thesis by (simp only: prod.case sum.case) blast
  next
    case (Inr bytes)
    then have t: "bytes = take n (drop (place s) content)" "input_ok d rest content t" "place t = place s + n"
      using FileInputStreamBuffered_Read_place [OF assms(1) Cons.prems, of n] r by auto
    have run: "Reads sys (n # ms) s = (case Reads sys ms t of (Inl e, v) \<Rightarrow> (Inl e, v) | (Inr bs, v) \<Rightarrow> (Inr (bytes # bs), v))" for ms
      using Inr r by (simp add: bindM_def returnM_def split: prod.splits sum.splits)
    have rest_chunks: "chunks (drop (place s) content) (n # ms) = bytes # chunks (drop (place t) content) ms" for ms
      using t(1,3) by (simp add: add.commute)
    obtain q v where q: "Reads sys ns t = (q, v)" by fastforce
    show ?thesis
    proof (cases q)
      case (Inl e)
      then obtain k u where k: "k < length ns" "Reads sys (take k ns) t = (Inr (chunks (drop (place t) content) (take k ns)), u)"
        "FileInputStreamBuffered_Read sys (ns ! k) u = (Inl e, v)"
        "read_fails sys d ints (length content < place t + sum_list (take (Suc k) ns)) e (io_system u) (io_system v)"
        using Cons.IH [OF t(2)] q by auto
      have "Reads sys (take (Suc k) (n # ns)) s = (Inr (chunks (drop (place s) content) (take (Suc k) (n # ns))), u)"
        using run [of "take k ns"] k(2) rest_chunks [of "take k ns"] by simp
      moreover have "read_fails sys d ints (length content < place s + sum_list (take (Suc (Suc k)) (n # ns))) e (io_system u) (io_system v)"
        using k(4) t(3) by (simp add: add.assoc)
      ultimately have "Suc k < length (n # ns) \<and>
          Reads sys (take (Suc k) (n # ns)) s = (Inr (chunks (drop (place s) content) (take (Suc k) (n # ns))), u) \<and>
          FileInputStreamBuffered_Read sys ((n # ns) ! Suc k) u = (Inl e, v) \<and>
          read_fails sys d ints (length content < place s + sum_list (take (Suc (Suc k)) (n # ns))) e (io_system u) (io_system v)"
        using k(1,3) by simp
      moreover have "Reads sys (n # ns) s = (Inl e, v)" using run [of ns] q Inl by simp
      ultimately show ?thesis by (simp only: prod.case sum.case) blast
    next
      case (Inr bs)
      then have "Reads sys (n # ns) s = (Inr (bytes # bs), v)" using run [of ns] q by simp
      moreover have "bs = chunks (drop (place t) content) ns" "input_ok d rest content v" "place v = place t + sum_list ns"
        using Cons.IH [OF t(2)] q Inr by auto
      ultimately show ?thesis using rest_chunks [of ns] t(3) by simp
    qed
  qed
qed

text \<open>An environment in which nothing goes wrong: no call fails, and there are never as many interrupts as a file gives up after.
  The contents that a round trip needs are stated in it; what a stream does in any other is \<open>Reads_outcome\<close>.\<close>

definition calm_input :: "'o System \<Rightarrow> int \<Rightarrow> ('o \<Rightarrow> nat) \<Rightarrow> bool" where
  "calm_input sys d ints \<longleftrightarrow> (\<forall>x. \<not> read_error sys d x) \<and> (\<forall>w. ints w \<le> MAX_INTERRUPTS_IGNORES)"

lemma calm_read_fails: "calm_input sys d ints \<Longrightarrow> read_fails sys d ints short e w w' \<Longrightarrow> e = ReadError \<and> short"
  unfolding calm_input_def read_fails_def by (metis Suc_n_not_le_n add_Suc_shift le_add2 order_trans)

lemma Reads_place:
  assumes "regular_input sys d rest ints" "calm_input sys d ints" "input_ok d rest content s"
  shows "case Reads sys ns s of
      (Inr bs, t) \<Rightarrow> bs = chunks (drop (place s) content) ns \<and> input_ok d rest content t \<and> place t = place s + sum_list ns
    | (Inl e, t) \<Rightarrow> e = ReadError \<and> length content < place s + sum_list ns"
proof (cases "Reads sys ns s")
  case (Pair r t)
  show ?thesis
  proof (cases r)
    case (Inl e)
    then obtain k u where "Reads sys (take k ns) s = (Inr (chunks (drop (place s) content) (take k ns)), u)"
      and f: "read_fails sys d ints (length content < place s + sum_list (take (Suc k) ns)) e (io_system u) (io_system t)"
      using Reads_outcome [OF assms(1,3), of ns] unfolding Pair Inl prod.case sum.case by blast
    from calm_read_fails [OF assms(2) f] have "e = ReadError \<and> length content < place s + sum_list (take (Suc k) ns)" .
    moreover have "sum_list ns = sum_list (take (Suc k) ns) + sum_list (drop (Suc k) ns)"
      by (metis append_take_drop_id sum_list_append)
    ultimately show ?thesis using Pair Inl by simp
  next
    case (Inr bs)
    then show ?thesis using Reads_outcome [OF assms(1,3), of ns] Pair by simp
  qed
qed

lemma place_observed:
  assumes "input_ok d rest content s"
  shows "FileInputStreamBuffered_Position s = int (place s) \<and> FileInputStreamBuffered_AvailableSize s = int (length content - place s) \<and>
    (FileInputStreamBuffered_AtEnd s \<longleftrightarrow> place s = length content) \<and> place s \<le> length content"
  using assms unfolding input_ok_def place_def FileInputStreamBuffered_Position_def FileInputStreamBuffered_AvailableSize_def
    in_AvailableSize_def FileInputStreamBuffered_AtEnd_def ib_AtEnd_def in_AtEnd_def ib_AvailableSize_def
  by auto

lemma FileInputStreamBuffered_new_ok:
  assumes "FileInputStreamBuffered_new sys filePath junk w = (Inr s, w')" "length junk < 2 ^ 32" "in_size s = int (length content)"
    "rest w' = content" "file_desc s \<noteq> - 1"
  shows "input_ok (file_desc s) rest content s \<and> place s = 0"
proof -
  obtain s1 where s1: "FileInputStream_new sys filePath w = (Inr s1, w')" "s = InBuffer_init junk s1"
    using assms(1) by (auto simp: FileInputStreamBuffered_new_def split: prod.splits sum.splits)
  then have "in_position s1 = 0 \<and> io_system s1 = w' \<and> file_state s1 = READABLE OR SEEKABLE"
    by (auto simp: FileInputStream_new_def in_construct_def FileInputStream_init_def File_Open_def File_GetStats_def FileStats_Init_def on_system_def static_call_def
        bindM_def throwM_def returnM_def system_call_def file_closed_def file_opened_def OPEN_READ_ONLY_def FileIo.defs FileInputStream.defs
        split: prod.splits sum.splits if_splits)
  then show ?thesis using assms(2-5) s1(2)
    by (simp add: input_ok_def place_def ib_AvailableSize_def InBuffer_init_def FileInputStream.defs FileInputStreamBuffered.defs
        IsOpened_def IsReadable_def READABLE_def SEEKABLE_def)
qed

text \<open>C17. Reads through the buffer, of any capacity, give the bytes of the file one after the other, and the position and the
  available size are those of the file, on every system that reads as POSIX documents it: it may read less than it is asked to,
  be interrupted any number of times and fail. Reads that go past the end of the file do not return. When a read throws, all
  reads before it have given their bytes, and either the file is too short for it, or a call of the system failed with the error
  that is thrown, or the one read was interrupted five times, which is once more than a file ignores. The size that the stream
  took from the system is the one of the contents.\<close>

theorem FileInputStreamBuffered_reads:
  assumes "FileInputStreamBuffered_new sys filePath junk w = (Inr s, w')" "length junk < 2 ^ 32"
    "in_size s = int (length content)" "rest w' = content" "file_desc s \<noteq> - 1"
    "regular_input sys (file_desc s) rest ints"
  shows "case Reads sys ns s of
      (Inr bs, t) \<Rightarrow> sum_list ns \<le> length content \<and> bs = chunks content ns \<and>
        FileInputStreamBuffered_Position t = int (sum_list ns) \<and>
        FileInputStreamBuffered_AvailableSize t = int (length content - sum_list ns) \<and>
        (FileInputStreamBuffered_AtEnd t \<longleftrightarrow> sum_list ns = length content)
    | (Inl e, t) \<Rightarrow> \<exists>k u. k < length ns \<and> Reads sys (take k ns) s = (Inr (chunks content (take k ns)), u) \<and>
        FileInputStreamBuffered_Read sys (ns ! k) u = (Inl e, t) \<and>
        ((e = ReadError \<and> length content < sum_list (take (Suc k) ns)) \<or>
         ((e = ReadError \<or> e = UnixInterrupted) \<and> ints (io_system t) = Suc (ints (io_system u) + MAX_INTERRUPTS_IGNORES)) \<or>
         (\<exists>x. read_error sys (file_desc s) x \<and> e = UnixError x))"
proof -
  have ok: "input_ok (file_desc s) rest content s" and z: "place s = 0"
    using FileInputStreamBuffered_new_ok [of sys filePath junk w s w' content rest] assms(1-5) by auto
  have o: "case Reads sys ns s of
      (Inr bs, t) \<Rightarrow> bs = chunks content ns \<and> input_ok (file_desc s) rest content t \<and> place t = sum_list ns
    | (Inl e, t) \<Rightarrow> \<exists>k u. k < length ns \<and> Reads sys (take k ns) s = (Inr (chunks content (take k ns)), u) \<and>
        FileInputStreamBuffered_Read sys (ns ! k) u = (Inl e, t) \<and>
        read_fails sys (file_desc s) ints (length content < sum_list (take (Suc k) ns)) e (io_system u) (io_system t)"
    using Reads_outcome [OF assms(6) ok, of ns] unfolding z drop_0 add_0 .
  obtain r t where r: "Reads sys ns s = (r, t)" by fastforce
  show ?thesis
  proof (cases r)
    case (Inl e)
    show ?thesis using o unfolding r Inl prod.case sum.case read_fails_def .
  next
    case (Inr bs)
    then have "bs = chunks content ns" "input_ok (file_desc s) rest content t" "place t = sum_list ns" using o r by auto
    then show ?thesis using place_observed [of "file_desc s" rest content t] by (simp add: r Inr)
  qed
qed

theorem FileInputStreamBuffered_reads_witness:
  "case FileInputStreamBuffered_new sample_system ''f'' ''....'' (''abcdefghi'', False) of
     (Inr s, w') \<Rightarrow> (case Reads sample_system [1, 2, 6, 0] s of (Inr bs, t) \<Rightarrow> bs = [''a'', ''bc'', ''defghi'', []] | _ \<Rightarrow> False)
   | _ \<Rightarrow> False"
proof -
  let ?ns = "[1, 2, 6, 0] :: nat list"
  have "case FileInputStreamBuffered_new sample_system ''f'' ''....'' (''abcdefghi'', False) of
     (Inr s, w') \<Rightarrow> file_desc s = 3 \<and> in_size s = 9 \<and> fst w' = ''abcdefghi'' | _ \<Rightarrow> False" by code_simp
  then obtain s w' where s: "FileInputStreamBuffered_new sample_system ''f'' ''....'' (''abcdefghi'', False) = (Inr s, w')"
    "file_desc s = 3" "in_size s = 9" "fst w' = ''abcdefghi''" by (auto split: prod.splits sum.splits)
  obtain r t where r: "Reads sample_system ?ns s = (r, t)" by fastforce
  have few: "\<not> length ''abcdefghi'' < sum_list (take (Suc k) ?ns)" for k by (simp add: take_Cons split: nat.split)
  have calm: "sample_interrupts w \<noteq> Suc (n + MAX_INTERRUPTS_IGNORES)" for w n
    by (simp add: sample_interrupts_def MAX_INTERRUPTS_IGNORES_def)
  have "case r of Inr bs \<Rightarrow> bs = chunks ''abcdefghi'' ?ns | Inl e \<Rightarrow> False"
    using FileInputStreamBuffered_reads [OF s(1), where ns = ?ns and content = "''abcdefghi''" and rest = fst and ints = sample_interrupts]
      s(2-4) sample_regular few calm unfolding r by (auto simp del: Reads.simps chunks.simps take_Suc_Cons split: sum.splits)
  then show ?thesis using s(1) r by (auto simp del: Reads.simps split: sum.splits)
qed

section \<open>A read that is tried again\<close>

text \<open>When the file has fewer bytes than asked for, but they would fit into the buffer, the read throws, and the buffer claims to
  hold them all the same: the second time the read returns, with the rest of the file and what was in the memory of the buffer.\<close>

theorem FileInputStreamBuffered_retry:
  assumes "regular_input sys d rest ints" "calm_input sys d ints" "input_ok d rest content s" "ib_AvailableSize s = 0"
    "length content - place s < n" "n < ib_capacity s"
  shows "case FileInputStreamBuffered_Read sys n s of
      (Inl e, t) \<Rightarrow> e = ReadError \<and>
        fst (FileInputStreamBuffered_Read sys n t) =
          Inr (drop (place s) content @ take (n - (length content - place s)) (drop (length content - place s) (ib_data s)))
    | (Inr bytes, t) \<Rightarrow> False"
proof -
  let ?s = "s\<lparr>ib_size := n, ib_position := 0\<rparr>"
  have n: "update_size n s = n" using update_size_max [OF assms(3,4), of n] assms(5,6) by simp
  have first: "FileInputStreamBuffered_Read sys n s =
      bindM (ib_fill sys n) (\<lambda>_. bindM (ib_Read n) returnM) ?s"
    using assms(4-6) by (simp add: FileInputStreamBuffered_Read_def ib_Read_def ib_Update_def n bindM_def Let_def)
  obtain q u where q: "in_Read sys n ?s = (q, u)" by fastforce
  have p: "place s = nat (in_position s)" using assms(4) by (simp add: place_def)
  have o: "length (io_target u) \<le> n \<and> (case q of
      Inr _ \<Rightarrow> u = ?s\<lparr>io_system := io_system u, io_target := take n (drop (nat (in_position ?s)) content), in_position := in_position ?s + int n\<rparr> \<and>
        nat (in_position ?s) + n \<le> max (nat (in_position ?s)) (length content) \<and> rest (io_system u) = drop (nat (in_position ?s) + n) content
    | Inl e \<Rightarrow> read_fails sys d ints (length content - nat (in_position ?s) < n) e (io_system ?s) (io_system u) \<and>
        (e = ReadError \<longrightarrow> drop (nat (in_position ?s)) content = io_target u @ rest (io_system u) \<and>
           (rest (io_system u) = [] \<or> ints (io_system u) = Suc (ints (io_system ?s) + MAX_INTERRUPTS_IGNORES))) \<and>
        u = ?s\<lparr>io_system := io_system u, io_target := io_target u\<rparr>)"
    by (rule in_Read_outcome [OF _ _ _ _ _ _ q]) (use assms in \<open>auto simp: input_ok_def IsOpened_def IsReadable_def\<close>)
  obtain e where e: "q = Inl e"
  proof (cases q)
    case (Inr u)
    then have "nat (in_position s) + n \<le> max (nat (in_position s)) (length content)" using o by simp
    then show ?thesis using assms(5) p by linarith
  qed
  have "e = ReadError" using o e calm_read_fails [OF assms(2)] by auto
  moreover have "ints (io_system u) \<le> MAX_INTERRUPTS_IGNORES" using assms(2) by (simp add: calm_input_def)
  ultimately obtain w where u: "u = ?s\<lparr>io_system := w, io_target := drop (place s) content\<rparr>"
    using o e p by auto
  let ?t = "u\<lparr>ib_data := drop (place s) content @ drop (length content - place s) (ib_data s)\<rparr>"
  have read: "FileInputStreamBuffered_Read sys n s = (Inl ReadError, ?t)"
    using first q e \<open>e = ReadError\<close> u assms(5,6) by (simp add: ib_fill_def bindM_def)
  have "fst (FileInputStreamBuffered_Read sys n ?t) = Inr (take n (ib_data ?t))"
    using u assms(3,5,6)
    by (simp add: FileInputStreamBuffered_Read_def ib_Read_def ib_AvailableSize_def bindM_def returnM_def Let_def input_ok_def min_def)
  then show ?thesis using read assms(5) by (simp add: take_add)
qed

theorem FileInputStreamBuffered_retry_witness:
  "case FileInputStreamBuffered_new sample_system ''f'' ''....'' (''ab'', False) of
     (Inr s, w') \<Rightarrow> (case FileInputStreamBuffered_Read sample_system 3 s of
         (Inl e, t) \<Rightarrow> e = ReadError \<and> fst (FileInputStreamBuffered_Read sample_system 3 t) = Inr ''ab.'' | _ \<Rightarrow> False)
   | _ \<Rightarrow> False"
proof -
  have "case FileInputStreamBuffered_new sample_system ''f'' ''....'' (''ab'', False) of
     (Inr s, w') \<Rightarrow> file_desc s = 3 \<and> in_size s = 2 \<and> fst w' = ''ab'' \<and> ib_AvailableSize s = 0 \<and> ib_capacity s = 4 \<and> ib_data s = ''....''
     | _ \<Rightarrow> False" by code_simp
  then obtain s w' where s: "FileInputStreamBuffered_new sample_system ''f'' ''....'' (''ab'', False) = (Inr s, w')"
    "file_desc s = 3" "in_size s = 2" "fst w' = ''ab''" "ib_AvailableSize s = 0" "ib_capacity s = 4" "ib_data s = ''....''"
    by (auto split: prod.splits sum.splits)
  have calm: "calm_input sample_system 3 sample_interrupts"
    by (simp add: calm_input_def sample_regular sample_interrupts_def MAX_INTERRUPTS_IGNORES_def)
  have "input_ok 3 fst ''ab'' s \<and> place s = 0"
    using FileInputStreamBuffered_new_ok [OF s(1), of "''ab''" fst] s by simp
  then show ?thesis
    using FileInputStreamBuffered_retry [OF sample_regular(1) calm, where s = s and n = 3 and content = "''ab''"] s
    by (auto split: prod.splits sum.splits)
qed

text \<open>A file that has grown: behind the size that the stream knows, the available size is negative, and its conversion asks for
  more bytes than the buffer has.\<close>

lemma update_size_grown:
  assumes "in_size s < in_position s" "in_position s - in_size s < 2 ^ 31" "ib_capacity s < 2 ^ 31" "m < ib_capacity s"
  shows "ib_capacity s < update_size m s"
proof -
  have "in_AvailableSize s mod 2 ^ 32 = in_AvailableSize s + 2 ^ 32"
    using assms(1,2) by (intro int_mod_pos_eq [of _ _ "- 1"]) (simp_all add: in_AvailableSize_def)
  then show ?thesis using assms by (simp add: update_size_def Let_def in_AvailableSize_def) arith
qed

end
