(* ===== verification/Directory_Paths.thy ===== *)
theory Directory_Paths
  imports File_Utils Buffered_Input Path_Resolution
begin

text \<open>
  What the operations of \<^verbatim>\<open>FileUtils\<close> do: directories made along a path, links replaced and read, the current directory, and
  files read as a whole. Paths are only ways to name a file: many texts may lead to the same directory or to the same entry of a
  directory, through links, repeated slashes or \<^verbatim>\<open>..\<close>, so directories and files are told apart by identities, as POSIX does.
  No other process changes the files in between.
\<close>

section \<open>The current directory\<close>

definition answers_cwd :: "'o System \<Rightarrow> string \<Rightarrow> bool" where
  "answers_cwd sys cwd \<longleftrightarrow> (\<forall>n w. sys_getcwd sys n w = (if length cwd < n then (Inr cwd, w) else (Inl ERANGE, w)))"

lemma resize_replicate: "n \<le> m \<Longrightarrow> resize m x (replicate n x) = replicate m x"
  by (intro nth_equalityI) (auto simp: resize_length nth_resize)

lemma getcwd_loop_pads:
  assumes "answers_cwd sys cwd" "0 < n"
  shows "\<exists>m. length cwd < m \<and>
    getcwd_loop sys (replicate n CHR 0x00) w = Some (Inr (cwd @ replicate (m - length cwd) CHR 0x00), w)"
  using assms(2)
proof (induction "length cwd - n" arbitrary: n rule: less_induct)
  case less
  show ?case
  proof (cases "length cwd < n")
    case True
    have "replicate (n - length cwd) CHR 0x00 = CHR 0x00 # replicate (n - Suc (length cwd)) CHR 0x00"
      using True by (metis Suc_diff_Suc replicate_Suc)
    then have "getcwd_loop sys (replicate n CHR 0x00) w = Some (Inr (cwd @ replicate (n - length cwd) CHR 0x00), w)"
      using assms(1) True by (subst getcwd_loop.simps) (simp add: answers_cwd_def)
    then show ?thesis using True by blast
  next
    case False
    have "getcwd_loop sys (replicate n CHR 0x00) w = getcwd_loop sys (replicate (2 * n) CHR 0x00) w"
      using assms(1) False by (subst getcwd_loop.simps) (simp add: answers_cwd_def resize_replicate)
    moreover have "length cwd - 2 * n < length cwd - n" if "length cwd \<noteq> n" using False less.prems that by linarith
    moreover have "\<exists>m. length cwd < m \<and>
        getcwd_loop sys (replicate (2 * n) CHR 0x00) w = Some (Inr (cwd @ replicate (m - length cwd) CHR 0x00), w)"
    proof (cases "length cwd = n")
      case True
      have "replicate (2 * n - n) CHR 0x00 = CHR 0x00 # replicate (2 * n - Suc n) CHR 0x00"
        using less.prems by (cases n) simp_all
      then have "getcwd_loop sys (replicate (2 * n) CHR 0x00) w = Some (Inr (cwd @ replicate (2 * n - n) CHR 0x00), w)"
        using assms(1) True less.prems by (subst getcwd_loop.simps) (simp add: answers_cwd_def)
      then show ?thesis using True less.prems by (intro exI [of _ "2 * n"]) simp
    next
      case neq: False
      show ?thesis by (rule less.hyps) (use neq False less.prems in linarith)+
    qed
    ultimately show ?thesis by simp
  qed
qed

lemma GetCurrentDirectory_pads:
  assumes "answers_cwd sys cwd"
  shows "\<exists>m>0. GetCurrentDirectory sys w = (Inr (cwd @ replicate m CHR 0x00), w)"
proof -
  obtain m where "length cwd < m"
    "getcwd_loop sys (replicate MIN_BUFFER_SIZE CHR 0x00) w = Some (Inr (cwd @ replicate (m - length cwd) CHR 0x00), w)"
    using getcwd_loop_pads [OF assms, of MIN_BUFFER_SIZE w] by (auto simp: MIN_BUFFER_SIZE_def)
  then show ?thesis by (intro exI [of _ "m - length cwd"]) (simp add: GetCurrentDirectory_def)
qed

lemma c_str_padded:
  assumes "CHR 0x00 \<notin> set cwd"
  shows "c_str (cwd @ replicate m CHR 0x00) = c_str cwd"
proof -
  have "takeWhile (\<lambda>c. c \<noteq> CHR 0x00) (cwd @ replicate m CHR 0x00) = cwd @ takeWhile (\<lambda>c. c \<noteq> CHR 0x00) (replicate m CHR 0x00)"
    using assms by (intro takeWhile_append2) auto
  moreover have "takeWhile (\<lambda>c. c \<noteq> CHR 0x00) (replicate m CHR 0x00) = []" by (cases m) simp_all
  moreover have "takeWhile (\<lambda>c. c \<noteq> CHR 0x00) cwd = cwd" by (rule takeWhile_eq_all_conv [THEN iffD2]) (use assms in auto)
  ultimately show ?thesis unfolding c_str_def by (simp only: append_Nil2)
qed

text \<open>The text of the current directory has NULs behind it, one at least. Paths are made from it as if it had none, but the absolute
  path of an empty path is this text.\<close>

theorem AbsoluteFilePath_pads:
  assumes "answers_cwd sys cwd" "CHR 0x00 \<notin> set cwd"
  shows "\<exists>m>0. GetCurrentDirectory sys w = (Inr (cwd @ replicate m CHR 0x00), w) \<and>
    AbsoluteFilePath_cwd sys path w = (Inr (if path = [] then cwd @ replicate m CHR 0x00 else AbsoluteFilePath path cwd), w)"
proof -
  obtain m where m: "m > 0" "GetCurrentDirectory sys w = (Inr (cwd @ replicate m CHR 0x00), w)"
    using GetCurrentDirectory_pads [OF assms(1)] by blast
  moreover have "FilePath_of (cwd @ replicate m CHR 0x00) = FilePath_of cwd"
    using c_str_padded [OF assms(2), of m] by (simp add: FilePath_of_def)
  ultimately show ?thesis by (auto simp: AbsoluteFilePath_cwd_def bindM_def returnM_def AbsoluteFilePath_def)
qed

section \<open>Links\<close>

lemma readlink_loop_reads:
  assumes "\<And>n w. sys_readlink sys linkPath n w = (Inr (take n target), w)" "Suc n = 2 ^ k" "k \<le> 16"
  shows "readlink_loop sys linkPath n w = (Inr (take MAX_BUFFER_SIZE target), w)"
  using assms(2,3)
proof (induction "16 - k" arbitrary: k n)
  case 0
  then have "k = 16" by simp
  then have "Suc n = MAX_BUFFER_SIZE" using 0 by (simp add: MAX_BUFFER_SIZE_def)
  then show ?case using assms(1) by (subst readlink_loop.simps) simp
next
  case (Suc j)
  show ?case
  proof (cases "length target < Suc n")
    case True
    moreover have "(2 :: nat) ^ k \<le> 2 ^ 16" using Suc.prems(2) by (rule power_increasing) simp
    ultimately have "length target \<le> MAX_BUFFER_SIZE" using Suc.prems(1) by (simp add: MAX_BUFFER_SIZE_def)
    then show ?thesis using True assms(1) by (subst readlink_loop.simps) simp
  next
    case False
    have "(2 :: nat) ^ k < 2 ^ 16" using Suc.hyps(2) by (intro power_strict_increasing) simp_all
    then have "Suc n < MAX_BUFFER_SIZE" using Suc.prems(1) by (simp add: MAX_BUFFER_SIZE_def)
    then have "readlink_loop sys linkPath n w = readlink_loop sys linkPath (2 * Suc n - 1) w"
      using False assms(1) by (subst readlink_loop.simps) simp
    also have "\<dots> = (Inr (take MAX_BUFFER_SIZE target), w)"
      by (rule Suc.hyps(1) [of "Suc k"]) (use Suc.hyps(2) Suc.prems in auto)
    finally show ?thesis .
  qed
qed

text \<open>The target of a link, cut off at \<open>MAX_BUFFER_SIZE\<close> characters without a word\<close>

lemma ReadSymlink_target:
  assumes "\<And>n w. sys_readlink sys linkPath n w = (Inr (take n target), w)"
  shows "ReadSymlink sys linkPath w = (Inr (take MAX_BUFFER_SIZE target), w)"
  unfolding ReadSymlink_def by (rule readlink_loop_reads [OF assms, of 0 0]) simp_all

text \<open>Symbolic links, as POSIX documents them: a path leads to an entry of a directory (\<open>at\<close>), which may hold a file (\<open>files\<close>), and a
  file that is a link has a \<open>target\<close>. \<^verbatim>\<open>symlink\<close> makes a new file in an empty entry; it fails with \<open>EEXIST\<close> only when the entry
  holds a file of any kind. \<^verbatim>\<open>rename\<close> of a link moves it to the other entry, whose file is given up, but does nothing when both
  entries hold the same file. A call that fails changes nothing.\<close>

definition posix_links :: "'o System \<Rightarrow> ('o \<Rightarrow> string \<Rightarrow> 'e option) \<Rightarrow> ('o \<Rightarrow> 'e \<rightharpoonup> 'i) \<Rightarrow> ('o \<Rightarrow> 'i \<rightharpoonup> string) \<Rightarrow> bool" where
  "posix_links sys at files target \<longleftrightarrow>
     (\<forall>d l w. case sys_symlink sys d l w of
        (Inr u, w') \<Rightarrow> \<exists>e i. at w l = Some e \<and> files w e = None \<and> i \<notin> ran (files w) \<and>
          files w' = (files w)(e \<mapsto> i) \<and> target w' = (target w)(i \<mapsto> d) \<and> (\<forall>q x. at w q = Some x \<longrightarrow> at w' q = Some x)
      | (Inl x, w') \<Rightarrow> at w' = at w \<and> files w' = files w \<and> target w' = target w \<and>
          (x = EEXIST \<longrightarrow> (\<exists>e. at w l = Some e \<and> files w e \<noteq> None))) \<and>
     (\<forall>a b w. case sys_rename sys a b w of
        (Inr u, w') \<Rightarrow> \<forall>ea i. at w a = Some ea \<and> files w ea = Some i \<and> target w i \<noteq> None \<longrightarrow>
          (\<exists>eb. at w b = Some eb \<and> files w' = (if files w eb = Some i then files w else (files w)(eb \<mapsto> i, ea := None)) \<and>
            (\<forall>j\<in>ran (files w'). target w' j = target w j))
      | (Inl x, w') \<Rightarrow> at w' = at w \<and> files w' = files w \<and> target w' = target w) \<and>
     (\<forall>a w. case sys_unlink sys a w of
        (Inr u, w') \<Rightarrow> \<forall>e i. at w a = Some e \<and> files w e = Some i \<and> target w i \<noteq> None \<longrightarrow>
          files w' = (files w)(e := None) \<and> (\<forall>j\<in>ran (files w'). target w' j = target w j)
      | (Inl x, w') \<Rightarrow> at w' = at w \<and> files w' = files w \<and> target w' = target w)"









section \<open>Directories\<close>

text \<open>Directories, as POSIX documents them: \<open>at\<close> gives the directory that a path leads to, by its identity and whatever links are on the
  way, and \<open>dirs\<close> those that exist. \<^verbatim>\<open>mkdir\<close> makes one that was not there, all paths still lead where they led, and when it
  fails nothing has changed; \<^verbatim>\<open>stat\<close> tells whether a path leads to a directory.\<close>

definition posix_dirs :: "'o System \<Rightarrow> ('o \<Rightarrow> string \<Rightarrow> 'i option) \<Rightarrow> ('o \<Rightarrow> 'i set) \<Rightarrow> bool" where
  "posix_dirs sys at dirs \<longleftrightarrow>
     (\<forall>p m w. case sys_mkdir sys p m w of
        (Inr u, w') \<Rightarrow> at w p = None \<and> (\<exists>i. i \<notin> dirs w \<and> dirs w' = insert i (dirs w) \<and> at w' p = Some i) \<and>
          (\<forall>q i. at w q = Some i \<longrightarrow> at w' q = Some i)
      | (Inl e, w') \<Rightarrow> dirs w' = dirs w \<and> at w' = at w) \<and>
     (\<forall>p w. case sys_stat sys True p w of
        (Inr st, w') \<Rightarrow> dirs w' = dirs w \<and> at w' = at w \<and> (st_kind st = DIRECTORY \<longleftrightarrow> at w p \<noteq> None)
      | (Inl e, w') \<Rightarrow> dirs w' = dirs w \<and> at w' = at w) \<and>
     (\<forall>w p i. at w p = Some i \<longrightarrow> i \<in> dirs w)"

definition prefix_paths :: "FilePath \<Rightarrow> string list" where
  "prefix_paths p = map (\<lambda>k. FilePath_ToString (p\<lparr>parts := take (Suc k) (parts p)\<rparr>)) [0..<length (parts p)]"

lemma prefix_path_at:
  "k < length (parts p) \<Longrightarrow> CurrentPath ((Iterator_Advance ^^ k) (Iterator_new p)) = prefix_paths p ! k"
  by (simp add: Iterator_prefixes(2) prefix_paths_def)

lemma length_prefix_paths [simp]: "length (prefix_paths p) = length (parts p)"
  by (simp add: prefix_paths_def)

lemma prefix_paths_take: "prefix_paths (p\<lparr>parts := take k (parts p)\<rparr>) = take k (prefix_paths p)"
  by (simp add: prefix_paths_def take_map min_def)

text \<open>The loop over the iterator is a loop over the paths of the directories on the way.\<close>

fun make_paths :: "'o System \<Rightarrow> nat \<Rightarrow> bool \<Rightarrow> string list \<Rightarrow> ('o, file_error, bool) mth" where
  "make_paths sys m created [] = returnM created"
| "make_paths sys m created (q # qs) = bindM (static_call (sys_mkdir sys q m)) (\<lambda>r. case r of
     Inr u \<Rightarrow> make_paths sys m True qs
   | Inl e \<Rightarrow>
       if e = EEXIST then
         bindM (FileStats_Init sys q True) (\<lambda>st. if st_kind st = DIRECTORY then make_paths sys m False qs else throwM (UnixError e))
       else throwM (UnixError e))"

lemma create_loop_paths:
  assumes "k \<le> length (parts p)"
  shows "create_loop sys m b ((Iterator_Advance ^^ k) (Iterator_new p)) = make_paths sys m b (drop k (prefix_paths p))"
  using assms
proof (induction "length (parts p) - k" arbitrary: k b)
  case 0
  then have "k = length (parts p)" by simp
  then show ?case by (subst create_loop.simps) (simp add: Iterator_prefixes(1))
next
  case (Suc n)
  let ?i = "(Iterator_Advance ^^ k) (Iterator_new p)"
  have k: "k < length (parts p)" using Suc.hyps(2) by simp
  have "Iterator_Advance ?i = (Iterator_Advance ^^ Suc k) (Iterator_new p)" by simp
  then have next_step: "create_loop sys m b' (Iterator_Advance ?i) = make_paths sys m b' (drop (Suc k) (prefix_paths p))" for b'
    using Suc.hyps(1) [of "Suc k" b'] Suc.hyps(2) k by simp
  have "drop k (prefix_paths p) = prefix_paths p ! k # drop (Suc k) (prefix_paths p)" using k by (simp add: Cons_nth_drop_Suc)
  then show ?case
    using k by (subst create_loop.simps) (simp add: Iterator_prefixes(1) prefix_path_at next_step cong: if_cong sum.case_cong)
qed

lemma CreatePath_paths: "CreatePath sys p m = make_paths sys m False (prefix_paths p)"
  using create_loop_paths [of 0 p sys m False] by (simp add: CreatePath_def)

text \<open>What one call makes of its path\<close>

definition made_or_there :: "'o System \<Rightarrow> nat \<Rightarrow> string \<Rightarrow> ('o, file_error, bool) mth" where
  "made_or_there sys m q = bindM (static_call (sys_mkdir sys q m)) (\<lambda>r. case r of
     Inr u \<Rightarrow> returnM True
   | Inl e \<Rightarrow>
       if e = EEXIST then
         bindM (FileStats_Init sys q True) (\<lambda>st. if st_kind st = DIRECTORY then returnM False else throwM (UnixError e))
       else throwM (UnixError e))"

lemma make_paths_Cons: "make_paths sys m b (q # qs) = bindM (made_or_there sys m q) (\<lambda>b. make_paths sys m b qs)"
  by (rule ext) (auto simp: made_or_there_def bindM_def static_call_def throwM_def returnM_def split: prod.splits sum.splits)

lemma make_paths_append: "make_paths sys m b (xs @ ys) = bindM (make_paths sys m b xs) (\<lambda>b. make_paths sys m b ys)"
proof (induction xs arbitrary: b)
  case Nil
  then show ?case by (rule ext) (simp add: bindM_def returnM_def)
next
  case (Cons x xs)
  then show ?case
    unfolding append_Cons make_paths_Cons by (rule_tac ext) (simp add: bindM_def split: prod.splits sum.splits)
qed

text \<open>Why making one directory throws: the system refused it, for another reason than that the path is taken, or something that is no
  directory is there, or it cannot be looked at.\<close>

definition refused :: "'o System \<Rightarrow> ('o \<Rightarrow> string \<Rightarrow> 'i option) \<Rightarrow> nat \<Rightarrow> string \<Rightarrow> 'o \<Rightarrow> file_error \<Rightarrow> 'o \<Rightarrow> bool" where
  "refused sys at m q u e w \<longleftrightarrow> (case sys_mkdir sys q m u of
     (Inr _, v) \<Rightarrow> False
   | (Inl x, v) \<Rightarrow>
       if x = EEXIST then (case FileStats_Init sys q True v of
           (Inl y, v') \<Rightarrow> e = y \<and> w = v'
         | (Inr st, v') \<Rightarrow> e = UnixError EEXIST \<and> w = v' \<and> at u q = None)
       else e = UnixError x \<and> w = v)"

lemma made_or_there_outcome:
  assumes "posix_dirs sys at dirs" "made_or_there sys m q u = (r, w)"
  shows "case r of
      Inr b \<Rightarrow> (b \<longleftrightarrow> at u q = None) \<and> (\<exists>i. at w q = Some i \<and> dirs w = insert i (dirs u)) \<and> (\<forall>q i. at u q = Some i \<longrightarrow> at w q = Some i)
    | Inl e \<Rightarrow> dirs w = dirs u \<and> at w = at u \<and> refused sys at m q u e w"
proof -
  obtain c v where c: "sys_mkdir sys q m u = (c, v)" by fastforce
  note o = assms(1) [unfolded posix_dirs_def, THEN conjunct1, THEN spec [where x = q], THEN spec [where x = m], THEN spec [where x = u], unfolded c prod.case]
  note there = assms(1) [unfolded posix_dirs_def, THEN conjunct2, THEN conjunct2]
  show ?thesis
  proof (cases c)
    case (Inr x)
    then show ?thesis using assms(2) c o by (auto simp: made_or_there_def bindM_def static_call_def returnM_def)
  next
    case (Inl x)
    then have same: "dirs v = dirs u" "at v = at u" using o by simp_all
    show ?thesis
    proof (cases "x = EEXIST")
      case False
      then show ?thesis using assms(2) c Inl same by (auto simp: made_or_there_def bindM_def static_call_def throwM_def refused_def)
    next
      case True
      obtain s v' where s: "FileStats_Init sys q True v = (s, v')" by fastforce
      obtain y z where y: "sys_stat sys True q v = (y, z)" by fastforce
      note stat = assms(1) [unfolded posix_dirs_def, THEN conjunct2, THEN conjunct1, THEN spec [where x = q], THEN spec [where x = v],
        unfolded y prod.case]
      have looked: "dirs v' = dirs u \<and> at v' = at u \<and> (\<forall>st. s = Inr st \<longrightarrow> (st_kind st = DIRECTORY \<longleftrightarrow> at u q \<noteq> None))"
        using s y stat same
        by (cases y) (auto simp: FileStats_Init_def bindM_def static_call_def throwM_def returnM_def split: if_splits)
      have run: "(r, w) = (case s of Inl e \<Rightarrow> (Inl e, v') | Inr st \<Rightarrow> if st_kind st = DIRECTORY then (Inr False, v') else (Inl (UnixError EEXIST), v'))"
        using assms(2) c Inl True s by (auto simp: made_or_there_def bindM_def static_call_def throwM_def returnM_def split: sum.splits if_splits)
      show ?thesis
      proof (cases s)
        case e: (Inl e)
        then show ?thesis using run looked c Inl True s by (simp add: refused_def)
      next
        case (Inr st)
        show ?thesis
        proof (cases "st_kind st = DIRECTORY")
          case dir: True
          then obtain i where "at u q = Some i" "i \<in> dirs u" using looked Inr there by blast
          then show ?thesis using run looked Inr dir by (auto simp: insert_absorb)
        next
          case False
          then show ?thesis using run looked c Inl True s Inr by (simp add: refused_def)
        qed
      qed
    qed
  qed
qed

lemma make_paths_outcome:
  assumes "posix_dirs sys at dirs"
  shows "case make_paths sys m b qs w of
      (Inr r, w') \<Rightarrow> (\<forall>q\<in>set qs. at w' q \<noteq> None) \<and> dirs w' = dirs w \<union> {i. \<exists>q\<in>set qs. at w' q = Some i} \<and>
        (\<forall>q i. at w q = Some i \<longrightarrow> at w' q = Some i) \<and>
        (r \<longleftrightarrow> (if qs = [] then b else at (snd (make_paths sys m b (butlast qs) w)) (last qs) = None))
    | (Inl e, w') \<Rightarrow> \<exists>k<length qs. \<exists>c u. make_paths sys m b (take k qs) w = (Inr c, u) \<and>
        dirs w' = dirs u \<and> at w' = at u \<and> refused sys at m (qs ! k) u e w'"
proof (induction qs rule: rev_induct)
  case Nil
  then show ?case by (simp add: returnM_def)
next
  case (snoc q qs)
  obtain r u where r: "make_paths sys m b qs w = (r, u)" by fastforce
  show ?case
  proof (cases r)
    case (Inl e)
    then have "make_paths sys m b (qs @ [q]) w = (Inl e, u)" by (simp add: make_paths_append bindM_def r)
    moreover obtain k c v where "k < length qs" "make_paths sys m b (take k qs) w = (Inr c, v)" "dirs u = dirs v" "at u = at v"
      "refused sys at m (qs ! k) v e u"
      using snoc.IH r Inl by auto
    ultimately show ?thesis by (auto simp: nth_append intro!: exI [of _ k])
  next
    case (Inr c)
    then have u: "\<forall>q\<in>set qs. at u q \<noteq> None" "dirs u = dirs w \<union> {i. \<exists>q\<in>set qs. at u q = Some i}" "\<forall>q i. at w q = Some i \<longrightarrow> at u q = Some i"
      using snoc.IH r by simp_all
    obtain s v where s: "made_or_there sys m q u = (s, v)" by fastforce
    note o = made_or_there_outcome [OF assms s]
    have "make_paths sys m b (qs @ [q]) w = make_paths sys m c [q] u" using r Inr by (simp add: make_paths_append bindM_def)
    then have run: "make_paths sys m b (qs @ [q]) w = (s, v)"
      using s by (simp add: make_paths_Cons bindM_def returnM_def del: make_paths.simps(2) split: sum.split)
    show ?thesis
    proof (cases s)
      case e: (Inl e)
      then show ?thesis using run o r Inr by (auto intro!: exI [of _ "length qs"])
    next
      case made: (Inr d)
      then obtain i where i: "at v q = Some i" "dirs v = insert i (dirs u)" "\<forall>q i. at u q = Some i \<longrightarrow> at v q = Some i" "d \<longleftrightarrow> at u q = None"
        using o by auto
      have same: "at v x = at u x" if "x \<in> set qs" for x using u(1) i(3) that by (metis not_None_eq)
      then have "dirs v = dirs w \<union> {j. \<exists>x\<in>set (qs @ [q]). at v x = Some j}" using u(2) i(1,2) by auto
      then show ?thesis using run made r i u same by auto
    qed
  qed
qed

text \<open>C20. Making a path, on a system with directories as POSIX documents them: when it returns, there is a directory at each step of the
  path, the directories that exist are those from before and these, and the answer is whether the last one was not there when the
  path of its parent had been made. A directory that is there already is no error. When it throws, the path has been made up to
  a step at which the system refused the directory for another reason than that the path is taken, or found something there that
  is no directory or that it could not examine, and nothing behind it has been tried.\<close>

theorem CreatePath_makes:
  assumes "posix_dirs sys at dirs"
  shows "case CreatePath sys p m w of
      (Inr r, w') \<Rightarrow> (\<forall>q\<in>set (prefix_paths p). at w' q \<noteq> None) \<and> dirs w' = dirs w \<union> {i. \<exists>q\<in>set (prefix_paths p). at w' q = Some i} \<and>
        (r \<longleftrightarrow> parts p \<noteq> [] \<and> at (snd (CreatePath sys (p\<lparr>parts := butlast (parts p)\<rparr>) m w)) (last (prefix_paths p)) = None)
    | (Inl e, w') \<Rightarrow> \<exists>k<length (parts p). \<exists>b u. CreatePath sys (p\<lparr>parts := take k (parts p)\<rparr>) m w = (Inr b, u) \<and>
        dirs w' = dirs u \<and> at w' = at u \<and> refused sys at m (prefix_paths p ! k) u e w'"
proof -
  have "prefix_paths p = [] \<longleftrightarrow> parts p = []" by (simp flip: length_0_conv)
  moreover have "prefix_paths (p\<lparr>parts := butlast (parts p)\<rparr>) = butlast (prefix_paths p)"
    using prefix_paths_take [where p = p and k = "length (parts p) - 1"] by (simp add: butlast_conv_take)
  ultimately show ?thesis
    using make_paths_outcome [OF assms, where m = m and b = False and qs = "prefix_paths p" and w = w]
    unfolding CreatePath_paths prefix_paths_take by (auto split: prod.splits sum.splits)
qed

section \<open>Whole files\<close>

text \<open>The content of a file of size \<open>n\<close>: \<open>n\<close> characters, of which the first \<open>n mod 2 ^ 32\<close> have been read, as far as the file has
  them; the others are NULs.\<close>

theorem SlurpFile_reads:
  assumes "filePath \<noteq> []" "sys_open sys filePath [O_RDONLY, O_LARGEFILE] None w = (Inr d, w1)" "d \<noteq> - 1"
    "sys_stat sys True filePath w1 = (Inr st, w2)" "st_size st = int n" "regular_input sys d rest ints" "calm_input sys d ints"
    "\<And>w. fst (sys_close sys d w) = Inr ()"
  shows "fst (SlurpFile sys filePath w) =
    Inr (take (n mod 2 ^ 32) (rest w2) @ replicate (n - min (n mod 2 ^ 32) (length (rest w2))) CHR 0x00)"
proof -
  define f where "f = \<lparr>file_state = READABLE OR SEEKABLE, file_desc = d, file_path = filePath, io_system = w2, io_target = []\<rparr>"
  have f: "file_desc f = d" "IsOpened f" "IsReadable f" "io_system f = w2"
    using assms(3) by (simp_all add: f_def IsOpened_def IsReadable_def READABLE_def SEEKABLE_def)
  obtain r t where r: "File_Read sys (n mod 2 ^ 32) f = (r, t)" by fastforce
  have o: "read_outcome sys rest ints MAX_INTERRUPTS_IGNORES (n mod 2 ^ 32) [] (f\<lparr>io_target := []\<rparr>) r t"
    using File_Read_outcome [of sys f rest ints "n mod 2 ^ 32"] assms(6) f r by simp
  have calm: "\<not> read_error sys d x" "ints w \<le> MAX_INTERRUPTS_IGNORES" for x w using assms(7) by (simp_all add: calm_input_def)
  obtain m where m: "r = Inr m" using o calm(2) [of "io_system t"] calm(1) f(1) by (cases r) (auto simp: read_outcome_def)
  then have bytes: "rest w2 = io_target t @ rest (io_system t)" "length (io_target t) \<le> n mod 2 ^ 32"
    "length (io_target t) < n mod 2 ^ 32 \<longrightarrow> rest (io_system t) = []"
    using o calm(2) [of "io_system t"] f by (auto simp: read_outcome_def)
  obtain w' buffer where "t = f\<lparr>io_system := w', io_target := buffer\<rparr>" using o by (auto simp: read_outcome_def)
  then have desc: "file_desc t = d" by (simp add: f(1))
  have target: "io_target t = take (n mod 2 ^ 32) (rest w2)" using bytes by (cases "length (io_target t) < n mod 2 ^ 32") auto
  obtain w3 where close: "sys_close sys d (io_system t) = (Inr (), w3)" using assms(8) [of "io_system t"] by (metis prod.collapse)
  have size: "nat (int n mod 2 ^ 32) = n mod 2 ^ 32" by (metis nat_int of_nat_mod of_nat_numeral of_nat_power)
  have "File_Close sys (t\<lparr>io_target := io_target t\<rparr>) = (Inr (), t\<lparr>io_system := w3, file_state := CLOSED, file_desc := - 1\<rparr>)"
    using desc assms(3) close by (simp add: File_Close_def IsClosed_def bindM_def system_call_def file_closed_def returnM_def)
  then have "fst (SlurpFile sys filePath w) = Inr (io_target t @ drop (length (io_target t)) (replicate n CHR 0x00))"
    using assms(1,2,3,4) r m size
    by (simp add: SlurpFile_def File_new_def File_Open_def IsOpened_def OPEN_READ_ONLY_def bindM_def system_call_def file_opened_def
        FileCloseSentinel_def File_Size_def File_GetStats_def on_system_def FileStats_Init_def static_call_def returnM_def
        assms(5) f_def)
  then show ?thesis unfolding target by (simp add: min.commute)
qed

theorem SlurpFile_reads_witness:
  "fst (SlurpFile sample_system ''f'' (''abc'', False)) = Inr ''abc''"
proof -
  have calm: "calm_input sample_system 3 sample_interrupts"
    by (simp add: calm_input_def sample_regular sample_interrupts_def MAX_INTERRUPTS_IGNORES_def)
  show ?thesis
    using SlurpFile_reads [where sys = sample_system and filePath = "''f''" and w = "(''abc'', False)" and n = 3,
        OF _ _ _ _ _ sample_regular(1) calm]
    by (simp add: sample_system_def)
qed

section \<open>A tree of directories and links\<close>

text \<open>Links are entries with the number and the target of their file; a new file has a number greater than all others.\<close>

type_synonym tree_links = "(string \<times> nat \<times> string) list"

definition next_file :: "tree_links \<Rightarrow> nat" where
  "next_file ls = Suc (fold (\<lambda>(p, n, d). max n) ls 0)"

definition tree_symlink :: "string \<Rightarrow> string \<Rightarrow> tree_links \<Rightarrow> (errno + unit) \<times> tree_links" where
  "tree_symlink dest path ls = (if map_of ls path = None then (Inr (), (path, next_file ls, dest) # ls) else (Inl EEXIST, ls))"

definition tree_rename :: "string \<Rightarrow> string \<Rightarrow> tree_links \<Rightarrow> (errno + unit) \<times> tree_links" where
  "tree_rename a b ls = (case map_of ls a of
     None \<Rightarrow> (Inl ENOENT, ls)
   | Some f \<Rightarrow> if map_of ls b = Some f then (Inr (), ls) else (Inr (), (b, f) # filter (\<lambda>(p, _). p \<noteq> a) ls))"

definition tree_unlink :: "string \<Rightarrow> tree_links \<Rightarrow> (errno + unit) \<times> tree_links" where
  "tree_unlink a ls = (if map_of ls a = None then (Inl ENOENT, ls) else (Inr (), filter (\<lambda>(p, _). p \<noteq> a) ls))"

definition on_links :: "(tree_links \<Rightarrow> 'x \<times> tree_links) \<Rightarrow> tree_links \<times> string set \<Rightarrow> 'x \<times> tree_links \<times> string set" where
  "on_links f w = (case f (fst w) of (r, ls) \<Rightarrow> (r, ls, snd w))"

definition tree_system :: "(tree_links \<times> string set) System" where
  "tree_system = \<lparr>
     sys_open = (\<lambda>path flags m w. (Inl ENOENT, w)),
     sys_close = (\<lambda>d w. (Inr (), w)),
     sys_fsync = (\<lambda>d w. (Inr (), w)),
     sys_read = (\<lambda>d n w. (Inr [], w)),
     sys_write = (\<lambda>d bytes w. (Inr (length bytes), w)),
     sys_lseek = (\<lambda>d pos m w. (Inr pos, w)),
     sys_stat = (\<lambda>follow path w. if path \<in> snd w then (Inr \<lparr>st_size = 0, st_kind = DIRECTORY\<rparr>, w) else (Inl ENOENT, w)),
     sys_rename = (\<lambda>a b. on_links (tree_rename a b)),
     sys_unlink = (\<lambda>path. on_links (tree_unlink path)),
     sys_symlink = (\<lambda>dest path. on_links (tree_symlink dest path)),
     sys_readlink = (\<lambda>path n w. case map_of (fst w) path of None \<Rightarrow> (Inl ENOENT, w) | Some (i, dest) \<Rightarrow> (Inr (take n dest), w)),
     sys_getcwd = (\<lambda>n w. if length ''/home'' < n then (Inr ''/home'', w) else (Inl ERANGE, w)),
     sys_mkdir = (\<lambda>path m w. if path \<in> snd w then (Inl EEXIST, w) else (Inr (), fst w, insert path (snd w)))\<rparr>"

lemma fold_max_ge: "(x :: nat) \<le> fold (\<lambda>(p, n, d). max n) ls x"
  by (induction ls arbitrary: x) (auto intro: order.trans [OF max.cobounded2])

lemma next_file_greater:
  assumes "(p, n, d) \<in> set ls"
  shows "n < next_file ls"
proof -
  have "n \<le> fold (\<lambda>(p, n, d). max n) ls x" for x
    using assms
  proof (induction ls arbitrary: x)
    case (Cons l ls)
    show ?case
    proof (cases "l = (p, n, d)")
      case True
      then show ?thesis using fold_max_ge [of "max n x" ls] by simp
    next
      case False
      then show ?thesis using Cons by (cases l) auto
    qed
  qed simp
  then show ?thesis by (simp add: next_file_def less_Suc_eq_le)
qed

lemma next_file_new: "(next_file ls, d) \<notin> ran (map_of ls)"
proof
  assume "(next_file ls, d) \<in> ran (map_of ls)"
  then obtain p where "map_of ls p = Some (next_file ls, d)" by (auto simp: ran_def)
  then have "(p, next_file ls, d) \<in> set ls" by (rule map_of_SomeD)
  then show False using next_file_greater by blast
qed

lemma map_of_removed: "map_of (filter (\<lambda>(p, _). p \<noteq> a) ls) = (map_of ls)(a := None)"
  by (induction ls) (auto simp: fun_eq_iff)

definition tree_at :: "tree_links \<times> string set \<Rightarrow> string \<Rightarrow> string option" where "tree_at w q = Some q"
definition tree_files :: "tree_links \<times> string set \<Rightarrow> string \<rightharpoonup> nat \<times> string" where "tree_files w = map_of (fst w)"
definition tree_target :: "tree_links \<times> string set \<Rightarrow> nat \<times> string \<rightharpoonup> string" where "tree_target w f = Some (snd f)"
definition tree_dir :: "tree_links \<times> string set \<Rightarrow> string \<Rightarrow> string option" where
  "tree_dir w q = (if q \<in> snd w then Some q else None)"

lemma tree_calls:
  "sys_symlink tree_system d l w = on_links (tree_symlink d l) w" "sys_rename tree_system a b w = on_links (tree_rename a b) w"
  "sys_unlink tree_system a w = on_links (tree_unlink a) w"
  by (simp_all add: tree_system_def)

lemma tree_links: "posix_links tree_system tree_at tree_files tree_target"
  unfolding posix_links_def
proof (intro conjI allI)
  fix d l :: string and w :: "tree_links \<times> string set"
  let ?i = "(next_file (fst w), d)"
  let ?w' = "((l, next_file (fst w), d) # fst w, snd w)"
  show "case sys_symlink tree_system d l w of
        (Inr u, w') \<Rightarrow> \<exists>e i. tree_at w l = Some e \<and> tree_files w e = None \<and> i \<notin> ran (tree_files w) \<and>
          tree_files w' = (tree_files w)(e \<mapsto> i) \<and> tree_target w' = (tree_target w)(i \<mapsto> d) \<and>
          (\<forall>q x. tree_at w q = Some x \<longrightarrow> tree_at w' q = Some x)
      | (Inl x, w') \<Rightarrow> tree_at w' = tree_at w \<and> tree_files w' = tree_files w \<and> tree_target w' = tree_target w \<and>
          (x = EEXIST \<longrightarrow> (\<exists>e. tree_at w l = Some e \<and> tree_files w e \<noteq> None))"
  proof (cases "map_of (fst w) l = None")
    case True
    then have "sys_symlink tree_system d l w = (Inr (), ?w')" by (simp add: tree_calls on_links_def tree_symlink_def)
    moreover have "tree_target ?w' = (tree_target w)(?i \<mapsto> d)" by (simp add: tree_target_def fun_eq_iff)
    moreover have "?i \<notin> ran (tree_files w)" using next_file_new [of "fst w" d] by (simp add: tree_files_def)
    ultimately show ?thesis using True by (auto simp: tree_at_def tree_files_def)
  next
    case False
    then have "sys_symlink tree_system d l w = (Inl EEXIST, w)" by (simp add: tree_calls on_links_def tree_symlink_def)
    then show ?thesis using False by (simp add: tree_at_def tree_files_def)
  qed
next
  fix a b :: string and w :: "tree_links \<times> string set"
  show "case sys_rename tree_system a b w of
        (Inr u, w') \<Rightarrow> \<forall>ea i. tree_at w a = Some ea \<and> tree_files w ea = Some i \<and> tree_target w i \<noteq> None \<longrightarrow>
          (\<exists>eb. tree_at w b = Some eb \<and>
            tree_files w' = (if tree_files w eb = Some i then tree_files w else (tree_files w)(eb \<mapsto> i, ea := None)) \<and>
            (\<forall>j\<in>ran (tree_files w'). tree_target w' j = tree_target w j))
      | (Inl x, w') \<Rightarrow> tree_at w' = tree_at w \<and> tree_files w' = tree_files w \<and> tree_target w' = tree_target w"
  proof (cases "map_of (fst w) a")
    case None
    then show ?thesis by (simp add: tree_calls on_links_def tree_rename_def)
  next
    case (Some f)
    show ?thesis
    proof (cases "map_of (fst w) b = Some f")
      case True
      then show ?thesis using Some by (simp add: tree_calls on_links_def tree_rename_def tree_at_def tree_files_def)
    next
      case False
      then have "sys_rename tree_system a b w = (Inr (), (b, f) # filter (\<lambda>(p, _). p \<noteq> a) (fst w), snd w)"
        using Some by (simp add: tree_calls on_links_def tree_rename_def)
      moreover have "a \<noteq> b" using Some False by auto
      ultimately show ?thesis
        using Some False by (auto simp: tree_at_def tree_files_def map_of_removed fun_upd_twist tree_target_def)
    qed
  qed
next
  fix a :: string and w :: "tree_links \<times> string set"
  show "case sys_unlink tree_system a w of
        (Inr u, w') \<Rightarrow> \<forall>e i. tree_at w a = Some e \<and> tree_files w e = Some i \<and> tree_target w i \<noteq> None \<longrightarrow>
          tree_files w' = (tree_files w)(e := None) \<and> (\<forall>j\<in>ran (tree_files w'). tree_target w' j = tree_target w j)
      | (Inl x, w') \<Rightarrow> tree_at w' = tree_at w \<and> tree_files w' = tree_files w \<and> tree_target w' = tree_target w"
    by (cases "map_of (fst w) a = None")
      (simp_all add: tree_calls on_links_def tree_unlink_def tree_at_def tree_files_def map_of_removed tree_target_def)
qed

lemma tree_dirs: "posix_dirs tree_system tree_dir snd"
  by (auto simp: posix_dirs_def tree_system_def tree_dir_def fun_eq_iff)

lemma tree_made:
  assumes "tree_dir v a \<noteq> None" "tree_dir v b \<noteq> None" "snd v = D \<union> {i. tree_dir v a = Some i \<or> tree_dir v b = Some i}"
  shows "snd v = insert a (insert b D)"
proof -
  have d: "tree_dir v q = Some i \<longleftrightarrow> q \<in> snd v \<and> i = q" for q i by (auto simp: tree_dir_def)
  have "a \<in> snd v" "b \<in> snd v" using assms(1,2) by (simp_all add: tree_dir_def split: if_splits)
  then have "{i. tree_dir v a = Some i \<or> tree_dir v b = Some i} = {a, b}" unfolding d by blast
  then show ?thesis using assms(3) by (simp add: insert_commute)
qed

lemma tree_cwd: "answers_cwd tree_system ''/home''"
  by (simp add: answers_cwd_def tree_system_def)

theorem AbsoluteFilePath_pads_witness:
  "\<exists>m>0. fst (AbsoluteFilePath_cwd tree_system [] w) = Inr (''/home'' @ replicate m CHR 0x00)"
  using AbsoluteFilePath_pads [OF tree_cwd, of w "[]"] by auto


theorem CreatePath_makes_witness:
  "case CreatePath tree_system \<lparr>parts = [''a'', ''b''], absolute = True\<rparr> 493 ([], {''/a''}) of
     (Inr r, w') \<Rightarrow> r \<and> snd w' = {''/a'', ''/a/b''}
   | (Inl e, w') \<Rightarrow> False"
proof -
  have p: "prefix_paths \<lparr>parts = [''a'', ''b''], absolute = True\<rparr> = [''/a'', ''/a/b'']" by code_simp
  have r: "fst (CreatePath tree_system \<lparr>parts = [''a'', ''b''], absolute = True\<rparr> 493 ([], {''/a''})) = Inr True" by code_simp
  define w :: "tree_links \<times> string set" where "w = ([], {''/a''})"
  obtain w' where run: "CreatePath tree_system \<lparr>parts = [''a'', ''b''], absolute = True\<rparr> 493 w = (Inr True, w')"
    using r unfolding w_def [symmetric] by (metis prod.collapse)
  have "tree_dir w' ''/a'' \<noteq> None" "tree_dir w' ''/a/b'' \<noteq> None"
    "snd w' = snd w \<union> {i. tree_dir w' ''/a'' = Some i \<or> tree_dir w' ''/a/b'' = Some i}"
    using CreatePath_makes [OF tree_dirs, where p = "\<lparr>parts = [''a'', ''b''], absolute = True\<rparr>" and m = 493 and w = w]
    unfolding run p by (simp_all only: prod.case sum.case list.set bex_simps ball_simps) auto
  then have "snd w' = insert ''/a'' (insert ''/a/b'' (snd w))" by (rule tree_made)
  then have "snd w' = {''/a'', ''/a/b''}" unfolding w_def snd_conv by blast
  then show ?thesis using run by (simp add: w_def)
qed

end
