(* ===== verification/Record_Prototype.thy ===== *)
theory Record_Prototype
  imports Xtl_Prelude
begin

text \<open>
  \<^verbatim>\<open>plain/FieldType.hpp\<close>, \<^verbatim>\<open>plain/Field.hpp\<close>, \<^verbatim>\<open>plain/RecordPrototype\<close>, \<^verbatim>\<open>plain/RecordPrototypeBuilder\<close>: the types of fields, the
  layouts of records and their builder. What the code prints on the standard error stream is a list of \<open>warning\<close>s.
\<close>

lemma unat_plus_one:
  fixes a b :: "'a::len word"
  assumes "a < b"
  shows "unat (a + 1) = Suc (unat a)"
proof -
  have "unat b < 2 ^ LENGTH('a)" by (rule unsigned_less)
  moreover have "unat a < unat b" using assms by (simp add: word_less_nat_alt)
  ultimately have "Suc (unat a) < 2 ^ LENGTH('a)" by linarith
  then show ?thesis by (subst unat_add_lem [THEN iffD1]) auto
qed

section \<open>Types of fields\<close>

text \<open>A prototype, with its fields and their types, which may be prototypes again. The selectors are the members.\<close>

datatype FieldType =
    FieldType_CHAR | FieldType_INT_8 | FieldType_UINT_8 | FieldType_INT_16 | FieldType_UINT_16
  | FieldType_INT_32 | FieldType_UINT_32 | FieldType_INT_64 | FieldType_UINT_64 | FieldType_FLOAT | FieldType_DOUBLE
  | FieldType_CHARS UINT_32
  | FieldType_STRUCT RecordPrototype
  | FieldType_STRUCT_TUPLE UINT_32 RecordPrototype
and Field = Field (Field_Name: string) (Field_Type: FieldType) (Field_Offset: UINT_32)
and RecordPrototype = RecordPrototype (rp_name: string) (rp_size: UINT_32) (rp_alignment: UINT_32)
      (rp_fields: "Field list") (rp_defaultValue: string)

definition AlignedSize :: "RecordPrototype \<Rightarrow> UINT_32" where
  "AlignedSize p = ((rp_size p - 1) div rp_alignment p + 1) * rp_alignment p"

fun FieldType_Alignment :: "FieldType \<Rightarrow> UINT_32" where
  "FieldType_Alignment FieldType_CHAR = 1"
| "FieldType_Alignment FieldType_INT_8 = 1"
| "FieldType_Alignment FieldType_UINT_8 = 1"
| "FieldType_Alignment FieldType_INT_16 = 2"
| "FieldType_Alignment FieldType_UINT_16 = 2"
| "FieldType_Alignment FieldType_INT_32 = 4"
| "FieldType_Alignment FieldType_UINT_32 = 4"
| "FieldType_Alignment FieldType_INT_64 = 8"
| "FieldType_Alignment FieldType_UINT_64 = 8"
| "FieldType_Alignment FieldType_FLOAT = 4"
| "FieldType_Alignment FieldType_DOUBLE = 8"
| "FieldType_Alignment (FieldType_CHARS capacity) = 1"
| "FieldType_Alignment (FieldType_STRUCT p) = rp_alignment p"
| "FieldType_Alignment (FieldType_STRUCT_TUPLE capacity p) = rp_alignment p"

fun FieldType_Size :: "FieldType \<Rightarrow> UINT_32" where
  "FieldType_Size (FieldType_CHARS capacity) = capacity"
| "FieldType_Size (FieldType_STRUCT p) = rp_size p"
| "FieldType_Size (FieldType_STRUCT_TUPLE capacity p) = capacity * AlignedSize p"
| "FieldType_Size t = FieldType_Alignment t"

section \<open>Prototypes\<close>

datatype warning =
    AddingAtNotDivisibleOffset string UINT_32 string UINT_32
  | AddingToReleased string
  | FinishingReleased

datatype plain_error =
    Undefined
  | DoesNotReturn
  | FieldSizeMismatch string string UINT_32 UINT_32
  | NoSuchField string string
  | AssignmentOfDifferentPrototype
  | InvalidPrototypeInAssignment
  | RecordSizeIsZero
  | SizeIsNotMultiple
  | StreamError

definition Field_Size :: "Field \<Rightarrow> UINT_32" where "Field_Size f = FieldType_Size (Field_Type f)"

definition RecordPrototype_new :: "string \<Rightarrow> RecordPrototype" where
  "RecordPrototype_new name = RecordPrototype name 0 1 [] []"

definition FieldsCount :: "RecordPrototype \<Rightarrow> UINT_32" where "FieldsCount p = of_nat (length (rp_fields p))"

definition AddField :: "string \<Rightarrow> FieldType \<Rightarrow> RecordPrototype \<Rightarrow> warning list \<times> RecordPrototype" where
  "AddField fieldName fieldType p =
     (let al = FieldType_Alignment fieldType;
          bad = rp_size p mod al \<noteq> 0;
          n = rp_size p + FieldType_Size fieldType
      in (if bad then [AddingAtNotDivisibleOffset fieldName al (rp_name p) (rp_size p)] else [],
          RecordPrototype (rp_name p) n
            (if \<not> bad \<and> rp_alignment p < al then al else rp_alignment p)
            (rp_fields p @ [Field fieldName fieldType (rp_size p)])
            (resize (unat n) CHR 0x00 (rp_defaultValue p))))"

definition GetField :: "RecordPrototype \<Rightarrow> UINT_32 \<Rightarrow> Field option" where
  "GetField p i = (if unat i < length (rp_fields p) then Some (rp_fields p ! unat i) else None)"

fun find_field :: "string \<Rightarrow> string \<Rightarrow> UINT_32 \<Rightarrow> UINT_32 \<Rightarrow> Field list \<Rightarrow> plain_error + UINT_32" where
  "find_field protoName fieldName fieldSize i [] = Inl (NoSuchField protoName fieldName)"
| "find_field protoName fieldName fieldSize i (f # fs) =
     (if Field_Name f = fieldName then
        if Field_Size f \<noteq> fieldSize then Inl (FieldSizeMismatch protoName fieldName (Field_Size f) fieldSize) else Inr i
      else find_field protoName fieldName fieldSize (i + 1) fs)"

definition GetFieldIndex :: "RecordPrototype \<Rightarrow> string \<Rightarrow> UINT_32 \<Rightarrow> plain_error + UINT_32" where
  "GetFieldIndex p fieldName fieldSize = find_field (rp_name p) fieldName fieldSize 0 (rp_fields p)"

section \<open>The builder\<close>

text \<open>\<open>pb_prototype\<close> is empty once the prototype has been released; \<open>pb_stderr\<close> is what has been printed.\<close>

record RecordPrototypeBuilder =
  pb_prototype :: "RecordPrototype option"
  pb_stderr :: "warning list"

definition RecordPrototypeBuilder_new :: "string \<Rightarrow> RecordPrototypeBuilder" where
  "RecordPrototypeBuilder_new name = \<lparr>pb_prototype = Some (RecordPrototype_new name), pb_stderr = []\<rparr>"

definition Finish :: "RecordPrototypeBuilder \<Rightarrow> RecordPrototype option \<times> RecordPrototypeBuilder" where
  "Finish b = (case pb_prototype b of
     None \<Rightarrow> (None, b\<lparr>pb_stderr := pb_stderr b @ [FinishingReleased]\<rparr>)
   | Some p \<Rightarrow> (Some p, b\<lparr>pb_prototype := None\<rparr>))"

definition Builder_AddField :: "string \<Rightarrow> FieldType \<Rightarrow> RecordPrototypeBuilder \<Rightarrow> RecordPrototypeBuilder" where
  "Builder_AddField fieldName fieldType b = (case pb_prototype b of
     None \<Rightarrow> b\<lparr>pb_stderr := pb_stderr b @ [AddingToReleased fieldName]\<rparr>
   | Some p \<Rightarrow> (case AddField fieldName fieldType p of
       (ws, p') \<Rightarrow> b\<lparr>pb_prototype := Some p', pb_stderr := pb_stderr b @ ws\<rparr>))"

definition AddField_CHAR :: "string \<Rightarrow> RecordPrototypeBuilder \<Rightarrow> RecordPrototypeBuilder" where
  "AddField_CHAR fieldName = Builder_AddField fieldName FieldType_CHAR"

definition AddField_INT_8 :: "string \<Rightarrow> RecordPrototypeBuilder \<Rightarrow> RecordPrototypeBuilder" where
  "AddField_INT_8 fieldName = Builder_AddField fieldName FieldType_INT_8"

definition AddField_UINT_8 :: "string \<Rightarrow> RecordPrototypeBuilder \<Rightarrow> RecordPrototypeBuilder" where
  "AddField_UINT_8 fieldName = Builder_AddField fieldName FieldType_UINT_8"

definition AddField_INT_16 :: "string \<Rightarrow> RecordPrototypeBuilder \<Rightarrow> RecordPrototypeBuilder" where
  "AddField_INT_16 fieldName = Builder_AddField fieldName FieldType_INT_16"

definition AddField_UINT_16 :: "string \<Rightarrow> RecordPrototypeBuilder \<Rightarrow> RecordPrototypeBuilder" where
  "AddField_UINT_16 fieldName = Builder_AddField fieldName FieldType_UINT_16"

definition AddField_INT_32 :: "string \<Rightarrow> RecordPrototypeBuilder \<Rightarrow> RecordPrototypeBuilder" where
  "AddField_INT_32 fieldName = Builder_AddField fieldName FieldType_INT_32"

definition AddField_UINT_32 :: "string \<Rightarrow> RecordPrototypeBuilder \<Rightarrow> RecordPrototypeBuilder" where
  "AddField_UINT_32 fieldName = Builder_AddField fieldName FieldType_UINT_32"

definition AddField_INT_64 :: "string \<Rightarrow> RecordPrototypeBuilder \<Rightarrow> RecordPrototypeBuilder" where
  "AddField_INT_64 fieldName = Builder_AddField fieldName FieldType_INT_64"

definition AddField_UINT_64 :: "string \<Rightarrow> RecordPrototypeBuilder \<Rightarrow> RecordPrototypeBuilder" where
  "AddField_UINT_64 fieldName = Builder_AddField fieldName FieldType_UINT_64"

definition AddField_FLOAT :: "string \<Rightarrow> RecordPrototypeBuilder \<Rightarrow> RecordPrototypeBuilder" where
  "AddField_FLOAT fieldName = Builder_AddField fieldName FieldType_FLOAT"

definition AddField_DOUBLE :: "string \<Rightarrow> RecordPrototypeBuilder \<Rightarrow> RecordPrototypeBuilder" where
  "AddField_DOUBLE fieldName = Builder_AddField fieldName FieldType_DOUBLE"

definition AddField_CHARS :: "string \<Rightarrow> UINT_32 \<Rightarrow> RecordPrototypeBuilder \<Rightarrow> RecordPrototypeBuilder" where
  "AddField_CHARS fieldName capacity = Builder_AddField fieldName (FieldType_CHARS capacity)"

definition AddField_STRUCT :: "string \<Rightarrow> RecordPrototype \<Rightarrow> RecordPrototypeBuilder \<Rightarrow> RecordPrototypeBuilder" where
  "AddField_STRUCT fieldName p = Builder_AddField fieldName (FieldType_STRUCT p)"

definition AddField_STRUCT_TUPLE :: "string \<Rightarrow> UINT_32 \<Rightarrow> RecordPrototype \<Rightarrow> RecordPrototypeBuilder \<Rightarrow> RecordPrototypeBuilder" where
  "AddField_STRUCT_TUPLE fieldName capacity p = Builder_AddField fieldName (FieldType_STRUCT_TUPLE capacity p)"

definition build :: "string \<Rightarrow> (string \<times> FieldType) list \<Rightarrow> RecordPrototypeBuilder" where
  "build name specs = fold (\<lambda>(fieldName, fieldType). Builder_AddField fieldName fieldType) specs (RecordPrototypeBuilder_new name)"

section \<open>Layout\<close>

text \<open>The fields of a layout lie one behind the other, from the start of the record to its end.\<close>

fun laid_out :: "nat \<Rightarrow> Field list \<Rightarrow> nat \<Rightarrow> bool" where
  "laid_out start [] stop \<longleftrightarrow> start = stop"
| "laid_out start (f # fs) stop \<longleftrightarrow> unat (Field_Offset f) = start \<and> laid_out (start + unat (Field_Size f)) fs stop"

lemma laid_out_append: "laid_out a (fs @ gs) c \<longleftrightarrow> (\<exists>b. laid_out a fs b \<and> laid_out b gs c)"
  by (induction fs arbitrary: a) auto

lemma laid_out_end: "laid_out a fs b \<Longrightarrow> b = a + sum_list (map (unat \<circ> Field_Size) fs)"
  by (induction fs arbitrary: a) fastforce+

lemma laid_out_within:
  "laid_out a fs b \<Longrightarrow> f \<in> set fs \<Longrightarrow> a \<le> unat (Field_Offset f) \<and> unat (Field_Offset f) + unat (Field_Size f) \<le> b"
proof (induction fs arbitrary: a)
  case (Cons g fs)
  have "a + unat (Field_Size g) \<le> b" using Cons.prems(1) laid_out_end by fastforce
  then show ?case using Cons by fastforce
qed simp

lemma laid_out_disjoint:
  assumes "laid_out a fs b" "i < j" "j < length fs"
  shows "unat (Field_Offset (fs ! i)) + unat (Field_Size (fs ! i)) \<le> unat (Field_Offset (fs ! j))"
  using assms
proof (induction fs arbitrary: a i j)
  case (Cons g fs)
  then show ?case
  proof (cases i)
    case 0
    then have "fs ! (j - 1) \<in> set fs" using Cons.prems by simp
    then show ?thesis using 0 Cons.prems laid_out_within [of "a + unat (Field_Size g)" fs b] by (simp add: nth_Cons')
  next
    case (Suc k)
    then show ?thesis using Cons.IH [of "a + unat (Field_Size g)" k "j - 1"] Cons.prems by (simp add: nth_Cons')
  qed
qed simp

text \<open>Alignments are powers of two. A prototype is sound when its fields are laid out over its size.\<close>

definition power_of_two :: "UINT_32 \<Rightarrow> bool" where "power_of_two w \<longleftrightarrow> (\<exists>k < 32. unat w = 2 ^ k)"

definition sound :: "RecordPrototype \<Rightarrow> bool" where
  "sound p \<longleftrightarrow> laid_out 0 (rp_fields p) (unat (rp_size p)) \<and> rp_defaultValue p = replicate (unat (rp_size p)) CHR 0x00 \<and>
     power_of_two (rp_alignment p)"

lemma sound_new: "sound (RecordPrototype_new name)"
  by (auto simp: sound_def RecordPrototype_new_def power_of_two_def intro: exI [of _ 0])

lemma resize_replicated: "m \<le> n \<Longrightarrow> resize n d (replicate m d) = replicate n d"
  by (simp add: resize_def flip: replicate_add)

lemma sound_AddField:
  assumes "sound p" "power_of_two (FieldType_Alignment t)" "unat (rp_size p) + unat (FieldType_Size t) < 2 ^ 32"
  shows "sound (snd (AddField name t p))"
proof -
  have n: "unat (rp_size p + FieldType_Size t) = unat (rp_size p) + unat (FieldType_Size t)"
    using assms(3) by (simp add: unat_add_lem [THEN iffD1])
  show ?thesis
    using assms n by (auto simp: sound_def AddField_def Let_def laid_out_append Field_Size_def resize_replicated)
qed

text \<open>A prototype is aligned when nothing was printed about it: each field is at an offset that its alignment divides, and its
  alignment divides that of the record.\<close>

definition aligned :: "RecordPrototype \<Rightarrow> bool" where
  "aligned p \<longleftrightarrow> (\<forall>f \<in> set (rp_fields p).
     unat (FieldType_Alignment (Field_Type f)) dvd unat (Field_Offset f) \<and>
     unat (FieldType_Alignment (Field_Type f)) dvd unat (rp_alignment p))"

lemma power_of_two_dvd: "power_of_two a \<Longrightarrow> power_of_two b \<Longrightarrow> a \<le> b \<Longrightarrow> unat a dvd unat b"
  by (auto simp: power_of_two_def word_le_nat_alt le_imp_power_dvd)

lemma power_of_two_pos: "power_of_two a \<Longrightarrow> 0 < unat a"
  by (auto simp: power_of_two_def)

lemma AddField_aligned:
  assumes "aligned p" "sound p" "power_of_two (FieldType_Alignment t)" "AddField name t p = ([], p')"
  shows "aligned p'"
proof -
  let ?al = "FieldType_Alignment t"
  have p: "power_of_two (rp_alignment p)" using assms(2) by (simp add: sound_def)
  have bad: "rp_size p mod ?al = 0" using assms(4) by (auto simp: AddField_def Let_def split: if_splits)
  then have "unat ?al dvd unat (rp_size p)" by (metis dvd_eq_mod_eq_0 unat_0 unat_mod)
  moreover have "p' = RecordPrototype (rp_name p) (rp_size p + FieldType_Size t) (if rp_alignment p < ?al then ?al else rp_alignment p)
      (rp_fields p @ [Field name t (rp_size p)]) (resize (unat (rp_size p + FieldType_Size t)) CHR 0x00 (rp_defaultValue p))"
    using assms(4) bad by (auto simp: AddField_def Let_def)
  moreover have "unat (rp_alignment p) dvd unat ?al" if "rp_alignment p < ?al"
    using power_of_two_dvd [OF p assms(3)] that by simp
  moreover have "unat ?al dvd unat (rp_alignment p)" if "\<not> rp_alignment p < ?al"
    using power_of_two_dvd [OF assms(3) p] that by simp
  ultimately show ?thesis using assms(1) unfolding aligned_def by (fastforce intro: dvd_trans)
qed

text \<open>\<open>AlignedSize\<close> is the first multiple of the alignment that is not below the size.\<close>

lemma AlignedSize_value:
  assumes "power_of_two (rp_alignment p)" "0 < unat (rp_size p)" "unat (rp_size p) \<le> 2 ^ 31"
  shows "unat (AlignedSize p) = ((unat (rp_size p) - 1) div unat (rp_alignment p) + 1) * unat (rp_alignment p)"
proof -
  obtain k where k: "k < 32" "unat (rp_alignment p) = 2 ^ k" using assms(1) by (auto simp: power_of_two_def)
  let ?s = "unat (rp_size p)" and ?a = "unat (rp_alignment p)"
  have s1: "unat (rp_size p - 1) = ?s - 1" using assms(2) by (simp add: unat_minus_one unat_gt_0)
  have "(2::nat) ^ 31 = 2 ^ (31 - k) * 2 ^ k" using k(1) by (simp flip: power_add)
  moreover have "?s - 1 < 2 ^ 31" using assms(2,3) by (meson diff_less less_le_trans zero_less_one)
  ultimately have "?s - 1 < 2 ^ (31 - k) * ?a" using k(2) by (simp only: )
  then have d: "(?s - 1) div ?a < 2 ^ (31 - k)" by (simp add: less_mult_imp_div_less)
  then have "((?s - 1) div ?a + 1) * ?a \<le> 2 ^ (31 - k) * 2 ^ k" using k(2) by (intro mult_le_mono) auto
  then have le: "((?s - 1) div ?a + 1) * ?a \<le> 2 ^ 31" using \<open>2 ^ 31 = _\<close> by simp
  have "(?s - 1) div ?a + 1 \<le> 2 ^ 31" 
  proof -
    have "(2::nat) ^ (31 - k) \<le> 2 ^ 31" by (rule power_increasing) simp_all
    then show ?thesis using d by linarith
  qed
  then have "unat ((rp_size p - 1) div rp_alignment p + 1) = (?s - 1) div ?a + 1"
    by (subst unat_add_lem [THEN iffD1]) (simp_all add: unat_div s1)
  then show ?thesis using le unfolding AlignedSize_def by (subst unat_mult_lem [THEN iffD1]) simp_all
qed

lemma AlignedSize_empty:
  assumes "power_of_two (rp_alignment p)" "rp_size p = 0"
  shows "AlignedSize p = 0"
proof -
  obtain k where k: "k < 32" "unat (rp_alignment p) = 2 ^ k" using assms(1) by (auto simp: power_of_two_def)
  let ?q = "((2::nat) ^ 32 - 1) div 2 ^ k + 1"
  have two: "(2::nat) ^ 32 = 2 ^ (32 - k) * 2 ^ k" using k(1) by (simp flip: power_add)
  have "(2 ^ (32 - k) * 2 ^ k - 1) div (2 ^ k) = (2::nat) ^ (32 - k) - 1"
    by (rule div_nat_eqI) (simp_all add: algebra_simps diff_le_mono2)
  then have q: "?q * 2 ^ k = 2 ^ 32" using two by (simp add: algebra_simps)
  have "AlignedSize p = (- 1 div rp_alignment p + 1) * rp_alignment p" by (simp add: AlignedSize_def assms(2))
  also have "\<dots> = of_nat ((unat (- 1 div rp_alignment p) + 1) * unat (rp_alignment p))" by (simp add: algebra_simps)
  also have "(unat (- 1 div rp_alignment p) + 1) * unat (rp_alignment p) = ?q * 2 ^ k"
    by (simp add: unat_div k(2) unsigned_minus_1_eq_mask mask_eq_exp_minus_1)
  also have "(of_nat (?q * 2 ^ k) :: UINT_32) = 0" by (simp only: q) simp
  finally show ?thesis .
qed

section \<open>What the builder makes\<close>

lemma build_snoc: "build name (specs @ [(n, t)]) = Builder_AddField n t (build name specs)"
  by (simp add: build_def)

definition total_size :: "(string \<times> FieldType) list \<Rightarrow> nat" where
  "total_size specs = sum_list (map (unat \<circ> FieldType_Size \<circ> snd) specs)"

lemma build_makes:
  assumes "\<forall>(n, t) \<in> set specs. power_of_two (FieldType_Alignment t)" "total_size specs < 2 ^ 32"
  shows "\<exists>p ws. build name specs = \<lparr>pb_prototype = Some p, pb_stderr = ws\<rparr> \<and> sound p \<and> (ws = [] \<longrightarrow> aligned p) \<and>
    map (\<lambda>f. (Field_Name f, Field_Type f)) (rp_fields p) = specs \<and> unat (rp_size p) = total_size specs \<and> rp_name p = name"
  using assms
proof (induction specs rule: rev_induct)
  case Nil
  show ?case using sound_new by (simp add: build_def RecordPrototypeBuilder_new_def RecordPrototype_new_def total_size_def aligned_def)
next
  case (snoc x specs)
  obtain n t where x: "x = (n, t)" by fastforce
  obtain p ws where p: "build name specs = \<lparr>pb_prototype = Some p, pb_stderr = ws\<rparr>" "sound p" "ws = [] \<longrightarrow> aligned p"
    "map (\<lambda>f. (Field_Name f, Field_Type f)) (rp_fields p) = specs" "unat (rp_size p) = total_size specs" "rp_name p = name"
    using snoc by (auto simp: total_size_def)
  have le: "unat (rp_size p) + unat (FieldType_Size t) < 2 ^ 32" using snoc.prems(2) p(5) by (simp add: x total_size_def)
  obtain vs p' where q: "AddField n t p = (vs, p')" by fastforce
  have al: "power_of_two (FieldType_Alignment t)" using snoc.prems(1) by (simp add: x)
  have "sound p'" using sound_AddField [OF p(2) al le, of n] q by simp
  moreover have "rp_fields p' = rp_fields p @ [Field n t (rp_size p)]" "rp_size p' = rp_size p + FieldType_Size t" "rp_name p' = name"
    using q p(6) by (auto simp: AddField_def Let_def)
  moreover have "ws @ vs = [] \<longrightarrow> aligned p'" using AddField_aligned [OF _ p(2) al, of n p'] p(3) q by auto
  moreover have "unat (rp_size p + FieldType_Size t) = total_size (specs @ [x])"
    using le p(5) by (simp add: x total_size_def unat_add_lem [THEN iffD1])
  ultimately show ?case using p q unfolding x by (auto simp: build_snoc Builder_AddField_def)
qed

text \<open>C35. A prototype has the fields it was built from, one behind the other over its size. When the builder has printed nothing,
  every field is aligned, in a single record and in the elements of a tuple of records.\<close>

theorem Builder_layout:
  assumes "\<forall>(n, t) \<in> set specs. power_of_two (FieldType_Alignment t)" "total_size specs \<le> 2 ^ 31"
  shows "case Finish (build name specs) of
      (Some p, b) \<Rightarrow> map (\<lambda>f. (Field_Name f, Field_Type f)) (rp_fields p) = specs \<and> laid_out 0 (rp_fields p) (total_size specs) \<and>
        (pb_stderr b = [] \<longrightarrow> (\<forall>f \<in> set (rp_fields p). \<forall>k.
           (k * unat (AlignedSize p) + unat (Field_Offset f)) mod unat (FieldType_Alignment (Field_Type f)) = 0))
    | (None, b) \<Rightarrow> False"
proof -
  obtain p ws where p: "build name specs = \<lparr>pb_prototype = Some p, pb_stderr = ws\<rparr>" "sound p" "ws = [] \<longrightarrow> aligned p"
    "map (\<lambda>f. (Field_Name f, Field_Type f)) (rp_fields p) = specs" "unat (rp_size p) = total_size specs"
    using build_makes [OF assms(1), of name] assms(2) by auto
  have "unat (FieldType_Alignment (Field_Type f)) dvd k * unat (AlignedSize p) + unat (Field_Offset f)"
    if f: "ws = []" "f \<in> set (rp_fields p)" for f k
  proof -
    have a: "unat (FieldType_Alignment (Field_Type f)) dvd unat (Field_Offset f)"
      "unat (FieldType_Alignment (Field_Type f)) dvd unat (rp_alignment p)"
      using f p(3) by (auto simp: aligned_def)
    have "unat (rp_alignment p) dvd unat (AlignedSize p)"
    proof (cases "rp_size p = 0")
      case True
      then show ?thesis using AlignedSize_empty [of p] p(2) by (simp add: sound_def)
    next
      case False
      then show ?thesis using AlignedSize_value [of p] p(2) assms(2) unfolding sound_def by (metis dvd_triv_right p(5) unat_gt_0)
    qed
    then show ?thesis using a by (meson dvd_add dvd_mult dvd_trans)
  qed
  then show ?thesis using p by (auto simp: Finish_def sound_def)
qed

theorem Builder_layout_witness:
  "case Finish (build ''r'' [(''a'', FieldType_UINT_64), (''b'', FieldType_UINT_32), (''c'', FieldType_CHARS 3)]) of
     (Some p, b) \<Rightarrow> map (unat \<circ> Field_Offset) (rp_fields p) = [0, 8, 12] \<and> laid_out 0 (rp_fields p) 15 \<and>
       (5 * unat (AlignedSize p) + 8) mod 4 = 0
   | (None, b) \<Rightarrow> False"
proof -
  let ?specs = "[(''a'', FieldType_UINT_64), (''b'', FieldType_UINT_32), (''c'', FieldType_CHARS 3)]"
  have two: "power_of_two 1" "power_of_two 4" "power_of_two 8"
    by (auto simp: power_of_two_def intro: exI [of _ 0] exI [of _ 2] exI [of _ 3])
  have c: "case Finish (build ''r'' ?specs) of (Some p, b) \<Rightarrow> pb_stderr b = [] \<and>
     rp_fields p = [Field ''a'' FieldType_UINT_64 0, Field ''b'' FieldType_UINT_32 8, Field ''c'' (FieldType_CHARS 3) 12] | _ \<Rightarrow> False"
    by code_simp
  have t: "total_size ?specs = 15" by (simp add: total_size_def)
  show ?thesis
    using Builder_layout [of ?specs "''r''"] c two t by (auto split: prod.splits option.splits)
qed

end
