(* ===== verification/Plain_Records.thy ===== *)
theory Plain_Records
  imports Record_Prototype
begin

text \<open>
  \<^verbatim>\<open>plain/Record.hpp\<close>: records of plain data, referred to by typed and untyped pointers into a memory of blocks.
  A block is what one \<^verbatim>\<open>new char[]\<close> has allocated. An access outside of a block, or to a block that has been deleted, is the
  error \<open>Undefined\<close>, and so is \<^verbatim>\<open>memcpy\<close> between ranges that overlap.
\<close>

section \<open>Memory\<close>

record Memory =
  mem_blocks :: "nat \<Rightarrow> string option"
  mem_next :: nat

type_synonym ('z, 'a) plain_mth = "('z Memory_scheme, plain_error, 'a) mth"

text \<open>A pointer is a block and an offset in it; \<open>None\<close> is the null pointer.\<close>

type_synonym pointer = "(nat \<times> nat) option"

definition pointer_add :: "pointer \<Rightarrow> nat \<Rightarrow> pointer" where
  "pointer_add p n = map_option (\<lambda>(b, i). (b, i + n)) p"

definition new_block :: "string \<Rightarrow> ('z, nat) plain_mth" where
  "new_block bytes m =
     (Inr (mem_next m), m\<lparr>mem_blocks := (mem_blocks m)(mem_next m := Some bytes), mem_next := Suc (mem_next m)\<rparr>)"

definition delete_block :: "nat \<Rightarrow> ('z, unit) plain_mth" where
  "delete_block b m =
     (if mem_blocks m b = None then (Inl Undefined, m) else (Inr (), m\<lparr>mem_blocks := (mem_blocks m)(b := None)\<rparr>))"

definition load :: "pointer \<Rightarrow> nat \<Rightarrow> ('z, string) plain_mth" where
  "load p n m = (case p of None \<Rightarrow> (Inl Undefined, m) | Some (b, i) \<Rightarrow> (case mem_blocks m b of
     None \<Rightarrow> (Inl Undefined, m)
   | Some bytes \<Rightarrow> if i + n \<le> length bytes then (Inr (take n (drop i bytes)), m) else (Inl Undefined, m)))"

definition overwrite :: "nat \<Rightarrow> string \<Rightarrow> string \<Rightarrow> string" where
  "overwrite i new bytes = take i bytes @ new @ drop (i + length new) bytes"

definition store :: "pointer \<Rightarrow> string \<Rightarrow> ('z, unit) plain_mth" where
  "store p new m = (case p of None \<Rightarrow> (Inl Undefined, m) | Some (b, i) \<Rightarrow> (case mem_blocks m b of
     None \<Rightarrow> (Inl Undefined, m)
   | Some bytes \<Rightarrow> if i + length new \<le> length bytes then (Inr (), m\<lparr>mem_blocks := (mem_blocks m)(b := Some (overwrite i new bytes))\<rparr>)
       else (Inl Undefined, m)))"

definition memset :: "pointer \<Rightarrow> nat \<Rightarrow> ('z, unit) plain_mth" where
  "memset p n = store p (replicate n CHR 0x00)"

definition overlap :: "pointer \<Rightarrow> pointer \<Rightarrow> nat \<Rightarrow> bool" where
  "overlap p q n \<longleftrightarrow> (case (p, q) of (Some (b, i), Some (c, j)) \<Rightarrow> b = c \<and> i < j + n \<and> j < i + n | _ \<Rightarrow> False)"

definition memcpy :: "pointer \<Rightarrow> pointer \<Rightarrow> nat \<Rightarrow> ('z, unit) plain_mth" where
  "memcpy p q n = (if overlap p q n then throwM Undefined else bindM (load q n) (store p))"

section \<open>Streams\<close>

text \<open>A stream is what its \<^verbatim>\<open>Read\<close> or \<^verbatim>\<open>Write\<close> does. The state of a method that uses one is the stream and the memory.\<close>

type_synonym 'st in_stream = "nat \<Rightarrow> ('st, plain_error, string) mth"
type_synonym 'st out_stream = "string \<Rightarrow> ('st, plain_error, unit) mth"

definition on_stream :: "('st, 'e, 'a) mth \<Rightarrow> ('st \<times> 's, 'e, 'a) mth" where
  "on_stream m = (\<lambda>(st, s). case m st of (r, st') \<Rightarrow> (r, (st', s)))"

definition on_memory :: "('s, 'e, 'a) mth \<Rightarrow> ('st \<times> 's, 'e, 'a) mth" where
  "on_memory m = (\<lambda>(st, s). case m s of (r, s') \<Rightarrow> (r, (st, s')))"

definition read_into :: "'st in_stream \<Rightarrow> pointer \<Rightarrow> nat \<Rightarrow> ('st \<times> 'z Memory_scheme, plain_error, unit) mth" where
  "read_into rd p n = bindM (on_stream (rd n)) (\<lambda>bytes. on_memory (store p bytes))"

definition write_from :: "'st out_stream \<Rightarrow> pointer \<Rightarrow> nat \<Rightarrow> ('st \<times> 'z Memory_scheme, plain_error, unit) mth" where
  "write_from wr p n = bindM (on_memory (load p n)) (\<lambda>bytes. on_stream (wr bytes))"

section \<open>Untyped references\<close>

text \<open>A prototype does not change once it is built, so a pointer to one is its address and the prototype there.
  Pointers are equal when the addresses are.\<close>

type_synonym PrototypePtr = "nat \<times> RecordPrototype"

record RecordConstRef =
  ref_prototype :: PrototypePtr
  ref_data :: pointer

definition RecordConstRef_null :: "PrototypePtr \<Rightarrow> RecordConstRef" where
  "RecordConstRef_null p = \<lparr>ref_prototype = p, ref_data = None\<rparr>"

definition RecordConstRef_new :: "PrototypePtr \<Rightarrow> pointer \<Rightarrow> RecordConstRef" where
  "RecordConstRef_new p d = \<lparr>ref_prototype = p, ref_data = d\<rparr>"

definition prototype_size :: "PrototypePtr \<Rightarrow> nat" where "prototype_size p = unat (rp_size (snd p))"

definition Ref_Size :: "RecordConstRef \<Rightarrow> nat" where "Ref_Size r = prototype_size (ref_prototype r)"

definition IsNull :: "RecordConstRef \<Rightarrow> bool" where "IsNull r \<longleftrightarrow> ref_data r = None"

definition RecordRef_Clear :: "RecordConstRef \<Rightarrow> ('z, unit) plain_mth" where
  "RecordRef_Clear r = memset (ref_data r) (Ref_Size r)"

definition RecordRef_Assign :: "RecordConstRef \<Rightarrow> RecordConstRef \<Rightarrow> ('z, unit) plain_mth" where
  "RecordRef_Assign r q =
     (if fst (ref_prototype r) \<noteq> fst (ref_prototype q) then throwM AssignmentOfDifferentPrototype
      else memcpy (ref_data r) (ref_data q) (Ref_Size r))"

definition RecordRef_Read :: "'st in_stream \<Rightarrow> RecordConstRef \<Rightarrow> ('st \<times> 'z Memory_scheme, plain_error, unit) mth" where
  "RecordRef_Read rd r = read_into rd (ref_data r) (Ref_Size r)"

definition RecordRef_Write :: "'st out_stream \<Rightarrow> RecordConstRef \<Rightarrow> ('st \<times> 'z Memory_scheme, plain_error, unit) mth" where
  "RecordRef_Write wr r = write_from wr (ref_data r) (Ref_Size r)"

definition Initialize :: "RecordPrototype \<Rightarrow> pointer \<Rightarrow> ('z, unit) plain_mth" where
  "Initialize p d = (if rp_defaultValue p = [] then throwM Undefined else store d (take (unat (rp_size p)) (rp_defaultValue p)))"

text \<open>\<open>Swap\<close> exchanges what its first two references refer to, by assignments of references.\<close>

definition Swap :: "RecordConstRef \<times> RecordConstRef \<times> RecordConstRef \<Rightarrow> RecordConstRef \<times> RecordConstRef \<times> RecordConstRef" where
  "Swap = (\<lambda>(left, right, temp). let temp = left; left = right; right = temp in (left, right, temp))"

section \<open>Records\<close>

record PlainRecord =
  rec_prototype :: PrototypePtr
  rec_data :: nat

definition Record_new :: "PrototypePtr \<Rightarrow> ('z, PlainRecord) plain_mth" where
  "Record_new p = bindM (new_block (replicate (prototype_size p) CHR 0x00)) (\<lambda>b. returnM \<lparr>rec_prototype = p, rec_data = b\<rparr>)"

definition Record_destroy :: "PlainRecord \<Rightarrow> ('z, unit) plain_mth" where
  "Record_destroy r = delete_block (rec_data r)"

definition Record_ref :: "PlainRecord \<Rightarrow> RecordConstRef" where
  "Record_ref r = RecordConstRef_new (rec_prototype r) (Some (rec_data r, 0))"

definition Record_Clear :: "PlainRecord \<Rightarrow> ('z, unit) plain_mth" where
  "Record_Clear r = memset (Some (rec_data r, 0)) (prototype_size (rec_prototype r))"

definition Record_Assign :: "PlainRecord \<Rightarrow> RecordConstRef \<Rightarrow> ('z, unit) plain_mth" where
  "Record_Assign r q =
     (if fst (rec_prototype r) \<noteq> fst (ref_prototype q) then throwM AssignmentOfDifferentPrototype
      else memcpy (Some (rec_data r, 0)) (ref_data q) (prototype_size (rec_prototype r)))"

section \<open>Typed references\<close>

text \<open>\<^verbatim>\<open>RecordBase<RecordType>\<close>: the prototype belongs to the type and is an argument, \<open>P\<close>; a reference is the pointer to its data.\<close>

definition CheckPrototype :: "PrototypePtr \<Rightarrow> PrototypePtr \<Rightarrow> ('z, unit) plain_mth" where
  "CheckPrototype P p = (if fst P \<noteq> fst p then throwM InvalidPrototypeInAssignment else returnM ())"

definition ConstRef_of_ref :: "PrototypePtr \<Rightarrow> RecordConstRef \<Rightarrow> ('z, pointer) plain_mth" where
  "ConstRef_of_ref P r = bindM (CheckPrototype P (ref_prototype r)) (\<lambda>_. returnM (ref_data r))"

definition Ref_of_ref :: "PrototypePtr \<Rightarrow> RecordConstRef \<Rightarrow> ('z, pointer) plain_mth" where
  "Ref_of_ref P r = returnM (ref_data r)"

definition ConstRef_Write :: "PrototypePtr \<Rightarrow> 'st out_stream \<Rightarrow> pointer \<Rightarrow> ('st \<times> 'z Memory_scheme, plain_error, unit) mth" where
  "ConstRef_Write P wr d = write_from wr d (prototype_size P)"

definition Ref_Clear :: "PrototypePtr \<Rightarrow> pointer \<Rightarrow> ('z, unit) plain_mth" where
  "Ref_Clear P d = memset d (prototype_size P)"

definition Ref_Read :: "PrototypePtr \<Rightarrow> 'st in_stream \<Rightarrow> pointer \<Rightarrow> ('st \<times> 'z Memory_scheme, plain_error, unit) mth" where
  "Ref_Read P rd d = read_into rd d (prototype_size P)"

definition Ref_to_ref :: "PrototypePtr \<Rightarrow> pointer \<Rightarrow> RecordConstRef" where
  "Ref_to_ref P d = RecordConstRef_new P d"

definition Ref_assign :: "PrototypePtr \<Rightarrow> pointer \<Rightarrow> pointer \<Rightarrow> ('z, unit) plain_mth" where
  "Ref_assign P d q = (if d \<noteq> q then memcpy d q (prototype_size P) else returnM ())"

text \<open>A \<^verbatim>\<open>Rec\<close> owns its data. \<open>junk\<close> is what the new memory holds before anything is written to it.\<close>

definition Rec_new :: "PrototypePtr \<Rightarrow> ('z, nat) plain_mth" where
  "Rec_new P = new_block (replicate (prototype_size P) CHR 0x00)"

definition Rec_assign :: "PrototypePtr \<Rightarrow> nat \<Rightarrow> pointer \<Rightarrow> ('z, unit) plain_mth" where
  "Rec_assign P b q = (if Some (b, 0) \<noteq> q then memcpy (Some (b, 0)) q (prototype_size P) else returnM ())"

definition Rec_copy :: "PrototypePtr \<Rightarrow> string \<Rightarrow> nat \<Rightarrow> ('z, nat) plain_mth" where
  "Rec_copy P junk q = bindM (new_block junk) (\<lambda>b.
     bindM (catchM (Rec_assign P b (Some (q, 0))) (\<lambda>e. bindM (delete_block b) (\<lambda>_. throwM e))) (\<lambda>_. returnM b))"

definition Rec_read :: "PrototypePtr \<Rightarrow> string \<Rightarrow> 'st in_stream \<Rightarrow> ('st \<times> 'z Memory_scheme, plain_error, nat) mth" where
  "Rec_read P junk rd = bindM (on_memory (new_block junk)) (\<lambda>b.
     bindM (catchM (Ref_Read P rd (Some (b, 0))) (\<lambda>e. bindM (on_memory (delete_block b)) (\<lambda>_. throwM e))) (\<lambda>_. returnM b))"

definition Rec_destroy :: "nat \<Rightarrow> ('z, unit) plain_mth" where "Rec_destroy b = delete_block b"

definition Rec_Swap :: "nat \<times> nat \<Rightarrow> nat \<times> nat" where "Rec_Swap = (\<lambda>(a, b). (b, a))"

section \<open>Fields\<close>

text \<open>The members that \<^verbatim>\<open>DECLARE_FIELD\<close> and its variants declare: \<open>n\<close> is the size of the type that is named there.\<close>

definition field_index :: "PrototypePtr \<Rightarrow> string \<Rightarrow> UINT_32 \<Rightarrow> ('z, UINT_32) plain_mth" where
  "field_index P name n = (case GetFieldIndex (snd P) name n of Inl e \<Rightarrow> throwM e | Inr i \<Rightarrow> returnM i)"

definition field_offset :: "PrototypePtr \<Rightarrow> string \<Rightarrow> UINT_32 \<Rightarrow> ('z, nat) plain_mth" where
  "field_offset P name n = bindM (field_index P name n) (\<lambda>i. case GetField (snd P) i of
     None \<Rightarrow> throwM Undefined | Some f \<Rightarrow> returnM (unat (Field_Offset f)))"

definition get_field :: "PrototypePtr \<Rightarrow> string \<Rightarrow> UINT_32 \<Rightarrow> pointer \<Rightarrow> ('z, string) plain_mth" where
  "get_field P name n d = bindM (field_offset P name n) (\<lambda>offset. load (pointer_add d offset) (unat n))"

definition set_field :: "PrototypePtr \<Rightarrow> string \<Rightarrow> UINT_32 \<Rightarrow> pointer \<Rightarrow> string \<Rightarrow> ('z, unit) plain_mth" where
  "set_field P name n d v = bindM (field_offset P name n) (\<lambda>offset. store (pointer_add d offset) v)"

definition struct_field :: "PrototypePtr \<Rightarrow> PrototypePtr \<Rightarrow> string \<Rightarrow> pointer \<Rightarrow> ('z, pointer) plain_mth" where
  "struct_field P T name d = bindM (field_offset P name (rp_size (snd T))) (\<lambda>offset. returnM (pointer_add d offset))"

definition tuple_field :: "PrototypePtr \<Rightarrow> PrototypePtr \<Rightarrow> string \<Rightarrow> UINT_32 \<Rightarrow> pointer \<Rightarrow> UINT_32 \<Rightarrow> ('z, pointer) plain_mth" where
  "tuple_field P T name capacity d i =
     bindM (field_offset P name (AlignedSize (snd T) * capacity)) (\<lambda>offset.
       returnM (pointer_add (pointer_add d offset) (unat (AlignedSize (snd T) * i))))"

section \<open>Loads and stores\<close>

named_theorems memory_simps \<open>evaluation of the operations on memory\<close>

definition live :: "pointer \<Rightarrow> nat \<Rightarrow> 'z Memory_scheme \<Rightarrow> bool" where
  "live p n m \<longleftrightarrow> (\<exists>b i bytes. p = Some (b, i) \<and> mem_blocks m b = Some bytes \<and> i + n \<le> length bytes)"

text \<open>What is at a live pointer\<close>

definition bytes_at :: "pointer \<Rightarrow> nat \<Rightarrow> 'z Memory_scheme \<Rightarrow> string" where
  "bytes_at p n m = take n (drop (snd (the p)) (the (mem_blocks m (fst (the p)))))"

definition write_at :: "pointer \<Rightarrow> string \<Rightarrow> 'z Memory_scheme \<Rightarrow> 'z Memory_scheme" where
  "write_at p v m = m\<lparr>mem_blocks := (mem_blocks m)(fst (the p) := Some (overwrite (snd (the p)) v (the (mem_blocks m (fst (the p))))))\<rparr>"

lemma load_live [memory_simps]: "live p n m \<Longrightarrow> load p n m = (Inr (bytes_at p n m), m)"
  by (auto simp: live_def load_def bytes_at_def)

lemma store_live [memory_simps]: "live p (length v) m \<Longrightarrow> store p v m = (Inr (), write_at p v m)"
  by (auto simp: live_def store_def write_at_def)

lemma length_bytes_at [simp]: "live p n m \<Longrightarrow> length (bytes_at p n m) = n"
  by (auto simp: live_def bytes_at_def)

lemma length_overwrite [simp]: "i + length v \<le> length bytes \<Longrightarrow> length (overwrite i v bytes) = length bytes"
  by (simp add: overwrite_def)

lemma live_write_at [memory_simps]: "live q (length v) m \<Longrightarrow> live p n (write_at q v m) \<longleftrightarrow> live p n m"
  by (cases "fst (the p) = fst (the q)") (auto simp: live_def write_at_def)

lemma live_less: "live p n m \<Longrightarrow> k \<le> n \<Longrightarrow> live p k m"
  by (fastforce simp: live_def)

lemma live_add: "live p n m \<Longrightarrow> k + l \<le> n \<Longrightarrow> live (pointer_add p k) l m"
  by (fastforce simp: live_def pointer_add_def)

lemma bytes_at_write_same [memory_simps]: "live p (length v) m \<Longrightarrow> bytes_at p (length v) (write_at p v m) = v"
  by (auto simp: live_def bytes_at_def write_at_def overwrite_def)

lemma take_drop_overwrite:
  assumes "j + n \<le> i \<or> i + length v \<le> j" "i + length v \<le> length bytes"
  shows "take n (drop j (overwrite i v bytes)) = take n (drop j bytes)"
proof -
  have "take n (drop j bytes) ! k = take n (drop j (overwrite i v bytes)) ! k"
    if "k < n" "k < length bytes - j" for k
    using assms that by (auto simp: overwrite_def nth_append)
  then show ?thesis using assms by (intro nth_equalityI) auto
qed

definition apart :: "pointer \<Rightarrow> nat \<Rightarrow> pointer \<Rightarrow> nat \<Rightarrow> bool" where
  "apart p n q l \<longleftrightarrow> fst (the p) \<noteq> fst (the q) \<or> snd (the p) + n \<le> snd (the q) \<or> snd (the q) + l \<le> snd (the p)"

lemma bytes_at_write_other [memory_simps]:
  "live q (length v) m \<Longrightarrow> apart p n q (length v) \<Longrightarrow> bytes_at p n (write_at q v m) = bytes_at p n m"
  by (auto simp: live_def bytes_at_def write_at_def apart_def take_drop_overwrite)

lemma memcpy_live [memory_simps]:
  "live p n m \<Longrightarrow> live q n m \<Longrightarrow> apart p n q n \<Longrightarrow> memcpy p q n m = (Inr (), write_at p (bytes_at q n m) m)"
  by (auto simp: memcpy_def bindM_def load_live store_live overlap_def apart_def live_def split: option.split)

section \<open>The fields of a record\<close>

lemma find_field_at:
  assumes "distinct (map Field_Name fs)" "i < length fs"
  shows "find_field pn (Field_Name (fs ! i)) (Field_Size (fs ! i)) k fs = Inr (k + of_nat i)"
  using assms
proof (induction fs arbitrary: i k)
  case (Cons f fs)
  then show ?case by (cases i) (auto simp: algebra_simps)
qed simp

lemma field_offset_at:
  assumes "distinct (map Field_Name (rp_fields p))" "i < length (rp_fields p)" "length (rp_fields p) < 2 ^ 32"
  shows "field_offset (a, p) (Field_Name (rp_fields p ! i)) (Field_Size (rp_fields p ! i)) m = (Inr (unat (Field_Offset (rp_fields p ! i))), m)"
proof -
  have "unat (of_nat i :: UINT_32) = i" using assms(2,3) by (simp add: unsigned_of_nat take_bit_nat_eq_self)
  then show ?thesis using assms(2) find_field_at [OF assms(1,2)]
    by (simp add: field_offset_def field_index_def GetFieldIndex_def GetField_def mth_defs)
qed

lemma sound_apart:
  assumes "sound p" "i < length (rp_fields p)" "j < length (rp_fields p)" "i \<noteq> j" "d \<noteq> None"
  shows "apart (pointer_add d (unat (Field_Offset (rp_fields p ! i)))) (unat (Field_Size (rp_fields p ! i)))
    (pointer_add d (unat (Field_Offset (rp_fields p ! j)))) (unat (Field_Size (rp_fields p ! j)))"
proof -
  have l: "laid_out 0 (rp_fields p) (unat (rp_size p))" using assms(1) by (simp add: sound_def)
  show ?thesis
    using laid_out_disjoint [OF l, of i j] laid_out_disjoint [OF l, of j i] assms(2-5)
    by (cases "i < j") (auto simp: apart_def pointer_add_def)
qed

lemma sound_field_live:
  assumes "sound p" "i < length (rp_fields p)" "live d (unat (rp_size p)) m"
  shows "live (pointer_add d (unat (Field_Offset (rp_fields p ! i)))) (unat (Field_Size (rp_fields p ! i))) m"
  using assms laid_out_within [of 0 "rp_fields p" "unat (rp_size p)" "rp_fields p ! i"] by (auto simp: sound_def intro: live_add)

lemma field_laws:
  assumes "sound p" "distinct (map Field_Name (rp_fields p))" "length (rp_fields p) < 2 ^ 32" "live d (unat (rp_size p)) m"
    "i < length (rp_fields p)" "j < length (rp_fields p)" "length v = unat (Field_Size (rp_fields p ! i))"
  shows "\<exists>m' old. set_field (a, p) (Field_Name (rp_fields p ! i)) (Field_Size (rp_fields p ! i)) d v m = (Inr (), m') \<and>
    get_field (a, p) (Field_Name (rp_fields p ! j)) (Field_Size (rp_fields p ! j)) d m = (Inr old, m) \<and>
    get_field (a, p) (Field_Name (rp_fields p ! j)) (Field_Size (rp_fields p ! j)) d m' = (Inr (if i = j then v else old), m')"
proof -
  let ?f = "rp_fields p ! i" and ?g = "rp_fields p ! j"
  let ?q = "pointer_add d (unat (Field_Offset ?f))" and ?r = "pointer_add d (unat (Field_Offset ?g))"
  have live: "live ?q (length v) m" "live ?r (unat (Field_Size ?g)) m"
    using sound_field_live [OF assms(1) _ assms(4)] assms(5-7) by auto
  have d: "d \<noteq> None" using assms(4) by (auto simp: live_def)
  have other: "bytes_at ?r (unat (Field_Size ?g)) (write_at ?q v m) = bytes_at ?r (unat (Field_Size ?g)) m" if "i \<noteq> j"
    using bytes_at_write_other [OF live(1)] sound_apart [OF assms(1) assms(6,5) _ d] that assms(7) by simp
  have same: "bytes_at ?q (length v) (write_at ?q v m) = v" using live by (simp add: memory_simps)
  show ?thesis
    using live other same assms(5-7)
    by (cases "i = j") (simp_all add: set_field_def get_field_def bindM_def memory_simps field_offset_at [OF assms(2) _ assms(3)])
qed

text \<open>C34. The fields of a record that was declared with a builder are variables of their own: what is assigned to one is read from it,
  and the others keep what they have.\<close>

theorem Fields_independent:
  assumes "\<forall>(n, t) \<in> set specs. power_of_two (FieldType_Alignment t)" "total_size specs < 2 ^ 32" "length specs < 2 ^ 32"
    "distinct (map fst specs)" "(n, t) \<in> set specs" "(k, u) \<in> set specs" "length v = unat (FieldType_Size t)"
    "mem_blocks m b = Some bytes" "length bytes = total_size specs"
  shows "case Finish (build name specs) of
      (Some p, _) \<Rightarrow> (case set_field (a, p) n (FieldType_Size t) (Some (b, 0)) v m of
          (Inr _, m') \<Rightarrow> fst (get_field (a, p) k (FieldType_Size u) (Some (b, 0)) m') =
            (if k = n then Inr v else fst (get_field (a, p) k (FieldType_Size u) (Some (b, 0)) m))
        | (Inl e, _) \<Rightarrow> False)
    | (None, _) \<Rightarrow> False"
proof -
  obtain p ws where p: "build name specs = \<lparr>pb_prototype = Some p, pb_stderr = ws\<rparr>" "sound p"
    "map (\<lambda>f. (Field_Name f, Field_Type f)) (rp_fields p) = specs" "unat (rp_size p) = total_size specs"
    using build_makes [OF assms(1,2), of name] by auto
  have len: "length specs = length (rp_fields p)" using p(3) by auto
  have specs: "specs ! i = (Field_Name (rp_fields p ! i), Field_Type (rp_fields p ! i))" if "i < length (rp_fields p)" for i
    using that by (simp flip: p(3))
  obtain i j where i: "i < length specs" "specs ! i = (n, t)" and j: "j < length specs" "specs ! j = (k, u)"
    using assms(5,6) by (metis in_set_conv_nth)
  have ij: "Field_Name (rp_fields p ! i) = n" "Field_Size (rp_fields p ! i) = FieldType_Size t"
    "Field_Name (rp_fields p ! j) = k" "Field_Size (rp_fields p ! j) = FieldType_Size u"
    "i < length (rp_fields p)" "j < length (rp_fields p)" "length (rp_fields p) < 2 ^ 32"
    using specs [of i] specs [of j] len i j assms(3) by (auto simp: Field_Size_def)
  have names: "distinct (map Field_Name (rp_fields p))" using assms(4) p(3) by (auto simp: comp_def)
  then have eq: "i = j \<longleftrightarrow> k = n" using ij nth_eq_iff_index_eq [OF names, of i j] by auto
  have "live (Some (b, 0)) (unat (rp_size p)) m" using assms(8,9) p(4) by (simp add: live_def)
  then show ?thesis
    using field_laws [OF p(2) names ij(7) _ ij(5,6), of "Some (b, 0)" m v a] assms(7) eq p(1) unfolding ij
    by (auto simp: Finish_def)
qed

theorem Fields_independent_witness:
  "case Finish (build ''r'' [(''id'', FieldType_UINT_16), (''tag'', FieldType_CHARS 3)]) of
     (Some p, _) \<Rightarrow> (case set_field (7, p) ''tag'' 3 (Some (0, 0)) ''xyz'' \<lparr>mem_blocks = [0 \<mapsto> ''abcde''], mem_next = 1\<rparr> of
         (Inr _, m) \<Rightarrow> fst (get_field (7, p) ''id'' 2 (Some (0, 0)) m) =
            fst (get_field (7, p) ''id'' 2 (Some (0, 0)) \<lparr>mem_blocks = [0 \<mapsto> ''abcde''], mem_next = 1\<rparr>)
       | _ \<Rightarrow> False)
   | _ \<Rightarrow> False"
proof -
  let ?specs = "[(''id'', FieldType_UINT_16), (''tag'', FieldType_CHARS 3)]"
  have two: "power_of_two 1" "power_of_two 2"
    by (auto simp: power_of_two_def intro: exI [of _ 0] exI [of _ 1])
  show ?thesis
    using Fields_independent [where specs = ?specs and n = "''tag''" and t = "FieldType_CHARS 3" and k = "''id''" and u = FieldType_UINT_16
        and v = "''xyz''" and m = "\<lparr>mem_blocks = [0 \<mapsto> ''abcde''], mem_next = 1\<rparr>" and b = 0 and bytes = "''abcde''" and name = "''r''" and a = 7] two
    by (auto simp: total_size_def split: option.splits prod.splits sum.splits)
qed

text \<open>A typed reference that may only read checks the prototype it is made from, the one that may write does not.\<close>

lemma Ref_unchecked:
  "fst P \<noteq> fst (ref_prototype r) \<Longrightarrow>
     fst (ConstRef_of_ref P r m) = Inl InvalidPrototypeInAssignment \<and> fst (Ref_of_ref P r m) = Inr (ref_data r)"
  by (simp add: ConstRef_of_ref_def CheckPrototype_def Ref_of_ref_def mth_defs)

text \<open>\<open>Swap\<close> exchanges the references and leaves the records where they are.\<close>

lemma Swap_references: "Swap (left, right, temp) = (right, left, left)"
  by (simp add: Swap_def)

end
