(* ===== verification/Record_Array.thy ===== *)
theory Record_Array
  imports Plain_Records
begin

text \<open>
  \<^verbatim>\<open>plain/RecordArray\<close>: arrays of records in chunks that are allocated when they are first used, and their contents as one string
  of bytes.
\<close>

section \<open>Chunks\<close>

record MemoryBlock =
  mb_data :: nat
  mb_itemSize :: UINT_32

definition MemoryBlock_new :: "UINT_32 \<Rightarrow> UINT_32 \<Rightarrow> ('z, MemoryBlock) plain_mth" where
  "MemoryBlock_new capacity itemSize =
     bindM (new_block (replicate (unat (capacity * itemSize)) CHR 0x00)) (\<lambda>b. returnM \<lparr>mb_data = b, mb_itemSize = itemSize\<rparr>)"

definition MemoryBlock_destroy :: "MemoryBlock \<Rightarrow> ('z, unit) plain_mth" where
  "MemoryBlock_destroy mb = delete_block (mb_data mb)"

definition MemoryBlock_ItemData :: "MemoryBlock \<Rightarrow> UINT_32 \<Rightarrow> pointer" where
  "MemoryBlock_ItemData mb index = Some (mb_data mb, unat (index * mb_itemSize mb))"

definition MemoryBlock_Read :: "'st in_stream \<Rightarrow> MemoryBlock \<Rightarrow> UINT_32 \<Rightarrow> ('st \<times> 'z Memory_scheme, plain_error, unit) mth" where
  "MemoryBlock_Read rd mb itemsCount = read_into rd (Some (mb_data mb, 0)) (unat (itemsCount * mb_itemSize mb))"

definition MemoryBlock_Write :: "'st out_stream \<Rightarrow> MemoryBlock \<Rightarrow> UINT_32 \<Rightarrow> ('st \<times> 'z Memory_scheme, plain_error, unit) mth" where
  "MemoryBlock_Write wr mb itemsCount = write_from wr (Some (mb_data mb, 0)) (unat (itemsCount * mb_itemSize mb))"

section \<open>The array\<close>

text \<open>The members of the array, and the memory. A chunk that has not been used is \<open>None\<close>.\<close>

record ArrayState = Memory +
  ra_prototype :: PrototypePtr
  ra_chunkCapacity :: UINT_32
  ra_size :: UINT_32
  ra_chunks :: "MemoryBlock option list"

type_synonym ('z, 'a) array_mth = "('z ArrayState_scheme, plain_error, 'a) mth"

definition delete_chunk :: "MemoryBlock option \<Rightarrow> ('z, unit) array_mth" where
  "delete_chunk c = (case c of None \<Rightarrow> returnM () | Some mb \<Rightarrow> MemoryBlock_destroy mb)"

definition RecordArray_Clear :: "('z, unit) array_mth" where
  "RecordArray_Clear s = bindM (forM (ra_chunks s) delete_chunk) (\<lambda>_ s. (Inr (), s\<lparr>ra_chunks := [], ra_size := 0\<rparr>)) s"

definition IsEmpty :: "'z ArrayState_scheme \<Rightarrow> bool" where "IsEmpty s \<longleftrightarrow> ra_size s = 0"

definition ChunksCount :: "'z ArrayState_scheme \<Rightarrow> UINT_32" where "ChunksCount s = of_nat (length (ra_chunks s))"

definition RecordArray_Resize :: "UINT_32 \<Rightarrow> ('z, unit) array_mth" where
  "RecordArray_Resize newSize s =
     (if ra_size s = newSize then (Inr (), s)
      else if newSize = 0 then RecordArray_Clear s
      else if ra_chunkCapacity s = 0 then (Inl Undefined, s)
      else let newChunksCount = unat ((newSize - 1) div ra_chunkCapacity s + 1) in
        if newSize > ra_size s then
          (Inr (), s\<lparr>ra_chunks := if newChunksCount > length (ra_chunks s) then resize newChunksCount None (ra_chunks s) else ra_chunks s,
             ra_size := newSize\<rparr>)
        else
          bindM (forM (drop newChunksCount (ra_chunks s)) delete_chunk) (\<lambda>_ s.
            (Inr (), s\<lparr>ra_chunks := resize newChunksCount None (ra_chunks s), ra_size := newSize\<rparr>)) s)"

definition RecordArray_new :: "PrototypePtr \<Rightarrow> UINT_32 \<Rightarrow> UINT_32 \<Rightarrow> Memory \<Rightarrow> (plain_error + unit) \<times> ArrayState" where
  "RecordArray_new p chunkCapacity n m =
     (let s = Memory.extend m (ArrayState.fields p chunkCapacity 0 []) in if n > 0 then RecordArray_Resize n s else (Inr (), s))"

definition RecordArray_destroy :: "('z, unit) array_mth" where "RecordArray_destroy = RecordArray_Clear"

definition CreateMemoryBlock :: "('z, MemoryBlock) array_mth" where
  "CreateMemoryBlock s = MemoryBlock_new (ra_chunkCapacity s) (rp_size (snd (ra_prototype s))) s"

text \<open>The chunk with a number, allocated when it is not there\<close>

definition chunk_at :: "nat \<Rightarrow> ('z, MemoryBlock) array_mth" where
  "chunk_at k s = (if k < length (ra_chunks s) then (case ra_chunks s ! k of
       Some mb \<Rightarrow> (Inr mb, s)
     | None \<Rightarrow> bindM CreateMemoryBlock (\<lambda>mb s. (Inr mb, s\<lparr>ra_chunks := (ra_chunks s)[k := Some mb]\<rparr>)) s)
   else (Inl Undefined, s))"

definition ItemData :: "UINT_32 \<Rightarrow> ('z, pointer) array_mth" where
  "ItemData index s =
     (if ra_chunkCapacity s = 0 then (Inl Undefined, s)
      else bindM (chunk_at (unat (index div ra_chunkCapacity s)))
        (\<lambda>mb. returnM (MemoryBlock_ItemData mb (index mod ra_chunkCapacity s))) s)"

definition RecordArray_at :: "UINT_32 \<Rightarrow> ('z, RecordConstRef) array_mth" where
  "RecordArray_at index s = bindM (ItemData index) (\<lambda>d. returnM (RecordConstRef_new (ra_prototype s) d)) s"

definition PushBack :: "('z, RecordConstRef) array_mth" where
  "PushBack s = bindM (RecordArray_Resize (ra_size s + 1)) (\<lambda>_ s. RecordArray_at (ra_size s - 1) s) s"

text \<open>The loops of \<open>Read\<close> and \<open>Write\<close>, over the numbers of the chunks, with the items that are left\<close>

fun read_chunks :: "'st in_stream \<Rightarrow> nat list \<Rightarrow> UINT_32 \<Rightarrow> ('st \<times> 'z ArrayState_scheme, plain_error, unit) mth" where
  "read_chunks rd [] leftItems = returnM ()"
| "read_chunks rd (k # ks) leftItems = bindM (on_memory (chunk_at k)) (\<lambda>mb (st, s).
     let n = min leftItems (ra_chunkCapacity s) in
     bindM (MemoryBlock_Read rd mb n) (\<lambda>_. read_chunks rd ks (leftItems - n)) (st, s))"

definition RecordArray_Read :: "'st in_stream \<Rightarrow> ('st \<times> 'z ArrayState_scheme, plain_error, unit) mth" where
  "RecordArray_Read rd = (\<lambda>(st, s). read_chunks rd [0..<length (ra_chunks s)] (ra_size s) (st, s))"

fun write_chunks :: "'st out_stream \<Rightarrow> nat list \<Rightarrow> UINT_32 \<Rightarrow> ('st \<times> 'z ArrayState_scheme, plain_error, unit) mth" where
  "write_chunks wr [] leftItems = returnM ()"
| "write_chunks wr (k # ks) leftItems = bindM (on_memory (chunk_at k)) (\<lambda>mb (st, s).
     let n = min leftItems (ra_chunkCapacity s) in
     bindM (MemoryBlock_Write wr mb n) (\<lambda>_. write_chunks wr ks (leftItems - n)) (st, s))"

definition RecordArray_Write :: "'st out_stream \<Rightarrow> ('st \<times> 'z ArrayState_scheme, plain_error, unit) mth" where
  "RecordArray_Write wr = (\<lambda>(st, s). write_chunks wr [0..<length (ra_chunks s)] (ra_size s) (st, s))"

text \<open>The search by halving; the comparator answers where to go on from the bytes of a record. The sum of the bounds is
  one of 32 bits, and in an array of more than \<open>2 ^ 31\<close> records the loop may not end.\<close>

partial_function (option) search_loop ::
  "(string \<Rightarrow> int) \<Rightarrow> UINT_32 \<Rightarrow> UINT_32 \<Rightarrow> 'z ArrayState_scheme \<Rightarrow> ((plain_error + RecordConstRef) \<times> 'z ArrayState_scheme) option" where
  "search_loop cmp left right s =
     (if left < right then
        let middle = (left + right) div 2 in
        case bindM (RecordArray_at middle) (\<lambda>r. bindM (load (ref_data r) (Ref_Size r)) (\<lambda>bytes. returnM (r, cmp bytes))) s of
          (Inl e, s) \<Rightarrow> Some (Inl e, s)
        | (Inr (r, result), s) \<Rightarrow>
            if result < 0 then search_loop cmp left middle s
            else if result > 0 then search_loop cmp (middle + 1) right s
            else Some (Inr r, s)
      else Some (Inr (RecordConstRef_null (ra_prototype s)), s))"

definition BinarySearch :: "(string \<Rightarrow> int) \<Rightarrow> ('z, RecordConstRef) array_mth" where
  "BinarySearch cmp s = (case search_loop cmp 0 (ra_size s) s of None \<Rightarrow> (Inl DoesNotReturn, s) | Some r \<Rightarrow> r)"

section \<open>Arrays of a fixed capacity\<close>

record RecordFixedArray =
  fa_capacity :: UINT_32
  fa_data :: nat

definition ItemSize :: "PrototypePtr \<Rightarrow> UINT_32" where "ItemSize P = AlignedSize (snd P)"

text \<open>The constructor initialises the member \<open>capacity_\<close> with itself: it keeps what the memory of the object had there, \<open>old\<close>.\<close>

definition RecordFixedArray_new :: "PrototypePtr \<Rightarrow> UINT_32 \<Rightarrow> UINT_32 \<Rightarrow> ('z, RecordFixedArray) plain_mth" where
  "RecordFixedArray_new P old capacity =
     bindM (new_block (replicate (unat (ItemSize P * capacity)) CHR 0x00)) (\<lambda>b. returnM \<lparr>fa_capacity = old, fa_data = b\<rparr>)"

definition RecordFixedArray_destroy :: "RecordFixedArray \<Rightarrow> ('z, unit) plain_mth" where
  "RecordFixedArray_destroy a = delete_block (fa_data a)"

definition RecordFixedArray_at :: "PrototypePtr \<Rightarrow> RecordFixedArray \<Rightarrow> UINT_32 \<Rightarrow> pointer" where
  "RecordFixedArray_at P a index = Some (fa_data a, unat (index * ItemSize P))"

definition RecordFixedArray_Swap :: "RecordFixedArray \<times> RecordFixedArray \<Rightarrow> RecordFixedArray \<times> RecordFixedArray" where
  "RecordFixedArray_Swap = (\<lambda>(a, b). (a\<lparr>fa_capacity := fa_capacity b, fa_data := fa_data b\<rparr>, b\<lparr>fa_capacity := fa_capacity a, fa_data := fa_data a\<rparr>))"

section \<open>A reader of records\<close>

text \<open>\<^verbatim>\<open>RecordArrayReader\<close>: \<open>rr_item\<close> is the item, which knows how to read itself.\<close>

record 'i RecordArrayReader =
  rr_size :: UINT_32
  rr_index :: UINT_32
  rr_item :: 'i

definition RecordArrayReader_new :: "'i \<Rightarrow> 'i RecordArrayReader" where
  "RecordArrayReader_new item = \<lparr>rr_size = 0, rr_index = 0, rr_item = item\<rparr>"

definition Init :: "UINT_32 \<Rightarrow> 'i RecordArrayReader \<Rightarrow> 'i RecordArrayReader" where
  "Init newSize r = r\<lparr>rr_size := newSize, rr_index := 0\<rparr>"

definition AtEnd :: "'i RecordArrayReader \<Rightarrow> bool" where "AtEnd r \<longleftrightarrow> rr_index r \<ge> rr_size r"

definition Reader_Read :: "('st \<times> 'i, plain_error, unit) mth \<Rightarrow> ('st \<times> 'i RecordArrayReader, plain_error, unit) mth" where
  "Reader_Read rd = (\<lambda>(st, r). case rd (st, rr_item r) of
     (Inl e, (st, i)) \<Rightarrow> (Inl e, (st, r\<lparr>rr_item := i\<rparr>))
   | (Inr _, (st, i)) \<Rightarrow> (Inr (), (st, r\<lparr>rr_item := i, rr_index := rr_index r + 1\<rparr>)))"

function SkipAll :: "('st \<times> 'i, plain_error, unit) mth \<Rightarrow> ('st \<times> 'i RecordArrayReader, plain_error, unit) mth" where
  "SkipAll rd (st, r) = (if AtEnd r then (Inr (), (st, r)) else (case Reader_Read rd (st, r) of
     (Inl e, t) \<Rightarrow> (Inl e, t) | (Inr _, t) \<Rightarrow> SkipAll rd t))"
  by pat_completeness auto
termination
proof (relation "measure (\<lambda>(rd, st, r). unat (rr_size r) - unat (rr_index r))", goal_cases)
  case (2 rd st r q t x)
  then have "rr_index r < rr_size r" "rr_size (snd t) = rr_size r" "rr_index (snd t) = rr_index r + 1"
    by (auto simp: AtEnd_def Reader_Read_def split: prod.splits sum.splits)
  then show ?case using unat_plus_one [of "rr_index r" "rr_size r"] by (cases t) (auto simp: word_less_nat_alt)
qed simp

declare SkipAll.simps [simp del]

end
