(* ===== verification/Array_Contents.thy ===== *)
theory Array_Contents
  imports Record_Array
begin

text \<open>
  What an array of records holds: the bytes of its chunks, one after the other. The lemmas say what each operation makes of
  them.
\<close>

section \<open>Strings in pieces of one length\<close>

lemma concat_pieces_length: "\<forall>x \<in> set xss. length x = l \<Longrightarrow> length (concat xss) = length xss * l"
  by (induction xss) auto

lemma take_drop_concat:
  assumes "\<forall>x \<in> set xss. length x = l" "k < length xss" "j + n \<le> l"
  shows "take n (drop (k * l + j) (concat xss)) = take n (drop j (xss ! k))"
  using assms
proof (induction xss arbitrary: k)
  case (Cons x xss)
  then show ?case by (cases k) (auto simp: add.assoc)
qed simp

lemma overwrite_append1: "i + length v \<le> length xs \<Longrightarrow> overwrite i v (xs @ ys) = overwrite i v xs @ ys"
  by (simp add: overwrite_def)

lemma overwrite_append2: "overwrite (length xs + i) v (xs @ ys) = xs @ overwrite i v ys"
  by (simp add: overwrite_def add.assoc)

lemma concat_overwrite:
  assumes "\<forall>x \<in> set xss. length x = l" "k < length xss" "j + length v \<le> l"
  shows "concat (xss[k := overwrite j v (xss ! k)]) = overwrite (k * l + j) v (concat xss)"
  using assms
proof (induction xss arbitrary: k)
  case (Cons x xss)
  then show ?case using overwrite_append2 [of x] by (cases k) (auto simp: overwrite_append1 add.assoc)
qed simp

section \<open>The contents of an array\<close>

definition item_size :: "'z ArrayState_scheme \<Rightarrow> nat" where "item_size s = prototype_size (ra_prototype s)"

definition capacity :: "'z ArrayState_scheme \<Rightarrow> nat" where "capacity s = unat (ra_chunkCapacity s)"

definition chunk_size :: "'z ArrayState_scheme \<Rightarrow> nat" where "chunk_size s = capacity s * item_size s"

definition chunk_bytes :: "'z ArrayState_scheme \<Rightarrow> MemoryBlock option \<Rightarrow> string" where
  "chunk_bytes s c = (case c of None \<Rightarrow> replicate (chunk_size s) CHR 0x00 | Some mb \<Rightarrow> the (mem_blocks s (mb_data mb)))"

definition content :: "'z ArrayState_scheme \<Rightarrow> string" where "content s = concat (map (chunk_bytes s) (ra_chunks s))"

definition item :: "'z ArrayState_scheme \<Rightarrow> nat \<Rightarrow> string" where
  "item s i = take (item_size s) (drop (i * item_size s) (content s))"

definition records :: "'z ArrayState_scheme \<Rightarrow> string list" where "records s = map (item s) [0..<unat (ra_size s)]"

text \<open>The invariant: as many chunks as the size needs, those that are allocated in blocks of their own.\<close>

definition chunks_for :: "nat \<Rightarrow> nat \<Rightarrow> nat" where "chunks_for cap n = (if n = 0 then 0 else (n - 1) div cap + 1)"

definition chunk_ok :: "'z ArrayState_scheme \<Rightarrow> MemoryBlock \<Rightarrow> bool" where
  "chunk_ok s mb \<longleftrightarrow> mb_itemSize mb = rp_size (snd (ra_prototype s)) \<and> mb_data mb < mem_next s \<and>
     (\<exists>bytes. mem_blocks s (mb_data mb) = Some bytes \<and> length bytes = chunk_size s)"

definition array_ok :: "'z ArrayState_scheme \<Rightarrow> bool" where
  "array_ok s \<longleftrightarrow> 0 < capacity s \<and> chunk_size s < 2 ^ 32 \<and> length (ra_chunks s) = chunks_for (capacity s) (unat (ra_size s)) \<and>
     (\<forall>mb. Some mb \<in> set (ra_chunks s) \<longrightarrow> chunk_ok s mb) \<and>
     (\<forall>k l mb mb'. k < length (ra_chunks s) \<longrightarrow> l < length (ra_chunks s) \<longrightarrow> ra_chunks s ! k = Some mb \<longrightarrow> ra_chunks s ! l = Some mb' \<longrightarrow>
        mb_data mb = mb_data mb' \<longrightarrow> k = l)"

lemma array_ok_chunk: "array_ok s \<Longrightarrow> k < length (ra_chunks s) \<Longrightarrow> ra_chunks s ! k = Some mb \<Longrightarrow> chunk_ok s mb"
  by (metis array_ok_def nth_mem)

lemma array_ok_length: "array_ok s \<Longrightarrow> length (ra_chunks s) = chunks_for (capacity s) (unat (ra_size s))"
  by (simp add: array_ok_def)

lemma array_ok_apart:
  "array_ok s \<Longrightarrow> k < length (ra_chunks s) \<Longrightarrow> l < length (ra_chunks s) \<Longrightarrow> ra_chunks s ! k = Some mb \<Longrightarrow> ra_chunks s ! l = Some mb' \<Longrightarrow>
     k \<noteq> l \<Longrightarrow> mb_data mb \<noteq> mb_data mb'"
  by (metis array_ok_def)

lemma array_ok_pieces: "array_ok s \<Longrightarrow> \<forall>x \<in> set (map (chunk_bytes s) (ra_chunks s)). length x = chunk_size s"
  by (auto simp: array_ok_def chunk_bytes_def chunk_ok_def split: option.splits)

lemma content_length: "array_ok s \<Longrightarrow> length (content s) = length (ra_chunks s) * chunk_size s"
  using concat_pieces_length [OF array_ok_pieces] by (simp add: content_def)

lemma chunks_for_covers: "0 < cap \<Longrightarrow> i < n \<Longrightarrow> i div cap < chunks_for cap n"
  by (auto simp: chunks_for_def less_Suc_eq_le intro: div_le_mono)

lemma array_ok_covers: "array_ok s \<Longrightarrow> i < unat (ra_size s) \<Longrightarrow> i div capacity s < length (ra_chunks s)"
  by (simp add: array_ok_def chunks_for_covers)

lemma item_within:
  assumes "0 < cap"
  shows "(i mod cap) * n + n \<le> cap * n" "(i div cap) * (cap * n) + (i mod cap) * n = i * (n::nat)"
proof -
  have "i mod cap + 1 \<le> cap" using assms by (simp add: Suc_leI)
  then have "(i mod cap + 1) * n \<le> cap * n" by (rule mult_le_mono1)
  then show "(i mod cap) * n + n \<le> cap * n" by (simp add: algebra_simps)
  have "(i div cap) * (cap * n) + (i mod cap) * n = ((i div cap) * cap + i mod cap) * n"
    by (simp only: add_mult_distrib mult.assoc)
  then show "(i div cap) * (cap * n) + (i mod cap) * n = i * n" by simp
qed

lemma records_length [simp]: "length (records s) = unat (ra_size s)"
  by (simp add: records_def)

lemma records_nth: "i < unat (ra_size s) \<Longrightarrow> records s ! i = item s i"
  by (simp add: records_def)

lemma content_covers:
  assumes "array_ok s" "i < unat (ra_size s)"
  shows "i * item_size s + item_size s \<le> length (content s)"
proof -
  have c: "0 < capacity s" using assms(1) by (simp add: array_ok_def)
  have "i div capacity s + 1 \<le> length (ra_chunks s)" using array_ok_covers [OF assms] by simp
  then have "(i div capacity s + 1) * chunk_size s \<le> length (content s)"
    unfolding content_length [OF assms(1)] by (rule mult_le_mono1)
  then show ?thesis using item_within [OF c, of i "item_size s"] by (simp add: chunk_size_def algebra_simps)
qed

lemma length_item: "array_ok s \<Longrightarrow> i < unat (ra_size s) \<Longrightarrow> length (item s i) = item_size s"
  using content_covers [of s i] by (simp add: item_def)

section \<open>Access to an item\<close>

text \<open>\<open>grown s t\<close>: from \<open>s\<close> to \<open>t\<close> chunks have been allocated, and nothing else has happened.\<close>

definition grown :: "'z ArrayState_scheme \<Rightarrow> 'z ArrayState_scheme \<Rightarrow> bool" where
  "grown s t \<longleftrightarrow> t = s\<lparr>mem_blocks := mem_blocks t, mem_next := mem_next t, ra_chunks := ra_chunks t\<rparr> \<and> array_ok t \<and>
     content t = content s \<and> mem_next s \<le> mem_next t \<and> (\<forall>b < mem_next s. mem_blocks t b = mem_blocks s b) \<and>
     length (ra_chunks t) = length (ra_chunks s) \<and>
     (\<forall>k < length (ra_chunks s). \<forall>mb. (ra_chunks s ! k = Some mb \<longrightarrow> ra_chunks t ! k = Some mb) \<and>
        (ra_chunks t ! k = Some mb \<longrightarrow> ra_chunks s ! k = Some mb \<or> mem_next s \<le> mb_data mb))"

lemma grown_refl: "array_ok s \<Longrightarrow> grown s s"
  by (simp add: grown_def)

lemma grown_fields:
  assumes "grown s t"
  shows "ra_prototype t = ra_prototype s" "ra_chunkCapacity t = ra_chunkCapacity s" "ra_size t = ra_size s"
    "ArrayState.more t = ArrayState.more s"
proof -
  have "ra_prototype t = ra_prototype s \<and> ra_chunkCapacity t = ra_chunkCapacity s \<and> ra_size t = ra_size s \<and>
      ArrayState.more t = ArrayState.more s"
    if "t = s\<lparr>mem_blocks := x, mem_next := y, ra_chunks := z\<rparr>" for x y z
    using that by simp
  then show "ra_prototype t = ra_prototype s" "ra_chunkCapacity t = ra_chunkCapacity s" "ra_size t = ra_size s"
    "ArrayState.more t = ArrayState.more s"
    using assms unfolding grown_def by blast+
qed

lemma grown_trans:
  assumes "grown s t" "grown t u"
  shows "grown s u"
proof -
  have "u = s\<lparr>mem_blocks := mem_blocks u, mem_next := mem_next u, ra_chunks := ra_chunks u\<rparr>"
    using grown_fields [OF assms(1)] grown_fields [OF assms(2)] by (intro ArrayState.equality) simp_all
  moreover have "(ra_chunks s ! k = Some mb \<longrightarrow> ra_chunks u ! k = Some mb) \<and>
      (ra_chunks u ! k = Some mb \<longrightarrow> ra_chunks s ! k = Some mb \<or> mem_next s \<le> mb_data mb)" if "k < length (ra_chunks s)" for k mb
    using assms that unfolding grown_def by (metis order.trans)
  ultimately show ?thesis using assms unfolding grown_def by auto
qed

lemma grown_sizes: "grown s t \<Longrightarrow> item_size t = item_size s \<and> capacity t = capacity s \<and> chunk_size t = chunk_size s"
  using grown_fields [of s t] by (simp add: item_size_def capacity_def chunk_size_def)

lemma grown_records: "grown s t \<Longrightarrow> records t = records s"
  using grown_sizes [of s t] grown_fields [of s t] by (auto simp: records_def item_def grown_def)

lemma grown_array_ok: "grown s t \<Longrightarrow> array_ok t"
  by (simp add: grown_def)

lemma unat_chunk_bytes:
  assumes "array_ok s"
  shows "unat (ra_chunkCapacity s * rp_size (snd (ra_prototype s))) = chunk_size s"
  using assms by (simp add: array_ok_def chunk_size_def capacity_def item_size_def prototype_size_def unat_mult_lem [THEN iffD1])

lemma chunk_at_grown:
  assumes "array_ok s" "k < length (ra_chunks s)"
  shows "\<exists>mb t. chunk_at k s = (Inr mb, t) \<and> grown s t \<and> ra_chunks t ! k = Some mb"
proof (cases "ra_chunks s ! k")
  case (Some mb)
  then show ?thesis using assms by (simp add: chunk_at_def grown_refl)
next
  case None
  let ?z = "replicate (chunk_size s) CHR 0x00"
  let ?mb = "\<lparr>mb_data = mem_next s, mb_itemSize = rp_size (snd (ra_prototype s))\<rparr>"
  let ?t = "s\<lparr>mem_blocks := (mem_blocks s)(mem_next s := Some ?z), mem_next := Suc (mem_next s), ra_chunks := (ra_chunks s)[k := Some ?mb]\<rparr>"
  have at: "chunk_at k s = (Inr ?mb, ?t)"
    using assms None by (simp add: chunk_at_def CreateMemoryBlock_def MemoryBlock_new_def new_block_def mth_defs unat_chunk_bytes)
  have sizes: "chunk_size ?t = chunk_size s" "capacity ?t = capacity s"
    by (simp_all add: chunk_size_def item_size_def capacity_def)
  have old: "chunk_ok ?t mb" if "chunk_ok s mb" for mb
    using that sizes by (auto simp: chunk_ok_def)
  have new: "chunk_ok ?t ?mb" using sizes by (simp add: chunk_ok_def)
  have less: "mb_data mb < mem_next s" if "l < length (ra_chunks s)" "ra_chunks s ! l = Some mb" for l mb
    using array_ok_chunk [OF assms(1) that] by (simp add: chunk_ok_def)
  have ok: "array_ok ?t"
    unfolding array_ok_def
  proof (intro conjI allI impI)
    show "chunk_ok ?t mb" if "Some mb \<in> set (ra_chunks ?t)" for mb
      using that assms(1) old new set_update_subset_insert [of "ra_chunks s" k "Some ?mb"] by (auto simp: array_ok_def)
    show "l = m" if "l < length (ra_chunks ?t)" "m < length (ra_chunks ?t)" "ra_chunks ?t ! l = Some mb" "ra_chunks ?t ! m = Some mb'"
      "mb_data mb = mb_data mb'" for l m mb mb'
      using that less [of l mb] less [of m mb'] array_ok_apart [OF assms(1), of l m mb mb'] assms(2)
      by (cases "l = k"; cases "m = k") auto
  qed (use assms(1) sizes in \<open>simp_all add: array_ok_def\<close>)
  have "map (chunk_bytes ?t) (ra_chunks ?t) = map (chunk_bytes s) (ra_chunks s)"
  proof (rule nth_equalityI)
    fix l assume "l < length (map (chunk_bytes ?t) (ra_chunks ?t))"
    then show "map (chunk_bytes ?t) (ra_chunks ?t) ! l = map (chunk_bytes s) (ra_chunks s) ! l"
      using None less [of l] sizes by (cases "l = k") (auto simp: chunk_bytes_def split: option.splits)
  qed simp
  then have "content ?t = content s" by (simp only: content_def)
  then have "grown s ?t" using ok assms(2) None by (auto simp: grown_def nth_list_update)
  then show ?thesis using at assms(2) by auto
qed

text \<open>The place of the item \<open>i\<close>\<close>

definition points :: "'z ArrayState_scheme \<Rightarrow> nat \<Rightarrow> pointer \<Rightarrow> bool" where
  "points s i p \<longleftrightarrow> i div capacity s < length (ra_chunks s) \<and> (\<exists>mb. ra_chunks s ! (i div capacity s) = Some mb \<and>
     p = Some (mb_data mb, (i mod capacity s) * item_size s))"

lemma points_grown: "points s i p \<Longrightarrow> grown s t \<Longrightarrow> points t i p"
  using grown_sizes [of s t] by (auto simp: points_def grown_def)

lemma points_live:
  assumes "array_ok s" "points s i p"
  shows "live p (item_size s) s" "bytes_at p (item_size s) s = item s i"
proof -
  obtain mb where mb: "i div capacity s < length (ra_chunks s)" "ra_chunks s ! (i div capacity s) = Some mb"
    "p = Some (mb_data mb, (i mod capacity s) * item_size s)" using assms(2) by (auto simp: points_def)
  obtain bytes where b: "mem_blocks s (mb_data mb) = Some bytes" "length bytes = chunk_size s"
    using array_ok_chunk [OF assms(1) mb(1,2)] by (auto simp: chunk_ok_def)
  have c: "0 < capacity s" using assms(1) by (simp add: array_ok_def)
  note w = item_within [OF c, of i "item_size s", folded chunk_size_def]
  show "live p (item_size s) s" using mb b w by (simp add: live_def)
  have "item s i = take (item_size s) (drop ((i mod capacity s) * item_size s) bytes)"
    using take_drop_concat [OF array_ok_pieces [OF assms(1)], of "i div capacity s" "(i mod capacity s) * item_size s" "item_size s"] mb b w
    by (simp add: item_def content_def chunk_bytes_def)
  then show "bytes_at p (item_size s) s = item s i" using mb b by (simp add: bytes_at_def)
qed

lemma unat_item_offset:
  assumes "array_ok s"
  shows "unat ((index mod ra_chunkCapacity s) * rp_size (snd (ra_prototype s))) = (unat index mod capacity s) * item_size s"
proof -
  have "(unat index mod capacity s) * item_size s \<le> chunk_size s"
    using item_within(1) [of "capacity s" "unat index" "item_size s"] assms by (simp add: array_ok_def chunk_size_def)
  then show ?thesis
    using assms by (simp add: array_ok_def capacity_def item_size_def prototype_size_def unat_mod unat_mult_lem [THEN iffD1])
qed

lemma RecordArray_at_grown:
  assumes "array_ok s" "unat index < unat (ra_size s)"
  shows "\<exists>p t. RecordArray_at index s = (Inr \<lparr>ref_prototype = ra_prototype s, ref_data = p\<rparr>, t) \<and> grown s t \<and> points t (unat index) p"
proof -
  have c: "ra_chunkCapacity s \<noteq> 0" using assms(1) by (auto simp: array_ok_def capacity_def)
  have k: "unat (index div ra_chunkCapacity s) = unat index div capacity s" by (simp add: capacity_def unat_div)
  then have less: "unat (index div ra_chunkCapacity s) < length (ra_chunks s)" using array_ok_covers [OF assms] by simp
  obtain mb t where t: "chunk_at (unat (index div ra_chunkCapacity s)) s = (Inr mb, t)" "grown s t"
    "ra_chunks t ! unat (index div ra_chunkCapacity s) = Some mb"
    using chunk_at_grown [OF assms(1) less] by blast
  have "chunk_ok t mb" using array_ok_chunk [OF grown_array_ok [OF t(2)], of "unat (index div ra_chunkCapacity s)" mb] t(2,3) less
    by (simp add: grown_def)
  then have "mb_itemSize mb = rp_size (snd (ra_prototype s))" using grown_fields [OF t(2)] by (simp add: chunk_ok_def)
  then have "points t (unat index) (MemoryBlock_ItemData mb (index mod ra_chunkCapacity s))"
    using t k less grown_sizes [OF t(2)] unat_item_offset [OF assms(1), of index] by (auto simp: points_def MemoryBlock_ItemData_def grown_def)
  moreover have "RecordArray_at index s = (Inr \<lparr>ref_prototype = ra_prototype s,
      ref_data = MemoryBlock_ItemData mb (index mod ra_chunkCapacity s)\<rparr>, t)"
    using c t(1) by (simp add: RecordArray_at_def ItemData_def RecordConstRef_new_def mth_defs)
  ultimately show ?thesis using t(2) by blast
qed

text \<open>What is written into a chunk is written into the contents.\<close>

lemma write_chunk:
  assumes "array_ok s" "k < length (ra_chunks s)" "ra_chunks s ! k = Some mb" "o1 + length v \<le> chunk_size s"
  shows "array_ok (write_at (Some (mb_data mb, o1)) v s)"
    "content (write_at (Some (mb_data mb, o1)) v s) = overwrite (k * chunk_size s + o1) v (content s)"
proof -
  let ?t = "write_at (Some (mb_data mb, o1)) v s"
  obtain bytes where b: "mem_blocks s (mb_data mb) = Some bytes" "length bytes = chunk_size s"
    using array_ok_chunk [OF assms(1-3)] by (auto simp: chunk_ok_def)
  have sizes: "chunk_size ?t = chunk_size s" "capacity ?t = capacity s" "ra_chunks ?t = ra_chunks s" "ra_size ?t = ra_size s"
    by (simp_all add: chunk_size_def item_size_def capacity_def write_at_def)
  have "chunk_ok ?t m" if "chunk_ok s m" for m
    using that sizes b assms(4) by (auto simp: chunk_ok_def write_at_def)
  then show "array_ok ?t" using assms(1) sizes unfolding array_ok_def by auto
  have "map (chunk_bytes ?t) (ra_chunks ?t) = (map (chunk_bytes s) (ra_chunks s))[k := overwrite o1 v bytes]"
  proof (rule nth_equalityI)
    fix l assume "l < length (map (chunk_bytes ?t) (ra_chunks ?t))"
    then have l: "l < length (ra_chunks s)" by (simp add: sizes)
    show "map (chunk_bytes ?t) (ra_chunks ?t) ! l = (map (chunk_bytes s) (ra_chunks s))[k := overwrite o1 v bytes] ! l"
      using l assms(2,3) b array_ok_apart [OF assms(1) l assms(2) _ assms(3)] sizes
      by (cases "l = k") (auto simp: chunk_bytes_def write_at_def nth_list_update split: option.splits)
  qed (simp add: sizes)
  then have "content ?t = concat ((map (chunk_bytes s) (ra_chunks s))[k := overwrite o1 v bytes])" by (simp only: content_def)
  also have "\<dots> = overwrite (k * chunk_size s + o1) v (content s)"
    using concat_overwrite [OF array_ok_pieces [OF assms(1)], of k o1 v] assms(2-4) b by (simp add: content_def chunk_bytes_def)
  finally show "content ?t = overwrite (k * chunk_size s + o1) v (content s)" .
qed

text \<open>An assignment through a pointer to an item changes that item only.\<close>

lemma write_item:
  assumes "array_ok s" "points s i p" "length v = item_size s"
  shows "array_ok (write_at p v s)" "content (write_at p v s) = overwrite (i * item_size s) v (content s)"
    "points (write_at p v s) j q \<longleftrightarrow> points s j q"
proof -
  obtain mb where mb: "i div capacity s < length (ra_chunks s)" "ra_chunks s ! (i div capacity s) = Some mb"
    "p = Some (mb_data mb, (i mod capacity s) * item_size s)" using assms(2) by (auto simp: points_def)
  have c: "0 < capacity s" using assms(1) by (simp add: array_ok_def)
  note w = item_within [OF c, of i "item_size s", folded chunk_size_def]
  have fits: "(i mod capacity s) * item_size s + length v \<le> chunk_size s" using w(1) assms(3) by simp
  show "array_ok (write_at p v s)" "content (write_at p v s) = overwrite (i * item_size s) v (content s)"
    using write_chunk [OF assms(1) mb(1,2) fits] w(2) mb(3) by simp_all
  show "points (write_at p v s) j q \<longleftrightarrow> points s j q" by (simp add: points_def capacity_def item_size_def write_at_def)
qed

lemma take_drop_overwrite_same: "i + length v \<le> length bytes \<Longrightarrow> take (length v) (drop i (overwrite i v bytes)) = v"
  by (simp add: overwrite_def)

lemma write_item_records:
  assumes "array_ok s" "points s i p" "length v = item_size s" "i < unat (ra_size s)"
  shows "records (write_at p v s) = (records s)[i := v]"
proof (rule nth_equalityI)
  let ?n = "item_size s"
  have sizes: "item_size (write_at p v s) = ?n" "ra_size (write_at p v s) = ra_size s" by (simp_all add: item_size_def write_at_def)
  then show "length (records (write_at p v s)) = length ((records s)[i := v])" by simp
  fix j assume "j < length (records (write_at p v s))"
  then have j: "j < unat (ra_size s)" by (simp add: sizes)
  have fits: "i * ?n + length v \<le> length (content s)" using content_covers [OF assms(1,4)] assms(3) by simp
  have "item (write_at p v s) j = (if j = i then v else item s j)"
  proof (cases "j = i")
    case True
    then show ?thesis using take_drop_overwrite_same [OF fits] write_item(2) [OF assms(1-3)] assms(3) by (simp add: item_def sizes)
  next
    case False
    then have "j * ?n + ?n \<le> i * ?n \<or> i * ?n + ?n \<le> j * ?n"
      using mult_le_mono1 [of "Suc j" i ?n] mult_le_mono1 [of "Suc i" j ?n] by (cases "j < i") auto
    then show ?thesis using take_drop_overwrite [OF _ fits, of "j * ?n" ?n] write_item(2) [OF assms(1-3)] assms(3) False
      by (simp add: item_def sizes)
  qed
  then show "records (write_at p v s) ! j = (records s)[i := v] ! j"
    using j assms(4) by (simp add: records_nth sizes nth_list_update)
qed

end
