(* ===== verification/Record_Sorting.thy ===== *)
theory Record_Sorting
  imports Array_Contents
begin

text \<open>
  \<^verbatim>\<open>plain/Algorithm\<close>: an array is sorted through an index: quick sort orders the numbers of the records, and the records are then
  moved along the cycles of that permutation. Also the search by halving in a stream of records.
\<close>

section \<open>The index\<close>

record SortState = ArrayState +
  si_index :: "int list"

type_synonym ('z, 'a) sort_mth = "('z SortState_scheme, plain_error, 'a) mth"
type_synonym ('z, 'a) sort_loop = "'z SortState_scheme \<Rightarrow> ((plain_error + 'a) \<times> 'z SortState_scheme) option"

type_synonym record_less = "string \<Rightarrow> string \<Rightarrow> bool"

definition index_at :: "int \<Rightarrow> ('z, int) sort_mth" where
  "index_at i s = (if 0 \<le> i \<and> nat i < length (si_index s) then (Inr (si_index s ! nat i), s) else (Inl Undefined, s))"

definition set_index :: "int \<Rightarrow> int \<Rightarrow> ('z, unit) sort_mth" where
  "set_index i k s =
     (if 0 \<le> i \<and> nat i < length (si_index s) then (Inr (), s\<lparr>si_index := (si_index s)[nat i := k]\<rparr>) else (Inl Undefined, s))"

text \<open>\<^verbatim>\<open>array[index[i]]\<close>, and the comparator applied to what two references refer to\<close>

definition array_item :: "int \<Rightarrow> ('z, RecordConstRef) sort_mth" where
  "array_item i = bindM (index_at i) (\<lambda>k. RecordArray_at (word_of_int k))"

definition ref_less :: "record_less \<Rightarrow> RecordConstRef \<Rightarrow> RecordConstRef \<Rightarrow> ('z Memory_scheme, plain_error, bool) mth" where
  "ref_less lt r q = bindM (load (ref_data r) (Ref_Size r)) (\<lambda>x. bindM (load (ref_data q) (Ref_Size q)) (\<lambda>y. returnM (lt x y)))"

section \<open>Quick sort\<close>

text \<open>The loops of \<open>QuickSort\<close> end when the comparator is an order; they may not when it is none.\<close>

partial_function (option) scan_up :: "record_less \<Rightarrow> RecordConstRef \<Rightarrow> int \<Rightarrow> ('z, int) sort_loop" where
  "scan_up lt x i s = (case bindM (array_item i) (\<lambda>r. ref_less lt r x) s of
     (Inl e, s) \<Rightarrow> Some (Inl e, s)
   | (Inr b, s) \<Rightarrow> if b then scan_up lt x (i + 1) s else Some (Inr i, s))"

partial_function (option) scan_down :: "record_less \<Rightarrow> RecordConstRef \<Rightarrow> int \<Rightarrow> ('z, int) sort_loop" where
  "scan_down lt x j s = (case bindM (array_item j) (\<lambda>r. ref_less lt x r) s of
     (Inl e, s) \<Rightarrow> Some (Inl e, s)
   | (Inr b, s) \<Rightarrow> if b then scan_down lt x (j - 1) s else Some (Inr j, s))"

definition exchange :: "int \<Rightarrow> int \<Rightarrow> ('z, int \<times> int) sort_mth" where
  "exchange i j =
     (if i < j then
        bindM (index_at i) (\<lambda>a. bindM (index_at j) (\<lambda>b. bindM (set_index i b) (\<lambda>_. bindM (set_index j a) (\<lambda>_. returnM (i + 1, j - 1)))))
      else if i = j then returnM (i + 1, j - 1)
      else returnM (i, j))"

partial_function (option) partition_loop :: "record_less \<Rightarrow> RecordConstRef \<Rightarrow> int \<Rightarrow> int \<Rightarrow> ('z, int \<times> int) sort_loop" where
  "partition_loop lt x i j s = Option.bind (scan_up lt x i s) (\<lambda>(r, s). case r of Inl e \<Rightarrow> Some (Inl e, s) | Inr i \<Rightarrow>
     Option.bind (scan_down lt x j s) (\<lambda>(r, s). case r of Inl e \<Rightarrow> Some (Inl e, s) | Inr j \<Rightarrow>
       (case exchange i j s of
          (Inl e, s) \<Rightarrow> Some (Inl e, s)
        | (Inr (i, j), s) \<Rightarrow> if i \<le> j then partition_loop lt x i j s else Some (Inr (i, j), s))))"

definition INT_MAX :: int where "INT_MAX = 2 ^ 31 - 1"

partial_function (option) QuickSort :: "record_less \<Rightarrow> int \<Rightarrow> int \<Rightarrow> ('z, unit) sort_loop" where
  "QuickSort lt low high s =
     (if low + high > INT_MAX then Some (Inl Undefined, s)
      else case array_item ((low + high) div 2) s of
        (Inl e, s) \<Rightarrow> Some (Inl e, s)
      | (Inr x, s) \<Rightarrow> Option.bind (partition_loop lt x low high s) (\<lambda>(r, s). case r of Inl e \<Rightarrow> Some (Inl e, s) | Inr (i, j) \<Rightarrow>
          Option.bind (if low < j then QuickSort lt low j s else Some (Inr (), s)) (\<lambda>(r, s). case r of Inl e \<Rightarrow> Some (Inl e, s) | Inr _ \<Rightarrow>
            if i < high then QuickSort lt i high s else Some (Inr (), s))))"

definition identity_index :: "nat \<Rightarrow> int list \<Rightarrow> int list" where
  "identity_index n xs = fold (\<lambda>k xs. xs[k := int k]) [0..<n] xs"

definition BuildIndex :: "record_less \<Rightarrow> ('z, unit) sort_loop" where
  "BuildIndex lt s = (let s = s\<lparr>si_index := identity_index (nat (sint (ra_size s))) (resize (unat (ra_size s)) 0 (si_index s))\<rparr> in
     if ra_size s \<le> 1 then Some (Inr (), s) else QuickSort lt 0 (sint (ra_size s - 1)) s)"

section \<open>Moving the records\<close>

definition array_at :: "int \<Rightarrow> ('z, RecordConstRef) sort_mth" where "array_at k = RecordArray_at (word_of_int k)"

definition move_item :: "int \<Rightarrow> int \<Rightarrow> ('z, int) sort_mth" where
  "move_item dst src = bindM (array_at dst) (\<lambda>r. bindM (array_at src) (\<lambda>q. bindM (RecordRef_Assign r q) (\<lambda>_.
     bindM (set_index dst (- 1)) (\<lambda>_. index_at src))))"

partial_function (option) rotate_loop :: "PlainRecord \<Rightarrow> int \<Rightarrow> int \<Rightarrow> int \<Rightarrow> ('z, unit) sort_loop" where
  "rotate_loop temp i dst src s = (case move_item dst src s of
     (Inl e, s) \<Rightarrow> Some (Inl e, s)
   | (Inr next, s) \<Rightarrow>
       if next \<noteq> i then rotate_loop temp i src next s
       else Some (bindM (array_at src) (\<lambda>r. bindM (RecordRef_Assign r (Record_ref temp)) (\<lambda>_. set_index src (- 1))) s))"

definition arrange_cycle :: "PlainRecord \<Rightarrow> int \<Rightarrow> ('z, unit) sort_loop" where
  "arrange_cycle temp i s = (case index_at i s of
     (Inl e, s) \<Rightarrow> Some (Inl e, s)
   | (Inr k, s) \<Rightarrow>
       if i = k \<or> k = - 1 then Some (Inr (), s)
       else (case bindM (array_at i) (Record_Assign temp) s of
           (Inl e, s) \<Rightarrow> Some (Inl e, s)
         | (Inr _, s) \<Rightarrow> rotate_loop temp i i k s))"

fun arrange_loop :: "PlainRecord \<Rightarrow> nat list \<Rightarrow> ('z, unit) sort_loop" where
  "arrange_loop temp [] s = Some (Inr (), s)"
| "arrange_loop temp (i # is) s = Option.bind (arrange_cycle temp (int i) s) (\<lambda>(r, s). case r of
     Inl e \<Rightarrow> Some (Inl e, s) | Inr _ \<Rightarrow> arrange_loop temp is s)"

definition ArrangeByIndex :: "('z, unit) sort_loop" where
  "ArrangeByIndex s = (case Record_new (ra_prototype s) s of
     (Inl e, s) \<Rightarrow> Some (Inl e, s)
   | (Inr temp, s) \<Rightarrow> Option.bind (arrange_loop temp [0..<nat (sint (ra_size s))] s) (\<lambda>(r, s).
       Some (case Record_destroy temp s of (Inl e, s) \<Rightarrow> (Inl e, s) | (Inr _, s) \<Rightarrow> (r, s))))"

definition Sort :: "record_less \<Rightarrow> ('z, unit) sort_loop" where
  "Sort lt s = (let s = s\<lparr>si_index := resize (unat (ra_size s)) 0 []\<rparr> in
     Option.bind (BuildIndex lt s) (\<lambda>(r, s). case r of Inl e \<Rightarrow> Some (Inl e, s) | Inr _ \<Rightarrow> ArrangeByIndex s))"

section \<open>Search in a stream\<close>

text \<open>A seekable stream is what its \<^verbatim>\<open>Seek\<close>, its \<^verbatim>\<open>Size\<close> and its \<^verbatim>\<open>Read\<close> do. The record at \<open>d\<close> is read again and again; the offset is
  a product of 32 bits. The loop halves, so it ends, unless the sum of the bounds wraps around.\<close>

partial_function (option) stream_search_loop ::
  "PrototypePtr \<Rightarrow> (nat \<Rightarrow> ('st, plain_error, unit) mth) \<Rightarrow> 'st in_stream \<Rightarrow> pointer \<Rightarrow> (string \<Rightarrow> int) \<Rightarrow> UINT_32 \<Rightarrow> UINT_32 \<Rightarrow>
     ('st \<times> 'z Memory_scheme) \<Rightarrow> ((plain_error + bool) \<times> ('st \<times> 'z Memory_scheme)) option" where
  "stream_search_loop P seek rd d cmp left right s =
     (if left < right then
        let middle = (left + right) div 2 in
        case bindM (on_stream (seek (unat (middle * rp_size (snd P))))) (\<lambda>_. bindM (Ref_Read P rd d) (\<lambda>_.
            bindM (on_memory (load d (prototype_size P))) (\<lambda>bytes. returnM (cmp bytes)))) s of
          (Inl e, s) \<Rightarrow> Some (Inl e, s)
        | (Inr result, s) \<Rightarrow>
            if result < 0 then stream_search_loop P seek rd d cmp left middle s
            else if result > 0 then stream_search_loop P seek rd d cmp (middle + 1) right s
            else Some (Inr True, s)
      else Some (Inr False, s))"

definition StreamBinarySearch ::
  "PrototypePtr \<Rightarrow> ('st \<Rightarrow> int) \<Rightarrow> (nat \<Rightarrow> ('st, plain_error, unit) mth) \<Rightarrow> 'st in_stream \<Rightarrow> pointer \<Rightarrow> (string \<Rightarrow> int) \<Rightarrow>
     ('st \<times> 'z Memory_scheme, plain_error, bool) mth" where
  "StreamBinarySearch P stream_size seek rd d cmp s =
     (if rp_size (snd P) = 0 then (Inl RecordSizeIsZero, s)
      else if stream_size (fst s) mod int (prototype_size P) \<noteq> 0 then (Inl SizeIsNotMultiple, s)
      else case stream_search_loop P seek rd d cmp 0 (word_of_int (stream_size (fst s) div int (prototype_size P))) s of
        None \<Rightarrow> (Inl DoesNotReturn, s) | Some r \<Rightarrow> r)"

section \<open>What a step of the sort does\<close>

lemma grown_index: "grown s t \<Longrightarrow> si_index t = si_index s"
proof -
  assume g: "grown s t"
  have "si_index t = si_index s" if "t = s\<lparr>mem_blocks := x, mem_next := y, ra_chunks := z\<rparr>" for x y z
    using that by simp
  then show ?thesis using g unfolding grown_def by blast
qed

text \<open>\<open>shows s rs is\<close>: the array holds the records \<open>rs\<close>, and the index is \<open>is\<close>.\<close>

definition shows_records :: "'z SortState_scheme \<Rightarrow> string list \<Rightarrow> int list \<Rightarrow> bool" where
  "shows_records s rs idx \<longleftrightarrow> array_ok s \<and> records s = rs \<and> si_index s = idx"

lemma shows_grown: "shows_records s rs idx \<Longrightarrow> grown s t \<Longrightarrow> shows_records t rs idx"
  by (auto simp: shows_records_def grown_records grown_index grown_array_ok)

text \<open>A reference to a record that later allocations leave alone\<close>

definition refers :: "'z SortState_scheme \<Rightarrow> RecordConstRef \<Rightarrow> string \<Rightarrow> bool" where
  "refers s r v \<longleftrightarrow> ref_prototype r = ra_prototype s \<and> (\<exists>i. i < unat (ra_size s) \<and> points s i (ref_data r) \<and> item s i = v)"

lemma refers_grown: "refers s r v \<Longrightarrow> grown s t \<Longrightarrow> refers t r v"
  using grown_sizes [of s t] grown_fields [of s t] by (auto simp: refers_def points_grown item_def grown_def)

lemma refers_load: "array_ok s \<Longrightarrow> refers s r v \<Longrightarrow> load (ref_data r) (Ref_Size r) s = (Inr v, s)"
  by (auto simp: refers_def Ref_Size_def points_live load_live simp flip: item_size_def)

lemma ref_less_refers: "array_ok s \<Longrightarrow> refers s r x \<Longrightarrow> refers s q y \<Longrightarrow> ref_less lt r q s = (Inr (lt x y), s)"
  by (simp add: ref_less_def bindM_def refers_load returnM_def)

lemma unat_of_index: "0 \<le> k \<Longrightarrow> k < 2 ^ 32 \<Longrightarrow> unat (word_of_int k :: UINT_32) = nat k"
  by (simp add: unsigned_of_int take_bit_int_eq_self)

lemma array_at_shows:
  assumes "shows_records s rs idx" "0 \<le> k" "k < int (length rs)"
  shows "\<exists>r t. array_at k s = (Inr r, t) \<and> grown s t \<and> refers t r (rs ! nat k) \<and> points t (nat k) (ref_data r)"
proof -
  have s: "array_ok s" "length rs = unat (ra_size s)" "records s = rs" using assms(1) by (auto simp: shows_records_def)
  have "uint (ra_size s) < 2 ^ 32" by (rule order_less_le_trans [OF unsigned_less]) simp
  then have "k < 2 ^ 32" using assms(3) s(2) by simp
  then have k: "unat (word_of_int k :: UINT_32) = nat k" using assms(2) by (intro unat_of_index)
  have less: "nat k < unat (ra_size s)" using assms(2,3) s(2) nat_less_iff by metis
  then obtain p t where t: "RecordArray_at (word_of_int k) s = (Inr \<lparr>ref_prototype = ra_prototype s, ref_data = p\<rparr>, t)" "grown s t" "points t (nat k) p"
    using RecordArray_at_grown [OF s(1), of "word_of_int k"] k by auto
  have "item t (nat k) = rs ! nat k"
    using grown_records [OF t(2)] records_nth [of "nat k" t] s less grown_fields [OF t(2)] by simp
  then have "refers t \<lparr>ref_prototype = ra_prototype s, ref_data = p\<rparr> (rs ! nat k)"
    using t grown_fields [OF t(2)] less by (auto simp: refers_def)
  then show ?thesis using t by (auto simp: array_at_def)
qed

text \<open>Every number in the index is that of a record.\<close>

definition valid_index :: "int list \<Rightarrow> nat \<Rightarrow> bool" where "valid_index idx n \<longleftrightarrow> (\<forall>k \<in> set idx. 0 \<le> k \<and> k < int n)"

definition key :: "string list \<Rightarrow> int list \<Rightarrow> int \<Rightarrow> string" where "key rs idx i = rs ! nat (idx ! nat i)"

lemma array_item_shows:
  assumes "shows_records s rs idx" "valid_index idx (length rs)" "0 \<le> i" "i < int (length idx)"
  shows "\<exists>r t. array_item i s = (Inr r, t) \<and> grown s t \<and> refers t r (key rs idx i)"
proof -
  have "idx ! nat i \<in> set idx" using assms(3,4) by simp
  then obtain r t where "array_at (idx ! nat i) s = (Inr r, t)" "grown s t" "refers t r (key rs idx i)"
    using array_at_shows [OF assms(1), of "idx ! nat i"] assms(2) by (auto simp: valid_index_def key_def)
  then show ?thesis using assms by (auto simp: array_item_def array_at_def bindM_def index_at_def shows_records_def nat_less_iff)
qed

lemma compare_shows:
  assumes "shows_records s rs idx" "valid_index idx (length rs)" "0 \<le> i" "i < int (length idx)" "refers s x v"
  shows "\<exists>t. bindM (array_item i) (\<lambda>r. ref_less lt r x) s = (Inr (lt (key rs idx i) v), t) \<and> shows_records t rs idx \<and> refers t x v"
    "\<exists>t. bindM (array_item i) (\<lambda>r. ref_less lt x r) s = (Inr (lt v (key rs idx i)), t) \<and> shows_records t rs idx \<and> refers t x v"
proof -
  obtain r t where t: "array_item i s = (Inr r, t)" "grown s t" "refers t r (key rs idx i)"
    using array_item_shows [OF assms(1-4)] by blast
  have "array_ok t" "refers t x v" "shows_records t rs idx"
    using t(2) assms(1,5) refers_grown shows_grown grown_array_ok by auto
  then show "\<exists>t. bindM (array_item i) (\<lambda>r. ref_less lt r x) s = (Inr (lt (key rs idx i) v), t) \<and> shows_records t rs idx \<and> refers t x v"
    "\<exists>t. bindM (array_item i) (\<lambda>r. ref_less lt x r) s = (Inr (lt v (key rs idx i)), t) \<and> shows_records t rs idx \<and> refers t x v"
    using t by (auto simp: bindM_def ref_less_refers)
qed

end
