(* ===== verification/Quick_Sort.thy ===== *)
theory Quick_Sort
  imports Record_Sorting "HOL-Library.Multiset"
begin

text \<open>
  Quick sort on the index of an array: its loops return, and the index is a permutation that puts the records in order.
\<close>

section \<open>Assignments to the index\<close>

lemma index_irrelevant [simp]:
  "capacity (s\<lparr>si_index := u\<rparr>) = capacity s" "item_size (s\<lparr>si_index := u\<rparr>) = item_size s" "chunk_size (s\<lparr>si_index := u\<rparr>) = chunk_size s"
  "content (s\<lparr>si_index := u\<rparr>) = content s" "item (s\<lparr>si_index := u\<rparr>) i = item s i" "records (s\<lparr>si_index := u\<rparr>) = records s"
  "array_ok (s\<lparr>si_index := u\<rparr>) \<longleftrightarrow> array_ok s" "points (s\<lparr>si_index := u\<rparr>) i p \<longleftrightarrow> points s i p" "refers (s\<lparr>si_index := u\<rparr>) r v \<longleftrightarrow> refers s r v"
proof -
  show a: "capacity (s\<lparr>si_index := u\<rparr>) = capacity s" by (simp add: capacity_def)
  show b: "item_size (s\<lparr>si_index := u\<rparr>) = item_size s" by (simp add: item_size_def)
  show c: "chunk_size (s\<lparr>si_index := u\<rparr>) = chunk_size s" by (simp add: chunk_size_def a b)
  have "chunk_bytes (s\<lparr>si_index := u\<rparr>) x = chunk_bytes s x" for x by (cases x) (simp_all add: chunk_bytes_def c)
  then have "chunk_bytes (s\<lparr>si_index := u\<rparr>) = chunk_bytes s" by (rule ext)
  then show d: "content (s\<lparr>si_index := u\<rparr>) = content s" by (simp add: content_def)
  show e: "item (s\<lparr>si_index := u\<rparr>) i = item s i" for i by (simp add: item_def b d)
  then show "records (s\<lparr>si_index := u\<rparr>) = records s" by (simp add: records_def)
  show "array_ok (s\<lparr>si_index := u\<rparr>) \<longleftrightarrow> array_ok s" by (simp add: array_ok_def chunk_ok_def a c)
  show f: "points (s\<lparr>si_index := u\<rparr>) i p \<longleftrightarrow> points s i p" for i p by (simp add: points_def a b)
  show "refers (s\<lparr>si_index := u\<rparr>) r v \<longleftrightarrow> refers s r v" by (simp add: refers_def e f)
qed

lemma shows_index: "shows_records s rs idx \<Longrightarrow> shows_records (s\<lparr>si_index := u\<rparr>) rs u"
  by (simp add: shows_records_def)

definition swapped :: "int list \<Rightarrow> int \<Rightarrow> int \<Rightarrow> int list" where
  "swapped idx i j = idx[nat i := idx ! nat j, nat j := idx ! nat i]"

lemma exchange_shows:
  assumes "shows_records s rs idx" "0 \<le> i" "i < j" "j < int (length idx)"
  shows "exchange i j s = (Inr (i + 1, j - 1), s\<lparr>si_index := swapped idx i j\<rparr>)"
  using assms by (auto simp: exchange_def bindM_def index_at_def set_index_def returnM_def shows_records_def swapped_def nat_less_iff)

lemma set_swapped: "0 \<le> i \<Longrightarrow> i < j \<Longrightarrow> j < int (length idx) \<Longrightarrow> mset (swapped idx i j) = mset idx"
  by (simp add: swapped_def mset_swap nat_less_iff)

lemma key_swapped:
  assumes "0 \<le> i" "i < j" "j < int (length idx)" "0 \<le> l"
  shows "key rs (swapped idx i j) l = key rs idx (if l = i then j else if l = j then i else l)"
  using assms by (auto simp: key_def swapped_def nth_list_update nat_eq_iff nat_less_iff)

section \<open>Permutations of a segment\<close>

definition permuted :: "int \<Rightarrow> int \<Rightarrow> int list \<Rightarrow> int list \<Rightarrow> bool" where
  "permuted low high a b \<longleftrightarrow> mset a = mset b \<and> (\<forall>l. 0 \<le> l \<longrightarrow> l < int (length a) \<longrightarrow> l < low \<or> high < l \<longrightarrow> a ! nat l = b ! nat l)"

lemma permuted_length: "permuted low high a b \<Longrightarrow> length b = length a"
  by (metis permuted_def size_mset)

lemma permuted_refl: "permuted low high a a"
  by (simp add: permuted_def)

lemma permuted_trans: "permuted low high a b \<Longrightarrow> permuted low high b c \<Longrightarrow> permuted low high a c"
  using permuted_length [of low high a b] by (auto simp: permuted_def)

lemma permuted_mono: "permuted i j a b \<Longrightarrow> low \<le> i \<Longrightarrow> j \<le> high \<Longrightarrow> permuted low high a b"
  by (auto simp: permuted_def)

lemma permuted_valid: "permuted low high a b \<Longrightarrow> valid_index a n \<Longrightarrow> valid_index b n"
  by (metis permuted_def set_mset_mset valid_index_def)

lemma permuted_swapped:
  assumes "low \<le> i" "i < j" "j \<le> high" "0 \<le> i" "j < int (length idx)"
  shows "permuted low high idx (swapped idx i j)"
  using assms set_swapped [of i j idx] by (auto simp: permuted_def swapped_def nth_list_update nat_eq_iff)

lemma permuted_outside: "permuted low high a b \<Longrightarrow> 0 \<le> l \<Longrightarrow> l < int (length a) \<Longrightarrow> l < low \<or> high < l \<Longrightarrow> key rs b l = key rs a l"
  by (auto simp: permuted_def key_def)

text \<open>What is in the segment after a permutation was in it before.\<close>

lemma permuted_inside:
  assumes "permuted low high a b" "0 \<le> low" "high < int (length a)" "low \<le> l" "l \<le> high"
  shows "\<exists>k. low \<le> k \<and> k \<le> high \<and> b ! nat l = a ! nat k"
proof -
  let ?m = "nat low" and ?n = "nat (high + 1)"
  have len: "length b = length a" by (rule permuted_length [OF assms(1)])
  have mn: "?m \<le> ?n" "?n \<le> length a" "?m \<le> nat l" "nat l < ?n" using assms by auto
  have split: "xs = take ?m xs @ drop ?m (take ?n xs) @ drop ?n xs" if "length xs = length a" for xs :: "int list"
  proof -
    have "xs = take ?n xs @ drop ?n xs" by simp
    also have "take ?n xs = take ?m (take ?n xs) @ drop ?m (take ?n xs)" by (rule append_take_drop_id [symmetric])
    also have "take ?m (take ?n xs) = take ?m xs" by (simp add: min_absorb1 [OF mn(1)])
    finally show ?thesis by (simp only: append_assoc)
  qed
  have same: "a ! i = b ! i" if "i < length a" "i < ?m \<or> ?n \<le> i" for i
  proof -
    have "int i < low \<or> high < int i" using that(2) by linarith
    then show ?thesis using assms(1) that(1) unfolding permuted_def by (metis nat_int of_nat_0_le_iff of_nat_less_iff)
  qed
  have "take ?m a = take ?m b" using same len mn by (intro nth_equalityI) auto
  moreover have "drop ?n a = drop ?n b" using same len mn by (intro nth_equalityI) auto
  moreover have "mset a = mset b" using assms(1) by (simp add: permuted_def)
  ultimately have "mset (drop ?m (take ?n a)) = mset (drop ?m (take ?n b))"
    using split [of a] split [of b] len by (metis add_left_cancel add_right_cancel mset_append)
  then have "set (drop ?m (take ?n a)) = set (drop ?m (take ?n b))" by (metis set_mset_mset)
  moreover have "b ! nat l \<in> set (drop ?m (take ?n b))"
    using mn len by (auto simp: in_set_conv_nth intro!: exI [of _ "nat l - ?m"])
  ultimately have "b ! nat l \<in> set (drop ?m (take ?n a))" by simp
  then obtain i where "i < ?n - ?m" "b ! nat l = a ! (?m + i)" using mn len by (auto simp: in_set_conv_nth)
  then show ?thesis using assms(2) by (intro exI [of _ "low + int i"]) (auto simp: nat_add_distrib)
qed

section \<open>The scans\<close>

definition strict_weak_order :: "record_less \<Rightarrow> bool" where
  "strict_weak_order lt \<longleftrightarrow> (\<forall>x y. lt x y \<longrightarrow> \<not> lt y x) \<and> (\<forall>x y z. \<not> lt x y \<longrightarrow> \<not> lt y z \<longrightarrow> \<not> lt x z)"

lemma scan_up_stops:
  assumes "shows_records s rs idx" "valid_index idx (length rs)" "refers s x v" "0 \<le> i" "i \<le> k" "k < int (length idx)" "\<not> lt (key rs idx k) v"
  shows "\<exists>i' t. scan_up lt x i s = Some (Inr i', t) \<and> i \<le> i' \<and> i' \<le> k \<and> \<not> lt (key rs idx i') v \<and>
    (\<forall>l. i \<le> l \<longrightarrow> l < i' \<longrightarrow> lt (key rs idx l) v) \<and> shows_records t rs idx \<and> refers t x v"
  using assms
proof (induction "nat (k - i)" arbitrary: i s rule: less_induct)
  case less
  obtain t where t: "bindM (array_item i) (\<lambda>r. ref_less lt r x) s = (Inr (lt (key rs idx i) v), t)" "shows_records t rs idx" "refers t x v"
    using compare_shows(1) [OF less.prems(1,2,4) _ less.prems(3), of lt] less.prems(5,6) by auto
  show ?case
  proof (cases "lt (key rs idx i) v")
    case True
    then have "i \<noteq> k" using less.prems(7) by auto
    then obtain i' u where "scan_up lt x (i + 1) t = Some (Inr i', u)" "i + 1 \<le> i'" "i' \<le> k" "\<not> lt (key rs idx i') v"
      "\<forall>l. i + 1 \<le> l \<longrightarrow> l < i' \<longrightarrow> lt (key rs idx l) v" "shows_records u rs idx" "refers u x v"
      using less.hyps [of "i + 1" t] less.prems t by auto
    moreover have "l = i \<or> i + 1 \<le> l" if "i \<le> l" for l using that by linarith
    ultimately show ?thesis using True t by (subst scan_up.simps) (auto intro!: exI [of _ i'])
  next
    case False
    then show ?thesis using t less.prems(5) by (subst scan_up.simps) (auto intro!: exI [of _ i])
  qed
qed

lemma scan_down_stops:
  assumes "shows_records s rs idx" "valid_index idx (length rs)" "refers s x v" "0 \<le> k" "k \<le> j" "j < int (length idx)" "\<not> lt v (key rs idx k)"
  shows "\<exists>j' t. scan_down lt x j s = Some (Inr j', t) \<and> j' \<le> j \<and> k \<le> j' \<and> \<not> lt v (key rs idx j') \<and>
    (\<forall>l. j' < l \<longrightarrow> l \<le> j \<longrightarrow> lt v (key rs idx l)) \<and> shows_records t rs idx \<and> refers t x v"
  using assms
proof (induction "nat (j - k)" arbitrary: j s rule: less_induct)
  case less
  obtain t where t: "bindM (array_item j) (\<lambda>r. ref_less lt x r) s = (Inr (lt v (key rs idx j)), t)" "shows_records t rs idx" "refers t x v"
    using compare_shows(2) [OF less.prems(1,2) _ less.prems(6,3), of lt] less.prems(4,5) by auto
  show ?case
  proof (cases "lt v (key rs idx j)")
    case True
    then have "j \<noteq> k" using less.prems(7) by auto
    then obtain j' u where "scan_down lt x (j - 1) t = Some (Inr j', u)" "j' \<le> j - 1" "k \<le> j'" "\<not> lt v (key rs idx j')"
      "\<forall>l. j' < l \<longrightarrow> l \<le> j - 1 \<longrightarrow> lt v (key rs idx l)" "shows_records u rs idx" "refers u x v"
      using less.hyps [of "j - 1" t] less.prems t by auto
    moreover have "l = j \<or> l \<le> j - 1" if "l \<le> j" for l using that by linarith
    ultimately show ?thesis using True t by (subst scan_down.simps) (auto intro!: exI [of _ j'])
  next
    case False
    then show ?thesis using t less.prems(5) by (subst scan_down.simps) (auto intro!: exI [of _ j])
  qed
qed

section \<open>The partition\<close>

definition parted :: "record_less \<Rightarrow> string list \<Rightarrow> int list \<Rightarrow> string \<Rightarrow> int \<Rightarrow> int \<Rightarrow> int \<Rightarrow> int \<Rightarrow> bool" where
  "parted lt rs idx v low high i j \<longleftrightarrow>
     (\<forall>l. low \<le> l \<longrightarrow> l < i \<longrightarrow> \<not> lt v (key rs idx l)) \<and> (\<forall>l. j < l \<longrightarrow> l \<le> high \<longrightarrow> \<not> lt (key rs idx l) v)"

lemma parted_scans:
  assumes "strict_weak_order lt" "parted lt rs idx v low high i j"
    "\<forall>l. i \<le> l \<longrightarrow> l < i' \<longrightarrow> lt (key rs idx l) v" "\<forall>l. j' < l \<longrightarrow> l \<le> j \<longrightarrow> lt v (key rs idx l)"
  shows "parted lt rs idx v low high i' j'"
  using assms unfolding parted_def strict_weak_order_def by (meson not_le)

lemma parted_swapped:
  assumes "parted lt rs idx v low high i j" "\<not> lt (key rs idx i) v" "\<not> lt v (key rs idx j)" "0 \<le> low" "low \<le> i" "i < j" "j \<le> high"
    "high < int (length idx)"
  shows "parted lt rs (swapped idx i j) v low high (i + 1) (j - 1)"
proof -
  have k: "key rs (swapped idx i j) l = key rs idx (if l = i then j else if l = j then i else l)" if "0 \<le> l" for l
    using key_swapped [of i j idx l rs] assms that by simp
  show ?thesis
    unfolding parted_def
  proof (intro conjI allI impI)
    show "\<not> lt v (key rs (swapped idx i j) l)" if "low \<le> l" "l < i + 1" for l
      using that assms k [of l] by (cases "l = i") (auto simp: parted_def)
    show "\<not> lt (key rs (swapped idx i j) l) v" if "j - 1 < l" "l \<le> high" for l
      using that assms k [of l] by (cases "l = j") (auto simp: parted_def)
  qed
qed

lemma parted_met:
  assumes "parted lt rs idx v low high i i" "\<not> lt (key rs idx i) v" "\<not> lt v (key rs idx i)"
  shows "parted lt rs idx v low high (i + 1) (i - 1)"
  unfolding parted_def
proof (intro conjI allI impI)
  show "\<not> lt v (key rs idx l)" if "low \<le> l" "l < i + 1" for l
    using that assms by (cases "l = i") (auto simp: parted_def)
  show "\<not> lt (key rs idx l) v" if "i - 1 < l" "l \<le> high" for l
    using that assms by (cases "l = i") (auto simp: parted_def)
qed

text \<open>What stops the scans: at first a record that is equivalent to the pivot, then what has been exchanged.\<close>

definition guarded :: "record_less \<Rightarrow> string list \<Rightarrow> int list \<Rightarrow> string \<Rightarrow> int \<Rightarrow> int \<Rightarrow> int \<Rightarrow> int \<Rightarrow> bool" where
  "guarded lt rs idx v low high i j \<longleftrightarrow>
     (\<exists>k. i \<le> k \<and> k \<le> j \<and> \<not> lt (key rs idx k) v \<and> \<not> lt v (key rs idx k)) \<or> low < i \<and> j < high"

lemma guarded_stops:
  assumes "guarded lt rs idx v low high i j" "parted lt rs idx v low high i j" "low \<le> i" "i \<le> j" "j \<le> high"
  shows "\<exists>k. i \<le> k \<and> k \<le> high \<and> \<not> lt (key rs idx k) v" "\<exists>k. low \<le> k \<and> k \<le> j \<and> \<not> lt v (key rs idx k)"
proof -
  have "\<not> lt (key rs idx (j + 1)) v" "\<not> lt v (key rs idx (i - 1))" if "low < i" "j < high"
    using assms(2) that by (auto simp: parted_def)
  then have either: "(\<exists>k. i \<le> k \<and> k \<le> j \<and> \<not> lt (key rs idx k) v \<and> \<not> lt v (key rs idx k)) \<or>
      low < i \<and> j < high \<and> \<not> lt (key rs idx (j + 1)) v \<and> \<not> lt v (key rs idx (i - 1))"
    using assms(1) by (auto simp: guarded_def)
  show "\<exists>k. i \<le> k \<and> k \<le> high \<and> \<not> lt (key rs idx k) v"
    using either
  proof
    assume "low < i \<and> j < high \<and> \<not> lt (key rs idx (j + 1)) v \<and> \<not> lt v (key rs idx (i - 1))"
    then show ?thesis using assms(4) by (intro exI [of _ "j + 1"]) simp
  qed (use assms(5) in force)
  show "\<exists>k. low \<le> k \<and> k \<le> j \<and> \<not> lt v (key rs idx k)"
    using either
  proof
    assume "low < i \<and> j < high \<and> \<not> lt (key rs idx (j + 1)) v \<and> \<not> lt v (key rs idx (i - 1))"
    then show ?thesis using assms(4) by (intro exI [of _ "i - 1"]) simp
  qed (use assms(3) order.trans in blast)
qed

lemma guarded_meets:
  assumes "guarded lt rs idx v low high i j" "\<forall>l. i \<le> l \<longrightarrow> l < i' \<longrightarrow> lt (key rs idx l) v" "\<forall>l. j' < l \<longrightarrow> l \<le> j \<longrightarrow> lt v (key rs idx l)"
  shows "i' \<le> j' \<or> low < i \<and> j < high"
  using assms unfolding guarded_def by (meson not_le order.trans)

lemma partition_loop_parts:
  assumes "shows_records s rs idx" "valid_index idx (length rs)" "refers s x v" "strict_weak_order lt" "0 \<le> low" "low \<le> i" "i \<le> j" "j \<le> high"
    "high < int (length idx)" "parted lt rs idx v low high i j" "guarded lt rs idx v low high i j"
  shows "\<exists>i' j' idx' t. partition_loop lt x i j s = Some (Inr (i', j'), t) \<and> shows_records t rs idx' \<and> permuted low high idx idx' \<and>
    parted lt rs idx' v low high i' j' \<and> j' < i' \<and> low < i' \<and> j' < high \<and> low - 1 \<le> j' \<and> i' \<le> high + 1"
  using assms
proof (induction "nat (j - i)" arbitrary: i j idx s rule: less_induct)
  case less
  note p = less.prems
  obtain ku where ku: "i \<le> ku" "ku \<le> high" "\<not> lt (key rs idx ku) v" using guarded_stops(1) [OF p(11,10,6,7,8)] by auto
  obtain kd where kd: "low \<le> kd" "kd \<le> j" "\<not> lt v (key rs idx kd)" using guarded_stops(2) [OF p(11,10,6,7,8)] by auto
  have bounds: "0 \<le> i" "ku < int (length idx)" "0 \<le> kd" "j < int (length idx)" using p(5,6,8,9) ku kd by auto
  obtain i1 s1 where i1: "scan_up lt x i s = Some (Inr i1, s1)" "i \<le> i1" "i1 \<le> ku" "\<not> lt (key rs idx i1) v"
    "\<forall>l. i \<le> l \<longrightarrow> l < i1 \<longrightarrow> lt (key rs idx l) v" "shows_records s1 rs idx" "refers s1 x v"
    using scan_up_stops [where lt = lt and k = ku and i = i, OF p(1-3) bounds(1) ku(1) bounds(2) ku(3)] by auto
  obtain j1 s2 where j1: "scan_down lt x j s1 = Some (Inr j1, s2)" "j1 \<le> j" "kd \<le> j1" "\<not> lt v (key rs idx j1)"
    "\<forall>l. j1 < l \<longrightarrow> l \<le> j \<longrightarrow> lt v (key rs idx l)" "shows_records s2 rs idx" "refers s2 x v"
    using scan_down_stops [where lt = lt and k = kd and j = j, OF i1(6) p(2) i1(7) bounds(3) kd(2) bounds(4) kd(3)] by auto
  have parted: "parted lt rs idx v low high i1 j1" by (rule parted_scans [OF p(4,10) i1(5) j1(5)])
  have run: "partition_loop lt x i j s = (case exchange i1 j1 s2 of
       (Inl e, s) \<Rightarrow> Some (Inl e, s) | (Inr (i, j), s) \<Rightarrow> if i \<le> j then partition_loop lt x i j s else Some (Inr (i, j), s))"
    using i1(1) j1(1) by (subst partition_loop.simps) simp
  consider "i1 < j1" | "i1 = j1" | "j1 < i1" by linarith
  then show ?case
  proof cases
    case 1
    let ?idx = "swapped idx i1 j1" and ?t = "s2\<lparr>si_index := swapped idx i1 j1\<rparr>"
    have b: "0 \<le> i1" "j1 < int (length idx)" "low \<le> i1" "j1 \<le> high" using bounds p(6,8) i1(2) j1(2) by auto
    have ex: "exchange i1 j1 s2 = (Inr (i1 + 1, j1 - 1), ?t)" by (rule exchange_shows [OF j1(6) b(1) 1 b(2)])
    have perm: "permuted low high idx ?idx" using permuted_swapped b 1 by simp
    have t: "shows_records ?t rs ?idx" "refers ?t x v" using shows_index [OF j1(6)] j1(7) by auto
    have parted': "parted lt rs ?idx v low high (i1 + 1) (j1 - 1)"
      using parted_swapped [OF parted i1(4) j1(4) p(5) b(3) 1 b(4) p(9)] .
    show ?thesis
    proof (cases "i1 + 1 \<le> j1 - 1")
      case True
      have "guarded lt rs ?idx v low high (i1 + 1) (j1 - 1)" using b by (simp add: guarded_def)
      moreover have "high < int (length ?idx)" using p(9) by (simp add: swapped_def)
      moreover have "nat (j1 - 1 - (i1 + 1)) < nat (j - i)" using True i1(2) j1(2) by auto
      ultimately obtain i' j' idx' u where u: "partition_loop lt x (i1 + 1) (j1 - 1) ?t = Some (Inr (i', j'), u)" "shows_records u rs idx'"
        "permuted low high ?idx idx'" "parted lt rs idx' v low high i' j'" "j' < i'" "low < i'" "j' < high" "low - 1 \<le> j'" "i' \<le> high + 1"
        using less.hyps [of "j1 - 1" "i1 + 1" ?t ?idx] t parted' p(4,5) permuted_valid [OF perm p(2)] True b by auto
      then show ?thesis using run ex True permuted_trans [OF perm u(3)] by (intro exI [of _ i'] exI [of _ j'] exI [of _ idx'] exI [of _ u]) simp
    next
      case False
      then show ?thesis using run ex t perm parted' 1 b
        by (intro exI [of _ "i1 + 1"] exI [of _ "j1 - 1"] exI [of _ ?idx] exI [of _ ?t]) simp
    qed
  next
    case 2
    have "exchange i1 j1 s2 = (Inr (i1 + 1, j1 - 1), s2)" using 2 by (simp add: exchange_def returnM_def)
    moreover have "parted lt rs idx v low high (i1 + 1) (j1 - 1)" using parted_met [of lt rs idx v low high i1] parted i1(4) j1(4) 2 by simp
    ultimately show ?thesis using run j1(6) permuted_refl 2 i1(2) j1(2) p(6,8)
      by (intro exI [of _ "i1 + 1"] exI [of _ "j1 - 1"] exI [of _ idx] exI [of _ s2]) simp
  next
    case 3
    have "exchange i1 j1 s2 = (Inr (i1, j1), s2)" using 3 by (simp add: exchange_def returnM_def)
    moreover have "low < i" "j < high" using guarded_meets [OF p(11) i1(5) j1(5)] 3 by auto
    ultimately show ?thesis using run j1(6) permuted_refl 3 parted i1(2,3) j1(2,3) ku(2) kd(1)
      by (intro exI [of _ i1] exI [of _ j1] exI [of _ idx] exI [of _ s2]) simp
  qed
qed

section \<open>The sort of the index\<close>

definition ordered :: "record_less \<Rightarrow> string list \<Rightarrow> int list \<Rightarrow> int \<Rightarrow> int \<Rightarrow> bool" where
  "ordered lt rs idx low high \<longleftrightarrow> (\<forall>k l. low \<le> k \<longrightarrow> k < l \<longrightarrow> l \<le> high \<longrightarrow> \<not> lt (key rs idx l) (key rs idx k))"

lemma permuted_key:
  assumes "permuted low high a b" "0 \<le> low" "high < int (length a)" "low \<le> l" "l \<le> high"
  shows "\<exists>k. low \<le> k \<and> k \<le> high \<and> key rs b l = key rs a k"
  using permuted_inside [OF assms] by (auto simp: key_def)

lemma parted_low:
  assumes "parted lt rs a v low high i j" "permuted low j a b" "j < i" "0 \<le> low" "high < int (length a)" "j \<le> high" "i \<le> high + 1" "low - 1 \<le> j"
  shows "parted lt rs b v low high i j"
  unfolding parted_def
proof (intro conjI allI impI)
  show "\<not> lt v (key rs b l)" if "low \<le> l" "l < i" for l
  proof (cases "l \<le> j")
    case True
    then obtain k where "low \<le> k" "k \<le> j" "key rs b l = key rs a k" using permuted_key [OF assms(2,4), of l] assms(5,6) \<open>low \<le> l\<close> by auto
    then show ?thesis using assms(1,3) by (auto simp: parted_def)
  next
    case False
    then show ?thesis using permuted_outside [OF assms(2), of l] that assms(1,4,5,7) by (auto simp: parted_def)
  qed
  show "\<not> lt (key rs b l) v" if "j < l" "l \<le> high" for l
    using permuted_outside [OF assms(2), of l] that assms(1,4,5,8) by (auto simp: parted_def)
qed

lemma parted_high:
  assumes "parted lt rs a v low high i j" "permuted i high a b" "j < i" "0 \<le> low" "high < int (length a)" "low < i" "low - 1 \<le> j" "i \<le> high + 1"
  shows "parted lt rs b v low high i j"
  unfolding parted_def
proof (intro conjI allI impI)
  show "\<not> lt v (key rs b l)" if "low \<le> l" "l < i" for l
    using permuted_outside [OF assms(2), of l] that assms(1,4,5,8) by (auto simp: parted_def)
  show "\<not> lt (key rs b l) v" if "j < l" "l \<le> high" for l
  proof (cases "i \<le> l")
    case True
    then obtain k where "i \<le> k" "k \<le> high" "key rs b l = key rs a k" using permuted_key [OF assms(2), of l] assms(4,5,6) \<open>l \<le> high\<close> by auto
    then show ?thesis using assms(1,3) by (auto simp: parted_def)
  next
    case False
    then show ?thesis using permuted_outside [OF assms(2), of l] that assms(1,4,5,7) by (auto simp: parted_def)
  qed
qed

lemma ordered_outside:
  assumes "ordered lt rs a low high" "permuted p q a b" "0 \<le> low" "high < int (length a)" "high < p"
  shows "ordered lt rs b low high"
  using assms permuted_outside [OF assms(2)] by (auto simp: ordered_def)

lemma ordered_parts:
  assumes "strict_weak_order lt" "parted lt rs idx v low high i j" "ordered lt rs idx low j" "ordered lt rs idx i high"
  shows "ordered lt rs idx low high"
  unfolding ordered_def
proof (intro allI impI)
  fix k l assume kl: "low \<le> k" "k < l" "l \<le> high"
  consider "l \<le> j" | "i \<le> k" | "j < l" "k < i" by linarith
  then show "\<not> lt (key rs idx l) (key rs idx k)"
    using kl assms unfolding ordered_def parted_def strict_weak_order_def by cases (meson order.trans less_imp_le)+
qed

lemma QuickSort_sorts:
  assumes "shows_records s rs idx" "valid_index idx (length rs)" "strict_weak_order lt" "0 \<le> low" "low \<le> high" "high < int (length idx)"
    "int (length idx) \<le> 2 ^ 30"
  shows "\<exists>idx' t. QuickSort lt low high s = Some (Inr (), t) \<and> shows_records t rs idx' \<and> permuted low high idx idx' \<and> ordered lt rs idx' low high"
  using assms
proof (induction "nat (high - low)" arbitrary: low high idx s rule: less_induct)
  case less
  note p = less.prems
  let ?m = "(low + high) div 2"
  have m: "low \<le> ?m" "?m \<le> high" "0 \<le> ?m" "?m < int (length idx)" "\<not> low + high > INT_MAX" using p(4-7) by (auto simp: INT_MAX_def)
  obtain x s1 where x: "array_item ?m s = (Inr x, s1)" "grown s s1" "refers s1 x (key rs idx ?m)"
    using array_item_shows [OF p(1,2) m(3,4)] by auto
  let ?v = "key rs idx ?m"
  have "shows_records s1 rs idx" using shows_grown p(1) x(2) by auto
  moreover have "guarded lt rs idx ?v low high low high" using m(1,2) p(3) unfolding guarded_def strict_weak_order_def by blast
  moreover have "parted lt rs idx ?v low high low high" by (auto simp: parted_def)
  ultimately obtain i j idx1 s2 where q: "partition_loop lt x low high s1 = Some (Inr (i, j), s2)" "shows_records s2 rs idx1"
    "permuted low high idx idx1" "parted lt rs idx1 ?v low high i j" "j < i" "low < i" "j < high" "low - 1 \<le> j" "i \<le> high + 1"
    using partition_loop_parts [OF _ p(2) x(3) p(3,4) order_refl p(5) order_refl p(6)] by blast
  have len1: "length idx1 = length idx" by (rule permuted_length [OF q(3)])
  obtain idx2 s3 where l: "(if low < j then QuickSort lt low j s2 else Some (Inr (), s2)) = Some (Inr (), s3)" "shows_records s3 rs idx2"
    "permuted low j idx1 idx2" "ordered lt rs idx2 low j"
  proof (cases "low < j")
    case True
    then show ?thesis
      using less.hyps [where low = low and high = j and s = s2 and idx = idx1] q(2,7) permuted_valid [OF q(3) p(2)] p(3-7) len1 that by auto
  next
    case False
    then show ?thesis using that [of s2 idx1] q(2) permuted_refl by (auto simp: ordered_def)
  qed
  have len2: "length idx2 = length idx" using permuted_length [OF l(3)] len1 by simp
  obtain idx3 s4 where h: "(if i < high then QuickSort lt i high s3 else Some (Inr (), s3)) = Some (Inr (), s4)" "shows_records s4 rs idx3"
    "permuted i high idx2 idx3" "ordered lt rs idx3 i high"
  proof (cases "i < high")
    case True
    then show ?thesis
      using less.hyps [where low = i and high = high and s = s3 and idx = idx2] l(2) q(6) permuted_valid [OF l(3) permuted_valid [OF q(3) p(2)]] p(3-7) len2 that by auto
  next
    case False
    then show ?thesis using that [of s3 idx2] l(2) permuted_refl by (auto simp: ordered_def)
  qed
  have "parted lt rs idx2 ?v low high i j" using parted_low [OF q(4) l(3) q(5) p(4)] q p(6) len1 by simp
  then have "parted lt rs idx3 ?v low high i j" using parted_high [OF _ h(3) q(5) p(4) _ q(6)] q p(6) len2 by simp
  moreover have "ordered lt rs idx3 low j" using ordered_outside [OF l(4) h(3) p(4)] q p(6) len2 by simp
  ultimately have "ordered lt rs idx3 low high" using ordered_parts [OF p(3) _ _ h(4)] by blast
  moreover have "permuted low high idx idx3"
    using permuted_trans [OF q(3)] permuted_trans [OF permuted_mono [OF l(3)] permuted_mono [OF h(3)]] q by (meson less_imp_le order_refl)
  ultimately show ?case using x(1) q(1) l(1) h(1,2) m(5) by (subst QuickSort.simps) (simp, blast)
qed

end
