(* ===== verification/Array_Sort.thy ===== *)
theory Array_Sort
  imports Quick_Sort
begin

text \<open>
  The second half of the sort: the records are moved along the cycles of the permutation. Together with the first half this
  sorts the array.
\<close>

section \<open>The temporary record\<close>

text \<open>\<open>holds s temp v\<close>: the temporary record is in a block of its own and has the bytes \<open>v\<close>.\<close>

definition holds :: "'z SortState_scheme \<Rightarrow> PlainRecord \<Rightarrow> string \<Rightarrow> bool" where
  "holds s temp v \<longleftrightarrow> rec_prototype temp = ra_prototype s \<and> rec_data temp < mem_next s \<and> mem_blocks s (rec_data temp) = Some v \<and>
     length v = item_size s \<and> (\<forall>mb. Some mb \<in> set (ra_chunks s) \<longrightarrow> mb_data mb \<noteq> rec_data temp)"

lemma holds_grown: "holds s temp v \<Longrightarrow> grown s t \<Longrightarrow> holds t temp v"
  using grown_sizes [of s t] grown_fields [of s t] by (fastforce simp: holds_def grown_def in_set_conv_nth)

text \<open>The array does not depend on the blocks that are not its chunks.\<close>

lemma other_block:
  assumes "array_ok s" "\<forall>mb. Some mb \<in> set (ra_chunks s) \<longrightarrow> mb_data mb \<noteq> b" "mem_next s \<le> n"
  shows "grown s (s\<lparr>mem_blocks := (mem_blocks s)(b := w), mem_next := n\<rparr>) \<or> b < mem_next s"
    "array_ok (s\<lparr>mem_blocks := (mem_blocks s)(b := w), mem_next := n\<rparr>)"
    "content (s\<lparr>mem_blocks := (mem_blocks s)(b := w), mem_next := n\<rparr>) = content s"
proof -
  let ?t = "s\<lparr>mem_blocks := (mem_blocks s)(b := w), mem_next := n\<rparr>"
  have sizes: "chunk_size ?t = chunk_size s" "capacity ?t = capacity s" by (simp_all add: chunk_size_def item_size_def capacity_def)
  have "chunk_ok ?t mb" if "Some mb \<in> set (ra_chunks s)" for mb
    using assms that sizes by (fastforce simp: chunk_ok_def array_ok_def)
  then show ok: "array_ok ?t" using assms(1) sizes by (simp add: array_ok_def)
  have "map (chunk_bytes ?t) (ra_chunks s) = map (chunk_bytes s) (ra_chunks s)"
  proof (rule map_cong [OF refl])
    show "chunk_bytes ?t c = chunk_bytes s c" if "c \<in> set (ra_chunks s)" for c
      using assms(2) that sizes by (cases c) (auto simp: chunk_bytes_def)
  qed
  from arg_cong [OF this, of concat] show c: "content ?t = content s" by (simp add: content_def)
  show "grown s ?t \<or> b < mem_next s" using ok c assms(3) by (auto simp: grown_def)
qed

lemma write_other:
  assumes "array_ok s" "\<forall>mb. Some mb \<in> set (ra_chunks s) \<longrightarrow> mb_data mb \<noteq> fst (the p)"
  shows "array_ok (write_at p v s)" "content (write_at p v s) = content s"
  using other_block [OF assms, of "mem_next s"] by (simp_all add: write_at_def)

lemma records_same_content:
  "content t = content s \<Longrightarrow> ra_prototype t = ra_prototype s \<Longrightarrow> ra_size t = ra_size s \<Longrightarrow> records t = records s"
  by (simp add: records_def item_def [abs_def] item_size_def)

lemma array_ok_next: "array_ok s \<Longrightarrow> Some mb \<in> set (ra_chunks s) \<Longrightarrow> mb_data mb < mem_next s"
  by (simp add: array_ok_def chunk_ok_def)

lemma Record_new_shows:
  assumes "shows_records s rs idx"
  shows "\<exists>temp t v. Record_new (ra_prototype s) s = (Inr temp, t) \<and> shows_records t rs idx \<and> holds t temp v \<and> ra_size t = ra_size s"
proof -
  let ?v = "replicate (item_size s) CHR 0x00"
  let ?t = "s\<lparr>mem_blocks := (mem_blocks s)(mem_next s := Some ?v), mem_next := Suc (mem_next s)\<rparr>"
  have s: "array_ok s" using assms by (simp add: shows_records_def)
  have fresh: "\<forall>mb. Some mb \<in> set (ra_chunks s) \<longrightarrow> mb_data mb \<noteq> mem_next s" using array_ok_next [OF s] by fastforce
  have "grown s ?t" using other_block(1) [OF s fresh, of "Suc (mem_next s)" "Some ?v"] by simp
  moreover have "holds ?t \<lparr>rec_prototype = ra_prototype s, rec_data = mem_next s\<rparr> ?v"
    using fresh by (simp add: holds_def item_size_def)
  moreover have "Record_new (ra_prototype s) s = (Inr \<lparr>rec_prototype = ra_prototype s, rec_data = mem_next s\<rparr>, ?t)"
    by (simp add: Record_new_def new_block_def mth_defs item_size_def)
  ultimately show ?thesis using shows_grown [OF assms, of ?t] by auto
qed

lemma Record_destroy_shows:
  assumes "shows_records s rs idx" "holds s temp v"
  shows "\<exists>t. Record_destroy temp s = (Inr (), t) \<and> shows_records t rs idx"
proof -
  have "array_ok s" using assms(1) by (simp add: shows_records_def)
  then have "array_ok (s\<lparr>mem_blocks := (mem_blocks s)(rec_data temp := None)\<rparr>)"
    "content (s\<lparr>mem_blocks := (mem_blocks s)(rec_data temp := None)\<rparr>) = content s"
    using other_block(2,3) [of s "rec_data temp" "mem_next s" None] assms(2) by (auto simp: holds_def)
  then show ?thesis
    using assms records_same_content [of "s\<lparr>mem_blocks := (mem_blocks s)(rec_data temp := None)\<rparr>" s]
    by (simp add: Record_destroy_def delete_block_def holds_def shows_records_def)
qed

section \<open>Moves\<close>

lemma points_apart:
  assumes "array_ok s" "points s i p" "points s j q" "i \<noteq> j"
  shows "apart p (item_size s) q (item_size s)"
proof (cases "i div capacity s = j div capacity s")
  case True
  then have "i mod capacity s \<noteq> j mod capacity s" using assms(4) by (metis div_mod_decomp)
  then have "Suc (i mod capacity s) \<le> j mod capacity s \<or> Suc (j mod capacity s) \<le> i mod capacity s" by linarith
  then have "Suc (i mod capacity s) * item_size s \<le> (j mod capacity s) * item_size s \<or>
      Suc (j mod capacity s) * item_size s \<le> (i mod capacity s) * item_size s" by (meson mult_le_mono1)
  then show ?thesis using assms(2,3) by (auto simp: points_def apart_def)
next
  case False
  then show ?thesis
    using assms array_ok_apart [OF assms(1), of "i div capacity s" "j div capacity s"] by (auto simp: points_def apart_def)
qed

lemma holds_apart: "holds s temp v \<Longrightarrow> points s i p \<Longrightarrow> apart (Some (rec_data temp, 0)) n p m \<and> apart p m (Some (rec_data temp, 0)) n"
  by (fastforce simp: holds_def points_def apart_def in_set_conv_nth)

lemma holds_live: "holds s temp v \<Longrightarrow> live (Some (rec_data temp, 0)) (item_size s) s \<and> bytes_at (Some (rec_data temp, 0)) (item_size s) s = v"
  by (simp add: holds_def live_def bytes_at_def)

lemma holds_write:
  "holds s temp v \<Longrightarrow> points s i p \<Longrightarrow> holds (write_at p w s) temp v"
  by (fastforce simp: holds_def points_def write_at_def item_size_def in_set_conv_nth)

lemma two_items:
  assumes "shows_records s rs idx" "holds s temp v" "0 \<le> i" "i < int (length rs)" "0 \<le> j" "j < int (length rs)"
  shows "\<exists>r q t u. array_at i s = (Inr r, t) \<and> array_at j t = (Inr q, u) \<and> shows_records u rs idx \<and> holds u temp v \<and>
    refers u r (rs ! nat i) \<and> points u (nat i) (ref_data r) \<and> refers u q (rs ! nat j) \<and> points u (nat j) (ref_data q)"
proof -
  obtain r t where t: "array_at i s = (Inr r, t)" "grown s t" "refers t r (rs ! nat i)" "points t (nat i) (ref_data r)"
    using array_at_shows [OF assms(1,3,4)] by blast
  have "shows_records t rs idx" "holds t temp v" using shows_grown holds_grown assms(1,2) t(2) by auto
  moreover from this obtain q u where "array_at j t = (Inr q, u)" "grown t u" "refers u q (rs ! nat j)" "points u (nat j) (ref_data q)"
    using array_at_shows [OF _ assms(5,6)] by blast
  ultimately show ?thesis using t shows_grown holds_grown refers_grown points_grown by blast
qed

lemma set_index_shows:
  assumes "shows_records s rs idx" "0 \<le> i" "i < int (length idx)"
  shows "set_index i k s = (Inr (), s\<lparr>si_index := idx[nat i := k]\<rparr>)" "shows_records (s\<lparr>si_index := idx[nat i := k]\<rparr>) rs (idx[nat i := k])"
  using assms shows_index [OF assms(1)] by (auto simp: set_index_def shows_records_def nat_less_iff)

lemma holds_index [simp]: "holds (s\<lparr>si_index := u\<rparr>) temp v \<longleftrightarrow> holds s temp v"
  by (simp add: holds_def)

lemma Assign_item:
  assumes "shows_records s rs idx" "refers s r x" "points s (nat i) (ref_data r)" "nat i < length rs" "ref_prototype q = ra_prototype s"
    "live (ref_data q) (item_size s) s" "bytes_at (ref_data q) (item_size s) s = w" "apart (ref_data r) (item_size s) (ref_data q) (item_size s)"
  shows "RecordRef_Assign r q s = (Inr (), write_at (ref_data r) w s) \<and> shows_records (write_at (ref_data r) w s) (rs[nat i := w]) idx"
proof -
  have s: "array_ok s" "records s = rs" "si_index s = idx" using assms(1) by (auto simp: shows_records_def)
  have r: "ref_prototype r = ra_prototype s" using assms(2) by (simp add: refers_def)
  have w: "length w = item_size s" using length_bytes_at [OF assms(6)] assms(7) by simp
  have "memcpy (ref_data r) (ref_data q) (item_size s) s = (Inr (), write_at (ref_data r) w s)"
    using memcpy_live [OF points_live(1) [OF s(1) assms(3)] assms(6,8)] assms(7) by simp
  moreover have "nat i < unat (ra_size s)" using assms(4) s(2) by auto
  then have "records (write_at (ref_data r) w s) = rs[nat i := w]" using write_item_records [OF s(1) assms(3) w] s(2) by simp
  ultimately show ?thesis
    using write_item(1) [OF s(1) assms(3) w] s(3) r assms(5)
    by (simp add: RecordRef_Assign_def Ref_Size_def shows_records_def item_size_def write_at_def)
qed

lemma move_item_shows:
  assumes "shows_records s rs idx" "holds s temp v" "length idx = length rs" "0 \<le> i" "i < int (length rs)" "0 \<le> j" "j < int (length rs)" "i \<noteq> j"
  shows "\<exists>t. move_item i j s = (Inr (idx ! nat j), t) \<and> shows_records t (rs[nat i := rs ! nat j]) (idx[nat i := - 1]) \<and> holds t temp v"
proof -
  obtain r q t u where u: "array_at i s = (Inr r, t)" "array_at j t = (Inr q, u)" "shows_records u rs idx" "holds u temp v"
    "refers u r (rs ! nat i)" "points u (nat i) (ref_data r)" "refers u q (rs ! nat j)" "points u (nat j) (ref_data q)"
    using two_items [OF assms(1,2,4-7)] by blast
  have ok: "array_ok u" using u(3) by (simp add: shows_records_def)
  have i: "nat i < length rs" "nat j \<noteq> nat i" using assms(4-8) by (auto simp: nat_less_iff)
  have "item u (nat j) = rs ! nat j" using u(3) assms(6,7) records_nth [of "nat j" u] by (auto simp: shows_records_def nat_less_iff)
  moreover have "apart (ref_data r) (item_size u) (ref_data q) (item_size u)" using points_apart [OF ok u(6,8)] i by simp
  ultimately have a: "RecordRef_Assign r q u = (Inr (), write_at (ref_data r) (rs ! nat j) u)"
    "shows_records (write_at (ref_data r) (rs ! nat j) u) (rs[nat i := rs ! nat j]) idx"
    using Assign_item [OF u(3,5,6) i(1), of q "rs ! nat j"] points_live [OF ok u(8)] u(7) by (auto simp: refers_def)
  have h: "holds (write_at (ref_data r) (rs ! nat j) u) temp v" by (rule holds_write [OF u(4,6)])
  note b = set_index_shows [OF a(2) assms(4), of "- 1"]
  have "move_item i j s = (Inr (idx ! nat j), (write_at (ref_data r) (rs ! nat j) u)\<lparr>si_index := idx[nat i := - 1]\<rparr>)"
    using u(1,2) a(1) b(1) assms(3-7) i(2) by (simp add: move_item_def bindM_def index_at_def nat_less_iff)
  then show ?thesis using b(2) h assms(3,5) by simp
qed

lemma take_temp_shows:
  assumes "shows_records s rs idx" "holds s temp v" "0 \<le> i" "i < int (length rs)"
  shows "\<exists>t. bindM (array_at i) (Record_Assign temp) s = (Inr (), t) \<and> shows_records t rs idx \<and> holds t temp (rs ! nat i)"
proof -
  obtain r t where t: "array_at i s = (Inr r, t)" "grown s t" "refers t r (rs ! nat i)" "points t (nat i) (ref_data r)"
    using array_at_shows [OF assms(1,3,4)] by blast
  have st: "shows_records t rs idx" "holds t temp v" using shows_grown holds_grown assms(1,2) t(2) by auto
  have ok: "array_ok t" using st(1) by (simp add: shows_records_def)
  let ?p = "Some (rec_data temp, 0)" and ?w = "rs ! nat i"
  let ?u = "write_at ?p ?w t"
  have "item t (nat i) = ?w" using st(1) assms(3,4) records_nth [of "nat i" t] by (auto simp: shows_records_def nat_less_iff)
  then have w: "bytes_at (ref_data r) (item_size t) t = ?w" "length ?w = item_size t"
    using points_live [OF ok t(4)] length_bytes_at [OF points_live(1) [OF ok t(4)]] by auto
  have "memcpy ?p (ref_data r) (item_size t) t = (Inr (), ?u)"
    using memcpy_live [of ?p "item_size t" t "ref_data r"] holds_live [OF st(2)] points_live(1) [OF ok t(4)] holds_apart [OF st(2) t(4)] w by simp
  then have "Record_Assign temp r t = (Inr (), ?u)"
    using st(2) t(3) by (simp add: Record_Assign_def holds_def refers_def item_size_def)
  moreover have "array_ok ?u" "content ?u = content t" using write_other [OF ok, of ?p ?w] st(2) by (auto simp: holds_def)
  then have "shows_records ?u rs idx" using st(1) records_same_content [of ?u t] by (simp add: shows_records_def write_at_def)
  moreover have "holds ?u temp ?w" using st(2) w(2) by (simp add: holds_def write_at_def item_size_def overwrite_def)
  ultimately show ?thesis using t(1) by (simp add: bindM_def)
qed

lemma put_temp_shows:
  assumes "shows_records s rs idx" "holds s temp v" "length idx = length rs" "0 \<le> i" "i < int (length rs)"
  shows "\<exists>t. bindM (array_at i) (\<lambda>r. bindM (RecordRef_Assign r (Record_ref temp)) (\<lambda>_. set_index i (- 1))) s = (Inr (), t) \<and>
    shows_records t (rs[nat i := v]) (idx[nat i := - 1]) \<and> holds t temp v"
proof -
  obtain r t where t: "array_at i s = (Inr r, t)" "grown s t" "refers t r (rs ! nat i)" "points t (nat i) (ref_data r)"
    using array_at_shows [OF assms(1,4,5)] by blast
  have st: "shows_records t rs idx" "holds t temp v" using shows_grown holds_grown assms(1,2) t(2) by auto
  have a: "RecordRef_Assign r (Record_ref temp) t = (Inr (), write_at (ref_data r) v t)" "shows_records (write_at (ref_data r) v t) (rs[nat i := v]) idx"
    using Assign_item [OF st(1) t(3,4), of "Record_ref temp" v] holds_live [OF st(2)] holds_apart [OF st(2) t(4)] st(2) assms(4,5)
    by (auto simp: Record_ref_def RecordConstRef_new_def holds_def nat_less_iff)
  have "holds (write_at (ref_data r) v t) temp v" by (rule holds_write [OF st(2) t(4)])
  then show ?thesis using t(1) a set_index_shows [OF a(2) assms(4), of "- 1"] assms(3,5) by (simp add: bindM_def)
qed

section \<open>Cycles\<close>

text \<open>\<open>arranged rs0 idx0 C rs idx\<close>: of the records \<open>rs0\<close> those in the places \<open>C\<close> have been replaced as the index \<open>idx0\<close> says, and
  their entries are marked.\<close>

definition arranged :: "string list \<Rightarrow> int list \<Rightarrow> int set \<Rightarrow> string list \<Rightarrow> int list \<Rightarrow> bool" where
  "arranged rs0 idx0 C rs idx \<longleftrightarrow> length rs = length rs0 \<and> length idx = length rs0 \<and>
     (\<forall>k. 0 \<le> k \<longrightarrow> k < int (length rs0) \<longrightarrow>
        rs ! nat k = (if k \<in> C then rs0 ! nat (idx0 ! nat k) else rs0 ! nat k) \<and>
        idx ! nat k = (if k \<in> C then - 1 else idx0 ! nat k))"

definition next_place :: "int list \<Rightarrow> int \<Rightarrow> int" where "next_place idx0 k = idx0 ! nat k"

definition permutation_index :: "int list \<Rightarrow> nat \<Rightarrow> bool" where
  "permutation_index idx n \<longleftrightarrow> mset idx = mset (map int [0..<n])"

lemma permutation_index_facts:
  assumes "permutation_index idx n"
  shows "length idx = n" "distinct idx" "set idx = {0..<int n}" "valid_index idx n"
proof -
  have m: "mset idx = mset (map int [0..<n])" using assms by (simp add: permutation_index_def)
  show "length idx = n" using m by (metis length_map size_mset length_upt diff_zero)
  show "distinct idx" using m by (metis distinct_map distinct_upt inj_on_of_nat mset_eq_imp_distinct_iff)
  have "set idx = int ` {0..<n}" using m by (metis set_mset_mset list.set_map set_upt)
  then show s: "set idx = {0..<int n}" by (simp add: image_int_atLeastLessThan)
  show "valid_index idx n" by (simp add: valid_index_def s)
qed

lemma next_place_inj:
  assumes "permutation_index idx n"
  shows "inj_on (next_place idx) {0..<int n}" "next_place idx ` {0..<int n} \<subseteq> {0..<int n}"
proof -
  note f = permutation_index_facts [OF assms]
  show "inj_on (next_place idx) {0..<int n}"
    using f(1,2) by (auto simp: inj_on_def next_place_def nth_eq_iff_index_eq nat_less_iff)
  show "next_place idx ` {0..<int n} \<subseteq> {0..<int n}"
    using f(1,3) nth_mem [of _ idx] by (fastforce simp: next_place_def nat_less_iff)
qed

lemma next_place_in:
  assumes "permutation_index idx n" "0 \<le> i" "i < int n"
  shows "0 \<le> next_place idx i" "next_place idx i < int n"
  using subsetD [OF next_place_inj(2) [OF assms(1)] imageI [of i]] assms(2,3) by simp_all

text \<open>On the way along a cycle the next place has not been visited, unless it is the first one.\<close>

lemma next_not_visited:
  assumes "inj_on f A" "C \<subseteq> A" "finite A" "f ` C = insert src (C - {i})" "i \<in> C" "src \<noteq> i"
  shows "src \<notin> C"
proof
  assume "src \<in> C"
  then have "f ` C = C - {i}" using assms(4,6) by auto
  moreover have "card (f ` C) = card C" using assms(1,2) by (meson card_image inj_on_subset)
  moreover have "card (C - {i}) < card C" using assms(2,3,5) by (meson card_Diff1_less finite_subset)
  ultimately show False by simp
qed

lemma arranged_step:
  assumes "arranged rs0 idx0 D rs idx" "i \<notin> D" "0 \<le> i" "i < int (length rs0)" "v = rs0 ! nat (idx0 ! nat i)"
  shows "arranged rs0 idx0 (insert i D) (rs[nat i := v]) (idx[nat i := - 1])"
  using assms by (auto simp: arranged_def nth_list_update nat_eq_iff nat_less_iff)

lemma rotate_loop_cycle:
  assumes "permutation_index idx0 (length rs0)" "shows_records s rs idx" "holds s temp (rs0 ! nat i)" "arranged rs0 idx0 (C - {dst}) rs idx"
    "dst \<in> C" "i \<in> C" "C \<subseteq> {0..<int (length rs0)}" "src = next_place idx0 dst" "next_place idx0 ` C = insert src (C - {i})" "src \<noteq> i"
  shows "\<exists>E t rs' idx' v. rotate_loop temp i dst src s = Some (Inr (), t) \<and> shows_records t rs' idx' \<and> holds t temp v \<and>
    arranged rs0 idx0 E rs' idx' \<and> C \<subseteq> E \<and> E \<subseteq> {0..<int (length rs0)} \<and> next_place idx0 ` E = E"
  using assms
proof (induction "length rs0 - card C" arbitrary: C dst src s rs idx rule: less_induct)
  case less
  note p = less.prems
  let ?A = "{0..<int (length rs0)}"
  note inj = next_place_inj [OF p(1)]
  have dst: "0 \<le> dst" "dst < int (length rs0)" using p(5,7) by auto
  have src: "0 \<le> src" "src < int (length rs0)" using next_place_in [OF p(1) dst] p(8) by simp_all
  have out: "src \<notin> C" by (rule next_not_visited [OF inj(1) p(7) _ p(9,6,10)]) simp
  have len: "length rs = length rs0" "length idx = length rs0" using p(4) by (auto simp: arranged_def)
  have at: "rs ! nat src = rs0 ! nat src" "idx ! nat src = next_place idx0 src" using p(4) out src by (auto simp: arranged_def next_place_def)
  obtain t where t: "move_item dst src s = (Inr (next_place idx0 src), t)"
    "shows_records t (rs[nat dst := rs0 ! nat src]) (idx[nat dst := - 1])" "holds t temp (rs0 ! nat i)"
    using move_item_shows [OF p(2,3), of dst src] len dst src at out p(5) by auto
  have C: "insert dst (C - {dst}) = C" using p(5) by auto
  have arr: "arranged rs0 idx0 C (rs[nat dst := rs0 ! nat src]) (idx[nat dst := - 1])"
    using arranged_step [OF p(4) _ dst, of "rs0 ! nat src"] p(8) unfolding C by (simp add: next_place_def)
  let ?C = "insert src C"
  have sub: "?C \<subseteq> ?A" using p(7) src by auto
  have img: "next_place idx0 ` ?C = insert (next_place idx0 src) (?C - {i})" using p(9,10) by auto
  have fin: "finite C" using p(7) finite_subset by blast
  show ?case
  proof (cases "next_place idx0 src = i")
    case True
    obtain u where u: "bindM (array_at src) (\<lambda>r. bindM (RecordRef_Assign r (Record_ref temp)) (\<lambda>_. set_index src (- 1))) t = (Inr (), u)"
      "shows_records u (rs[nat dst := rs0 ! nat src, nat src := rs0 ! nat i]) (idx[nat dst := - 1, nat src := - 1])" "holds u temp (rs0 ! nat i)"
      using put_temp_shows [OF t(2,3) _ src(1)] src(2) len by auto
    have "arranged rs0 idx0 ?C (rs[nat dst := rs0 ! nat src, nat src := rs0 ! nat i]) (idx[nat dst := - 1, nat src := - 1])"
      using arranged_step [OF arr out src, of "rs0 ! nat i"] True by (simp add: next_place_def)
    moreover have "next_place idx0 ` ?C = ?C" using img True p(6) by auto
    moreover have "rotate_loop temp i dst src s = Some (Inr (), u)" using t(1) u(1) True by (subst rotate_loop.simps) simp
    ultimately show ?thesis using u(2,3) sub by blast
  next
    case False
    have D: "?C - {src} = C" using out by auto
    have "card ?C \<le> card ?A" using sub by (intro card_mono) auto
    then have "length rs0 - card ?C < length rs0 - card C" using out fin by simp
    moreover have "next_place idx0 src = next_place idx0 src" ..
    ultimately obtain E u rs' idx' v where "rotate_loop temp i src (next_place idx0 src) t = Some (Inr (), u)" "shows_records u rs' idx'" "holds u temp v"
      "arranged rs0 idx0 E rs' idx'" "?C \<subseteq> E" "E \<subseteq> ?A" "next_place idx0 ` E = E"
      using less.hyps [where C = ?C and dst = src and src = "next_place idx0 src" and s = t, OF _ p(1) t(2,3)] arr img p(6) sub False
      unfolding D by blast
    moreover have "rotate_loop temp i dst src s = rotate_loop temp i src (next_place idx0 src) t"
      using t(1) False by (subst rotate_loop.simps) simp
    ultimately show ?thesis by (metis insert_subset)
  qed
qed

lemma arrange_cycle_shows:
  assumes "permutation_index idx0 (length rs0)" "shows_records s rs idx" "holds s temp v" "arranged rs0 idx0 D rs idx"
    "D \<subseteq> {0..<int (length rs0)}" "next_place idx0 ` D = D" "0 \<le> i" "i < int (length rs0)"
  shows "\<exists>E t rs' idx' w. arrange_cycle temp i s = Some (Inr (), t) \<and> shows_records t rs' idx' \<and> holds t temp w \<and>
    arranged rs0 idx0 E rs' idx' \<and> D \<subseteq> E \<and> E \<subseteq> {0..<int (length rs0)} \<and> next_place idx0 ` E = E \<and> (i \<in> E \<or> next_place idx0 i = i)"
proof -
  have len: "length rs = length rs0" "length idx = length rs0" using assms(4) by (auto simp: arranged_def)
  have at: "index_at i s = (Inr (idx ! nat i), s)" using assms(2,7,8) len by (simp add: index_at_def shows_records_def nat_less_iff)
  have k: "idx ! nat i = (if i \<in> D then - 1 else next_place idx0 i)" "rs ! nat i = (if i \<in> D then rs0 ! nat (idx0 ! nat i) else rs0 ! nat i)"
    using assms(4,7,8) by (auto simp: arranged_def next_place_def)
  have pos: "0 \<le> next_place idx0 i" by (rule next_place_in(1) [OF assms(1,7,8)])
  show ?thesis
  proof (cases "i \<in> D \<or> next_place idx0 i = i")
    case True
    then have "arrange_cycle temp i s = Some (Inr (), s)" using at k by (auto simp: arrange_cycle_def)
    then show ?thesis using assms True by blast
  next
    case False
    obtain t where t: "bindM (array_at i) (Record_Assign temp) s = (Inr (), t)" "shows_records t rs idx" "holds t temp (rs0 ! nat i)"
      using take_temp_shows [OF assms(2,3,7)] assms(8) len k False by auto
    have D: "insert i D - {i} = D" using False by auto
    have "\<exists>E u rs' idx' w. rotate_loop temp i i (next_place idx0 i) t = Some (Inr (), u) \<and> shows_records u rs' idx' \<and> holds u temp w \<and>
      arranged rs0 idx0 E rs' idx' \<and> insert i D \<subseteq> E \<and> E \<subseteq> {0..<int (length rs0)} \<and> next_place idx0 ` E = E"
      using rotate_loop_cycle [OF assms(1) t(2,3), where C = "insert i D" and dst = i and src = "next_place idx0 i"]
        assms(4-8) False unfolding D by auto
    then obtain E u rs' idx' w where "rotate_loop temp i i (next_place idx0 i) t = Some (Inr (), u)" "shows_records u rs' idx'" "holds u temp w"
      "arranged rs0 idx0 E rs' idx'" "insert i D \<subseteq> E" "E \<subseteq> {0..<int (length rs0)}" "next_place idx0 ` E = E" by blast
    moreover have "arrange_cycle temp i s = rotate_loop temp i i (next_place idx0 i) t"
      using at k False pos t(1) by (auto simp: arrange_cycle_def)
    ultimately show ?thesis by (intro exI [of _ E] exI [of _ u]) auto
  qed
qed

lemma arrange_loop_shows:
  assumes "permutation_index idx0 (length rs0)" "shows_records s rs idx" "holds s temp v" "arranged rs0 idx0 D rs idx"
    "D \<subseteq> {0..<int (length rs0)}" "next_place idx0 ` D = D" "\<forall>i \<in> set is. i < length rs0"
  shows "\<exists>E t rs' idx' w. arrange_loop temp is s = Some (Inr (), t) \<and> shows_records t rs' idx' \<and> holds t temp w \<and>
    arranged rs0 idx0 E rs' idx' \<and> D \<subseteq> E \<and> (\<forall>i \<in> set is. int i \<in> E \<or> next_place idx0 (int i) = int i)"
  using assms
proof (induction "is" arbitrary: s rs idx v D)
  case Nil
  then show ?case by (intro exI [of _ D]) auto
next
  case (Cons i "is")
  obtain E t rs' idx' w where e: "arrange_cycle temp (int i) s = Some (Inr (), t)" "shows_records t rs' idx'" "holds t temp w"
    "arranged rs0 idx0 E rs' idx'" "D \<subseteq> E" "E \<subseteq> {0..<int (length rs0)}" "next_place idx0 ` E = E" "int i \<in> E \<or> next_place idx0 (int i) = int i"
    using arrange_cycle_shows [OF Cons.prems(1-6), of "int i"] Cons.prems(7) by auto
  obtain F u rs'' idx'' w' where "arrange_loop temp is t = Some (Inr (), u)" "shows_records u rs'' idx''" "holds u temp w'"
    "arranged rs0 idx0 F rs'' idx''" "E \<subseteq> F" "\<forall>i \<in> set is. int i \<in> F \<or> next_place idx0 (int i) = int i"
    using Cons.IH [OF Cons.prems(1) e(2-4,6,7)] Cons.prems(7) by auto
  then show ?case using e by (intro exI [of _ F] exI [of _ u] exI [of _ rs''] exI [of _ idx''] exI [of _ w']) auto
qed

lemma sint_of_small: "unat w \<le> 2 ^ 30 \<Longrightarrow> sint w = int (unat w)" for w :: UINT_32
proof -
  assume "unat w \<le> 2 ^ 30"
  then have "int (unat w) \<le> int (2 ^ 30)" by (simp only: of_nat_le_iff)
  then have "uint w \<le> 2 ^ 30" by simp
  then have "uint w < 2 ^ 31" by simp
  moreover have "- (2 ^ 31) \<le> uint w" by (rule order_trans [OF _ uint_ge_0]) simp
  ultimately have "signed_take_bit 31 (uint w) = uint w" by (intro signed_take_bit_int_eq_self)
  then show ?thesis by (simp add: sint_uint)
qed

lemma ArrangeByIndex_arranges:
  assumes "permutation_index idx (length rs)" "shows_records s rs idx" "length rs \<le> 2 ^ 30"
  shows "\<exists>t idx'. ArrangeByIndex s = Some (Inr (), t) \<and> shows_records t (map (\<lambda>k. rs ! nat k) idx) idx'"
proof -
  have n: "length rs = unat (ra_size s)" using assms(2) by (auto simp: shows_records_def)
  obtain temp t v where t: "Record_new (ra_prototype s) s = (Inr temp, t)" "shows_records t rs idx" "holds t temp v" "ra_size t = ra_size s"
    using Record_new_shows [OF assms(2)] by blast
  have size: "nat (sint (ra_size t)) = length rs" using sint_of_small [of "ra_size s"] assms(3) n t(4) by simp
  have "arranged rs idx {} rs idx" using permutation_index_facts(1) [OF assms(1)] by (simp add: arranged_def)
  then obtain E u rs' idx' w where u: "arrange_loop temp [0..<length rs] t = Some (Inr (), u)" "shows_records u rs' idx'" "holds u temp w"
    "arranged rs idx E rs' idx'" "\<forall>i \<in> set [0..<length rs]. int i \<in> E \<or> next_place idx (int i) = int i"
    using arrange_loop_shows [OF assms(1) t(2,3), of "{}" "[0..<length rs]"] by auto
  have "rs' = map (\<lambda>k. rs ! nat k) idx"
  proof (rule nth_equalityI)
    show "length rs' = length (map (\<lambda>k. rs ! nat k) idx)" using u(4) permutation_index_facts(1) [OF assms(1)] by (simp add: arranged_def)
    fix k assume "k < length rs'"
    then have k: "k < length rs" "k < length idx" using u(4) permutation_index_facts(1) [OF assms(1)] by (auto simp: arranged_def)
    then have "rs' ! k = (if int k \<in> E then rs ! nat (idx ! k) else rs ! k)" using u(4) by (auto simp: arranged_def dest!: spec [of _ "int k"])
    moreover have "int k \<in> E \<or> idx ! k = int k" using u(5) k by (auto simp: next_place_def)
    ultimately show "rs' ! k = map (\<lambda>k. rs ! nat k) idx ! k" using k by auto
  qed
  then show ?thesis
    using t(1) u(1) size Record_destroy_shows [OF u(2,3)] by (auto simp: ArrangeByIndex_def)
qed

section \<open>The sort\<close>

lemma identity_index_value: "n \<le> length xs \<Longrightarrow> identity_index n xs = map int [0..<n] @ drop n xs"
proof (induction n)
  case (Suc n)
  then have "identity_index (Suc n) xs = (map int [0..<n] @ drop n xs)[n := int n]" by (simp add: identity_index_def)
  also have "\<dots> = map int [0..<n] @ (drop n xs)[0 := int n]" by (simp add: list_update_append)
  also have "drop n xs = xs ! n # drop (Suc n) xs" using Suc.prems by (simp add: drop_eq_nth_Cons)
  finally show ?case by simp
qed (simp add: identity_index_def)

lemma BuildIndex_orders:
  assumes "array_ok s" "unat (ra_size s) \<le> 2 ^ 30" "strict_weak_order lt" "rs = records s"
  shows "\<exists>t idx. BuildIndex lt s = Some (Inr (), t) \<and> shows_records t rs idx \<and> permutation_index idx (length rs) \<and>
    ordered lt rs idx 0 (int (length rs) - 1)"
proof -
  obtain n where n: "unat (ra_size s) = n" by blast
  let ?idx = "map int [0..<n]"
  let ?s = "s\<lparr>si_index := ?idx\<rparr>"
  have id: "identity_index (nat (sint (ra_size s))) (resize (unat (ra_size s)) 0 (si_index s)) = ?idx"
    using sint_of_small [OF assms(2)] identity_index_value [of n "resize n 0 (si_index s)"] n by simp
  have s: "shows_records ?s rs ?idx" "length rs = n" "permutation_index ?idx (length rs)"
    using assms(1,4) n by (simp_all add: shows_records_def permutation_index_def)
  show ?thesis
  proof (cases "ra_size s \<le> 1")
    case True
    then have "length rs \<le> 1" by (simp add: word_le_nat_alt s(2) n)
    then have "ordered lt rs ?idx 0 (int (length rs) - 1)" by (auto simp: ordered_def)
    then show ?thesis using s True id by (auto simp: BuildIndex_def Let_def)
  next
    case False
    then have pos: "1 < n" by (simp add: word_le_nat_alt not_le n)
    then have "unat (ra_size s - 1) = n - 1" using n by (simp add: unat_minus_one unat_gt_0 [symmetric] word_neq_0_conv word_gt_0)
    then have high: "sint (ra_size s - 1) = int n - 1" using sint_of_small [of "ra_size s - 1"] assms(2) n pos by (simp add: of_nat_diff)
    have v: "valid_index ?idx (length rs)" by (rule permutation_index_facts(4) [OF s(3)])
    obtain idx' t where t: "QuickSort lt 0 (int n - 1) ?s = Some (Inr (), t)" "shows_records t rs idx'" "permuted 0 (int n - 1) ?idx idx'"
      "ordered lt rs idx' 0 (int n - 1)"
      using QuickSort_sorts [OF s(1) v assms(3), of 0 "int n - 1"] pos assms(2) n by auto
    moreover have "permutation_index idx' (length rs)" using t(3) s(3) by (simp add: permuted_def permutation_index_def)
    ultimately show ?thesis using False id high s(2) by (auto simp: BuildIndex_def Let_def)
  qed
qed

text \<open>An array of three records of one byte, in two chunks, the second of which has not been used\<close>

definition sample_array :: SortState where
  "sample_array = \<lparr>mem_blocks = [0 \<mapsto> ''cb''], mem_next = 1, ra_prototype = (0, RecordPrototype ''r'' 1 1 [] [CHR 0x00]),
     ra_chunkCapacity = 2, ra_size = 3, ra_chunks = [Some \<lparr>mb_data = 0, mb_itemSize = 1\<rparr>, None], si_index = []\<rparr>"

lemma sample_array_ok: "array_ok sample_array"
  by (auto simp: array_ok_def sample_array_def chunk_size_def capacity_def item_size_def prototype_size_def chunks_for_def chunk_ok_def
      less_Suc_eq)

text \<open>C32. \<open>Sort\<close> returns, and it makes of an array the sorted permutation of its records, whatever the sizes of the records and of
  the chunks: quick sort on the index, then moves along its cycles, through a temporary record and without overlapping copies. The
  comparator must be a strict weak order, and there may be \<open>2 ^ 30\<close> records, as the sum of two indices is one of 32 bits.\<close>

theorem Sort_sorts:
  assumes "array_ok s" "unat (ra_size s) \<le> 2 ^ 30" "strict_weak_order lt"
  shows "\<exists>t. Sort lt s = Some (Inr (), t) \<and> array_ok t \<and> mset (records t) = mset (records s) \<and> sorted_wrt (\<lambda>x y. \<not> lt y x) (records t)"
proof -
  let ?s = "s\<lparr>si_index := resize (unat (ra_size s)) 0 []\<rparr>" and ?rs = "records s"
  obtain t idx where t: "BuildIndex lt ?s = Some (Inr (), t)" "shows_records t ?rs idx" "permutation_index idx (length ?rs)"
    "ordered lt ?rs idx 0 (int (length ?rs) - 1)"
    using BuildIndex_orders [of ?s lt ?rs] assms by auto
  obtain u idx' where u: "ArrangeByIndex t = Some (Inr (), u)" "shows_records u (map (\<lambda>k. ?rs ! nat k) idx) idx'"
    using ArrangeByIndex_arranges [OF t(3,2)] assms(2) by auto
  have "mset (map (\<lambda>k. ?rs ! nat k) idx) = image_mset (\<lambda>k. ?rs ! nat k) (mset (map int [0..<length ?rs]))"
    using t(3) by (simp add: permutation_index_def)
  also have "\<dots> = mset (map (\<lambda>k. ?rs ! nat k) (map int [0..<length ?rs]))" by (rule mset_map [symmetric])
  also have "\<dots> = mset ?rs" using map_nth [of ?rs] by (simp add: comp_def del: records_length)
  finally have m: "mset (map (\<lambda>k. ?rs ! nat k) idx) = mset ?rs" .
  have "sorted_wrt (\<lambda>x y. \<not> lt y x) (map (\<lambda>k. ?rs ! nat k) idx)"
    unfolding sorted_wrt_iff_nth_less
  proof (intro allI impI)
    fix i j assume "i < j" "j < length (map (\<lambda>k. ?rs ! nat k) idx)"
    then show "\<not> lt (map (\<lambda>k. ?rs ! nat k) idx ! j) (map (\<lambda>k. ?rs ! nat k) idx ! i)"
      using t(4) [unfolded ordered_def, rule_format, of "int i" "int j"] permutation_index_facts(1) [OF t(3)]
      by (simp add: key_def del: records_length)
  qed
  then show ?thesis using t(1) u m by (auto simp: Sort_def Let_def shows_records_def)
qed

theorem Sort_sorts_witness:
  "\<exists>t. Sort (\<lambda>x y. char_index (hd x) < char_index (hd y)) sample_array = Some (Inr (), t) \<and>
     mset (records t) = {#''c'', ''b'', [CHR 0x00]#} \<and> sorted_wrt (\<lambda>x y. char_index (hd x) \<le> char_index (hd y)) (records t)"
proof -
  let ?lt = "\<lambda>x y :: string. char_index (hd x) < char_index (hd y)"
  have lt: "strict_weak_order ?lt" by (auto simp: strict_weak_order_def)
  have items: "records sample_array = [''c'', ''b'', [CHR 0x00]]" "unat (ra_size sample_array) = 3" by code_simp+
  show ?thesis using Sort_sorts [OF sample_array_ok _ lt] items by (auto simp: not_less)
qed

end
