(* ===== verification/Array_Streams.thy ===== *)
theory Array_Streams
  imports Array_Sort Simple_Template Buffered_Input Buffered_Output
begin

text \<open>
  Arrays of records on streams: what an array writes, what it reads, and the two over files. The contracts of the streams are
  the locales \<open>byte_output\<close> and \<open>byte_input\<close>.
\<close>

section \<open>Streams\<close>

text \<open>An exception of a stream leaves the methods of the array; which one it is, is not kept.\<close>

definition throwing :: "('st, 'e, 'a) mth \<Rightarrow> ('st, plain_error, 'a) mth" where
  "throwing m st = (case m st of (Inl e, st) \<Rightarrow> (Inl StreamError, st) | (Inr a, st) \<Rightarrow> (Inr a, st))"

lemma throwing_Inr: "m st = (Inr a, st') \<Longrightarrow> throwing m st = (Inr a, st')"
  by (simp add: throwing_def)

locale byte_output =
  fixes wr :: "'st out_stream" and okay :: "'st \<Rightarrow> bool" and written :: "'st \<Rightarrow> string"
  assumes writes: "okay st \<Longrightarrow> \<exists>st'. wr bytes st = (Inr (), st') \<and> okay st' \<and> written st' = written st @ bytes"

locale byte_input =
  fixes rd :: "'st in_stream" and okay :: "'st \<Rightarrow> bool" and remaining :: "'st \<Rightarrow> string"
  assumes reads: "okay st \<Longrightarrow> n \<le> length (remaining st) \<Longrightarrow>
    \<exists>st'. rd n st = (Inr (take n (remaining st)), st') \<and> okay st' \<and> remaining st' = drop n (remaining st)"

section \<open>The bytes of the records\<close>

definition all_bytes :: "'z ArrayState_scheme \<Rightarrow> nat" where "all_bytes s = unat (ra_size s) * item_size s"

lemma concat_items:
  assumes "n * l \<le> length bytes"
  shows "concat (map (\<lambda>i. take l (drop (i * l) bytes)) [0..<n]) = take (n * l) bytes"
  using assms
proof (induction n)
  case (Suc n)
  have "take (Suc n * l) bytes = take (n * l) bytes @ take l (drop (n * l) bytes)"
    using take_add [of "n * l" l bytes] by (simp add: add.commute)
  then show ?case using Suc by simp
qed simp

lemma next_part: "a \<le> b \<Longrightarrow> drop a (take c xs) = take (min c b - a) (drop a xs) @ drop b (take c xs)"
  using append_take_drop_id [of "b - a" "drop a (take c xs)"] by (simp add: drop_take min_diff min.commute)

lemma all_bytes_fit:
  assumes "array_ok s"
  shows "all_bytes s \<le> length (content s)"
proof (cases "unat (ra_size s)")
  case 0
  then show ?thesis by (simp add: all_bytes_def)
next
  case (Suc n)
  then show ?thesis using content_covers [OF assms, of n] by (simp add: all_bytes_def algebra_simps)
qed

lemma concat_records: "array_ok s \<Longrightarrow> concat (records s) = take (all_bytes s) (content s)"
  using concat_items [of "unat (ra_size s)" "item_size s" "content s"] all_bytes_fit [of s]
  by (simp add: all_bytes_def records_def item_def [abs_def])


text \<open>The part of the next chunk, and the parts of the chunks after it\<close>

definition leftover :: "'z ArrayState_scheme \<Rightarrow> nat \<Rightarrow> UINT_32 \<Rightarrow> bool" where
  "leftover s k left \<longleftrightarrow> unat left = unat (ra_size s) - k * capacity s"

definition part_size :: "'z ArrayState_scheme \<Rightarrow> UINT_32 \<Rightarrow> nat" where
  "part_size s left = min (unat left) (capacity s) * item_size s"

lemma part_size_fits: "part_size s left \<le> chunk_size s"
  by (simp add: part_size_def chunk_size_def)

lemma unat_part:
  assumes "array_ok s"
  shows "unat (min left (ra_chunkCapacity s) * rp_size (snd (ra_prototype s))) = part_size s left"
proof -
  have "min (unat left) (capacity s) * item_size s < 2 ^ 32"
    using part_size_fits [of s left] assms by (simp add: array_ok_def part_size_def)
  then show ?thesis
    by (simp add: part_size_def capacity_def item_size_def prototype_size_def unat_mult_lem [THEN iffD1] min_def word_le_nat_alt split: if_splits)
qed

lemma leftover_next:
  assumes "leftover s k left"
  shows "leftover s (Suc k) (left - min left (ra_chunkCapacity s))"
proof -
  have "unat (left - min left (ra_chunkCapacity s)) = unat left - min (unat left) (capacity s)"
    by (simp add: min_def word_le_nat_alt capacity_def unat_sub)
  then show ?thesis using assms by (simp add: leftover_def min_def add.commute)
qed

lemma leftover_part:
  assumes "array_ok s" "leftover s k left" "k < length (ra_chunks s)"
  shows "k * chunk_size s \<le> all_bytes s"
    "k * chunk_size s + part_size s left = (if all_bytes s \<le> Suc k * chunk_size s then all_bytes s else Suc k * chunk_size s)"
proof -
  have "0 < unat (ra_size s)" "k \<le> (unat (ra_size s) - 1) div capacity s"
    using assms(3) array_ok_length [OF assms(1)] by (auto simp: chunks_for_def split: if_splits)
  moreover from this(2) have "k * capacity s \<le> (unat (ra_size s) - 1) div capacity s * capacity s" by (rule mult_le_mono1)
  ultimately have k: "k * capacity s \<le> unat (ra_size s)"
    using div_times_less_eq_dividend [of "unat (ra_size s) - 1" "capacity s"] by linarith
  then have "k * capacity s * item_size s \<le> unat (ra_size s) * item_size s" by (rule mult_le_mono1)
  then show "k * chunk_size s \<le> all_bytes s" by (simp add: chunk_size_def all_bytes_def)
  show "k * chunk_size s + part_size s left = (if all_bytes s \<le> Suc k * chunk_size s then all_bytes s else Suc k * chunk_size s)"
  proof (cases "unat left \<le> capacity s")
    case True
    then have "unat (ra_size s) \<le> Suc k * capacity s" using assms(2) by (simp add: leftover_def)
    then have "all_bytes s \<le> Suc k * chunk_size s" by (metis all_bytes_def chunk_size_def mult.assoc mult_le_mono1)
    moreover have "k * chunk_size s + part_size s left = (k * capacity s + unat left) * item_size s"
      using True by (simp add: part_size_def chunk_size_def algebra_simps)
    ultimately show ?thesis using k assms(2) by (simp add: leftover_def all_bytes_def)
  next
    case False
    then have "Suc k * capacity s \<le> unat (ra_size s)" using assms(2) by (simp add: leftover_def)
    then have "Suc k * chunk_size s \<le> all_bytes s" by (metis all_bytes_def chunk_size_def mult.assoc mult_le_mono1)
    then show ?thesis using False by (auto simp: part_size_def chunk_size_def)
  qed
qed

lemma leftover_start: "leftover s 0 (ra_size s)"
  by (simp add: leftover_def)

lemma chunk_at_part:
  assumes "array_ok s" "k < length (ra_chunks s)"
  shows "\<exists>mb t. chunk_at k s = (Inr mb, t) \<and> grown s t \<and> ra_chunks t ! k = Some mb \<and> mb_itemSize mb = rp_size (snd (ra_prototype s)) \<and>
    live (Some (mb_data mb, 0)) (chunk_size s) t \<and>
    (\<forall>n \<le> chunk_size s. bytes_at (Some (mb_data mb, 0)) n t = take n (drop (k * chunk_size s) (content s)))"
proof -
  obtain mb t where t: "chunk_at k s = (Inr mb, t)" "grown s t" "ra_chunks t ! k = Some mb" using chunk_at_grown [OF assms] by blast
  have ok: "array_ok t" and k: "k < length (ra_chunks t)" using t(2) assms(2) by (auto simp: grown_def)
  note sizes = grown_sizes [OF t(2)] grown_fields [OF t(2)]
  have c: "chunk_ok t mb" by (rule array_ok_chunk [OF ok k t(3)])
  then obtain bytes where b: "mem_blocks t (mb_data mb) = Some bytes" "length bytes = chunk_size s" using sizes by (auto simp: chunk_ok_def)
  have "take n (drop (k * chunk_size s) (content s)) = take n bytes" if "n \<le> chunk_size s" for n
    using take_drop_concat [OF array_ok_pieces [OF ok], of k 0 n] k that b sizes t(2,3)
    by (simp add: grown_def content_def chunk_bytes_def)
  then show ?thesis using t b c sizes by (auto simp: live_def bytes_at_def chunk_ok_def)
qed

section \<open>Writing\<close>

context byte_output
begin

lemma write_chunks_content:
  assumes "array_ok s" "okay st" "leftover s k left" "k \<le> length (ra_chunks s)"
  shows "\<exists>st' t. write_chunks wr [k..<length (ra_chunks s)] left (st, s) = (Inr (), (st', t)) \<and> okay st' \<and> grown s t \<and>
    written st' = written st @ drop (k * chunk_size s) (take (all_bytes s) (content s))"
  using assms
proof (induction "length (ra_chunks s) - k" arbitrary: k left st s)
  case 0
  have "all_bytes s \<le> k * chunk_size s" using 0 all_bytes_fit [OF 0(2)] content_length [OF 0(2)] by simp
  then show ?case using 0 grown_refl by (auto simp: returnM_def)
next
  case (Suc d)
  have k: "k < length (ra_chunks s)" using Suc.hyps(2) by linarith
  obtain mb t where t: "chunk_at k s = (Inr mb, t)" "grown s t" "ra_chunks t ! k = Some mb" "mb_itemSize mb = rp_size (snd (ra_prototype s))"
    "live (Some (mb_data mb, 0)) (chunk_size s) t"
    "\<forall>n \<le> chunk_size s. bytes_at (Some (mb_data mb, 0)) n t = take n (drop (k * chunk_size s) (content s))"
    using chunk_at_part [OF Suc.prems(1) k] by blast
  note sizes = grown_sizes [OF t(2)] grown_fields [OF t(2)]
  let ?n = "part_size s left"
  obtain st1 where st1: "wr (take ?n (drop (k * chunk_size s) (content s))) st = (Inr (), st1)" "okay st1"
    "written st1 = written st @ take ?n (drop (k * chunk_size s) (content s))"
    using writes [OF Suc.prems(2)] by blast
  have "MemoryBlock_Write wr mb (min left (ra_chunkCapacity s)) (st, t) = (Inr (), (st1, t))"
    using t(4,6) st1(1) live_less [OF t(5) part_size_fits [of s left]] unat_part [OF Suc.prems(1), of left]
    by (simp add: MemoryBlock_Write_def write_from_def on_memory_def on_stream_def bindM_def load_live part_size_fits)
  then have run: "write_chunks wr [k..<length (ra_chunks s)] left (st, s) =
      write_chunks wr [Suc k..<length (ra_chunks s)] (left - min left (ra_chunkCapacity s)) (st1, t)"
    using t(1) sizes by (simp add: upt_conv_Cons k bindM_def on_memory_def Let_def)
  have more: "d = length (ra_chunks t) - Suc k" "array_ok t" "leftover t (Suc k) (left - min left (ra_chunkCapacity s))" "Suc k \<le> length (ra_chunks t)"
    using Suc.hyps(2) t(2) k leftover_next [OF Suc.prems(3)] sizes by (auto simp: grown_def leftover_def)
  have len: "length (ra_chunks t) = length (ra_chunks s)" "content t = content s" "all_bytes t = all_bytes s"
    using t(2) sizes by (auto simp: grown_def all_bytes_def)
  obtain st2 u where u: "write_chunks wr [Suc k..<length (ra_chunks s)] (left - min left (ra_chunkCapacity s)) (st1, t) = (Inr (), (st2, u))"
    "okay st2" "grown t u" "written st2 = written st1 @ drop (Suc k * chunk_size s) (take (all_bytes s) (content s))"
    using Suc.hyps(1) [OF more(1,2) st1(2) more(3,4)] sizes len by auto
  have "drop (k * chunk_size s) (take (all_bytes s) (content s)) =
      take ?n (drop (k * chunk_size s) (content s)) @ drop (Suc k * chunk_size s) (take (all_bytes s) (content s))"
  proof -
    have "min (all_bytes s) (Suc k * chunk_size s) - k * chunk_size s = ?n"
      using leftover_part [OF Suc.prems(1,3) k] by (simp add: min_def split: if_splits)
    then show ?thesis using next_part [of "k * chunk_size s" "Suc k * chunk_size s" "all_bytes s" "content s"] by simp
  qed
  then show ?case using run u st1(3) grown_trans [OF t(2) u(3)] by auto
qed

lemma Write_content:
  assumes "array_ok s" "okay st"
  shows "\<exists>st' t. RecordArray_Write wr (st, s) = (Inr (), (st', t)) \<and> okay st' \<and> grown s t \<and> written st' = written st @ concat (records s)"
  using write_chunks_content [OF assms leftover_start] concat_records [OF assms(1)] by (simp add: RecordArray_Write_def)

end

interpretation string_output: byte_output "\<lambda>bytes. throwing (StringOutputStream_Write bytes)" "\<lambda>_. True" "\<lambda>out. out"
  by unfold_locales (simp add: throwing_def StringOutputStream_Write_def)

section \<open>Reading\<close>

context byte_input
begin

lemma read_chunks_content:
  assumes "array_ok s" "okay st" "leftover s k left" "k \<le> length (ra_chunks s)" "all_bytes s - k * chunk_size s \<le> length (remaining st)"
  shows "\<exists>st' t. read_chunks rd [k..<length (ra_chunks s)] left (st, s) = (Inr (), (st', t)) \<and> okay st' \<and> array_ok t \<and>
    ra_size t = ra_size s \<and> ra_prototype t = ra_prototype s \<and> ra_chunkCapacity t = ra_chunkCapacity s \<and>
    remaining st' = drop (all_bytes s - k * chunk_size s) (remaining st) \<and>
    take (all_bytes s) (content t) = take (all_bytes s) (take (k * chunk_size s) (content s) @ remaining st)"
  using assms
proof (induction "length (ra_chunks s) - k" arbitrary: k left st s)
  case 0
  have "all_bytes s \<le> k * chunk_size s" using 0 all_bytes_fit [OF 0(2)] content_length [OF 0(2)] by simp
  then show ?case using 0 content_length [OF 0(2)] by (auto simp: returnM_def)
next
  case (Suc d)
  note p = Suc.prems
  have k: "k < length (ra_chunks s)" using Suc.hyps(2) by linarith
  obtain mb t where t: "chunk_at k s = (Inr mb, t)" "grown s t" "ra_chunks t ! k = Some mb" "mb_itemSize mb = rp_size (snd (ra_prototype s))"
    "live (Some (mb_data mb, 0)) (chunk_size s) t"
    using chunk_at_part [OF p(1) k] by blast
  note sizes = grown_sizes [OF t(2)] grown_fields [OF t(2)]
  let ?n = "part_size s left" and ?cs = "chunk_size s" and ?all = "all_bytes s"
  note part = leftover_part [OF p(1,3) k]
  have n: "?n = min ?all (Suc k * ?cs) - k * ?cs" "?n \<le> length (remaining st)"
    using part p(5) by (simp_all add: min_def split: if_splits)
  obtain st1 where st1: "rd ?n st = (Inr (take ?n (remaining st)), st1)" "okay st1" "remaining st1 = drop ?n (remaining st)"
    using reads [OF p(2) n(2)] by blast
  let ?v = "take ?n (remaining st)"
  define u where "u = write_at (Some (mb_data mb, 0)) (take ?n (remaining st)) t"
  have v: "length ?v = ?n" using n(2) by simp
  have "MemoryBlock_Read rd mb (min left (ra_chunkCapacity s)) (st, t) = (Inr (), (st1, u))"
    using t(4) st1(1) live_less [OF t(5) part_size_fits [of s left]] unat_part [OF p(1), of left] v
    by (simp add: u_def MemoryBlock_Read_def read_into_def on_memory_def on_stream_def bindM_def store_live)
  then have run: "read_chunks rd [k..<length (ra_chunks s)] left (st, s) =
      read_chunks rd [Suc k..<length (ra_chunks s)] (left - min left (ra_chunkCapacity s)) (st1, u)"
    using t(1) sizes by (simp add: upt_conv_Cons k bindM_def on_memory_def Let_def)
  have kt: "k < length (ra_chunks t)" using t(2) k by (simp add: grown_def)
  have ok: "array_ok u" "content u = overwrite (k * ?cs) ?v (content s)"
    using write_chunk [OF grown_array_ok [OF t(2)] kt t(3), of 0 ?v] v part_size_fits [of s left] sizes t(2) by (simp_all add: u_def grown_def)
  have fields: "ra_size u = ra_size s" "ra_prototype u = ra_prototype s" "ra_chunkCapacity u = ra_chunkCapacity s"
    "length (ra_chunks u) = length (ra_chunks s)"
    using sizes t(2) by (simp_all add: u_def write_at_def grown_def)
  then have same: "chunk_size u = ?cs" "all_bytes u = ?all" "capacity u = capacity s"
    by (simp_all add: chunk_size_def item_size_def capacity_def all_bytes_def)
  have more: "d = length (ra_chunks u) - Suc k" "leftover u (Suc k) (left - min left (ra_chunkCapacity s))" "Suc k \<le> length (ra_chunks u)"
    "all_bytes u - Suc k * chunk_size u \<le> length (remaining st1)"
  proof -
    show "d = length (ra_chunks u) - Suc k" "Suc k \<le> length (ra_chunks u)" using Suc.hyps(2) k fields(4) by linarith+
    show "leftover u (Suc k) (left - min left (ra_chunkCapacity s))" using leftover_next [OF p(3)] by (simp add: leftover_def fields same)
    show "all_bytes u - Suc k * chunk_size u \<le> length (remaining st1)"
      unfolding same st1(3) length_drop using p(5) n(1) part(1) by (simp add: min_def split: if_splits)
  qed
  obtain st2 w where w: "read_chunks rd [Suc k..<length (ra_chunks s)] (left - min left (ra_chunkCapacity s)) (st1, u) = (Inr (), (st2, w))"
    "okay st2" "array_ok w" "ra_size w = ra_size s" "ra_prototype w = ra_prototype s" "ra_chunkCapacity w = ra_chunkCapacity s"
    "remaining st2 = drop (?all - Suc k * ?cs) (remaining st1)"
    "take ?all (content w) = take ?all (take (Suc k * ?cs) (content u) @ remaining st1)"
    using Suc.hyps(1) [OF more(1) ok(1) st1(2) more(2-4)] fields same by auto
  have len: "k * ?cs + ?n \<le> length (content s)" "k * ?cs \<le> length (content s)"
    using part all_bytes_fit [OF p(1)] by (auto split: if_splits)
  have "remaining st2 = drop (?all - k * ?cs) (remaining st)"
    using w(7) st1(3) n(1) part(1) by (simp add: min_def split: if_splits)
  moreover have "take ?all (take (Suc k * ?cs) (content u) @ remaining st1) = take ?all (take (k * ?cs) (content s) @ remaining st)"
  proof -
    let ?p = "take (k * ?cs) (content s)"
    have p: "length ?p = k * ?cs" using len(2) by simp
    have pv: "take (k * ?cs + ?n) (content u) = ?p @ ?v" using len v ok(2) p by (simp add: overwrite_def)
    show ?thesis
    proof (cases "?all \<le> Suc k * ?cs")
      case True
      then have all: "?all = k * ?cs + ?n" using part by simp
      have "?all \<le> length (take (Suc k * ?cs) (content u))" using all_bytes_fit [OF ok(1)] same True by simp
      then have "take ?all (take (Suc k * ?cs) (content u) @ remaining st1) = take ?all (take (Suc k * ?cs) (content u))"
        by (simp only: take_append diff_is_0_eq' take_0 append_Nil2)
      also have "\<dots> = take ?all (content u)" by (simp only: take_take min_absorb1 [OF True])
      also have "\<dots> = ?p @ ?v" unfolding all by (rule pv)
      also have "\<dots> = take ?all (?p @ remaining st)" unfolding all by (simp only: take_append p) simp
      finally show ?thesis .
    next
      case False
      then have "Suc k * ?cs = k * ?cs + ?n" using part by simp
      then have "take (Suc k * ?cs) (content u) @ remaining st1 = ?p @ remaining st"
        using pv st1(3) by (simp only: append_assoc append_take_drop_id)
      then show ?thesis by (simp only:)
    qed
  qed
  ultimately show ?case using run w by auto
qed

lemma Read_content:
  assumes "array_ok s" "okay st" "all_bytes s \<le> length (remaining st)"
  shows "\<exists>st' t. RecordArray_Read rd (st, s) = (Inr (), (st', t)) \<and> okay st' \<and> array_ok t \<and> ra_size t = ra_size s \<and>
    ra_prototype t = ra_prototype s \<and> remaining st' = drop (all_bytes s) (remaining st) \<and> concat (records t) = take (all_bytes s) (remaining st)"
proof -
  obtain st' t where t: "RecordArray_Read rd (st, s) = (Inr (), (st', t))" "okay st'" "array_ok t" "ra_size t = ra_size s"
    "ra_prototype t = ra_prototype s" "remaining st' = drop (all_bytes s) (remaining st)" "take (all_bytes s) (content t) = take (all_bytes s) (remaining st)"
    using read_chunks_content [OF assms(1,2) leftover_start] assms(3) by (auto simp: RecordArray_Read_def)
  moreover from this have "all_bytes t = all_bytes s" by (simp add: all_bytes_def item_size_def)
  ultimately show ?thesis using concat_records [OF t(3)] by auto
qed

end

section \<open>Files\<close>

text \<open>A file on a system that behaves as POSIX describes, with fewer interruptions than the file gives up after\<close>

locale calm_file_output =
  fixes sys :: "'o System" and d :: int and written_by :: "'o \<Rightarrow> string" and ints :: "'o \<Rightarrow> nat"
  assumes regular: "regular_output sys d written_by ints" and calm: "calm_output sys d ints"

context calm_file_output
begin

lemma output_step:
  assumes "output_ok d st"
  shows "\<exists>st'. throwing (FileOutputStreamBuffered_Write sys bs) st = (Inr (), st') \<and> output_ok d st' \<and>
    content_of written_by st' = content_of written_by st @ bs"
proof -
  obtain t where t: "FileOutputStreamBuffered_Write sys bs st = (Inr (), t)" "output_ok d t"
    "content_of written_by t = content_of written_by st @ bs"
    using FileOutputStreamBuffered_Write_content [OF regular calm assms, of bs] by blast
  show ?thesis using throwing_Inr [of "FileOutputStreamBuffered_Write sys bs", OF t(1)] t(2,3) by auto
qed

end

sublocale calm_file_output \<subseteq> byte_output "\<lambda>bs. throwing (FileOutputStreamBuffered_Write sys bs)" "output_ok d" "content_of written_by"
  by unfold_locales (rule output_step)

locale calm_file_input =
  fixes sys :: "'o System" and d :: int and rest :: "'o \<Rightarrow> string" and ints :: "'o \<Rightarrow> nat" and bytes :: string
  assumes regular: "regular_input sys d rest ints" and calm: "calm_input sys d ints"

lemma Read_once:
  assumes "regular_input sys d rest ints" "calm_input sys d ints" "input_ok d rest bytes st" "n \<le> length bytes - place st"
  shows "\<exists>st'. FileInputStreamBuffered_Read sys n st = (Inr (take n (drop (place st) bytes)), st') \<and> input_ok d rest bytes st' \<and>
    place st' = place st + n"
proof -
  have "place st \<le> length bytes" using place_observed [OF assms(3)] by simp
  then show ?thesis
    using Reads_place [OF assms(1-3), of "[n]"] assms(4) by (auto simp: bindM_def returnM_def split: prod.splits sum.splits)
qed

context calm_file_input
begin

lemma input_step:
  assumes "input_ok d rest bytes st" "n \<le> length (drop (place st) bytes)"
  shows "\<exists>st'. throwing (FileInputStreamBuffered_Read sys n) st = (Inr (take n (drop (place st) bytes)), st') \<and>
    input_ok d rest bytes st' \<and> drop (place st') bytes = drop n (drop (place st) bytes)"
proof -
  obtain t where t: "FileInputStreamBuffered_Read sys n st = (Inr (take n (drop (place st) bytes)), t)" "input_ok d rest bytes t" "place t = place st + n"
    using Read_once [OF regular calm assms(1), of n] assms(2) by auto
  show ?thesis using throwing_Inr [of "FileInputStreamBuffered_Read sys n", OF t(1)] t(2,3) by (simp add: add.commute)
qed

end

sublocale calm_file_input \<subseteq> byte_input "\<lambda>n. throwing (FileInputStreamBuffered_Read sys n)" "input_ok d rest bytes" "\<lambda>st. drop (place st) bytes"
  by unfold_locales (rule input_step)

context calm_file_output
begin

lemma file_Write:
  assumes "array_ok s" "output_ok d st"
  shows "\<exists>st' t. RecordArray_Write (\<lambda>bs. throwing (FileOutputStreamBuffered_Write sys bs)) (st, s) = (Inr (), (st', t)) \<and> output_ok d st' \<and>
    records t = records s \<and> content_of written_by st' = content_of written_by st @ concat (records s)"
  using Write_content [OF assms] grown_records by blast

end

context calm_file_input
begin

lemma file_Read:
  assumes "array_ok s" "input_ok d rest bytes st" "all_bytes s \<le> length bytes - place st"
  shows "\<exists>st' t. RecordArray_Read (\<lambda>n. throwing (FileInputStreamBuffered_Read sys n)) (st, s) = (Inr (), (st', t)) \<and> input_ok d rest bytes st' \<and>
    array_ok t \<and> ra_size t = ra_size s \<and> ra_prototype t = ra_prototype s \<and> drop (place st') bytes = drop (all_bytes s) (drop (place st) bytes) \<and>
    concat (records t) = take (all_bytes s) (drop (place st) bytes)"
  using Read_content [OF assms(1,2)] assms(3) by simp

end

lemma sample_calm: "calm_input sample_system d sample_interrupts" "calm_output sample_system d sample_interrupts"
  by (simp_all add: calm_input_def calm_output_def sample_regular sample_interrupts_def MAX_INTERRUPTS_IGNORES_def)

interpretation sample_output: calm_file_output sample_system 3 fst sample_interrupts
  by unfold_locales (simp_all add: sample_regular sample_calm)

interpretation sample_input: calm_file_input sample_system 3 fst sample_interrupts bytes for bytes
  by unfold_locales (simp_all add: sample_regular sample_calm)




end
