(* ===== verification/Array_Resizing.thy ===== *)
theory Array_Resizing
  imports Array_Sort
begin

text \<open>
  \<^verbatim>\<open>Resize\<close>, \<^verbatim>\<open>PushBack\<close>, \<^verbatim>\<open>Clear\<close> and the search by halving, on the contents of an array.
\<close>

section \<open>Deleting chunks\<close>

definition chunk_blocks :: "MemoryBlock option list \<Rightarrow> nat list" where
  "chunk_blocks cs = concat (map (\<lambda>c. case c of None \<Rightarrow> [] | Some mb \<Rightarrow> [mb_data mb]) cs)"

lemma chunk_blocks_Cons: "chunk_blocks (c # cs) = (case c of None \<Rightarrow> [] | Some mb \<Rightarrow> [mb_data mb]) @ chunk_blocks cs"
  by (simp add: chunk_blocks_def)

lemma set_chunk_blocks: "b \<in> set (chunk_blocks cs) \<longleftrightarrow> (\<exists>mb. Some mb \<in> set cs \<and> mb_data mb = b)"
  by (auto simp: chunk_blocks_def split: option.splits)

definition without_blocks :: "nat set \<Rightarrow> 'z ArrayState_scheme \<Rightarrow> 'z ArrayState_scheme" where
  "without_blocks bs s = s\<lparr>mem_blocks := (\<lambda>b. if b \<in> bs then None else mem_blocks s b)\<rparr>"

lemma delete_chunks:
  assumes "distinct (chunk_blocks cs)" "\<forall>b \<in> set (chunk_blocks cs). mem_blocks s b \<noteq> None"
  shows "forM cs delete_chunk s = (Inr (), without_blocks (set (chunk_blocks cs)) s)"
  using assms
proof (induction cs arbitrary: s)
  case Nil
  then show ?case by (simp add: returnM_def without_blocks_def chunk_blocks_def)
next
  case (Cons c cs)
  show ?case
  proof (cases c)
    case None
    then show ?thesis using Cons by (simp add: delete_chunk_def chunk_blocks_Cons)
  next
    case (Some mb)
    have "forM cs delete_chunk (s\<lparr>mem_blocks := (mem_blocks s)(mb_data mb := None)\<rparr>) =
        (Inr (), without_blocks (set (chunk_blocks cs)) (s\<lparr>mem_blocks := (mem_blocks s)(mb_data mb := None)\<rparr>))"
      using Cons.prems Some by (intro Cons.IH) (auto simp: chunk_blocks_Cons)
    moreover have "without_blocks (set (chunk_blocks cs)) (s\<lparr>mem_blocks := (mem_blocks s)(mb_data mb := None)\<rparr>) =
        without_blocks (set (chunk_blocks (c # cs))) s"
      using Some by (auto simp: without_blocks_def chunk_blocks_Cons fun_eq_iff)
    moreover have "delete_chunk c s = (Inr (), s\<lparr>mem_blocks := (mem_blocks s)(mb_data mb := None)\<rparr>)"
      using Cons.prems(2) Some by (auto simp: delete_chunk_def MemoryBlock_destroy_def delete_block_def chunk_blocks_Cons)
    ultimately show ?thesis by (simp add: bindM_def)
  qed
qed

lemma distinct_chunk_blocks:
  assumes "\<forall>k l mb mb'. k < length cs \<longrightarrow> l < length cs \<longrightarrow> cs ! k = Some mb \<longrightarrow> cs ! l = Some mb' \<longrightarrow> mb_data mb = mb_data mb' \<longrightarrow> k = l"
  shows "distinct (chunk_blocks cs)"
  using assms
proof (induction cs)
  case (Cons c cs)
  have rest: "\<forall>k l mb mb'. k < length cs \<longrightarrow> l < length cs \<longrightarrow> cs ! k = Some mb \<longrightarrow> cs ! l = Some mb' \<longrightarrow> mb_data mb = mb_data mb' \<longrightarrow> k = l"
    using Cons.prems by (metis Suc_less_eq length_Cons nat.inject nth_Cons_Suc)
  have "mb_data mb \<notin> set (chunk_blocks cs)" if "c = Some mb" for mb
  proof
    assume "mb_data mb \<in> set (chunk_blocks cs)"
    then obtain mb' where "Some mb' \<in> set cs" "mb_data mb' = mb_data mb" by (auto simp: set_chunk_blocks)
    then obtain l where "l < length cs" "cs ! l = Some mb'" "mb_data mb' = mb_data mb" by (auto simp: in_set_conv_nth)
    then show False using Cons.prems [rule_format, of 0 "Suc l" mb mb'] that by simp
  qed
  then show ?case using Cons.IH [OF rest] by (auto simp: chunk_blocks_Cons split: option.split)
qed (simp add: chunk_blocks_def)

lemma array_ok_distinct: "array_ok s \<Longrightarrow> distinct (chunk_blocks (ra_chunks s))"
  by (rule distinct_chunk_blocks) (simp add: array_ok_def)

lemma chunk_blocks_append: "chunk_blocks (xs @ ys) = chunk_blocks xs @ chunk_blocks ys"
  by (simp add: chunk_blocks_def)

lemma array_ok_live_blocks: "array_ok s \<Longrightarrow> b \<in> set (chunk_blocks (ra_chunks s)) \<Longrightarrow> mem_blocks s b \<noteq> None"
  by (auto simp: set_chunk_blocks array_ok_def chunk_ok_def)

section \<open>Arrays with other chunks\<close>

text \<open>An array that keeps a prefix of its chunks, or has new ones that are not allocated\<close>

lemma resized_ok:
  assumes "array_ok s" "l = chunks_for (capacity s) (unat newSize)" "\<forall>b \<in> bs. b \<notin> set (chunk_blocks (take l (ra_chunks s)))"
    "t = (without_blocks bs s)\<lparr>ra_chunks := resize l None (ra_chunks s), ra_size := newSize\<rparr>"
  shows "array_ok t" "content t = resize (l * chunk_size s) CHR 0x00 (content s)" "ra_size t = newSize" "item_size t = item_size s"
    "capacity t = capacity s"
proof -
  show sizes: "ra_size t = newSize" "item_size t = item_size s" "capacity t = capacity s"
    by (simp_all add: assms(4) without_blocks_def item_size_def capacity_def)
  have cs: "chunk_size t = chunk_size s" by (simp add: chunk_size_def sizes)
  have nth: "k < length (ra_chunks s) \<and> ra_chunks s ! k = Some mb \<and> mb_data mb \<notin> bs"
    if k: "k < l" "resize l None (ra_chunks s) ! k = Some mb" for k mb
  proof -
    have a: "k < length (ra_chunks s)" "ra_chunks s ! k = Some mb" using k by (auto simp: nth_resize split: if_splits)
    have "Some mb \<in> set (take l (ra_chunks s))" using a k(1) by (auto simp: in_set_conv_nth intro!: exI [of _ k])
    then show ?thesis using a assms(3) by (auto simp: set_chunk_blocks)
  qed
  have ok: "chunk_ok t mb" if "chunk_ok s mb" "mb_data mb \<notin> bs" for mb
    using that by (simp add: chunk_ok_def cs) (simp add: assms(4) without_blocks_def)
  have chunks: "ra_chunks t = resize l None (ra_chunks s)" by (simp add: assms(4))
  show "array_ok t"
    unfolding array_ok_def chunks sizes cs
  proof (intro conjI allI impI)
    show "chunk_ok t mb" if "Some mb \<in> set (resize l None (ra_chunks s))" for mb
      using that nth ok array_ok_chunk [OF assms(1)] by (metis in_set_conv_nth resize_length)
    show "k = m" if "k < length (resize l None (ra_chunks s))" "m < length (resize l None (ra_chunks s))"
      "resize l None (ra_chunks s) ! k = Some mb" "resize l None (ra_chunks s) ! m = Some mb'" "mb_data mb = mb_data mb'" for k m mb mb'
      using that nth [of k mb] nth [of m mb'] array_ok_apart [OF assms(1), of k m mb mb'] by auto
  qed (use assms(1,2) in \<open>simp_all add: array_ok_def\<close>)
  have pieces: "map (chunk_bytes t) (ra_chunks t) = resize l (replicate (chunk_size s) CHR 0x00) (map (chunk_bytes s) (ra_chunks s))"
  proof (rule nth_equalityI)
    fix k assume "k < length (map (chunk_bytes t) (ra_chunks t))"
    then have k: "k < l" by (simp add: chunks)
    show "map (chunk_bytes t) (ra_chunks t) ! k = resize l (replicate (chunk_size s) CHR 0x00) (map (chunk_bytes s) (ra_chunks s)) ! k"
    proof (cases "resize l None (ra_chunks s) ! k")
      case None
      then show ?thesis using k by (simp add: chunks nth_resize chunk_bytes_def cs split: if_splits)
    next
      case (Some mb)
      have "chunk_bytes t (Some mb) = chunk_bytes s (Some mb)"
        using nth [OF k Some] by (simp add: chunk_bytes_def assms(4) without_blocks_def)
      then show ?thesis using nth [OF k Some] k Some by (simp add: chunks nth_resize)
    qed
  qed (simp add: chunks)
  have "concat (resize l (replicate m d) xss) = resize (l * m) d (concat xss)" if "\<forall>x \<in> set xss. length x = m" for xss :: "string list" and m d
  proof -
    have len: "length (concat xss) = length xss * m" by (rule concat_pieces_length [OF that])
    have "concat (take l xss) = take (l * m) (concat xss)"
      using that
    proof (induction xss arbitrary: l)
      case (Cons x xss)
      then show ?case by (cases l) auto
    qed simp
    moreover have "concat (replicate n (replicate m d)) = replicate (n * m) d" for n
      by (induction n) (simp_all add: replicate_add)
    ultimately show ?thesis by (simp add: resize_def len diff_mult_distrib)
  qed
  from this [OF array_ok_pieces [OF assms(1)]] show "content t = resize (l * chunk_size s) CHR 0x00 (content s)"
    unfolding content_def pieces by simp
qed

lemma count_chunks:
  assumes "newSize \<noteq> 0" "cap \<noteq> (0 :: UINT_32)"
  shows "unat ((newSize - 1) div cap + 1) = chunks_for (unat cap) (unat newSize)"
proof -
  have n: "unat (newSize - 1) = unat newSize - 1" "0 < unat newSize" using assms(1) by (simp_all add: unat_minus_one unat_gt_0)
  have "(unat newSize - 1) div unat cap + 1 \<le> unat newSize"
    using n(2) div_le_dividend [of "unat newSize - 1" "unat cap"] by linarith
  also have "unat newSize < 2 ^ 32" by (rule order_less_le_trans [OF unsigned_less]) simp
  finally show ?thesis using n by (subst unat_add_lem [THEN iffD1]) (simp_all add: unat_div chunks_for_def)
qed

lemma chunks_for_mono: "m \<le> n \<Longrightarrow> chunks_for cap m \<le> chunks_for cap n"
  by (auto simp: chunks_for_def intro: div_le_mono)

lemma Resize_content:
  assumes "array_ok s"
  shows "\<exists>t. RecordArray_Resize newSize s = (Inr (), t) \<and> array_ok t \<and> ra_size t = newSize \<and> item_size t = item_size s \<and> capacity t = capacity s \<and>
    content t = resize (chunks_for (capacity s) (unat newSize) * chunk_size s) CHR 0x00 (content s)"
proof -
  let ?l = "chunks_for (capacity s) (unat newSize)"
  note len = array_ok_length [OF assms]
  have c: "ra_chunkCapacity s \<noteq> 0" using assms by (auto simp: array_ok_def capacity_def)
  consider "ra_size s = newSize" | "ra_size s \<noteq> newSize" "newSize = 0" | "newSize \<noteq> 0" "newSize > ra_size s" | "newSize \<noteq> 0" "newSize < ra_size s"
    by (metis antisym_conv3)
  then show ?thesis
  proof cases
    case 1
    then have "resize (?l * chunk_size s) CHR 0x00 (content s) = content s" using content_length [OF assms] len by (simp add: resize_def)
    then show ?thesis using 1 assms by (simp add: RecordArray_Resize_def)
  next
    case 2
    let ?t = "(without_blocks (set (chunk_blocks (ra_chunks s))) s)\<lparr>ra_chunks := [], ra_size := 0\<rparr>"
    have "forM (ra_chunks s) delete_chunk s = (Inr (), without_blocks (set (chunk_blocks (ra_chunks s))) s)"
      using array_ok_live_blocks [OF assms] by (intro delete_chunks [OF array_ok_distinct [OF assms]]) blast
    then have "RecordArray_Resize newSize s = (Inr (), ?t)"
      using 2 by (simp add: RecordArray_Resize_def RecordArray_Clear_def bindM_def)
    moreover have "?t = (without_blocks (set (chunk_blocks (ra_chunks s))) s)\<lparr>ra_chunks := resize ?l None (ra_chunks s), ra_size := newSize\<rparr>"
      using 2 by (simp add: chunks_for_def resize_def)
    ultimately show ?thesis using resized_ok [where l = ?l and newSize = newSize and bs = "set (chunk_blocks (ra_chunks s))" and t = ?t, OF assms] 2
      by (auto simp: chunks_for_def chunk_blocks_def)
  next
    case 3
    have l: "unat ((newSize - 1) div ra_chunkCapacity s + 1) = ?l" using count_chunks [OF 3(1) c] by (simp add: capacity_def)
    have le: "length (ra_chunks s) \<le> ?l" using 3(2) by (simp add: len chunks_for_mono word_less_nat_alt)
    have "ra_size s \<noteq> newSize" using 3(2) by auto
    then have "RecordArray_Resize newSize s = (Inr (), s\<lparr>ra_chunks := resize ?l None (ra_chunks s), ra_size := newSize\<rparr>)"
      using 3 l le c by (auto simp: RecordArray_Resize_def Let_def resize_def)
    moreover have "s\<lparr>ra_chunks := resize ?l None (ra_chunks s), ra_size := newSize\<rparr> =
        (without_blocks {} s)\<lparr>ra_chunks := resize ?l None (ra_chunks s), ra_size := newSize\<rparr>" by (simp add: without_blocks_def)
    ultimately show ?thesis using resized_ok [where l = ?l and newSize = newSize and bs = "{}", OF assms refl] by blast
  next
    case 4
    have l: "unat ((newSize - 1) div ra_chunkCapacity s + 1) = ?l" using count_chunks [OF 4(1) c] by (simp add: capacity_def)
    let ?bs = "set (chunk_blocks (drop ?l (ra_chunks s)))"
    have split: "distinct (chunk_blocks (take ?l (ra_chunks s)) @ chunk_blocks (drop ?l (ra_chunks s)))"
      using array_ok_distinct [OF assms] by (metis append_take_drop_id chunk_blocks_append)
    have "\<forall>b \<in> ?bs. mem_blocks s b \<noteq> None"
      using array_ok_live_blocks [OF assms] by (metis append_take_drop_id chunk_blocks_append in_set_conv_decomp set_append Un_iff)
    then have "forM (drop ?l (ra_chunks s)) delete_chunk s = (Inr (), without_blocks ?bs s)" using split by (intro delete_chunks) simp_all
    moreover have "ra_size s \<noteq> newSize" "\<not> ra_size s < newSize" using 4(2) by auto
    ultimately have "RecordArray_Resize newSize s = (Inr (), (without_blocks ?bs s)\<lparr>ra_chunks := resize ?l None (ra_chunks s), ra_size := newSize\<rparr>)"
      using 4 l c by (simp add: RecordArray_Resize_def Let_def bindM_def) (simp add: without_blocks_def)
    moreover have "\<forall>b \<in> ?bs. b \<notin> set (chunk_blocks (take ?l (ra_chunks s)))" using split by auto
    ultimately show ?thesis using resized_ok [where l = ?l and newSize = newSize and bs = ?bs, OF assms refl] by blast
  qed
qed

text \<open>C36. \<open>Resize\<close> keeps the records that still fit. The new ones are zero where a chunk is new; in the last chunk that the array had,
  they are what is there, for instance records that an earlier \<open>Resize\<close> had cut off.\<close>

theorem Resize_records:
  assumes "array_ok s"
  shows "case RecordArray_Resize newSize s of
      (Inr _, t) \<Rightarrow> array_ok t \<and> length (records t) = unat newSize \<and>
        (\<forall>i < unat newSize. records t ! i =
           (if i < unat (ra_size s) then records s ! i
            else if i < length (ra_chunks s) * capacity s then item s i
            else replicate (item_size s) CHR 0x00))
    | (Inl e, t) \<Rightarrow> False"
proof -
  let ?l = "chunks_for (capacity s) (unat newSize)" and ?n = "item_size s" and ?cap = "capacity s"
  obtain t where t: "RecordArray_Resize newSize s = (Inr (), t)" "array_ok t" "ra_size t = newSize" "item_size t = ?n" "capacity t = ?cap"
    "content t = resize (?l * chunk_size s) CHR 0x00 (content s)" using Resize_content [OF assms] by blast
  have cap: "0 < ?cap" using assms by (simp add: array_ok_def)
  have "item t i = (if i < length (ra_chunks s) * ?cap then item s i else replicate ?n CHR 0x00)" if i: "i < unat newSize" for i
  proof -
    have "i div ?cap < ?l" by (rule chunks_for_covers [OF cap i])
    then have "Suc i \<le> ?l * ?cap" using cap by (simp add: Suc_leI div_less_iff_less_mult)
    then have fits: "i * ?n + ?n \<le> ?l * chunk_size s" using mult_le_mono1 [of "Suc i" "?l * ?cap" ?n] by (simp add: chunk_size_def mult.assoc)
    have len: "length (content s) = length (ra_chunks s) * chunk_size s" by (rule content_length [OF assms])
    show ?thesis
    proof (cases "i < length (ra_chunks s) * ?cap")
      case True
      then have "i * ?n + ?n \<le> length (content s)"
        using mult_le_mono1 [of "Suc i" "length (ra_chunks s) * ?cap" ?n] by (simp add: len chunk_size_def mult.assoc)
      then show ?thesis using True fits by (simp add: item_def t resize_def drop_take min_def)
    next
      case False
      then have "length (content s) \<le> i * ?n"
        using mult_le_mono1 [of "length (ra_chunks s) * ?cap" i ?n] by (simp add: len chunk_size_def mult.assoc)
      then show ?thesis using False fits by (simp add: item_def t resize_def drop_take min_def)
    qed
  qed
  moreover have "i < length (ra_chunks s) * ?cap" if "i < unat (ra_size s)" for i
    using array_ok_covers [OF assms that] cap by (simp add: div_less_iff_less_mult)
  ultimately show ?thesis using t by (auto simp: records_nth)
qed

theorem Resize_records_witness:
  "case RecordArray_Resize 1 sample_array of
     (Inr _, t) \<Rightarrow> records t = [''c''] \<and> (case RecordArray_Resize 5 t of (Inr _, u) \<Rightarrow> length (records u) = 5 \<and> records u ! 1 = ''b'' | _ \<Rightarrow> False)
   | _ \<Rightarrow> False"
proof -
  have size: "unat (ra_size sample_array) = 3" and items: "records sample_array = [''c'', ''b'', [CHR 0x00]]" by code_simp+
  obtain t where t: "RecordArray_Resize 1 sample_array = (Inr (), t)" "array_ok t" "length (records t) = 1" "records t ! 0 = ''c''"
    using Resize_records [OF sample_array_ok, of 1] size items by (auto split: prod.splits sum.splits)
  have chunks: "length (ra_chunks t) = 1" "capacity t = 2" "item t 1 = ''b''"
  proof -
    have "case RecordArray_Resize 1 sample_array of (Inr _, t) \<Rightarrow> length (ra_chunks t) = 1 \<and> capacity t = 2 \<and> item t 1 = ''b'' | _ \<Rightarrow> False"
      by code_simp
    then show "length (ra_chunks t) = 1" "capacity t = 2" "item t 1 = ''b''" using t(1) by auto
  qed
  have "records t = [''c'']" using t(3,4) by (cases "records t") auto
  moreover have "unat (ra_size t) = 1" using t(3) by simp
  ultimately show ?thesis using Resize_records [OF t(2), of 5] t chunks by (auto split: prod.splits sum.splits)
qed

section \<open>Search\<close>

lemma search_loop_finds:
  assumes "array_ok s" "rs = records s" "length rs \<le> 2 ^ 31" "unat left \<le> unat right" "unat right \<le> length rs"
    "\<forall>i < unat left. cmp (rs ! i) > 0" "\<forall>i. unat right \<le> i \<longrightarrow> i < length rs \<longrightarrow> cmp (rs ! i) < 0"
    "\<forall>i j. i < j \<longrightarrow> j < length rs \<longrightarrow> (cmp (rs ! j) > 0 \<longrightarrow> cmp (rs ! i) > 0) \<and> (cmp (rs ! i) < 0 \<longrightarrow> cmp (rs ! j) < 0)"
  shows "\<exists>r t. search_loop cmp left right s = Some (Inr r, t) \<and> grown s t \<and>
    (if \<exists>x \<in> set rs. cmp x = 0 then \<exists>i < length rs. points t i (ref_data r) \<and> cmp (rs ! i) = 0 else ref_data r = None)"
  using assms
proof (induction "unat right - unat left" arbitrary: left right s rule: less_induct)
  case less
  note p = less.prems
  show ?case
  proof (cases "left < right")
    case False
    then have eq: "unat left = unat right" using p(4) by (simp add: word_less_nat_alt)
    have "cmp (rs ! i) \<noteq> 0" if "i < length rs" for i using p(6,7) eq that by (metis less_irrefl not_le)
    then have "\<not> (\<exists>x \<in> set rs. cmp x = 0)" by (auto simp: in_set_conv_nth)
    then show ?thesis using False p(1) grown_refl by (subst search_loop.simps) (auto simp: RecordConstRef_null_def)
  next
    case True
    let ?m = "(left + right) div 2"
    have n: "length rs = unat (ra_size s)" using p(2) by simp
    have lr: "unat left < unat right" using True by (simp add: word_less_nat_alt)
    have "unat left + unat right < 2 ^ 32" using lr p(3,5) by simp
    then have m: "unat ?m = (unat left + unat right) div 2" by (simp add: unat_div unat_add_lem [THEN iffD1])
    then have mb: "unat left \<le> unat ?m" "unat ?m < unat right" "unat ?m < length rs" using lr p(5) by auto
    obtain q t where t: "RecordArray_at ?m s = (Inr \<lparr>ref_prototype = ra_prototype s, ref_data = q\<rparr>, t)" "grown s t" "points t (unat ?m) q"
      using RecordArray_at_grown [OF p(1), of ?m] mb(3) n by auto
    have ok: "array_ok t" and rt: "rs = records t" using grown_array_ok [OF t(2)] grown_records [OF t(2)] p(2) by simp_all
    have "item t (unat ?m) = rs ! unat ?m" using records_nth [of "unat ?m" t] rt mb(3) n grown_fields [OF t(2)] by simp
    moreover have "load q (item_size s) t = (Inr (item t (unat ?m)), t)"
      using points_live [OF ok t(3)] grown_sizes [OF t(2)] load_live by metis
    ultimately have step: "bindM (RecordArray_at ?m) (\<lambda>r. bindM (load (ref_data r) (Ref_Size r)) (\<lambda>bytes. returnM (r, cmp bytes))) s =
        (Inr (\<lparr>ref_prototype = ra_prototype s, ref_data = q\<rparr>, cmp (rs ! unat ?m)), t)"
      using t(1) by (simp add: bindM_def returnM_def Ref_Size_def item_size_def)
    consider "cmp (rs ! unat ?m) < 0" | "cmp (rs ! unat ?m) > 0" | "cmp (rs ! unat ?m) = 0" by linarith
    then show ?thesis
    proof cases
      case 1
      have "\<forall>i. unat ?m \<le> i \<longrightarrow> i < length rs \<longrightarrow> cmp (rs ! i) < 0" using 1 p(8) mb(3) by (metis le_neq_implies_less)
      then obtain r u where "search_loop cmp left ?m t = Some (Inr r, u)" "grown t u"
        "if \<exists>x \<in> set rs. cmp x = 0 then \<exists>i < length rs. points u i (ref_data r) \<and> cmp (rs ! i) = 0 else ref_data r = None"
        using less.hyps [of ?m left t] diff_less_mono [OF mb(2,1)] ok rt p(3,6,8) mb by auto
      then show ?thesis using 1 step True grown_trans [OF t(2)] by (subst search_loop.simps) (auto simp: Let_def)
    next
      case 2
      have m1: "unat (?m + 1) = Suc (unat ?m)" using unat_plus_one [of ?m right] mb(2) by (simp add: word_less_nat_alt)
      have "\<forall>i < unat (?m + 1). cmp (rs ! i) > 0" using 2 p(8) mb(3) unfolding m1 by (metis less_antisym)
      then obtain r u where "search_loop cmp (?m + 1) right t = Some (Inr r, u)" "grown t u"
        "if \<exists>x \<in> set rs. cmp x = 0 then \<exists>i < length rs. points u i (ref_data r) \<and> cmp (rs ! i) = 0 else ref_data r = None"
        using less.hyps [of right "?m + 1" t] diff_less_mono2 [OF le_imp_less_Suc [OF mb(1)] lr] ok rt p(3,5,7,8) mb m1 by auto
      then show ?thesis using 2 step True grown_trans [OF t(2)] by (subst search_loop.simps) (auto simp: Let_def)
    next
      case 3
      then have "\<exists>x \<in> set rs. cmp x = 0" using mb(3) nth_mem by blast
      then show ?thesis using 3 step True t(2,3) mb(3) by (subst search_loop.simps) (auto simp: Let_def)
    qed
  qed
qed

text \<open>In an array that is ordered as the comparator says, of up to \<open>2 ^ 31\<close> records, the search finds a record where the comparator
  is zero, or answers the null reference when there is none.\<close>

theorem BinarySearch_records:
  assumes "array_ok s" "unat (ra_size s) \<le> 2 ^ 31"
    "\<forall>i j. i < j \<longrightarrow> j < length (records s) \<longrightarrow>
       (cmp (records s ! j) > 0 \<longrightarrow> cmp (records s ! i) > 0) \<and> (cmp (records s ! i) < 0 \<longrightarrow> cmp (records s ! j) < 0)"
  shows "case BinarySearch cmp s of
      (Inr r, t) \<Rightarrow> if \<exists>x \<in> set (records s). cmp x = 0 then cmp (bytes_at (ref_data r) (item_size t) t) = 0 else IsNull r
    | (Inl e, t) \<Rightarrow> False"
proof -
  let ?rs = "records s"
  obtain r t where t: "search_loop cmp 0 (ra_size s) s = Some (Inr r, t)" "grown s t"
    "if \<exists>x \<in> set ?rs. cmp x = 0 then \<exists>i < length ?rs. points t i (ref_data r) \<and> cmp (?rs ! i) = 0 else ref_data r = None"
    using search_loop_finds [OF assms(1) refl, of 0 "ra_size s" cmp] assms(2,3) by auto
  have "bytes_at (ref_data r) (item_size t) t = ?rs ! i" if "i < length ?rs" "points t i (ref_data r)" for i
    using points_live(2) [OF grown_array_ok [OF t(2)] that(2)] that(1) grown_records [OF t(2)] records_nth [of i t] grown_fields [OF t(2)] by simp
  then show ?thesis using t by (auto simp: BinarySearch_def IsNull_def split: if_splits)
qed

end
