(* ===== verification/Owned_Objects.thy ===== *)
theory Owned_Objects
  imports Std_Map "HOL-Library.Multiset"
begin

text \<open>
  Objects on the heap that containers of pointers own: which addresses are alive. Deleting an object that is not alive, and using
  a pointer or an iterator to what has gone, is the exception \<open>Dangling\<close>; an index or an iterator outside a container is
  \<open>OutOfRange\<close>. Both are undefined behaviour of the code. The destructor of an object belongs to a class outside the library and is
  not run: the model is of objects whose destructors do not reach back into the container or the pointers that own them.
\<close>

datatype ownership_error = Dangling | OutOfRange

record Objects =
  obj_live :: "nat set"
  obj_next :: nat

type_synonym ('z, 'a) owner_mth = "('z Objects_scheme, ownership_error, 'a) mth"

definition new_object :: "('z, nat) owner_mth" where
  "new_object s = (Inr (obj_next s), s\<lparr>obj_live := insert (obj_next s) (obj_live s), obj_next := Suc (obj_next s)\<rparr>)"

definition delete_object :: "nat option \<Rightarrow> ('z, unit) owner_mth" where
  "delete_object p s = (case p of
     None \<Rightarrow> (Inr (), s)
   | Some a \<Rightarrow> if a \<in> obj_live s then (Inr (), s\<lparr>obj_live := obj_live s - {a}\<rparr>) else (Inl Dangling, s))"

section \<open>Ownership\<close>

text \<open>\<open>owns L s ps\<close>: the objects that are alive are those in \<open>L\<close>, which belong to others, and those that exactly one of the pointers
  \<open>ps\<close> refers to.\<close>

definition pointees :: "nat option list \<Rightarrow> nat list" where
  "pointees ps = concat (map (\<lambda>p. case p of None \<Rightarrow> [] | Some a \<Rightarrow> [a]) ps)"

definition owns :: "nat set \<Rightarrow> 'z Objects_scheme \<Rightarrow> nat option list \<Rightarrow> bool" where
  "owns L s ps \<longleftrightarrow> distinct (pointees ps) \<and> L \<inter> set (pointees ps) = {} \<and> obj_live s = L \<union> set (pointees ps) \<and>
     (\<forall>a \<in> obj_live s. a < obj_next s)"

named_theorems owner_simps \<open>pointers of lists, and states in which only other members differ\<close>

lemma pointees_simps [owner_simps, simp]:
  "pointees [] = []"
  "pointees (None # ps) = pointees ps"
  "pointees (Some a # ps) = a # pointees ps"
  "pointees (ps @ qs) = pointees ps @ pointees qs"
  by (simp_all add: pointees_def)

lemma set_pointees: "set (pointees ps) = {a. Some a \<in> set ps}"
  by (auto simp: pointees_def split: option.splits)

lemma mset_pointees: "mset ps = mset qs \<Longrightarrow> mset (pointees ps) = mset (pointees qs)"
proof -
  have "mset (pointees ps) = \<Sum>\<^sub># (image_mset (\<lambda>p. mset (case p of None \<Rightarrow> [] | Some a \<Rightarrow> [a])) (mset ps))" for ps
    by (induction ps) (simp_all add: pointees_def)
  then show "mset ps = mset qs \<Longrightarrow> mset (pointees ps) = mset (pointees qs)" by simp
qed

lemma owns_mset: "owns L s ps \<Longrightarrow> mset ps = mset qs \<Longrightarrow> owns L s qs"
  using mset_pointees [of ps qs] unfolding owns_def by (metis mset_eq_setD mset_eq_imp_distinct_iff)

lemma owns_cong: "owns L s ps \<Longrightarrow> obj_live t = obj_live s \<Longrightarrow> obj_next t = obj_next s \<Longrightarrow> owns L t ps"
  by (simp add: owns_def)

lemma owns_null [owner_simps, simp]: "owns L s (None # ps) \<longleftrightarrow> owns L s ps" "owns L s (replicate n None @ ps) \<longleftrightarrow> owns L s ps"
  by (simp_all add: owns_def) (induction n, simp_all)

lemma owns_new:
  assumes "owns L s ps"
  shows "\<exists>X n. new_object s = (Inr (obj_next s), s\<lparr>obj_live := X, obj_next := n\<rparr>) \<and>
    owns L (s\<lparr>obj_live := X, obj_next := n\<rparr>) (Some (obj_next s) # ps)"
proof -
  have "obj_next s \<notin> obj_live s" using assms by (auto simp: owns_def)
  then show ?thesis using assms by (auto simp: new_object_def owns_def less_Suc_eq)
qed

lemma owns_delete:
  assumes "owns L s (p # ps)"
  shows "\<exists>X. delete_object p s = (Inr (), s\<lparr>obj_live := X\<rparr>) \<and> owns L (s\<lparr>obj_live := X\<rparr>) ps"
proof (cases p)
  case None
  then show ?thesis using assms by (intro exI [of _ "obj_live s"]) (simp add: delete_object_def)
next
  case (Some a)
  then show ?thesis using assms by (auto simp: delete_object_def owns_def intro!: exI [of _ "obj_live s - {a}"])
qed

lemma owns_delete_all:
  assumes "owns L s (ps @ qs)"
  shows "\<exists>X. forM ps delete_object s = (Inr (), s\<lparr>obj_live := X\<rparr>) \<and> owns L (s\<lparr>obj_live := X\<rparr>) qs"
  using assms
proof (induction ps arbitrary: s)
  case Nil
  then show ?case by (intro exI [of _ "obj_live s"]) (simp add: returnM_def)
next
  case (Cons p ps)
  then obtain X where X: "delete_object p s = (Inr (), s\<lparr>obj_live := X\<rparr>)" "owns L (s\<lparr>obj_live := X\<rparr>) (ps @ qs)"
    using owns_delete [of L s p "ps @ qs"] by auto
  obtain Y where "forM ps delete_object (s\<lparr>obj_live := X\<rparr>) = (Inr (), s\<lparr>obj_live := Y\<rparr>)" "owns L (s\<lparr>obj_live := Y\<rparr>) qs"
    using Cons.IH [OF X(2)] by auto
  then show ?case using X(1) by (auto simp: bindM_def)
qed

lemma owns_nothing: "owns L s [] \<Longrightarrow> obj_live s = L"
  by (simp add: owns_def)

end
