(* ===== verification/Map_Cache.thy ===== *)
theory Map_Cache
  imports Owned_Objects
begin

text \<open>
  \<^verbatim>\<open>utils/AutoPtrMapCache.hpp\<close>: a cache of bounded size that discards the entry that was used least recently. An iterator into the
  list or the map is the number of the node it points to, and an entry knows the node of the list that leads back to it.
\<close>

section \<open>The cache\<close>

record MapEntry =
  me_node :: nat
  me_value :: "nat option"
  me_listItr :: nat

text \<open>An entry of the list has the number of its node and the key its iterator into the map stands at. \<open>mc_fresh\<close> numbers the
  nodes.\<close>

record 'k AutoPtrMapCache = Objects +
  mc_capacity :: UINT_32
  mc_map :: "('k, MapEntry) std_map"
  mc_list :: "(nat \<times> 'k) list"
  mc_fresh :: nat

type_synonym ('k, 'a) cache_mth = "('k AutoPtrMapCache, ownership_error, 'a) mth"

definition Cache_new :: "int \<Rightarrow> Objects \<Rightarrow> 'k AutoPtrMapCache" where
  "Cache_new capacity m = Objects.extend m (AutoPtrMapCache.fields (word_of_int capacity) [] [] 0)"

definition Cache_Size :: "'k AutoPtrMapCache \<Rightarrow> UINT_32" where "Cache_Size s = of_nat (length (mc_map s))"

definition Cache_Clear :: "('k, unit) cache_mth" where
  "Cache_Clear s = bindM (forM (map (me_value \<circ> snd) (mc_map s)) delete_object) (\<lambda>_ s. (Inr (), s\<lparr>mc_map := [], mc_list := []\<rparr>)) s"

definition Cache_destroy :: "('k, unit) cache_mth" where "Cache_destroy = Cache_Clear"

definition list_erase :: "nat \<Rightarrow> (nat \<times> 'k) list \<Rightarrow> (nat \<times> 'k) list" where
  "list_erase n xs = filter (\<lambda>p. fst p \<noteq> n) xs"

definition DiscardLeastRecentlyUsed :: "('k::linorder, unit) cache_mth" where
  "DiscardLeastRecentlyUsed s =
     (if mc_list s = [] then (Inl Dangling, s)
      else let k = snd (last (mc_list s)) in case map_find (mc_map s) k of
        None \<Rightarrow> (Inl Dangling, s)
      | Some e \<Rightarrow> bindM (delete_object (me_value e)) (\<lambda>_ s.
          (Inr (), s\<lparr>mc_list := list_erase (me_listItr e) (mc_list s), mc_map := map_erase k (mc_map s)\<rparr>)) s)"

text \<open>An \<^verbatim>\<open>AutoPtrRef\<close> is a reference to the pointer in the entry: the key and the number of the node of the map.\<close>

type_synonym 'k AutoPtrRef = "'k \<times> nat"

text \<open>The new front of the list, and the entry that leads to it\<close>

definition push_front :: "'k::linorder \<Rightarrow> MapEntry \<Rightarrow> ('k, 'k AutoPtrRef) cache_mth" where
  "push_front k e s = (Inr (k, me_node e), s\<lparr>mc_list := (mc_fresh s, k) # mc_list s,
     mc_map := map_put k (e\<lparr>me_listItr := mc_fresh s\<rparr>) (mc_map s), mc_fresh := Suc (mc_fresh s)\<rparr>)"

definition Cache_index :: "'k::linorder \<Rightarrow> ('k, 'k AutoPtrRef) cache_mth" where
  "Cache_index k s = (case map_find (mc_map s) k of
     Some e \<Rightarrow> push_front k e (s\<lparr>mc_list := list_erase (me_listItr e) (mc_list s)\<rparr>)
   | None \<Rightarrow> bindM (if Cache_Size s > 0 \<and> Cache_Size s = mc_capacity s then DiscardLeastRecentlyUsed else returnM ()) (\<lambda>_ s.
       let e = \<lparr>me_node = mc_fresh s, me_value = None, me_listItr = 0\<rparr> in
       push_front k e (s\<lparr>mc_map := map_put k e (mc_map s), mc_fresh := Suc (mc_fresh s)\<rparr>)) s)"

section \<open>References into the cache\<close>

definition ref_entry :: "'k AutoPtrRef \<Rightarrow> 'k AutoPtrMapCache \<Rightarrow> MapEntry option" where
  "ref_entry r s = (case map_find (mc_map s) (fst r) of
     None \<Rightarrow> None | Some e \<Rightarrow> if me_node e = snd r then Some e else None)"

definition AutoPtrRef_get :: "'k AutoPtrRef \<Rightarrow> ('k, nat option) cache_mth" where
  "AutoPtrRef_get r s = (case ref_entry r s of None \<Rightarrow> (Inl Dangling, s) | Some e \<Rightarrow> (Inr (me_value e), s))"

definition set_value :: "'k::linorder AutoPtrRef \<Rightarrow> nat option \<Rightarrow> ('k, unit) cache_mth" where
  "set_value r p s = (case ref_entry r s of
     None \<Rightarrow> (Inl Dangling, s) | Some e \<Rightarrow> (Inr (), s\<lparr>mc_map := map_put (fst r) (e\<lparr>me_value := p\<rparr>) (mc_map s)\<rparr>))"

definition AutoPtrRef_assign :: "'k::linorder AutoPtrRef \<Rightarrow> nat option \<Rightarrow> ('k, unit) cache_mth" where
  "AutoPtrRef_assign r p = bindM (AutoPtrRef_get r) (\<lambda>old.
     if old = p then returnM () else bindM (delete_object old) (\<lambda>_. set_value r p))"

definition AutoPtrRef_SetIfNull :: "'k::linorder AutoPtrRef \<Rightarrow> ('k, nat option) cache_mth \<Rightarrow> ('k, unit) cache_mth" where
  "AutoPtrRef_SetIfNull r creator = bindM (AutoPtrRef_get r) (\<lambda>old.
     if old = None then bindM creator (\<lambda>p. set_value r p) else returnM ())"

section \<open>Least recently used\<close>

text \<open>What the cache has, from the entry that was used last to the one that has not been used for longest\<close>

definition entries_of :: "'k AutoPtrMapCache \<Rightarrow> ('k \<times> nat option) list" where
  "entries_of s = map (\<lambda>p. (snd p, me_value (the (map_find (mc_map s) (snd p))))) (mc_list s)"

text \<open>\<open>caches L s es\<close>: the cache has the entries \<open>es\<close>, in the order of the list, and owns their objects. The iterators of the entries
  lead to their nodes of the list, so that the erasures find them there.\<close>

definition entry_objects :: "('k \<times> MapEntry) list \<Rightarrow> nat list" where
  "entry_objects es = pointees (map (me_value \<circ> snd) es)"

definition caches :: "nat set \<Rightarrow> ('k::linorder) AutoPtrMapCache \<Rightarrow> ('k \<times> MapEntry) list \<Rightarrow> bool" where
  "caches L s es \<longleftrightarrow> map_ok (mc_map s) \<and> map_find (mc_map s) = map_of es \<and> distinct (map fst es) \<and>
     mc_list s = map (\<lambda>p. (me_listItr (snd p), fst p)) es \<and> distinct (map (me_listItr \<circ> snd) es) \<and>
     (\<forall>p \<in> set es. me_listItr (snd p) < mc_fresh s \<and> me_node (snd p) < mc_fresh s) \<and>
     owns L s (map (me_value \<circ> snd) es)"

lemma entry_objects_simps [simp]:
  "entry_objects [] = []"
  "entry_objects (p # es) = (case me_value (snd p) of None \<Rightarrow> [] | Some a \<Rightarrow> [a]) @ entry_objects es"
  "entry_objects (xs @ ys) = entry_objects xs @ entry_objects ys"
  by (simp_all add: entry_objects_def pointees_def)

lemma owns_entries: "owns L s (map (me_value \<circ> snd) es) \<longleftrightarrow> distinct (entry_objects es) \<and> L \<inter> set (entry_objects es) = {} \<and>
    obj_live s = L \<union> set (entry_objects es) \<and> (\<forall>a \<in> obj_live s. a < obj_next s)"
  by (simp add: owns_def entry_objects_def)

lemmas caches_entries = caches_def [unfolded owns_entries]

lemma caches_new: "\<forall>a \<in> obj_live m. a < obj_next m \<Longrightarrow> caches (obj_live m) (Cache_new capacity m) []"
  by (simp add: caches_def Cache_new_def map_ok_def map_find_def fun_eq_iff owns_def AutoPtrMapCache.defs Objects.defs)

lemma caches_set:
  assumes "caches L s es"
  shows "set (mc_map s) = set es" "length (mc_map s) = length es" "mset (mc_map s) = mset es"
proof -
  have ok: "map_ok (mc_map s)" and f: "map_of (mc_map s) = map_of es" and d: "distinct (map fst es)"
    using assms by (simp_all add: caches_def map_find_def fun_eq_iff)
  have "(k, e) \<in> set (mc_map s) \<longleftrightarrow> (k, e) \<in> set es" for k e
    using f map_of_eq_Some_iff [OF d] map_of_eq_Some_iff [OF map_ok_distinct [OF ok]] by metis
  then show 1: "set (mc_map s) = set es" by auto
  then show "mset (mc_map s) = mset es"
    using d map_ok_distinct [OF ok] by (simp add: set_eq_iff_mset_eq_distinct [symmetric] distinct_map)
  then show "length (mc_map s) = length es" by (rule mset_eq_length)
qed

lemma entry_objects_mset: "mset es = mset fs \<Longrightarrow> mset (entry_objects es) = mset (entry_objects fs)"
  by (simp add: entry_objects_def mset_pointees)

lemma map_of_other_keys: "map_of (filter (\<lambda>p. fst p \<noteq> k) es) = (map_of es)(k := None)"
  by (induction es) (auto simp: fun_eq_iff)

lemma entry_objects_filter: 
  "set (entry_objects (filter P es)) \<subseteq> set (entry_objects es)"
  "distinct (entry_objects es) \<Longrightarrow> distinct (entry_objects (filter P es))"
proof -
  show 1: "set (entry_objects (filter P es)) \<subseteq> set (entry_objects es)" for es
    by (induction es) (auto split: option.splits)
  show "distinct (entry_objects es) \<Longrightarrow> distinct (entry_objects (filter P es))"
    using 1 by (induction es) (fastforce split: option.splits)+
qed

lemma list_erase_entries:
  assumes "distinct (map (me_listItr \<circ> snd) es)" "distinct (map fst es)" "(k, e) \<in> set es"
  shows "list_erase (me_listItr e) (map (\<lambda>p. (me_listItr (snd p), fst p)) es) =
    map (\<lambda>p. (me_listItr (snd p), fst p)) (filter (\<lambda>p. fst p \<noteq> k) es)"
proof -
  have "me_listItr (snd p) \<noteq> me_listItr e \<longleftrightarrow> fst p \<noteq> k" if "p \<in> set es" for p
    using that assms inj_on_eq_iff [of "me_listItr \<circ> snd" "set es" p "(k, e)"] inj_on_eq_iff [of fst "set es" p "(k, e)"]
    unfolding distinct_map by simp
  then show ?thesis by (simp add: list_erase_def filter_map comp_def cong: filter_cong)
qed

lemma push_front_caches:
  assumes "map_ok (mc_map s)" "map_find (mc_map s) = (map_of es)(k \<mapsto> e)" "mc_list s = map (\<lambda>p. (me_listItr (snd p), fst p)) es"
    "k \<notin> fst ` set es" "distinct (map fst es)" "distinct (map (me_listItr \<circ> snd) es)"
    "\<forall>p \<in> set es. me_listItr (snd p) < mc_fresh s \<and> me_node (snd p) < mc_fresh s" "me_node e < mc_fresh s"
    "distinct (entry_objects ((k, e) # es))" "L \<inter> set (entry_objects ((k, e) # es)) = {}"
    "obj_live s = L \<union> set (entry_objects ((k, e) # es))" "\<forall>a \<in> obj_live s. a < obj_next s"
  shows "\<exists>t. push_front k e s = (Inr (k, me_node e), t) \<and> caches L t ((k, e\<lparr>me_listItr := mc_fresh s\<rparr>) # es) \<and>
    mc_capacity t = mc_capacity s \<and> obj_next t = obj_next s"
proof -
  define t where "t = s\<lparr>mc_list := (mc_fresh s, k) # mc_list s,
     mc_map := map_put k (e\<lparr>me_listItr := mc_fresh s\<rparr>) (mc_map s), mc_fresh := Suc (mc_fresh s)\<rparr>"
  have t: "mc_list t = (mc_fresh s, k) # mc_list s" "mc_map t = map_put k (e\<lparr>me_listItr := mc_fresh s\<rparr>) (mc_map s)"
    "mc_fresh t = Suc (mc_fresh s)" "obj_live t = obj_live s" "obj_next t = obj_next s" "mc_capacity t = mc_capacity s"
    by (simp_all add: t_def)
  have "caches L t ((k, e\<lparr>me_listItr := mc_fresh s\<rparr>) # es)"
    unfolding caches_entries
  proof (intro conjI)
    show "map_ok (mc_map t)" using assms(1) by (simp add: t map_put_ok)
    show "map_find (mc_map t) = map_of ((k, e\<lparr>me_listItr := mc_fresh s\<rparr>) # es)" using assms(1,2) by (simp add: t map_find_put)
    show "distinct (map (me_listItr \<circ> snd) ((k, e\<lparr>me_listItr := mc_fresh s\<rparr>) # es))" using assms(6,7) by auto
    show "\<forall>p \<in> set ((k, e\<lparr>me_listItr := mc_fresh s\<rparr>) # es). me_listItr (snd p) < mc_fresh t \<and> me_node (snd p) < mc_fresh t"
      using assms(7,8) by (auto simp: t)
  qed (use assms in \<open>auto simp: t\<close>)
  then show ?thesis using t by (auto simp: push_front_def t_def)
qed

lemma Cache_index_hit:
  assumes c: "caches L s es" and k: "map_of es k = Some e"
  shows "\<exists>t n. Cache_index k s = (Inr (k, me_node e), t) \<and> caches L t ((k, e\<lparr>me_listItr := n\<rparr>) # filter (\<lambda>p. fst p \<noteq> k) es) \<and>
    mc_capacity t = mc_capacity s \<and> obj_next t = obj_next s"
proof -
  let ?fs = "filter (\<lambda>p. fst p \<noteq> k) es" and ?s = "s\<lparr>mc_list := list_erase (me_listItr e) (mc_list s)\<rparr>"
  note C = c [unfolded caches_entries]
  have d: "distinct (map fst es)" using c by (simp add: caches_entries)
  have m: "mset es = mset ((k, e) # ?fs)"
  proof -
    have "filter (\<lambda>p. fst p = k) es = [(k, e)]"
      using k d by (induction es) (auto simp: filter_empty_conv image_iff split: if_splits)
    then show ?thesis using multiset_partition [of "mset es" "\<lambda>p. fst p = k"] by (simp flip: mset_filter)
  qed
  have update: "obj_live (s\<lparr>mc_list := x\<rparr>) = obj_live s" for x by simp
  have o: "mset (entry_objects es) = mset (entry_objects ((k, e) # ?fs))" by (rule entry_objects_mset [OF m])
  have "\<exists>t. push_front k e ?s = (Inr (k, me_node e), t) \<and> caches L t ((k, e\<lparr>me_listItr := mc_fresh ?s\<rparr>) # ?fs) \<and>
    mc_capacity t = mc_capacity ?s \<and> obj_next t = obj_next ?s"
  proof (rule push_front_caches)
    show "map_find (mc_map ?s) = (map_of ?fs)(k \<mapsto> e)" using k C by (simp add: map_of_other_keys map_upd_triv)
    show "mc_list ?s = map (\<lambda>p. (me_listItr (snd p), fst p)) ?fs" using list_erase_entries [of es k e] map_of_SomeD [OF k] C by simp
    show "distinct (entry_objects ((k, e) # ?fs))" "L \<inter> set (entry_objects ((k, e) # ?fs)) = {}" "obj_live ?s = L \<union> set (entry_objects ((k, e) # ?fs))"
      using mset_eq_setD [OF o] mset_eq_imp_distinct_iff [OF o] C by (simp_all only: update)
    show "me_node e < mc_fresh ?s" using bspec [of "set es" _ "(k, e)"] map_of_SomeD [OF k] C by fastforce
  qed (use C in \<open>auto simp: distinct_map_filter\<close>)
  moreover have "Cache_index k s = push_front k e ?s" using k C by (simp add: Cache_index_def)
  ultimately show ?thesis by auto
qed

lemma Discard_caches:
  assumes c: "caches L s (es @ [(k, e)])"
  shows "\<exists>t. DiscardLeastRecentlyUsed s = (Inr (), t) \<and> caches L t es \<and> mc_capacity t = mc_capacity s \<and> obj_next t = obj_next s"
proof -
  note C = c [unfolded caches_entries]
  have k: "k \<notin> fst ` set es" using C by auto
  then have n: "map_of es k = None" by (simp add: map_of_eq_None_iff)
  have f: "filter (\<lambda>p. fst p \<noteq> k) (es @ [(k, e)]) = es" using k by (auto simp: filter_id_conv)
  have find: "map_find (mc_map s) k = Some e" using C n by (simp add: map_add_def)
  define t where "t = s\<lparr>obj_live := obj_live s - set_option (me_value e), mc_list := list_erase (me_listItr e) (mc_list s), mc_map := map_erase k (mc_map s)\<rparr>"
  have t: "obj_live t = obj_live s - set_option (me_value e)" "mc_list t = list_erase (me_listItr e) (mc_list s)" "mc_map t = map_erase k (mc_map s)"
    "mc_fresh t = mc_fresh s" "obj_next t = obj_next s" "mc_capacity t = mc_capacity s" by (simp_all add: t_def)
  have "DiscardLeastRecentlyUsed s = (Inr (), t)"
    using C find by (auto simp: DiscardLeastRecentlyUsed_def delete_object_def bindM_def t_def split: option.splits)
  moreover have "caches L t es"
    unfolding caches_entries
  proof (intro conjI)
    show "map_ok (mc_map t)" using C by (simp add: t omap.erase_ok)
    show "map_find (mc_map t) = map_of es" using C n by (auto simp: t omap.find_erase fun_eq_iff map_add_def split: option.split)
    show "mc_list t = map (\<lambda>p. (me_listItr (snd p), fst p)) es"
      using list_erase_entries [of "es @ [(k, e)]" k e] C f by (simp add: t)
    show "obj_live t = L \<union> set (entry_objects es)" using C by (cases "me_value e") (auto simp: t)
  qed (use C in \<open>auto simp: t\<close>)
  ultimately show ?thesis using t by blast
qed

text \<open>A miss: the last entry goes when the cache is full, unless its capacity is 0.\<close>

definition made_room :: "nat \<Rightarrow> 'a list \<Rightarrow> 'a list" where
  "made_room cap es = (if es \<noteq> [] \<and> length es = cap then butlast es else es)"

lemma Cache_index_miss:
  assumes c: "caches L s es" and k: "map_of es k = None" and n: "length es < 2 ^ 32"
  shows "\<exists>t e. Cache_index k s = (Inr (k, me_node e), t) \<and> me_value e = None \<and>
    caches L t ((k, e) # made_room (unat (mc_capacity s)) es) \<and> mc_capacity t = mc_capacity s \<and> obj_next t = obj_next s"
proof -
  let ?es = "made_room (unat (mc_capacity s)) es"
  have size: "Cache_Size s > 0 \<and> Cache_Size s = mc_capacity s \<longleftrightarrow> es \<noteq> [] \<and> length es = unat (mc_capacity s)"
    using caches_set(2) [OF c] n by (auto simp: Cache_Size_def word_unat_eq_iff unat_of_nat word_less_nat_alt)
  obtain u where u: "(if Cache_Size s > 0 \<and> Cache_Size s = mc_capacity s then DiscardLeastRecentlyUsed else returnM ()) s = (Inr (), u)"
    "caches L u ?es" "mc_capacity u = mc_capacity s" "obj_next u = obj_next s"
  proof (cases "es \<noteq> [] \<and> length es = unat (mc_capacity s)")
    case True
    then obtain es' l e where es: "es = es' @ [(l, e)]" by (cases es rule: rev_cases) auto
    then obtain u where "DiscardLeastRecentlyUsed s = (Inr (), u)" "caches L u es'" "mc_capacity u = mc_capacity s" "obj_next u = obj_next s"
      using Discard_caches [of L s es' l e] c by auto
    moreover have "?es = es'" "Cache_Size s > 0 \<and> Cache_Size s = mc_capacity s" using True size es by (auto simp: made_room_def)
    ultimately show ?thesis by (intro that [of u]) auto
  next
    case False
    then have "\<not> (Cache_Size s > 0 \<and> Cache_Size s = mc_capacity s)" using size by blast
    then have "(if Cache_Size s > 0 \<and> Cache_Size s = mc_capacity s then DiscardLeastRecentlyUsed else returnM ()) s = (Inr (), s)"
      by (auto simp: returnM_def)
    moreover have "?es = es" using False by (auto simp: made_room_def)
    ultimately show ?thesis using that [of s] c by simp
  qed
  let ?e = "\<lparr>me_node = mc_fresh u, me_value = None, me_listItr = 0\<rparr>"
  let ?u = "u\<lparr>mc_map := map_put k ?e (mc_map u), mc_fresh := Suc (mc_fresh u)\<rparr>"
  note U = u(2) [unfolded caches_entries]
  have "k \<notin> fst ` set es" using k by (simp add: map_of_eq_None_iff)
  then have fresh: "k \<notin> fst ` set ?es" by (auto simp: made_room_def dest: in_set_butlastD)
  obtain t where t: "push_front k ?e ?u = (Inr (k, me_node ?e), t)" "caches L t ((k, ?e\<lparr>me_listItr := mc_fresh ?u\<rparr>) # ?es)"
    "mc_capacity t = mc_capacity ?u" "obj_next t = obj_next ?u"
  proof (atomize_elim, rule push_front_caches)
    show "\<forall>p \<in> set ?es. me_listItr (snd p) < mc_fresh ?u \<and> me_node (snd p) < mc_fresh ?u" using U by auto
    show "map_ok (mc_map ?u)" "map_find (mc_map ?u) = (map_of ?es)(k \<mapsto> ?e)" using U by (simp_all add: map_put_ok map_find_put)
  qed (use U fresh in simp_all)
  have "map_find (mc_map s) k = None" using c k by (simp add: caches_entries)
  then have "Cache_index k s = push_front k ?e ?u" using u(1) by (simp add: Cache_index_def bindM_def Let_def)
  then show ?thesis using t u(3,4) by (intro exI [of _ t] exI [of _ "?e\<lparr>me_listItr := mc_fresh ?u\<rparr>"]) simp
qed

text \<open>The reference to the entry in front: \<open>u\<close> is a state in which the old object of the entry may be gone already.\<close>

lemma set_value_front:
  assumes c: "caches M s ((k, e) # es)" and u: "mc_map u = mc_map s" "mc_list u = mc_list s" "mc_fresh u = mc_fresh s"
    "obj_live u = L \<union> set_option p \<union> set (entry_objects es)" "L \<inter> set_option p = {}" "L \<inter> set (entry_objects es) = {}"
    "set_option p \<inter> set (entry_objects es) = {}" "\<forall>a \<in> obj_live u. a < obj_next u"
  shows "\<exists>t. set_value (k, me_node e) p u = (Inr (), t) \<and> caches L t ((k, e\<lparr>me_value := p\<rparr>) # es) \<and>
    mc_capacity t = mc_capacity u \<and> obj_next t = obj_next u"
proof -
  note C = c [unfolded caches_entries]
  define t where "t = u\<lparr>mc_map := map_put k (e\<lparr>me_value := p\<rparr>) (mc_map u)\<rparr>"
  have t: "mc_map t = map_put k (e\<lparr>me_value := p\<rparr>) (mc_map s)" "mc_list t = mc_list s" "mc_fresh t = mc_fresh s"
    "obj_live t = obj_live u" "obj_next t = obj_next u" "mc_capacity t = mc_capacity u" by (simp_all add: t_def u)
  have "set_value (k, me_node e) p u = (Inr (), t)" using C by (simp add: set_value_def ref_entry_def t_def u)
  moreover have "caches L t ((k, e\<lparr>me_value := p\<rparr>) # es)"
    unfolding caches_entries
  proof (intro conjI)
    show "map_ok (mc_map t)" "map_find (mc_map t) = map_of ((k, e\<lparr>me_value := p\<rparr>) # es)" using C by (simp_all add: t map_put_ok map_find_put)
    show "obj_live t = L \<union> set (entry_objects ((k, e\<lparr>me_value := p\<rparr>) # es))" "distinct (entry_objects ((k, e\<lparr>me_value := p\<rparr>) # es))"
      "L \<inter> set (entry_objects ((k, e\<lparr>me_value := p\<rparr>) # es)) = {}"
      using C u by (cases p; auto simp: t)+
    show "\<forall>a \<in> obj_live t. a < obj_next t" using u by (simp add: t)
  qed (use C in \<open>simp_all add: t\<close>)
  ultimately show ?thesis using t by blast
qed

lemma get_front: "caches L s ((k, e) # es) \<Longrightarrow> AutoPtrRef_get (k, me_node e) s = (Inr (me_value e), s)"
  by (simp add: AutoPtrRef_get_def ref_entry_def caches_entries)

lemma assign_front:
  assumes c: "caches (insert a L) s ((k, e) # es)" and a: "a \<notin> L"
  shows "\<exists>t. AutoPtrRef_assign (k, me_node e) (Some a) s = (Inr (), t) \<and> caches L t ((k, e\<lparr>me_value := Some a\<rparr>) # es) \<and>
    mc_capacity t = mc_capacity s \<and> obj_next t = obj_next s"
proof -
  note C = c [unfolded caches_entries]
  let ?u = "s\<lparr>obj_live := obj_live s - set_option (me_value e)\<rparr>"
  have "me_value e \<noteq> Some a" using C by auto
  moreover have "delete_object (me_value e) s = (Inr (), ?u)" using C by (auto simp: delete_object_def split: option.split)
  ultimately have "AutoPtrRef_assign (k, me_node e) (Some a) s = set_value (k, me_node e) (Some a) ?u"
    using get_front [OF c] by (simp add: AutoPtrRef_assign_def bindM_def)
  moreover have "\<exists>t. set_value (k, me_node e) (Some a) ?u = (Inr (), t) \<and> caches L t ((k, e\<lparr>me_value := Some a\<rparr>) # es) \<and>
    mc_capacity t = mc_capacity ?u \<and> obj_next t = obj_next ?u"
  proof (rule set_value_front [OF c])
    show "obj_live ?u = L \<union> set_option (Some a) \<union> set (entry_objects es)" using C by (cases "me_value e") auto
  qed (use C a in auto)
  ultimately show ?thesis by simp
qed

lemma new_object_caches:
  assumes "caches L s es"
  shows "\<exists>t. new_object s = (Inr (obj_next s), t) \<and> caches (insert (obj_next s) L) t es \<and> obj_next s \<notin> L \<and>
    mc_capacity t = mc_capacity s \<and> obj_next t = Suc (obj_next s)"
proof -
  note C = assms [unfolded caches_entries]
  have "obj_next s \<notin> obj_live s" using C by (meson less_irrefl)
  then have "caches (insert (obj_next s) L) (s\<lparr>obj_live := insert (obj_next s) (obj_live s), obj_next := Suc (obj_next s)\<rparr>) es" "obj_next s \<notin> L"
    using C unfolding caches_entries by (auto simp: less_Suc_eq)
  then show ?thesis by (simp add: new_object_def)
qed

lemma fetch_front:
  assumes c: "caches L s ((k, e) # es)"
  shows "\<exists>t. AutoPtrRef_SetIfNull (k, me_node e) (bindM new_object (\<lambda>a. returnM (Some a))) s = (Inr (), t) \<and>
    caches L t ((k, e\<lparr>me_value := Some (case me_value e of None \<Rightarrow> obj_next s | Some a \<Rightarrow> a)\<rparr>) # es) \<and> mc_capacity t = mc_capacity s"
proof (cases "me_value e")
  case None
  obtain u where u: "new_object s = (Inr (obj_next s), u)" "caches (insert (obj_next s) L) u ((k, e) # es)" "obj_next s \<notin> L" "mc_capacity u = mc_capacity s"
    using new_object_caches [OF c] by blast
  note U = u(2) [unfolded caches_entries]
  have "\<exists>t. set_value (k, me_node e) (Some (obj_next s)) u = (Inr (), t) \<and> caches L t ((k, e\<lparr>me_value := Some (obj_next s)\<rparr>) # es) \<and>
    mc_capacity t = mc_capacity u \<and> obj_next t = obj_next u"
    by (rule set_value_front [OF u(2)]) (use U u(3) None in auto)
  then show ?thesis using get_front [OF c] u None by (auto simp: AutoPtrRef_SetIfNull_def mth_defs)
next
  case (Some a)
  then have "e\<lparr>me_value := Some a\<rparr> = e" by (cases e) simp
  then have "caches L s ((k, e\<lparr>me_value := Some a\<rparr>) # es)" using c by metis
  then show ?thesis using get_front [OF c] Some by (simp add: AutoPtrRef_SetIfNull_def mth_defs)
qed

section \<open>Histories\<close>

text \<open>\<^verbatim>\<open>cache[key] = new Value\<close>\<close>

definition cache_store :: "'k::linorder \<Rightarrow> ('k, unit) cache_mth" where
  "cache_store k = bindM new_object (\<lambda>a. bindM (Cache_index k) (\<lambda>r. AutoPtrRef_assign r (Some a)))"

text \<open>The entries of an unbounded cache, and those that one of a capacity keeps\<close>

definition used :: "'k \<times> 'v \<Rightarrow> ('k \<times> 'v) list \<Rightarrow> ('k \<times> 'v) list" where
  "used p xs = p # filter (\<lambda>q. fst q \<noteq> fst p) xs"

definition kept :: "nat \<Rightarrow> 'a list \<Rightarrow> 'a list" where
  "kept cap xs = (if cap = 0 then xs else take cap xs)"

lemma kept_Nil: "kept cap [] = []"
  by (simp add: kept_def)

lemma used_distinct: "distinct (map fst xs) \<Longrightarrow> distinct (map fst (used p xs))"
  by (auto simp: used_def distinct_map_filter)

lemma length_used: "length (used p xs) \<le> Suc (length xs)"
  by (simp add: used_def)

lemma take_filter_key:
  "distinct (map fst xs) \<Longrightarrow> k \<in> fst ` set (take (Suc n) xs) \<Longrightarrow>
     filter (\<lambda>q. fst q \<noteq> k) (take (Suc n) xs) = take n (filter (\<lambda>q. fst q \<noteq> k) xs)"
proof (induction xs arbitrary: n)
  case (Cons p xs)
  show ?case
  proof (cases "fst p = k")
    case True
    then have "k \<notin> fst ` set xs" using Cons.prems(1) by auto
    then have k: "q \<in> set xs \<Longrightarrow> fst q \<noteq> k" for q by (metis imageI)
    then have "filter (\<lambda>q. fst q \<noteq> k) xs = xs" by (simp add: filter_id_conv)
    moreover have "filter (\<lambda>q. fst q \<noteq> k) (take n xs) = take n xs" using k by (auto simp: filter_id_conv dest: in_set_takeD)
    ultimately show ?thesis using True by simp
  next
    case False
    then obtain m where "n = Suc m" using Cons.prems(2) by (cases n) auto
    then show ?thesis using False Cons by auto
  qed
qed simp

lemma kept_used:
  assumes "distinct (map fst xs)"
  shows "(k, v) # (if k \<in> fst ` set (kept cap xs) then filter (\<lambda>q. fst q \<noteq> k) (kept cap xs) else made_room cap (kept cap xs)) =
    kept cap (used (k, v) xs)"
proof (cases cap)
  case 0
  moreover have "filter (\<lambda>q. fst q \<noteq> k) xs = xs" if "k \<notin> fst ` set xs" using that by (auto simp: filter_id_conv)
  ultimately show ?thesis by (auto simp: kept_def used_def made_room_def)
next
  case (Suc n)
  show ?thesis
  proof (cases "k \<in> fst ` set (take cap xs)")
    case True
    then show ?thesis using take_filter_key [OF assms, of k n] Suc by (simp add: kept_def used_def)
  next
    case False
    have "take n (filter (\<lambda>q. fst q \<noteq> k) xs) = made_room cap (take cap xs)"
    proof (cases "length xs < cap")
      case True
      then have "filter (\<lambda>q. fst q \<noteq> k) xs = xs" using False by (auto simp: filter_id_conv)
      then show ?thesis using True Suc by (simp add: made_room_def)
    next
      case long: False
      have "filter (\<lambda>q. fst q \<noteq> k) (take cap xs) = take cap xs" using False by (auto simp: filter_id_conv)
      then have "filter (\<lambda>q. fst q \<noteq> k) xs = take cap xs @ filter (\<lambda>q. fst q \<noteq> k) (drop cap xs)"
        by (metis append_take_drop_id filter_append)
      then show ?thesis using long Suc by (auto simp: made_room_def butlast_take)
    qed
    then show ?thesis using False Suc by (simp add: kept_def used_def)
  qed
qed

definition values_of :: "('k \<times> MapEntry) list \<Rightarrow> ('k \<times> nat option) list" where
  "values_of es = map (\<lambda>p. (fst p, me_value (snd p))) es"

lemma entries_of_caches: "caches L s es \<Longrightarrow> entries_of s = values_of es"
  by (auto simp: entries_of_def values_of_def caches_entries comp_def map_of_is_SomeI)

lemma cache_store_step:
  assumes c: "caches L s es" and n: "length es < 2 ^ 32"
  shows "\<exists>t fs. cache_store k s = (Inr (), t) \<and> caches L t fs \<and> mc_capacity t = mc_capacity s \<and> obj_next t = Suc (obj_next s) \<and>
    values_of fs = (k, Some (obj_next s)) # (if k \<in> fst ` set (values_of es) then filter (\<lambda>q. fst q \<noteq> k) (values_of es)
      else made_room (unat (mc_capacity s)) (values_of es))"
proof -
  let ?es = "if k \<in> fst ` set es then filter (\<lambda>q. fst q \<noteq> k) es else made_room (unat (mc_capacity s)) es"
  obtain u where u: "new_object s = (Inr (obj_next s), u)" "caches (insert (obj_next s) L) u es" "obj_next s \<notin> L"
    "mc_capacity u = mc_capacity s" "obj_next u = Suc (obj_next s)" using new_object_caches [OF c] by blast
  obtain v e where v: "Cache_index k u = (Inr (k, me_node e), v)" "caches (insert (obj_next s) L) v ((k, e) # ?es)"
    "mc_capacity v = mc_capacity s" "obj_next v = Suc (obj_next s)"
  proof (cases "map_of es k")
    case None
    then show ?thesis using Cache_index_miss [OF u(2) None n] that u by (auto simp: map_of_eq_None_iff)
  next
    case (Some e)
    then have "k \<in> fst ` set es" by (force dest: map_of_SomeD)
    then obtain v n where "Cache_index k u = (Inr (k, me_node e), v)" "mc_capacity v = mc_capacity u" "obj_next v = obj_next u"
      "caches (insert (obj_next s) L) v ((k, e\<lparr>me_listItr := n\<rparr>) # ?es)" using Cache_index_hit [OF u(2) Some] by auto
    then show ?thesis using that [of "e\<lparr>me_listItr := n\<rparr>" v] u by simp
  qed
  obtain t where t: "AutoPtrRef_assign (k, me_node e) (Some (obj_next s)) v = (Inr (), t)"
    "caches L t ((k, e\<lparr>me_value := Some (obj_next s)\<rparr>) # ?es)" "mc_capacity t = mc_capacity v" "obj_next t = obj_next v"
    using assign_front [OF v(2) u(3)] by blast
  have "values_of (filter (\<lambda>q. fst q \<noteq> k) es) = filter (\<lambda>q. fst q \<noteq> k) (values_of es)"
    "values_of (made_room (unat (mc_capacity s)) es) = made_room (unat (mc_capacity s)) (values_of es)"
    "fst ` set (values_of es) = fst ` set es"
    by (simp_all add: values_of_def filter_map comp_def made_room_def map_butlast image_image)
  then have "values_of ((k, e\<lparr>me_value := Some (obj_next s)\<rparr>) # ?es) = (k, Some (obj_next s)) # (if k \<in> fst ` set (values_of es)
      then filter (\<lambda>q. fst q \<noteq> k) (values_of es) else made_room (unat (mc_capacity s)) (values_of es))"
    by (simp add: values_of_def)
  then show ?thesis using u v t by (intro exI [of _ t] exI [of _ "(k, e\<lparr>me_value := Some (obj_next s)\<rparr>) # ?es"]) (simp add: cache_store_def bindM_def)
qed

lemma cache_stores:
  assumes "caches L s es" "values_of es = kept (unat (mc_capacity s)) xs" "distinct (map fst xs)" "length xs + length ks < 2 ^ 32"
  shows "\<exists>t fs. forM ks cache_store s = (Inr (), t) \<and> caches L t fs \<and>
    values_of fs = kept (unat (mc_capacity s)) (fold used (zip ks (map Some [obj_next s..<obj_next s + length ks])) xs)"
  using assms
proof (induction ks arbitrary: s es xs)
  case Nil
  then show ?case by (auto simp: returnM_def)
next
  case (Cons k ks)
  let ?cap = "unat (mc_capacity s)" and ?xs = "used (k, Some (obj_next s)) xs"
  have "length es = length (kept ?cap xs)" using Cons.prems(2) by (metis length_map values_of_def)
  then have "length es < 2 ^ 32" using Cons.prems(4) by (simp add: kept_def split: if_splits)
  then obtain t fs where t: "cache_store k s = (Inr (), t)" "caches L t fs" "mc_capacity t = mc_capacity s" "obj_next t = Suc (obj_next s)"
    "values_of fs = kept ?cap ?xs"
    using cache_store_step [OF Cons.prems(1), of k, unfolded Cons.prems(2) kept_used [OF Cons.prems(3)]] by blast
  have "length ?xs + length ks < 2 ^ 32" using Cons.prems(4) length_used [of "(k, Some (obj_next s))" xs] by simp
  then obtain u gs where "forM ks cache_store t = (Inr (), u)" "caches L u gs"
    "values_of gs = kept ?cap (fold used (zip ks (map Some [obj_next t..<obj_next t + length ks])) ?xs)"
    using Cons.IH [of t fs ?xs] t used_distinct [OF Cons.prems(3)] by auto
  then show ?case using t(1,4) by (auto simp: bindM_def upt_conv_Cons simp del: upt_Suc)
qed

lemma Cache_destroy_frees:
  assumes c: "caches L s es"
  shows "\<exists>t. Cache_destroy s = (Inr (), t) \<and> obj_live t = L"
proof -
  let ?ps = "map (me_value \<circ> snd) (mc_map s)"
  have "owns L s ?ps" using c caches_set(3) [OF c] owns_mset [of L s "map (me_value \<circ> snd) es" ?ps] by (simp add: caches_def)
  then obtain X where "forM ?ps delete_object s = (Inr (), s\<lparr>obj_live := X\<rparr>)" "owns L (s\<lparr>obj_live := X\<rparr>) []"
    using owns_delete_all [of L s ?ps "[]"] by auto
  then show ?thesis using owns_nothing [of L "s\<lparr>obj_live := X\<rparr>"] by (simp add: Cache_destroy_def Cache_Clear_def bindM_def)
qed

lemma values_of_objects: "set (entry_objects es) = {a. Some a \<in> snd ` set (values_of es)}"
  by (force simp: entry_objects_def values_of_def set_pointees)

text \<open>C37. The cache keeps the entries that were used last, and it owns its objects. After any sequence of assignments of new objects
  to keys it has the most recent keys, at most as many as its capacity (all of them when the capacity is 0), each with the object
  that was assigned last; exactly these objects are alive beside those that others own, and its destructor deletes them.\<close>

theorem Cache_history:
  fixes ks :: "'k::linorder list"
  assumes "\<forall>a \<in> obj_live m. a < obj_next m" "length ks < 2 ^ 32"
  shows "case forM ks cache_store (Cache_new capacity m) of
      (Inr _, s) \<Rightarrow>
        entries_of s = kept (unat (word_of_int capacity :: UINT_32))
          (fold used (zip ks (map Some [obj_next m..<obj_next m + length ks])) []) \<and>
        obj_live s = obj_live m \<union> {a. Some a \<in> snd ` set (entries_of s)} \<and>
        (case Cache_destroy s of (Inr _, t) \<Rightarrow> obj_live t = obj_live m | (Inl e, t) \<Rightarrow> False)
    | (Inl e, s) \<Rightarrow> False"
proof -
  let ?s = "Cache_new capacity m :: 'k AutoPtrMapCache"
  have s: "mc_capacity ?s = word_of_int capacity" "obj_next ?s = obj_next m"
    by (simp_all add: Cache_new_def AutoPtrMapCache.defs Objects.defs)
  obtain t fs where t: "forM ks cache_store ?s = (Inr (), t)" "caches (obj_live m) t fs"
    "values_of fs = kept (unat (mc_capacity ?s)) (fold used (zip ks (map Some [obj_next ?s..<obj_next ?s + length ks])) [])"
    using cache_stores [OF caches_new [OF assms(1), of capacity], of "[]" ks] assms(2) by (auto simp: values_of_def kept_Nil)
  obtain u where "Cache_destroy t = (Inr (), u)" "obj_live u = obj_live m" using Cache_destroy_frees [OF t(2)] by blast
  then show ?thesis using t entries_of_caches [OF t(2)] values_of_objects [of fs] t(2) by (simp add: s caches_entries)
qed

theorem Cache_history_witness:
  "case forM [''a'', ''b'', ''a'', ''c''] cache_store (Cache_new 2 \<lparr>obj_live = {0}, obj_next = 1\<rparr>) of
      (Inr _, s) \<Rightarrow> entries_of s = [(''c'', Some 4), (''a'', Some 3)] \<and> obj_live s = {0, 3, 4}
    | (Inl e, s) \<Rightarrow> False"
proof -
  let ?m = "\<lparr>obj_live = {0}, obj_next = 1\<rparr>" and ?ks = "[''a'', ''b'', ''a'', ''c'']"
  have "kept (unat (word_of_int 2 :: UINT_32)) (fold used (zip ?ks (map Some [1..<5])) []) = [(''c'', Some 4), (''a'', Some 3)]"
    by code_simp
  moreover have "[obj_next ?m..<obj_next ?m + length ?ks] = [1..<5]" by code_simp
  ultimately show ?thesis
    using Cache_history [of ?m ?ks 2] by (auto simp del: forM.simps upt_Suc split: prod.splits sum.splits)
qed

end
