(* ===== verification/Owning_Containers.thy ===== *)
theory Owning_Containers
  imports Owned_Objects
begin

text \<open>
  \<^verbatim>\<open>utils/AutoPtrVector.hpp\<close>, \<^verbatim>\<open>utils/AutoPtrStack.hpp\<close>, \<^verbatim>\<open>utils/AutoPtrMap.hpp\<close>, \<^verbatim>\<open>utils/AutoPtrPair.hpp\<close>: containers that own the objects they
  point to. An \<^verbatim>\<open>auto_ptr\<close> that is passed on gives the pointer away, one that is returned hands it over.
\<close>

section \<open>Vectors\<close>

record PtrVector = Objects +
  pv_items :: "nat option list"

type_synonym ('z, 'a) vector_mth = "('z PtrVector_scheme, ownership_error, 'a) mth"

definition Vector_new :: "UINT_32 \<Rightarrow> Objects \<Rightarrow> PtrVector" where
  "Vector_new n m = Objects.extend m (PtrVector.fields (replicate (unat n) None))"

text \<open>The constructor that takes the items of another vector: the new items, and those of the other afterwards\<close>

definition Vector_take :: "nat option list \<Rightarrow> nat option list \<times> nat option list" where
  "Vector_take other = (other, [])"

definition Vector_Clear :: "('z, unit) vector_mth" where
  "Vector_Clear s = bindM (forM (pv_items s) delete_object) (\<lambda>_ s. (Inr (), s\<lparr>pv_items := []\<rparr>)) s"

definition Vector_destroy :: "('z, unit) vector_mth" where "Vector_destroy = Vector_Clear"

definition Vector_IsEmpty :: "'z PtrVector_scheme \<Rightarrow> bool" where "Vector_IsEmpty s \<longleftrightarrow> pv_items s = []"

definition Vector_Size :: "'z PtrVector_scheme \<Rightarrow> UINT_32" where "Vector_Size s = of_nat (length (pv_items s))"

definition Vector_PushBack :: "nat option \<Rightarrow> ('z, unit) vector_mth" where
  "Vector_PushBack p s = (Inr (), s\<lparr>pv_items := pv_items s @ [p]\<rparr>)"

definition Vector_PopBack :: "('z, nat option) vector_mth" where
  "Vector_PopBack s = (if pv_items s = [] then (Inl OutOfRange, s) else (Inr (last (pv_items s)), s\<lparr>pv_items := butlast (pv_items s)\<rparr>))"

definition Vector_Set :: "UINT_32 \<Rightarrow> nat option \<Rightarrow> ('z, unit) vector_mth" where
  "Vector_Set index p s =
     bindM (\<lambda>s. if index \<ge> Vector_Size s then (Inr (), s\<lparr>pv_items := resize (unat (index + 1)) None (pv_items s)\<rparr>)
       else if unat index < length (pv_items s) then delete_object (pv_items s ! unat index) s else (Inl OutOfRange, s))
     (\<lambda>_ s. if unat index < length (pv_items s) then (Inr (), s\<lparr>pv_items := (pv_items s)[unat index := p]\<rparr>) else (Inl OutOfRange, s)) s"

definition Vector_at :: "UINT_32 \<Rightarrow> ('z, nat option) vector_mth" where
  "Vector_at index s = (if unat index < length (pv_items s) then Inr (pv_items s ! unat index) else Inl OutOfRange, s)"

definition Vector_Back :: "('z, nat option) vector_mth" where
  "Vector_Back s = (if pv_items s = [] then Inl OutOfRange else Inr (last (pv_items s)), s)"

definition Vector_Erase :: "UINT_32 \<Rightarrow> ('z, unit) vector_mth" where
  "Vector_Erase index s =
     (if unat index < length (pv_items s) then bindM (delete_object (pv_items s ! unat index)) (\<lambda>_ s.
        (Inr (), s\<lparr>pv_items := take (unat index) (pv_items s) @ drop (Suc (unat index)) (pv_items s)\<rparr>)) s
      else (Inl OutOfRange, s))"

definition Vector_Resize :: "UINT_32 \<Rightarrow> ('z, unit) vector_mth" where
  "Vector_Resize newSize s =
     (if unat newSize < length (pv_items s) then
        bindM (forM (drop (unat newSize) (pv_items s)) delete_object) (\<lambda>_ s. (Inr (), s\<lparr>pv_items := take (unat newSize) (pv_items s)\<rparr>)) s
      else if unat newSize > length (pv_items s) then (Inr (), s\<lparr>pv_items := resize (unat newSize) None (pv_items s)\<rparr>)
      else (Inr (), s))"

text \<open>\<open>srt\<close> is \<^verbatim>\<open>std::sort\<close> with the comparator.\<close>

definition Vector_Sort :: "(nat option list \<Rightarrow> nat option list) \<Rightarrow> ('z, unit) vector_mth" where
  "Vector_Sort srt s = (Inr (), s\<lparr>pv_items := srt (pv_items s)\<rparr>)"

section \<open>Stacks\<close>

definition Stack_IsEmpty :: "'z PtrVector_scheme \<Rightarrow> bool" where "Stack_IsEmpty = Vector_IsEmpty"

definition Stack_Push :: "nat option \<Rightarrow> ('z, unit) vector_mth" where "Stack_Push = Vector_PushBack"

definition Stack_Pop :: "('z, nat option) vector_mth" where "Stack_Pop = Vector_PopBack"

text \<open>The reference to the object on top; a null pointer must not be followed.\<close>

definition Stack_Top :: "('z, nat) vector_mth" where
  "Stack_Top = bindM Vector_Back (\<lambda>p. case p of None \<Rightarrow> throwM Dangling | Some a \<Rightarrow> returnM a)"

section \<open>Pairs\<close>

text \<open>A pair owns its value: copying from one takes the value away from it, also through the \<^verbatim>\<open>Reference\<close> that a temporary is
  converted to. The functions return the new pair and the one that was copied from.\<close>

record 'k AutoPtrPair =
  pp_key :: 'k
  pp_value :: "nat option"

definition Pair_of_key :: "'k \<Rightarrow> 'k AutoPtrPair" where "Pair_of_key k = \<lparr>pp_key = k, pp_value = None\<rparr>"

definition MakeAutoPtrPair :: "'k \<Rightarrow> nat option \<Rightarrow> 'k AutoPtrPair" where "MakeAutoPtrPair k p = \<lparr>pp_key = k, pp_value = p\<rparr>"

definition Pair_copy :: "'k AutoPtrPair \<Rightarrow> 'k AutoPtrPair \<times> 'k AutoPtrPair" where
  "Pair_copy other = (\<lparr>pp_key = pp_key other, pp_value = pp_value other\<rparr>, other\<lparr>pp_value := None\<rparr>)"

definition Pair_ReleaseValue :: "'k AutoPtrPair \<Rightarrow> nat option \<times> 'k AutoPtrPair" where
  "Pair_ReleaseValue p = (pp_value p, p\<lparr>pp_value := None\<rparr>)"

text \<open>An assignment deletes the value that the pair had; \<open>same\<close> says that it is an assignment to itself.\<close>

definition Pair_assign :: "bool \<Rightarrow> 'k AutoPtrPair \<Rightarrow> 'k AutoPtrPair \<Rightarrow> ('z, 'k AutoPtrPair \<times> 'k AutoPtrPair) owner_mth" where
  "Pair_assign same p other = (if same then returnM (p, other)
     else bindM (if pp_value p \<noteq> pp_value other then delete_object (pp_value p) else returnM ()) (\<lambda>_.
       returnM (p\<lparr>pp_key := pp_key other, pp_value := pp_value other\<rparr>, other\<lparr>pp_value := None\<rparr>)))"

section \<open>Maps\<close>

record 'k PtrMap = Objects +
  pm_map :: "('k, nat option) std_map"

type_synonym ('k, 'a) map_mth = "('k PtrMap, ownership_error, 'a) mth"

definition PtrMap_new :: "Objects \<Rightarrow> 'k PtrMap" where "PtrMap_new m = Objects.extend m (PtrMap.fields [])"

definition PtrMap_Size :: "'k PtrMap \<Rightarrow> UINT_32" where "PtrMap_Size s = of_nat (length (pm_map s))"

definition PtrMap_Clear :: "('k, unit) map_mth" where
  "PtrMap_Clear s = bindM (forM (map snd (pm_map s)) delete_object) (\<lambda>_ s. (Inr (), s\<lparr>pm_map := []\<rparr>)) s"

definition PtrMap_destroy :: "('k, unit) map_mth" where "PtrMap_destroy = PtrMap_Clear"

text \<open>An iterator is the key it stands at, or \<open>None\<close> at the end.\<close>

type_synonym 'k itr = "'k option"

definition Itr_entry :: "'k itr \<Rightarrow> ('k, 'k \<times> nat option) map_mth" where
  "Itr_entry i s = (case i of None \<Rightarrow> Inl OutOfRange | Some k \<Rightarrow> (case map_find (pm_map s) k of None \<Rightarrow> Inl Dangling | Some p \<Rightarrow> Inr (k, p)), s)"

definition Itr_Key :: "'k itr \<Rightarrow> ('k, 'k) map_mth" where "Itr_Key i = bindM (Itr_entry i) (\<lambda>e. returnM (fst e))"

definition Itr_Value :: "'k itr \<Rightarrow> ('k, nat option) map_mth" where "Itr_Value i = bindM (Itr_entry i) (\<lambda>e. returnM (snd e))"

definition Itr_inc :: "'k itr \<Rightarrow> ('k, 'k itr) map_mth" where
  "Itr_inc i = bindM (Itr_entry i) (\<lambda>e s.
     (Inr (case tl (dropWhile (\<lambda>p. fst p \<noteq> fst e) (pm_map s)) of [] \<Rightarrow> None | p # _ \<Rightarrow> Some (fst p)), s))"

definition Itr_ReleaseValue :: "'k::linorder itr \<Rightarrow> ('k, nat option) map_mth" where
  "Itr_ReleaseValue i = bindM (Itr_entry i) (\<lambda>e s. (Inr (snd e), s\<lparr>pm_map := map_put (fst e) None (pm_map s)\<rparr>))"

definition PtrMap_Set :: "'k::linorder \<Rightarrow> nat option \<Rightarrow> ('k, 'k itr) map_mth" where
  "PtrMap_Set k p = bindM (\<lambda>s. case map_find (pm_map s) k of
       Some old \<Rightarrow> delete_object old s
     | None \<Rightarrow> (Inr (), s\<lparr>pm_map := map_put k None (pm_map s)\<rparr>))
     (\<lambda>_ s. (Inr (Some k), s\<lparr>pm_map := map_put k p (pm_map s)\<rparr>))"

definition PtrMap_at :: "'k PtrMap \<Rightarrow> 'k \<Rightarrow> nat option" where
  "PtrMap_at s k = (case map_find (pm_map s) k of None \<Rightarrow> None | Some p \<Rightarrow> p)"

definition PtrMap_begin :: "'k PtrMap \<Rightarrow> 'k itr" where
  "PtrMap_begin s = (case pm_map s of [] \<Rightarrow> None | p # _ \<Rightarrow> Some (fst p))"

definition PtrMap_end :: "'k itr" where "PtrMap_end = None"

definition PtrMap_Find :: "'k \<Rightarrow> 'k PtrMap \<Rightarrow> 'k itr" where
  "PtrMap_Find k s = (case map_find (pm_map s) k of None \<Rightarrow> PtrMap_end | Some _ \<Rightarrow> Some k)"

definition FindOrCreate :: "'k::linorder \<Rightarrow> ('k, nat option) map_mth \<Rightarrow> ('k, 'k itr) map_mth" where
  "FindOrCreate k creator s =
     (if PtrMap_Find k s = PtrMap_end then bindM creator (\<lambda>p. PtrMap_Set k p) s else (Inr (PtrMap_Find k s), s))"

definition PtrMap_Erase_itr :: "'k itr \<Rightarrow> ('k, 'k itr) map_mth" where
  "PtrMap_Erase_itr i = bindM (Itr_entry i) (\<lambda>e. bindM (delete_object (snd e)) (\<lambda>_. bindM (Itr_inc i) (\<lambda>n s.
     (Inr n, s\<lparr>pm_map := map_erase (fst e) (pm_map s)\<rparr>))))"

definition PtrMap_Erase :: "'k \<Rightarrow> ('k, bool) map_mth" where
  "PtrMap_Erase k s = (case map_find (pm_map s) k of
     None \<Rightarrow> (Inr False, s)
   | Some p \<Rightarrow> bindM (delete_object p) (\<lambda>_ s. (Inr True, s\<lparr>pm_map := map_erase k (pm_map s)\<rparr>)) s)"

definition PtrMap_ForEach :: "('k \<Rightarrow> nat option \<Rightarrow> ('k, unit) map_mth) \<Rightarrow> ('k, unit) map_mth" where
  "PtrMap_ForEach f s = forM (pm_map s) (\<lambda>p. f (fst p) (snd p)) s"

section \<open>A vector owns its items\<close>

lemma owns_items [owner_simps, simp]: "owns L (s\<lparr>pv_items := qs\<rparr>) ps \<longleftrightarrow> owns L s ps"
  by (simp add: owns_def)

datatype vector_op =
    PushNew | PopDrop | SetNew UINT_32 | EraseAt UINT_32 | ResizeTo UINT_32 | SortBy "nat option list \<Rightarrow> nat option list" | ClearAll

fun vector_step :: "vector_op \<Rightarrow> ('z, unit) vector_mth" where
  "vector_step PushNew = bindM new_object (\<lambda>a. Vector_PushBack (Some a))"
| "vector_step PopDrop = bindM Vector_PopBack delete_object"
| "vector_step (SetNew i) = bindM new_object (\<lambda>a. Vector_Set i (Some a))"
| "vector_step (EraseAt i) = Vector_Erase i"
| "vector_step (ResizeTo n) = Vector_Resize n"
| "vector_step (SortBy srt) = Vector_Sort srt"
| "vector_step ClearAll = Vector_Clear"

text \<open>The steps stay within \<open>n\<close> items, and \<open>n\<close> within 32 bits, so that sizes are exact.\<close>

fun in_range :: "nat \<Rightarrow> vector_op \<Rightarrow> bool" where
  "in_range n (SetNew i) \<longleftrightarrow> unat i < n"
| "in_range n (ResizeTo k) \<longleftrightarrow> unat k \<le> n"
| "in_range n (SortBy srt) \<longleftrightarrow> (\<forall>ps. mset (srt ps) = mset ps)"
| "in_range n op \<longleftrightarrow> True"

definition vector_owns :: "nat set \<Rightarrow> nat \<Rightarrow> 'z PtrVector_scheme \<Rightarrow> bool" where
  "vector_owns L n s \<longleftrightarrow> owns L s (pv_items s) \<and> length (pv_items s) \<le> n"

lemma mset_split_nth: "i < length xs \<Longrightarrow> mset xs = add_mset (xs ! i) (mset (take i xs) + mset (drop (Suc i) xs))"
  by (metis add.commute id_take_nth_drop mset.simps(2) mset_append union_mset_add_mset_right)

lemma mset_assign_nth: "i < length xs \<Longrightarrow> mset (xs[i := p]) = add_mset p (mset (take i xs) + mset (drop (Suc i) xs))"
  by (simp add: upd_conv_take_nth_drop)

lemma Vector_Set_owns:
  assumes o: "owns L s (p # pv_items s)" and n: "length (pv_items s) \<le> n" "unat i < n" "n < 2 ^ 32"
  shows "\<exists>t. Vector_Set i p s = (Inr (), t) \<and> vector_owns L n t"
proof (cases "unat i < length (pv_items s)")
  case True
  let ?xs = "pv_items s"
  have "Vector_Size s > i" using True n by (simp add: Vector_Size_def word_less_nat_alt unat_of_nat)
  moreover have "owns L s (?xs ! unat i # ?xs[unat i := p])"
    using owns_mset [OF o] mset_split_nth [OF True] mset_assign_nth [OF True, of p] by simp
  then obtain X where "delete_object (?xs ! unat i) s = (Inr (), s\<lparr>obj_live := X\<rparr>)" "owns L (s\<lparr>obj_live := X\<rparr>) (?xs[unat i := p])"
    using owns_delete by blast
  ultimately show ?thesis
    using True n by (auto simp: Vector_Set_def bindM_def vector_owns_def not_le [symmetric])
next
  case False
  let ?xs = "resize (unat (i + 1)) None (pv_items s)"
  have i: "unat (i + 1) = Suc (unat i)" using n by (simp add: unat_word_ariths)
  have "\<not> Vector_Size s > i" using False n by (simp add: Vector_Size_def word_less_nat_alt unat_of_nat)
  moreover have xs: "?xs = pv_items s @ replicate (unat i - length (pv_items s)) None @ [None]" "length ?xs = Suc (unat i)"
    using False by (simp_all add: i resize_def Suc_diff_le replicate_append_same)
  moreover have "mset (?xs[unat i := p]) = mset (replicate (unat i - length (pv_items s)) None @ p # pv_items s)"
    using False by (simp add: xs(1) list_update_append)
  then have "owns L s (?xs[unat i := p])"
    using o owns_mset [of L s "replicate (unat i - length (pv_items s)) None @ p # pv_items s" "?xs[unat i := p]"] by simp
  ultimately show ?thesis
    using n by (auto simp: Vector_Set_def bindM_def vector_owns_def not_le [symmetric] simp del: resize_length)
qed

lemma Vector_Erase_owns:
  assumes "vector_owns L n s"
  shows "case Vector_Erase i s of (Inr _, t) \<Rightarrow> vector_owns L n t | (Inl e, t) \<Rightarrow> e = OutOfRange"
proof (cases "unat i < length (pv_items s)")
  case True
  let ?xs = "pv_items s" and ?ys = "take (unat i) (pv_items s) @ drop (Suc (unat i)) (pv_items s)"
  have "owns L s (?xs ! unat i # ?ys)"
    using owns_mset [of L s ?xs "?xs ! unat i # ?ys"] assms mset_split_nth [OF True] by (simp add: vector_owns_def)
  then obtain X where "delete_object (?xs ! unat i) s = (Inr (), s\<lparr>obj_live := X\<rparr>)" "owns L (s\<lparr>obj_live := X\<rparr>) ?ys"
    using owns_delete by blast
  then show ?thesis using True assms by (auto simp: Vector_Erase_def bindM_def vector_owns_def)
qed (simp add: Vector_Erase_def)

lemma Vector_Resize_owns:
  assumes "vector_owns L n s" "unat k \<le> n"
  shows "\<exists>t. Vector_Resize k s = (Inr (), t) \<and> vector_owns L n t"
proof (cases "unat k < length (pv_items s)")
  case True
  have "owns L s (drop (unat k) (pv_items s) @ take (unat k) (pv_items s))"
    using assms owns_mset [of L s "pv_items s"] by (simp add: vector_owns_def flip: mset_append) (metis append_take_drop_id mset_append union_commute)
  then obtain X where "forM (drop (unat k) (pv_items s)) delete_object s = (Inr (), s\<lparr>obj_live := X\<rparr>)"
    "owns L (s\<lparr>obj_live := X\<rparr>) (take (unat k) (pv_items s))" using owns_delete_all by blast
  then show ?thesis using True assms by (auto simp: Vector_Resize_def bindM_def vector_owns_def)
next
  case False
  have "owns L s (resize (unat k) None (pv_items s))"
    using assms(1) False owns_mset [of L s "replicate (unat k - length (pv_items s)) None @ pv_items s"]
    by (simp add: vector_owns_def resize_def)
  then show ?thesis using False assms by (auto simp: Vector_Resize_def vector_owns_def)
qed

lemma Vector_Clear_owns: "vector_owns L n s \<Longrightarrow> \<exists>t. Vector_Clear s = (Inr (), t) \<and> vector_owns L 0 t"
  using owns_delete_all [of L s "pv_items s" "[]"] by (auto simp: Vector_Clear_def bindM_def vector_owns_def)

lemma vector_step_owns:
  assumes o: "vector_owns L n s" and n: "in_range n op" "n < 2 ^ 32"
  shows "case vector_step op s of (Inr _, t) \<Rightarrow> vector_owns L (Suc n) t | (Inl e, t) \<Rightarrow> e = OutOfRange"
proof -
  have grow: "vector_owns L k t \<Longrightarrow> k \<le> n \<Longrightarrow> vector_owns L (Suc n) t" for k t by (simp add: vector_owns_def)
  obtain X k where new: "new_object s = (Inr (obj_next s), s\<lparr>obj_live := X, obj_next := k\<rparr>)"
    "owns L (s\<lparr>obj_live := X, obj_next := k\<rparr>) (Some (obj_next s) # pv_items s)" using owns_new [of L s "pv_items s"] o by (auto simp: vector_owns_def)
  show ?thesis
  proof (cases op)
    case PushNew
    show ?thesis using new o owns_mset [OF new(2), of "pv_items s @ [Some (obj_next s)]"]
      by (auto simp: PushNew bindM_def Vector_PushBack_def vector_owns_def)
  next
    case PopDrop
    show ?thesis
    proof (cases "pv_items s" rule: rev_cases)
      case (snoc ps p)
      then have "owns L (s\<lparr>pv_items := ps\<rparr>) (p # ps)"
        using o owns_mset [of L s "ps @ [p]" "p # ps"] by (auto simp: vector_owns_def)
      then show ?thesis using owns_delete [of L "s\<lparr>pv_items := ps\<rparr>" p ps] snoc o
        by (auto simp: PopDrop Vector_PopBack_def bindM_def vector_owns_def)
    qed (simp add: PopDrop Vector_PopBack_def bindM_def)
  next
    case (SetNew i)
    show ?thesis
      using Vector_Set_owns [of L "s\<lparr>obj_live := X, obj_next := k\<rparr>" "Some (obj_next s)" n i] new o n grow
      by (auto simp: SetNew bindM_def vector_owns_def)
  next
    case (EraseAt i)
    then show ?thesis using Vector_Erase_owns [OF o, of i] grow by (auto split: prod.splits sum.splits)
  next
    case (ResizeTo k)
    then show ?thesis using Vector_Resize_owns [OF o, of k] n grow [of n] by auto
  next
    case (SortBy srt)
    then show ?thesis using o n owns_mset [of L s "pv_items s" "srt (pv_items s)"] mset_eq_length [of "srt (pv_items s)" "pv_items s"]
      by (auto simp: Vector_Sort_def vector_owns_def)
  next
    case ClearAll
    then show ?thesis using Vector_Clear_owns [OF o] grow [of 0] by auto
  qed
qed

lemma in_range_mono: "in_range n op \<Longrightarrow> n \<le> m \<Longrightarrow> in_range m op"
  by (cases op) auto

lemma vector_steps_own:
  assumes "vector_owns L n s" "\<forall>op \<in> set ops. in_range n op" "n + length ops < 2 ^ 32"
  shows "case forM ops vector_step s of (Inr _, t) \<Rightarrow> vector_owns L (n + length ops) t | (Inl e, t) \<Rightarrow> e = OutOfRange"
  using assms
proof (induction ops arbitrary: s n)
  case Nil
  then show ?case by (simp add: returnM_def)
next
  case (Cons op ops)
  have step: "case vector_step op s of (Inr _, t) \<Rightarrow> vector_owns L (Suc n) t | (Inl e, t) \<Rightarrow> e = OutOfRange"
    using Cons.prems by (intro vector_step_owns) auto
  have range: "\<forall>op \<in> set ops. in_range (Suc n) op" using Cons.prems(2) in_range_mono [of n _ "Suc n"] by auto
  show ?case
  proof (cases "vector_step op s")
    case (Pair r t)
    then show ?thesis using step Cons.IH [of "Suc n" t] range Cons.prems(3) by (cases r) (auto simp: bindM_def split: prod.splits sum.splits)
  qed
qed

text \<open>A vector of pointers neither loses an object nor deletes one twice: after any sequence of operations with new objects, within
  its range, exactly the objects that it points to are alive beside those of others, and its destructor deletes them. The only error
  is an access behind the end, and sizes stay below \<open>2 ^ 32\<close>.\<close>

theorem Vector_history:
  assumes "\<forall>a \<in> obj_live m. a < obj_next m" "unat k \<le> n" "\<forall>op \<in> set ops. in_range n op" "n + length ops < 2 ^ 32"
  shows "case forM ops vector_step (Vector_new k m) of
      (Inr _, s) \<Rightarrow> distinct (pointees (pv_items s)) \<and> obj_live s = obj_live m \<union> {a. Some a \<in> set (pv_items s)} \<and>
        (case Vector_destroy s of (Inr _, t) \<Rightarrow> obj_live t = obj_live m | (Inl e, t) \<Rightarrow> False)
    | (Inl e, s) \<Rightarrow> e = OutOfRange"
proof -
  have "owns (obj_live m) (Vector_new k m) (replicate (unat k) None @ [])"
    unfolding owns_null using assms(1) by (simp add: Vector_new_def owns_def Objects.defs PtrVector.defs)
  then have "vector_owns (obj_live m) n (Vector_new k m)" using assms(2) by (simp add: vector_owns_def Vector_new_def Objects.defs PtrVector.defs)
  from vector_steps_own [OF this assms(3,4)]
  have H: "case forM ops vector_step (Vector_new k m) of (Inr _, t) \<Rightarrow> vector_owns (obj_live m) (n + length ops) t | (Inl e, t) \<Rightarrow> e = OutOfRange" .
  moreover have K: "distinct (pointees (pv_items t)) \<and> obj_live t = obj_live m \<union> {a. Some a \<in> set (pv_items t)} \<and>
      (case Vector_destroy t of (Inr _, u) \<Rightarrow> obj_live u = obj_live m | (Inl e, u) \<Rightarrow> False)"
    if "vector_owns (obj_live m) l t" for t l
    using that Vector_Clear_owns [OF that] by (auto simp: vector_owns_def owns_def set_pointees Vector_destroy_def)
  ultimately show ?thesis
  proof (cases "forM ops vector_step (Vector_new k m)")
    case (Pair r t)
    then show ?thesis using H K [of "n + length ops" t] by (cases r) simp_all
  qed
qed

theorem Vector_history_witness:
  "case forM [PushNew, PushNew, SetNew 0, EraseAt 1, PushNew, PopDrop] vector_step (Vector_new 0 \<lparr>obj_live = {0}, obj_next = 1\<rparr>) of
      (Inr _, s) \<Rightarrow> pv_items s = [Some 3] \<and> obj_live s = {0, 3} | (Inl e, s) \<Rightarrow> False"
proof -
  let ?ops = "[PushNew, PushNew, SetNew 0, EraseAt 1, PushNew, PopDrop]" and ?m = "\<lparr>obj_live = {0}, obj_next = 1\<rparr>"
  have "case forM ?ops vector_step (Vector_new 0 ?m) of (Inr _, s) \<Rightarrow> pv_items s = [Some 3] | (Inl e, s) \<Rightarrow> False" by code_simp
  then show ?thesis using Vector_history [of ?m 0 5 ?ops] by (auto simp del: forM.simps split: prod.splits sum.splits)
qed

section \<open>A map owns its values\<close>

lemma owns_map [owner_simps, simp]: "owns L (s\<lparr>pm_map := m\<rparr>) ps \<longleftrightarrow> owns L s ps"
  by (simp add: owns_def)

text \<open>\<open>maps L s f\<close>: the map has the values \<open>f\<close>, pointers to objects that it owns.\<close>

definition maps :: "nat set \<Rightarrow> ('k::linorder) PtrMap \<Rightarrow> ('k \<rightharpoonup> nat option) \<Rightarrow> bool" where
  "maps L s f \<longleftrightarrow> map_ok (pm_map s) \<and> map_find (pm_map s) = f \<and> owns L s (map snd (pm_map s))"

lemma map_erase_absent: "map_find m k = None \<Longrightarrow> map_erase k m = m"
  by (auto simp: map_find_def map_of_eq_None_iff map_erase_def filter_id_conv)

lemma mset_map_put: "map_ok m \<Longrightarrow> mset (map_put k v m) = add_mset (k, v) (mset (map_erase k m))"
proof (induction k v m rule: map_put.induct)
  case (2 k v x w m)
  have "filter (\<lambda>p. fst p \<noteq> k) m = m" if "k \<le> x"
    using 2(2) that by (auto simp: filter_id_conv map_ok_Cons)
  then have "{#p \<in># mset m. fst p \<noteq> k#} = mset m" if "k \<le> x"
    using that by (metis mset_filter)
  then show ?case using 2 by (auto simp: map_erase_def map_ok_Cons)
qed (simp add: map_erase_def)

lemma map_put_same: "map_ok m \<Longrightarrow> map_find m k = Some v \<Longrightarrow> map_put k v m = m"
  by (induction k v m rule: map_put.induct) (force simp: map_find_def map_ok_Cons dest!: map_of_SomeD)+

lemma mset_map_find: "map_ok m \<Longrightarrow> map_find m k = Some v \<Longrightarrow> mset m = add_mset (k, v) (mset (map_erase k m))"
  using mset_map_put [of m k v] map_put_same [of m k v] by simp

lemma map_erase_put: "map_erase k (map_put k v m) = map_erase k m"
  by (induction k v m rule: map_put.induct) (auto simp: map_erase_def)

lemma after_key: "map_ok m \<Longrightarrow> map_find m k = Some v \<Longrightarrow> tl (dropWhile (\<lambda>p. fst p \<noteq> k) m) = filter (\<lambda>p. k < fst p) m"
proof (induction m)
  case (Cons p m)
  show ?case
  proof (cases "fst p = k")
    case True
    then have "\<forall>q \<in> set m. k < fst q" using Cons.prems(1) by (cases p) (simp add: map_ok_Cons)
    then have "filter (\<lambda>p. k < fst p) m = m" by (simp add: filter_id_conv)
    then show ?thesis using True by simp
  next
    case False
    then have k: "map_find m k = Some v" using Cons.prems(2) by (cases p) (simp add: map_find_def)
    then have "fst p < k" using Cons.prems(1) by (cases p) (force simp: map_ok_Cons map_find_def dest: map_of_SomeD)
    then show ?thesis using False k Cons by (cases p) (simp add: map_ok_Cons)
  qed
qed (simp add: map_find_def)

lemma owns_put:
  assumes "map_ok m" "owns L s (p # map snd (map_erase k m))"
  shows "owns L s (map snd (map_put k p m))"
  using owns_mset [OF assms(2), of "map snd (map_put k p m)"] mset_map_put [OF assms(1), of k p] by simp

lemma owns_find:
  assumes "map_ok m" "owns L s (ps @ map snd m)" "map_find m k = Some p"
  shows "owns L s (p # ps @ map snd (map_erase k m))"
  using owns_mset [OF assms(2), of "p # ps @ map snd (map_erase k m)"] mset_map_find [OF assms(1,3)] by simp

lemma PtrMap_Set_maps:
  assumes "map_ok (pm_map s)" "owns L s (p # map snd (pm_map s))"
  shows "\<exists>t. PtrMap_Set k p s = (Inr (Some k), t) \<and> maps L t ((map_find (pm_map s))(k \<mapsto> p)) \<and> obj_next t = obj_next s"
proof (cases "map_find (pm_map s) k")
  case None
  let ?m = "map_put k None (pm_map s)"
  have "map_erase k ?m = pm_map s" using None by (simp add: map_erase_put map_erase_absent)
  then have "owns L s (map snd (map_put k p ?m))" using owns_put [of ?m L s p k] assms by (simp add: map_put_ok)
  then show ?thesis using None assms(1) by (simp add: PtrMap_Set_def bindM_def maps_def map_put_ok map_find_put)
next
  case (Some old)
  then have "owns L s (old # [p] @ map snd (map_erase k (pm_map s)))" using owns_find [of "pm_map s" L s "[p]"] assms by simp
  then obtain X where "delete_object old s = (Inr (), s\<lparr>obj_live := X\<rparr>)" "owns L (s\<lparr>obj_live := X\<rparr>) (p # map snd (map_erase k (pm_map s)))"
    using owns_delete by fastforce
  then show ?thesis using owns_put [OF assms(1)] Some assms(1)
    by (auto simp: PtrMap_Set_def bindM_def maps_def map_put_ok map_find_put)
qed

lemma PtrMap_Erase_maps:
  assumes "maps L s f"
  shows "\<exists>t. PtrMap_Erase k s = (Inr (f k \<noteq> None), t) \<and> maps L t (f(k := None)) \<and> obj_next t = obj_next s"
proof (cases "f k")
  case None
  then show ?thesis using assms by (auto simp: PtrMap_Erase_def maps_def fun_upd_idem)
next
  case (Some p)
  then have "owns L s (p # [] @ map snd (map_erase k (pm_map s)))" using assms by (intro owns_find) (auto simp: maps_def)
  then obtain X where "delete_object p s = (Inr (), s\<lparr>obj_live := X\<rparr>)" "owns L (s\<lparr>obj_live := X\<rparr>) (map snd (map_erase k (pm_map s)))"
    using owns_delete by fastforce
  then show ?thesis using assms Some by (auto simp: PtrMap_Erase_def bindM_def maps_def omap.erase_ok omap.find_erase)
qed

text \<open>Erasing at an iterator returns the iterator to the next key.\<close>

lemma PtrMap_Erase_itr_maps:
  assumes "maps L s f" "f k = Some p"
  shows "\<exists>t. PtrMap_Erase_itr (Some k) s =
      (Inr (case filter (\<lambda>p. k < fst p) (pm_map s) of [] \<Rightarrow> None | p # _ \<Rightarrow> Some (fst p)), t) \<and>
    maps L t (f(k := None)) \<and> obj_next t = obj_next s"
proof -
  note f = assms [unfolded maps_def]
  have "owns L s (p # [] @ map snd (map_erase k (pm_map s)))" using f by (intro owns_find) auto
  then obtain X where "delete_object p s = (Inr (), s\<lparr>obj_live := X\<rparr>)" "owns L (s\<lparr>obj_live := X\<rparr>) (map snd (map_erase k (pm_map s)))"
    using owns_delete by fastforce
  moreover have "tl (dropWhile (\<lambda>p. fst p \<noteq> k) (pm_map s)) = filter (\<lambda>p. k < fst p) (pm_map s)" using f by (intro after_key) auto
  ultimately show ?thesis using f
    by (auto simp: PtrMap_Erase_itr_def bindM_def Itr_entry_def Itr_inc_def maps_def omap.erase_ok omap.find_erase)
qed

lemma PtrMap_Clear_maps: "maps L s f \<Longrightarrow> \<exists>t. PtrMap_Clear s = (Inr (), t) \<and> maps L t (\<lambda>_. None) \<and> obj_next t = obj_next s"
  using owns_delete_all [of L s "map snd (pm_map s)" "[]"] by (auto simp: PtrMap_Clear_def bindM_def maps_def map_ok_def map_find_def fun_eq_iff)

text \<open>Histories, with the values that they leave: objects are numbered as they are made.\<close>

datatype 'k map_op = SetTo 'k | CreateIfMissing 'k | EraseKey 'k | EraseFound 'k | EraseAll

definition make :: "('k, nat option) map_mth" where "make = bindM new_object (\<lambda>a. returnM (Some a))"

fun map_step :: "'k::linorder map_op \<Rightarrow> ('k, unit) map_mth" where
  "map_step (SetTo k) = bindM make (\<lambda>p. bindM (PtrMap_Set k p) (\<lambda>_. returnM ()))"
| "map_step (CreateIfMissing k) = bindM (FindOrCreate k make) (\<lambda>_. returnM ())"
| "map_step (EraseKey k) = bindM (PtrMap_Erase k) (\<lambda>_. returnM ())"
| "map_step (EraseFound k) = (\<lambda>s. if PtrMap_Find k s = PtrMap_end then (Inr (), s)
     else bindM (PtrMap_Erase_itr (PtrMap_Find k s)) (\<lambda>_. returnM ()) s)"
| "map_step EraseAll = PtrMap_Clear"

fun map_effect :: "'k map_op \<Rightarrow> ('k \<rightharpoonup> nat option) \<times> nat \<Rightarrow> ('k \<rightharpoonup> nat option) \<times> nat" where
  "map_effect (SetTo k) (f, n) = (f(k \<mapsto> Some n), Suc n)"
| "map_effect (CreateIfMissing k) (f, n) = (if f k = None then (f(k \<mapsto> Some n), Suc n) else (f, n))"
| "map_effect (EraseKey k) (f, n) = (f(k := None), n)"
| "map_effect (EraseFound k) (f, n) = (f(k := None), n)"
| "map_effect EraseAll (f, n) = (\<lambda>_. None, n)"

lemma make_owns:
  assumes "maps L s f"
  shows "\<exists>t. make s = (Inr (Some (obj_next s)), t) \<and> pm_map t = pm_map s \<and> owns L t (Some (obj_next s) # map snd (pm_map s)) \<and>
    obj_next t = Suc (obj_next s)"
  using owns_new [of L s "map snd (pm_map s)"] assms by (auto simp: make_def bindM_def returnM_def maps_def new_object_def)

lemma map_step_maps:
  assumes "maps L s f"
  shows "\<exists>t. map_step op s = (Inr (), t) \<and> maps L t (fst (map_effect op (f, obj_next s))) \<and> obj_next t = snd (map_effect op (f, obj_next s))"
proof -
  obtain u where u: "make s = (Inr (Some (obj_next s)), u)" "pm_map u = pm_map s" "obj_next u = Suc (obj_next s)"
    "owns L u (Some (obj_next s) # map snd (pm_map u))" using make_owns [OF assms] by auto
  have f: "map_ok (pm_map s)" "map_find (pm_map s) = f" using assms by (simp_all add: maps_def)
  have set: "\<exists>t. PtrMap_Set k (Some (obj_next s)) u = (Inr (Some k), t) \<and> maps L t (f(k \<mapsto> Some (obj_next s))) \<and> obj_next t = Suc (obj_next s)" for k
    using PtrMap_Set_maps [OF _ u(4)] u f by simp
  show ?thesis
  proof (cases op)
    case (SetTo k)
    then show ?thesis using set [of k] u by (auto simp: bindM_def returnM_def)
  next
    case (CreateIfMissing k)
    show ?thesis
    proof (cases "f k")
      case None
      then show ?thesis using CreateIfMissing set [of k] u f by (auto simp: bindM_def returnM_def FindOrCreate_def PtrMap_Find_def PtrMap_end_def)
    next
      case (Some p)
      then show ?thesis using CreateIfMissing assms f by (auto simp: bindM_def returnM_def FindOrCreate_def PtrMap_Find_def PtrMap_end_def)
    qed
  next
    case (EraseKey k)
    then show ?thesis using PtrMap_Erase_maps [OF assms, of k] by (auto simp: bindM_def returnM_def)
  next
    case (EraseFound k)
    show ?thesis
    proof (cases "f k")
      case None
      then show ?thesis using EraseFound assms f by (simp add: PtrMap_Find_def PtrMap_end_def fun_upd_idem)
    next
      case (Some p)
      then show ?thesis using EraseFound PtrMap_Erase_itr_maps [OF assms Some] f
        by (auto simp: PtrMap_Find_def PtrMap_end_def bindM_def returnM_def)
    qed
  next
    case EraseAll
    then show ?thesis using PtrMap_Clear_maps [OF assms] by auto
  qed
qed

lemma map_steps_map:
  "maps L s f \<Longrightarrow> \<exists>t. forM ops map_step s = (Inr (), t) \<and> maps L t (fst (fold map_effect ops (f, obj_next s)))"
proof (induction ops arbitrary: s f)
  case Nil
  then show ?case by (simp add: returnM_def)
next
  case (Cons op ops)
  obtain t where t: "map_step op s = (Inr (), t)" "maps L t (fst (map_effect op (f, obj_next s)))"
    "obj_next t = snd (map_effect op (f, obj_next s))" using map_step_maps [OF Cons.prems] by blast
  then show ?case using Cons.IH [OF t(2)] by (auto simp: bindM_def)
qed

text \<open>C39. A map of pointers refines a finite map and owns its values: after any sequence of operations it has the keys and the objects
  that the sequence leaves, exactly these objects are alive beside those of others, and its destructor deletes them.\<close>

theorem PtrMap_history:
  fixes ops :: "'k::linorder map_op list"
  assumes "\<forall>a \<in> obj_live m. a < obj_next m"
  shows "case forM ops map_step (PtrMap_new m) of
      (Inr _, s) \<Rightarrow> (let f = fst (fold map_effect ops (\<lambda>_. None, obj_next m)) in
        map_find (pm_map s) = f \<and> sorted_wrt (<) (map fst (pm_map s)) \<and> obj_live s = obj_live m \<union> {a. Some a \<in> ran f} \<and>
        (case PtrMap_destroy s of (Inr _, t) \<Rightarrow> obj_live t = obj_live m | (Inl e, t) \<Rightarrow> False))
    | (Inl e, s) \<Rightarrow> False"
proof -
  let ?s = "PtrMap_new m :: 'k PtrMap"
  have "maps (obj_live m) ?s (\<lambda>_. None)" "obj_next ?s = obj_next m"
    using assms by (simp_all add: maps_def PtrMap_new_def map_ok_def map_find_def fun_eq_iff owns_def Objects.defs PtrMap.defs)
  then obtain s where s: "forM ops map_step ?s = (Inr (), s)" "maps (obj_live m) s (fst (fold map_effect ops (\<lambda>_. None, obj_next m)))"
    using map_steps_map [of "obj_live m" ?s "\<lambda>_. None" ops] by auto
  obtain t where t: "PtrMap_Clear s = (Inr (), t)" "maps (obj_live m) t (\<lambda>_. None)" using PtrMap_Clear_maps [OF s(2)] by blast
  then have "pm_map t = []" by (simp add: maps_def map_find_def [abs_def])
  then have "obj_live t = obj_live m" using t(2) by (simp add: maps_def owns_def)
  moreover have "set (map snd (pm_map s)) = ran (map_find (pm_map s))"
    using s(2) ran_distinct [OF map_ok_distinct, of "pm_map s"] by (simp add: maps_def map_find_def [abs_def])
  ultimately show ?thesis
    using s t(1) by (auto simp: Let_def maps_def owns_def set_pointees map_ok_def PtrMap_destroy_def)
qed

theorem PtrMap_history_witness:
  "case forM [SetTo ''a'', CreateIfMissing ''b'', SetTo ''a'', CreateIfMissing ''b'', EraseFound ''a'', SetTo ''c'', EraseKey ''d''] map_step
      (PtrMap_new \<lparr>obj_live = {0}, obj_next = 1\<rparr>) of
      (Inr _, s) \<Rightarrow> pm_map s = [(''b'', Some 2), (''c'', Some 4)] \<and> map_find (pm_map s) ''b'' = Some (Some 2) | (Inl e, s) \<Rightarrow> False"
proof -
  let ?ops = "[SetTo ''a'', CreateIfMissing ''b'', SetTo ''a'', CreateIfMissing ''b'', EraseFound ''a'', SetTo ''c'', EraseKey ''d'']"
    and ?m = "\<lparr>obj_live = {0}, obj_next = 1\<rparr>"
  have "case forM ?ops map_step (PtrMap_new ?m) of (Inr _, s) \<Rightarrow> pm_map s = [(''b'', Some 2), (''c'', Some 4)] | (Inl e, s) \<Rightarrow> False" by code_simp
  then show ?thesis using PtrMap_history [of ?m ?ops] by (auto simp: Let_def simp del: forM.simps split: prod.splits sum.splits)
qed

end
