(* ===== verification/Shared_Pointers.thy ===== *)
theory Shared_Pointers
  imports Owned_Objects
begin

text \<open>
  \<^verbatim>\<open>SharedPtr.hpp\<close>: pointers that share an object and a counter of references. The variables of type \<^verbatim>\<open>SharedPtr\<close> are part of the state,
  each under its address, since an operation changes the counter that other variables refer to. The objects are opaque: deleting one
  runs no code that the state depends on. So the model is of objects whose destructors do not touch shared pointers, and in particular
  of objects without members of type \<^verbatim>\<open>SharedPtr\<close>: deleting an object with such members releases them in the middle of \<open>Release\<close>, and an
  assignment like \<^verbatim>\<open>p = p->next\<close> reads its right side after the object around it may have been deleted.
\<close>

section \<open>The pointers\<close>

record SharedPtr =
  sp_ptr :: "nat option"
  sp_counter :: "nat option"

record SharedHeap = Objects +
  sh_counters :: "nat \<rightharpoonup> UINT_32"
  sh_fresh :: nat
  sh_vars :: "nat \<rightharpoonup> SharedPtr"

type_synonym 'a shared_mth = "(SharedHeap, ownership_error, 'a) mth"

definition shared_var :: "nat \<Rightarrow> SharedPtr shared_mth" where
  "shared_var x s = (case sh_vars s x of None \<Rightarrow> (Inl Dangling, s) | Some v \<Rightarrow> (Inr v, s))"

definition put_var :: "nat \<Rightarrow> SharedPtr \<Rightarrow> unit shared_mth" where
  "put_var x v s = (Inr (), s\<lparr>sh_vars := (sh_vars s)(x \<mapsto> v)\<rparr>)"

text \<open>\<^verbatim>\<open>SharedPtrCounter\<close>\<close>

definition Counter_new :: "nat shared_mth" where
  "Counter_new s = (Inr (sh_fresh s), s\<lparr>sh_counters := (sh_counters s)(sh_fresh s \<mapsto> 1), sh_fresh := Suc (sh_fresh s)\<rparr>)"

definition RefCount_of :: "nat \<Rightarrow> UINT_32 shared_mth" where
  "RefCount_of c s = (case sh_counters s c of None \<Rightarrow> (Inl Dangling, s) | Some n \<Rightarrow> (Inr n, s))"

definition Counter_AddRef :: "nat \<Rightarrow> unit shared_mth" where
  "Counter_AddRef c = bindM (RefCount_of c) (\<lambda>n s. (Inr (), s\<lparr>sh_counters := (sh_counters s)(c \<mapsto> n + 1)\<rparr>))"

definition Counter_Release :: "nat \<Rightarrow> bool shared_mth" where
  "Counter_Release c = bindM (RefCount_of c) (\<lambda>n s. (Inr (n - 1 = 0), s\<lparr>sh_counters := (sh_counters s)(c \<mapsto> n - 1)\<rparr>))"

definition Counter_delete :: "nat \<Rightarrow> unit shared_mth" where
  "Counter_delete c = bindM (RefCount_of c) (\<lambda>_ s. (Inr (), s\<lparr>sh_counters := (sh_counters s)(c := None)\<rparr>))"

text \<open>\<^verbatim>\<open>SharedPtr\<close>, of which \<open>x\<close> is the address; \<open>p\<close> is a pointer of the program.\<close>

definition SharedPtr_null :: "nat \<Rightarrow> unit shared_mth" where
  "SharedPtr_null x = put_var x \<lparr>sp_ptr = None, sp_counter = None\<rparr>"

definition SharedPtr_of :: "nat \<Rightarrow> nat option \<Rightarrow> unit shared_mth" where
  "SharedPtr_of x p = bindM (if p = None then returnM None else bindM Counter_new (\<lambda>c. returnM (Some c)))
     (\<lambda>c. put_var x \<lparr>sp_ptr = p, sp_counter = c\<rparr>)"

definition SharedPtr_AddRef :: "nat \<Rightarrow> unit shared_mth" where
  "SharedPtr_AddRef x = bindM (shared_var x) (\<lambda>v. case sp_counter v of None \<Rightarrow> returnM () | Some c \<Rightarrow> Counter_AddRef c)"

definition SharedPtr_copy :: "nat \<Rightarrow> nat \<Rightarrow> unit shared_mth" where
  "SharedPtr_copy x other = bindM (shared_var other) (\<lambda>v. bindM (put_var x v) (\<lambda>_. SharedPtr_AddRef x))"

definition SharedPtr_Release :: "nat \<Rightarrow> unit shared_mth" where
  "SharedPtr_Release x = bindM (shared_var x) (\<lambda>v. case sp_counter v of
     None \<Rightarrow> returnM ()
   | Some c \<Rightarrow> bindM (Counter_Release c) (\<lambda>zero.
       bindM (if zero then bindM (Counter_delete c) (\<lambda>_. delete_object (sp_ptr v)) else returnM ())
         (\<lambda>_. put_var x \<lparr>sp_ptr = None, sp_counter = None\<rparr>)))"

definition SharedPtr_destroy :: "nat \<Rightarrow> unit shared_mth" where
  "SharedPtr_destroy x = bindM (SharedPtr_Release x) (\<lambda>_ s. (Inr (), s\<lparr>sh_vars := (sh_vars s)(x := None)\<rparr>))"

definition SharedPtr_assign :: "nat \<Rightarrow> nat \<Rightarrow> unit shared_mth" where
  "SharedPtr_assign x other = bindM (shared_var x) (\<lambda>v. bindM (shared_var other) (\<lambda>w.
     if sp_ptr v \<noteq> sp_ptr w then
       bindM (SharedPtr_Release x) (\<lambda>_. bindM (shared_var other) (\<lambda>w. bindM (put_var x w) (\<lambda>_. SharedPtr_AddRef x)))
     else returnM ()))"

definition SharedPtr_IsNull :: "nat \<Rightarrow> bool shared_mth" where
  "SharedPtr_IsNull x = bindM (shared_var x) (\<lambda>v. returnM (sp_ptr v = None))"

definition SharedPtr_Get :: "nat \<Rightarrow> nat option shared_mth" where
  "SharedPtr_Get x = bindM (shared_var x) (\<lambda>v. returnM (sp_ptr v))"

definition SharedPtr_RefCount :: "nat \<Rightarrow> UINT_32 shared_mth" where
  "SharedPtr_RefCount x = bindM (shared_var x) (\<lambda>v. case sp_counter v of None \<Rightarrow> throwM Dangling | Some c \<Rightarrow> RefCount_of c)"

definition SharedPtr_Reset :: "nat \<Rightarrow> nat option \<Rightarrow> unit shared_mth" where
  "SharedPtr_Reset x p = bindM (shared_var x) (\<lambda>v. if sp_ptr v = p then returnM () else
     bindM (SharedPtr_Release x) (\<lambda>_. bindM (shared_var x) (\<lambda>v.
       if p \<noteq> None then bindM Counter_new (\<lambda>c. put_var x \<lparr>sp_ptr = p, sp_counter = Some c\<rparr>)
       else put_var x (v\<lparr>sp_ptr := p\<rparr>))))"

definition MakeShared :: "nat \<Rightarrow> nat option \<Rightarrow> unit shared_mth" where "MakeShared = SharedPtr_of"

section \<open>Sharing\<close>

text \<open>\<open>shares L s env g\<close>: the variables refer to the objects \<open>env\<close>, \<open>g\<close> gives the counter of an object. Every counter is the number of
  variables that refer to its object, and exactly the objects that some variable refers to are alive, beside those in \<open>L\<close>.\<close>

definition users :: "(nat \<rightharpoonup> nat option) \<Rightarrow> nat \<Rightarrow> nat set" where
  "users env a = {x. env x = Some (Some a)}"

definition shared_objects :: "(nat \<rightharpoonup> nat option) \<Rightarrow> nat set" where
  "shared_objects env = {a. users env a \<noteq> {}}"

definition shares :: "nat set \<Rightarrow> SharedHeap \<Rightarrow> (nat \<rightharpoonup> nat option) \<Rightarrow> (nat \<Rightarrow> nat) \<Rightarrow> bool" where
  "shares L s env g \<longleftrightarrow> finite (dom env) \<and> sh_vars s = (\<lambda>x. map_option (\<lambda>p. \<lparr>sp_ptr = p, sp_counter = map_option g p\<rparr>) (env x)) \<and>
     inj_on g (shared_objects env) \<and> (\<forall>a \<in> shared_objects env. g a < sh_fresh s) \<and>
     (\<forall>a \<in> shared_objects env. sh_counters s (g a) = Some (of_nat (card (users env a)))) \<and>
     dom (sh_counters s) = g ` shared_objects env \<and>
     L \<inter> shared_objects env = {} \<and> obj_live s = L \<union> shared_objects env \<and> (\<forall>a \<in> obj_live s. a < obj_next s)"

lemma finite_users: "finite (dom env) \<Longrightarrow> finite (users env a)"
  by (erule rev_finite_subset) (auto simp: users_def)

lemma card_users: "finite (dom env) \<Longrightarrow> card (users env a) \<le> card (dom env)"
  by (intro card_mono) (auto simp: users_def)

lemma users_upd: "users (env(x := v)) a = (if v = Some (Some a) then insert x (users env a) else users env a - {x})"
  by (auto simp: users_def)

lemma shared_var_env: "shares L s env g \<Longrightarrow> env x = Some p \<Longrightarrow> shared_var x s = (Inr \<lparr>sp_ptr = p, sp_counter = map_option g p\<rparr>, s)"
  by (simp add: shared_var_def shares_def)

text \<open>Giving up a reference\<close>

lemma Release_shares:
  assumes s: "shares L s env g" and x: "env x = Some p" and n: "card (dom env) < 2 ^ 32"
  shows "\<exists>t. SharedPtr_Release x s = (Inr (), t) \<and> shares L t (env(x \<mapsto> None)) g \<and> obj_next t = obj_next s"
proof (cases p)
  case None
  then have "env(x \<mapsto> None) = env" using x by auto
  then show ?thesis using s x None shared_var_env [OF s x] by (auto simp: SharedPtr_Release_def bindM_def returnM_def)
next
  case (Some a)
  note S = s [unfolded shares_def]
  let ?n = "card (users env a)" and ?env = "env(x \<mapsto> None)"
  have fin: "finite (users env a)" and xa: "x \<in> users env a" using S finite_users x Some by (auto simp: users_def)
  then have a: "a \<in> shared_objects env" by (auto simp: shared_objects_def)
  have k: "0 < ?n" "?n < 2 ^ 32" using fin xa card_users [of env a] S n by (auto simp: card_gt_0_iff)
  have count: "sh_counters s (g a) = Some (of_nat ?n)" using S a by blast
  have down: "(of_nat ?n :: UINT_32) - 1 = of_nat (?n - 1)" using k by (simp add: of_nat_diff)
  have zero: "(of_nat ?n :: UINT_32) - 1 = 0 \<longleftrightarrow> ?n = 1"
  proof -
    have "unat (of_nat (?n - 1) :: UINT_32) = ?n - 1" using k by (subst unat_of_nat) simp
    then have "(of_nat (?n - 1) :: UINT_32) = 0 \<longleftrightarrow> ?n - 1 = 0" by (metis unat_eq_zero)
    then show ?thesis unfolding down using k by linarith
  qed
  have vars: "(sh_vars s)(x \<mapsto> \<lparr>sp_ptr = None, sp_counter = None\<rparr>) = (\<lambda>y. map_option (\<lambda>p. \<lparr>sp_ptr = p, sp_counter = map_option g p\<rparr>) (?env y))"
    using S by (auto simp: fun_eq_iff)
  have others: "users ?env b = users env b" if "b \<noteq> a" for b using that xa by (auto simp: users_def)
  have fewer: "users ?env a = users env a - {x}" by (simp add: users_upd)
  show ?thesis
  proof (cases "?n = 1")
    case True
    then have "users env a = {x}" using xa by (metis card_1_singletonE singletonD)
    then have "users ?env a = {}" using fewer by simp
    then have "b \<in> shared_objects ?env \<longleftrightarrow> b \<in> shared_objects env - {a}" for b
      using others [of b] by (cases "b = a") (simp_all add: shared_objects_def)
    then have objs: "shared_objects ?env = shared_objects env - {a}" by blast
    define t where "t = s\<lparr>obj_live := obj_live s - {a}, sh_counters := (sh_counters s)(g a := None),
      sh_vars := (sh_vars s)(x \<mapsto> \<lparr>sp_ptr = None, sp_counter = None\<rparr>)\<rparr>"
    have "SharedPtr_Release x s = (Inr (), t)"
      using shared_var_env [OF s x] count zero True S a Some
      by (simp add: SharedPtr_Release_def bindM_def returnM_def Counter_Release_def Counter_delete_def RefCount_of_def delete_object_def put_var_def t_def)
    moreover have "shares L t ?env g"
      unfolding shares_def
    proof (intro conjI)
      show "sh_vars t = (\<lambda>y. map_option (\<lambda>p. \<lparr>sp_ptr = p, sp_counter = map_option g p\<rparr>) (?env y))" using vars by (simp add: t_def)
      show "inj_on g (shared_objects ?env)" using S by (simp add: objs inj_on_diff)
      show "\<forall>b \<in> shared_objects ?env. sh_counters t (g b) = Some (of_nat (card (users ?env b)))"
        using S a others by (auto simp: objs t_def inj_on_eq_iff)
      show "dom (sh_counters t) = g ` shared_objects ?env" using S a by (auto simp: objs t_def inj_on_eq_iff)
      show "obj_live t = L \<union> shared_objects ?env" using S a by (auto simp: objs t_def)
    qed (use S in \<open>auto simp: objs t_def\<close>)
    ultimately show ?thesis by (auto simp: t_def)
  next
    case False
    then have objs: "shared_objects ?env = shared_objects env"
    proof -
      have "users env a \<noteq> {x}" using False by auto
      then have "users ?env a \<noteq> {}" using xa fewer by auto
      then have "b \<in> shared_objects ?env \<longleftrightarrow> b \<in> shared_objects env" for b
        using a others [of b] by (cases "b = a") (simp_all add: shared_objects_def)
      then show ?thesis by blast
    qed
    have one: "(of_nat ?n :: UINT_32) \<noteq> 1" using zero False by auto
    define t where "t = s\<lparr>sh_counters := (sh_counters s)(g a \<mapsto> of_nat (?n - 1)),
      sh_vars := (sh_vars s)(x \<mapsto> \<lparr>sp_ptr = None, sp_counter = None\<rparr>)\<rparr>"
    have "SharedPtr_Release x s = (Inr (), t)"
      using shared_var_env [OF s x] count one down False S a Some
      by (simp add: SharedPtr_Release_def bindM_def returnM_def Counter_Release_def RefCount_of_def put_var_def t_def)
    moreover have "shares L t ?env g"
      unfolding shares_def
    proof (intro conjI)
      show "sh_vars t = (\<lambda>y. map_option (\<lambda>p. \<lparr>sp_ptr = p, sp_counter = map_option g p\<rparr>) (?env y))" using vars by (simp add: t_def)
      have "card (users ?env a) = ?n - 1" using fewer fin xa by simp
      then show "\<forall>b \<in> shared_objects ?env. sh_counters t (g b) = Some (of_nat (card (users ?env b)))"
        using S a others by (auto simp: objs t_def inj_on_eq_iff)
      show "dom (sh_counters t) = g ` shared_objects ?env" using S a by (auto simp: objs t_def)
    qed (use S in \<open>auto simp: objs t_def\<close>)
    ultimately show ?thesis by (auto simp: t_def)
  qed
qed

text \<open>A variable that refers to nothing, or is new, takes the object of another.\<close>

lemma share_shares:
  assumes s: "shares L s env g" and x: "env x \<noteq> Some (Some b)" "\<forall>b. env x \<noteq> Some (Some b)" and y: "env y = Some p"
  shows "\<exists>t. bindM (put_var x \<lparr>sp_ptr = p, sp_counter = map_option g p\<rparr>) (\<lambda>_. SharedPtr_AddRef x) s = (Inr (), t) \<and>
    shares L t (env(x \<mapsto> p)) g \<and> obj_next t = obj_next s"
proof -
  note S = s [unfolded shares_def]
  let ?env = "env(x \<mapsto> p)" and ?v = "\<lparr>sp_ptr = p, sp_counter = map_option g p\<rparr>"
  have vars: "(sh_vars s)(x \<mapsto> ?v) = (\<lambda>y. map_option (\<lambda>p. \<lparr>sp_ptr = p, sp_counter = map_option g p\<rparr>) (?env y))"
    using S by (auto simp: fun_eq_iff)
  have out: "x \<notin> users env b" for b using x by (simp add: users_def)
  show ?thesis
  proof (cases p)
    case None
    have "users ?env b = users env b" for b using out [of b] None by (simp add: users_upd)
    then have "shared_objects ?env = shared_objects env" "users ?env = users env" by (auto simp: shared_objects_def)
    then have "shares L (s\<lparr>sh_vars := (sh_vars s)(x \<mapsto> ?v)\<rparr>) ?env g"
      unfolding shares_def
      by (intro conjI) (use S vars in \<open>simp_all\<close>)
    then show ?thesis using None by (auto simp: bindM_def put_var_def SharedPtr_AddRef_def shared_var_def returnM_def)
  next
    case (Some a)
    then have "y \<in> users env a" using y by (simp add: users_def)
    then have a: "a \<in> shared_objects env" by (auto simp: shared_objects_def)
    have more: "users ?env a = insert x (users env a)" and others: "\<And>b. b \<noteq> a \<Longrightarrow> users ?env b = users env b"
      using out Some by (simp_all add: users_upd)
    have "b \<in> shared_objects ?env \<longleftrightarrow> b \<in> shared_objects env" for b
      using a more others [of b] by (cases "b = a") (simp_all add: shared_objects_def)
    then have objs: "shared_objects ?env = shared_objects env" by blast
    let ?n = "of_nat (card (users env a)) :: UINT_32"
    define t where "t = s\<lparr>sh_vars := (sh_vars s)(x \<mapsto> ?v), sh_counters := (sh_counters s)(g a \<mapsto> ?n + 1)\<rparr>"
    have "bindM (put_var x ?v) (\<lambda>_. SharedPtr_AddRef x) s = (Inr (), t)"
      using S a Some by (simp add: bindM_def put_var_def SharedPtr_AddRef_def shared_var_def Counter_AddRef_def RefCount_of_def t_def)
    moreover have "shares L t ?env g"
      unfolding shares_def
    proof (intro conjI)
      show "sh_vars t = (\<lambda>y. map_option (\<lambda>p. \<lparr>sp_ptr = p, sp_counter = map_option g p\<rparr>) (?env y))" using vars by (simp add: t_def)
      have "of_nat (card (users ?env a)) = ?n + 1" using more out [of a] finite_users [of env a] S by simp
      then show "\<forall>b \<in> shared_objects ?env. sh_counters t (g b) = Some (of_nat (card (users ?env b)))"
        using S a others by (auto simp: objs t_def inj_on_eq_iff)
      show "dom (sh_counters t) = g ` shared_objects ?env" using S a by (auto simp: objs t_def)
    qed (use S in \<open>auto simp: objs t_def\<close>)
    ultimately show ?thesis by (auto simp: t_def)
  qed
qed

text \<open>It takes a new object, with a new counter.\<close>

lemma adopt_shares:
  assumes s: "shares (insert a L) s env g" and a: "a \<notin> L" and x: "\<forall>b. env x \<noteq> Some (Some b)"
  shows "\<exists>t h. bindM Counter_new (\<lambda>c. put_var x \<lparr>sp_ptr = Some a, sp_counter = Some c\<rparr>) s = (Inr (), t) \<and>
    shares L t (env(x \<mapsto> Some a)) h \<and> obj_next t = obj_next s"
proof -
  note S = s [unfolded shares_def]
  let ?env = "env(x \<mapsto> Some a)" and ?h = "g(a := sh_fresh s)"
  define t where "t = s\<lparr>sh_counters := (sh_counters s)(sh_fresh s \<mapsto> 1), sh_fresh := Suc (sh_fresh s),
    sh_vars := (sh_vars s)(x \<mapsto> \<lparr>sp_ptr = Some a, sp_counter = Some (sh_fresh s)\<rparr>)\<rparr>"
  have out: "x \<notin> users env b" for b using x by (simp add: users_def)
  have a': "a \<notin> shared_objects env" using S by auto
  then have none: "users env a = {}" by (simp add: shared_objects_def)
  then have new: "users ?env a = {x}" and others: "\<And>b. b \<noteq> a \<Longrightarrow> users ?env b = users env b"
    using out by (auto simp: users_upd)
  have "b \<in> shared_objects ?env \<longleftrightarrow> b \<in> insert a (shared_objects env)" for b
    using new others [of b] by (cases "b = a") (simp_all add: shared_objects_def)
  then have objs: "shared_objects ?env = insert a (shared_objects env)" by blast
  have "sh_vars t y = map_option (\<lambda>p. \<lparr>sp_ptr = p, sp_counter = map_option ?h p\<rparr>) (?env y)" for y
  proof (cases "y = x")
    case False
    have "env y \<noteq> Some (Some a)" using none by (auto simp: users_def)
    then have "map_option ?h q = map_option g q" if "env y = Some q" for q using that by (cases q) auto
    then show ?thesis using False S by (cases "env y") (simp_all add: t_def)
  qed (simp add: t_def)
  then have vars: "sh_vars t = (\<lambda>y. map_option (\<lambda>p. \<lparr>sp_ptr = p, sp_counter = map_option ?h p\<rparr>) (?env y))" by (rule ext)
  have "shares L t ?env ?h"
    unfolding shares_def
  proof (intro conjI vars)
    have fresh: "sh_fresh s \<notin> g ` shared_objects env" using S by auto
    then show "inj_on ?h (shared_objects ?env)" using S a' unfolding objs inj_on_insert by (auto simp: inj_on_fun_updI)
    show "\<forall>b \<in> shared_objects ?env. ?h b < sh_fresh t" using S by (auto simp: objs t_def less_Suc_eq)
    show "\<forall>b \<in> shared_objects ?env. sh_counters t (?h b) = Some (of_nat (card (users ?env b)))"
      using S a' new others by (auto simp: objs t_def)
    show "dom (sh_counters t) = ?h ` shared_objects ?env" using S a' by (auto simp: objs t_def)
  qed (use S a a' in \<open>auto simp: objs t_def\<close>)
  moreover have "bindM Counter_new (\<lambda>c. put_var x \<lparr>sp_ptr = Some a, sp_counter = Some c\<rparr>) s = (Inr (), t)"
    by (simp add: bindM_def Counter_new_def put_var_def t_def)
  ultimately show ?thesis by (auto simp: t_def)
qed

lemma new_object_shares:
  assumes s: "shares L s env g"
  shows "\<exists>t. new_object s = (Inr (obj_next s), t) \<and> shares (insert (obj_next s) L) t env g \<and> obj_next s \<notin> L \<and> obj_next t = Suc (obj_next s)"
proof -
  note S = s [unfolded shares_def]
  have "obj_next s \<notin> obj_live s" using S by (meson less_irrefl)
  then have "shares (insert (obj_next s) L) (s\<lparr>obj_live := insert (obj_next s) (obj_live s), obj_next := Suc (obj_next s)\<rparr>) env g" "obj_next s \<notin> L"
    using S unfolding shares_def by (auto simp: less_Suc_eq)
  then show ?thesis by (simp add: new_object_def)
qed

section \<open>Histories\<close>

text \<open>What programs do with variables of the type: define them (empty, for a new object, as a copy), assign to them, reset them and
  destroy them\<close>

datatype shared_op =
    DefineNull nat | DefineNew nat | DefineCopy nat nat | AssignFrom nat nat | ResetNew nat | ResetNull nat | ReleaseVar nat | DestroyVar nat

fun shared_step :: "shared_op \<Rightarrow> unit shared_mth" where
  "shared_step (DefineNull x) = SharedPtr_null x"
| "shared_step (DefineNew x) = bindM new_object (\<lambda>a. SharedPtr_of x (Some a))"
| "shared_step (DefineCopy x y) = SharedPtr_copy x y"
| "shared_step (AssignFrom x y) = SharedPtr_assign x y"
| "shared_step (ResetNew x) = bindM new_object (\<lambda>a. SharedPtr_Reset x (Some a))"
| "shared_step (ResetNull x) = SharedPtr_Reset x None"
| "shared_step (ReleaseVar x) = SharedPtr_Release x"
| "shared_step (DestroyVar x) = SharedPtr_destroy x"

text \<open>The effect on what the variables refer to, where the next new object has the number \<open>n\<close>; an operation is possible when it
  defines a new variable, or uses defined ones.\<close>

fun shared_effect :: "shared_op \<Rightarrow> (nat \<rightharpoonup> nat option) \<times> nat \<Rightarrow> (nat \<rightharpoonup> nat option) \<times> nat" where
  "shared_effect (DefineNull x) (env, n) = (env(x \<mapsto> None), n)"
| "shared_effect (DefineNew x) (env, n) = (env(x \<mapsto> Some n), Suc n)"
| "shared_effect (DefineCopy x y) (env, n) = (env(x := env y), n)"
| "shared_effect (AssignFrom x y) (env, n) = (env(x := env y), n)"
| "shared_effect (ResetNew x) (env, n) = (env(x \<mapsto> Some n), Suc n)"
| "shared_effect (ResetNull x) (env, n) = (env(x \<mapsto> None), n)"
| "shared_effect (ReleaseVar x) (env, n) = (env(x \<mapsto> None), n)"
| "shared_effect (DestroyVar x) (env, n) = (env(x := None), n)"

fun possible :: "shared_op \<Rightarrow> (nat \<rightharpoonup> nat option) \<Rightarrow> bool" where
  "possible (DefineNull x) env \<longleftrightarrow> env x = None"
| "possible (DefineNew x) env \<longleftrightarrow> env x = None"
| "possible (DefineCopy x y) env \<longleftrightarrow> env x = None \<and> env y \<noteq> None"
| "possible (AssignFrom x y) env \<longleftrightarrow> env x \<noteq> None \<and> env y \<noteq> None"
| "possible (ResetNew x) env \<longleftrightarrow> env x \<noteq> None"
| "possible (ResetNull x) env \<longleftrightarrow> env x \<noteq> None"
| "possible (ReleaseVar x) env \<longleftrightarrow> env x \<noteq> None"
| "possible (DestroyVar x) env \<longleftrightarrow> env x \<noteq> None"

fun well_formed :: "shared_op list \<Rightarrow> (nat \<rightharpoonup> nat option) \<times> nat \<Rightarrow> bool" where
  "well_formed [] e \<longleftrightarrow> True"
| "well_formed (op # ops) e \<longleftrightarrow> possible op (fst e) \<and> well_formed ops (shared_effect op e)"

lemma put_null_shares:
  assumes s: "shares L s env g" and x: "\<forall>b. env x \<noteq> Some (Some b)"
  shows "\<exists>t. put_var x \<lparr>sp_ptr = None, sp_counter = None\<rparr> s = (Inr (), t) \<and> shares L t (env(x \<mapsto> None)) g \<and> obj_next t = obj_next s"
proof -
  note S = s [unfolded shares_def]
  have "x \<notin> users env b" for b using x by (simp add: users_def)
  then have "users (env(x \<mapsto> None)) b = users env b" for b by (simp add: users_upd)
  then have "shared_objects (env(x \<mapsto> None)) = shared_objects env" "users (env(x \<mapsto> None)) = users env" by (auto simp: shared_objects_def)
  then have "shares L (s\<lparr>sh_vars := (sh_vars s)(x \<mapsto> \<lparr>sp_ptr = None, sp_counter = None\<rparr>)\<rparr>) (env(x \<mapsto> None)) g"
    unfolding shares_def by (intro conjI) (use S in \<open>auto simp: fun_eq_iff\<close>)
  then show ?thesis by (simp add: put_var_def)
qed

lemma drop_var_shares:
  assumes s: "shares L s env g" and x: "env x = Some None"
  shows "shares L (s\<lparr>sh_vars := (sh_vars s)(x := None)\<rparr>) (env(x := None)) g"
proof -
  note S = s [unfolded shares_def]
  have "x \<notin> users env b" for b using x by (simp add: users_def)
  then have "users (env(x := None)) b = users env b" for b by (simp add: users_upd)
  then have "shared_objects (env(x := None)) = shared_objects env" "users (env(x := None)) = users env" by (auto simp: shared_objects_def)
  then show ?thesis unfolding shares_def by (intro conjI) (use S in \<open>auto simp: fun_eq_iff\<close>)
qed

lemma shared_step_shares:
  assumes s: "shares L s env g" and p: "possible op env" and n: "card (dom env) < 2 ^ 32"
  shows "\<exists>t h. shared_step op s = (Inr (), t) \<and> shares L t (fst (shared_effect op (env, obj_next s))) h \<and>
    obj_next t = snd (shared_effect op (env, obj_next s))"
proof (cases op)
  case (DefineNull x)
  then show ?thesis using put_null_shares [OF s, of x] p by (force simp: SharedPtr_null_def)
next
  case (DefineNew x)
  obtain u where u: "new_object s = (Inr (obj_next s), u)" "shares (insert (obj_next s) L) u env g" "obj_next s \<notin> L" "obj_next u = Suc (obj_next s)"
    using new_object_shares [OF s] by blast
  have "\<forall>b. env x \<noteq> Some (Some b)" using p DefineNew by simp
  from adopt_shares [OF u(2,3) this] show ?thesis using u DefineNew
    by (force simp: bindM_def returnM_def SharedPtr_of_def Counter_new_def)
next
  case (DefineCopy x y)
  then obtain q where q: "env y = Some q" using p by auto
  then show ?thesis using share_shares [OF s _ _ q, of x] shared_var_env [OF s q] p DefineCopy by (auto simp: SharedPtr_copy_def bindM_def)
next
  case (AssignFrom x y)
  then obtain q r where q: "env x = Some q" "env y = Some r" using p by auto
  show ?thesis
  proof (cases "q = r")
    case True
    then have "env(x := env y) = env" using q by auto
    then show ?thesis using AssignFrom True s shared_var_env [OF s q(1)] shared_var_env [OF s q(2)]
      by (auto simp: SharedPtr_assign_def bindM_def returnM_def)
  next
    case False
    obtain t where t: "SharedPtr_Release x s = (Inr (), t)" "shares L t (env(x \<mapsto> None)) g" "obj_next t = obj_next s"
      using Release_shares [OF s q(1) n] by blast
    have y: "(env(x \<mapsto> None)) y = Some r" using False q by auto
    have "\<exists>u. bindM (put_var x \<lparr>sp_ptr = r, sp_counter = map_option g r\<rparr>) (\<lambda>_. SharedPtr_AddRef x) t = (Inr (), u) \<and>
        shares L u ((env(x \<mapsto> None))(x \<mapsto> r)) g \<and> obj_next u = obj_next t"
      by (rule share_shares [OF t(2) _ _ y]) simp_all
    then show ?thesis using AssignFrom False t q shared_var_env [OF s q(1)] shared_var_env [OF s q(2)] shared_var_env [OF t(2) y]
      by (auto simp: SharedPtr_assign_def bindM_def)
  qed
next
  case (ResetNew x)
  then obtain q where q: "env x = Some q" using p by auto
  obtain u where u: "new_object s = (Inr (obj_next s), u)" "shares (insert (obj_next s) L) u env g" "obj_next s \<notin> L" "obj_next u = Suc (obj_next s)"
    using new_object_shares [OF s] by blast
  have "q \<noteq> Some (obj_next s)" using u(2) q by (auto simp: shares_def shared_objects_def users_def)
  moreover obtain t where t: "SharedPtr_Release x u = (Inr (), t)" "shares (insert (obj_next s) L) t (env(x \<mapsto> None)) g" "obj_next t = obj_next u"
    using Release_shares [OF u(2) q n] by blast
  moreover obtain v h where "bindM Counter_new (\<lambda>c. put_var x \<lparr>sp_ptr = Some (obj_next s), sp_counter = Some c\<rparr>) t = (Inr (), v)"
    "shares L v ((env(x \<mapsto> None))(x \<mapsto> Some (obj_next s))) h" "obj_next v = obj_next t"
    using adopt_shares [OF t(2) u(3), of x] by auto
  ultimately show ?thesis using ResetNew u shared_var_env [OF u(2) q] shared_var_env [OF t(2), of x None]
    by (auto simp: SharedPtr_Reset_def bindM_def)
next
  case (ResetNull x)
  then obtain q where q: "env x = Some q" using p by auto
  show ?thesis
  proof (cases q)
    case None
    then have "env(x \<mapsto> None) = env" using q by auto
    then show ?thesis using ResetNull None s shared_var_env [OF s q] by (auto simp: SharedPtr_Reset_def bindM_def returnM_def)
  next
    case (Some a)
    obtain t where t: "SharedPtr_Release x s = (Inr (), t)" "shares L t (env(x \<mapsto> None)) g" "obj_next t = obj_next s"
      using Release_shares [OF s q n] by blast
    obtain u where "put_var x \<lparr>sp_ptr = None, sp_counter = None\<rparr> t = (Inr (), u)" "shares L u (env(x \<mapsto> None)) g" "obj_next u = obj_next s"
      using put_null_shares [OF t(2), of x] t(3) by auto
    then show ?thesis using ResetNull Some t shared_var_env [OF s q] shared_var_env [OF t(2), of x None]
      by (auto simp: SharedPtr_Reset_def bindM_def)
  qed
next
  case (ReleaseVar x)
  then show ?thesis using Release_shares [OF s _ n, of x] p by fastforce
next
  case (DestroyVar x)
  then obtain q where q: "env x = Some q" using p by auto
  obtain t where t: "SharedPtr_Release x s = (Inr (), t)" "shares L t (env(x \<mapsto> None)) g" "obj_next t = obj_next s"
    using Release_shares [OF s q n] by blast
  then show ?thesis using DestroyVar drop_var_shares [OF t(2), of x] by (auto simp: SharedPtr_destroy_def bindM_def)
qed

lemma shared_effect_dom:
  assumes "finite (dom env)"
  shows "card (dom (fst (shared_effect op (env, n)))) \<le> Suc (card (dom env))"
proof -
  obtain x v where "fst (shared_effect op (env, n)) = env(x := v)" by (cases op) auto
  then have "dom (fst (shared_effect op (env, n))) \<subseteq> insert x (dom env)" by auto
  then have "card (dom (fst (shared_effect op (env, n)))) \<le> card (insert x (dom env))" using assms by (intro card_mono) auto
  also have "\<dots> \<le> Suc (card (dom env))" using assms by (simp add: card_insert_if)
  finally show ?thesis .
qed

lemma shared_steps_share:
  assumes "shares L s env g" "well_formed ops (env, obj_next s)" "card (dom env) + length ops < 2 ^ 32"
  shows "\<exists>t h. forM ops shared_step s = (Inr (), t) \<and> shares L t (fst (fold shared_effect ops (env, obj_next s))) h"
  using assms
proof (induction ops arbitrary: s env g)
  case Nil
  then show ?case by (auto simp: returnM_def)
next
  case (Cons op ops)
  let ?e = "shared_effect op (env, obj_next s)"
  obtain t h where t: "shared_step op s = (Inr (), t)" "shares L t (fst ?e) h" "obj_next t = snd ?e"
    using shared_step_shares [OF Cons.prems(1), of op] Cons.prems by auto
  have "finite (dom env)" using Cons.prems(1) by (simp add: shares_def)
  then have "card (dom (fst ?e)) + length ops < 2 ^ 32"
    using shared_effect_dom [of env op "obj_next s"] Cons.prems(3) by simp
  moreover have "well_formed ops (fst ?e, obj_next t)" using Cons.prems(2) t(3) by simp
  ultimately show ?case using Cons.IH [OF t(2)] t by (auto simp: bindM_def)
qed

definition SharedHeap_new :: "Objects \<Rightarrow> SharedHeap" where
  "SharedHeap_new m = Objects.extend m (SharedHeap.fields (\<lambda>_. None) 0 (\<lambda>_. None))"

text \<open>C38. Shared pointers to objects that hold no shared pointers themselves, and whose destructors touch none, count their
  references. After any sequence of definitions, copies, assignments, resets and destructions of variables that keeps the rules of the
  constructors (\<open>well_formed\<close>; fewer than \<open>2 ^ 32\<close> steps), no object is deleted twice or used after it is deleted, exactly the objects that some
  variable refers to are alive beside those of others, each variable refers to the object that the operations have left it,
  \<open>RefCount\<close> is the number of variables that refer to the object, and no counter outlives its object. Shared pointers inside shared
  objects are not covered.\<close>

theorem SharedPtr_history:
  assumes "\<forall>a \<in> obj_live m. a < obj_next m" "well_formed ops (\<lambda>_. None, obj_next m)" "length ops < 2 ^ 32"
  shows "case forM ops shared_step (SharedHeap_new m) of
      (Inr _, s) \<Rightarrow> (let env = fst (fold shared_effect ops (\<lambda>_. None, obj_next m)) in
        obj_live s = obj_live m \<union> shared_objects env \<and> card (dom (sh_counters s)) = card (shared_objects env) \<and>
        (\<forall>x p. env x = Some p \<longrightarrow> SharedPtr_Get x s = (Inr p, s)) \<and>
        (\<forall>x a. env x = Some (Some a) \<longrightarrow> SharedPtr_RefCount x s = (Inr (of_nat (card (users env a))), s)))
    | (Inl e, s) \<Rightarrow> False"
proof -
  let ?s = "SharedHeap_new m"
  have "shares (obj_live m) ?s (\<lambda>_. None) id" "obj_next ?s = obj_next m"
    using assms(1) by (simp_all add: shares_def SharedHeap_new_def shared_objects_def users_def Objects.defs SharedHeap.defs)
  then obtain s g where s: "forM ops shared_step ?s = (Inr (), s)" "shares (obj_live m) s (fst (fold shared_effect ops (\<lambda>_. None, obj_next m))) g"
    using shared_steps_share [of "obj_live m" ?s "\<lambda>_. None" id ops] assms by auto
  define env where "env = fst (fold shared_effect ops (\<lambda>_. None, obj_next m))"
  have e: "shares (obj_live m) s env g" using s(2) by (simp add: env_def)
  note E = e [unfolded shares_def]
  have "SharedPtr_Get x s = (Inr p, s)" if "env x = Some p" for x p
    using shared_var_env [OF e that] by (simp add: SharedPtr_Get_def bindM_def returnM_def)
  moreover have "SharedPtr_RefCount x s = (Inr (of_nat (card (users env a))), s)" if x: "env x = Some (Some a)" for x a
  proof -
    have "a \<in> shared_objects env" using x by (auto simp: shared_objects_def users_def)
    then show ?thesis using shared_var_env [OF e x] E by (simp add: SharedPtr_RefCount_def RefCount_of_def bindM_def)
  qed
  moreover have "card (dom (sh_counters s)) = card (shared_objects env)" using E by (simp add: card_image)
  moreover have "obj_live s = obj_live m \<union> shared_objects env" using E by blast
  ultimately show ?thesis using s(1) unfolding env_def [symmetric] by (simp add: Let_def)
qed

theorem SharedPtr_history_witness:
  "case forM [DefineNew 0, DefineCopy 1 0, DefineNew 2, AssignFrom 1 2, DestroyVar 0] shared_step (SharedHeap_new \<lparr>obj_live = {0}, obj_next = 1\<rparr>) of
      (Inr _, s) \<Rightarrow> SharedPtr_Get 1 s = (Inr (Some 2), s) \<and> SharedPtr_RefCount 2 s = (Inr 2, s) \<and> obj_live s = {0, 2}
    | (Inl e, s) \<Rightarrow> False"
proof -
  let ?ops = "[DefineNew 0, DefineCopy 1 0, DefineNew 2, AssignFrom 1 2, DestroyVar 0]" and ?m = "\<lparr>obj_live = {0}, obj_next = 1\<rparr>"
  have wf: "well_formed ?ops (\<lambda>_. None, obj_next ?m)" by (simp add: eval_nat_numeral)
  have env: "fst (fold shared_effect ?ops (\<lambda>_. None, obj_next ?m)) = [1 \<mapsto> Some 2, 2 \<mapsto> Some 2]"
    by (auto simp: fun_eq_iff eval_nat_numeral)
  have u: "users [1 \<mapsto> Some 2, 2 \<mapsto> Some 2] a = (if a = 2 then {1, 2} else {})" for a by (auto simp: users_def split: if_splits)
  then have o: "shared_objects [1 \<mapsto> Some 2, 2 \<mapsto> Some 2] = {2}" by (auto simp: shared_objects_def split: if_splits)
  show ?thesis
    using SharedPtr_history [of ?m ?ops] wf unfolding env Let_def o u by (auto simp del: forM.simps split: prod.splits sum.splits)
qed

end
