(* ===== verification/Formatting.thy ===== *)
theory Formatting
  imports Xtl_Prelude
begin

text \<open>
  \<^verbatim>\<open>FormatString\<close> and \<^verbatim>\<open>CharBuffer.hpp\<close>: printing into a string through \<^verbatim>\<open>vsnprintf\<close>, which is a parameter, and buffers of characters.
\<close>

section \<open>Formatted strings\<close>

text \<open>An argument of a formatted call: a \<^verbatim>\<open>std::string\<close>, which is passed as the C string of its characters, or anything else\<close>

datatype 'x format_arg = StringArg string | CStringArg string | OtherArg 'x

fun PrepareFormat :: "'x format_arg \<Rightarrow> 'x format_arg" where
  "PrepareFormat (StringArg s) = CStringArg (takeWhile (\<lambda>c. c \<noteq> CHR 0x00) s)"
| "PrepareFormat t = t"

text \<open>\<^verbatim>\<open>vsnprintf\<close> gives, for a format, its arguments and the size of the buffer, its result and the characters in the buffer.\<close>

type_synonym 'x vsnprintf = "string \<Rightarrow> 'x format_arg list \<Rightarrow> nat \<Rightarrow> int \<times> string"

definition VSNPRINTF_BUFFER_SIZE :: nat where "VSNPRINTF_BUFFER_SIZE = 256"

partial_function (option) format_loop :: "'x vsnprintf \<Rightarrow> string \<Rightarrow> 'x format_arg list \<Rightarrow> nat \<Rightarrow> string option" where
  "format_loop vsn format args n = (let (k, buffer) = vsn format args n in
     if k \<ge> 0 then
       if nat k < n then Some (take (nat k) buffer) else format_loop vsn format args (nat k + 1)
     else format_loop vsn format args (n * 2))"

definition StringPrintFormatted :: "'x vsnprintf \<Rightarrow> string \<Rightarrow> 'x format_arg list \<Rightarrow> string option" where
  "StringPrintFormatted vsn format args = format_loop vsn format args VSNPRINTF_BUFFER_SIZE"

definition FormatString :: "'x vsnprintf \<Rightarrow> string \<Rightarrow> 'x format_arg list \<Rightarrow> string option" where
  "FormatString vsn format args = StringPrintFormatted vsn format (map PrepareFormat args)"

text \<open>What is documented of \<^verbatim>\<open>vsnprintf\<close>: the text fits into the buffer with its NUL, or the answer is the size that is needed, or, in old
  libraries, negative.\<close>

definition prints :: "'x vsnprintf \<Rightarrow> string \<Rightarrow> 'x format_arg list \<Rightarrow> string \<Rightarrow> bool" where
  "prints vsn format args s \<longleftrightarrow> (\<forall>n > 0. case vsn format args n of (k, buffer) \<Rightarrow>
     (if length s < n then k = int (length s) \<and> take (length s) buffer = s else k < 0 \<or> k = int (length s)))"

lemma format_loop_prints:
  assumes p: "prints vsn format args s"
  shows "0 < n \<Longrightarrow> format_loop vsn format args n = Some s"
proof (induction "length s + 1 - n" arbitrary: n rule: less_induct)
  case less
  obtain k buffer where v: "vsn format args n = (k, buffer)" by (cases "vsn format args n")
  have p': "if length s < n then k = int (length s) \<and> take (length s) buffer = s else k < 0 \<or> k = int (length s)"
    using p [unfolded prints_def, rule_format, OF less.prems] v by simp
  show ?case
  proof (cases "length s < n")
    case True
    then show ?thesis using p' v by (simp add: format_loop.simps [of vsn format args n])
  next
    case False
    have 1: "format_loop vsn format args (length s + 1) = Some s" by (rule less.hyps) (use False in simp_all)
    have 2: "format_loop vsn format args (n * 2) = Some s" if "k < 0" by (rule less.hyps) (use False less.prems in auto)
    show ?thesis using False p' v 1 2 by (auto simp: format_loop.simps [of vsn format args n])
  qed
qed

lemma StringPrintFormatted_prints: "prints vsn format args s \<Longrightarrow> StringPrintFormatted vsn format args = Some s"
  by (simp add: StringPrintFormatted_def VSNPRINTF_BUFFER_SIZE_def format_loop_prints)

text \<open>A conversion error, which \<^verbatim>\<open>vsnprintf\<close> reports by a negative result for buffers of every size, makes the buffer grow without end.\<close>

lemma StringPrintFormatted_diverges:
  assumes "\<forall>n. fst (vsn format args n) < 0"
  shows "StringPrintFormatted vsn format args = None"
proof -
  have "vsn' = vsn \<longrightarrow> format' = format \<longrightarrow> args' = args \<longrightarrow> False" if "format_loop vsn' format' args' n = Some r" for vsn' format' args' n r
  proof (rule format_loop.raw_induct [where P = "\<lambda>v f a n y. v = vsn \<longrightarrow> f = format \<longrightarrow> a = args \<longrightarrow> False", OF _ that])
    fix f vsn' format' args' n r
    assume IH: "\<And>vsn' format' args' n r. f vsn' format' args' n = Some r \<Longrightarrow> vsn' = vsn \<longrightarrow> format' = format \<longrightarrow> args' = args \<longrightarrow> False"
      and f: "(let (k, buffer) = vsn' format' args' n in if 0 \<le> k then if nat k < n then Some (take (nat k) buffer) else f vsn' format' args' (nat k + 1)
        else f vsn' format' args' (n * 2)) = Some r"
    show "vsn' = vsn \<longrightarrow> format' = format \<longrightarrow> args' = args \<longrightarrow> False"
    proof (intro impI)
      assume e: "vsn' = vsn" "format' = format" "args' = args"
      have "fst (vsn format args n) < 0" using assms by blast
      then have "f vsn format args (n * 2) = Some r" using f e by (cases "vsn format args n") simp
      then show False using IH by blast
    qed
  qed
  then show ?thesis unfolding StringPrintFormatted_def by (metis not_None_eq)
qed

section \<open>Strings that are formatted later\<close>

text \<open>A formatted string refers to its arguments, whose values are those that they have when it is printed: a reference is a function of
  the state of the program. Without arguments the format is the text as it stands.\<close>

record ('m, 'x) FormattedString =
  fs_format :: string
  fs_refs :: "('m \<Rightarrow> 'x format_arg) list"

definition FormattedString_Create :: "string \<Rightarrow> ('m \<Rightarrow> 'x format_arg) list \<Rightarrow> ('m, 'x) FormattedString" where
  "FormattedString_Create format refs = \<lparr>fs_format = format, fs_refs = refs\<rparr>"

definition FormattedString_ToString :: "'x vsnprintf \<Rightarrow> ('m, 'x) FormattedString \<Rightarrow> 'm \<Rightarrow> string option" where
  "FormattedString_ToString vsn f m = (if fs_refs f = [] then Some (fs_format f)
     else FormatString vsn (fs_format f) (map (\<lambda>r. r m) (fs_refs f)))"

lemma FormattedString_is_late:
  assumes "refs \<noteq> []" "prints vsn format (map (\<lambda>r. PrepareFormat (r m)) refs) s"
  shows "FormattedString_ToString vsn (FormattedString_Create format refs) m = Some s"
proof -
  have "format_loop vsn format (map (\<lambda>r. PrepareFormat (r m)) refs) VSNPRINTF_BUFFER_SIZE = Some s"
    by (rule format_loop_prints [OF assms(2)]) (simp add: VSNPRINTF_BUFFER_SIZE_def)
  then show ?thesis using assms(1)
    by (simp add: FormattedString_ToString_def FormattedString_Create_def FormatString_def StringPrintFormatted_def o_def)
qed

section \<open>Buffers of characters\<close>

definition CharBuffer_Size :: "string \<Rightarrow> UINT_32" where "CharBuffer_Size b = of_nat (length b)"

definition Append_char :: "char \<Rightarrow> string \<Rightarrow> string" where "Append_char c b = b @ [c]"

definition Append_range :: "string \<Rightarrow> string \<Rightarrow> string" where "Append_range s b = b @ s"

datatype 'e buffer_error = StreamThrows 'e | BufferUndefined

text \<open>\<open>rd n\<close> is \<^verbatim>\<open>Read\<close> of the stream. It writes behind the old characters; the size of the buffer for that is computed in 32 bits.\<close>

definition Append_stream :: "(nat \<Rightarrow> ('st, 'e, string) mth) \<Rightarrow> UINT_32 \<Rightarrow> ('st \<times> string, 'e buffer_error, unit) mth" where
  "Append_stream rd n = (\<lambda>(st, b). if n = 0 then (Inr (), (st, b))
     else let currentSize = CharBuffer_Size b; b' = resize (unat (currentSize + n)) CHR 0x00 b in
       if unat currentSize + unat n > length b' then (Inl BufferUndefined, (st, b'))
       else case rd (unat n) st of
         (Inl e, st) \<Rightarrow> (Inl (StreamThrows e), (st, resize (unat currentSize) CHR 0x00 b'))
       | (Inr bytes, st) \<Rightarrow> (Inr (), (st, take (unat currentSize) b' @ bytes @ drop (unat currentSize + unat n) b')))"

definition CharBuffer_ToString :: "string \<Rightarrow> string" where "CharBuffer_ToString b = b"

definition CharBuffer_Clear :: "string \<Rightarrow> string" where "CharBuffer_Clear b = []"

definition Shift :: "UINT_32 \<Rightarrow> string \<Rightarrow> string" where
  "Shift n b = (if n = 0 then b else if unat n \<ge> length b then [] else drop (unat n) b)"

definition CharBuffer_eq :: "string \<Rightarrow> string \<Rightarrow> bool" where
  "CharBuffer_eq b s \<longleftrightarrow> unat (CharBuffer_Size b) = length s \<and> take (unat (CharBuffer_Size b)) s = take (unat (CharBuffer_Size b)) b"

text \<open>Below \<open>2 ^ 32\<close> characters, reading from a stream appends what is read, or leaves the buffer as it was.\<close>

lemma Append_stream_appends:
  assumes "length b + unat n < 2 ^ 32" "\<forall>st. case rd (unat n) st of (Inr bytes, _) \<Rightarrow> length bytes = unat n | (Inl e, _) \<Rightarrow> True"
  shows "Append_stream rd n (st, b) = (if n = 0 then (Inr (), (st, b)) else (case rd (unat n) st of
    (Inr bytes, st) \<Rightarrow> (Inr (), (st, b @ bytes)) | (Inl e, st) \<Rightarrow> (Inl (StreamThrows e), (st, b))))"
proof -
  have b: "unat (CharBuffer_Size b) = length b" using assms(1) by (simp add: CharBuffer_Size_def unat_of_nat)
  have n: "unat (CharBuffer_Size b + n) = length b + unat n" using assms(1) b by (simp add: unat_word_ariths)
  have r: "resize (length b + unat n) CHR 0x00 b = b @ replicate (unat n) CHR 0x00" "resize (length b) CHR 0x00 (b @ replicate (unat n) CHR 0x00) = b"
    by (simp_all add: resize_def)
  show ?thesis by (simp add: Append_stream_def b n r Let_def split: prod.split sum.split)
qed

lemma Shift_drops: "Shift n b = drop (unat n) b"
  by (simp add: Shift_def)

lemma CharBuffer_eq_iff:
  assumes "length b < 2 ^ 32"
  shows "CharBuffer_eq b s \<longleftrightarrow> b = s"
proof -
  have "unat (CharBuffer_Size b) = length b" using assms unfolding CharBuffer_Size_def by (subst unat_of_nat) simp
  then show ?thesis unfolding CharBuffer_eq_def by (metis order_refl take_all)
qed

end
