(* ===== verification/Logging.thy ===== *)
theory Logging
  imports Formatting Posix_File String_Utils
begin

text \<open>
  \<^verbatim>\<open>Logger\<close>: levels, loggers that write lines to the standard streams or to a file, and the default logger of the program. The clock and
  the standard streams of C are a parameter.
\<close>

section \<open>Levels\<close>

definition LOG_NOTHING :: int where "LOG_NOTHING = - 1"
definition LOG_ERROR :: int where "LOG_ERROR = 0"
definition LOG_WARN :: int where "LOG_WARN = 1"
definition LOG_INFO :: int where "LOG_INFO = 2"
definition LOG_DEBUG :: int where "LOG_DEBUG = 3"
definition LOG_TRACE :: int where "LOG_TRACE = 4"

datatype log_error = LogWriteError | LogFlushError | LogFileError file_error | LogUndefined | LogDoesNotReturn

type_synonym ('w, 'a) log_mth = "('w, log_error, 'a) mth"

definition LOG_LEVEL_NAME :: "string list" where
  "LOG_LEVEL_NAME = [''ERROR'', '' WARN'', '' INFO'', ''DEBUG'', ''TRACE'']"

definition LogLevel_Name :: "int \<Rightarrow> ('w, string) log_mth" where
  "LogLevel_Name level = (if 0 \<le> level \<and> nat level < length LOG_LEVEL_NAME then returnM (LOG_LEVEL_NAME ! nat level) else throwM LogUndefined)"

definition levels :: "(string \<times> int) list" where
  "levels = [(''error'', LOG_ERROR), (''err'', LOG_ERROR), (''warnings'', LOG_WARN), (''warning'', LOG_WARN), (''warn'', LOG_WARN),
     (''info'', LOG_INFO), (''debug'', LOG_DEBUG), (''trace'', LOG_TRACE)]"

definition LogLevelFromString :: "string \<Rightarrow> int \<Rightarrow> int" where
  "LogLevelFromString level defaultValue = (case map_of levels (LowerCased level) of None \<Rightarrow> defaultValue | Some l \<Rightarrow> l)"

section \<open>The system\<close>

datatype std_stream = STDOUT | STDERR

record Time =
  tm_mday :: int
  tm_mon :: int
  tm_year :: int
  tm_hour :: int
  tm_min :: int
  tm_sec :: int
  tv_usec :: int

text \<open>The clock with its time taken apart, \<^verbatim>\<open>fwrite\<close> with the number of characters it has written, and whether \<^verbatim>\<open>fflush\<close> succeeds\<close>

record 'o StdSystem =
  ss_now :: "'o \<Rightarrow> Time \<times> 'o"
  ss_fwrite :: "std_stream \<Rightarrow> string \<Rightarrow> 'o \<Rightarrow> nat \<times> 'o"
  ss_fflush :: "std_stream \<Rightarrow> 'o \<Rightarrow> bool \<times> 'o"

definition NOW_FORMAT :: string where "NOW_FORMAT = ''[%02u/%02u/%04u %02u:%02u:%02u.%06u]''"

definition now_args :: "Time \<Rightarrow> int format_arg list" where
  "now_args t = map OtherArg [tm_mday t, tm_mon t + 1, tm_year t + 1900, tm_hour t, tm_min t, tm_sec t, tv_usec t]"

definition Now :: "int vsnprintf \<Rightarrow> 'o StdSystem \<Rightarrow> ('o, string) log_mth" where
  "Now vsn ss w = (case ss_now ss w of (t, w) \<Rightarrow> (case FormatString vsn NOW_FORMAT (now_args t) of
     None \<Rightarrow> (Inl LogDoesNotReturn, w) | Some s \<Rightarrow> (Inr s, w)))"

definition std_write :: "'o StdSystem \<Rightarrow> std_stream \<Rightarrow> string \<Rightarrow> ('o, unit) log_mth" where
  "std_write ss stream buffer w = (case ss_fwrite ss stream buffer w of (n, w) \<Rightarrow> (if n < length buffer then Inl LogWriteError else Inr (), w))"

definition std_flush :: "'o StdSystem \<Rightarrow> std_stream \<Rightarrow> ('o, unit) log_mth" where
  "std_flush ss stream w = (case ss_fflush ss stream w of (ok, w) \<Rightarrow> (if ok then Inr () else Inl LogFlushError, w))"

section \<open>Loggers\<close>

text \<open>An object with its two virtual functions and its level\<close>

record 'w Logger =
  lg_WriteMessage :: "int \<Rightarrow> string \<Rightarrow> ('w, unit) log_mth"
  lg_Flush :: "('w, unit) log_mth"
  lg_minLevel :: int

definition Logger_new :: "(int \<Rightarrow> string \<Rightarrow> ('w, unit) log_mth) \<Rightarrow> ('w, unit) log_mth \<Rightarrow> 'w Logger" where
  "Logger_new wm fl = \<lparr>lg_WriteMessage = wm, lg_Flush = fl, lg_minLevel = LOG_TRACE\<rparr>"

definition SetMinLogLevel :: "int \<Rightarrow> 'w Logger \<Rightarrow> 'w Logger" where "SetMinLogLevel level l = l\<lparr>lg_minLevel := level\<rparr>"

definition Logger_Log :: "'w Logger \<Rightarrow> int \<Rightarrow> string \<Rightarrow> ('w, unit) log_mth" where
  "Logger_Log l level message = (if level \<le> lg_minLevel l then lg_WriteMessage l level message else returnM ())"

definition format_message :: "int vsnprintf \<Rightarrow> string \<Rightarrow> int format_arg list \<Rightarrow> ('w, string) log_mth" where
  "format_message vsn format args = (case FormatString vsn format args of None \<Rightarrow> throwM LogDoesNotReturn | Some s \<Rightarrow> returnM s)"

text \<open>\<open>Log\<close> with one and with two arguments. With three and more of them a semicolon ends the condition, and the message is written
  whatever its level.\<close>

definition Logger_Log_few :: "int vsnprintf \<Rightarrow> 'w Logger \<Rightarrow> int \<Rightarrow> string \<Rightarrow> int format_arg list \<Rightarrow> ('w, unit) log_mth" where
  "Logger_Log_few vsn l level format args =
     (if level \<le> lg_minLevel l then bindM (format_message vsn format args) (lg_WriteMessage l level) else returnM ())"

definition Logger_Log_many :: "int vsnprintf \<Rightarrow> 'w Logger \<Rightarrow> int \<Rightarrow> string \<Rightarrow> int format_arg list \<Rightarrow> ('w, unit) log_mth" where
  "Logger_Log_many vsn l level format args = bindM (format_message vsn format args) (lg_WriteMessage l level)"

definition Logger_Log_format :: "int vsnprintf \<Rightarrow> 'w Logger \<Rightarrow> int \<Rightarrow> string \<Rightarrow> int format_arg list \<Rightarrow> ('w, unit) log_mth" where
  "Logger_Log_format vsn l level format args =
     (if length args \<le> 2 then Logger_Log_few vsn l level format args else Logger_Log_many vsn l level format args)"

text \<open>A simple logger writes through one function.\<close>

definition SimpleLogger_WriteMessage ::
  "('w, string) log_mth \<Rightarrow> (string \<Rightarrow> ('w, unit) log_mth) \<Rightarrow> int \<Rightarrow> string \<Rightarrow> ('w, unit) log_mth" where
  "SimpleLogger_WriteMessage now write level message =
     bindM now (\<lambda>t. bindM (write t) (\<lambda>_. bindM (write '' '') (\<lambda>_. bindM (LogLevel_Name level) (\<lambda>n. bindM (write n) (\<lambda>_.
       bindM (write '' '') (\<lambda>_. bindM (write message) (\<lambda>_. write [CHR 0x0A])))))))"

definition NullLogger :: "int vsnprintf \<Rightarrow> 'o StdSystem \<Rightarrow> 'o Logger" where
  "NullLogger vsn ss =
     SetMinLogLevel LOG_NOTHING (Logger_new (SimpleLogger_WriteMessage (Now vsn ss) (\<lambda>_. returnM ())) (returnM ()))"

definition StdOutLogger :: "int vsnprintf \<Rightarrow> 'o StdSystem \<Rightarrow> 'o Logger" where
  "StdOutLogger vsn ss = Logger_new (SimpleLogger_WriteMessage (Now vsn ss) (std_write ss STDOUT)) (std_flush ss STDOUT)"

definition StdErrLogger :: "int vsnprintf \<Rightarrow> 'o StdSystem \<Rightarrow> 'o Logger" where
  "StdErrLogger vsn ss = Logger_new (SimpleLogger_WriteMessage (Now vsn ss) (std_write ss STDERR)) (std_flush ss STDERR)"

definition ConsoleLogger_WriteMessage :: "int vsnprintf \<Rightarrow> 'o StdSystem \<Rightarrow> int \<Rightarrow> string \<Rightarrow> ('o, unit) log_mth" where
  "ConsoleLogger_WriteMessage vsn ss level message =
     (let stream = (if level = LOG_ERROR \<or> level = LOG_WARN then STDERR else STDOUT) in
      bindM (Now vsn ss) (\<lambda>t. bindM (std_write ss stream t) (\<lambda>_. bindM (std_write ss stream '' '') (\<lambda>_.
        bindM (LogLevel_Name level) (\<lambda>n. bindM (std_write ss stream n) (\<lambda>_. bindM (std_write ss stream '' '') (\<lambda>_.
          bindM (std_write ss stream message) (\<lambda>_. std_write ss stream [CHR 0x0A]))))))))"

definition ConsoleLogger_Flush :: "'o StdSystem \<Rightarrow> ('o, unit) log_mth" where
  "ConsoleLogger_Flush ss = bindM (std_flush ss STDOUT) (\<lambda>_. std_flush ss STDERR)"

definition ConsoleLogger :: "int vsnprintf \<Rightarrow> 'o StdSystem \<Rightarrow> 'o Logger" where
  "ConsoleLogger vsn ss = Logger_new (ConsoleLogger_WriteMessage vsn ss) (ConsoleLogger_Flush ss)"

text \<open>A logger to a file, which is opened for appending; its state is that of the file. How much \<^verbatim>\<open>File::Write\<close> has written is ignored.\<close>

definition on_file :: "('o, 'z, 'a) file_mth \<Rightarrow> (('o, 'z) FileIo_scheme, 'a) log_mth" where
  "on_file m f = (case m f of (Inl e, f) \<Rightarrow> (Inl (LogFileError e), f) | (Inr a, f) \<Rightarrow> (Inr a, f))"

definition on_clock :: "('o, 'a) log_mth \<Rightarrow> ('o FileIo, 'a) log_mth" where
  "on_clock m f = (case m (io_system f) of (r, w) \<Rightarrow> (r, f\<lparr>io_system := w\<rparr>))"

definition FileLogger_Write :: "'o System \<Rightarrow> string \<Rightarrow> ('o FileIo, unit) log_mth" where
  "FileLogger_Write sys buffer = bindM (on_file (File_Write sys (Some buffer))) (\<lambda>_. returnM ())"

definition FileLogger :: "int vsnprintf \<Rightarrow> 'o StdSystem \<Rightarrow> 'o System \<Rightarrow> 'o FileIo Logger" where
  "FileLogger vsn ss sys =
     Logger_new (SimpleLogger_WriteMessage (on_clock (Now vsn ss)) (FileLogger_Write sys)) (on_file (File_Flush sys))"

definition FileLogger_new :: "'o System \<Rightarrow> nat \<Rightarrow> string \<Rightarrow> 'o \<Rightarrow> (log_error + 'o FileIo) \<times> 'o" where
  "FileLogger_new sys accessMode filePath w = (case File_new filePath w of
     Inl e \<Rightarrow> (Inl (LogFileError e), w)
   | Inr f \<Rightarrow> (case File_Create sys CREATE_APPEND accessMode f of
       (Inl e, f) \<Rightarrow> (Inl (LogFileError e), io_system f) | (Inr _, f) \<Rightarrow> (Inr f, io_system f)))"

definition FileLogger_destroy :: "'o System \<Rightarrow> ('o FileIo, unit) log_mth" where
  "FileLogger_destroy sys f = (case File_Close sys f of (Inl e, f) \<Rightarrow> (Inl (LogFileError Terminate), f) | (Inr _, f) \<Rightarrow> (Inr (), f))"

section \<open>The default logger\<close>

text \<open>The program's logger, a console logger in the beginning; setting a null pointer leaves none.\<close>

record 'o LogProgram =
  pr_logger :: "'o Logger option"
  pr_world :: 'o

definition LogProgram_new :: "int vsnprintf \<Rightarrow> 'o StdSystem \<Rightarrow> 'o \<Rightarrow> 'o LogProgram" where
  "LogProgram_new vsn ss w = \<lparr>pr_logger = Some (ConsoleLogger vsn ss), pr_world = w\<rparr>"

definition DefaultLogger :: "('o LogProgram, 'o Logger) log_mth" where
  "DefaultLogger s = (case pr_logger s of None \<Rightarrow> (Inl LogUndefined, s) | Some l \<Rightarrow> (Inr l, s))"

definition SetDefaultLogger :: "'o Logger option \<Rightarrow> ('o LogProgram, unit) log_mth" where
  "SetDefaultLogger l s = (Inr (), s\<lparr>pr_logger := l\<rparr>)"

definition on_world :: "('o, 'a) log_mth \<Rightarrow> ('o LogProgram, 'a) log_mth" where
  "on_world m s = (case m (pr_world s) of (r, w) \<Rightarrow> (r, s\<lparr>pr_world := w\<rparr>))"

definition CurrentLogLevel :: "('o LogProgram, int) log_mth" where
  "CurrentLogLevel = bindM DefaultLogger (\<lambda>l. returnM (lg_minLevel l))"

definition Log :: "int \<Rightarrow> string \<Rightarrow> ('o LogProgram, unit) log_mth" where
  "Log level message = bindM DefaultLogger (\<lambda>l. on_world (Logger_Log l level message))"

definition Log_format :: "int vsnprintf \<Rightarrow> int \<Rightarrow> string \<Rightarrow> int format_arg list \<Rightarrow> ('o LogProgram, unit) log_mth" where
  "Log_format vsn level format args = bindM DefaultLogger (\<lambda>l. on_world (Logger_Log_format vsn l level format args))"

definition Warn :: "string \<Rightarrow> ('o LogProgram, unit) log_mth" where "Warn message = Log LOG_WARN message"

definition Warn_format :: "int vsnprintf \<Rightarrow> string \<Rightarrow> int format_arg list \<Rightarrow> ('o LogProgram, unit) log_mth" where
  "Warn_format vsn format args = Log_format vsn LOG_WARN format args"

section \<open>What reaches the console\<close>

text \<open>Standard streams that write what they are given, \<open>text w st\<close> is what a stream has received; and a clock whose times are printed\<close>

definition console_ok :: "int vsnprintf \<Rightarrow> 'o StdSystem \<Rightarrow> ('o \<Rightarrow> std_stream \<Rightarrow> string) \<Rightarrow> (Time \<Rightarrow> string) \<Rightarrow> bool" where
  "console_ok vsn ss text stamp \<longleftrightarrow>
     (\<forall>st buffer w. case ss_fwrite ss st buffer w of (n, w') \<Rightarrow> n = length buffer \<and> text w' = (text w)(st := text w st @ buffer)) \<and>
     (\<forall>w. text (snd (ss_now ss w)) = text w) \<and> (\<forall>t. prints vsn NOW_FORMAT (now_args t) (stamp t))"

datatype log_call = LogCall int string | FormatCall int string "int format_arg list"

fun run_call :: "int vsnprintf \<Rightarrow> log_call \<Rightarrow> ('o LogProgram, unit) log_mth" where
  "run_call vsn (LogCall level message) = Log level message"
| "run_call vsn (FormatCall level format args) = Log_format vsn level format args"

fun call_level :: "log_call \<Rightarrow> int" where
  "call_level (LogCall level message) = level"
| "call_level (FormatCall level format args) = level"

text \<open>Which calls write a line, and which message: \<open>txt\<close> is what a formatted message prints.\<close>

fun passes :: "int \<Rightarrow> log_call \<Rightarrow> bool" where
  "passes m (LogCall level message) \<longleftrightarrow> level \<le> m"
| "passes m (FormatCall level format args) \<longleftrightarrow> level \<le> m \<or> length args \<ge> 3"

fun call_message :: "(string \<Rightarrow> int format_arg list \<Rightarrow> string) \<Rightarrow> log_call \<Rightarrow> string" where
  "call_message txt (LogCall level message) = message"
| "call_message txt (FormatCall level format args) = txt format (map PrepareFormat args)"

definition log_line :: "string \<Rightarrow> int \<Rightarrow> string \<Rightarrow> string" where
  "log_line t level message = t @ '' '' @ LOG_LEVEL_NAME ! nat level @ '' '' @ message @ [CHR 0x0A]"

definition stream_of :: "int \<Rightarrow> std_stream" where "stream_of level = (if level = LOG_ERROR \<or> level = LOG_WARN then STDERR else STDOUT)"

definition lines_on :: "(string \<Rightarrow> int format_arg list \<Rightarrow> string) \<Rightarrow> std_stream \<Rightarrow> (string \<times> log_call) list \<Rightarrow> string" where
  "lines_on txt st cs = concat (map (\<lambda>(t, c). if stream_of (call_level c) = st then log_line t (call_level c) (call_message txt c) else []) cs)"

lemma std_write_ok:
  assumes "console_ok vsn ss text stamp"
  shows "\<exists>w'. std_write ss st buffer w = (Inr (), w') \<and> text w' = (text w)(st := text w st @ buffer)"
proof -
  have "case ss_fwrite ss st buffer w of (n, w') \<Rightarrow> n = length buffer \<and> text w' = (text w)(st := text w st @ buffer)"
    by (rule assms [unfolded console_ok_def, THEN conjunct1, THEN spec, THEN spec, THEN spec])
  then show ?thesis by (cases "ss_fwrite ss st buffer w") (simp add: std_write_def)
qed

lemma FormatString_now: "FormatString vsn NOW_FORMAT (now_args t) = StringPrintFormatted vsn NOW_FORMAT (now_args t)"
  by (simp add: FormatString_def now_args_def)

lemma Now_ok:
  assumes "console_ok vsn ss text stamp"
  shows "\<exists>t w'. Now vsn ss w = (Inr (stamp t), w') \<and> text w' = text w"
proof -
  obtain t w' where n: "ss_now ss w = (t, w')" by (cases "ss_now ss w")
  have "text w' = text w" using assms n by (metis console_ok_def snd_conv)
  moreover have "FormatString vsn NOW_FORMAT (now_args t) = Some (stamp t)"
    unfolding FormatString_now using assms by (intro StringPrintFormatted_prints) (simp add: console_ok_def)
  ultimately show ?thesis using n by (auto simp: Now_def)
qed

lemma ConsoleLogger_line:
  assumes c: "console_ok vsn ss text stamp" and l: "0 \<le> level" "level < 5"
  shows "\<exists>t w'. ConsoleLogger_WriteMessage vsn ss level message w = (Inr (), w') \<and>
    text w' = (text w)(stream_of level := text w (stream_of level) @ log_line (stamp t) level message)"
proof -
  let ?st = "stream_of level" and ?n = "LOG_LEVEL_NAME ! nat level"
  obtain t w0 where w0: "Now vsn ss w = (Inr (stamp t), w0)" "text w0 = text w" using Now_ok [OF c] by blast
  obtain w1 where w1: "std_write ss ?st (stamp t) w0 = (Inr (), w1)" "text w1 = (text w0)(?st := text w0 ?st @ stamp t)" using std_write_ok [OF c] by blast
  obtain w2 where w2: "std_write ss ?st '' '' w1 = (Inr (), w2)" "text w2 = (text w1)(?st := text w1 ?st @ '' '')" using std_write_ok [OF c] by blast
  obtain w3 where w3: "std_write ss ?st ?n w2 = (Inr (), w3)" "text w3 = (text w2)(?st := text w2 ?st @ ?n)" using std_write_ok [OF c] by blast
  obtain w4 where w4: "std_write ss ?st '' '' w3 = (Inr (), w4)" "text w4 = (text w3)(?st := text w3 ?st @ '' '')" using std_write_ok [OF c] by blast
  obtain w5 where w5: "std_write ss ?st message w4 = (Inr (), w5)" "text w5 = (text w4)(?st := text w4 ?st @ message)" using std_write_ok [OF c] by blast
  obtain w6 where w6: "std_write ss ?st [CHR 0x0A] w5 = (Inr (), w6)" "text w6 = (text w5)(?st := text w5 ?st @ [CHR 0x0A])" using std_write_ok [OF c] by blast
  have name: "LogLevel_Name level v = (Inr ?n, v)" for v using l by (simp add: LogLevel_Name_def LOG_LEVEL_NAME_def returnM_def nat_less_iff)
  have "ConsoleLogger_WriteMessage vsn ss level message w = (Inr (), w6)"
    unfolding ConsoleLogger_WriteMessage_def stream_of_def [symmetric] Let_def
    by (simp add: bindM_def name w0(1) w1(1) w2(1) w3(1) w4(1) w5(1) w6(1))
  moreover have "text w6 = (text w)(?st := text w ?st @ log_line (stamp t) level message)"
    by (simp add: w0(2) w1(2) w2(2) w3(2) w4(2) w5(2) w6(2) log_line_def)
  ultimately show ?thesis by blast
qed

lemma run_call_line:
  assumes c: "console_ok vsn ss text stamp" and l: "0 \<le> call_level k" "call_level k < 5"
    and f: "case k of LogCall _ _ \<Rightarrow> True | FormatCall _ format args \<Rightarrow> prints vsn format (map PrepareFormat args) (txt format (map PrepareFormat args))"
    and s: "pr_logger s = Some (SetMinLogLevel m (ConsoleLogger vsn ss))"
  shows "\<exists>ts u. run_call vsn k s = (Inr (), u) \<and> pr_logger u = pr_logger s \<and> length ts = (if passes m k then 1 else 0) \<and>
    (\<forall>st. text (pr_world u) st = text (pr_world s) st @ lines_on txt st (zip (map stamp ts) (filter (passes m) [k])))"
proof (cases "passes m k")
  case True
  obtain t w where w: "ConsoleLogger_WriteMessage vsn ss (call_level k) (call_message txt k) (pr_world s) = (Inr (), w)"
    "text w = (text (pr_world s))(stream_of (call_level k) := text (pr_world s) (stream_of (call_level k)) @ log_line (stamp t) (call_level k) (call_message txt k))"
    using ConsoleLogger_line [OF c l] by blast
  have "run_call vsn k s = (Inr (), s\<lparr>pr_world := w\<rparr>)"
  proof (cases k)
    case (LogCall level message)
    then show ?thesis using True w(1) s
      by (simp add: Log_def DefaultLogger_def on_world_def bindM_def Logger_Log_def SetMinLogLevel_def ConsoleLogger_def Logger_new_def)
  next
    case (FormatCall level format args)
    then have "FormatString vsn format args = Some (txt format (map PrepareFormat args))"
      using f by (simp add: FormatString_def StringPrintFormatted_prints)
    then show ?thesis using FormatCall True w(1) s
      by (auto simp: Log_format_def DefaultLogger_def on_world_def bindM_def Logger_Log_format_def Logger_Log_few_def Logger_Log_many_def
          format_message_def returnM_def SetMinLogLevel_def ConsoleLogger_def Logger_new_def)
  qed
  then show ?thesis using True w(2) by (intro exI [of _ "[t]"] exI [of _ "s\<lparr>pr_world := w\<rparr>"]) (auto simp: lines_on_def)
next
  case False
  then have "run_call vsn k s = (Inr (), s)"
    using s by (cases k) (auto simp: Log_def Log_format_def DefaultLogger_def on_world_def bindM_def Logger_Log_def Logger_Log_format_def
        Logger_Log_few_def returnM_def SetMinLogLevel_def)
  then show ?thesis using False by (intro exI [of _ "[]"] exI [of _ s]) (auto simp: lines_on_def)
qed

lemma lines_on_append: "lines_on txt st (cs @ ds) = lines_on txt st cs @ lines_on txt st ds"
  by (simp add: lines_on_def)

text \<open>C40. A console logger writes one line for each message of its level or a more important one, in order, errors and warnings to the
  standard error stream and the rest to the standard output; and it also writes every message with three or more arguments, whatever
  its level, because of a semicolon behind the condition. The messages are those that the formats print, of any length.\<close>

theorem ConsoleLogger_lines:
  assumes "console_ok vsn ss text stamp" "\<forall>k \<in> set calls. 0 \<le> call_level k \<and> call_level k < 5"
    "\<forall>level format args. FormatCall level format args \<in> set calls \<longrightarrow>
       prints vsn format (map PrepareFormat args) (txt format (map PrepareFormat args))"
    "pr_logger s = Some (SetMinLogLevel m (ConsoleLogger vsn ss))"
  shows "\<exists>ts u. forM calls (run_call vsn) s = (Inr (), u) \<and> length ts = length (filter (passes m) calls) \<and>
    (\<forall>st. text (pr_world u) st = text (pr_world s) st @ lines_on txt st (zip (map stamp ts) (filter (passes m) calls)))"
  using assms(2,3,4)
proof (induction calls arbitrary: s)
  case Nil
  then show ?case by (simp add: returnM_def lines_on_def)
next
  case (Cons k calls)
  have f: "case k of LogCall _ _ \<Rightarrow> True | FormatCall _ format args \<Rightarrow> prints vsn format (map PrepareFormat args) (txt format (map PrepareFormat args))"
    using Cons.prems(2) by (auto split: log_call.split)
  obtain ts u where u: "run_call vsn k s = (Inr (), u)" "pr_logger u = pr_logger s" "length ts = (if passes m k then 1 else 0)"
    "\<forall>st. text (pr_world u) st = text (pr_world s) st @ lines_on txt st (zip (map stamp ts) (filter (passes m) [k]))"
    using run_call_line [OF assms(1) _ _ f Cons.prems(3)] Cons.prems(1) by auto
  obtain rs v where v: "forM calls (run_call vsn) u = (Inr (), v)" "length rs = length (filter (passes m) calls)"
    "\<forall>st. text (pr_world v) st = text (pr_world u) st @ lines_on txt st (zip (map stamp rs) (filter (passes m) calls))"
    using Cons.IH [of u] Cons.prems u(2) by auto
  have "zip (map stamp (ts @ rs)) (filter (passes m) (k # calls)) =
      zip (map stamp ts) (filter (passes m) [k]) @ zip (map stamp rs) (filter (passes m) calls)"
    using u(3) by (cases ts) auto
  then show ?case using u v by (intro exI [of _ "ts @ rs"] exI [of _ v]) (simp add: bindM_def lines_on_append)
qed

text \<open>A console that keeps its text, and a \<^verbatim>\<open>vsnprintf\<close> that prints the format and the strings behind it\<close>

definition sample_console :: "(std_stream \<Rightarrow> string) StdSystem" where
  "sample_console = \<lparr>ss_now = \<lambda>w. (\<lparr>tm_mday = 1, tm_mon = 0, tm_year = 112, tm_hour = 0, tm_min = 0, tm_sec = 0, tv_usec = 0\<rparr>, w),
     ss_fwrite = \<lambda>st buffer w. (length buffer, w(st := w st @ buffer)), ss_fflush = \<lambda>st w. (True, w)\<rparr>"

fun sample_text :: "string \<Rightarrow> int format_arg list \<Rightarrow> string" where
  "sample_text f [] = f"
| "sample_text f (CStringArg s # args) = sample_text (f @ s) args"
| "sample_text f (_ # args) = sample_text f args"

definition sample_vsnprintf :: "int vsnprintf" where
  "sample_vsnprintf f args n = (let s = sample_text f args in (int (length s), take (n - 1) s))"

lemma sample_prints: "prints sample_vsnprintf f args (sample_text f args)"
  by (auto simp: prints_def sample_vsnprintf_def Let_def)

lemma sample_console_ok: "console_ok sample_vsnprintf sample_console id (\<lambda>_. NOW_FORMAT)"
proof -
  have "sample_text NOW_FORMAT (now_args t) = NOW_FORMAT" for t by (simp add: now_args_def)
  then have "prints sample_vsnprintf NOW_FORMAT (now_args t) NOW_FORMAT" for t using sample_prints [of NOW_FORMAT "now_args t"] by simp
  then show ?thesis by (simp add: console_ok_def sample_console_def)
qed

theorem ConsoleLogger_lines_witness:
  "\<exists>u. forM [LogCall 0 ''e'', LogCall 3 ''d'', FormatCall 3 ''f'' [StringArg ''a'', StringArg ''b'', StringArg ''c'']] (run_call sample_vsnprintf)
      \<lparr>pr_logger = Some (SetMinLogLevel LOG_INFO (ConsoleLogger sample_vsnprintf sample_console)), pr_world = \<lambda>_. []\<rparr> = (Inr (), u) \<and>
    pr_world u STDERR = log_line NOW_FORMAT 0 ''e'' \<and> pr_world u STDOUT = log_line NOW_FORMAT 3 ''fabc''"
proof -
  let ?calls = "[LogCall 0 ''e'', LogCall 3 ''d'', FormatCall 3 ''f'' [StringArg ''a'', StringArg ''b'', StringArg ''c'']]"
    and ?s = "\<lparr>pr_logger = Some (SetMinLogLevel LOG_INFO (ConsoleLogger sample_vsnprintf sample_console)), pr_world = \<lambda>_. []\<rparr>"
  have m: "filter (passes LOG_INFO) ?calls = [LogCall 0 ''e'', FormatCall 3 ''f'' [StringArg ''a'', StringArg ''b'', StringArg ''c'']]"
    by (simp add: LOG_INFO_def)
  have "\<exists>(ts :: Time list) u. forM ?calls (run_call sample_vsnprintf) ?s = (Inr (), u) \<and> length ts = length (filter (passes LOG_INFO) ?calls) \<and>
    (\<forall>st. id (pr_world u) st = id (pr_world ?s) st @ lines_on sample_text st (zip (map (\<lambda>_. NOW_FORMAT) ts) (filter (passes LOG_INFO) ?calls)))"
    by (rule ConsoleLogger_lines [OF sample_console_ok])
      (use sample_prints [of "''f''" "[CStringArg ''a'', CStringArg ''b'', CStringArg ''c'']"] in simp_all)
  then obtain ts :: "Time list" and u where u: "forM ?calls (run_call sample_vsnprintf) ?s = (Inr (), u)" "length ts = Suc (Suc 0)"
    "\<forall>st. pr_world u st = lines_on sample_text st (zip (map (\<lambda>_. NOW_FORMAT) ts)
      [LogCall 0 ''e'', FormatCall 3 ''f'' [StringArg ''a'', StringArg ''b'', StringArg ''c'']])"
    unfolding m by auto
  have "map (\<lambda>_. NOW_FORMAT) ts = [NOW_FORMAT, NOW_FORMAT]" using u(2) by (simp add: map_replicate_const)
  then have "pr_world u STDERR = log_line NOW_FORMAT 0 ''e''" "pr_world u STDOUT = log_line NOW_FORMAT 3 ''fabc''"
    using u(3) by (simp_all add: lines_on_def stream_of_def LOG_ERROR_def LOG_WARN_def)
  then show ?thesis using u(1) by blast
qed

end
