(* ===== verification/Spec2Isabelle.thy ===== *)
theory Spec2Isabelle
  imports Bit_Set Base64 Calendar Number_Literal String_Utils String_Literal Ini_Document BTree_Set
    Json_States Json_Escape Path_Resolution Heap_Queue Matcher_Semantics Option_Errors
    Pgsql_Cursor Buffered_Output Directory_Paths Array_Streams Array_Resizing
    Map_Cache Owning_Containers Shared_Pointers Logging
begin

text \<open>
  XTL is a C++ library of utilities (\<^verbatim>\<open>src/trunk/lib/xtl\<close>): containers, text parsing, values of
  dynamic type, configuration files, dates, encodings and wrappers of operating system services and
  databases. This development models the parts whose logic is the library's own. All paths below are
  relative to that directory.

  \<^bold>\<open>Parts and theories.\<close>
  \<^item> \<open>Xtl_Prelude\<close>: result monads with state (a C++ member function that can throw is
    \<open>('s, 'e, 'a) mth\<close>: what it returns or throws, and its object afterwards, also after a throw), fixed-width
    integers as words, the rules of contracts \<open>triple\<close> for methods that may throw, \<^verbatim>\<open>char\<close> as a signed byte, and the operations on \<^verbatim>\<open>double\<close> as a record of
    parameters, because their values belong to the floating point unit.
  \<^item> \<open>Bit_Utils\<close>, \<open>Bit_Set\<close> (\<^verbatim>\<open>utils/BitUtils\<close>, \<^verbatim>\<open>BitSet.hpp\<close>): table driven bit counting at every width, and sets
    of small numbers as words with their iterators; a bit set implements a set, through the locale
    \<open>index_set\<close>.
  \<^item> \<open>Base64\<close> (\<^verbatim>\<open>utils/Base64\<close>): both codecs with their decoding tables and errors.
  \<^item> \<open>Algorithm\<close>, \<open>Calendar\<close> (\<^verbatim>\<open>utils/Algorithm.hpp\<close>, \<^verbatim>\<open>utils/Date\<close>): calendar arithmetic; the loops that may not end
    are partial functions, and that they return is part of the theorems.
  \<^item> \<open>Char_Source\<close>, \<open>Text_Parser\<close>, \<open>Number_Literal\<close>, \<open>String_Literal\<close>, \<open>Parser_Progress\<close> (\<^verbatim>\<open>tp/\<close>): the text sources with their
    stack of marks, the character classes built as a table of bits, and the parsers on top of them. Every
    operation of a source takes and returns the source, so a parser is the sequence of calls of the code.
    \<open>src b r ms\<close> is the source that has read \<open>b\<close>, has \<open>r\<close> in front of it and the marks \<open>ms\<close>; the rules
    \<open>src_simps\<close> evaluate the operations on it. \<open>Parser_Progress\<close> shows that no parser operation moves a source back
    or changes its text, which is why the loop over the lines of a file ends.
  \<^item> \<open>String_Utils\<close> (\<^verbatim>\<open>StringUtils\<close>, \<^verbatim>\<open>TypeTraits.hpp\<close>): conversions between numbers and text with their buffer sizes,
    the recognisers of numbers and the string splitter.
  \<^item> \<open>Std_Map\<close>, \<open>Variants\<close> (\<^verbatim>\<open>Variant*\<close>): \<^verbatim>\<open>std::map\<close> as a sorted association list behind the locale \<open>finite_store\<close>,
    the values, their conversions and the conversion in place made by \<^verbatim>\<open>VariantPtr\<close>. Sharing of one value by two
    pointers is left out: the library's values are immutable apart from the containers, and a conversion replaces
    the pointer and not the value.
  \<^item> \<open>Ini_Config\<close>, \<open>Ini_Document\<close> (\<^verbatim>\<open>ini/\<close>): the configuration store, the parser of configuration files and
    the documents it accepts.
  \<^item> \<open>BTree_Arrays\<close>, \<open>BTree_Nodes\<close>, \<open>BTree_Model\<close> (\<^verbatim>\<open>BTree.hpp\<close>, \<^verbatim>\<open>BTreeSet.hpp\<close>): the tree as the code has it. Nodes
    live in a memory with one map per field (the record \<open>BTree\<close>), so that the back links to parents, the chain of leaves and the
    arrays with their stale tails are all there; every operation of \<^verbatim>\<open>Leaf\<close>, \<^verbatim>\<open>Branch\<close>, \<^verbatim>\<open>BTree\<close>, \<^verbatim>\<open>ConstIterator\<close> and \<^verbatim>\<open>Tester\<close> is
    a function on it. The locales \<open>comparator\<close> and \<open>btree\<close> state what the template parameters must promise.
  \<^item> \<open>BTree_Shape\<close> to \<open>BTree_Contract\<close>: the proof of the tree. A shape is the tree of the addresses, a context the way from a
    node up to the root; the invariant \<open>tree_inv\<close> is a condition on the branches and one on the sequences of leaves and of
    separators, which sharing between neighbours and division of a leaf change in one place (\<open>BTree_Leaves\<close>, \<open>BTree_Sharing\<close>);
    \<open>BTree_Branches\<close> adds a child to a branch, \<open>BTree_Insertion\<close> is the induction over the descent. \<open>represents p h xs\<close> says
    that the memory \<open>h\<close> holds a tree with the items \<open>xs\<close>.
  \<^item> \<open>BTree_SelfTest\<close>, \<open>BTree_Set\<close>: the tree's own checker accepts every such memory; the contract is interpreted for sets over a
    linear order.
  \<^item> \<open>Json_Printer\<close>, \<open>Json_Rendering\<close>, \<open>Json_States\<close>, \<open>Json_Escape\<close> (\<^verbatim>\<open>json/JsonPrinter\<close>, the repeated characters of \<^verbatim>\<open>PrintStream.hpp\<close>):
    the printer with its stack of states; the rendering of a value as a function on the tree of the value; the printer as a
    transition system, with the open containers that a stack stands for; and the escaping of strings.
  \<^item> \<open>File_Path\<close>, \<open>Path_Resolution\<close> (\<^verbatim>\<open>linux/fs/FilePath\<close>, \<^verbatim>\<open>linux/fs/FilePathTokenizer\<close>): the tokenizer with its listeners behind the locale
    \<open>path_listener\<close>, and paths as walks through directories.
  \<^item> \<open>Std_Heap\<close>, \<open>Heap_Queue\<close> (\<^verbatim>\<open>utils/Heap.hpp\<close>): the contract of the heap algorithms of the standard library as the locale
    \<open>heap_algorithms\<close>, interpreted by sifting, and the two heaps over it.
  \<^item> \<open>String_Matcher\<close>, \<open>Matcher_Semantics\<close> (\<^verbatim>\<open>utils/SimpleStringMatcher\<close>): the parser of templates on a text source, the nodes, and what
    a template accepts.
  \<^item> \<open>Print_Stream\<close>, \<open>Strings_Table\<close> (\<^verbatim>\<open>PrintStream\<close>, \<^verbatim>\<open>utils/StringsTable\<close>, \<^verbatim>\<open>utils/StringsTablePrinter\<close>): a stream is its text; tables with the
    widths of their columns and the printers that align to them. An index out of range is the exception \<open>Undefined\<close>.
  \<^item> \<open>Program_Options\<close>, \<open>Option_Registration\<close>, \<open>Option_Parsing\<close>, \<open>Option_Errors\<close> (\<^verbatim>\<open>ProgramOptions\<close>): one state \<open>World\<close> holds the option
    objects at addresses, the pool that owns them, the variables they refer to, the argument strings and the standard error
    stream, because all of these are shared by reference. Registration keeps the pool well formed; arguments are settings
    (\<open>--name=value\<close>, \<open>-n value\<close>, a value alone) whose effect is a fold over the variables; \<open>complaint\<close> lists what is rejected
    and with which words. Handlers the program supplies are a parameter.
  \<^item> \<open>Simple_Template\<close>, \<open>Template_Semantics\<close> (\<^verbatim>\<open>simple_template/\<close>): templates with references to variables, parsed on a text
    source, and what a template written from its parts expands to. \<open>Pgsql_Cursor\<close> (\<^verbatim>\<open>pgsql/Cursor\<close>): the commands a cursor sends.
  \<^item> \<open>Posix_File\<close>, \<open>File_Streams\<close>, \<open>Stream_Contents\<close>, \<open>Buffered_Input\<close>, \<open>Buffered_Output\<close> (\<^verbatim>\<open>linux/fs/File\<close>, \<^verbatim>\<open>FileStats\<close>, \<^verbatim>\<open>io/\<close>):
    descriptors, the streams with and without a buffer, and the file that replaces another when it is complete.
    The system calls are the record \<open>System\<close>, a parameter of every operation, each a function of the state of
    the world that returns its result and the next state. What POSIX documents of them is a named hypothesis where a theorem
    needs it: \<open>regular_input\<close> and \<open>regular_output\<close> for what \<^verbatim>\<open>read\<close> and \<^verbatim>\<open>write\<close> move (short counts, any number of
    interruptions and failures included), \<open>keeps_written\<close> for \<^verbatim>\<open>fsync\<close> and \<^verbatim>\<open>close\<close>, \<open>posix_dirs\<close> and \<open>posix_links\<close> for directories and
    symbolic links, which are told apart by identities and not by the texts of their paths, \<open>answers_cwd\<close> for the current
    directory. That no other process changes the files meanwhile is part of them. \<open>calm_input\<close> and \<open>calm_output\<close> are not documented
    behaviour but the absence of trouble: no failing call, and not more interrupts than a file ignores; only the round trip of
    arrays through a file and the reading of whole files are stated under them. \<open>sample_system\<close> and
    \<open>tree_system\<close> are systems that satisfy the hypotheses, on which the witnesses run.
  \<^item> \<open>Record_Prototype\<close>, \<open>Plain_Records\<close> (\<^verbatim>\<open>plain/FieldType.hpp\<close>, \<^verbatim>\<open>plain/RecordPrototype\<close>, \<^verbatim>\<open>plain/Record.hpp\<close>): records whose layout is built
    at run time. A prototype is a value, a pointer to one is its address and the value there; memory is a map of blocks of bytes, in
    which an access outside a block or to a deleted one, and a copy between overlapping ranges, is the exception \<open>Undefined\<close>. The members that the
    macros \<^verbatim>\<open>DECLARE_FIELD\<close> declare are functions of the prototype, the name and the size of the type.
  \<^item> \<open>Record_Array\<close>, \<open>Array_Contents\<close>, \<open>Array_Resizing\<close>, \<open>Array_Streams\<close> (\<^verbatim>\<open>plain/RecordArray\<close>): arrays in chunks that are allocated when
    they are first used, their invariant \<open>array_ok\<close>, and their abstraction \<open>records\<close>, the list of the bytes of each record. Streams are
    behind the locales \<open>byte_output\<close> and \<open>byte_input\<close>, which strings and the buffered streams of files provide.
  \<^item> \<open>Record_Sorting\<close>, \<open>Quick_Sort\<close>, \<open>Array_Sort\<close> (\<^verbatim>\<open>plain/Algorithm\<close>): quick sort on an index, and the moves of the records along the
    cycles of the index.
  \<^item> \<open>File_Utils\<close>, \<open>Directory_Paths\<close> (\<^verbatim>\<open>linux/fs/FileUtils\<close>): creation of nested directories, symbolic links and their replacement, whole files
    read into strings.
  \<^item> \<open>Owned_Objects\<close>, \<open>Owning_Containers\<close>, \<open>Map_Cache\<close> (\<^verbatim>\<open>utils/AutoPtr*\<close>): containers that delete what they point to. The objects are a
    heap of addresses that are alive or not, deleting one that is not is the exception \<open>Dangling\<close>, and \<open>owns\<close> says which objects a
    container answers for. The destructor of an object is code of its class, outside the library, and is not run: the model is of
    classes whose destructors do not reach back into the container or the pointers. Maps are compared with finite maps, the cache with the list of its keys in the order of their use.
  \<^item> \<open>Shared_Pointers\<close> (\<^verbatim>\<open>SharedPtr.hpp\<close>): the pointers as variables under their addresses, the objects and the counters; \<open>shares\<close> is the
    invariant of the counters. Shared pointers that are members of shared objects are outside the model.
  \<^item> \<open>Formatting\<close>, \<open>Logging\<close> (\<^verbatim>\<open>FormatString\<close>, \<^verbatim>\<open>CharBuffer.hpp\<close>, \<^verbatim>\<open>Logger\<close>): printing over \<^verbatim>\<open>vsnprintf\<close> as a parameter with its contract
    \<open>prints\<close>, buffers of characters, and the loggers over a clock and streams with the contract \<open>console_ok\<close>.

  \<^bold>\<open>What is shown.\<close> Round trips (Base64, dates and day numbers, integers and their decimal text, the splitter), the exact
  value and the exact overflow condition of every integer notation, what each parsing operation reads and where it
  stops, refinements (bit sets implement sets, the position-counting source implements the plain one as long as it is
  not rewound, the configuration store implements maps of maps, a B-tree set implements a finite set under any history of insertions), that the JSON printer
  accepts the tokens of values and no others and prints their rendering (when it is compact, or no container over several lines
  is empty), that program options are set as the arguments say
  and without undefined accesses, that buffered streams deliver and write the bytes of the file in order across short counts and
  interruptions, why a read throws, and that bytes written are lost only when one write to the file is interrupted five times; that a
  file transaction renames its file only after the writes, the flush and the closing have returned; that
  fields of records do not overlap and are aligned, that sorting an array of records gives its sorted permutation, that arrays survive the way
  through a file, that owning containers, the cache and shared pointers delete each object once and when they should
  (for objects whose destructors leave them alone), which lines a logger writes, the error a malformed input gives, the grammar of
  the recognisers, and the acceptance of whole configuration documents with their effect. Several theorems state what
  the code does where it departs from what it means to do; the manifest lists those.

  \<^bold>\<open>Bounds.\<close> Machine integers whose wrap-around matters are words of their width: bits and codes, the literals, the counters of the
  tree, of tables and of references, the rows and columns of tables, indices and sizes of records and of their arrays. Quantities that a
  capacity or the memory bounds are natural numbers: slots and sizes inside a node of the tree, lengths of strings and buffers,
  positions in a text; where the code converts one of them to a narrower type, the conversion is written out. Offsets and sizes of files
  are integers. In the calendar, years, months and day numbers are integers; \<open>AddDays\<close> and \<open>SubDays\<close> test every result against
  the 32 bits of \<^verbatim>\<open>int\<close> and answer \<open>INT_OVERFLOW\<close> for what is undefined in C++, the other operations do not and are modelled
  as long as their results fit. No fuel is used; a loop whose end needs an
  argument carries a measure or is a partial function that is proved to return. A loop over system calls that may be
  interrupted for ever is the exception \<open>DoesNotReturn\<close> then, and the theorems about it conclude that it returns. Arrays of records are sorted up to
  \<open>2 ^ 30\<close> records, because the sum of two indices is an \<^verbatim>\<open>int\<close>; layouts of records are at most \<open>2 ^ 31\<close> bytes, as sizes are rounded up in 32 bits.

  \<^bold>\<open>Not modelled.\<close> The system calls themselves (a parameter), sockets, processes and services, databases and PCRE, the Perl and nginx
  glue, superseded code and tests; of the tree, what nothing calls and what prints. The deletion of the tree is modelled and
  its fault shown, but there is no theorem that it is right where the fault does not occur. Of the variant values the reference counts,
  the visitors and the iterators are left out. Sockets, signals, processes and users are sequences of system calls, and the database
  connections sequences of calls of client libraries, which have no logic of their own to state; regular expressions are matched
  by PCRE. The readers of directories are loops over \<^verbatim>\<open>readdir\<close>.
\<close>

end
